(* ===== verification/HS_Prelude.thy ===== *)
theory HS_Prelude
  imports Main "HOL-Library.Word" "HOL-Library.Monad_Syntax"
begin

text \<open>
  Shared vocabulary of the development: the machine integers of the server, raw memory
  blocks with checked accesses, the two ordered containers the C++ code uses everywhere
  (\<open>std::map\<close> and \<open>std::set\<close>), and the fields of the packets a handler sends.

  Undefined behaviour of the C++ (an access outside a block, a null dereference, a failed
  \<open>ASSERT\<close>) is the value \<^term>\<open>None\<close> of an option, so that a theorem
  which says that an operation returns \<^term>\<open>Some\<close> value is a memory-safety statement.
\<close>

section \<open>Machine integers and automation\<close>

type_synonym u8 = "8 word"
type_synonym u16 = "16 word"
type_synonym u32 = "32 word"
type_synonym u64 = "64 word"

text \<open>Subtraction of two \<open>size_t\<close> values: it wraps around modulo \<open>2 ^ 64\<close>.\<close>

definition size_sub :: "nat \<Rightarrow> nat \<Rightarrow> nat" where
  "size_sub x y = (if y \<le> x then x - y else 2 ^ 64 + x - y)"

lemma size_sub_le [simp]: "y \<le> x \<Longrightarrow> size_sub x y = x - y"
  by (simp add: size_sub_def)

text \<open>\<open>Object::ModUnsigned32Value\<close>: a result whose sign bit is set becomes 0.\<close>

definition ModUnsigned32Value :: "u32 \<Rightarrow> u32 \<Rightarrow> u32" where
  "ModUnsigned32Value v m = (if m = 0 then v else if sint (v + m) < 0 then 0 else v + m)"

named_theorems hs_defs \<open>definitions that component proofs unfold\<close>
named_theorems hs_inv \<open>preservation lemmas of component invariants\<close>

section \<open>Memory blocks\<close>

text \<open>
  A block is the list of its cells; an address is an offset into it. \<open>mem_read\<close> and
  \<open>mem_write\<close> are \<open>memcpy\<close> out of and into the block.
\<close>

definition mem_read :: "'a list \<Rightarrow> nat \<Rightarrow> nat \<Rightarrow> 'a list option" where
  "mem_read mem p n = (if p + n \<le> length mem then Some (take n (drop p mem)) else None)"

definition mem_splice :: "'a list \<Rightarrow> nat \<Rightarrow> 'a list \<Rightarrow> 'a list" where
  "mem_splice mem p bs = take p mem @ bs @ drop (p + length bs) mem"

definition mem_write :: "'a list \<Rightarrow> nat \<Rightarrow> 'a list \<Rightarrow> 'a list option" where
  "mem_write mem p bs = (if p + length bs \<le> length mem then Some (mem_splice mem p bs) else None)"

lemma mem_read_Some [simp]: "p + n \<le> length mem \<Longrightarrow> mem_read mem p n = Some (take n (drop p mem))"
  by (simp add: mem_read_def)

lemma mem_read_None [simp]: "length mem < p + n \<Longrightarrow> mem_read mem p n = None"
  by (simp add: mem_read_def)

lemma mem_write_Some [simp]:
  "p + length bs \<le> length mem \<Longrightarrow> mem_write mem p bs = Some (mem_splice mem p bs)"
  by (simp add: mem_write_def)

lemma length_mem_splice [simp]: "p + length bs \<le> length mem \<Longrightarrow> length (mem_splice mem p bs) = length mem"
  by (simp add: mem_splice_def)

lemma nth_mem_splice:
  assumes "p + length bs \<le> length mem" "i < length mem"
  shows "mem_splice mem p bs ! i = (if p \<le> i \<and> i < p + length bs then bs ! (i - p) else mem ! i)"
  using assms by (auto simp: mem_splice_def nth_append min_def)

text \<open>Writing right behind a region extends it; writing elsewhere leaves it alone.\<close>

lemma mem_splice_behind:
  assumes "a + n + length bs \<le> length mem"
  shows "take (n + length bs) (drop a (mem_splice mem (a + n) bs)) = take n (drop a mem) @ bs"
  by (rule nth_equalityI) (use assms in \<open>auto simp: nth_mem_splice nth_append\<close>)

lemma mem_splice_disjoint:
  assumes "p + length bs \<le> length mem" "q + n \<le> length mem" "q + n \<le> p \<or> p + length bs \<le> q"
  shows "take n (drop q (mem_splice mem p bs)) = take n (drop q mem)"
  by (rule nth_equalityI) (use assms in \<open>auto simp: nth_mem_splice\<close>)

lemma mem_splice_at:
  assumes "p + length bs \<le> length mem"
  shows "take (length bs) (drop p (mem_splice mem p bs)) = bs"
  by (rule nth_equalityI) (use assms in \<open>auto simp: nth_mem_splice\<close>)

lemma mem_splice_Nil [simp]: "mem_splice mem p [] = mem"
  by (simp add: mem_splice_def)

section \<open>Ordered containers\<close>

text \<open>
  A \<open>std::map\<close> is the association list of its entries in key order, which is the order
  in which the code iterates over it; a \<open>std::set\<close> is its sorted list of elements.
  \<open>insert\<close> does not overwrite an existing key.
\<close>

fun map_insert :: "'k::linorder \<Rightarrow> 'v \<Rightarrow> ('k \<times> 'v) list \<Rightarrow> ('k \<times> 'v) list" where
  "map_insert k v [] = [(k, v)]"
| "map_insert k v ((k', v') # m) =
     (if k < k' then (k, v) # (k', v') # m
      else if k = k' then (k', v') # m
      else (k', v') # map_insert k v m)"

definition map_erase :: "'k \<Rightarrow> ('k \<times> 'v) list \<Rightarrow> ('k \<times> 'v) list" where
  "map_erase k m = filter (\<lambda>p. fst p \<noteq> k) m"

definition map_adjust :: "'k \<Rightarrow> ('v \<Rightarrow> 'v) \<Rightarrow> ('k \<times> 'v) list \<Rightarrow> ('k \<times> 'v) list" where
  "map_adjust k f m = map (\<lambda>(k', v). (k', if k' = k then f v else v)) m"

definition map_ok :: "('k::linorder \<times> 'v) list \<Rightarrow> bool" where
  "map_ok m \<longleftrightarrow> sorted (map fst m) \<and> distinct (map fst m)"

lemma map_ok_Nil [simp]: "map_ok []"
  by (simp add: map_ok_def)

lemma set_map_insert: "set (map_insert k v m) \<subseteq> insert (k, v) (set m)"
  by (induction k v m rule: map_insert.induct) auto

lemma keys_map_insert [simp]: "fst ` set (map_insert k v m) = insert k (fst ` set m)"
  by (induction k v m rule: map_insert.induct) auto

lemma map_of_map_insert [simp]:
  assumes "map_ok m"
  shows "map_of (map_insert k v m) =
    (if k \<in> fst ` set m then map_of m else (map_of m)(k \<mapsto> v))"
  using assms
proof (induction k v m rule: map_insert.induct)
  case (2 k v k' v' m)
  then show ?case
    by (cases "k < k'"; cases "k = k'") (auto simp: map_ok_def fun_eq_iff)
qed auto

lemma map_ok_insert [simp]: "map_ok m \<Longrightarrow> map_ok (map_insert k v m)"
proof (induction k v m rule: map_insert.induct)
  case (2 k v k' v' m)
  then have "map_ok m" by (auto simp: map_ok_def)
  with 2 show ?case
    by (cases "k < k'"; cases "k = k'")
      (auto simp: map_ok_def dest!: order.strict_implies_order)
qed (simp add: map_ok_def)

lemma map_of_map_erase [simp]: "map_of (map_erase k m) = (map_of m)(k := None)"
  by (induction m) (auto simp: map_erase_def fun_eq_iff)

lemma keys_map_erase [simp]: "fst ` set (map_erase k m) = fst ` set m - {k}"
  by (auto simp: map_erase_def)

lemma map_ok_erase [simp]: "map_ok m \<Longrightarrow> map_ok (map_erase k m)"
  unfolding map_ok_def map_erase_def
  by (auto simp: distinct_map_filter intro: sorted_filter)

lemma map_of_map_adjust [simp]:
  "map_of (map_adjust k f m) = (map_of m)(k := map_option f (map_of m k))"
  by (induction m) (auto simp: map_adjust_def fun_eq_iff)

lemma map_fst_map_adjust [simp]: "map fst (map_adjust k f m) = map fst m"
  by (induction m) (auto simp: map_adjust_def)

lemma map_ok_adjust [simp]: "map_ok (map_adjust k f m) = map_ok m"
  by (simp add: map_ok_def)

lemma set_map_insert_new: "k \<notin> fst ` set m \<Longrightarrow> set (map_insert k v m) = insert (k, v) (set m)"
  by (induction k v m rule: map_insert.induct) (auto split: if_splits)

lemma distinct_map_map_insert:
  "k \<notin> fst ` set m \<Longrightarrow> distinct (map f (map_insert k v m)) \<longleftrightarrow> distinct (map f ((k, v) # m))"
proof (induction k v m rule: map_insert.induct)
  case (2 k v k' v' m)
  then have "set (map_insert k v m) = insert (k, v) (set m)"
    by (intro set_map_insert_new) simp
  with 2 show ?case by auto
qed simp

lemma map_of_eq_None_keys: "map_of m k = None \<longleftrightarrow> k \<notin> fst ` set m"
  by (rule map_of_eq_None_iff)

definition set_erase :: "'a \<Rightarrow> 'a list \<Rightarrow> 'a list" where
  "set_erase x xs = filter (\<lambda>y. y \<noteq> x) xs"

definition set_ok :: "'a::linorder list \<Rightarrow> bool" where
  "set_ok xs \<longleftrightarrow> sorted xs \<and> distinct xs"

lemma set_ok_Nil [simp]: "set_ok []"
  by (simp add: set_ok_def)

lemma set_ok_insert [simp]: "set_ok xs \<Longrightarrow> set_ok (insort_insert x xs)"
  by (simp add: set_ok_def sorted_insort_insert distinct_insort_insert)

lemma set_ok_erase [simp]: "set_ok xs \<Longrightarrow> set_ok (set_erase x xs)"
  unfolding set_ok_def set_erase_def
  using sorted_filter [of "\<lambda>x. x" xs] by simp

lemma set_set_erase [simp]: "set (set_erase x xs) = set xs - {x}"
  by (auto simp: set_erase_def)

lemma length_insort_insert_notin: "x \<notin> set xs \<Longrightarrow> length (insort_insert x xs) = Suc (length xs)"
  by (simp add: insort_insert_key_def)

lemma set_ok_distinct: "set_ok xs \<Longrightarrow> distinct xs"
  by (simp add: set_ok_def)

lemma distinct_set_erase [simp]: "distinct xs \<Longrightarrow> distinct (set_erase x xs)"
  by (simp add: set_erase_def)

lemma length_set_erase:
  assumes "distinct xs"
  shows "length (set_erase x xs) = length xs - (if x \<in> set xs then 1 else 0)"
proof -
  have "length (set_erase x xs) = card (set xs - {x})"
    using distinct_card [OF distinct_set_erase [OF assms, of x]] by simp
  moreover have "card (set xs) = length xs"
    by (rule distinct_card [OF assms])
  ultimately show ?thesis by (simp add: card_Diff_singleton_if)
qed

section \<open>Loops that may fail\<close>

fun foldM :: "('s \<Rightarrow> 'a \<Rightarrow> 's option) \<Rightarrow> 's \<Rightarrow> 'a list \<Rightarrow> 's option" where
  "foldM f s [] = Some s"
| "foldM f s (x # xs) = do { s' \<leftarrow> f s x; foldM f s' xs }"

lemma foldM_inv:
  assumes "P s" "\<And>s x. x \<in> set xs \<Longrightarrow> P s \<Longrightarrow> \<exists>s'. f s x = Some s' \<and> P s'"
  shows "\<exists>s'. foldM f s xs = Some s' \<and> P s'"
  using assms
proof (induction xs arbitrary: s)
  case (Cons x xs)
  obtain s1 where "f s x = Some s1" "P s1" using Cons.prems by (metis list.set_intros(1))
  moreover obtain s2 where "foldM f s1 xs = Some s2" "P s2" using Cons.IH [OF \<open>P s1\<close>] Cons.prems(2) by auto
  ultimately show ?case by simp
qed simp

section \<open>Packets\<close>

text \<open>The typed fields that \<open>WorldPacket::operator<<\<close> appends to a packet, in order.\<close>

datatype pfield = U8 u8 | U16 u16 | U32 u32 | U64 u64 | Str string

text \<open>A packet is its opcode, by the name the source gives it, and its fields.\<close>

type_synonym packet = "string \<times> pfield list"

section \<open>C strings\<close>

text \<open>
  \<open>stricmp\<close> and \<open>strnicmp\<close> compare without regard to the case of the ASCII letters; the
  strings are NUL-free (they are read from packets up to their terminator).
\<close>

definition to_lower :: "char \<Rightarrow> char" where
  "to_lower c = (if (65::nat) \<le> of_char c \<and> of_char c \<le> (90::nat) then char_of (of_char c + 32 :: nat) else c)"

definition stricmp_eq :: "string \<Rightarrow> string \<Rightarrow> bool" where
  "stricmp_eq s t \<longleftrightarrow> map to_lower s = map to_lower t"

definition strnicmp_eq :: "string \<Rightarrow> string \<Rightarrow> nat \<Rightarrow> bool" where
  "strnicmp_eq s t n \<longleftrightarrow> map to_lower (take n s) = map to_lower (take n t)"

lemma stricmp_eq_refl [simp]: "stricmp_eq s s"
  by (simp add: stricmp_eq_def)

lemma stricmp_eq_sym: "stricmp_eq s t \<longleftrightarrow> stricmp_eq t s"
  by (auto simp: stricmp_eq_def)

lemma stricmp_eq_trans: "stricmp_eq s t \<Longrightarrow> stricmp_eq t r \<Longrightarrow> stricmp_eq s r"
  by (simp add: stricmp_eq_def)

section \<open>Flag words\<close>

definition has_flag :: "'a::len word \<Rightarrow> 'a word \<Rightarrow> bool" where
  "has_flag w f \<longleftrightarrow> and w f \<noteq> 0"

definition flag_set :: "'a::len word \<Rightarrow> 'a word \<Rightarrow> 'a word" where
  "flag_set w f = or w f"

definition flag_clear :: "'a::len word \<Rightarrow> 'a word \<Rightarrow> 'a word" where
  "flag_clear w f = and w (not f)"

lemma has_flag_set [simp]: "has_flag (flag_set w f) g \<longleftrightarrow> has_flag w g \<or> has_flag f g"
  unfolding has_flag_def flag_set_def
  by (auto simp: bit_eq_iff bit_simps)

lemma has_flag_clear_same [simp]: "\<not> has_flag (flag_clear w f) f"
  by (auto simp: has_flag_def flag_clear_def bit_eq_iff bit_simps)

lemma has_flag_clear_disj: "and f g = 0 \<Longrightarrow> has_flag (flag_clear w f) g = has_flag w g"
  unfolding has_flag_def flag_clear_def
  by (auto simp: bit_eq_iff bit_simps)

lemma has_flag_0 [simp]: "\<not> has_flag 0 f"
  by (simp add: has_flag_def)

end
