(* ===== verification/HS_RingBuffer.thy ===== *)
theory HS_RingBuffer
  imports HS_Prelude
begin

text \<open>
  The socket byte buffers: \<open>CircularBuffer\<close> (\<open>Network/CircularBuffer.cpp\<close>, a two-region
  "bip" buffer) and \<open>StraightBuffer\<close> (\<open>Network-New/StraightBuffer.h\<close>). Pointers into the
  block are offsets, \<open>NULL\<close> for region B is \<^term>\<open>None\<close>. Offsets and sizes are natural numbers, which
  is what \<open>size_t\<close> is as long as a sum of two sizes stays below its bound: the blocks are allocated, and a
  request that would wrap is not modelled. The contract both promise to the socket code is the locale
  \<open>byte_fifo\<close>.
\<close>

section \<open>The contract\<close>

text \<open>
  \<open>wr\<close> appends or refuses, \<open>rd\<close> takes from the front. The laws say when each is defined and
  what it does to the stored bytes \<open>cont\<close>; \<open>can\<close> is the condition under which a write is
  accepted.
\<close>

locale byte_fifo =
  fixes ok :: "'b \<Rightarrow> bool"
    and cont :: "'b \<Rightarrow> u8 list"
    and can :: "'b \<Rightarrow> nat \<Rightarrow> bool"
    and wr :: "'b \<Rightarrow> u8 list \<Rightarrow> (bool \<times> 'b) option"
    and rem :: "'b \<Rightarrow> nat \<Rightarrow> 'b option"
    and may :: "'b \<Rightarrow> nat \<Rightarrow> bool"
  assumes wr_accept: "ok b \<Longrightarrow> can b (length bs) \<Longrightarrow>
      \<exists>b'. wr b bs = Some (True, b') \<and> ok b' \<and> cont b' = cont b @ bs"
    and rem_ok: "ok b \<Longrightarrow> n \<le> length (cont b) \<Longrightarrow> may b n \<Longrightarrow>
      \<exists>b'. rem b n = Some b' \<and> ok b' \<and> cont b' = drop n (cont b)"
begin

text \<open>A send queue: what was written is what a later removal of the old bytes leaves.\<close>

lemma write_then_remove:
  assumes "ok b" "can b (length bs)"
    and "\<And>b'. wr b bs = Some (True, b') \<Longrightarrow> may b' (length (cont b))"
  shows "\<exists>b1 b2. wr b bs = Some (True, b1) \<and> rem b1 (length (cont b)) = Some b2 \<and> cont b2 = bs"
proof -
  obtain b1 where 1: "wr b bs = Some (True, b1)" "ok b1" "cont b1 = cont b @ bs"
    using wr_accept [OF assms(1,2)] by blast
  have "may b1 (length (cont b))" by (rule assms(3) [OF 1(1)])
  moreover have "length (cont b) \<le> length (cont b1)" using 1(3) by simp
  ultimately obtain b2 where "rem b1 (length (cont b)) = Some b2" "cont b2 = drop (length (cont b)) (cont b1)"
    using rem_ok [OF 1(2)] by blast
  with 1 show ?thesis by auto
qed

text \<open>Writing two chunks one after the other stores their concatenation.\<close>

lemma write_write:
  assumes "ok b" "can b (length xs)"
    and "\<And>b'. wr b xs = Some (True, b') \<Longrightarrow> can b' (length ys)"
  shows "\<exists>b1 b2. wr b xs = Some (True, b1) \<and> wr b1 ys = Some (True, b2) \<and>
    ok b2 \<and> cont b2 = cont b @ (xs @ ys)"
proof -
  obtain b1 where 1: "wr b xs = Some (True, b1)" "ok b1" "cont b1 = cont b @ xs"
    using wr_accept [OF assms(1,2)] by blast
  from wr_accept [OF 1(2) assms(3) [OF 1(1)]] 1 show ?thesis by fastforce
qed

end

section \<open>CircularBuffer\<close>

record circ_buf =
  cb_mem :: "u8 list"        \<comment> \<open>the block from \<open>m_buffer\<close> to \<open>m_bufferEnd\<close>\<close>
  cb_a :: nat                \<comment> \<open>\<open>m_regionAPointer - m_buffer\<close>\<close>
  cb_asize :: nat            \<comment> \<open>\<open>m_regionASize\<close>\<close>
  cb_b :: "nat option"       \<comment> \<open>\<open>m_regionBPointer - m_buffer\<close>, or \<open>NULL\<close>\<close>
  cb_bsize :: nat            \<comment> \<open>\<open>m_regionBSize\<close>\<close>

definition cb_new :: circ_buf where
  "cb_new = \<lparr>cb_mem = [], cb_a = 0, cb_asize = 0, cb_b = None, cb_bsize = 0\<rparr>"

text \<open>\<open>Allocate\<close>: \<open>malloc\<close> returns the block \<open>blk\<close>, whose contents are arbitrary.\<close>

definition cb_allocate :: "circ_buf \<Rightarrow> u8 list \<Rightarrow> circ_buf" where
  "cb_allocate c blk = c\<lparr>cb_mem := blk, cb_a := 0\<rparr>"

definition cb_a_free :: "circ_buf \<Rightarrow> nat" where
  "cb_a_free c = size_sub (size_sub (length (cb_mem c)) (cb_a c)) (cb_asize c)"

definition cb_space_before_a :: "circ_buf \<Rightarrow> nat" where
  "cb_space_before_a c = cb_a c"

definition cb_b_free :: "circ_buf \<Rightarrow> nat" where
  "cb_b_free c = (case cb_b c of None \<Rightarrow> 0 | Some b \<Rightarrow> size_sub (size_sub (cb_a c) b) (cb_bsize c))"

definition cb_allocate_b :: "circ_buf \<Rightarrow> circ_buf" where
  "cb_allocate_b c = c\<lparr>cb_b := Some 0\<rparr>"

text \<open>The tail shared by \<open>Read\<close> and \<open>Remove\<close>: an empty region A takes over region B.\<close>

definition cb_promote :: "circ_buf \<Rightarrow> circ_buf option" where
  "cb_promote c =
     (if cb_asize c = 0
      then if cb_bsize c > 0
        then do {
          b \<leftarrow> cb_b c;
          mem \<leftarrow> (if b \<noteq> 0 then do { bs \<leftarrow> mem_read (cb_mem c) b (cb_bsize c); mem_write (cb_mem c) 0 bs }
                  else Some (cb_mem c));
          Some (c\<lparr>cb_mem := mem, cb_a := 0, cb_asize := cb_bsize c, cb_b := None, cb_bsize := 0\<rparr>)
        }
        else Some (c\<lparr>cb_b := None, cb_bsize := 0, cb_a := 0, cb_asize := 0\<rparr>)
      else Some c)"

text \<open>
  \<open>Read\<close>: the result flag, the bytes copied to \<open>destination\<close>, the new buffer.
\<close>

definition cb_read :: "circ_buf \<Rightarrow> nat \<Rightarrow> (bool \<times> u8 list \<times> circ_buf) option" where
  "cb_read c bytes =
     (if cb_asize c + cb_bsize c < bytes then Some (False, [], c)
      else do {
        (c, outA, cnt) \<leftarrow>
          (if cb_asize c > 0
           then do {
             let aRead = (if bytes > cb_asize c then cb_asize c else bytes);
             bs \<leftarrow> mem_read (cb_mem c) (cb_a c) aRead;
             Some (c\<lparr>cb_asize := cb_asize c - aRead, cb_a := cb_a c + aRead\<rparr>, bs, bytes - aRead)
           }
           else Some (c, [], bytes));
        (c, outB) \<leftarrow>
          (if cnt > 0 \<and> cb_bsize c > 0
           then do {
             let bRead = (if cnt > cb_bsize c then cb_bsize c else cnt);
             b \<leftarrow> cb_b c;
             bs \<leftarrow> mem_read (cb_mem c) b bRead;
             Some (c\<lparr>cb_bsize := cb_bsize c - bRead, cb_b := Some (b + bRead)\<rparr>, bs)
           }
           else Some (c, []));
        c \<leftarrow> cb_promote c;
        Some (True, outA @ outB, c)
      })"

definition cb_remove :: "circ_buf \<Rightarrow> nat \<Rightarrow> circ_buf option" where
  "cb_remove c len =
     do {
       (c, cnt) \<leftarrow>
         (if cb_asize c > 0
          then do {
            let aRem = (if len > cb_asize c then cb_asize c else len);
            Some (c\<lparr>cb_asize := cb_asize c - aRem, cb_a := cb_a c + aRem\<rparr>, len - aRem)
          }
          else Some (c, len));
       c \<leftarrow>
         (if cnt > 0 \<and> cb_bsize c > 0
          then do {
            let bRem = (if cnt > cb_bsize c then cb_bsize c else cnt);
            b \<leftarrow> cb_b c;
            Some (c\<lparr>cb_bsize := cb_bsize c - bRem, cb_b := Some (b + bRem)\<rparr>)
          }
          else Some c);
       cb_promote c
     }"

text \<open>\<open>Write\<close>, with the two copies of the "append to region B" code as one definition.\<close>

definition cb_write_b :: "circ_buf \<Rightarrow> u8 list \<Rightarrow> (bool \<times> circ_buf) option" where
  "cb_write_b c data =
     (if cb_b_free c < length data then Some (False, c)
      else do {
        b \<leftarrow> cb_b c;
        mem \<leftarrow> mem_write (cb_mem c) (b + cb_bsize c) data;
        Some (True, c\<lparr>cb_mem := mem, cb_bsize := cb_bsize c + length data\<rparr>)
      })"

definition cb_write :: "circ_buf \<Rightarrow> u8 list \<Rightarrow> (bool \<times> circ_buf) option" where
  "cb_write c data =
     (if cb_b c \<noteq> None then cb_write_b c data
      else if cb_a_free c < cb_space_before_a c then cb_write_b (cb_allocate_b c) data
      else if cb_a_free c < length data then Some (False, c)
      else do {
        mem \<leftarrow> mem_write (cb_mem c) (cb_a c + cb_asize c) data;
        Some (True, c\<lparr>cb_mem := mem, cb_asize := cb_asize c + length data\<rparr>)
      })"

definition cb_get_space :: "circ_buf \<Rightarrow> nat \<times> circ_buf" where
  "cb_get_space c =
     (if cb_b c \<noteq> None then (cb_b_free c, c)
      else if cb_a_free c < cb_space_before_a c
        then (let c' = cb_allocate_b c in (cb_b_free c', c'))
        else (cb_a_free c, c))"

definition cb_get_size :: "circ_buf \<Rightarrow> nat" where
  "cb_get_size c = cb_asize c + cb_bsize c"

definition cb_contiguous :: "circ_buf \<Rightarrow> nat" where
  "cb_contiguous c = (if cb_asize c \<noteq> 0 then cb_asize c else cb_bsize c)"

definition cb_get_buffer :: "circ_buf \<Rightarrow> nat" where
  "cb_get_buffer c = (case cb_b c of Some b \<Rightarrow> b + cb_bsize c | None \<Rightarrow> cb_a c + cb_asize c)"

definition cb_increment_written :: "circ_buf \<Rightarrow> nat \<Rightarrow> circ_buf" where
  "cb_increment_written c len =
     (if cb_b c \<noteq> None then c\<lparr>cb_bsize := cb_bsize c + len\<rparr> else c\<lparr>cb_asize := cb_asize c + len\<rparr>)"

definition cb_buffer_start :: "circ_buf \<Rightarrow> nat option" where
  "cb_buffer_start c = (if cb_asize c > 0 then Some (cb_a c) else cb_b c)"


subsection \<open>Invariant and stored bytes\<close>

text \<open>
  Both regions lie in the block, region B starts at the block's first byte and ends before
  region A, and B exists only while A holds data. The stored bytes are A's, then B's.
\<close>

definition cb_inv :: "circ_buf \<Rightarrow> bool" where
  "cb_inv c \<longleftrightarrow>
     cb_a c + cb_asize c \<le> length (cb_mem c) \<and>
     (cb_asize c = 0 \<longrightarrow> cb_a c = 0) \<and>
     (case cb_b c of None \<Rightarrow> cb_bsize c = 0
      | Some b \<Rightarrow> b = 0 \<and> cb_bsize c \<le> cb_a c \<and> 0 < cb_asize c)"

definition cb_contents :: "circ_buf \<Rightarrow> u8 list" where
  "cb_contents c = take (cb_asize c) (drop (cb_a c) (cb_mem c)) @
     (case cb_b c of None \<Rightarrow> [] | Some b \<Rightarrow> take (cb_bsize c) (drop b (cb_mem c)))"

definition cb_space :: "circ_buf \<Rightarrow> nat" where
  "cb_space c = fst (cb_get_space c)"

lemma cb_inv_allocate: "cb_inv (cb_allocate cb_new blk) \<and> cb_contents (cb_allocate cb_new blk) = []"
  by (simp add: cb_inv_def cb_allocate_def cb_new_def cb_contents_def)

lemma length_cb_contents: "cb_inv c \<Longrightarrow> length (cb_contents c) = cb_get_size c"
  by (auto simp: cb_inv_def cb_contents_def cb_get_size_def split: option.splits)

lemma cb_inv_allocate_b:
  assumes "cb_inv c" "cb_b c = None" "cb_a_free c < cb_space_before_a c"
  shows "cb_inv (cb_allocate_b c) \<and> cb_contents (cb_allocate_b c) = cb_contents c \<and>
    cb_b_free (cb_allocate_b c) = cb_a c"
  using assms
  by (auto simp: cb_inv_def cb_allocate_b_def cb_contents_def cb_space_before_a_def cb_b_free_def)

lemma cb_write_b_spec:
  assumes "cb_inv c" "cb_b c \<noteq> None"
  shows "\<exists>c'. cb_write_b c bs = Some (length bs \<le> cb_b_free c, c') \<and> cb_inv c' \<and>
    cb_contents c' = (if length bs \<le> cb_b_free c then cb_contents c @ bs else cb_contents c)"
proof (cases "cb_b_free c < length bs")
  case True
  then show ?thesis using assms by (simp add: cb_write_b_def)
next
  case False
  from assms obtain b where b: "cb_b c = Some 0" "cb_bsize c \<le> cb_a c" "0 < cb_asize c"
      "cb_a c + cb_asize c \<le> length (cb_mem c)"
    by (auto simp: cb_inv_def split: option.splits)
  with False have fits: "cb_bsize c + length bs \<le> cb_a c"
    by (simp add: cb_b_free_def)
  with b have inb: "cb_bsize c + length bs \<le> length (cb_mem c)" by simp
  have A: "take (cb_asize c) (drop (cb_a c) (mem_splice (cb_mem c) (cb_bsize c) bs)) =
      take (cb_asize c) (drop (cb_a c) (cb_mem c))"
    by (rule mem_splice_disjoint) (use b fits in auto)
  have B: "take (cb_bsize c + length bs) (mem_splice (cb_mem c) (cb_bsize c) bs) =
      take (cb_bsize c) (cb_mem c) @ bs"
    using mem_splice_behind [of 0 "cb_bsize c" bs "cb_mem c"] inb by simp
  from False b fits inb A B show ?thesis
    by (simp add: cb_write_b_def cb_inv_def cb_contents_def)
qed

lemma cb_write_spec:
  assumes "cb_inv c"
  shows "\<exists>c'. cb_write c bs = Some (length bs \<le> cb_space c, c') \<and> cb_inv c' \<and>
    cb_contents c' = (if length bs \<le> cb_space c then cb_contents c @ bs else cb_contents c)"
proof (cases "cb_b c = None")
  case False
  then show ?thesis
    using cb_write_b_spec [OF assms False, of bs]
    by (simp add: cb_write_def cb_space_def cb_get_space_def)
next
  case None: True
  show ?thesis
  proof (cases "cb_a_free c < cb_space_before_a c")
    case True
    note ab = cb_inv_allocate_b [OF assms None True]
    have "cb_b (cb_allocate_b c) \<noteq> None" by (simp add: cb_allocate_b_def)
    from cb_write_b_spec [OF conjunct1 [OF ab] this, of bs] ab None True show ?thesis
      by (auto simp: cb_write_def cb_space_def cb_get_space_def)
  next
    case False
    from assms None have inv: "cb_a c + cb_asize c \<le> length (cb_mem c)" "cb_bsize c = 0"
        "cb_asize c = 0 \<longrightarrow> cb_a c = 0"
      by (auto simp: cb_inv_def)
    then have free: "cb_a_free c = length (cb_mem c) - (cb_a c + cb_asize c)"
      by (simp add: cb_a_free_def)
    show ?thesis
    proof (cases "cb_a_free c < length bs")
      case True
      with None False assms show ?thesis
        by (simp add: cb_write_def cb_space_def cb_get_space_def)
    next
      case fits: False
      with free inv have "cb_a c + cb_asize c + length bs \<le> length (cb_mem c)" by simp
      with None False fits inv show ?thesis
        using mem_splice_behind [of "cb_a c" "cb_asize c" bs "cb_mem c"]
        by (auto simp: cb_write_def cb_space_def cb_get_space_def cb_inv_def cb_contents_def
            cb_space_before_a_def)
    qed
  qed
qed

subsection \<open>Taking bytes out\<close>

lemma cb_promote_spec:
  assumes "cb_a c + cb_asize c \<le> length (cb_mem c)"
    and "case cb_b c of None \<Rightarrow> cb_bsize c = 0
      | Some b \<Rightarrow> b + cb_bsize c \<le> cb_a c \<and> (0 < cb_asize c \<longrightarrow> b = 0)"
  shows "\<exists>c'. cb_promote c = Some c' \<and> cb_inv c' \<and> cb_contents c' = cb_contents c"
proof (cases "cb_asize c = 0 \<and> 0 < cb_bsize c")
  case False
  with assms show ?thesis
    by (auto simp: cb_promote_def cb_inv_def cb_contents_def split: option.splits)
next
  case True
  with assms obtain b where b: "cb_b c = Some b" "b + cb_bsize c \<le> cb_a c"
      "cb_a c \<le> length (cb_mem c)"
    by (auto split: option.splits)
  then have inb: "b + cb_bsize c \<le> length (cb_mem c)" by simp
  let ?bs = "take (cb_bsize c) (drop b (cb_mem c))"
  have len: "length ?bs = cb_bsize c" using inb by simp
  have "take (cb_bsize c) (mem_splice (cb_mem c) 0 ?bs) = ?bs"
    using mem_splice_at [of 0 ?bs "cb_mem c"] len inb by simp
  with True b inb len show ?thesis
    by (auto simp: cb_promote_def cb_inv_def cb_contents_def)
qed

lemma cb_remove_spec:
  assumes "cb_inv c"
  shows "\<exists>c'. cb_remove c n = Some c' \<and> cb_inv c' \<and> cb_contents c' = drop n (cb_contents c)"
proof -
  define c1 where "c1 = c\<lparr>cb_asize := cb_asize c - min n (cb_asize c), cb_a := cb_a c + min n (cb_asize c)\<rparr>"
  define k where "k = min (n - cb_asize c) (cb_bsize c)"
  define c2 where "c2 = (if 0 < k then c1\<lparr>cb_bsize := cb_bsize c - k, cb_b := Some k\<rparr> else c1)"
  have step: "cb_remove c n = cb_promote c2"
    using assms
    by (cases c) (auto simp: cb_remove_def c2_def k_def c1_def cb_inv_def min_def Let_def
        split: option.splits)
  have "cb_a c2 + cb_asize c2 \<le> length (cb_mem c2)"
    using assms by (auto simp: c2_def c1_def cb_inv_def)
  moreover have "case cb_b c2 of None \<Rightarrow> cb_bsize c2 = 0
      | Some b \<Rightarrow> b + cb_bsize c2 \<le> cb_a c2 \<and> (0 < cb_asize c2 \<longrightarrow> b = 0)"
    using assms by (auto simp: c2_def c1_def k_def cb_inv_def split: option.splits)
  ultimately obtain c' where "cb_promote c2 = Some c'" "cb_inv c'" "cb_contents c' = cb_contents c2"
    using cb_promote_spec by blast
  moreover have "cb_contents c2 = drop n (cb_contents c)"
  proof -
    let ?A = "take (cb_asize c) (drop (cb_a c) (cb_mem c))"
    let ?B = "take (cb_bsize c) (cb_mem c)"
    have len: "length ?A = cb_asize c" "length ?B = cb_bsize c"
      and cont: "cb_contents c = ?A @ ?B"
      using assms by (auto simp: cb_inv_def cb_contents_def split: option.splits)
    have A: "take (cb_asize c2) (drop (cb_a c2) (cb_mem c2)) = drop n ?A"
      by (simp add: c2_def c1_def min_def drop_take add.commute)
    have B: "(case cb_b c2 of None \<Rightarrow> [] | Some b \<Rightarrow> take (cb_bsize c2) (drop b (cb_mem c2))) =
        drop (n - cb_asize c) ?B"
      using assms by (cases "0 < k")
        (auto simp: c2_def c1_def k_def cb_inv_def min_def drop_take split: option.splits if_splits)
    show ?thesis unfolding cont cb_contents_def [of c2] A B by (simp only: drop_append len)
  qed
  ultimately show ?thesis using step by auto
qed

lemma cb_read_remove:
  assumes "cb_inv c" "n \<le> cb_get_size c"
  shows "cb_read c n = do { c' \<leftarrow> cb_remove c n; Some (True, take n (cb_contents c), c') }"
  using assms
  by (cases "cb_b c")
    (auto simp: cb_read_def cb_remove_def cb_get_size_def cb_inv_def cb_contents_def Let_def
      intro!: Option.bind_cong)

lemma cb_read_spec:
  assumes "cb_inv c"
  shows "\<exists>c'. cb_read c n = Some (n \<le> length (cb_contents c),
      if n \<le> length (cb_contents c) then take n (cb_contents c) else [], c') \<and> cb_inv c' \<and>
    cb_contents c' = (if n \<le> length (cb_contents c) then drop n (cb_contents c) else cb_contents c)"
proof (cases "n \<le> cb_get_size c")
  case True
  with assms cb_remove_spec [OF assms, of n] show ?thesis
    by (auto simp: cb_read_remove length_cb_contents)
next
  case False
  with assms show ?thesis
    by (auto simp: cb_read_def cb_get_size_def length_cb_contents)
qed


subsection \<open>Zero-copy receive: \<open>GetSpace\<close>, fill at \<open>GetBuffer\<close>, \<open>IncrementWritten\<close>\<close>

definition cb_receive :: "circ_buf \<Rightarrow> u8 list \<Rightarrow> circ_buf option" where
  "cb_receive c data =
     (let (n, c1) = cb_get_space c in
      do {
        mem \<leftarrow> mem_write (cb_mem c1) (cb_get_buffer c1) data;
        Some (cb_increment_written (c1\<lparr>cb_mem := mem\<rparr>) (length data))
      })"

lemma cb_write_receive:
  assumes "cb_inv c" "length data \<le> cb_space c"
  shows "cb_write c data = map_option (Pair True) (cb_receive c data)"
  using assms
  by (cases "cb_b c"; cases "cb_a_free c < cb_space_before_a c")
    (auto simp: cb_write_def cb_receive_def cb_write_b_def cb_space_def cb_get_space_def
      cb_get_buffer_def cb_increment_written_def cb_allocate_b_def Let_def
      split: Option.bind_splits)

lemma cb_receive_spec:
  assumes "cb_inv c" "length data \<le> cb_space c"
  shows "\<exists>c'. cb_receive c data = Some c' \<and> cb_inv c' \<and> cb_contents c' = cb_contents c @ data"
proof -
  from cb_write_spec [OF assms(1), of data] assms(2) obtain c'
    where "cb_write c data = Some (True, c')" "cb_inv c'" "cb_contents c' = cb_contents c @ data"
    by auto
  with cb_write_receive [OF assms] show ?thesis by (cases "cb_receive c data") auto
qed

text \<open>\<open>GetSpace\<close> may allocate region B: it changes neither the stored bytes nor the answer.\<close>

lemma cb_get_space_spec:
  assumes "cb_inv c" "cb_get_space c = (n, c')"
  shows "cb_inv c' \<and> cb_contents c' = cb_contents c \<and> cb_space c' = n"
  using assms cb_inv_allocate_b [OF assms(1)]
  by (cases "cb_b c")
    (auto simp: cb_get_space_def cb_space_def cb_allocate_b_def Let_def split: if_splits)

text \<open>The bytes that one \<open>send\<close> may push are a prefix of the stored bytes.\<close>

lemma cb_contiguous_prefix:
  assumes "cb_inv c" "cb_contents c \<noteq> []"
  shows "\<exists>p. cb_buffer_start c = Some p \<and> 0 < cb_contiguous c \<and>
    mem_read (cb_mem c) p (cb_contiguous c) = Some (take (cb_contiguous c) (cb_contents c))"
  using assms
  by (auto simp: cb_buffer_start_def cb_contiguous_def cb_inv_def cb_contents_def split: option.splits)

section \<open>StraightBuffer\<close>

text \<open>
  A linear buffer: \<open>sb_mem\<close> is the allocated block (\<open>space\<close> is its length), the stored
  bytes are its first \<open>sb_written\<close> bytes. Here the code moves data with \<open>memcpy\<close>, which C
  defines for disjoint ranges only: \<open>mem_copy\<close> is \<^term>\<open>None\<close> when source and target overlap.
\<close>

record straight_buf =
  sb_mem :: "u8 list"
  sb_written :: nat

definition mem_copy :: "u8 list \<Rightarrow> nat \<Rightarrow> nat \<Rightarrow> nat \<Rightarrow> u8 list option" where
  "mem_copy mem dst src n =
     (if n = 0 \<or> dst + n \<le> src \<or> src + n \<le> dst
      then do { bs \<leftarrow> mem_read mem src n; mem_write mem dst bs } else None)"

definition sb_new :: straight_buf where
  "sb_new = \<lparr>sb_mem = [], sb_written = 0\<rparr>"

definition sb_allocate :: "straight_buf \<Rightarrow> u8 list \<Rightarrow> straight_buf" where
  "sb_allocate s blk = s\<lparr>sb_mem := blk\<rparr>"

definition sb_read :: "straight_buf \<Rightarrow> nat \<Rightarrow> (bool \<times> u8 list \<times> straight_buf) option" where
  "sb_read s bytes =
     (if sb_written s < bytes
      then do { bs \<leftarrow> mem_read (sb_mem s) 0 bytes; Some (False, bs, s\<lparr>sb_written := 0\<rparr>) }
      else do {
        bs \<leftarrow> mem_read (sb_mem s) 0 bytes;
        mem \<leftarrow> mem_copy (sb_mem s) 0 bytes (sb_written s - bytes);
        Some (True, bs, s\<lparr>sb_mem := mem, sb_written := sb_written s - bytes\<rparr>)
      })"

definition sb_write :: "straight_buf \<Rightarrow> u8 list \<Rightarrow> (bool \<times> straight_buf) option" where
  "sb_write s data =
     (if sb_written s + length data > length (sb_mem s)
      then do {
        let bytes = size_sub (length (sb_mem s)) (sb_written s);
        mem \<leftarrow> (if bytes \<noteq> 0 then mem_write (sb_mem s) (sb_written s) (take bytes data)
                else Some (sb_mem s));
        Some (False, s\<lparr>sb_mem := mem, sb_written := length (sb_mem s)\<rparr>)
      }
      else do {
        mem \<leftarrow> mem_write (sb_mem s) (sb_written s) data;
        Some (True, s\<lparr>sb_mem := mem, sb_written := sb_written s + length data\<rparr>)
      })"

definition sb_get_space :: "straight_buf \<Rightarrow> nat" where
  "sb_get_space s = size_sub (length (sb_mem s)) (sb_written s)"

definition sb_get_size :: "straight_buf \<Rightarrow> nat" where
  "sb_get_size s = sb_written s"

text \<open>\<open>ASSERT(written >= len)\<close> is a guard.\<close>

definition sb_remove :: "straight_buf \<Rightarrow> nat \<Rightarrow> straight_buf option" where
  "sb_remove s len =
     (if len \<le> sb_written s
      then do {
        let w = sb_written s - len;
        mem \<leftarrow> (if w \<noteq> 0 then mem_copy (sb_mem s) 0 len w else Some (sb_mem s));
        Some (s\<lparr>sb_mem := mem, sb_written := w\<rparr>)
      }
      else None)"

definition sb_increment_written :: "straight_buf \<Rightarrow> nat \<Rightarrow> straight_buf option" where
  "sb_increment_written s len =
     (if sb_written s + len \<le> length (sb_mem s)
      then Some (s\<lparr>sb_written := sb_written s + len\<rparr>) else None)"

definition sb_inv :: "straight_buf \<Rightarrow> bool" where
  "sb_inv s \<longleftrightarrow> sb_written s \<le> length (sb_mem s)"

definition sb_contents :: "straight_buf \<Rightarrow> u8 list" where
  "sb_contents s = take (sb_written s) (sb_mem s)"

text \<open>The moves of \<open>Read\<close> and \<open>Remove\<close> are defined only when at least half of the bytes go.\<close>

definition sb_may_remove :: "straight_buf \<Rightarrow> nat \<Rightarrow> bool" where
  "sb_may_remove s n \<longleftrightarrow> n \<le> sb_written s \<and> (sb_written s - n \<le> n)"

lemma sb_shift:
  assumes "sb_inv s" "sb_may_remove s n"
  shows "mem_copy (sb_mem s) 0 n (sb_written s - n) =
      Some (mem_splice (sb_mem s) 0 (take (sb_written s - n) (drop n (sb_mem s)))) \<and>
    take (sb_written s - n) (mem_splice (sb_mem s) 0 (take (sb_written s - n) (drop n (sb_mem s)))) =
      drop n (sb_contents s)"
proof -
  let ?bs = "take (sb_written s - n) (drop n (sb_mem s))"
  from assms have le: "n + (sb_written s - n) \<le> length (sb_mem s)"
    by (simp add: sb_inv_def sb_may_remove_def)
  then have len: "length ?bs = sb_written s - n" by simp
  have "take (length ?bs) (drop 0 (mem_splice (sb_mem s) 0 ?bs)) = ?bs"
    by (rule mem_splice_at) (use le len in simp)
  then show ?thesis
    using assms le len by (simp add: mem_copy_def sb_may_remove_def sb_contents_def drop_take)
qed

lemma sb_remove_spec:
  assumes "sb_inv s" "sb_may_remove s n"
  shows "\<exists>s'. sb_remove s n = Some s' \<and> sb_inv s' \<and> sb_contents s' = drop n (sb_contents s)"
  using sb_shift [OF assms] assms
  by (auto simp: sb_remove_def Let_def sb_inv_def sb_may_remove_def sb_contents_def)

lemma sb_read_spec:
  assumes "sb_inv s" "sb_may_remove s n"
  shows "\<exists>s'. sb_read s n = Some (True, take n (sb_contents s), s') \<and> sb_inv s' \<and>
    sb_contents s' = drop n (sb_contents s)"
  using sb_shift [OF assms] assms
  by (auto simp: sb_read_def sb_inv_def sb_may_remove_def sb_contents_def)

text \<open>A write that does not fit keeps the prefix that does and reports failure.\<close>

lemma sb_write_spec:
  assumes "sb_inv s"
  shows "\<exists>s'. sb_write s bs = Some (length bs \<le> sb_get_space s, s') \<and> sb_inv s' \<and>
    sb_contents s' = sb_contents s @ take (sb_get_space s) bs"
proof (cases "length bs \<le> sb_get_space s")
  case True
  then show ?thesis
    using assms mem_splice_behind [of 0 "sb_written s" bs "sb_mem s"]
    by (auto simp: sb_write_def sb_inv_def sb_get_space_def sb_contents_def)
next
  case False
  let ?k = "length (sb_mem s) - sb_written s"
  have k: "sb_get_space s = ?k" "size_sub (length (sb_mem s)) (sb_written s) = ?k"
      "sb_written s \<le> length (sb_mem s)" "?k < length bs"
    using False assms by (auto simp: sb_get_space_def sb_inv_def)
  then have "take (sb_written s + ?k) (mem_splice (sb_mem s) (sb_written s) (take ?k bs)) =
      take (sb_written s) (sb_mem s) @ take ?k bs"
    using mem_splice_behind [of 0 "sb_written s" "take ?k bs" "sb_mem s"] by simp
  with k show ?thesis
    by (auto simp: sb_write_def sb_inv_def sb_contents_def Let_def)
qed

interpretation cbq: byte_fifo cb_inv cb_contents "\<lambda>c n. n \<le> cb_space c" cb_write cb_remove "\<lambda>_ _. True"
proof unfold_locales
  show "\<exists>c'. cb_write c bs = Some (True, c') \<and> cb_inv c' \<and> cb_contents c' = cb_contents c @ bs"
    if "cb_inv c" "length bs \<le> cb_space c" for c bs
    using cb_write_spec [OF that(1), of bs] that(2) by auto
  show "\<exists>c'. cb_remove c n = Some c' \<and> cb_inv c' \<and> cb_contents c' = drop n (cb_contents c)"
    if "cb_inv c" for c n
    by (rule cb_remove_spec [OF that])
qed

interpretation sbq: byte_fifo sb_inv sb_contents "\<lambda>s n. n \<le> sb_get_space s" sb_write sb_remove sb_may_remove
proof unfold_locales
  show "\<exists>s'. sb_write s bs = Some (True, s') \<and> sb_inv s' \<and> sb_contents s' = sb_contents s @ bs"
    if "sb_inv s" "length bs \<le> sb_get_space s" for s bs
    using sb_write_spec [OF that(1), of bs] that(2) by auto
  show "\<exists>s'. sb_remove s n = Some s' \<and> sb_inv s' \<and> sb_contents s' = drop n (sb_contents s)"
    if "sb_inv s" "sb_may_remove s n" for s n
    by (rule sb_remove_spec [OF that])
qed


section \<open>Runs of a CircularBuffer\<close>

text \<open>
  A run is a sequence of calls. It keeps two logs: the bytes of the writes that were accepted
  and the bytes that reads delivered or removals dropped.
\<close>

datatype cb_op = CbWrite "u8 list" | CbReceive "u8 list" | CbRead nat | CbRemove nat | CbGetSpace

type_synonym cb_logs = "u8 list \<times> u8 list \<times> circ_buf"

fun cb_step :: "cb_logs \<Rightarrow> cb_op \<Rightarrow> cb_logs option" where
  "cb_step (acc, del, c) (CbWrite bs) =
     do { (accepted, c') \<leftarrow> cb_write c bs; Some (if accepted then acc @ bs else acc, del, c') }"
| "cb_step (acc, del, c) (CbReceive bs) =
     (let data = take (fst (cb_get_space c)) bs in
      do { c' \<leftarrow> cb_receive c data; Some (acc @ data, del, c') })"
| "cb_step (acc, del, c) (CbRead n) =
     do { (_, bs, c') \<leftarrow> cb_read c n; Some (acc, del @ bs, c') }"
| "cb_step (acc, del, c) (CbRemove n) =
     do { c' \<leftarrow> cb_remove c n; Some (acc, del @ take n (cb_contents c), c') }"
| "cb_step (acc, del, c) CbGetSpace = Some (acc, del, snd (cb_get_space c))"

fun cb_run :: "cb_logs \<Rightarrow> cb_op list \<Rightarrow> cb_logs option" where
  "cb_run l [] = Some l"
| "cb_run l (x # xs) = do { l' \<leftarrow> cb_step l x; cb_run l' xs }"

definition cb_stream_ok :: "cb_logs \<Rightarrow> bool" where
  "cb_stream_ok l \<longleftrightarrow> (case l of (acc, del, c) \<Rightarrow> cb_inv c \<and> acc = del @ cb_contents c)"

lemma cb_step_ok:
  assumes "cb_stream_ok l"
  shows "\<exists>l'. cb_step l x = Some l' \<and> cb_stream_ok l'"
proof -
  obtain acc del c where l: "l = (acc, del, c)" "cb_inv c" "acc = del @ cb_contents c"
    using assms by (cases l) (auto simp: cb_stream_ok_def)
  show ?thesis
  proof (cases x)
    case (CbWrite bs)
    then show ?thesis using cb_write_spec [OF l(2), of bs] l by (auto simp: cb_stream_ok_def)
  next
    case (CbReceive bs)
    have "length (take (fst (cb_get_space c)) bs) \<le> cb_space c" by (simp add: cb_space_def)
    from cb_receive_spec [OF l(2) this] CbReceive l show ?thesis
      by (auto simp: cb_stream_ok_def Let_def)
  next
    case (CbRead n)
    then show ?thesis using cb_read_spec [OF l(2), of n] l by (auto simp: cb_stream_ok_def)
  next
    case (CbRemove n)
    then show ?thesis using cb_remove_spec [OF l(2), of n] l by (auto simp: cb_stream_ok_def)
  next
    case CbGetSpace
    then show ?thesis using cb_get_space_spec [OF l(2)] l
      by (cases "cb_get_space c") (auto simp: cb_stream_ok_def)
  qed
qed

lemma cb_run_ok: "cb_stream_ok l \<Longrightarrow> \<exists>l'. cb_run l xs = Some l' \<and> cb_stream_ok l'"
proof (induction xs arbitrary: l)
  case (Cons x xs)
  from cb_step_ok [OF Cons.prems, of x] Cons.IH show ?case by fastforce
qed simp

section \<open>Properties\<close>

text \<open>
  C17. Whatever sequence of writes, zero-copy receives, reads, removals and space queries is made
  on a freshly allocated CircularBuffer, no call touches memory outside the block and the
  bytes accepted so far are exactly the bytes taken out so far followed by the bytes stored:
  nothing is lost, duplicated or reordered.
\<close>

theorem cb_run_stream:
  "\<exists>acc del c. cb_run ([], [], cb_allocate cb_new blk) xs = Some (acc, del, c) \<and>
     acc = del @ cb_contents c \<and> cb_get_size c = length acc - length del \<and>
     cb_a c + cb_asize c \<le> length (cb_mem c)"
proof -
  have "cb_stream_ok ([], [], cb_allocate cb_new blk)"
    using cb_inv_allocate by (simp add: cb_stream_ok_def)
  from cb_run_ok [OF this, of xs] show ?thesis
    by (auto simp: cb_stream_ok_def length_cb_contents cb_inv_def [THEN iffD1, THEN conjunct1])
qed

text \<open>
  A write into a well-formed CircularBuffer is accepted exactly when the bytes fit into the
  space that \<open>GetSpace\<close> reports; an accepted write appends the bytes, a refused one leaves
  the stored bytes as they were.
\<close>

theorem cb_write_accepts:
  assumes "cb_inv c"
  shows "\<exists>c'. cb_write c bs = Some (length bs \<le> fst (cb_get_space c), c') \<and> cb_inv c' \<and>
    cb_contents c' = cb_contents c @ (if length bs \<le> fst (cb_get_space c) then bs else [])"
  using cb_write_spec [OF assms, of bs] by (auto simp: cb_space_def)

theorem cb_write_accepts_witness:
  "\<exists>c'. cb_write \<lparr>cb_mem = [1, 2, 3, 4, 5], cb_a = 3, cb_asize = 1, cb_b = None, cb_bsize = 0\<rparr> [7, 8] =
      Some (True, c') \<and> cb_contents c' = [4, 7, 8]"
proof -
  let ?c = "\<lparr>cb_mem = [1, 2, 3, 4, 5], cb_a = 3, cb_asize = 1, cb_b = None, cb_bsize = 0\<rparr> :: circ_buf"
  have "cb_inv ?c" by (simp add: cb_inv_def)
  from cb_write_accepts [OF this, of "[7, 8]"] show ?thesis
    by (auto simp: cb_get_space_def cb_a_free_def cb_space_before_a_def cb_allocate_b_def
        cb_b_free_def cb_contents_def Let_def)
qed

text \<open>
  A \<open>StraightBuffer::Read\<close> of more bytes than are stored reports failure and empties the
  buffer, but it copies as many bytes as were asked for: stale bytes behind the stored ones,
  and an access outside the block when more than \<open>space\<close> bytes are asked for.
\<close>

theorem sb_read_short:
  assumes "sb_inv s" "sb_written s < n"
  shows "sb_read s n = (if n \<le> length (sb_mem s)
    then Some (False, sb_contents s @ take (n - sb_written s) (drop (sb_written s) (sb_mem s)),
      s\<lparr>sb_written := 0\<rparr>)
    else None)"
  using assms by (simp add: sb_read_def sb_contents_def sb_inv_def flip: take_add)

theorem sb_read_short_witness:
  "sb_read \<lparr>sb_mem = [1, 2, 3], sb_written = 1\<rparr> 2 = Some (False, [1, 2], \<lparr>sb_mem = [1, 2, 3], sb_written = 0\<rparr>) \<and>
   sb_read \<lparr>sb_mem = [1, 2, 3], sb_written = 1\<rparr> 4 = None"
  using sb_read_short [of "\<lparr>sb_mem = [1, 2, 3], sb_written = 1\<rparr>" 2]
    sb_read_short [of "\<lparr>sb_mem = [1, 2, 3], sb_written = 1\<rparr>" 4]
  by (simp add: sb_inv_def sb_contents_def)

end
