(* ===== verification/HS_Queues.thy ===== *)
theory HS_Queues
  imports HS_Prelude
begin

text \<open>
  The element queues of the server: \<open>FastQueue\<close> (\<open>FastQueue.h\<close>, a singly linked list with a
  tail pointer), \<open>PreallocatedQueue\<close> (\<open>PreallocatedQueue.h\<close>, a growing byte array) and
  \<open>CircularQueue\<close> (\<open>CircularQueue.h\<close>). The locks are taken around whole calls, so a call is
  one atomic step. The first two promise the FIFO contract \<open>fifo_queue\<close>. Sizes and positions are natural
  numbers: the model is for runs in which the 32-bit counters of the code do not reach their bound.
\<close>

section \<open>The contract\<close>

text \<open>
  \<open>push\<close> takes what the memory allocator supplies to the call (\<open>fresh\<close> says that the supply is
  one an allocator may give). \<open>pushes\<close> and \<open>pops\<close> iterate the calls.
\<close>

fun pushes :: "('x \<Rightarrow> 'q \<Rightarrow> 'e \<Rightarrow> 'q option) \<Rightarrow> 'q \<Rightarrow> ('x \<times> 'e) list \<Rightarrow> 'q option" where
  "pushes push q [] = Some q"
| "pushes push q ((x, e) # es) = do { q' \<leftarrow> push x q e; pushes push q' es }"

fun pops :: "('q \<Rightarrow> ('e option \<times> 'q) option) \<Rightarrow> 'q \<Rightarrow> nat \<Rightarrow> ('e option list \<times> 'q) option" where
  "pops pop q 0 = Some ([], q)"
| "pops pop q (Suc n) = do { (e, q') \<leftarrow> pop q; (es, q'') \<leftarrow> pops pop q' n; Some (e # es, q'') }"

fun all_fresh :: "('x \<Rightarrow> 'q \<Rightarrow> bool) \<Rightarrow> ('x \<Rightarrow> 'q \<Rightarrow> 'e \<Rightarrow> 'q option) \<Rightarrow> 'q \<Rightarrow> ('x \<times> 'e) list \<Rightarrow> bool" where
  "all_fresh fresh push q [] \<longleftrightarrow> True"
| "all_fresh fresh push q ((x, e) # es) \<longleftrightarrow>
     fresh x q \<and> (case push x q e of None \<Rightarrow> True | Some q' \<Rightarrow> all_fresh fresh push q' es)"

locale fifo_queue =
  fixes repr :: "'q \<Rightarrow> 'e list \<Rightarrow> bool"
    and elem_ok :: "'q \<Rightarrow> 'e \<Rightarrow> bool"
    and fresh :: "'x \<Rightarrow> 'q \<Rightarrow> bool"
    and push :: "'x \<Rightarrow> 'q \<Rightarrow> 'e \<Rightarrow> 'q option"
    and pop :: "'q \<Rightarrow> ('e option \<times> 'q) option"
  assumes push_repr: "repr q xs \<Longrightarrow> fresh x q \<Longrightarrow> elem_ok q e \<Longrightarrow>
      \<exists>q'. push x q e = Some q' \<and> repr q' (xs @ [e]) \<and> elem_ok q' = elem_ok q"
    and pop_repr: "repr q (e # xs) \<Longrightarrow> \<exists>q'. pop q = Some (Some e, q') \<and> repr q' xs"
begin

lemma pushes_repr:
  assumes "repr q xs" "all_fresh fresh push q es" "\<And>e. e \<in> snd ` set es \<Longrightarrow> elem_ok q e"
  shows "\<exists>q'. pushes push q es = Some q' \<and> repr q' (xs @ map snd es)"
  using assms
proof (induction es arbitrary: q xs)
  case (Cons xe es)
  obtain x e where xe: "xe = (x, e)" by (cases xe)
  from Cons.prems xe have "fresh x q" "elem_ok q e" by auto
  then obtain q' where q': "push x q e = Some q'" "repr q' (xs @ [e])" "elem_ok q' = elem_ok q"
    using push_repr [OF Cons.prems(1)] by blast
  have "all_fresh fresh push q' es" using Cons.prems(2) xe q'(1) by simp
  moreover have "\<And>e. e \<in> snd ` set es \<Longrightarrow> elem_ok q' e" using Cons.prems(3) q'(3) by simp
  ultimately show ?case using Cons.IH [OF q'(2)] q'(1) xe by simp
qed simp

lemma pops_repr: "repr q (es @ xs) \<Longrightarrow> \<exists>q'. pops pop q (length es) = Some (map Some es, q') \<and> repr q' xs"
proof (induction es arbitrary: q)
  case (Cons e es)
  then obtain q' where "pop q = Some (Some e, q')" "repr q' (es @ xs)"
    using pop_repr [of q e "es @ xs"] by auto
  with Cons.IH [of q'] show ?case by fastforce
qed simp

text \<open>Elements come out in the order in which they went in, behind those that were there.\<close>

lemma fifo:
  assumes "repr q xs" "all_fresh fresh push q es" "\<And>e. e \<in> snd ` set es \<Longrightarrow> elem_ok q e"
  shows "\<exists>q1 q2. pushes push q es = Some q1 \<and>
    pops pop q1 (length xs + length es) = Some (map Some (xs @ map snd es), q2) \<and> repr q2 []"
proof -
  from pushes_repr [OF assms] obtain q1 where 1: "pushes push q es = Some q1" "repr q1 (xs @ map snd es)"
    by blast
  from pops_repr [of q1 "xs @ map snd es" "[]"] 1 show ?thesis by fastforce
qed

end

section \<open>FastQueue\<close>

text \<open>
  The nodes live on a heap; a node is its element and its \<open>next\<close> pointer. \<open>new node\<close> returns the
  address \<open>p\<close>; \<open>delete\<close> removes the cell. Reading a null or dangling pointer is \<^term>\<open>None\<close>.
\<close>

record 'e fast_queue =
  fq_heap :: "nat \<Rightarrow> ('e \<times> nat option) option"
  fq_last :: "nat option"
  fq_first :: "nat option"

definition fq_new :: "'e fast_queue" where
  "fq_new = \<lparr>fq_heap = Map.empty, fq_last = None, fq_first = None\<rparr>"

definition fq_push :: "nat \<Rightarrow> 'e fast_queue \<Rightarrow> 'e \<Rightarrow> 'e fast_queue option" where
  "fq_push n q elem =
     do {
       q \<leftarrow> (case fq_last q of
              Some l \<Rightarrow> do { (x, _) \<leftarrow> fq_heap q l; Some (q\<lparr>fq_heap := (fq_heap q)(l \<mapsto> (x, Some n))\<rparr>) }
            | None \<Rightarrow> Some (q\<lparr>fq_first := Some n\<rparr>));
       Some (q\<lparr>fq_last := Some n, fq_heap := (fq_heap q)(n \<mapsto> (elem, None))\<rparr>)
     }"

definition fq_pop :: "'e fast_queue \<Rightarrow> ('e option \<times> 'e fast_queue) option" where
  "fq_pop q =
     (case fq_first q of
        None \<Rightarrow> Some (None, q)
      | Some td \<Rightarrow> do {
          (ret, nxt) \<leftarrow> fq_heap q td;
          let q = q\<lparr>fq_first := nxt\<rparr>;
          let q = (if nxt = None then q\<lparr>fq_last := None\<rparr> else q);
          Some (Some ret, q\<lparr>fq_heap := (fq_heap q)(td := None)\<rparr>)
        })"

definition fq_front :: "'e fast_queue \<Rightarrow> 'e option option" where
  "fq_front q =
     (case fq_first q of None \<Rightarrow> Some None | Some p \<Rightarrow> do { (ret, _) \<leftarrow> fq_heap q p; Some (Some ret) })"

definition fq_pop_front :: "'e fast_queue \<Rightarrow> 'e fast_queue option" where
  "fq_pop_front q =
     (case fq_first q of
        None \<Rightarrow> Some q
      | Some td \<Rightarrow> do {
          (_, nxt) \<leftarrow> fq_heap q td;
          let q = q\<lparr>fq_first := nxt\<rparr>;
          let q = (if nxt = None then q\<lparr>fq_last := None\<rparr> else q);
          Some (q\<lparr>fq_heap := (fq_heap q)(td := None)\<rparr>)
        })"

definition fq_has_items :: "'e fast_queue \<Rightarrow> bool" where
  "fq_has_items q \<longleftrightarrow> fq_first q \<noteq> None"

text \<open>\<open>Clear\<close> pops while \<open>last\<close> is set; the fuel bounds the loop, \<^term>\<open>None\<close> when it runs out.\<close>

fun fq_clear :: "nat \<Rightarrow> 'e fast_queue \<Rightarrow> 'e fast_queue option" where
  "fq_clear fuel q =
     (if fq_last q = None then Some q
      else case fuel of 0 \<Rightarrow> None | Suc f \<Rightarrow> do { (_, q') \<leftarrow> fq_pop q; fq_clear f q' })"

text \<open>
  The chain of nodes from a pointer, and the representation: \<open>first\<close> starts a chain of
  distinct nodes, \<open>last\<close> is its last node, and the heap holds no other node (no leak).
\<close>

fun chain :: "(nat \<Rightarrow> ('e \<times> nat option) option) \<Rightarrow> nat option \<Rightarrow> (nat \<times> 'e) list \<Rightarrow> bool" where
  "chain h None [] = True"
| "chain h (Some p) ((p', e) # ns) = (p = p' \<and> (\<exists>nxt. h p = Some (e, nxt) \<and> chain h nxt ns))"
| "chain h _ _ = False"

definition fq_nodes :: "'e fast_queue \<Rightarrow> (nat \<times> 'e) list \<Rightarrow> bool" where
  "fq_nodes q ns \<longleftrightarrow> chain (fq_heap q) (fq_first q) ns \<and> distinct (map fst ns) \<and>
     dom (fq_heap q) = fst ` set ns \<and>
     fq_last q = (if ns = [] then None else Some (fst (last ns)))"

definition fq_repr :: "'e fast_queue \<Rightarrow> 'e list \<Rightarrow> bool" where
  "fq_repr q xs \<longleftrightarrow> (\<exists>ns. fq_nodes q ns \<and> xs = map snd ns)"

lemma chain_Nil [simp]: "chain h p [] \<longleftrightarrow> p = None"
  by (cases p) auto

lemma chain_Cons [simp]:
  "chain h p ((n, e) # ns) \<longleftrightarrow> p = Some n \<and> (\<exists>nxt. h n = Some (e, nxt) \<and> chain h nxt ns)"
  by (cases p) auto

lemma chain_last: "chain h p (ns @ [(l, x)]) \<Longrightarrow> h l = Some (x, None)"
  by (induction ns arbitrary: p) auto

lemma chain_upd: "p \<notin> fst ` set ns \<Longrightarrow> chain (h(p := v)) q ns = chain h q ns"
  by (induction ns arbitrary: q) auto

lemma chain_extend:
  assumes "chain h p (ns @ [(l, x)])" "distinct (map fst (ns @ [(l, x)]))" "n \<notin> fst ` set (ns @ [(l, x)])"
  shows "chain (h(l \<mapsto> (x, Some n), n \<mapsto> (e, None))) p (ns @ [(l, x), (n, e)])"
  using assms
proof (induction ns arbitrary: p)
  case (Cons m ns)
  obtain a b where m: "m = (a, b)" by (cases m)
  from Cons.prems m obtain nxt where "h a = Some (b, nxt)" "chain h nxt (ns @ [(l, x)])" by auto
  with Cons.IH [of nxt] Cons.prems m show ?case by auto
qed auto

lemma fq_nodes_new: "fq_nodes fq_new []"
  by (simp add: fq_nodes_def fq_new_def)

lemma fq_push_nodes:
  assumes "fq_nodes q ns" "n \<notin> dom (fq_heap q)"
  shows "\<exists>q'. fq_push n q e = Some q' \<and> fq_nodes q' (ns @ [(n, e)])"
proof (cases ns rule: rev_cases)
  case Nil
  then show ?thesis using assms by (auto simp: fq_nodes_def fq_push_def)
next
  case (snoc ms lx)
  obtain l x where lx: "lx = (l, x)" by (cases lx)
  from assms snoc lx have c: "chain (fq_heap q) (fq_first q) (ms @ [(l, x)])"
    and d: "distinct (map fst (ms @ [(l, x)]))" and dom: "dom (fq_heap q) = fst ` set (ms @ [(l, x)])"
    and last: "fq_last q = Some l"
    by (auto simp: fq_nodes_def)
  have nin: "n \<notin> fst ` set (ms @ [(l, x)])" using assms(2) dom by simp
  from chain_extend [OF c d nin] chain_last [OF c] last dom nin d show ?thesis
    unfolding snoc lx by (auto simp: fq_nodes_def fq_push_def)
qed

lemma fq_pop_nodes:
  assumes "fq_nodes q ((n, e) # ns)"
  shows "\<exists>q'. fq_pop q = Some (Some e, q') \<and> fq_nodes q' ns"
proof -
  from assms obtain nxt where h: "fq_first q = Some n" "fq_heap q n = Some (e, nxt)"
      "chain (fq_heap q) nxt ns" and d: "n \<notin> fst ` set ns" "distinct (map fst ns)"
    and dom: "dom (fq_heap q) = insert n (fst ` set ns)"
    and last: "fq_last q = Some (if ns = [] then n else fst (last ns))"
    by (auto simp: fq_nodes_def)
  have "dom ((fq_heap q)(n := None)) = fst ` set ns" using dom d by auto
  moreover have "nxt = None \<longleftrightarrow> ns = []" using h(3) by (cases ns; cases nxt) auto
  ultimately show ?thesis
    using h d last by (auto simp: fq_nodes_def fq_pop_def Let_def chain_upd)
qed

lemma fq_pop_empty: "fq_nodes q [] \<Longrightarrow> fq_pop q = Some (None, q)"
  by (simp add: fq_nodes_def fq_pop_def)

lemma fq_front_nodes: "fq_nodes q ((n, e) # ns) \<Longrightarrow> fq_front q = Some (Some e)"
  by (auto simp: fq_nodes_def fq_front_def)

lemma fq_pop_front_pop: "fq_pop_front q = map_option snd (fq_pop q)"
  by (auto simp: fq_pop_front_def fq_pop_def Let_def split: option.splits Option.bind_splits)

lemma fq_has_items_nodes: "fq_nodes q ns \<Longrightarrow> fq_has_items q = (ns \<noteq> [])"
  by (cases ns) (auto simp: fq_nodes_def fq_has_items_def)

text \<open>\<open>Clear\<close> (and so the destructor) frees every node: as much fuel as there are nodes is enough.\<close>

lemma fq_clear_nodes: "fq_nodes q ns \<Longrightarrow> \<exists>q'. fq_clear (length ns) q = Some q' \<and> fq_heap q' = Map.empty \<and> fq_nodes q' []"
proof (induction ns arbitrary: q)
  case Nil
  then show ?case by (auto simp: fq_nodes_def)
next
  case (Cons m ns)
  obtain n e where m: "m = (n, e)" by (cases m)
  with Cons.prems have "fq_last q \<noteq> None" by (simp add: fq_nodes_def)
  with fq_pop_nodes [of q n e ns] Cons m show ?case by fastforce
qed

interpretation fq: fifo_queue fq_repr "\<lambda>_ _. True" "\<lambda>n q. n \<notin> dom (fq_heap q)" fq_push fq_pop
proof unfold_locales
  show "\<exists>q'. fq_push n q e = Some q' \<and> fq_repr q' (xs @ [e]) \<and> (\<lambda>_. True) = (\<lambda>_. True)"
    if "fq_repr q xs" "n \<notin> dom (fq_heap q)" for q :: "'a fast_queue" and xs n e
  proof -
    from that(1) obtain ns where ns: "fq_nodes q ns" "xs = map snd ns" by (auto simp: fq_repr_def)
    from fq_push_nodes [OF ns(1) that(2), of e] ns(2) show ?thesis
      unfolding fq_repr_def by fastforce
  qed
  show "\<exists>q'. fq_pop q = Some (Some e, q') \<and> fq_repr q' xs" if "fq_repr q (e # xs)" for q :: "'a fast_queue" and e xs
  proof -
    from that obtain n ns where "fq_nodes q ((n, e) # ns)" "xs = map snd ns"
      unfolding fq_repr_def by (auto simp: map_eq_Cons_conv Cons_eq_map_conv)
    from fq_pop_nodes [OF this(1)] this(2) show ?thesis by (auto simp: fq_repr_def)
  qed
qed

section \<open>PreallocatedQueue\<close>

text \<open>
  \<open>pq_buf\<close> is the byte array (\<open>m_buffersize\<close> is its length); an element is its
  \<open>pq_tsize\<close> bytes. \<open>realloc\<close> keeps the bytes and appends the arbitrary bytes \<open>fill\<close>.
  Offsets are modelled without wrap-around: the queue stays below \<open>2 ^ 32\<close> bytes.
\<close>

record prealloc_queue =
  pq_buf :: "u8 list"
  pq_readpos :: nat
  pq_writepos :: nat
  pq_tsize :: nat
  pq_reallocsize :: nat

definition pq_new :: "u8 list \<Rightarrow> nat \<Rightarrow> nat \<Rightarrow> prealloc_queue" where
  "pq_new blk tsize realloc_size =
     \<lparr>pq_buf = blk, pq_readpos = 0, pq_writepos = 0, pq_tsize = tsize, pq_reallocsize = realloc_size\<rparr>"

definition pq_reallocate :: "u8 list \<Rightarrow> prealloc_queue \<Rightarrow> prealloc_queue" where
  "pq_reallocate fill q = q\<lparr>pq_buf := pq_buf q @ fill\<rparr>"

definition pq_push_back :: "u8 list \<Rightarrow> prealloc_queue \<Rightarrow> u8 list \<Rightarrow> prealloc_queue option" where
  "pq_push_back fill q ptr =
     (let q = (if pq_tsize q + pq_writepos q > length (pq_buf q) then pq_reallocate fill q else q) in
      do {
        buf \<leftarrow> mem_write (pq_buf q) (pq_writepos q) ptr;
        Some (q\<lparr>pq_buf := buf, pq_writepos := pq_writepos q + pq_tsize q\<rparr>)
      })"

definition pq_clear :: "prealloc_queue \<Rightarrow> prealloc_queue" where
  "pq_clear q = q\<lparr>pq_readpos := 0, pq_writepos := 0\<rparr>"

definition pq_empty :: "prealloc_queue \<Rightarrow> bool" where
  "pq_empty q \<longleftrightarrow> pq_readpos q = pq_writepos q"

text \<open>The \<open>assert\<close> of \<open>pop_front\<close> is its guard.\<close>

definition pq_pop_front :: "prealloc_queue \<Rightarrow> (u8 list option \<times> prealloc_queue) option" where
  "pq_pop_front q =
     (if pq_readpos q + pq_tsize q \<le> pq_writepos q
      then do {
        returner \<leftarrow> mem_read (pq_buf q) (pq_readpos q) (pq_tsize q);
        let q = q\<lparr>pq_readpos := pq_readpos q + pq_tsize q\<rparr>;
        Some (Some returner, if pq_readpos q = pq_writepos q then pq_clear q else q)
      }
      else None)"

definition pq_elem_ok :: "prealloc_queue \<Rightarrow> u8 list \<Rightarrow> bool" where
  "pq_elem_ok q e \<longleftrightarrow> length e = pq_tsize q"

definition pq_repr :: "prealloc_queue \<Rightarrow> u8 list list \<Rightarrow> bool" where
  "pq_repr q xs \<longleftrightarrow> 0 < pq_tsize q \<and> 0 < pq_reallocsize q \<and> (\<forall>e \<in> set xs. length e = pq_tsize q) \<and>
     pq_readpos q + length (concat xs) = pq_writepos q \<and> pq_writepos q \<le> length (pq_buf q) \<and>
     take (length (concat xs)) (drop (pq_readpos q) (pq_buf q)) = concat xs"

text \<open>What \<open>realloc\<close> may give: \<open>m_reallocsize\<close> elements of new, arbitrary bytes.\<close>

definition pq_fresh :: "u8 list \<Rightarrow> prealloc_queue \<Rightarrow> bool" where
  "pq_fresh fill q \<longleftrightarrow> length fill = pq_reallocsize q * pq_tsize q"

lemma pq_repr_new: "0 < t \<Longrightarrow> 0 < r \<Longrightarrow> pq_repr (pq_new blk t r) []"
  by (simp add: pq_repr_def pq_new_def)

lemma pq_repr_reallocate: "pq_repr q xs \<Longrightarrow> pq_repr (pq_reallocate fill q) xs"
  by (auto simp: pq_repr_def pq_reallocate_def)

lemma pq_push_back_repr:
  assumes "pq_repr q xs" "pq_fresh fill q" "pq_elem_ok q e"
  shows "\<exists>q'. pq_push_back fill q e = Some q' \<and> pq_repr q' (xs @ [e]) \<and> pq_elem_ok q' = pq_elem_ok q"
proof -
  define q1 where "q1 = (if pq_tsize q + pq_writepos q > length (pq_buf q) then pq_reallocate fill q else q)"
  have r1: "pq_repr q1 xs" using assms(1) by (simp add: q1_def pq_repr_reallocate)
  have "length e \<le> length fill" using assms by (simp add: pq_repr_def pq_fresh_def pq_elem_ok_def)
  moreover have "pq_writepos q \<le> length (pq_buf q)" using assms(1) by (simp add: pq_repr_def)
  ultimately have fit: "pq_writepos q1 + length e \<le> length (pq_buf q1)"
    and same: "pq_tsize q1 = pq_tsize q" "length e = pq_tsize q1"
    using assms(3) by (auto simp: q1_def pq_reallocate_def pq_elem_ok_def)
  from r1 have w: "pq_writepos q1 = pq_readpos q1 + length (concat xs)" by (simp add: pq_repr_def)
  have "take (length (concat xs) + length e) (drop (pq_readpos q1) (mem_splice (pq_buf q1) (pq_writepos q1) e)) =
      concat xs @ e"
    using mem_splice_behind [of "pq_readpos q1" "length (concat xs)" e "pq_buf q1"] fit r1 w
    by (simp add: pq_repr_def)
  then show ?thesis
    using r1 fit same
    by (auto simp: pq_push_back_def pq_repr_def pq_elem_ok_def fun_eq_iff Let_def simp flip: q1_def)
qed

lemma pq_pop_front_repr:
  assumes "pq_repr q (e # xs)"
  shows "\<exists>q'. pq_pop_front q = Some (Some e, q') \<and> pq_repr q' xs"
proof -
  let ?r = "pq_readpos q" and ?n = "length (concat xs)"
  from assms have e: "length e = pq_tsize q" "?r + length e + ?n = pq_writepos q"
      "pq_writepos q \<le> length (pq_buf q)"
    and cat: "take (length e + ?n) (drop ?r (pq_buf q)) = e @ concat xs"
    and xs: "\<forall>e \<in> set xs. length e = pq_tsize q" "0 < pq_tsize q" "0 < pq_reallocsize q"
    by (auto simp: pq_repr_def)
  have "take (length e) (drop ?r (pq_buf q)) = take (length e) (take (length e + ?n) (drop ?r (pq_buf q)))"
    by simp
  then have 1: "take (length e) (drop ?r (pq_buf q)) = e" unfolding cat by simp
  have "take ?n (drop (?r + length e) (pq_buf q)) = drop (length e) (take (length e + ?n) (drop ?r (pq_buf q)))"
    by (simp add: drop_take add.commute)
  then have 2: "take ?n (drop (?r + length e) (pq_buf q)) = concat xs" unfolding cat by simp
  show ?thesis
  proof (cases "concat xs = []")
    case True
    then have "?n = 0" by (simp only: list.size)
    with e have "pq_readpos q + pq_tsize q = pq_writepos q" by linarith
    with e xs 1 show ?thesis
      by (simp add: True pq_pop_front_def pq_repr_def pq_clear_def Let_def del: concat_eq_Nil_conv)
  next
    case False
    then have "pq_readpos q + pq_tsize q \<noteq> pq_writepos q" using e by auto
    with e xs 1 2 show ?thesis by (simp add: pq_pop_front_def pq_repr_def Let_def)
  qed
qed

interpretation pq: fifo_queue pq_repr pq_elem_ok pq_fresh pq_push_back pq_pop_front
  by unfold_locales (auto intro: pq_push_back_repr pq_pop_front_repr)

section \<open>CircularQueue\<close>

text \<open>\<open>m_elements\<close> has \<open>ELEMENTCOUNT\<close> cells; \<open>push\<close> increments the position before it stores.\<close>

record 'a circ_queue =
  cq_elements :: "'a list"
  cq_pos :: nat

definition cq_new :: "'a \<Rightarrow> nat \<Rightarrow> 'a circ_queue" where
  "cq_new zero elementcount = \<lparr>cq_elements = replicate elementcount zero, cq_pos = 0\<rparr>"

definition cq_push :: "'a circ_queue \<Rightarrow> 'a \<Rightarrow> 'a circ_queue option" where
  "cq_push q v =
     (let pos = cq_pos q + 1 in
      do {
        el \<leftarrow> mem_write (cq_elements q) pos [v];
        Some (q\<lparr>cq_elements := el, cq_pos := (if pos \<ge> length el then 0 else pos)\<rparr>)
      })"

fun cq_pushes :: "'a circ_queue \<Rightarrow> 'a list \<Rightarrow> 'a circ_queue option" where
  "cq_pushes q [] = Some q"
| "cq_pushes q (v # vs) = do { q' \<leftarrow> cq_push q v; cq_pushes q' vs }"

lemma cq_pushes_None:
  "cq_pos q < length (cq_elements q) \<Longrightarrow>
    cq_pushes q vs = None \<longleftrightarrow> length (cq_elements q) \<le> cq_pos q + length vs"
proof (induction vs arbitrary: q)
  case (Cons v vs)
  show ?case
  proof (cases "cq_pos q + 1 < length (cq_elements q)")
    case True
    with Cons.IH [of "q\<lparr>cq_elements := mem_splice (cq_elements q) (Suc (cq_pos q)) [v], cq_pos := Suc (cq_pos q)\<rparr>"]
    show ?thesis by (auto simp: cq_push_def Let_def)
  next
    case False
    with Cons.prems show ?thesis by (simp add: cq_push_def mem_write_def)
  qed
qed simp

section \<open>Properties\<close>

text \<open>
  C22. FastQueue: starting from an empty queue, the pops after any sequence of pushes return the
  pushed elements in order, every node pointer the code follows is valid, and the emptied queue
  keeps no node allocated.
\<close>

theorem fq_fifo:
  assumes "all_fresh (\<lambda>n q. n \<notin> dom (fq_heap q)) fq_push fq_new es"
  shows "\<exists>q1 q2. pushes fq_push fq_new es = Some q1 \<and>
    pops fq_pop q1 (length es) = Some (map Some (map snd es), q2) \<and>
    fq_heap q2 = Map.empty \<and> fq_pop q2 = Some (None, q2)"
proof -
  have "fq_repr fq_new []" using fq_nodes_new by (auto simp: fq_repr_def)
  from fq.fifo [OF this assms] obtain q1 q2 where "pushes fq_push fq_new es = Some q1"
      "pops fq_pop q1 (length es) = Some (map Some (map snd es), q2)" "fq_repr q2 []"
    by auto
  then show ?thesis by (auto simp: fq_repr_def fq_pop_empty) (auto simp: fq_nodes_def)
qed

theorem fq_fifo_witness:
  "\<exists>q1 q2. pushes fq_push fq_new [(7, 10), (3, 11::int)] = Some q1 \<and>
    pops fq_pop q1 2 = Some ([Some 10, Some 11], q2)"
  using fq_fifo [of "[(7, 10), (3, 11::int)]"]
  by (auto simp: fq_push_def fq_new_def numeral_2_eq_2)

text \<open>
  PreallocatedQueue: starting from an empty queue of any capacity with a positive growth
  step, the pops after any sequence of pushes return the pushed elements in order, however often
  the array is reallocated on the way, and no call reads or writes outside the array.
\<close>

theorem pq_fifo:
  assumes "0 < tsize" "0 < realloc_size"
    and "all_fresh pq_fresh pq_push_back (pq_new blk tsize realloc_size) es"
    and "\<And>e. e \<in> snd ` set es \<Longrightarrow> length e = tsize"
  shows "\<exists>q1 q2. pushes pq_push_back (pq_new blk tsize realloc_size) es = Some q1 \<and>
    pops pq_pop_front q1 (length es) = Some (map Some (map snd es), q2) \<and> pq_empty q2"
proof -
  have "\<And>e. e \<in> snd ` set es \<Longrightarrow> pq_elem_ok (pq_new blk tsize realloc_size) e"
    using assms(4) by (simp add: pq_elem_ok_def pq_new_def)
  from pq.fifo [OF pq_repr_new [OF assms(1,2)] assms(3) this] show ?thesis
    by (auto simp: pq_repr_def pq_empty_def)
qed

theorem pq_fifo_witness:
  "\<exists>q1 q2. pushes pq_push_back (pq_new [] 2 1) [([0, 0], [1, 2]), ([9, 9], [3, 4])] = Some q1 \<and>
    pops pq_pop_front q1 2 = Some ([Some [1, 2], Some [3, 4]], q2) \<and> pq_empty q2"
proof -
  let ?es = "[([0, 0], [1, 2]), ([9, 9], [3, 4])] :: (u8 list \<times> u8 list) list"
  have "all_fresh pq_fresh pq_push_back (pq_new [] 2 1) ?es"
    by (simp add: pq_fresh_def pq_new_def pq_push_back_def pq_reallocate_def mem_write_def
        mem_splice_def)
  moreover have "\<And>e. e \<in> snd ` set ?es \<Longrightarrow> length e = 2" by auto
  ultimately show ?thesis using pq_fifo [of 2 1 "[]" ?es] by (simp add: numeral_2_eq_2)
qed

text \<open>
  CircularQueue: \<open>push\<close> stores at the incremented position before it wraps it, so on a queue
  of \<open>ELEMENTCOUNT\<close> cells the \<open>ELEMENTCOUNT\<close>-th push since construction writes behind the
  array; fewer pushes stay inside it.
\<close>

theorem cq_push_overrun:
  assumes "0 < n"
  shows "cq_pushes (cq_new z n) vs = None \<longleftrightarrow> n \<le> length vs"
  using cq_pushes_None [of "cq_new z n" vs] assms by (simp add: cq_new_def)

theorem cq_push_overrun_witness: "cq_pushes (cq_new (0::int) 2) [5, 6] = None"
  using cq_push_overrun [of 2 "0::int" "[5, 6]"] by simp

end
