(* ===== verification/HS_Guid.thy ===== *)
theory HS_Guid
  imports HS_Prelude
begin

unbundle bit_operations_syntax

text \<open>
  \<open>WoWGuid\<close> (\<open>WoWGuid.h\<close>): the packed form of a 64-bit object id. The mask has a bit for every
  non-zero byte of the id, the fields are those bytes in order of significance (the host is
  little-endian). A failed \<open>ASSERT\<close> is \<^term>\<open>None\<close>.
\<close>

section \<open>State and operations\<close>

definition byte_of :: "u64 \<Rightarrow> nat \<Rightarrow> u8" where
  "byte_of w x = ucast (drop_bit (8 * x) w)"

definition BitCount1 :: "int \<Rightarrow> int" where
  "BitCount1 x = x AND 1"

definition BitCount2 :: "int \<Rightarrow> int" where
  "BitCount2 x = BitCount1 x + BitCount1 (drop_bit 1 x)"

definition BitCount4 :: "int \<Rightarrow> int" where
  "BitCount4 x = BitCount2 x + BitCount2 (drop_bit 2 x)"

definition BitCount8 :: "u8 \<Rightarrow> nat" where
  "BitCount8 m = (let x = uint m in nat (BitCount4 x + BitCount4 (drop_bit 4 x)))"

record wow_guid =
  oldguid :: u64
  guidmask :: u8
  guidfields :: "u8 list"
  fieldcount :: nat
  compiled :: bool

definition wg_clear :: wow_guid where
  "wg_clear = \<lparr>oldguid = 0, guidmask = 0, guidfields = replicate 8 0, fieldcount = 0, compiled = False\<rparr>"

text \<open>One round of the loop of \<open>_CompileByOld\<close>.\<close>

definition wg_old_step :: "nat \<Rightarrow> wow_guid \<Rightarrow> wow_guid" where
  "wg_old_step x g =
     (let p = byte_of (oldguid g) x in
      if p \<noteq> 0
      then g\<lparr>guidfields := (guidfields g)[fieldcount g := p], fieldcount := fieldcount g + 1,
             guidmask := guidmask g OR push_bit x 1\<rparr>
      else g)"

definition wg_compile_by_old :: "wow_guid \<Rightarrow> wow_guid option" where
  "wg_compile_by_old g =
     (if \<not> compiled g
      then Some ((fold wg_old_step [0..<8] (g\<lparr>fieldcount := 0\<rparr>))\<lparr>compiled := True\<rparr>)
      else None)"

text \<open>
  One of the eight cases of \<open>_CompileByNew\<close>: bit \<open>x\<close> of the mask takes the next field as byte
  \<open>x\<close> of the id. The state is the id and the index \<open>j\<close> of the next field.
\<close>

definition wg_new_step :: "u8 \<Rightarrow> u8 list \<Rightarrow> nat \<Rightarrow> u64 \<times> nat \<Rightarrow> u64 \<times> nat" where
  "wg_new_step msk flds x s = (case s of (old, j) \<Rightarrow>
     if msk AND push_bit x 1 \<noteq> 0 then (old OR push_bit (8 * x) (ucast (flds ! j)), j + 1) else (old, j))"

definition wg_compile_by_new :: "wow_guid \<Rightarrow> wow_guid option" where
  "wg_compile_by_new g =
     (if \<not> compiled g \<or> fieldcount g = BitCount8 (guidmask g)
      then Some (g\<lparr>oldguid := fst (fold (wg_new_step (guidmask g) (guidfields g)) [0..<8] (oldguid g, 0)),
                   compiled := True\<rparr>)
      else None)"

definition wg_init :: "u64 \<Rightarrow> wow_guid option" where
  "wg_init guid = wg_compile_by_old (wg_clear\<lparr>oldguid := guid\<rparr>)"

definition wg_init_mask :: "u8 \<Rightarrow> wow_guid option" where
  "wg_init_mask msk =
     (let g = wg_clear\<lparr>guidmask := msk\<rparr> in if msk = 0 then wg_compile_by_new g else Some g)"

text \<open>\<open>Init(mask, fields)\<close> reads one field per mask bit; reading past \<open>fields\<close> is \<^term>\<open>None\<close>.\<close>

definition wg_init_fields :: "u8 \<Rightarrow> u8 list \<Rightarrow> wow_guid option" where
  "wg_init_fields msk flds =
     (let g = wg_clear\<lparr>guidmask := msk\<rparr>; n = BitCount8 msk in
      if n = 0 then Some g
      else do {
        fs \<leftarrow> mem_read flds 0 n;
        wg_compile_by_new (g\<lparr>guidfields := fs @ drop n (guidfields g), fieldcount := n\<rparr>)
      })"

definition wg_append_field :: "wow_guid \<Rightarrow> u8 \<Rightarrow> wow_guid option" where
  "wg_append_field g field =
     (if \<not> compiled g \<and> fieldcount g < BitCount8 (guidmask g)
      then (let g = g\<lparr>guidfields := (guidfields g)[fieldcount g := field], fieldcount := fieldcount g + 1\<rparr> in
            if fieldcount g = BitCount8 (guidmask g) then wg_compile_by_new g else Some g)
      else None)"

definition wg_new_len :: "wow_guid \<Rightarrow> nat" where
  "wg_new_len g = BitCount8 (guidmask g)"

text \<open>The packed form that goes to the client: the mask and the first \<open>GetNewGuidLen\<close> fields.\<close>

definition wg_packed :: "wow_guid \<Rightarrow> u8 list" where
  "wg_packed g = guidmask g # take (wg_new_len g) (guidfields g)"

fun wg_append_fields :: "wow_guid \<Rightarrow> u8 list \<Rightarrow> wow_guid option" where
  "wg_append_fields g [] = Some g"
| "wg_append_fields g (f # fs) = do { g' \<leftarrow> wg_append_field g f; wg_append_fields g' fs }"


section \<open>The packed form\<close>

definition packed_fields :: "u64 \<Rightarrow> nat \<Rightarrow> u8 list" where
  "packed_fields w k = filter (\<lambda>p. p \<noteq> 0) (map (byte_of w) [0..<k])"

lemma packed_fields_Suc [simp]:
  "packed_fields w (Suc k) = packed_fields w k @ (if byte_of w k \<noteq> 0 then [byte_of w k] else [])"
  by (simp add: packed_fields_def)

lemma packed_fields_0 [simp]: "packed_fields w 0 = []"
  by (simp add: packed_fields_def)

lemma length_packed_fields: "length (packed_fields w k) \<le> k"
  by (induction k) auto

lemma packed_fields_prefix: "k \<le> n \<Longrightarrow> \<exists>r. packed_fields w n = packed_fields w k @ r"
  by (induction n rule: nat_induct_at_least) auto

lemma bit_byte_of: "bit (byte_of w x) i \<longleftrightarrow> i < 8 \<and> bit w (8 * x + i)"
  by (simp add: byte_of_def bit_simps)

lemma byte_of_eq_0: "byte_of w x = 0 \<longleftrightarrow> (\<forall>i<8. \<not> bit w (8 * x + i))"
  by (auto simp: bit_eq_iff bit_byte_of)

lemma and_push_bit_1: "(m :: u8) AND push_bit x 1 \<noteq> 0 \<longleftrightarrow> bit m x"
  by (auto simp: and_exp_eq_0_iff_not_bit push_bit_eq_mult)

lemma wg_new_step_eq:
  "wg_new_step m fs x (old, j) =
    (if bit m x then (old OR push_bit (8 * x) (ucast (fs ! j)), j + 1) else (old, j))"
  unfolding wg_new_step_def prod.case and_push_bit_1 ..

lemma BitCount1_bit: "BitCount1 (drop_bit k x) = of_bool (bit x k)"
  by (simp add: BitCount1_def and_one_eq bit_iff_odd_drop_bit odd_iff_mod_2_eq_one)

lemma upt_8: "[0..<8] = [0, 1, 2, 3, 4, 5, 6, 7]"
  by code_simp

lemma BitCount8_eq: "BitCount8 m = length (filter (bit m) [0..<8])"
proof -
  have b: "BitCount1 (drop_bit k (uint m)) = of_bool (bit m k)" for k
    by (simp only: BitCount1_bit bit_uint_iff) (auto dest: bit_imp_le_length)
  from b [of 0] have b0: "BitCount1 (uint m) = of_bool (bit m 0)" by simp
  have "BitCount8 m = nat (of_bool (bit m 0) + of_bool (bit m 1) + (of_bool (bit m 2) + of_bool (bit m 3)) +
      (of_bool (bit m 4) + of_bool (bit m 5) + (of_bool (bit m 6) + of_bool (bit m 7))))"
    unfolding BitCount8_def BitCount4_def BitCount2_def Let_def drop_bit_drop_bit
    by (simp add: b b0 numeral_3_eq_3)
  also have "\<dots> = length (filter (bit m) [0..<8])"
    unfolding upt_8 by simp
  finally show ?thesis .
qed

subsection \<open>Encoding\<close>

definition wg_encoded :: "u64 \<Rightarrow> nat \<Rightarrow> wow_guid \<Rightarrow> bool" where
  "wg_encoded w k g \<longleftrightarrow> oldguid g = w \<and> \<not> compiled g \<and> length (guidfields g) = 8 \<and>
     fieldcount g = length (packed_fields w k) \<and>
     take (length (packed_fields w k)) (guidfields g) = packed_fields w k \<and>
     (\<forall>i. bit (guidmask g) i \<longleftrightarrow> i < 8 \<and> i < k \<and> byte_of w i \<noteq> 0)"

lemma wg_old_step_encoded:
  assumes "wg_encoded w k g" "k < 8"
  shows "wg_encoded w (Suc k) (wg_old_step k g)"
proof (cases "byte_of w k = 0")
  case True
  then have "i < Suc k \<and> byte_of w i \<noteq> 0 \<longleftrightarrow> i < k \<and> byte_of w i \<noteq> 0" for i
    using less_Suc_eq by metis
  moreover have "wg_old_step k g = g"
    using assms True by (simp add: wg_encoded_def wg_old_step_def)
  ultimately show ?thesis using assms True by (simp add: wg_encoded_def)
next
  case False
  have *: "i < 8 \<and> i < Suc k \<and> byte_of w i \<noteq> 0 \<longleftrightarrow> (i < 8 \<and> i < k \<and> byte_of w i \<noteq> 0) \<or> i = k" for i
    using False assms(2) less_Suc_eq by auto
  have "fieldcount g < 8"
    using assms length_packed_fields [of w k] by (simp add: wg_encoded_def)
  moreover from this assms have "take (Suc (fieldcount g)) ((guidfields g)[fieldcount g := byte_of w k]) =
      packed_fields w k @ [byte_of w k]"
    by (simp add: wg_encoded_def take_Suc_conv_app_nth take_update_cancel)
  moreover have "bit (guidmask g OR push_bit k 1) i \<longleftrightarrow> bit (guidmask g) i \<or> i = k" for i
    using assms(2) by (auto simp: bit_simps)
  ultimately show ?thesis
    using assms False by (simp add: wg_encoded_def wg_old_step_def Let_def *)
qed

lemma wg_fold_encoded:
  assumes "wg_encoded w 0 g" "k \<le> 8"
  shows "wg_encoded w k (fold wg_old_step [0..<k] g)"
  using assms(2) by (induction k) (use assms(1) wg_old_step_encoded in \<open>auto simp: less_Suc_eq_le\<close>)

lemma wg_init_encoded:
  "\<exists>g. wg_init w = Some g \<and> wg_encoded w 8 (g\<lparr>compiled := False\<rparr>)"
proof -
  define g0 where "g0 = wg_clear\<lparr>oldguid := w, fieldcount := 0\<rparr>"
  define g where "g = fold wg_old_step [0..<8] g0"
  have "wg_encoded w 0 g0" by (simp add: wg_encoded_def wg_clear_def g0_def)
  from wg_fold_encoded [OF this, of 8] have "wg_encoded w 8 g" by (simp add: g_def)
  then have "wg_encoded w 8 (g\<lparr>compiled := True, compiled := False\<rparr>)" by (simp add: wg_encoded_def)
  moreover have "wg_init w = Some (g\<lparr>compiled := True\<rparr>)"
    by (simp add: wg_init_def wg_compile_by_old_def g_def g0_def wg_clear_def)
  ultimately show ?thesis by auto
qed

lemma wg_mask_count:
  assumes "\<And>i. bit (m::u8) i \<longleftrightarrow> i < 8 \<and> byte_of w i \<noteq> 0"
  shows "BitCount8 m = length (packed_fields w 8)"
proof -
  have "filter (bit m) [0..<8] = filter (\<lambda>i. byte_of w i \<noteq> 0) [0..<8]"
    by (rule filter_cong) (use assms in auto)
  then show ?thesis by (simp add: BitCount8_eq packed_fields_def filter_map comp_def)
qed

subsection \<open>Decoding\<close>

lemma wg_fold_decoded:
  assumes m: "\<And>i. bit (m::u8) i \<longleftrightarrow> i < 8 \<and> byte_of w i \<noteq> 0"
    and f: "take (length (packed_fields w 8)) flds = packed_fields w 8"
    and k: "k \<le> 8"
  shows "\<exists>old. fold (wg_new_step m flds) [0..<k] (0, 0) = (old, length (packed_fields w k)) \<and>
    (\<forall>n. bit old n \<longleftrightarrow> n < 8 * k \<and> bit w n)"
  using k
proof (induction k)
  case (Suc k)
  then obtain old where old: "fold (wg_new_step m flds) [0..<k] (0, 0) = (old, length (packed_fields w k))"
      "\<And>n. bit old n \<longleftrightarrow> n < 8 * k \<and> bit w n" by auto
  have split: "n < 8 + 8 * k \<longleftrightarrow> n < 8 * k \<or> (8 * k \<le> n \<and> n - 8 * k < 8)" for n by auto
  show ?case
  proof (cases "byte_of w k = 0")
    case True
    then have "\<not> bit w n" if "8 * k \<le> n" "n - 8 * k < 8" for n
      using that by (metis byte_of_eq_0 le_add_diff_inverse)
    with True old m [of k] show ?thesis
      by (auto simp: wg_new_step_eq split)
  next
    case False
    obtain r where r: "packed_fields w 8 = packed_fields w (Suc k) @ r"
      using packed_fields_prefix [OF Suc.prems] by blast
    have "flds ! length (packed_fields w k) = take (length (packed_fields w 8)) flds ! length (packed_fields w k)"
      using r False by simp
    then have nth: "flds ! length (packed_fields w k) = byte_of w k"
      unfolding f using r False by (simp add: nth_append)
    have "bit (push_bit (8 * k) (ucast (byte_of w k)) :: u64) n \<longleftrightarrow> 8 * k \<le> n \<and> n - 8 * k < 8 \<and> bit w n" for n
      using bit_imp_le_length [of w n] by (auto simp: bit_simps bit_byte_of)
    with False old nth m [of k] Suc.prems show ?thesis
      by (auto simp: wg_new_step_eq bit_or_iff split)
  qed
qed simp

lemma wg_compile_by_new_decoded:
  assumes "\<And>i. bit (guidmask g) i \<longleftrightarrow> i < 8 \<and> byte_of w i \<noteq> 0"
    and "take (length (packed_fields w 8)) (guidfields g) = packed_fields w 8"
    and "\<not> compiled g" "oldguid g = 0"
  shows "\<exists>g'. wg_compile_by_new g = Some g' \<and> oldguid g' = w"
proof -
  obtain old j where old: "fold (wg_new_step (guidmask g) (guidfields g)) [0..<8] (0, 0) = (old, j)"
      "\<And>n. bit old n \<longleftrightarrow> n < 64 \<and> bit w n"
    using wg_fold_decoded [OF assms(1,2), of 8] by auto
  have "old = w" by (rule bit_word_eqI) (use old(2) in simp)
  with old assms show ?thesis by (simp add: wg_compile_by_new_def)
qed


subsection \<open>Field by field\<close>

lemma wg_append_fields_compiled:
  assumes "\<not> compiled g" "length (guidfields g) = 8" "fieldcount g + length fs = BitCount8 (guidmask g)"
    and "fs \<noteq> []"
  shows "wg_append_fields g fs = wg_compile_by_new (g\<lparr>guidfields := mem_splice (guidfields g) (fieldcount g) fs,
    fieldcount := BitCount8 (guidmask g)\<rparr>)"
  using assms
proof (induction fs arbitrary: g)
  case (Cons f fs)
  have le8: "BitCount8 (guidmask g) \<le> 8"
    using length_filter_le [of "bit (guidmask g)" "[0..<8]"] by (simp add: BitCount8_eq)
  show ?case
  proof (cases "fs = []")
    case True
    with Cons.prems le8 show ?thesis
      by (cases "wg_compile_by_new (g\<lparr>guidfields := (guidfields g)[fieldcount g := f], fieldcount := Suc (fieldcount g)\<rparr>)")
        (auto simp: wg_append_field_def Let_def mem_splice_def upd_conv_take_nth_drop)
  next
    case False
    let ?g = "g\<lparr>guidfields := (guidfields g)[fieldcount g := f], fieldcount := Suc (fieldcount g)\<rparr>"
    have "Suc (fieldcount g) \<noteq> BitCount8 (guidmask g)"
      using Cons.prems(3) False by (cases fs) auto
    then have "wg_append_field g f = Some ?g"
      using Cons.prems by (simp add: wg_append_field_def Let_def)
    moreover have "mem_splice (guidfields ?g) (fieldcount ?g) fs = mem_splice (guidfields g) (fieldcount g) (f # fs)"
      using Cons.prems le8 by (simp add: mem_splice_def take_Suc_conv_app_nth take_update_cancel)
    ultimately show ?thesis
      using Cons.IH [of ?g] Cons.prems False by simp
  qed
qed simp

lemma wg_encoded_packed:
  assumes "wg_encoded w 8 (g\<lparr>compiled := False\<rparr>)"
  shows "\<And>i. bit (guidmask g) i \<longleftrightarrow> i < 8 \<and> byte_of w i \<noteq> 0"
    and "wg_packed g = guidmask g # packed_fields w 8"
    and "BitCount8 (guidmask g) = length (packed_fields w 8)"
proof -
  show m: "\<And>i. bit (guidmask g) i \<longleftrightarrow> i < 8 \<and> byte_of w i \<noteq> 0"
    using assms by (simp add: wg_encoded_def)
  show "BitCount8 (guidmask g) = length (packed_fields w 8)"
    by (rule wg_mask_count [OF m])
  with assms show "wg_packed g = guidmask g # packed_fields w 8"
    by (simp add: wg_packed_def wg_new_len_def wg_encoded_def)
qed

lemma wg_no_mask:
  assumes "packed_fields w 8 = []" shows "w = 0"
proof (rule bit_word_eqI)
  fix n assume "n < LENGTH(64)"
  then have "n div 8 < 8" by simp
  then have "byte_of w (n div 8) = 0"
    using assms by (auto simp: packed_fields_def filter_empty_conv)
  then have "\<forall>i<8. \<not> bit w (8 * (n div 8) + i)" by (simp add: byte_of_eq_0)
  from spec [OF this, of "n mod 8"] show "bit w n = bit 0 n" by simp
qed

section \<open>Properties\<close>

text \<open>
  Packing a 64-bit guid and unpacking the mask and the fields in one call gives the guid
  back, for every guid and whatever follows the fields in the packet; the packed form has one
  byte for every non-zero byte of the guid behind the mask byte.
\<close>

theorem wg_roundtrip:
  "\<exists>g m fs. wg_init w = Some g \<and> wg_packed g = m # fs \<and>
     length fs = length (filter (\<lambda>i. byte_of w i \<noteq> 0) [0..<8]) \<and>
     (\<exists>g'. wg_init_fields m (fs @ rest) = Some g' \<and> oldguid g' = w)"
proof -
  obtain g where g: "wg_init w = Some g" "wg_encoded w 8 (g\<lparr>compiled := False\<rparr>)"
    using wg_init_encoded by blast
  note p = wg_encoded_packed [OF g(2)]
  let ?fs = "packed_fields w 8"
  have "\<exists>g'. wg_init_fields (guidmask g) (?fs @ rest) = Some g' \<and> oldguid g' = w"
  proof (cases "?fs = []")
    case True
    with p(3) wg_no_mask show ?thesis by (simp add: wg_init_fields_def wg_clear_def)
  next
    case False
    let ?n = "length ?fs"
    let ?g = "wg_clear\<lparr>guidmask := guidmask g, guidfields := ?fs @ replicate (8 - ?n) 0, fieldcount := ?n\<rparr>"
    have "wg_init_fields (guidmask g) (?fs @ rest) = wg_compile_by_new ?g"
      using False p(3) by (simp add: wg_init_fields_def wg_clear_def Let_def)
    moreover have "\<exists>g'. wg_compile_by_new ?g = Some g' \<and> oldguid g' = w"
      by (rule wg_compile_by_new_decoded) (use p(1) in \<open>auto simp: wg_clear_def\<close>)
    ultimately show ?thesis by simp
  qed
  moreover have "length ?fs = length (filter (\<lambda>i. byte_of w i \<noteq> 0) [0..<8])"
    by (simp add: packed_fields_def filter_map comp_def)
  ultimately show ?thesis using g(1) p(2) by blast
qed

text \<open>
  C24. The same for the field-by-field reader: \<open>WoWGuid(mask)\<close> followed by one \<open>AppendField\<close> per
  packed field never fails an assertion and ends compiled with the original guid.
\<close>

theorem wg_append_roundtrip:
  "\<exists>g g0 g'. wg_init w = Some g \<and> wg_init_mask (hd (wg_packed g)) = Some g0 \<and>
     wg_append_fields g0 (tl (wg_packed g)) = Some g' \<and> compiled g' \<and> oldguid g' = w"
proof -
  obtain g where g: "wg_init w = Some g" "wg_encoded w 8 (g\<lparr>compiled := False\<rparr>)"
    using wg_init_encoded by blast
  note p = wg_encoded_packed [OF g(2)]
  let ?fs = "packed_fields w 8"
  show ?thesis
  proof (cases "?fs = []")
    case True
    then have "w = 0" by (rule wg_no_mask)
    moreover have "guidmask g = 0"
      by (rule bit_word_eqI) (use p(1) True in \<open>auto simp: packed_fields_def filter_empty_conv\<close>)
    ultimately show ?thesis
      using g(1) p(2) True
      by (auto simp: wg_init_mask_def wg_compile_by_new_def wg_clear_def wg_new_step_eq upt_rec)
  next
    case False
    let ?g0 = "wg_clear\<lparr>guidmask := guidmask g\<rparr>"
    have "guidmask g \<noteq> 0" using False p(3) by (auto simp: BitCount8_eq)
    then have init: "wg_init_mask (guidmask g) = Some ?g0" by (simp add: wg_init_mask_def Let_def)
    let ?g1 = "?g0\<lparr>guidfields := mem_splice (guidfields ?g0) 0 ?fs, fieldcount := BitCount8 (guidmask g)\<rparr>"
    have "wg_append_fields ?g0 ?fs = wg_compile_by_new ?g1"
      using wg_append_fields_compiled [of ?g0 ?fs] False p(3) by (simp add: wg_clear_def)
    moreover have "\<exists>g'. wg_compile_by_new ?g1 = Some g' \<and> oldguid g' = w"
      by (rule wg_compile_by_new_decoded) (use p(1) in \<open>auto simp: wg_clear_def mem_splice_def\<close>)
    moreover have "compiled g'" if "wg_compile_by_new ?g1 = Some g'" for g'
      using that by (auto simp: wg_compile_by_new_def split: if_splits)
    ultimately show ?thesis using g(1) p(2) init by auto
  qed
qed

end
