(* ===== verification/HS_UpdateMask.thy ===== *)
theory HS_UpdateMask
  imports HS_Prelude
begin

unbundle bit_operations_syntax

text \<open>
  \<open>UpdateMask\<close> (\<open>UpdateMask.h\<close>): the set of changed fields of an object, as a bit field. The
  code reads and writes single bits through a byte pointer and whole blocks of 32 bits; the
  model is the memory behind \<open>mUpdateMask\<close> as its bytes (block \<open>i\<close> is bytes \<open>4 i\<close> to \<open>4 i + 3\<close>),
  so both views are of the same cells. A failed \<open>ASSERT\<close> and an access outside the array are
  \<^term>\<open>None\<close>.
\<close>

section \<open>State and operations\<close>

record update_mask =
  um_bytes :: "u8 list"
  mCount :: nat
  mBlocks :: nat

definition um_new :: update_mask where
  "um_new = \<lparr>um_bytes = [], mCount = 0, mBlocks = 0\<rparr>"

definition um_set_count :: "nat \<Rightarrow> update_mask" where
  "um_set_count valuesCount =
     (let blocks = drop_bit 5 valuesCount;
          blocks = (if valuesCount AND 31 \<noteq> 0 then blocks + 1 else blocks)
      in \<lparr>um_bytes = replicate (4 * blocks) 0, mCount = valuesCount, mBlocks = blocks\<rparr>)"

definition um_byte :: "update_mask \<Rightarrow> nat \<Rightarrow> u8 option" where
  "um_byte m i = (if i < length (um_bytes m) then Some (um_bytes m ! i) else None)"

definition um_put :: "update_mask \<Rightarrow> nat \<Rightarrow> u8 \<Rightarrow> update_mask option" where
  "um_put m i b = (if i < length (um_bytes m) then Some (m\<lparr>um_bytes := (um_bytes m)[i := b]\<rparr>) else None)"

definition um_set_bit :: "update_mask \<Rightarrow> nat \<Rightarrow> update_mask option" where
  "um_set_bit m index =
     (if index < mCount m
      then do { b \<leftarrow> um_byte m (drop_bit 3 index);
                um_put m (drop_bit 3 index) (b OR push_bit (index AND 7) 1) }
      else None)"

definition um_unset_bit :: "update_mask \<Rightarrow> nat \<Rightarrow> update_mask option" where
  "um_unset_bit m index =
     (if index < mCount m
      then do { b \<leftarrow> um_byte m (drop_bit 3 index);
                um_put m (drop_bit 3 index) (b AND (0xff XOR push_bit (index AND 7) 1)) }
      else None)"

definition um_get_bit :: "update_mask \<Rightarrow> nat \<Rightarrow> bool option" where
  "um_get_bit m index =
     (if index < mCount m
      then do { b \<leftarrow> um_byte m (drop_bit 3 index); Some (b AND push_bit (index AND 7) 1 \<noteq> 0) }
      else None)"

text \<open>Block \<open>x\<close> as the code's test \<open>if(mUpdateMask[x])\<close>: is one of its four bytes non-zero?\<close>

definition um_block_nonzero :: "update_mask \<Rightarrow> nat \<Rightarrow> bool option" where
  "um_block_nonzero m x =
     (if 4 * x + 4 \<le> length (um_bytes m)
      then Some (\<exists>b \<in> set (take 4 (drop (4 * x) (um_bytes m))). b \<noteq> 0) else None)"

text \<open>\<open>for(x = mBlocks-1; x; x--) if(mUpdateMask[x]) break; return x+1;\<close>\<close>

fun um_scan :: "update_mask \<Rightarrow> nat \<Rightarrow> nat option" where
  "um_scan m 0 = Some 0"
| "um_scan m (Suc x) = do { nz \<leftarrow> um_block_nonzero m (Suc x); if nz then Some (Suc x) else um_scan m x }"

definition um_get_update_block_count :: "update_mask \<Rightarrow> nat option" where
  "um_get_update_block_count m =
     (if mBlocks m = 0 then None \<comment> \<open>\<open>x\<close> starts at \<open>0xFFFFFFFF\<close>: an access outside the array\<close>
      else do { x \<leftarrow> um_scan m (mBlocks m - 1); Some (x + 1) })"

definition um_get_length :: "update_mask \<Rightarrow> nat" where
  "um_get_length m = mBlocks m * 4"

definition um_clear :: "update_mask \<Rightarrow> update_mask" where
  "um_clear m = m\<lparr>um_bytes := replicate (4 * mBlocks m) 0\<rparr>"

definition um_assign :: "update_mask \<Rightarrow> update_mask option" where
  "um_assign m =
     (let n = um_set_count (mCount m) in
      do { bs \<leftarrow> mem_read (um_bytes m) 0 (4 * mBlocks n); Some (n\<lparr>um_bytes := bs\<rparr>) })"

definition um_combine :: "(u8 \<Rightarrow> u8 \<Rightarrow> u8) \<Rightarrow> update_mask \<Rightarrow> update_mask \<Rightarrow> update_mask option" where
  "um_combine f m k =
     (if mCount k \<le> mCount m
      then do {
        bs \<leftarrow> mem_read (um_bytes k) 0 (4 * mBlocks m);
        Some (m\<lparr>um_bytes := map2 f (um_bytes m) bs\<rparr>)
      }
      else None)"

definition um_and_assign :: "update_mask \<Rightarrow> update_mask \<Rightarrow> update_mask option" where
  "um_and_assign = um_combine (AND)"

definition um_or_assign :: "update_mask \<Rightarrow> update_mask \<Rightarrow> update_mask option" where
  "um_or_assign = um_combine (OR)"

definition um_and :: "update_mask \<Rightarrow> update_mask \<Rightarrow> update_mask option" where
  "um_and m k = (if mCount k \<le> mCount m then do { n \<leftarrow> um_assign m; um_and_assign n k } else None)"

definition um_or :: "update_mask \<Rightarrow> update_mask \<Rightarrow> update_mask option" where
  "um_or m k = (if mCount k \<le> mCount m then do { n \<leftarrow> um_assign m; um_or_assign n k } else None)"

section \<open>The mask as a set of field indices\<close>

definition um_ok :: "update_mask \<Rightarrow> bool" where
  "um_ok m \<longleftrightarrow> mBlocks m = (mCount m + 31) div 32 \<and> length (um_bytes m) = 4 * mBlocks m"

definition um_bit :: "update_mask \<Rightarrow> nat \<Rightarrow> bool" where
  "um_bit m i \<longleftrightarrow> bit (um_bytes m ! (i div 8)) (i mod 8)"

definition um_set :: "update_mask \<Rightarrow> nat set" where
  "um_set m = {i. i < mCount m \<and> um_bit m i}"

lemma drop_bit_3_nat: "drop_bit 3 (i :: nat) = i div 8"
  by (simp add: drop_bit_eq_div)

lemma and_7_nat: "(i :: nat) AND 7 = i mod 8"
  using take_bit_eq_mask [of 3 i] by (simp add: take_bit_eq_mod mask_eq_exp_minus_1)

lemma um_ok_byte: "um_ok m \<Longrightarrow> i < mCount m \<Longrightarrow> i div 8 < length (um_bytes m)"
  by (simp add: um_ok_def)

lemma um_blocks: "(if (n::nat) AND 31 \<noteq> 0 then drop_bit 5 n + 1 else drop_bit 5 n) = (n + 31) div 32"
proof -
  have "n AND 31 = n mod 32" using take_bit_eq_mask [of 5 n] by (simp add: take_bit_eq_mod mask_eq_exp_minus_1)
  moreover have "(n + 31) div 32 = n div 32 + (n mod 32 + 31) div 32"
  proof -
    have "n + 31 = (n mod 32 + 31) + n div 32 * 32" using div_mult_mod_eq [of n 32] by linarith
    then show ?thesis by (simp only: div_mult_self1)
  qed
  moreover have "(r + 31) div 32 = (if r = 0 then 0 else 1)" if "r < 32" for r :: nat
    using that by (auto simp: div_nat_eqI)
  ultimately show ?thesis by (simp add: drop_bit_eq_div)
qed

lemma um_set_count_ok: "um_ok (um_set_count n) \<and> mCount (um_set_count n) = n \<and> um_set (um_set_count n) = {}"
proof -
  have "mBlocks (um_set_count n) = (n + 31) div 32"
    using um_blocks [of n] by (simp add: um_set_count_def Let_def)
  moreover have "um_bytes (um_set_count n) = replicate (4 * mBlocks (um_set_count n)) 0"
      "mCount (um_set_count n) = n"
    by (simp_all add: um_set_count_def Let_def)
  moreover have "i div 8 < 4 * ((n + 31) div 32)" if "i < n" for i using that by linarith
  ultimately show ?thesis by (auto simp: um_ok_def um_set_def um_bit_def)
qed

lemma um_set_count_blocks: "mBlocks (um_set_count n) = (n + 31) div 32"
  using um_blocks [of n] by (simp add: um_set_count_def Let_def)

lemma push_bit_1_bit: "k < 8 \<Longrightarrow> bit (push_bit k 1 :: u8) j \<longleftrightarrow> j = k"
  by (auto simp: bit_simps)

lemma um_bit_upd:
  assumes "i div 8 < length (um_bytes m)"
  shows "um_bit (m\<lparr>um_bytes := (um_bytes m)[i div 8 := b]\<rparr>) j \<longleftrightarrow>
    (if j div 8 = i div 8 then bit b (j mod 8) else um_bit m j)"
  using assms by (auto simp: um_bit_def)

lemma div_mod_8_eq: "j div 8 = i div 8 \<Longrightarrow> j mod 8 = i mod 8 \<longleftrightarrow> j = (i::nat)"
  by (metis div_mult_mod_eq)

lemma um_set_bit_spec:
  assumes "um_ok m" "i < mCount m"
  shows "\<exists>m'. um_set_bit m i = Some m' \<and> um_ok m' \<and> mCount m' = mCount m \<and> um_set m' = insert i (um_set m)"
proof -
  let ?b = "um_bytes m ! (i div 8) OR push_bit (i mod 8) 1"
  let ?m = "m\<lparr>um_bytes := (um_bytes m)[i div 8 := ?b]\<rparr>"
  note len = um_ok_byte [OF assms]
  have "um_set_bit m i = Some ?m"
    using assms len by (simp add: um_set_bit_def um_byte_def um_put_def drop_bit_3_nat and_7_nat)
  moreover have "um_bit ?m j \<longleftrightarrow> um_bit m j \<or> j = i" for j
  proof (cases "j div 8 = i div 8")
    case True
    have "bit (push_bit (i mod 8) 1 :: u8) (j mod 8) \<longleftrightarrow> j = i"
      using push_bit_1_bit [of "i mod 8" "j mod 8"] div_mod_8_eq [OF True] by simp
    then show ?thesis using True um_bit_upd [OF len, of ?b j]
      by (simp add: bit_or_iff) (simp add: um_bit_def)
  next
    case False
    then show ?thesis using um_bit_upd [OF len, of ?b j] by auto
  qed
  ultimately show ?thesis using assms by (auto simp: um_ok_def um_set_def)
qed

lemma um_unset_bit_spec:
  assumes "um_ok m" "i < mCount m"
  shows "\<exists>m'. um_unset_bit m i = Some m' \<and> um_ok m' \<and> mCount m' = mCount m \<and> um_set m' = um_set m - {i}"
proof -
  let ?b = "um_bytes m ! (i div 8) AND (0xff XOR push_bit (i mod 8) 1)"
  let ?m = "m\<lparr>um_bytes := (um_bytes m)[i div 8 := ?b]\<rparr>"
  note len = um_ok_byte [OF assms]
  have "um_unset_bit m i = Some ?m"
    using assms len by (simp add: um_unset_bit_def um_byte_def um_put_def drop_bit_3_nat and_7_nat)
  moreover have "um_bit ?m j \<longleftrightarrow> um_bit m j \<and> j \<noteq> i" for j
  proof (cases "j div 8 = i div 8")
    case True
    have "(0xff :: u8) = - 1" by simp
    then have ff: "bit (0xff :: u8) (j mod 8)"
      by (simp only: bit_minus_1_iff) simp
    have "bit (push_bit (i mod 8) 1 :: u8) (j mod 8) \<longleftrightarrow> j = i"
      using push_bit_1_bit [of "i mod 8" "j mod 8"] div_mod_8_eq [OF True] by simp
    with ff have "bit (0xff XOR push_bit (i mod 8) 1 :: u8) (j mod 8) \<longleftrightarrow> j \<noteq> i"
      unfolding bit_xor_iff by simp
    then show ?thesis using True um_bit_upd [OF len, of ?b j]
      by (simp only: bit_and_iff) (simp add: um_bit_def)
  next
    case False
    then show ?thesis using um_bit_upd [OF len, of ?b j] by auto
  qed
  ultimately show ?thesis using assms by (auto simp: um_ok_def um_set_def)
qed

lemma um_get_bit_spec:
  assumes "um_ok m" "i < mCount m"
  shows "um_get_bit m i = Some (i \<in> um_set m)"
proof -
  have "(um_bytes m ! (i div 8)) AND push_bit (i mod 8) 1 \<noteq> 0 \<longleftrightarrow> um_bit m i"
    by (auto simp: um_bit_def and_exp_eq_0_iff_not_bit push_bit_eq_mult)
  then show ?thesis
    using assms um_ok_byte [OF assms]
    by (simp add: um_get_bit_def um_byte_def drop_bit_3_nat and_7_nat um_set_def)
qed


subsection \<open>The contract of an index set\<close>

datatype index_op = InsIx nat | DelIx nat

fun index_ops_set :: "index_op list \<Rightarrow> nat set \<Rightarrow> nat set" where
  "index_ops_set [] s = s"
| "index_ops_set (InsIx i # xs) s = index_ops_set xs (insert i s)"
| "index_ops_set (DelIx i # xs) s = index_ops_set xs (s - {i})"

fun index_ops_below :: "index_op list \<Rightarrow> nat \<Rightarrow> bool" where
  "index_ops_below [] n = True"
| "index_ops_below (InsIx i # xs) n = (i < n \<and> index_ops_below xs n)"
| "index_ops_below (DelIx i # xs) n = (i < n \<and> index_ops_below xs n)"

fun index_run :: "('m \<Rightarrow> nat \<Rightarrow> 'm option) \<Rightarrow> ('m \<Rightarrow> nat \<Rightarrow> 'm option) \<Rightarrow> 'm \<Rightarrow> index_op list \<Rightarrow> 'm option" where
  "index_run ins del m [] = Some m"
| "index_run ins del m (InsIx i # xs) = do { m' \<leftarrow> ins m i; index_run ins del m' xs }"
| "index_run ins del m (DelIx i # xs) = do { m' \<leftarrow> del m i; index_run ins del m' xs }"

locale index_set =
  fixes ok :: "'m \<Rightarrow> bool"
    and bound :: "'m \<Rightarrow> nat"
    and abs :: "'m \<Rightarrow> nat set"
    and ins :: "'m \<Rightarrow> nat \<Rightarrow> 'm option"
    and del :: "'m \<Rightarrow> nat \<Rightarrow> 'm option"
    and mem :: "'m \<Rightarrow> nat \<Rightarrow> bool option"
  assumes ins_abs: "ok m \<Longrightarrow> i < bound m \<Longrightarrow>
      \<exists>m'. ins m i = Some m' \<and> ok m' \<and> bound m' = bound m \<and> abs m' = insert i (abs m)"
    and del_abs: "ok m \<Longrightarrow> i < bound m \<Longrightarrow>
      \<exists>m'. del m i = Some m' \<and> ok m' \<and> bound m' = bound m \<and> abs m' = abs m - {i}"
    and mem_abs: "ok m \<Longrightarrow> i < bound m \<Longrightarrow> mem m i = Some (i \<in> abs m)"
begin

lemma run_abs:
  assumes "ok m" "index_ops_below xs (bound m)"
  shows "\<exists>m'. index_run ins del m xs = Some m' \<and> ok m' \<and> bound m' = bound m \<and>
    abs m' = index_ops_set xs (abs m)"
  using assms
proof (induction xs arbitrary: m)
  case (Cons x xs)
  show ?case
  proof (cases x)
    case (InsIx i)
    then have "i < bound m" using Cons.prems(2) by simp
    with ins_abs [OF Cons.prems(1)] obtain m' where "ins m i = Some m'" "ok m'" "bound m' = bound m"
        "abs m' = insert i (abs m)" by blast
    with Cons.IH [of m'] Cons.prems(2) InsIx show ?thesis by simp
  next
    case (DelIx i)
    then have "i < bound m" using Cons.prems(2) by simp
    with del_abs [OF Cons.prems(1)] obtain m' where "del m i = Some m'" "ok m'" "bound m' = bound m"
        "abs m' = abs m - {i}" by blast
    with Cons.IH [of m'] Cons.prems(2) DelIx show ?thesis by simp
  qed
qed simp

lemma run_mem:
  assumes "ok m" "index_ops_below xs (bound m)"
  shows "\<exists>m'. index_run ins del m xs = Some m' \<and>
    (\<forall>i < bound m. mem m' i = Some (i \<in> index_ops_set xs (abs m)))"
  using run_abs [OF assms] mem_abs by fastforce

end

interpretation um: index_set um_ok mCount um_set um_set_bit um_unset_bit um_get_bit
  by unfold_locales (rule um_set_bit_spec um_unset_bit_spec um_get_bit_spec; assumption)+

subsection \<open>Blocks\<close>

lemma um_block_nonzero_Some:
  assumes "um_ok m" "x < mBlocks m"
  shows "um_block_nonzero m x = Some (\<exists>j < 4. um_bytes m ! (4 * x + j) \<noteq> 0)"
proof -
  have len: "4 * x + 4 \<le> length (um_bytes m)" using assms by (simp add: um_ok_def)
  then have "set (take 4 (drop (4 * x) (um_bytes m))) = (!) (drop (4 * x) (um_bytes m)) ` {0..<4}"
    by (intro nth_image [symmetric]) simp
  with len show ?thesis by (auto simp: um_block_nonzero_def)
qed

lemma um_scan_spec:
  assumes "um_ok m" "x < mBlocks m"
  shows "\<exists>r. um_scan m x = Some r \<and> r \<le> x \<and>
    (\<forall>y. r < y \<and> y \<le> x \<longrightarrow> um_block_nonzero m y = Some False) \<and>
    (0 < r \<longrightarrow> um_block_nonzero m r = Some True)"
  using assms(2)
proof (induction x)
  case (Suc x)
  then obtain r where r: "um_scan m x = Some r" "r \<le> x"
      "\<And>y. r < y \<Longrightarrow> y \<le> x \<Longrightarrow> um_block_nonzero m y = Some False"
      "0 < r \<longrightarrow> um_block_nonzero m r = Some True" by auto
  obtain nz where nz: "um_block_nonzero m (Suc x) = Some nz"
    using um_block_nonzero_Some [OF assms(1) Suc.prems] by simp
  show ?case
  proof (cases nz)
    case True
    then show ?thesis using nz by auto
  next
    case False
    then show ?thesis using nz r by (auto simp: le_Suc_eq)
  qed
qed simp

lemma um_zero_block_bits:
  assumes "um_ok m" "um_block_nonzero m x = Some False" "x < mBlocks m" "i div 32 = x"
  shows "\<not> um_bit m i"
proof -
  have "x = i div 8 div 4" using assms(4) div_mult2_eq [of i 8 4] by simp
  then have "i div 8 = 4 * x + i div 8 mod 4" by simp
  moreover have "\<forall>j < 4. um_bytes m ! (4 * x + j) = 0"
    using assms(2) um_block_nonzero_Some [OF assms(1,3)] by simp
  ultimately have "um_bytes m ! (i div 8) = 0"
    by (metis mod_less_divisor zero_less_numeral)
  then show ?thesis by (simp add: um_bit_def)
qed

subsection \<open>Combination of two masks\<close>

lemma um_combine_same:
  assumes "um_ok m" "um_ok k" "mCount k = mCount m"
  shows "um_combine f m k = Some (m\<lparr>um_bytes := map2 f (um_bytes m) (um_bytes k)\<rparr>)"
  using assms by (simp add: um_combine_def um_ok_def)

lemma um_combine_bit:
  assumes "um_ok m" "um_ok k" "mCount k = mCount m" "i < mCount m"
    and "\<And>a b j. bit (f a b) j \<longleftrightarrow> F (bit a j) (bit b j)"
  shows "um_bit (m\<lparr>um_bytes := map2 f (um_bytes m) (um_bytes k)\<rparr>) i \<longleftrightarrow> F (um_bit m i) (um_bit k i)"
proof -
  have "i div 8 < length (um_bytes m)" "i div 8 < length (um_bytes k)"
    using um_ok_byte [OF assms(1,4)] um_ok_byte [OF assms(2)] assms(3,4) by auto
  then show ?thesis by (simp add: um_bit_def assms(5))
qed

lemma um_combine_overrun:
  assumes "um_ok m" "um_ok k" "mBlocks k < mBlocks m"
  shows "um_combine f m k = None"
proof -
  have "length (um_bytes k) < 4 * mBlocks m" using assms by (simp add: um_ok_def)
  then show ?thesis by (simp add: um_combine_def mem_read_def)
qed

section \<open>Properties\<close>

text \<open>
  On a mask of \<open>n\<close> fields, any sequence of \<open>SetBit\<close> and \<open>UnsetBit\<close> calls with indices below
  \<open>n\<close> stays inside the array, and \<open>GetBit\<close> afterwards tells exactly which indices the sequence
  leaves set: the bytes implement a set of field indices.
\<close>

theorem um_index_set:
  assumes "index_ops_below xs n"
  shows "\<exists>m. index_run um_set_bit um_unset_bit (um_set_count n) xs = Some m \<and>
    (\<forall>i < n. um_get_bit m i = Some (i \<in> index_ops_set xs {}))"
  using um.run_mem [of "um_set_count n" xs] um_set_count_ok [of n] assms by simp

theorem um_index_set_witness:
  "\<exists>m. index_run um_set_bit um_unset_bit (um_set_count 40) [InsIx 9, InsIx 33, DelIx 9] = Some m \<and>
    um_get_bit m 9 = Some False \<and> um_get_bit m 33 = Some True"
proof -
  have "index_ops_below [InsIx 9, InsIx 33, DelIx 9] 40" by simp
  from um_index_set [OF this] obtain m
    where m: "index_run um_set_bit um_unset_bit (um_set_count 40) [InsIx 9, InsIx 33, DelIx 9] = Some m"
      "\<forall>i < 40. um_get_bit m i = Some (i \<in> index_ops_set [InsIx 9, InsIx 33, DelIx 9] {})" by blast
  from m(2) have "um_get_bit m 9 = Some False" "um_get_bit m 33 = Some True" by auto
  with m(1) show ?thesis by blast
qed

text \<open>
  \<open>GetUpdateBlockCount\<close> of a mask with at least one block stays inside the array and
  returns a prefix of the blocks that holds every set index, and no shorter one unless it is a
  single block: what is sent to the client misses no change.
\<close>

theorem um_update_blocks_cover:
  assumes "um_ok m" "0 < mBlocks m"
  shows "\<exists>n. um_get_update_block_count m = Some n \<and> 1 \<le> n \<and> n \<le> mBlocks m \<and>
    (\<forall>i \<in> um_set m. i < 32 * n) \<and> (1 < n \<longrightarrow> um_block_nonzero m (n - 1) = Some True)"
proof -
  from assms(2) have x: "mBlocks m - 1 < mBlocks m" by simp
  from um_scan_spec [OF assms(1) x] obtain r where r: "um_scan m (mBlocks m - 1) = Some r"
      "r \<le> mBlocks m - 1" "0 < r \<longrightarrow> um_block_nonzero m r = Some True"
    and z: "\<And>y. r < y \<Longrightarrow> y \<le> mBlocks m - 1 \<Longrightarrow> um_block_nonzero m y = Some False" by auto
  have "i < 32 * (r + 1)" if "i \<in> um_set m" for i
  proof (rule ccontr)
    assume "\<not> i < 32 * (r + 1)"
    then have lo: "r < i div 32" by auto
    have hi: "i div 32 \<le> mBlocks m - 1"
      using that assms(1) by (auto simp: um_set_def um_ok_def)
    from um_zero_block_bits [OF assms(1) z [OF lo hi] _ refl] hi assms(2) that show False
      by (simp add: um_set_def)
  qed
  with r assms(2) show ?thesis by (auto simp: um_get_update_block_count_def)
qed

theorem um_update_blocks_cover_witness:
  "\<exists>n. um_get_update_block_count (um_set_count 40) = Some n \<and> 1 \<le> n \<and> n \<le> 2"
proof -
  have b: "mBlocks (um_set_count 40) = 2" by (simp add: um_set_count_blocks)
  from um_update_blocks_cover [of "um_set_count 40"] um_set_count_ok [of 40] b show ?thesis by auto
qed

text \<open>
  \<open>&=\<close> and \<open>|=\<close> of two masks of the same number of fields are intersection and union of the
  index sets. The assertion also admits a shorter right-hand mask, but the loop runs over the
  blocks of the left one: when the right mask has fewer blocks, both read behind its array.
\<close>

theorem um_combine_sets:
  assumes "um_ok m" "um_ok k"
  shows "(mCount k = mCount m \<longrightarrow>
      (\<exists>m'. um_and_assign m k = Some m' \<and> um_set m' = um_set m \<inter> um_set k) \<and>
      (\<exists>m'. um_or_assign m k = Some m' \<and> um_set m' = um_set m \<union> um_set k)) \<and>
    (mBlocks k < mBlocks m \<longrightarrow> um_and_assign m k = None \<and> um_or_assign m k = None)"
proof (intro conjI impI)
  assume c: "mCount k = mCount m"
  have "um_bit (m\<lparr>um_bytes := map2 (AND) (um_bytes m) (um_bytes k)\<rparr>) i \<longleftrightarrow> um_bit m i \<and> um_bit k i"
    if "i < mCount m" for i
    by (rule um_combine_bit [OF assms c that]) (simp add: bit_and_iff)
  then show "\<exists>m'. um_and_assign m k = Some m' \<and> um_set m' = um_set m \<inter> um_set k"
    using um_combine_same [OF assms c, of "(AND)"] c by (auto simp: um_and_assign_def um_set_def)
  have "um_bit (m\<lparr>um_bytes := map2 (OR) (um_bytes m) (um_bytes k)\<rparr>) i \<longleftrightarrow> um_bit m i \<or> um_bit k i"
    if "i < mCount m" for i
    by (rule um_combine_bit [OF assms c that]) (simp add: bit_or_iff)
  then show "\<exists>m'. um_or_assign m k = Some m' \<and> um_set m' = um_set m \<union> um_set k"
    using um_combine_same [OF assms c, of "(OR)"] c by (auto simp: um_or_assign_def um_set_def)
qed (use um_combine_overrun [OF assms] in \<open>simp_all add: um_and_assign_def um_or_assign_def\<close>)

theorem um_combine_sets_witness:
  "um_and_assign (um_set_count 40) (um_set_count 8) = None \<and>
   (\<exists>m'. um_or_assign (um_set_count 8) (um_set_count 8) = Some m' \<and> um_set m' = {})"
proof -
  note ok = um_set_count_ok [THEN conjunct1]
  have "mBlocks (um_set_count 8) < mBlocks (um_set_count 40)"
    by (simp add: um_set_count_blocks)
  with um_combine_sets [OF ok [of 40] ok [of 8]] um_combine_sets [OF ok [of 8] ok [of 8]]
    um_set_count_ok [of 8]
  show ?thesis by auto
qed

end
