(* ===== verification/HS_Crypt.thy ===== *)
theory HS_Crypt
  imports HS_Prelude "HOL-Library.Multiset"
begin

unbundle bit_operations_syntax

text \<open>
  The packet header cipher: \<open>RC4Engine\<close> (\<open>RC4Engine.h\<close>) and \<open>WowCrypt\<close>
  (\<open>Auth/WowCrypt.cpp\<close>). HMAC-SHA1 is OpenSSL's and is the parameter \<open>hmac\<close> (key, data to
  digest) of \<open>wc_init\<close>. The lengths \<open>WowCrypt\<close> takes are \<open>size_t\<close>, and \<open>Process\<close> cuts them to an
  \<open>unsigned int\<close>; they are natural numbers here, so the model is for fewer than 2^32 bytes (the callers pass
  headers of 4 to 6 bytes). The contract of a synchronous stream cipher is the locale
  \<open>stream_cipher\<close>.
\<close>

section \<open>RC4Engine\<close>

record rc4 =
  rc_perm :: "u8 list"
  rc_index1 :: u8
  rc_index2 :: u8
  rc_Initialized :: bool

text \<open>\<open>k = perm[i]; perm[i] = perm[j]; perm[j] = k;\<close>\<close>

definition swap_at :: "'a list \<Rightarrow> nat \<Rightarrow> nat \<Rightarrow> 'a list" where
  "swap_at p i j = (let k = p ! i; p = p[i := p ! j] in p[j := k])"

text \<open>The key mixing loop, over the remaining values of \<open>i\<close>.\<close>

fun rc4_mix :: "u8 list \<Rightarrow> nat \<Rightarrow> nat list \<Rightarrow> u8 list \<times> u8 \<Rightarrow> (u8 list \<times> u8) option" where
  "rc4_mix keybytes keylen [] s = Some s"
| "rc4_mix keybytes keylen (i # is) (perm, j) =
     do {
       kb \<leftarrow> mem_read keybytes (i mod keylen) 1;
       let j = j + (perm ! i + hd kb);
       rc4_mix keybytes keylen is (swap_at perm i (unat j), j)
     }"

text \<open>\<open>Setup\<close>; a key of length 0 divides by zero.\<close>

definition rc4_setup :: "u8 list \<Rightarrow> nat \<Rightarrow> rc4 option" where
  "rc4_setup keybytes keylen =
     (if keylen = 0 then None
      else do {
        let perm = map of_nat [0..<256];
        (perm, j) \<leftarrow> rc4_mix keybytes keylen [0..<256] (perm, 0);
        Some \<lparr>rc_perm = perm, rc_index1 = 0, rc_index2 = 0, rc_Initialized = True\<rparr>
      })"

text \<open>One round of \<open>Process\<close>: the key stream byte and the new engine.\<close>

definition rc4_round :: "rc4 \<Rightarrow> u8 \<times> rc4" where
  "rc4_round e =
     (let i1 = rc_index1 e + 1;
          i2 = rc_index2 e + rc_perm e ! unat i1;
          p = swap_at (rc_perm e) (unat i1) (unat i2);
          j = p ! unat i1 + p ! unat i2
      in (p ! unat j, e\<lparr>rc_perm := p, rc_index1 := i1, rc_index2 := i2\<rparr>))"

fun rc4_process :: "rc4 \<Rightarrow> u8 list \<Rightarrow> u8 list \<times> rc4" where
  "rc4_process e [] = ([], e)"
| "rc4_process e (x # xs) =
     (let (k, e') = rc4_round e; (ys, e'') = rc4_process e' xs in ((x XOR k) # ys, e''))"

text \<open>\<open>ReverseBytes\<close>: through a temporary copy.\<close>

definition reverse_bytes :: "u8 list \<Rightarrow> u8 list" where
  "reverse_bytes p = (let temp = p in map (\<lambda>i. temp ! (length p - i - 1)) [0..<length p])"

lemma reverse_bytes_rev: "reverse_bytes p = rev p"
  by (rule nth_equalityI) (auto simp: reverse_bytes_def rev_nth)

subsection \<open>The permutation invariant\<close>

definition perm_ok :: "u8 list \<Rightarrow> bool" where
  "perm_ok p \<longleftrightarrow> length p = 256 \<and> distinct p"

definition rc4_ok :: "rc4 \<Rightarrow> bool" where
  "rc4_ok e \<longleftrightarrow> perm_ok (rc_perm e)"

lemma unat_u8 [simp]: "unat (b :: u8) < 256"
  using unsigned_less [where ?'a = nat, of b] by simp

lemma perm_ok_all: "perm_ok p \<Longrightarrow> set p = UNIV"
proof -
  assume "perm_ok p"
  then have "card (set p) = card (UNIV :: u8 set)"
    by (simp add: perm_ok_def distinct_card card_word)
  then show ?thesis by (intro card_subset_eq) auto
qed

lemma swap_at_mset: "i < length p \<Longrightarrow> j < length p \<Longrightarrow> mset (swap_at p i j) = mset p"
  by (simp add: swap_at_def Let_def mset_swap)

lemma swap_at_ok: "perm_ok p \<Longrightarrow> i < 256 \<Longrightarrow> j < 256 \<Longrightarrow> perm_ok (swap_at p i j)"
  using swap_at_mset [of i p j] mset_eq_imp_distinct_iff [of "swap_at p i j" p]
  by (auto simp: perm_ok_def dest: mset_eq_length)

lemma perm_ok_init: "perm_ok (map of_nat [0..<256])"
proof -
  have "inj_on (of_nat :: nat \<Rightarrow> u8) {0..<256}"
  proof (rule inj_onI)
    fix x y :: nat assume "x \<in> {0..<256}" "y \<in> {0..<256}" "(of_nat x :: u8) = of_nat y"
    then have "unat (of_nat x :: u8) = unat (of_nat y :: u8)" "x < 256" "y < 256" by auto
    then show "x = y" by (simp add: unat_of_nat)
  qed
  then show ?thesis by (simp add: perm_ok_def distinct_map)
qed

lemma rc4_mix_ok:
  assumes "perm_ok p" "0 < n" "n \<le> length key" "\<And>i. i \<in> set is \<Longrightarrow> i < 256"
  shows "\<exists>p' j'. rc4_mix key n is (p, j) = Some (p', j') \<and> perm_ok p'"
  using assms(1,4)
proof (induction "is" arbitrary: p j)
  case (Cons i "is")
  have "i mod n + 1 \<le> length key"
    using assms(2,3) mod_less_divisor [of n i] by linarith
  moreover have "perm_ok (swap_at p i (unat b))" for b :: u8
    using Cons.prems by (intro swap_at_ok) auto
  ultimately show ?case using Cons.IH Cons.prems by (simp add: Let_def)
qed simp

lemma rc4_setup_ok:
  assumes "0 < n" "n \<le> length key"
  shows "\<exists>e. rc4_setup key n = Some e \<and> rc4_ok e"
  using rc4_mix_ok [OF perm_ok_init assms, of "[0..<256]" 0] assms
  by (auto simp: rc4_setup_def rc4_ok_def)

lemma rc4_round_ok: "rc4_ok e \<Longrightarrow> rc4_ok (snd (rc4_round e))"
  by (simp add: rc4_round_def rc4_ok_def Let_def swap_at_ok)

lemma rc4_process_ok: "rc4_ok e \<Longrightarrow> rc4_ok (snd (rc4_process e xs))"
  by (induction e xs rule: rc4_process.induct)
    (auto simp: Let_def split: prod.splits dest: rc4_round_ok)

section \<open>Stream ciphers\<close>

text \<open>
  Encrypting and decrypting are the same operation \<open>proc\<close> on equal states, and cutting the data
  into packets does not matter.
\<close>

locale stream_cipher =
  fixes proc :: "'s \<Rightarrow> u8 list \<Rightarrow> u8 list \<times> 's"
  assumes proc_inverse: "proc s xs = (ys, s') \<Longrightarrow> proc s ys = (xs, s')"
    and proc_append: "proc s (xs @ ys) =
      (let (xs', s1) = proc s xs; (ys', s2) = proc s1 ys in (xs' @ ys', s2))"
begin

lemma proc_packets:
  assumes "proc s (concat ps) = (c, s')"
  shows "proc s c = (concat ps, s')"
  by (rule proc_inverse [OF assms])

lemma proc_two:
  assumes "proc s xs = (xs', s1)" "proc s1 ys = (ys', s2)"
  shows "proc s (xs' @ ys') = (xs @ ys, s2)"
proof (rule proc_inverse)
  show "proc s (xs @ ys) = (xs' @ ys', s2)" using assms by (simp add: proc_append)
qed

end

lemma rc4_process_append:
  "rc4_process e (xs @ ys) =
    (let (xs', e1) = rc4_process e xs; (ys', e2) = rc4_process e1 ys in (xs' @ ys', e2))"
  by (induction e xs rule: rc4_process.induct) (auto simp: Let_def split: prod.splits)

lemma rc4_process_inverse: "rc4_process e xs = (ys, e') \<Longrightarrow> rc4_process e ys = (xs, e')"
proof (induction e xs arbitrary: ys e' rule: rc4_process.induct)
  case (2 e x xs)
  obtain k e1 where 1: "rc4_round e = (k, e1)" by (cases "rc4_round e")
  obtain zs where zs: "rc4_process e1 xs = (zs, e')" and ys: "ys = (x XOR k) # zs"
    using "2.prems" 1 by (auto simp: Let_def split: prod.splits)
  from "2.IH" [OF 1 [symmetric] refl zs] have "rc4_process e1 zs = (xs, e')" .
  with 1 ys show ?case by (simp add: Let_def xor.assoc)
qed simp

interpretation rc: stream_cipher rc4_process
  by unfold_locales (rule rc4_process_inverse rc4_process_append; assumption?)+

section \<open>WowCrypt\<close>

record wow_crypt =
  wc_Decrypt :: rc4
  wc_Encrypt :: rc4
  wc_initialized :: bool

definition ServerEncryptionKey :: "u8 list" where
  "ServerEncryptionKey = [0x22, 0xBE, 0xE5, 0xCF, 0xBB, 0x07, 0x64, 0xD9, 0x00, 0x45, 0x1B, 0xD0, 0x24, 0xB8, 0xD5, 0x45]"

definition ServerDecryptionKey :: "u8 list" where
  "ServerDecryptionKey = [0xF4, 0x66, 0x31, 0x59, 0xFC, 0x83, 0x6E, 0x31, 0x31, 0x02, 0x51, 0xD5, 0x44, 0x31, 0x67, 0x98]"

text \<open>\<open>Init\<close>: the session key \<open>K\<close> is read as 40 bytes, the first 1024 key stream bytes are dropped.\<close>

definition wc_init :: "(u8 list \<Rightarrow> u8 list \<Rightarrow> u8 list) \<Rightarrow> u8 list \<Rightarrow> wow_crypt option" where
  "wc_init hmac K =
     do {
       k \<leftarrow> mem_read K 0 40;
       let encryptHash = hmac ServerEncryptionKey k;
       let decryptHash = hmac ServerDecryptionKey k;
       d \<leftarrow> rc4_setup decryptHash 20;
       e \<leftarrow> rc4_setup encryptHash 20;
       Some \<lparr>wc_Decrypt = snd (rc4_process d (replicate 1024 0)),
             wc_Encrypt = snd (rc4_process e (replicate 1024 0)), wc_initialized = True\<rparr>
     }"

definition wc_decrypt_recv :: "wow_crypt \<Rightarrow> u8 list \<Rightarrow> u8 list \<times> wow_crypt" where
  "wc_decrypt_recv w data =
     (if \<not> wc_initialized w then (data, w)
      else (let (out, e) = rc4_process (wc_Decrypt w) data in (out, w\<lparr>wc_Decrypt := e\<rparr>)))"

definition wc_encrypt_send :: "wow_crypt \<Rightarrow> u8 list \<Rightarrow> u8 list \<times> wow_crypt" where
  "wc_encrypt_send w data =
     (if \<not> wc_initialized w then (data, w)
      else (let (out, e) = rc4_process (wc_Encrypt w) data in (out, w\<lparr>wc_Encrypt := e\<rparr>)))"

fun wc_send_all :: "wow_crypt \<Rightarrow> u8 list list \<Rightarrow> u8 list \<times> wow_crypt" where
  "wc_send_all w [] = ([], w)"
| "wc_send_all w (p # ps) =
     (let (c, w1) = wc_encrypt_send w p; (cs, w2) = wc_send_all w1 ps in (c @ cs, w2))"

text \<open>Two ends are in step when one decrypts with the state the other encrypts with.\<close>

definition wc_in_step :: "wow_crypt \<Rightarrow> wow_crypt \<Rightarrow> bool" where
  "wc_in_step a b \<longleftrightarrow> wc_initialized a = wc_initialized b \<and> wc_Encrypt a = wc_Decrypt b"

lemma wc_send_all_concat:
  "wc_send_all w ps = wc_encrypt_send w (concat ps)"
proof (induction ps arbitrary: w)
  case Nil
  show ?case by (simp add: wc_encrypt_send_def Let_def)
next
  case (Cons p ps)
  then show ?case
    by (auto simp: wc_encrypt_send_def Let_def rc4_process_append split: prod.splits)
qed

section \<open>Properties\<close>

text \<open>
  With a key of at least \<open>keylen > 0\<close> bytes \<open>RC4Engine::Setup\<close> stays inside the key and
  produces an engine whose table is a permutation of the 256 byte values, and so it stays
  whatever data is processed: every table index the cipher computes is inside the table.
\<close>

theorem rc4_table_permutation:
  assumes "0 < keylen" "keylen \<le> length key"
  shows "\<exists>e. rc4_setup key keylen = Some e \<and>
    (\<forall>xs. let p = rc_perm (snd (rc4_process e xs)) in length p = 256 \<and> distinct p \<and> set p = UNIV)"
proof -
  from rc4_setup_ok [OF assms] obtain e where e: "rc4_setup key keylen = Some e" "rc4_ok e" by blast
  have "perm_ok (rc_perm (snd (rc4_process e xs)))" for xs
    using rc4_process_ok [OF e(2)] by (simp add: rc4_ok_def)
  with e(1) show ?thesis by (auto simp: Let_def perm_ok_all) (auto simp: perm_ok_def)
qed

theorem rc4_table_permutation_witness:
  "\<exists>e. rc4_setup [1, 2, 3] 3 = Some e \<and> distinct (rc_perm (snd (rc4_process e [7])))"
  using rc4_table_permutation [of 3 "[1, 2, 3]"] by (auto simp: Let_def simp del: rc4_process.simps)

text \<open>
  C39. Whatever packets one end sends with \<open>EncryptSend\<close>, an end in step with it recovers the
  concatenation of the packets by one \<open>DecryptRecv\<close> of the received bytes, or by two calls at
  any cut point, and both ends are in step again afterwards.
\<close>

theorem wc_stream_roundtrip:
  assumes "wc_in_step a b" "wc_send_all a ps = (c1 @ c2, a')"
  shows "\<exists>d1 d2 b1 b2. wc_decrypt_recv b c1 = (d1, b1) \<and> wc_decrypt_recv b1 c2 = (d2, b2) \<and>
    d1 @ d2 = concat ps \<and> wc_in_step a' b2"
proof (cases "wc_initialized a")
  case False
  with assms show ?thesis
    by (auto simp: wc_send_all_concat wc_encrypt_send_def wc_decrypt_recv_def wc_in_step_def)
next
  case True
  from assms(2) True obtain e where e: "rc4_process (wc_Encrypt a) (concat ps) = (c1 @ c2, e)"
      "a' = a\<lparr>wc_Encrypt := e\<rparr>"
    by (auto simp: wc_send_all_concat wc_encrypt_send_def split: prod.splits)
  from rc.proc_packets [OF e(1)] obtain d1 d2 e1
    where "rc4_process (wc_Encrypt a) c1 = (d1, e1)" "rc4_process e1 c2 = (d2, e)" "concat ps = d1 @ d2"
    by (auto simp: rc4_process_append Let_def split: prod.splits)
  with True assms(1) e(2) show ?thesis
    by (auto simp: wc_decrypt_recv_def wc_in_step_def)
qed

theorem wc_stream_roundtrip_witness:
  "\<exists>w d1 d2 b1 b2. wc_init (\<lambda>key data. replicate 20 1) (replicate 40 7) = Some w \<and>
    (let c = fst (wc_send_all (w\<lparr>wc_Encrypt := wc_Decrypt w\<rparr>) [[1, 2], [3]]) in
     wc_decrypt_recv w (take 1 c) = (d1, b1) \<and> wc_decrypt_recv b1 (drop 1 c) = (d2, b2)) \<and>
    d1 @ d2 = [1, 2, 3]"
proof -
  obtain e where e: "rc4_setup (replicate 20 1) 20 = Some e" using rc4_setup_ok [of 20 "replicate 20 1"] by auto
  let ?r = "snd (rc4_process e (replicate 1024 0))"
  let ?w = "\<lparr>wc_Decrypt = ?r, wc_Encrypt = ?r, wc_initialized = True\<rparr>"
  have w: "wc_init (\<lambda>key data. replicate 20 1) (replicate 40 7) = Some ?w"
    using e by (simp add: wc_init_def)
  obtain c a' where c: "wc_send_all ?w [[1, 2], [3]] = (c, a')" by (cases "wc_send_all ?w [[1, 2], [3]]")
  have step: "wc_in_step ?w ?w" by (simp add: wc_in_step_def)
  from c have "wc_send_all ?w [[1, 2], [3]] = (take 1 c @ drop 1 c, a')" by simp
  from wc_stream_roundtrip [OF step this] w c show ?thesis by (auto simp: Let_def)
qed

end
