(* ===== verification/HS_Channel.thy ===== *)
theory HS_Channel
  imports HS_Prelude
begin

text \<open>
  Chat channels: \<open>hearthstone-world/Channel.cpp\<close>, \<open>Channel.h\<close> and the membership part of
  \<open>Player\<close> (\<open>JoinedChannel\<close>, \<open>LeftChannel\<close>). The manager and the packet handlers are in
  \<open>HS_ChannelMgr\<close>.

  An operation is a function from a channel to the channel after it and the list of its
  effects, in order. A \<open>PlayerPointer\<close> is a number (the member map is ordered by it), what
  the code reads of a player is an environment \<open>env\<close>. The channel lock is recursive and held
  during the whole of every operation, so an operation is one step. A player who issues or
  receives a direct answer has a session; \<open>SendToAll\<close> and \<open>Part\<close> test it as the code does.
\<close>

section \<open>Data\<close>

type_synonym player = nat

record chan_player =
  pl_guid :: u64
  pl_low :: u32
  pl_session :: bool
  pl_cmd_c :: bool
  pl_level :: u32
  pl_gm_tag :: bool
  pl_logging_out :: bool
  pl_no_autojoin :: bool
  pl_team :: nat
  pl_lfg_dungeons :: "u32 list"
  pl_permissions :: nat

type_synonym chan_env = "player \<Rightarrow> chan_player"

record channel =
  m_name :: string
  m_password :: string
  m_flags :: u8
  m_typeId :: u32
  m_general :: bool
  m_muted :: bool
  m_announce :: bool
  m_team :: nat
  m_minimumLevel :: u32
  m_channelId :: u32
  m_members :: "(player \<times> u32) list"
  m_bannedMembers :: "u32 list"

datatype chan_event =
    SendPacket player packet
  | BroadcastMessage player u32 string
  | JoinedChannel player u32
  | LeftChannel player u32

definition CHANNEL_FLAG_OWNER :: u32 where "CHANNEL_FLAG_OWNER = 0x01"
definition CHANNEL_FLAG_MODERATOR :: u32 where "CHANNEL_FLAG_MODERATOR = 0x02"
definition CHANNEL_FLAG_VOICED :: u32 where "CHANNEL_FLAG_VOICED = 0x04"
definition CHANNEL_FLAG_MUTED :: u32 where "CHANNEL_FLAG_MUTED = 0x08"

lemmas chan_flags = CHANNEL_FLAG_OWNER_def CHANNEL_FLAG_MODERATOR_def
  CHANNEL_FLAG_VOICED_def CHANNEL_FLAG_MUTED_def

datatype notify_flag =
    NF_JOINED | NF_LEFT | NF_YOUJOINED | NF_YOULEFT | NF_WRONGPASS | NF_NOTON | NF_NOTMOD
  | NF_SETPASS | NF_CHGOWNER | NF_NOT_ON_2 | NF_NOT_OWNER | NF_WHO_OWNER | NF_MODE_CHG
  | NF_ENABLE_ANN | NF_DISABLE_ANN | NF_MODERATED | NF_UNMODERATED | NF_YOUCANTSPEAK
  | NF_KICKED | NF_YOURBANNED | NF_BANNED | NF_UNBANNED | NF_ALREADY_ON | NF_INVITED | NF_YOU_INVITED

fun notify_code :: "notify_flag \<Rightarrow> u8" where
  "notify_code NF_JOINED = 0x00" | "notify_code NF_LEFT = 0x01"
| "notify_code NF_YOUJOINED = 0x02" | "notify_code NF_YOULEFT = 0x03"
| "notify_code NF_WRONGPASS = 0x04" | "notify_code NF_NOTON = 0x05"
| "notify_code NF_NOTMOD = 0x06" | "notify_code NF_SETPASS = 0x07"
| "notify_code NF_CHGOWNER = 0x08" | "notify_code NF_NOT_ON_2 = 0x09"
| "notify_code NF_NOT_OWNER = 0x0A" | "notify_code NF_WHO_OWNER = 0x0B"
| "notify_code NF_MODE_CHG = 0x0C" | "notify_code NF_ENABLE_ANN = 0x0D"
| "notify_code NF_DISABLE_ANN = 0x0E" | "notify_code NF_MODERATED = 0x0F"
| "notify_code NF_UNMODERATED = 0x10" | "notify_code NF_YOUCANTSPEAK = 0x11"
| "notify_code NF_KICKED = 0x12" | "notify_code NF_YOURBANNED = 0x13"
| "notify_code NF_BANNED = 0x14" | "notify_code NF_UNBANNED = 0x15"
| "notify_code NF_ALREADY_ON = 0x17" | "notify_code NF_INVITED = 0x18"
| "notify_code NF_YOU_INVITED = 0x1D"

text \<open>The body \<open>data << uint8(flag) << m_name << ...\<close> and the notification packet made of it.\<close>

definition note_body :: "channel \<Rightarrow> notify_flag \<Rightarrow> pfield list \<Rightarrow> pfield list" where
  "note_body c nf args = U8 (notify_code nf) # Str (m_name c) # args"

abbreviation chan_notify :: "pfield list \<Rightarrow> packet" where
  "chan_notify body \<equiv> (''SMSG_CHANNEL_NOTIFY'', body)"

definition chan_reply :: "channel \<Rightarrow> player \<Rightarrow> notify_flag \<Rightarrow> pfield list \<Rightarrow> chan_event list" where
  "chan_reply c plr nf args = [SendPacket plr (chan_notify (note_body c nf args))]"

definition ch_send_to_all :: "chan_env \<Rightarrow> channel \<Rightarrow> packet \<Rightarrow> chan_event list" where
  "ch_send_to_all env c pkt =
     map (\<lambda>(p, _). SendPacket p pkt) (filter (\<lambda>(p, _). pl_session (env p)) (m_members c))"

definition ch_send_to_all_but :: "chan_env \<Rightarrow> channel \<Rightarrow> packet \<Rightarrow> player option \<Rightarrow> chan_event list" where
  "ch_send_to_all_but env c pkt plr =
     map (\<lambda>(p, _). SendPacket p pkt)
       (filter (\<lambda>(p, _). Some p \<noteq> plr \<and> pl_session (env p)) (m_members c))"

definition chan_announce :: "chan_env \<Rightarrow> channel \<Rightarrow> notify_flag \<Rightarrow> pfield list \<Rightarrow> chan_event list" where
  "chan_announce env c nf args = ch_send_to_all env c (chan_notify (note_body c nf args))"

lemmas chan_out_defs = chan_reply_def chan_announce_def ch_send_to_all_def ch_send_to_all_but_def

section \<open>Construction\<close>

text \<open>
  \<open>dbc\<close> is the table of predefined channels read from the client data: the flags of a type id.
\<close>

definition ch_new :: "(u32 \<Rightarrow> u32 option) \<Rightarrow> string \<Rightarrow> nat \<Rightarrow> u32 \<Rightarrow> u32 \<Rightarrow> channel" where
  "ch_new dbc name team type_id cid =
    (let general = (dbc type_id \<noteq> None);
         fl = (case dbc type_id of
             Some d \<Rightarrow>
               (let f0 = 0x10;
                    f1 = (if has_flag d 0x08 then flag_set f0 0x08 else f0);
                    f2 = (if has_flag d 0x10 \<or> has_flag d 0x20 then flag_set f1 0x20 else f1)
                in if has_flag d 0x40000 then flag_set f2 0x40 else f2)
           | None \<Rightarrow> 0x01);
         scape = (stricmp_eq name ''global'' \<or> stricmp_eq name ''mall'' \<or> stricmp_eq name ''lfg'')
     in \<lparr> m_name = name, m_password = '''', m_flags = fl, m_typeId = type_id,
          m_general = (general \<or> scape), m_muted = False,
          m_announce = (\<not> general \<and> \<not> scape), m_team = team,
          m_minimumLevel = (if scape then 10 else 1), m_channelId = cid,
          m_members = [], m_bannedMembers = [] \<rparr>)"

definition ch_has_member :: "channel \<Rightarrow> player \<Rightarrow> bool" where
  "ch_has_member c p \<longleftrightarrow> map_of (m_members c) p \<noteq> None"

section \<open>Joining\<close>

definition ch_youjoined :: "chan_env \<Rightarrow> channel \<Rightarrow> player \<Rightarrow> chan_event list" where
  "ch_youjoined env c plr =
    (if has_flag (m_flags c) 0x40 \<and> \<not> pl_no_autojoin (env plr)
     then chan_reply c plr NF_YOUJOINED [U8 0x1A, U32 0, U32 0]
     else chan_reply c plr NF_YOUJOINED [U8 (m_flags c), U32 (m_typeId c), U32 0])"

definition ch_attempt_join :: "chan_env \<Rightarrow> channel \<Rightarrow> player \<Rightarrow> string \<Rightarrow> channel \<times> chan_event list" where
  "ch_attempt_join env c plr password =
    (let fl0 = (if \<not> m_general c \<and> pl_cmd_c (env plr) then flag_set 0 CHANNEL_FLAG_MODERATOR else 0)
     in if m_password c \<noteq> [] \<and> m_password c \<noteq> password then (c, chan_reply c plr NF_WRONGPASS [])
     else if pl_low (env plr) \<in> set (m_bannedMembers c) then (c, chan_reply c plr NF_YOURBANNED [])
     else if map_of (m_members c) plr \<noteq> None
       then (c, if \<not> m_general c then chan_reply c plr NF_ALREADY_ON [] else [])
     else
       (let fl = (if m_members c = [] \<and> \<not> m_general c then flag_set fl0 CHANNEL_FLAG_OWNER else fl0);
            c1 = c\<lparr> m_members := map_insert plr fl (m_members c) \<rparr>
        in (c1, JoinedChannel plr (m_channelId c) #
                (if m_announce c1
                 then ch_send_to_all_but env c1
                        (chan_notify (note_body c1 NF_JOINED [U64 (pl_guid (env plr))])) None
                 else []) @
                ch_youjoined env c1 plr)))"

section \<open>Ownership\<close>

text \<open>
  The two loops of \<open>SetOwner\<close>, over the member map in order: every owner is demoted and its
  mode change sent, with the one packet \<open>data\<close> growing from demotion to demotion; the new
  owner is the first non-owner (\<open>plr\<close> null) or \<open>plr\<close> itself if it is met and is no owner.
\<close>

fun so_loop :: "chan_env \<Rightarrow> channel \<Rightarrow> player option \<Rightarrow> (player \<times> u32) list \<Rightarrow> pfield list \<Rightarrow>
    (player \<times> u32) option \<Rightarrow> (player \<times> u32) list \<times> chan_event list \<times> (player \<times> u32) option" where
  "so_loop env c plr [] data own = ([], [], own)"
| "so_loop env c plr ((k, fl) # ms) data own =
    (if has_flag fl CHANNEL_FLAG_OWNER then
       (let fl' = flag_clear fl CHANNEL_FLAG_OWNER;
            data' = data @ note_body c NF_MODE_CHG [U64 (pl_guid (env k)), U8 (ucast fl), U8 (ucast fl')];
            (ms', out, own') = so_loop env c plr ms data' own
        in ((k, fl') # ms', ch_send_to_all env c (chan_notify data') @ out, own'))
     else if (case plr of None \<Rightarrow> own = None | Some p \<Rightarrow> p = k) then
       (let (ms', out, own') = so_loop env c plr ms data (Some (k, fl))
        in ((k, flag_set fl CHANNEL_FLAG_OWNER) # ms', out, own'))
     else
       (let (ms', out, own') = so_loop env c plr ms data own
        in ((k, fl) # ms', out, own')))"

definition so_transfer :: "chan_env \<Rightarrow> channel \<Rightarrow> player option \<Rightarrow> channel \<times> chan_event list" where
  "so_transfer env c plr =
    (let (ms, out, own) = so_loop env c plr (m_members c) [] None;
         c1 = c\<lparr> m_members := ms \<rparr>
     in case own of
          None \<Rightarrow> (c1, out)
        | Some (p, fl) \<Rightarrow>
            (c1, out @ chan_announce env c1 NF_CHGOWNER [U64 (pl_guid (env p))]
                 @ chan_announce env c1 NF_MODE_CHG
                     [U64 (pl_guid (env p)), U8 (ucast fl), U8 (ucast (flag_set fl CHANNEL_FLAG_OWNER))]))"

text \<open>
  With an old owner the request comes from that player; its refusals are sent to \<open>plr\<close>, the
  candidate, which is never null there (\<open>HandleChannelSetOwner\<close> tests it).
\<close>

definition ch_set_owner :: "chan_env \<Rightarrow> channel \<Rightarrow> (player \<times> player) option \<Rightarrow> channel \<times> chan_event list" where
  "ch_set_owner env c req =
    (case req of
       None \<Rightarrow> so_transfer env c None
     | Some (oldpl, plr) \<Rightarrow>
         (case map_of (m_members c) oldpl of
            None \<Rightarrow> (c, chan_reply c plr NF_NOTON [])
          | Some fl \<Rightarrow>
              if \<not> has_flag fl CHANNEL_FLAG_OWNER then (c, chan_reply c plr NF_NOT_OWNER [])
              else so_transfer env c (Some plr)))"

section \<open>Leaving\<close>

text \<open>Deleting the emptied channel, the last statement of \<open>Part\<close>, is the manager's (\<open>cm_part\<close>).\<close>

definition ch_part :: "chan_env \<Rightarrow> channel \<Rightarrow> player \<Rightarrow> bool \<Rightarrow> channel \<times> chan_event list" where
  "ch_part env c plr silent =
    (case map_of (m_members c) plr of
       None \<Rightarrow> (c, chan_reply c plr NF_NOTON [])
     | Some fl \<Rightarrow>
         (let c1 = c\<lparr> m_members := map_erase plr (m_members c) \<rparr>;
              (c2, out) = (if has_flag fl CHANNEL_FLAG_OWNER then ch_set_owner env c1 None else (c1, []))
          in (c2, LeftChannel plr (m_channelId c) # out @
                  (if pl_session (env plr) \<and> pl_logging_out (env plr) then []
                   else if \<not> silent then chan_reply c2 plr NF_YOULEFT [U32 (m_typeId c2), U32 0, U8 0]
                   else []) @
                  (if m_announce c2 then chan_announce env c2 NF_LEFT [U64 (pl_guid (env plr))] else []))))"

section \<open>Moderation\<close>

text \<open>The two checks every moderator operation starts with.\<close>

definition may_moderate :: "u32 \<Rightarrow> bool" where
  "may_moderate fl \<longleftrightarrow> has_flag fl CHANNEL_FLAG_OWNER \<or> has_flag fl CHANNEL_FLAG_MODERATOR"

definition ch_moderate :: "chan_env \<Rightarrow> channel \<Rightarrow> player \<Rightarrow> channel \<times> chan_event list" where
  "ch_moderate env c plr =
    (case map_of (m_members c) plr of
       None \<Rightarrow> (c, chan_reply c plr NF_NOTON [])
     | Some fl \<Rightarrow>
         if \<not> may_moderate fl \<and> \<not> pl_cmd_c (env plr) then (c, chan_reply c plr NF_NOTMOD [])
         else (let c1 = c\<lparr> m_muted := \<not> m_muted c \<rparr>
               in (c1, chan_announce env c1 (if m_muted c1 then NF_MODERATED else NF_UNMODERATED)
                         [U64 (pl_guid (env plr))])))"

definition ch_kick :: "chan_env \<Rightarrow> channel \<Rightarrow> player \<Rightarrow> player \<Rightarrow> bool \<Rightarrow> channel \<times> chan_event list" where
  "ch_kick env c plr die_player ban =
    (case map_of (m_members c) plr of
       None \<Rightarrow> (c, chan_reply c plr NF_NOTON [])
     | Some me \<Rightarrow>
      (case map_of (m_members c) die_player of
         None \<Rightarrow> (c, chan_reply c plr NF_NOT_ON_2 [U64 (pl_guid (env die_player))])
       | Some fl \<Rightarrow>
         if \<not> may_moderate me then (c, chan_reply c plr NF_NOTMOD [])
         else
           (let kicked = chan_announce env c NF_KICKED [U64 (pl_guid (env die_player))];
                banned = (if ban then chan_announce env c NF_BANNED [U64 (pl_guid (env die_player))] else []);
                c1 = c\<lparr> m_members := map_erase die_player (m_members c) \<rparr>;
                (c2, out) = (if has_flag fl CHANNEL_FLAG_OWNER then ch_set_owner env c1 None else (c1, []));
                c3 = (if ban then c2\<lparr> m_bannedMembers := insort_insert (pl_low (env die_player)) (m_bannedMembers c2) \<rparr> else c2)
            in (c3, kicked @ banned @ out @
                    chan_reply c3 die_player NF_YOULEFT [U32 (m_typeId c3), U32 0, U8 0]))))"

definition ch_unban :: "chan_env \<Rightarrow> channel \<Rightarrow> player \<Rightarrow> u32 \<Rightarrow> channel \<times> chan_event list" where
  "ch_unban env c plr bguid =
    (case map_of (m_members c) plr of
       None \<Rightarrow> (c, chan_reply c plr NF_NOTON [])
     | Some fl \<Rightarrow>
         if \<not> may_moderate fl then (c, chan_reply c plr NF_NOTMOD [])
         else if bguid \<notin> set (m_bannedMembers c) then (c, chan_reply c plr NF_NOT_ON_2 [U64 (ucast bguid)])
         else (c\<lparr> m_bannedMembers := set_erase bguid (m_bannedMembers c) \<rparr>,
               chan_announce env c NF_UNBANNED [U64 (ucast bguid)]))"

text \<open>
  \<open>Voice\<close>, \<open>Devoice\<close>, \<open>Mute\<close>, \<open>Unmute\<close>, \<open>GiveModerator\<close> and \<open>TakeModerator\<close> are one text in
  the source, up to the change of the target's flags.
\<close>

definition ch_mode_op :: "(u32 \<Rightarrow> u32) \<Rightarrow> chan_env \<Rightarrow> channel \<Rightarrow> player \<Rightarrow> player \<Rightarrow> channel \<times> chan_event list" where
  "ch_mode_op upd env c plr target =
    (case map_of (m_members c) plr of
       None \<Rightarrow> (c, chan_reply c plr NF_NOTON [])
     | Some me \<Rightarrow>
      (case map_of (m_members c) target of
         None \<Rightarrow> (c, chan_reply c plr NF_NOT_ON_2 [U64 (pl_guid (env target))])
       | Some oldflags \<Rightarrow>
         if \<not> may_moderate me then (c, chan_reply c plr NF_NOTMOD [])
         else
           (let c1 = c\<lparr> m_members := map_adjust target upd (m_members c) \<rparr>
            in (c1, chan_announce env c1 NF_MODE_CHG
                      [U64 (pl_guid (env target)), U8 (ucast oldflags), U8 (ucast (upd oldflags))]))))"

definition ch_voice :: "chan_env \<Rightarrow> channel \<Rightarrow> player \<Rightarrow> player \<Rightarrow> channel \<times> chan_event list" where
  "ch_voice = ch_mode_op (\<lambda>f. flag_set f CHANNEL_FLAG_VOICED)"

definition ch_devoice :: "chan_env \<Rightarrow> channel \<Rightarrow> player \<Rightarrow> player \<Rightarrow> channel \<times> chan_event list" where
  "ch_devoice = ch_mode_op (\<lambda>f. flag_clear f CHANNEL_FLAG_VOICED)"

definition ch_mute :: "chan_env \<Rightarrow> channel \<Rightarrow> player \<Rightarrow> player \<Rightarrow> channel \<times> chan_event list" where
  "ch_mute = ch_mode_op (\<lambda>f. flag_set f CHANNEL_FLAG_MUTED)"

definition ch_unmute :: "chan_env \<Rightarrow> channel \<Rightarrow> player \<Rightarrow> player \<Rightarrow> channel \<times> chan_event list" where
  "ch_unmute = ch_mode_op (\<lambda>f. flag_clear f CHANNEL_FLAG_MUTED)"

definition ch_give_moderator :: "chan_env \<Rightarrow> channel \<Rightarrow> player \<Rightarrow> player \<Rightarrow> channel \<times> chan_event list" where
  "ch_give_moderator = ch_mode_op (\<lambda>f. flag_set f CHANNEL_FLAG_MODERATOR)"

definition ch_take_moderator :: "chan_env \<Rightarrow> channel \<Rightarrow> player \<Rightarrow> player \<Rightarrow> channel \<times> chan_event list" where
  "ch_take_moderator = ch_mode_op (\<lambda>f. flag_clear f CHANNEL_FLAG_MODERATOR)"


lemmas mode_ops = ch_voice_def ch_devoice_def ch_mute_def ch_unmute_def
  ch_give_moderator_def ch_take_moderator_def

definition ch_announce_toggle :: "chan_env \<Rightarrow> channel \<Rightarrow> player \<Rightarrow> channel \<times> chan_event list" where
  "ch_announce_toggle env c plr =
    (case map_of (m_members c) plr of
       None \<Rightarrow> (c, chan_reply c plr NF_NOTON [])
     | Some fl \<Rightarrow>
         if \<not> may_moderate fl then (c, chan_reply c plr NF_NOTMOD [])
         else (let c1 = c\<lparr> m_announce := \<not> m_announce c \<rparr>
               in (c1, chan_announce env c1 (if m_announce c1 then NF_ENABLE_ANN else NF_DISABLE_ANN)
                         [U64 (pl_guid (env plr))])))"

definition ch_set_password :: "chan_env \<Rightarrow> channel \<Rightarrow> player \<Rightarrow> string \<Rightarrow> channel \<times> chan_event list" where
  "ch_set_password env c plr pass =
    (case map_of (m_members c) plr of
       None \<Rightarrow> (c, chan_reply c plr NF_NOTON [])
     | Some fl \<Rightarrow>
         if \<not> may_moderate fl then (c, chan_reply c plr NF_NOTMOD [])
         else (let c1 = c\<lparr> m_password := pass \<rparr>
               in (c1, chan_announce env c1 NF_SETPASS [U64 (pl_guid (env plr))])))"

section \<open>Talking and asking\<close>

definition ch_send_not_on :: "channel \<Rightarrow> player \<Rightarrow> chan_event list" where
  "ch_send_not_on c plr = chan_reply c plr NF_NOTON []"

definition ch_send_already_on :: "chan_env \<Rightarrow> channel \<Rightarrow> player \<Rightarrow> player \<Rightarrow> chan_event list" where
  "ch_send_already_on env c plr plr2 = chan_reply c plr NF_ALREADY_ON [U64 (pl_guid (env plr2))]"

definition ch_invite :: "chan_env \<Rightarrow> channel \<Rightarrow> player \<Rightarrow> player \<Rightarrow> chan_event list" where
  "ch_invite env c plr new_player =
    (if map_of (m_members c) plr = None then ch_send_not_on c plr
     else if map_of (m_members c) new_player \<noteq> None then ch_send_already_on env c plr new_player
     else chan_reply c new_player NF_INVITED [U64 (pl_guid (env plr))] @
          chan_reply c plr NF_YOU_INVITED [U64 (pl_guid (env new_player))])"

definition ch_may_speak :: "channel \<Rightarrow> u32 \<Rightarrow> bool" where
  "ch_may_speak c fl \<longleftrightarrow> \<not> has_flag fl CHANNEL_FLAG_MUTED \<and>
     \<not> (m_muted c \<and> \<not> has_flag fl CHANNEL_FLAG_VOICED \<and> \<not> has_flag fl CHANNEL_FLAG_MODERATOR
        \<and> \<not> has_flag fl CHANNEL_FLAG_OWNER)"

definition chat_packet :: "chan_env \<Rightarrow> channel \<Rightarrow> player \<Rightarrow> string \<Rightarrow> packet" where
  "chat_packet env c plr msg = (''SMSG_MESSAGECHAT'',
     [U8 17, U32 0, U64 (pl_guid (env plr)), U32 0, Str (m_name c), U64 (pl_guid (env plr)),
      U32 (of_nat (length msg + 1)), Str msg, U8 (if pl_gm_tag (env plr) then 4 else 0)])"

definition ch_say :: "chan_env \<Rightarrow> channel \<Rightarrow> player \<Rightarrow> string \<Rightarrow> player option \<Rightarrow> bool \<Rightarrow> chan_event list" where
  "ch_say env c plr msg for_gm_client forced =
    (let itr = map_of (m_members c) plr
     in if \<not> forced \<and> itr = None then chan_reply c plr NF_NOTON []
     else if \<not> forced \<and> \<not> ch_may_speak c (the itr) then chan_reply c plr NF_YOUCANTSPEAK []
     else if pl_level (env plr) < m_minimumLevel c
       then [BroadcastMessage plr (m_minimumLevel c) (m_name c)]
     else (case for_gm_client of
             Some gm \<Rightarrow> [SendPacket gm (chat_packet env c plr msg)]
           | None \<Rightarrow> ch_send_to_all env c (chat_packet env c plr msg)))"

definition list_flags :: "channel \<Rightarrow> u32 \<Rightarrow> u8" where
  "list_flags c fl =
    (let f0 = (0 :: u8);
         f1 = (if \<not> has_flag fl CHANNEL_FLAG_MUTED then flag_set f0 0x04 else f0);
         f2 = (if has_flag fl CHANNEL_FLAG_OWNER then flag_set f1 0x01 else f1);
         f3 = (if has_flag fl CHANNEL_FLAG_MODERATOR then flag_set f2 0x02 else f2)
     in if \<not> m_general c then flag_set f3 0x10 else f3)"

definition ch_list :: "chan_env \<Rightarrow> channel \<Rightarrow> player \<Rightarrow> chan_event list" where
  "ch_list env c plr =
    (if map_of (m_members c) plr = None then chan_reply c plr NF_NOTON []
     else [SendPacket plr (''SMSG_CHANNEL_LIST'',
             [U8 1, Str (m_name c), U8 (m_flags c), U32 (of_nat (length (m_members c)))] @
             concat (map (\<lambda>(p, fl). [U64 (pl_guid (env p)), U8 (list_flags c fl)]) (m_members c)))])"

definition ch_get_owner :: "chan_env \<Rightarrow> channel \<Rightarrow> player \<Rightarrow> chan_event list" where
  "ch_get_owner env c plr =
    (if map_of (m_members c) plr = None then chan_reply c plr NF_NOTON []
     else (case filter (\<lambda>(_, fl). has_flag fl CHANNEL_FLAG_OWNER) (m_members c) of
             [] \<Rightarrow> []
           | (p, _) # _ \<Rightarrow> chan_reply c plr NF_WHO_OWNER [U64 (pl_guid (env p))]))"

text \<open>The destructor tells every member that the channel is gone.\<close>

definition ch_delete :: "channel \<Rightarrow> chan_event list" where
  "ch_delete c = map (\<lambda>(p, _). LeftChannel p (m_channelId c)) (m_members c)"

section \<open>Histories of a channel\<close>

datatype chan_op =
    Op_Join player string | Op_Part player bool | Op_SetOwner player player | Op_Moderate player
  | Op_Kick player player bool | Op_Unban player u32 | Op_Voice player player | Op_Devoice player player
  | Op_Mute player player | Op_Unmute player player | Op_GiveModerator player player
  | Op_TakeModerator player player | Op_Announce player | Op_Password player string

fun ch_exec :: "chan_env \<Rightarrow> channel \<Rightarrow> chan_op \<Rightarrow> channel \<times> chan_event list" where
  "ch_exec env c (Op_Join p pw) = ch_attempt_join env c p pw"
| "ch_exec env c (Op_Part p s) = ch_part env c p s"
| "ch_exec env c (Op_SetOwner p q) = ch_set_owner env c (Some (p, q))"
| "ch_exec env c (Op_Moderate p) = ch_moderate env c p"
| "ch_exec env c (Op_Kick p q b) = ch_kick env c p q b"
| "ch_exec env c (Op_Unban p g) = ch_unban env c p g"
| "ch_exec env c (Op_Voice p q) = ch_voice env c p q"
| "ch_exec env c (Op_Devoice p q) = ch_devoice env c p q"
| "ch_exec env c (Op_Mute p q) = ch_mute env c p q"
| "ch_exec env c (Op_Unmute p q) = ch_unmute env c p q"
| "ch_exec env c (Op_GiveModerator p q) = ch_give_moderator env c p q"
| "ch_exec env c (Op_TakeModerator p q) = ch_take_moderator env c p q"
| "ch_exec env c (Op_Announce p) = ch_announce_toggle env c p"
| "ch_exec env c (Op_Password p pw) = ch_set_password env c p pw"

inductive chan_reach :: "(u32 \<Rightarrow> u32 option) \<Rightarrow> chan_env \<Rightarrow> channel \<Rightarrow> bool" for dbc env where
  reach_new: "chan_reach dbc env (ch_new dbc name team type_id cid)"
| reach_op: "chan_reach dbc env c \<Longrightarrow> chan_reach dbc env (fst (ch_exec env c op))"

definition owners :: "(player \<times> u32) list \<Rightarrow> player list" where
  "owners ms = map fst (filter (\<lambda>(_, fl). has_flag fl CHANNEL_FLAG_OWNER) ms)"

lemma owners_Nil [simp]: "owners [] = []"
  by (simp add: owners_def)

lemma owners_Cons [simp]:
  "owners ((k, fl) # ms) = (if has_flag fl CHANNEL_FLAG_OWNER then k # owners ms else owners ms)"
  by (simp add: owners_def)

lemma set_owners: "set (owners ms) = {k. \<exists>fl. (k, fl) \<in> set ms \<and> has_flag fl CHANNEL_FLAG_OWNER}"
  by (force simp: owners_def)

text \<open>Owner flag of the flags the operations build.\<close>

lemma owner_of_flags [simp]:
  "has_flag CHANNEL_FLAG_OWNER CHANNEL_FLAG_OWNER"
  "\<not> has_flag CHANNEL_FLAG_MODERATOR CHANNEL_FLAG_OWNER"
  "\<not> has_flag CHANNEL_FLAG_VOICED CHANNEL_FLAG_OWNER"
  "\<not> has_flag CHANNEL_FLAG_MUTED CHANNEL_FLAG_OWNER"
  by (simp_all add: has_flag_def chan_flags)

lemma owner_clear_other [simp]:
  "has_flag (flag_clear f CHANNEL_FLAG_MODERATOR) CHANNEL_FLAG_OWNER = has_flag f CHANNEL_FLAG_OWNER"
  "has_flag (flag_clear f CHANNEL_FLAG_VOICED) CHANNEL_FLAG_OWNER = has_flag f CHANNEL_FLAG_OWNER"
  "has_flag (flag_clear f CHANNEL_FLAG_MUTED) CHANNEL_FLAG_OWNER = has_flag f CHANNEL_FLAG_OWNER"
  by (simp_all add: has_flag_clear_disj chan_flags)

text \<open>The successor and the members after a transfer.\<close>

definition so_cand :: "player option \<Rightarrow> player \<times> u32 \<Rightarrow> bool" where
  "so_cand plr e \<longleftrightarrow> \<not> has_flag (snd e) CHANNEL_FLAG_OWNER \<and> (plr = None \<or> plr = Some (fst e))"

definition so_flags :: "(player \<times> u32) option \<Rightarrow> player \<times> u32 \<Rightarrow> player \<times> u32" where
  "so_flags own e = (fst e,
     if has_flag (snd e) CHANNEL_FLAG_OWNER then flag_clear (snd e) CHANNEL_FLAG_OWNER
     else if own = Some e then flag_set (snd e) CHANNEL_FLAG_OWNER else snd e)"

lemma so_loop_done:
  assumes "so_loop env c plr ms data (Some (q, fq)) = (ms', out, own')"
    "q \<notin> fst ` set ms" "plr = None \<or> plr = Some q"
  shows "own' = Some (q, fq) \<and> ms' = map (so_flags (Some (q, fq))) ms"
  using assms(1,2)
proof (induction ms arbitrary: data ms' out own')
  case (Cons e ms)
  obtain k fl where e: "e = (k, fl)" by (cases e)
  define data' where "data' = (if has_flag fl CHANNEL_FLAG_OWNER
    then data @ note_body c NF_MODE_CHG [U64 (pl_guid (env k)), U8 (ucast fl), U8 (ucast (flag_clear fl CHANNEL_FLAG_OWNER))]
    else data)"
  obtain ms1 out1 own1 where l: "so_loop env c plr ms data' (Some (q, fq)) = (ms1, out1, own1)"
    by (cases "so_loop env c plr ms data' (Some (q, fq))")
  have "k \<noteq> q" "q \<notin> fst ` set ms" using Cons.prems(2) by (auto simp: e)
  with Cons.IH [OF l] Cons.prems(1) l assms(3) show ?case
    by (auto simp: e so_flags_def data'_def Let_def split: if_splits)
qed simp

lemma so_loop_result:
  assumes "so_loop env c plr ms data None = (ms', out, own')" "distinct (map fst ms)"
  shows "own' = find (so_cand plr) ms \<and> ms' = map (so_flags own') ms"
  using assms
proof (induction ms arbitrary: data ms' out own')
  case (Cons e ms)
  obtain k fl where e: "e = (k, fl)" by (cases e)
  show ?case
  proof (cases "so_cand plr e")
    case True
    then have "\<not> has_flag fl CHANNEL_FLAG_OWNER" "plr = None \<or> plr = Some k"
      by (auto simp: so_cand_def e)
    with Cons.prems so_loop_done [of env c plr ms data k fl] True show ?thesis
      by (cases "so_loop env c plr ms data (Some (k, fl))") (auto simp: e so_flags_def Let_def split: if_splits)
  next
    case False
    have neq: "find (so_cand plr) ms \<noteq> Some e"
      using False by (auto simp: find_Some_iff)
    show ?thesis
    proof (cases "has_flag fl CHANNEL_FLAG_OWNER")
      case True
      define data' where "data' = data @ note_body c NF_MODE_CHG [U64 (pl_guid (env k)), U8 (ucast fl), U8 (ucast (flag_clear fl CHANNEL_FLAG_OWNER))]"
      obtain ms1 out1 own1 where l: "so_loop env c plr ms data' None = (ms1, out1, own1)"
        by (cases "so_loop env c plr ms data' None")
      with Cons.prems True have "ms' = (k, flag_clear fl CHANNEL_FLAG_OWNER) # ms1" "own' = own1"
        by (auto simp: e Let_def data'_def)
      with Cons.IH [OF l] Cons.prems(2) False True show ?thesis
        by (auto simp: e so_flags_def)
    next
      case nown: False
      obtain ms1 out1 own1 where l: "so_loop env c plr ms data None = (ms1, out1, own1)"
        by (cases "so_loop env c plr ms data None")
      with Cons.prems nown False have "ms' = (k, fl) # ms1" "own' = own1"
        by (auto simp: e Let_def so_cand_def split: option.splits if_splits)
      with Cons.IH [OF l] Cons.prems(2) False nown neq show ?thesis
        by (auto simp: e so_flags_def)
    qed
  qed
qed simp

lemma owners_so_flags:
  assumes "distinct (map fst ms)" "own = find (so_cand plr) ms"
  shows "owners (map (so_flags own) ms) = (case own of None \<Rightarrow> [] | Some (p, _) \<Rightarrow> [p])"
proof -
  have none: "owners (map (so_flags own) xs) = []" if "\<And>e. e \<in> set xs \<Longrightarrow> own \<noteq> Some e" for xs own
    using that by (induction xs) (auto simp: so_flags_def)
  have one: "owners (map (so_flags (Some e)) xs) = [fst e]"
    if "e \<in> set xs" "\<not> has_flag (snd e) CHANNEL_FLAG_OWNER" "distinct (map fst xs)" for e xs
    using that
  proof (induction xs)
    case (Cons x xs)
    show ?case
    proof (cases "x = e")
      case True
      with Cons.prems have "\<And>e'. e' \<in> set xs \<Longrightarrow> Some e \<noteq> Some e'" by auto
      then have "owners (map (so_flags (Some e)) xs) = []" by (rule none)
      moreover have "so_flags (Some e) e = (fst e, flag_set (snd e) CHANNEL_FLAG_OWNER)"
        using Cons.prems(2) by (simp add: so_flags_def)
      ultimately show ?thesis using True by simp
    next
      case False
      with Cons show ?thesis by (cases x) (auto simp: so_flags_def)
    qed
  qed simp
  show ?thesis
  proof (cases own)
    case None
    then show ?thesis using none [of ms None] by simp
  next
    case (Some e)
    with assms(2) have "find (so_cand plr) ms = Some e" by simp
    then have "so_cand plr e" "e \<in> set ms"
      by (auto simp: find_Some_iff)
    with Some one [of e ms] assms(1) show ?thesis
      by (auto simp: so_cand_def split: prod.split)
  qed
qed

lemma map_fst_so_flags [simp]: "map fst (map (so_flags own) ms) = map fst ms"
  "map (fst \<circ> so_flags own) ms = map fst ms"
  by (simp_all add: so_flags_def)

lemma so_transfer_members:
  assumes "distinct (map fst (m_members c))"
  shows "fst (so_transfer env c plr) =
    c\<lparr> m_members := map (so_flags (find (so_cand plr) (m_members c))) (m_members c) \<rparr>"
proof (cases "so_loop env c plr (m_members c) [] None")
  case (fields ms out own)
  from so_loop_result [OF this assms] show ?thesis
    by (auto simp: so_transfer_def fields Let_def split: option.split)
qed

text \<open>Who owns the channel after a transfer.\<close>

lemma owners_so_transfer:
  assumes "distinct (map fst (m_members c))"
  shows "owners (m_members (fst (so_transfer env c plr))) =
    (case find (so_cand plr) (m_members c) of None \<Rightarrow> [] | Some (p, _) \<Rightarrow> [p])"
  using owners_so_flags [OF assms refl] by (simp add: so_transfer_members [OF assms])

section \<open>The channel invariant\<close>

definition chan_ok :: "channel \<Rightarrow> bool" where
  "chan_ok c \<longleftrightarrow> map_ok (m_members c) \<and> length (owners (m_members c)) \<le> 1 \<and>
     (m_general c \<longrightarrow> owners (m_members c) = []) \<and> set_ok (m_bannedMembers c)"

lemma chan_okD: "chan_ok c \<Longrightarrow> map_ok (m_members c)" "chan_ok c \<Longrightarrow> set_ok (m_bannedMembers c)"
  by (simp_all add: chan_ok_def)

lemma chan_ok_distinct: "chan_ok c \<Longrightarrow> distinct (map fst (m_members c))"
  by (simp add: chan_ok_def map_ok_def)

lemma owners_map_adjust:
  assumes "\<And>f. has_flag (upd f) CHANNEL_FLAG_OWNER = has_flag f CHANNEL_FLAG_OWNER"
  shows "owners (map_adjust k upd ms) = owners ms"
  using assms by (induction ms) (auto simp: map_adjust_def)

lemma owners_map_insert:
  assumes "\<not> has_flag fl CHANNEL_FLAG_OWNER"
  shows "owners (map_insert k fl ms) = owners ms"
  using assms by (induction k fl ms rule: map_insert.induct) auto

lemma owners_map_erase: "owners (map_erase k ms) = filter (\<lambda>p. p \<noteq> k) (owners ms)"
  by (induction ms) (auto simp: map_erase_def)

lemma map_of_owner_mem:
  assumes "map_of ms k = Some fl" "has_flag fl CHANNEL_FLAG_OWNER"
  shows "k \<in> set (owners ms)"
  using map_of_SomeD [OF assms(1)] assms(2) by (auto simp: set_owners)

lemma owner_alone:
  assumes "length (owners ms) \<le> 1" "map_of ms k = Some fl" "has_flag fl CHANNEL_FLAG_OWNER"
  shows "owners ms = [k]"
  using map_of_owner_mem [OF assms(2,3)] assms(1)
  by (cases "owners ms") auto

text \<open>Without a candidate argument the first non-owner succeeds.\<close>

lemma owners_so_transfer_None:
  assumes "distinct (map fst (m_members c))" "owners (m_members c) = []"
  shows "owners (m_members (fst (so_transfer env c None))) =
    (case m_members c of [] \<Rightarrow> [] | (p, _) # _ \<Rightarrow> [p])"
  using assms(2) unfolding owners_so_transfer [OF assms(1)]
  by (cases "m_members c") (auto simp: so_cand_def split: if_splits)

lemma chan_ok_new [hs_inv]: "chan_ok (ch_new dbc name team type_id cid)"
  by (simp add: chan_ok_def ch_new_def Let_def)

lemma chan_ok_join [hs_inv]: "chan_ok c \<Longrightarrow> chan_ok (fst (ch_attempt_join env c p pw))"
proof -
  assume ok: "chan_ok c"
  define fl0 where "fl0 = (if \<not> m_general c \<and> pl_cmd_c (env p) then flag_set 0 CHANNEL_FLAG_MODERATOR else 0 :: u32)"
  have no: "\<not> has_flag fl0 CHANNEL_FLAG_OWNER" by (simp add: fl0_def)
  show ?thesis
  proof (cases "m_members c = [] \<and> \<not> m_general c")
    case True
    then show ?thesis using ok
      by (simp add: ch_attempt_join_def Let_def chan_ok_def map_ok_def)
  next
    case False
    then show ?thesis using ok no
      by (auto simp add: ch_attempt_join_def Let_def chan_ok_def owners_map_insert simp flip: fl0_def)
  qed
qed

lemma chan_ok_transfer:
  assumes "map_ok (m_members c)" "set_ok (m_bannedMembers c)" "\<not> m_general c"
  shows "chan_ok (fst (so_transfer env c plr))"
proof -
  have d: "distinct (map fst (m_members c))" using assms by (simp add: map_ok_def)
  show ?thesis
    using assms owners_so_transfer [OF d, of env plr]
    by (auto simp: chan_ok_def so_transfer_members [OF d] map_ok_def split: option.splits)
qed

lemma chan_ok_not_general:
  assumes "chan_ok c" "map_of (m_members c) p = Some fl" "has_flag fl CHANNEL_FLAG_OWNER"
  shows "\<not> m_general c"
  using map_of_owner_mem [OF assms(2,3)] assms(1) by (auto simp: chan_ok_def)

lemma chan_ok_set_owner [hs_inv]:
  assumes "chan_ok c"
  shows "chan_ok (fst (ch_set_owner env c (Some pq)))"
  using assms chan_ok_not_general [OF assms] chan_okD [OF assms]
  by (auto simp: ch_set_owner_def split: option.split prod.split intro!: chan_ok_transfer)

text \<open>Taking a member out, with the succession when it was the owner: \<open>Part\<close> and \<open>Kick\<close>.\<close>

definition ch_take_out :: "chan_env \<Rightarrow> channel \<Rightarrow> player \<Rightarrow> u32 \<Rightarrow> channel" where
  "ch_take_out env c p fl =
    (let c1 = c\<lparr> m_members := map_erase p (m_members c) \<rparr>
     in if has_flag fl CHANNEL_FLAG_OWNER then fst (ch_set_owner env c1 None) else c1)"

lemma chan_ok_take_out:
  assumes "chan_ok c" "map_of (m_members c) p = Some fl"
  shows "chan_ok (ch_take_out env c p fl)"
proof (cases "has_flag fl CHANNEL_FLAG_OWNER")
  case True
  with chan_okD [OF assms(1)] chan_ok_not_general [OF assms] show ?thesis
    by (simp add: ch_take_out_def ch_set_owner_def chan_ok_transfer)
next
  case False
  have "length (filter (\<lambda>q. q \<noteq> p) (owners (m_members c))) \<le> length (owners (m_members c))"
    by (rule length_filter_le)
  also have "\<dots> \<le> 1" using assms(1) by (simp add: chan_ok_def)
  finally have "length (filter (\<lambda>q. q \<noteq> p) (owners (m_members c))) \<le> 1" .
  with False assms(1) show ?thesis
    by (simp add: ch_take_out_def chan_ok_def owners_map_erase)
qed

lemma ch_part_state:
  "fst (ch_part env c p s) = (case map_of (m_members c) p of None \<Rightarrow> c | Some fl \<Rightarrow> ch_take_out env c p fl)"
  by (auto simp: ch_part_def ch_take_out_def Let_def split: option.split prod.split)

lemma ch_kick_state:
  "fst (ch_kick env c p q ban) =
    (case (map_of (m_members c) p, map_of (m_members c) q) of
       (Some me, Some fl) \<Rightarrow>
         if may_moderate me then
           (if ban then (ch_take_out env c q fl)
              \<lparr> m_bannedMembers := insort_insert (pl_low (env q)) (m_bannedMembers (ch_take_out env c q fl)) \<rparr>
            else ch_take_out env c q fl)
         else c
     | _ \<Rightarrow> c)"
  by (auto simp: ch_kick_def ch_take_out_def Let_def split: option.split prod.split)

lemma chan_ok_part [hs_inv]: "chan_ok c \<Longrightarrow> chan_ok (fst (ch_part env c p s))"
  by (auto simp: ch_part_state chan_ok_take_out split: option.split)

lemma chan_ok_ban: "chan_ok c \<Longrightarrow> chan_ok (c\<lparr> m_bannedMembers := insort_insert g (m_bannedMembers c) \<rparr>)"
  by (simp add: chan_ok_def)

lemma chan_ok_kick [hs_inv]: "chan_ok c \<Longrightarrow> chan_ok (fst (ch_kick env c p q b))"
  by (auto simp: ch_kick_state chan_ok_take_out chan_ok_ban split: option.split)

lemma chan_ok_mode_op:
  assumes "chan_ok c" "\<And>f. has_flag (upd f) CHANNEL_FLAG_OWNER = has_flag f CHANNEL_FLAG_OWNER"
  shows "chan_ok (fst (ch_mode_op upd env c p q))"
  using assms by (auto simp: ch_mode_op_def Let_def chan_ok_def owners_map_adjust split: option.split)

lemma chan_ok_simple [hs_inv]:
  assumes "chan_ok c"
  shows "chan_ok (fst (ch_moderate env c p))" "chan_ok (fst (ch_unban env c p g))"
    "chan_ok (fst (ch_announce_toggle env c p))" "chan_ok (fst (ch_set_password env c p pw))"
  using assms
  by (auto simp: ch_moderate_def ch_unban_def ch_announce_toggle_def ch_set_password_def Let_def
      chan_ok_def split: option.split)

lemma chan_ok_exec [hs_inv]: "chan_ok c \<Longrightarrow> chan_ok (fst (ch_exec env c op))"
  by (cases op) (auto simp: mode_ops intro!: hs_inv chan_ok_mode_op)

lemma chan_reach_ok: "chan_reach dbc env c \<Longrightarrow> chan_ok c"
  by (induction rule: chan_reach.induct) (auto intro: hs_inv)

text \<open>
  C18. Whatever players do to a channel, and in whatever order, the member map stays a map
  with distinct keys, the channel has at most one owner, and a predefined or "scape"
  channel (\<open>m_general\<close>) never gets an owner at all.
\<close>

theorem ch_single_owner:
  assumes "chan_reach dbc env c"
  shows "distinct (map fst (m_members c)) \<and> length (owners (m_members c)) \<le> 1 \<and>
    (m_general c \<longrightarrow> owners (m_members c) = [])"
  using chan_reach_ok [OF assms] chan_ok_distinct by (auto simp: chan_ok_def)

text \<open>A concrete history for the witnesses: three players join.\<close>

definition demo_env :: chan_env where
  "demo_env p = \<lparr> pl_guid = of_nat p, pl_low = of_nat p, pl_session = True, pl_cmd_c = False,
     pl_level = 70, pl_gm_tag = False, pl_logging_out = False, pl_no_autojoin = False,
     pl_team = 0, pl_lfg_dungeons = [0, 0, 0], pl_permissions = 0 \<rparr>"

definition demo_run :: "chan_op list \<Rightarrow> channel" where
  "demo_run ops = fold (\<lambda>op c. fst (ch_exec demo_env c op)) ops (ch_new (\<lambda>_. None) ''duel'' 0 0 1)"

abbreviation demo_three :: channel where
  "demo_three \<equiv> demo_run [Op_Join 7 [], Op_Join 3 [], Op_Join 9 []]"

lemma demo_reach: "chan_reach (\<lambda>_. None) demo_env (demo_run ops)"
proof -
  have "chan_reach (\<lambda>_. None) demo_env c \<Longrightarrow>
    chan_reach (\<lambda>_. None) demo_env (fold (\<lambda>op c. fst (ch_exec demo_env c op)) ops c)" for c
    by (induction ops arbitrary: c) (auto intro: reach_op)
  then show ?thesis by (simp add: demo_run_def reach_new)
qed

lemma demo_three_members: "m_members demo_three = [(3, 0), (7, 1), (9, 0)]" "m_general demo_three = False"
  by (simp_all add: demo_run_def ch_new_def ch_attempt_join_def Let_def demo_env_def stricmp_eq_def
      chan_flags flag_set_def to_lower_def)

theorem ch_single_owner_witness:
  "length (owners (m_members demo_three)) \<le> 1 \<and> owners (m_members demo_three) = [7]"
  using ch_single_owner [OF demo_reach [of "[Op_Join 7 [], Op_Join 3 [], Op_Join 9 []]"]]
  by (simp add: demo_three_members has_flag_def chan_flags)

text \<open>
  Succession: when the owner of a channel leaves it or is kicked from it, the first of the
  remaining members, in member order, is the one owner afterwards; an emptied channel has none.
\<close>

theorem ch_succession:
  assumes "chan_reach dbc env c" "owners (m_members c) = [p]"
    "map_of (m_members c) k = Some fl" "may_moderate fl"
  shows "owners (m_members (fst (ch_part env c p silent))) =
           (case map_erase p (m_members c) of [] \<Rightarrow> [] | (q, _) # _ \<Rightarrow> [q]) \<and>
         owners (m_members (fst (ch_kick env c k p ban))) =
           (case map_erase p (m_members c) of [] \<Rightarrow> [] | (q, _) # _ \<Rightarrow> [q])"
proof -
  have ok: "chan_ok c" by (rule chan_reach_ok [OF assms(1)])
  from assms(2) have "p \<in> set (owners (m_members c))" by simp
  then obtain f where f: "(p, f) \<in> set (m_members c)" "has_flag f CHANNEL_FLAG_OWNER"
    by (auto simp: set_owners)
  then have mf: "map_of (m_members c) p = Some f"
    using chan_ok_distinct [OF ok] by simp
  have "distinct (map fst (map_erase p (m_members c)))"
    using chan_okD(1) [OF ok] map_ok_erase [of "m_members c" p] by (simp add: map_ok_def)
  moreover have "owners (map_erase p (m_members c)) = []"
    by (simp add: owners_map_erase assms(2))
  ultimately have "owners (m_members (ch_take_out env c p f)) =
      (case map_erase p (m_members c) of [] \<Rightarrow> [] | (q, _) # _ \<Rightarrow> [q])"
    using f(2) owners_so_transfer_None [of "c\<lparr> m_members := map_erase p (m_members c) \<rparr>" env]
    by (simp add: ch_take_out_def ch_set_owner_def)
  then show ?thesis
    using assms(3,4) by (simp add: ch_part_state ch_kick_state mf)
qed

theorem ch_succession_witness:
  "owners (m_members (fst (ch_part demo_env demo_three 7 False))) = [3] \<and>
   owners (m_members (fst (ch_kick demo_env demo_three 7 7 True))) = [3]"
  using ch_succession [OF demo_reach [of "[Op_Join 7 [], Op_Join 3 [], Op_Join 9 []]"], of 7 7 1 False True]
  by (simp add: demo_three_members has_flag_def chan_flags map_erase_def may_moderate_def)

section \<open>Authority\<close>

text \<open>
  The contract all moderator operations share: the request of a player who is not on the
  channel, or is not entitled to it, changes nothing and is answered to that player alone.
\<close>

locale guarded_op =
  fixes opr :: "chan_env \<Rightarrow> channel \<Rightarrow> player \<Rightarrow> channel \<times> chan_event list"
    and entitled :: "chan_env \<Rightarrow> player \<Rightarrow> u32 \<Rightarrow> bool"
  assumes absent: "map_of (m_members c) p = None \<Longrightarrow> opr env c p = (c, chan_reply c p NF_NOTON [])"
    and refused: "map_of (m_members c) p = Some fl \<Longrightarrow> \<not> entitled env p fl \<Longrightarrow>
      \<exists>nf args. nf \<in> {NF_NOTMOD, NF_NOT_ON_2} \<and> opr env c p = (c, chan_reply c p nf args)"
begin

lemma unauthorised:
  assumes "\<And>fl. map_of (m_members c) p = Some fl \<Longrightarrow> \<not> entitled env p fl"
  shows "fst (opr env c p) = c \<and> (\<exists>nf args. nf \<in> {NF_NOTON, NF_NOTMOD, NF_NOT_ON_2} \<and>
    snd (opr env c p) = [SendPacket p (''SMSG_CHANNEL_NOTIFY'', U8 (notify_code nf) # Str (m_name c) # args)])"
proof (cases "map_of (m_members c) p")
  case None
  then show ?thesis by (auto simp: absent chan_reply_def note_body_def)
next
  case (Some fl)
  from refused [OF Some assms [OF Some]] show ?thesis
    by (auto simp: chan_reply_def note_body_def)
qed

end

definition by_mode :: "chan_env \<Rightarrow> player \<Rightarrow> u32 \<Rightarrow> bool" where
  "by_mode env p fl \<longleftrightarrow> may_moderate fl"

definition by_mode_or_command :: "chan_env \<Rightarrow> player \<Rightarrow> u32 \<Rightarrow> bool" where
  "by_mode_or_command env p fl \<longleftrightarrow> may_moderate fl \<or> pl_cmd_c (env p)"

interpretation moderating: guarded_op ch_moderate by_mode_or_command
  by unfold_locales (auto simp: ch_moderate_def by_mode_or_command_def)

interpretation kicking: guarded_op "\<lambda>env c p. ch_kick env c p q ban" by_mode for q ban
  by unfold_locales (auto simp: ch_kick_def by_mode_def split: option.split)

interpretation unbanning: guarded_op "\<lambda>env c p. ch_unban env c p g" by_mode for g
  by unfold_locales (auto simp: ch_unban_def by_mode_def)

interpretation mode_setting: guarded_op "\<lambda>env c p. ch_mode_op upd env c p q" by_mode for upd q
  by unfold_locales (auto simp: ch_mode_op_def by_mode_def split: option.split)

interpretation announcing: guarded_op ch_announce_toggle by_mode
  by unfold_locales (auto simp: ch_announce_toggle_def by_mode_def)

interpretation password_setting: guarded_op "\<lambda>env c p. ch_set_password env c p pw" by_mode for pw
  by unfold_locales (auto simp: ch_set_password_def by_mode_def)

text \<open>The player a moderator operation is requested by.\<close>

fun moderator_request :: "chan_op \<Rightarrow> player option" where
  "moderator_request (Op_Moderate p) = Some p"
| "moderator_request (Op_Kick p _ _) = Some p"
| "moderator_request (Op_Unban p _) = Some p"
| "moderator_request (Op_Voice p _) = Some p"
| "moderator_request (Op_Devoice p _) = Some p"
| "moderator_request (Op_Mute p _) = Some p"
| "moderator_request (Op_Unmute p _) = Some p"
| "moderator_request (Op_GiveModerator p _) = Some p"
| "moderator_request (Op_TakeModerator p _) = Some p"
| "moderator_request (Op_Announce p) = Some p"
| "moderator_request (Op_Password p _) = Some p"
| "moderator_request _ = None"

text \<open>
  C19. Authority: a moderator operation (moderate, kick, ban, unban, the six mode changes,
  announcements, password) requested by a player who is not on the channel as its owner or a
  moderator, and has no channel command, leaves the channel as it is, and its one effect is a
  refusal (NOTON, NOTMOD or NOT_ON_2) sent to the requester.
\<close>

theorem ch_authority:
  assumes "moderator_request op = Some p" "\<not> pl_cmd_c (env p)"
    "\<forall>fl. map_of (m_members c) p = Some fl \<longrightarrow> \<not> has_flag fl CHANNEL_FLAG_OWNER \<and> \<not> has_flag fl CHANNEL_FLAG_MODERATOR"
  shows "fst (ch_exec env c op) = c \<and> (\<exists>nf args. nf \<in> {NF_NOTON, NF_NOTMOD, NF_NOT_ON_2} \<and>
    snd (ch_exec env c op) =
      [SendPacket p (''SMSG_CHANNEL_NOTIFY'', U8 (notify_code nf) # Str (m_name c) # args)])"
proof -
  have "\<not> by_mode env p fl" "\<not> by_mode_or_command env p fl" if "map_of (m_members c) p = Some fl" for fl
    using assms(2,3) that by (simp_all add: by_mode_def by_mode_or_command_def may_moderate_def)
  note kicking.unauthorised [OF this(1)] unbanning.unauthorised [OF this(1)]
    mode_setting.unauthorised [OF this(1)] announcing.unauthorised [OF this(1)]
    password_setting.unauthorised [OF this(1)] moderating.unauthorised [OF this(2)]
  with assms(1) show ?thesis
    by (cases op) (simp_all add: mode_ops)
qed

theorem ch_authority_witness:
  "fst (ch_exec demo_env demo_three (Op_Kick 3 7 True)) = demo_three"
  using ch_authority [of "Op_Kick 3 7 True" 3 demo_env demo_three]
  by (simp add: demo_three_members demo_env_def)

text \<open>
  C38. Speech: an unforced \<open>Say\<close> delivers the message packet to a player exactly when the
  speaker is on the channel, not muted, voiced or in charge if the channel is moderated, and of
  the channel's minimum level, and the receiver is a member with a session.
\<close>

theorem ch_say_delivery:
  "SendPacket q (chat_packet env c p msg) \<in> set (ch_say env c p msg None False) \<longleftrightarrow>
    (\<exists>fl. map_of (m_members c) p = Some fl \<and> \<not> has_flag fl CHANNEL_FLAG_MUTED \<and>
       (m_muted c \<longrightarrow> has_flag fl CHANNEL_FLAG_VOICED \<or> has_flag fl CHANNEL_FLAG_MODERATOR \<or>
          has_flag fl CHANNEL_FLAG_OWNER)) \<and>
    m_minimumLevel c \<le> pl_level (env p) \<and> q \<in> fst ` set (m_members c) \<and> pl_session (env q)"
proof (cases "map_of (m_members c) p")
  case None
  then show ?thesis by (auto simp: ch_say_def chan_reply_def chat_packet_def)
next
  case (Some fl)
  have "SendPacket q pkt \<in> set (ch_send_to_all env c pkt) \<longleftrightarrow>
      q \<in> fst ` set (m_members c) \<and> pl_session (env q)" for pkt
    by (force simp: ch_send_to_all_def)
  with Some show ?thesis
    by (auto simp: ch_say_def ch_may_speak_def chan_reply_def not_less)
      (auto simp: chat_packet_def)
qed

theorem ch_say_delivery_witness:
  "SendPacket 9 (chat_packet demo_env demo_three 3 ''hi'') \<in> set (ch_say demo_env demo_three 3 ''hi'' None False)"
  using ch_say_delivery [of 9 demo_env demo_three 3 "''hi''"]
  by (simp add: demo_three_members has_flag_def chan_flags demo_env_def demo_run_def ch_new_def
      ch_attempt_join_def Let_def stricmp_eq_def to_lower_def)

section \<open>Bans and transfers\<close>

lemma keys_take_out: "map fst (m_members (ch_take_out env c p fl)) = map fst (map_erase p (m_members c))"
  if "distinct (map fst (m_members c))"
proof -
  have "distinct (map fst (map_erase p (m_members c)))"
    using that by (auto simp: map_erase_def distinct_map_filter)
  then show ?thesis
    by (simp add: ch_take_out_def ch_set_owner_def so_transfer_members Let_def)
qed

definition bans_out :: "chan_env \<Rightarrow> player \<Rightarrow> channel \<Rightarrow> bool" where
  "bans_out env p c \<longleftrightarrow> (pl_low (env p) \<in> set (m_bannedMembers c) \<longrightarrow> p \<notin> fst ` set (m_members c))"

lemma keys_take_out': "chan_ok c \<Longrightarrow> fst ` set (m_members (ch_take_out env c p fl)) = fst ` set (m_members c) - {p}"
  using keys_take_out [OF chan_ok_distinct, of c env p fl] keys_map_erase [of p "m_members c"]
  by (metis set_map)

lemma banned_take_out: "m_bannedMembers (ch_take_out env c p fl) = m_bannedMembers c"
  if "distinct (map fst (m_members c))"
proof -
  have "distinct (map fst (map_erase p (m_members c)))"
    using that by (auto simp: map_erase_def distinct_map_filter)
  then show ?thesis
    by (simp add: ch_take_out_def ch_set_owner_def so_transfer_members Let_def)
qed

lemma bans_out_exec:
  assumes uniq: "\<forall>q. q \<noteq> p \<longrightarrow> pl_low (env q) \<noteq> pl_low (env p)"
    and ok: "chan_ok c" and out: "bans_out env p c"
  shows "bans_out env p (fst (ch_exec env c op))"
proof (cases op)
  case (Op_Part q s)
  with out keys_take_out' [OF ok] banned_take_out [OF chan_ok_distinct [OF ok]] show ?thesis
    by (simp add: ch_part_state bans_out_def split: option.split)
next
  case (Op_SetOwner q r)
  have keys: "fst ` set (map (so_flags own) ms) = fst ` set ms" for own ms
    by (metis list.set_map map_fst_so_flags(1))
  with Op_SetOwner out show ?thesis
    by (simp add: ch_set_owner_def so_transfer_members [OF chan_ok_distinct [OF ok]] bans_out_def keys
        del: set_map image_set split: option.split)
next
  case (Op_Kick q r b)
  show ?thesis
  proof (cases "r = p")
    case True
    with Op_Kick out keys_take_out' [OF ok] show ?thesis
      by (simp add: ch_kick_state bans_out_def split: option.split)
  next
    case False
    with uniq have "pl_low (env p) \<noteq> pl_low (env r)" by metis
    with Op_Kick out keys_take_out' [OF ok] banned_take_out [OF chan_ok_distinct [OF ok]] show ?thesis
      by (simp add: ch_kick_state bans_out_def set_insort_insert split: option.split)
  qed
next
  case (Op_Join q pw)
  with uniq out show ?thesis
    by (cases "q = p") (auto simp: ch_attempt_join_def Let_def bans_out_def)
qed (use out in \<open>simp add: mode_ops ch_mode_op_def ch_moderate_def ch_unban_def
    ch_announce_toggle_def ch_set_password_def Let_def bans_out_def
    flip: set_map split: option.split\<close>)+

text \<open>
  C16. A ban holds: a player whose low guid nobody shares and is on the ban list of a reachable
  channel is not on the channel, and joining is refused whatever the password, with no effect
  but one refusal; so a banned player stays out until an \<open>Unban\<close> takes the guid off the list.
\<close>

theorem ch_ban_holds:
  assumes "chan_reach dbc env c" "\<forall>q. q \<noteq> p \<longrightarrow> pl_low (env q) \<noteq> pl_low (env p)"
    "pl_low (env p) \<in> set (m_bannedMembers c)"
  shows "map_of (m_members c) p = None \<and> fst (ch_attempt_join env c p pw) = c \<and>
    snd (ch_attempt_join env c p pw) \<in> {chan_reply c p NF_WRONGPASS [], chan_reply c p NF_YOURBANNED []}"
proof -
  from assms(1) have "chan_ok c \<and> bans_out env p c"
  proof (induction rule: chan_reach.induct)
    case (reach_new name team type_id cid)
    then show ?case by (simp add: chan_ok_new) (simp add: bans_out_def ch_new_def Let_def)
  next
    case (reach_op c op)
    then show ?case using bans_out_exec [OF assms(2)] chan_ok_exec by blast
  qed
  with assms(3) have "p \<notin> fst ` set (m_members c)" by (auto simp: bans_out_def)
  with assms(3) show ?thesis
    by (simp add: ch_attempt_join_def Let_def map_of_eq_None_keys)
qed

text \<open>Player 9 has a guid of its own; the owner 7 bans it.\<close>

definition ban_env :: chan_env where
  "ban_env p = (demo_env p)\<lparr> pl_low := (if p = 9 then 1 else 0) \<rparr>"

definition ban_run :: channel where
  "ban_run = fst (ch_exec ban_env (fst (ch_exec ban_env (fst (ch_exec ban_env
     (ch_new (\<lambda>_. None) ''duel'' 0 0 1) (Op_Join 7 []))) (Op_Join 9 []))) (Op_Kick 7 9 True))"

theorem ch_ban_holds_witness:
  "m_bannedMembers ban_run = [1] \<and> map_of (m_members ban_run) 9 = None \<and>
   fst (ch_attempt_join ban_env ban_run 9 []) = ban_run"
proof -
  have "chan_reach (\<lambda>_. None) ban_env ban_run"
    unfolding ban_run_def by (intro reach_op reach_new)
  moreover have b: "m_bannedMembers ban_run = [1]"
    by (simp add: ban_run_def ch_new_def ch_attempt_join_def ch_kick_def Let_def ban_env_def demo_env_def
        stricmp_eq_def to_lower_def chan_flags flag_set_def may_moderate_def has_flag_def insort_insert_key_def)
  moreover have "\<forall>q. q \<noteq> 9 \<longrightarrow> pl_low (ban_env q) \<noteq> pl_low (ban_env 9)"
    by (simp add: ban_env_def)
  moreover have "pl_low (ban_env 9) \<in> set (m_bannedMembers ban_run)"
    by (simp only: b) (simp add: ban_env_def)
  ultimately show ?thesis using ch_ban_holds [of "\<lambda>_. None" ban_env ban_run 9 "[]"] by simp
qed

text \<open>
  Handing a channel over: \<open>SetOwner\<close> requested by the owner makes another member the one
  owner; but if the candidate is the owner itself, or is no member of the channel, the owner is
  demoted and the channel is left without any owner.
\<close>

theorem ch_hand_over:
  assumes "chan_reach dbc env c" "owners (m_members c) = [p]"
  shows "owners (m_members (fst (ch_set_owner env c (Some (p, q))))) =
    (if q \<noteq> p \<and> q \<in> fst ` set (m_members c) then [q] else [])"
proof -
  have ok: "chan_ok c" and d: "distinct (map fst (m_members c))"
    using chan_reach_ok [OF assms(1)] chan_ok_distinct by auto
  have "p \<in> set (owners (m_members c))" using assms(2) by simp
  then obtain f where f: "map_of (m_members c) p = Some f" "has_flag f CHANNEL_FLAG_OWNER"
    using d by (auto simp: set_owners)
  have cand: "so_cand (Some q) e \<longleftrightarrow> fst e = q \<and> q \<noteq> p" if "e \<in> set (m_members c)" for e
  proof (cases e)
    case (Pair k fl)
    with that d have "map_of (m_members c) k = Some fl" by simp
    with f assms(2) map_of_owner_mem [of "m_members c" k fl] show ?thesis
      by (auto simp: so_cand_def Pair)
  qed
  have "(case find (so_cand (Some q)) (m_members c) of None \<Rightarrow> [] | Some (r, _) \<Rightarrow> [r]) =
      (if q \<noteq> p \<and> q \<in> fst ` set (m_members c) then [q] else [])"
  proof (cases "find (so_cand (Some q)) (m_members c)")
    case None
    then have "\<not> so_cand (Some q) e" if "e \<in> set (m_members c)" for e
      using that by (cases e) (simp add: find_None_iff)
    with cand have "q = p \<or> q \<notin> fst ` set (m_members c)" by blast
    then show ?thesis using None by auto
  next
    case (Some e)
    then have "e \<in> set (m_members c)" "so_cand (Some q) e"
      by (auto simp: find_Some_iff)
    with cand [of e] have "fst e = q" "q \<noteq> p" by auto
    moreover from this \<open>e \<in> set (m_members c)\<close> have "q \<in> fst ` set (m_members c)" by blast
    ultimately show ?thesis using Some by (cases e) simp
  qed
  then show ?thesis
    using f by (simp add: ch_set_owner_def owners_so_transfer [OF d])
qed

theorem ch_hand_over_witness:
  "owners (m_members (fst (ch_set_owner demo_env demo_three (Some (7, 9))))) = [9] \<and>
   owners (m_members (fst (ch_set_owner demo_env demo_three (Some (7, 7))))) = []"
  using ch_hand_over [OF demo_reach [of "[Op_Join 7 [], Op_Join 3 [], Op_Join 9 []]"], of 7 9]
    ch_hand_over [OF demo_reach [of "[Op_Join 7 [], Op_Join 3 [], Op_Join 9 []]"], of 7 7]
  by (simp add: demo_three_members has_flag_def chan_flags)

end
