(* ===== verification/HS_ChannelMgr.thy ===== *)
theory HS_ChannelMgr
  imports HS_Channel "HOL-Library.List_Lexorder" "HOL-Library.Char_ord"
begin

text \<open>
  The channel manager and the packet handlers: \<open>ChannelMgr\<close> in
  \<open>hearthstone-world/Channel.cpp\<close>, \<open>ChannelHandler.cpp\<close>, and \<open>JoinedChannel\<close>,
  \<open>LeftChannel\<close>, \<open>CleanupChannels\<close> of \<open>Player.cpp\<close>.

  A \<open>Channel *\<close> is a number; \<open>heap\<close> maps the live ones to their channels, so a use of a
  deleted channel is the value \<^term>\<open>None\<close>. The set \<open>m_channels\<close> of every player is part
  of the state: it is what \<open>CleanupChannels\<close> reads when the player logs out.

  A packet is one step: the look-up of the channel, under the lock of the manager, and the operation on
  it, under the lock of the channel. The source releases the first lock before it takes the second, so
  a channel another thread removes in between is not in these runs.
\<close>

section \<open>State\<close>

type_synonym cptr = nat

record chan_mgr =
  separate :: bool
  idHigh :: u32
  lists :: "nat \<Rightarrow> (string \<times> cptr) list"
  idToChannel :: "(u32 \<times> cptr) list"
  heap :: "cptr \<Rightarrow> channel option"
  next_ptr :: cptr
  pl_channels :: "player \<Rightarrow> u32 list"

record chan_conf =
  dbc_channels :: "u32 \<Rightarrow> u32 option"
  banned_names :: "string list"
  gm_client_channel :: string
  lfg_for_non_lfg :: bool

definition cm_new :: "bool \<Rightarrow> chan_mgr" where
  "cm_new sep = \<lparr> separate = sep, idHigh = 0, lists = (\<lambda>_. []), idToChannel = [],
     heap = (\<lambda>_. None), next_ptr = 0, pl_channels = (\<lambda>_. []) \<rparr>"

text \<open>\<open>LoadConfSettings\<close>: the configured names, split at the semicolons (\<open>StrSplit\<close>).\<close>

fun str_split_aux :: "char \<Rightarrow> string \<Rightarrow> string \<Rightarrow> string list" where
  "str_split_aux sep [] cur = (if cur = [] then [] else [cur])"
| "str_split_aux sep (ch # s) cur =
     (if ch = sep then (if cur = [] then str_split_aux sep s [] else cur # str_split_aux sep s [])
      else str_split_aux sep s (cur @ [ch]))"

definition str_split :: "string \<Rightarrow> char \<Rightarrow> string list" where
  "str_split s sep = str_split_aux sep s []"

section \<open>Effects on the players\<close>

text \<open>The packets go out; \<open>JoinedChannel\<close> and \<open>LeftChannel\<close> update the player's set.\<close>

fun apply_event :: "chan_event \<Rightarrow> chan_mgr \<Rightarrow> chan_mgr" where
  "apply_event (JoinedChannel p cid) m =
     m\<lparr> pl_channels := (pl_channels m)(p := insort_insert cid (pl_channels m p)) \<rparr>"
| "apply_event (LeftChannel p cid) m =
     m\<lparr> pl_channels := (pl_channels m)(p := set_erase cid (pl_channels m p)) \<rparr>"
| "apply_event _ m = m"

definition apply_events :: "chan_event list \<Rightarrow> chan_mgr \<Rightarrow> chan_mgr" where
  "apply_events evs m = fold apply_event evs m"

section \<open>Lookups\<close>

definition list_index :: "chan_mgr \<Rightarrow> nat \<Rightarrow> nat" where
  "list_index m team = (if separate m then team else 0)"

fun find_by_name :: "string \<Rightarrow> (string \<times> cptr) list \<Rightarrow> cptr option" where
  "find_by_name name [] = None"
| "find_by_name name ((n, cp) # l) = (if stricmp_eq name n then Some cp else find_by_name name l)"

definition cm_get_channel :: "chan_mgr \<Rightarrow> string \<Rightarrow> nat \<Rightarrow> cptr option" where
  "cm_get_channel m name team = find_by_name name (lists m (list_index m team))"

definition cm_get_channel_id :: "chan_mgr \<Rightarrow> u32 \<Rightarrow> cptr option" where
  "cm_get_channel_id m cid = map_of (idToChannel m) cid"

definition name_banned :: "chan_conf \<Rightarrow> string \<Rightarrow> bool" where
  "name_banned conf name \<longleftrightarrow> (\<exists>b \<in> set (banned_names conf). strnicmp_eq name b (length b))"

section \<open>Creation and removal\<close>

text \<open>
  The lists are \<open>std::map\<close>s keyed by the channel's name; strings compare by their bytes.
\<close>

definition cm_get_create :: "chan_conf \<Rightarrow> chan_env \<Rightarrow> chan_mgr \<Rightarrow> string \<Rightarrow> player \<Rightarrow> u32 \<Rightarrow> chan_mgr \<times> cptr option" where
  "cm_get_create conf env m name p type_id =
    (let ix = list_index m (pl_team (env p))
     in case find_by_name name (lists m ix) of
          Some cp \<Rightarrow> (m, Some cp)
        | None \<Rightarrow>
            if name_banned conf name then (m, None)
            else
              (let cid = idHigh m + 1;
                   chn = ch_new (dbc_channels conf) name (if separate m then pl_team (env p) else 0) type_id cid;
                   cp = next_ptr m
               in (m\<lparr> idHigh := cid, next_ptr := cp + 1, heap := (heap m)(cp \<mapsto> chn),
                      lists := (lists m)(ix := map_insert (m_name chn) cp (lists m ix)),
                      idToChannel := map_insert cid cp (idToChannel m) \<rparr>, Some cp)))"

definition cm_remove_channel :: "chan_mgr \<Rightarrow> cptr \<Rightarrow> channel \<Rightarrow> chan_mgr" where
  "cm_remove_channel m cp chn =
    (let ix = list_index m (m_team chn);
         m1 = m\<lparr> idToChannel := map_erase (m_channelId chn) (idToChannel m) \<rparr>
     in if cp \<in> snd ` set (lists m ix)
        then apply_events (ch_delete chn)
               (m1\<lparr> lists := (lists m)(ix := filter (\<lambda>e. snd e \<noteq> cp) (lists m ix)),
                    heap := (heap m)(cp := None) \<rparr>)
        else m1)"

text \<open>
  \<open>Part\<close> with its last statement: a channel left empty is removed. (The server is built for
  Linux; under \<open>WIN32\<close> this branch is compiled out.)
\<close>

definition cm_update :: "chan_mgr \<Rightarrow> cptr \<Rightarrow> channel \<times> chan_event list \<Rightarrow> chan_mgr" where
  "cm_update m cp r = apply_events (snd r) (m\<lparr> heap := (heap m)(cp \<mapsto> fst r) \<rparr>)"

definition cm_part :: "chan_env \<Rightarrow> chan_mgr \<Rightarrow> cptr \<Rightarrow> channel \<Rightarrow> player \<Rightarrow> bool \<Rightarrow> chan_mgr \<times> chan_event list" where
  "cm_part env m cp c plr silent =
    (let r = ch_part env c plr silent; m1 = cm_update m cp r
     in (if map_of (m_members c) plr \<noteq> None \<and> m_members (fst r) = []
         then cm_remove_channel m1 cp (fst r) else m1, snd r))"

section \<open>Packet handlers\<close>

datatype chan_packet =
    CP_Join u32 u16 string string | CP_Leave u32 string | CP_List string | CP_Password string string
  | CP_SetOwner string string | CP_Owner string | CP_Moderator string string | CP_Unmoderator string string
  | CP_Mute string string | CP_Unmute string string | CP_Invite string string | CP_Kick string string
  | CP_Ban string string | CP_Unban string string | CP_Announce string | CP_Moderate string
  | CP_RosterQuery string | CP_NumMembersQuery string

text \<open>
  What the handlers ask of the object manager: a player in the world by name, and the low guid
  of a character by name.
\<close>

record chan_objmgr =
  GetPlayer :: "string \<Rightarrow> player option"
  GetPlayerInfoByName :: "string \<Rightarrow> u32 option"

definition with_channel ::
  "chan_env \<Rightarrow> chan_mgr \<Rightarrow> string \<Rightarrow> player \<Rightarrow> (cptr \<Rightarrow> channel \<Rightarrow> chan_mgr \<times> chan_event list) \<Rightarrow>
     (chan_mgr \<times> chan_event list) option" where
  "with_channel env m name plr f =
    (case cm_get_channel m name (pl_team (env plr)) of
       None \<Rightarrow> Some (m, [])
     | Some cp \<Rightarrow> (case heap m cp of None \<Rightarrow> None | Some c \<Rightarrow> Some (f cp c)))"

definition with_op :: "chan_env \<Rightarrow> chan_mgr \<Rightarrow> string \<Rightarrow> player \<Rightarrow> chan_op \<Rightarrow> (chan_mgr \<times> chan_event list) option" where
  "with_op env m name plr op =
    with_channel env m name plr (\<lambda>cp c. (cm_update m cp (ch_exec env c op), snd (ch_exec env c op)))"

definition with_target :: "'a option \<Rightarrow> chan_mgr \<Rightarrow> ('a \<Rightarrow> (chan_mgr \<times> chan_event list) option) \<Rightarrow>
    (chan_mgr \<times> chan_event list) option" where
  "with_target t m f = (case t of None \<Rightarrow> Some (m, []) | Some q \<Rightarrow> f q)"

definition join_allowed :: "chan_conf \<Rightarrow> chan_env \<Rightarrow> player \<Rightarrow> string \<Rightarrow> bool" where
  "join_allowed conf env plr name \<longleftrightarrow>
    \<not> (stricmp_eq name ''LookingForGroup'' \<and> \<not> lfg_for_non_lfg conf \<and>
       (\<forall>i \<in> set (take 3 (pl_lfg_dungeons (env plr))). i = 0)) \<and>
    \<not> (gm_client_channel conf \<noteq> [] \<and> stricmp_eq (gm_client_channel conf) name \<and> pl_permissions (env plr) = 0)"

definition HandleChannelJoin :: "chan_conf \<Rightarrow> chan_env \<Rightarrow> chan_mgr \<Rightarrow> player \<Rightarrow> u32 \<Rightarrow> string \<Rightarrow> string \<Rightarrow> (chan_mgr \<times> chan_event list) option" where
  "HandleChannelJoin conf env m plr dbc_id name pass =
    (if \<not> join_allowed conf env plr name then Some (m, [])
     else (case cm_get_create conf env m name plr dbc_id of
             (m1, None) \<Rightarrow> Some (m1, [])
           | (m1, Some cp) \<Rightarrow>
               (case heap m1 cp of
                  None \<Rightarrow> None
                | Some c \<Rightarrow> (let r = ch_attempt_join env c plr pass in Some (cm_update m1 cp r, snd r)))))"

definition HandleChannelLeave :: "chan_env \<Rightarrow> chan_mgr \<Rightarrow> player \<Rightarrow> string \<Rightarrow> (chan_mgr \<times> chan_event list) option" where
  "HandleChannelLeave env m plr name =
    with_channel env m name plr (\<lambda>cp c. cm_part env m cp c plr False)"

definition HandleChannelList :: "chan_env \<Rightarrow> chan_mgr \<Rightarrow> player \<Rightarrow> string \<Rightarrow> (chan_mgr \<times> chan_event list) option" where
  "HandleChannelList env m plr name =
    with_channel env m name plr (\<lambda>cp c. (m, ch_list env c plr))"

definition HandleChannelPassword :: "chan_env \<Rightarrow> chan_mgr \<Rightarrow> player \<Rightarrow> string \<Rightarrow> string \<Rightarrow> (chan_mgr \<times> chan_event list) option" where
  "HandleChannelPassword env m plr name pass =
    with_op env m name plr (Op_Password plr pass)"

definition HandleChannelSetOwner :: "chan_objmgr \<Rightarrow> chan_env \<Rightarrow> chan_mgr \<Rightarrow> player \<Rightarrow> string \<Rightarrow> string \<Rightarrow> (chan_mgr \<times> chan_event list) option" where
  "HandleChannelSetOwner om env m plr name newp =
    with_target (GetPlayer om newp) m (\<lambda>q. with_op env m name plr (Op_SetOwner plr q))"

definition HandleChannelOwner :: "chan_env \<Rightarrow> chan_mgr \<Rightarrow> player \<Rightarrow> string \<Rightarrow> (chan_mgr \<times> chan_event list) option" where
  "HandleChannelOwner env m plr name =
    with_channel env m name plr (\<lambda>cp c. (m, ch_get_owner env c plr))"

definition HandleChannelModerator :: "chan_objmgr \<Rightarrow> chan_env \<Rightarrow> chan_mgr \<Rightarrow> player \<Rightarrow> string \<Rightarrow> string \<Rightarrow> (chan_mgr \<times> chan_event list) option" where
  "HandleChannelModerator om env m plr name newp =
    with_target (GetPlayer om newp) m (\<lambda>q. with_op env m name plr (Op_GiveModerator plr q))"

definition HandleChannelUnmoderator :: "chan_objmgr \<Rightarrow> chan_env \<Rightarrow> chan_mgr \<Rightarrow> player \<Rightarrow> string \<Rightarrow> string \<Rightarrow> (chan_mgr \<times> chan_event list) option" where
  "HandleChannelUnmoderator om env m plr name newp =
    with_target (GetPlayer om newp) m (\<lambda>q. with_op env m name plr (Op_TakeModerator plr q))"

definition HandleChannelMute :: "chan_objmgr \<Rightarrow> chan_env \<Rightarrow> chan_mgr \<Rightarrow> player \<Rightarrow> string \<Rightarrow> string \<Rightarrow> (chan_mgr \<times> chan_event list) option" where
  "HandleChannelMute om env m plr name newp =
    with_target (GetPlayer om newp) m (\<lambda>q. with_op env m name plr (Op_Mute plr q))"

definition HandleChannelUnmute :: "chan_objmgr \<Rightarrow> chan_env \<Rightarrow> chan_mgr \<Rightarrow> player \<Rightarrow> string \<Rightarrow> string \<Rightarrow> (chan_mgr \<times> chan_event list) option" where
  "HandleChannelUnmute om env m plr name newp =
    with_target (GetPlayer om newp) m (\<lambda>q. with_op env m name plr (Op_Unmute plr q))"

definition HandleChannelInvite :: "chan_objmgr \<Rightarrow> chan_env \<Rightarrow> chan_mgr \<Rightarrow> player \<Rightarrow> string \<Rightarrow> string \<Rightarrow> (chan_mgr \<times> chan_event list) option" where
  "HandleChannelInvite om env m plr name newp =
    with_target (GetPlayer om newp) m (\<lambda>q. with_channel env m name plr (\<lambda>cp c. (m, ch_invite env c plr q)))"

definition HandleChannelKick :: "chan_objmgr \<Rightarrow> chan_env \<Rightarrow> chan_mgr \<Rightarrow> player \<Rightarrow> string \<Rightarrow> string \<Rightarrow> (chan_mgr \<times> chan_event list) option" where
  "HandleChannelKick om env m plr name newp =
    with_target (GetPlayer om newp) m (\<lambda>q. with_op env m name plr (Op_Kick plr q False))"

definition HandleChannelBan :: "chan_objmgr \<Rightarrow> chan_env \<Rightarrow> chan_mgr \<Rightarrow> player \<Rightarrow> string \<Rightarrow> string \<Rightarrow> (chan_mgr \<times> chan_event list) option" where
  "HandleChannelBan om env m plr name newp =
    with_target (GetPlayer om newp) m (\<lambda>q. with_op env m name plr (Op_Kick plr q True))"

definition HandleChannelUnban :: "chan_objmgr \<Rightarrow> chan_env \<Rightarrow> chan_mgr \<Rightarrow> player \<Rightarrow> string \<Rightarrow> string \<Rightarrow> (chan_mgr \<times> chan_event list) option" where
  "HandleChannelUnban om env m plr name newp =
    with_target (GetPlayerInfoByName om newp) m (\<lambda>g. with_op env m name plr (Op_Unban plr g))"

definition HandleChannelAnnounce :: "chan_env \<Rightarrow> chan_mgr \<Rightarrow> player \<Rightarrow> string \<Rightarrow> (chan_mgr \<times> chan_event list) option" where
  "HandleChannelAnnounce env m plr name =
    with_op env m name plr (Op_Announce plr)"

definition HandleChannelModerate :: "chan_env \<Rightarrow> chan_mgr \<Rightarrow> player \<Rightarrow> string \<Rightarrow> (chan_mgr \<times> chan_event list) option" where
  "HandleChannelModerate env m plr name =
    with_op env m name plr (Op_Moderate plr)"

definition HandleChannelRosterQuery :: "chan_env \<Rightarrow> chan_mgr \<Rightarrow> player \<Rightarrow> string \<Rightarrow> (chan_mgr \<times> chan_event list) option" where
  "HandleChannelRosterQuery env m plr name =
    with_channel env m name plr (\<lambda>cp c. (m, ch_list env c plr))"

definition HandleChannelNumMembersQuery :: "chan_env \<Rightarrow> chan_mgr \<Rightarrow> player \<Rightarrow> string \<Rightarrow> (chan_mgr \<times> chan_event list) option" where
  "HandleChannelNumMembersQuery env m plr name =
    with_channel env m name plr (\<lambda>cp c.
      (m, [SendPacket plr (''SMSG_CHANNEL_MEMBER_COUNT'',
             [Str name, U8 (m_flags c), U32 (of_nat (length (m_members c)))])]))"

fun cm_handle :: "chan_conf \<Rightarrow> chan_env \<Rightarrow> chan_objmgr \<Rightarrow> chan_mgr \<Rightarrow> player \<Rightarrow> chan_packet \<Rightarrow>
    (chan_mgr \<times> chan_event list) option" where
  "cm_handle conf env om m plr (CP_Join dbc_id crap name pass) = HandleChannelJoin conf env m plr dbc_id name pass"
| "cm_handle conf env om m plr (CP_Leave code name) = HandleChannelLeave env m plr name"
| "cm_handle conf env om m plr (CP_List name) = HandleChannelList env m plr name"
| "cm_handle conf env om m plr (CP_Password name pass) = HandleChannelPassword env m plr name pass"
| "cm_handle conf env om m plr (CP_SetOwner name newp) = HandleChannelSetOwner om env m plr name newp"
| "cm_handle conf env om m plr (CP_Owner name) = HandleChannelOwner env m plr name"
| "cm_handle conf env om m plr (CP_Moderator name newp) = HandleChannelModerator om env m plr name newp"
| "cm_handle conf env om m plr (CP_Unmoderator name newp) = HandleChannelUnmoderator om env m plr name newp"
| "cm_handle conf env om m plr (CP_Mute name newp) = HandleChannelMute om env m plr name newp"
| "cm_handle conf env om m plr (CP_Unmute name newp) = HandleChannelUnmute om env m plr name newp"
| "cm_handle conf env om m plr (CP_Invite name newp) = HandleChannelInvite om env m plr name newp"
| "cm_handle conf env om m plr (CP_Kick name newp) = HandleChannelKick om env m plr name newp"
| "cm_handle conf env om m plr (CP_Ban name newp) = HandleChannelBan om env m plr name newp"
| "cm_handle conf env om m plr (CP_Unban name newp) = HandleChannelUnban om env m plr name newp"
| "cm_handle conf env om m plr (CP_Announce name) = HandleChannelAnnounce env m plr name"
| "cm_handle conf env om m plr (CP_Moderate name) = HandleChannelModerate env m plr name"
| "cm_handle conf env om m plr (CP_RosterQuery name) = HandleChannelRosterQuery env m plr name"
| "cm_handle conf env om m plr (CP_NumMembersQuery name) = HandleChannelNumMembersQuery env m plr name"

lemmas chan_handlers = cm_handle.simps HandleChannelJoin_def HandleChannelLeave_def HandleChannelList_def
  HandleChannelPassword_def HandleChannelSetOwner_def HandleChannelOwner_def
  HandleChannelModerator_def HandleChannelUnmoderator_def HandleChannelMute_def
  HandleChannelUnmute_def HandleChannelInvite_def HandleChannelKick_def
  HandleChannelBan_def HandleChannelUnban_def HandleChannelAnnounce_def
  HandleChannelModerate_def HandleChannelRosterQuery_def HandleChannelNumMembersQuery_def

text \<open>
  \<open>CleanupChannels\<close>, at logout: the iterator is moved on before \<open>Part\<close> erases the id it
  stood on, so the loop runs over the ids the set held at its start.
\<close>

fun cm_cleanup_loop :: "chan_env \<Rightarrow> player \<Rightarrow> u32 list \<Rightarrow> chan_mgr \<Rightarrow> chan_mgr option" where
  "cm_cleanup_loop env plr [] m = Some m"
| "cm_cleanup_loop env plr (cid # cids) m =
    (case cm_get_channel_id m cid of
       None \<Rightarrow> cm_cleanup_loop env plr cids m
     | Some cp \<Rightarrow>
         (case heap m cp of
            None \<Rightarrow> None
          | Some c \<Rightarrow> cm_cleanup_loop env plr cids (fst (cm_part env m cp c plr False))))"

definition cm_cleanup :: "chan_env \<Rightarrow> chan_mgr \<Rightarrow> player \<Rightarrow> chan_mgr option" where
  "cm_cleanup env m plr = cm_cleanup_loop env plr (pl_channels m plr) m"

section \<open>Histories of the manager\<close>

text \<open>
  The handlers in any order, by any players, and logouts. The id counter is 32 bits wide: a step
  is taken only while it has not run out (\<open>2 ^ 32 - 1\<close> channels created).
\<close>

inductive cm_reach :: "chan_conf \<Rightarrow> chan_env \<Rightarrow> chan_objmgr \<Rightarrow> chan_mgr \<Rightarrow> bool" for conf env om where
  cm_start: "cm_reach conf env om (cm_new sep)"
| cm_packet: "cm_reach conf env om m \<Longrightarrow> idHigh m \<noteq> - 1 \<Longrightarrow>
    cm_handle conf env om m plr pkt = Some (m', out) \<Longrightarrow> cm_reach conf env om m'"
| cm_logout: "cm_reach conf env om m \<Longrightarrow> cm_cleanup env m plr = Some m' \<Longrightarrow> cm_reach conf env om m'"

section \<open>Effects of the operations on the players' sets\<close>

text \<open>Packets alone change no set.\<close>

fun quiet :: "chan_event \<Rightarrow> bool" where
  "quiet (SendPacket _ _) = True"
| "quiet (BroadcastMessage _ _ _) = True"
| "quiet _ = False"

lemma apply_quiet [simp]: "quiet e \<Longrightarrow> apply_event e m = m"
  by (cases e) auto

lemma apply_events_quiet [simp]: "list_all quiet evs \<Longrightarrow> apply_events evs m = m"
  by (induction evs arbitrary: m) (auto simp: apply_events_def)

lemma apply_events_Cons [simp]: "apply_events (e # evs) m = apply_events evs (apply_event e m)"
  by (simp add: apply_events_def)

lemma apply_events_Nil [simp]: "apply_events [] m = m"
  by (simp add: apply_events_def)

lemma quiet_out [simp]:
  "list_all quiet (chan_reply c p nf args)"
  "list_all quiet (chan_announce env c nf args)"
  "list_all quiet (ch_send_to_all env c pkt)"
  "list_all quiet (ch_send_to_all_but env c pkt q)"
  by (auto simp: chan_out_defs list_all_iff)

lemma quiet_so_loop: "so_loop env c plr ms data own = (ms', out, own') \<Longrightarrow> list_all quiet out"
proof (induction env c plr ms data own arbitrary: ms' out own' rule: so_loop.induct)
  case (2 env c plr k fl ms data own)
  then show ?case
    by (auto simp: Let_def split: if_splits prod.splits)
qed simp

lemma quiet_so_transfer [simp]: "list_all quiet (snd (so_transfer env c plr))"
  by (auto simp: so_transfer_def Let_def split: prod.split option.split dest: quiet_so_loop)

lemma quiet_set_owner [simp]: "list_all quiet (snd (ch_set_owner env c req))"
  by (auto simp: ch_set_owner_def split: option.split)

lemma quiet_set_ownerD: "ch_set_owner env c req = (c', out) \<Longrightarrow> list_all quiet out"
  using quiet_set_owner [of env c req] by simp

text \<open>The operations of a member other than joining and leaving.\<close>

fun stays :: "chan_op \<Rightarrow> bool" where
  "stays (Op_Join _ _) = False"
| "stays (Op_Part _ _) = False"
| "stays _ = True"

lemma quiet_exec: "stays op \<Longrightarrow> list_all quiet (snd (ch_exec env c op))"
  by (cases op) (auto simp: mode_ops ch_mode_op_def ch_moderate_def ch_kick_def ch_unban_def
      ch_announce_toggle_def ch_set_password_def Let_def split: option.split prod.split
      dest!: quiet_set_ownerD)

text \<open>No operation touches the identity of a channel; only joining adds a member.\<close>

definition same_channel :: "channel \<Rightarrow> channel \<Rightarrow> bool" where
  "same_channel c c' \<longleftrightarrow> m_name c' = m_name c \<and> m_team c' = m_team c \<and> m_channelId c' = m_channelId c"

lemma same_take_out: "chan_ok c \<Longrightarrow> same_channel c (ch_take_out env c p fl)"
proof -
  assume "chan_ok c"
  then have "distinct (map fst (map_erase p (m_members c)))"
    using map_ok_erase chan_okD(1) map_ok_def by metis
  then show ?thesis
    by (simp add: ch_take_out_def ch_set_owner_def so_transfer_members Let_def same_channel_def)
qed

lemma same_exec: "chan_ok c \<Longrightarrow> same_channel c (fst (ch_exec env c op))"
proof -
  assume ok: "chan_ok c"
  show ?thesis
  proof (cases op)
    case (Op_SetOwner p q)
    then show ?thesis
      by (simp add: ch_set_owner_def so_transfer_members [OF chan_ok_distinct [OF ok]] same_channel_def
          split: option.split)
  next
    case (Op_Kick p q b)
    then show ?thesis
      using same_take_out [OF ok] by (auto simp: ch_kick_state same_channel_def split: option.split)
  next
    case (Op_Part p s)
    then show ?thesis
      using same_take_out [OF ok] by (simp add: ch_part_state same_channel_def split: option.split)
  qed (simp_all add: ch_attempt_join_def mode_ops ch_mode_op_def ch_moderate_def ch_unban_def
      ch_announce_toggle_def ch_set_password_def Let_def same_channel_def split: option.split)
qed

lemma keys_exec:
  assumes "chan_ok c" "stays op"
  shows "fst ` set (m_members (fst (ch_exec env c op))) \<subseteq> fst ` set (m_members c)"
proof (cases op)
  case (Op_SetOwner p q)
  have keys: "fst ` set (map (so_flags own) ms) = fst ` set ms" for own ms
    by (metis list.set_map map_fst_so_flags(1))
  from Op_SetOwner show ?thesis
    by (simp add: ch_set_owner_def so_transfer_members [OF chan_ok_distinct [OF assms(1)]] keys
        del: set_map image_set split: option.split)
next
  case (Op_Kick p q b)
  then show ?thesis
    using keys_take_out' [OF assms(1)] by (auto simp: ch_kick_state split: option.split)
qed (use assms(2) in \<open>simp_all add: mode_ops ch_mode_op_def ch_moderate_def ch_unban_def
    ch_announce_toggle_def ch_set_password_def Let_def flip: set_map split: option.split\<close>)

section \<open>The invariant of the manager\<close>

definition folded_names :: "(string \<times> cptr) list \<Rightarrow> string list" where
  "folded_names l = map (\<lambda>e. map to_lower (fst e)) l"

definition live_ok :: "chan_mgr \<Rightarrow> cptr \<Rightarrow> channel \<Rightarrow> bool" where
  "live_ok m cp c \<longleftrightarrow> chan_ok c \<and> cp < next_ptr m \<and> m_channelId c \<le> idHigh m \<and>
     (m_name c, cp) \<in> set (lists m (list_index m (m_team c))) \<and>
     map_of (idToChannel m) (m_channelId c) = Some cp \<and>
     (\<forall>p \<in> fst ` set (m_members c). m_channelId c \<in> set (pl_channels m p))"

definition cm_ok :: "chan_mgr \<Rightarrow> bool" where
  "cm_ok m \<longleftrightarrow>
     (\<forall>ix n cp. (n, cp) \<in> set (lists m ix) \<longrightarrow>
        (\<exists>c. heap m cp = Some c \<and> m_name c = n \<and> list_index m (m_team c) = ix)) \<and>
     (\<forall>cid cp. map_of (idToChannel m) cid = Some cp \<longrightarrow> (\<exists>c. heap m cp = Some c \<and> m_channelId c = cid)) \<and>
     (\<forall>cp c. heap m cp = Some c \<longrightarrow> live_ok m cp c) \<and>
     map_ok (idToChannel m) \<and> (\<forall>ix. map_ok (lists m ix) \<and> distinct (folded_names (lists m ix)))"

lemma list_index_upd [simp]:
  "list_index (m\<lparr> heap := h \<rparr>) t = list_index m t"
  "list_index (m\<lparr> pl_channels := pl \<rparr>) t = list_index m t"
  "list_index (m\<lparr> lists := ls \<rparr>) t = list_index m t"
  "list_index (m\<lparr> idToChannel := im \<rparr>) t = list_index m t"
  "list_index (m\<lparr> idHigh := k \<rparr>) t = list_index m t"
  "list_index (m\<lparr> next_ptr := np \<rparr>) t = list_index m t"
  by (simp_all add: list_index_def)

lemma cm_okD:
  assumes "cm_ok m"
  shows "(n, cp) \<in> set (lists m ix) \<Longrightarrow> \<exists>c. heap m cp = Some c \<and> m_name c = n \<and> list_index m (m_team c) = ix"
    and "map_of (idToChannel m) cid = Some cp \<Longrightarrow> \<exists>c. heap m cp = Some c \<and> m_channelId c = cid"
    and "heap m cp = Some c \<Longrightarrow> live_ok m cp c"
    and "map_ok (idToChannel m)" "map_ok (lists m ix)" "distinct (folded_names (lists m ix))"
  using assms by (auto simp: cm_ok_def)

lemma cm_ok_new [hs_inv]: "cm_ok (cm_new sep)"
  by (simp add: cm_ok_def cm_new_def folded_names_def)

lemma find_by_name_Some: "find_by_name name l = Some cp \<Longrightarrow> \<exists>n. (n, cp) \<in> set l \<and> stricmp_eq name n"
  by (induction name l rule: find_by_name.induct) (auto split: if_splits)

lemma find_by_name_None:
  "find_by_name name l = None \<longleftrightarrow> map to_lower name \<notin> set (folded_names l)"
  by (induction name l rule: find_by_name.induct) (auto simp: folded_names_def stricmp_eq_def)

text \<open>No lookup of a consistent manager meets a deleted channel.\<close>

lemma get_channel_live:
  assumes "cm_ok m" "cm_get_channel m name team = Some cp"
  obtains c where "heap m cp = Some c" "stricmp_eq name (m_name c)" "list_index m (m_team c) = list_index m team"
  using assms cm_okD(1) [OF assms(1)] unfolding cm_get_channel_def
  by (metis find_by_name_Some)

text \<open>
  Writing a channel back after an operation keeps the manager consistent, when the effects
  list every member with the player.
\<close>

lemma cm_ok_write:
  assumes "cm_ok m" "heap m cp = Some c" "same_channel c c'" "chan_ok c'"
    and sets: "\<And>p. p \<in> fst ` set (m_members c') \<Longrightarrow> m_channelId c \<in> set (pl' p)"
    and others: "\<And>p cid. cid \<noteq> m_channelId c \<Longrightarrow> cid \<in> set (pl_channels m p) \<Longrightarrow> cid \<in> set (pl' p)"
  shows "cm_ok (m\<lparr> heap := (heap m)(cp \<mapsto> c'), pl_channels := pl' \<rparr>)"
proof -
  have same: "m_name c' = m_name c" "m_team c' = m_team c" "m_channelId c' = m_channelId c"
    using assms(3) by (auto simp: same_channel_def)
  note live = cm_okD(3) [OF assms(1)]
  have distinct_ids: "m_channelId d \<noteq> m_channelId c" if "heap m cp' = Some d" "cp' \<noteq> cp" for cp' d
    using live [OF that(1)] live [OF assms(2)] that(2) by (auto simp: live_ok_def)
  let ?m = "m\<lparr> heap := (heap m)(cp \<mapsto> c'), pl_channels := pl' \<rparr>"
  have "live_ok ?m cp' d" if "heap ?m cp' = Some d" for cp' d
  proof (cases "cp' = cp")
    case True
    with that live [OF assms(2)] assms(4) same sets show ?thesis
      by (auto simp: live_ok_def)
  next
    case False
    with that have d: "heap m cp' = Some d" by simp
    with live [OF d] distinct_ids [OF d False] others show ?thesis
      by (auto simp: live_ok_def)
  qed
  moreover have "\<exists>d. heap ?m cp' = Some d \<and> m_name d = n \<and> list_index ?m (m_team d) = ix'"
    if "(n, cp') \<in> set (lists ?m ix')" for n cp' ix'
    using cm_okD(1) [OF assms(1), of n cp' ix'] that assms(2) same by auto
  moreover have "\<exists>d. heap ?m cp' = Some d \<and> m_channelId d = cid"
    if "map_of (idToChannel ?m) cid = Some cp'" for cid cp'
    using cm_okD(2) [OF assms(1), of cid cp'] that assms(2) same by auto
  ultimately show ?thesis
    using cm_okD(4-6) [OF assms(1)] by (simp add: cm_ok_def)
qed

lemma cm_ok_stay:
  assumes "cm_ok m" "heap m cp = Some c" "stays op"
  shows "cm_ok (cm_update m cp (ch_exec env c op))"
proof -
  have ok: "chan_ok c" and mem: "\<forall>p \<in> fst ` set (m_members c). m_channelId c \<in> set (pl_channels m p)"
    using cm_okD(3) [OF assms(1,2)] by (auto simp: live_ok_def)
  have "cm_ok (m\<lparr> heap := (heap m)(cp \<mapsto> fst (ch_exec env c op)), pl_channels := pl_channels m \<rparr>)"
    by (rule cm_ok_write [OF assms(1,2) same_exec [OF ok] chan_ok_exec [OF ok]])
      (use mem keys_exec [OF ok assms(3)] in blast)+
  then show ?thesis
    by (simp add: cm_update_def quiet_exec [OF assms(3)])
qed

lemma ch_youjoined_quiet [simp]: "list_all quiet (ch_youjoined env c p)"
  by (simp add: ch_youjoined_def)

text \<open>What joining does: a refusal, or one more member who has the channel on its list.\<close>

lemma ch_join_cases:
  obtains (refused) "fst (ch_attempt_join env c p pw) = c" "list_all quiet (snd (ch_attempt_join env c p pw))"
  | (joined) fl out where "fst (ch_attempt_join env c p pw) = c\<lparr> m_members := map_insert p fl (m_members c) \<rparr>"
      "snd (ch_attempt_join env c p pw) = JoinedChannel p (m_channelId c) # out" "list_all quiet out"
      "map_of (m_members c) p = None"
proof (cases "(m_password c \<noteq> [] \<and> m_password c \<noteq> pw) \<or> pl_low (env p) \<in> set (m_bannedMembers c) \<or>
    map_of (m_members c) p \<noteq> None")
  case True
  show ?thesis by (rule refused) (use True in \<open>auto simp: ch_attempt_join_def Let_def\<close>)
next
  case False
  define fl where "fl = (let fl0 = (if \<not> m_general c \<and> pl_cmd_c (env p) then flag_set 0 CHANNEL_FLAG_MODERATOR else 0)
    in if m_members c = [] \<and> \<not> m_general c then flag_set fl0 CHANNEL_FLAG_OWNER else fl0)"
  show ?thesis
  proof (rule joined)
    show "fst (ch_attempt_join env c p pw) = c\<lparr> m_members := map_insert p fl (m_members c) \<rparr>"
      using False by (auto simp add: ch_attempt_join_def Let_def fl_def)
    show "snd (ch_attempt_join env c p pw) = JoinedChannel p (m_channelId c) # tl (snd (ch_attempt_join env c p pw))"
      using False by (auto simp add: ch_attempt_join_def Let_def)
    show "list_all quiet (tl (snd (ch_attempt_join env c p pw)))"
      using False by (auto simp add: ch_attempt_join_def Let_def)
    show "map_of (m_members c) p = None"
      using False by simp
  qed
qed

lemma cm_ok_join:
  assumes "cm_ok m" "heap m cp = Some c"
  shows "cm_ok (cm_update m cp (ch_attempt_join env c p pw))"
proof -
  let ?r = "ch_attempt_join env c p pw"
  have ok: "chan_ok c" and mem: "\<forall>q \<in> fst ` set (m_members c). m_channelId c \<in> set (pl_channels m q)"
    using cm_okD(3) [OF assms] by (auto simp: live_ok_def)
  have same: "same_channel c (fst ?r)" and ok': "chan_ok (fst ?r)"
    using same_exec [OF ok, of env "Op_Join p pw"] chan_ok_join [OF ok] by simp_all
  show ?thesis
  proof (cases rule: ch_join_cases [of env c p pw])
    case refused
    have "cm_ok (m\<lparr> heap := (heap m)(cp \<mapsto> fst ?r), pl_channels := pl_channels m \<rparr>)"
      by (rule cm_ok_write [OF assms same ok']) (use mem refused in auto)
    then show ?thesis using refused by (simp add: cm_update_def)
  next
    case (joined fl out)
    have "cm_ok (m\<lparr> heap := (heap m)(cp \<mapsto> fst ?r),
        pl_channels := (pl_channels m)(p := insort_insert (m_channelId c) (pl_channels m p)) \<rparr>)"
      by (rule cm_ok_write [OF assms same ok'])
        (use mem joined in \<open>auto simp: set_insort_insert\<close>)
    then show ?thesis using joined by (simp add: cm_update_def)
  qed
qed

text \<open>What leaving does: a refusal, or one member less, and the channel off its list.\<close>

lemma ch_part_cases:
  obtains (refused) "fst (ch_part env c p s) = c" "list_all quiet (snd (ch_part env c p s))"
      "map_of (m_members c) p = None"
  | (parted) fl out where "fst (ch_part env c p s) = ch_take_out env c p fl"
      "snd (ch_part env c p s) = LeftChannel p (m_channelId c) # out" "list_all quiet out"
      "map_of (m_members c) p = Some fl"
proof (cases "map_of (m_members c) p")
  case None
  show ?thesis by (rule refused) (use None in \<open>simp_all add: ch_part_def\<close>)
next
  case (Some fl)
  have "\<exists>out. snd (ch_part env c p s) = LeftChannel p (m_channelId c) # out \<and> list_all quiet out"
    using Some by (auto simp: ch_part_def Let_def split: prod.split dest: quiet_set_ownerD)
  then show ?thesis using parted Some by (auto simp: ch_part_state)
qed

lemma cm_ok_part_update:
  assumes "cm_ok m" "heap m cp = Some c"
  shows "cm_ok (cm_update m cp (ch_part env c p s))"
proof -
  let ?r = "ch_part env c p s"
  have ok: "chan_ok c" and mem: "\<forall>q \<in> fst ` set (m_members c). m_channelId c \<in> set (pl_channels m q)"
    using cm_okD(3) [OF assms] by (auto simp: live_ok_def)
  have same: "same_channel c (fst ?r)" and ok': "chan_ok (fst ?r)"
    using same_exec [OF ok, of env "Op_Part p s"] chan_ok_part [OF ok] by simp_all
  show ?thesis
  proof (cases rule: ch_part_cases [of env c p s])
    case refused
    have "cm_ok (m\<lparr> heap := (heap m)(cp \<mapsto> fst ?r), pl_channels := pl_channels m \<rparr>)"
      by (rule cm_ok_write [OF assms same ok']) (use mem refused in auto)
    then show ?thesis using refused by (simp add: cm_update_def)
  next
    case (parted fl out)
    have keys: "fst ` set (m_members (fst ?r)) = fst ` set (m_members c) - {p}"
      by (simp add: parted keys_take_out' [OF ok])
    have "cm_ok (m\<lparr> heap := (heap m)(cp \<mapsto> fst ?r),
        pl_channels := (pl_channels m)(p := set_erase (m_channelId c) (pl_channels m p)) \<rparr>)"
      by (rule cm_ok_write [OF assms same ok']) (use mem in \<open>auto simp: keys simp del: set_map image_set\<close>)
    then show ?thesis using parted by (simp add: cm_update_def)
  qed
qed

section \<open>Creating and removing channels\<close>

lemma cm_ok_create:
  assumes ok: "cm_ok m" and room: "idHigh m \<noteq> - 1"
    and absent: "find_by_name name (lists m ix) = None" and ix: "ix = list_index m team"
    and chn: "m_name chn = name" "m_team chn = team" "m_channelId chn = idHigh m + 1" "chan_ok chn" "m_members chn = []"
  shows "cm_ok (m\<lparr> idHigh := idHigh m + 1, next_ptr := next_ptr m + 1, heap := (heap m)(next_ptr m \<mapsto> chn),
      lists := (lists m)(ix := map_insert name (next_ptr m) (lists m ix)),
      idToChannel := map_insert (idHigh m + 1) (next_ptr m) (idToChannel m) \<rparr>)" (is "cm_ok ?m")
proof -
  note live = cm_okD(3) [OF ok]
  have inc: "idHigh m < idHigh m + 1"
  proof -
    have "1 + idHigh m \<noteq> 0" using room by (metis add.commute eq_neg_iff_add_eq_0)
    from unatSuc [OF this] show ?thesis by (simp add: word_less_nat_alt add.commute)
  qed
  have fresh: "heap m (next_ptr m) = None"
    using live by (cases "heap m (next_ptr m)") (auto simp: live_ok_def)
  have newid: "idHigh m + 1 \<notin> fst ` set (idToChannel m)"
  proof
    assume "idHigh m + 1 \<in> fst ` set (idToChannel m)"
    then obtain cp where "map_of (idToChannel m) (idHigh m + 1) = Some cp"
      by (metis map_of_eq_None_iff option.exhaust)
    with cm_okD(2) [OF ok] live inc show False by (fastforce simp: live_ok_def)
  qed
  have folded: "map to_lower name \<notin> set (folded_names (lists m ix))"
    using absent by (simp add: find_by_name_None)
  then have newname: "name \<notin> fst ` set (lists m ix)"
    by (auto simp: folded_names_def image_iff)
  have setl: "set (map_insert name (next_ptr m) (lists m ix)) = insert (name, next_ptr m) (set (lists m ix))"
    by (rule set_map_insert_new [OF newname])
  have ids: "map_of (map_insert (idHigh m + 1) (next_ptr m) (idToChannel m)) =
      (map_of (idToChannel m))(idHigh m + 1 \<mapsto> next_ptr m)"
    using newid cm_okD(4) [OF ok] by simp
  have "live_ok ?m cp c" if "heap ?m cp = Some c" for cp c
  proof (cases "cp = next_ptr m")
    case True
    with that chn setl ids ix show ?thesis by (simp add: live_ok_def list_index_def)
  next
    case False
    with that have "live_ok m cp c" using live by simp
    then show ?thesis
      using setl ids inc False by (auto simp: live_ok_def list_index_def)
  qed
  moreover have "\<exists>c. heap ?m cp = Some c \<and> m_name c = n \<and> list_index ?m (m_team c) = ix'"
    if "(n, cp) \<in> set (lists ?m ix')" for n cp ix'
  proof (cases "(n, cp) \<in> set (lists m ix')")
    case True
    then show ?thesis using cm_okD(1) [OF ok True] fresh by (auto simp: list_index_def)
  next
    case False
    then show ?thesis using that setl chn ix by (auto simp: list_index_def split: if_splits)
  qed
  moreover have "\<exists>c. heap ?m cp = Some c \<and> m_channelId c = cid" if "map_of (idToChannel ?m) cid = Some cp" for cid cp
    using that ids chn cm_okD(2) [OF ok, of cid cp] fresh by (auto split: if_splits)
  moreover have "distinct (folded_names (map_insert name (next_ptr m) (lists m ix)))"
    using distinct_map_map_insert [OF newname, of "\<lambda>e. map to_lower (fst e)" "next_ptr m"]
      cm_okD(6) [OF ok, of ix] folded
    by (simp add: folded_names_def)
  ultimately show ?thesis
    using cm_okD(4-6) [OF ok] by (simp add: cm_ok_def)
qed

lemma cm_ok_get_create:
  assumes "cm_ok m" "idHigh m \<noteq> - 1" "cm_get_create conf env m name p tid = (m', r)"
  shows "cm_ok m' \<and> (\<forall>cp. r = Some cp \<longrightarrow> (\<exists>c. heap m' cp = Some c \<and> stricmp_eq name (m_name c)))"
proof (cases "find_by_name name (lists m (list_index m (pl_team (env p))))")
  case (Some cp)
  then have r: "m' = m" "r = Some cp" using assms(3) by (auto simp: cm_get_create_def)
  from find_by_name_Some [OF Some] cm_okD(1) [OF assms(1)]
  obtain c where "heap m cp = Some c" "stricmp_eq name (m_name c)" by metis
  with r assms(1) show ?thesis by simp
next
  case None
  show ?thesis
  proof (cases "name_banned conf name")
    case True
    with None assms show ?thesis by (auto simp: cm_get_create_def)
  next
    case False
    define team where "team = (if separate m then pl_team (env p) else 0)"
    define chn where "chn = ch_new (dbc_channels conf) name team tid (idHigh m + 1)"
    have ix: "list_index m (pl_team (env p)) = list_index m team"
      by (simp add: team_def list_index_def)
    have chn': "m_name chn = name" "m_team chn = team" "m_channelId chn = idHigh m + 1" "chan_ok chn" "m_members chn = []"
      by (simp_all add: chn_def chan_ok_new) (simp_all add: ch_new_def Let_def)
    have "m' = m\<lparr> idHigh := idHigh m + 1, next_ptr := next_ptr m + 1, heap := (heap m)(next_ptr m \<mapsto> chn),
        lists := (lists m)(list_index m team := map_insert name (next_ptr m) (lists m (list_index m team))),
        idToChannel := map_insert (idHigh m + 1) (next_ptr m) (idToChannel m) \<rparr> \<and> r = Some (next_ptr m)"
      using assms(3) None False chn'(1)
      by (simp add: cm_get_create_def Let_def ix flip: team_def chn_def)
    with cm_ok_create [OF assms(1,2) None ix chn'] chn'(1) ix show ?thesis by simp
  qed
qed

lemma cm_ok_remove:
  assumes "cm_ok m" "heap m cp = Some c" "m_members c = []"
  shows "cm_ok (cm_remove_channel m cp c)"
proof -
  note live = cm_okD(3) [OF assms(1)]
  let ?ix = "list_index m (m_team c)"
  let ?m = "m\<lparr> idToChannel := map_erase (m_channelId c) (idToChannel m),
      lists := (lists m)(?ix := filter (\<lambda>e. snd e \<noteq> cp) (lists m ?ix)), heap := (heap m)(cp := None) \<rparr>"
  have listed: "(m_name c, cp) \<in> set (lists m ?ix)" "map_of (idToChannel m) (m_channelId c) = Some cp"
    using live [OF assms(2)] by (auto simp: live_ok_def)
  have r: "cm_remove_channel m cp c = ?m"
    using listed assms(3) by (force simp: cm_remove_channel_def Let_def ch_delete_def)
  have "live_ok ?m cp' d" if "heap ?m cp' = Some d" for cp' d
  proof -
    from that have d: "heap m cp' = Some d" "cp' \<noteq> cp" by (auto split: if_splits)
    have "m_channelId d \<noteq> m_channelId c"
      using live [OF d(1)] listed(2) d(2) by (auto simp: live_ok_def)
    with live [OF d(1)] d(2) show ?thesis by (auto simp: live_ok_def)
  qed
  moreover have "\<exists>d. heap ?m cp' = Some d \<and> m_name d = n \<and> list_index ?m (m_team d) = ix'"
    if e: "(n, cp') \<in> set (lists ?m ix')" for n cp' ix'
  proof -
    have "(n, cp') \<in> set (lists m ix')" "ix' = ?ix \<longrightarrow> cp' \<noteq> cp"
      using e by (auto split: if_splits)
    with cm_okD(1) [OF assms(1) this(1)] assms(2) show ?thesis by auto
  qed
  moreover have "\<exists>d. heap ?m cp' = Some d \<and> m_channelId d = cid" if "map_of (idToChannel ?m) cid = Some cp'" for cid cp'
    using that cm_okD(2) [OF assms(1), of cid cp'] assms(2) by (auto split: if_splits)
  moreover have "map_ok (filter (\<lambda>e. snd e \<noteq> cp) (lists m ?ix))"
    using cm_okD(5) [OF assms(1), of ?ix] unfolding map_ok_def
    by (auto simp: distinct_map_filter intro: sorted_filter)
  moreover have "distinct (folded_names (filter (\<lambda>e. snd e \<noteq> cp) (lists m ?ix)))"
    using cm_okD(6) [OF assms(1), of ?ix] by (simp add: folded_names_def distinct_map_filter)
  ultimately show ?thesis
    unfolding r using cm_okD(4-6) [OF assms(1)] by (simp add: cm_ok_def)
qed

section \<open>The handlers keep the invariant\<close>

lemma cm_ok_part [hs_inv]:
  assumes "cm_ok m" "heap m cp = Some c"
  shows "cm_ok (fst (cm_part env m cp c p s))"
proof -
  have ok: "cm_ok (cm_update m cp (ch_part env c p s))"
    by (rule cm_ok_part_update [OF assms])
  have "heap (apply_events evs k) = heap k" for evs k
  proof (induction evs arbitrary: k)
    case (Cons e evs)
    then show ?case by (cases e) auto
  qed simp
  then have "heap (cm_update m cp (ch_part env c p s)) cp = Some (fst (ch_part env c p s))"
    by (simp add: cm_update_def)
  with ok cm_ok_remove [OF ok this] show ?thesis
    by (simp add: cm_part_def Let_def)
qed

text \<open>A request on a channel by name never meets a deleted channel.\<close>

lemma with_channel_ok:
  assumes "cm_ok m" "\<And>cp c. heap m cp = Some c \<Longrightarrow> cm_ok (fst (f cp c))"
  shows "\<exists>r. with_channel env m name plr f = Some r \<and> cm_ok (fst r)"
proof (cases "cm_get_channel m name (pl_team (env plr))")
  case (Some cp)
  from get_channel_live [OF assms(1) Some] obtain c where "heap m cp = Some c" .
  with Some assms(2) show ?thesis by (simp add: with_channel_def)
qed (use assms(1) in \<open>simp add: with_channel_def\<close>)

lemma with_op_ok: "cm_ok m \<Longrightarrow> stays op \<Longrightarrow> \<exists>r. with_op env m name plr op = Some r \<and> cm_ok (fst r)"
  unfolding with_op_def by (rule with_channel_ok) (auto intro: cm_ok_stay)

lemma with_target_ok:
  assumes "cm_ok m" "\<And>q. \<exists>r. f q = Some r \<and> cm_ok (fst r)"
  shows "\<exists>r. with_target t m f = Some r \<and> cm_ok (fst r)"
  using assms by (cases t) (auto simp: with_target_def)

lemma cm_ok_handle:
  assumes "cm_ok m" "idHigh m \<noteq> - 1"
  shows "\<exists>r. cm_handle conf env om m plr pkt = Some r \<and> cm_ok (fst r)"
proof (cases pkt)
  case (CP_Join tid crap name pass)
  obtain m1 r1 where g: "cm_get_create conf env m name plr tid = (m1, r1)" by (cases "cm_get_create conf env m name plr tid")
  from cm_ok_get_create [OF assms g] have "cm_ok m1"
    and live: "\<And>cp. r1 = Some cp \<Longrightarrow> \<exists>c. heap m1 cp = Some c" by auto
  show ?thesis
  proof (cases r1)
    case None
    with CP_Join g \<open>cm_ok m1\<close> assms(1) show ?thesis by (simp add: HandleChannelJoin_def)
  next
    case (Some cp)
    with live obtain c where "heap m1 cp = Some c" by auto
    with CP_Join g Some assms(1) cm_ok_join [OF \<open>cm_ok m1\<close> this] show ?thesis
      by (simp add: Let_def HandleChannelJoin_def)
  qed
next
  case (CP_Leave code name)
  have "\<exists>r. with_channel env m name plr (\<lambda>cp c. cm_part env m cp c plr False) = Some r \<and> cm_ok (fst r)"
    by (rule with_channel_ok [OF assms(1)]) (rule cm_ok_part [OF assms(1)])
  then show ?thesis by (simp add: CP_Leave HandleChannelLeave_def)
qed (simp_all only: chan_handlers, (rule with_target_ok [OF assms(1)] with_op_ok [OF assms(1)]
    with_channel_ok [OF assms(1)] | simp add: assms(1))+)

lemma cm_ok_cleanup_loop:
  "cm_ok m \<Longrightarrow> \<exists>m'. cm_cleanup_loop env plr cids m = Some m' \<and> cm_ok m'"
proof (induction cids arbitrary: m)
  case (Cons cid cids)
  show ?case
  proof (cases "cm_get_channel_id m cid")
    case None
    with Cons show ?thesis by simp
  next
    case (Some cp)
    with cm_okD(2) [OF Cons.prems, of cid cp] obtain c where c: "heap m cp = Some c"
      by (auto simp: cm_get_channel_id_def)
    with Some Cons.IH [OF cm_ok_part [OF Cons.prems c]] show ?thesis by simp
  qed
qed simp

lemma cm_reach_ok: "cm_reach conf env om m \<Longrightarrow> cm_ok m"
proof (induction rule: cm_reach.induct)
  case (cm_packet m plr pkt m' out)
  with cm_ok_handle [of m conf env om plr pkt] show ?case by simp
next
  case (cm_logout m plr m')
  with cm_ok_cleanup_loop [of m env plr "pl_channels m plr"] show ?case by (simp add: cm_cleanup_def)
qed (simp add: cm_ok_new)

text \<open>
  C10. No dangling channel pointers: in every state the handlers and logouts can reach, a further
  packet of any player, and the logout clean-up of any player, run to their end without touching
  a deleted channel, although \<open>Part\<close> deletes emptied channels.
\<close>

theorem cm_no_dangling:
  assumes "cm_reach conf env om m" "idHigh m \<noteq> - 1"
  shows "cm_handle conf env om m plr pkt \<noteq> None \<and> cm_cleanup env m plr \<noteq> None"
  using cm_ok_handle [OF cm_reach_ok [OF assms(1)] assms(2), of conf env om plr pkt]
    cm_ok_cleanup_loop [OF cm_reach_ok [OF assms(1)], of env plr "pl_channels m plr"]
  by (auto simp: cm_cleanup_def)

text \<open>
  C21. One channel per name: in a reachable manager two channels of the same list whose names
  differ at most in case are the same channel, so a look-up by name finds the channel whatever
  case the player types it in.
\<close>

theorem cm_names_unique:
  assumes "cm_reach conf env om m" "heap m cp = Some c" "heap m cp' = Some c'"
    "list_index m (m_team c) = list_index m (m_team c')" "stricmp_eq (m_name c) (m_name c')"
  shows "cp = cp' \<and> c = c' \<and> (\<forall>name. stricmp_eq name (m_name c) \<longrightarrow> cm_get_channel m name (m_team c) = Some cp)"
proof -
  have ok: "cm_ok m" by (rule cm_reach_ok [OF assms(1)])
  let ?l = "lists m (list_index m (m_team c))"
  have inj: "inj_on (\<lambda>e. map to_lower (fst e)) (set ?l)"
    using cm_okD(6) [OF ok] by (simp add: folded_names_def distinct_map)
  have e: "(m_name c, cp) \<in> set ?l" "(m_name c', cp') \<in> set ?l"
    using cm_okD(3) [OF ok assms(2)] cm_okD(3) [OF ok assms(3)] assms(4) by (simp_all add: live_ok_def)
  have same: "cp' = cp''" if "(n, cp'') \<in> set ?l" "stricmp_eq n (m_name c')" for n cp''
    using inj_onD [OF inj _ e(2) that(1)] that(2) by (auto simp: stricmp_eq_def)
  have cp: "cp = cp'" using same [OF e(1) assms(5)] by simp
  have "cm_get_channel m name (m_team c) = Some cp" if "stricmp_eq name (m_name c)" for name
  proof (cases "find_by_name name ?l")
    case None
    with e(1) that show ?thesis by (force simp: find_by_name_None folded_names_def stricmp_eq_def image_iff)
  next
    case (Some cp'')
    then obtain n where "(n, cp'') \<in> set ?l" "stricmp_eq name n" using find_by_name_Some by metis
    with same [of n cp''] that assms(5) cp Some show ?thesis
      by (auto simp: cm_get_channel_def stricmp_eq_def)
  qed
  with cp assms(2,3) show ?thesis by simp
qed

text \<open>A player joins "Trade" and asks for "TRADE".\<close>

definition demo_conf :: chan_conf where
  "demo_conf = \<lparr> dbc_channels = (\<lambda>_. None), banned_names = [], gm_client_channel = [], lfg_for_non_lfg = True \<rparr>"

definition demo_om :: chan_objmgr where
  "demo_om = \<lparr> GetPlayer = (\<lambda>_. None), GetPlayerInfoByName = (\<lambda>_. None) \<rparr>"

definition demo_mgr :: chan_mgr where
  "demo_mgr = fst (the (cm_handle demo_conf demo_env demo_om (cm_new True) 5 (CP_Join 0 0 ''Duel'' [])))"

lemma demo_mgr_reach: "cm_reach demo_conf demo_env demo_om demo_mgr"
proof -
  obtain r where r: "cm_handle demo_conf demo_env demo_om (cm_new True) 5 (CP_Join 0 0 ''Duel'' []) = Some r"
    using cm_ok_handle [OF cm_ok_new, of True demo_conf demo_env demo_om 5 "CP_Join 0 0 ''Duel'' []"]
    by (auto simp: cm_new_def)
  then have "cm_handle demo_conf demo_env demo_om (cm_new True) 5 (CP_Join 0 0 ''Duel'' []) = Some (demo_mgr, snd r)"
    by (simp add: demo_mgr_def)
  then show ?thesis
    by (rule cm_packet [OF cm_start, rotated]) (simp add: cm_new_def)
qed

lemma demo_mgr_heap:
  "\<exists>c. heap demo_mgr 0 = Some c \<and> m_name c = ''Duel'' \<and> m_team c = 0 \<and> m_members c = [(5, 1)]"
  by (simp add: chan_handlers demo_mgr_def cm_new_def join_allowed_def demo_conf_def cm_get_create_def name_banned_def
      list_index_def cm_update_def Let_def ch_new_def ch_attempt_join_def demo_env_def stricmp_eq_def
      to_lower_def apply_events_def chan_out_defs ch_youjoined_def chan_flags flag_set_def)

theorem cm_names_unique_witness: "cm_get_channel demo_mgr ''DUEL'' 0 = Some 0"
proof -
  obtain c where c: "heap demo_mgr 0 = Some c" "m_name c = ''Duel''" "m_team c = 0"
    using demo_mgr_heap by auto
  have "stricmp_eq ''DUEL'' ''Duel''" by code_simp
  with cm_names_unique [OF demo_mgr_reach c(1) c(1)] c show ?thesis by simp
qed

section \<open>Logging out\<close>

lemma heap_apply_events [simp]: "heap (apply_events evs k) = heap k"
proof (induction evs arbitrary: k)
  case (Cons e evs)
  then show ?case by (cases e) auto
qed simp

lemma heap_cm_part:
  "heap (fst (cm_part env m cp c p s)) cp' =
    (if cp' \<noteq> cp then heap m cp'
     else if heap (fst (cm_part env m cp c p s)) cp = None then None else Some (fst (ch_part env c p s)))"
  by (auto simp: cm_part_def cm_update_def cm_remove_channel_def Let_def)

lemma part_leaves: "chan_ok c \<Longrightarrow> p \<notin> fst ` set (m_members (fst (ch_part env c p s)))"
  using keys_take_out' [of c env p]
  by (auto simp: ch_part_state map_of_eq_None_keys split: option.split)

lemma cleanup_loop_leaves:
  assumes "cm_ok m" "cm_cleanup_loop env p cids m = Some m'"
    "\<And>cp c. heap m cp = Some c \<Longrightarrow> p \<in> fst ` set (m_members c) \<Longrightarrow> m_channelId c \<in> set cids"
  shows "\<forall>cp c. heap m' cp = Some c \<longrightarrow> p \<notin> fst ` set (m_members c)"
  using assms
proof (induction cids arbitrary: m)
  case (Cons cid cids)
  show ?case
  proof (cases "map_of (idToChannel m) cid")
    case None
    have "m_channelId c \<in> set cids" if "heap m cp = Some c" "p \<in> fst ` set (m_members c)" for cp c
      using Cons.prems(3) [OF that] cm_okD(3) [OF Cons.prems(1) that(1)] None
      by (auto simp: live_ok_def)
    with Cons.IH [OF Cons.prems(1)] Cons.prems(2) None show ?thesis
      by (simp add: cm_get_channel_id_def)
  next
    case (Some cp)
    with cm_okD(2) [OF Cons.prems(1)] obtain c where c: "heap m cp = Some c" "m_channelId c = cid" by blast
    let ?m = "fst (cm_part env m cp c p False)"
    have ok: "chan_ok c" using cm_okD(3) [OF Cons.prems(1) c(1)] by (simp add: live_ok_def)
    have "m_channelId d \<in> set cids" if d: "heap ?m cp' = Some d" "p \<in> fst ` set (m_members d)" for cp' d
    proof (cases "cp' = cp")
      case True
      with d(1) heap_cm_part [of env m cp c p False cp'] have "d = fst (ch_part env c p False)"
        by (simp split: if_splits)
      with part_leaves [OF ok] d(2) show ?thesis by blast
    next
      case False
      with d(1) heap_cm_part [of env m cp c p False cp'] have "heap m cp' = Some d" by simp
      with Cons.prems(3) [OF this d(2)] cm_okD(3) [OF Cons.prems(1) this] Some c False show ?thesis
        by (auto simp: live_ok_def)
    qed
    with Cons.IH [OF cm_ok_part [OF Cons.prems(1) c(1)]] Cons.prems(2) Some c show ?thesis
      by (simp add: cm_get_channel_id_def)
  qed
qed auto

text \<open>
  Logging out leaves no trace: after \<open>CleanupChannels\<close> in a reachable state, the player is a
  member of no channel - its set \<open>m_channels\<close> always covers its memberships.
\<close>

theorem cm_logout_leaves_all:
  assumes "cm_reach conf env om m" "cm_cleanup env m p = Some m'" "heap m' cp = Some c"
  shows "map_of (m_members c) p = None"
proof -
  have ok: "cm_ok m" by (rule cm_reach_ok [OF assms(1)])
  have "m_channelId d \<in> set (pl_channels m p)" if "heap m cp' = Some d" "p \<in> fst ` set (m_members d)" for cp' d
    using cm_okD(3) [OF ok that(1)] that(2) by (auto simp: live_ok_def)
  from cleanup_loop_leaves [OF ok assms(2) [unfolded cm_cleanup_def] this] assms(3) show ?thesis
    by (simp add: map_of_eq_None_keys)
qed

text \<open>A second player joins, then the first one, the owner, logs out.\<close>

definition demo_two_mgr :: chan_mgr where
  "demo_two_mgr = fst (the (cm_handle demo_conf demo_env demo_om demo_mgr 6 (CP_Join 0 0 ''Duel'' [])))"

definition demo_two_out :: chan_mgr where
  "demo_two_out = the (cm_cleanup demo_env demo_two_mgr 5)"

lemmas demo_defs = chan_handlers demo_mgr_def cm_new_def join_allowed_def demo_conf_def cm_get_create_def name_banned_def
  list_index_def cm_update_def ch_new_def ch_attempt_join_def demo_env_def stricmp_eq_def
  to_lower_def apply_events_def chan_out_defs ch_youjoined_def chan_flags flag_set_def

lemma demo_two_heap: "\<exists>c. heap demo_two_mgr 0 = Some c \<and> m_members c = [(5, 1), (6, 0)] \<and>
    idHigh demo_mgr = 1"
  by (simp add: demo_two_mgr_def demo_defs Let_def)

theorem cm_no_dangling_witness:
  "heap demo_mgr 0 \<noteq> None \<and> cm_handle demo_conf demo_env demo_om demo_mgr 5 (CP_Leave 0 ''duel'') \<noteq> None \<and>
   cm_cleanup demo_env demo_mgr 5 \<noteq> None"
  using cm_no_dangling [OF demo_mgr_reach, of 5 "CP_Leave 0 ''duel''"] demo_mgr_heap demo_two_heap
  by (auto simp del: cm_handle.simps)

lemma demo_two_reach: "cm_reach demo_conf demo_env demo_om demo_two_mgr"
proof -
  have "idHigh demo_mgr \<noteq> - 1" using demo_two_heap by auto
  moreover from cm_ok_handle [OF cm_reach_ok [OF demo_mgr_reach] this] obtain r where
    "cm_handle demo_conf demo_env demo_om demo_mgr 6 (CP_Join 0 0 ''Duel'' []) = Some r" by blast
  ultimately show ?thesis
    unfolding demo_two_mgr_def
    by (cases r) (simp del: cm_handle.simps add: cm_packet [OF demo_mgr_reach])
qed

lemma demo_two_out:
  "cm_cleanup demo_env demo_two_mgr 5 = Some demo_two_out"
  "\<exists>c. heap demo_two_out 0 = Some c \<and> owners (m_members c) = [6]"
proof -
  obtain m' where "cm_cleanup demo_env demo_two_mgr 5 = Some m'"
    using cm_ok_cleanup_loop [OF cm_reach_ok [OF demo_two_reach]] unfolding cm_cleanup_def by blast
  then show "cm_cleanup demo_env demo_two_mgr 5 = Some demo_two_out"
    by (simp add: demo_two_out_def)
  show "\<exists>c. heap demo_two_out 0 = Some c \<and> owners (m_members c) = [6]"
    by (simp add: demo_two_out_def demo_two_mgr_def demo_defs cm_cleanup_def cm_get_channel_id_def
        cm_part_def ch_part_def ch_set_owner_def so_transfer_def map_erase_def has_flag_def flag_clear_def
        insort_insert_key_def set_erase_def Let_def)
qed

theorem cm_logout_leaves_all_witness:
  "\<exists>c. heap demo_two_out 0 = Some c \<and> owners (m_members c) = [6] \<and> map_of (m_members c) 5 = None"
  using demo_two_out(2) cm_logout_leaves_all [OF demo_two_reach demo_two_out(1)] by blast

end
