(* ===== verification/HS_Group.thy ===== *)
theory HS_Group
  imports HS_Prelude
begin

text \<open>
  Parties and raids: \<open>hearthstone-world/Group.cpp\<close> and \<open>Group.h\<close>, built without
  \<open>VOICE_CHAT\<close>.

  The state is a world of player infos (\<open>PlayerInfo\<close>, by address) and live groups (by
  address); a use of a deleted group, of a null or missing subgroup, or of a slot outside
  \<open>m_SubGroups[8]\<close> is \<^term>\<open>None\<close>. Packets and calls of other managers are the events of
  \<open>g_out\<close>, in order. The group lock is recursive and held by every operation.
\<close>

section \<open>State\<close>

type_synonym infoptr = nat
type_synonym gptr = nat

record player_info =
  pi_guid :: u32
  pi_name :: string
  pi_online :: bool
  pi_inworld :: bool
  pi_instance :: bool
  pi_subGroup :: int
  pi_group :: "gptr option"

record group_rec =
  m_Leader :: "infoptr option"
  m_Looter :: "infoptr option"
  m_assistantLeader :: "infoptr option"
  m_mainTank :: "infoptr option"
  m_mainAssist :: "infoptr option"
  m_LootMethod :: u8
  m_LootThreshold :: u16
  m_GroupType :: u8
  m_Id :: u32
  m_SubGroups :: "infoptr list option list"
  m_SubGroupCount :: nat
  m_MemberCount :: u32
  m_dirty :: bool
  m_updateblock :: bool
  m_difficulty :: u8
  m_groupFlags :: u8
  m_isqueued :: bool

datatype group_event =
    G_Send infoptr packet
  | G_SendDelayed infoptr packet
  | G_Schedule_FullUpdate infoptr
  | G_RemoveFromQueues gptr
  | G_PlayerLeftGroup gptr infoptr
  | G_OnGroupDestruction gptr
  | G_DropPartyAuras infoptr
  | G_DB_Replace "u32 list"
  | G_DB_Delete u32

record gworld =
  g_infos :: "infoptr \<Rightarrow> player_info"
  g_groups :: "gptr \<Rightarrow> group_rec option"
  g_nextId :: u32
  g_nextPtr :: gptr
  g_time :: u32
  g_out :: "group_event list"

definition GROUP_TYPE_PARTY :: u8 where "GROUP_TYPE_PARTY = 0"
definition GROUP_TYPE_RAID :: u8 where "GROUP_TYPE_RAID = 1"
definition MAX_GROUP_SIZE_PARTY :: nat where "MAX_GROUP_SIZE_PARTY = 5"
definition MAX_GROUP_SIZE_RAID :: nat where "MAX_GROUP_SIZE_RAID = 40"
definition GROUP_FLAG_DONT_DISBAND_WITH_NO_MEMBERS :: u8 where "GROUP_FLAG_DONT_DISBAND_WITH_NO_MEMBERS = 1"
definition GROUP_FLAG_REMOVE_OFFLINE_PLAYERS :: u8 where "GROUP_FLAG_REMOVE_OFFLINE_PLAYERS = 2"

lemmas group_consts = GROUP_TYPE_PARTY_def GROUP_TYPE_RAID_def MAX_GROUP_SIZE_PARTY_def MAX_GROUP_SIZE_RAID_def
  GROUP_FLAG_DONT_DISBAND_WITH_NO_MEMBERS_def GROUP_FLAG_REMOVE_OFFLINE_PLAYERS_def

definition put_group :: "gworld \<Rightarrow> gptr \<Rightarrow> group_rec \<Rightarrow> gworld" where
  "put_group w gp g = w\<lparr> g_groups := (g_groups w)(gp \<mapsto> g) \<rparr>"

definition put_info :: "gworld \<Rightarrow> infoptr \<Rightarrow> player_info \<Rightarrow> gworld" where
  "put_info w p i = w\<lparr> g_infos := (g_infos w)(p := i) \<rparr>"

definition emit :: "group_event list \<Rightarrow> gworld \<Rightarrow> gworld" where
  "emit evs w = w\<lparr> g_out := g_out w @ evs \<rparr>"

definition leave_info :: "gworld \<Rightarrow> infoptr \<Rightarrow> gworld" where
  "leave_info w p = put_info w p ((g_infos w p)\<lparr> pi_group := None, pi_subGroup := -1 \<rparr>)"

text \<open>A checked use of \<open>m_SubGroups[i]\<close>: the outer option is undefined behaviour, the inner a null pointer.\<close>

definition sg_slot :: "group_rec \<Rightarrow> nat \<Rightarrow> infoptr list option option" where
  "sg_slot g ix = (if ix < length (m_SubGroups g) then Some (m_SubGroups g ! ix) else None)"

definition sg_deref :: "group_rec \<Rightarrow> nat \<Rightarrow> infoptr list option" where
  "sg_deref g ix = do { sg \<leftarrow> sg_slot g ix; sg }"

text \<open>The slots a loop \<open>for(i = 0; i < m_SubGroupCount; i++)\<close> visits.\<close>

definition sg_slots :: "group_rec \<Rightarrow> infoptr list option list option" where
  "sg_slots g = (if m_SubGroupCount g \<le> length (m_SubGroups g)
     then Some (take (m_SubGroupCount g) (m_SubGroups g)) else None)"

definition slot_members :: "infoptr list option list \<Rightarrow> infoptr list" where
  "slot_members ss = concat (map (case_option [] id) ss)"

definition sg_is_full :: "infoptr list \<Rightarrow> bool" where
  "sg_is_full sg \<longleftrightarrow> MAX_GROUP_SIZE_PARTY \<le> length sg"

definition g_is_full :: "group_rec \<Rightarrow> bool" where
  "g_is_full g \<longleftrightarrow> (m_GroupType g = GROUP_TYPE_PARTY \<and> MAX_GROUP_SIZE_PARTY \<le> unat (m_MemberCount g)) \<or>
     (m_GroupType g = GROUP_TYPE_RAID \<and> MAX_GROUP_SIZE_RAID \<le> unat (m_MemberCount g))"

section \<open>Construction and subgroups\<close>

definition g_init :: "u32 \<Rightarrow> group_rec" where
  "g_init gid = \<lparr> m_Leader = None, m_Looter = None, m_assistantLeader = None, m_mainTank = None,
     m_mainAssist = None, m_LootMethod = 3, m_LootThreshold = 2, m_GroupType = GROUP_TYPE_PARTY, m_Id = gid,
     m_SubGroups = Some [] # replicate 7 None, m_SubGroupCount = 1, m_MemberCount = 0, m_dirty = False,
     m_updateblock = False, m_difficulty = 0, m_groupFlags = 0, m_isqueued = False \<rparr>"

text \<open>\<open>new Group(true)\<close>: the object manager hands out the next group id and records the group.\<close>

definition g_create :: "gworld \<Rightarrow> gworld \<times> gptr" where
  "g_create w = (w\<lparr> g_groups := (g_groups w)(g_nextPtr w \<mapsto> g_init (g_nextId w)),
     g_nextId := g_nextId w + 1, g_nextPtr := g_nextPtr w + 1 \<rparr>, g_nextPtr w)"

definition sg_remove_player :: "gworld \<Rightarrow> gptr \<Rightarrow> nat \<Rightarrow> infoptr \<Rightarrow> gworld option" where
  "sg_remove_player w gp ix p = do {
     g \<leftarrow> g_groups w gp;
     sg \<leftarrow> sg_deref g ix;
     Some (put_info (put_group w gp (g\<lparr> m_SubGroups := (m_SubGroups g)[ix := Some (set_erase p sg)] \<rparr>)) p
       ((g_infos w p)\<lparr> pi_subGroup := -1 \<rparr>)) }"

definition sg_add_player :: "gworld \<Rightarrow> gptr \<Rightarrow> nat \<Rightarrow> infoptr \<Rightarrow> (gworld \<times> bool) option" where
  "sg_add_player w gp ix p = do {
     g \<leftarrow> g_groups w gp;
     sg \<leftarrow> sg_deref g ix;
     if sg_is_full sg then Some (w, False)
     else Some (put_info (put_group w gp (g\<lparr> m_SubGroups := (m_SubGroups g)[ix := Some (insort_insert p sg)] \<rparr>)) p
       ((g_infos w p)\<lparr> pi_subGroup := int ix \<rparr>), True) }"

definition sg_has_member :: "gworld \<Rightarrow> infoptr list \<Rightarrow> u32 \<Rightarrow> bool" where
  "sg_has_member w sg guid \<longleftrightarrow> (\<exists>p \<in> set sg. pi_guid (g_infos w p) = guid)"

fun free_slot :: "infoptr list option list \<Rightarrow> nat \<Rightarrow> nat option option" where
  "free_slot [] ix = Some None"
| "free_slot (None # ss) ix = None"
| "free_slot (Some sg # ss) ix = (if \<not> sg_is_full sg then Some (Some ix) else free_slot ss (Suc ix))"

definition g_find_free :: "group_rec \<Rightarrow> nat option option" where
  "g_find_free g = do { ss \<leftarrow> sg_slots g; free_slot ss 0 }"

definition g_find_first :: "gworld \<Rightarrow> group_rec \<Rightarrow> infoptr option option" where
  "g_find_first w g = do { ss \<leftarrow> sg_slots g; Some (find (\<lambda>p. pi_online (g_infos w p)) (slot_members ss)) }"

section \<open>Packets to the members\<close>

definition g_send_all :: "gworld \<Rightarrow> gptr \<Rightarrow> packet \<Rightarrow> infoptr option \<Rightarrow> gworld option" where
  "g_send_all w gp pkt skip = do {
     g \<leftarrow> g_groups w gp;
     ss \<leftarrow> sg_slots g;
     if None \<in> set ss then None
     else Some (emit (map (\<lambda>p. G_Send p pkt)
       (filter (\<lambda>p. pi_online (g_infos w p) \<and> Some p \<noteq> skip) (slot_members ss))) w) }"

definition null_update :: packet where
  "null_update = (''SMSG_GROUP_LIST'', replicate 24 (U8 0))"

definition member_flags :: "group_rec \<Rightarrow> infoptr \<Rightarrow> u8" where
  "member_flags g p =
    (let f1 = (if m_assistantLeader g = Some p then flag_set 0 1 else 0 :: u8);
         f2 = (if m_mainTank g = Some p then flag_set f1 2 else f1)
     in if m_mainAssist g = Some p then flag_set f2 4 else f2)"

definition guid_or_zero :: "gworld \<Rightarrow> infoptr option \<Rightarrow> pfield list" where
  "guid_or_zero w q = (case q of Some p \<Rightarrow> [U32 (pi_guid (g_infos w p)), U32 0] | None \<Rightarrow> [U64 0])"

definition list_entry :: "gworld \<Rightarrow> group_rec \<Rightarrow> nat \<Rightarrow> infoptr \<Rightarrow> pfield list" where
  "list_entry w g j q = [Str (pi_name (g_infos w q)), U32 (pi_guid (g_infos w q)), U32 0,
     U8 (if pi_online (g_infos w q) then 1 else 0), U8 (of_nat j), U8 (member_flags g q)]"

text \<open>The group list sent to the member \<open>p\<close> of subgroup \<open>ix\<close>.\<close>

definition group_list :: "gworld \<Rightarrow> group_rec \<Rightarrow> infoptr list option list \<Rightarrow> nat \<Rightarrow> infoptr \<Rightarrow> packet" where
  "group_list w g ss ix p = (''SMSG_GROUP_LIST'',
     [U8 (m_GroupType g), U8 0, U8 (of_nat ix), U8 0, U64 0x500000000004BC0C, U32 (m_MemberCount g - 1)] @
     concat (map (\<lambda>(j, sg). concat (map (list_entry w g j) (filter (\<lambda>q. q \<noteq> p) (case_option [] id sg))))
       (enumerate 0 ss)) @
     guid_or_zero w (m_Leader g) @ [U8 (m_LootMethod g)] @ guid_or_zero w (m_Looter g) @
     [U8 (ucast (m_LootThreshold g)), U8 (m_difficulty g)])"

definition list_events :: "gworld \<Rightarrow> group_rec \<Rightarrow> infoptr list option list \<Rightarrow> group_event list" where
  "list_events w g ss =
     concat (map (\<lambda>(ix, sg). map (\<lambda>p. (if pi_inworld (g_infos w p) then G_Send else G_SendDelayed) p (group_list w g ss ix p))
        (filter (\<lambda>p. pi_online (g_infos w p)) (case_option [] id sg))) (enumerate 0 ss))"

section \<open>The database\<close>

definition opt_guid :: "gworld \<Rightarrow> infoptr option \<Rightarrow> u32" where
  "opt_guid w q = (case q of Some p \<Rightarrow> pi_guid (g_infos w p) | None \<Rightarrow> 0)"

definition sg_row :: "gworld \<Rightarrow> infoptr list option \<Rightarrow> u32 list" where
  "sg_row w sg = (let gs = map (\<lambda>p. pi_guid (g_infos w p)) (take 5 (case_option [] id sg))
     in gs @ replicate (5 - length gs) 0)"

text \<open>The row of \<open>REPLACE INTO groups VALUES(...)\<close>; \<open>now\<close> is \<open>UNIXTIME\<close>.\<close>

definition g_save_row :: "gworld \<Rightarrow> group_rec \<Rightarrow> u32 \<Rightarrow> u32 list option" where
  "g_save_row w g now = do {
     ss \<leftarrow> sg_slots g;
     Some ([m_Id g, ucast (m_GroupType g), of_nat (m_SubGroupCount g), ucast (m_LootMethod g),
            ucast (m_LootThreshold g), ucast (m_difficulty g), opt_guid w (m_assistantLeader g),
            opt_guid w (m_mainTank g), opt_guid w (m_mainAssist g)] @
           concat (map (sg_row w) ss) @ replicate (5 * (8 - m_SubGroupCount g)) 0 @ [now]) }"

definition g_save :: "gworld \<Rightarrow> group_rec \<Rightarrow> gworld option" where
  "g_save w g =
    (if has_flag (m_groupFlags g) GROUP_FLAG_DONT_DISBAND_WITH_NO_MEMBERS then Some w
     else do { row \<leftarrow> g_save_row w g (g_time w); Some (emit [G_DB_Replace row] w) })"

section \<open>Disbanding\<close>

text \<open>\<open>SubGroup::Disband\<close>: the members leave one by one, then the slot is cleared.\<close>

definition party_result :: packet where
  "party_result = (''SMSG_PARTY_COMMAND_RESULT'', [U32 2, U8 0, U32 0])"

fun sg_disband_loop :: "gworld \<Rightarrow> gptr \<Rightarrow> infoptr list \<Rightarrow> gworld option" where
  "sg_disband_loop w gp [] = Some w"
| "sg_disband_loop w gp (p # ps) = do {
     let w1 = (if pi_online (g_infos w p)
        then emit ([G_Send p (''SMSG_GROUP_DESTROYED'', []), G_Send p party_result] @
          (case pi_group (g_infos w p) of
             Some gq \<Rightarrow> if pi_instance (g_infos w p) then [G_PlayerLeftGroup gq p] else []
           | None \<Rightarrow> []) @ [G_Send p null_update]) w
        else w);
     let w2 = leave_info w1 p;
     g \<leftarrow> g_groups w2 gp;
     sg_disband_loop (put_group w2 gp (g\<lparr> m_MemberCount := m_MemberCount g - 1 \<rparr>)) gp ps }"

definition sg_disband :: "gworld \<Rightarrow> gptr \<Rightarrow> nat \<Rightarrow> gworld option" where
  "sg_disband w gp ix = do {
     g \<leftarrow> g_groups w gp;
     sg \<leftarrow> sg_deref g ix;
     w1 \<leftarrow> sg_disband_loop w gp sg;
     g1 \<leftarrow> g_groups w1 gp;
     Some (put_group w1 gp (g1\<lparr> m_SubGroups := (m_SubGroups g1)[ix := None] \<rparr>)) }"

fun sg_disband_all :: "gworld \<Rightarrow> gptr \<Rightarrow> nat list \<Rightarrow> gworld option" where
  "sg_disband_all w gp [] = Some w"
| "sg_disband_all w gp (ix # ixs) = do { w1 \<leftarrow> sg_disband w gp ix; sg_disband_all w1 gp ixs }"

definition g_queue_message :: packet where
  "g_queue_message = (''SMSG_MESSAGECHAT'',
     (let msg = ''A change was made to your group. Removing the arena queue.''
      in [U8 0, U32 0, U64 0, U32 0, U64 0, U32 (of_nat (length msg + 1)), Str msg, U8 0]))"

definition g_leave_queue_loud :: "gworld \<Rightarrow> gptr \<Rightarrow> gworld option" where
  "g_leave_queue_loud w gp = do {
     g \<leftarrow> g_groups w gp;
     if \<not> m_isqueued g then Some w
     else do {
       w1 \<leftarrow> g_send_all (put_group w gp (g\<lparr> m_isqueued := False \<rparr>)) gp g_queue_message None;
       Some (emit [G_RemoveFromQueues gp] w1) } }"

definition g_disband :: "gworld \<Rightarrow> gptr \<Rightarrow> gworld option" where
  "g_disband w gp = do {
     g \<leftarrow> g_groups w gp;
     w1 \<leftarrow> g_leave_queue_loud (put_group w gp (g\<lparr> m_updateblock := True \<rparr>)) gp;
     w2 \<leftarrow> sg_disband_all w1 gp [0..<m_SubGroupCount g];
     Some ((emit [G_DB_Delete (m_Id g), G_OnGroupDestruction gp] w2)
       \<lparr> g_groups := (g_groups w2)(gp := None) \<rparr>) }"

section \<open>Removing a member\<close>

text \<open>
  The subgroup a member is taken out of: the slot \<open>info->subGroup\<close> names (from \<open>lo\<close> on;
  \<open>RemovePlayer\<close> starts at 0, \<open>MovePlayer\<close> at 1, and both let 8 through), and if the member is
  not in it the first one of the others that has it. A slot that does not hold the member stays
  chosen when the search finds none.
\<close>

definition sg_search :: "infoptr list option list \<Rightarrow> infoptr \<Rightarrow> nat option" where
  "sg_search ss p = find (\<lambda>i. case ss ! i of Some sg \<Rightarrow> p \<in> set sg | None \<Rightarrow> False) [0..<length ss]"

definition g_locate :: "int \<Rightarrow> group_rec \<Rightarrow> infoptr \<Rightarrow> int \<Rightarrow> nat option option" where
  "g_locate lo g p ix = do {
     sg \<leftarrow> (if lo \<le> ix \<and> ix \<le> 8 then sg_slot g (nat ix) else Some None);
     let first = (if sg \<noteq> None then Some (nat ix) else None);
     if sg = None \<or> p \<notin> set (the sg) then do {
       ss \<leftarrow> sg_slots g;
       Some (case sg_search ss p of Some i \<Rightarrow> Some i | None \<Rightarrow> first) }
     else Some first }"

text \<open>
  \<open>RemovePlayer\<close>, over the \<open>Update\<close> it ends with: while \<open>m_updateblock\<close> is set that call
  returns at once, which is how the nested call inside \<open>Update\<close> stops.
\<close>

definition g_set_leader_with :: "(gworld \<Rightarrow> gptr \<Rightarrow> gworld option) \<Rightarrow> gworld \<Rightarrow> gptr \<Rightarrow> infoptr option \<Rightarrow> bool \<Rightarrow> gworld option" where
  "g_set_leader_with upd w gp plr silent = do {
     w1 \<leftarrow> (case plr of
        None \<Rightarrow> Some w
      | Some p \<Rightarrow> do {
          g \<leftarrow> g_groups w gp;
          let w1 = put_group w gp (g\<lparr> m_Leader := Some p, m_dirty := True \<rparr>);
          if silent then Some w1
          else g_send_all w1 gp (''SMSG_GROUP_SET_LEADER'', [Str (pi_name (g_infos w p))]) None });
     upd w1 gp }"

definition rp_farewell :: "gworld \<Rightarrow> infoptr \<Rightarrow> gworld" where
  "rp_farewell w p =
    (if pi_online (g_infos w p)
     then emit [G_Send p null_update, G_Send p (''SMSG_GROUP_DESTROYED'', []), G_Send p party_result, G_DropPartyAuras p] w
     else w)"

definition rp_succession :: "(gworld \<Rightarrow> gptr \<Rightarrow> gworld option) \<Rightarrow> gworld \<Rightarrow> gptr \<Rightarrow> infoptr \<Rightarrow> gworld option" where
  "rp_succession upd w gp p = do {
     g \<leftarrow> g_groups w gp;
     first \<leftarrow> g_find_first w g;
     let w1 = (if m_Looter g = Some p then put_group w gp (g\<lparr> m_Looter := first \<rparr>) else w);
     w2 \<leftarrow> (if m_Leader g = Some p then
         (if first \<noteq> None then g_set_leader_with upd w1 gp first False
          else do { g1 \<leftarrow> g_groups w1 gp; Some (put_group w1 gp (g1\<lparr> m_Leader := None \<rparr>)) })
       else Some w1);
     upd w2 gp }"

definition g_remove_player_with :: "(gworld \<Rightarrow> gptr \<Rightarrow> gworld option) \<Rightarrow> gworld \<Rightarrow> gptr \<Rightarrow> infoptr \<Rightarrow> gworld option" where
  "g_remove_player_with upd w gp p = do {
     g \<leftarrow> g_groups w gp;
     let w1 = (if pi_online (g_infos w p) then emit [G_PlayerLeftGroup gp p] w else w);
     let w2 = (if m_isqueued g then emit [G_RemoveFromQueues gp] (put_group w1 gp (g\<lparr> m_isqueued := False \<rparr>)) else w1);
     g2 \<leftarrow> g_groups w2 gp;
     at \<leftarrow> g_locate 0 g2 p (pi_subGroup (g_infos w p));
     let w3 = leave_info w2 p;
     (case at of
        None \<Rightarrow> Some w3
      | Some ix \<Rightarrow> do {
          w4 \<leftarrow> sg_remove_player w3 gp ix p;
          g4 \<leftarrow> g_groups w4 gp;
          let w5 = rp_farewell (put_group w4 gp (g4\<lparr> m_dirty := True, m_MemberCount := m_MemberCount g4 - 1 \<rparr>)) p;
          if m_MemberCount g4 - 1 < 2 \<and> \<not> has_flag (m_groupFlags g4) GROUP_FLAG_DONT_DISBAND_WITH_NO_MEMBERS
          then g_disband w5 gp
          else rp_succession upd w5 gp p }) }"

section \<open>Update\<close>

definition upd_blocked :: "gworld \<Rightarrow> gptr \<Rightarrow> gworld option" where
  "upd_blocked w gp = do { g \<leftarrow> g_groups w gp; Some w }"

fun remove_offline_members :: "gworld \<Rightarrow> gptr \<Rightarrow> infoptr list \<Rightarrow> gworld option" where
  "remove_offline_members w gp [] = Some w"
| "remove_offline_members w gp (p # ps) =
    (if pi_online (g_infos w p) then remove_offline_members w gp ps
     else do { w1 \<leftarrow> g_remove_player_with upd_blocked w gp p; g \<leftarrow> g_groups w1 gp; remove_offline_members w1 gp ps })"

fun remove_offline :: "gworld \<Rightarrow> gptr \<Rightarrow> nat list \<Rightarrow> gworld option" where
  "remove_offline w gp [] = Some w"
| "remove_offline w gp (ix # ixs) = do {
     g \<leftarrow> g_groups w gp;
     sg \<leftarrow> sg_slot g ix;
     w1 \<leftarrow> remove_offline_members w gp (case_option [] id sg);
     remove_offline w1 gp ixs }"

definition upd_leaders :: "gworld \<Rightarrow> group_rec \<Rightarrow> group_rec option" where
  "upd_leaders w g = do {
     first \<leftarrow> g_find_first w g;
     let offline = (\<lambda>q. case q of None \<Rightarrow> False | Some p \<Rightarrow> \<not> pi_online (g_infos w p));
     let g1 = (if (m_Leader g = None \<or> offline (m_Leader g)) \<and> first \<noteq> None then g\<lparr> m_Leader := first \<rparr> else g);
     Some (if offline (m_Looter g1) \<and> first \<noteq> None then g1\<lparr> m_Looter := first \<rparr> else g1) }"

definition g_update :: "gworld \<Rightarrow> gptr \<Rightarrow> gworld option" where
  "g_update w gp = do {
     g \<leftarrow> g_groups w gp;
     if m_updateblock g then Some w
     else do {
       w1 \<leftarrow> (if has_flag (m_groupFlags g) GROUP_FLAG_REMOVE_OFFLINE_PLAYERS
         then remove_offline (put_group w gp (g\<lparr> m_updateblock := True \<rparr>)) gp [0..<m_SubGroupCount g]
         else Some w);
       g1 \<leftarrow> g_groups w1 gp;
       g2 \<leftarrow> upd_leaders w1 (g1\<lparr> m_updateblock := False \<rparr>);
       ss \<leftarrow> sg_slots g2;
       let w2 = emit (list_events w1 g2 ss) (put_group w1 gp (g2\<lparr> m_dirty := False \<rparr>));
       if m_dirty g2 then g_save w2 g2 else Some w2 } }"

definition g_remove_player :: "gworld \<Rightarrow> gptr \<Rightarrow> infoptr \<Rightarrow> gworld option" where
  "g_remove_player = g_remove_player_with g_update"

definition g_set_leader :: "gworld \<Rightarrow> gptr \<Rightarrow> infoptr option \<Rightarrow> bool \<Rightarrow> gworld option" where
  "g_set_leader = g_set_leader_with g_update"

section \<open>Adding and moving members\<close>

definition g_add_member :: "gworld \<Rightarrow> gptr \<Rightarrow> infoptr \<Rightarrow> int \<Rightarrow> (gworld \<times> bool) option" where
  "g_add_member w gp p sgid = do {
     g \<leftarrow> g_groups w gp;
     let w1 = (if m_isqueued g then emit [G_RemoveFromQueues gp] (put_group w gp (g\<lparr> m_isqueued := False \<rparr>)) else w);
     if g_is_full g then Some (leave_info w1 p, False)
     else do {
       at \<leftarrow> (if 0 < sgid then do { sg \<leftarrow> sg_slot g (nat sgid); Some (if sg = None then None else Some (nat sgid)) }
              else g_find_free g);
       (case at of
          None \<Rightarrow> Some (w1, False)
        | Some ix \<Rightarrow> do {
            (w2, ok) \<leftarrow> sg_add_player w1 gp ix p;
            if \<not> ok then Some (leave_info w2 p, False)
            else do {
              let w3 = (if pi_online (g_infos w2 p) then emit [G_Schedule_FullUpdate p] w2 else w2);
              g3 \<leftarrow> g_groups w3 gp;
              w4 \<leftarrow> g_update (put_group w3 gp (g3\<lparr> m_dirty := True, m_MemberCount := m_MemberCount g3 + 1 \<rparr>)) gp;
              w5 \<leftarrow> (case pi_group (g_infos w4 p) of
                 None \<Rightarrow> Some w4
               | Some old \<Rightarrow> if old = gp then Some w4 else g_remove_player w4 old p);
              g5 \<leftarrow> g_groups w5 gp;
              let g6 = (if m_Leader g5 = None \<and> pi_online (g_infos w5 p) then g5\<lparr> m_Leader := Some p \<rparr> else g5);
              Some (put_info (put_group w5 gp g6) p
                ((g_infos w5 p)\<lparr> pi_group := Some gp, pi_subGroup := int ix \<rparr>), True) } }) } }"

definition g_move_player :: "gworld \<Rightarrow> gptr \<Rightarrow> infoptr \<Rightarrow> nat \<Rightarrow> gworld option" where
  "g_move_player w gp p to = do {
     g \<leftarrow> g_groups w gp;
     if m_SubGroupCount g \<le> to then Some w
     else do {
       target \<leftarrow> sg_deref g to;
       if sg_is_full target then Some w
       else do {
         at \<leftarrow> g_locate 1 g p (pi_subGroup (g_infos w p));
         (case at of
            None \<Rightarrow> Some w
          | Some ix \<Rightarrow> do {
              w1 \<leftarrow> sg_remove_player w gp ix p;
              (w2, ok) \<leftarrow> sg_add_player w1 gp to p;
              w3 \<leftarrow> (if \<not> ok then do {
                    w3 \<leftarrow> g_remove_player w2 gp p;
                    Some (put_info w3 p ((g_infos w3 p)\<lparr> pi_group := None \<rparr>)) }
                  else Some (put_info w2 p ((g_infos w2 p)\<lparr> pi_subGroup := int to, pi_group := Some gp \<rparr>)));
              g_update w3 gp }) } } }"

section \<open>Settings\<close>

definition g_set_looter :: "gworld \<Rightarrow> gptr \<Rightarrow> infoptr option \<Rightarrow> u8 \<Rightarrow> u16 \<Rightarrow> gworld option" where
  "g_set_looter w gp plr meth threshold = do {
     g \<leftarrow> g_groups w gp;
     g_update (put_group w gp (g\<lparr> m_LootMethod := meth, m_Looter := plr, m_LootThreshold := threshold, m_dirty := True \<rparr>)) gp }"

definition g_expand_to_raid :: "gworld \<Rightarrow> gptr \<Rightarrow> gworld option" where
  "g_expand_to_raid w gp = do {
     w1 \<leftarrow> g_leave_queue_loud w gp;
     g \<leftarrow> g_groups w1 gp;
     g_update (put_group w1 gp (g\<lparr> m_SubGroupCount := 8, m_SubGroups := take 1 (m_SubGroups g) @ replicate 7 (Some []),
       m_GroupType := GROUP_TYPE_RAID, m_dirty := True \<rparr>)) gp }"

definition g_set_main_assist :: "gworld \<Rightarrow> gptr \<Rightarrow> infoptr option \<Rightarrow> gworld option" where
  "g_set_main_assist w gp q = do {
     g \<leftarrow> g_groups w gp;
     if m_mainAssist g = q then Some w
     else g_update (put_group w gp (g\<lparr> m_mainAssist := q, m_dirty := True \<rparr>)) gp }"

definition g_set_main_tank :: "gworld \<Rightarrow> gptr \<Rightarrow> infoptr option \<Rightarrow> gworld option" where
  "g_set_main_tank w gp q = do {
     g \<leftarrow> g_groups w gp;
     if m_mainTank g = q then Some w
     else g_update (put_group w gp (g\<lparr> m_mainTank := q, m_dirty := True \<rparr>)) gp }"

definition g_set_assistant :: "gworld \<Rightarrow> gptr \<Rightarrow> infoptr option \<Rightarrow> gworld option" where
  "g_set_assistant w gp q = do {
     g \<leftarrow> g_groups w gp;
     if m_assistantLeader g = q then Some w
     else g_update (put_group w gp (g\<lparr> m_assistantLeader := q, m_dirty := True \<rparr>)) gp }"

definition g_has_member :: "group_rec \<Rightarrow> infoptr \<Rightarrow> bool option" where
  "g_has_member g p = do {
     ss \<leftarrow> sg_slots g;
     if None \<in> set ss then None else Some (p \<in> set (slot_members ss)) }"

definition g_has_player :: "group_rec \<Rightarrow> infoptr option \<Rightarrow> bool option" where
  "g_has_player g plr = (case plr of
     None \<Rightarrow> Some False
   | Some p \<Rightarrow> do { ss \<leftarrow> sg_slots g; Some (p \<in> set (slot_members ss)) })"

text \<open>
  What other managers do to a group: \<open>SetFlag\<close> (the constructor of a battleground), \<open>m_isqueued\<close> (the arena
  queue), and \<open>delete\<close> (the destructor of a battleground, after it has removed the members).
\<close>

definition g_set_flag :: "gworld \<Rightarrow> gptr \<Rightarrow> u8 \<Rightarrow> gworld option" where
  "g_set_flag w gp f = do {
     g \<leftarrow> g_groups w gp;
     Some (put_group w gp (g\<lparr> m_groupFlags := flag_set (m_groupFlags g) f \<rparr>)) }"

definition g_set_queued :: "gworld \<Rightarrow> gptr \<Rightarrow> bool \<Rightarrow> gworld option" where
  "g_set_queued w gp b = do { g \<leftarrow> g_groups w gp; Some (put_group w gp (g\<lparr> m_isqueued := b \<rparr>)) }"

definition g_delete :: "gworld \<Rightarrow> gptr \<Rightarrow> gworld option" where
  "g_delete w gp = do { g \<leftarrow> g_groups w gp; Some (w\<lparr> g_groups := (g_groups w)(gp := None) \<rparr>) }"

section \<open>Loading\<close>

text \<open>
  \<open>LoadFromDB\<close> reads the row the database returns for a group; \<open>find_info\<close> is
  \<open>objmgr.GetPlayerInfo\<close>. The columns beyond the row are undefined behaviour.
\<close>

definition row_get :: "u32 list \<Rightarrow> nat \<Rightarrow> u32 option" where
  "row_get row i = (if i < length row then Some (row ! i) else None)"

definition load_assistant :: "(u32 \<Rightarrow> infoptr option) \<Rightarrow> u32 \<Rightarrow> infoptr option \<Rightarrow> infoptr option" where
  "load_assistant find_info g old = (if g \<noteq> 0 then find_info g else old)"

text \<open>The columns of the members, in the order the loops visit them.\<close>

definition load_columns :: "nat \<Rightarrow> nat list" where
  "load_columns count = concat (map (\<lambda>i. map (\<lambda>j. 8 + i * 5 + j) [0..<5]) [0..<count])"

fun load_members :: "(u32 \<Rightarrow> infoptr option) \<Rightarrow> u32 list \<Rightarrow> gworld \<Rightarrow> gptr \<Rightarrow> nat list \<Rightarrow> gworld option" where
  "load_members find_info row w gp [] = Some w"
| "load_members find_info row w gp (c # cs) = do {
     guid \<leftarrow> row_get row c;
     (case (if guid = 0 then None else find_info guid) of
        None \<Rightarrow> load_members find_info row w gp cs
      | Some p \<Rightarrow> do {
          (w1, ok) \<leftarrow> g_add_member w gp p (-1);
          g \<leftarrow> g_groups w1 gp;
          load_members find_info row (put_group w1 gp (g\<lparr> m_dirty := False \<rparr>)) gp cs }) }"

definition g_load :: "(u32 \<Rightarrow> infoptr option) \<Rightarrow> gworld \<Rightarrow> gptr \<Rightarrow> u32 list \<Rightarrow> gworld option" where
  "g_load find_info w gp row = do {
     g \<leftarrow> g_groups w gp;
     gid \<leftarrow> row_get row 0; gt \<leftarrow> row_get row 1; sc \<leftarrow> row_get row 2; lm \<leftarrow> row_get row 3;
     lt \<leftarrow> row_get row 4; df \<leftarrow> row_get row 5; la \<leftarrow> row_get row 6; mt \<leftarrow> row_get row 7; ma \<leftarrow> row_get row 8;
     let count = unat (ucast sc :: u8);
     if 8 < count then None
     else do {
       w1 \<leftarrow> load_members find_info row (put_group w gp (g\<lparr>
         m_updateblock := True, m_Id := gid, m_GroupType := ucast gt, m_SubGroupCount := count,
         m_LootMethod := ucast lm, m_LootThreshold := ucast (ucast lt :: u8), m_difficulty := ucast df,
         m_assistantLeader := load_assistant find_info la (m_assistantLeader g),
         m_mainTank := load_assistant find_info mt (m_mainTank g),
         m_mainAssist := load_assistant find_info ma (m_mainAssist g),
         m_SubGroups := map (\<lambda>i. if 1 \<le> i \<and> i < count then Some [] else m_SubGroups g ! i) [0..<8] \<rparr>)) gp (load_columns count);
       g1 \<leftarrow> g_groups w1 gp;
       Some (put_group w1 gp (g1\<lparr> m_updateblock := False \<rparr>)) } }"

text \<open>
  \<open>ObjectMgr::LoadGroups\<close>, for one row: \<open>new Group(false)\<close> takes no id of its own, the row has it.
\<close>

definition g_load_new :: "(u32 \<Rightarrow> infoptr option) \<Rightarrow> gworld \<Rightarrow> u32 list \<Rightarrow> gworld option" where
  "g_load_new find_info w row =
     g_load find_info (w\<lparr> g_groups := (g_groups w)(g_nextPtr w \<mapsto> g_init 0), g_nextPtr := g_nextPtr w + 1 \<rparr>) (g_nextPtr w) row"

section \<open>What an update leaves alone\<close>

text \<open>
  \<open>core_eq\<close>: everything of a group but its leaders, its loot settings and the dirty mark;
  \<open>calm\<close>: a live group whose slots can be walked and whose \<open>Update\<close> is neither blocked nor
  set to remove members who are offline.
\<close>

definition core_eq :: "group_rec \<Rightarrow> group_rec \<Rightarrow> bool" where
  "core_eq g g' \<longleftrightarrow> m_SubGroups g' = m_SubGroups g \<and> m_SubGroupCount g' = m_SubGroupCount g \<and>
     m_MemberCount g' = m_MemberCount g \<and> m_GroupType g' = m_GroupType g \<and> m_groupFlags g' = m_groupFlags g \<and>
     m_updateblock g' = m_updateblock g"

definition walkable :: "group_rec \<Rightarrow> bool" where
  "walkable g \<longleftrightarrow> length (m_SubGroups g) = 8 \<and> m_SubGroupCount g \<le> 8 \<and>
     (\<forall>i < 8. (m_SubGroups g ! i \<noteq> None) = (i < m_SubGroupCount g))"

definition calm :: "gworld \<Rightarrow> gptr \<Rightarrow> bool" where
  "calm w gp \<longleftrightarrow> (\<exists>g. g_groups w gp = Some g \<and> walkable g \<and> \<not> m_updateblock g \<and>
     \<not> has_flag (m_groupFlags g) GROUP_FLAG_REMOVE_OFFLINE_PLAYERS)"

definition touch :: "gptr \<Rightarrow> gworld \<Rightarrow> gworld \<Rightarrow> bool" where
  "touch gp w w' \<longleftrightarrow> g_infos w' = g_infos w \<and> g_nextPtr w' = g_nextPtr w \<and>
     (\<exists>g g'. g_groups w gp = Some g \<and> g_groups w' = (g_groups w)(gp \<mapsto> g') \<and> core_eq g g')"

lemma core_eq_refl [simp]: "core_eq g g"
  by (simp add: core_eq_def)

lemma core_eq_trans: "core_eq g g' \<Longrightarrow> core_eq g' g'' \<Longrightarrow> core_eq g g''"
  by (simp add: core_eq_def)

lemma walkable_core: "core_eq g g' \<Longrightarrow> walkable g' = walkable g"
  by (simp add: core_eq_def walkable_def)

lemma touch_refl: "g_groups w gp = Some g \<Longrightarrow> touch gp w w"
  using fun_upd_triv [of "g_groups w" gp] by (force simp: touch_def)

lemma touch_trans: "touch gp w w' \<Longrightarrow> touch gp w' w'' \<Longrightarrow> touch gp w w''"
  by (auto simp: touch_def) (metis core_eq_trans)

lemma touch_calm: "touch gp w w' \<Longrightarrow> calm w gp \<Longrightarrow> calm w' gp"
  by (auto simp: touch_def calm_def walkable_core) (auto simp: core_eq_def)

lemma touch_emit [simp]: "touch gp w (emit evs w') = touch gp w w'"
  by (simp add: touch_def emit_def)

lemma touch_put: "g_groups w gp = Some g \<Longrightarrow> core_eq g g' \<Longrightarrow> touch gp w (put_group w gp g')"
  by (auto simp: touch_def put_group_def)

lemma groups_emit [simp]: "g_groups (emit evs w) = g_groups w" "g_infos (emit evs w) = g_infos w"
  "g_nextPtr (emit evs w) = g_nextPtr w"
  by (simp_all add: emit_def)

lemma groups_put [simp]: "g_groups (put_group w gp g) = (g_groups w)(gp \<mapsto> g)" "g_infos (put_group w gp g) = g_infos w"
  "g_nextPtr (put_group w gp g) = g_nextPtr w"
  by (simp_all add: put_group_def)

lemma infos_put [simp]: "g_groups (put_info w p i) = g_groups w" "g_infos (put_info w p i) = (g_infos w)(p := i)"
  "g_nextPtr (put_info w p i) = g_nextPtr w"
  by (simp_all add: put_info_def)

lemma leave_info_simps [simp]: "g_groups (leave_info w p) = g_groups w"
  "g_infos (leave_info w p) = (g_infos w)(p := (g_infos w p)\<lparr> pi_group := None, pi_subGroup := -1 \<rparr>)"
  "g_nextPtr (leave_info w p) = g_nextPtr w"
  by (simp_all add: leave_info_def)

lemma walkable_slots:
  assumes "walkable g"
  shows "sg_slots g = Some (take (m_SubGroupCount g) (m_SubGroups g))"
    and "None \<notin> set (take (m_SubGroupCount g) (m_SubGroups g))"
  using assms by (auto simp: walkable_def sg_slots_def in_set_conv_nth)

lemma find_first_ok: "walkable g \<Longrightarrow> \<exists>f. g_find_first w g = Some f"
  by (simp add: g_find_first_def walkable_slots)

lemma send_all_ok:
  assumes "g_groups w gp = Some g" "walkable g"
  shows "\<exists>evs. g_send_all w gp pkt skip = Some (emit evs w)"
  using assms walkable_slots [OF assms(2)] by (auto simp: g_send_all_def)

lemma upd_leaders_ok:
  assumes "walkable g"
  shows "\<exists>g'. upd_leaders w g = Some g' \<and> core_eq g g'"
  using find_first_ok [OF assms, of w] by (auto simp: upd_leaders_def Let_def core_eq_def)

lemma save_ok: "walkable g \<Longrightarrow> \<exists>evs. g_save w g = Some (emit evs w)"
  by (cases "has_flag (m_groupFlags g) GROUP_FLAG_DONT_DISBAND_WITH_NO_MEMBERS")
    (auto simp: g_save_def g_save_row_def walkable_slots intro: exI [of _ "[]"] simp: emit_def)

text \<open>\<open>Update\<close> always ends, changes no membership, and touches its own group only.\<close>

lemma update_touch:
  assumes "calm w gp"
  shows "\<exists>w'. g_update w gp = Some w' \<and> touch gp w w'"
proof -
  from assms obtain g where g: "g_groups w gp = Some g" "walkable g" "\<not> m_updateblock g"
    "\<not> has_flag (m_groupFlags g) GROUP_FLAG_REMOVE_OFFLINE_PLAYERS" by (auto simp: calm_def)
  have core: "core_eq g (g\<lparr> m_updateblock := False \<rparr>)" using g(3) by (simp add: core_eq_def)
  then have "walkable (g\<lparr> m_updateblock := False \<rparr>)" using g(2) by (simp add: walkable_core)
  from upd_leaders_ok [OF this] obtain g2 where g2: "upd_leaders w (g\<lparr> m_updateblock := False \<rparr>) = Some g2"
    "core_eq (g\<lparr> m_updateblock := False \<rparr>) g2" by blast
  have c2: "core_eq g g2" by (rule core_eq_trans [OF core g2(2)])
  have w2: "walkable g2" using g(2) c2 by (simp add: walkable_core)
  have cd: "core_eq g (g2\<lparr> m_dirty := False \<rparr>)" using c2 by (simp add: core_eq_def)
  let ?w2 = "emit (list_events w g2 (take (m_SubGroupCount g2) (m_SubGroups g2))) (put_group w gp (g2\<lparr> m_dirty := False \<rparr>))"
  have t: "touch gp w ?w2" using touch_put [OF g(1) cd] by simp
  obtain evs where "g_save ?w2 g2 = Some (emit evs ?w2)" using save_ok [OF w2] by blast
  with g g2 w2 t show ?thesis
    by (auto simp: g_update_def walkable_slots Let_def)
qed

section \<open>Members and slots\<close>

definition g_members :: "group_rec \<Rightarrow> infoptr list" where
  "g_members g = slot_members (m_SubGroups g)"

definition slot_at :: "group_rec \<Rightarrow> nat \<Rightarrow> infoptr list" where
  "slot_at g i = (case m_SubGroups g ! i of None \<Rightarrow> [] | Some sg \<Rightarrow> sg)"

lemma slot_members_append [simp]: "slot_members (xs @ ys) = slot_members xs @ slot_members ys"
  by (simp add: slot_members_def)

lemma slot_members_simps [simp]: "slot_members [] = []" "slot_members (None # ss) = slot_members ss"
  "slot_members (Some sg # ss) = sg @ slot_members ss"
  by (simp_all add: slot_members_def)

lemma slot_members_None: "set ss \<subseteq> {None} \<Longrightarrow> slot_members ss = []"
  by (induction ss) auto

lemma slot_members_split:
  assumes "i < length ss"
  shows "slot_members ss = slot_members (take i ss) @ case_option [] id (ss ! i) @ slot_members (drop (Suc i) ss)"
    and "slot_members (ss[i := s]) = slot_members (take i ss) @ case_option [] id s @ slot_members (drop (Suc i) ss)"
proof -
  have one: "slot_members (x # xs) = case_option [] id x @ slot_members xs" for x xs by (cases x) auto
  show "slot_members ss = slot_members (take i ss) @ case_option [] id (ss ! i) @ slot_members (drop (Suc i) ss)"
    using slot_members_append [of "take i ss" "ss ! i # drop (Suc i) ss"] id_take_nth_drop [OF assms]
    by (simp only: one flip: id_take_nth_drop [OF assms])
  show "slot_members (ss[i := s]) = slot_members (take i ss) @ case_option [] id s @ slot_members (drop (Suc i) ss)"
    by (simp only: upd_conv_take_nth_drop [OF assms] slot_members_append one)
qed

lemma slot_members_take:
  assumes "walkable g"
  shows "slot_members (take (m_SubGroupCount g) (m_SubGroups g)) = g_members g"
proof -
  have "slot_members (drop (m_SubGroupCount g) (m_SubGroups g)) = []"
  proof (rule slot_members_None, rule subsetI)
    fix s assume "s \<in> set (drop (m_SubGroupCount g) (m_SubGroups g))"
    then obtain i where "s = m_SubGroups g ! (m_SubGroupCount g + i)" "m_SubGroupCount g + i < 8"
      using assms by (auto simp: walkable_def in_set_conv_nth)
    moreover from assms this(2) have "\<not> m_SubGroups g ! (m_SubGroupCount g + i) \<noteq> None"
      unfolding walkable_def by (metis not_add_less1)
    ultimately show "s \<in> {None}" by simp
  qed
  then show ?thesis
    using slot_members_append [of "take (m_SubGroupCount g) (m_SubGroups g)" "drop (m_SubGroupCount g) (m_SubGroups g)"]
    by (simp add: g_members_def del: slot_members_append)
qed

lemma set_g_members: "p \<in> set (g_members g) \<longleftrightarrow> (\<exists>i < length (m_SubGroups g). p \<in> set (slot_at g i))"
  by (fastforce simp: g_members_def slot_members_def slot_at_def in_set_conv_nth split: option.splits)

lemma slot_at_Some: "walkable g \<Longrightarrow> i < m_SubGroupCount g \<Longrightarrow> m_SubGroups g ! i = Some (slot_at g i)"
  by (auto simp: walkable_def slot_at_def split: option.splits)

lemma slot_at_None: "walkable g \<Longrightarrow> m_SubGroupCount g \<le> i \<Longrightarrow> i < 8 \<Longrightarrow> slot_at g i = []"
  by (auto simp: walkable_def slot_at_def split: option.splits)

lemma deref_ok: "walkable g \<Longrightarrow> i < m_SubGroupCount g \<Longrightarrow> sg_deref g i = Some (slot_at g i)"
  using slot_at_Some [of g i] by (auto simp: sg_deref_def sg_slot_def walkable_def)

text \<open>Replacing one slot.\<close>

lemma replace_slot:
  fixes sg :: "infoptr list"
  assumes "walkable g" "i < m_SubGroupCount g"
  defines "g' \<equiv> g\<lparr> m_SubGroups := (m_SubGroups g)[i := Some sg] \<rparr>"
  shows "walkable g'" "slot_at g' j = (if j = i then sg else slot_at g j)"
    and "\<exists>xs ys. g_members g = xs @ slot_at g i @ ys \<and> g_members g' = xs @ sg @ ys"
proof -
  have i: "i < length (m_SubGroups g)" using assms by (simp add: walkable_def)
  show "walkable g'" using assms by (auto simp: walkable_def nth_list_update)
  show "slot_at g' j = (if j = i then sg else slot_at g j)"
    using i by (simp add: slot_at_def g'_def nth_list_update)
  show "\<exists>xs ys. g_members g = xs @ slot_at g i @ ys \<and> g_members g' = xs @ sg @ ys"
    using slot_members_split [OF i] slot_at_Some [OF assms(1,2)] by (auto simp: g_members_def g'_def)
qed

text \<open>\<open>RemovePlayer\<close> and \<open>MovePlayer\<close> find the subgroup of every member.\<close>

lemma locate_member:
  assumes g: "walkable g" and p: "p \<in> set (g_members g)" and ix: "ix < 8"
  shows "\<exists>i < m_SubGroupCount g. g_locate lo g p ix = Some (Some i) \<and> p \<in> set (slot_at g i)"
proof -
  have slots: "sg_slots g = Some (take (m_SubGroupCount g) (m_SubGroups g))"
    by (rule walkable_slots(1) [OF g])
  have len: "length (m_SubGroups g) = 8" "m_SubGroupCount g \<le> 8" using g by (auto simp: walkable_def)
  let ?ss = "take (m_SubGroupCount g) (m_SubGroups g)"
  obtain j where j: "j < 8" "p \<in> set (slot_at g j)" using p by (auto simp: set_g_members len)
  then have jc: "j < m_SubGroupCount g" using slot_at_None [OF g] by (cases "j < m_SubGroupCount g") auto
  have has: "(case ?ss ! i of Some sg \<Rightarrow> p \<in> set sg | None \<Rightarrow> False) \<longleftrightarrow> p \<in> set (slot_at g i)"
    if "i < m_SubGroupCount g" for i
    using that slot_at_Some [OF g that] by simp
  have "sg_search ?ss p \<noteq> None"
    using jc j(2) has [OF jc] len by (auto simp: sg_search_def find_None_iff)
  then obtain k where k: "sg_search ?ss p = Some k" by auto
  then have kc: "k < m_SubGroupCount g" "p \<in> set (slot_at g k)"
    using has len by (auto simp: sg_search_def find_Some_iff)
  show ?thesis
  proof (cases "lo \<le> ix \<and> ix \<le> 8 \<and> p \<in> set (slot_at g (nat ix))")
    case True
    then have c: "nat ix < m_SubGroupCount g"
      using slot_at_None [OF g, of "nat ix"] ix by (cases "nat ix < m_SubGroupCount g") auto
    with True slot_at_Some [OF g c] len show ?thesis
      by (auto simp: g_locate_def sg_slot_def Let_def)
  next
    case False
    have "nat ix < 8" using ix by linarith
    with False k kc slots len show ?thesis
      by (auto simp: g_locate_def sg_slot_def Let_def slot_at_def split: option.splits)
  qed
qed

section \<open>The group invariant\<close>

text \<open>
  \<open>X\<close> is a set of players in transit, whose own info may not yet agree with the subgroup they
  are in; it is empty between operations.
\<close>

definition grp_ok :: "infoptr set \<Rightarrow> gworld \<Rightarrow> gptr \<Rightarrow> group_rec \<Rightarrow> bool" where
  "grp_ok X w gp g \<longleftrightarrow> walkable g \<and> \<not> m_updateblock g \<and>
     \<not> has_flag (m_groupFlags g) GROUP_FLAG_REMOVE_OFFLINE_PLAYERS \<and>
     ((m_GroupType g = GROUP_TYPE_PARTY \<and> m_SubGroupCount g = 1) \<or> (m_GroupType g = GROUP_TYPE_RAID \<and> m_SubGroupCount g = 8)) \<and>
     (\<forall>i < 8. length (slot_at g i) \<le> 5) \<and> distinct (g_members g) \<and>
     m_MemberCount g = of_nat (length (g_members g)) \<and>
     (\<forall>i < 8. \<forall>p \<in> set (slot_at g i) - X. pi_group (g_infos w p) = Some gp \<and> pi_subGroup (g_infos w p) = int i)"

definition gw_ok :: "infoptr set \<Rightarrow> gworld \<Rightarrow> bool" where
  "gw_ok X w \<longleftrightarrow>
     (\<forall>gp g. g_groups w gp = Some g \<longrightarrow> gp < g_nextPtr w \<and> grp_ok X w gp g) \<and>
     (\<forall>p. pi_subGroup (g_infos w p) < 8) \<and>
     (\<forall>p gp. p \<notin> X \<longrightarrow> pi_group (g_infos w p) = Some gp \<longrightarrow>
        (\<exists>g. g_groups w gp = Some g \<and> p \<in> set (g_members g)))"

lemma gw_okD:
  assumes "gw_ok X w"
  shows "g_groups w gp = Some g \<Longrightarrow> grp_ok X w gp g" "g_groups w gp = Some g \<Longrightarrow> gp < g_nextPtr w"
    "pi_subGroup (g_infos w p) < 8"
    "p \<notin> X \<Longrightarrow> pi_group (g_infos w p) = Some gp \<Longrightarrow> \<exists>g. g_groups w gp = Some g \<and> p \<in> set (g_members g)"
  using assms by (auto simp: gw_ok_def)

lemma grp_okD:
  assumes "grp_ok X w gp g"
  shows "walkable g" "\<not> m_updateblock g" "\<not> has_flag (m_groupFlags g) GROUP_FLAG_REMOVE_OFFLINE_PLAYERS"
    "i < 8 \<Longrightarrow> length (slot_at g i) \<le> 5" "distinct (g_members g)"
    "m_MemberCount g = of_nat (length (g_members g))"
    "i < 8 \<Longrightarrow> p \<in> set (slot_at g i) \<Longrightarrow> p \<notin> X \<Longrightarrow> pi_group (g_infos w p) = Some gp \<and> pi_subGroup (g_infos w p) = int i"
  using assms by (auto simp: grp_ok_def)

lemma grp_member_group:
  assumes "grp_ok X w gp g" "p \<in> set (g_members g)" "p \<notin> X"
  shows "pi_group (g_infos w p) = Some gp"
  using assms grp_okD(7) [OF assms(1)] grp_okD(1) [OF assms(1)] by (auto simp: set_g_members walkable_def)

lemma calm_ok: "gw_ok X w \<Longrightarrow> g_groups w gp = Some g \<Longrightarrow> calm w gp"
  using gw_okD(1) grp_okD(1-3) by (fastforce simp: calm_def)

lemma grp_ok_core: "core_eq g g' \<Longrightarrow> g_infos w' = g_infos w \<Longrightarrow> grp_ok X w' gp g' = grp_ok X w gp g"
  by (simp add: grp_ok_def walkable_def core_eq_def g_members_def slot_at_def)

lemma gw_ok_touch [hs_inv]:
  assumes "gw_ok X w" "touch gp w w'"
  shows "gw_ok X w'"
proof -
  from assms(2) obtain g g' where t: "g_infos w' = g_infos w" "g_nextPtr w' = g_nextPtr w" "g_groups w gp = Some g"
    "g_groups w' = (g_groups w)(gp \<mapsto> g')" "core_eq g g'" by (auto simp: touch_def)
  have mem: "g_members g' = g_members g" using t(5) by (simp add: core_eq_def g_members_def)
  have "gq < g_nextPtr w' \<and> grp_ok X w' gq h" if "g_groups w' gq = Some h" for gq h
    using that gw_okD(1,2) [OF assms(1)] grp_ok_core [OF t(5,1)] grp_ok_core [OF core_eq_refl t(1)] t
    by (cases "gq = gp") auto
  moreover have "\<exists>h. g_groups w' gq = Some h \<and> p \<in> set (g_members h)"
    if "p \<notin> X" "pi_group (g_infos w' p) = Some gq" for p gq
    using gw_okD(4) [OF assms(1) that(1), of gq] that(2) t mem by (cases "gq = gp") auto
  ultimately show ?thesis
    using gw_okD(3) [OF assms(1)] t(1) by (simp add: gw_ok_def)
qed

section \<open>Disbanding empties the group\<close>

definition left_all :: "infoptr set \<Rightarrow> (infoptr \<Rightarrow> player_info) \<Rightarrow> infoptr \<Rightarrow> player_info" where
  "left_all P infos p = (if p \<in> P then (infos p)\<lparr> pi_group := None, pi_subGroup := -1 \<rparr> else infos p)"

lemma left_all_empty [simp]: "left_all {} infos = infos"
  by (simp add: left_all_def fun_eq_iff)

lemma left_all_left_all: "left_all Q (left_all P infos) = left_all (P \<union> Q) infos"
  by (auto simp: left_all_def fun_eq_iff)

lemma left_all_upd: "(left_all P infos)(p := (left_all P infos p)\<lparr> pi_group := None, pi_subGroup := -1 \<rparr>) = left_all (insert p P) infos"
  by (auto simp: left_all_def fun_eq_iff)

lemma sg_disband_loop_ok:
  assumes "g_groups w gp = Some g"
  shows "\<exists>w' c. sg_disband_loop w gp ps = Some w' \<and> g_infos w' = left_all (set ps) (g_infos w) \<and>
    g_nextPtr w' = g_nextPtr w \<and> g_groups w' = (g_groups w)(gp \<mapsto> g\<lparr> m_MemberCount := c \<rparr>)"
  using assms
proof (induction ps arbitrary: w g)
  case Nil
  then show ?case by (auto intro!: exI [of _ "m_MemberCount g"] simp: fun_upd_idem)
next
  case (Cons p ps)
  define w1 where "w1 = (if pi_online (g_infos w p)
        then emit ([G_Send p (''SMSG_GROUP_DESTROYED'', []), G_Send p party_result] @
          (case pi_group (g_infos w p) of
             Some gq \<Rightarrow> if pi_instance (g_infos w p) then [G_PlayerLeftGroup gq p] else []
           | None \<Rightarrow> []) @ [G_Send p null_update]) w
        else w)"
  have w1: "g_groups w1 = g_groups w" "g_infos w1 = g_infos w" "g_nextPtr w1 = g_nextPtr w"
    by (auto simp: w1_def)
  let ?w = "put_group (leave_info w1 p) gp (g\<lparr> m_MemberCount := m_MemberCount g - 1 \<rparr>)"
  have "g_groups ?w gp = Some (g\<lparr> m_MemberCount := m_MemberCount g - 1 \<rparr>)" by simp
  from Cons.IH [OF this] obtain w' c where w': "sg_disband_loop ?w gp ps = Some w'"
    "g_infos w' = left_all (set ps) (g_infos ?w)" "g_nextPtr w' = g_nextPtr ?w"
    "g_groups w' = (g_groups ?w)(gp \<mapsto> (g\<lparr> m_MemberCount := m_MemberCount g - 1 \<rparr>)\<lparr> m_MemberCount := c \<rparr>)" by blast
  have "sg_disband_loop w gp (p # ps) = Some w'"
    using w'(1) Cons.prems w1 by (simp add: Let_def flip: w1_def)
  moreover have "g_infos w' = left_all (set (p # ps)) (g_infos w)"
    using w'(2) w1 left_all_upd [of "{}" "g_infos w" p] by (simp add: left_all_left_all)
  ultimately show ?case
    using w'(3,4) w1 by (intro exI [of _ w'] exI [of _ c]) (simp del: sg_disband_loop.simps)
qed

lemma sg_disband_ok:
  assumes "g_groups w gp = Some g" "sg_deref g ix = Some sg"
  shows "\<exists>w' g'. sg_disband w gp ix = Some w' \<and> g_infos w' = left_all (set sg) (g_infos w) \<and>
    g_nextPtr w' = g_nextPtr w \<and> g_groups w' = (g_groups w)(gp \<mapsto> g') \<and> m_SubGroups g' = (m_SubGroups g)[ix := None]"
proof -
  obtain w1 c where "sg_disband_loop w gp sg = Some w1" "g_infos w1 = left_all (set sg) (g_infos w)"
    "g_nextPtr w1 = g_nextPtr w" "g_groups w1 = (g_groups w)(gp \<mapsto> g\<lparr> m_MemberCount := c \<rparr>)"
    using sg_disband_loop_ok [OF assms(1)] by blast
  with assms show ?thesis
    by (intro exI [of _ "put_group w1 gp (g\<lparr> m_MemberCount := c, m_SubGroups := (m_SubGroups g)[ix := None] \<rparr>)"]
        exI [of _ "g\<lparr> m_MemberCount := c, m_SubGroups := (m_SubGroups g)[ix := None] \<rparr>"])
      (simp add: sg_disband_def)
qed

lemma sg_disband_all_ok:
  assumes "g_groups w gp = Some g" "distinct ixs" "\<And>i. i \<in> set ixs \<Longrightarrow> i < length (m_SubGroups g) \<and> m_SubGroups g ! i \<noteq> None"
  shows "\<exists>w' g'. sg_disband_all w gp ixs = Some w' \<and>
    g_infos w' = left_all (\<Union>i \<in> set ixs. set (slot_at g i)) (g_infos w) \<and>
    g_nextPtr w' = g_nextPtr w \<and> g_groups w' = (g_groups w)(gp \<mapsto> g')"
  using assms
proof (induction ixs arbitrary: w g)
  case Nil
  then show ?case by (auto intro!: exI [of _ g] simp: fun_upd_idem)
next
  case (Cons ix ixs)
  have "ix < length (m_SubGroups g)" "m_SubGroups g ! ix \<noteq> None" using Cons.prems(3) by auto
  then have "sg_deref g ix = Some (slot_at g ix)" by (auto simp: sg_deref_def sg_slot_def slot_at_def)
  from sg_disband_ok [OF Cons.prems(1) this] obtain w1 g1 where w1: "sg_disband w gp ix = Some w1"
    "g_infos w1 = left_all (set (slot_at g ix)) (g_infos w)" "g_nextPtr w1 = g_nextPtr w"
    "g_groups w1 = (g_groups w)(gp \<mapsto> g1)" "m_SubGroups g1 = (m_SubGroups g)[ix := None]" by blast
  have g1: "g_groups w1 gp = Some g1" using w1 by simp
  have same: "m_SubGroups g1 ! i = m_SubGroups g ! i" if "i \<in> set ixs" for i
    using that w1(5) Cons.prems(2) by (cases "i = ix") auto
  have ok: "i < length (m_SubGroups g1) \<and> m_SubGroups g1 ! i \<noteq> None" if "i \<in> set ixs" for i
    using that Cons.prems(3) same w1(5) by simp
  have "distinct ixs" using Cons.prems(2) by simp
  from Cons.IH [OF g1 this ok] obtain w' g' where w': "sg_disband_all w1 gp ixs = Some w'"
    "g_infos w' = left_all (\<Union>i \<in> set ixs. set (slot_at g1 i)) (g_infos w1)"
    "g_nextPtr w' = g_nextPtr w1" "g_groups w' = (g_groups w1)(gp \<mapsto> g')" by blast
  have "(\<Union>i \<in> set ixs. set (slot_at g1 i)) = (\<Union>i \<in> set ixs. set (slot_at g i))"
    using same by (auto simp: slot_at_def)
  with w1 w' show ?case
    by (intro exI [of _ w'] exI [of _ g']) (simp add: left_all_left_all)
qed

lemma leave_queue_loud_ok:
  assumes "g_groups w gp = Some g" "walkable g"
  shows "\<exists>w'. g_leave_queue_loud w gp = Some w' \<and> touch gp w w'"
proof (cases "m_isqueued g")
  case True
  let ?g = "g\<lparr> m_isqueued := False \<rparr>"
  have core: "core_eq g ?g" by (simp add: core_eq_def)
  then have "walkable ?g" using assms(2) by (simp add: walkable_core)
  then obtain evs where "g_send_all (put_group w gp ?g) gp g_queue_message None = Some (emit evs (put_group w gp ?g))"
    using send_all_ok [of "put_group w gp ?g" gp ?g g_queue_message None] by auto
  with True assms touch_put [OF assms(1) core] show ?thesis
    by (simp add: g_leave_queue_loud_def)
qed (use assms touch_refl in \<open>auto simp: g_leave_queue_loud_def\<close>)

lemma disband_ok:
  assumes "g_groups w gp = Some g" "walkable g"
  shows "\<exists>w'. g_disband w gp = Some w' \<and> g_infos w' = left_all (set (g_members g)) (g_infos w) \<and>
    g_nextPtr w' = g_nextPtr w \<and> g_groups w' = (g_groups w)(gp := None)"
proof -
  let ?g = "g\<lparr> m_updateblock := True \<rparr>"
  have wg: "walkable ?g" using assms(2) by (simp add: walkable_def)
  obtain w1 where w1: "g_leave_queue_loud (put_group w gp ?g) gp = Some w1" "touch gp (put_group w gp ?g) w1"
    using leave_queue_loud_ok [of "put_group w gp ?g" gp ?g] wg by auto
  then obtain g1 where g1: "g_groups w1 = (g_groups w)(gp \<mapsto> g1)" "core_eq ?g g1" "g_infos w1 = g_infos w"
    "g_nextPtr w1 = g_nextPtr w" by (auto simp: touch_def)
  have subs: "m_SubGroups g1 = m_SubGroups g" using g1(2) by (simp add: core_eq_def)
  have len: "length (m_SubGroups g) = 8" "m_SubGroupCount g \<le> 8" using assms(2) by (auto simp: walkable_def)
  have "i < length (m_SubGroups g1) \<and> m_SubGroups g1 ! i \<noteq> None" if "i \<in> set [0..<m_SubGroupCount g]" for i
    using that assms(2) len subs by (auto simp: walkable_def)
  moreover have "g_groups w1 gp = Some g1" using g1(1) by simp
  ultimately obtain w2 g2 where w2: "sg_disband_all w1 gp [0..<m_SubGroupCount g] = Some w2"
    "g_infos w2 = left_all (\<Union>i \<in> set [0..<m_SubGroupCount g]. set (slot_at g1 i)) (g_infos w1)"
    "g_nextPtr w2 = g_nextPtr w1" "g_groups w2 = (g_groups w1)(gp \<mapsto> g2)"
    using sg_disband_all_ok [of w1 gp g1 "[0..<m_SubGroupCount g]"] distinct_upt by blast
  have "slot_at g1 i = slot_at g i" for i using subs by (simp add: slot_at_def)
  then have members: "(\<Union>i \<in> set [0..<m_SubGroupCount g]. set (slot_at g1 i)) = set (g_members g)"
  proof -
    have "(\<exists>i < m_SubGroupCount g. p \<in> set (slot_at g i)) \<longleftrightarrow> (\<exists>i < 8. p \<in> set (slot_at g i))" for p
      using slot_at_None [OF assms(2)] len by (metis empty_iff empty_set le_less_trans not_le order_less_le_trans)
    moreover have "slot_at g1 i = slot_at g i" for i using subs by (simp add: slot_at_def)
    ultimately show ?thesis by (simp add: set_eq_iff set_g_members len Bex_def atLeast0LessThan)
  qed
  define w' where "w' = (emit [G_DB_Delete (m_Id g), G_OnGroupDestruction gp] w2)\<lparr> g_groups := (g_groups w2)(gp := None) \<rparr>"
  have "g_disband w gp = Some w'"
    using assms(1) w1(1) w2(1) by (simp add: g_disband_def w'_def)
  moreover have "g_infos w' = left_all (set (g_members g)) (g_infos w)" "g_nextPtr w' = g_nextPtr w"
    "g_groups w' = (g_groups w)(gp := None)"
    using w2 g1 members by (simp_all add: w'_def emit_def)
  ultimately show ?thesis by blast
qed

text \<open>A group that is gone takes no other group's member with it.\<close>

lemma gw_ok_drop:
  assumes ok: "gw_ok X w" and g: "g_groups w gp = Some g"
    and X: "\<And>p. p \<in> X \<Longrightarrow> p \<notin> set (g_members g)"
    and w': "g_infos w' = left_all (set (g_members g)) (g_infos w)" "g_nextPtr w' = g_nextPtr w"
      "g_groups w' = (g_groups w)(gp := None)"
  shows "gw_ok X w'"
proof -
  have mem: "pi_group (g_infos w p) = Some gp" if "p \<in> set (g_members g)" for p
    using grp_member_group [OF gw_okD(1) [OF ok g] that] X that by blast
  have "grp_ok X w' gq h" if h: "g_groups w gq = Some h" "gq \<noteq> gp" for gq h
  proof -
    have "p \<notin> set (g_members g)" if "p \<in> set (slot_at h i)" "i < 8" "p \<notin> X" for p i
      using grp_okD(7) [OF gw_okD(1) [OF ok h(1)] that(2,1,3)] mem [of p] h(2) by auto
    with gw_okD(1) [OF ok h(1)] show ?thesis
      unfolding grp_ok_def w' left_all_def by simp blast
  qed
  moreover have "\<exists>h. g_groups w' gq = Some h \<and> p \<in> set (g_members h)"
    if "p \<notin> X" "pi_group (g_infos w' p) = Some gq" for p gq
  proof -
    have "p \<notin> set (g_members g)" "pi_group (g_infos w p) = Some gq"
      using that(2) by (auto simp: w' left_all_def split: if_splits)
    with gw_okD(4) [OF ok that(1) this(2)] g show ?thesis by (auto simp: w')
  qed
  ultimately show ?thesis
    using gw_okD(2,3) [OF ok] by (auto simp: gw_ok_def w' left_all_def split: if_splits)
qed

section \<open>Removing a member keeps the invariant\<close>

lemma calmD: "calm w gp \<Longrightarrow> \<exists>g. g_groups w gp = Some g \<and> walkable g"
  by (auto simp: calm_def)

lemma put_calm: "calm w gp \<Longrightarrow> g_groups w gp = Some g \<Longrightarrow> core_eq g g' \<Longrightarrow> calm (put_group w gp g') gp"
  using touch_calm touch_put by blast

lemma set_leader_touch:
  assumes "calm w gp"
  shows "\<exists>w'. g_set_leader w gp plr silent = Some w' \<and> touch gp w w'"
proof (cases plr)
  case None
  then show ?thesis using update_touch [OF assms] by (simp add: g_set_leader_def g_set_leader_with_def)
next
  case (Some p)
  from calmD [OF assms] obtain g where g: "g_groups w gp = Some g" "walkable g" by blast
  let ?g = "g\<lparr> m_Leader := Some p, m_dirty := True \<rparr>"
  have core: "core_eq g ?g" by (simp add: core_eq_def)
  have t: "touch gp w (put_group w gp ?g)" by (rule touch_put [OF g(1) core])
  have wg: "walkable ?g" using core g(2) by (simp add: walkable_core)
  obtain evs where s: "g_send_all (put_group w gp ?g) gp (''SMSG_GROUP_SET_LEADER'', [Str (pi_name (g_infos w p))]) None =
      Some (emit evs (put_group w gp ?g))"
    using send_all_ok [of "put_group w gp ?g" gp ?g] wg by fastforce
  define w1 where "w1 = (if silent then put_group w gp ?g else emit evs (put_group w gp ?g))"
  have t1: "touch gp w w1" using t by (simp add: w1_def)
  obtain w' where "g_update w1 gp = Some w'" "touch gp w1 w'"
    using update_touch [OF touch_calm [OF t1 assms]] by blast
  with touch_trans [OF t1] s g Some show ?thesis
    by (auto simp: g_set_leader_def g_set_leader_with_def w1_def Let_def)
qed

lemma succession_touch:
  assumes "calm w gp"
  shows "\<exists>w'. rp_succession g_update w gp p = Some w' \<and> touch gp w w'"
proof -
  from calmD [OF assms] obtain g where g: "g_groups w gp = Some g" "walkable g" by blast
  obtain first where first: "g_find_first w g = Some first" using find_first_ok [OF g(2)] by blast
  define w1 where "w1 = (if m_Looter g = Some p then put_group w gp (g\<lparr> m_Looter := first \<rparr>) else w)"
  have t1: "touch gp w w1"
    using touch_put [OF g(1), of "g\<lparr> m_Looter := first \<rparr>"] touch_refl [OF g(1)] by (simp add: w1_def core_eq_def)
  then have c1: "calm w1 gp" by (rule touch_calm [OF _ assms])
  from calmD [OF c1] obtain g1 where g1: "g_groups w1 gp = Some g1" by blast
  obtain w2 where w2: "(if m_Leader g = Some p then
         (if first \<noteq> None then g_set_leader_with g_update w1 gp first False
          else g_groups w1 gp \<bind> (\<lambda>g1. Some (put_group w1 gp (g1\<lparr> m_Leader := None \<rparr>))))
       else Some w1) = Some w2" "touch gp w1 w2"
  proof (cases "m_Leader g = Some p \<and> first \<noteq> None")
    case True
    with that set_leader_touch [OF c1, of first False] show ?thesis by (auto simp: g_set_leader_def)
  next
    case False
    have "core_eq g1 (g1\<lparr> m_Leader := None \<rparr>)" by (simp add: core_eq_def)
    with False that touch_put [OF g1, of "g1\<lparr> m_Leader := None \<rparr>"] touch_refl [OF g1] g1 show ?thesis
      by (cases "m_Leader g = Some p") simp_all
  qed
  have t2: "touch gp w w2" by (rule touch_trans [OF t1 w2(2)])
  obtain w3 where "g_update w2 gp = Some w3" "touch gp w2 w3"
    using update_touch [OF touch_calm [OF t2 assms]] by blast
  moreover have "rp_succession g_update w gp p = g_update w2 gp"
    by (simp only: rp_succession_def g(1) first Option.bind_lunit Let_def w2(1) flip: w1_def)
  ultimately show ?thesis using touch_trans [OF t2] by auto
qed

text \<open>Taking \<open>p\<close> out of its slot and counting it off.\<close>

lemma gw_ok_take:
  assumes ok: "gw_ok X w" and g: "g_groups w gp = Some g" and ix: "ix < m_SubGroupCount g" "p \<in> set (slot_at g ix)"
    and core: "core_eq (g\<lparr> m_SubGroups := (m_SubGroups g)[ix := Some (set_erase p (slot_at g ix))],
        m_MemberCount := m_MemberCount g - 1 \<rparr>) g'"
    and w': "g_infos w' = (g_infos w)(p := (g_infos w p)\<lparr> pi_group := None, pi_subGroup := -1 \<rparr>)"
      "g_groups w' = (g_groups w)(gp \<mapsto> g')" "g_nextPtr w' = g_nextPtr w"
  shows "gw_ok X w' \<and> p \<notin> set (g_members g') \<and> set (g_members g') = set (g_members g) - {p}"
proof -
  have gk: "grp_ok X w gp g" by (rule gw_okD(1) [OF ok g])
  note wk = grp_okD(1) [OF gk]
  let ?h = "g\<lparr> m_SubGroups := (m_SubGroups g)[ix := Some (set_erase p (slot_at g ix))] \<rparr>"
  note rs = replace_slot [OF wk ix(1), of "set_erase p (slot_at g ix)"]
  obtain xs ys where xy: "g_members g = xs @ slot_at g ix @ ys" "g_members ?h = xs @ set_erase p (slot_at g ix) @ ys"
    using rs(3) by blast
  have d: "distinct (xs @ slot_at g ix @ ys)" using grp_okD(5) [OF gk] xy by simp
  have subs: "m_SubGroups g' = m_SubGroups ?h" "m_SubGroupCount g' = m_SubGroupCount g"
    "m_GroupType g' = m_GroupType g" "m_groupFlags g' = m_groupFlags g" "m_updateblock g' = m_updateblock g"
    "m_MemberCount g' = m_MemberCount g - 1"
    using core by (auto simp: core_eq_def)
  have wk': "walkable g'" using rs(1) subs by (simp add: walkable_def)
  have mem: "g_members g' = xs @ set_erase p (slot_at g ix) @ ys" using xy(2) subs by (simp add: g_members_def)
  have slots: "slot_at g' j = (if j = ix then set_erase p (slot_at g ix) else slot_at g j)" for j
    using rs(2) [of j] subs by (simp add: slot_at_def)
  have len: "length (g_members g) = Suc (length (g_members g'))"
    using d ix(2) xy(1) mem length_set_erase [of "slot_at g ix" p] length_pos_if_in_set [OF ix(2)] by simp
  have dm: "distinct (g_members g')" using d mem by auto
  have pm: "p \<notin> set (g_members g')" "set (g_members g') = set (g_members g) - {p}"
    using d ix(2) mem xy(1) by auto
  have ixl: "length (set_erase p (slot_at g ix)) \<le> length (slot_at g ix)"
    unfolding set_erase_def by (rule length_filter_le)
  have grp: "grp_ok X w' gp g'"
  proof -
    have inslot: "q \<in> set (slot_at g j)" "q \<noteq> p" if "q \<in> set (slot_at g' j)" "j < 8" for q j
    proof -
      show "q \<in> set (slot_at g j)" using that slots by (auto split: if_splits)
      show "q \<noteq> p" using that pm wk' by (auto simp: set_g_members walkable_def)
    qed
    have "length (slot_at g' j) \<le> 5" if "j < 8" for j
      using grp_okD(4) [OF gk that] ixl slots by auto
    moreover have "pi_group (g_infos w' q) = Some gp \<and> pi_subGroup (g_infos w' q) = int j"
      if "q \<in> set (slot_at g' j) - X" "j < 8" for q j
      using grp_okD(7) [OF gk that(2)] inslot [of q j] that w' by auto
    moreover have "m_MemberCount g' = of_nat (length (g_members g'))"
      using subs grp_okD(6) [OF gk] len by simp
    ultimately show ?thesis
      using gk wk' dm subs by (simp add: grp_ok_def) blast
  qed
  have "gq < g_nextPtr w' \<and> grp_ok X w' gq h" if "g_groups w' gq = Some h" for gq h
  proof (cases "gq = gp")
    case True
    with that grp gw_okD(2) [OF ok g] w' show ?thesis by simp
  next
    case False
    with that w' have h: "g_groups w gq = Some h" by simp
    have "p \<notin> set (slot_at h j)" if "j < 8" "p \<notin> X" for j
    proof
      assume "p \<in> set (slot_at h j)"
      from grp_okD(7) [OF gw_okD(1) [OF ok h] that(1) this that(2)]
        grp_member_group [OF gk _ that(2)] ix xy(1) False show False by auto
    qed
    then have "grp_ok X w' gq h"
      using gw_okD(1) [OF ok h] unfolding grp_ok_def w' by (simp) blast
    with gw_okD(2) [OF ok h] w' show ?thesis by simp
  qed
  moreover have "\<exists>h. g_groups w' gq = Some h \<and> q \<in> set (g_members h)"
    if q: "q \<notin> X" "pi_group (g_infos w' q) = Some gq" for q gq
  proof -
    have "q \<noteq> p" "pi_group (g_infos w q) = Some gq" using q(2) by (simp_all add: w' split: if_splits)
    with gw_okD(4) [OF ok q(1) this(2)] pm(2) g show ?thesis
      by (cases "gq = gp") (simp_all add: w')
  qed
  moreover have "\<forall>q. pi_subGroup (g_infos w' q) < 8"
    using gw_okD(3) [OF ok] by (simp add: w')
  ultimately have "gw_ok X w'" unfolding gw_ok_def by blast
  with pm show ?thesis by blast
qed

lemma gw_ok_leaders: "gw_ok X w \<Longrightarrow> g_groups w gp = Some g \<Longrightarrow> core_eq g g' \<Longrightarrow> gw_ok X (put_group w gp g')"
  using gw_ok_touch touch_put by blast

lemma slot_members_le:
  "(\<And>s. s \<in> set ss \<Longrightarrow> length (case_option [] id s) \<le> 5) \<Longrightarrow> length (slot_members ss) \<le> 5 * length ss"
proof (induction ss)
  case (Cons s ss)
  then have "length (slot_members ss) \<le> 5 * length ss" "length (case_option [] id s) \<le> 5" by simp_all
  then show ?case by (cases s) auto
qed simp

text \<open>A party has at most 5 members, a raid at most 40.\<close>

lemma grp_size:
  assumes "grp_ok X w gp g"
  shows "length (g_members g) \<le> 5 * m_SubGroupCount g" "length (g_members g) \<le> 40"
proof -
  note wk = grp_okD(1) [OF assms]
  have c: "m_SubGroupCount g \<le> 8" using wk by (simp add: walkable_def)
  have "length (case_option [] id s) \<le> 5" if "s \<in> set (take (m_SubGroupCount g) (m_SubGroups g))" for s
  proof -
    from that obtain i where "i < m_SubGroupCount g" "s = m_SubGroups g ! i"
      by (auto simp: in_set_conv_nth)
    with grp_okD(4) [OF assms, of i] c show ?thesis by (simp add: slot_at_def split: option.splits)
  qed
  then have "length (g_members g) \<le> 5 * length (take (m_SubGroupCount g) (m_SubGroups g))"
    unfolding slot_members_take [OF wk, symmetric] by (rule slot_members_le)
  then show "length (g_members g) \<le> 5 * m_SubGroupCount g" using wk by (simp add: walkable_def)
  with c show "length (g_members g) \<le> 40" by simp
qed

lemma remove_ok:
  assumes ok: "gw_ok X w" and g: "g_groups w gp = Some g" and p: "p \<in> set (g_members g)" and X: "X \<subseteq> {p}"
  shows "\<exists>w'. g_remove_player w gp p = Some w' \<and> gw_ok X w' \<and> g_nextPtr w' = g_nextPtr w \<and>
    (\<forall>gq. gq \<noteq> gp \<longrightarrow> g_groups w' gq = g_groups w gq) \<and>
    (\<forall>g'. g_groups w' gp = Some g' \<longrightarrow> set (g_members g') = set (g_members g) - {p}) \<and>
    pi_group (g_infos w' p) = None \<and> pi_online (g_infos w' p) = pi_online (g_infos w p) \<and>
    (g_groups w' gp = None \<longleftrightarrow> length (g_members g) \<le> 2 \<and>
       \<not> has_flag (m_groupFlags g) GROUP_FLAG_DONT_DISBAND_WITH_NO_MEMBERS) \<and>
    (g_groups w' gp = None \<longrightarrow> (\<forall>q \<in> set (g_members g). pi_group (g_infos w' q) = None))"
proof -
  define w1 where "w1 = (if pi_online (g_infos w p) then emit [G_PlayerLeftGroup gp p] w else w)"
  define w2 where "w2 = (if m_isqueued g then emit [G_RemoveFromQueues gp] (put_group w1 gp (g\<lparr> m_isqueued := False \<rparr>)) else w1)"
  define g2 where "g2 = (if m_isqueued g then g\<lparr> m_isqueued := False \<rparr> else g)"
  have w1: "g_groups w1 = g_groups w" "g_infos w1 = g_infos w" "g_nextPtr w1 = g_nextPtr w" by (simp_all add: w1_def)
  have core2: "core_eq g g2" by (simp add: core_eq_def g2_def)
  have w2: "g_groups w2 = (g_groups w)(gp \<mapsto> g2)" "g_infos w2 = g_infos w" "g_nextPtr w2 = g_nextPtr w"
    using g by (auto simp: w2_def w1 g2_def fun_upd_idem)
  have "touch gp w w2" using w2 g core2 by (auto simp: touch_def)
  then have ok2: "gw_ok X w2" by (rule gw_ok_touch [OF ok])
  have g2: "g_groups w2 gp = Some g2" using w2 by simp
  note gk = gw_okD(1) [OF ok2 g2]
  have mem2: "g_members g2 = g_members g" using core2 by (simp add: core_eq_def g_members_def)
  obtain ix where ix: "ix < m_SubGroupCount g2" "g_locate 0 g2 p (pi_subGroup (g_infos w p)) = Some (Some ix)"
    "p \<in> set (slot_at g2 ix)"
    using locate_member [OF grp_okD(1) [OF gk], of p "pi_subGroup (g_infos w p)" 0] p mem2 gw_okD(3) [OF ok] by auto
  define g4 where "g4 = g2\<lparr> m_SubGroups := (m_SubGroups g2)[ix := Some (set_erase p (slot_at g2 ix))] \<rparr>"
  define g5 where "g5 = g4\<lparr> m_dirty := True, m_MemberCount := m_MemberCount g4 - 1 \<rparr>"
  define w4 where "w4 = put_info (put_group (leave_info w2 p) gp g4) p ((g_infos (leave_info w2 p) p)\<lparr> pi_subGroup := -1 \<rparr>)"
  define w5 where "w5 = rp_farewell (put_group w4 gp g5) p"
  have sg: "sg_remove_player (leave_info w2 p) gp ix p = Some w4"
    using deref_ok [OF grp_okD(1) [OF gk] ix(1)] by (simp add: sg_remove_player_def g2 w4_def g4_def)
  have w5: "g_groups w5 = (g_groups w2)(gp \<mapsto> g5)" "g_nextPtr w5 = g_nextPtr w2"
    "g_infos w5 = (g_infos w2)(p := (g_infos w2 p)\<lparr> pi_group := None, pi_subGroup := -1 \<rparr>)"
    by (simp_all add: w5_def rp_farewell_def w4_def)
  have core5: "core_eq (g2\<lparr> m_SubGroups := (m_SubGroups g2)[ix := Some (set_erase p (slot_at g2 ix))],
      m_MemberCount := m_MemberCount g2 - 1 \<rparr>) g5"
    by (simp add: core_eq_def g5_def g4_def)
  from gw_ok_take [OF ok2 g2 ix(1,3) core5 w5(3,1,2)]
  have ok5: "gw_ok X w5" and mem5: "p \<notin> set (g_members g5)" "set (g_members g5) = set (g_members g) - {p}"
    using mem2 by auto
  have g5: "g_groups w5 gp = Some g5" using w5 by simp
  note gk5 = gw_okD(1) [OF ok5 g5]
  have flags5: "m_groupFlags g5 = m_groupFlags g" using core2 by (simp add: g5_def g4_def core_eq_def)
  have len5: "length (g_members g5) = length (g_members g) - 1"
    using distinct_card [OF grp_okD(5) [OF gk5]] distinct_card [OF grp_okD(5) [OF gk]] mem5 mem2 p
    by simp
  have small: "length (g_members g5) \<le> 40" using grp_size [OF gk5] by simp
  have cnt: "m_MemberCount g4 - 1 < 2 \<longleftrightarrow> length (g_members g) \<le> 2"
  proof -
    have "m_MemberCount g4 - 1 = of_nat (length (g_members g5))"
      using grp_okD(6) [OF gk5] by (simp add: g5_def)
    moreover have "unat (of_nat (length (g_members g5)) :: u32) = length (g_members g5)"
      using small by (simp add: unat_of_nat)
    moreover have "length (g_members g) - 1 < 2 \<longleftrightarrow> length (g_members g) \<le> 2" by linarith
    ultimately show ?thesis using len5 by (simp add: word_less_nat_alt)
  qed
  have step: "g_remove_player w gp p =
    (if length (g_members g) \<le> 2 \<and> \<not> has_flag (m_groupFlags g) GROUP_FLAG_DONT_DISBAND_WITH_NO_MEMBERS
     then g_disband w5 gp else rp_succession g_update w5 gp p)"
  proof -
    have f4: "m_groupFlags g4 = m_groupFlags g" using flags5 by (simp add: g5_def)
    have "g_remove_player w gp p =
      (if m_MemberCount g4 - 1 < 2 \<and> \<not> has_flag (m_groupFlags g4) GROUP_FLAG_DONT_DISBAND_WITH_NO_MEMBERS
       then g_disband w5 gp else rp_succession g_update w5 gp p)"
      unfolding g_remove_player_def g_remove_player_with_def
      by (simp only: g g2 ix(2) sg Option.bind_lunit Let_def option.case w4_def groups_put infos_put fun_upd_same
          flip: w1_def w2_def g5_def w5_def) (simp add: g5_def w5_def w4_def)
    then show ?thesis by (simp only: cnt f4)
  qed
  show ?thesis
  proof (cases "length (g_members g) \<le> 2 \<and> \<not> has_flag (m_groupFlags g) GROUP_FLAG_DONT_DISBAND_WITH_NO_MEMBERS")
    case True
    obtain w' where w': "g_disband w5 gp = Some w'" "g_infos w' = left_all (set (g_members g5)) (g_infos w5)"
      "g_nextPtr w' = g_nextPtr w5" "g_groups w' = (g_groups w5)(gp := None)"
      using disband_ok [OF g5 grp_okD(1) [OF gk5]] by blast
    have "gw_ok X w'"
      by (rule gw_ok_drop [OF ok5 g5 _ w'(2-4)]) (use X mem5 in auto)
    with w' step True w5 w2 mem5 show ?thesis
      by (intro exI [of _ w']) (auto simp: left_all_def)
  next
    case False
    obtain w' where w': "rp_succession g_update w5 gp p = Some w'" "touch gp w5 w'"
      using succession_touch [OF calm_ok [OF ok5 g5]] by blast
    then obtain g' where g': "g_groups w' = (g_groups w5)(gp \<mapsto> g')" "core_eq g5 g'" "g_infos w' = g_infos w5"
      "g_nextPtr w' = g_nextPtr w5" using g5 by (auto simp: touch_def)
    have "g_members g' = g_members g5" using g'(2) by (simp add: core_eq_def g_members_def)
    with w' step False w5 w2 mem5 g' gw_ok_touch [OF ok5 w'(2)] show ?thesis
      by (intro exI [of _ w']) auto
  qed
qed

section \<open>Adding a member keeps the invariant\<close>

lemma slot_unique:
  assumes "distinct (g_members g)" "p \<in> set (slot_at g i)" "p \<in> set (slot_at g j)"
    "i < length (m_SubGroups g)" "j < length (m_SubGroups g)"
  shows "i = j"
proof (rule ccontr)
  assume "i \<noteq> j"
  let ?ss = "m_SubGroups g"
  let ?h = "g\<lparr> m_SubGroups := ?ss[i := None] \<rparr>"
  have "slot_at ?h j = slot_at g j" using \<open>i \<noteq> j\<close> by (simp add: slot_at_def)
  then have "p \<in> set (g_members ?h)" using assms(3,5) by (auto simp: set_g_members)
  moreover have "case_option [] id (?ss ! i) = slot_at g i" by (simp add: slot_at_def split: option.split)
  ultimately show False
    using slot_members_split [OF assms(4)] assms(1,2) by (auto simp: g_members_def)
qed

lemma free_slot_ok:
  assumes "None \<notin> set ss"
  shows "(\<exists>i < length ss. free_slot ss k = Some (Some (k + i)) \<and> length (case_option [] id (ss ! i)) < 5) \<or>
    (free_slot ss k = Some None \<and> 5 * length ss \<le> length (slot_members ss))"
  using assms
proof (induction ss arbitrary: k)
  case (Cons s ss)
  then obtain sg where s: "s = Some sg" by (cases s) auto
  show ?case
  proof (cases "sg_is_full sg")
    case True
    from Cons.IH [of "Suc k"] Cons.prems
    consider i where "i < length ss" "free_slot ss (Suc k) = Some (Some (Suc k + i))" "length (case_option [] id (ss ! i)) < 5"
      | "free_slot ss (Suc k) = Some None" "5 * length ss \<le> length (slot_members ss)" by auto
    then show ?thesis
    proof cases
      case 1
      then show ?thesis using True s by (intro disjI1 exI [of _ "Suc i"]) simp
    next
      case 2
      then show ?thesis using True s by (simp add: sg_is_full_def group_consts)
    qed
  next
    case False
    then show ?thesis using s by (intro disjI1 exI [of _ 0]) (simp add: sg_is_full_def group_consts)
  qed
qed simp

text \<open>A group that is not full has a subgroup with room.\<close>

lemma find_free_ok:
  assumes "grp_ok X w gp g" "\<not> g_is_full g"
  shows "\<exists>ix < m_SubGroupCount g. g_find_free g = Some (Some ix) \<and> length (slot_at g ix) < 5"
proof -
  note wk = grp_okD(1) [OF assms(1)]
  let ?ss = "take (m_SubGroupCount g) (m_SubGroups g)"
  have c: "m_SubGroupCount g \<le> 8" "length ?ss = m_SubGroupCount g" using wk by (auto simp: walkable_def)
  have cnt: "unat (m_MemberCount g) = length (g_members g)"
    using grp_okD(6) [OF assms(1)] grp_size(2) [OF assms(1)] by (simp add: unat_of_nat)
  have "length (g_members g) < 5 * m_SubGroupCount g"
    using assms cnt by (auto simp: g_is_full_def grp_ok_def group_consts)
  then have "\<not> 5 * length ?ss \<le> length (slot_members ?ss)"
    unfolding slot_members_take [OF wk] c(2) by simp
  with free_slot_ok [OF walkable_slots(2) [OF wk], of 0] c obtain i where
    "i < m_SubGroupCount g" "free_slot ?ss 0 = Some (Some i)" "length (case_option [] id (?ss ! i)) < 5" by auto
  then show ?thesis
    by (intro exI [of _ i]) (simp add: g_find_free_def walkable_slots(1) [OF wk] slot_at_def split: option.splits)
qed

text \<open>Putting \<open>p\<close> into a slot and counting it.\<close>

lemma gw_ok_put_in:
  assumes ok: "gw_ok {} w" and g: "g_groups w gp = Some g" and p: "p \<notin> set (g_members g)"
    and ix: "ix < m_SubGroupCount g" "length (slot_at g ix) < 5"
    and core: "core_eq (g\<lparr> m_SubGroups := (m_SubGroups g)[ix := Some (insort_insert p (slot_at g ix))],
        m_MemberCount := m_MemberCount g + 1 \<rparr>) g'"
    and w': "g_infos w' = (g_infos w)(p := (g_infos w p)\<lparr> pi_subGroup := int ix \<rparr>)"
      "g_groups w' = (g_groups w)(gp \<mapsto> g')" "g_nextPtr w' = g_nextPtr w"
  shows "gw_ok {p} w' \<and> p \<in> set (slot_at g' ix) \<and> set (g_members g') = insert p (set (g_members g))"
proof -
  have gk: "grp_ok {} w gp g" by (rule gw_okD(1) [OF ok g])
  note wk = grp_okD(1) [OF gk]
  have c8: "m_SubGroupCount g \<le> 8" using wk by (simp add: walkable_def)
  let ?sg = "insort_insert p (slot_at g ix)"
  let ?h = "g\<lparr> m_SubGroups := (m_SubGroups g)[ix := Some ?sg] \<rparr>"
  note rs = replace_slot [OF wk ix(1), of ?sg]
  obtain xs ys where xy: "g_members g = xs @ slot_at g ix @ ys" "g_members ?h = xs @ ?sg @ ys"
    using rs(3) by blast
  have subs: "m_SubGroups g' = m_SubGroups ?h" "m_SubGroupCount g' = m_SubGroupCount g"
    "m_GroupType g' = m_GroupType g" "m_groupFlags g' = m_groupFlags g" "m_updateblock g' = m_updateblock g"
    "m_MemberCount g' = m_MemberCount g + 1"
    using core by (auto simp: core_eq_def)
  have wk': "walkable g'" using rs(1) subs by (simp add: walkable_def)
  have mem: "g_members g' = xs @ ?sg @ ys" using xy(2) subs by (simp add: g_members_def)
  have slots: "slot_at g' j = (if j = ix then ?sg else slot_at g j)" for j
    using rs(2) [of j] subs by (simp add: slot_at_def)
  have psl: "p \<notin> set (slot_at g ix)" using p xy(1) by simp
  have sgset: "set ?sg = insert p (set (slot_at g ix))" by (rule set_insort_insert)
  have sglen: "length ?sg = Suc (length (slot_at g ix))" by (rule length_insort_insert_notin [OF psl])
  have d: "distinct (xs @ slot_at g ix @ ys)" "p \<notin> set xs" "p \<notin> set ys"
    using grp_okD(5) [OF gk] p xy(1) by auto
  have dm: "distinct (g_members g')"
    unfolding mem using d sgset by (auto intro: distinct_insort_insert)
  have len: "length (g_members g') = Suc (length (g_members g))" by (simp add: mem xy(1) sglen)
  have other: "pi_group (g_infos w' q) = pi_group (g_infos w q)" "q \<noteq> p \<Longrightarrow> g_infos w' q = g_infos w q" for q
    by (simp_all add: w')
  have grp: "grp_ok {p} w' gp g'"
  proof -
    have "length (slot_at g' j) \<le> 5" if "j < 8" for j
      using grp_okD(4) [OF gk that] ix(2) sglen slots by auto
    moreover have "pi_group (g_infos w' q) = Some gp \<and> pi_subGroup (g_infos w' q) = int j"
      if "q \<in> set (slot_at g' j) - {p}" "j < 8" for q j
    proof -
      have "q \<in> set (slot_at g j)" "q \<noteq> p" using that slots sgset by (auto split: if_splits)
      with grp_okD(7) [OF gk that(2)] other show ?thesis by auto
    qed
    ultimately show ?thesis
      using gk wk' dm subs len by (simp add: grp_ok_def) blast
  qed
  have "gq < g_nextPtr w' \<and> grp_ok {p} w' gq h" if "g_groups w' gq = Some h" for gq h
  proof (cases "gq = gp")
    case True
    with that grp gw_okD(2) [OF ok g] w' show ?thesis by simp
  next
    case False
    with that w' have h: "g_groups w gq = Some h" by simp
    have "grp_ok {p} w' gq h"
      using gw_okD(1) [OF ok h] other unfolding grp_ok_def by simp
    with gw_okD(2) [OF ok h] w' show ?thesis by simp
  qed
  moreover have "\<exists>h. g_groups w' gq = Some h \<and> q \<in> set (g_members h)"
    if q: "q \<notin> {p}" "pi_group (g_infos w' q) = Some gq" for q gq
  proof -
    have "pi_group (g_infos w q) = Some gq" using q(2) other by simp
    with gw_okD(4) [OF ok _ this] g mem xy(1) sgset show ?thesis
      by (cases "gq = gp") (auto simp: w')
  qed
  moreover have "\<forall>q. pi_subGroup (g_infos w' q) < 8"
    using gw_okD(3) [OF ok] ix(1) c8 by (simp add: w')
  ultimately have "gw_ok {p} w'" unfolding gw_ok_def by blast
  moreover have "p \<in> set (slot_at g' ix)" using slots sgset by simp
  moreover have "set (g_members g') = insert p (set (g_members g))" using mem xy(1) sgset by auto
  ultimately show ?thesis by blast
qed

lemma gw_ok_settle:
  assumes ok: "gw_ok {p} w" and g: "g_groups w gp = Some g" and p: "p \<in> set (slot_at g ix)" "ix < 8"
    and others: "\<And>gq h. gq \<noteq> gp \<Longrightarrow> g_groups w gq = Some h \<Longrightarrow> p \<notin> set (g_members h)"
  shows "gw_ok {} (put_info w p ((g_infos w p)\<lparr> pi_group := Some gp, pi_subGroup := int ix \<rparr>))" (is "gw_ok {} ?w")
proof -
  have "gq < g_nextPtr ?w \<and> grp_ok {} ?w gq h" if h: "g_groups ?w gq = Some h" for gq h
  proof -
    from h have h': "g_groups w gq = Some h" by simp
    note hk = gw_okD(1) [OF ok h']
    have len: "length (m_SubGroups h) = 8" using grp_okD(1) [OF hk] by (simp add: walkable_def)
    have "pi_group (g_infos ?w q) = Some gq \<and> pi_subGroup (g_infos ?w q) = int j"
      if "q \<in> set (slot_at h j)" "j < 8" for q j
    proof (cases "q = p")
      case True
      have "p \<in> set (g_members h)" using that True len by (auto simp: set_g_members)
      with others [of gq h] h' have gq: "gq = gp" by blast
      with g h' have "h = g" by simp
      with slot_unique [OF grp_okD(5) [OF hk], of p j ix] that True p len have "j = ix" by simp
      with True gq show ?thesis by simp
    next
      case False
      with grp_okD(7) [OF hk that(2,1)] show ?thesis by simp
    qed
    then have "grp_ok {} ?w gq h" using hk by (simp add: grp_ok_def)
    with gw_okD(2) [OF ok h'] show ?thesis by simp
  qed
  moreover have "\<exists>h. g_groups ?w gq = Some h \<and> q \<in> set (g_members h)"
    if q: "pi_group (g_infos ?w q) = Some gq" for q gq
  proof (cases "q = p")
    case True
    with q have "gq = gp" by simp
    moreover have "p \<in> set (g_members g)"
      using p grp_okD(1) [OF gw_okD(1) [OF ok g]] by (auto simp: set_g_members walkable_def)
    ultimately show ?thesis using True g by simp
  next
    case False
    with q gw_okD(4) [OF ok, of q gq] show ?thesis by simp
  qed
  moreover have "\<forall>q. pi_subGroup (g_infos ?w q) < 8" using gw_okD(3) [OF ok] p(2) by simp
  ultimately show ?thesis unfolding gw_ok_def by blast
qed

lemma add_ok:
  assumes ok: "gw_ok {} w" and g: "g_groups w gp = Some g" and p: "p \<notin> set (g_members g)" and room: "\<not> g_is_full g"
  shows "\<exists>w'. g_add_member w gp p (-1) = Some (w', True) \<and> gw_ok {} w' \<and> pi_group (g_infos w' p) = Some gp \<and>
    g_nextPtr w' = g_nextPtr w \<and>
    (\<exists>g'. g_groups w' gp = Some g' \<and> set (g_members g') = insert p (set (g_members g)) \<and> m_GroupType g' = m_GroupType g)"
proof -
  define w1 where "w1 = (if m_isqueued g then emit [G_RemoveFromQueues gp] (put_group w gp (g\<lparr> m_isqueued := False \<rparr>)) else w)"
  define g1 where "g1 = (if m_isqueued g then g\<lparr> m_isqueued := False \<rparr> else g)"
  have core1: "core_eq g g1" by (simp add: core_eq_def g1_def)
  have w1: "g_groups w1 = (g_groups w)(gp \<mapsto> g1)" "g_infos w1 = g_infos w" "g_nextPtr w1 = g_nextPtr w"
    using g by (auto simp: w1_def g1_def fun_upd_idem)
  have "touch gp w w1" using w1 g core1 by (auto simp: touch_def)
  then have ok1: "gw_ok {} w1" by (rule gw_ok_touch [OF ok])
  have gg1: "g_groups w1 gp = Some g1" using w1 by simp
  note gk1 = gw_okD(1) [OF ok1 gg1]
  have mem1: "g_members g1 = g_members g" using core1 by (simp add: core_eq_def g_members_def)
  have same: "g_find_free g1 = g_find_free g" using core1 by (simp add: core_eq_def g_find_free_def sg_slots_def)
  have full1: "\<not> g_is_full g1" using room core1 by (simp add: core_eq_def g_is_full_def)
  obtain ix where ix: "ix < m_SubGroupCount g1" "g_find_free g1 = Some (Some ix)" "length (slot_at g1 ix) < 5"
    using find_free_ok [OF gk1 full1] by blast
  have ix8: "ix < 8" using ix(1) grp_okD(1) [OF gk1] by (simp add: walkable_def)
  define g2 where "g2 = g1\<lparr> m_SubGroups := (m_SubGroups g1)[ix := Some (insort_insert p (slot_at g1 ix))] \<rparr>"
  define w2 where "w2 = put_info (put_group w1 gp g2) p ((g_infos w1 p)\<lparr> pi_subGroup := int ix \<rparr>)"
  have sg: "sg_add_player w1 gp ix p = Some (w2, True)"
    using deref_ok [OF grp_okD(1) [OF gk1] ix(1)] ix(3) gg1
    by (simp add: sg_add_player_def sg_is_full_def group_consts w2_def g2_def)
  define w3 where "w3 = (if pi_online (g_infos w2 p) then emit [G_Schedule_FullUpdate p] w2 else w2)"
  define g3 where "g3 = g2\<lparr> m_dirty := True, m_MemberCount := m_MemberCount g2 + 1 \<rparr>"
  have w3: "g_groups (put_group w3 gp g3) = (g_groups w1)(gp \<mapsto> g3)" "g_groups w3 gp = Some g2"
    "g_infos (put_group w3 gp g3) = (g_infos w1)(p := (g_infos w1 p)\<lparr> pi_subGroup := int ix \<rparr>)"
    "g_nextPtr (put_group w3 gp g3) = g_nextPtr w1"
    by (simp_all add: w3_def w2_def)
  have core3: "core_eq (g1\<lparr> m_SubGroups := (m_SubGroups g1)[ix := Some (insort_insert p (slot_at g1 ix))],
      m_MemberCount := m_MemberCount g1 + 1 \<rparr>) g3"
    by (simp add: core_eq_def g3_def g2_def)
  have p1: "p \<notin> set (g_members g1)" using p mem1 by simp
  from gw_ok_put_in [OF ok1 gg1 p1 ix(1,3) core3 w3(3,1,4)]
  have ok3: "gw_ok {p} (put_group w3 gp g3)" and in3: "p \<in> set (slot_at g3 ix)" "set (g_members g3) = insert p (set (g_members g))"
    using mem1 by auto
  have gg3: "g_groups (put_group w3 gp g3) gp = Some g3" by simp
  obtain w4 where w4: "g_update (put_group w3 gp g3) gp = Some w4" "touch gp (put_group w3 gp g3) w4"
    using update_touch [OF calm_ok [OF ok3 gg3]] by blast
  then obtain g4 where "g_groups w4 = (g_groups (put_group w3 gp g3))(gp \<mapsto> g4)" "core_eq g3 g4"
    "g_infos w4 = g_infos (put_group w3 gp g3)" "g_nextPtr w4 = g_nextPtr (put_group w3 gp g3)"
    using gg3 unfolding touch_def by (metis option.inject)
  then have g4: "g_groups w4 = (g_groups w1)(gp \<mapsto> g4)" "core_eq g3 g4"
    "g_infos w4 = (g_infos w1)(p := (g_infos w1 p)\<lparr> pi_subGroup := int ix \<rparr>)" "g_nextPtr w4 = g_nextPtr w1"
    unfolding w3(1,3,4) by simp_all
  have ok4: "gw_ok {p} w4" by (rule gw_ok_touch [OF ok3 w4(2)])
  have in4: "p \<in> set (slot_at g4 ix)" "set (g_members g4) = insert p (set (g_members g))"
    using in3 g4(2) by (simp_all add: core_eq_def slot_at_def g_members_def)
  have pg4: "pi_group (g_infos w4 p) = pi_group (g_infos w p)" using g4(3) w1(2) by simp
  have elsewhere: "pi_group (g_infos w p) = Some gq" if "g_groups w gq = Some h" "p \<in> set (g_members h)" for gq h
    using grp_member_group [OF gw_okD(1) [OF ok that(1)] that(2)] by simp
  obtain w5 where w5: "(case pi_group (g_infos w4 p) of None \<Rightarrow> Some w4
       | Some old \<Rightarrow> if old = gp then Some w4 else g_remove_player w4 old p) = Some w5"
    "gw_ok {p} w5" "g_groups w5 gp = Some g4" "g_nextPtr w5 = g_nextPtr w1"
    "\<And>gq h. gq \<noteq> gp \<Longrightarrow> g_groups w5 gq = Some h \<Longrightarrow> p \<notin> set (g_members h)"
  proof (cases "pi_group (g_infos w p)")
    case None
    have "p \<notin> set (g_members h)" if "gq \<noteq> gp" "g_groups w4 gq = Some h" for gq h
      using that elsewhere [of gq h] None g4(1) w1(1) by auto
    with that [of w4] None pg4 ok4 g4 show ?thesis by simp
  next
    case (Some old)
    obtain h where h: "g_groups w old = Some h" "p \<in> set (g_members h)"
      using gw_okD(4) [OF ok _ Some] by auto
    have old: "old \<noteq> gp" using h g p by auto
    have h4: "g_groups w4 old = Some h" using h(1) old g4(1) w1(1) by simp
    from remove_ok [OF ok4 h4 h(2) subset_refl] obtain w5 where r: "g_remove_player w4 old p = Some w5" "gw_ok {p} w5"
      "g_nextPtr w5 = g_nextPtr w4" "\<forall>gq. gq \<noteq> old \<longrightarrow> g_groups w5 gq = g_groups w4 gq"
      "\<forall>h'. g_groups w5 old = Some h' \<longrightarrow> set (g_members h') = set (g_members h) - {p}" by blast
    have "p \<notin> set (g_members k)" if "gq \<noteq> gp" "g_groups w5 gq = Some k" for gq k
    proof (cases "gq = old")
      case True
      with r(5) that(2) show ?thesis by auto
    next
      case False
      with that r(4) g4(1) w1(1) have "g_groups w gq = Some k" by simp
      with elsewhere [of gq k] Some False show ?thesis by auto
    qed
    with that [of w5] r Some old pg4 g4 show ?thesis by simp
  qed
  define g6 where "g6 = (if m_Leader g4 = None \<and> pi_online (g_infos w5 p) then g4\<lparr> m_Leader := Some p \<rparr> else g4)"
  have core6: "core_eq g4 g6" by (simp add: core_eq_def g6_def)
  have ok6: "gw_ok {p} (put_group w5 gp g6)" by (rule gw_ok_leaders [OF w5(2,3) core6])
  have in6: "p \<in> set (slot_at g6 ix)" "set (g_members g6) = insert p (set (g_members g))"
    using in4 core6 by (simp_all add: core_eq_def slot_at_def g_members_def)
  define w' where "w' = put_info (put_group w5 gp g6) p ((g_infos w5 p)\<lparr> pi_group := Some gp, pi_subGroup := int ix \<rparr>)"
  have "gw_ok {} w'"
    using gw_ok_settle [OF ok6 _ in6(1) ix8, of gp] w5(5) by (simp add: w'_def)
  moreover have "g_add_member w gp p (-1) = Some (w', True)"
  proof -
    have "g_add_member w gp p (-1) = g_update (put_group w3 gp g3) gp \<bind> (\<lambda>w4.
       (case pi_group (g_infos w4 p) of None \<Rightarrow> Some w4
         | Some old \<Rightarrow> if old = gp then Some w4 else g_remove_player w4 old p) \<bind> (\<lambda>w5.
       g_groups w5 gp \<bind> (\<lambda>g5. Some (put_info (put_group w5 gp
           (if m_Leader g5 = None \<and> pi_online (g_infos w5 p) then g5\<lparr> m_Leader := Some p \<rparr> else g5)) p
         ((g_infos w5 p)\<lparr> pi_group := Some gp, pi_subGroup := int ix \<rparr>), True))))"
      using g room ix(2) sg w3(2)
      by (simp add: g_add_member_def same g3_def Let_def cong: if_cong flip: w1_def w3_def)
    then show ?thesis by (simp add: w4(1) w5(1,3) w'_def g6_def del: option.case)
  qed
  moreover have "pi_group (g_infos w' p) = Some gp" "g_nextPtr w' = g_nextPtr w" "g_groups w' gp = Some g6"
    using w5(4) w1(3) by (simp_all add: w'_def)
  moreover have "m_GroupType g6 = m_GroupType g"
    using core1 g4(2) core6 by (simp add: core_eq_def g3_def g2_def)
  ultimately show ?thesis using in6(2) by blast
qed

section \<open>The remaining operations\<close>

lemma move_ok:
  assumes ok: "gw_ok {} w" and g: "g_groups w gp = Some g" and p: "p \<in> set (g_members g)"
  shows "\<exists>w'. g_move_player w gp p to = Some w' \<and> gw_ok {} w' \<and>
    (to < m_SubGroupCount g \<longrightarrow> length (slot_at g to) < 5 \<longrightarrow>
      (\<exists>g'. g_groups w' gp = Some g' \<and> p \<in> set (slot_at g' to) \<and> m_GroupType g' = m_GroupType g))"
proof (cases "m_SubGroupCount g \<le> to \<or> sg_is_full (slot_at g to)")
  case True
  note wk = grp_okD(1) [OF gw_okD(1) [OF ok g]]
  have "to < m_SubGroupCount g \<Longrightarrow> sg_deref g to = Some (slot_at g to)" by (rule deref_ok [OF wk])
  with True g ok show ?thesis
    by (cases "m_SubGroupCount g \<le> to") (simp_all add: g_move_player_def sg_is_full_def group_consts)
next
  case False
  then have to: "to < m_SubGroupCount g" "length (slot_at g to) < 5"
    by (simp_all add: sg_is_full_def group_consts)
  note gk = gw_okD(1) [OF ok g]
  note wk = grp_okD(1) [OF gk]
  have to8: "to < 8" using to(1) wk by (simp add: walkable_def)
  obtain ix where ix: "ix < m_SubGroupCount g" "g_locate 1 g p (pi_subGroup (g_infos w p)) = Some (Some ix)"
    "p \<in> set (slot_at g ix)"
    using locate_member [OF wk p gw_okD(3) [OF ok]] by blast
  let ?er = "set_erase p (slot_at g ix)"
  define gA where "gA = g\<lparr> m_SubGroups := (m_SubGroups g)[ix := Some ?er], m_MemberCount := m_MemberCount g - 1 \<rparr>"
  define wA where "wA = put_group (leave_info w p) gp gA"
  have wA: "g_infos wA = (g_infos w)(p := (g_infos w p)\<lparr> pi_group := None, pi_subGroup := -1 \<rparr>)"
    "g_groups wA = (g_groups w)(gp \<mapsto> gA)" "g_nextPtr wA = g_nextPtr w" by (simp_all add: wA_def)
  from gw_ok_take [OF ok g ix(1,3) _ wA] have okA: "gw_ok {} wA" and pA: "p \<notin> set (g_members gA)"
    by (simp_all add: gA_def)
  have gA: "g_groups wA gp = Some gA" "m_SubGroupCount gA = m_SubGroupCount g" by (simp_all add: wA gA_def)
  note wkA = grp_okD(1) [OF gw_okD(1) [OF okA gA(1)]]
  have slotA: "slot_at gA to = (if to = ix then ?er else slot_at g to)"
    using replace_slot(2) [OF wk ix(1), of ?er to] by (simp add: gA_def slot_at_def)
  have "length ?er \<le> length (slot_at g ix)" by (simp add: set_erase_def)
  then have toA: "length (slot_at gA to) < 5" using to(2) slotA by auto
  define gB where "gB = gA\<lparr> m_SubGroups := (m_SubGroups gA)[to := Some (insort_insert p (slot_at gA to))],
      m_MemberCount := m_MemberCount gA + 1 \<rparr>"
  define wB where "wB = put_info (put_group wA gp gB) p ((g_infos wA p)\<lparr> pi_subGroup := int to \<rparr>)"
  have wB: "g_infos wB = (g_infos wA)(p := (g_infos wA p)\<lparr> pi_subGroup := int to \<rparr>)"
    "g_groups wB = (g_groups wA)(gp \<mapsto> gB)" "g_nextPtr wB = g_nextPtr wA" by (simp_all add: wB_def)
  from gw_ok_put_in [OF okA gA(1) pA _ toA _ wB] to(1) gA(2)
  have okB: "gw_ok {p} wB" and pB: "p \<in> set (slot_at gB to)" by (simp_all add: gB_def)
  have others: "p \<notin> set (g_members h)" if "gq \<noteq> gp" "g_groups wB gq = Some h" for gq h
  proof -
    have h: "g_groups w gq = Some h" using that by (simp add: wA wB)
    show ?thesis
      using grp_member_group [OF gw_okD(1) [OF ok h], of p] grp_member_group [OF gk p] that(1) by auto
  qed
  define w3 where "w3 = put_info wB p ((g_infos wB p)\<lparr> pi_group := Some gp, pi_subGroup := int to \<rparr>)"
  have gB: "g_groups wB gp = Some gB" by (simp add: wB)
  have ok3: "gw_ok {} w3"
    unfolding w3_def by (rule gw_ok_settle [OF okB gB pB to8 others])
  \<comment> \<open>the same state, as the code reaches it\<close>
  let ?g1 = "g\<lparr> m_SubGroups := (m_SubGroups g)[ix := Some ?er] \<rparr>"
  define w1 where "w1 = put_info (put_group w gp ?g1) p ((g_infos w p)\<lparr> pi_subGroup := -1 \<rparr>)"
  have r1: "sg_remove_player w gp ix p = Some w1"
    using deref_ok [OF wk ix(1)] by (simp add: sg_remove_player_def g w1_def)
  have d1: "sg_deref ?g1 to = Some (slot_at gA to)"
    using deref_ok [OF replace_slot(1) [OF wk ix(1), of ?er], of to] to(1) replace_slot(2) [OF wk ix(1), of ?er to] slotA
    by simp
  let ?g2 = "?g1\<lparr> m_SubGroups := (m_SubGroups ?g1)[to := Some (insort_insert p (slot_at gA to))] \<rparr>"
  define w2 where "w2 = put_info (put_group w1 gp ?g2) p ((g_infos w1 p)\<lparr> pi_subGroup := int to \<rparr>)"
  have r2: "sg_add_player w1 gp to p = Some (w2, True)"
    using d1 toA by (simp add: sg_add_player_def w1_def sg_is_full_def group_consts w2_def)
  have swap: "i\<lparr> pi_subGroup := a, pi_group := b \<rparr> = i\<lparr> pi_group := b, pi_subGroup := a \<rparr>" for i :: player_info and a b
    by (cases i) simp
  have r3: "put_info w2 p ((g_infos w2 p)\<lparr> pi_subGroup := int to, pi_group := Some gp \<rparr>) = w3"
    by (simp add: swap w3_def w2_def w1_def wB_def wA_def gB_def gA_def put_info_def put_group_def leave_info_def)
  have d0: "sg_deref g to = Some (slot_at g to)" by (rule deref_ok [OF wk to(1)])
  have step: "g_move_player w gp p to = g_update w3 gp"
    using g to False d0 ix(2) r1 r2 by (simp add: g_move_player_def r3)
  have "calm w3 gp" by (rule calm_ok [OF ok3, of _ gB]) (simp add: w3_def gB)
  then obtain w' where w': "g_update w3 gp = Some w'" "touch gp w3 w'" using update_touch by blast
  moreover have "g_groups w3 gp = Some gB" by (simp add: w3_def gB)
  ultimately obtain g' where "g_groups w' gp = Some g'" "core_eq gB g'" by (auto simp: touch_def)
  moreover from this(2) have "p \<in> set (slot_at g' to)" "m_GroupType g' = m_GroupType g"
    using pB by (simp_all add: core_eq_def slot_at_def) (simp add: gB_def gA_def)
  ultimately show ?thesis
    using w' gw_ok_touch [OF ok3 w'(2)] step by auto
qed

lemma expand_ok:
  assumes ok: "gw_ok {} w" and g: "g_groups w gp = Some g" and party: "m_GroupType g = GROUP_TYPE_PARTY"
  shows "\<exists>w'. g_expand_to_raid w gp = Some w' \<and> gw_ok {} w' \<and>
    (\<exists>g'. g_groups w' gp = Some g' \<and> m_GroupType g' = GROUP_TYPE_RAID \<and> set (g_members g') = set (g_members g))"
proof -
  obtain w1 where w1: "g_leave_queue_loud w gp = Some w1" "touch gp w w1"
    using leave_queue_loud_ok [OF g grp_okD(1) [OF gw_okD(1) [OF ok g]]] by blast
  have ok1: "gw_ok {} w1" by (rule gw_ok_touch [OF ok w1(2)])
  obtain g1 where g1: "g_groups w1 gp = Some g1" "core_eq g g1" using w1(2) g by (auto simp: touch_def)
  note gk = gw_okD(1) [OF ok1 g1(1)]
  note wk = grp_okD(1) [OF gk]
  have one: "m_SubGroupCount g1 = 1" "length (m_SubGroups g1) = 8"
    using gk party g1(2) wk by (auto simp: grp_ok_def core_eq_def group_consts walkable_def)
  let ?g2 = "g1\<lparr> m_SubGroupCount := 8, m_SubGroups := take 1 (m_SubGroups g1) @ replicate 7 (Some []),
       m_GroupType := GROUP_TYPE_RAID, m_dirty := True \<rparr>"
  have s0: "m_SubGroups g1 ! 0 = Some (slot_at g1 0)" by (rule slot_at_Some [OF wk]) (simp add: one)
  have wk2: "walkable ?g2"
    using one s0 by (auto simp: walkable_def nth_append nth_Cons' take_Suc_conv_app_nth)
  have slots: "slot_at ?g2 i = slot_at g1 i" if "i < 8" for i
  proof (cases "i = 0")
    case True
    then show ?thesis using one s0 by (simp add: slot_at_def nth_append)
  next
    case False
    then show ?thesis using that one slot_at_None [OF wk, of i] by (simp add: slot_at_def nth_append)
  qed
  have mem: "g_members ?g2 = g_members g1"
  proof -
    have "slot_members (replicate 7 (Some [])) = ([] :: infoptr list)" by (simp add: numeral_eq_Suc)
    then show ?thesis using slot_members_take [OF wk] one by (simp add: g_members_def)
  qed
  let ?w2 = "put_group w1 gp ?g2"
  have "grp_ok {} ?w2 gp ?g2"
    using gk wk2 slots mem by (simp add: grp_ok_def)
  moreover have "grp_ok {} ?w2 gq h" if "g_groups w1 gq = Some h" for gq h
    using gw_okD(1) [OF ok1 that] by (simp add: grp_ok_def)
  moreover have "\<exists>h. g_groups ?w2 gq = Some h \<and> p \<in> set (g_members h)" if "pi_group (g_infos ?w2 p) = Some gq" for p gq
    using gw_okD(4) [OF ok1, of p gq] that g1(1) mem by (cases "gq = gp") auto
  ultimately have ok2: "gw_ok {} ?w2"
    using gw_okD(2,3) [OF ok1] g1(1) by (simp add: gw_ok_def)
  have "calm ?w2 gp" by (rule calm_ok [OF ok2, of _ ?g2]) simp
  then obtain w' where w': "g_update ?w2 gp = Some w'" "touch gp ?w2 w'" using update_touch by blast
  then obtain g' where "g_groups w' gp = Some g'" "core_eq ?g2 g'" by (auto simp: touch_def)
  moreover have "g_members g1 = g_members g" using g1(2) by (simp add: core_eq_def g_members_def)
  ultimately have "g_groups w' gp = Some g' \<and> m_GroupType g' = GROUP_TYPE_RAID \<and> set (g_members g') = set (g_members g)"
    using mem by (simp add: core_eq_def g_members_def)
  with w1 g1 w' gw_ok_touch [OF ok2 w'(2)] show ?thesis by (auto simp: g_expand_to_raid_def)
qed

lemma create_ok:
  assumes "gw_ok {} w"
  shows "gw_ok {} (fst (g_create w))"
proof -
  have fresh: "g_groups w (g_nextPtr w) = None"
    using gw_okD(2) [OF assms, of "g_nextPtr w"] by (cases "g_groups w (g_nextPtr w)") auto
  have "slot_at (g_init gid) i = []" if "i < 8" for gid i
    using that by (cases i) (simp_all add: slot_at_def g_init_def)
  moreover have "g_members (g_init gid) = []" for gid
    by (simp add: g_members_def g_init_def numeral_eq_Suc)
  moreover have "walkable (g_init gid)" for gid
    by (auto simp: walkable_def g_init_def nth_Cons')
  ultimately have init: "grp_ok {} v gp (g_init gid)" for v gp gid
    by (simp add: grp_ok_def) (simp add: g_init_def)
  have "grp_ok {} (fst (g_create w)) gq h" if "g_groups w gq = Some h" for gq h
    using gw_okD(1) [OF assms that] by (simp add: grp_ok_def g_create_def)
  with init gw_okD(2-4) [OF assms] fresh show ?thesis
    by (fastforce simp: gw_ok_def g_create_def)
qed

lemma settings_ok:
  assumes "gw_ok {} w" "g_groups w gp = Some g" "core_eq g g'"
  shows "\<exists>w'. g_update (put_group w gp g') gp = Some w' \<and> gw_ok {} w'"
proof -
  have ok: "gw_ok {} (put_group w gp g')" by (rule gw_ok_leaders [OF assms])
  then have "calm (put_group w gp g') gp" by (rule calm_ok [of _ _ _ g']) simp
  with update_touch gw_ok_touch [OF ok] show ?thesis by metis
qed

lemma load_columns_upt: "load_columns count = [8..<8 + 5 * count]"
proof (induction count)
  case (Suc n)
  have "map (\<lambda>j. 8 + n * 5 + j) [0..<5] = [8 + 5 * n..<8 + 5 * Suc n]"
    by (rule nth_equalityI) simp_all
  then have "load_columns (Suc n) = load_columns n @ [8 + 5 * n..<8 + 5 * Suc n]"
    by (simp add: load_columns_def)
  also have "\<dots> = [8..<8 + 5 * Suc n]"
    unfolding Suc using upt_add_eq_append [of 8 "8 + 5 * n" 5] by (simp add: algebra_simps)
  finally show ?case .
qed (simp add: load_columns_def)

section \<open>Histories of the groups\<close>

datatype grp_op =
    GO_Create | GO_Add gptr infoptr | GO_Remove gptr infoptr | GO_Move gptr infoptr nat
  | GO_SetLeader gptr "infoptr option" bool | GO_SetLooter gptr "infoptr option" u8 u16
  | GO_Expand gptr | GO_Disband gptr | GO_Assist gptr "infoptr option" | GO_Tank gptr "infoptr option"
  | GO_AssistLeader gptr "infoptr option" | GO_Info infoptr bool bool bool
  | GO_Flag gptr u8 | GO_Queued gptr bool | GO_Delete gptr | GO_Load "u32 \<Rightarrow> infoptr option" "u32 list"

fun g_exec :: "gworld \<Rightarrow> grp_op \<Rightarrow> gworld option" where
  "g_exec w GO_Create = Some (fst (g_create w))"
| "g_exec w (GO_Add gp p) = map_option fst (g_add_member w gp p (-1))"
| "g_exec w (GO_Remove gp p) = g_remove_player w gp p"
| "g_exec w (GO_Move gp p to) = g_move_player w gp p to"
| "g_exec w (GO_SetLeader gp plr silent) = g_set_leader w gp plr silent"
| "g_exec w (GO_SetLooter gp plr meth thr) = g_set_looter w gp plr meth thr"
| "g_exec w (GO_Expand gp) = g_expand_to_raid w gp"
| "g_exec w (GO_Disband gp) = g_disband w gp"
| "g_exec w (GO_Assist gp q) = g_set_main_assist w gp q"
| "g_exec w (GO_Tank gp q) = g_set_main_tank w gp q"
| "g_exec w (GO_AssistLeader gp q) = g_set_assistant w gp q"
| "g_exec w (GO_Info p on inw inst) = Some (put_info w p ((g_infos w p)\<lparr> pi_online := on, pi_inworld := inw, pi_instance := inst \<rparr>))"
| "g_exec w (GO_Flag gp f) = g_set_flag w gp f"
| "g_exec w (GO_Queued gp b) = g_set_queued w gp b"
| "g_exec w (GO_Delete gp) = g_delete w gp"
| "g_exec w (GO_Load find_info row) = g_load_new find_info w row"

text \<open>
  The players that the loops of \<open>LoadFromDB\<close> find, in their order, and a row that reads back as a group: of one
  of the two kinds, with nobody read twice and nobody who is in a group already.
\<close>

definition row_players :: "(u32 \<Rightarrow> infoptr option) \<Rightarrow> u32 list \<Rightarrow> nat list \<Rightarrow> infoptr list" where
  "row_players find_info row cols =
     List.map_filter (\<lambda>c. if row ! c = 0 then None else find_info (row ! c)) cols"

definition good_row :: "(u32 \<Rightarrow> infoptr option) \<Rightarrow> u32 list \<Rightarrow> gworld \<Rightarrow> bool" where
  "good_row find_info row w \<longleftrightarrow>
     (let count = unat (ucast (row ! 2) :: u8); kind = (ucast (row ! 1) :: u8); ps = row_players find_info row (load_columns count)
      in 8 + 5 * count \<le> length row \<and> (kind = GROUP_TYPE_PARTY \<and> count = 1 \<or> kind = GROUP_TYPE_RAID \<and> count = 8) \<and>
         distinct ps \<and> (\<forall>p \<in> set ps. pi_group (g_infos w p) = None))"

text \<open>
  What the callers see to: the group is alive, only members are removed or moved, and a group that is deleted
  has no members left. No caller sets \<open>GROUP_FLAG_REMOVE_OFFLINE_PLAYERS\<close>. Four more conditions keep the
  invariant and are not seen to by all callers: a member is not added again (\<open>HandleGroupAcceptOpcode\<close> does not look),
  a player who is in another group is not added to a full one, a raid is not converted again
  (\<open>HandleConvertGroupToRaidOpcode\<close> does not look, see \<open>g_expand_again_loses_members\<close>), and the row of a loaded
  group is a \<open>good_row\<close> (the main assistant is read as a member too, see \<open>g_load_shifted\<close>).
\<close>

fun g_ready :: "gworld \<Rightarrow> grp_op \<Rightarrow> bool" where
  "g_ready w GO_Create = True"
| "g_ready w (GO_Add gp p) = (case g_groups w gp of None \<Rightarrow> False
     | Some g \<Rightarrow> p \<notin> set (g_members g) \<and> (pi_group (g_infos w p) = None \<or> \<not> g_is_full g))"
| "g_ready w (GO_Remove gp p) = (case g_groups w gp of None \<Rightarrow> False | Some g \<Rightarrow> p \<in> set (g_members g))"
| "g_ready w (GO_Move gp p to) = (case g_groups w gp of None \<Rightarrow> False | Some g \<Rightarrow> p \<in> set (g_members g))"
| "g_ready w (GO_Expand gp) = (case g_groups w gp of None \<Rightarrow> False | Some g \<Rightarrow> m_GroupType g = GROUP_TYPE_PARTY)"
| "g_ready w (GO_SetLeader gp _ _) = (g_groups w gp \<noteq> None)"
| "g_ready w (GO_SetLooter gp _ _ _) = (g_groups w gp \<noteq> None)"
| "g_ready w (GO_Disband gp) = (g_groups w gp \<noteq> None)"
| "g_ready w (GO_Assist gp _) = (g_groups w gp \<noteq> None)"
| "g_ready w (GO_Tank gp _) = (g_groups w gp \<noteq> None)"
| "g_ready w (GO_AssistLeader gp _) = (g_groups w gp \<noteq> None)"
| "g_ready w (GO_Info _ _ _ _) = True"
| "g_ready w (GO_Flag gp f) = (g_groups w gp \<noteq> None \<and> \<not> has_flag f GROUP_FLAG_REMOVE_OFFLINE_PLAYERS)"
| "g_ready w (GO_Queued gp _) = (g_groups w gp \<noteq> None)"
| "g_ready w (GO_Delete gp) = (case g_groups w gp of None \<Rightarrow> False | Some g \<Rightarrow> g_members g = [])"
| "g_ready w (GO_Load find_info row) = good_row find_info row w"

definition world_start :: "(infoptr \<Rightarrow> player_info) \<Rightarrow> gworld" where
  "world_start infos = \<lparr> g_infos = (\<lambda>p. (infos p)\<lparr> pi_group := None, pi_subGroup := -1 \<rparr>), g_groups = (\<lambda>_. None),
     g_nextId = 1, g_nextPtr = 0, g_time = 0, g_out = [] \<rparr>"

inductive g_reach :: "gworld \<Rightarrow> bool" where
  g_start: "g_reach (world_start infos)"
| g_step: "g_reach w \<Longrightarrow> g_ready w op \<Longrightarrow> g_exec w op = Some w' \<Longrightarrow> g_reach w'"

lemma gw_ok_infos:
  assumes ok: "gw_ok {} w" and infs: "\<And>q. pi_group (infs q) = pi_group (g_infos w q)"
    "\<And>q. pi_subGroup (infs q) = pi_subGroup (g_infos w q) \<or> (pi_subGroup (infs q) < 8 \<and> pi_group (g_infos w q) = None)"
  shows "gw_ok {} (w\<lparr> g_infos := infs \<rparr>)"
proof -
  have "grp_ok {} (w\<lparr> g_infos := infs \<rparr>) gp g" if "g_groups w gp = Some g" for gp g
    using gw_okD(1) [OF ok that] infs unfolding grp_ok_def by simp (metis option.distinct(1))
  moreover have "pi_subGroup (infs q) < 8" for q using infs(2) [of q] gw_okD(3) [OF ok, of q] by auto
  ultimately show ?thesis
    using gw_okD(2,4) [OF ok] infs(1) by (simp add: gw_ok_def)
qed

lemma add_full_ok:
  assumes ok: "gw_ok {} w" and g: "g_groups w gp = Some g" and full: "g_is_full g" "pi_group (g_infos w p) = None"
  shows "\<exists>w'. g_add_member w gp p (-1) = Some (w', False) \<and> gw_ok {} w'"
proof -
  define w1 where "w1 = (if m_isqueued g then emit [G_RemoveFromQueues gp] (put_group w gp (g\<lparr> m_isqueued := False \<rparr>)) else w)"
  have "core_eq g (g\<lparr> m_isqueued := False \<rparr>)" by (simp add: core_eq_def)
  then have t: "touch gp w w1" using touch_put [OF g] touch_refl [OF g] by (simp add: w1_def)
  then have ok1: "gw_ok {} w1" by (rule gw_ok_touch [OF ok])
  have i1: "g_infos w1 = g_infos w" using t by (simp add: touch_def)
  have "leave_info w1 p = w1\<lparr> g_infos := (g_infos w1)(p := (g_infos w1 p)\<lparr> pi_group := None, pi_subGroup := -1 \<rparr>) \<rparr>"
    by (simp add: leave_info_def put_info_def)
  then have "gw_ok {} (leave_info w1 p)"
    using gw_ok_infos [OF ok1, of "(g_infos w1)(p := (g_infos w1 p)\<lparr> pi_group := None, pi_subGroup := -1 \<rparr>)"] full(2) i1
    by simp
  then show ?thesis using g full(1) by (simp add: g_add_member_def flip: w1_def)
qed

lemma flag_ok:
  assumes ok: "gw_ok {} w" and g: "g_groups w gp = Some g" "\<not> has_flag f GROUP_FLAG_REMOVE_OFFLINE_PLAYERS"
  shows "gw_ok {} (put_group w gp (g\<lparr> m_groupFlags := flag_set (m_groupFlags g) f \<rparr>))" (is "gw_ok {} (put_group w gp ?g)")
proof -
  note gk = gw_okD(1) [OF ok g(1)]
  have "\<not> has_flag (flag_set (m_groupFlags g) f) GROUP_FLAG_REMOVE_OFFLINE_PLAYERS"
    using grp_okD(3) [OF gk] g(2) by simp
  moreover have same: "g_members ?g = g_members g" "slot_at ?g i = slot_at g i" "walkable ?g = walkable g" for i
    by (simp_all add: g_members_def slot_at_def walkable_def)
  ultimately have "grp_ok {} (put_group w gp ?g) gp ?g" using gk by (simp add: grp_ok_def)
  moreover have "grp_ok {} (put_group w gp ?g) gq h" if "g_groups w gq = Some h" for gq h
    using gw_okD(1) [OF ok that] by (simp add: grp_ok_def)
  moreover have "\<exists>h. g_groups (put_group w gp ?g) gq = Some h \<and> p \<in> set (g_members h)" if "pi_group (g_infos w p) = Some gq" for p gq
    using gw_okD(4) [OF ok _ that] g(1) same(1) by (cases "gq = gp") auto
  ultimately show ?thesis using gw_okD(2,3) [OF ok] g(1) by (simp add: gw_ok_def)
qed

text \<open>
  While a group is loaded its updates are blocked; it is consistent but for that mark, and its players join one by
  one.
\<close>

definition loading :: "gworld \<Rightarrow> gptr \<Rightarrow> group_rec \<Rightarrow> bool" where
  "loading w gp g \<longleftrightarrow> g_groups w gp = Some g \<and> m_updateblock g \<and> \<not> m_isqueued g \<and>
     gw_ok {} (put_group w gp (g\<lparr> m_updateblock := False \<rparr>))"

lemma loading_dirty: "loading w gp g \<Longrightarrow> loading (put_group w gp (g\<lparr> m_dirty := b \<rparr>)) gp (g\<lparr> m_dirty := b \<rparr>)"
  using gw_ok_leaders [of "{}" "put_group w gp (g\<lparr> m_updateblock := False \<rparr>)" gp "g\<lparr> m_updateblock := False \<rparr>" "g\<lparr> m_dirty := b, m_updateblock := False \<rparr>"]
  by (simp add: loading_def core_eq_def put_group_def)

lemma gw_ok_frame: "gw_ok X (w\<lparr> g_nextId := n, g_time := t, g_out := evs \<rparr>) = gw_ok X w"
  by (simp add: gw_ok_def grp_ok_def)

lemma add_loading:
  assumes l: "loading w gp g" and p: "pi_group (g_infos w p) = None" and room: "length (g_members g) < 5 * m_SubGroupCount g"
  shows "\<exists>w' g'. g_add_member w gp p (-1) = Some (w', True) \<and> loading w' gp g' \<and> m_SubGroupCount g' = m_SubGroupCount g \<and>
    length (g_members g') = Suc (length (g_members g)) \<and> (\<forall>q. q \<noteq> p \<longrightarrow> pi_group (g_infos w' q) = pi_group (g_infos w q))"
proof -
  let ?g = "g\<lparr> m_updateblock := False \<rparr>"
  let ?u = "put_group w gp ?g"
  have L: "g_groups w gp = Some g" "m_updateblock g" "\<not> m_isqueued g" "gw_ok {} ?u" using l by (simp_all add: loading_def)
  have gu: "g_groups ?u gp = Some ?g" by simp
  note gk = gw_okD(1) [OF L(4) gu]
  note wk = grp_okD(1) [OF gk]
  have mem: "g_members ?g = g_members g" by (simp add: g_members_def)
  have slot: "slot_at ?g i = slot_at g i" for i by (simp add: slot_at_def)
  have nowhere: "p \<notin> set (g_members h)" if "g_groups ?u gq = Some h" for gq h
    using grp_member_group [OF gw_okD(1) [OF L(4) that], of p] p by auto
  have np: "p \<notin> set (g_members ?g)" by (rule nowhere [OF gu])
  have cnt: "unat (m_MemberCount g) = length (g_members g)"
    using grp_okD(6) [OF gk] grp_size(2) [OF gk] by (simp add: unat_of_nat mem)
  have notfull: "\<not> g_is_full ?g" using gk cnt room by (auto simp: g_is_full_def grp_ok_def group_consts)
  obtain ix where ix: "ix < m_SubGroupCount ?g" "g_find_free ?g = Some (Some ix)" "length (slot_at ?g ix) < 5"
    using find_free_ok [OF gk notfull] by blast
  have ix8: "ix < 8" using ix(1) wk by (simp add: walkable_def)
  have ff: "g_find_free g = Some (Some ix)" using ix(2) by (simp add: g_find_free_def sg_slots_def cong: if_cong)
  have nf: "\<not> g_is_full g" using notfull by (simp add: g_is_full_def)
  have wg: "walkable g" using wk by (simp add: walkable_def)
  define sub where "sub = (m_SubGroups g)[ix := Some (insort_insert p (slot_at g ix))]"
  define g3 where "g3 = g\<lparr> m_SubGroups := sub, m_dirty := True, m_MemberCount := m_MemberCount g + 1 \<rparr>"
  define g6 where "g6 = (if m_Leader g3 = None \<and> pi_online (g_infos w p) then g3\<lparr> m_Leader := Some p \<rparr> else g3)"
  define infos where "infos = (g_infos w)(p := (g_infos w p)\<lparr> pi_group := Some gp, pi_subGroup := int ix \<rparr>)"
  have sg: "sg_add_player w gp ix p = Some (put_info (put_group w gp (g\<lparr> m_SubGroups := sub \<rparr>)) p ((g_infos w p)\<lparr> pi_subGroup := int ix \<rparr>), True)"
    using deref_ok [OF wg, of ix] ix(1,3) L(1) slot by (simp add: sg_add_player_def sg_is_full_def group_consts sub_def)
  define w2 where "w2 = put_info (put_group w gp (g\<lparr> m_SubGroups := sub \<rparr>)) p ((g_infos w p)\<lparr> pi_subGroup := int ix \<rparr>)"
  define w3 where "w3 = (if pi_online (g_infos w2 p) then emit [G_Schedule_FullUpdate p] w2 else w2)"
  have w3: "g_groups w3 = (g_groups w)(gp \<mapsto> g\<lparr> m_SubGroups := sub \<rparr>)" "g_infos w3 = (g_infos w)(p := (g_infos w p)\<lparr> pi_subGroup := int ix \<rparr>)"
    "g_nextPtr w3 = g_nextPtr w" by (simp_all add: w3_def w2_def)
  define w' where "w' = put_info (put_group (put_group w3 gp g3) gp g6) p ((g_infos w3 p)\<lparr> pi_group := Some gp, pi_subGroup := int ix \<rparr>)"
  have upd: "g_update (put_group w3 gp g3) gp = Some (put_group w3 gp g3)" using L(2) by (simp add: g_update_def g3_def)
  have w': "g_groups w' = (g_groups w)(gp \<mapsto> g6)" "g_infos w' = infos" "g_nextPtr w' = g_nextPtr w"
    by (simp_all add: w'_def w3 infos_def)
  have res: "g_add_member w gp p (-1) = Some (w', True)"
  proof -
    have "g_add_member w gp p (-1) = g_update (put_group w3 gp g3) gp \<bind> (\<lambda>w4.
       (case pi_group (g_infos w4 p) of None \<Rightarrow> Some w4
         | Some old \<Rightarrow> if old = gp then Some w4 else g_remove_player w4 old p) \<bind> (\<lambda>w5.
       g_groups w5 gp \<bind> (\<lambda>g5. Some (put_info (put_group w5 gp
           (if m_Leader g5 = None \<and> pi_online (g_infos w5 p) then g5\<lparr> m_Leader := Some p \<rparr> else g5)) p
         ((g_infos w5 p)\<lparr> pi_group := Some gp, pi_subGroup := int ix \<rparr>), True))))"
      using L(1,3) nf ff sg [folded w2_def]
      by (simp add: g_add_member_def w3(1) Let_def g3_def cong: if_cong flip: w3_def)
    then show ?thesis using p by (simp add: upd w3(2) w'_def g6_def)
  qed
  let ?g6 = "g6\<lparr> m_updateblock := False \<rparr>"
  define v where "v = put_group (put_info w p ((g_infos w p)\<lparr> pi_subGroup := int ix \<rparr>)) gp ?g6"
  have core: "core_eq (?g\<lparr> m_SubGroups := (m_SubGroups ?g)[ix := Some (insort_insert p (slot_at ?g ix))],
        m_MemberCount := m_MemberCount ?g + 1 \<rparr>) ?g6"
    by (simp add: core_eq_def g6_def g3_def sub_def slot)
  have v: "gw_ok {p} v" "p \<in> set (slot_at ?g6 ix)" "set (g_members ?g6) = insert p (set (g_members ?g))"
    using gw_ok_put_in [OF L(4) gu np ix(1,3) core, of v] by (simp_all add: v_def)
  have "gw_ok {} (put_info v p ((g_infos v p)\<lparr> pi_group := Some gp, pi_subGroup := int ix \<rparr>))"
  proof (rule gw_ok_settle [OF v(1) _ v(2) ix8])
    show "g_groups v gp = Some ?g6" by (simp add: v_def)
    show "p \<notin> set (g_members h)" if "gq \<noteq> gp" "g_groups v gq = Some h" for gq h
      using nowhere [of gq h] that by (simp add: v_def)
  qed
  moreover have "put_info v p ((g_infos v p)\<lparr> pi_group := Some gp, pi_subGroup := int ix \<rparr>) =
      (put_group w' gp ?g6)\<lparr> g_nextId := g_nextId w, g_time := g_time w, g_out := g_out w \<rparr>"
    using w' by (simp add: v_def put_info_def put_group_def infos_def)
  ultimately have ok: "gw_ok {} (put_group w' gp ?g6)" by (simp only: gw_ok_frame)
  have "loading w' gp g6" using ok w'(1) L by (simp add: loading_def g6_def g3_def)
  moreover have "length (g_members g6) = Suc (length (g_members g))"
  proof -
    have m6: "g_members ?g6 = g_members g6" by (simp add: g_members_def)
    note g6k = gw_okD(1) [OF ok, of gp ?g6, simplified]
    show ?thesis
      using distinct_card [OF grp_okD(5) [OF g6k]] distinct_card [OF grp_okD(5) [OF gk]] v(3) np by (simp add: m6 mem)
  qed
  moreover have "m_SubGroupCount g6 = m_SubGroupCount g" by (simp add: g6_def g3_def)
  ultimately show ?thesis using res w'(2) by (auto simp: infos_def)
qed

lemma load_members_ok:
  assumes "loading w gp g" "\<forall>c \<in> set cs. c < length row" "distinct (row_players find_info row cs)"
    "\<forall>p \<in> set (row_players find_info row cs). pi_group (g_infos w p) = None"
    "length (g_members g) + length cs \<le> 5 * m_SubGroupCount g"
  shows "\<exists>w' g'. load_members find_info row w gp cs = Some w' \<and> loading w' gp g'"
  using assms
proof (induction cs arbitrary: w g)
  case (Cons c cs)
  have get: "row_get row c = Some (row ! c)" using Cons.prems(2) by (simp add: row_get_def)
  show ?case
  proof (cases "if row ! c = 0 then None else find_info (row ! c)")
    case None
    then have "row_players find_info row (c # cs) = row_players find_info row cs" by (simp add: row_players_def map_filter_simps)
    with Cons.IH [of w g] Cons.prems get None show ?thesis by simp
  next
    case (Some p)
    then have ps: "row_players find_info row (c # cs) = p # row_players find_info row cs"
      by (simp add: row_players_def map_filter_simps)
    have "pi_group (g_infos w p) = None" "length (g_members g) < 5 * m_SubGroupCount g" using Cons.prems(4,5) ps by simp_all
    from add_loading [OF Cons.prems(1) this] obtain w1 g1 where w1: "g_add_member w gp p (-1) = Some (w1, True)" "loading w1 gp g1"
      "m_SubGroupCount g1 = m_SubGroupCount g" "length (g_members g1) = Suc (length (g_members g))"
      "\<forall>q. q \<noteq> p \<longrightarrow> pi_group (g_infos w1 q) = pi_group (g_infos w q)" by blast
    have g1: "g_groups w1 gp = Some g1" using w1(2) by (simp add: loading_def)
    let ?g = "g1\<lparr> m_dirty := False \<rparr>"
    have "g_members ?g = g_members g1" by (simp add: g_members_def)
    then have "\<exists>w' g'. load_members find_info row (put_group w1 gp ?g) gp cs = Some w' \<and> loading w' gp g'"
      using Cons.prems ps w1(3-5) by (intro Cons.IH [OF loading_dirty [OF w1(2)]]) auto
    with get Some w1(1) g1 show ?thesis by simp
  qed
qed auto

lemma load_ok:
  assumes ok: "gw_ok {} w" and row: "good_row find_info row w"
  shows "\<exists>w'. g_load_new find_info w row = Some w' \<and> gw_ok {} w'"
proof -
  define count where "count = unat (ucast (row ! 2) :: u8)"
  define kind where "kind = (ucast (row ! 1) :: u8)"
  have R: "8 + 5 * count \<le> length row" "kind = GROUP_TYPE_PARTY \<and> count = 1 \<or> kind = GROUP_TYPE_RAID \<and> count = 8"
    "distinct (row_players find_info row (load_columns count))"
    "\<forall>p \<in> set (row_players find_info row (load_columns count)). pi_group (g_infos w p) = None"
    using row by (simp_all add: good_row_def count_def kind_def Let_def)
  let ?gp = "g_nextPtr w"
  let ?w = "w\<lparr> g_groups := (g_groups w)(?gp \<mapsto> g_init 0), g_nextPtr := ?gp + 1 \<rparr>"
  have fresh: "g_groups w ?gp = None"
    using gw_okD(2) [OF ok, of ?gp] by (cases "g_groups w ?gp") auto
  have get: "row_get row i = Some (row ! i)" if "i < 9" for i using that R(1,2) by (auto simp: row_get_def)
  define g where "g = (g_init 0)\<lparr> m_updateblock := True, m_Id := row ! 0, m_GroupType := kind, m_SubGroupCount := count,
         m_LootMethod := ucast (row ! 3), m_LootThreshold := ucast (ucast (row ! 4) :: u8), m_difficulty := ucast (row ! 5),
         m_assistantLeader := load_assistant find_info (row ! 6) (m_assistantLeader (g_init 0)), m_mainTank := load_assistant find_info (row ! 7) (m_mainTank (g_init 0)),
         m_mainAssist := load_assistant find_info (row ! 8) (m_mainAssist (g_init 0)),
         m_SubGroups := map (\<lambda>i. if 1 \<le> i \<and> i < count then Some [] else m_SubGroups (g_init 0) ! i) [0..<8] \<rparr>"
  have slots: "m_SubGroups g ! i = (if i < count then Some [] else None)" if "i < 8" for i
    using that R(2) by (auto simp: g_def g_init_def nth_Cons' nth_replicate)
  have empty: "slot_at g i = []" if "i < 8" for i using slots [OF that] by (simp add: slot_at_def)
  have len: "length (m_SubGroups g) = 8" by (simp add: g_def)
  have none: "g_members g = []"
  proof -
    have "p \<notin> set (g_members g)" for p using empty len by (simp add: set_g_members)
    then show ?thesis using last_in_set by blast
  qed
  have wk: "walkable g" using slots len R(2) by (auto simp: walkable_def) (simp_all add: g_def)
  define u where "u = put_group ?w ?gp (g\<lparr> m_updateblock := False \<rparr>)"
  have "grp_ok {} u ?gp (g\<lparr> m_updateblock := False \<rparr>)"
  proof -
    have s: "slot_at (g\<lparr> m_updateblock := False \<rparr>) i = slot_at g i" "g_members (g\<lparr> m_updateblock := False \<rparr>) = g_members g"
      "walkable (g\<lparr> m_updateblock := False \<rparr>) = walkable g" for i by (simp_all add: slot_at_def g_members_def walkable_def)
    show ?thesis using wk none empty R(2) unfolding grp_ok_def s by (simp add: g_def g_init_def has_flag_def)
  qed
  moreover have "grp_ok {} u gq h" if "g_groups w gq = Some h" for gq h
    using gw_okD(1) [OF ok that] by (simp add: grp_ok_def u_def)
  moreover have "gq < Suc ?gp" if "g_groups w gq = Some h" for gq h using gw_okD(2) [OF ok that] by simp
  moreover have "gq \<noteq> ?gp" if "g_groups w gq = Some h" for gq h using fresh that by auto
  ultimately have "gw_ok {} u"
    using gw_okD(3) [OF ok] gw_okD(4) [OF ok] unfolding gw_ok_def u_def
    by simp (metis less_irrefl_nat option.discI fresh)
  then have start: "loading (put_group ?w ?gp g) ?gp g"
    by (simp add: loading_def u_def put_group_def) (simp add: g_def g_init_def)
  have cols: "\<forall>c \<in> set (load_columns count). c < length row" "length (load_columns count) = 5 * count"
    using R(1) by (auto simp: load_columns_upt)
  from load_members_ok [OF start cols(1) R(3)] R(4) cols(2) none obtain w1 g1 where
    w1: "load_members find_info row (put_group ?w ?gp g) ?gp (load_columns count) = Some w1" "loading w1 ?gp g1"
    by (auto simp: g_def)
  have "g_load_new find_info w row = Some (put_group w1 ?gp (g1\<lparr> m_updateblock := False \<rparr>))"
  proof -
    have "\<not> 8 < count" using R(2) by auto
    moreover have "load_members find_info row (put_group ?w ?gp g) ?gp (load_columns count) \<bind>
        (\<lambda>w1. g_groups w1 ?gp \<bind> (\<lambda>g1. Some (put_group w1 ?gp (g1\<lparr> m_updateblock := False \<rparr>)))) =
        Some (put_group w1 ?gp (g1\<lparr> m_updateblock := False \<rparr>))"
      using w1 by (simp add: loading_def)
    ultimately show ?thesis
      unfolding g_load_new_def g_load_def
      by (simp add: get flip: count_def) (simp add: g_def kind_def)
  qed
  with w1(2) show ?thesis by (simp add: loading_def)
qed

lemma g_exec_ok:
  assumes ok: "gw_ok {} w" and ready: "g_ready w op"
  shows "\<exists>w'. g_exec w op = Some w' \<and> gw_ok {} w'"
proof (cases op)
  case GO_Create
  then show ?thesis using create_ok [OF ok] by simp
next
  case (GO_Add gp p)
  with ready obtain g where g: "g_groups w gp = Some g" "p \<notin> set (g_members g)"
    "pi_group (g_infos w p) = None \<or> \<not> g_is_full g" by (auto split: option.splits)
  then show ?thesis
    using add_ok [OF ok g(1,2)] add_full_ok [OF ok g(1), of p] by (cases "g_is_full g") (auto simp: GO_Add)
next
  case (GO_Remove gp p)
  with ready remove_ok [OF ok, of gp _ p] show ?thesis by (auto split: option.splits)
next
  case (GO_Move gp p to)
  with ready move_ok [OF ok, of gp _ p] show ?thesis by (auto split: option.splits)
next
  case (GO_SetLeader gp plr s)
  with ready obtain g where "g_groups w gp = Some g" by auto
  with GO_SetLeader set_leader_touch [OF calm_ok [OF ok this]] gw_ok_touch [OF ok] show ?thesis
    by simp metis
next
  case (GO_SetLooter gp plr meth thr)
  with ready obtain g where g: "g_groups w gp = Some g" by auto
  have "core_eq g (g\<lparr> m_LootMethod := meth, m_Looter := plr, m_LootThreshold := thr, m_dirty := True \<rparr>)"
    by (simp add: core_eq_def)
  from settings_ok [OF ok g this] show ?thesis by (simp add: GO_SetLooter g_set_looter_def g)
next
  case (GO_Expand gp)
  with ready expand_ok [OF ok, of gp] show ?thesis by (auto split: option.splits)
next
  case (GO_Disband gp)
  with ready obtain g where g: "g_groups w gp = Some g" by auto
  from disband_ok [OF g grp_okD(1) [OF gw_okD(1) [OF ok g]]] gw_ok_drop [OF ok g] GO_Disband
  show ?thesis by fastforce
next
  case (GO_Assist gp q)
  with ready obtain g where g: "g_groups w gp = Some g" by auto
  have "core_eq g (g\<lparr> m_mainAssist := q, m_dirty := True \<rparr>)" by (simp add: core_eq_def)
  from settings_ok [OF ok g this] show ?thesis using ok by (simp add: GO_Assist g_set_main_assist_def g)
next
  case (GO_Tank gp q)
  with ready obtain g where g: "g_groups w gp = Some g" by auto
  have "core_eq g (g\<lparr> m_mainTank := q, m_dirty := True \<rparr>)" by (simp add: core_eq_def)
  from settings_ok [OF ok g this] show ?thesis using ok by (simp add: GO_Tank g_set_main_tank_def g)
next
  case (GO_AssistLeader gp q)
  with ready obtain g where g: "g_groups w gp = Some g" by auto
  have "core_eq g (g\<lparr> m_assistantLeader := q, m_dirty := True \<rparr>)" by (simp add: core_eq_def)
  from settings_ok [OF ok g this] show ?thesis using ok by (simp add: GO_AssistLeader g_set_assistant_def g)
next
  case (GO_Info p on inw inst)
  have "put_info w p i = w\<lparr> g_infos := (g_infos w)(p := i) \<rparr>" for i by (simp add: put_info_def)
  with GO_Info gw_ok_infos [OF ok, of "(g_infos w)(p := (g_infos w p)\<lparr> pi_online := on, pi_inworld := inw, pi_instance := inst \<rparr>)"]
  show ?thesis by simp
next
  case (GO_Flag gp f)
  with ready obtain g where g: "g_groups w gp = Some g" "\<not> has_flag f GROUP_FLAG_REMOVE_OFFLINE_PLAYERS" by auto
  from flag_ok [OF ok g] show ?thesis by (simp add: GO_Flag g_set_flag_def g)
next
  case (GO_Queued gp b)
  with ready obtain g where g: "g_groups w gp = Some g" by auto
  from gw_ok_leaders [OF ok g, of "g\<lparr> m_isqueued := b \<rparr>"] show ?thesis by (simp add: GO_Queued g_set_queued_def g core_eq_def)
next
  case (GO_Delete gp)
  with ready obtain g where g: "g_groups w gp = Some g" "g_members g = []" by (auto split: option.splits)
  from gw_ok_drop [OF ok g(1), of "w\<lparr> g_groups := (g_groups w)(gp := None) \<rparr>"] g show ?thesis
    by (simp add: GO_Delete g_delete_def)
next
  case (GO_Load find_info row)
  with load_ok [OF ok] ready show ?thesis by simp
qed

lemma g_reach_ok: "g_reach w \<Longrightarrow> gw_ok {} w"
proof (induction rule: g_reach.induct)
  case (g_start infos)
  then show ?case by (simp add: gw_ok_def world_start_def)
next
  case (g_step w op w')
  with g_exec_ok [of w op] show ?case by auto
qed

text \<open>
  C7. The groups and the players agree, for groups made while the server runs, loaded, or made and flagged by a
  battleground. Take any state that the operations lead to when no member is added to its group again, no player of
  another group is added to a full one, no raid is converted to a raid again, and the row of a loaded group has the
  number of subgroups of its kind and reads as distinct players who are in no group (the code does not keep its callers
  from breaking these four). Then a player's \<open>m_Group\<close> is a live group
  exactly when it is a member of it; a member's \<open>subGroup\<close> is the subgroup that holds it; every group
  counts its distinct members, at most 5 in a subgroup; and the next such operation runs to its end without touching a
  deleted group or a null subgroup.
\<close>

theorem g_world_consistent:
  assumes "g_reach w"
  shows "(g_ready w op \<longrightarrow> g_exec w op \<noteq> None) \<and>
    (pi_group (g_infos w p) = Some gp \<longleftrightarrow> (\<exists>g. g_groups w gp = Some g \<and> p \<in> set (g_members g))) \<and>
    (\<forall>gp g. g_groups w gp = Some g \<longrightarrow> distinct (g_members g) \<and> unat (m_MemberCount g) = length (g_members g) \<and>
      (\<forall>i < 8. length (slot_at g i) \<le> 5 \<and> (\<forall>q \<in> set (slot_at g i). pi_subGroup (g_infos w q) = int i)))"
proof -
  note ok = g_reach_ok [OF assms]
  have "g_ready w op \<longrightarrow> g_exec w op \<noteq> None" using g_exec_ok [OF ok] by fastforce
  moreover have "pi_group (g_infos w p) = Some gp \<longleftrightarrow> (\<exists>g. g_groups w gp = Some g \<and> p \<in> set (g_members g))"
    using gw_okD(4) [OF ok, of p gp] grp_member_group [OF gw_okD(1) [OF ok]] by blast
  moreover have "distinct (g_members g) \<and> unat (m_MemberCount g) = length (g_members g) \<and>
      (\<forall>i < 8. length (slot_at g i) \<le> 5 \<and> (\<forall>q \<in> set (slot_at g i). pi_subGroup (g_infos w q) = int i))"
    if "g_groups w gq = Some g" for gq g
    using gw_okD(1) [OF ok that] grp_okD(4-7) [OF gw_okD(1) [OF ok that]] grp_size(2) [OF gw_okD(1) [OF ok that]]
    by (simp add: unat_of_nat)
  ultimately show ?thesis by blast
qed

lemma add_full:
  assumes "g_groups w gp = Some g" "g_is_full g"
  shows "\<exists>w'. g_add_member w gp p (-1) = Some (w', False) \<and> pi_group (g_infos w' p) = None \<and>
    (\<forall>gq. map_option g_members (g_groups w' gq) = map_option g_members (g_groups w gq))"
  using assms by (simp add: g_add_member_def Let_def g_members_def)

text \<open>
  C20. Joining: after any history in which no member is added to its group again, no player of another group is added
  to a full one, no raid is converted to a raid again and the rows of loaded groups are good ones, adding any player to
  a group it is not in (so also a player of another group to a full one) succeeds exactly when the group is not full (5 in a party, 40 in a raid). Then it is a member of this
  group and of no other, its old group having let it go. When the group is full, no group gains or loses a member, but
  the player's own \<open>m_Group\<close> is cleared, also when it is a member of another group.
\<close>

theorem g_join:
  assumes "g_reach w" "g_groups w gp = Some g" "p \<notin> set (g_members g)"
  shows "\<exists>w' b. g_add_member w gp p (-1) = Some (w', b) \<and>
    (b \<longleftrightarrow> length (g_members g) < (if m_GroupType g = GROUP_TYPE_PARTY then 5 else 40)) \<and>
    (if b then \<forall>gq h. g_groups w' gq = Some h \<longrightarrow> (p \<in> set (g_members h)) = (gq = gp)
     else pi_group (g_infos w' p) = None \<and>
       (\<forall>gq. map_option g_members (g_groups w' gq) = map_option g_members (g_groups w gq)))"
proof -
  note ok = g_reach_ok [OF assms(1)]
  note gk = gw_okD(1) [OF ok assms(2)]
  have "unat (m_MemberCount g) = length (g_members g)"
    using grp_okD(6) [OF gk] grp_size(2) [OF gk] by (simp add: unat_of_nat)
  then have full: "g_is_full g \<longleftrightarrow> \<not> length (g_members g) < (if m_GroupType g = GROUP_TYPE_PARTY then 5 else 40)"
    using gk by (auto simp: g_is_full_def grp_ok_def group_consts)
  show ?thesis
  proof (cases "g_is_full g")
    case True
    from add_full [OF assms(2) True, of p] obtain w' where w': "g_add_member w gp p (-1) = Some (w', False)"
      "pi_group (g_infos w' p) = None" "\<forall>gq. map_option g_members (g_groups w' gq) = map_option g_members (g_groups w gq)" by blast
    with True full show ?thesis by (intro exI [of _ w'] exI [of _ False]) simp
  next
    case False
    from add_ok [OF ok assms(2,3) False] obtain w' g' where w': "g_add_member w gp p (-1) = Some (w', True)"
      "gw_ok {} w'" "pi_group (g_infos w' p) = Some gp" "g_groups w' gp = Some g'" "p \<in> set (g_members g')" by auto
    have "(p \<in> set (g_members h)) = (gq = gp)" if "g_groups w' gq = Some h" for gq h
      using grp_member_group [OF gw_okD(1) [OF w'(2) that], of p] w'(3-5) that by auto
    with w'(1) False full show ?thesis by (intro exI [of _ w'] exI [of _ True]) simp
  qed
qed

text \<open>
  C37. Leaving: after any history in which no member is added to its group again, no player of another group is added
  to a full one, no raid is converted to a raid again and the rows of loaded groups are good ones, removing a member
  leaves it without a group. A group of at most two members is disbanded, and then nobody of it has a group any more, unless its
  flag keeps it alive, as that of a battleground's group does; otherwise the group lives on with the other members.
\<close>

theorem g_leave:
  assumes "g_reach w" "g_groups w gp = Some g" "p \<in> set (g_members g)"
  shows "\<exists>w'. g_remove_player w gp p = Some w' \<and> pi_group (g_infos w' p) = None \<and>
    (if length (g_members g) \<le> 2 \<and> \<not> has_flag (m_groupFlags g) GROUP_FLAG_DONT_DISBAND_WITH_NO_MEMBERS
     then g_groups w' gp = None \<and> (\<forall>q \<in> set (g_members g). pi_group (g_infos w' q) = None)
     else \<exists>g'. g_groups w' gp = Some g' \<and> set (g_members g') = set (g_members g) - {p})"
  using remove_ok [OF g_reach_ok [OF assms(1)] assms(2,3), of] by (fastforce split: if_splits)

text \<open>A concrete history: a group is created and the players 1 and 2 join it.\<close>

definition demo_player :: "infoptr \<Rightarrow> player_info" where
  "demo_player p = \<lparr> pi_guid = of_nat p, pi_name = ''Anduin'', pi_online = True, pi_inworld = True,
     pi_instance = False, pi_subGroup = -1, pi_group = None \<rparr>"

definition demo_w1 :: gworld where
  "demo_w1 = fst (g_create (world_start demo_player))"

definition demo_w2 :: gworld where
  "demo_w2 = fst (the (g_add_member demo_w1 0 1 (-1)))"

definition demo_w3 :: gworld where
  "demo_w3 = fst (the (g_add_member demo_w2 0 2 (-1)))"

lemma demo_w1: "g_reach demo_w1" "g_groups demo_w1 0 = Some (g_init 1)" "g_members (g_init 1) = []" "\<not> g_is_full (g_init 1)"
proof -
  show "g_reach demo_w1"
    unfolding demo_w1_def by (rule g_step [OF g_start [of demo_player], of GO_Create]) simp_all
qed (simp_all add: demo_w1_def g_create_def world_start_def g_members_def g_init_def numeral_eq_Suc g_is_full_def group_consts)

lemma demo_add:
  assumes "g_reach w" "g_groups w 0 = Some g" "p \<notin> set (g_members g)" "\<not> g_is_full g"
  shows "g_reach (fst (the (g_add_member w 0 p (-1)))) \<and>
    (\<exists>g'. g_groups (fst (the (g_add_member w 0 p (-1)))) 0 = Some g' \<and> set (g_members g') = insert p (set (g_members g)) \<and> m_GroupType g' = m_GroupType g)"
proof -
  from add_ok [OF g_reach_ok [OF assms(1)] assms(2-4)] obtain w' where
    w': "g_add_member w 0 p (-1) = Some (w', True)"
    "\<exists>g'. g_groups w' 0 = Some g' \<and> set (g_members g') = insert p (set (g_members g)) \<and> m_GroupType g' = m_GroupType g" by blast
  have "g_reach w'"
    by (rule g_step [OF assms(1), of "GO_Add 0 p"]) (use assms w' in simp_all)
  with w' show ?thesis by simp
qed

lemma demo_not_full:
  assumes "g_reach w" "g_groups w gp = Some g" "set (g_members g) \<subseteq> {1, 2}"
  shows "\<not> g_is_full g"
proof -
  note gk = gw_okD(1) [OF g_reach_ok [OF assms(1)] assms(2)]
  have "length (g_members g) \<le> card {1, 2 :: nat}"
    using distinct_card [OF grp_okD(5) [OF gk]] card_mono [OF _ assms(3)] by simp
  then show ?thesis
    using grp_okD(6) [OF gk] by (simp add: g_is_full_def group_consts unat_of_nat)
qed

lemma demo_w2: "g_reach demo_w2"
  "\<exists>g. g_groups demo_w2 0 = Some g \<and> set (g_members g) = {1} \<and> m_GroupType g = GROUP_TYPE_PARTY"
  using demo_add [OF demo_w1(1,2), of 1] demo_w1(3,4) by (simp_all add: demo_w2_def) (simp add: g_init_def)

lemma demo_w3: "g_reach demo_w3"
  "\<exists>g. g_groups demo_w3 0 = Some g \<and> set (g_members g) = {1, 2} \<and> m_GroupType g = GROUP_TYPE_PARTY"
proof -
  obtain g where g: "g_groups demo_w2 0 = Some g" "set (g_members g) = {1}" "m_GroupType g = GROUP_TYPE_PARTY"
    using demo_w2(2) by blast
  have "\<not> g_is_full g" by (rule demo_not_full [OF demo_w2(1) g(1)]) (use g in simp)
  from demo_add [OF demo_w2(1) g(1) _ this, of 2] g(2,3)
  show "g_reach demo_w3"
    "\<exists>g. g_groups demo_w3 0 = Some g \<and> set (g_members g) = {1, 2} \<and> m_GroupType g = GROUP_TYPE_PARTY"
    by (auto simp: demo_w3_def)
qed

text \<open>The row of a party of two without a main assistant is a good one.\<close>

lemma demo_load: "\<exists>w. g_exec (world_start demo_player) (GO_Load (\<lambda>n. Some (unat n)) [7, 0, 1, 3, 2, 0, 0, 0, 0, 1, 2, 0, 0, 0]) = Some w \<and> g_reach w"
proof -
  have "g_ready (world_start demo_player) (GO_Load (\<lambda>n. Some (unat n)) [7, 0, 1, 3, 2, 0, 0, 0, 0, 1, 2, 0, 0, 0])"
    by (simp add: good_row_def row_players_def load_columns_upt group_consts world_start_def upt_rec map_filter_simps)
  with g_exec_ok [OF g_reach_ok [OF g_start] this] g_step [OF g_start this] show ?thesis by blast
qed

theorem g_world_consistent_witness:
  "pi_group (g_infos demo_w3 2) = Some 0 \<and> g_exec demo_w3 (GO_Remove 0 1) \<noteq> None"
  using g_world_consistent [OF demo_w3(1), of "GO_Remove 0 1" 2 0] demo_w3(2) by auto

theorem g_join_witness: "\<exists>w' b. g_add_member demo_w2 0 2 (-1) = Some (w', b) \<and> b"
proof -
  obtain g where g: "g_groups demo_w2 0 = Some g" "set (g_members g) = {1}" using demo_w2(2) by blast
  have "\<not> g_is_full g" by (rule demo_not_full [OF demo_w2(1) g(1)]) (use g in simp)
  moreover have "length (g_members g) = 1"
    using g(2) distinct_card [of "g_members g"] grp_okD(5) [OF gw_okD(1) [OF g_reach_ok [OF demo_w2(1)] g(1)]] by simp
  ultimately show ?thesis
    using g_join [OF demo_w2(1) g(1), of 2] g(2) by (auto split: if_splits)
qed

text \<open>In the group of a battleground the last member leaves a group that lives on.\<close>

definition demo_flagged :: gworld where
  "demo_flagged = the (g_set_flag demo_w2 0 5)"

lemma demo_flagged: "g_reach demo_flagged"
  "\<exists>g. g_groups demo_flagged 0 = Some g \<and> set (g_members g) = {1} \<and> has_flag (m_groupFlags g) GROUP_FLAG_DONT_DISBAND_WITH_NO_MEMBERS"
proof -
  obtain g where g: "g_groups demo_w2 0 = Some g" "set (g_members g) = {1}" using demo_w2(2) by blast
  have f: "g_set_flag demo_w2 0 5 = Some demo_flagged" using g by (simp add: demo_flagged_def g_set_flag_def)
  show "g_reach demo_flagged"
    by (rule g_step [OF demo_w2(1), of "GO_Flag 0 5"]) (use g f in \<open>simp_all add: has_flag_def group_consts\<close>)
  have "has_flag (flag_set x 5) GROUP_FLAG_DONT_DISBAND_WITH_NO_MEMBERS" for x :: u8
    by (simp, simp add: has_flag_def group_consts)
  then show "\<exists>g. g_groups demo_flagged 0 = Some g \<and> set (g_members g) = {1} \<and> has_flag (m_groupFlags g) GROUP_FLAG_DONT_DISBAND_WITH_NO_MEMBERS"
    using g by (simp add: demo_flagged_def g_set_flag_def g_members_def)
qed

theorem g_leave_witness:
  "(\<exists>w'. g_remove_player demo_w3 0 1 = Some w' \<and> pi_group (g_infos w' 1) = None) \<and>
   (\<exists>w' g'. g_remove_player demo_flagged 0 1 = Some w' \<and> g_groups w' 0 = Some g' \<and> set (g_members g') = {})"
proof
  obtain g where g: "g_groups demo_w3 0 = Some g" "set (g_members g) = {1, 2}" using demo_w3(2) by blast
  show "\<exists>w'. g_remove_player demo_w3 0 1 = Some w' \<and> pi_group (g_infos w' 1) = None"
    using g_leave [OF demo_w3(1) g(1), of 1] g by auto
next
  obtain g where g: "g_groups demo_flagged 0 = Some g" "set (g_members g) = {1}"
    "has_flag (m_groupFlags g) GROUP_FLAG_DONT_DISBAND_WITH_NO_MEMBERS" using demo_flagged(2) by blast
  show "\<exists>w' g'. g_remove_player demo_flagged 0 1 = Some w' \<and> g_groups w' 0 = Some g' \<and> set (g_members g') = {}"
    using g_leave [OF demo_flagged(1) g(1), of 1] g by auto
qed

section \<open>Converting a raid again\<close>

text \<open>
  Converting a group that already is a raid (nothing in \<open>HandleConvertGroupToRaidOpcode\<close> or
  \<open>ExpandToRaid\<close> keeps the leader from doing it) throws away the subgroups 1 to 7: a member of one
  of them is no longer in the group, although the member count still counts it and its own
  \<open>m_Group\<close> still points to the group.
\<close>

theorem g_expand_again_loses_members:
  assumes "g_reach w" "g_groups w gp = Some g" "m_GroupType g = GROUP_TYPE_RAID"
    "p \<in> set (slot_at g i)" "1 \<le> i" "i < 8"
  shows "\<exists>w' g'. g_expand_to_raid w gp = Some w' \<and> g_groups w' gp = Some g' \<and> p \<notin> set (g_members g') \<and>
    m_MemberCount g' = m_MemberCount g \<and> pi_group (g_infos w' p) = Some gp"
proof -
  have ok: "gw_ok {} w" by (rule g_reach_ok [OF assms(1)])
  note gk = gw_okD(1) [OF ok assms(2)]
  note wk = grp_okD(1) [OF gk]
  obtain w1 where w1: "g_leave_queue_loud w gp = Some w1" "touch gp w w1"
    using leave_queue_loud_ok [OF assms(2) wk] by blast
  obtain g1 where g1: "g_groups w1 gp = Some g1" "core_eq g g1" "g_infos w1 = g_infos w"
    using w1(2) assms(2) by (auto simp: touch_def)
  have wk1: "walkable g1" using wk g1(2) by (simp add: walkable_core)
  have len: "length (m_SubGroups g1) = 8" "m_SubGroupCount g1 = 8"
    using gk g1(2) assms(3) wk1 by (auto simp: grp_ok_def core_eq_def group_consts walkable_def)
  let ?g2 = "g1\<lparr> m_SubGroupCount := 8, m_SubGroups := take 1 (m_SubGroups g1) @ replicate 7 (Some []),
       m_GroupType := GROUP_TYPE_RAID, m_dirty := True \<rparr>"
  have s0: "m_SubGroups g1 ! 0 = Some (slot_at g1 0)" by (rule slot_at_Some [OF wk1]) (simp add: len)
  have wk2: "walkable ?g2" using len s0 by (auto simp: walkable_def nth_append nth_Cons')
  have calm: "calm (put_group w1 gp ?g2) gp"
    using gk g1(2) wk2 unfolding calm_def by (simp add: grp_ok_def core_eq_def)
  from update_touch [OF calm] obtain w' g' where w': "g_update (put_group w1 gp ?g2) gp = Some w'"
    "g_groups w' gp = Some g'" "core_eq ?g2 g'" "g_infos w' = g_infos w1" by (auto simp: touch_def)
  have r: "g_expand_to_raid w gp = Some w'" using w1(1) g1(1) w'(1) by (simp add: g_expand_to_raid_def)
  have slots: "slot_at g' j = (if j = 0 then slot_at g 0 else [])" if "j < 8" for j
    using that w'(3) g1(2) len s0 by (auto simp: core_eq_def slot_at_def nth_append split: option.splits)
  have "p \<notin> set (slot_at g 0)"
    using grp_okD(7) [OF gk, of i p] grp_okD(7) [OF gk, of 0 p] assms(4-6) by auto
  then have "p \<notin> set (g_members g')"
    using slots w'(3) len by (auto simp: set_g_members core_eq_def split: if_splits)
  moreover have "pi_group (g_infos w' p) = Some gp"
    using grp_okD(7) [OF gk assms(6,4)] w'(4) g1(3) by simp
  moreover have "m_MemberCount g' = m_MemberCount g" using w'(3) g1(2) by (simp add: core_eq_def)
  ultimately show ?thesis using r w'(2) by blast
qed

lemma slot_length_le: "walkable g \<Longrightarrow> i < m_SubGroupCount g \<Longrightarrow> length (slot_at g i) \<le> length (g_members g)"
  using replace_slot(3) [of g i "[]"] by auto

lemma demo_raid: "\<exists>w g. g_reach w \<and> g_groups w 0 = Some g \<and> m_GroupType g = GROUP_TYPE_RAID \<and> 2 \<in> set (slot_at g 1)"
proof -
  obtain g where g: "g_groups demo_w3 0 = Some g" "set (g_members g) = {1, 2}" "m_GroupType g = GROUP_TYPE_PARTY"
    using demo_w3(2) by blast
  from expand_ok [OF g_reach_ok [OF demo_w3(1)] g(1,3)] obtain w' g' where w': "g_expand_to_raid demo_w3 0 = Some w'"
    "gw_ok {} w'" "g_groups w' 0 = Some g'" "m_GroupType g' = GROUP_TYPE_RAID" "set (g_members g') = {1, 2}"
    using g(2) by auto
  have r: "g_reach w'" by (rule g_step [OF demo_w3(1), of "GO_Expand 0"]) (use g w' in simp_all)
  note gk' = gw_okD(1) [OF w'(2,3)]
  have c: "m_SubGroupCount g' = 8" using gk' w'(4) by (auto simp: grp_ok_def group_consts)
  have "length (g_members g') = 2"
    using distinct_card [OF grp_okD(5) [OF gk']] w'(5) by simp
  then have "length (slot_at g' 1) < 5"
    using slot_length_le [OF grp_okD(1) [OF gk'], of 1] c by simp
  moreover have "2 \<in> set (g_members g')" using w'(5) by simp
  ultimately obtain w2 g2 where w2: "g_move_player w' 0 2 1 = Some w2" "g_groups w2 0 = Some g2"
    "2 \<in> set (slot_at g2 1)" "m_GroupType g2 = GROUP_TYPE_RAID"
    using move_ok [OF w'(2,3), of 2 1] c w'(4) by auto
  have "g_reach w2" by (rule g_step [OF r, of "GO_Move 0 2 1"]) (use w' w2 in simp_all)
  with w2 show ?thesis by blast
qed

theorem g_expand_again_loses_members_witness:
  "\<exists>w w' g'. g_reach w \<and> g_expand_to_raid w 0 = Some w' \<and> g_groups w' 0 = Some g' \<and>
     2 \<notin> set (g_members g') \<and> pi_group (g_infos w' 2) = Some 0"
proof -
  obtain w g where "g_reach w" "g_groups w 0 = Some g" "m_GroupType g = GROUP_TYPE_RAID" "2 \<in> set (slot_at g 1)"
    using demo_raid by blast
  then show ?thesis using g_expand_again_loses_members [of w 0 g 2 1] by auto
qed

section \<open>The database row\<close>

lemma length_sg_row: "length (sg_row w sg) = 5"
  by (simp add: sg_row_def Let_def)

text \<open>
  C40. What is loaded is not what was saved: \<open>SaveToDB\<close> writes the members from column 9 on, but
  \<open>LoadFromDB\<close> reads them from column 8 on. So from a saved row the loops take the main assistant
  as the first member, then the saved members without the last place of the last subgroup.
\<close>

theorem g_load_shifted:
  assumes "walkable g" "1 \<le> m_SubGroupCount g" "g_save_row w g now = Some row"
  shows "map (row_get row) (load_columns (m_SubGroupCount g)) =
    map Some (opt_guid w (m_mainAssist g) #
      butlast (concat (map (sg_row w) (take (m_SubGroupCount g) (m_SubGroups g)))))"
proof -
  let ?c = "m_SubGroupCount g"
  let ?ms = "concat (map (sg_row w) (take ?c (m_SubGroups g)))"
  have len: "length ?ms = 5 * ?c"
  proof -
    have "length (concat (map (sg_row w) ss)) = 5 * length ss" for ss
      by (induction ss) (simp_all add: length_sg_row)
    then show ?thesis using assms(1) by (simp add: walkable_def)
  qed
  obtain hd8 rest where row: "row = hd8 @ opt_guid w (m_mainAssist g) # ?ms @ rest" "length hd8 = 8"
    using assms(3) walkable_slots(1) [OF assms(1)]
    by (intro that [of "[m_Id g, ucast (m_GroupType g), of_nat ?c, ucast (m_LootMethod g),
            ucast (m_LootThreshold g), ucast (m_difficulty g), opt_guid w (m_assistantLeader g),
            opt_guid w (m_mainTank g)]"]) (auto simp: g_save_row_def)
  show ?thesis
  proof (rule nth_equalityI)
    show "length (map (row_get row) (load_columns ?c)) =
      length (map Some (opt_guid w (m_mainAssist g) # butlast ?ms))"
      using len assms(2) by (simp add: load_columns_upt)
  next
    fix i assume "i < length (map (row_get row) (load_columns ?c))"
    then have i: "i < 5 * ?c" by (simp add: load_columns_upt)
    then show "map (row_get row) (load_columns ?c) ! i = map Some (opt_guid w (m_mainAssist g) # butlast ?ms) ! i"
      using row len by (cases i) (simp_all add: load_columns_upt row_get_def nth_append nth_butlast)
  qed
qed

text \<open>A full party 1 to 5 whose main assistant is 3 is read back as 3, 1, 2, 3, 4.\<close>

definition demo_party :: group_rec where
  "demo_party = (g_init 1)\<lparr> m_SubGroups := Some [1, 2, 3, 4, 5] # replicate 7 None, m_mainAssist := Some 3, m_MemberCount := 5 \<rparr>"

theorem g_load_shifted_witness:
  "\<exists>row. g_save_row demo_w1 demo_party 0 = Some row \<and>
     map (row_get row) (load_columns 1) = map Some [3, 1, 2, 3, 4]"
proof -
  have wk: "walkable demo_party" by (auto simp: walkable_def demo_party_def g_init_def nth_Cons')
  have "\<exists>row. g_save_row demo_w1 demo_party 0 = Some row"
    by (simp add: g_save_row_def walkable_slots [OF wk])
  then obtain row where row: "g_save_row demo_w1 demo_party 0 = Some row" by blast
  from g_load_shifted [OF wk _ row] row show ?thesis
    by (simp add: demo_party_def g_init_def sg_row_def opt_guid_def demo_w1_def g_create_def world_start_def
        demo_player_def)
qed

end
