(* ===== verification/HS_Events.thy ===== *)
theory HS_Events
  imports HS_Prelude "HOL-Library.Multiset"
begin

text \<open>
  The timed events of the server (\<open>EventableObject.cpp\<close>, \<open>EventableObject.h\<close>, the event record
  and the holder table of \<open>EventMgr.h\<close>). An object keeps its events in a multimap by event type;
  the holder of its map instance keeps the same events in the list its \<open>Update\<close> walks; both hold
  a counted reference to the event. Events are cells of a heap, so an access to a freed event, or
  through a holder or an object that is gone, is \<^term>\<open>None\<close>.

  What a callback does to the event system is a parameter: a script of the operations below,
  computed from the state it runs in. The callbacks that \<open>RemoveEvents\<close> and the destructor run
  (\<open>EVENT_FLAG_FIRE_ON_DELETE\<close>, used by one delayed aura of \<open>Spell.cpp\<close>) are recorded in the log
  and make no calls of their own. Times are \<open>time_t\<close>, which does not overflow here, so they are
  integers; the comparison with the elapsed time is made on 32 bits, as the code casts it.
\<close>

section \<open>State\<close>

type_synonym evptr = nat
type_synonym eobj = nat
type_synonym hptr = nat
type_synonym cbptr = nat

record timed_event =
  te_obj :: eobj
  te_cb :: cbptr
  te_type :: u32
  te_flag :: u16
  te_ms :: int
  te_curr :: int
  te_repeats :: u16
  te_deleted :: bool
  te_instance :: int
  te_ref :: int

record eventable =
  eo_instance :: int
  eo_holder :: "hptr option"
  eo_events :: "(u32 \<times> evptr) list"

record ev_holder =
  h_instance :: int
  h_events :: "evptr list"
  h_pool :: "evptr list"

text \<open>
  The heap of events, the objects, the holders and the table \<open>mHolders\<close> of the event manager;
  the counters hand out fresh addresses; the log lists the callbacks executed, the last one first.
\<close>

record ev_world =
  ev_heap :: "evptr \<Rightarrow> timed_event option"
  ev_next :: evptr
  ev_objs :: "eobj \<Rightarrow> eventable option"
  obj_next :: eobj
  ev_holders :: "hptr \<Rightarrow> ev_holder option"
  h_next :: hptr
  holder_map :: "int \<Rightarrow> hptr option"
  ev_log :: "cbptr list"

definition EVENT_REMOVAL_FLAG_ALL :: u32 where "EVENT_REMOVAL_FLAG_ALL = 0xFFFFFFFF"
definition WORLD_INSTANCE :: int where "WORLD_INSTANCE = -1"
definition EVENT_FLAG_DO_NOT_EXECUTE_IN_WORLD_CONTEXT :: u16 where "EVENT_FLAG_DO_NOT_EXECUTE_IN_WORLD_CONTEXT = 1"
definition EVENT_FLAG_DELETES_OBJECT :: u16 where "EVENT_FLAG_DELETES_OBJECT = 2"
definition EVENT_FLAG_FIRE_ON_DELETE :: u16 where "EVENT_FLAG_FIRE_ON_DELETE = 4"

text \<open>\<open>std::multimap::insert\<close>: behind the entries whose key is not greater.\<close>

definition mm_insert :: "'k::linorder \<Rightarrow> 'v \<Rightarrow> ('k \<times> 'v) list \<Rightarrow> ('k \<times> 'v) list" where
  "mm_insert k v m = takeWhile (\<lambda>e. fst e \<le> k) m @ (k, v) # dropWhile (\<lambda>e. fst e \<le> k) m"

definition erase_at :: "nat \<Rightarrow> 'a list \<Rightarrow> 'a list" where
  "erase_at i xs = take i xs @ drop (Suc i) xs"

section \<open>Events\<close>

text \<open>\<open>new TimedEvent(...)\<close>: \<open>repeats\<close> and \<open>flags\<close> are cut to 16 bits, the count starts at 0.\<close>

definition te_new :: "eobj \<Rightarrow> cbptr \<Rightarrow> u32 \<Rightarrow> u32 \<Rightarrow> u32 \<Rightarrow> u32 \<Rightarrow> timed_event" where
  "te_new obj cb typ time repeats flags = \<lparr> te_obj = obj, te_cb = cb, te_type = typ, te_flag = ucast flags,
     te_ms = uint time, te_curr = uint time, te_repeats = ucast repeats, te_deleted = False,
     te_instance = 0, te_ref = 0 \<rparr>"

definition te_store :: "evptr \<Rightarrow> timed_event \<Rightarrow> ev_world \<Rightarrow> ev_world" where
  "te_store ev e w = w\<lparr> ev_heap := (ev_heap w)(ev \<mapsto> e) \<rparr>"

definition te_adjust :: "(timed_event \<Rightarrow> timed_event) \<Rightarrow> ev_world \<Rightarrow> evptr \<Rightarrow> ev_world option" where
  "te_adjust f w ev = do { e \<leftarrow> ev_heap w ev; Some (te_store ev (f e) w) }"

definition inc_ref :: "ev_world \<Rightarrow> evptr \<Rightarrow> ev_world option" where
  "inc_ref = te_adjust (\<lambda>e. e\<lparr> te_ref := te_ref e + 1 \<rparr>)"

definition dec_ref :: "ev_world \<Rightarrow> evptr \<Rightarrow> ev_world option" where
  "dec_ref w ev = do {
     e \<leftarrow> ev_heap w ev;
     Some (if te_ref e - 1 \<le> 0 then w\<lparr> ev_heap := (ev_heap w)(ev := None) \<rparr>
           else te_store ev (e\<lparr> te_ref := te_ref e - 1 \<rparr>) w) }"

definition log_cb :: "cbptr \<Rightarrow> ev_world \<Rightarrow> ev_world" where
  "log_cb cb w = w\<lparr> ev_log := cb # ev_log w \<rparr>"

definition put_obj :: "eobj \<Rightarrow> eventable \<Rightarrow> ev_world \<Rightarrow> ev_world" where
  "put_obj obj ob w = w\<lparr> ev_objs := (ev_objs w)(obj \<mapsto> ob) \<rparr>"

definition put_holder :: "hptr \<Rightarrow> ev_holder \<Rightarrow> ev_world \<Rightarrow> ev_world" where
  "put_holder h ho w = w\<lparr> ev_holders := (ev_holders w)(h \<mapsto> ho) \<rparr>"

section \<open>Holders\<close>

text \<open>\<open>EventableObjectHolder(instance_id)\<close> enters the table; \<open>insert\<close> keeps an existing entry.\<close>

definition new_holder :: "int \<Rightarrow> ev_world \<Rightarrow> ev_world" where
  "new_holder inst w = (let h = h_next w in
     w\<lparr> ev_holders := (ev_holders w)(h \<mapsto> \<lparr> h_instance = inst, h_events = [], h_pool = [] \<rparr>),
        h_next := h + 1,
        holder_map := (if holder_map w inst = None then (holder_map w)(inst \<mapsto> h) else holder_map w) \<rparr>)"

text \<open>
  The destructor: \<open>RemoveEventHolder\<close> erases the entry that points to the holder, then the
  references of \<open>m_events\<close> are dropped; those of the insert pool are not.
\<close>

definition delete_holder :: "ev_world \<Rightarrow> hptr \<Rightarrow> ev_world option" where
  "delete_holder w h = do {
     ho \<leftarrow> ev_holders w h;
     let w1 = w\<lparr> holder_map := (\<lambda>i. if holder_map w i = Some h then None else holder_map w i) \<rparr>;
     w2 \<leftarrow> foldM dec_ref w1 (h_events ho);
     Some (w2\<lparr> ev_holders := (ev_holders w2)(h := None) \<rparr>) }"

text \<open>
  \<open>AddEvent\<close>: when another thread holds the lock of the holder (\<open>busy\<close>), the event goes to the
  insert pool. The lock is recursive, so callbacks of the holder's own \<open>Update\<close> are not busy.
\<close>

definition holder_push :: "ev_world \<Rightarrow> hptr \<Rightarrow> bool \<Rightarrow> evptr \<Rightarrow> ev_world option" where
  "holder_push w h busy ev = do {
     ho \<leftarrow> ev_holders w h;
     Some (put_holder h (if busy then ho\<lparr> h_pool := h_pool ho @ [ev] \<rparr> else ho\<lparr> h_events := h_events ho @ [ev] \<rparr>) w) }"

definition holder_add_event :: "ev_world \<Rightarrow> hptr \<Rightarrow> bool \<Rightarrow> evptr \<Rightarrow> ev_world option" where
  "holder_add_event w h busy ev = do { w1 \<leftarrow> inc_ref w ev; holder_push w1 h busy ev }"

text \<open>\<open>AddObject\<close>: one event of the object, then all of them.\<close>

definition holder_take :: "hptr \<Rightarrow> bool \<Rightarrow> ev_world \<Rightarrow> evptr \<Rightarrow> ev_world option" where
  "holder_take h busy w ev = do {
     ho \<leftarrow> ev_holders w h;
     e \<leftarrow> ev_heap w ev;
     if te_deleted e \<or> h_instance ho = WORLD_INSTANCE \<and> has_flag (te_flag e) EVENT_FLAG_DO_NOT_EXECUTE_IN_WORLD_CONTEXT
     then Some w
     else do {
       w1 \<leftarrow> inc_ref w ev;
       w2 \<leftarrow> te_adjust (\<lambda>e. e\<lparr> te_instance := h_instance ho \<rparr>) w1 ev;
       holder_push w2 h busy ev } }"

definition holder_add_object :: "ev_world \<Rightarrow> hptr \<Rightarrow> bool \<Rightarrow> eobj \<Rightarrow> ev_world option" where
  "holder_add_object w h busy obj = do { ob \<leftarrow> ev_objs w obj; foldM (holder_take h busy) w (map snd (eo_events ob)) }"

section \<open>Objects\<close>

definition new_object :: "ev_world \<Rightarrow> ev_world" where
  "new_object w = w\<lparr> ev_objs := (ev_objs w)(obj_next w \<mapsto> \<lparr> eo_instance = -1, eo_holder = None, eo_events = [] \<rparr>),
     obj_next := obj_next w + 1 \<rparr>"

text \<open>
  \<open>event_AddEvent\<close>; \<open>gid\<close> is what the virtual \<open>event_GetInstanceID\<close> returns. The object picks its
  holder when its first event is added. If the instance has no holder it falls back to that of
  the world, after the instance of the event has been set.
\<close>

definition event_add :: "ev_world \<Rightarrow> eobj \<Rightarrow> int \<Rightarrow> bool \<Rightarrow> evptr \<Rightarrow> ev_world option" where
  "event_add w obj gid busy ev = do {
     ob \<leftarrow> ev_objs w obj;
     let ob1 = (if eo_holder ob = None then ob\<lparr> eo_instance := gid, eo_holder := holder_map w gid \<rparr> else ob);
     w1 \<leftarrow> inc_ref w ev;
     w2 \<leftarrow> te_adjust (\<lambda>e. e\<lparr> te_instance := eo_instance ob1 \<rparr>) w1 ev;
     e \<leftarrow> ev_heap w2 ev;
     let ob2 = ob1\<lparr> eo_events := mm_insert (te_type e) ev (eo_events ob1) \<rparr>;
     let ob3 = (if eo_holder ob2 = None
                then ob2\<lparr> eo_instance := -1, eo_holder := holder_map w2 (-1) \<rparr> else ob2);
     h \<leftarrow> eo_holder ob3;
     holder_add_event (put_obj obj ob3 w2) h busy ev }"

text \<open>\<open>sEventMgr.AddEvent(obj, ...)\<close>: the event is allocated and added.\<close>

definition mgr_add_event ::
  "ev_world \<Rightarrow> eobj \<Rightarrow> int \<Rightarrow> bool \<Rightarrow> cbptr \<Rightarrow> u32 \<Rightarrow> u32 \<Rightarrow> u32 \<Rightarrow> u32 \<Rightarrow> ev_world option" where
  "mgr_add_event w obj gid busy cb typ time repeats flags =
     event_add ((te_store (ev_next w) (te_new obj cb typ time repeats flags) w)\<lparr> ev_next := ev_next w + 1 \<rparr>)
       obj gid busy (ev_next w)"

text \<open>One event on its way out: it is marked, fires if it is flagged to, and loses the object's reference.\<close>

definition rm_one :: "ev_world \<Rightarrow> evptr \<Rightarrow> ev_world option" where
  "rm_one w ev = do {
     e \<leftarrow> ev_heap w ev;
     let w1 = te_store ev (e\<lparr> te_deleted := True \<rparr>) w;
     let w2 = (if has_flag (te_flag e) EVENT_FLAG_FIRE_ON_DELETE \<and> \<not> te_deleted e then log_cb (te_cb e) w1 else w1);
     dec_ref w2 ev }"

definition event_remove :: "ev_world \<Rightarrow> eobj \<Rightarrow> u32 \<Rightarrow> ev_world option" where
  "event_remove w obj typ = do {
     ob \<leftarrow> ev_objs w obj;
     let gone = (\<lambda>k. typ = EVENT_REMOVAL_FLAG_ALL \<or> k = typ);
     w1 \<leftarrow> foldM rm_one w (map snd (filter (\<lambda>e. gone (fst e)) (eo_events ob)));
     Some (put_obj obj (ob\<lparr> eo_events := filter (\<lambda>e. \<not> gone (fst e)) (eo_events ob) \<rparr>) w1) }"

definition event_remove_by_pointer :: "ev_world \<Rightarrow> eobj \<Rightarrow> evptr \<Rightarrow> ev_world option" where
  "event_remove_by_pointer w obj ev = do {
     ob \<leftarrow> ev_objs w obj;
     e \<leftarrow> ev_heap w ev;
     if (te_type e, ev) \<in> set (eo_events ob)
     then do {
       w1 \<leftarrow> rm_one w ev;
       Some (put_obj obj (ob\<lparr> eo_events := remove1 (te_type e, ev) (eo_events ob) \<rparr>) w1) }
     else Some w }"

text \<open>The destructor \<open>~EventableObject\<close>.\<close>

definition destroy_object :: "ev_world \<Rightarrow> eobj \<Rightarrow> ev_world option" where
  "destroy_object w obj = do {
     ob \<leftarrow> ev_objs w obj;
     w1 \<leftarrow> foldM rm_one w (map snd (eo_events ob));
     Some (w1\<lparr> ev_objs := (ev_objs w1)(obj := None) \<rparr>) }"

definition typed_events :: "eventable \<Rightarrow> u32 \<Rightarrow> evptr list" where
  "typed_events ob typ = map snd (filter (\<lambda>e. fst e = typ) (eo_events ob))"

definition event_adjust :: "(timed_event \<Rightarrow> timed_event) \<Rightarrow> ev_world \<Rightarrow> eobj \<Rightarrow> u32 \<Rightarrow> ev_world option" where
  "event_adjust f w obj typ = do { ob \<leftarrow> ev_objs w obj; foldM (te_adjust f) w (typed_events ob typ) }"

text \<open>
  \<open>event_ModifyTimeLeft\<close> (a conditioned call never lengthens the period and reads the time as
  a signed number), \<open>event_ModifyTime\<close> and \<open>event_ModifyTimeAndTimeLeft\<close>.
\<close>

definition modify_time_left :: "u32 \<Rightarrow> bool \<Rightarrow> timed_event \<Rightarrow> timed_event" where
  "modify_time_left left unconditioned e =
     e\<lparr> te_curr := if unconditioned then uint left
                   else if sint left > te_ms e then te_ms e else sint left \<rparr>"

definition modify_time :: "u32 \<Rightarrow> timed_event \<Rightarrow> timed_event" where
  "modify_time time e = e\<lparr> te_ms := uint time \<rparr>"

definition modify_time_and_left :: "u32 \<Rightarrow> timed_event \<Rightarrow> timed_event" where
  "modify_time_and_left time e = e\<lparr> te_ms := uint time, te_curr := uint time \<rparr>"

text \<open>The queries: the time left of the first event of the type that is not deleted, and the period of the first.\<close>

definition live_typed :: "ev_world \<Rightarrow> eobj \<Rightarrow> u32 \<Rightarrow> timed_event list" where
  "live_typed w obj typ = (case ev_objs w obj of None \<Rightarrow> []
     | Some ob \<Rightarrow> filter (\<lambda>e. \<not> te_deleted e) (List.map_filter (ev_heap w) (typed_events ob typ)))"

definition event_has :: "ev_world \<Rightarrow> eobj \<Rightarrow> u32 \<Rightarrow> bool" where
  "event_has w obj typ \<longleftrightarrow> live_typed w obj typ \<noteq> []"

definition event_get_time_left :: "ev_world \<Rightarrow> eobj \<Rightarrow> u32 \<Rightarrow> u32 option" where
  "event_get_time_left w obj typ =
     (case live_typed w obj typ of [] \<Rightarrow> None | e # _ \<Rightarrow> Some (word_of_int (te_curr e)))"

definition event_get_period :: "ev_world \<Rightarrow> eobj \<Rightarrow> u32 \<Rightarrow> u32 option" where
  "event_get_period w obj typ = do {
     ob \<leftarrow> ev_objs w obj;
     (case typed_events ob typ of [] \<Rightarrow> Some 0
      | ev # _ \<Rightarrow> do { e \<leftarrow> ev_heap w ev; Some (word_of_int (te_ms e)) }) }"

definition event_has_events :: "ev_world \<Rightarrow> eobj \<Rightarrow> bool option" where
  "event_has_events w obj = do { ob \<leftarrow> ev_objs w obj; Some (eo_events ob \<noteq> []) }"

text \<open>\<open>event_Relocate\<close>: into the holder of the current instance, or that of the world.\<close>

definition event_relocate :: "ev_world \<Rightarrow> eobj \<Rightarrow> int \<Rightarrow> bool \<Rightarrow> ev_world option" where
  "event_relocate w obj gid busy = do {
     ob \<leftarrow> ev_objs w obj;
     if holder_map w gid = eo_holder ob then Some w
     else do {
       h \<leftarrow> (if holder_map w gid = None then holder_map w (-1) else holder_map w gid);
       w1 \<leftarrow> holder_add_object w h busy obj;
       ho \<leftarrow> ev_holders w1 h;
       ob1 \<leftarrow> ev_objs w1 obj;
       Some (put_obj obj (ob1\<lparr> eo_instance := h_instance ho, eo_holder := Some h \<rparr>) w1) } }"

section \<open>Scripts\<close>

text \<open>
  The calls a callback, or any other code, can make. A caller holds its object by a shared
  pointer, so a call on an object that is gone cannot be made: it is no step.
\<close>

datatype ev_op =
    OpNewObject
  | OpNewHolder int
  | OpAdd eobj int bool cbptr u32 u32 u32 u32
  | OpRemove eobj u32
  | OpRemovePtr eobj evptr
  | OpTimeLeft eobj u32 u32 bool
  | OpTime eobj u32 u32
  | OpTimeBoth eobj u32 u32
  | OpRelocate eobj int bool
  | OpDestroy eobj

fun op_target :: "ev_op \<Rightarrow> eobj option" where
  "op_target OpNewObject = None"
| "op_target (OpNewHolder i) = None"
| "op_target (OpAdd obj gid busy cb t ms rep fl) = Some obj"
| "op_target (OpRemove obj t) = Some obj"
| "op_target (OpRemovePtr obj ev) = Some obj"
| "op_target (OpTimeLeft obj t l u) = Some obj"
| "op_target (OpTime obj t l) = Some obj"
| "op_target (OpTimeBoth obj t l) = Some obj"
| "op_target (OpRelocate obj gid busy) = Some obj"
| "op_target (OpDestroy obj) = Some obj"

fun op_run :: "ev_world \<Rightarrow> ev_op \<Rightarrow> ev_world option" where
  "op_run w OpNewObject = Some (new_object w)"
| "op_run w (OpNewHolder i) = Some (new_holder i w)"
| "op_run w (OpAdd obj gid busy cb t ms rep fl) = mgr_add_event w obj gid busy cb t ms rep fl"
| "op_run w (OpRemove obj t) = event_remove w obj t"
| "op_run w (OpRemovePtr obj ev) =
     (if ev_heap w ev = None then Some w else event_remove_by_pointer w obj ev)"
| "op_run w (OpTimeLeft obj t l u) = event_adjust (modify_time_left l u) w obj t"
| "op_run w (OpTime obj t l) = event_adjust (modify_time l) w obj t"
| "op_run w (OpTimeBoth obj t l) = event_adjust (modify_time_and_left l) w obj t"
| "op_run w (OpRelocate obj gid busy) = event_relocate w obj gid busy"
| "op_run w (OpDestroy obj) = destroy_object w obj"

definition op_exec :: "ev_world \<Rightarrow> ev_op \<Rightarrow> ev_world option" where
  "op_exec w op = (case op_target op of
     Some obj \<Rightarrow> if ev_objs w obj = None then Some w else op_run w op
   | None \<Rightarrow> op_run w op)"

type_synonym cb_scripts = "cbptr \<Rightarrow> ev_world \<Rightarrow> ev_op list"

text \<open>\<open>cb->execute()\<close> for an event: a method of the object, which has to be there.\<close>

definition run_cb :: "cb_scripts \<Rightarrow> ev_world \<Rightarrow> timed_event \<Rightarrow> ev_world option" where
  "run_cb p w e = do { _ \<leftarrow> ev_objs w (te_obj e); foldM op_exec (log_cb (te_cb e) w) (p (te_cb e) w) }"

section \<open>Update\<close>

text \<open>The insert pool is emptied into the list, or dropped.\<close>

definition pool_one :: "hptr \<Rightarrow> ev_world \<Rightarrow> evptr \<Rightarrow> ev_world option" where
  "pool_one h w ev = do {
     ho \<leftarrow> ev_holders w h;
     e \<leftarrow> ev_heap w ev;
     if te_deleted e \<or> te_instance e \<noteq> h_instance ho then dec_ref w ev
     else Some (put_holder h (ho\<lparr> h_events := h_events ho @ [ev] \<rparr>) w) }"

definition flush_pool :: "ev_world \<Rightarrow> hptr \<Rightarrow> ev_world option" where
  "flush_pool w h = do {
     ho \<leftarrow> ev_holders w h;
     foldM (pool_one h) (put_holder h (ho\<lparr> h_pool := [] \<rparr>) w) (h_pool ho) }"

definition holder_erase :: "ev_world \<Rightarrow> hptr \<Rightarrow> nat \<Rightarrow> ev_world option" where
  "holder_erase w h i = do {
     ho \<leftarrow> ev_holders w h; Some (put_holder h (ho\<lparr> h_events := erase_at i (h_events ho) \<rparr>) w) }"

text \<open>The event at position \<open>i\<close> leaves the list with its reference.\<close>

definition upd_drop :: "ev_world \<Rightarrow> hptr \<Rightarrow> nat \<Rightarrow> evptr \<Rightarrow> ev_world option" where
  "upd_drop w h i ev = do { w1 \<leftarrow> dec_ref w ev; holder_erase w1 h i }"

text \<open>
  One turn of the loop at position \<open>i\<close>: the new state and whether the event was erased. After
  the callback the event is read again: the callback may have marked it deleted.
\<close>

definition te_spend :: "timed_event \<Rightarrow> timed_event" where
  "te_spend e = (if te_repeats e \<noteq> 0 then e\<lparr> te_repeats := te_repeats e - 1 \<rparr> else e)"

definition upd_fire :: "cb_scripts \<Rightarrow> ev_world \<Rightarrow> hptr \<Rightarrow> nat \<Rightarrow> evptr \<Rightarrow> (ev_world \<times> bool) option" where
  "upd_fire p w h i ev = do {
     e \<leftarrow> ev_heap w ev;
     if has_flag (te_flag e) EVENT_FLAG_DELETES_OBJECT
     then do {
       w1 \<leftarrow> run_cb p (te_store ev (e\<lparr> te_deleted := True \<rparr>) w) e;
       w2 \<leftarrow> holder_erase w1 h i;
       w3 \<leftarrow> dec_ref w2 ev;
       Some (w3, True) }
     else do {
       w1 \<leftarrow> run_cb p w e;
       e1 \<leftarrow> ev_heap w1 ev;
       let e2 = te_spend e1;
       if te_repeats e1 \<noteq> 0 \<and> te_repeats e2 = 0
       then do { w2 \<leftarrow> upd_drop (te_store ev (e2\<lparr> te_deleted := True \<rparr>) w1) h i ev; Some (w2, True) }
       else if te_deleted e2
       then do { w2 \<leftarrow> upd_drop (te_store ev e2 w1) h i ev; Some (w2, True) }
       else Some (te_store ev (e2\<lparr> te_curr := te_ms e2 \<rparr>) w1, False) } }"

definition te_stale :: "ev_holder \<Rightarrow> timed_event \<Rightarrow> bool" where
  "te_stale ho e \<longleftrightarrow> te_instance e \<noteq> h_instance ho \<or> te_deleted e \<or>
     h_instance ho = WORLD_INSTANCE \<and> has_flag (te_flag e) EVENT_FLAG_DO_NOT_EXECUTE_IN_WORLD_CONTEXT"

definition te_due :: "u32 \<Rightarrow> timed_event \<Rightarrow> bool" where
  "te_due diff e \<longleftrightarrow> (word_of_int (te_curr e) :: u32) \<le> diff"

definition upd_one :: "cb_scripts \<Rightarrow> u32 \<Rightarrow> ev_world \<Rightarrow> hptr \<Rightarrow> nat \<Rightarrow> evptr \<Rightarrow> (ev_world \<times> bool) option" where
  "upd_one p diff w h i ev = do {
     ho \<leftarrow> ev_holders w h;
     e \<leftarrow> ev_heap w ev;
     if te_stale ho e then do { w1 \<leftarrow> upd_drop w h i ev; Some (w1, True) }
     else if te_due diff e then upd_fire p w h i ev
     else Some (te_store ev (e\<lparr> te_curr := te_curr e - uint diff \<rparr>) w, False) }"

text \<open>
  The loop. Its iterator already points behind the event when the callback runs: if the event was
  the last one, the loop ends although the callback may have appended others. A callback that
  keeps appending can keep the loop going for ever, so it has fuel, and the flag tells whether it
  came to its end.
\<close>

fun upd_loop :: "nat \<Rightarrow> cb_scripts \<Rightarrow> u32 \<Rightarrow> hptr \<Rightarrow> ev_world \<Rightarrow> nat \<Rightarrow> (ev_world \<times> bool) option" where
  "upd_loop 0 p diff h w i = Some (w, False)"
| "upd_loop (Suc n) p diff h w i = do {
     ho \<leftarrow> ev_holders w h;
     if length (h_events ho) \<le> i then Some (w, True)
     else do {
       (w1, erased) \<leftarrow> upd_one p diff w h i (h_events ho ! i);
       if Suc i = length (h_events ho) then Some (w1, True)
       else upd_loop n p diff h w1 (if erased then i else Suc i) } }"

definition holder_update :: "nat \<Rightarrow> cb_scripts \<Rightarrow> u32 \<Rightarrow> ev_world \<Rightarrow> hptr \<Rightarrow> (ev_world \<times> bool) option" where
  "holder_update fuel p diff w h = do { w1 \<leftarrow> flush_pool w h; upd_loop fuel p diff h w1 0 }"

section \<open>The program\<close>

text \<open>At start there is the holder of the world (\<open>World::World\<close>).\<close>

definition ev_init :: ev_world where
  "ev_init = new_holder (-1) \<lparr> ev_heap = Map.empty, ev_next = 0, ev_objs = Map.empty, obj_next = 0,
     ev_holders = Map.empty, h_next = 0, holder_map = Map.empty, ev_log = [] \<rparr>"

text \<open>
  A holder goes with its map manager, when no object is attached to it any more.
\<close>

inductive ev_reach :: "ev_world \<Rightarrow> bool" where
  ev_start: "ev_reach ev_init"
| ev_call: "ev_reach w \<Longrightarrow> op_exec w op = Some w' \<Longrightarrow> ev_reach w'"
| ev_pass: "ev_reach w \<Longrightarrow> holder_update fuel p diff w h = Some (w', fin) \<Longrightarrow> ev_reach w'"
| ev_unload: "ev_reach w \<Longrightarrow> (\<And>obj ob. ev_objs w obj = Some ob \<Longrightarrow> eo_holder ob \<noteq> Some h) \<Longrightarrow>
    holder_map w (-1) \<noteq> Some h \<Longrightarrow> delete_holder w h = Some w' \<Longrightarrow> ev_reach w'"

section \<open>Reference counts\<close>

text \<open>
  The references to events, as a multiset: those of the objects and those of the holders' lists
  and pools. In the invariant, \<open>D\<close> are the references held outside these structures (in flight
  during an operation, or lost with the pool of a deleted holder), and \<open>X\<close> the events that are
  not marked deleted although no object lists them, which happens only inside an operation.
\<close>

definition orefs :: "eventable option \<Rightarrow> evptr multiset" where
  "orefs x = (case x of None \<Rightarrow> {#} | Some ob \<Rightarrow> mset (map snd (eo_events ob)))"

definition hrefs :: "ev_holder option \<Rightarrow> evptr multiset" where
  "hrefs x = (case x of None \<Rightarrow> {#} | Some ho \<Rightarrow> mset (h_events ho) + mset (h_pool ho))"

definition refs :: "ev_world \<Rightarrow> evptr multiset" where
  "refs w = (\<Sum>i<obj_next w. orefs (ev_objs w i)) + (\<Sum>h<h_next w. hrefs (ev_holders w h))"

definition nrefs :: "evptr multiset \<Rightarrow> ev_world \<Rightarrow> evptr \<Rightarrow> nat" where
  "nrefs D w ev = count (refs w + D) ev"

definition cells_ok :: "evptr multiset \<Rightarrow> ev_world \<Rightarrow> bool" where
  "cells_ok D w \<longleftrightarrow> (\<forall>ev. case ev_heap w ev of
      None \<Rightarrow> nrefs D w ev = 0
    | Some e \<Rightarrow> te_ref e = int (nrefs D w ev) \<and> 0 < nrefs D w ev \<and> ev < ev_next w)"

definition obj_ok :: "ev_world \<Rightarrow> eobj \<Rightarrow> eventable \<Rightarrow> bool" where
  "obj_ok w obj ob \<longleftrightarrow> obj < obj_next w \<and> distinct (map snd (eo_events ob)) \<and> sorted (map fst (eo_events ob)) \<and>
     (\<forall>t ev. (t, ev) \<in> set (eo_events ob) \<longrightarrow> (\<exists>e. ev_heap w ev = Some e \<and> te_type e = t \<and> te_obj e = obj)) \<and>
     (\<forall>h. eo_holder ob = Some h \<longrightarrow> ev_holders w h \<noteq> None)"

definition live_ok :: "evptr set \<Rightarrow> ev_world \<Rightarrow> bool" where
  "live_ok X w \<longleftrightarrow> (\<forall>ev e. ev_heap w ev = Some e \<longrightarrow> \<not> te_deleted e \<longrightarrow> ev \<notin> X \<longrightarrow>
     (\<exists>ob. ev_objs w (te_obj e) = Some ob \<and> (te_type e, ev) \<in> set (eo_events ob)))"

definition holders_ok :: "ev_world \<Rightarrow> bool" where
  "holders_ok w \<longleftrightarrow> (\<forall>h ho. ev_holders w h = Some ho \<longrightarrow> h < h_next w) \<and>
     (\<forall>i h. holder_map w i = Some h \<longrightarrow> (\<exists>ho. ev_holders w h = Some ho \<and> h_instance ho = i)) \<and>
     holder_map w (-1) \<noteq> None"

definition ev_okh :: "evptr multiset \<Rightarrow> evptr set \<Rightarrow> ev_world \<Rightarrow> bool" where
  "ev_okh D X w \<longleftrightarrow> cells_ok D w \<and> (\<forall>obj ob. ev_objs w obj = Some ob \<longrightarrow> obj_ok w obj ob) \<and>
     live_ok X w \<and> holders_ok w"

lemma ev_okhD:
  assumes "ev_okh D X w"
  shows "ev_heap w ev = Some e \<Longrightarrow> te_ref e = int (nrefs D w ev) \<and> 0 < nrefs D w ev \<and> ev < ev_next w"
    "ev_heap w ev = None \<Longrightarrow> nrefs D w ev = 0"
    "ev_objs w obj = Some ob \<Longrightarrow> obj_ok w obj ob"
    "ev_heap w ev = Some e \<Longrightarrow> \<not> te_deleted e \<Longrightarrow> ev \<notin> X \<Longrightarrow>
      \<exists>ob. ev_objs w (te_obj e) = Some ob \<and> (te_type e, ev) \<in> set (eo_events ob)"
    "ev_holders w h = Some ho \<Longrightarrow> h < h_next w"
    "holder_map w i = Some h \<Longrightarrow> \<exists>ho. ev_holders w h = Some ho \<and> h_instance ho = i"
    "\<exists>h. holder_map w (-1) = Some h"
proof -
  have c: "cells_ok D w" and o: "\<forall>obj ob. ev_objs w obj = Some ob \<longrightarrow> obj_ok w obj ob"
    and l: "live_ok X w" and h: "holders_ok w"
    using assms by (simp_all add: ev_okh_def)
  have cs: "case ev_heap w ev of None \<Rightarrow> nrefs D w ev = 0
    | Some e \<Rightarrow> te_ref e = int (nrefs D w ev) \<and> 0 < nrefs D w ev \<and> ev < ev_next w"
    using c unfolding cells_ok_def by (rule spec)
  show "ev_heap w ev = Some e \<Longrightarrow> te_ref e = int (nrefs D w ev) \<and> 0 < nrefs D w ev \<and> ev < ev_next w"
    and "ev_heap w ev = None \<Longrightarrow> nrefs D w ev = 0"
    using cs by simp_all
  show "ev_objs w obj = Some ob \<Longrightarrow> obj_ok w obj ob" using o by blast
  show "ev_heap w ev = Some e \<Longrightarrow> \<not> te_deleted e \<Longrightarrow> ev \<notin> X \<Longrightarrow>
      \<exists>ob. ev_objs w (te_obj e) = Some ob \<and> (te_type e, ev) \<in> set (eo_events ob)"
    using l unfolding live_ok_def by blast
  show "ev_holders w h = Some ho \<Longrightarrow> h < h_next w" for h ho using h unfolding holders_ok_def by blast
  show "holder_map w i = Some h \<Longrightarrow> \<exists>ho. ev_holders w h = Some ho \<and> h_instance ho = i" for h
    using h unfolding holders_ok_def by blast
  show "\<exists>h. holder_map w (-1) = Some h" using h unfolding holders_ok_def by blast
qed

lemma cells_okI:
  assumes "\<And>x. ev_heap w x = None \<Longrightarrow> nrefs D w x = 0"
    "\<And>x e. ev_heap w x = Some e \<Longrightarrow> te_ref e = int (nrefs D w x) \<and> 0 < nrefs D w x \<and> x < ev_next w"
  shows "cells_ok D w"
  using assms unfolding cells_ok_def by (auto split: option.splits)

lemma holders_okI:
  assumes "\<And>h ho. ev_holders w h = Some ho \<Longrightarrow> h < h_next w"
    "\<And>i h. holder_map w i = Some h \<Longrightarrow> \<exists>ho. ev_holders w h = Some ho \<and> h_instance ho = i"
    "\<exists>h. holder_map w (-1) = Some h"
  shows "holders_ok w"
  using assms unfolding holders_ok_def by blast

lemma sum_fun_upd:
  fixes f :: "'a \<Rightarrow> 'b::comm_monoid_add"
  assumes "i < (n::nat)"
  shows "(\<Sum>j<n. f ((g(i := x)) j)) + f (g i) = (\<Sum>j<n. f (g j)) + f x"
proof -
  have i: "i \<in> {..<n}" using assms by simp
  have "(\<Sum>j\<in>{..<n} - {i}. f ((g(i := x)) j)) = (\<Sum>j\<in>{..<n} - {i}. f (g j))"
    by (rule sum.cong) auto
  with sum.remove [OF _ i, of "\<lambda>j. f ((g(i := x)) j)"] sum.remove [OF _ i, of "\<lambda>j. f (g j)"]
  show ?thesis by (simp add: ac_simps)
qed

lemma refs_te_store [simp]: "refs (te_store ev e w) = refs w"
  by (simp add: refs_def te_store_def)

lemma refs_heap [simp]: "refs (w\<lparr> ev_heap := H \<rparr>) = refs w"
  by (simp add: refs_def)

lemma refs_log [simp]: "refs (w\<lparr> ev_log := L \<rparr>) = refs w"
  by (simp add: refs_def)

lemma nrefs_simps [simp]:
  "nrefs D (te_store ev e w) x = nrefs D w x" "nrefs D (w\<lparr> ev_heap := H \<rparr>) x = nrefs D w x"
  "nrefs D (w\<lparr> ev_log := L \<rparr>) x = nrefs D w x"
  "nrefs (add_mset ev D) w x = nrefs D w x + (if x = ev then 1 else 0)"
  by (simp_all add: nrefs_def)

lemma refs_put_obj:
  assumes "obj < obj_next w"
  shows "refs (put_obj obj ob w) + orefs (ev_objs w obj) = refs w + orefs (Some ob)"
  using sum_fun_upd [OF assms, of orefs "ev_objs w" "Some ob"]
  by (simp add: refs_def put_obj_def ac_simps)

lemma refs_put_holder:
  assumes "h < h_next w"
  shows "refs (put_holder h ho w) + hrefs (ev_holders w h) = refs w + hrefs (Some ho)"
  using sum_fun_upd [OF assms, of hrefs "ev_holders w" "Some ho"]
  by (simp add: refs_def put_holder_def ac_simps)

lemma world_sel [simp]:
  "ev_heap (te_store ev e w) = (ev_heap w)(ev \<mapsto> e)" "ev_objs (te_store ev e w) = ev_objs w"
  "ev_holders (te_store ev e w) = ev_holders w" "holder_map (te_store ev e w) = holder_map w"
  "ev_next (te_store ev e w) = ev_next w" "obj_next (te_store ev e w) = obj_next w"
  "h_next (te_store ev e w) = h_next w"
  "ev_heap (put_obj obj ob w) = ev_heap w" "ev_objs (put_obj obj ob w) = (ev_objs w)(obj \<mapsto> ob)"
  "ev_holders (put_obj obj ob w) = ev_holders w" "holder_map (put_obj obj ob w) = holder_map w"
  "ev_next (put_obj obj ob w) = ev_next w" "obj_next (put_obj obj ob w) = obj_next w"
  "h_next (put_obj obj ob w) = h_next w"
  "ev_heap (put_holder h ho w) = ev_heap w" "ev_objs (put_holder h ho w) = ev_objs w"
  "ev_holders (put_holder h ho w) = (ev_holders w)(h \<mapsto> ho)" "holder_map (put_holder h ho w) = holder_map w"
  "ev_next (put_holder h ho w) = ev_next w" "obj_next (put_holder h ho w) = obj_next w"
  "h_next (put_holder h ho w) = h_next w"
  by (simp_all add: te_store_def put_obj_def put_holder_def)

lemma obj_ok_cong:
  assumes "obj_ok w obj ob" "obj_next w' = obj_next w"
    "\<And>h. ev_holders w h \<noteq> None \<Longrightarrow> ev_holders w' h \<noteq> None"
    "\<And>t ev e. (t, ev) \<in> set (eo_events ob) \<Longrightarrow> ev_heap w ev = Some e \<Longrightarrow>
       \<exists>e'. ev_heap w' ev = Some e' \<and> te_type e' = te_type e \<and> te_obj e' = te_obj e"
  shows "obj_ok w' obj ob"
  using assms unfolding obj_ok_def by metis

section \<open>The invariant under the elementary changes\<close>

lemma okh_store:
  assumes ok: "ev_okh D X w" and e: "ev_heap w ev = Some e"
    and e': "te_ref e' = te_ref e" "te_obj e' = te_obj e" "te_type e' = te_type e" "te_deleted e \<Longrightarrow> te_deleted e'"
  shows "ev_okh D X (te_store ev e' w)"
  unfolding ev_okh_def
proof (intro conjI allI impI)
  show "cells_ok D (te_store ev e' w)"
    by (rule cells_okI) (use ev_okhD(1) [OF ok] ev_okhD(2) [OF ok] e e'(1) in \<open>auto split: if_splits\<close>)
  show "live_ok X (te_store ev e' w)"
    using ev_okhD(4) [OF ok] e e' unfolding live_ok_def by auto
  show "holders_ok (te_store ev e' w)" using ok by (simp add: ev_okh_def holders_ok_def)
  fix obj ob assume "ev_objs (te_store ev e' w) obj = Some ob"
  then show "obj_ok (te_store ev e' w) obj ob"
    using e e' by (intro obj_ok_cong [OF ev_okhD(3) [OF ok]]) auto
qed

lemma okh_log [simp]: "ev_okh D X (log_cb cb w) = ev_okh D X w"
  by (simp add: ev_okh_def cells_ok_def obj_ok_def live_ok_def holders_ok_def log_cb_def cong: option.case_cong)

lemma okh_adjust:
  assumes "ev_okh D X w" "ev_heap w ev = Some e"
    "\<And>e. te_ref (f e) = te_ref e \<and> te_obj (f e) = te_obj e \<and> te_type (f e) = te_type e \<and> (te_deleted e \<longrightarrow> te_deleted (f e))"
  shows "te_adjust f w ev = Some (te_store ev (f e) w) \<and> ev_okh D X (te_store ev (f e) w)"
  using assms okh_store [OF assms(1,2), of "f e"] by (simp add: te_adjust_def)

lemma okh_inc:
  assumes ok: "ev_okh D X w" and e: "ev_heap w ev = Some e"
  shows "inc_ref w ev = Some (te_store ev (e\<lparr> te_ref := te_ref e + 1 \<rparr>) w) \<and>
    ev_okh (add_mset ev D) X (te_store ev (e\<lparr> te_ref := te_ref e + 1 \<rparr>) w)"
proof -
  let ?w = "te_store ev (e\<lparr> te_ref := te_ref e + 1 \<rparr>) w"
  have "cells_ok (add_mset ev D) ?w"
    by (rule cells_okI) (use ev_okhD(1) [OF ok] ev_okhD(2) [OF ok] e in \<open>auto split: if_splits\<close>)
  moreover have "live_ok X ?w" using ev_okhD(4) [OF ok] e unfolding live_ok_def by auto
  moreover have "holders_ok ?w" using ok by (simp add: ev_okh_def holders_ok_def)
  moreover have "obj_ok ?w obj ob" if "ev_objs ?w obj = Some ob" for obj ob
    using that e by (intro obj_ok_cong [OF ev_okhD(3) [OF ok]]) auto
  ultimately show ?thesis using e by (auto simp: inc_ref_def te_adjust_def ev_okh_def)
qed

lemma orefs_count: "(t, ev) \<in> set (eo_events ob) \<Longrightarrow> 0 < count (orefs (Some ob)) ev"
  by (force simp: orefs_def)

lemma orefs_le_refs: "obj < obj_next w \<Longrightarrow> count (orefs (ev_objs w obj)) ev \<le> nrefs D w ev"
  using sum.remove [of "{..<obj_next w}" obj "\<lambda>i. orefs (ev_objs w i)"]
  by (simp add: refs_def nrefs_def)

lemma hrefs_le_refs: "h < h_next w \<Longrightarrow> count (hrefs (ev_holders w h)) ev \<le> nrefs D w ev"
  using sum.remove [of "{..<h_next w}" h "\<lambda>i. hrefs (ev_holders w i)"]
  by (simp add: refs_def nrefs_def)

lemma okh_listed:
  assumes ok: "ev_okh D X w" and "ev_objs w obj = Some ob" "(t, ev) \<in> set (eo_events ob)"
  shows "0 < nrefs D' w ev"
proof -
  have "obj < obj_next w" using ev_okhD(3) [OF ok assms(2)] by (simp add: obj_ok_def)
  from orefs_le_refs [OF this, of ev D'] orefs_count [OF assms(3)] assms(2) show ?thesis
    by (simp del: count_greater_zero_iff)
qed

definition same_frame :: "ev_world \<Rightarrow> ev_world \<Rightarrow> bool" where
  "same_frame w w' \<longleftrightarrow> ev_objs w' = ev_objs w \<and> ev_holders w' = ev_holders w \<and> holder_map w' = holder_map w \<and>
     obj_next w' = obj_next w \<and> h_next w' = h_next w \<and> ev_next w' = ev_next w"

lemma same_frame_refl [simp]: "same_frame w w"
  by (simp add: same_frame_def)

lemma same_frame_trans: "same_frame w w' \<Longrightarrow> same_frame w' w'' \<Longrightarrow> same_frame w w''"
  by (simp add: same_frame_def)

lemma same_frame_store [simp]: "same_frame w (te_store ev e w)"
  by (simp add: same_frame_def)

lemma same_frame_log [simp]: "same_frame w (log_cb cb w)"
  by (simp add: same_frame_def log_cb_def)

lemma okh_dec:
  assumes ok: "ev_okh (add_mset ev D) X w"
  shows "\<exists>w'. dec_ref w ev = Some w' \<and> ev_okh D X w' \<and> same_frame w w' \<and> ev_log w' = ev_log w \<and>
    (\<forall>x. x \<noteq> ev \<longrightarrow> ev_heap w' x = ev_heap w x) \<and>
    (\<forall>e'. ev_heap w' ev = Some e' \<longrightarrow> (\<exists>e. ev_heap w ev = Some e \<and> e' = e\<lparr> te_ref := te_ref e - 1 \<rparr>)) \<and>
    (0 < nrefs D w ev \<longrightarrow> ev_heap w' ev \<noteq> None)"
proof -
  obtain e where e: "ev_heap w ev = Some e" using ev_okhD(2) [OF ok, of ev] by (cases "ev_heap w ev") auto
  have r: "te_ref e = int (nrefs D w ev) + 1" using ev_okhD(1) [OF ok e] by simp
  define w' where "w' = (if te_ref e - 1 \<le> 0 then w\<lparr> ev_heap := (ev_heap w)(ev := None) \<rparr>
           else te_store ev (e\<lparr> te_ref := te_ref e - 1 \<rparr>) w)"
  have sel: "same_frame w w'" "ev_heap w' = (ev_heap w)(ev := if nrefs D w ev = 0 then None
      else Some (e\<lparr> te_ref := te_ref e - 1 \<rparr>))" "refs w' = refs w" "ev_log w' = ev_log w"
    using r by (auto simp: w'_def same_frame_def te_store_def)
  have n: "nrefs D w' x = nrefs D w x" for x using sel(3) by (simp add: nrefs_def)
  have "cells_ok D w'"
  proof (rule cells_okI)
    fix x assume "ev_heap w' x = None"
    then show "nrefs D w' x = 0"
      using sel(2) n ev_okhD(2) [OF ok, of x] by (cases "x = ev") (auto split: if_splits)
  next
    fix x e' assume x: "ev_heap w' x = Some e'"
    show "te_ref e' = int (nrefs D w' x) \<and> 0 < nrefs D w' x \<and> x < ev_next w'"
    proof (cases "x = ev")
      case True
      with x sel n r ev_okhD(1) [OF ok e] show ?thesis by (auto simp: same_frame_def split: if_splits)
    next
      case False
      with x sel n ev_okhD(1) [OF ok, of x e'] show ?thesis by (simp add: same_frame_def)
    qed
  qed
  moreover have "live_ok X w'" using ev_okhD(4) [OF ok] e sel unfolding live_ok_def
    by (auto simp: same_frame_def split: if_splits)
  moreover have "holders_ok w'" using ok sel(1) by (simp add: ev_okh_def holders_ok_def same_frame_def)
  moreover have "obj_ok w' obj ob" if "ev_objs w' obj = Some ob" for obj ob
  proof (rule obj_ok_cong [OF ev_okhD(3) [OF ok]])
    show "ev_objs w obj = Some ob" using that sel(1) by (simp add: same_frame_def)
    fix t x ex assume x: "(t, x) \<in> set (eo_events ob)" "ev_heap w x = Some ex"
    have "0 < nrefs D w x" by (rule okh_listed [OF ok \<open>ev_objs w obj = Some ob\<close> x(1)])
    then show "\<exists>e'. ev_heap w' x = Some e' \<and> te_type e' = te_type ex \<and> te_obj e' = te_obj ex"
      using x(2) e sel(2) by auto
  qed (use sel(1) in \<open>auto simp: same_frame_def\<close>)
  ultimately have "ev_okh D X w'" by (simp add: ev_okh_def)
  moreover have "dec_ref w ev = Some w'" using e by (simp add: dec_ref_def w'_def)
  moreover have "\<forall>e'. ev_heap w' ev = Some e' \<longrightarrow> (\<exists>e. ev_heap w ev = Some e \<and> e' = e\<lparr> te_ref := te_ref e - 1 \<rparr>)"
    using e sel(2) by auto
  ultimately show ?thesis using sel by auto
qed

lemma hrefs_Some: "hrefs (Some ho) = mset (h_events ho) + mset (h_pool ho)"
  by (simp add: hrefs_def)

text \<open>The references a list holds may move between the list and \<open>D\<close>.\<close>

lemma okh_swap_holder:
  assumes ok: "ev_okh D X w" and h: "ev_holders w h = Some ho" "h_instance ho' = h_instance ho"
    and m: "D + hrefs (Some ho) = D' + hrefs (Some ho')"
  shows "ev_okh D' X (put_holder h ho' w)"
proof -
  let ?w = "put_holder h ho' w"
  have "refs ?w + D' + hrefs (Some ho) = refs w + (D' + hrefs (Some ho'))"
    using refs_put_holder [OF ev_okhD(5) [OF ok h(1)], of ho'] h(1) by (simp add: ac_simps)
  also have "\<dots> = refs w + D + hrefs (Some ho)" using m by (metis add.assoc)
  finally have eq: "nrefs D' ?w x = nrefs D w x" for x by (simp add: nrefs_def)
  have "cells_ok D' ?w"
    by (rule cells_okI) (use ev_okhD(1) [OF ok] ev_okhD(2) [OF ok] eq in auto)
  moreover have "live_ok X ?w" using ok by (simp add: ev_okh_def live_ok_def)
  moreover have "holders_ok ?w"
  proof (rule holders_okI)
    fix i x assume "holder_map ?w i = Some x"
    then obtain ho1 where "ev_holders w x = Some ho1" "h_instance ho1 = i"
      using ev_okhD(6) [OF ok, of i x] by auto
    with h show "\<exists>ho. ev_holders ?w x = Some ho \<and> h_instance ho = i" by (cases "x = h") auto
  qed (use ev_okhD(5,7) [OF ok] h in \<open>auto split: if_splits\<close>)
  moreover have "obj_ok ?w obj ob" if "ev_objs ?w obj = Some ob" for obj ob
    using that by (intro obj_ok_cong [OF ev_okhD(3) [OF ok]]) auto
  ultimately show ?thesis by (simp add: ev_okh_def)
qed

lemma okh_push:
  assumes "ev_okh (add_mset ev D) X w" "ev_holders w h = Some ho"
  shows "\<exists>w'. holder_push w h busy ev = Some w' \<and> ev_okh D X w'"
  using okh_swap_holder [OF assms, of "ho\<lparr> h_pool := h_pool ho @ [ev] \<rparr>" D]
    okh_swap_holder [OF assms, of "ho\<lparr> h_events := h_events ho @ [ev] \<rparr>" D] assms(2)
  by (simp add: holder_push_def hrefs_Some)

lemma mset_erase_at: "i < length xs \<Longrightarrow> mset xs = add_mset (xs ! i) (mset (erase_at i xs))"
  using id_take_nth_drop [of i xs] unfolding erase_at_def
  by (metis mset.simps(2) mset_append union_mset_add_mset_right)

lemma okh_erase:
  assumes "ev_okh D X w" "ev_holders w h = Some ho" "i < length (h_events ho)"
  shows "\<exists>w'. holder_erase w h i = Some w' \<and> ev_okh (add_mset (h_events ho ! i) D) X w'"
  using okh_swap_holder [OF assms(1,2), of "ho\<lparr> h_events := erase_at i (h_events ho) \<rparr>" "add_mset (h_events ho ! i) D"]
    mset_erase_at [OF assms(3)] assms(2)
  by (simp add: holder_erase_def hrefs_Some)

text \<open>The list of an object may change against \<open>D\<close> and \<open>X\<close>.\<close>

lemma okh_swap_obj:
  assumes ok: "ev_okh D X w" and ob: "ev_objs w obj = Some ob" and ok': "obj_ok w obj ob'"
    and m: "D + orefs (Some ob) = D' + orefs (Some ob')"
    and sub: "\<And>t ev. (t, ev) \<in> set (eo_events ob) \<Longrightarrow> (t, ev) \<in> set (eo_events ob') \<or> ev \<in> X'"
    and X: "\<And>ev e. ev \<in> X \<Longrightarrow> ev \<notin> X' \<Longrightarrow> ev_heap w ev = Some e \<Longrightarrow> \<not> te_deleted e \<Longrightarrow>
      te_obj e = obj \<and> (te_type e, ev) \<in> set (eo_events ob')"
  shows "ev_okh D' X' (put_obj obj ob' w)"
proof -
  let ?w = "put_obj obj ob' w"
  have "obj < obj_next w" using ok' by (simp add: obj_ok_def)
  then have "refs ?w + D' + orefs (Some ob) = refs w + (D' + orefs (Some ob'))"
    using refs_put_obj [of obj w ob'] ob by (simp add: ac_simps)
  also have "\<dots> = refs w + D + orefs (Some ob)" using m by (metis add.assoc)
  finally have eq: "nrefs D' ?w x = nrefs D w x" for x by (simp add: nrefs_def)
  have "cells_ok D' ?w"
    by (rule cells_okI) (use ev_okhD(1) [OF ok] ev_okhD(2) [OF ok] eq in auto)
  moreover have "live_ok X' ?w"
    unfolding live_ok_def
  proof (intro allI impI)
    fix ev e assume e: "ev_heap ?w ev = Some e" "\<not> te_deleted e" "ev \<notin> X'"
    show "\<exists>ob. ev_objs ?w (te_obj e) = Some ob \<and> (te_type e, ev) \<in> set (eo_events ob)"
    proof (cases "ev \<in> X")
      case True
      with X [OF True e(3)] e show ?thesis by simp
    next
      case False
      with ev_okhD(4) [OF ok, of ev e] e sub ob show ?thesis by (cases "te_obj e = obj") auto
    qed
  qed
  moreover have "holders_ok ?w" using ok by (simp add: ev_okh_def holders_ok_def)
  moreover have "obj_ok ?w x y" if "ev_objs ?w x = Some y" for x y
  proof (cases "x = obj")
    case True
    have "obj_ok ?w obj ob'" by (rule obj_ok_cong [OF ok']) auto
    with True that show ?thesis by simp
  next
    case False
    with that show ?thesis by (intro obj_ok_cong [OF ev_okhD(3) [OF ok]]) auto
  qed
  ultimately show ?thesis by (simp add: ev_okh_def)
qed

lemma okh_del_obj:
  assumes ok: "ev_okh D X w" and ob: "ev_objs w obj = Some ob" "eo_events ob = []"
  shows "ev_okh D X (w\<lparr> ev_objs := (ev_objs w)(obj := None) \<rparr>)"
proof -
  let ?w = "w\<lparr> ev_objs := (ev_objs w)(obj := None) \<rparr>"
  have "obj < obj_next w" using ev_okhD(3) [OF ok ob(1)] by (simp add: obj_ok_def)
  then have "refs ?w = refs w"
    using sum_fun_upd [of obj "obj_next w" orefs "ev_objs w" None] ob by (simp add: refs_def orefs_def)
  then have n: "nrefs D ?w x = nrefs D w x" for x by (simp add: nrefs_def)
  have "cells_ok D ?w"
    by (rule cells_okI) (use ev_okhD(1) [OF ok] ev_okhD(2) [OF ok] n in auto)
  moreover have "live_ok X ?w" using ev_okhD(4) [OF ok] ob unfolding live_ok_def by fastforce
  moreover have "holders_ok ?w" using ok by (simp add: ev_okh_def holders_ok_def)
  moreover have "obj_ok ?w x y" if "ev_objs ?w x = Some y" for x y
    using that by (intro obj_ok_cong [OF ev_okhD(3) [OF ok]]) (auto split: if_splits)
  ultimately show ?thesis by (simp add: ev_okh_def)
qed

section \<open>Removal\<close>

lemma okh_mono: "ev_okh D X w \<Longrightarrow> X \<subseteq> Y \<Longrightarrow> ev_okh D Y w"
  unfolding ev_okh_def live_ok_def by blast

lemma okh_mark:
  assumes ok: "ev_okh D (insert ev X) w" and e: "ev_heap w ev = Some e"
  shows "ev_okh D X (te_store ev (e\<lparr> te_deleted := True \<rparr>) w)"
proof -
  have "ev_okh D (insert ev X) (te_store ev (e\<lparr> te_deleted := True \<rparr>) w)"
    by (rule okh_store [OF ok e]) simp_all
  then show ?thesis unfolding ev_okh_def live_ok_def by auto
qed

lemma okh_rm_one:
  assumes ok: "ev_okh (add_mset ev D) (insert ev X) w"
  shows "\<exists>w'. rm_one w ev = Some w' \<and> ev_okh D X w' \<and> same_frame w w'"
proof -
  obtain e where e: "ev_heap w ev = Some e" using ev_okhD(2) [OF ok, of ev] by (cases "ev_heap w ev") auto
  let ?w1 = "te_store ev (e\<lparr> te_deleted := True \<rparr>) w"
  let ?w2 = "if has_flag (te_flag e) EVENT_FLAG_FIRE_ON_DELETE \<and> \<not> te_deleted e then log_cb (te_cb e) ?w1 else ?w1"
  have "ev_okh (add_mset ev D) X ?w2" using okh_mark [OF ok e] by simp
  from okh_dec [OF this] obtain w' where "dec_ref ?w2 ev = Some w'" "ev_okh D X w'" "same_frame ?w2 w'" by blast
  moreover have "same_frame w ?w2"
    using same_frame_trans [OF same_frame_store same_frame_log] by simp
  ultimately show ?thesis using e same_frame_trans by (auto simp: rm_one_def Let_def)
qed

lemma okh_rm_all:
  "ev_okh (mset evs + D) (set evs \<union> X) w \<Longrightarrow> \<exists>w'. foldM rm_one w evs = Some w' \<and> ev_okh D X w' \<and> same_frame w w'"
proof (induction evs arbitrary: w)
  case (Cons ev evs)
  from okh_rm_one [of ev "mset evs + D" "set evs \<union> X" w] Cons.prems obtain w1 where
    w1: "rm_one w ev = Some w1" "ev_okh (mset evs + D) (set evs \<union> X) w1" "same_frame w w1" by auto
  from Cons.IH [OF w1(2)] w1 same_frame_trans show ?case by fastforce
qed simp

lemma rm_one_put_obj: "rm_one (put_obj obj ob w) ev = map_option (put_obj obj ob) (rm_one w ev)"
  by (cases "ev_heap w ev") (simp_all add: rm_one_def dec_ref_def te_store_def put_obj_def log_cb_def Let_def)

lemma rm_all_put_obj: "foldM rm_one (put_obj obj ob w) evs = map_option (put_obj obj ob) (foldM rm_one w evs)"
proof (induction evs arbitrary: w)
  case (Cons ev evs)
  then show ?case by (cases "rm_one w ev") (simp_all add: rm_one_put_obj)
qed simp

lemma rm_one_frame: "rm_one w ev = Some w' \<Longrightarrow> same_frame w w'"
  by (cases "ev_heap w ev")
    (auto simp: rm_one_def dec_ref_def Let_def log_cb_def te_store_def same_frame_def split: if_splits)

lemma rm_all_frame: "foldM rm_one w evs = Some w' \<Longrightarrow> same_frame w w'"
proof (induction evs arbitrary: w)
  case (Cons ev evs)
  then show ?case by (cases "rm_one w ev") (auto dest: rm_one_frame intro: same_frame_trans)
qed simp

text \<open>A part of the object's events leaves it: \<open>keep\<close> stays.\<close>

lemma okh_remove_part:
  assumes ok: "ev_okh D X w" and ob: "ev_objs w obj = Some ob"
    and part: "mset (eo_events ob) = mset gone + mset keep" "sorted (map fst keep)"
  shows "\<exists>w'. foldM rm_one w (map snd gone) = Some w' \<and> same_frame w w' \<and>
    ev_okh D X (put_obj obj (ob\<lparr> eo_events := keep \<rparr>) w')"
proof -
  let ?ob = "ob\<lparr> eo_events := keep \<rparr>"
  have o: "obj_ok w obj ob" by (rule ev_okhD(3) [OF ok ob])
  have sets: "set (eo_events ob) = set gone \<union> set keep"
    using arg_cong [OF part(1), of set_mset] by simp
  have sm: "mset (map snd (eo_events ob)) = mset (map snd gone) + mset (map snd keep)"
    using part(1) by (simp flip: image_mset_union)
  have "mset (map snd (eo_events ob)) = mset (map snd (gone @ keep))" using sm by simp
  then have "distinct (map snd (gone @ keep))" using o mset_eq_imp_distinct_iff unfolding obj_ok_def by blast
  then have "obj_ok w obj ?ob" using o sets part(2) unfolding obj_ok_def by auto
  then have "ev_okh (mset (map snd gone) + D) (set (map snd gone) \<union> X) (put_obj obj ?ob w)"
    by (rule okh_swap_obj [OF ok ob]) (use sm sets in \<open>force simp: orefs_def ac_simps\<close>)+
  from okh_rm_all [OF this] show ?thesis
    by (auto simp: rm_all_put_obj dest: rm_all_frame)
qed

section \<open>Every call keeps the invariant\<close>

text \<open>The lists of the holders only grow at their end, whatever is called.\<close>

definition lists_grow :: "ev_world \<Rightarrow> ev_world \<Rightarrow> bool" where
  "lists_grow w w' \<longleftrightarrow> (\<forall>h ho. ev_holders w h = Some ho \<longrightarrow>
     (\<exists>ho'. ev_holders w' h = Some ho' \<and> h_instance ho' = h_instance ho \<and> (\<exists>xs. h_events ho' = h_events ho @ xs)))"

lemma lists_grow_refl [simp]: "ev_holders w' = ev_holders w \<Longrightarrow> lists_grow w w'"
  by (simp add: lists_grow_def)

lemma lists_grow_trans: "lists_grow w w' \<Longrightarrow> lists_grow w' w'' \<Longrightarrow> lists_grow w w''"
  unfolding lists_grow_def by (metis append_assoc)

lemma same_frame_grow: "same_frame w w' \<Longrightarrow> lists_grow w w'"
  by (simp add: same_frame_def)

lemma lists_grow_push: "holder_push w h busy ev = Some w' \<Longrightarrow> lists_grow w w'"
  by (cases "ev_holders w h") (auto simp: holder_push_def lists_grow_def)

lemma mset_filter_split: "mset xs = mset (filter P xs) + mset (filter (\<lambda>x. \<not> P x) xs)"
  by (metis mset_filter multiset_partition)

lemma okh_event_remove:
  assumes "ev_okh D X w" "ev_objs w obj = Some ob"
  shows "\<exists>w'. event_remove w obj typ = Some w' \<and> ev_okh D X w' \<and> lists_grow w w'"
proof -
  let ?gone = "\<lambda>e. typ = EVENT_REMOVAL_FLAG_ALL \<or> fst e = typ"
  have "sorted (map fst (filter (\<lambda>e. \<not> ?gone e) (eo_events ob)))"
    using ev_okhD(3) [OF assms] by (auto simp: obj_ok_def intro: sorted_filter)
  from okh_remove_part [OF assms mset_filter_split [of _ ?gone] this] assms(2) show ?thesis
    by (auto simp: event_remove_def Let_def same_frame_def)
qed

lemma okh_remove_ptr:
  assumes "ev_okh D X w" "ev_objs w obj = Some ob" "ev_heap w ev = Some e"
  shows "\<exists>w'. event_remove_by_pointer w obj ev = Some w' \<and> ev_okh D X w' \<and> lists_grow w w'"
proof (cases "(te_type e, ev) \<in> set (eo_events ob)")
  case True
  have s: "sorted (map fst (remove1 (te_type e, ev) (eo_events ob)))"
    using ev_okhD(3) [OF assms(1,2)]
    by (simp add: obj_ok_def remove1_filter_not distinct_remove1 sorted_map_remove1)
  have "mset (eo_events ob) = mset [(te_type e, ev)] + mset (remove1 (te_type e, ev) (eo_events ob))"
    using True by (simp add: insert_DiffM)
  from okh_remove_part [OF assms(1,2) this s] True assms(2,3) show ?thesis
    by (cases "rm_one w ev") (auto simp: event_remove_by_pointer_def same_frame_def)
next
  case False
  with assms show ?thesis by (simp add: event_remove_by_pointer_def)
qed

lemma okh_destroy:
  assumes "ev_okh D X w" "ev_objs w obj = Some ob"
  shows "\<exists>w'. destroy_object w obj = Some w' \<and> ev_okh D X w' \<and> lists_grow w w'"
proof -
  let ?ob = "ob\<lparr> eo_events := [] \<rparr>"
  from okh_remove_part [OF assms, of "eo_events ob" "[]"] obtain w1 where
    w1: "foldM rm_one w (map snd (eo_events ob)) = Some w1" "same_frame w w1" "ev_okh D X (put_obj obj ?ob w1)" by auto
  from okh_del_obj [OF w1(3), of obj ?ob] have "ev_okh D X (w1\<lparr> ev_objs := (ev_objs w1)(obj := None) \<rparr>)"
    by (simp add: put_obj_def)
  with w1 assms(2) show ?thesis by (simp add: destroy_object_def same_frame_def)
qed

lemma okh_adjust_all:
  assumes f: "\<And>e. te_ref (f e) = te_ref e \<and> te_obj (f e) = te_obj e \<and> te_type (f e) = te_type e \<and>
      (te_deleted e \<longrightarrow> te_deleted (f e))"
  shows "ev_okh D X w \<Longrightarrow> (\<And>ev. ev \<in> set evs \<Longrightarrow> ev_heap w ev \<noteq> None) \<Longrightarrow>
    \<exists>w'. foldM (te_adjust f) w evs = Some w' \<and> ev_okh D X w' \<and> same_frame w w'"
proof (induction evs arbitrary: w)
  case (Cons ev evs)
  then obtain e where e: "ev_heap w ev = Some e" by (auto simp: not_None_eq)
  from okh_adjust [OF Cons.prems(1) e f] have a: "te_adjust f w ev = Some (te_store ev (f e) w)"
    "ev_okh D X (te_store ev (f e) w)" by auto
  have "\<exists>w'. foldM (te_adjust f) (te_store ev (f e) w) evs = Some w' \<and> ev_okh D X w' \<and> same_frame (te_store ev (f e) w) w'"
    by (rule Cons.IH [OF a(2)]) (use Cons.prems(2) in auto)
  then obtain w' where w': "foldM (te_adjust f) (te_store ev (f e) w) evs = Some w'" "ev_okh D X w'"
    "same_frame (te_store ev (f e) w) w'" by blast
  have "same_frame w w'" by (rule same_frame_trans [OF same_frame_store w'(3)])
  with a(1) w' show ?case by simp
qed simp

lemma okh_event_adjust:
  assumes "ev_okh D X w" "ev_objs w obj = Some ob"
    "\<And>e. te_ref (f e) = te_ref e \<and> te_obj (f e) = te_obj e \<and> te_type (f e) = te_type e \<and> (te_deleted e \<longrightarrow> te_deleted (f e))"
  shows "\<exists>w'. event_adjust f w obj typ = Some w' \<and> ev_okh D X w' \<and> lists_grow w w'"
proof -
  have "ev_heap w ev \<noteq> None" if "ev \<in> set (typed_events ob typ)" for ev
    using that ev_okhD(3) [OF assms(1,2)] by (fastforce simp: obj_ok_def typed_events_def)
  from okh_adjust_all [OF assms(3,1), of "typed_events ob typ"] this obtain w' where
    "foldM (te_adjust f) w (typed_events ob typ) = Some w'" "ev_okh D X w'" "same_frame w w'" by blast
  with assms(2) show ?thesis by (simp add: event_adjust_def same_frame_grow)
qed

lemma okh_take:
  assumes "ev_okh D X w" "ev_holders w h = Some ho" "ev_heap w ev = Some e"
  shows "\<exists>w'. holder_take h busy w ev = Some w' \<and> ev_okh D X w' \<and> lists_grow w w' \<and>
    ev_objs w' = ev_objs w \<and> (\<forall>x. ev_heap w x \<noteq> None \<longrightarrow> ev_heap w' x \<noteq> None)"
proof (cases "te_deleted e \<or> h_instance ho = WORLD_INSTANCE \<and> has_flag (te_flag e) EVENT_FLAG_DO_NOT_EXECUTE_IN_WORLD_CONTEXT")
  case True
  with assms show ?thesis by (auto simp: holder_take_def)
next
  case False
  let ?e1 = "e\<lparr> te_ref := te_ref e + 1 \<rparr>"
  let ?w1 = "te_store ev ?e1 w"
  let ?w2 = "te_store ev (?e1\<lparr> te_instance := h_instance ho \<rparr>) ?w1"
  have i: "inc_ref w ev = Some ?w1" "ev_okh (add_mset ev D) X ?w1" using okh_inc [OF assms(1,3)] by auto
  have a: "te_adjust (\<lambda>e. e\<lparr> te_instance := h_instance ho \<rparr>) ?w1 ev = Some ?w2" "ev_okh (add_mset ev D) X ?w2"
    using okh_adjust [OF i(2), of ev ?e1 "\<lambda>e. e\<lparr> te_instance := h_instance ho \<rparr>"] by auto
  from okh_push [OF a(2), of h ho busy] assms(2) obtain w' where w': "holder_push ?w2 h busy ev = Some w'" "ev_okh D X w'"
    by auto
  have "holder_take h busy w ev = Some w'"
    unfolding holder_take_def assms(2) assms(3) Option.bind.simps i(1) a(1) w'(1) using False by auto
  moreover have "lists_grow w w'" using lists_grow_push [OF w'(1)] by (simp add: lists_grow_def)
  moreover have "ev_objs w' = ev_objs w" "ev_heap w' = ev_heap ?w2"
    using w'(1) assms(2) by (auto simp: holder_push_def)
  ultimately show ?thesis using w'(2) by auto
qed

lemma okh_take_all:
  "ev_okh D X w \<Longrightarrow> ev_holders w h \<noteq> None \<Longrightarrow> (\<And>ev. ev \<in> set evs \<Longrightarrow> ev_heap w ev \<noteq> None) \<Longrightarrow>
    \<exists>w'. foldM (holder_take h busy) w evs = Some w' \<and> ev_okh D X w' \<and> lists_grow w w' \<and> ev_objs w' = ev_objs w"
proof (induction evs arbitrary: w)
  case (Cons ev evs)
  then obtain e ho where e: "ev_heap w ev = Some e" "ev_holders w h = Some ho" by fastforce
  from okh_take [OF Cons.prems(1) e(2,1), of busy] obtain w1 where
    w1: "holder_take h busy w ev = Some w1" "ev_okh D X w1" "lists_grow w w1" "ev_objs w1 = ev_objs w"
      "\<forall>x. ev_heap w x \<noteq> None \<longrightarrow> ev_heap w1 x \<noteq> None" by blast
  have "\<exists>w'. foldM (holder_take h busy) w1 evs = Some w' \<and> ev_okh D X w' \<and> lists_grow w1 w' \<and> ev_objs w' = ev_objs w1"
  proof (rule Cons.IH [OF w1(2)])
    show "ev_holders w1 h \<noteq> None" using w1(3) e(2) unfolding lists_grow_def by blast
    show "ev_heap w1 x \<noteq> None" if "x \<in> set evs" for x
      using Cons.prems(3) [of x] w1(5) that by simp
  qed
  then obtain w' where "foldM (holder_take h busy) w1 evs = Some w'" "ev_okh D X w'" "lists_grow w1 w'"
    "ev_objs w' = ev_objs w1" by blast
  with w1 show ?case by (auto intro: lists_grow_trans)
qed simp

lemma okh_new_object: "ev_okh D X w \<Longrightarrow> ev_okh D X (new_object w)"
proof -
  assume ok: "ev_okh D X w"
  let ?w = "new_object w"
  have none: "ev_objs w (obj_next w) = None"
    using ev_okhD(3) [OF ok, of "obj_next w"] by (cases "ev_objs w (obj_next w)") (auto simp: obj_ok_def)
  have "refs ?w = refs w"
    by (simp add: refs_def new_object_def orefs_def lessThan_Suc)
  then have n: "nrefs D ?w x = nrefs D w x" for x by (simp add: nrefs_def)
  have "cells_ok D ?w"
    by (rule cells_okI) (use ev_okhD(1) [OF ok] ev_okhD(2) [OF ok] n in \<open>auto simp: new_object_def\<close>)
  moreover have "live_ok X ?w"
    using ev_okhD(4) [OF ok] none unfolding live_ok_def new_object_def by fastforce
  moreover have "holders_ok ?w" using ok by (simp add: ev_okh_def holders_ok_def new_object_def)
  moreover have "obj_ok ?w x y" if "ev_objs ?w x = Some y" for x y
  proof (cases "x = obj_next w")
    case True
    with that show ?thesis by (auto simp: new_object_def obj_ok_def)
  next
    case False
    with that ev_okhD(3) [OF ok, of x y] show ?thesis by (auto simp: new_object_def obj_ok_def)
  qed
  ultimately show ?thesis by (simp add: ev_okh_def)
qed

lemma okh_new_holder:
  assumes ok: "ev_okh D X w"
  shows "ev_okh D X (new_holder i w)" "lists_grow w (new_holder i w)"
proof -
  let ?w = "new_holder i w"
  have none: "ev_holders w (h_next w) = None"
    using ev_okhD(5) [OF ok, of "h_next w"] by (cases "ev_holders w (h_next w)") auto
  have "refs ?w = refs w"
    by (simp add: refs_def new_holder_def hrefs_def lessThan_Suc Let_def)
  then have n: "nrefs D ?w x = nrefs D w x" for x by (simp add: nrefs_def)
  have "cells_ok D ?w"
    by (rule cells_okI) (use ev_okhD(1) [OF ok] ev_okhD(2) [OF ok] n in \<open>auto simp: new_holder_def Let_def\<close>)
  moreover have "live_ok X ?w" using ok by (simp add: ev_okh_def live_ok_def new_holder_def Let_def)
  moreover have "holders_ok ?w"
  proof (rule holders_okI)
    show "\<exists>ho. ev_holders ?w h = Some ho \<and> h_instance ho = j" if "holder_map ?w j = Some h" for j h
      using that ev_okhD(6) [OF ok, of j h] none
      by (auto simp: new_holder_def Let_def split: if_splits)
  qed (use ev_okhD(5) [OF ok] ev_okhD(7) [OF ok] in \<open>force simp: new_holder_def Let_def split: if_splits\<close>)+
  moreover have "obj_ok ?w x y" if "ev_objs ?w x = Some y" for x y
    using that by (intro obj_ok_cong [OF ev_okhD(3) [OF ok]]) (auto simp: new_holder_def Let_def)
  ultimately show "ev_okh D X ?w" by (simp add: ev_okh_def)
  show "lists_grow w ?w" using none by (auto simp: lists_grow_def new_holder_def Let_def)
qed

lemma okh_relocate:
  assumes ok: "ev_okh D X w" and ob: "ev_objs w obj = Some ob"
  shows "\<exists>w'. event_relocate w obj gid busy = Some w' \<and> ev_okh D X w' \<and> lists_grow w w'"
proof (cases "holder_map w gid = eo_holder ob")
  case True
  with assms show ?thesis by (simp add: event_relocate_def)
next
  case False
  obtain h where h: "(if holder_map w gid = None then holder_map w (-1) else holder_map w gid) = Some h"
    using ev_okhD(7) [OF ok] by (cases "holder_map w gid") auto
  then obtain ho where ho: "ev_holders w h = Some ho" using ev_okhD(6) [OF ok] by (metis (no_types))
  have o: "obj_ok w obj ob" by (rule ev_okhD(3) [OF ok ob])
  have "ev_heap w ev \<noteq> None" if "ev \<in> set (map snd (eo_events ob))" for ev
    using o that by (fastforce simp: obj_ok_def)
  with okh_take_all [OF ok, of h "map snd (eo_events ob)" busy] ho obtain w1 where
    w1: "holder_add_object w h busy obj = Some w1" "ev_okh D X w1" "lists_grow w w1" "ev_objs w1 = ev_objs w"
    using ob by (auto simp: holder_add_object_def)
  from w1(3) ho obtain ho1 where ho1: "ev_holders w1 h = Some ho1" "h_instance ho1 = h_instance ho"
    unfolding lists_grow_def by blast
  let ?ob = "ob\<lparr> eo_instance := h_instance ho1, eo_holder := Some h \<rparr>"
  have ob1: "ev_objs w1 obj = Some ob" using w1(4) ob by simp
  have "obj_ok w1 obj ?ob" using ev_okhD(3) [OF w1(2) ob1] ho1 by (simp add: obj_ok_def)
  from okh_swap_obj [OF w1(2) ob1 this, of D X] have "ev_okh D X (put_obj obj ?ob w1)"
    by (simp add: orefs_def)
  moreover have "event_relocate w obj gid busy = Some (put_obj obj ?ob w1)"
    using ob False h w1(1) ho1(1) ob1 by (simp add: event_relocate_def)
  moreover have "lists_grow w (put_obj obj ?ob w1)" using w1(3) by (simp add: lists_grow_def)
  ultimately show ?thesis by simp
qed

lemma mset_mm_insert [simp]: "mset (mm_insert k v m) = add_mset (k, v) (mset m)"
  unfolding mm_insert_def by simp (metis mset_append takeWhile_dropWhile_id)

lemma set_mm_insert [simp]: "set (mm_insert k v m) = insert (k, v) (set m)"
  by (metis mset_mm_insert set_mset_mset set_mset_add_mset_insert)

lemma sorted_mm_insert: "sorted (map fst m) \<Longrightarrow> sorted (map fst (mm_insert k v m))"
proof (induction m)
  case (Cons e m)
  then show ?case
    by (cases "fst e \<le> k") (auto simp: mm_insert_def dest: set_takeWhileD set_dropWhileD)
qed (simp add: mm_insert_def)

text \<open>A fresh event, referenced once from outside and listed nowhere yet.\<close>

lemma okh_alloc:
  assumes ok: "ev_okh D X w" and e: "te_ref e = 1"
  shows "ev_okh (add_mset (ev_next w) D) (insert (ev_next w) X) ((te_store (ev_next w) e w)\<lparr> ev_next := ev_next w + 1 \<rparr>)"
    "ev_heap w (ev_next w) = None"
proof -
  let ?n = "ev_next w"
  let ?w = "(te_store ?n e w)\<lparr> ev_next := ?n + 1 \<rparr>"
  show none: "ev_heap w ?n = None" using ev_okhD(1) [OF ok, of ?n] by (cases "ev_heap w ?n") auto
  have n: "nrefs (add_mset ?n D) ?w x = nrefs D w x + (if x = ?n then 1 else 0)" for x
    by (simp add: nrefs_def refs_def te_store_def)
  have "cells_ok (add_mset ?n D) ?w"
  proof (rule cells_okI)
    fix x assume "ev_heap ?w x = None"
    then show "nrefs (add_mset ?n D) ?w x = 0"
      using ev_okhD(2) [OF ok, of x] n by (simp split: if_splits)
  next
    fix x e' assume x: "ev_heap ?w x = Some e'"
    show "te_ref e' = int (nrefs (add_mset ?n D) ?w x) \<and> 0 < nrefs (add_mset ?n D) ?w x \<and> x < ev_next ?w"
      using x n [of x] e ev_okhD(2) [OF ok none] ev_okhD(1) [OF ok, of x e'] by (cases "x = ?n") auto
  qed
  moreover have "live_ok (insert ?n X) ?w" using ev_okhD(4) [OF ok] unfolding live_ok_def by auto
  moreover have "holders_ok ?w" using ok by (simp add: ev_okh_def holders_ok_def)
  moreover have "obj_ok ?w x y" if "ev_objs ?w x = Some y" for x y
    using that none by (intro obj_ok_cong [OF ev_okhD(3) [OF ok]]) auto
  ultimately show "ev_okh (add_mset ?n D) (insert ?n X) ?w" by (simp add: ev_okh_def)
qed

text \<open>\<open>event_AddEvent\<close>, in two parts: the object's list with its first reference, then the holder's.\<close>

definition add_object_part :: "ev_world \<Rightarrow> eventable \<Rightarrow> int \<Rightarrow> u32 \<Rightarrow> evptr \<Rightarrow> eventable" where
  "add_object_part w ob gid typ ev =
     (let ob1 = (if eo_holder ob = None then ob\<lparr> eo_instance := gid, eo_holder := holder_map w gid \<rparr> else ob);
          ob2 = ob1\<lparr> eo_events := mm_insert typ ev (eo_events ob1) \<rparr>
      in if eo_holder ob2 = None then ob2\<lparr> eo_instance := -1, eo_holder := holder_map w (-1) \<rparr> else ob2)"

lemma add_object_part_sel:
  "eo_events (add_object_part w ob gid typ ev) = mm_insert typ ev (eo_events ob)"
  "eo_holder (add_object_part w ob gid typ ev) =
     (if eo_holder ob \<noteq> None then eo_holder ob
      else if holder_map w gid \<noteq> None then holder_map w gid else holder_map w (-1))"
  by (auto simp: add_object_part_def Let_def)

lemma mgr_add_event_eq:
  assumes "ev_objs w obj = Some ob"
  shows "mgr_add_event w obj gid busy cb typ time repeats flags =
    (let n = ev_next w;
         e = (te_new obj cb typ time repeats flags)\<lparr> te_ref := 1,
               te_instance := if eo_holder ob = None then gid else eo_instance ob \<rparr>;
         w1 = (te_store n e w)\<lparr> ev_next := n + 1 \<rparr>;
         ob3 = add_object_part w ob gid typ n
     in do { h \<leftarrow> eo_holder ob3; holder_add_event (put_obj obj ob3 w1) h busy n })"
proof -
  let ?n = "ev_next w"
  let ?i = "if eo_holder ob = None then gid else eo_instance ob"
  let ?fresh = "te_new obj cb typ time repeats flags"
  let ?e = "?fresh\<lparr> te_ref := 1, te_instance := ?i \<rparr>"
  let ?start = "(te_store ?n ?fresh w)\<lparr> ev_next := Suc ?n \<rparr>"
  let ?v = "\<lambda>i. (te_store ?n (?fresh\<lparr> te_ref := 1, te_instance := i \<rparr>) w)\<lparr> ev_next := Suc ?n \<rparr>"
  let ?v1 = "(te_store ?n (?fresh\<lparr> te_ref := 1 \<rparr>) w)\<lparr> ev_next := Suc ?n \<rparr>"
  have 1: "inc_ref ?start ?n = Some ?v1"
    by (simp add: inc_ref_def te_adjust_def te_store_def te_new_def)
  have 2: "te_adjust (\<lambda>e. e\<lparr> te_instance := i \<rparr>) ?v1 ?n = Some (?v i)" for i
    by (simp add: te_adjust_def te_store_def te_new_def)
  have t: "te_type ?e = typ" by (simp add: te_new_def)
  show ?thesis
    using assms t
    by (cases "eo_holder ob")
      (simp_all add: mgr_add_event_def event_add_def add_object_part_def Let_def 1 2)
qed

lemma okh_add:
  assumes ok: "ev_okh D X w" and ob: "ev_objs w obj = Some ob"
  shows "\<exists>w'. mgr_add_event w obj gid busy cb typ time repeats flags = Some w' \<and> ev_okh D X w' \<and> lists_grow w w'"
proof -
  let ?n = "ev_next w"
  let ?i = "if eo_holder ob = None then gid else eo_instance ob"
  let ?e = "(te_new obj cb typ time repeats flags)\<lparr> te_ref := 1, te_instance := ?i \<rparr>"
  let ?w = "(te_store ?n ?e w)\<lparr> ev_next := ?n + 1 \<rparr>"
  let ?ob = "add_object_part w ob gid typ ?n"
  have e: "te_ref ?e = 1" "te_obj ?e = obj" "te_type ?e = typ" by (simp_all add: te_new_def)
  note al = okh_alloc [OF ok e(1)]
  have o: "obj_ok w obj ob" by (rule ev_okhD(3) [OF ok ob])
  obtain h where h: "eo_holder ?ob = Some h" "ev_holders w h \<noteq> None"
  proof -
    obtain h0 ho0 where "holder_map w (-1) = Some h0" "ev_holders w h0 = Some ho0"
      using ev_okhD(6,7) [OF ok] by blast
    with o ev_okhD(6) [OF ok, of gid] show thesis
      by (cases "eo_holder ob"; cases "holder_map w gid")
        (auto simp: add_object_part_sel obj_ok_def intro!: that)
  qed
  have old: "ev \<noteq> ?n" if "(t, ev) \<in> set (eo_events ob)" for t ev
    using o that al(2) unfolding obj_ok_def by fastforce
  have okob: "obj_ok ?w obj ?ob"
    unfolding obj_ok_def
  proof (intro conjI allI impI)
    show "obj < obj_next ?w" using o by (simp add: obj_ok_def)
    have "mset (map snd (eo_events ?ob)) = mset (map snd ((typ, ?n) # eo_events ob))"
      by (simp add: add_object_part_sel)
    moreover have "?n \<notin> snd ` set (eo_events ob)" using old by force
    then have "distinct (map snd ((typ, ?n) # eo_events ob))" using o by (simp add: obj_ok_def)
    ultimately show "distinct (map snd (eo_events ?ob))" using mset_eq_imp_distinct_iff by blast
    show "sorted (map fst (eo_events ?ob))" using o by (simp add: add_object_part_sel sorted_mm_insert obj_ok_def)
    show "\<exists>e. ev_heap ?w ev = Some e \<and> te_type e = t \<and> te_obj e = obj" if "(t, ev) \<in> set (eo_events ?ob)" for t ev
    proof (cases "(t, ev) = (typ, ?n)")
      case True
      then show ?thesis using e by simp
    next
      case False
      with that have m: "(t, ev) \<in> set (eo_events ob)" by (auto simp: add_object_part_sel)
      then show ?thesis using o old [OF m] by (simp add: obj_ok_def)
    qed
    show "ev_holders ?w h' \<noteq> None" if "eo_holder ?ob = Some h'" for h' using that h by simp
  qed
  have "ev_okh D X (put_obj obj ?ob ?w)"
  proof (rule okh_swap_obj [OF al(1) _ okob])
    show "ev_objs ?w obj = Some ob" using ob by simp
    show "add_mset ?n D + orefs (Some ob) = D + orefs (Some ?ob)"
      by (simp add: orefs_def add_object_part_sel)
    show "(t, ev) \<in> set (eo_events ?ob) \<or> ev \<in> X" if "(t, ev) \<in> set (eo_events ob)" for t ev
      using that by (simp add: add_object_part_sel)
    show "te_obj e' = obj \<and> (te_type e', ev) \<in> set (eo_events ?ob)"
      if "ev \<in> insert ?n X" "ev \<notin> X" "ev_heap ?w ev = Some e'" for ev e'
      using that e by (auto simp: add_object_part_sel)
  qed
  then have ok2: "ev_okh D X (put_obj obj ?ob ?w)" .
  have hn: "ev_heap (put_obj obj ?ob ?w) ?n = Some ?e" by simp
  from okh_inc [OF ok2 hn] obtain w2 where w2: "inc_ref (put_obj obj ?ob ?w) ?n = Some w2"
    "ev_okh (add_mset ?n D) X w2" "ev_holders w2 = ev_holders w" by auto
  from okh_push [OF w2(2), of h _ busy] h(2) w2(3) obtain w' where
    w': "holder_push w2 h busy ?n = Some w'" "ev_okh D X w'" by auto
  have "lists_grow w w'" using lists_grow_push [OF w'(1)] w2(3) by (simp add: lists_grow_def)
  moreover have "mgr_add_event w obj gid busy cb typ time repeats flags = Some w'"
    unfolding mgr_add_event_eq [OF ob] Let_def using h(1) w2(1) w'(1) by (simp add: holder_add_event_def)
  ultimately show ?thesis using w'(2) by blast
qed

lemma op_exec_ok [hs_inv]:
  assumes ok: "ev_okh D X w"
  shows "\<exists>w'. op_exec w op = Some w' \<and> ev_okh D X w' \<and> lists_grow w w'"
proof (cases "op_target op")
  case None
  then show ?thesis
    using okh_new_object [OF ok] okh_new_holder [OF ok]
    by (cases op) (auto simp: op_exec_def new_object_def)
next
  case (Some obj)
  show ?thesis
  proof (cases "ev_objs w obj")
    case None
    with Some ok show ?thesis by (simp add: op_exec_def)
  next
    case (Some ob)
    note add = okh_add [OF ok Some] and rm = okh_event_remove [OF ok Some] and ptr = okh_remove_ptr [OF ok Some]
      and adj = okh_event_adjust [OF ok Some] and rel = okh_relocate [OF ok Some] and del = okh_destroy [OF ok Some]
    from \<open>op_target op = Some obj\<close> Some show ?thesis
      by (cases op)
        (simp_all add: op_exec_def add rm rel del adj modify_time_left_def modify_time_def
          modify_time_and_left_def ok ptr not_None_eq [symmetric] split del: if_split,
          auto simp: ok dest: ptr)
  qed
qed

section \<open>Update keeps the invariant\<close>

lemma okh_script:
  "ev_okh D X w \<Longrightarrow> \<exists>w'. foldM op_exec w ops = Some w' \<and> ev_okh D X w' \<and> lists_grow w w'"
proof (induction ops arbitrary: w)
  case (Cons op ops)
  from op_exec_ok [OF Cons.prems, of op] obtain w1 where
    w1: "op_exec w op = Some w1" "ev_okh D X w1" "lists_grow w w1" by blast
  from Cons.IH [OF w1(2)] w1 lists_grow_trans show ?case by fastforce
qed simp

lemma okh_run_cb:
  assumes "ev_okh D X w" "ev_objs w (te_obj e) \<noteq> None"
  shows "\<exists>w'. run_cb p w e = Some w' \<and> ev_okh D X w' \<and> lists_grow w w'"
proof -
  have "ev_okh D X (log_cb (te_cb e) w)" using assms(1) by simp
  from okh_script [OF this, of "p (te_cb e) w"] assms(2) show ?thesis
    by (auto simp: run_cb_def lists_grow_def log_cb_def)
qed

lemma okh_held:
  assumes "ev_okh D X w" "ev_holders w h = Some ho" "ev \<in> set (h_events ho) \<union> set (h_pool ho)"
  shows "\<exists>e. ev_heap w ev = Some e"
proof -
  have "0 < count (hrefs (ev_holders w h)) ev" using assms(2,3) by (auto simp: hrefs_def)
  with hrefs_le_refs [OF ev_okhD(5) [OF assms(1,2)], of ev D] ev_okhD(2) [OF assms(1), of ev]
  show ?thesis by (cases "ev_heap w ev") simp_all
qed

lemma okh_holder_erase:
  assumes "ev_okh D X w" "ev_holders w h = Some ho" "i < length (h_events ho)"
  shows "\<exists>w'. holder_erase w h i = Some w' \<and> ev_okh (add_mset (h_events ho ! i) D) X w' \<and>
    ev_heap w' = ev_heap w \<and> ev_objs w' = ev_objs w \<and> ev_log w' = ev_log w \<and>
    ev_holders w' = (ev_holders w)(h \<mapsto> ho\<lparr> h_events := erase_at i (h_events ho) \<rparr>)"
  using okh_erase [OF assms] assms(2) by (auto simp: holder_erase_def put_holder_def)

lemma dec_ref_holder_erase:
  assumes "ev_holders w h \<noteq> None"
  shows "do { w1 \<leftarrow> dec_ref w ev; holder_erase w1 h i } = do { w1 \<leftarrow> holder_erase w h i; dec_ref w1 ev }"
  using assms
  by (cases "ev_heap w ev") (auto simp: dec_ref_def holder_erase_def put_holder_def te_store_def)

lemma okh_erase_dec:
  assumes ok: "ev_okh D X w" and h: "ev_holders w h = Some ho" "i < length (h_events ho)" "h_events ho ! i = ev"
  shows "\<exists>w1 w2. holder_erase w h i = Some w1 \<and> dec_ref w1 ev = Some w2 \<and> upd_drop w h i ev = Some w2 \<and>
    ev_okh D X w2 \<and> ev_holders w2 = (ev_holders w)(h \<mapsto> ho\<lparr> h_events := erase_at i (h_events ho) \<rparr>)"
proof -
  from okh_holder_erase [OF ok h(1,2)] h(3) obtain w1 where
    w1: "holder_erase w h i = Some w1" "ev_okh (add_mset ev D) X w1"
      "ev_holders w1 = (ev_holders w)(h \<mapsto> ho\<lparr> h_events := erase_at i (h_events ho) \<rparr>)" by blast
  from okh_dec [OF w1(2)] obtain w2 where w2: "dec_ref w1 ev = Some w2" "ev_okh D X w2" "same_frame w1 w2" by blast
  have "upd_drop w h i ev = Some w2"
    using dec_ref_holder_erase [of w h ev i] h(1) w1(1) w2(1) by (simp add: upd_drop_def)
  with w1 w2 show ?thesis by (auto simp: same_frame_def)
qed

text \<open>What one turn leaves of the list: everything before the position, and what follows.\<close>

definition turn_frame :: "hptr \<Rightarrow> nat \<Rightarrow> bool \<Rightarrow> ev_world \<Rightarrow> ev_world \<Rightarrow> bool" where
  "turn_frame h i erased w w' \<longleftrightarrow> (\<forall>ho. ev_holders w h = Some ho \<longrightarrow>
     (\<exists>ho' xs. ev_holders w' h = Some ho' \<and> h_instance ho' = h_instance ho \<and>
        h_events ho' = (if erased then erase_at i (h_events ho @ xs) else h_events ho @ xs)))"

lemma turn_frameI:
  assumes "ev_holders w h = Some ho" "ev_holders w' h = Some ho'" "h_instance ho' = h_instance ho"
    "h_events ho' = (if erased then erase_at i (h_events ho @ xs) else h_events ho @ xs)"
  shows "turn_frame h i erased w w'"
  using assms unfolding turn_frame_def by auto

lemma okh_fire:
  assumes ok: "ev_okh D {} w" and h: "ev_holders w h = Some ho" "i < length (h_events ho)" "h_events ho ! i = ev"
    and e: "ev_heap w ev = Some e" "\<not> te_deleted e"
  shows "\<exists>w' b. upd_fire p w h i ev = Some (w', b) \<and> ev_okh D {} w' \<and> turn_frame h i b w w'"
proof -
  have obj: "ev_objs w (te_obj e) \<noteq> None" using ev_okhD(4) [OF ok e(1,2)] by auto
  have nth: "i < length (h_events ho')" "h_events ho' ! i = ev"
    if "ev_holders w' h = Some ho'" "lists_grow w w'" for w' ho'
    using that h unfolding lists_grow_def by (fastforce simp: nth_append)+
  have grow: "\<exists>ho' xs. ev_holders w' h = Some ho' \<and> h_instance ho' = h_instance ho \<and> h_events ho' = h_events ho @ xs"
    if "lists_grow w w'" for w' using that h(1) unfolding lists_grow_def by blast
  show ?thesis
  proof (cases "has_flag (te_flag e) EVENT_FLAG_DELETES_OBJECT")
    case True
    let ?w = "te_store ev (e\<lparr> te_deleted := True \<rparr>) w"
    have "ev_okh D {} ?w" by (rule okh_store [OF ok e(1)]) simp_all
    from okh_run_cb [OF this, of e p] obj obtain w1 where
      w1: "run_cb p ?w e = Some w1" "ev_okh D {} w1" "lists_grow ?w w1" by auto
    have g: "lists_grow w w1" using w1(3) by (simp add: lists_grow_def)
    from grow [OF g] obtain ho' xs where
      ho': "ev_holders w1 h = Some ho'" "h_instance ho' = h_instance ho" "h_events ho' = h_events ho @ xs" by blast
    from okh_erase_dec [OF w1(2) ho'(1) nth [OF ho'(1) g]] obtain w2 w3 where
      w3: "holder_erase w1 h i = Some w2" "dec_ref w2 ev = Some w3" "ev_okh D {} w3"
      "ev_holders w3 = (ev_holders w1)(h \<mapsto> ho'\<lparr> h_events := erase_at i (h_events ho') \<rparr>)" by blast
    have "upd_fire p w h i ev = Some (w3, True)"
      using True e(1) w1(1) w3(1,2) by (simp add: upd_fire_def)
    moreover have "turn_frame h i True w w3"
      by (rule turn_frameI [OF h(1), where ho' = "ho'\<lparr> h_events := erase_at i (h_events ho') \<rparr>" and xs = xs])
        (use ho' w3(4) in simp_all)
    ultimately show ?thesis using w3(3) by blast
  next
    case False
    from okh_run_cb [OF ok obj, of p] obtain w1 where
      w1: "run_cb p w e = Some w1" "ev_okh D {} w1" "lists_grow w w1" by auto
    from grow [OF w1(3)] obtain ho' xs where
      ho': "ev_holders w1 h = Some ho'" "h_instance ho' = h_instance ho" "h_events ho' = h_events ho @ xs" by blast
    note n = nth [OF ho'(1) w1(3)]
    obtain e1 where e1: "ev_heap w1 ev = Some e1"
      using okh_held [OF w1(2) ho'(1), of ev] n nth_mem by blast
    define e2 where "e2 = te_spend e1"
    have same: "te_ref e2 = te_ref e1" "te_obj e2 = te_obj e1" "te_type e2 = te_type e1" "te_deleted e2 = te_deleted e1"
      by (simp_all add: e2_def te_spend_def)
    have s: "ev_okh D {} (te_store ev e' w1)" if "te_ref e' = te_ref e1" "te_obj e' = te_obj e1"
        "te_type e' = te_type e1" "te_deleted e1 \<longrightarrow> te_deleted e'" for e'
      by (rule okh_store [OF w1(2) e1]) (use that in auto)
    have drop: "\<exists>w'. upd_drop (te_store ev e' w1) h i ev = Some w' \<and> ev_okh D {} w' \<and> turn_frame h i True w w'"
      if "ev_okh D {} (te_store ev e' w1)" for e'
    proof -
      from okh_erase_dec [OF that, of h ho' i ev] ho'(1) n obtain w' where
        w': "upd_drop (te_store ev e' w1) h i ev = Some w'" "ev_okh D {} w'"
        "ev_holders w' = (ev_holders w1)(h \<mapsto> ho'\<lparr> h_events := erase_at i (h_events ho') \<rparr>)" by auto
      have "turn_frame h i True w w'"
        by (rule turn_frameI [OF h(1), where ho' = "ho'\<lparr> h_events := erase_at i (h_events ho') \<rparr>" and xs = xs])
          (use ho' w'(3) in simp_all)
      with w' show ?thesis by blast
    qed
    consider (expired) "te_repeats e1 \<noteq> 0 \<and> te_repeats e2 = 0" | (gone) "\<not> (te_repeats e1 \<noteq> 0 \<and> te_repeats e2 = 0)" "te_deleted e2"
      | (again) "\<not> (te_repeats e1 \<noteq> 0 \<and> te_repeats e2 = 0)" "\<not> te_deleted e2" by blast
    then show ?thesis
    proof cases
      case expired
      from drop [OF s, of "e2\<lparr> te_deleted := True \<rparr>"] same obtain w' where
        "upd_drop (te_store ev (e2\<lparr> te_deleted := True \<rparr>) w1) h i ev = Some w'" "ev_okh D {} w'" "turn_frame h i True w w'"
        by auto
      moreover have "upd_fire p w h i ev = map_option (\<lambda>w'. (w', True)) (upd_drop (te_store ev (e2\<lparr> te_deleted := True \<rparr>) w1) h i ev)"
        using expired False e(1) w1(1) e1
        by (cases "upd_drop (te_store ev (e2\<lparr> te_deleted := True \<rparr>) w1) h i ev")
          (simp_all add: upd_fire_def Let_def flip: e2_def)
      ultimately show ?thesis by (intro exI [of _ w'] exI [of _ True]) simp
    next
      case gone
      from drop [OF s, of e2] same obtain w' where
        "upd_drop (te_store ev e2 w1) h i ev = Some w'" "ev_okh D {} w'" "turn_frame h i True w w'" by auto
      moreover have "upd_fire p w h i ev = map_option (\<lambda>w'. (w', True)) (upd_drop (te_store ev e2 w1) h i ev)"
        using gone False e(1) w1(1) e1
        by (cases "upd_drop (te_store ev e2 w1) h i ev")
          (auto simp: upd_fire_def Let_def simp flip: e2_def)
      ultimately show ?thesis by (intro exI [of _ w'] exI [of _ True]) simp
    next
      case again
      have "ev_okh D {} (te_store ev (e2\<lparr> te_curr := te_ms e2 \<rparr>) w1)" by (rule s) (use same in auto)
      moreover have "turn_frame h i False w (te_store ev (e2\<lparr> te_curr := te_ms e2 \<rparr>) w1)"
        by (rule turn_frameI [OF h(1), where ho' = ho' and xs = xs]) (use ho' in simp_all)
      moreover have "upd_fire p w h i ev = Some (te_store ev (e2\<lparr> te_curr := te_ms e2 \<rparr>) w1, False)"
        using again False e(1) w1(1) e1 by (auto simp: upd_fire_def Let_def simp flip: e2_def)
      ultimately show ?thesis by blast
    qed
  qed
qed

lemma okh_upd_one:
  assumes ok: "ev_okh D {} w" and h: "ev_holders w h = Some ho" "i < length (h_events ho)" "h_events ho ! i = ev"
  shows "\<exists>w' b. upd_one p diff w h i ev = Some (w', b) \<and> ev_okh D {} w' \<and> turn_frame h i b w w'"
proof -
  obtain e where e: "ev_heap w ev = Some e" using okh_held [OF ok h(1), of ev] h(2,3) nth_mem by blast
  consider (stale) "te_stale ho e" | (due) "\<not> te_stale ho e" "te_due diff e" | (waits) "\<not> te_stale ho e" "\<not> te_due diff e"
    by blast
  then show ?thesis
  proof cases
    case stale
    from okh_erase_dec [OF ok h] obtain w2 where w2: "upd_drop w h i ev = Some w2" "ev_okh D {} w2"
      "ev_holders w2 = (ev_holders w)(h \<mapsto> ho\<lparr> h_events := erase_at i (h_events ho) \<rparr>)" by blast
    have "turn_frame h i True w w2"
      by (rule turn_frameI [OF h(1), where ho' = "ho\<lparr> h_events := erase_at i (h_events ho) \<rparr>" and xs = "[]"])
        (use w2(3) in simp_all)
    with stale w2 h(1) e show ?thesis
      by (intro exI [of _ w2] exI [of _ True]) (simp add: upd_one_def)
  next
    case due
    then have "\<not> te_deleted e" by (simp add: te_stale_def)
    from okh_fire [OF ok h e this, of p] due h(1) e show ?thesis by (simp add: upd_one_def)
  next
    case waits
    let ?w = "te_store ev (e\<lparr> te_curr := te_curr e - uint diff \<rparr>) w"
    have "ev_okh D {} ?w" by (rule okh_store [OF ok e]) simp_all
    moreover have "turn_frame h i False w ?w"
      by (rule turn_frameI [OF h(1), where ho' = ho and xs = "[]"]) (use h(1) in simp_all)
    ultimately show ?thesis using waits h(1) e
      by (intro exI [of _ ?w] exI [of _ False]) (simp add: upd_one_def)
  qed
qed

lemma okh_upd_loop:
  "ev_okh D {} w \<Longrightarrow> ev_holders w h \<noteq> None \<Longrightarrow>
    \<exists>w' b. upd_loop n p diff h w i = Some (w', b) \<and> ev_okh D {} w' \<and> ev_holders w' h \<noteq> None"
proof (induction n arbitrary: w i)
  case 0
  then show ?case by (intro exI [of _ w] exI [of _ False]) simp
next
  case (Suc n)
  then obtain ho where ho: "ev_holders w h = Some ho" by blast
  show ?case
  proof (cases "i < length (h_events ho)")
    case True
    from okh_upd_one [OF Suc.prems(1) ho True refl, of p diff] obtain w1 b where
      w1: "upd_one p diff w h i (h_events ho ! i) = Some (w1, b)" "ev_okh D {} w1" "turn_frame h i b w w1" by blast
    have "ev_holders w1 h \<noteq> None" using w1(3) ho by (auto simp: turn_frame_def)
    from Suc.IH [OF w1(2) this, of "if b then i else Suc i"] w1 ho True \<open>ev_holders w1 h \<noteq> None\<close> show ?thesis
      by (cases b) auto
  next
    case False
    with ho Suc.prems show ?thesis by (intro exI [of _ w] exI [of _ True]) simp
  qed
qed

lemma okh_pool_all:
  "ev_okh (mset evs + D) X w \<Longrightarrow> ev_holders w h \<noteq> None \<Longrightarrow>
    \<exists>w'. foldM (pool_one h) w evs = Some w' \<and> ev_okh D X w' \<and> lists_grow w w' \<and>
      (\<forall>ho ho'. ev_holders w h = Some ho \<longrightarrow> ev_holders w' h = Some ho' \<longrightarrow> h_pool ho' = h_pool ho)"
proof (induction evs arbitrary: w)
  case (Cons ev evs)
  then obtain ho where ho: "ev_holders w h = Some ho" by blast
  have ok: "ev_okh (add_mset ev (mset evs + D)) X w" using Cons.prems(1) by simp
  obtain e where e: "ev_heap w ev = Some e" using ev_okhD(2) [OF ok, of ev] by (cases "ev_heap w ev") auto
  have "\<exists>w1. pool_one h w ev = Some w1 \<and> ev_okh (mset evs + D) X w1 \<and>
      (\<exists>ho1 xs. ev_holders w1 = (ev_holders w)(h \<mapsto> ho1) \<and> h_instance ho1 = h_instance ho \<and>
        h_events ho1 = h_events ho @ xs \<and> h_pool ho1 = h_pool ho)"
  proof (cases "te_deleted e \<or> te_instance e \<noteq> h_instance ho")
    case True
    from okh_dec [OF ok] obtain w1 where "dec_ref w ev = Some w1" "ev_okh (mset evs + D) X w1" "same_frame w w1"
      by blast
    with True ho e show ?thesis
      by (intro exI [of _ w1] conjI exI [of _ ho] exI [of _ "[]"])
        (auto simp: pool_one_def same_frame_def fun_upd_idem)
  next
    case False
    let ?ho = "ho\<lparr> h_events := h_events ho @ [ev] \<rparr>"
    have "ev_okh (mset evs + D) X (put_holder h ?ho w)"
      by (rule okh_swap_holder [OF ok ho]) (simp_all add: hrefs_Some)
    with False ho e show ?thesis
      by (intro exI [of _ "put_holder h ?ho w"] conjI exI [of _ ?ho] exI [of _ "[ev]"]) (auto simp: pool_one_def)
  qed
  then obtain w1 ho1 xs where w1: "pool_one h w ev = Some w1" "ev_okh (mset evs + D) X w1"
    "ev_holders w1 = (ev_holders w)(h \<mapsto> ho1)" "h_instance ho1 = h_instance ho" "h_events ho1 = h_events ho @ xs"
    "h_pool ho1 = h_pool ho" by blast
  have g: "lists_grow w w1" using w1(3-5) ho by (simp add: lists_grow_def)
  from Cons.IH [OF w1(2)] w1(3) obtain w' where w': "foldM (pool_one h) w1 evs = Some w'" "ev_okh D X w'"
    "lists_grow w1 w'" "\<forall>ho ho'. ev_holders w1 h = Some ho \<longrightarrow> ev_holders w' h = Some ho' \<longrightarrow> h_pool ho' = h_pool ho"
    by auto
  have "lists_grow w w'" by (rule lists_grow_trans [OF g w'(3)])
  with w' w1 ho show ?case by simp
qed simp

lemma okh_flush:
  assumes ok: "ev_okh D X w" and ho: "ev_holders w h = Some ho"
  shows "\<exists>w' ho' xs. flush_pool w h = Some w' \<and> ev_okh D X w' \<and> ev_holders w' h = Some ho' \<and>
    h_instance ho' = h_instance ho \<and> h_events ho' = h_events ho @ xs \<and> h_pool ho' = []"
proof -
  let ?ho = "ho\<lparr> h_pool := [] \<rparr>"
  have "ev_okh (mset (h_pool ho) + D) X (put_holder h ?ho w)"
    by (rule okh_swap_holder [OF ok ho]) (simp_all add: hrefs_Some)
  from okh_pool_all [OF this, of h] obtain w' where
    w': "foldM (pool_one h) (put_holder h ?ho w) (h_pool ho) = Some w'" "ev_okh D X w'" "lists_grow (put_holder h ?ho w) w'"
    "\<forall>ho'. ev_holders w' h = Some ho' \<longrightarrow> h_pool ho' = []" by auto
  from w'(3) have "\<exists>ho'. ev_holders w' h = Some ho' \<and> h_instance ho' = h_instance ?ho \<and>
      (\<exists>xs. h_events ho' = h_events ?ho @ xs)"
    unfolding lists_grow_def by (elim allE [of _ h] allE [of _ ?ho]) simp
  then obtain ho' xs where "ev_holders w' h = Some ho'" "h_instance ho' = h_instance ho" "h_events ho' = h_events ho @ xs"
    by auto
  with w' ho show ?thesis by (auto simp: flush_pool_def)
qed

lemma holder_update_ok [hs_inv]:
  assumes "ev_okh D {} w" "ev_holders w h \<noteq> None"
  shows "\<exists>w' b. holder_update fuel p diff w h = Some (w', b) \<and> ev_okh D {} w'"
proof -
  from assms(2) obtain ho where "ev_holders w h = Some ho" by blast
  from okh_flush [OF assms(1) this] obtain w1 ho1 where
    w1: "flush_pool w h = Some w1" "ev_okh D {} w1" "ev_holders w1 h = Some ho1" by blast
  from okh_upd_loop [OF w1(2), of h fuel p diff 0] w1 show ?thesis by (auto simp: holder_update_def)
qed

lemma dec_all_holders:
  "foldM dec_ref (w\<lparr> ev_holders := f \<rparr>) evs = map_option (\<lambda>w. w\<lparr> ev_holders := f \<rparr>) (foldM dec_ref w evs)"
proof (induction evs arbitrary: w)
  case (Cons ev evs)
  have "dec_ref (w\<lparr> ev_holders := f \<rparr>) ev = map_option (\<lambda>w. w\<lparr> ev_holders := f \<rparr>) (dec_ref w ev)"
    by (cases "ev_heap w ev") (simp_all add: dec_ref_def te_store_def)
  with Cons.IH show ?case by (cases "dec_ref w ev") simp_all
qed simp

lemma okh_dec_all:
  "ev_okh (mset evs + D) X w \<Longrightarrow> \<exists>w'. foldM dec_ref w evs = Some w' \<and> ev_okh D X w' \<and> same_frame w w'"
proof (induction evs arbitrary: w)
  case (Cons ev evs)
  then have "ev_okh (add_mset ev (mset evs + D)) X w" by simp
  from okh_dec [OF this] obtain w1 where "dec_ref w ev = Some w1" "ev_okh (mset evs + D) X w1" "same_frame w w1" by blast
  with Cons.IH [of w1] same_frame_trans show ?case by fastforce
qed simp

lemma delete_holder_ok [hs_inv]:
  assumes ok: "ev_okh D {} w" and ho: "ev_holders w h = Some ho"
    and free: "\<And>obj ob. ev_objs w obj = Some ob \<Longrightarrow> eo_holder ob \<noteq> Some h" "holder_map w (-1) \<noteq> Some h"
  shows "\<exists>w'. delete_holder w h = Some w' \<and> ev_okh (mset (h_pool ho) + D) {} w'"
proof -
  let ?m = "\<lambda>i. if holder_map w i = Some h then None else holder_map w i"
  let ?f = "(ev_holders w)(h := None)"
  let ?w1 = "w\<lparr> holder_map := ?m \<rparr>"
  let ?w = "?w1\<lparr> ev_holders := ?f \<rparr>"
  have hn: "h < h_next w" by (rule ev_okhD(5) [OF ok ho])
  have "refs ?w + hrefs (Some ho) = refs w"
    using sum_fun_upd [OF hn, of hrefs "ev_holders w" None] ho by (simp add: refs_def hrefs_def ac_simps)
  then have n: "nrefs (mset (h_events ho) + (mset (h_pool ho) + D)) ?w x = nrefs D w x" for x
    by (auto simp: nrefs_def hrefs_Some ac_simps dest!: sym [of _ "refs w"])
  have "cells_ok (mset (h_events ho) + (mset (h_pool ho) + D)) ?w"
    by (rule cells_okI) (use ev_okhD(1) [OF ok] ev_okhD(2) [OF ok] n in auto)
  moreover have "live_ok {} ?w" using ok by (simp add: ev_okh_def live_ok_def)
  moreover have "holders_ok ?w"
    by (rule holders_okI) (use ev_okhD(5-7) [OF ok] free in \<open>auto split: if_splits\<close>)
  moreover have "obj_ok ?w x y" if "ev_objs ?w x = Some y" for x y
    using that ev_okhD(3) [OF ok, of x y] free(1) [of x y] by (auto simp: obj_ok_def)
  ultimately have "ev_okh (mset (h_events ho) + (mset (h_pool ho) + D)) {} ?w" by (simp add: ev_okh_def)
  from okh_dec_all [OF this] obtain w2 where w2: "foldM dec_ref ?w (h_events ho) = Some w2"
    "ev_okh (mset (h_pool ho) + D) {} w2" "same_frame ?w w2" by blast
  from w2(1) obtain w3 where w3: "foldM dec_ref ?w1 (h_events ho) = Some w3" "w2 = w3\<lparr> ev_holders := ?f \<rparr>"
    by (auto simp: dec_all_holders)
  have "ev_holders w3 = ev_holders w"
  proof -
    have "foldM dec_ref w evs = Some w' \<Longrightarrow> ev_holders w' = ev_holders w" for w w' evs
      by (induction evs arbitrary: w) (fastforce simp: dec_ref_def te_store_def split: Option.bind_splits if_splits)+
    from this [OF w3(1)] show ?thesis by simp
  qed
  with w3 ho w2(2) show ?thesis by (simp add: delete_holder_def Let_def)
qed

section \<open>Reachable states\<close>

lemma ev_init_ok: "ev_okh {#} {} ev_init"
proof -
  have "refs ev_init = {#}"
    by (simp add: refs_def ev_init_def new_holder_def Let_def hrefs_def orefs_def lessThan_Suc)
  then have n: "nrefs {#} ev_init x = 0" for x by (simp add: nrefs_def)
  have "cells_ok {#} ev_init"
    by (rule cells_okI) (use n in \<open>auto simp: ev_init_def new_holder_def Let_def\<close>)
  moreover have "holders_ok ev_init"
    by (rule holders_okI) (auto simp: ev_init_def new_holder_def Let_def split: if_splits)
  ultimately show ?thesis
    by (auto simp: ev_okh_def live_ok_def ev_init_def new_holder_def Let_def)
qed

lemma ev_reach_ok: "ev_reach w \<Longrightarrow> \<exists>D. ev_okh D {} w"
proof (induction rule: ev_reach.induct)
  case ev_start
  show ?case using ev_init_ok by blast
next
  case (ev_call w op w')
  then obtain D where "ev_okh D {} w" by blast
  from op_exec_ok [OF this, of op] ev_call.hyps show ?case by auto
next
  case (ev_pass w fuel p diff h w' fin)
  then obtain D where ok: "ev_okh D {} w" by blast
  have "ev_holders w h \<noteq> None" using ev_pass.hyps
    by (cases "ev_holders w h") (auto simp: holder_update_def flush_pool_def)
  from holder_update_ok [OF ok this, of fuel p diff] ev_pass.hyps show ?case by auto
next
  case (ev_unload w h w')
  then obtain D where ok: "ev_okh D {} w" by blast
  obtain ho where "ev_holders w h = Some ho" using ev_unload.hyps
    by (cases "ev_holders w h") (auto simp: delete_holder_def)
  from delete_holder_ok [OF ok this] ev_unload.hyps show ?case by auto
qed

lemma ev_demo_reach: "ev_reach w \<Longrightarrow> foldM op_exec w ops = Some w' \<Longrightarrow> ev_reach w'"
proof (induction ops arbitrary: w)
  case (Cons op ops)
  then obtain w1 where "op_exec w op = Some w1" "foldM op_exec w1 ops = Some w'"
    by (cases "op_exec w op") auto
  with Cons.IH ev_call [OF Cons.prems(1)] show ?case by blast
qed simp

text \<open>
  C1. No use of a freed event: in every reachable state, any call on a live object and any update
  pass of a live holder - with any callbacks, which may add, remove and relocate events and destroy
  objects while the pass walks its list - run without touching freed memory and without calling a
  method of a destroyed object; every reference the objects and holders keep is counted, and
  every referenced event is there.
\<close>

theorem ev_memory_safe:
  assumes "ev_reach w" "ev_holders w h \<noteq> None"
  shows "op_exec w op \<noteq> None \<and> holder_update fuel p diff w h \<noteq> None \<and>
    (\<forall>ev e. ev_heap w ev = Some e \<longrightarrow> int (count (refs w) ev) \<le> te_ref e) \<and>
    (\<forall>ev \<in># refs w. ev_heap w ev \<noteq> None)"
proof -
  obtain D where ok: "ev_okh D {} w" using ev_reach_ok [OF assms(1)] by blast
  have "op_exec w op \<noteq> None" using op_exec_ok [OF ok, of op] by auto
  moreover have "holder_update fuel p diff w h \<noteq> None" using holder_update_ok [OF ok assms(2)] by fastforce
  moreover have "int (count (refs w) ev) \<le> te_ref e" if "ev_heap w ev = Some e" for ev e
    using ev_okhD(1) [OF ok that] by (simp add: nrefs_def)
  moreover have "ev_heap w ev \<noteq> None" if "ev \<in># refs w" for ev
    using ev_okhD(2) [OF ok, of ev] that by (cases "ev_heap w ev") (auto simp: nrefs_def count_eq_zero_iff)
  ultimately show ?thesis by blast
qed

section \<open>Cancelling events\<close>

lemma rm_one_other: "rm_one w ev = Some w' \<Longrightarrow> x \<noteq> ev \<Longrightarrow> ev_heap w' x = ev_heap w x"
  by (cases "ev_heap w ev") (auto simp: rm_one_def dec_ref_def Let_def log_cb_def te_store_def split: if_splits)

lemma rm_all_other: "foldM rm_one w evs = Some w' \<Longrightarrow> x \<notin> set evs \<Longrightarrow> ev_heap w' x = ev_heap w x"
proof (induction evs arbitrary: w)
  case (Cons ev evs)
  then show ?case by (cases "rm_one w ev") (auto dest: rm_one_other)
qed simp

lemma map_filter_cong: "(\<And>x. x \<in> set xs \<Longrightarrow> f x = g x) \<Longrightarrow> List.map_filter f xs = List.map_filter g xs"
  by (induction xs) (auto simp: List.map_filter_simps split: option.split)

text \<open>
  C27. Cancelling: after \<open>RemoveEvents\<close> with an event type, the object has no live event of the type,
  every one still held by some holder is marked deleted, so that no pass runs it again; the
  object's live events of every other type are unchanged.
\<close>

theorem ev_cancelled:
  assumes "ev_reach w" "event_remove w obj typ = Some w'" "typ \<noteq> EVENT_REMOVAL_FLAG_ALL"
  shows "\<not> event_has w' obj typ \<and>
    (\<forall>ev e ho. ev_heap w' ev = Some e \<longrightarrow> te_obj e = obj \<longrightarrow> te_type e = typ \<longrightarrow> te_stale ho e) \<and>
    (\<forall>t. t \<noteq> typ \<longrightarrow> live_typed w' obj t = live_typed w obj t)"
proof -
  obtain D where ok: "ev_okh D {} w" using ev_reach_ok [OF assms(1)] by blast
  obtain ob where ob: "ev_objs w obj = Some ob" using assms(2)
    by (cases "ev_objs w obj") (auto simp: event_remove_def)
  have ok': "ev_okh D {} w'" using okh_event_remove [OF ok ob] assms(2) by (metis option.inject)
  obtain w1 where w1: "foldM rm_one w (typed_events ob typ) = Some w1"
    and w': "w' = put_obj obj (ob\<lparr> eo_events := filter (\<lambda>e. fst e \<noteq> typ) (eo_events ob) \<rparr>) w1"
    using assms(2,3) ob by (auto simp: event_remove_def typed_events_def Let_def bind_eq_Some_conv)
  have none: "te_stale ho e" if e: "ev_heap w' ev = Some e" "te_obj e = obj" "te_type e = typ" for ev e ho
    using ev_okhD(4) [OF ok' e(1)] e(2,3) by (auto simp: te_stale_def w')
  have "live_typed w' obj t = live_typed w obj t" if "t \<noteq> typ" for t
  proof -
    have s: "typed_events (ob\<lparr> eo_events := filter (\<lambda>e. fst e \<noteq> typ) (eo_events ob) \<rparr>) t = typed_events ob t"
      using that by (simp add: typed_events_def) (metis (mono_tags, lifting))
    have "ev_heap w1 ev = ev_heap w ev" if "ev \<in> set (typed_events ob t)" for ev
    proof (rule rm_all_other [OF w1])
      have "distinct (map snd (eo_events ob))" using ev_okhD(3) [OF ok ob] by (simp add: obj_ok_def)
      with that \<open>t \<noteq> typ\<close> show "ev \<notin> set (typed_events ob typ)"
        by (auto simp: typed_events_def distinct_map inj_on_def)
    qed
    then have "List.map_filter (ev_heap w1) (typed_events ob t) = List.map_filter (ev_heap w) (typed_events ob t)"
      by (rule map_filter_cong)
    then show ?thesis using ob s by (simp add: live_typed_def w')
  qed
  moreover have "\<not> event_has w' obj typ"
    by (auto simp: event_has_def live_typed_def w' typed_events_def)
  ultimately show ?thesis using none by blast
qed

section \<open>The pass comes to its end\<close>

text \<open>Calls that put no event into a holder: all but \<open>AddEvent\<close> and \<open>Relocate\<close>.\<close>

fun schedules :: "ev_op \<Rightarrow> bool" where
  "schedules (OpAdd obj gid busy cb t ms rep fl) = True"
| "schedules (OpRelocate obj gid busy) = True"
| "schedules _ = False"

definition lists_stay :: "ev_world \<Rightarrow> ev_world \<Rightarrow> bool" where
  "lists_stay w w' \<longleftrightarrow> (\<forall>h ho. ev_holders w h = Some ho \<longrightarrow>
     (\<exists>ho'. ev_holders w' h = Some ho' \<and> h_events ho' = h_events ho))"

lemma lists_stay_refl [simp]: "ev_holders w' = ev_holders w \<Longrightarrow> lists_stay w w'"
  by (simp add: lists_stay_def)

lemma lists_stay_trans: "lists_stay w w' \<Longrightarrow> lists_stay w' w'' \<Longrightarrow> lists_stay w w''"
  unfolding lists_stay_def by metis

lemma te_adjust_Some: "te_adjust f w ev = Some w' \<longleftrightarrow> (\<exists>e. ev_heap w ev = Some e \<and> w' = te_store ev (f e) w)"
  by (auto simp: te_adjust_def bind_eq_Some_conv)

lemma adjust_all_frame: "foldM (te_adjust f) w evs = Some w' \<Longrightarrow> same_frame w w'"
proof (induction evs arbitrary: w)
  case (Cons ev evs)
  then obtain e where "foldM (te_adjust f) (te_store ev (f e) w) evs = Some w'"
    by (auto simp: te_adjust_Some bind_eq_Some_conv)
  from Cons.IH [OF this] same_frame_trans [OF same_frame_store] show ?case by blast
qed simp

lemma op_exec_stays:
  assumes ok: "ev_okh D X w" and "op_exec w op = Some w'" "\<not> schedules op"
  shows "lists_stay w w'"
proof -
  have hs: "ev_holders w' = ev_holders w" if "same_frame w w'" for w' using that by (simp add: same_frame_def)
  consider "op_exec w op = op_run w op" | "op_exec w op = Some w"
    by (cases "op_target op"; cases "ev_objs w (the (op_target op))") (auto simp: op_exec_def)
  then show ?thesis
  proof cases
    case 2
    with assms(2) show ?thesis by simp
  next
    case 1
    with assms(2) have r: "op_run w op = Some w'" by simp
    show ?thesis
    proof (cases op)
      case (OpNewHolder i)
      have "ev_holders w (h_next w) = None"
        using ev_okhD(5) [OF ok, of "h_next w"] by (cases "ev_holders w (h_next w)") auto
      with r OpNewHolder show ?thesis by (auto simp: new_holder_def Let_def lists_stay_def)
    next
      case (OpRemovePtr obj ev)
      with r show ?thesis
        by (auto simp: event_remove_by_pointer_def bind_eq_Some_conv split: if_splits dest!: rm_one_frame hs)
    qed (use r assms(3) in \<open>auto simp: new_object_def event_remove_def event_adjust_def destroy_object_def Let_def
        bind_eq_Some_conv dest!: rm_all_frame adjust_all_frame hs\<close>)
  qed
qed

lemma script_stays:
  "ev_okh D X w \<Longrightarrow> foldM op_exec w ops = Some w' \<Longrightarrow> \<forall>op \<in> set ops. \<not> schedules op \<Longrightarrow> lists_stay w w'"
proof (induction ops arbitrary: w)
  case (Cons op ops)
  from op_exec_ok [OF Cons.prems(1), of op] obtain w1 where w1: "op_exec w op = Some w1" "ev_okh D X w1" by blast
  with Cons.prems Cons.IH [OF w1(2)] op_exec_stays [OF Cons.prems(1) w1(1)] show ?case
    by (auto intro: lists_stay_trans)
qed simp

definition calm :: "cb_scripts \<Rightarrow> bool" where
  "calm p \<longleftrightarrow> (\<forall>cb w. \<forall>op \<in> set (p cb w). \<not> schedules op)"

lemma run_cb_stays:
  assumes "calm p" "ev_okh D X w" "run_cb p w e = Some w'"
  shows "lists_stay w w'"
proof -
  have "ev_okh D X (log_cb (te_cb e) w)" using assms(2) by simp
  from script_stays [OF this, of "p (te_cb e) w" w'] assms show ?thesis
    by (auto simp: run_cb_def calm_def lists_stay_def log_cb_def bind_eq_Some_conv)
qed

lemma dec_ref_frame: "dec_ref w ev = Some w' \<Longrightarrow> same_frame w w'"
  by (auto simp: dec_ref_def bind_eq_Some_conv same_frame_def te_store_def)

lemma holder_erase_list:
  "holder_erase w h i = Some w' \<Longrightarrow> ev_holders w h = Some ho \<Longrightarrow>
    \<exists>ho'. ev_holders w' h = Some ho' \<and> h_events ho' = erase_at i (h_events ho)"
  by (auto simp: holder_erase_def)

lemma upd_drop_list:
  "upd_drop w h i ev = Some w' \<Longrightarrow> ev_holders w h = Some ho \<Longrightarrow>
    \<exists>ho'. ev_holders w' h = Some ho' \<and> h_events ho' = erase_at i (h_events ho)"
  by (auto simp: upd_drop_def bind_eq_Some_conv same_frame_def dest!: dec_ref_frame intro!: holder_erase_list)

text \<open>What firing an event that does not delete its object comes to, up to the fields of the event.\<close>

lemma upd_fire_cases:
  assumes "upd_fire p w h i ev = Some (w', b)" "ev_heap w ev = Some e" "\<not> has_flag (te_flag e) EVENT_FLAG_DELETES_OBJECT"
  shows "\<exists>w1 e1 e'. run_cb p w e = Some w1 \<and> ev_heap w1 ev = Some e1 \<and> te_cb e' = te_cb e1 \<and>
    (if b then upd_drop (te_store ev e' w1) h i ev = Some w' else w' = te_store ev e' w1)"
proof -
  have same: "te_cb (te_spend a) = te_cb a" for a by (simp add: te_spend_def)
  from assms obtain w1 e1 where w: "run_cb p w e = Some w1" "ev_heap w1 ev = Some e1" and
    r: "(if te_repeats e1 \<noteq> 0 \<and> te_repeats (te_spend e1) = 0
       then do { w2 \<leftarrow> upd_drop (te_store ev (te_spend e1\<lparr> te_deleted := True \<rparr>) w1) h i ev; Some (w2, True) }
       else if te_deleted (te_spend e1)
       then do { w2 \<leftarrow> upd_drop (te_store ev (te_spend e1) w1) h i ev; Some (w2, True) }
       else Some (te_store ev (te_spend e1\<lparr> te_curr := te_ms (te_spend e1) \<rparr>) w1, False)) = Some (w', b)"
    by (auto simp: upd_fire_def bind_eq_Some_conv Let_def)
  consider (a) "te_repeats e1 \<noteq> 0 \<and> te_repeats (te_spend e1) = 0"
    | (b) "\<not> (te_repeats e1 \<noteq> 0 \<and> te_repeats (te_spend e1) = 0)" "te_deleted (te_spend e1)"
    | (c) "\<not> (te_repeats e1 \<noteq> 0 \<and> te_repeats (te_spend e1) = 0)" "\<not> te_deleted (te_spend e1)" by blast
  then show ?thesis
  proof cases
    case a
    with r have "upd_drop (te_store ev (te_spend e1\<lparr> te_deleted := True \<rparr>) w1) h i ev = Some w' \<and> b"
      by (simp add: bind_eq_Some_conv)
    with w same show ?thesis by (intro exI [of _ w1] exI [of _ e1] exI [of _ "te_spend e1\<lparr> te_deleted := True \<rparr>"]) simp
  next
    case b
    with r have "upd_drop (te_store ev (te_spend e1) w1) h i ev = Some w' \<and> b"
      by (simp only: if_not_P if_P) (auto simp: bind_eq_Some_conv)
    with w same show ?thesis by (intro exI [of _ w1] exI [of _ e1] exI [of _ "te_spend e1"]) simp
  next
    case c
    with r have "w' = te_store ev (te_spend e1\<lparr> te_curr := te_ms (te_spend e1) \<rparr>) w1 \<and> \<not> b"
      by (simp only: if_not_P) auto
    with w same show ?thesis
      by (intro exI [of _ w1] exI [of _ e1] exI [of _ "te_spend e1\<lparr> te_curr := te_ms (te_spend e1) \<rparr>"]) simp
  qed
qed

lemma calm_turn:
  assumes "calm p" and ok: "ev_okh D {} w" and ho: "ev_holders w h = Some ho"
    and t: "upd_one p diff w h i ev = Some (w', b)"
  shows "\<exists>ho'. ev_holders w' h = Some ho' \<and> h_events ho' = (if b then erase_at i (h_events ho) else h_events ho)"
proof -
  have cb: "\<exists>ho'. ev_holders w1 h = Some ho' \<and> h_events ho' = h_events ho"
    if "run_cb p w0 e = Some w1" "ev_okh D {} w0" "ev_holders w0 = ev_holders w" for w0 w1 e
    using run_cb_stays [OF assms(1) that(2,1)] that(3) ho by (simp add: lists_stay_def)
  obtain e where e: "ev_heap w ev = Some e" using t ho by (auto simp: upd_one_def bind_eq_Some_conv)
  have ok1: "ev_okh D {} (te_store ev (e\<lparr> te_deleted := True \<rparr>) w)" by (rule okh_store [OF ok e]) simp_all
  show ?thesis
  proof (cases "te_stale ho e \<or> \<not> te_due diff e")
    case True
    with t ho e show ?thesis
      by (auto simp: upd_one_def bind_eq_Some_conv split: if_splits dest: upd_drop_list)
  next
    case False
    with t ho e have f: "upd_fire p w h i ev = Some (w', b)" by (simp add: upd_one_def)
    show ?thesis
    proof (cases "has_flag (te_flag e) EVENT_FLAG_DELETES_OBJECT")
      case True
      with f e obtain w1 w2 where w: "run_cb p (te_store ev (e\<lparr> te_deleted := True \<rparr>) w) e = Some w1"
        "holder_erase w1 h i = Some w2" "dec_ref w2 ev = Some w'" "b"
        by (auto simp: upd_fire_def bind_eq_Some_conv)
      from cb [OF w(1) ok1] obtain ho1 where "ev_holders w1 h = Some ho1" "h_events ho1 = h_events ho" by auto
      with holder_erase_list [OF w(2)] dec_ref_frame [OF w(3)] w(4) show ?thesis by (simp add: same_frame_def)
    next
      case False
      from upd_fire_cases [OF f e False] obtain w1 e' where w: "run_cb p w e = Some w1"
        "if b then upd_drop (te_store ev e' w1) h i ev = Some w' else w' = te_store ev e' w1" by blast
      from cb [OF w(1) ok] obtain ho1 where h1: "ev_holders w1 h = Some ho1" "h_events ho1 = h_events ho" by auto
      with upd_drop_list [of "te_store ev e' w1" h i ev w' ho1] w(2) show ?thesis by (cases b) simp_all
    qed
  qed
qed

lemma length_erase_at [simp]: "i < length xs \<Longrightarrow> length (erase_at i xs) = length xs - 1"
  by (simp add: erase_at_def)

lemma calm_loop_ends:
  assumes "calm p"
  shows "ev_okh D {} w \<Longrightarrow> ev_holders w h = Some ho \<Longrightarrow> length (h_events ho) - i < n \<Longrightarrow>
    \<exists>w'. upd_loop n p diff h w i = Some (w', True) \<and> ev_okh D {} w'"
proof (induction n arbitrary: w ho i)
  case (Suc n)
  show ?case
  proof (cases "i < length (h_events ho)")
    case True
    from okh_upd_one [OF Suc.prems(1,2) True refl, of p diff] obtain w1 b where
      w1: "upd_one p diff w h i (h_events ho ! i) = Some (w1, b)" "ev_okh D {} w1" by blast
    from calm_turn [OF assms Suc.prems(1,2) w1(1)] obtain ho1 where
      h1: "ev_holders w1 h = Some ho1" "h_events ho1 = (if b then erase_at i (h_events ho) else h_events ho)" by blast
    show ?thesis
    proof (cases "Suc i = length (h_events ho)")
      case True
      with w1 Suc.prems(2) show ?thesis by simp
    next
      case False
      have "length (h_events ho1) - (if b then i else Suc i) < n"
        using h1(2) \<open>i < _\<close> False Suc.prems(3) by (cases b) auto
      from Suc.IH [OF w1(2) h1(1) this] False w1 Suc.prems(2) \<open>i < _\<close> show ?thesis by simp
    qed
  next
    case False
    with Suc.prems show ?thesis by simp
  qed
qed simp

text \<open>
  C29. An update pass ends: when the callbacks schedule nothing - whatever they remove, modify or
  destroy - the pass of a reachable holder comes to its end after no more turns of its loop than its
  list and its pool have entries. (An event that is listed twice, as in \<open>ev_relocated_twice\<close>, has two
  turns.)
\<close>

theorem ev_pass_ends:
  assumes "ev_reach w" "ev_holders w h = Some ho" "calm p" "length (h_events ho) + length (h_pool ho) < fuel"
  shows "\<exists>w'. holder_update fuel p diff w h = Some (w', True)"
proof -
  obtain D where ok: "ev_okh D {} w" using ev_reach_ok [OF assms(1)] by blast
  from okh_flush [OF ok assms(2)] obtain w1 ho1 xs where w1: "flush_pool w h = Some w1" "ev_okh D {} w1"
    "ev_holders w1 h = Some ho1" by blast
  have "length (h_events ho1) \<le> length (h_events ho) + length (h_pool ho)"
  proof -
    have "foldM (pool_one h) v evs = Some v' \<Longrightarrow> ev_holders v h = Some a \<Longrightarrow> ev_holders v' h = Some b \<Longrightarrow>
        length (h_events b) \<le> length (h_events a) + length evs" for v v' a b evs
    proof (induction evs arbitrary: v a)
      case (Cons ev evs)
      then obtain v1 where v1: "pool_one h v ev = Some v1" "foldM (pool_one h) v1 evs = Some v'"
        by (auto simp: bind_eq_Some_conv)
      obtain c where "ev_holders v1 h = Some c" "length (h_events c) \<le> Suc (length (h_events a))"
        using v1(1) Cons.prems(2)
        by (auto simp: pool_one_def bind_eq_Some_conv same_frame_def split: if_splits dest!: dec_ref_frame)
      with Cons.IH [OF v1(2) this(1) Cons.prems(3)] show ?case by simp
    qed simp
    from this [of _ _ w1 "ho\<lparr> h_pool := [] \<rparr>" ho1] w1(1,3) assms(2) show ?thesis
      by (auto simp: flush_pool_def)
  qed
  with assms(4) have "length (h_events ho1) - 0 < fuel" by simp
  from calm_loop_ends [OF assms(3) w1(2,3) this] w1(1) show ?thesis by (auto simp: holder_update_def)
qed

section \<open>Timers fire on time\<close>

text \<open>Callbacks that make no call of the event system.\<close>

definition silent :: cb_scripts where
  "silent = (\<lambda>cb w. [])"

lemma calm_silent [simp]: "calm silent"
  by (simp add: calm_def silent_def)

lemma run_cb_silent: "run_cb silent w e = Some w' \<longleftrightarrow> ev_objs w (te_obj e) \<noteq> None \<and> w' = log_cb (te_cb e) w"
  by (auto simp: run_cb_def silent_def bind_eq_Some_conv)

lemma dec_ref_cells:
  assumes "dec_ref w x = Some w'"
  shows "(\<forall>y. y \<noteq> x \<longrightarrow> ev_heap w' y = ev_heap w y) \<and> ev_log w' = ev_log w \<and>
    (\<forall>e'. ev_heap w' x = Some e' \<longrightarrow> (\<exists>e. ev_heap w x = Some e \<and> te_cb e' = te_cb e))"
  using assms by (auto simp: dec_ref_def bind_eq_Some_conv te_store_def split: if_splits)

lemma holder_erase_Some:
  "holder_erase w h i = Some w' \<longleftrightarrow>
    (\<exists>ho. ev_holders w h = Some ho \<and> w' = put_holder h (ho\<lparr> h_events := erase_at i (h_events ho) \<rparr>) w)"
  by (auto simp: holder_erase_def bind_eq_Some_conv)

lemma log_cb_sel [simp]:
  "ev_heap (log_cb cb w) = ev_heap w" "ev_objs (log_cb cb w) = ev_objs w" "ev_holders (log_cb cb w) = ev_holders w"
  "ev_log (log_cb cb w) = cb # ev_log w" "ev_log (te_store x e w) = ev_log w" "ev_log (put_holder h ho w) = ev_log w"
  by (simp_all add: log_cb_def te_store_def put_holder_def)

lemma upd_drop_cells:
  assumes "upd_drop w h i x = Some w'" "ev_holders w h = Some ho"
  shows "ev_holders w' = (ev_holders w)(h \<mapsto> ho\<lparr> h_events := erase_at i (h_events ho) \<rparr>) \<and>
    (\<forall>y. y \<noteq> x \<longrightarrow> ev_heap w' y = ev_heap w y) \<and> ev_log w' = ev_log w \<and>
    (\<forall>e'. ev_heap w' x = Some e' \<longrightarrow> (\<exists>e. ev_heap w x = Some e \<and> te_cb e' = te_cb e))"
proof -
  from assms obtain w1 where "dec_ref w x = Some w1" "holder_erase w1 h i = Some w'"
    by (auto simp: upd_drop_def bind_eq_Some_conv)
  with dec_ref_cells dec_ref_frame assms(2) show ?thesis
    by (auto simp: holder_erase_Some same_frame_def)
qed

lemma silent_turn:
  assumes "upd_one silent diff w h i x = Some (w', b)" "ev_holders w h = Some ho" "ev_heap w x = Some e"
  shows "ev_holders w' = (ev_holders w)(h \<mapsto> (if b then ho\<lparr> h_events := erase_at i (h_events ho) \<rparr> else ho))"
    "y \<noteq> x \<Longrightarrow> ev_heap w' y = ev_heap w y"
    "ev_heap w' x = Some e' \<Longrightarrow> te_cb e' = te_cb e"
    "ev_log w' = (if \<not> te_stale ho e \<and> te_due diff e then te_cb e # ev_log w else ev_log w)"
    "\<not> te_stale ho e \<Longrightarrow> \<not> te_due diff e \<Longrightarrow> \<not> b \<and> ev_heap w' x = Some (e\<lparr> te_curr := te_curr e - uint diff \<rparr>)"
proof -
  have same [simp]: "te_cb (te_spend a) = te_cb a" for a by (simp add: te_spend_def)
  consider (stale) "te_stale ho e" | (waits) "\<not> te_stale ho e" "\<not> te_due diff e"
    | (gone) "\<not> te_stale ho e" "te_due diff e" "has_flag (te_flag e) EVENT_FLAG_DELETES_OBJECT"
    | (fires) "\<not> te_stale ho e" "te_due diff e" "\<not> has_flag (te_flag e) EVENT_FLAG_DELETES_OBJECT" by blast
  then have "ev_holders w' = (ev_holders w)(h \<mapsto> (if b then ho\<lparr> h_events := erase_at i (h_events ho) \<rparr> else ho)) \<and>
    (\<forall>y. y \<noteq> x \<longrightarrow> ev_heap w' y = ev_heap w y) \<and> (\<forall>e'. ev_heap w' x = Some e' \<longrightarrow> te_cb e' = te_cb e) \<and>
    ev_log w' = (if \<not> te_stale ho e \<and> te_due diff e then te_cb e # ev_log w else ev_log w) \<and>
    (\<not> te_stale ho e \<longrightarrow> \<not> te_due diff e \<longrightarrow> \<not> b \<and> ev_heap w' x = Some (e\<lparr> te_curr := te_curr e - uint diff \<rparr>))"
  proof cases
    case stale
    with assms show ?thesis
      by (auto simp: upd_one_def bind_eq_Some_conv dest!: upd_drop_cells)
  next
    case waits
    with assms show ?thesis by (auto simp: upd_one_def fun_upd_idem)
  next
    case gone
    with assms obtain w1 w2 where w: "run_cb silent (te_store x (e\<lparr> te_deleted := True \<rparr>) w) e = Some w1"
      "holder_erase w1 h i = Some w2" "dec_ref w2 x = Some w'" b
      by (auto simp: upd_one_def upd_fire_def bind_eq_Some_conv)
    with gone assms(2) dec_ref_cells [OF w(3)] dec_ref_frame [OF w(3)] show ?thesis
      by (auto simp: run_cb_silent holder_erase_Some same_frame_def)
  next
    case fires
    with assms have f: "upd_fire silent w h i x = Some (w', b)" by (simp add: upd_one_def)
    from upd_fire_cases [OF f assms(3) fires(3)] obtain w1 e1 e' where w: "run_cb silent w e = Some w1"
      "ev_heap w1 x = Some e1" "te_cb e' = te_cb e1"
      "if b then upd_drop (te_store x e' w1) h i x = Some w' else w' = te_store x e' w1" by blast
    from w(1,2) assms(3) have w1: "w1 = log_cb (te_cb e) w" "e1 = e" by (auto simp: run_cb_silent)
    show ?thesis
    proof (cases b)
      case True
      with w(4) w1(1) have "upd_drop (te_store x e' (log_cb (te_cb e) w)) h i x = Some w'" by simp
      from upd_drop_cells [OF this, of ho] assms(2) True fires w(3) w1(2) show ?thesis by simp
    next
      case False
      with w w1 fires assms(2) show ?thesis by (auto simp: fun_upd_idem)
    qed
  qed
  then show "ev_holders w' = (ev_holders w)(h \<mapsto> (if b then ho\<lparr> h_events := erase_at i (h_events ho) \<rparr> else ho))"
    "y \<noteq> x \<Longrightarrow> ev_heap w' y = ev_heap w y" "ev_heap w' x = Some e' \<Longrightarrow> te_cb e' = te_cb e"
    "ev_log w' = (if \<not> te_stale ho e \<and> te_due diff e then te_cb e # ev_log w else ev_log w)"
    "\<not> te_stale ho e \<Longrightarrow> \<not> te_due diff e \<Longrightarrow> \<not> b \<and> ev_heap w' x = Some (e\<lparr> te_curr := te_curr e - uint diff \<rparr>)"
    by simp_all
qed

text \<open>An event that a stretch of the pass does not meet, whose callback is no other event's.\<close>

definition alone :: "ev_world \<Rightarrow> evptr \<Rightarrow> cbptr \<Rightarrow> bool" where
  "alone w ev cb \<longleftrightarrow> (\<forall>x e. ev_heap w x = Some e \<longrightarrow> x \<noteq> ev \<longrightarrow> te_cb e \<noteq> cb)"

definition fired :: "ev_world \<Rightarrow> cbptr \<Rightarrow> nat" where
  "fired w cb = count_list (ev_log w) cb"

definition untouched :: "hptr \<Rightarrow> evptr \<Rightarrow> cbptr \<Rightarrow> ev_world \<Rightarrow> ev_world \<Rightarrow> bool" where
  "untouched h ev cb w w' \<longleftrightarrow> ev_heap w' ev = ev_heap w ev \<and> fired w' cb = fired w cb \<and> alone w' ev cb \<and>
     (\<forall>ho. ev_holders w h = Some ho \<longrightarrow> (\<exists>ho'. ev_holders w' h = Some ho' \<and> h_instance ho' = h_instance ho \<and>
        h_pool ho' = h_pool ho \<and> count_list (h_events ho') ev = count_list (h_events ho) ev))"

lemma untouched_refl: "alone w ev cb \<Longrightarrow> untouched h ev cb w w"
  by (simp add: untouched_def)

lemma untouched_trans: "untouched h ev cb w w' \<Longrightarrow> untouched h ev cb w' w'' \<Longrightarrow> untouched h ev cb w w''"
proof -
  assume u: "untouched h ev cb w w'" and v: "untouched h ev cb w' w''"
  have "\<exists>ho''. ev_holders w'' h = Some ho'' \<and> h_instance ho'' = h_instance ho \<and> h_pool ho'' = h_pool ho \<and>
      count_list (h_events ho'') ev = count_list (h_events ho) ev" if "ev_holders w h = Some ho" for ho
  proof -
    from u that obtain ho' where h': "ev_holders w' h = Some ho'" "h_instance ho' = h_instance ho"
      "h_pool ho' = h_pool ho" "count_list (h_events ho') ev = count_list (h_events ho) ev"
      unfolding untouched_def by blast
    from v h'(1) obtain ho'' where "ev_holders w'' h = Some ho''" "h_instance ho'' = h_instance ho'"
      "h_pool ho'' = h_pool ho'" "count_list (h_events ho'') ev = count_list (h_events ho') ev"
      unfolding untouched_def by blast
    with h' show ?thesis by simp
  qed
  with u v show ?thesis by (simp add: untouched_def)
qed

lemma untouched_fired: "untouched h ev cb w w' \<Longrightarrow> fired w' cb = fired w cb"
  by (simp add: untouched_def)

lemma count_erase_at: "i < length xs \<Longrightarrow> count_list xs x = count_list (erase_at i xs) x + (if xs ! i = x then 1 else 0)"
  using arg_cong [OF id_take_nth_drop [of i xs], of "\<lambda>ys. count_list ys x"]
  unfolding erase_at_def by simp

lemma drop_erase_at: "i < length xs \<Longrightarrow> drop i (erase_at i xs) = drop (Suc i) xs"
  by (simp add: erase_at_def)

lemma silent_turn_other:
  assumes t: "upd_one silent diff w h i x = Some (w', b)" "ev_holders w h = Some ho" "h_events ho ! i = x"
    "i < length (h_events ho)" and x: "x \<noteq> ev" and a: "alone w ev cb"
  shows "untouched h ev cb w w'"
proof -
  obtain e where e: "ev_heap w x = Some e" using t(1,2) by (auto simp: upd_one_def bind_eq_Some_conv)
  note st = silent_turn [OF t(1,2) e]
  have "te_cb e \<noteq> cb" using a e x by (simp add: alone_def)
  moreover have "alone w' ev cb"
    unfolding alone_def
  proof (intro allI impI)
    fix y e' assume y: "ev_heap w' y = Some e'" "y \<noteq> ev"
    show "te_cb e' \<noteq> cb"
    proof (cases "y = x")
      case True
      with st(3) [of e'] y \<open>te_cb e \<noteq> cb\<close> show ?thesis by simp
    next
      case False
      with st(2) [of y] y a show ?thesis by (simp add: alone_def)
    qed
  qed
  ultimately show ?thesis
    using st(1,4) st(2) [of ev] x t(2,3) count_erase_at [OF t(4), of ev] by (simp add: untouched_def fired_def)
qed

lemma upd_loop_step:
  assumes "upd_loop (Suc n) p diff h w i = Some (w', True)" "ev_holders w h = Some ho" "i < length (h_events ho)"
  obtains w1 b where "upd_one p diff w h i (h_events ho ! i) = Some (w1, b)"
    "Suc i = length (h_events ho) \<and> w' = w1 \<or>
     Suc i \<noteq> length (h_events ho) \<and> upd_loop n p diff h w1 (if b then i else Suc i) = Some (w', True)"
  using assms by (auto simp: bind_eq_Some_conv split: if_splits)

lemma loop_untouched:
  "upd_loop n silent diff h w i = Some (w', True) \<Longrightarrow> ev_holders w h = Some ho \<Longrightarrow>
    ev \<notin> set (drop i (h_events ho)) \<Longrightarrow> alone w ev cb \<Longrightarrow> untouched h ev cb w w'"
proof (induction n arbitrary: w ho i)
  case (Suc n)
  show ?case
  proof (cases "i < length (h_events ho)")
    case False
    with Suc.prems show ?thesis by (simp add: untouched_refl)
  next
    case i: True
    let ?x = "h_events ho ! i"
    from upd_loop_step [OF Suc.prems(1,2) i] obtain w1 b where t: "upd_one silent diff w h i ?x = Some (w1, b)" and
      k: "Suc i = length (h_events ho) \<and> w' = w1 \<or>
        Suc i \<noteq> length (h_events ho) \<and> upd_loop n silent diff h w1 (if b then i else Suc i) = Some (w', True)" .
    have dr: "drop i (h_events ho) = ?x # drop (Suc i) (h_events ho)" using i by (simp add: Cons_nth_drop_Suc)
    have "?x \<noteq> ev" using Suc.prems(3) dr by auto
    note u = silent_turn_other [OF t Suc.prems(2) refl i this Suc.prems(4)]
    obtain e where e: "ev_heap w ?x = Some e" using t Suc.prems(2) by (auto simp: upd_one_def bind_eq_Some_conv)
    let ?ho = "if b then ho\<lparr> h_events := erase_at i (h_events ho) \<rparr> else ho"
    have h1: "ev_holders w1 h = Some ?ho" using silent_turn(1) [OF t Suc.prems(2) e] by simp
    have "drop (if b then i else Suc i) (h_events ?ho) = drop (Suc i) (h_events ho)"
      using drop_erase_at [OF i] by simp
    then have rest: "ev \<notin> set (drop (if b then i else Suc i) (h_events ?ho))" using Suc.prems(3) dr by simp
    from k show ?thesis
    proof (elim disjE conjE)
      assume "upd_loop n silent diff h w1 (if b then i else Suc i) = Some (w', True)"
      from Suc.IH [OF this h1 rest] u have "untouched h ev cb w1 w'" by (simp add: untouched_def)
      with u show ?thesis by (rule untouched_trans)
    qed (use u in simp)
  qed
qed simp

lemma loop_meets:
  "upd_loop n silent diff h w i = Some (w', True) \<Longrightarrow> ev_holders w h = Some ho \<Longrightarrow>
    count_list (drop i (h_events ho)) ev = 1 \<Longrightarrow> alone w ev cb \<Longrightarrow> ev_heap w ev = Some e \<Longrightarrow> te_cb e = cb \<Longrightarrow>
    \<not> te_stale ho e \<Longrightarrow>
    (if te_due diff e then fired w' cb = Suc (fired w cb)
     else untouched h ev cb (te_store ev (e\<lparr> te_curr := te_curr e - uint diff \<rparr>) w) w')"
proof (induction n arbitrary: w ho i)
  case (Suc n)
  note ho = Suc.prems(2)
  have i: "i < length (h_events ho)" using Suc.prems(3) by (cases "i < length (h_events ho)") auto
  let ?x = "h_events ho ! i"
  from upd_loop_step [OF Suc.prems(1) ho i] obtain w1 b where t: "upd_one silent diff w h i ?x = Some (w1, b)" and
    k: "Suc i = length (h_events ho) \<and> w' = w1 \<or>
      Suc i \<noteq> length (h_events ho) \<and> upd_loop n silent diff h w1 (if b then i else Suc i) = Some (w', True)" .
  have dr: "drop i (h_events ho) = ?x # drop (Suc i) (h_events ho)" using i by (simp add: Cons_nth_drop_Suc)
  obtain ex where ex: "ev_heap w ?x = Some ex" using t ho by (auto simp: upd_one_def bind_eq_Some_conv)
  note st = silent_turn [OF t ho ex]
  let ?ho = "if b then ho\<lparr> h_events := erase_at i (h_events ho) \<rparr> else ho"
  have h1: "ev_holders w1 h = Some ?ho" using st(1) by simp
  have dr1: "drop (if b then i else Suc i) (h_events ?ho) = drop (Suc i) (h_events ho)"
    using drop_erase_at [OF i] by simp
  show ?case
  proof (cases "?x = ev")
    case x: True
    then have "ex = e" using ex Suc.prems(5) by simp
    have rest: "ev \<notin> set (drop (if b then i else Suc i) (h_events ?ho))"
      using Suc.prems(3) x unfolding dr1 dr by (simp add: count_list_0_iff)
    have al: "alone w1 ev cb"
      unfolding alone_def using st(2) x Suc.prems(4) unfolding alone_def by metis
    have "untouched h ev cb w1 w'"
      using k loop_untouched [OF _ h1 rest al] untouched_refl [OF al] by blast
    moreover have "fired w1 cb = (if te_due diff e then Suc (fired w cb) else fired w cb)"
      using st(4) \<open>ex = e\<close> Suc.prems(6,7) by (simp add: fired_def)
    moreover have "untouched h ev cb (te_store ev (e\<lparr> te_curr := te_curr e - uint diff \<rparr>) w) w1" if "\<not> te_due diff e"
      using that st(5) \<open>ex = e\<close> x Suc.prems(7) al h1 ho st(4) by (simp add: untouched_def fired_def)
    ultimately show ?thesis
      by (cases "te_due diff e") (simp_all add: untouched_fired untouched_trans)
  next
    case x: False
    note u = silent_turn_other [OF t ho refl i x Suc.prems(4)]
    have "count_list (drop (Suc i) (h_events ho)) ev = 1" using Suc.prems(3) x dr by simp
    then have "Suc i \<noteq> length (h_events ho)" by fastforce
    with k have l: "upd_loop n silent diff h w1 (if b then i else Suc i) = Some (w', True)" by simp
    have "h_instance ?ho = h_instance ho" by simp
    then have "\<not> te_stale ?ho e" using Suc.prems(7) by (simp only: te_stale_def simp_thms)
    from Suc.IH [OF l h1 _ _ _ Suc.prems(6) this] u \<open>count_list (drop (Suc i) _) ev = 1\<close> Suc.prems(5)
    have r: "if te_due diff e then fired w' cb = Suc (fired w1 cb)
      else untouched h ev cb (te_store ev (e\<lparr> te_curr := te_curr e - uint diff \<rparr>) w1) w'"
      unfolding dr1 by (simp add: untouched_def)
    have "untouched h ev cb (te_store ev e' w) (te_store ev e' w1)" for e'
      using u ho h1 by (auto simp: untouched_def alone_def fired_def)
    from this [of "e\<lparr> te_curr := te_curr e - uint diff \<rparr>"] r show ?thesis
      by (cases "te_due diff e") (simp_all add: untouched_fired [OF u] untouched_trans)
  qed
qed simp

text \<open>
  A timer under watch: it is in its holder's list once, it is live, and no other event has its
  callback. \<open>c\<close> is the time it has left.
\<close>

definition ticking :: "ev_world \<Rightarrow> hptr \<Rightarrow> evptr \<Rightarrow> cbptr \<Rightarrow> int \<Rightarrow> bool" where
  "ticking w h ev cb c \<longleftrightarrow> alone w ev cb \<and> 0 \<le> c \<and> c < 2 ^ 32 \<and>
     (\<exists>ho e. ev_holders w h = Some ho \<and> h_pool ho = [] \<and> count_list (h_events ho) ev = 1 \<and>
        ev_heap w ev = Some e \<and> te_cb e = cb \<and> te_curr e = c \<and> \<not> te_stale ho e)"

lemma te_due_iff: "0 \<le> te_curr e \<Longrightarrow> te_curr e < 2 ^ 32 \<Longrightarrow> te_due diff e \<longleftrightarrow> te_curr e \<le> uint diff"
  by (simp add: te_due_def word_le_def uint_word_of_int_eq take_bit_int_eq_self)

lemma ticking_pass:
  assumes tk: "ticking w h ev cb c" and up: "holder_update fuel silent diff w h = Some (w', True)"
  shows "if c \<le> uint diff then fired w' cb = Suc (fired w cb)
    else fired w' cb = fired w cb \<and> ticking w' h ev cb (c - uint diff)"
proof -
  from tk obtain ho e where w: "alone w ev cb" "0 \<le> c" "c < 2 ^ 32" "ev_holders w h = Some ho" "h_pool ho = []"
    "count_list (h_events ho) ev = 1" "ev_heap w ev = Some e" "te_cb e = cb" "te_curr e = c" "\<not> te_stale ho e"
    unfolding ticking_def by blast
  have hp: "put_holder h (ho\<lparr> h_pool := [] \<rparr>) w = w"
    using w(4,5) by (cases w; cases ho) (auto simp: put_holder_def fun_upd_idem)
  have l: "upd_loop fuel silent diff h w 0 = Some (w', True)"
    using up w(4,5) hp by (simp add: holder_update_def flush_pool_def)
  let ?e = "e\<lparr> te_curr := te_curr e - uint diff \<rparr>"
  have m: "if te_due diff e then fired w' cb = Suc (fired w cb) else untouched h ev cb (te_store ev ?e w) w'"
    by (rule loop_meets [OF l w(4) _ w(1) w(7) w(8) w(10)]) (simp add: w(6))
  show ?thesis
  proof (cases "c \<le> uint diff")
    case True
    with m te_due_iff [of e diff] w(2,3,9) show ?thesis by simp
  next
    case False
    with m te_due_iff [of e diff] w(2,3,9) have u: "untouched h ev cb (te_store ev ?e w) w'" by simp
    then obtain ho' where ho': "ev_holders w' h = Some ho'" "h_instance ho' = h_instance ho" "h_pool ho' = h_pool ho"
      "count_list (h_events ho') ev = count_list (h_events ho) ev"
      using w(4) by (auto simp: untouched_def)
    have s: "\<not> te_stale ho' ?e" using w(10) ho'(2) by (simp add: te_stale_def)
    have "ticking w' h ev cb (c - uint diff)"
      unfolding ticking_def
    proof (intro conjI exI)
      show "alone w' ev cb" "ev_heap w' ev = Some ?e" using u by (simp_all add: untouched_def)
      show "c - uint diff < 2 ^ 32" using w(3) uint_ge_0 [of diff] by linarith
    qed (use False ho' w s in simp_all)
    moreover have "fired w' cb = fired w cb" using u by (simp add: untouched_def fired_def)
    ultimately show ?thesis using False by simp
  qed
qed

text \<open>A run of passes with the elapsed times \<open>ds\<close>, each to its end.\<close>

fun passes :: "nat \<Rightarrow> ev_world \<Rightarrow> hptr \<Rightarrow> u32 list \<Rightarrow> ev_world option" where
  "passes fuel w h [] = Some w"
| "passes fuel w h (d # ds) = do {
     (w1, fin) \<leftarrow> holder_update fuel silent d w h;
     if fin then passes fuel w1 h ds else None }"

lemma ticking_passes:
  "ticking w h ev cb c \<Longrightarrow> passes fuel w h ds = Some w' \<Longrightarrow> (\<Sum>d\<leftarrow>ds. uint d) < c \<Longrightarrow>
    fired w' cb = fired w cb \<and> ticking w' h ev cb (c - (\<Sum>d\<leftarrow>ds. uint d))"
proof (induction ds arbitrary: w c)
  case (Cons d ds)
  then obtain w1 where w1: "holder_update fuel silent d w h = Some (w1, True)" "passes fuel w1 h ds = Some w'"
    by (auto simp: bind_eq_Some_conv split: if_splits)
  have nn: "0 \<le> (\<Sum>d\<leftarrow>ds. uint d)" by (induction ds) auto
  with Cons.prems(3) have "\<not> c \<le> uint d" by simp
  with ticking_pass [OF Cons.prems(1) w1(1)] have f: "fired w1 cb = fired w cb" "ticking w1 h ev cb (c - uint d)"
    by simp_all
  from Cons.IH [OF f(2) w1(2)] f(1) Cons.prems(3) show ?case by (simp add: algebra_simps)
qed simp

text \<open>The list of the holder does not grow under passes without scheduling, so the same fuel serves all.\<close>

lemma passes_end:
  "ev_okh D {} w \<Longrightarrow> ev_holders w h = Some ho \<Longrightarrow> h_pool ho = [] \<Longrightarrow> length (h_events ho) < fuel \<Longrightarrow>
    \<exists>w' ho'. passes fuel w h ds = Some w' \<and> ev_okh D {} w' \<and> ev_holders w' h = Some ho' \<and> h_pool ho' = [] \<and>
      length (h_events ho') < fuel"
proof (induction ds arbitrary: w ho)
  case (Cons d ds)
  have hp: "put_holder h (ho\<lparr> h_pool := [] \<rparr>) w = w"
    using Cons.prems(2,3) by (cases w; cases ho) (auto simp: put_holder_def fun_upd_idem)
  from calm_loop_ends [OF calm_silent Cons.prems(1,2), of 0 fuel d] Cons.prems(4) obtain w1 where
    w1: "upd_loop fuel silent d h w 0 = Some (w1, True)" "ev_okh D {} w1" by auto
  then have u: "holder_update fuel silent d w h = Some (w1, True)"
    using Cons.prems(2,3) hp by (simp add: holder_update_def flush_pool_def)
  have "upd_loop n silent d h v i = Some (v', True) \<Longrightarrow> ev_holders v h = Some a \<Longrightarrow>
      \<exists>a'. ev_holders v' h = Some a' \<and> h_pool a' = h_pool a \<and> length (h_events a') \<le> length (h_events a)" for n v v' i a
  proof (induction n arbitrary: v i a)
    case (Suc n)
    show ?case
    proof (cases "i < length (h_events a)")
      case True
      from upd_loop_step [OF Suc.prems(1,2) True] obtain v1 b where
        t: "upd_one silent d v h i (h_events a ! i) = Some (v1, b)" and
        k: "Suc i = length (h_events a) \<and> v' = v1 \<or>
          Suc i \<noteq> length (h_events a) \<and> upd_loop n silent d h v1 (if b then i else Suc i) = Some (v', True)" .
      obtain e where e: "ev_heap v (h_events a ! i) = Some e"
        using t Suc.prems(2) by (auto simp: upd_one_def bind_eq_Some_conv)
      let ?a = "if b then a\<lparr> h_events := erase_at i (h_events a) \<rparr> else a"
      have v1: "ev_holders v1 h = Some ?a" "h_pool ?a = h_pool a" "length (h_events ?a) \<le> length (h_events a)"
        using silent_turn(1) [OF t Suc.prems(2) e] True by simp_all
      from k show ?thesis
      proof (elim disjE conjE)
        assume "v' = v1"
        then show ?thesis using v1 by (intro exI [of _ ?a]) simp
      next
        assume "upd_loop n silent d h v1 (if b then i else Suc i) = Some (v', True)"
        from Suc.IH [OF this v1(1)] obtain a' where "ev_holders v' h = Some a'" "h_pool a' = h_pool ?a"
          "length (h_events a') \<le> length (h_events ?a)" by blast
        then show ?thesis using v1(2,3) le_trans by (intro exI [of _ a']) simp
      qed
    qed (use Suc.prems in simp)
  qed simp
  from this [OF w1(1) Cons.prems(2)] obtain ho1 where
    h1: "ev_holders w1 h = Some ho1" "h_pool ho1 = []" "length (h_events ho1) \<le> length (h_events ho)"
    using Cons.prems(3) by auto
  from Cons.IH [OF w1(2) h1(1,2)] h1(3) Cons.prems(4) u show ?case by auto
qed simp

text \<open>
  C15. Timers fire, and on time: let a live event be in its holder's list once with \<open>c\<close> milliseconds
  left, and the holder's insert pool be empty. When no callback interferes, passes whose elapsed times add up to less than \<open>c\<close> do not run
  it, and the next pass that brings the sum to \<open>c\<close> or more runs its callback exactly once; all
  these passes come to their end.
\<close>

theorem ev_fires_on_time:
  assumes "ev_reach w" "ticking w h ev cb c" "ev_holders w h = Some ho" "length (h_events ho) < fuel"
    "(\<Sum>d\<leftarrow>ds. uint d) < c" "c \<le> (\<Sum>d\<leftarrow>ds. uint d) + uint d"
  shows "\<exists>w1 w2. passes fuel w h ds = Some w1 \<and> holder_update fuel silent d w1 h = Some (w2, True) \<and>
    fired w1 cb = fired w cb \<and> fired w2 cb = Suc (fired w cb)"
proof -
  obtain D where ok: "ev_okh D {} w" using ev_reach_ok [OF assms(1)] by blast
  have "h_pool ho = []" using assms(2,3) by (auto simp: ticking_def)
  from passes_end [OF ok assms(3) this assms(4), of ds] obtain w1 ho1 where w1: "passes fuel w h ds = Some w1"
    "ev_okh D {} w1" "ev_holders w1 h = Some ho1" "h_pool ho1 = []" "length (h_events ho1) < fuel" by blast
  from passes_end [OF w1(2-5), of "[d]"] obtain w2 where w2: "holder_update fuel silent d w1 h = Some (w2, True)"
    by (auto simp: bind_eq_Some_conv split: if_splits)
  from ticking_passes [OF assms(2) w1(1) assms(5)] have t: "fired w1 cb = fired w cb"
    "ticking w1 h ev cb (c - (\<Sum>d\<leftarrow>ds. uint d))" by simp_all
  from ticking_pass [OF t(2) w2] assms(6) t(1) have "fired w2 cb = Suc (fired w cb)" by simp
  with w1(1) w2 t(1) show ?thesis by blast
qed

section \<open>Concrete runs\<close>

text \<open>A map instance 5 with one object and a repeating event of one second.\<close>

definition demo_ev :: ev_world where
  "demo_ev = the (foldM op_exec ev_init [OpNewHolder 5, OpNewObject, OpAdd 0 5 False 7 9 1000 0 0])"

lemmas ev_defs = op_exec_def ev_init_def new_holder_def new_object_def mgr_add_event_def event_add_def te_store_def
  te_new_def inc_ref_def te_adjust_def holder_add_event_def holder_push_def put_obj_def put_holder_def mm_insert_def Let_def

lemma demo_ev_run:
  "foldM op_exec ev_init [OpNewHolder 5, OpNewObject, OpAdd 0 5 False 7 9 1000 0 0] = Some demo_ev"
  "ev_heap demo_ev = [0 \<mapsto> \<lparr> te_obj = 0, te_cb = 7, te_type = 9, te_flag = 0, te_ms = 1000, te_curr = 1000,
     te_repeats = 0, te_deleted = False, te_instance = 5, te_ref = 2 \<rparr>]"
  "ev_objs demo_ev = [0 \<mapsto> \<lparr> eo_instance = 5, eo_holder = Some 1, eo_events = [(9, 0)] \<rparr>]"
  "ev_holders demo_ev 1 = Some \<lparr> h_instance = 5, h_events = [0], h_pool = [] \<rparr>"
  "ev_log demo_ev = []"
  by (simp_all add: demo_ev_def ev_defs)

lemma demo_ev_reach: "ev_reach demo_ev"
  by (rule ev_demo_reach [OF ev_start demo_ev_run(1)])

theorem ev_memory_safe_witness:
  "op_exec demo_ev (OpDestroy 0) \<noteq> None \<and>
   holder_update 3 (\<lambda>cb w. [OpDestroy 0, OpNewObject]) 2000 demo_ev 1 \<noteq> None"
proof -
  have "ev_holders demo_ev 1 \<noteq> None" using demo_ev_run(4) by (simp del: One_nat_def)
  from ev_memory_safe [OF demo_ev_reach this] show ?thesis by blast
qed

theorem ev_cancelled_witness:
  "\<exists>w'. event_remove demo_ev 0 9 = Some w' \<and> event_has demo_ev 0 9 \<and> \<not> event_has w' 0 9"
proof -
  obtain D where "ev_okh D {} demo_ev" using ev_reach_ok [OF demo_ev_reach] by blast
  from okh_event_remove [OF this, of 0 _ 9] demo_ev_run(3) obtain w' where w': "event_remove demo_ev 0 9 = Some w'" by auto
  have "event_has demo_ev 0 9"
    by (simp add: event_has_def live_typed_def typed_events_def demo_ev_run map_filter_simps)
  with w' ev_cancelled [OF demo_ev_reach w'] show ?thesis by (simp add: EVENT_REMOVAL_FLAG_ALL_def)
qed

theorem ev_pass_ends_witness:
  "\<exists>w'. holder_update 2 (\<lambda>cb w. [OpRemove 0 9]) 2000 demo_ev 1 = Some (w', True)"
  by (rule ev_pass_ends [OF demo_ev_reach demo_ev_run(4)]) (simp_all add: calm_def)

theorem ev_fires_on_time_witness:
  "\<exists>w1 w2. passes 2 demo_ev 1 [400, 500] = Some w1 \<and> holder_update 2 silent 100 w1 1 = Some (w2, True) \<and>
    fired w1 7 = 0 \<and> fired w2 7 = 1"
proof -
  have "ticking demo_ev 1 0 7 1000"
    by (auto simp: ticking_def alone_def demo_ev_run te_stale_def WORLD_INSTANCE_def simp del: One_nat_def)
  from ev_fires_on_time [OF demo_ev_reach this demo_ev_run(4), of 2 "[400, 500]" 100]
  show ?thesis by (simp add: fired_def demo_ev_run)
qed

text \<open>
  What the code does that it should not. Moving an object to another instance and back before the
  first holder's next pass leaves its event in that holder's list twice, so it runs at double rate.
\<close>

lemma ev_relocated_twice:
  "(case foldM op_exec demo_ev [OpNewHolder 6, OpRelocate 0 6 False, OpRelocate 0 5 False] of None \<Rightarrow> False
    | Some w \<Rightarrow> map_option h_events (ev_holders w 1) = Some [0, 0] \<and> event_has w 0 9 \<and>
        map_option te_instance (ev_heap w 0) = Some 5)"
  by code_simp

text \<open>
  The first event of an object whose instance has no holder is put into the world's list with the
  number of that instance, so the next pass drops it unfired, while the object still counts it.
\<close>

lemma ev_first_event_lost:
  "(case foldM op_exec ev_init [OpNewObject, OpAdd 0 5 False 7 9 1000 0 0] of None \<Rightarrow> False
    | Some w \<Rightarrow> event_has w 0 9 \<and>
        (case holder_update 2 silent 2000 w 0 of None \<Rightarrow> False
         | Some (w', fin) \<Rightarrow> ev_log w' = [] \<and> event_has w' 0 9 \<and> map_option h_events (ev_holders w' 0) = Some []))"
  by code_simp

text \<open>An expired event stays in its object's table: nothing takes it out but a later removal.\<close>

lemma ev_expired_stays:
  "(case foldM op_exec ev_init [OpNewObject, OpAdd 0 (-1) False 7 9 1000 1 0] of None \<Rightarrow> False
    | Some w \<Rightarrow>
        (case holder_update 2 silent 2000 w 0 of None \<Rightarrow> False
         | Some (w', fin) \<Rightarrow> ev_log w' = [7] \<and> \<not> event_has w' 0 9 \<and> event_has_events w' 0 = Some True))"
  by code_simp

end
