(* ===== verification/HS_Timers.thy ===== *)
theory HS_Timers
  imports HS_Events
begin

text \<open>
  What an object sees of the event system: the list of its live timers, which its calls of
  \<open>AddEvent\<close>, \<open>RemoveEvents\<close> and \<open>ModifyEventTime\<close> change. The interface is the locale
  \<open>timer_service\<close>; the event system of \<open>HS_Events\<close> provides it, and the components that keep timers
  (the battleground) use it through the list operations below.
\<close>

section \<open>The list of live timers\<close>

text \<open>Type, callback, period in milliseconds, executions left (0 for ever), in multimap order.\<close>

type_synonym 'c timer = "u32 \<times> 'c \<times> int \<times> u16"

definition tm_add :: "'c \<Rightarrow> u32 \<Rightarrow> u32 \<Rightarrow> u32 \<Rightarrow> 'c timer list \<Rightarrow> 'c timer list" where
  "tm_add cb t ms rep = mm_insert t (cb, uint ms, ucast rep)"

definition tm_remove :: "u32 \<Rightarrow> 'c timer list \<Rightarrow> 'c timer list" where
  "tm_remove t = filter (\<lambda>e. \<not> (t = EVENT_REMOVAL_FLAG_ALL \<or> fst e = t))"

definition tm_modify :: "u32 \<Rightarrow> u32 \<Rightarrow> 'c timer list \<Rightarrow> 'c timer list" where
  "tm_modify t ms = map (\<lambda>(t', cb, m, r). (t', cb, if t' = t then uint ms else m, r))"

definition tm_of :: "u32 \<Rightarrow> 'c timer list \<Rightarrow> 'c timer list" where
  "tm_of t = filter (\<lambda>e. fst e = t)"

lemma tm_of_add: "tm_of t' (tm_add cb t ms rep ts) = (if t' = t then tm_of t ts @ [(t, cb, uint ms, ucast rep)] else tm_of t' ts)"
  if "sorted (map fst ts)"
proof -
  have split: "filter P ts = filter P (takeWhile (\<lambda>e. fst e \<le> t) ts) @ filter P (dropWhile (\<lambda>e. fst e \<le> t) ts)" for P
    by (metis filter_append takeWhile_dropWhile_id)
  have "filter (\<lambda>e. fst e = t) (dropWhile (\<lambda>e. fst e \<le> t) ts) = []"
    using that
  proof (induction ts)
    case (Cons e ts)
    then show ?case by (cases "fst e \<le> t") (auto simp: filter_empty_conv)
  qed simp
  then show ?thesis using split by (auto simp: tm_of_def tm_add_def mm_insert_def)
qed

lemma tm_of_remove: "tm_of t' (tm_remove t ts) = (if t = EVENT_REMOVAL_FLAG_ALL \<or> t' = t then [] else tm_of t' ts)"
  by (auto simp: tm_of_def tm_remove_def filter_empty_conv intro: filter_cong)

lemma tm_of_modify: "tm_of t' (tm_modify t ms ts) = (if t' = t then tm_modify t ms (tm_of t ts) else tm_of t' ts)"
  by (induction ts) (auto simp: tm_of_def tm_modify_def)

lemma sorted_tm [simp]:
  "sorted (map fst ts) \<Longrightarrow> sorted (map fst (tm_add cb t ms rep ts))"
  "sorted (map fst ts) \<Longrightarrow> sorted (map fst (tm_remove t ts))"
  "sorted (map fst (tm_modify t ms ts)) = sorted (map fst ts)"
proof -
  have "map fst (tm_modify t ms ts) = map fst ts" by (induction ts) (auto simp: tm_modify_def)
  then show "sorted (map fst (tm_modify t ms ts)) = sorted (map fst ts)" by simp
qed (auto simp: tm_add_def tm_remove_def sorted_mm_insert intro: sorted_filter)

section \<open>The interface\<close>

datatype 'c tm_call = TM_Add 'c u32 u32 u32 | TM_Remove u32 | TM_Modify u32 u32

fun tm_step :: "'c timer list \<Rightarrow> 'c tm_call \<Rightarrow> 'c timer list" where
  "tm_step ts (TM_Add cb t ms rep) = tm_add cb t ms rep ts"
| "tm_step ts (TM_Remove t) = tm_remove t ts"
| "tm_step ts (TM_Modify t ms) = tm_modify t ms ts"

text \<open>
  A provider keeps its own state \<open>'s\<close>, shows the live timers of one object, and every call succeeds
  and has the effect of the list operation.
\<close>

locale timer_service =
  fixes ok :: "'s \<Rightarrow> bool"
    and timers :: "'s \<Rightarrow> 'c timer list"
    and call :: "'s \<Rightarrow> 'c tm_call \<Rightarrow> 's option"
  assumes call: "ok s \<Longrightarrow> \<exists>s'. call s c = Some s' \<and> ok s' \<and> timers s' = tm_step (timers s) c"
    and ordered: "ok s \<Longrightarrow> sorted (map fst (timers s))"
begin

lemma run: "ok s \<Longrightarrow> \<exists>s'. foldM call s cs = Some s' \<and> ok s' \<and> timers s' = foldl tm_step (timers s) cs"
proof (induction cs arbitrary: s)
  case (Cons c cs)
  from call [OF Cons.prems, of c] obtain s1 where "call s c = Some s1" "ok s1" "timers s1 = tm_step (timers s) c" by blast
  with Cons.IH [of s1] show ?case by auto
qed simp

text \<open>Removing a type and adding a timer of it leaves exactly that timer of the type.\<close>

lemma restart:
  assumes "ok s" "t \<noteq> EVENT_REMOVAL_FLAG_ALL"
  shows "\<exists>s'. foldM call s [TM_Remove t, TM_Add cb t ms rep] = Some s' \<and> ok s' \<and>
    tm_of t (timers s') = [(t, cb, uint ms, ucast rep)]"
proof -
  from run [OF assms(1), of "[TM_Remove t, TM_Add cb t ms rep]"] obtain s' where
    "foldM call s [TM_Remove t, TM_Add cb t ms rep] = Some s'" "ok s'"
    "timers s' = tm_add cb t ms rep (tm_remove t (timers s))" by auto
  moreover have "sorted (map fst (tm_remove t (timers s)))" using ordered [OF assms(1)] by simp
  ultimately show ?thesis by (simp add: tm_of_add tm_of_remove)
qed

end

section \<open>The event system provides it\<close>

definition tm_view :: "ev_world \<Rightarrow> u32 \<times> evptr \<Rightarrow> cbptr timer option" where
  "tm_view w = (\<lambda>(t, ev). case ev_heap w ev of None \<Rightarrow> None
     | Some e \<Rightarrow> if te_deleted e then None else Some (t, te_cb e, te_ms e, te_repeats e))"

definition ev_timers :: "eobj \<Rightarrow> ev_world \<Rightarrow> cbptr timer list" where
  "ev_timers obj w = (case ev_objs w obj of None \<Rightarrow> [] | Some ob \<Rightarrow> List.map_filter (tm_view w) (eo_events ob))"

fun ev_tm_call :: "eobj \<Rightarrow> int \<Rightarrow> bool \<Rightarrow> ev_world \<Rightarrow> cbptr tm_call \<Rightarrow> ev_world option" where
  "ev_tm_call obj gid busy w (TM_Add cb t ms rep) = mgr_add_event w obj gid busy cb t ms rep 0"
| "ev_tm_call obj gid busy w (TM_Remove t) = event_remove w obj t"
| "ev_tm_call obj gid busy w (TM_Modify t ms) = event_adjust (modify_time ms) w obj t"

definition ev_tm_ok :: "eobj \<Rightarrow> ev_world \<Rightarrow> bool" where
  "ev_tm_ok obj w \<longleftrightarrow> (\<exists>D. ev_okh D {} w) \<and> ev_objs w obj \<noteq> None"

lemma map_filter_append: "List.map_filter f (xs @ ys) = List.map_filter f xs @ List.map_filter f ys"
  by (induction xs) (auto simp: List.map_filter_simps split: option.split)

lemma map_filter_view_filter:
  "List.map_filter (tm_view w) (filter (\<lambda>e. P (fst e)) m) = filter (\<lambda>e. P (fst e)) (List.map_filter (tm_view w) m)"
proof (induction m)
  case (Cons e m)
  then show ?case
    by (cases e) (auto simp: List.map_filter_simps tm_view_def split: option.split)
qed (simp add: List.map_filter_simps)

lemma tm_view_key: "tm_view w e = Some r \<Longrightarrow> fst r = fst e"
  by (cases e) (auto simp: tm_view_def split: option.splits if_splits)

lemma set_map_filter_view: "fst ` set (List.map_filter (tm_view w) m) \<subseteq> fst ` set m"
  by (induction m) (auto simp: List.map_filter_simps split: option.splits dest: tm_view_key)

lemma sorted_map_filter_view: "sorted (map fst m) \<Longrightarrow> sorted (map fst (List.map_filter (tm_view w) m))"
proof (induction m)
  case (Cons e m)
  show ?case
  proof (cases "tm_view w e")
    case None
    with Cons show ?thesis by (simp add: List.map_filter_simps)
  next
    case (Some r)
    have "\<forall>k \<in> fst ` set m. fst e \<le> k" using Cons.prems by simp
    then have "\<forall>k \<in> fst ` set (List.map_filter (tm_view w) m). fst e \<le> k" using set_map_filter_view [of w m] by blast
    then have "\<forall>x \<in> set (List.map_filter (tm_view w) m). fst e \<le> fst x" by blast
    with Some Cons tm_view_key [OF Some] show ?thesis by (simp add: List.map_filter_simps)
  qed
qed (simp add: List.map_filter_simps)

lemma mm_insert_sorted:
  "sorted (map fst m) \<Longrightarrow> mm_insert k v m = filter (\<lambda>e. fst e \<le> k) m @ (k, v) # filter (\<lambda>e. \<not> fst e \<le> k) m"
proof (induction m)
  case (Cons e m)
  show ?case
  proof (cases "fst e \<le> k")
    case True
    with Cons show ?thesis by (simp add: mm_insert_def)
  next
    case False
    with Cons.prems have "\<forall>x \<in> set m. \<not> fst x \<le> k" by fastforce
    with False show ?thesis by (simp add: mm_insert_def filter_id_conv filter_empty_conv)
  qed
qed (simp add: mm_insert_def)

lemma ev_timers_cong:
  "(\<And>e. e \<in> set m \<Longrightarrow> tm_view w e = tm_view w' e) \<Longrightarrow> List.map_filter (tm_view w) m = List.map_filter (tm_view w') m"
  by (rule map_filter_cong)

lemma mgr_add_cells:
  assumes "mgr_add_event w obj gid busy cb t ms rep 0 = Some w'" "ev_objs w obj = Some ob"
  shows "\<exists>ob' e. ev_objs w' obj = Some ob' \<and> eo_events ob' = mm_insert t (ev_next w) (eo_events ob) \<and>
    ev_heap w' = (ev_heap w)(ev_next w \<mapsto> e) \<and> \<not> te_deleted e \<and> te_cb e = cb \<and> te_ms e = uint ms \<and> te_repeats e = ucast rep"
  using assms(1) unfolding mgr_add_event_eq [OF assms(2)] Let_def
  by (force simp: bind_eq_Some_conv holder_add_event_def holder_push_def inc_ref_def te_adjust_Some
      add_object_part_sel te_new_def fun_eq_iff)

lemma ev_timers_add:
  assumes ok: "ev_okh D {} w" and ob: "ev_objs w obj = Some ob"
    and r: "mgr_add_event w obj gid busy cb t ms rep 0 = Some w'"
  shows "ev_timers obj w' = tm_add cb t ms rep (ev_timers obj w)"
proof -
  from mgr_add_cells [OF r ob] obtain ob' e where w': "ev_objs w' obj = Some ob'"
    "eo_events ob' = mm_insert t (ev_next w) (eo_events ob)" "ev_heap w' = (ev_heap w)(ev_next w \<mapsto> e)"
    "\<not> te_deleted e" "te_cb e = cb" "te_ms e = uint ms" "te_repeats e = ucast rep" by blast
  have o: "obj_ok w obj ob" by (rule ev_okhD(3) [OF ok ob])
  have "ev_heap w (ev_next w) = None" using ev_okhD(1) [OF ok, of "ev_next w"] by (cases "ev_heap w (ev_next w)") auto
  then have old: "tm_view w' x = tm_view w x" if "x \<in> set (eo_events ob)" for x
    using o that w'(3) by (cases x) (fastforce simp: tm_view_def obj_ok_def)
  have new: "tm_view w' (t, ev_next w) = Some (t, cb, uint ms, ucast rep)" using w' by (simp add: tm_view_def)
  have s: "sorted (map fst (eo_events ob))" using o by (simp add: obj_ok_def)
  have "List.map_filter (tm_view w') (filter P (eo_events ob)) = List.map_filter (tm_view w) (filter P (eo_events ob))" for P
    by (rule map_filter_cong) (use old in auto)
  then show ?thesis
    using ob w'(1,2) new map_filter_view_filter [of w "\<lambda>k. k \<le> t" "eo_events ob"]
      map_filter_view_filter [of w "\<lambda>k. \<not> k \<le> t" "eo_events ob"]
    by (simp add: ev_timers_def tm_add_def mm_insert_sorted [OF s] mm_insert_sorted [OF sorted_map_filter_view [OF s]]
        map_filter_append List.map_filter_simps)
qed

lemma ev_timers_remove:
  assumes ok: "ev_okh D {} w" and ob: "ev_objs w obj = Some ob" and r: "event_remove w obj t = Some w'"
  shows "ev_timers obj w' = tm_remove t (ev_timers obj w)"
proof -
  let ?gone = "\<lambda>k. t = EVENT_REMOVAL_FLAG_ALL \<or> k = t"
  from r ob obtain w1 where w1: "foldM rm_one w (map snd (filter (\<lambda>e. ?gone (fst e)) (eo_events ob))) = Some w1"
    "w' = put_obj obj (ob\<lparr> eo_events := filter (\<lambda>e. \<not> ?gone (fst e)) (eo_events ob) \<rparr>) w1"
    by (auto simp: event_remove_def bind_eq_Some_conv Let_def)
  have d: "distinct (map snd (eo_events ob))" using ev_okhD(3) [OF ok ob] by (simp add: obj_ok_def)
  have "tm_view w' x = tm_view w x" if x: "x \<in> set (filter (\<lambda>e. \<not> ?gone (fst e)) (eo_events ob))" for x
  proof -
    have "snd x \<notin> set (map snd (filter (\<lambda>e. ?gone (fst e)) (eo_events ob)))"
      using x d by (auto simp: distinct_map inj_on_def)
    from rm_all_other [OF w1(1) this] w1(2) show ?thesis by (simp add: tm_view_def split_beta)
  qed
  then have "List.map_filter (tm_view w') (filter (\<lambda>e. \<not> ?gone (fst e)) (eo_events ob)) =
      List.map_filter (tm_view w) (filter (\<lambda>e. \<not> ?gone (fst e)) (eo_events ob))"
    by (rule map_filter_cong)
  then show ?thesis
    using ob w1(2) map_filter_view_filter [of w "\<lambda>k. \<not> ?gone k" "eo_events ob"]
    by (simp add: ev_timers_def tm_remove_def)
qed

lemma adjust_all_cells:
  "foldM (te_adjust f) w evs = Some w' \<Longrightarrow> distinct evs \<Longrightarrow>
    ev_heap w' x = (if x \<in> set evs then map_option f (ev_heap w x) else ev_heap w x)"
proof (induction evs arbitrary: w)
  case (Cons ev evs)
  then obtain e where e: "ev_heap w ev = Some e" "foldM (te_adjust f) (te_store ev (f e) w) evs = Some w'"
    by (auto simp: te_adjust_Some bind_eq_Some_conv)
  from Cons.IH [OF e(2)] Cons.prems(2) e(1) show ?case by auto
qed simp

lemma ev_timers_modify:
  assumes ok: "ev_okh D {} w" and ob: "ev_objs w obj = Some ob" and r: "event_adjust (modify_time ms) w obj t = Some w'"
  shows "ev_timers obj w' = tm_modify t ms (ev_timers obj w)"
proof -
  from r ob have f: "foldM (te_adjust (modify_time ms)) w (typed_events ob t) = Some w'" by (simp add: event_adjust_def)
  have ob': "ev_objs w' obj = Some ob" using adjust_all_frame [OF f] ob by (simp add: same_frame_def)
  have d: "distinct (map snd (eo_events ob))" using ev_okhD(3) [OF ok ob] by (simp add: obj_ok_def)
  then have "distinct (typed_events ob t)"
    unfolding typed_events_def by (rule distinct_map_filter)
  note c = adjust_all_cells [OF f this]
  let ?g = "\<lambda>(t', cb, m, r). (t', cb, if t' = t then uint ms else m, r)"
  have v: "tm_view w' x = map_option ?g (tm_view w x)" if "x \<in> set (eo_events ob)" for x
  proof -
    obtain k ev where x: "x = (k, ev)" by (cases x)
    have "ev \<in> set (typed_events ob t) \<longleftrightarrow> k = t"
      using that d x unfolding typed_events_def distinct_map inj_on_def by force
    with c [of ev] x show ?thesis by (auto simp: tm_view_def modify_time_def split: option.split)
  qed
  have "(\<And>x. x \<in> set m \<Longrightarrow> tm_view w' x = map_option ?g (tm_view w x)) \<Longrightarrow>
      List.map_filter (tm_view w') m = map ?g (List.map_filter (tm_view w) m)" for m
    by (induction m) (auto simp: List.map_filter_simps split: option.split)
  from this [OF v] show ?thesis using ob ob' by (simp add: ev_timers_def tm_modify_def)
qed

lemma ev_tm_call_ok:
  assumes "ev_tm_ok obj w"
  shows "\<exists>w'. ev_tm_call obj gid busy w c = Some w' \<and> ev_tm_ok obj w' \<and> ev_timers obj w' = tm_step (ev_timers obj w) c"
proof -
  from assms obtain D ob where ok: "ev_okh D {} w" and ob: "ev_objs w obj = Some ob" by (auto simp: ev_tm_ok_def)
  show ?thesis
  proof (cases c)
    case (TM_Add cb t ms rep)
    from okh_add [OF ok ob] obtain w' where w': "mgr_add_event w obj gid busy cb t ms rep 0 = Some w'" "ev_okh D {} w'"
      by blast
    with mgr_add_cells [OF w'(1) ob] ev_timers_add [OF ok ob w'(1)] TM_Add show ?thesis by (auto simp: ev_tm_ok_def)
  next
    case (TM_Remove t)
    from okh_event_remove [OF ok ob] obtain w' where w': "event_remove w obj t = Some w'" "ev_okh D {} w'" by blast
    with ev_timers_remove [OF ok ob w'(1)] TM_Remove ob show ?thesis
      by (auto simp: ev_tm_ok_def event_remove_def bind_eq_Some_conv Let_def)
  next
    case (TM_Modify t ms)
    have "\<exists>w'. event_adjust (modify_time ms) w obj t = Some w' \<and> ev_okh D {} w' \<and> lists_grow w w'"
      by (rule okh_event_adjust [OF ok ob]) (simp add: modify_time_def)
    then obtain w' where w': "event_adjust (modify_time ms) w obj t = Some w'" "ev_okh D {} w'" by blast
    with ev_timers_modify [OF ok ob w'(1)] TM_Modify ob show ?thesis
      by (auto simp: ev_tm_ok_def event_adjust_def same_frame_def dest: adjust_all_frame)
  qed
qed

lemma ev_timers_sorted:
  assumes "ev_tm_ok obj w"
  shows "sorted (map fst (ev_timers obj w))"
proof -
  from assms obtain D ob where "ev_okh D {} w" "ev_objs w obj = Some ob" by (auto simp: ev_tm_ok_def)
  from ev_okhD(3) [OF this] sorted_map_filter_view \<open>ev_objs w obj = Some ob\<close> show ?thesis
    by (simp add: ev_timers_def obj_ok_def)
qed

interpretation event_service: timer_service "ev_tm_ok obj" "ev_timers obj" "ev_tm_call obj gid busy"
  for obj gid busy
  by unfold_locales (simp_all add: ev_tm_call_ok ev_timers_sorted)

text \<open>The lists themselves are a provider too: the model the client components compute with.\<close>

interpretation list_service: timer_service "\<lambda>ts. sorted (map fst ts)" "\<lambda>ts. ts" "\<lambda>ts c. Some (tm_step ts c)"
proof unfold_locales
  fix ts :: "'c timer list" and c :: "'c tm_call"
  assume "sorted (map fst ts)"
  then show "\<exists>s'. Some (tm_step ts c) = Some s' \<and> sorted (map fst s') \<and> s' = tm_step ts c"
    by (cases c) simp_all
qed simp

text \<open>
  C28. The event system implements the timer lists: in a reachable state, any sequence of
  \<open>AddEvent\<close>, \<open>RemoveEvents\<close> and \<open>ModifyEventTime\<close> calls of a live object succeeds, and its live
  events afterwards are what the list operations compute from those it had.
\<close>

theorem ev_timers_refine:
  assumes "ev_reach w" "ev_objs w obj \<noteq> None"
  shows "\<exists>w'. foldM (ev_tm_call obj gid busy) w cs = Some w' \<and>
    ev_timers obj w' = foldl tm_step (ev_timers obj w) cs"
proof -
  have "ev_tm_ok obj w" using ev_reach_ok [OF assms(1)] assms(2) by (simp add: ev_tm_ok_def)
  from event_service.run [OF this, of gid busy cs] show ?thesis by blast
qed

theorem ev_timers_refine_witness:
  "\<exists>w'. foldM (ev_tm_call 0 5 False) demo_ev [TM_Add 8 3 50 1, TM_Modify 9 70] = Some w' \<and>
    ev_timers 0 w' = [(3, 8, 50, 1), (9, 7, 70, 0)]"
proof -
  have t: "ev_timers 0 demo_ev = [(9, 7, 1000, 0)]"
    by (simp add: ev_timers_def demo_ev_run List.map_filter_simps tm_view_def)
  have "ev_objs demo_ev 0 \<noteq> None" by (simp add: demo_ev_run)
  from ev_timers_refine [OF demo_ev_reach this, of 5 False "[TM_Add 8 3 50 1, TM_Modify 9 70]"] t
  show ?thesis by (simp add: tm_add_def tm_modify_def mm_insert_def)
qed

end
