(* ===== verification/HS_WorldStates.thy ===== *)
theory HS_WorldStates
  imports HS_Prelude
begin

text \<open>
  The world states of a map (\<open>WorldStateManager.cpp\<close>, \<open>WorldStateManager.h\<close>, and
  \<open>MapMgr::SendPacketToPlayers\<close>): numbered values with a faction and a zone mask, which the clients
  of the map display. \<open>m_states\<close> is an ordered map; the database rows of the templates are
  lists of their columns. The two persistent settings are one SQL statement each and stay out.
\<close>

section \<open>State and operations\<close>

record world_state =
  ws_faction :: int
  ws_zone :: int
  ws_value :: u32

type_synonym ws_map = "(u32 \<times> world_state) list"

definition FACTION_MASK_ALL :: int where "FACTION_MASK_ALL = -1"
definition ZONE_MASK_ALL :: int where "ZONE_MASK_ALL = -1"

text \<open>A player as the map sees it: whether it has a session, its zone, area and team.\<close>

record ws_player =
  wp_session :: bool
  wp_zone :: u32
  wp_area :: u32
  wp_team :: u32

definition ws_create :: "ws_map \<Rightarrow> u32 \<Rightarrow> u32 \<Rightarrow> int \<Rightarrow> int \<Rightarrow> ws_map" where
  "ws_create m i v faction zone =
     (let s = \<lparr> ws_faction = faction, ws_zone = zone, ws_value = v \<rparr>
      in if map_of m i \<noteq> None then map_adjust i (\<lambda>_. s) m else map_insert i s m)"

text \<open>\<open>SendPacketToPlayers\<close>: the players of the map with a session that the masks admit.\<close>

definition ws_admits :: "int \<Rightarrow> int \<Rightarrow> ws_player \<Rightarrow> bool" where
  "ws_admits zone faction p \<longleftrightarrow> wp_session p \<and> (zone = ZONE_MASK_ALL \<or> wp_zone p = word_of_int zone) \<and>
     (faction = FACTION_MASK_ALL \<or> wp_team p = word_of_int faction)"

definition send_packet_to_players :: "(nat \<times> ws_player) list \<Rightarrow> int \<Rightarrow> int \<Rightarrow> packet \<Rightarrow> (nat \<times> packet) list" where
  "send_packet_to_players ps zone faction pkt =
     map (\<lambda>(k, p). (k, pkt)) (filter (\<lambda>(k, p). ws_admits zone faction p) ps)"

text \<open>\<open>UpdateWorldState\<close>: a state that does not exist is created, for all players, and sent.\<close>

definition ws_update :: "(nat \<times> ws_player) list \<Rightarrow> ws_map \<Rightarrow> u32 \<Rightarrow> u32 \<Rightarrow> ws_map \<times> (nat \<times> packet) list" where
  "ws_update ps m i v =
     (let m1 = (if map_of m i = None then ws_create m i v FACTION_MASK_ALL ZONE_MASK_ALL else m);
          m2 = map_adjust i (\<lambda>s. s\<lparr> ws_value := v \<rparr>) m1
      in case map_of m2 i of
           None \<Rightarrow> (m2, [])
         | Some s \<Rightarrow> (m2, send_packet_to_players ps (ws_zone s) (ws_faction s)
                             (''SMSG_UPDATE_WORLD_STATE'', [U32 i, U32 v])))"

definition ws_visible :: "ws_player \<Rightarrow> world_state \<Rightarrow> bool" where
  "ws_visible p s \<longleftrightarrow> (ws_faction s = FACTION_MASK_ALL \<or> ws_faction s = sint (wp_team p)) \<and>
     (ws_zone s = ZONE_MASK_ALL \<or> ws_zone s = sint (wp_zone p))"

definition ws_pairs :: "ws_player \<Rightarrow> ws_map \<Rightarrow> (u32 \<times> u32) list" where
  "ws_pairs p m = map (\<lambda>(i, s). (i, ws_value s)) (filter (\<lambda>(i, s). ws_visible p s) m)"

text \<open>The count is patched into the header afterwards; it has 16 bits.\<close>

definition ws_send_all :: "u32 \<Rightarrow> ws_player \<Rightarrow> ws_map \<Rightarrow> packet" where
  "ws_send_all map_id p m =
     (''SMSG_INIT_WORLD_STATES'', [U32 map_id, U32 (wp_zone p), U32 (wp_area p), U16 (of_nat (length (ws_pairs p m)))] @
        concat (map (\<lambda>(i, v). [U32 i, U32 v]) (ws_pairs p m)))"

definition ws_clear :: packet where
  "ws_clear = (''SMSG_INIT_WORLD_STATES'', [U32 0, U16 0, U16 0, U16 0])"

section \<open>Templates\<close>

record ws_template =
  wt_field :: u32
  wt_faction :: int
  wt_zone :: int
  wt_value :: u32

record ws_templates =
  wt_maps :: "ws_template list list"
  wt_general :: "ws_template list"

text \<open>
  One row: map, zone mask, faction mask, field, value. Map -1 is the general list, a map beyond the
  table is reported and skipped; another negative map is an access in front of the table.
\<close>

definition wt_load_row :: "ws_templates \<Rightarrow> int \<times> int \<times> int \<times> u32 \<times> u32 \<Rightarrow> ws_templates option" where
  "wt_load_row t row = (case row of (mapid, zone, faction, field, v) \<Rightarrow>
     (let tmpl = \<lparr> wt_field = field, wt_faction = faction, wt_zone = zone, wt_value = v \<rparr>
      in if mapid = -1 then Some (t\<lparr> wt_general := wt_general t @ [tmpl] \<rparr>)
         else if int (length (wt_maps t)) \<le> mapid then Some t
         else if mapid < 0 then None
         else Some (t\<lparr> wt_maps := (wt_maps t)[nat mapid := wt_maps t ! nat mapid @ [tmpl]] \<rparr>)))"

fun wt_load :: "ws_templates \<Rightarrow> (int \<times> int \<times> int \<times> u32 \<times> u32) list \<Rightarrow> ws_templates option" where
  "wt_load t [] = Some t"
| "wt_load t (row # rows) = do { t1 \<leftarrow> wt_load_row t row; wt_load t1 rows }"

definition ws_create_all :: "ws_map \<Rightarrow> ws_template list \<Rightarrow> ws_map" where
  "ws_create_all m ts = fold (\<lambda>t m. ws_create m (wt_field t) (wt_value t) (wt_faction t) (wt_zone t)) ts m"

definition wt_apply :: "ws_templates \<Rightarrow> nat \<Rightarrow> ws_map \<Rightarrow> ws_map option" where
  "wt_apply t map_id m = (if map_id < length (wt_maps t)
     then Some (ws_create_all (ws_create_all m (wt_maps t ! map_id)) (wt_general t)) else None)"

section \<open>What the operations do to the map\<close>

lemma map_ok_ws_create [simp]: "map_ok m \<Longrightarrow> map_ok (ws_create m i v f z)"
  by (simp add: ws_create_def Let_def)

lemma map_of_ws_create [simp]:
  "map_ok m \<Longrightarrow> map_of (ws_create m i v f z) = (map_of m)(i \<mapsto> \<lparr> ws_faction = f, ws_zone = z, ws_value = v \<rparr>)"
  by (cases "map_of m i") (simp_all add: ws_create_def Let_def map_of_eq_None_keys)

definition ws_entry :: "ws_map \<Rightarrow> u32 \<Rightarrow> world_state" where
  "ws_entry m i = (case map_of m i of Some s \<Rightarrow> s
     | None \<Rightarrow> \<lparr> ws_faction = FACTION_MASK_ALL, ws_zone = ZONE_MASK_ALL, ws_value = 0 \<rparr>)"

lemma ws_update_map:
  assumes "map_ok m"
  shows "map_ok (fst (ws_update ps m i v))"
    "map_of (fst (ws_update ps m i v)) = (map_of m)(i \<mapsto> (ws_entry m i)\<lparr> ws_value := v \<rparr>)"
  using assms
  by (auto simp: ws_update_def Let_def ws_entry_def fun_eq_iff split: option.split)

lemma ws_update_out:
  assumes "map_ok m"
  shows "snd (ws_update ps m i v) = send_packet_to_players ps (ws_zone (ws_entry m i)) (ws_faction (ws_entry m i))
     (''SMSG_UPDATE_WORLD_STATE'', [U32 i, U32 v])"
  using assms
  by (auto simp: ws_update_def Let_def ws_entry_def split: option.split)

text \<open>The value a state shows, for the models of the battlegrounds.\<close>

definition ws_get :: "ws_map \<Rightarrow> u32 \<Rightarrow> u32 option" where
  "ws_get m i = map_option ws_value (map_of m i)"

lemma ws_get_update [simp]: "map_ok m \<Longrightarrow> ws_get (fst (ws_update ps m i v)) = (ws_get m)(i \<mapsto> v)"
  by (auto simp: ws_get_def ws_update_map fun_eq_iff)

lemma ws_get_create [simp]: "map_ok m \<Longrightarrow> ws_get (ws_create m i v f z) = (ws_get m)(i \<mapsto> v)"
  by (auto simp: ws_get_def fun_eq_iff)

section \<open>What a player was sent\<close>

text \<open>
  The pairs of a packet of world states, the pairs of all packets sent to the player \<open>k\<close> in their order, and
  the last value sent for a state.
\<close>

fun ws_parse :: "pfield list \<Rightarrow> (u32 \<times> u32) list" where
  "ws_parse (U32 i # U32 v # fs) = (i, v) # ws_parse fs"
| "ws_parse _ = []"

definition packet_pairs :: "packet \<Rightarrow> (u32 \<times> u32) list" where
  "packet_pairs pkt = ws_parse (if fst pkt = ''SMSG_INIT_WORLD_STATES'' then drop 4 (snd pkt) else snd pkt)"

definition sent_to :: "nat \<Rightarrow> (nat \<times> packet) list \<Rightarrow> (u32 \<times> u32) list" where
  "sent_to k out = concat (map (\<lambda>(k', pkt). if k' = k then packet_pairs pkt else []) out)"

definition last_sent :: "nat \<Rightarrow> (nat \<times> packet) list \<Rightarrow> u32 \<Rightarrow> u32 option" where
  "last_sent k out = map_of (rev (sent_to k out))"

definition ws_view :: "ws_player \<Rightarrow> ws_map \<Rightarrow> (u32 \<Rightarrow> u32 option)" where
  "ws_view p m i = (case map_of m i of Some s \<Rightarrow> if ws_visible p s then Some (ws_value s) else None | None \<Rightarrow> None)"

text \<open>A run of updates, with the packets of all of them.\<close>

fun ws_run :: "(nat \<times> ws_player) list \<Rightarrow> ws_map \<Rightarrow> (u32 \<times> u32) list \<Rightarrow> ws_map \<times> (nat \<times> packet) list" where
  "ws_run ps m [] = (m, [])"
| "ws_run ps m ((i, v) # ups) =
     (let (m1, out) = ws_update ps m i v; (m2, rest) = ws_run ps m1 ups in (m2, out @ rest))"

lemma ws_parse_concat: "ws_parse (concat (map (\<lambda>(i, v). [U32 i, U32 v]) ps)) = ps"
  by (induction ps) auto

lemma map_of_ws_pairs: "map_ok m \<Longrightarrow> map_of (ws_pairs p m) = ws_view p m"
proof (induction m)
  case (Cons e m)
  then have "map_ok m" "map_of m (fst e) = None" by (auto simp: map_ok_def map_of_eq_None_keys)
  with Cons.IH show ?case
    by (cases e) (auto simp: ws_pairs_def ws_view_def fun_eq_iff split: option.split)
qed (simp add: ws_pairs_def ws_view_def fun_eq_iff)

text \<open>Masks are signed 32-bit numbers, so the two ways the code compares them agree.\<close>

definition ws_masks_ok :: "ws_map \<Rightarrow> bool" where
  "ws_masks_ok m \<longleftrightarrow> (\<forall>(i, s) \<in> set m. - (2 ^ 31) \<le> ws_faction s \<and> ws_faction s < 2 ^ 31 \<and>
     - (2 ^ 31) \<le> ws_zone s \<and> ws_zone s < 2 ^ 31)"

lemma mask_eq: "- (2 ^ 31) \<le> k \<Longrightarrow> k < 2 ^ 31 \<Longrightarrow> (w :: u32) = word_of_int k \<longleftrightarrow> k = sint w"
proof -
  assume "- (2 ^ 31) \<le> k" "k < 2 ^ 31"
  then have "sint (word_of_int k :: u32) = k"
    by (simp add: sint_sbintrunc' signed_take_bit_int_eq_self)
  then show ?thesis by auto
qed

lemma visible_admits:
  assumes "ws_masks_ok m" "map_of m i = Some s" "wp_session p"
  shows "ws_visible p s = ws_admits (ws_zone s) (ws_faction s) p"
proof -
  have "- (2 ^ 31) \<le> ws_faction s \<and> ws_faction s < 2 ^ 31 \<and> - (2 ^ 31) \<le> ws_zone s \<and> ws_zone s < 2 ^ 31"
    using assms(1) map_of_SomeD [OF assms(2)] by (auto simp: ws_masks_ok_def)
  then show ?thesis using assms(3) mask_eq [of "ws_zone s"] mask_eq [of "ws_faction s"]
    by (auto simp: ws_visible_def ws_admits_def)
qed

lemma masks_ok_iff:
  "map_ok m \<Longrightarrow> ws_masks_ok m \<longleftrightarrow> (\<forall>i s. map_of m i = Some s \<longrightarrow> - (2 ^ 31) \<le> ws_faction s \<and> ws_faction s < 2 ^ 31 \<and>
     - (2 ^ 31) \<le> ws_zone s \<and> ws_zone s < 2 ^ 31)"
  unfolding ws_masks_ok_def map_ok_def by (auto dest: map_of_SomeD)

lemma masks_ok_update: "map_ok m \<Longrightarrow> ws_masks_ok m \<Longrightarrow> ws_masks_ok (fst (ws_update ps m i v))"
  using ws_update_map [of m ps i v]
  by (auto simp: masks_ok_iff ws_entry_def FACTION_MASK_ALL_def ZONE_MASK_ALL_def split: option.split)

lemma map_of_rev_distinct: "distinct (map fst xs) \<Longrightarrow> map_of (rev xs) = map_of xs"
proof (induction xs)
  case (Cons x xs)
  then have "map_of xs (fst x) = None" by (simp add: map_of_eq_None_iff)
  with Cons show ?case by (auto simp: fun_eq_iff map_add_def split: option.split)
qed simp

text \<open>What one update sends to a player of the map.\<close>

lemma sent_to_append: "sent_to k (xs @ ys) = sent_to k xs @ sent_to k ys"
  by (simp add: sent_to_def)

lemma last_sent_append: "last_sent k (xs @ ys) = last_sent k xs ++ last_sent k ys"
  by (simp add: last_sent_def sent_to_append)

lemma sent_to_others: "\<forall>x \<in> set out. fst x \<noteq> k \<Longrightarrow> sent_to k out = []"
  by (auto simp: sent_to_def)

lemma sent_to_send:
  "distinct (map fst ps) \<Longrightarrow> map_of ps k = Some p \<Longrightarrow>
    sent_to k (send_packet_to_players ps z f pkt) = (if ws_admits z f p then packet_pairs pkt else [])"
proof (induction ps)
  case (Cons e ps)
  obtain k' q where e: "e = (k', q)" by (cases e)
  show ?case
  proof (cases "k' = k")
    case True
    have "k \<notin> fst ` set ps" using Cons.prems(1) e True by simp
    then have "\<forall>x \<in> set (send_packet_to_players ps z f pkt). fst x \<noteq> k"
      by (force simp: send_packet_to_players_def)
    from sent_to_others [OF this] True e Cons.prems show ?thesis
      by (auto simp: send_packet_to_players_def sent_to_def)
  next
    case False
    with Cons.prems e have "sent_to k (send_packet_to_players ps z f pkt) = (if ws_admits z f p then packet_pairs pkt else [])"
      by (intro Cons.IH) auto
    moreover have "send_packet_to_players (e # ps) z f pkt =
        (if ws_admits z f q then [(k', pkt)] else []) @ send_packet_to_players ps z f pkt"
      by (simp add: send_packet_to_players_def e)
    moreover have "sent_to k (if ws_admits z f q then [(k', pkt)] else []) = []" using False by (simp add: sent_to_def)
    ultimately show ?thesis by (simp only: sent_to_append append.simps)
  qed
qed (simp add: sent_to_def)

lemma last_sent_update:
  assumes "map_ok m" "distinct (map fst ps)" "map_of ps k = Some p"
  shows "last_sent k (snd (ws_update ps m i v)) =
    (if ws_admits (ws_zone (ws_entry m i)) (ws_faction (ws_entry m i)) p then [i \<mapsto> v] else Map.empty)"
  by (simp add: ws_update_out [OF assms(1)] last_sent_def sent_to_send [OF assms(2,3)] packet_pairs_def)

lemma ws_run_told:
  "map_ok m \<Longrightarrow> ws_masks_ok m \<Longrightarrow> distinct (map fst ps) \<Longrightarrow> map_of ps k = Some p \<Longrightarrow> wp_session p \<Longrightarrow>
    last_sent k sent = ws_view p m \<Longrightarrow> ws_run ps m ups = (m', out) \<Longrightarrow> last_sent k (sent @ out) = ws_view p m'"
proof (induction ups arbitrary: m sent m' out)
  case (Cons u ups)
  obtain i v where u: "u = (i, v)" by (cases u)
  let ?m = "fst (ws_update ps m i v)"
  let ?s = "ws_entry m i"
  let ?sent = "sent @ snd (ws_update ps m i v)"
  have ok: "map_ok ?m" "ws_masks_ok ?m"
    using ws_update_map [OF Cons.prems(1)] masks_ok_update [OF Cons.prems(1,2)] by simp_all
  have new: "map_of ?m i = Some (?s\<lparr> ws_value := v \<rparr>)" "\<And>j. j \<noteq> i \<Longrightarrow> map_of ?m j = map_of m j"
    using ws_update_map(2) [OF Cons.prems(1), of ps i v] by simp_all
  have vis: "ws_visible p (?s\<lparr> ws_value := v \<rparr>) = ws_admits (ws_zone ?s) (ws_faction ?s) p"
    using visible_admits [OF ok(2) new(1) Cons.prems(5)] by simp
  have old: "ws_view p m i = None" if "\<not> ws_admits (ws_zone ?s) (ws_faction ?s) p"
    using that visible_admits [OF Cons.prems(2) _ Cons.prems(5), of i]
    by (auto simp: ws_view_def ws_entry_def split: option.splits)
  have "last_sent k ?sent j = ws_view p ?m j" for j
    using vis new old Cons.prems(6) last_sent_update [OF Cons.prems(1,3,4), of i v]
    by (cases "j = i") (auto simp: ws_view_def last_sent_append map_add_def split: option.split)
  then have step: "last_sent k ?sent = ws_view p ?m" by (rule ext)
  obtain rest where run: "ws_run ps ?m ups = (m', rest)" "out = snd (ws_update ps m i v) @ rest"
    using Cons.prems(7) by (auto simp: u Let_def split: prod.splits)
  from Cons.IH [OF ok Cons.prems(3-5) step run(1)] run(2) show ?case by simp
qed simp

text \<open>
  C30. Players are told the truth: take a player who stays on the map, in its zone and on its side, and who is sent the
  packet of all world states. After any run of updates, the last value sent to it for a state is the value that state
  has now, for every state its faction and zone admit, and it was sent nothing for any other state. The count in the
  packet of all states is the number of pairs behind it, if the map has fewer than 65536 states.
\<close>

theorem ws_players_told:
  assumes "map_ok m" "ws_masks_ok m" "distinct (map fst ps)" "map_of ps k = Some p" "wp_session p" "length m < 2 ^ 16"
    and run: "ws_run ps m ups = (m', out)"
  shows "last_sent k ((k, ws_send_all map_id p m) # out) = ws_view p m' \<and>
    (\<exists>c. snd (ws_send_all map_id p m) ! 3 = U16 c \<and> unat c = length (packet_pairs (ws_send_all map_id p m)))"
proof -
  have pairs: "packet_pairs (ws_send_all map_id p m) = ws_pairs p m"
    by (simp add: packet_pairs_def ws_send_all_def ws_parse_concat)
  have dist: "distinct (map fst (ws_pairs p m))"
  proof -
    have "map fst (ws_pairs p m) = map fst (filter (\<lambda>(i, s). ws_visible p s) m)"
      by (simp add: ws_pairs_def split_beta)
    moreover have "distinct (map fst m)" using assms(1) by (simp add: map_ok_def strict_sorted_iff)
    ultimately show ?thesis by (simp add: distinct_map_filter)
  qed
  have start: "last_sent k [(k, ws_send_all map_id p m)] = ws_view p m"
    using map_of_ws_pairs [OF assms(1), of p] map_of_rev_distinct [OF dist]
    by (simp add: last_sent_def sent_to_def pairs)
  have "length (ws_pairs p m) < 2 ^ 16"
    using assms(6) le_less_trans [OF length_filter_le] by (simp add: ws_pairs_def)
  then have "unat (of_nat (length (ws_pairs p m)) :: u16) = length (ws_pairs p m)"
    by (simp add: unat_of_nat)
  then show ?thesis
    using ws_run_told [OF assms(1-5) start run] by (simp add: pairs) (simp add: ws_send_all_def)
qed

theorem ws_players_told_witness:
  "(let p = \<lparr> wp_session = True, wp_zone = 7, wp_area = 0, wp_team = 1 \<rparr>;
        m = ws_create (ws_create [] 5 1 (-1) (-1)) 6 2 0 (-1);
        out = snd (ws_run [(3, p)] m [(5, 9), (6, 8)])
    in last_sent 3 ((3, ws_send_all 529 p m) # out) 5 = Some 9 \<and> last_sent 3 ((3, ws_send_all 529 p m) # out) 6 = None)"
proof -
  define p where "p = \<lparr> wp_session = True, wp_zone = 7, wp_area = 0, wp_team = 1 \<rparr>"
  define m where "m = ws_create (ws_create [] 5 1 (-1) (-1)) 6 2 0 (-1)"
  obtain m' out where run: "ws_run [(3, p)] m [(5, 9), (6, 8)] = (m', out)" by (cases "ws_run [(3, p)] m [(5, 9), (6, 8)]")
  have ok: "map_ok m" by (simp add: m_def)
  have m: "map_of m = [5 \<mapsto> \<lparr> ws_faction = -1, ws_zone = -1, ws_value = 1 \<rparr>,
      6 \<mapsto> \<lparr> ws_faction = 0, ws_zone = -1, ws_value = 2 \<rparr>]" by (simp add: m_def)
  have len: "length m < 2 ^ 16" by (simp add: m_def ws_create_def)
  have "ws_masks_ok m" unfolding masks_ok_iff [OF ok] m by auto
  then have s: "last_sent 3 ((3, ws_send_all 529 p m) # out) = ws_view p m'"
    using ws_players_told [OF ok _ _ _ _ len run, of 3 p 529] by (simp add: p_def)
  have "m' = fst (ws_update [(3, p)] (fst (ws_update [(3, p)] m 5 9)) 6 8)"
    using run by (simp add: Let_def split_beta)
  then have "map_of m' = (map_of m)(5 \<mapsto> \<lparr> ws_faction = -1, ws_zone = -1, ws_value = 9 \<rparr>,
      6 \<mapsto> \<lparr> ws_faction = 0, ws_zone = -1, ws_value = 8 \<rparr>)"
    using ok ws_update_map [of "fst (ws_update [(3, p)] m 5 9)" "[(3, p)]" 6 8]
    by (simp add: ws_update_map ws_entry_def m)
  with s have "last_sent 3 ((3, ws_send_all 529 p m) # out) 5 = Some 9 \<and> last_sent 3 ((3, ws_send_all 529 p m) # out) 6 = None"
    by (simp add: ws_view_def ws_visible_def p_def FACTION_MASK_ALL_def ZONE_MASK_ALL_def)
  with run show ?thesis by (simp add: p_def m_def Let_def)
qed

end
