(* ===== verification/HS_Battleground.thy ===== *)
theory HS_Battleground
  imports HS_Timers HS_WorldStates Complex_Main
begin

text \<open>
  What every battleground shares (class \<open>CBattleground\<close> of \<open>BattlegroundMgr.cpp\<close>): the countdown,
  the spirit guides with the players queued at them, the score updates and the closing timer.
  The players in the battleground, their positions, the clock and the client databases belong to
  other parts of the server: each call reads them from its environment. What a call does to them
  (spells, sounds, chat, packets, teleports) is a list of effects in the order the code causes them.
\<close>

section \<open>State\<close>

datatype bg_team = Alliance | Horde

definition other_team :: "bg_team \<Rightarrow> bg_team" where
  "other_team t = (case t of Alliance \<Rightarrow> Horde | Horde \<Rightarrow> Alliance)"

definition team_id :: "bg_team \<Rightarrow> u32" where
  "team_id t = (case t of Alliance \<Rightarrow> 0 | Horde \<Rightarrow> 1)"

lemma all_teams: "(\<forall>t. P t) \<longleftrightarrow> P Alliance \<and> P Horde"
  by (metis bg_team.exhaust)

lemma other_team_neq [simp]: "other_team t \<noteq> t" "t \<noteq> other_team t" "other_team (other_team t) = t"
  by (cases t; simp add: other_team_def)+

lemma team_neq: "t \<noteq> t' \<longleftrightarrow> t' = other_team t"
  by (cases t; cases t'; simp add: other_team_def)

record bg_player =
  bp_guid :: u32
  bp_team :: bg_team
  bp_dead :: bool
  bp_flag2 :: bool
  bp_ineligible :: bool

text \<open>
  The environment of a call: \<open>UNIXTIME\<close>, the players of each team in the order of their set, the
  players of the map with their zones, \<open>GetPlayer\<close>, the squared distance of a player to a guide
  and to a control point's graveyard, the game object table, the creature \<open>SpawnSpiritGuide\<close> creates
  (none when its template is missing), and the number \<open>RandomUInt(2)\<close> returns.
\<close>

record go_info =
  gi_id :: u32
  gi_type :: u32
  gi_display :: u32
  gi_sound3 :: u32

record bg_env =
  env_now :: int
  env_players :: "bg_team \<Rightarrow> bg_player list"
  env_map :: "(nat \<times> ws_player) list"
  env_find :: "u32 \<Rightarrow> bg_player option"
  env_dist :: "u32 \<Rightarrow> nat \<Rightarrow> rat"
  env_gy :: "u32 \<Rightarrow> nat \<Rightarrow> rat"
  env_go :: "u32 \<Rightarrow> go_info option"
  env_guide :: "nat option"
  env_rand :: nat

datatype bg_msg =
    MsgOneMinute | MsgThirty | MsgFifteen | MsgBegun
  | MsgNearing bg_team u32
  | MsgTaken bg_team nat
  | MsgDefended nat
  | MsgClaims nat bg_team
  | MsgCheating u32

datatype gy_dest = BaseGY bg_team | PointGY nat

datatype bg_fx =
    FxChat u32 u32 bg_msg
  | FxSound u32
  | FxState nat packet
  | FxPvPData
  | FxCast u32 u32
  | FxRemoveAura u32 u32
  | FxSpiritHealer u32 nat
  | FxResurrect u32
  | FxDespawn nat
  | FxTeleport u32 gy_dest
  | FxDisconnect u32
  | FxRoot u32
  | FxHonor u32 int
  | FxWin u32 u32
  | FxScore u32 string
  | FxOpenGate u32
  | FxRemovePlayer u32
  | FxTerminate

record 'c bg_state =
  bg_started :: bool
  bg_ended :: bool
  bg_losing :: u8
  bg_next_pvp :: int
  bg_stage :: u32
  bg_group :: u32
  bg_resurrect :: "(nat \<times> u32 list) list"
  bg_last_resurrect :: u32
  bg_timers :: "'c timer list"
  bg_states :: ws_map
  bg_out :: "bg_fx list"

definition CHAT_MSG_BG_SYSTEM_NEUTRAL :: u32 where "CHAT_MSG_BG_SYSTEM_NEUTRAL = 36"
definition CHAT_MSG_BG_SYSTEM_ALLIANCE :: u32 where "CHAT_MSG_BG_SYSTEM_ALLIANCE = 37"
definition CHAT_MSG_BG_SYSTEM_HORDE :: u32 where "CHAT_MSG_BG_SYSTEM_HORDE = 38"

definition EVENT_BATTLEGROUNDMGR_QUEUE_UPDATE :: u32 where "EVENT_BATTLEGROUNDMGR_QUEUE_UPDATE = 134"
definition EVENT_BATTLEGROUND_COUNTDOWN :: u32 where "EVENT_BATTLEGROUND_COUNTDOWN = 139"
definition EVENT_BATTLEGROUND_CLOSE :: u32 where "EVENT_BATTLEGROUND_CLOSE = 140"

definition BG_PREPARATION :: u32 where "BG_PREPARATION = 44521"
definition BG_REVIVE_PREPARATION :: u32 where "BG_REVIVE_PREPARATION = 44535"

definition GetLevelGrouping :: "u32 \<Rightarrow> u32" where
  "GetLevelGrouping level =
     (if level < 10 then 0 else if level < 20 then 1 else if level < 30 then 2 else if level < 40 then 3
      else if level < 50 then 4 else if level < 60 then 5 else if level < 70 then 6 else if level < 80 then 7 else 8)"

section \<open>Effects\<close>

definition bg_emit :: "bg_fx list \<Rightarrow> ('c, 'z) bg_state_scheme \<Rightarrow> ('c, 'z) bg_state_scheme" where
  "bg_emit fx s = s\<lparr> bg_out := bg_out s @ fx \<rparr>"

definition bg_set_timers :: "('c timer list \<Rightarrow> 'c timer list) \<Rightarrow> ('c, 'z) bg_state_scheme \<Rightarrow> ('c, 'z) bg_state_scheme" where
  "bg_set_timers f s = s\<lparr> bg_timers := f (bg_timers s) \<rparr>"

definition bg_world_state :: "bg_env \<Rightarrow> u32 \<Rightarrow> u32 \<Rightarrow> ('c, 'z) bg_state_scheme \<Rightarrow> ('c, 'z) bg_state_scheme" where
  "bg_world_state e i v s =
     (let (m, out) = ws_update (env_map e) (bg_states s) i v
      in bg_emit (map (\<lambda>(k, pkt). FxState k pkt) out) (s\<lparr> bg_states := m \<rparr>))"

text \<open>\<open>UpdatePvPData\<close> of a battleground that is not an arena: at most every two seconds.\<close>

definition bg_update_pvp :: "bg_env \<Rightarrow> ('c, 'z) bg_state_scheme \<Rightarrow> ('c, 'z) bg_state_scheme" where
  "bg_update_pvp e s = (if bg_next_pvp s \<le> env_now e
     then bg_emit [FxPvPData] (s\<lparr> bg_next_pvp := env_now e + 2 \<rparr>) else s)"

section \<open>Spirit guides\<close>

definition bg_add_guide :: "nat option \<Rightarrow> ('c, 'z) bg_state_scheme \<Rightarrow> ('c, 'z) bg_state_scheme" where
  "bg_add_guide g s = (case g of None \<Rightarrow> s | Some g \<Rightarrow> s\<lparr> bg_resurrect := map_insert g [] (bg_resurrect s) \<rparr>)"

definition bg_remove_guide :: "nat \<Rightarrow> ('c, 'z) bg_state_scheme \<Rightarrow> ('c, 'z) bg_state_scheme" where
  "bg_remove_guide g s = s\<lparr> bg_resurrect := map_erase g (bg_resurrect s) \<rparr>"

definition bg_join_guide :: "u32 \<Rightarrow> nat \<Rightarrow> ('c, 'z) bg_state_scheme \<Rightarrow> ('c, 'z) bg_state_scheme" where
  "bg_join_guide pid g s = bg_emit [FxSpiritHealer pid g, FxCast pid 2584]
     (s\<lparr> bg_resurrect := map_adjust g (insort_insert pid) (bg_resurrect s) \<rparr>)"

definition bg_queue_resurrect :: "u32 \<Rightarrow> nat \<Rightarrow> ('c, 'z) bg_state_scheme \<Rightarrow> ('c, 'z) bg_state_scheme" where
  "bg_queue_resurrect pid g s = (if map_of (bg_resurrect s) g = None then s else bg_join_guide pid g s)"

definition bg_leave_guide :: "u32 \<Rightarrow> nat \<Rightarrow> ('c, 'z) bg_state_scheme \<Rightarrow> ('c, 'z) bg_state_scheme" where
  "bg_leave_guide pid g s = bg_emit [FxSpiritHealer pid 0]
     (s\<lparr> bg_resurrect := map_adjust g (set_erase pid) (bg_resurrect s) \<rparr>)"

text \<open>
  \<open>QueueAtNearestSpiritGuide\<close>: the loop compares with the running minimum, but what it stores as the
  distance of a guide is the truth value of a first comparison.
\<close>

definition qn_step :: "(nat \<Rightarrow> rat) \<Rightarrow> nat \<Rightarrow> nat \<Rightarrow> rat \<times> nat option \<Rightarrow> rat \<times> nat option" where
  "qn_step d old g = (\<lambda>(dist, cl).
     if g = old then (dist, cl)
     else let dd = (if d g < dist then 1 else 0) in if dd < dist then (dd, Some g) else (dist, cl))"

definition qn_choose :: "(nat \<Rightarrow> rat) \<Rightarrow> nat \<Rightarrow> nat list \<Rightarrow> nat option" where
  "qn_choose d old gs = snd (fold (qn_step d old) gs (999999, None))"

definition bg_queue_nearest :: "bg_env \<Rightarrow> u32 \<Rightarrow> nat \<Rightarrow> ('c, 'z) bg_state_scheme \<Rightarrow> ('c, 'z) bg_state_scheme" where
  "bg_queue_nearest e pid old s = (case qn_choose (env_dist e pid) old (map fst (bg_resurrect s)) of
     None \<Rightarrow> s | Some g \<Rightarrow> bg_join_guide pid g s)"

text \<open>\<open>EventResurrectPlayers\<close>: everybody queued who is on the map and dead; all queues are emptied.\<close>

definition bg_resurrect_one :: "bg_env \<Rightarrow> u32 \<Rightarrow> bg_fx list" where
  "bg_resurrect_one e pid = (case env_find e pid of
     Some p \<Rightarrow> if bp_dead p then [FxResurrect pid, FxCast pid BG_REVIVE_PREPARATION] else []
   | None \<Rightarrow> [])"

definition bg_resurrect_players :: "bg_env \<Rightarrow> ('c, 'z) bg_state_scheme \<Rightarrow> ('c, 'z) bg_state_scheme" where
  "bg_resurrect_players e s =
     (let s1 = bg_emit (concat (map (bg_resurrect_one e) (concat (map snd (bg_resurrect s))))) s
      in s1\<lparr> bg_resurrect := map (\<lambda>(g, pids). (g, [])) (bg_resurrect s1),
             bg_last_resurrect := word_of_int (env_now e) \<rparr>)"

section \<open>Countdown and closing\<close>

text \<open>
  The part of \<open>PortPlayer\<close> that starts the countdown with the first player; the time left of the
  countdown is not part of the timer lists, so \<open>ModifyEventTimeLeft\<close> leaves no trace here.
\<close>

definition bg_start_countdown :: "'c \<Rightarrow> ('c, 'z) bg_state_scheme \<Rightarrow> ('c, 'z) bg_state_scheme" where
  "bg_start_countdown cb s =
     (if bg_ended s then s
      else let s1 = (if bg_stage s = 0
             then bg_set_timers (tm_add cb EVENT_BATTLEGROUND_COUNTDOWN 30000 0) (s\<lparr> bg_stage := 1 \<rparr>) else s)
        in bg_set_timers (tm_remove EVENT_BATTLEGROUND_CLOSE) s1)"

text \<open>\<open>EventCountdown\<close>; the last stage starts the battle through the virtual \<open>OnStart\<close>.\<close>

definition bg_countdown :: "(('c, 'z) bg_state_scheme \<Rightarrow> ('c, 'z) bg_state_scheme) \<Rightarrow>
    ('c, 'z) bg_state_scheme \<Rightarrow> ('c, 'z) bg_state_scheme" where
  "bg_countdown on_start s =
     (let chat = (\<lambda>m. bg_emit [FxChat CHAT_MSG_BG_SYSTEM_NEUTRAL 0 m])
      in if bg_stage s = 1 then chat MsgOneMinute (s\<lparr> bg_stage := 2 \<rparr>)
         else if bg_stage s = 2
         then bg_set_timers (tm_modify EVENT_BATTLEGROUND_COUNTDOWN 15000) (chat MsgThirty (s\<lparr> bg_stage := 3 \<rparr>))
         else if bg_stage s = 3 then chat MsgFifteen (s\<lparr> bg_stage := 4 \<rparr>)
         else on_start (bg_set_timers (tm_remove EVENT_BATTLEGROUND_COUNTDOWN) (chat MsgBegun s)))"

text \<open>The end of \<open>RemovePlayer\<close>: an empty battleground is closed after ten minutes.\<close>

definition bg_idle :: "'c \<Rightarrow> bg_env \<Rightarrow> ('c, 'z) bg_state_scheme \<Rightarrow> ('c, 'z) bg_state_scheme" where
  "bg_idle cb e s = (if \<not> bg_ended s \<and> env_players e Alliance = [] \<and> env_players e Horde = []
     then bg_set_timers (tm_add cb EVENT_BATTLEGROUND_CLOSE 600000 1 \<circ> tm_remove EVENT_BATTLEGROUND_CLOSE) s else s)"

text \<open>\<open>Close\<close>: the players are removed and the map thread is told to stop.\<close>

definition bg_close :: "bg_env \<Rightarrow> ('c, 'z) bg_state_scheme \<Rightarrow> ('c, 'z) bg_state_scheme" where
  "bg_close e s = bg_emit (map (\<lambda>p. FxRemovePlayer (bp_guid p)) (env_players e Alliance @ env_players e Horde) @ [FxTerminate])
     (s\<lparr> bg_ended := True \<rparr>)"

section \<open>Running a timer\<close>

text \<open>
  The holder runs the callback of a due event and then counts its executions: an event whose
  last execution this was is deleted, one with 0 executions left runs for ever.
\<close>

definition tm_spend :: "'c timer \<Rightarrow> 'c timer list \<Rightarrow> 'c timer list" where
  "tm_spend ev ts = (case ev of (t, cb, ms, r) \<Rightarrow>
     if r = 0 \<or> ev \<notin> set ts then ts
     else if r = 1 then remove1 ev ts
     else takeWhile (\<lambda>x. x \<noteq> ev) ts @ (t, cb, ms, r - 1) # tl (dropWhile (\<lambda>x. x \<noteq> ev) ts))"

section \<open>The guide that is chosen\<close>

text \<open>
  What the loop of \<open>QueueAtNearestSpiritGuide\<close> really computes: the first other guide if it is very
  far, else the first later one that is at least a yard away, else the first.
\<close>

definition qn_reference :: "(nat \<Rightarrow> rat) \<Rightarrow> nat \<Rightarrow> nat list \<Rightarrow> nat option" where
  "qn_reference d old gs = (case filter (\<lambda>g. g \<noteq> old) gs of
     [] \<Rightarrow> None
   | g # rest \<Rightarrow> if 999999 \<le> d g then Some g
       else (case filter (\<lambda>g. 1 \<le> d g) rest of [] \<Rightarrow> Some g | h # _ \<Rightarrow> Some h))"

lemma qn_skip: "fold (qn_step d old) gs st = fold (qn_step d old) (filter (\<lambda>g. g \<noteq> old) gs) st"
  by (induction gs arbitrary: st) (auto simp: qn_step_def)

lemma qn_stop: "\<forall>g. 0 \<le> d g \<Longrightarrow> fold (qn_step d old) gs (0, cl) = (0, cl)"
  by (induction gs) (auto simp: qn_step_def not_less)

lemma qn_second:
  "\<forall>g. 0 \<le> d g \<Longrightarrow> old \<notin> set gs \<Longrightarrow> snd (fold (qn_step d old) gs (1, Some c)) =
    (case filter (\<lambda>g. 1 \<le> d g) gs of [] \<Rightarrow> Some c | h # _ \<Rightarrow> Some h)"
proof (induction gs)
  case (Cons g gs)
  have "qn_step d old g (1, Some c) = (if 1 \<le> d g then (0, Some g) else (1, Some c))"
    using Cons.prems(2) by (simp add: qn_step_def)
  with Cons show ?case by (simp add: qn_stop)
qed simp

text \<open>
  C31. The dead are not sent to the nearest guide: whatever the distances, the loop of
  \<open>QueueAtNearestSpiritGuide\<close> chooses the guide of the reference form, the first other one (in the
  order of the table) that is very far, or else the first later one at least a yard away.
\<close>

theorem bg_queue_nearest_choice:
  assumes "\<forall>g. 0 \<le> d g"
  shows "qn_choose d old gs = qn_reference d old gs"
proof (cases "filter (\<lambda>g. g \<noteq> old) gs")
  case Nil
  then show ?thesis by (simp add: qn_choose_def qn_skip [of d old gs] qn_reference_def)
next
  case (Cons g rest)
  then have "g \<noteq> old" "old \<notin> set rest"
    by (metis (mono_tags, lifting) list.set_intros mem_Collect_eq set_filter)+
  then have "qn_step d old g (999999, None) = (if d g < 999999 then 1 else 0, Some g)"
    by (simp add: qn_step_def)
  with Cons assms \<open>old \<notin> set rest\<close> show ?thesis
    by (simp add: qn_choose_def qn_skip [of d old gs] qn_reference_def qn_stop qn_second not_le)
qed

theorem bg_queue_nearest_choice_witness:
  "qn_choose (\<lambda>g. if g = 3 then 50 else 9000) 1 [1, 3, 5] = Some 5"
  using bg_queue_nearest_choice [of "\<lambda>g. if g = 3 then 50 else 9000" 1 "[1, 3, 5]"]
  by (simp add: qn_reference_def)

end
