(* ===== verification/HS_ArathiBasin.thy ===== *)
theory HS_ArathiBasin
  imports HS_Battleground
begin

text \<open>
  Arathi Basin (\<open>ArathiBasin.cpp\<close>, \<open>ArathiBasin.h\<close>): five control points the two teams assault and
  capture, resources that grow with the captured ones, and the end of the game at 2000 resources.
  Arrays indexed by the team or the control point are functions; \<open>-1\<close> in \<open>m_basesOwnedBy\<close> and its
  relatives is \<^term>\<open>None\<close>. Coordinates, rotations and scales are left out. \<open>resourcesToGainBH\<close> is one
  static variable of all instances; here each battleground has its copy \<open>ab_to_gain\<close>, which \<open>SetIsWeekend\<close> sets.
\<close>

section \<open>Tables\<close>

datatype ab_cp = Stable | Farm | Blacksmith | Mine | LumberMill

definition cp_id :: "ab_cp \<Rightarrow> nat" where
  "cp_id cp = (case cp of Stable \<Rightarrow> 0 | Farm \<Rightarrow> 1 | Blacksmith \<Rightarrow> 2 | Mine \<Rightarrow> 3 | LumberMill \<Rightarrow> 4)"

definition cp_of_slot :: "int \<Rightarrow> ab_cp option" where
  "cp_of_slot i = (if i = 0 then Some Stable else if i = 1 then Some Farm else if i = 2 then Some Blacksmith
     else if i = 3 then Some Mine else if i = 4 then Some LumberMill else None)"

datatype ab_spawn = Neutral | Assault bg_team | Controlled bg_team

definition RESOURCES_WARNING_THRESHOLD :: u32 where "RESOURCES_WARNING_THRESHOLD = 1800"
definition RESOURCES_WINVAL :: u32 where "RESOURCES_WINVAL = 2000"
definition AB_BUFF_RESPAWN_TIME :: u32 where "AB_BUFF_RESPAWN_TIME = 90000"

definition buffentrys :: "u32 list" where "buffentrys = [180380, 180362, 180146]"

definition ControlPointGoIds :: "ab_cp \<Rightarrow> ab_spawn \<Rightarrow> u32" where
  "ControlPointGoIds cp ty = (case ty of
     Neutral \<Rightarrow> (case cp of Stable \<Rightarrow> 180087 | Farm \<Rightarrow> 180089 | Blacksmith \<Rightarrow> 180088 | Mine \<Rightarrow> 180091 | LumberMill \<Rightarrow> 180090)
   | Assault t \<Rightarrow> (case t of Alliance \<Rightarrow> 180085 | Horde \<Rightarrow> 180086)
   | Controlled t \<Rightarrow> (case t of Alliance \<Rightarrow> 180076 | Horde \<Rightarrow> 180078))"

definition AssaultFields :: "ab_cp \<Rightarrow> bg_team \<Rightarrow> u32" where
  "AssaultFields cp t = (case t of
     Alliance \<Rightarrow> (case cp of Stable \<Rightarrow> 0x6E9 | Farm \<Rightarrow> 0x6EE | Blacksmith \<Rightarrow> 0x6F8 | Mine \<Rightarrow> 0x6FD | LumberMill \<Rightarrow> 0x702)
   | Horde \<Rightarrow> (case cp of Stable \<Rightarrow> 0x6EA | Farm \<Rightarrow> 0x6EF | Blacksmith \<Rightarrow> 0x6F9 | Mine \<Rightarrow> 0x6FE | LumberMill \<Rightarrow> 0x703))"

definition OwnedFields :: "ab_cp \<Rightarrow> bg_team \<Rightarrow> u32" where
  "OwnedFields cp t = (case t of
     Alliance \<Rightarrow> (case cp of Stable \<Rightarrow> 0x6E7 | Farm \<Rightarrow> 0x6EC | Blacksmith \<Rightarrow> 0x6F6 | Mine \<Rightarrow> 0x6FB | LumberMill \<Rightarrow> 0x700)
   | Horde \<Rightarrow> (case cp of Stable \<Rightarrow> 0x6E8 | Farm \<Rightarrow> 0x6ED | Blacksmith \<Rightarrow> 0x6F7 | Mine \<Rightarrow> 0x6FC | LumberMill \<Rightarrow> 0x701))"

definition NeutralFields :: "ab_cp \<Rightarrow> u32" where
  "NeutralFields cp = (case cp of Stable \<Rightarrow> 0x732 | Farm \<Rightarrow> 0x735 | Blacksmith \<Rightarrow> 0x736 | Mine \<Rightarrow> 0x733 | LumberMill \<Rightarrow> 0x734)"

definition CaptureBaseField :: "bg_team \<Rightarrow> u32" where
  "CaptureBaseField t = (case t of Alliance \<Rightarrow> 0x6F3 | Horde \<Rightarrow> 0x6F2)"

definition resource_fields :: "bg_team \<Rightarrow> u32" where
  "resource_fields t = (case t of Alliance \<Rightarrow> 0x6F0 | Horde \<Rightarrow> 0x6F1)"

definition ResourceUpdateIntervals :: "u32 list" where
  "ResourceUpdateIntervals = [0, 12000, 9000, 6000, 3000, 1000]"

definition PointBonusPerUpdate :: "u32 list" where
  "PointBonusPerUpdate = [0, 10, 10, 10, 10, 30]"

text \<open>The honor by level group: eight entries, an access behind them is undefined.\<close>

definition HonorTable :: "u32 \<Rightarrow> int option" where
  "HonorTable g = (if unat g < 8 then Some ([0, 0, 4, 7, 11, 19, 20, 20] ! unat g) else None)"

definition EV_RESOURCES :: "bg_team \<Rightarrow> u32" where "EV_RESOURCES t = 143 + team_id t"
definition EV_CAPTURE :: "ab_cp \<Rightarrow> u32" where "EV_CAPTURE cp = 145 + of_nat (cp_id cp)"
definition EVENT_AB_RESPAWN_BUFF :: u32 where "EVENT_AB_RESPAWN_BUFF = 150"

section \<open>State\<close>

datatype ab_cb = CbCreate | CbResurrect | CbCountdown | CbClose | CbResources bg_team | CbCapture ab_cp bg_team | CbBuff nat

record ab_go =
  go_guid :: u32
  go_entry :: u32
  go_display :: u32
  go_type :: u8
  go_faction :: u32
  go_slot :: int
  go_in_world :: bool

record ab_state = "ab_cb bg_state" +
  ab_gates :: "ab_go list"
  ab_buffs :: "nat \<Rightarrow> ab_go option"
  ab_points :: "ab_cp \<Rightarrow> ab_go option"
  ab_auras :: "ab_cp \<Rightarrow> ab_go option"
  ab_go_guid :: u32
  ab_nearing :: "bg_team \<Rightarrow> bool"
  ab_resources :: "bg_team \<Rightarrow> u32"
  ab_captured :: "bg_team \<Rightarrow> u32"
  ab_last_honor :: "bg_team \<Rightarrow> u32"
  ab_last_owned :: "ab_cp \<Rightarrow> bg_team option"
  ab_owned :: "ab_cp \<Rightarrow> bg_team option"
  ab_assaulted :: "ab_cp \<Rightarrow> bg_team option"
  ab_virgin :: "ab_cp \<Rightarrow> bool"
  ab_guides :: "ab_cp \<Rightarrow> nat option"
  ab_to_gain :: u32

text \<open>
  The constructor, on the world states \<open>m\<close> that the map was created with, then \<open>Init\<close>, the weekend
  flag and the event of \<open>CreateInstance\<close>.
\<close>

definition ab_new :: "u32 \<Rightarrow> ws_map \<Rightarrow> u32 \<Rightarrow> bg_env \<Rightarrow> ab_state" where
  "ab_new grp m guid e = \<lparr> bg_started = False, bg_ended = False, bg_losing = 0xff, bg_next_pvp = 0, bg_stage = 0,
     bg_group = grp, bg_resurrect = [], bg_last_resurrect = word_of_int (env_now e), bg_timers = [], bg_states = m, bg_out = [],
     ab_gates = [], ab_buffs = (\<lambda>_. None), ab_points = (\<lambda>_. None), ab_auras = (\<lambda>_. None), ab_go_guid = guid,
     ab_nearing = (\<lambda>_. False), ab_resources = (\<lambda>_. 0), ab_captured = (\<lambda>_. 0), ab_last_honor = (\<lambda>_. 0),
     ab_last_owned = (\<lambda>_. None), ab_owned = (\<lambda>_. None), ab_assaulted = (\<lambda>_. None), ab_virgin = (\<lambda>_. True),
     ab_guides = (\<lambda>_. None), ab_to_gain = 330 \<rparr>"

definition ab_set_weekend :: "bool \<Rightarrow> ab_state \<Rightarrow> ab_state" where
  "ab_set_weekend w s = s\<lparr> ab_to_gain := if w then 200 else 330 \<rparr>"

definition ab_create :: "u32 \<Rightarrow> ws_map \<Rightarrow> u32 \<Rightarrow> bool \<Rightarrow> bg_env \<Rightarrow> ab_state" where
  "ab_create grp m guid weekend e =
     bg_set_timers (tm_add CbCreate EVENT_BATTLEGROUNDMGR_QUEUE_UPDATE 1 1)
       (ab_set_weekend weekend
         (bg_set_timers (tm_add CbResurrect EVENT_BATTLEGROUNDMGR_QUEUE_UPDATE 30000 0) (ab_new grp m guid e)))"

section \<open>Game objects\<close>

text \<open>\<open>GenerateGameobjectGuid\<close>, and the same counter in \<open>CreateGameObject\<close>.\<close>

definition next_go_guid :: "u32 \<Rightarrow> u32" where
  "next_go_guid n = and n 0x00FFFFFF + 1"

text \<open>\<open>SpawnGameObject\<close> with \<open>CreateFromProto\<close>: the object is not in the world yet.\<close>

definition spawn_go :: "go_info \<Rightarrow> u32 \<Rightarrow> ab_state \<Rightarrow> ab_go \<times> ab_state" where
  "spawn_go gi faction s = (let n = next_go_guid (ab_go_guid s) in
     (\<lparr> go_guid = n, go_entry = gi_id gi, go_display = gi_display gi, go_type = ucast (gi_type gi), go_faction = faction,
        go_slot = -1, go_in_world = False \<rparr>, s\<lparr> ab_go_guid := n \<rparr>))"

definition point_faction :: "ab_spawn \<Rightarrow> u32" where
  "point_faction ty = (case ty of Neutral \<Rightarrow> 35
     | Assault t \<Rightarrow> (case t of Alliance \<Rightarrow> 2 | Horde \<Rightarrow> 1) | Controlled t \<Rightarrow> (case t of Alliance \<Rightarrow> 2 | Horde \<Rightarrow> 1))"

definition ab_place_point :: "ab_cp \<Rightarrow> ab_spawn \<Rightarrow> go_info \<Rightarrow> ab_state \<Rightarrow> ab_state" where
  "ab_place_point cp ty gi s = (case ab_points s cp of
     None \<Rightarrow> let (go, s1) = spawn_go gi 35 s
       in s1\<lparr> ab_points := (ab_points s1)(cp \<mapsto> go\<lparr> go_type := ucast (gi_type gi), go_display := gi_display gi,
            go_faction := point_faction ty, go_slot := int (cp_id cp), go_in_world := True \<rparr>) \<rparr>
   | Some go \<Rightarrow> let n = next_go_guid (ab_go_guid s)
       in s\<lparr> ab_go_guid := n, ab_points := (ab_points s)(cp \<mapsto> go\<lparr> go_guid := n, go_entry := gi_id gi,
            go_display := gi_display gi, go_type := ucast (gi_type gi), go_faction := point_faction ty, go_in_world := True \<rparr>) \<rparr>)"

definition ab_place_aura :: "ab_cp \<Rightarrow> go_info option \<Rightarrow> ab_state \<Rightarrow> ab_state" where
  "ab_place_aura cp gi s = (case gi of
     None \<Rightarrow> s\<lparr> ab_auras := (ab_auras s)(cp := map_option (\<lambda>go. go\<lparr> go_in_world := False \<rparr>) (ab_auras s cp)) \<rparr>
   | Some gi \<Rightarrow> (case ab_auras s cp of
       None \<Rightarrow> let (go, s1) = spawn_go gi 35 s
         in s1\<lparr> ab_auras := (ab_auras s1)(cp \<mapsto> go\<lparr> go_type := 6, go_slot := int (cp_id cp), go_in_world := True \<rparr>) \<rparr>
     | Some go \<Rightarrow> let n = next_go_guid (ab_go_guid s)
         in s\<lparr> ab_go_guid := n, ab_auras := (ab_auras s)(cp \<mapsto> go\<lparr> go_guid := n, go_entry := gi_id gi,
              go_display := gi_display gi, go_in_world := True \<rparr>) \<rparr>))"

definition SpawnControlPoint :: "bg_env \<Rightarrow> ab_cp \<Rightarrow> ab_spawn \<Rightarrow> ab_state \<Rightarrow> ab_state" where
  "SpawnControlPoint e cp ty s = (case env_go e (ControlPointGoIds cp ty) of
     None \<Rightarrow> s
   | Some gi \<Rightarrow> ab_place_aura cp (if gi_sound3 gi = 0 then None else env_go e (gi_sound3 gi)) (ab_place_point cp ty gi s))"

text \<open>
  \<open>SpawnBuff\<close>. The guid of an existing buff is renewed when its kind changes. A buff number
  is the index of \<open>m_buffs\<close>: stables 0, blacksmith 1, farm 2, lumber mill 3, mine 4.
\<close>

definition SpawnBuff :: "bg_env \<Rightarrow> nat \<Rightarrow> ab_state \<Rightarrow> ab_state option" where
  "SpawnBuff e x s = (if 5 \<le> x \<or> 3 \<le> env_rand e then None
     else let chosen = buffentrys ! env_rand e in
       Some (case env_go e chosen of None \<Rightarrow> s
       | Some gi \<Rightarrow> (case ab_buffs s x of
           None \<Rightarrow> let (go, s1) = spawn_go gi 114 s
             in s1\<lparr> ab_buffs := (ab_buffs s1)(x \<mapsto> go\<lparr> go_type := 6, go_in_world := True \<rparr>) \<rparr>
         | Some go \<Rightarrow> if chosen = go_entry go
             then s\<lparr> ab_buffs := (ab_buffs s)(x \<mapsto> go\<lparr> go_in_world := True \<rparr>) \<rparr>
             else let n = next_go_guid (ab_go_guid s)
               in s\<lparr> ab_go_guid := n, ab_buffs := (ab_buffs s)(x \<mapsto>
                    go\<lparr> go_guid := n, go_entry := chosen, go_in_world := True \<rparr>) \<rparr>)))"

text \<open>
  \<open>OnCreate\<close>: gates (a missing template is a null dereference), control points, buffs, the guides
  of the two bases, and the world states.
\<close>

definition ab_spawn_gate :: "bg_env \<Rightarrow> ab_state \<Rightarrow> u32 \<Rightarrow> ab_state option" where
  "ab_spawn_gate e s entry = do {
     gi \<leftarrow> env_go e entry;
     let (go, s1) = spawn_go gi 114 s;
     Some (s1\<lparr> ab_gates := ab_gates s1 @ [go\<lparr> go_in_world := True \<rparr>] \<rparr>) }"

definition ab_init_states :: "(u32 \<times> u32) list" where
  "ab_init_states = [(0x8D8, 0), (0x8D7, 0), (0x8D6, 0), (0x8D5, 0), (0x8D4, 0), (0x8D3, 0), (0x7A3, 1800), (0x745, 2)] @
     map (\<lambda>cp. (NeutralFields cp, 1)) [Blacksmith, Farm, LumberMill, Mine, Stable] @
     concat (map (\<lambda>cp. [(AssaultFields cp Horde, 0), (AssaultFields cp Alliance, 0), (OwnedFields cp Horde, 0), (OwnedFields cp Alliance, 0)])
       [LumberMill, Mine, Blacksmith]) @
     [(0x6F4, RESOURCES_WINVAL), (CaptureBaseField Alliance, 0), (CaptureBaseField Horde, 0),
      (resource_fields Horde, 0), (resource_fields Alliance, 0)] @
     [(AssaultFields Farm Alliance, 0), (AssaultFields Farm Horde, 0), (OwnedFields Farm Horde, 0), (OwnedFields Farm Alliance, 0),
      (AssaultFields Stable Horde, 0), (AssaultFields Stable Alliance, 0), (OwnedFields Stable Horde, 0), (OwnedFields Stable Alliance, 0)]"

definition ab_create_states :: "ab_state \<Rightarrow> ab_state" where
  "ab_create_states s = s\<lparr> bg_states := fold (\<lambda>(i, v) m. ws_create m i v FACTION_MASK_ALL ZONE_MASK_ALL) ab_init_states (bg_states s) \<rparr>"

definition ab_on_create :: "bg_env \<Rightarrow> nat option \<times> nat option \<Rightarrow> ab_state \<Rightarrow> ab_state option" where
  "ab_on_create e guides s = do {
     s0 \<leftarrow> foldM (ab_spawn_gate e) s [180255, 180256];
     let s1 = fold (\<lambda>cp. SpawnControlPoint e cp Neutral) [Stable, Blacksmith, LumberMill, Mine, Farm] s0;
     s2 \<leftarrow> foldM (\<lambda>s x. SpawnBuff e x s) s1 [0, 1, 3, 4, 2];
     Some (ab_create_states (bg_add_guide (snd guides) (bg_add_guide (fst guides) s2))) }"

definition ab_on_start :: "bg_env \<Rightarrow> ab_state \<Rightarrow> ab_state" where
  "ab_on_start e s = bg_emit (map (\<lambda>p. FxRemoveAura (bp_guid p) BG_PREPARATION) (env_players e Alliance @ env_players e Horde) @
     map (\<lambda>go. FxOpenGate (go_guid go)) (ab_gates s) @ [FxSound 0xD6F]) (s\<lparr> bg_started := True \<rparr>)"

section \<open>Resources\<close>

definition ab_honor :: "ab_state \<Rightarrow> bg_player \<Rightarrow> ab_state option" where
  "ab_honor s p = do { h \<leftarrow> HonorTable (bg_group s); Some (bg_emit [FxHonor (bp_guid p) h] s) }"

text \<open>The end of the game for one player of team \<open>i\<close>: \<open>abs\<close> of the difference as a signed number.\<close>

definition ab_reward :: "bg_team \<Rightarrow> ab_state \<Rightarrow> bg_player \<Rightarrow> ab_state option" where
  "ab_reward i s p =
     (let s1 = bg_emit [FxRoot (bp_guid p)] s
      in if bp_flag2 p then Some s1
         else if ucast (team_id i) = bg_losing s1 then Some (bg_emit [FxCast (bp_guid p) 24952] s1)
         else do {
           s2 \<leftarrow> ab_honor (bg_emit [FxCast (bp_guid p) 24953] s1) p;
           let d = ab_resources s2 i - ab_resources s2 (other_team i);
           Some (bg_emit [FxWin (bp_guid p) (if 0 \<le> sint d then d else - d)] s2) })"

definition ab_win :: "bg_env \<Rightarrow> bg_team \<Rightarrow> ab_state \<Rightarrow> ab_state option" where
  "ab_win e t s = do {
     let s1 = s\<lparr> bg_ended := True, bg_losing := ucast (team_id (other_team t)), bg_next_pvp := 0 \<rparr>;
     let s2 = bg_set_timers (tm_add CbClose EVENT_BATTLEGROUND_CLOSE 120000 1 \<circ> tm_remove EVENT_REMOVAL_FLAG_ALL) s1;
     s3 \<leftarrow> foldM (ab_reward Alliance) s2 (env_players e Alliance);
     foldM (ab_reward Horde) s3 (env_players e Horde) }"

definition system_chat :: "bg_team \<Rightarrow> u32" where
  "system_chat t = (case t of Horde \<Rightarrow> CHAT_MSG_BG_SYSTEM_HORDE | Alliance \<Rightarrow> CHAT_MSG_BG_SYSTEM_ALLIANCE)"

definition ab_near_victory :: "bg_team \<Rightarrow> u32 \<Rightarrow> ab_state \<Rightarrow> ab_state" where
  "ab_near_victory t r s = (if RESOURCES_WARNING_THRESHOLD \<le> r \<and> \<not> ab_nearing s t
     then bg_emit [FxChat (system_chat t) 0 (MsgNearing t r), FxSound (0x2109 - team_id t)]
       (s\<lparr> ab_nearing := (ab_nearing s)(t := True) \<rparr>) else s)"

definition EventUpdateResources :: "bg_env \<Rightarrow> bg_team \<Rightarrow> ab_state \<Rightarrow> ab_state option" where
  "EventUpdateResources e t s =
     (let bases = (if 5 < ab_captured s t then 5 else ab_captured s t);
          sum = ab_resources s t + PointBonusPerUpdate ! unat bases
      in if sum = ab_resources s t then Some s
         else do {
           let r = (if RESOURCES_WINVAL < sum then RESOURCES_WINVAL else sum);
           let s1 = s\<lparr> ab_resources := (ab_resources s)(t := r) \<rparr>;
           s2 \<leftarrow> (if ab_to_gain s1 \<le> r - ab_last_honor s1 t then foldM ab_honor s1 (env_players e t) else Some s1);
           let s3 = bg_world_state e (resource_fields t) r s2;
           let s4 = ab_near_victory t r s3;
           s5 \<leftarrow> (if r = RESOURCES_WINVAL then ab_win e t s4 else Some s4);
           Some (bg_update_pvp e s5) })"

section \<open>Players\<close>

text \<open>\<open>HookHandleRepop\<close>: to the nearest graveyard the team owns, or to that of its base.\<close>

definition ab_repop_dest :: "bg_env \<Rightarrow> bg_player \<Rightarrow> ab_state \<Rightarrow> gy_dest" where
  "ab_repop_dest e p s = snd (fold (\<lambda>cp (dist, dest).
       let d = env_gy e (bp_guid p) (cp_id cp)
       in if ab_owned s cp = Some (bp_team p) \<and> d < dist then (d, PointGY (cp_id cp)) else (dist, dest))
     [Stable, Farm, Blacksmith, Mine, LumberMill] (999999, BaseGY (bp_team p)))"

definition HookHandleRepop :: "bg_env \<Rightarrow> bg_player \<Rightarrow> ab_state \<Rightarrow> ab_state" where
  "HookHandleRepop e p s = bg_emit [FxTeleport (bp_guid p) (ab_repop_dest e p s)] s"

definition ab_on_death :: "bg_env \<Rightarrow> bg_player \<Rightarrow> ab_state \<Rightarrow> ab_state" where
  "ab_on_death e p s = bg_update_pvp e (bg_emit [FxScore (bp_guid p) ''Deaths''] s)"

definition ab_on_kill :: "bg_env \<Rightarrow> bg_player \<Rightarrow> bool \<Rightarrow> ab_state \<Rightarrow> ab_state" where
  "ab_on_kill e p victim_is_player s =
     (if victim_is_player then bg_update_pvp e (bg_emit [FxScore (bp_guid p) ''KillingBlows''] s) else s)"

definition ab_on_hk :: "bg_env \<Rightarrow> bg_player \<Rightarrow> ab_state \<Rightarrow> ab_state" where
  "ab_on_hk e p s = bg_update_pvp e (bg_emit [FxScore (bp_guid p) ''HonorableKills''] s)"

definition ab_on_add :: "bg_player \<Rightarrow> ab_state \<Rightarrow> ab_state" where
  "ab_on_add p s = (if bg_started s then s else bg_emit [FxCast (bp_guid p) BG_PREPARATION] s)"

definition ab_on_remove :: "bg_player \<Rightarrow> ab_state \<Rightarrow> ab_state" where
  "ab_on_remove p s = bg_emit [FxRemoveAura (bp_guid p) BG_PREPARATION] s"

text \<open>\<open>HookOnAreaTrigger\<close>: a buff is taken, or the player leaves through an exit.\<close>

definition buff_of_trigger :: "u32 \<Rightarrow> nat option" where
  "buff_of_trigger i = (if i = 3866 then Some 0 else if i = 3867 then Some 2 else if i = 3870 then Some 1
     else if i = 3869 then Some 4 else if i = 3868 then Some 3 else None)"

definition HookOnAreaTrigger :: "bg_env \<Rightarrow> bg_player \<Rightarrow> u32 \<Rightarrow> ab_state \<Rightarrow> ab_state" where
  "HookOnAreaTrigger e p i s =
     (if i = 3948 \<or> i = 3949 then bg_emit [FxRemovePlayer (bp_guid p)] s
      else case buff_of_trigger i of None \<Rightarrow> s
      | Some x \<Rightarrow> if bp_dead p then s
          else (case ab_buffs s x of None \<Rightarrow> s
            | Some go \<Rightarrow> if \<not> go_in_world go then s
                else let spell = (case env_go e (go_entry go) of None \<Rightarrow> 0 | Some gi \<Rightarrow> gi_sound3 gi)
                  in bg_emit [FxCast (bp_guid p) spell]
                       (bg_set_timers (tm_add (CbBuff x) EVENT_AB_RESPAWN_BUFF AB_BUFF_RESPAWN_TIME 1)
                         (s\<lparr> ab_buffs := (ab_buffs s)(x \<mapsto> go\<lparr> go_in_world := False \<rparr>) \<rparr>))))"

section \<open>Control points\<close>

text \<open>The event that adds resources: started with the first base, its period set with every other.\<close>

definition ab_resource_event :: "bg_team \<Rightarrow> u32 \<Rightarrow> ab_state \<Rightarrow> ab_state" where
  "ab_resource_event t n s = bg_set_timers (if n = 1
     then tm_add (CbResources t) (EV_RESOURCES t) (ResourceUpdateIntervals ! 1) 0
     else tm_modify (EV_RESOURCES t) (ResourceUpdateIntervals ! unat n)) s"

definition CaptureControlPoint :: "bg_env \<Rightarrow> ab_cp \<Rightarrow> bg_team \<Rightarrow> ab_state \<Rightarrow> ab_state option" where
  "CaptureControlPoint e cp t s =
     (if ab_owned s cp \<noteq> None \<or> ab_assaulted s cp \<noteq> Some t then Some s
      else
        let s1 = s\<lparr> ab_last_owned := (ab_last_owned s)(cp \<mapsto> t), ab_virgin := (ab_virgin s)(cp := False),
                    ab_owned := (ab_owned s)(cp \<mapsto> t), ab_assaulted := (ab_assaulted s)(cp := None) \<rparr>;
            s2 = (case ab_guides s1 cp of None \<Rightarrow> s1 | Some g \<Rightarrow> bg_emit [FxDespawn g] (bg_remove_guide g s1));
            s3 = bg_add_guide (env_guide e) (s2\<lparr> ab_guides := (ab_guides s2)(cp := env_guide e) \<rparr>);
            s4 = bg_emit [FxSound (case t of Horde \<Rightarrow> 8213 | Alliance \<Rightarrow> 8173), FxChat (system_chat t) 0 (MsgTaken t (cp_id cp))] s3;
            n = ab_captured s4 t + 1;
            s5 = bg_world_state e (CaptureBaseField t) n (s4\<lparr> ab_captured := (ab_captured s4)(t := n) \<rparr>);
            s6 = SpawnControlPoint e cp (Controlled t) s5;
            s7 = bg_world_state e (OwnedFields cp t) 1 (bg_world_state e (AssaultFields cp t) 0 s6)
        in if 6 \<le> n then None else Some (ab_resource_event t n s7))"

text \<open>
  The parts of \<open>AssaultControlPoint\<close>. The guide of a base that is lost goes, and the dead who
  waited at it are sent elsewhere; \<open>m_resurrectMap.erase\<close> of the end iterator is undefined.
\<close>

definition ab_requeue :: "bg_env \<Rightarrow> nat \<Rightarrow> u32 \<Rightarrow> ab_state \<Rightarrow> ab_state" where
  "ab_requeue e g pid s = (case env_find e pid of
     None \<Rightarrow> s
   | Some p \<Rightarrow> if bp_dead p then bg_queue_nearest e (bp_guid p) g (HookHandleRepop e p s) else s)"

definition ab_lose_guide :: "bg_env \<Rightarrow> ab_cp \<Rightarrow> ab_state \<Rightarrow> ab_state option" where
  "ab_lose_guide e cp s = (case ab_guides s cp of
     None \<Rightarrow> Some s
   | Some g \<Rightarrow> (case map_of (bg_resurrect s) g of
       None \<Rightarrow> None
     | Some pids \<Rightarrow> let s1 = fold (ab_requeue e g) pids s
         in Some (bg_emit [FxDespawn g] ((bg_remove_guide g s1)\<lparr> ab_guides := (ab_guides s1)(cp := None) \<rparr>))))"

definition ab_lose_base :: "bg_env \<Rightarrow> ab_cp \<Rightarrow> bg_team \<Rightarrow> ab_state \<Rightarrow> ab_state option" where
  "ab_lose_base e cp t s = do {
     s1 \<leftarrow> ab_lose_guide e cp (s\<lparr> ab_owned := (ab_owned s)(cp := None) \<rparr>);
     let n = ab_captured s1 t - 1;
     let s2 = bg_world_state e (CaptureBaseField t) n (s1\<lparr> ab_captured := (ab_captured s1)(t := n) \<rparr>);
     let s3 = bg_world_state e (OwnedFields cp t) 0 s2;
     if 6 \<le> n then None
     else Some (bg_set_timers (if n = 0 then tm_remove (EV_RESOURCES t)
       else tm_modify (EV_RESOURCES t) (ResourceUpdateIntervals ! unat n)) s3) }"

text \<open>The flag is back with the team that owned it last.\<close>

definition ab_defend :: "bg_env \<Rightarrow> bg_player \<Rightarrow> ab_cp \<Rightarrow> ab_state \<Rightarrow> ab_state option" where
  "ab_defend e p cp s =
     (let t = bp_team p;
          s1 = bg_world_state e (AssaultFields cp (other_team t)) 0 s;
          s2 = bg_emit [FxChat (system_chat t) (bp_guid p) (MsgDefended (cp_id cp))] (bg_set_timers (tm_remove (EV_CAPTURE cp)) s1)
      in CaptureControlPoint e cp t (s2\<lparr> ab_assaulted := (ab_assaulted s2)(cp \<mapsto> t) \<rparr>))"

definition ab_claim :: "bg_env \<Rightarrow> bg_player \<Rightarrow> ab_cp \<Rightarrow> ab_state \<Rightarrow> ab_state" where
  "ab_claim e p cp s =
     (let t = bp_team p;
          s1 = (case ab_assaulted s cp of None \<Rightarrow> s
            | Some a \<Rightarrow> bg_set_timers (tm_remove (EV_CAPTURE cp)) (bg_world_state e (AssaultFields cp a) 0
                (s\<lparr> ab_assaulted := (ab_assaulted s)(cp \<mapsto> t) \<rparr>)));
          s2 = SpawnControlPoint e cp (Assault t) (s1\<lparr> ab_assaulted := (ab_assaulted s1)(cp \<mapsto> t) \<rparr>);
          s3 = bg_emit [FxChat (system_chat t) (bp_guid p) (MsgClaims (cp_id cp) t),
                        FxSound (case t of Horde \<Rightarrow> 8174 | Alliance \<Rightarrow> 8212)] s2;
          s4 = bg_set_timers (tm_add (CbCapture cp t) (EV_CAPTURE cp) 60000 1) (bg_world_state e (AssaultFields cp t) 1 s3)
      in bg_update_pvp e (bg_emit [FxScore (bp_guid p) ''BasesAssaulted''] s4))"

definition AssaultControlPoint :: "bg_env \<Rightarrow> bg_player \<Rightarrow> ab_cp \<Rightarrow> ab_state \<Rightarrow> ab_state option" where
  "AssaultControlPoint e p cp s =
     (if \<not> bg_started s
      then Some (bg_emit [FxChat CHAT_MSG_BG_SYSTEM_NEUTRAL (bp_guid p) (MsgCheating (bp_guid p)), FxDisconnect (bp_guid p)] s)
      else do {
        let virgin = (ab_owned s cp = None \<and> ab_assaulted s cp = None);
        let s1 = (if virgin then bg_world_state e (NeutralFields cp) 0 s else s);
        s2 \<leftarrow> (case ab_owned s1 cp of None \<Rightarrow> Some s1 | Some t \<Rightarrow> ab_lose_base e cp t s1);
        if \<not> virgin \<and> ab_last_owned s2 cp = Some (bp_team p) \<and> ab_owned s2 cp = None
        then ab_defend e p cp s2 else Some (ab_claim e p cp s2) })"

definition HookSlowLockOpen :: "bg_env \<Rightarrow> bg_player \<Rightarrow> int \<Rightarrow> ab_state \<Rightarrow> (ab_state \<times> bool) option" where
  "HookSlowLockOpen e p slot s =
     (if bp_ineligible p then Some (s, False)
      else case cp_of_slot slot of None \<Rightarrow> Some (s, False)
      | Some cp \<Rightarrow> do { s1 \<leftarrow> AssaultControlPoint e p cp s; Some (s1, True) })"

section \<open>The program\<close>

definition ab_run :: "bg_env \<Rightarrow> nat option \<times> nat option \<Rightarrow> ab_cb \<Rightarrow> ab_state \<Rightarrow> ab_state option" where
  "ab_run e guides cb s = (case cb of
     CbCreate \<Rightarrow> ab_on_create e guides s
   | CbResurrect \<Rightarrow> Some (bg_resurrect_players e s)
   | CbCountdown \<Rightarrow> Some (bg_countdown (ab_on_start e) s)
   | CbClose \<Rightarrow> Some (bg_close e s)
   | CbResources t \<Rightarrow> EventUpdateResources e t s
   | CbCapture cp t \<Rightarrow> CaptureControlPoint e cp t s
   | CbBuff x \<Rightarrow> SpawnBuff e x s)"

definition ab_fire :: "bg_env \<Rightarrow> nat option \<times> nat option \<Rightarrow> ab_cb timer \<Rightarrow> ab_state \<Rightarrow> ab_state option" where
  "ab_fire e guides ev s = do { s1 \<leftarrow> ab_run e guides (fst (snd ev)) s; Some (bg_set_timers (tm_spend ev) s1) }"

text \<open>
  The game runs from its creation: the event \<open>CreateInstance\<close> adds is due after a millisecond,
  before any player can be there. Creatures that are created have addresses of their own. A step
  that would be undefined behaviour has no successor; \<open>ab_defined\<close> below shows that there is
  none for the level groups the honor table covers.
\<close>

definition guides_fresh :: "bg_env \<Rightarrow> ab_state \<Rightarrow> bool" where
  "guides_fresh e s \<longleftrightarrow> (\<forall>g. env_guide e = Some g \<longrightarrow> g \<notin> fst ` set (bg_resurrect s))"

inductive ab_reach :: "u32 \<Rightarrow> ab_state \<Rightarrow> bool" where
  ab_start: "map_ok m \<Longrightarrow>
    ab_fire e guides (EVENT_BATTLEGROUNDMGR_QUEUE_UPDATE, CbCreate, 1, 1) (ab_create grp m guid weekend e) = Some s \<Longrightarrow>
    ab_reach grp s"
| ab_timer: "ab_reach grp s \<Longrightarrow> ev \<in> set (bg_timers s) \<Longrightarrow> guides_fresh e s \<Longrightarrow> ab_fire e guides ev s = Some s' \<Longrightarrow> ab_reach grp s'"
| ab_open: "ab_reach grp s \<Longrightarrow> guides_fresh e s \<Longrightarrow> HookSlowLockOpen e p slot s = Some (s', b) \<Longrightarrow> ab_reach grp s'"
| ab_trigger: "ab_reach grp s \<Longrightarrow> ab_reach grp (HookOnAreaTrigger e p i s)"
| ab_queue: "ab_reach grp s \<Longrightarrow> ab_reach grp (bg_queue_resurrect pid g s)"
| ab_unqueue: "ab_reach grp s \<Longrightarrow> ab_reach grp (bg_leave_guide pid g s)"
| ab_repop: "ab_reach grp s \<Longrightarrow> ab_reach grp (HookHandleRepop e p s)"
| ab_score: "ab_reach grp s \<Longrightarrow> s' \<in> {ab_on_death e p s, ab_on_kill e p v s, ab_on_hk e p s} \<Longrightarrow> ab_reach grp s'"
| ab_enter: "ab_reach grp s \<Longrightarrow> ab_reach grp (ab_on_add p (bg_start_countdown CbCountdown s))"
| ab_leave: "ab_reach grp s \<Longrightarrow> ab_reach grp (bg_idle CbClose e (ab_on_remove p s))"
| ab_weekend: "ab_reach grp s \<Longrightarrow> ab_reach grp (ab_set_weekend w s)"

end
