(* ===== verification/HS_ArathiRules.thy ===== *)
theory HS_ArathiRules
  imports HS_ArathiBasin
begin

text \<open>
  The rules of Arathi Basin as a small abstract game over its five control points, and the proof that
  every operation of \<open>HS_ArathiBasin\<close> keeps the counters, the display and the timers in order and moves
  the abstract game the way its rules say. The assault of a point is cut where the code changes
  hands: losing the point, then defending or claiming it.
\<close>

section \<open>What the operations leave alone\<close>

definition ab_core where
  "ab_core s = (bg_started s, bg_ended s, bg_group s, bg_timers s, ab_captured s, ab_resources s, ab_last_honor s,
     ab_last_owned s, ab_owned s, ab_assaulted s, ab_guides s, ab_to_gain s)" for s :: ab_state

definition ab_frame where "ab_frame s = (ab_core s, bg_resurrect s, bg_states s)" for s

lemmas frame_defs = ab_frame_def ab_core_def

lemma frame_emit: "ab_frame (bg_emit fx s) = ab_frame s" by (simp add: frame_defs bg_emit_def)
lemma frame_update_pvp: "ab_frame (bg_update_pvp e s) = ab_frame s"
  by (simp add: frame_defs bg_emit_def bg_update_pvp_def)
lemma frame_spawn_point: "ab_frame (SpawnControlPoint e cp ty s) = ab_frame s"
  by (auto simp: frame_defs SpawnControlPoint_def ab_place_aura_def ab_place_point_def spawn_go_def Let_def split: option.split)
lemma frame_near: "ab_frame (ab_near_victory t r s) = ab_frame s"
  by (auto simp: frame_defs ab_near_victory_def bg_emit_def)
lemma frame_repop: "ab_frame (HookHandleRepop e p s) = ab_frame s" by (simp add: HookHandleRepop_def frame_emit)
lemma core_world_state: "ab_core (bg_world_state e i v s) = ab_core s"
  by (simp add: ab_core_def bg_world_state_def bg_emit_def split_beta Let_def)
lemma core_join_guide: "ab_core (bg_join_guide pid g s) = ab_core s"
  by (simp add: ab_core_def bg_join_guide_def bg_emit_def)
lemma core_queue_nearest: "ab_core (bg_queue_nearest e pid g s) = ab_core s"
  by (simp add: bg_queue_nearest_def core_join_guide split: option.split)

lemmas frame_sel [simp] = frame_emit [unfolded frame_defs prod.inject] frame_update_pvp [unfolded frame_defs prod.inject]
  frame_spawn_point [unfolded frame_defs prod.inject] frame_near [unfolded frame_defs prod.inject]
  frame_repop [unfolded frame_defs prod.inject] core_world_state [unfolded ab_core_def prod.inject]
  core_join_guide [unfolded ab_core_def prod.inject] core_queue_nearest [unfolded ab_core_def prod.inject]

lemma world_state_sel [simp]:
  "bg_resurrect (bg_world_state e i v s) = bg_resurrect s"
  "bg_states (bg_world_state e i v s) = fst (ws_update (env_map e) (bg_states s) i v)"
  by (simp_all add: bg_world_state_def bg_emit_def split_beta Let_def)

lemma set_timers_sel [simp]:
  "ab_core (bg_set_timers f s) = ab_core (s\<lparr> bg_timers := f (bg_timers s) \<rparr>)"
  "bg_timers (bg_set_timers f s) = f (bg_timers s)" "bg_resurrect (bg_set_timers f s) = bg_resurrect s"
  "bg_states (bg_set_timers f s) = bg_states s"
  by (simp_all add: bg_set_timers_def)

lemmas [simp] = set_timers_sel(1) [unfolded ab_core_def prod.inject]

lemma guide_keys [simp]:
  "map fst (bg_resurrect (bg_join_guide pid g s)) = map fst (bg_resurrect s)"
  "map fst (bg_resurrect (bg_queue_nearest e pid g s)) = map fst (bg_resurrect s)"
  by (simp_all add: bg_queue_nearest_def bg_join_guide_def bg_emit_def split: option.split)

section \<open>The abstract game\<close>

text \<open>
  What a control point is to the players: unclaimed, contested by a team (with the last owner), or
  held. \<open>base_assault\<close> and \<open>base_expire\<close> are the rules of the game for one control point: a click by a
  player of a team, and the end of the minute a contested point takes.
\<close>

datatype base_state = Unclaimed | Contested bg_team "bg_team option" | Held bg_team

fun base_assault :: "bg_team \<Rightarrow> base_state \<Rightarrow> base_state" where
  "base_assault t Unclaimed = Contested t None"
| "base_assault t (Contested a lo) = (if lo = Some t then Held t else Contested t lo)"
| "base_assault t (Held o') = (if o' = t then Held t else Contested t (Some o'))"

fun base_expire :: "bg_team \<Rightarrow> base_state \<Rightarrow> base_state" where
  "base_expire t (Contested a lo) = (if a = t then Held t else Contested a lo)"
| "base_expire t b = b"

definition base_of :: "bg_team option \<Rightarrow> bg_team option \<Rightarrow> bg_team option \<Rightarrow> base_state" where
  "base_of own assaulted lo = (case own of Some t \<Rightarrow> Held t
     | None \<Rightarrow> (case assaulted of Some a \<Rightarrow> Contested a lo | None \<Rightarrow> Unclaimed))"

definition ab_base :: "ab_state \<Rightarrow> ab_cp \<Rightarrow> base_state" where
  "ab_base s cp = base_of (ab_owned s cp) (ab_assaulted s cp) (ab_last_owned s cp)"

fun base_ok :: "bg_team option \<Rightarrow> bg_team option \<Rightarrow> bg_team option \<Rightarrow> bool" where
  "base_ok (Some t) a lo \<longleftrightarrow> a = None \<and> lo = Some t"
| "base_ok None (Some a) lo \<longleftrightarrow> lo \<noteq> Some a"
| "base_ok None None lo \<longleftrightarrow> lo = None"

lemma base_of_eq [simp]:
  "base_of own a lo = Held t \<longleftrightarrow> own = Some t"
  "base_of own a lo = Contested t l \<longleftrightarrow> own = None \<and> a = Some t \<and> lo = l"
  "base_of own a lo = Unclaimed \<longleftrightarrow> own = None \<and> a = None"
  by (auto simp: base_of_def split: option.split)

lemma base_of_simps [simp]:
  "base_of (Some t) a lo = Held t" "base_of None (Some u) lo = Contested u lo" "base_of None None lo = Unclaimed"
  by (simp_all add: base_of_def)

text \<open>What the display and the timers show for a given map of control points.\<close>

definition held :: "(ab_cp \<Rightarrow> base_state) \<Rightarrow> bg_team \<Rightarrow> nat" where
  "held b t = card {cp. b cp = Held t}"

definition capture_timers :: "base_state \<Rightarrow> ab_cp \<Rightarrow> ab_cb timer list" where
  "capture_timers b cp = (case b of Contested a lo \<Rightarrow> [(EV_CAPTURE cp, CbCapture cp a, 60000, 1)] | _ \<Rightarrow> [])"

definition resource_timers :: "nat \<Rightarrow> bg_team \<Rightarrow> ab_cb timer list" where
  "resource_timers n t = (if n = 0 then [] else [(EV_RESOURCES t, CbResources t, uint (ResourceUpdateIntervals ! n), 0)])"

definition timers_shown :: "(ab_cp \<Rightarrow> base_state) \<Rightarrow> ab_cb timer list \<Rightarrow> bool" where
  "timers_shown b ts \<longleftrightarrow> (\<forall>cp. tm_of (EV_CAPTURE cp) ts = capture_timers (b cp) cp) \<and>
     (\<forall>t. tm_of (EV_RESOURCES t) ts = resource_timers (held b t) t)"

definition base_shown :: "base_state \<Rightarrow> ab_cp \<Rightarrow> ws_map \<Rightarrow> bool" where
  "base_shown b cp m \<longleftrightarrow> ws_get m (NeutralFields cp) = Some (if b = Unclaimed then 1 else 0) \<and>
     (\<forall>t. ws_get m (OwnedFields cp t) = Some (if b = Held t then 1 else 0) \<and>
          ws_get m (AssaultFields cp t) = Some (if \<exists>lo. b = Contested t lo then 1 else 0))"

definition states_shown :: "(ab_cp \<Rightarrow> base_state) \<Rightarrow> (bg_team \<Rightarrow> u32) \<Rightarrow> ws_map \<Rightarrow> bool" where
  "states_shown b res m \<longleftrightarrow> (\<forall>cp. base_shown (b cp) cp m) \<and>
     (\<forall>t. ws_get m (CaptureBaseField t) = Some (of_nat (held b t)) \<and> ws_get m (resource_fields t) = Some (res t))"

text \<open>Every timer runs its own callback under its own type; the creation is over.\<close>

fun timer_ok :: "ab_cb timer \<Rightarrow> bool" where
  "timer_ok (k, CbCreate, ms, r) \<longleftrightarrow> False"
| "timer_ok (k, CbResurrect, ms, r) \<longleftrightarrow> k = EVENT_BATTLEGROUNDMGR_QUEUE_UPDATE \<and> r = 0"
| "timer_ok (k, CbCountdown, ms, r) \<longleftrightarrow> k = EVENT_BATTLEGROUND_COUNTDOWN \<and> r = 0"
| "timer_ok (k, CbClose, ms, r) \<longleftrightarrow> k = EVENT_BATTLEGROUND_CLOSE \<and> r = 1"
| "timer_ok (k, CbResources t, ms, r) \<longleftrightarrow> k = EV_RESOURCES t \<and> r = 0"
| "timer_ok (k, CbCapture cp t, ms, r) \<longleftrightarrow> k = EV_CAPTURE cp \<and> ms = 60000 \<and> r = 1"
| "timer_ok (k, CbBuff x, ms, r) \<longleftrightarrow> k = EVENT_AB_RESPAWN_BUFF \<and> r = 1 \<and> x < 5"

definition timers_ok :: "ab_cb timer list \<Rightarrow> bool" where
  "timers_ok ts \<longleftrightarrow> sorted (map fst ts) \<and> (\<forall>ev \<in> set ts. timer_ok ev)"

definition guides_ok :: "ab_state \<Rightarrow> bool" where
  "guides_ok s \<longleftrightarrow> (\<forall>cp g. ab_guides s cp = Some g \<longrightarrow> ab_owned s cp \<noteq> None \<and> g \<in> set (map fst (bg_resurrect s))) \<and>
     (\<forall>cp cp' g. ab_guides s cp = Some g \<longrightarrow> ab_guides s cp' = Some g \<longrightarrow> cp = cp')"

definition ab_ok :: "ab_state \<Rightarrow> bool" where
  "ab_ok s \<longleftrightarrow> timers_ok (bg_timers s) \<and> map_ok (bg_states s) \<and>
     (\<forall>cp. base_ok (ab_owned s cp) (ab_assaulted s cp) (ab_last_owned s cp)) \<and>
     (\<forall>t. ab_captured s t = of_nat (held (ab_base s) t)) \<and>
     states_shown (ab_base s) (ab_resources s) (bg_states s) \<and>
     (\<not> bg_ended s \<longrightarrow> timers_shown (ab_base s) (bg_timers s)) \<and>
     guides_ok s \<and> (\<forall>t. ab_last_honor s t = 0 \<and> ab_resources s t \<le> 2000 \<and> (ab_resources s t = 2000 \<longrightarrow> bg_ended s))"

section \<open>Counting and fields\<close>

lemma finite_cps [simp]: "finite (A :: ab_cp set)"
proof (rule finite_subset [OF _ finite.insertI [OF finite.insertI [OF finite.insertI [OF finite.insertI [OF finite.insertI [OF finite.emptyI]]]]]])
  show "A \<subseteq> {Stable, Farm, Blacksmith, Mine, LumberMill}" by (auto intro: ab_cp.exhaust)
qed

lemma held_le: "held b t \<le> 5"
proof -
  have "{cp. b cp = Held t} \<subseteq> {Stable, Farm, Blacksmith, Mine, LumberMill}" by (auto intro: ab_cp.exhaust)
  then have "held b t \<le> card {Stable, Farm, Blacksmith, Mine, LumberMill}" unfolding held_def by (rule card_mono [rotated]) simp
  then show ?thesis by simp
qed

lemma held_upd: "held (b(cp := x)) t = (if x = Held t then (if b cp = Held t then held b t else Suc (held b t))
    else if b cp = Held t then held b t - 1 else held b t)"
proof -
  have s: "{c. (b(cp := x)) c = Held t} = (if x = Held t then insert cp {c. b c = Held t} else {c. b c = Held t} - {cp})" by auto
  show ?thesis unfolding held_def s by (auto simp: card_insert_if card_Diff_singleton_if insert_absorb)
qed

lemma held_pos: "b cp = Held t \<Longrightarrow> 0 < held b t"
  unfolding held_def by (auto simp: card_gt_0_iff)

lemma event_types [simp]:
  "EV_CAPTURE cp \<noteq> EV_RESOURCES t" "EV_RESOURCES t \<noteq> EV_CAPTURE cp"
  "EV_CAPTURE cp = EV_CAPTURE cp' \<longleftrightarrow> cp = cp'" "EV_RESOURCES t = EV_RESOURCES t' \<longleftrightarrow> t = t'"
  "EV_CAPTURE cp \<noteq> EVENT_REMOVAL_FLAG_ALL" "EV_RESOURCES t \<noteq> EVENT_REMOVAL_FLAG_ALL"
  by (cases cp; cases cp'; cases t; cases t';
      simp add: EV_CAPTURE_def EV_RESOURCES_def cp_id_def team_id_def EVENT_REMOVAL_FLAG_ALL_def)+

text \<open>The other timers of a battleground have types of their own.\<close>

lemma other_types [simp]:
  "EVENT_BATTLEGROUND_COUNTDOWN \<noteq> EV_CAPTURE cp" "EVENT_BATTLEGROUND_COUNTDOWN \<noteq> EV_RESOURCES t"
  "EVENT_BATTLEGROUND_CLOSE \<noteq> EV_CAPTURE cp" "EVENT_BATTLEGROUND_CLOSE \<noteq> EV_RESOURCES t"
  "EVENT_AB_RESPAWN_BUFF \<noteq> EV_CAPTURE cp" "EVENT_AB_RESPAWN_BUFF \<noteq> EV_RESOURCES t"
  "EVENT_BATTLEGROUNDMGR_QUEUE_UPDATE \<noteq> EV_CAPTURE cp" "EVENT_BATTLEGROUNDMGR_QUEUE_UPDATE \<noteq> EV_RESOURCES t"
  "EVENT_BATTLEGROUND_COUNTDOWN \<noteq> EVENT_REMOVAL_FLAG_ALL" "EVENT_BATTLEGROUND_CLOSE \<noteq> EVENT_REMOVAL_FLAG_ALL"
  by (cases cp; cases t; simp add: EV_CAPTURE_def EV_RESOURCES_def cp_id_def team_id_def EVENT_REMOVAL_FLAG_ALL_def
      EVENT_BATTLEGROUND_COUNTDOWN_def EVENT_BATTLEGROUND_CLOSE_def EVENT_AB_RESPAWN_BUFF_def
      EVENT_BATTLEGROUNDMGR_QUEUE_UPDATE_def)+

lemmas field_defs = AssaultFields_def OwnedFields_def NeutralFields_def CaptureBaseField_def resource_fields_def

lemma fields_distinct [simp]:
  "AssaultFields cp t = AssaultFields cp' t' \<longleftrightarrow> cp = cp' \<and> t = t'"
  "OwnedFields cp t = OwnedFields cp' t' \<longleftrightarrow> cp = cp' \<and> t = t'"
  "NeutralFields cp = NeutralFields cp' \<longleftrightarrow> cp = cp'"
  "CaptureBaseField t = CaptureBaseField t' \<longleftrightarrow> t = t'" "resource_fields t = resource_fields t' \<longleftrightarrow> t = t'"
  "AssaultFields cp t \<noteq> OwnedFields cp' t'" "OwnedFields cp' t' \<noteq> AssaultFields cp t"
  "AssaultFields cp t \<noteq> NeutralFields cp'" "NeutralFields cp' \<noteq> AssaultFields cp t"
  "OwnedFields cp t \<noteq> NeutralFields cp'" "NeutralFields cp' \<noteq> OwnedFields cp t"
  "AssaultFields cp t \<noteq> CaptureBaseField t'" "CaptureBaseField t' \<noteq> AssaultFields cp t"
  "OwnedFields cp t \<noteq> CaptureBaseField t'" "CaptureBaseField t' \<noteq> OwnedFields cp t"
  "NeutralFields cp \<noteq> CaptureBaseField t" "CaptureBaseField t \<noteq> NeutralFields cp"
  "AssaultFields cp t \<noteq> resource_fields t'" "resource_fields t' \<noteq> AssaultFields cp t"
  "OwnedFields cp t \<noteq> resource_fields t'" "resource_fields t' \<noteq> OwnedFields cp t"
  "NeutralFields cp \<noteq> resource_fields t" "resource_fields t \<noteq> NeutralFields cp"
  "CaptureBaseField t \<noteq> resource_fields t'" "resource_fields t' \<noteq> CaptureBaseField t"
  by (cases cp; cases cp'; cases t; cases t'; simp add: field_defs)+

section \<open>The parts of an assault\<close>

text \<open>What gaining or losing a base does to the timers of the resources.\<close>

lemma small_u32: "n \<le> 6 \<Longrightarrow> unat (of_nat n :: u32) = n"
  by (simp add: unat_of_nat)

lemma tm_modify_simps [simp]:
  "tm_modify t ms [] = []"
  "tm_modify t ms ((t', cb, m, r) # ts) = (t', cb, if t' = t then uint ms else m, r) # tm_modify t ms ts"
  by (simp_all add: tm_modify_def)

definition resources_in :: "(bg_team \<Rightarrow> nat) \<Rightarrow> ab_cb timer list \<Rightarrow> bool" where
  "resources_in n ts \<longleftrightarrow> (\<forall>t. tm_of (EV_RESOURCES t) ts = resource_timers (n t) t)"

lemma tm_gain:
  assumes "sorted (map fst ts)" "resources_in n ts" "n t < 5"
  defines "ts' \<equiv> (if of_nat (Suc (n t)) = (1::u32)
     then tm_add (CbResources t) (EV_RESOURCES t) (ResourceUpdateIntervals ! 1) 0 ts
     else tm_modify (EV_RESOURCES t) (ResourceUpdateIntervals ! unat (of_nat (Suc (n t)) :: u32)) ts)"
  shows "sorted (map fst ts') \<and> resources_in (n(t := Suc (n t))) ts' \<and> (\<forall>cp. tm_of (EV_CAPTURE cp) ts' = tm_of (EV_CAPTURE cp) ts)"
proof -
  have u: "unat (of_nat (Suc (n t)) :: u32) = Suc (n t)" using assms(3) by (intro small_u32) simp
  have one: "of_nat (Suc (n t)) = (1::u32) \<longleftrightarrow> n t = 0" using u by (metis One_nat_def Suc_inject of_nat_1 unat_1)
  show ?thesis
    using assms(1,2) unfolding ts'_def one u resources_in_def
    by (auto simp: tm_of_add tm_of_modify resource_timers_def)
qed

lemma tm_lose:
  assumes "sorted (map fst ts)" "resources_in n ts" "0 < n t" "n t \<le> 5"
  defines "ts' \<equiv> (if of_nat (n t) - (1::u32) = 0 then tm_remove (EV_RESOURCES t) ts
     else tm_modify (EV_RESOURCES t) (ResourceUpdateIntervals ! unat (of_nat (n t) - 1 :: u32)) ts)"
  shows "sorted (map fst ts') \<and> resources_in (n(t := n t - 1)) ts' \<and> (\<forall>cp. tm_of (EV_CAPTURE cp) ts' = tm_of (EV_CAPTURE cp) ts)"
proof -
  have e: "of_nat (n t) - (1::u32) = of_nat (n t - 1)" using assms(3) by (cases "n t") simp_all
  have u: "unat (of_nat (n t - 1) :: u32) = n t - 1" using assms(4) by (intro small_u32) simp
  have z: "of_nat (n t - 1) = (0::u32) \<longleftrightarrow> n t - 1 = 0" by (simp add: word_unat_eq_iff u [unfolded One_nat_def])
  show ?thesis
  proof (cases "n t - 1 = 0")
    case True
    then show ?thesis
      using assms(1,2) unfolding ts'_def e z resources_in_def by (auto simp: tm_of_remove resource_timers_def)
  next
    case False
    then have "tm_of (EV_RESOURCES t') (tm_modify (EV_RESOURCES t) (ResourceUpdateIntervals ! (n t - 1)) ts) =
        resource_timers ((n(t := n t - 1)) t') t'" for t'
      using assms(2) by (simp add: tm_of_modify resources_in_def resource_timers_def)
    with False assms(1) show ?thesis unfolding ts'_def e z u resources_in_def by (simp add: tm_of_modify)
  qed
qed

lemma timers_ok_ops [simp]:
  "timers_ok ts \<Longrightarrow> timers_ok (tm_remove k ts)"
  "timers_ok ts \<Longrightarrow> timers_ok (tm_add cb k ms rep ts) \<longleftrightarrow> timer_ok (k, cb, uint ms, ucast rep)"
  "timers_ok ts \<Longrightarrow> (\<forall>cp. k \<noteq> EV_CAPTURE cp) \<Longrightarrow> timers_ok (tm_modify k ms ts)"
proof -
  show "timers_ok ts \<Longrightarrow> timers_ok (tm_remove k ts)" by (auto simp: timers_ok_def tm_remove_def intro: sorted_filter)
  show "timers_ok ts \<Longrightarrow> timers_ok (tm_add cb k ms rep ts) \<longleftrightarrow> timer_ok (k, cb, uint ms, ucast rep)"
    by (auto simp: timers_ok_def tm_add_def sorted_mm_insert set_mm_insert)
  have "timer_ok (k', cb, if k' = k then m else m', r)" if "timer_ok (k', cb, m', r)" "\<forall>cp. k \<noteq> EV_CAPTURE cp" for k' cb m m' r
    using that by (cases cb) auto
  then show "timers_ok ts \<Longrightarrow> (\<forall>cp. k \<noteq> EV_CAPTURE cp) \<Longrightarrow> timers_ok (tm_modify k ms ts)"
    unfolding timers_ok_def sorted_tm by (fastforce simp: tm_modify_def)
qed

lemma timers_ok_spend: "timers_ok ts \<Longrightarrow> r = 0 \<or> r = 1 \<Longrightarrow> timers_ok (tm_spend (k, cb, ms, r) ts)"
  unfolding timers_ok_def tm_spend_def
  by (auto intro: sorted_map_remove1 dest: subsetD [OF set_remove1_subset])

definition ws_step :: "ab_state \<Rightarrow> (u32 \<times> u32) list \<Rightarrow> ab_state \<Rightarrow> bool" where
  "ws_step s ups s' \<longleftrightarrow> map_ok (bg_states s') \<and> ws_get (bg_states s') = foldl (\<lambda>m (i, v). m(i \<mapsto> v)) (ws_get (bg_states s)) ups"

lemma capture_step:
  assumes "ab_owned s cp = None" "ab_assaulted s cp = Some t" "map_ok (bg_states s)"
    "ab_captured s t = of_nat n" "n < 5"
  shows "\<exists>s'. CaptureControlPoint e cp t s = Some s' \<and>
    ab_owned s' = (ab_owned s)(cp \<mapsto> t) \<and> ab_assaulted s' = (ab_assaulted s)(cp := None) \<and>
    ab_last_owned s' = (ab_last_owned s)(cp \<mapsto> t) \<and> ab_captured s' = (ab_captured s)(t := of_nat (Suc n)) \<and>
    ab_guides s' = (ab_guides s)(cp := env_guide e) \<and>
    ab_resources s' = ab_resources s \<and> ab_last_honor s' = ab_last_honor s \<and> bg_ended s' = bg_ended s \<and>
    bg_started s' = bg_started s \<and> bg_group s' = bg_group s \<and>
    set (map fst (bg_resurrect s')) = set (map fst (bg_resurrect s)) - set_option (ab_guides s cp) \<union> set_option (env_guide e) \<and>
    ws_step s [(CaptureBaseField t, of_nat (Suc n)), (AssaultFields cp t, 0), (OwnedFields cp t, 1)] s' \<and>
    bg_timers s' = (if of_nat (Suc n) = (1::u32)
     then tm_add (CbResources t) (EV_RESOURCES t) (ResourceUpdateIntervals ! 1) 0 (bg_timers s)
     else tm_modify (EV_RESOURCES t) (ResourceUpdateIntervals ! unat (of_nat (Suc n) :: u32)) (bg_timers s))"
proof -
  have "unat (of_nat (Suc n) :: u32) = Suc n" using assms(5) by (intro small_u32) simp
  then have small: "\<not> 6 \<le> (of_nat (Suc n) :: u32)" using assms(5) by (simp add: word_le_nat_alt)
  have inc: "of_nat n + 1 = (of_nat (Suc n) :: u32)" by simp
  show ?thesis
    using assms(1-4) small
    by (cases "ab_guides s cp"; cases "env_guide e")
      (simp_all add: CaptureControlPoint_def Let_def ab_resource_event_def bg_add_guide_def bg_remove_guide_def inc ws_step_def
        ws_update_map del: of_nat_Suc)
qed

lemma core_requeue: "ab_core (ab_requeue e g pid s) = ab_core s"
  by (simp add: ab_requeue_def ab_core_def split: option.split)

lemma requeue_sel [simp]:
  "bg_states (ab_requeue e g pid s) = bg_states s" "map fst (bg_resurrect (ab_requeue e g pid s)) = map fst (bg_resurrect s)"
  by (simp_all add: ab_requeue_def bg_queue_nearest_def bg_join_guide_def bg_emit_def HookHandleRepop_def split: option.split)

lemma requeue_all:
  "ab_core (fold (ab_requeue e g) pids s) = ab_core s" "bg_states (fold (ab_requeue e g) pids s) = bg_states s"
  "map fst (bg_resurrect (fold (ab_requeue e g) pids s)) = map fst (bg_resurrect s)"
  by (induction pids arbitrary: s) (simp_all add: core_requeue)

lemmas requeue_all_sel [simp] = requeue_all(1) [unfolded ab_core_def prod.inject] requeue_all(2,3)

lemma keys_requeue_all [simp]:
  "fst ` set (bg_resurrect (fold (ab_requeue e g) pids s)) = fst ` set (bg_resurrect s)"
  by (metis requeue_all(3) list.set_map)

lemma lose_step:
  assumes "ab_owned s cp = Some t" "guides_ok s" "map_ok (bg_states s)" "ab_captured s t = of_nat n" "0 < n" "n \<le> 5"
  shows "\<exists>s'. ab_lose_base e cp t s = Some s' \<and>
    ab_owned s' = (ab_owned s)(cp := None) \<and> ab_assaulted s' = ab_assaulted s \<and>
    ab_last_owned s' = ab_last_owned s \<and> ab_captured s' = (ab_captured s)(t := of_nat (n - 1)) \<and>
    ab_guides s' = (ab_guides s)(cp := None) \<and>
    ab_resources s' = ab_resources s \<and> ab_last_honor s' = ab_last_honor s \<and> bg_ended s' = bg_ended s \<and>
    bg_started s' = bg_started s \<and> bg_group s' = bg_group s \<and>
    set (map fst (bg_resurrect s')) = set (map fst (bg_resurrect s)) - set_option (ab_guides s cp) \<and>
    ws_step s [(CaptureBaseField t, of_nat (n - 1)), (OwnedFields cp t, 0)] s' \<and>
    bg_timers s' = (if of_nat n - (1::u32) = 0 then tm_remove (EV_RESOURCES t) (bg_timers s)
     else tm_modify (EV_RESOURCES t) (ResourceUpdateIntervals ! unat (of_nat n - 1 :: u32)) (bg_timers s))"
proof -
  have dec: "of_nat n - 1 = (of_nat (n - 1) :: u32)" using assms(5) by (cases n) simp_all
  have "unat (of_nat (n - 1) :: u32) = n - 1" using assms(6) by (intro small_u32) simp
  then have small: "\<not> 6 \<le> (of_nat (n - 1) :: u32)" using assms(6) by (simp add: word_le_nat_alt del: of_nat_diff)
  show ?thesis
  proof (cases "ab_guides s cp")
    case None
    then show ?thesis
      using assms(1,3,4) small
      by (simp add: ab_lose_base_def ab_lose_guide_def Let_def ws_step_def ws_update_map dec fun_upd_idem)
  next
    case (Some g)
    then have "g \<in> set (map fst (bg_resurrect s))" using assms(2) by (simp add: guides_ok_def)
    then obtain pids where "map_of (bg_resurrect s) g = Some pids"
      using map_of_eq_None_keys [of "bg_resurrect s" g] by (cases "map_of (bg_resurrect s) g") auto
    with Some show ?thesis
      using assms(1,3,4) small
      by (simp add: ab_lose_base_def ab_lose_guide_def bg_remove_guide_def Let_def ws_step_def ws_update_map dec)
  qed
qed

lemma claim_step:
  fixes e p cp
  assumes "map_ok (bg_states s)"
  defines "s' \<equiv> ab_claim e p cp s"
  defines "ts \<equiv> (if ab_assaulted s cp = None then bg_timers s else tm_remove (EV_CAPTURE cp) (bg_timers s))"
  shows "ab_owned s' = ab_owned s" "ab_assaulted s' = (ab_assaulted s)(cp \<mapsto> bp_team p)"
    "ab_last_owned s' = ab_last_owned s" "ab_captured s' = ab_captured s" "ab_guides s' = ab_guides s"
    "ab_resources s' = ab_resources s" "ab_last_honor s' = ab_last_honor s" "bg_ended s' = bg_ended s"
    "bg_started s' = bg_started s" "bg_group s' = bg_group s" "bg_resurrect s' = bg_resurrect s"
    "bg_timers s' = tm_add (CbCapture cp (bp_team p)) (EV_CAPTURE cp) 60000 1 ts"
    "ws_step s ((case ab_assaulted s cp of None \<Rightarrow> [] | Some a \<Rightarrow> [(AssaultFields cp a, 0)]) @ [(AssaultFields cp (bp_team p), 1)]) s'"
  using assms(1) unfolding s'_def ts_def
  by (cases "ab_assaulted s cp"; simp add: ab_claim_def Let_def ws_step_def ws_update_map)+

section \<open>One control point at a time\<close>

lemma ab_base_upd:
  assumes "ab_owned s' = (ab_owned s)(cp := o1)" "ab_assaulted s' = (ab_assaulted s)(cp := a1)"
    "ab_last_owned s' = (ab_last_owned s)(cp := l1)"
  shows "ab_base s' = (ab_base s)(cp := base_of o1 a1 l1)"
  using assms by (auto simp: ab_base_def fun_eq_iff)

text \<open>
  An operation on one control point keeps the invariant when it leaves the point, its five fields,
  its capture timer and the counters of its owners in order, and touches nothing else.
\<close>

lemma ab_ok_point:
  assumes ok: "ab_ok s"
    and point: "ab_owned s' = (ab_owned s)(cp := o1)" "ab_assaulted s' = (ab_assaulted s)(cp := a1)"
      "ab_last_owned s' = (ab_last_owned s)(cp := l1)" "base_ok o1 a1 l1"
    and b: "b = (ab_base s)(cp := base_of o1 a1 l1)"
    and counts: "\<And>t. ab_captured s' t = of_nat (held b t)"
    and rest: "ab_resources s' = ab_resources s" "ab_last_honor s' = ab_last_honor s" "bg_ended s' = bg_ended s"
    and ws: "map_ok (bg_states s')" "base_shown (b cp) cp (bg_states s')"
      "\<And>t. ws_get (bg_states s') (CaptureBaseField t) = Some (of_nat (held b t))"
      "\<And>i. i \<notin> {NeutralFields cp} \<union> range (OwnedFields cp) \<union> range (AssaultFields cp) \<union> range CaptureBaseField \<Longrightarrow>
         ws_get (bg_states s') i = ws_get (bg_states s) i"
    and tm: "timers_ok (bg_timers s')"
      "\<not> bg_ended s \<Longrightarrow> tm_of (EV_CAPTURE cp) (bg_timers s') = capture_timers (b cp) cp"
      "\<not> bg_ended s \<Longrightarrow> resources_in (held b) (bg_timers s')"
      "\<And>c. c \<noteq> cp \<Longrightarrow> tm_of (EV_CAPTURE c) (bg_timers s') = tm_of (EV_CAPTURE c) (bg_timers s)"
    and g: "guides_ok s'"
  shows "ab_ok s' \<and> ab_base s' = b"
proof -
  have base: "ab_base s' = b" unfolding b by (rule ab_base_upd [OF point(1-3)])
  have others: "base_shown (b c) c (bg_states s')" for c
  proof (cases "c = cp")
    case False
    then have "base_shown (ab_base s c) c (bg_states s)" using ok by (simp add: ab_ok_def states_shown_def)
    moreover have "ws_get (bg_states s') i = ws_get (bg_states s) i"
      if "i \<in> {NeutralFields c} \<union> range (OwnedFields c) \<union> range (AssaultFields c)" for i
      by (rule ws(4)) (use that False in auto)
    ultimately show ?thesis using False by (simp add: base_shown_def b)
  qed (use ws(2) in simp)
  have "ws_get (bg_states s') (resource_fields t) = Some (ab_resources s' t)" for t
  proof -
    have "resource_fields t \<notin> {NeutralFields cp} \<union> range (OwnedFields cp) \<union> range (AssaultFields cp) \<union> range CaptureBaseField"
      by auto
    from ws(4) [OF this] ok rest(1) show ?thesis by (simp add: ab_ok_def states_shown_def)
  qed
  then have "states_shown b (ab_resources s') (bg_states s')" using others ws(3) by (simp add: states_shown_def)
  moreover have "timers_shown b (bg_timers s')" if "\<not> bg_ended s"
    using tm(2-4) that ok by (auto simp: timers_shown_def resources_in_def b ab_ok_def)
  moreover have "base_ok (ab_owned s' c) (ab_assaulted s' c) (ab_last_owned s' c)" for c
    using point ok by (auto simp: ab_ok_def)
  ultimately show ?thesis using ok counts rest ws(1) tm(1) g base by (simp add: ab_ok_def)
qed

lemma ab_okD:
  assumes "ab_ok s"
  shows "sorted (map fst (bg_timers s))" "map_ok (bg_states s)"
    "base_ok (ab_owned s cp) (ab_assaulted s cp) (ab_last_owned s cp)" "ab_captured s t = of_nat (held (ab_base s) t)"
    "base_shown (ab_base s cp) cp (bg_states s)" "ws_get (bg_states s) (CaptureBaseField t) = Some (of_nat (held (ab_base s) t))"
    "\<not> bg_ended s \<Longrightarrow> tm_of (EV_CAPTURE cp) (bg_timers s) = capture_timers (ab_base s cp) cp"
    "\<not> bg_ended s \<Longrightarrow> resources_in (held (ab_base s)) (bg_timers s)"
    "guides_ok s" "ab_last_honor s t = 0" "ab_resources s t \<le> 2000" "ab_resources s t = 2000 \<Longrightarrow> bg_ended s"
    "timers_ok (bg_timers s)"
  using assms by (simp_all add: ab_ok_def states_shown_def timers_shown_def resources_in_def timers_ok_def)

lemma guides_ok_upd:
  assumes "guides_ok s" "ab_guides s' = (ab_guides s)(cp := g)"
    "ab_owned s' = (ab_owned s)(cp := o1)" "o1 = None \<Longrightarrow> g = None"
    "\<And>h. h \<in> set (map fst (bg_resurrect s)) \<Longrightarrow> ab_guides s cp \<noteq> Some h \<Longrightarrow> h \<in> set (map fst (bg_resurrect s'))"
    "\<And>h. g = Some h \<Longrightarrow> h \<in> set (map fst (bg_resurrect s')) \<and> (\<forall>c. c \<noteq> cp \<longrightarrow> ab_guides s c \<noteq> Some h)"
  shows "guides_ok s'"
  unfolding guides_ok_def
proof (intro conjI allI impI)
  fix c h
  assume c: "ab_guides s' c = Some h"
  show "ab_owned s' c \<noteq> None"
    using c assms(1-4) by (cases "c = cp") (auto simp: guides_ok_def)
  show "h \<in> set (map fst (bg_resurrect s'))"
  proof (cases "c = cp")
    case False
    then have "ab_guides s c = Some h" using c assms(2) by simp
    moreover from this False have "ab_guides s cp \<noteq> Some h" using assms(1) by (auto simp: guides_ok_def)
    ultimately show ?thesis using assms(1,5) by (auto simp: guides_ok_def)
  qed (use c assms(2,6) in simp)
  fix c'
  assume c': "ab_guides s' c' = Some h"
  show "c = c'"
    using c c' assms(1,2,6) by (cases "c = cp"; cases "c' = cp") (auto simp: guides_ok_def)
qed

lemma held_gain: "b cp \<noteq> Held t \<Longrightarrow> (\<forall>t'. b cp \<noteq> Held t') \<Longrightarrow> held (b(cp := Held t)) = (held b)(t := Suc (held b t))"
  by (auto simp: held_upd fun_eq_iff)

lemma held_lose: "b cp = Held t \<Longrightarrow> \<forall>t'. x \<noteq> Held t' \<Longrightarrow> held (b(cp := x)) = (held b)(t := held b t - 1)"
  by (auto simp: held_upd fun_eq_iff)

lemma held_same: "\<forall>t'. b cp \<noteq> Held t' \<Longrightarrow> \<forall>t'. x \<noteq> Held t' \<Longrightarrow> held (b(cp := x)) = held b"
  by (auto simp: held_upd fun_eq_iff)

lemma held_less: "b cp \<noteq> Held t \<Longrightarrow> held b t < 5"
proof -
  assume "b cp \<noteq> Held t"
  then have "held (b(cp := Held t)) t = Suc (held b t)" by (simp add: held_upd)
  with held_le [of "b(cp := Held t)" t] show ?thesis by simp
qed

lemma tm_spend_sel:
  assumes "sorted (map fst ts)"
  shows "sorted (map fst (tm_spend (k, cb, ms, r) ts))"
    "tm_of k' (tm_spend (k, cb, ms, 1) ts) = (if k' = k then remove1 (k, cb, ms, 1) (tm_of k ts) else tm_of k' ts)"
    "tm_spend (k, cb, ms, 0) ts = ts"
proof -
  have f: "filter P (remove1 x xs) = (if P x then remove1 x (filter P xs) else filter P xs)" for P :: "'a timer \<Rightarrow> bool" and x xs
    by (induction xs) auto
  have r: "sorted (map fst (remove1 x xs))" if "sorted (map fst xs)" for x :: "'a timer" and xs
    using that by (rule sorted_map_remove1)
  have d: "ts = takeWhile (\<lambda>x. x \<noteq> ev) ts @ ev # tl (dropWhile (\<lambda>x. x \<noteq> ev) ts)" if "ev \<in> set ts" for ev
  proof -
    have ne: "dropWhile (\<lambda>x. x \<noteq> ev) ts \<noteq> []" using that by (simp add: dropWhile_eq_Nil_conv)
    from hd_dropWhile [OF this] have "ev # tl (dropWhile (\<lambda>x. x \<noteq> ev) ts) = dropWhile (\<lambda>x. x \<noteq> ev) ts"
      using list.collapse [OF ne] by simp
    then show ?thesis by simp
  qed
  have "sorted (map fst (takeWhile (\<lambda>x. x \<noteq> ev) ts @ (fst ev, y) # tl (dropWhile (\<lambda>x. x \<noteq> ev) ts)))" if "ev \<in> set ts" for ev y
  proof -
    have "map fst (takeWhile (\<lambda>x. x \<noteq> ev) ts @ (fst ev, y) # tl (dropWhile (\<lambda>x. x \<noteq> ev) ts)) = map fst ts"
      using arg_cong [OF d [OF that], of "map fst"] by simp
    then show ?thesis using assms by simp
  qed
  from this [of "(k, cb, ms, r)"] show "sorted (map fst (tm_spend (k, cb, ms, r) ts))"
    using r assms by (simp add: tm_spend_def)
  show "tm_of k' (tm_spend (k, cb, ms, 1) ts) = (if k' = k then remove1 (k, cb, ms, 1) (tm_of k ts) else tm_of k' ts)"
    by (auto simp: tm_spend_def tm_of_def f remove1_idem)
  show "tm_spend (k, cb, ms, 0) ts = ts" by (simp add: tm_spend_def)
qed

lemma capture_fires:
  assumes ok: "ab_ok s" and fresh: "guides_fresh e s"
  shows "\<exists>s'. ab_fire e gs (EV_CAPTURE cp, CbCapture cp t, 60000, 1) s = Some s' \<and>
    (\<not> bg_ended s \<longrightarrow> (EV_CAPTURE cp, CbCapture cp t, 60000, 1) \<in> set (bg_timers s) \<longrightarrow> ab_ok s') \<and>
    (bg_ended s \<longrightarrow> ab_ok s') \<and>
    ab_base s' = (ab_base s)(cp := base_expire t (ab_base s cp)) \<and> bg_started s' = bg_started s \<and> bg_group s' = bg_group s"
proof -
  let ?ev = "(EV_CAPTURE cp, CbCapture cp t, 60000, 1)"
  note D = ab_okD [OF ok]
  show ?thesis
  proof (cases "ab_owned s cp = None \<and> ab_assaulted s cp = Some t")
    case False
    then have c: "CaptureControlPoint e cp t s = Some s" by (simp add: CaptureControlPoint_def)
    have base: "base_expire t (ab_base s cp) = ab_base s cp"
      using False by (cases "ab_base s cp") (auto simp: ab_base_def)
    have "ab_ok (bg_set_timers (tm_spend ?ev) s)" if "bg_ended s \<or> ?ev \<in> set (bg_timers s)"
    proof -
      have "bg_ended s"
      proof (rule ccontr)
        assume ne: "\<not> bg_ended s"
        then have "?ev \<in> set (tm_of (EV_CAPTURE cp) (bg_timers s))" using that by (simp add: tm_of_def)
        then show False using D(7) [OF ne, of cp] False by (auto simp: capture_timers_def ab_base_def split: base_state.splits)
      qed
      then show ?thesis using ok timers_ok_spend [OF D(13)]
        by (simp add: ab_ok_def guides_ok_def ab_base_def [abs_def])
    qed
    with c base show ?thesis by (auto simp: ab_fire_def ab_run_def ab_base_def fun_eq_iff)
  next
    case True
    then have b: "ab_base s cp = Contested t (ab_last_owned s cp)" by (simp add: ab_base_def)
    let ?n = "held (ab_base s)" and ?b = "(ab_base s)(cp := Held t)"
    have n: "?n t < 5" by (rule held_less [of _ cp]) (simp add: b)
    have hb: "held ?b = ?n(t := Suc (?n t))" by (rule held_gain) (simp_all add: b)
    from capture_step [OF True [THEN conjunct1] True [THEN conjunct2] D(2) D(4) n] obtain s' where s':
      "CaptureControlPoint e cp t s = Some s'" "ab_owned s' = (ab_owned s)(cp \<mapsto> t)" "ab_assaulted s' = (ab_assaulted s)(cp := None)"
      "ab_last_owned s' = (ab_last_owned s)(cp \<mapsto> t)" "ab_captured s' = (ab_captured s)(t := of_nat (Suc (?n t)))"
      "ab_guides s' = (ab_guides s)(cp := env_guide e)"
      "ab_resources s' = ab_resources s" "ab_last_honor s' = ab_last_honor s" "bg_ended s' = bg_ended s"
      "bg_started s' = bg_started s" "bg_group s' = bg_group s"
      "set (map fst (bg_resurrect s')) = set (map fst (bg_resurrect s)) - set_option (ab_guides s cp) \<union> set_option (env_guide e)"
      "ws_step s [(CaptureBaseField t, of_nat (Suc (?n t))), (AssaultFields cp t, 0), (OwnedFields cp t, 1)] s'"
      "bg_timers s' = (if of_nat (Suc (?n t)) = (1::u32)
       then tm_add (CbResources t) (EV_RESOURCES t) (ResourceUpdateIntervals ! 1) 0 (bg_timers s)
       else tm_modify (EV_RESOURCES t) (ResourceUpdateIntervals ! unat (of_nat (Suc (?n t)) :: u32)) (bg_timers s))"
      by blast
    let ?s = "bg_set_timers (tm_spend ?ev) s'"
    have sr: "sorted (map fst (bg_timers s'))" using D(1) s'(14) by simp
    have so: "timers_ok (bg_timers s')" using D(13) s'(14) by simp
    have "ab_ok ?s \<and> ab_base ?s = ?b" if ev: "bg_ended s \<or> ?ev \<in> set (bg_timers s)"
    proof (rule ab_ok_point [OF ok, where cp = cp and ?o1.0 = "Some t" and ?a1.0 = None and ?l1.0 = "Some t"])
      show "guides_ok ?s"
        by (rule guides_ok_upd [OF D(9), of _ cp "env_guide e" "Some t"])
          (use s' fresh D(9) in \<open>auto simp: guides_fresh_def guides_ok_def bg_set_timers_def\<close>)
      show "base_shown (?b cp) cp (bg_states ?s)"
        using s'(13) D(5) [of cp] by (auto simp: ws_step_def base_shown_def b)
      show "ab_captured ?s t' = of_nat (held ?b t')" for t' using s'(5) D(4) hb by simp
      show "ws_get (bg_states ?s) (CaptureBaseField t') = Some (of_nat (held ?b t'))" for t'
        using s'(13) D(6) [of t'] hb by (simp add: ws_step_def)
      show "ws_get (bg_states ?s) i = ws_get (bg_states s) i"
        if "i \<notin> {NeutralFields cp} \<union> range (OwnedFields cp) \<union> range (AssaultFields cp) \<union> range CaptureBaseField" for i
        using s'(13) that by (auto simp: ws_step_def)
      show "tm_of (EV_CAPTURE c) (bg_timers ?s) = tm_of (EV_CAPTURE c) (bg_timers s)" if "c \<noteq> cp" for c
      proof -
        have "tm_of (EV_CAPTURE c) (bg_timers ?s) = tm_of (EV_CAPTURE c) (bg_timers s')"
          using that by (simp add: tm_spend_sel(2) [OF sr])
        then show ?thesis unfolding s'(14) using D(1) by (simp add: tm_of_add tm_of_modify)
      qed
      assume ne: "\<not> bg_ended s"
      note g = tm_gain [OF D(1) D(8) [OF ne] n]
      show "tm_of (EV_CAPTURE cp) (bg_timers ?s) = capture_timers (?b cp) cp"
        using g D(7) [OF ne, of cp] unfolding s'(14) [symmetric]
        by (simp add: tm_spend_sel(2) [OF sr] b capture_timers_def)
      show "resources_in (held ?b) (bg_timers ?s)"
        using g unfolding s'(14) [symmetric] by (simp add: resources_in_def tm_spend_sel(2) [OF sr] hb)
    qed (use s' so in \<open>simp_all add: ws_step_def timers_ok_spend\<close>)
    moreover have "ab_base ?s = ?b" using ab_base_upd [of ?s s cp "Some t" None "Some t"] s'(2-4) by simp
    ultimately show ?thesis using s' b by (auto simp: ab_fire_def ab_run_def)
  qed
qed

text \<open>
  The middle of an assault: the point has no owner any more, the neutral icon is off, everything
  else about the point is as before and the counters are in order.
\<close>

definition released :: "ab_state \<Rightarrow> ab_cp \<Rightarrow> ab_state \<Rightarrow> bool" where
  "released s cp s1 \<longleftrightarrow> (let b = (ab_base s)(cp := Unclaimed); m = ws_get (bg_states s1) in
     ab_owned s1 = (ab_owned s)(cp := None) \<and> ab_assaulted s1 = ab_assaulted s \<and> ab_last_owned s1 = ab_last_owned s \<and>
     (\<forall>t. ab_captured s1 t = of_nat (held b t)) \<and>
     ab_resources s1 = ab_resources s \<and> ab_last_honor s1 = ab_last_honor s \<and> bg_ended s1 = bg_ended s \<and>
     bg_started s1 = bg_started s \<and> bg_group s1 = bg_group s \<and>
     map_ok (bg_states s1) \<and> m (NeutralFields cp) = Some 0 \<and>
     (\<forall>t. m (CaptureBaseField t) = Some (of_nat (held b t)) \<and> m (OwnedFields cp t) = Some 0 \<and>
       m (AssaultFields cp t) = Some (if ab_assaulted s cp = Some t then 1 else 0)) \<and>
     (\<forall>i. i \<notin> {NeutralFields cp} \<union> range (OwnedFields cp) \<union> range (AssaultFields cp) \<union> range CaptureBaseField \<longrightarrow>
        m i = ws_get (bg_states s) i) \<and>
     timers_ok (bg_timers s1) \<and>
     (\<forall>c. c \<noteq> cp \<longrightarrow> tm_of (EV_CAPTURE c) (bg_timers s1) = tm_of (EV_CAPTURE c) (bg_timers s)) \<and>
     (\<not> bg_ended s \<longrightarrow> resources_in (held b) (bg_timers s1) \<and>
        (ab_assaulted s cp = None \<longrightarrow> tm_of (EV_CAPTURE cp) (bg_timers s1) = [])) \<and>
     guides_ok s1 \<and> ab_guides s1 cp = None \<and> set (map fst (bg_resurrect s1)) \<subseteq> set (map fst (bg_resurrect s)))"

lemma releasedD:
  assumes "released s cp s1"
  defines "b \<equiv> (ab_base s)(cp := Unclaimed)"
  shows "ab_owned s1 = (ab_owned s)(cp := None)" "ab_assaulted s1 = ab_assaulted s" "ab_last_owned s1 = ab_last_owned s"
    "ab_captured s1 t = of_nat (held b t)"
    "ab_resources s1 = ab_resources s" "ab_last_honor s1 = ab_last_honor s" "bg_ended s1 = bg_ended s"
    "bg_started s1 = bg_started s" "bg_group s1 = bg_group s" "map_ok (bg_states s1)"
    "ws_get (bg_states s1) (NeutralFields cp) = Some 0" "ws_get (bg_states s1) (CaptureBaseField t) = Some (of_nat (held b t))"
    "ws_get (bg_states s1) (OwnedFields cp t) = Some 0"
    "ws_get (bg_states s1) (AssaultFields cp t) = Some (if ab_assaulted s cp = Some t then 1 else 0)"
    "i \<notin> {NeutralFields cp} \<union> range (OwnedFields cp) \<union> range (AssaultFields cp) \<union> range CaptureBaseField \<Longrightarrow>
       ws_get (bg_states s1) i = ws_get (bg_states s) i"
    "sorted (map fst (bg_timers s1))"
    "c \<noteq> cp \<Longrightarrow> tm_of (EV_CAPTURE c) (bg_timers s1) = tm_of (EV_CAPTURE c) (bg_timers s)"
    "\<not> bg_ended s \<Longrightarrow> resources_in (held b) (bg_timers s1)"
    "\<not> bg_ended s \<Longrightarrow> ab_assaulted s cp = None \<Longrightarrow> tm_of (EV_CAPTURE cp) (bg_timers s1) = []"
    "guides_ok s1" "ab_guides s1 cp = None" "set (map fst (bg_resurrect s1)) \<subseteq> set (map fst (bg_resurrect s))"
    "timers_ok (bg_timers s1)"
  using assms unfolding released_def Let_def b_def timers_ok_def by blast+

lemma claim_ok:
  assumes ok: "ab_ok s" and rel: "released s cp s1" and lo: "ab_last_owned s cp \<noteq> Some (bp_team p)"
  shows "ab_ok (ab_claim e p cp s1) \<and> ab_base (ab_claim e p cp s1) = (ab_base s)(cp := Contested (bp_team p) (ab_last_owned s cp))"
proof -
  let ?s = "ab_claim e p cp s1" and ?t = "bp_team p" and ?b = "(ab_base s)(cp := Contested (bp_team p) (ab_last_owned s cp))"
  note R = releasedD [OF rel] and C = claim_step [OF R(10), where e = e and p = p and cp = cp]
  have hb: "held ?b = held ((ab_base s)(cp := Unclaimed))"
    using held_same [of "(ab_base s)(cp := Unclaimed)" cp "Contested ?t (ab_last_owned s cp)"] by simp
  let ?ts = "if ab_assaulted s1 cp = None then bg_timers s1 else tm_remove (EV_CAPTURE cp) (bg_timers s1)"
  have ts: "sorted (map fst ?ts)" using R(16) by simp
  have tso: "timers_ok ?ts" using R(23) by simp
  show ?thesis
  proof (rule ab_ok_point [OF ok, where cp = cp and ?o1.0 = None and ?a1.0 = "Some ?t" and ?l1.0 = "ab_last_owned s cp"])
    show "guides_ok ?s" using R(20) C(1,5,11) by (simp add: guides_ok_def)
    show "base_shown (?b cp) cp (bg_states ?s)"
      using C(13) R(2,11,13,14) by (cases "ab_assaulted s cp") (auto simp: ws_step_def base_shown_def)
    show "ws_get (bg_states ?s) (CaptureBaseField t) = Some (of_nat (held ?b t))" for t
      using C(13) R(2) R(12) [of t] hb by (cases "ab_assaulted s cp") (auto simp: ws_step_def)
    show "ws_get (bg_states ?s) i = ws_get (bg_states s) i"
      if "i \<notin> {NeutralFields cp} \<union> range (OwnedFields cp) \<union> range (AssaultFields cp) \<union> range CaptureBaseField" for i
      using C(13) R(2) R(15) [OF that] that by (cases "ab_assaulted s cp") (auto simp: ws_step_def)
    show "tm_of (EV_CAPTURE c) (bg_timers ?s) = tm_of (EV_CAPTURE c) (bg_timers s)" if "c \<noteq> cp" for c
      using that R(17) [OF that] ts unfolding C(12) by (simp add: tm_of_add tm_of_remove)
    assume ne: "\<not> bg_ended s"
    show "tm_of (EV_CAPTURE cp) (bg_timers ?s) = capture_timers (?b cp) cp"
      using R(2) R(19) [OF ne] ts unfolding C(12) by (simp add: tm_of_add tm_of_remove capture_timers_def)
    show "resources_in (held ?b) (bg_timers ?s)"
      using R(18) [OF ne] ts unfolding C(12) resources_in_def by (simp add: tm_of_add tm_of_remove hb)
  qed (use C R hb lo tso in \<open>simp_all add: ws_step_def\<close>)
qed

lemma defend_ok:
  assumes ok: "ab_ok s" and fresh: "guides_fresh e s" and rel: "released s cp s1"
    and a: "ab_assaulted s cp \<noteq> Some (bp_team p)"
  shows "\<exists>s'. ab_defend e p cp s1 = Some s' \<and> ab_ok s' \<and> ab_base s' = (ab_base s)(cp := Held (bp_team p)) \<and>
    bg_started s' = bg_started s \<and> bg_group s' = bg_group s"
proof -
  let ?t = "bp_team p" and ?un = "(ab_base s)(cp := Unclaimed)" and ?b = "(ab_base s)(cp := Held (bp_team p))"
  note R = releasedD [OF rel]
  let ?n = "held ?un"
  define s2 where "s2 = (bg_emit [FxChat (system_chat ?t) (bp_guid p) (MsgDefended (cp_id cp))]
    (bg_set_timers (tm_remove (EV_CAPTURE cp)) (bg_world_state e (AssaultFields cp (other_team ?t)) 0 s1)))"
  let ?s2 = "s2\<lparr> ab_assaulted := (ab_assaulted s2)(cp \<mapsto> ?t) \<rparr>"
  have d: "ab_defend e p cp s1 = CaptureControlPoint e cp ?t ?s2" by (simp add: ab_defend_def s2_def Let_def)
  have n: "?n ?t < 5" by (rule held_less [of ?un cp]) simp
  have hb: "held ?b = ?n(?t := Suc (?n ?t))" using held_gain [of ?un cp ?t] by simp
  have s2: "ab_owned ?s2 cp = None" "ab_assaulted ?s2 cp = Some ?t" "map_ok (bg_states ?s2)" "ab_captured ?s2 ?t = of_nat (?n ?t)"
    "ab_guides s2 = ab_guides s1" "bg_resurrect s2 = bg_resurrect s1"
    "bg_timers s2 = tm_remove (EV_CAPTURE cp) (bg_timers s1)"
    "ws_get (bg_states s2) = (ws_get (bg_states s1))(AssaultFields cp (other_team ?t) \<mapsto> 0)"
    using R(1,4,10) by (simp_all add: s2_def ws_update_map)
  have fs: "ab_owned s2 = ab_owned s1" "ab_last_owned s2 = ab_last_owned s1" "ab_captured s2 = ab_captured s1"
    "ab_assaulted s2 = ab_assaulted s1" "ab_resources s2 = ab_resources s1" "ab_last_honor s2 = ab_last_honor s1" "bg_ended s2 = bg_ended s1"
    "bg_started s2 = bg_started s1" "bg_group s2 = bg_group s1"
    by (simp_all add: s2_def)
  from capture_step [OF s2(1-4) n] obtain s' where s':
      "CaptureControlPoint e cp ?t ?s2 = Some s'" "ab_owned s' = (ab_owned ?s2)(cp \<mapsto> ?t)" "ab_assaulted s' = (ab_assaulted ?s2)(cp := None)"
      "ab_last_owned s' = (ab_last_owned ?s2)(cp \<mapsto> ?t)" "ab_captured s' = (ab_captured ?s2)(?t := of_nat (Suc (?n ?t)))"
      "ab_guides s' = (ab_guides ?s2)(cp := env_guide e)"
      "ab_resources s' = ab_resources ?s2" "ab_last_honor s' = ab_last_honor ?s2" "bg_ended s' = bg_ended ?s2"
      "bg_started s' = bg_started ?s2" "bg_group s' = bg_group ?s2"
      "set (map fst (bg_resurrect s')) = set (map fst (bg_resurrect ?s2)) - set_option (ab_guides ?s2 cp) \<union> set_option (env_guide e)"
      "ws_step ?s2 [(CaptureBaseField ?t, of_nat (Suc (?n ?t))), (AssaultFields cp ?t, 0), (OwnedFields cp ?t, 1)] s'"
      "bg_timers s' = (if of_nat (Suc (?n ?t)) = (1::u32)
       then tm_add (CbResources ?t) (EV_RESOURCES ?t) (ResourceUpdateIntervals ! 1) 0 (bg_timers ?s2)
       else tm_modify (EV_RESOURCES ?t) (ResourceUpdateIntervals ! unat (of_nat (Suc (?n ?t)) :: u32)) (bg_timers ?s2))"
    by blast
  have ts2: "sorted (map fst (bg_timers ?s2))" using R(16) s2(7) by simp
  have tso: "timers_ok (bg_timers s')" using R(23) s2(7) unfolding s'(14) by simp
  have "ab_ok s' \<and> ab_base s' = ?b"
  proof (rule ab_ok_point [OF ok, where cp = cp and ?o1.0 = "Some ?t" and ?a1.0 = None and ?l1.0 = "Some ?t"])
    have new: "ab_guides s1 c \<noteq> Some h" if "env_guide e = Some h" for c h
      using that R(20,22) fresh unfolding guides_ok_def guides_fresh_def set_map by blast
    show "guides_ok s'"
      by (rule guides_ok_upd [OF R(20), of _ cp "env_guide e" "Some ?t"])
        (use s'(2,6,12) s2(5,6) fs(1) R(21) new in auto)
    show "base_shown (?b cp) cp (bg_states s')"
      using s'(13) s2(8) R(11,13,14) a
      by (auto simp: ws_step_def base_shown_def team_neq [of _ "bp_team p"])
    show "ab_captured s' t = of_nat (held ?b t)" for t using s'(5) fs(3) R(4) hb by simp
    show "ws_get (bg_states s') (CaptureBaseField t) = Some (of_nat (held ?b t))" for t
      using s'(13) s2(8) R(12) [of t] hb by (simp add: ws_step_def)
    show "ws_get (bg_states s') i = ws_get (bg_states s) i"
      if "i \<notin> {NeutralFields cp} \<union> range (OwnedFields cp) \<union> range (AssaultFields cp) \<union> range CaptureBaseField" for i
      using s'(13) s2(8) R(15) [OF that] that by (auto simp: ws_step_def)
    show "tm_of (EV_CAPTURE c) (bg_timers s') = tm_of (EV_CAPTURE c) (bg_timers s)" if "c \<noteq> cp" for c
      using that s2(7) R(17) [OF that] ts2 unfolding s'(14) by (simp add: tm_of_add tm_of_modify tm_of_remove)
    assume ne: "\<not> bg_ended s"
    have "resources_in ?n (bg_timers ?s2)" using R(18) [OF ne] s2(7) by (simp add: resources_in_def tm_of_remove)
    note g = tm_gain [OF ts2 this n]
    show "tm_of (EV_CAPTURE cp) (bg_timers s') = capture_timers (?b cp) cp"
      using g s2(7) unfolding s'(14) [symmetric] by (simp add: tm_of_remove capture_timers_def)
    show "resources_in (held ?b) (bg_timers s')" using g unfolding s'(14) [symmetric] hb by blast
  qed (use s' fs R tso in \<open>simp_all add: ws_step_def\<close>)
  with d s' fs R show ?thesis by auto
qed

lemma not_owned_no_guide: "guides_ok s \<Longrightarrow> ab_owned s cp = None \<Longrightarrow> ab_guides s cp = None"
proof (rule ccontr)
  assume "guides_ok s" "ab_owned s cp = None" "ab_guides s cp \<noteq> None"
  then show False unfolding guides_ok_def by blast
qed

lemma released_unowned:
  assumes ok: "ab_ok s" and n: "ab_owned s cp = None"
  shows "released s cp (if ab_assaulted s cp = None then bg_world_state e (NeutralFields cp) 0 s else s)"
proof -
  note D = ab_okD [OF ok]
  have hb: "held ((ab_base s)(cp := Unclaimed)) = held (ab_base s)"
    using n by (intro held_same) (simp_all add: ab_base_def)
  have sh: "base_shown (base_of None (ab_assaulted s cp) (ab_last_owned s cp)) cp (bg_states s)"
    using D(5) [of cp] n by (simp add: ab_base_def)
  have c: "\<not> bg_ended s \<Longrightarrow> ab_assaulted s cp = None \<Longrightarrow> tm_of (EV_CAPTURE cp) (bg_timers s) = []"
    using D(7) [of cp] n by (simp add: ab_base_def capture_timers_def)
  show ?thesis
  proof (cases "ab_assaulted s cp")
    case None
    then show ?thesis
      using D n sh c not_owned_no_guide [OF D(9) n] unfolding released_def Let_def hb
      by (simp add: ws_update_map base_shown_def guides_ok_def fun_upd_idem)
  next
    case (Some a)
    then show ?thesis
      using D n sh not_owned_no_guide [OF D(9) n] unfolding released_def Let_def hb
      by (simp add: base_shown_def fun_upd_idem)
  qed
qed

lemma released_lost:
  assumes ok: "ab_ok s" and n: "ab_owned s cp = Some t"
  shows "\<exists>s1. ab_lose_base e cp t s = Some s1 \<and> released s cp s1"
proof -
  note D = ab_okD [OF ok]
  let ?n = "held (ab_base s)"
  have b: "ab_base s cp = Held t" using n by (simp add: ab_base_def)
  have hb: "held ((ab_base s)(cp := Unclaimed)) = ?n(t := ?n t - 1)" using held_lose [of "ab_base s" cp t Unclaimed] b by simp
  have a: "ab_assaulted s cp = None" using D(3) [of cp] n by simp
  from lose_step [OF n D(9) D(2) D(4) held_pos [of "ab_base s" cp t, OF b] held_le] obtain s1 where s1:
    "ab_lose_base e cp t s = Some s1" "ab_owned s1 = (ab_owned s)(cp := None)" "ab_assaulted s1 = ab_assaulted s"
    "ab_last_owned s1 = ab_last_owned s" "ab_captured s1 = (ab_captured s)(t := of_nat (?n t - 1))"
    "ab_guides s1 = (ab_guides s)(cp := None)"
    "ab_resources s1 = ab_resources s" "ab_last_honor s1 = ab_last_honor s" "bg_ended s1 = bg_ended s"
    "bg_started s1 = bg_started s" "bg_group s1 = bg_group s"
    "set (map fst (bg_resurrect s1)) = set (map fst (bg_resurrect s)) - set_option (ab_guides s cp)"
    "ws_step s [(CaptureBaseField t, of_nat (?n t - 1)), (OwnedFields cp t, 0)] s1"
    "bg_timers s1 = (if of_nat (?n t) - (1::u32) = 0 then tm_remove (EV_RESOURCES t) (bg_timers s)
     else tm_modify (EV_RESOURCES t) (ResourceUpdateIntervals ! unat (of_nat (?n t) - 1 :: u32)) (bg_timers s))"
    by blast
  have g: "guides_ok s1"
    by (rule guides_ok_upd [OF D(9), of _ cp None None]) (use s1(2,6,12) in auto)
  have srt: "timers_ok (bg_timers s1)" using D(13) unfolding s1(14) by simp
  have tmc: "tm_of (EV_CAPTURE c) (bg_timers s1) = tm_of (EV_CAPTURE c) (bg_timers s)" for c
    unfolding s1(14) by (simp add: tm_of_remove tm_of_modify)
  have res: "resources_in (?n(t := ?n t - 1)) (bg_timers s1)" if "\<not> bg_ended s"
    using tm_lose [where n = ?n and t = t, OF D(1) D(8) [OF that] held_pos [of "ab_base s" cp t, OF b] held_le]
    unfolding s1(14) by blast
  have cap: "tm_of (EV_CAPTURE cp) (bg_timers s) = []" if "\<not> bg_ended s"
    using D(7) [OF that, of cp] b by (simp add: capture_timers_def)
  have sh: "base_shown (Held t) cp (bg_states s)" using D(5) [of cp] b by simp
  have "released s cp s1"
    unfolding released_def Let_def hb
    using s1 g srt tmc res cap a sh D(4,6) by (auto simp: ws_step_def base_shown_def)
  with s1(1) show ?thesis by blast
qed

lemma assault_ok:
  assumes ok: "ab_ok s" and fresh: "guides_fresh e s" and st: "bg_started s"
  shows "\<exists>s'. AssaultControlPoint e p cp s = Some s' \<and> ab_ok s' \<and>
    ab_base s' = (ab_base s)(cp := base_assault (bp_team p) (ab_base s cp)) \<and> bg_started s' = bg_started s \<and> bg_group s' = bg_group s"
proof -
  note D = ab_okD [OF ok]
  let ?t = "bp_team p" and ?lo = "ab_last_owned s cp"
  have claim: "\<exists>s'. Some (ab_claim e p cp s1) = Some s' \<and> ab_ok s' \<and> ab_base s' = (ab_base s)(cp := Contested ?t ?lo) \<and>
      bg_started s' = bg_started s \<and> bg_group s' = bg_group s"
    if "released s cp s1" "?lo \<noteq> Some ?t" for s1
    using claim_ok [OF ok that, of e] releasedD(8-10) [OF that(1)] claim_step(9,10) [of s1 e p cp] by auto
  show ?thesis
  proof (cases "ab_owned s cp")
    case None
    let ?s1 = "if ab_assaulted s cp = None then bg_world_state e (NeutralFields cp) 0 s else s"
    note rel = released_unowned [OF ok None, of e]
    have o1: "ab_owned ?s1 cp = None" "ab_last_owned ?s1 = ab_last_owned s" using None by simp_all
    show ?thesis
    proof (cases "ab_assaulted s cp")
      case N2: None
      have "?lo = None" using D(3) [of cp] None N2 by simp
      with claim [OF rel] o1 st None N2 show ?thesis by (simp add: AssaultControlPoint_def ab_base_def)
    next
      case (Some a)
      have b: "ab_base s cp = Contested a ?lo" and la: "?lo \<noteq> Some a" using D(3) [of cp] None Some by (simp_all add: ab_base_def)
      show ?thesis
      proof (cases "?lo = Some ?t")
        case True
        with la Some have "ab_assaulted s cp \<noteq> Some ?t" by auto
        from defend_ok [OF ok fresh rel this] True Some None st b show ?thesis by (simp add: AssaultControlPoint_def)
      next
        case False
        with claim [OF rel] Some None st b show ?thesis by (simp add: AssaultControlPoint_def)
      qed
    qed
  next
    case (Some t)
    from released_lost [OF ok Some] obtain s1 where s1: "ab_lose_base e cp t s = Some s1" "released s cp s1" by blast
    have b: "ab_base s cp = Held t" and lo: "?lo = Some t" and a: "ab_assaulted s cp = None"
      using D(3) [of cp] Some by (simp_all add: ab_base_def)
    have o1: "ab_owned s1 cp = None" "ab_last_owned s1 = ab_last_owned s" using releasedD(1,3) [OF s1(2)] by simp_all
    have run: "AssaultControlPoint e p cp s = (if t = ?t then ab_defend e p cp s1 else Some (ab_claim e p cp s1))"
      using st Some s1(1) o1 lo by (simp add: AssaultControlPoint_def)
    show ?thesis
    proof (cases "t = ?t")
      case True
      have "ab_assaulted s cp \<noteq> Some ?t" using a by simp
      from defend_ok [OF ok fresh s1(2) this] True b show ?thesis by (simp add: run)
    next
      case False
      with claim [OF s1(2)] lo b show ?thesis by (simp add: run)
    qed
  qed
qed

section \<open>The other operations\<close>

text \<open>
  An operation that leaves the control points, the counters and the display alone, keeps the
  guides and changes at most timers of other types, keeps the invariant.
\<close>

lemma ab_ok_frame:
  assumes ok: "ab_ok s"
    and same: "ab_owned s' = ab_owned s" "ab_assaulted s' = ab_assaulted s" "ab_last_owned s' = ab_last_owned s"
      "ab_captured s' = ab_captured s" "ab_resources s' = ab_resources s" "ab_last_honor s' = ab_last_honor s"
      "ab_guides s' = ab_guides s" "bg_states s' = bg_states s" "bg_ended s \<Longrightarrow> bg_ended s'"
      "set (map fst (bg_resurrect s)) \<subseteq> set (map fst (bg_resurrect s'))"
    and tm: "timers_ok (bg_timers s')"
      "\<And>k. k \<in> range EV_CAPTURE \<union> range EV_RESOURCES \<Longrightarrow> \<not> bg_ended s' \<Longrightarrow> tm_of k (bg_timers s') = tm_of k (bg_timers s)"
  shows "ab_ok s' \<and> ab_base s' = ab_base s"
proof -
  have b: "ab_base s' = ab_base s" using same by (simp add: ab_base_def [abs_def])
  have "timers_shown (ab_base s) (bg_timers s')" if "\<not> bg_ended s'"
    using ok tm(2) [OF _ that] same(9) that by (auto simp: ab_ok_def timers_shown_def)
  moreover have "guides_ok s'" using ab_okD(9) [OF ok] same(10) unfolding guides_ok_def same(1,7) by blast
  ultimately show ?thesis using ok same(1-9) tm(1) b unfolding ab_ok_def by simp
qed

lemma ab_ok_same_frame: "ab_frame s' = ab_frame s \<Longrightarrow> ab_ok s \<Longrightarrow> ab_ok s' \<and> ab_base s' = ab_base s"
  by (rule ab_ok_frame) (simp_all add: frame_defs ab_ok_def)

lemma ab_ok_timers:
  assumes "ab_ok s" "timers_ok (f (bg_timers s))"
    "\<And>k. k \<in> range EV_CAPTURE \<union> range EV_RESOURCES \<Longrightarrow> tm_of k (f (bg_timers s)) = tm_of k (bg_timers s)"
  shows "ab_ok (bg_set_timers f s) \<and> ab_base (bg_set_timers f s) = ab_base s"
  by (rule ab_ok_frame [OF assms(1)]) (use assms(2,3) in \<open>simp_all add: bg_set_timers_def\<close>)

lemma ab_ok_emit [simp]: "ab_ok (bg_emit fx s) = ab_ok s" "ab_base (bg_emit fx s) = ab_base s"
  using ab_ok_same_frame [OF frame_emit, of s fx] ab_ok_same_frame [of s "bg_emit fx s"] frame_emit [of fx s]
  by (auto simp: ab_base_def [abs_def])

lemma ab_ok_pvp [simp]: "ab_ok s \<Longrightarrow> ab_ok (bg_update_pvp e s)" "ab_base (bg_update_pvp e s) = ab_base s"
  using ab_ok_same_frame [OF frame_update_pvp, of s e] by (auto simp: ab_base_def [abs_def])

lemma frame_SpawnBuff: "SpawnBuff e x s = Some s' \<Longrightarrow> ab_frame s' = ab_frame s"
  by (auto simp: SpawnBuff_def frame_defs spawn_go_def Let_def split: if_splits option.splits)

lemma buff_trigger_less: "buff_of_trigger i = Some x \<Longrightarrow> x < 5"
  by (auto simp: buff_of_trigger_def split: if_splits)

lemma trigger_ok:
  assumes "ab_ok s"
  shows "ab_ok (HookOnAreaTrigger e p i s) \<and> ab_base (HookOnAreaTrigger e p i s) = ab_base s"
proof -
  have "ab_ok (bg_set_timers (tm_add (CbBuff x) EVENT_AB_RESPAWN_BUFF AB_BUFF_RESPAWN_TIME 1) (s\<lparr> ab_buffs := bs \<rparr>)) \<and>
      ab_base (bg_set_timers (tm_add (CbBuff x) EVENT_AB_RESPAWN_BUFF AB_BUFF_RESPAWN_TIME 1) (s\<lparr> ab_buffs := bs \<rparr>)) = ab_base s"
    if "x < 5" for x bs
    by (rule ab_ok_frame [OF assms])
      (use ab_okD(1,13) [OF assms] that in \<open>auto simp: tm_of_add other_types [symmetric]\<close>)
  from this [OF buff_trigger_less] show ?thesis
    using assms by (auto simp: HookOnAreaTrigger_def Let_def split: option.splits)
qed

lemma countdown_ok:
  assumes "ab_ok s"
  shows "ab_ok (bg_countdown (ab_on_start e) s) \<and> ab_base (bg_countdown (ab_on_start e) s) = ab_base s"
  by (rule ab_ok_frame [OF assms])
    (use ab_okD(13) [OF assms] in \<open>auto simp: bg_countdown_def Let_def ab_on_start_def tm_of_remove tm_of_modify other_types [symmetric]
       other_types bg_emit_def bg_set_timers_def\<close>)

lemma idle_ok:
  assumes "ab_ok s"
  shows "ab_ok (bg_idle CbClose e (ab_on_remove p s)) \<and> ab_base (bg_idle CbClose e (ab_on_remove p s)) = ab_base s"
  by (rule ab_ok_frame [OF assms])
    (use ab_okD(1,13) [OF assms] in \<open>auto simp: bg_idle_def ab_on_remove_def tm_of_add tm_of_remove other_types [symmetric]
       other_types bg_emit_def bg_set_timers_def\<close>)

lemma enter_ok:
  assumes "ab_ok s"
  shows "ab_ok (ab_on_add p (bg_start_countdown CbCountdown s)) \<and> ab_base (ab_on_add p (bg_start_countdown CbCountdown s)) = ab_base s"
  by (rule ab_ok_frame [OF assms])
    (use ab_okD(1,13) [OF assms] in \<open>auto simp: bg_start_countdown_def ab_on_add_def tm_of_add tm_of_remove other_types [symmetric]
       other_types bg_emit_def bg_set_timers_def Let_def\<close>)

lemma guide_ops_ok:
  assumes "ab_ok s"
  shows "ab_ok (bg_queue_resurrect pid g s) \<and> ab_base (bg_queue_resurrect pid g s) = ab_base s"
    "ab_ok (bg_leave_guide pid g s) \<and> ab_base (bg_leave_guide pid g s) = ab_base s"
    "ab_ok (bg_resurrect_players e s) \<and> ab_base (bg_resurrect_players e s) = ab_base s"
proof -
  have k: "map fst (bg_resurrect (bg_resurrect_players e s)) = map fst (bg_resurrect s)"
    by (simp add: bg_resurrect_players_def bg_emit_def Let_def split_beta comp_def)
  show "ab_ok (bg_queue_resurrect pid g s) \<and> ab_base (bg_queue_resurrect pid g s) = ab_base s"
    by (rule ab_ok_frame [OF assms])
      (use ab_okD(13) [OF assms] in \<open>auto simp: bg_queue_resurrect_def bg_join_guide_def bg_emit_def simp flip: set_map\<close>)
  show "ab_ok (bg_leave_guide pid g s) \<and> ab_base (bg_leave_guide pid g s) = ab_base s"
    by (rule ab_ok_frame [OF assms])
      (use ab_okD(13) [OF assms] in \<open>auto simp: bg_leave_guide_def bg_emit_def simp flip: set_map\<close>)
  show "ab_ok (bg_resurrect_players e s) \<and> ab_base (bg_resurrect_players e s) = ab_base s"
  proof (rule ab_ok_frame [OF assms])
    show "set (map fst (bg_resurrect s)) \<subseteq> set (map fst (bg_resurrect (bg_resurrect_players e s)))" unfolding k ..
  qed (use ab_okD(13) [OF assms] in \<open>simp_all add: bg_resurrect_players_def bg_emit_def Let_def\<close>)
qed

lemma close_ok:
  assumes "ab_ok s"
  shows "ab_ok (bg_close e s) \<and> ab_base (bg_close e s) = ab_base s"
  by (rule ab_ok_frame [OF assms]) (use ab_okD(13) [OF assms] in \<open>simp_all add: bg_close_def bg_emit_def\<close>)

section \<open>Resources\<close>

lemma frame_honor: "HonorTable (bg_group s) \<noteq> None \<Longrightarrow> \<exists>s'. ab_honor s p = Some s' \<and> ab_frame s' = ab_frame s"
  by (auto simp: ab_honor_def frame_emit)

lemma frame_group: "ab_frame s' = ab_frame s \<Longrightarrow> bg_group s' = bg_group s"
  by (simp add: frame_defs)

lemma frame_reward: "HonorTable (bg_group s) \<noteq> None \<Longrightarrow> \<exists>s'. ab_reward i s p = Some s' \<and> ab_frame s' = ab_frame s"
proof -
  assume h: "HonorTable (bg_group s) \<noteq> None"
  let ?s = "bg_emit [FxCast (bp_guid p) 24953] (bg_emit [FxRoot (bp_guid p)] s)"
  from frame_honor [of ?s p] h obtain s' where "ab_honor ?s p = Some s'" "ab_frame s' = ab_frame s" by (auto simp: frame_emit)
  then show ?thesis by (simp add: ab_reward_def Let_def frame_emit)
qed

lemma frame_foldM:
  assumes "\<And>s p. HonorTable (bg_group s) \<noteq> None \<Longrightarrow> \<exists>s'. f s p = Some s' \<and> ab_frame s' = ab_frame s"
  shows "HonorTable (bg_group s) \<noteq> None \<Longrightarrow> \<exists>s'. foldM f s ps = Some s' \<and> ab_frame s' = ab_frame s"
proof (induction ps arbitrary: s)
  case (Cons p ps)
  from assms [OF Cons.prems] obtain s1 where s1: "f s p = Some s1" "ab_frame s1 = ab_frame s" by blast
  with Cons.IH [of s1] Cons.prems frame_group [OF s1(2)] show ?case by auto
qed simp

lemma win_ok:
  assumes "HonorTable (bg_group s) \<noteq> None"
  shows "\<exists>s'. ab_win e t s = Some s' \<and>
    ab_frame s' = ab_frame (bg_set_timers (tm_add CbClose EVENT_BATTLEGROUND_CLOSE 120000 1 \<circ> tm_remove EVENT_REMOVAL_FLAG_ALL)
      (s\<lparr> bg_ended := True \<rparr>))"
proof -
  let ?s = "bg_set_timers (tm_add CbClose EVENT_BATTLEGROUND_CLOSE 120000 1 \<circ> tm_remove EVENT_REMOVAL_FLAG_ALL)
      (s\<lparr> bg_ended := True, bg_losing := ucast (team_id (other_team t)), bg_next_pvp := 0 \<rparr>)"
  have h: "HonorTable (bg_group ?s) \<noteq> None" using assms by simp
  from frame_foldM [where f = "ab_reward Alliance", OF frame_reward h, of "env_players e Alliance"]
  obtain s1 where s1: "foldM (ab_reward Alliance) ?s (env_players e Alliance) = Some s1" "ab_frame s1 = ab_frame ?s" by blast
  from h have "HonorTable (bg_group s1) \<noteq> None" using frame_group [OF s1(2)] by simp
  from frame_foldM [where f = "ab_reward Horde", OF frame_reward this, of "env_players e Horde"]
  obtain s2 where s2: "foldM (ab_reward Horde) s1 (env_players e Horde) = Some s2" "ab_frame s2 = ab_frame s1" by blast
  have "ab_win e t s = Some s2" using s1(1) s2(1) by (simp add: ab_win_def Let_def)
  moreover have "ab_frame s2 = ab_frame (bg_set_timers (tm_add CbClose EVENT_BATTLEGROUND_CLOSE 120000 1 \<circ> tm_remove EVENT_REMOVAL_FLAG_ALL)
      (s\<lparr> bg_ended := True \<rparr>))"
    unfolding s2(2) s1(2) by (simp add: frame_defs bg_set_timers_def)
  ultimately show ?thesis by blast
qed

lemma states_shown_resources:
  "map_ok m \<Longrightarrow> states_shown b res m \<Longrightarrow> states_shown b (res(t := r)) (fst (ws_update ps m (resource_fields t) r))"
  by (simp add: states_shown_def base_shown_def)

definition resources_after :: "nat \<Rightarrow> u32 \<Rightarrow> u32" where
  "resources_after n r = (if n = 0 then r else min 2000 (r + (if n = 5 then 30 else 10)))"

text \<open>The state after the addition, up to what players and clients see of it.\<close>

definition resources_state :: "bg_env \<Rightarrow> bg_team \<Rightarrow> u32 \<Rightarrow> ab_state \<Rightarrow> ab_state" where
  "resources_state e t r s = bg_world_state e (resource_fields t) r (s\<lparr> ab_resources := (ab_resources s)(t := r) \<rparr>)"

lemma resources_state_ok:
  assumes ok: "ab_ok s" and r: "r < 2000"
  shows "ab_ok (resources_state e t r s)"
proof -
  note D = ab_okD [OF ok]
  have "states_shown (ab_base s) ((ab_resources s)(t := r)) (fst (ws_update (env_map e) (bg_states s) (resource_fields t) r))"
    using ok D(2) by (intro states_shown_resources) (simp_all add: ab_ok_def)
  with ok r D(2) show ?thesis
    by (auto simp: ab_ok_def resources_state_def ws_update_map guides_ok_def ab_base_def [abs_def])
qed

lemma win_state_ok:
  fixes e t
  assumes ok: "ab_ok s"
  defines "s' \<equiv> bg_set_timers (tm_add CbClose EVENT_BATTLEGROUND_CLOSE 120000 1 \<circ> tm_remove EVENT_REMOVAL_FLAG_ALL)
      (resources_state e t 2000 s\<lparr> bg_ended := True \<rparr>)"
  shows "ab_ok s'"
proof -
  note D = ab_okD [OF ok]
  have "states_shown (ab_base s) ((ab_resources s)(t := 2000)) (fst (ws_update (env_map e) (bg_states s) (resource_fields t) 2000))"
    using ok D(2) by (intro states_shown_resources) (simp_all add: ab_ok_def)
  with ok D(2,13) show ?thesis
    unfolding s'_def by (auto simp: ab_ok_def resources_state_def ws_update_map guides_ok_def ab_base_def [abs_def])
qed

lemma bonus_value: "n \<le> 5 \<Longrightarrow> PointBonusPerUpdate ! n = (if n = 0 then 0 else if n = 5 then 30 else 10)"
  by (auto simp: PointBonusPerUpdate_def nth_Cons split: nat.split)

lemma resources_ok:
  assumes ok: "ab_ok s" and h: "HonorTable (bg_group s) \<noteq> None"
  shows "\<exists>s'. EventUpdateResources e t s = Some s' \<and> ab_ok s' \<and> ab_base s' = ab_base s \<and>
    ab_resources s' = (ab_resources s)(t := resources_after (held (ab_base s) t) (ab_resources s t)) \<and>
    bg_started s' = bg_started s \<and> bg_group s' = bg_group s \<and>
    (bg_ended s' \<longleftrightarrow> bg_ended s \<or> 0 < held (ab_base s) t \<and> ab_resources s' t = 2000) \<and>
    (0 < held (ab_base s) t \<longrightarrow> ab_resources s' t = 2000 \<longrightarrow> bg_timers s' =
       [(EVENT_BATTLEGROUND_CLOSE, CbClose, 120000, 1)])"
proof -
  note D = ab_okD [OF ok]
  let ?n = "held (ab_base s) t" and ?r = "resources_after (held (ab_base s) t) (ab_resources s t)"
  have n5: "?n \<le> 5" by (rule held_le)
  have u: "unat (of_nat ?n :: u32) = ?n" using n5 by (intro small_u32) simp
  have bases: "(if 5 < ab_captured s t then 5 else ab_captured s t) = of_nat ?n"
    using n5 u by (auto simp: D(4) word_less_nat_alt)
  let ?sum = "ab_resources s t + PointBonusPerUpdate ! ?n"
  have r2: "ab_resources s t \<le> 2000" by (rule D(11))
  have small: "unat ?sum = unat (ab_resources s t) + unat (PointBonusPerUpdate ! ?n)"
    using r2 n5 by (subst unat_plus_if') (auto simp: bonus_value word_le_nat_alt)
  show ?thesis
  proof (cases "?n = 0")
    case True
    then have "?sum = ab_resources s t" by (simp add: bonus_value)
    then have "EventUpdateResources e t s = Some s" by (simp only: EventUpdateResources_def Let_def bases u) simp
    with ok True show ?thesis by (simp add: resources_after_def fun_upd_idem)
  next
    case False
    have n0: "0 < ?n" using False by simp
    have "unat (PointBonusPerUpdate ! ?n) \<noteq> 0" using False n5 by (simp add: bonus_value)
    then have ne: "?sum \<noteq> ab_resources s t" using small by (metis add_cancel_left_right)
    have r: "(if RESOURCES_WINVAL < ?sum then RESOURCES_WINVAL else ?sum) = ?r"
      using False n5 by (auto simp: resources_after_def RESOURCES_WINVAL_def bonus_value min_def)
    have r_le: "?r \<le> 2000" using False by (simp add: resources_after_def)
    let ?s1 = "s\<lparr> ab_resources := (ab_resources s)(t := ?r) \<rparr>"
    have "\<exists>s2. (if ab_to_gain ?s1 \<le> ?r - ab_last_honor ?s1 t then foldM ab_honor ?s1 (env_players e t) else Some ?s1) = Some s2 \<and>
        ab_frame s2 = ab_frame ?s1"
      using frame_foldM [where f = ab_honor, OF frame_honor, of ?s1 "env_players e t"] h by auto
    then obtain s2 where s2: "(if ab_to_gain ?s1 \<le> ?r - ab_last_honor ?s1 t then foldM ab_honor ?s1 (env_players e t) else Some ?s1) = Some s2"
      "ab_frame s2 = ab_frame ?s1" by blast
    let ?s4 = "ab_near_victory t ?r (bg_world_state e (resource_fields t) ?r s2)"
    have s4: "ab_frame ?s4 = ab_frame (resources_state e t ?r s)"
      using s2(2) unfolding frame_near by (simp add: frame_defs resources_state_def)
    have run: "EventUpdateResources e t s =
        (if ?r = 2000 then ab_win e t ?s4 else Some ?s4) \<bind> (\<lambda>s5. Some (bg_update_pvp e s5))"
      unfolding EventUpdateResources_def Let_def bases u if_not_P [OF ne] r s2(1) by (simp add: RESOURCES_WINVAL_def)
    show ?thesis
    proof (cases "?r = 2000")
      case True
      have "HonorTable (bg_group ?s4) \<noteq> None" using h s4 frame_group [OF s4] by (simp add: resources_state_def)
      from win_ok [OF this, of e t] obtain s5 where s5: "ab_win e t ?s4 = Some s5"
        "ab_frame s5 = ab_frame (bg_set_timers (tm_add CbClose EVENT_BATTLEGROUND_CLOSE 120000 1 \<circ> tm_remove EVENT_REMOVAL_FLAG_ALL)
          (?s4\<lparr> bg_ended := True \<rparr>))" by blast
      have f: "ab_frame s5 = ab_frame (bg_set_timers (tm_add CbClose EVENT_BATTLEGROUND_CLOSE 120000 1 \<circ> tm_remove EVENT_REMOVAL_FLAG_ALL)
          (resources_state e t 2000 s\<lparr> bg_ended := True \<rparr>))"
        using s4 True unfolding s5(2) by (simp add: frame_defs)
      from ab_ok_same_frame [OF f win_state_ok [OF ok]] have ok5: "ab_ok s5" by simp
      have sel: "ab_resources s5 = (ab_resources s)(t := ?r)" "ab_owned s5 = ab_owned s" "ab_assaulted s5 = ab_assaulted s"
        "ab_last_owned s5 = ab_last_owned s" "bg_ended s5" "bg_started s5 = bg_started s" "bg_group s5 = bg_group s"
        "bg_timers s5 = tm_add CbClose EVENT_BATTLEGROUND_CLOSE 120000 1 (tm_remove EVENT_REMOVAL_FLAG_ALL (bg_timers s))"
        using f True by (simp_all add: frame_defs resources_state_def)
      have "tm_remove EVENT_REMOVAL_FLAG_ALL (bg_timers s) = []" by (simp add: tm_remove_def)
      moreover have "ab_base s5 = ab_base s" using sel by (simp add: ab_base_def [abs_def])
      ultimately show ?thesis using ok5 run True s5(1) sel n0 by (simp add: tm_add_def mm_insert_def)
    next
      case False
      then have "?r < 2000" using r_le by simp
      from ab_ok_same_frame [OF s4 resources_state_ok [OF ok this]] have ok4: "ab_ok ?s4" by simp
      have sel: "ab_resources ?s4 = (ab_resources s)(t := ?r)" "ab_owned ?s4 = ab_owned s" "ab_assaulted ?s4 = ab_assaulted s"
        "ab_last_owned ?s4 = ab_last_owned s" "bg_ended ?s4 = bg_ended s" "bg_started ?s4 = bg_started s" "bg_group ?s4 = bg_group s"
        using s4 by (simp_all add: frame_defs resources_state_def)
      have "ab_base ?s4 = ab_base s" using sel by (simp add: ab_base_def [abs_def])
      with ok4 run False sel show ?thesis by simp
    qed
  qed
qed

section \<open>Reachable states\<close>

lemma ws_create_many:
  "map_ok m \<Longrightarrow> map_ok (fold (\<lambda>(i, v) m. ws_create m i v f z) ups m) \<and>
    ws_get (fold (\<lambda>(i, v) m. ws_create m i v f z) ups m) = fold (\<lambda>(i, v) g. g(i \<mapsto> v)) ups (ws_get m)"
  by (induction ups arbitrary: m) auto

lemma fold_upd: "fold (\<lambda>(i, v) g. g(i \<mapsto> v)) ups g = g ++ map_of (rev ups)"
  by (induction ups arbitrary: g) (auto simp: fun_eq_iff map_add_def split: option.split)

lemma init_states_shown:
  assumes "map_ok m"
  shows "states_shown (\<lambda>_. Unclaimed) (\<lambda>_. 0) (fold (\<lambda>(i, v) m. ws_create m i v f z) ab_init_states m)"
proof -
  note defs = ab_init_states_def NeutralFields_def AssaultFields_def OwnedFields_def CaptureBaseField_def
    resource_fields_def RESOURCES_WINVAL_def
  have "map_of (rev ab_init_states) (NeutralFields cp) = Some 1 \<and> map_of (rev ab_init_states) (OwnedFields cp t) = Some 0 \<and>
      map_of (rev ab_init_states) (AssaultFields cp t) = Some 0" for cp t
    by (cases cp; cases t) (simp_all add: defs)
  moreover have "map_of (rev ab_init_states) (CaptureBaseField t) = Some 0 \<and> map_of (rev ab_init_states) (resource_fields t) = Some 0" for t
    by (cases t) (simp_all add: defs)
  ultimately show ?thesis
    using ws_create_many [OF assms, of f z ab_init_states]
    by (simp add: states_shown_def base_shown_def fold_upd held_def map_add_find_right)
qed

lemma frame_gates: "foldM (ab_spawn_gate e) s es = Some s' \<Longrightarrow> ab_frame s' = ab_frame s"
proof (induction es arbitrary: s)
  case (Cons x es)
  from Cons.prems obtain s1 where s1: "ab_spawn_gate e s x = Some s1" "foldM (ab_spawn_gate e) s1 es = Some s'"
    by (auto simp: bind_eq_Some_conv)
  from s1(1) have "ab_frame s1 = ab_frame s"
    by (auto simp: ab_spawn_gate_def spawn_go_def Let_def bind_eq_Some_conv frame_defs)
  with Cons.IH [OF s1(2)] show ?case by simp
qed simp

lemma frame_buffs: "foldM (\<lambda>s x. SpawnBuff e x s) s xs = Some s' \<Longrightarrow> ab_frame s' = ab_frame s"
proof (induction xs arbitrary: s)
  case (Cons x xs)
  from Cons.prems obtain s1 where "SpawnBuff e x s = Some s1" "foldM (\<lambda>s x. SpawnBuff e x s) s1 xs = Some s'"
    by (auto simp: bind_eq_Some_conv)
  with Cons.IH [of s1] frame_SpawnBuff show ?case by metis
qed simp

lemma start_ok:
  assumes "map_ok m" "ab_fire e gs (EVENT_BATTLEGROUNDMGR_QUEUE_UPDATE, CbCreate, 1, 1) (ab_create grp m guid weekend e) = Some s"
  shows "ab_ok s \<and> ab_base s = (\<lambda>_. Unclaimed) \<and> bg_group s = grp \<and> (\<forall>t. ab_resources s t = 0)"
proof -
  let ?s = "ab_create grp m guid weekend e" and ?ev = "(EVENT_BATTLEGROUNDMGR_QUEUE_UPDATE, CbCreate, 1, 1)"
  from assms(2) obtain s0 s2 where s0: "foldM (ab_spawn_gate e) ?s [180255, 180256] = Some s0"
    "foldM (\<lambda>s x. SpawnBuff e x s) (fold (\<lambda>cp. SpawnControlPoint e cp Neutral) [Stable, Blacksmith, LumberMill, Mine, Farm] s0)
       [0, 1, 3, 4, 2] = Some s2"
    "s = bg_set_timers (tm_spend ?ev) (ab_create_states (bg_add_guide (snd gs) (bg_add_guide (fst gs) s2)))"
    unfolding ab_fire_def ab_run_def ab_on_create_def by (auto simp: bind_eq_Some_conv)
  have f: "ab_frame s2 = ab_frame ?s"
    using frame_buffs [OF s0(2)] frame_gates [OF s0(1)] by (simp add: frame_spawn_point)
  have tm: "bg_timers ?s = [(EVENT_BATTLEGROUNDMGR_QUEUE_UPDATE, CbResurrect, 30000, 0), ?ev]"
    by (simp add: ab_create_def ab_set_weekend_def bg_set_timers_def ab_new_def tm_add_def mm_insert_def)
  have s2: "ab_core s2 = ab_core ?s" "bg_resurrect s2 = []" "bg_states s2 = m"
    using f by (simp_all add: frame_defs ab_create_def ab_set_weekend_def bg_set_timers_def ab_new_def)
  have core: "ab_core s = ab_core (?s\<lparr> bg_timers := [(EVENT_BATTLEGROUNDMGR_QUEUE_UPDATE, CbResurrect, 30000, 0)] \<rparr>)"
    using s2(1) tm unfolding s0(3)
    by (simp add: ab_core_def ab_create_states_def bg_add_guide_def bg_set_timers_def tm_spend_def split: option.split)
  have st: "bg_states s = fold (\<lambda>(i, v) m. ws_create m i v FACTION_MASK_ALL ZONE_MASK_ALL) ab_init_states m"
    unfolding s0(3) using s2(3) by (simp add: ab_create_states_def bg_add_guide_def bg_set_timers_def split: option.split)
  have sel: "ab_owned s = (\<lambda>_. None)" "ab_assaulted s = (\<lambda>_. None)" "ab_last_owned s = (\<lambda>_. None)" "ab_captured s = (\<lambda>_. 0)"
    "ab_resources s = (\<lambda>_. 0)" "ab_last_honor s = (\<lambda>_. 0)" "ab_guides s = (\<lambda>_. None)" "bg_ended s = False" "bg_group s = grp"
    "bg_timers s = [(EVENT_BATTLEGROUNDMGR_QUEUE_UPDATE, CbResurrect, 30000, 0)]"
    using core by (simp_all add: ab_core_def ab_create_def ab_set_weekend_def bg_set_timers_def ab_new_def)
  have b: "ab_base s = (\<lambda>_. Unclaimed)" using sel by (simp add: ab_base_def [abs_def])
  have t: "timers_shown (\<lambda>_. Unclaimed) (bg_timers s)"
    by (simp add: timers_shown_def sel tm_of_def capture_timers_def resource_timers_def held_def)
  have "ab_ok s"
    unfolding ab_ok_def b using init_states_shown [OF assms(1)] ws_create_many [OF assms(1)] t
    by (simp add: sel st timers_ok_def held_def guides_ok_def)
  with b sel show ?thesis by simp
qed

text \<open>A timer that is due: what its callback is known to do, and the invariant afterwards.\<close>

lemma spend_ok:
  assumes "ab_ok s" "timer_ok (k, cb, ms, r)" "\<forall>cp t. cb \<noteq> CbCapture cp t"
  shows "ab_ok (bg_set_timers (tm_spend (k, cb, ms, r)) s) \<and> ab_base (bg_set_timers (tm_spend (k, cb, ms, r)) s) = ab_base s"
proof (rule ab_ok_timers [OF assms(1)])
  have r: "r = 0 \<or> r = 1" using assms(2) by (cases cb) auto
  then show "timers_ok (tm_spend (k, cb, ms, r) (bg_timers s))" by (rule timers_ok_spend [OF ab_okD(13) [OF assms(1)]])
  fix k' assume k': "k' \<in> range EV_CAPTURE \<union> range EV_RESOURCES"
  show "tm_of k' (tm_spend (k, cb, ms, r) (bg_timers s)) = tm_of k' (bg_timers s)"
  proof (cases "r = 0")
    case False
    with r have r1: "r = 1" by simp
    then have "k' \<noteq> k" using assms(2,3) k' by (cases cb) (auto simp: other_types [symmetric])
    then show ?thesis by (simp add: r1 tm_spend_sel(2) [OF ab_okD(1) [OF assms(1)]])
  qed (simp add: tm_spend_sel(3) [OF ab_okD(1) [OF assms(1)]])
qed

lemma fire_ok:
  assumes ok: "ab_ok s" and ev: "ev \<in> set (bg_timers s)" and fresh: "guides_fresh e s" and r: "ab_fire e gs ev s = Some s'"
    and h: "unat (bg_group s) < 8"
  shows "ab_ok s' \<and> bg_group s' = bg_group s \<and>
    ab_base s' = (case fst (snd ev) of CbCapture cp t \<Rightarrow> (ab_base s)(cp := base_expire t (ab_base s cp)) | _ \<Rightarrow> ab_base s)"
proof -
  obtain k cb ms rep where e: "ev = (k, cb, ms, rep)" by (cases ev)
  have t: "timer_ok (k, cb, ms, rep)" using ab_okD(13) [OF ok] ev e by (simp add: timers_ok_def)
  have other: ?thesis
    if "ab_run e gs cb s = Some s1" "ab_ok s1 \<and> ab_base s1 = ab_base s" "bg_group s1 = bg_group s" "\<forall>cp t. cb \<noteq> CbCapture cp t" for s1
  proof -
    have "s' = bg_set_timers (tm_spend ev) s1" using r that(1) e by (simp add: ab_fire_def)
    then show ?thesis using spend_ok [of s1, OF _ t that(4)] that e by (cases cb) simp_all
  qed
  show ?thesis
  proof (cases cb)
    case CbCreate
    with t show ?thesis by simp
  next
    case CbResurrect
    show ?thesis by (rule other [of "bg_resurrect_players e s"])
      (use guide_ops_ok(3) [OF ok] CbResurrect in \<open>simp_all add: ab_run_def bg_resurrect_players_def Let_def\<close>)
  next
    case CbCountdown
    show ?thesis by (rule other [of "bg_countdown (ab_on_start e) s"])
      (use countdown_ok [OF ok] CbCountdown in \<open>simp_all add: ab_run_def bg_countdown_def ab_on_start_def Let_def\<close>)
  next
    case CbClose
    show ?thesis by (rule other [of "bg_close e s"]) (use close_ok [OF ok] CbClose in \<open>simp_all add: ab_run_def bg_close_def\<close>)
  next
    case (CbResources tt)
    have "HonorTable (bg_group s) \<noteq> None" using h by (simp add: HonorTable_def)
    from resources_ok [OF ok this, of e tt] obtain s1 where "EventUpdateResources e tt s = Some s1" "ab_ok s1" "ab_base s1 = ab_base s"
      "bg_group s1 = bg_group s" by blast
    then show ?thesis by (intro other [of s1]) (simp_all add: CbResources ab_run_def)
  next
    case (CbCapture cp tt)
    have ev': "ev = (EV_CAPTURE cp, CbCapture cp tt, 60000, 1)" using t e CbCapture by simp
    from capture_fires [OF ok fresh, of gs cp tt] r ev ev' show ?thesis by auto
  next
    case (CbBuff x)
    have "\<exists>s1. SpawnBuff e x s = Some s1" using r e CbBuff by (auto simp: ab_fire_def ab_run_def bind_eq_Some_conv)
    then obtain s1 where s1: "SpawnBuff e x s = Some s1" by blast
    note f = frame_SpawnBuff [OF s1]
    show ?thesis by (rule other [of s1]) (use s1 ab_ok_same_frame [OF f ok] f CbBuff in \<open>simp_all add: ab_run_def frame_defs\<close>)
  qed
qed

lemma open_ok:
  assumes ok: "ab_ok s" and fresh: "guides_fresh e s" and r: "HookSlowLockOpen e p slot s = Some (s', b)"
  shows "ab_ok s' \<and> bg_group s' = bg_group s"
proof -
  have "ab_ok s'' \<and> bg_group s'' = bg_group s" if "AssaultControlPoint e p cp s = Some s''" for cp s''
  proof (cases "bg_started s")
    case True
    from assault_ok [OF ok fresh this, of p cp] that show ?thesis by auto
  qed (use that ok in \<open>auto simp: AssaultControlPoint_def\<close>)
  with r ok show ?thesis
    by (auto simp: HookSlowLockOpen_def bind_eq_Some_conv split: if_splits option.splits)
qed

lemma ab_reach_ok: "ab_reach grp s \<Longrightarrow> unat grp < 8 \<Longrightarrow> ab_ok s \<and> bg_group s = grp"
proof (induction rule: ab_reach.induct)
  case (ab_start m e guides grp guid weekend s)
  with start_ok show ?case by blast
next
  case (ab_timer grp s ev e guides s')
  with fire_ok [of s ev e guides s'] show ?case by simp
next
  case (ab_open grp s e p slot s' b)
  with open_ok [of s e p slot s' b] show ?case by simp
next
  case (ab_trigger grp s e p i)
  then show ?case using trigger_ok [of s e p i]
    by (simp add: HookOnAreaTrigger_def Let_def split: option.split)
next
  case (ab_queue grp s pid g)
  then show ?case using guide_ops_ok(1) [of s pid g] by (simp add: bg_queue_resurrect_def)
next
  case (ab_unqueue grp s pid g)
  then show ?case using guide_ops_ok(2) [of s pid g] by (simp add: bg_leave_guide_def)
next
  case (ab_repop grp s e p)
  then show ?case by (simp add: HookHandleRepop_def)
next
  case (ab_score grp s s' e p v)
  then show ?case by (auto simp: ab_on_death_def ab_on_kill_def ab_on_hk_def)
next
  case (ab_enter grp s p)
  then show ?case using enter_ok [of s p] by (simp add: ab_on_add_def bg_start_countdown_def Let_def)
next
  case (ab_leave grp s e p)
  then show ?case using idle_ok [of s e p] by (simp add: ab_on_remove_def bg_idle_def)
next
  case (ab_weekend grp s w)
  then show ?case using ab_ok_frame [of s "ab_set_weekend w s"] ab_okD(13) [of s] by (simp add: ab_set_weekend_def)
qed

end
