(* ===== verification/HS_ArathiGame.thy ===== *)
theory HS_ArathiGame
  imports HS_ArathiRules
begin

text \<open>
  What a game of Arathi Basin guarantees to its players, stated on reachable games, with concrete
  games as witnesses.
\<close>

section \<open>Properties\<close>

text \<open>
  C6. The game state is consistent: in every reachable game of a level group the tables cover, the
  base counter of a team is the number of control points it holds, at most five; the icons, the
  base counts and the resources the clients display are those of the game; no honor mark of earlier
  resources is ever kept; and until the game is over a capture timer runs exactly for the contested
  points, for the team that contests, and a resource timer exactly for the teams that hold points,
  with the period of their number.
\<close>

theorem ab_consistent:
  assumes "ab_reach grp s" "unat grp < 8"
  shows "(\<forall>t. ab_captured s t = of_nat (held (ab_base s) t) \<and> held (ab_base s) t \<le> 5 \<and> ab_last_honor s t = 0) \<and>
    states_shown (ab_base s) (ab_resources s) (bg_states s) \<and>
    (\<not> bg_ended s \<longrightarrow> timers_shown (ab_base s) (bg_timers s))"
  using ab_reach_ok [OF assms] held_le by (auto simp: ab_ok_def)

text \<open>A run of the game: created, started, the alliance claims the stables and captures them.\<close>

definition demo_env :: bg_env where
  "demo_env = \<lparr> env_now = 100, env_players = (\<lambda>_. []), env_map = [], env_find = (\<lambda>_. None), env_dist = (\<lambda>_ _. 0),
     env_gy = (\<lambda>_ _. 0), env_go = (\<lambda>i. Some \<lparr> gi_id = i, gi_type = 0, gi_display = 0, gi_sound3 = 0 \<rparr>),
     env_guide = None, env_rand = 0 \<rparr>"

definition demo_player :: "bg_team \<Rightarrow> bg_player" where
  "demo_player t = \<lparr> bp_guid = 7 + team_id t, bp_team = t, bp_dead = False, bp_flag2 = False, bp_ineligible = False \<rparr>"

definition demo_start :: ab_state where
  "demo_start = the (ab_fire demo_env (None, None) (EVENT_BATTLEGROUNDMGR_QUEUE_UPDATE, CbCreate, 1, 1) (ab_create 6 [] 0 False demo_env))"

lemma demo_env_sel [simp]:
  "env_go demo_env i = Some \<lparr> gi_id = i, gi_type = 0, gi_display = 0, gi_sound3 = 0 \<rparr>" "env_rand demo_env = 0"
  "env_guide demo_env = None" "env_players demo_env t = []"
  by (simp_all add: demo_env_def)

lemma buff_0: "x < 5 \<Longrightarrow> \<exists>s'. SpawnBuff demo_env x s = Some s'"
  by (simp add: SpawnBuff_def Let_def)

lemma ab_demo_reach: "ab_reach 6 demo_start"
proof -
  have g: "\<exists>s'. ab_spawn_gate demo_env s i = Some s'" for s i
    by (simp add: ab_spawn_gate_def spawn_go_def Let_def)
  have b: "\<exists>s'. foldM (\<lambda>s x. SpawnBuff demo_env x s) s xs = Some s'" if "\<forall>x \<in> set xs. x < 5" for s xs
    using that
  proof (induction xs arbitrary: s)
    case (Cons x xs)
    then obtain s1 where "SpawnBuff demo_env x s = Some s1" using buff_0 [of x s] by fastforce
    with Cons show ?case by simp
  qed simp
  have "\<exists>s'. ab_run demo_env (None, None) CbCreate s = Some s'" for s
  proof -
    obtain s1 where s1: "ab_spawn_gate demo_env s 180255 = Some s1" using g by blast
    obtain s2 where s2: "ab_spawn_gate demo_env s1 180256 = Some s2" using g by blast
    then have gates: "foldM (ab_spawn_gate demo_env) s [180255, 180256] = Some s2" using s1 by simp
    obtain s3 where s3: "foldM (\<lambda>s x. SpawnBuff demo_env x s)
        (fold (\<lambda>cp. SpawnControlPoint demo_env cp Neutral) [Stable, Blacksmith, LumberMill, Mine, Farm] s2) [0, 1, 3, 4, 2] = Some s3"
      using b [of "[0, 1, 3, 4, 2]"] by fastforce
    show ?thesis unfolding ab_run_def ab_on_create_def gates Let_def ab_cb.case bind.bind_lunit s3 by blast
  qed
  then obtain s where "ab_run demo_env (None, None) CbCreate (ab_create 6 [] 0 False demo_env) = Some s" by blast
  then have "ab_fire demo_env (None, None) (EVENT_BATTLEGROUNDMGR_QUEUE_UPDATE, CbCreate, 1, 1) (ab_create 6 [] 0 False demo_env) = Some demo_start"
    by (simp add: demo_start_def ab_fire_def)
  then show ?thesis by (rule ab_start [rotated]) simp
qed

section \<open>Scripted games\<close>

text \<open>A move of a scripted game: the \<open>i\<close>th timer is due, a player enters, a player opens a banner.\<close>

datatype ab_act = Due nat | Enter bg_team | Open bg_team int

fun ab_play :: "ab_state \<Rightarrow> ab_act \<Rightarrow> ab_state option" where
  "ab_play s (Due i) = (if i < length (bg_timers s) then ab_fire demo_env (None, None) (bg_timers s ! i) s else None)"
| "ab_play s (Enter t) = Some (ab_on_add (demo_player t) (bg_start_countdown CbCountdown s))"
| "ab_play s (Open t slot) = map_option fst (HookSlowLockOpen demo_env (demo_player t) slot s)"

lemma fresh_demo [simp]: "guides_fresh demo_env s"
  by (simp add: guides_fresh_def)

lemma ab_play_reach: "foldM ab_play s acts = Some s' \<Longrightarrow> ab_reach grp s \<Longrightarrow> ab_reach grp s'"
proof (induction acts arbitrary: s)
  case (Cons a acts)
  then obtain s1 where s1: "ab_play s a = Some s1" "foldM ab_play s1 acts = Some s'" by (auto simp: bind_eq_Some_conv)
  have "ab_reach grp s1"
  proof (cases a)
    case (Due i)
    with s1(1) have "i < length (bg_timers s)" "ab_fire demo_env (None, None) (bg_timers s ! i) s = Some s1" by (auto split: if_splits)
    with ab_timer [OF Cons.prems(2) nth_mem fresh_demo] show ?thesis by blast
  next
    case (Enter t)
    with s1(1) ab_enter [OF Cons.prems(2)] show ?thesis by auto
  next
    case (Open t slot)
    with s1(1) obtain b where "HookSlowLockOpen demo_env (demo_player t) slot s = Some (s1, b)" by auto
    with ab_open [OF Cons.prems(2) fresh_demo] show ?thesis by blast
  qed
  from Cons.IH [OF s1(2) this] show ?case .
qed simp

text \<open>The countdown, then the alliance claims the stables and a minute passes.\<close>

definition countdown_acts :: "ab_act list" where
  "countdown_acts = [Enter Alliance, Due 1, Due 1, Due 1, Due 1]"

definition demo_game :: ab_state where
  "demo_game = the (foldM ab_play demo_start (countdown_acts @ [Open Alliance 0, Due 1, Open Horde 4]))"

lemma demo_game_run:
  "case foldM ab_play demo_start (countdown_acts @ [Open Alliance 0, Due 1, Open Horde 4]) of None \<Rightarrow> False
   | Some s \<Rightarrow> bg_started s \<and> \<not> bg_ended s \<and> ab_owned s Stable = Some Alliance \<and> ab_assaulted s LumberMill = Some Horde \<and>
       ab_owned s LumberMill = None \<and> ab_owned s Farm = None \<and> ab_assaulted s Farm = None \<and> ab_captured s Alliance = 1 \<and> bg_timers s = [(134, CbResurrect, 30000, 0), (143, CbResources Alliance, 12000, 0), (149, CbCapture LumberMill Horde, 60000, 1)]"
  by code_simp

lemma demo_game_facts:
  "ab_reach 6 demo_game" "bg_started demo_game" "\<not> bg_ended demo_game" "ab_base demo_game Stable = Held Alliance"
  "ab_owned demo_game LumberMill = None" "ab_assaulted demo_game LumberMill = Some Horde"
  "bg_timers demo_game = [(134, CbResurrect, 30000, 0), (143, CbResources Alliance, 12000, 0), (149, CbCapture LumberMill Horde, 60000, 1)]"
  "ab_base demo_game Farm = Unclaimed" "ab_captured demo_game Alliance = 1"
proof -
  obtain s where s: "foldM ab_play demo_start (countdown_acts @ [Open Alliance 0, Due 1, Open Horde 4]) = Some s"
    using demo_game_run by (cases "foldM ab_play demo_start (countdown_acts @ [Open Alliance 0, Due 1, Open Horde 4])") auto
  then have d: "demo_game = s" by (simp only: demo_game_def option.sel)
  from demo_game_run show "bg_started demo_game" "\<not> bg_ended demo_game" "ab_base demo_game Stable = Held Alliance"
    "ab_owned demo_game LumberMill = None" "ab_assaulted demo_game LumberMill = Some Horde"
    "ab_base demo_game Farm = Unclaimed" "ab_captured demo_game Alliance = 1"
    "bg_timers demo_game = [(134, CbResurrect, 30000, 0), (143, CbResources Alliance, 12000, 0), (149, CbCapture LumberMill Horde, 60000, 1)]"
    unfolding s d by (simp_all add: ab_base_def)
  show "ab_reach 6 demo_game" unfolding d by (rule ab_play_reach [OF s ab_demo_reach])
qed

theorem ab_consistent_witness:
  "ab_captured demo_game Alliance = of_nat (held (ab_base demo_game) Alliance) \<and>
    ws_get (bg_states demo_game) (OwnedFields Stable Alliance) = Some 1 \<and>
    tm_of (EV_CAPTURE LumberMill) (bg_timers demo_game) = [(EV_CAPTURE LumberMill, CbCapture LumberMill Horde, 60000, 1)]"
proof -
  have b: "\<exists>lo. ab_base demo_game LumberMill = Contested Horde lo" using demo_game_facts(5,6) by (simp add: ab_base_def)
  show ?thesis
    using ab_consistent [OF demo_game_facts(1)] demo_game_facts(3,4) b
    by (auto simp: states_shown_def base_shown_def timers_shown_def capture_timers_def)
qed

text \<open>
  C2. The operations play the abstract game: in a reachable game of a level group below 8, with spirit
  guides that push fresh objects, opening a banner is always defined, tells whether the
  banner was there and could be touched, and changes exactly that control point by the rules (and nothing before the start, or for a player who may not
  touch flags, or at a slot that is no banner); of all timers only a capture changes the game, and it
  does so by the rules.
\<close>

theorem ab_plays_rules:
  assumes "ab_reach grp s" "unat grp < 8" "guides_fresh e s"
  shows "(\<exists>s'. HookSlowLockOpen e p slot s = Some (s', cp_of_slot slot \<noteq> None \<and> \<not> bp_ineligible p) \<and>
      ab_base s' = (case cp_of_slot slot of
        Some cp \<Rightarrow> if bg_started s \<and> \<not> bp_ineligible p then (ab_base s)(cp := base_assault (bp_team p) (ab_base s cp)) else ab_base s
      | None \<Rightarrow> ab_base s)) \<and>
    (\<forall>ev \<in> set (bg_timers s). \<forall>gs s'. ab_fire e gs ev s = Some s' \<longrightarrow>
      ab_base s' = (case fst (snd ev) of CbCapture cp t \<Rightarrow> (ab_base s)(cp := base_expire t (ab_base s cp)) | _ \<Rightarrow> ab_base s))"
proof -
  have ok: "ab_ok s" and g: "unat (bg_group s) < 8" using ab_reach_ok [OF assms(1,2)] assms(2) by simp_all
  have "\<exists>s'. HookSlowLockOpen e p slot s = Some (s', cp_of_slot slot \<noteq> None \<and> \<not> bp_ineligible p) \<and>
      ab_base s' = (case cp_of_slot slot of
        Some cp \<Rightarrow> if bg_started s \<and> \<not> bp_ineligible p then (ab_base s)(cp := base_assault (bp_team p) (ab_base s cp)) else ab_base s
      | None \<Rightarrow> ab_base s)"
  proof (cases "bg_started s")
    case True
    show ?thesis
    proof (cases "cp_of_slot slot")
      case (Some cp)
      from assault_ok [OF ok assms(3) True, of p cp] obtain s' where "AssaultControlPoint e p cp s = Some s'"
        "ab_base s' = (ab_base s)(cp := base_assault (bp_team p) (ab_base s cp))" by blast
      with Some True show ?thesis by (simp add: HookSlowLockOpen_def)
    qed (simp add: HookSlowLockOpen_def)
  next
    case False
    then show ?thesis
      by (cases "cp_of_slot slot") (auto simp: HookSlowLockOpen_def AssaultControlPoint_def)
  qed
  with fire_ok [OF ok _ assms(3) _ g] show ?thesis by blast
qed

theorem ab_plays_rules_witness:
  "\<exists>s1 s2 b. HookSlowLockOpen demo_env (demo_player Horde) 0 demo_game = Some (s1, b) \<and>
    ab_base s1 Stable = Contested Horde (Some Alliance) \<and> ab_base s1 LumberMill = ab_base demo_game LumberMill \<and>
    (ab_fire demo_env (None, None) (149, CbCapture LumberMill Horde, 60000, 1) demo_game = Some s2 \<longrightarrow>
       ab_base s2 LumberMill = Held Horde)"
proof -
  have p: "bp_team (demo_player Horde) = Horde" "\<not> bp_ineligible (demo_player Horde)" by (simp_all add: demo_player_def)
  have b: "\<exists>lo. ab_base demo_game LumberMill = Contested Horde lo" using demo_game_facts(5,6) by (simp add: ab_base_def)
  note r = ab_plays_rules [OF demo_game_facts(1) _ fresh_demo]
  have m: "(149, CbCapture LumberMill Horde, 60000, 1) \<in> set (bg_timers demo_game)" by (simp add: demo_game_facts(7))
  obtain s1 b1 where "HookSlowLockOpen demo_env (demo_player Horde) 0 demo_game = Some (s1, b1)"
    "ab_base s1 = (ab_base demo_game)(Stable := Contested Horde (Some Alliance))"
    using r [of "demo_player Horde" 0] demo_game_facts(2,4) p by (auto simp: cp_of_slot_def)
  moreover have "ab_base s2 LumberMill = Held Horde"
    if "ab_fire demo_env (None, None) (149, CbCapture LumberMill Horde, 60000, 1) demo_game = Some s2" for s2
    using r [of "demo_player Horde" 0] m that b by auto
  ultimately show ?thesis by (intro exI [of _ s1]) auto
qed

text \<open>
  C26. Resources stay within bounds: in every reachable game of a level group below 8 (players up to
  level 79) no team has more than 2000, whoever has 2000 has ended the game, and a resource timer is
  defined, never takes resources away and adds to its own team only - 10, or 30 with all five points,
  cut at 2000. In level group 8 the timer may read behind the honor tables: see \<open>ab_honor_overrun\<close>.
\<close>

theorem ab_resources_bounded:
  assumes "ab_reach grp s" "unat grp < 8"
  shows "ab_resources s t \<le> 2000 \<and> (ab_resources s t = 2000 \<longrightarrow> bg_ended s) \<and>
    (\<exists>s'. EventUpdateResources e t s = Some s' \<and> ab_resources s t \<le> ab_resources s' t \<and> ab_resources s' t \<le> 2000 \<and>
      ab_resources s' = (ab_resources s)(t := resources_after (held (ab_base s) t) (ab_resources s t)))"
proof -
  have ok: "ab_ok s" and h: "HonorTable (bg_group s) \<noteq> None" using ab_reach_ok [OF assms] assms(2) by (simp_all add: HonorTable_def)
  note D = ab_okD [OF ok]
  have r: "ab_resources s t \<le> 2000" by (rule D(11))
  have "ab_resources s t \<le> resources_after n (ab_resources s t) \<and> resources_after n (ab_resources s t) \<le> 2000" for n
  proof -
    have "ab_resources s t \<le> ab_resources s t + 30" "ab_resources s t \<le> ab_resources s t + 10"
      using r by (auto simp: word_le_nat_alt unat_plus_if')
    then show ?thesis using r by (auto simp: resources_after_def)
  qed
  then show ?thesis using resources_ok [OF ok h, of e t] D(12) r by fastforce
qed

theorem ab_resources_bounded_witness:
  "\<exists>s'. EventUpdateResources demo_env Alliance demo_game = Some s' \<and> ab_resources s' Alliance \<le> 2000"
  using ab_resources_bounded [OF demo_game_facts(1), of Alliance demo_env] by fastforce

text \<open>
  The resource timer of a team fires until the game is over, at most \<open>n\<close> times. In between other
  players may do nothing; the timer is the one the list of timers holds.
\<close>

fun ab_ticks :: "nat \<Rightarrow> bg_env \<Rightarrow> bg_team \<Rightarrow> ab_state \<Rightarrow> ab_state option" where
  "ab_ticks 0 e t s = Some s"
| "ab_ticks (Suc n) e t s = (if bg_ended s then Some s
     else case tm_of (EV_RESOURCES t) (bg_timers s) of [] \<Rightarrow> None
     | ev # _ \<Rightarrow> do { s1 \<leftarrow> ab_fire e (None, None) ev s; ab_ticks n e t s1 })"

lemma resources_step:
  assumes "ab_ok s" "unat (bg_group s) < 8" "\<not> bg_ended s" "0 < held (ab_base s) t"
  shows "\<exists>s'. ab_ticks (Suc n) e t s = ab_ticks n e t s' \<and> ab_ok s' \<and> bg_group s' = bg_group s \<and> ab_base s' = ab_base s \<and>
    ab_resources s' t = resources_after (held (ab_base s) t) (ab_resources s t) \<and> bg_started s' = bg_started s \<and>
    (bg_ended s' \<longrightarrow> ab_resources s' t = 2000)"
proof -
  let ?n = "held (ab_base s) t"
  let ?ev = "(EV_RESOURCES t, CbResources t, uint (ResourceUpdateIntervals ! ?n), 0)"
  note D = ab_okD [OF assms(1)]
  have tm: "tm_of (EV_RESOURCES t) (bg_timers s) = [?ev]"
    using D(8) [OF assms(3)] assms(4) by (simp add: resources_in_def resource_timers_def)
  have "HonorTable (bg_group s) \<noteq> None" using assms(2) by (simp add: HonorTable_def)
  from resources_ok [OF assms(1) this, of e t] obtain s1 where s1: "EventUpdateResources e t s = Some s1" "ab_ok s1"
    "ab_base s1 = ab_base s" "ab_resources s1 = (ab_resources s)(t := resources_after ?n (ab_resources s t))" "bg_group s1 = bg_group s"
    "bg_started s1 = bg_started s" "bg_ended s1 \<longleftrightarrow> bg_ended s \<or> 0 < ?n \<and> ab_resources s1 t = 2000"
    by blast
  have "bg_set_timers (tm_spend ?ev) s1 = s1"
    using tm_spend_sel(3) [OF ab_okD(1) [OF s1(2)]] by (simp add: bg_set_timers_def)
  then have "ab_fire e (None, None) ?ev s = Some s1" using s1(1) by (simp add: ab_fire_def ab_run_def)
  with tm assms(3) s1 show ?thesis by (intro exI [of _ s1]) simp
qed

lemma ab_ticks_end:
  assumes "ab_ok s" "unat (bg_group s) < 8" "ab_base s cp = Held t" "2000 \<le> 10 * n + unat (ab_resources s t)"
    "bg_ended s \<Longrightarrow> ab_resources s t = 2000"
  shows "\<exists>s'. ab_ticks n e t s = Some s' \<and> bg_ended s' \<and> ab_resources s' t = 2000 \<and> ab_base s' = ab_base s \<and>
    bg_started s' = bg_started s"
  using assms
proof (induction n arbitrary: s)
  case 0
  then have "2000 \<le> ab_resources s t" by (simp add: word_le_nat_alt)
  with ab_okD(11,12) [OF 0(1), of t] show ?case by (simp add: order_antisym)
next
  case (Suc n)
  show ?case
  proof (cases "bg_ended s")
    case False
    have h: "0 < held (ab_base s) t" by (rule held_pos [of "ab_base s" cp]) (rule Suc.prems(3))
    from resources_step [OF Suc.prems(1,2) False h, of n e] obtain s' where s': "ab_ticks (Suc n) e t s = ab_ticks n e t s'" "ab_ok s'"
      "bg_group s' = bg_group s" "ab_base s' = ab_base s" "ab_resources s' t = resources_after (held (ab_base s) t) (ab_resources s t)"
      "bg_started s' = bg_started s" "bg_ended s' \<longrightarrow> ab_resources s' t = 2000" by blast
    have r: "unat (ab_resources s t) \<le> 2000" using ab_okD(11) [OF Suc.prems(1), of t] by (simp add: word_le_nat_alt)
    have "unat (ab_resources s t + 10) = unat (ab_resources s t) + 10" "unat (ab_resources s t + 30) = unat (ab_resources s t) + 30"
      using r by (simp_all add: unat_plus_if')
    then have "2000 \<le> 10 * n + unat (ab_resources s' t)"
      using s'(5) h Suc.prems(4) by (auto simp: resources_after_def min_def)
    from Suc.IH [OF s'(2) _ _ this] s' Suc.prems show ?thesis by simp
  qed (use Suc.prems in simp)
qed

text \<open>
  C25. The game ends: in a reachable game of a level group below 8 (players up to level 79) that is not
  over, if a team holds any control point, then its resource timer alone brings it to 2000 resources
  and the end of the game within 200 firings, all of them defined; the control points are as they were.
  In level group 8 a firing may read behind the honor tables instead: see \<open>ab_honor_overrun\<close>.
\<close>

theorem ab_game_ends:
  assumes "ab_reach grp s" "unat grp < 8" "\<not> bg_ended s" "ab_base s cp = Held t"
  shows "\<exists>s'. ab_ticks 200 e t s = Some s' \<and> bg_ended s' \<and> ab_resources s' t = 2000 \<and> ab_base s' = ab_base s"
  using ab_ticks_end [of s cp t 200 e] ab_reach_ok [OF assms(1,2)] assms by auto

theorem ab_game_ends_witness:
  "\<exists>s'. ab_ticks 200 demo_env Alliance demo_game = Some s' \<and> bg_ended s' \<and> ab_resources s' Alliance = 2000"
  using ab_game_ends [OF demo_game_facts(1) _ demo_game_facts(3,4), of demo_env] by auto

section \<open>After the end\<close>

text \<open>The effects a call adds to the output, at least \<open>X\<close> among them.\<close>

definition emits :: "('c, 'z) bg_state_scheme \<Rightarrow> bg_fx set \<Rightarrow> ('c, 'z) bg_state_scheme \<Rightarrow> bool" where
  "emits s X s' \<longleftrightarrow> (\<exists>fx. bg_out s' = bg_out s @ fx \<and> X \<subseteq> set fx)"

lemma emits_trans: "emits s X s1 \<Longrightarrow> emits s1 Y s2 \<Longrightarrow> emits s (X \<union> Y) s2"
  unfolding emits_def by force

lemma emits_refl: "emits s {} s"
  by (simp add: emits_def)

lemma emits_ops:
  "emits s (set fx) (bg_emit fx s)" "emits s {} (bg_update_pvp e s)"
  by (auto simp: emits_def bg_emit_def bg_update_pvp_def)

lemma emits_ab: "emits s {} (bg_world_state e i v s)" "emits s {} (ab_near_victory t r s)"
  by (auto simp: emits_def bg_emit_def bg_world_state_def ab_near_victory_def split_beta Let_def)

lemma reward_emits:
  assumes "ab_reward i s p = Some s'"
  shows "emits s (if \<not> bp_flag2 p \<and> ucast (team_id i) \<noteq> bg_losing s then {FxCast (bp_guid p) 24953} else {}) s' \<and>
    bg_losing s' = bg_losing s"
  using assms
  by (auto simp: ab_reward_def ab_honor_def Let_def emits_def bg_emit_def bind_eq_Some_conv split: if_splits)

lemma rewards_emit:
  "foldM (ab_reward i) s ps = Some s' \<Longrightarrow>
    emits s (if ucast (team_id i) \<noteq> bg_losing s then (\<lambda>p. FxCast (bp_guid p) 24953) ` {p \<in> set ps. \<not> bp_flag2 p} else {}) s' \<and>
    bg_losing s' = bg_losing s"
proof (induction ps arbitrary: s)
  case Nil
  then show ?case by (simp add: emits_refl)
next
  case (Cons p ps)
  then obtain s1 where s1: "ab_reward i s p = Some s1" "foldM (ab_reward i) s1 ps = Some s'" by (auto simp: bind_eq_Some_conv)
  note a = reward_emits [OF s1(1)] and b = Cons.IH [OF s1(2)]
  have "{q \<in> set (p # ps). \<not> bp_flag2 q} = (if bp_flag2 p then {} else {p}) \<union> {q \<in> set ps. \<not> bp_flag2 q}" by auto
  with emits_trans [OF a [THEN conjunct1] b [THEN conjunct1]] a b show ?case
    by (auto simp: image_Un split: if_splits)
qed

lemma win_emits:
  assumes "ab_win e t s = Some s'"
  shows "emits s ((\<lambda>p. FxCast (bp_guid p) 24953) ` {p \<in> set (env_players e t). \<not> bp_flag2 p}) s'"
proof -
  let ?s = "bg_set_timers (tm_add CbClose EVENT_BATTLEGROUND_CLOSE 120000 1 \<circ> tm_remove EVENT_REMOVAL_FLAG_ALL)
      (s\<lparr> bg_ended := True, bg_losing := ucast (team_id (other_team t)), bg_next_pvp := 0 \<rparr>)"
  obtain s1 where s1: "foldM (ab_reward Alliance) ?s (env_players e Alliance) = Some s1"
    "foldM (ab_reward Horde) s1 (env_players e Horde) = Some s'"
    using assms by (auto simp: ab_win_def Let_def bind_eq_Some_conv)
  have st: "emits s {} ?s" "bg_losing ?s = ucast (team_id (other_team t))" by (simp_all add: emits_def bg_set_timers_def)
  note a = rewards_emit [OF s1(1)] and b = rewards_emit [OF s1(2)]
  have "emits s ({} \<union> (if ucast (team_id Alliance) \<noteq> bg_losing ?s then (\<lambda>p. FxCast (bp_guid p) 24953) ` {p \<in> set (env_players e Alliance). \<not> bp_flag2 p} else {}) \<union>
      (if ucast (team_id Horde) \<noteq> bg_losing s1 then (\<lambda>p. FxCast (bp_guid p) 24953) ` {p \<in> set (env_players e Horde). \<not> bp_flag2 p} else {})) s'"
    by (rule emits_trans [OF emits_trans [OF st(1) a [THEN conjunct1]] b [THEN conjunct1]])
  moreover have "bg_losing s1 = bg_losing ?s" using a by simp
  ultimately show ?thesis
    unfolding st(2) by (cases t) (simp_all add: team_id_def other_team_def)
qed

lemma honors_emit: "foldM ab_honor s ps = Some s' \<Longrightarrow> emits s {} s'"
proof (induction ps arbitrary: s)
  case (Cons p ps)
  then obtain s1 where s1: "ab_honor s p = Some s1" "foldM ab_honor s1 ps = Some s'" by (auto simp: bind_eq_Some_conv)
  have "emits s {} s1" using s1(1) by (auto simp: ab_honor_def bind_eq_Some_conv emits_def bg_emit_def)
  from emits_trans [OF this Cons.IH [OF s1(2)]] show ?case by simp
qed (simp add: emits_refl)

lemma second_win_emits:
  assumes "EventUpdateResources e t s = Some s'" "ab_resources s t = 2000" "ab_captured s t = 1"
  shows "emits s ((\<lambda>p. FxCast (bp_guid p) 24953) ` {p \<in> set (env_players e t). \<not> bp_flag2 p}) s'"
proof -
  let ?s1 = "s\<lparr> ab_resources := (ab_resources s)(t := 2000) \<rparr>"
  from assms obtain s2 s5 where s2: "(if ab_to_gain ?s1 \<le> 2000 - ab_last_honor ?s1 t then foldM ab_honor ?s1 (env_players e t) else Some ?s1) = Some s2"
    and s5: "ab_win e t (ab_near_victory t 2000 (bg_world_state e (resource_fields t) 2000 s2)) = Some s5"
    and s': "s' = bg_update_pvp e s5"
    by (auto simp: EventUpdateResources_def Let_def PointBonusPerUpdate_def RESOURCES_WINVAL_def bind_eq_Some_conv
        simp del: if_split split: if_split_asm)
  have "emits ?s1 {} s2" using s2 honors_emit by (auto simp: emits_refl split: if_splits)
  then have "emits s {} s2" by (simp add: emits_def)
  from emits_trans [OF emits_trans [OF emits_trans [OF emits_trans [OF this emits_ab(1)] emits_ab(2)] win_emits [OF s5]] emits_ops(2)]
  show ?thesis unfolding s' by simp
qed

text \<open>
  C32. The game can be won again: when the game is over, its winner may hold no point and still contest
  one. If that minute ends, the team gets a resource timer although the game is over, and when that
  fires the game is won a second time: every player of the team without the excluding flag is given
  the winner's marks again, and the closing of the battleground starts over.
\<close>

theorem ab_wins_again:
  assumes "ab_reach grp s" "unat grp < 8" "bg_ended s" "ab_resources s t = 2000"
    "ab_base s cp = Contested t lo" "held (ab_base s) t = 0" "guides_fresh e s"
  shows "\<exists>s1 s2. ab_fire e gs (EV_CAPTURE cp, CbCapture cp t, 60000, 1) s = Some s1 \<and> bg_ended s1 \<and>
    (EV_RESOURCES t, CbResources t, 12000, 0) \<in> set (bg_timers s1) \<and>
    ab_fire e gs (EV_RESOURCES t, CbResources t, 12000, 0) s1 = Some s2 \<and>
    bg_timers s2 = [(EVENT_BATTLEGROUND_CLOSE, CbClose, 120000, 1)] \<and>
    emits s1 ((\<lambda>p. FxCast (bp_guid p) 24953) ` {p \<in> set (env_players e t). \<not> bp_flag2 p}) s2"
proof -
  have ok: "ab_ok s" and grp: "bg_group s = grp" using ab_reach_ok [OF assms(1,2)] by simp_all
  note D = ab_okD [OF ok]
  have pt: "ab_owned s cp = None" "ab_assaulted s cp = Some t" using assms(5) by (simp_all add: ab_base_def)
  have z: "ab_captured s t = of_nat 0" using D(4) [of t] assms(6) by simp
  from capture_step [OF pt D(2) z] obtain s0 where s0: "CaptureControlPoint e cp t s = Some s0"
    "ab_resources s0 = ab_resources s" "bg_ended s0 = bg_ended s"
    "bg_timers s0 = tm_add (CbResources t) (EV_RESOURCES t) (ResourceUpdateIntervals ! 1) 0 (bg_timers s)"
    by fastforce
  let ?ev = "(EV_CAPTURE cp, CbCapture cp t, 60000, 1)" and ?re = "(EV_RESOURCES t, CbResources t, 12000, 0)"
  from capture_fires [OF ok assms(7), of gs cp t] obtain s1 where s1: "ab_fire e gs ?ev s = Some s1" "ab_ok s1"
    "ab_base s1 = (ab_base s)(cp := Held t)" "bg_group s1 = bg_group s" using assms(3,5) by auto
  have d: "s1 = bg_set_timers (tm_spend ?ev) s0" using s1(1) s0(1) by (simp add: ab_fire_def ab_run_def)
  have "?re \<in> set (bg_timers s0)" unfolding s0(4) by (simp add: tm_add_def set_mm_insert ResourceUpdateIntervals_def)
  then have m: "?re \<in> set (bg_timers s1)" by (auto simp: d tm_spend_def in_set_remove1)
  have h: "HonorTable (bg_group s1) \<noteq> None" using assms(2) grp s1(4) by (simp add: HonorTable_def)
  have n: "held (ab_base s1) t = Suc 0" using assms(5,6) by (simp add: s1(3) held_upd)
  have r: "ab_resources s1 t = 2000" using assms(4) s0(2) by (simp add: d)
  have e1: "bg_ended s1" using assms(3) s0(3) by (simp add: d)
  have a: "resources_after (Suc 0) 2000 = 2000" by (simp add: resources_after_def)
  from resources_ok [OF s1(2) h, of e t] obtain s2 where s2: "EventUpdateResources e t s1 = Some s2" "ab_ok s2"
    "bg_timers s2 = [(EVENT_BATTLEGROUND_CLOSE, CbClose, 120000, 1)]" using n r a by auto
  have "ab_fire e gs ?re s1 = Some s2"
    using s2(1) tm_spend_sel(3) [OF ab_okD(1) [OF s2(2)]] by (simp add: ab_fire_def ab_run_def bg_set_timers_def)
  moreover have "emits s1 ((\<lambda>p. FxCast (bp_guid p) 24953) ` {p \<in> set (env_players e t). \<not> bp_flag2 p}) s2"
    by (rule second_win_emits [OF s2(1) r]) (use ab_okD(4) [OF s1(2), of t] n in simp)
  ultimately show ?thesis using s1(1) e1 m s2(3) by blast
qed

lemma ab_ticks_reach: "ab_ticks n demo_env t s = Some s' \<Longrightarrow> ab_reach grp s \<Longrightarrow> ab_reach grp s'"
proof (induction n arbitrary: s)
  case (Suc n)
  show ?case
  proof (cases "bg_ended s")
    case False
    with Suc.prems(1) obtain ev rest s1 where ev: "tm_of (EV_RESOURCES t) (bg_timers s) = ev # rest"
      "ab_fire demo_env (None, None) ev s = Some s1" "ab_ticks n demo_env t s1 = Some s'"
      by (auto simp: bind_eq_Some_conv split: list.splits)
    have "ev \<in> set (tm_of (EV_RESOURCES t) (bg_timers s))" unfolding ev(1) by simp
    then have "ev \<in> set (bg_timers s)" by (simp add: tm_of_def)
    from Suc.IH [OF ev(3) ab_timer [OF Suc.prems(2) this fresh_demo ev(2)]] show ?thesis .
  qed (use Suc.prems in simp)
qed simp

lemma open_reach:
  assumes "ab_reach grp s" "unat grp < 8" "bg_started s" "cp_of_slot slot = Some cp"
  shows "\<exists>s'. ab_reach grp s' \<and> bg_started s' \<and> ab_base s' = (ab_base s)(cp := base_assault t (ab_base s cp)) \<and>
    HookSlowLockOpen demo_env (demo_player t) slot s = Some (s', True)"
proof -
  have ok: "ab_ok s" using ab_reach_ok [OF assms(1,2)] by simp
  have p: "bp_team (demo_player t) = t" "\<not> bp_ineligible (demo_player t)" by (simp_all add: demo_player_def)
  from assault_ok [OF ok fresh_demo assms(3), of "demo_player t" cp] p obtain s' where s':
    "AssaultControlPoint demo_env (demo_player t) cp s = Some s'" "ab_base s' = (ab_base s)(cp := base_assault t (ab_base s cp))"
    "bg_started s' = bg_started s" by auto
  then have h: "HookSlowLockOpen demo_env (demo_player t) slot s = Some (s', True)"
    using assms(4) p by (simp add: HookSlowLockOpen_def)
  with s' assms(3) ab_open [OF assms(1) fresh_demo h] show ?thesis by blast
qed

text \<open>
  The alliance wins with the stables; the horde then claims them, the alliance claims the farm, and
  the minute of the farm passes. (An assault changes neither resources nor the end of the game.)
\<close>

lemma capture_keeps:
  "CaptureControlPoint e cp t s = Some s' \<Longrightarrow> ab_resources s' = ab_resources s \<and> bg_ended s' = bg_ended s"
  by (auto simp: CaptureControlPoint_def Let_def ab_resource_event_def bg_add_guide_def bg_remove_guide_def
      split: if_splits option.splits)

lemma lose_keeps: "ab_lose_base e cp t s = Some s' \<Longrightarrow> ab_resources s' = ab_resources s \<and> bg_ended s' = bg_ended s"
  by (auto simp: ab_lose_base_def ab_lose_guide_def Let_def bind_eq_Some_conv bg_remove_guide_def split: if_splits option.splits)

lemma claim_keeps: "ab_resources (ab_claim e p cp s) = ab_resources s \<and> bg_ended (ab_claim e p cp s) = bg_ended s"
  by (simp add: ab_claim_def Let_def split: option.split)

lemma defend_keeps: "ab_defend e p cp s = Some s' \<Longrightarrow> ab_resources s' = ab_resources s \<and> bg_ended s' = bg_ended s"
  unfolding ab_defend_def Let_def by (drule capture_keeps) simp

lemma open_keeps:
  assumes "HookSlowLockOpen e p slot s = Some (s', b)"
  shows "ab_resources s' = ab_resources s \<and> bg_ended s' = bg_ended s"
proof -
  have "ab_resources s'' = ab_resources s \<and> bg_ended s'' = bg_ended s" if "AssaultControlPoint e p cp s = Some s''" for cp s''
  proof (cases "bg_started s")
    case True
    let ?s1 = "if ab_owned s cp = None \<and> ab_assaulted s cp = None then bg_world_state e (NeutralFields cp) 0 s else s"
    have "(case ab_owned ?s1 cp of None \<Rightarrow> Some ?s1 | Some t \<Rightarrow> ab_lose_base e cp t ?s1) \<bind>
        (\<lambda>s2. if \<not> (ab_owned s cp = None \<and> ab_assaulted s cp = None) \<and> ab_last_owned s2 cp = Some (bp_team p) \<and> ab_owned s2 cp = None
          then ab_defend e p cp s2 else Some (ab_claim e p cp s2)) = Some s''"
      using that True by (simp only: AssaultControlPoint_def Let_def not_True_eq_False if_False)
    then obtain s2 where s2: "(case ab_owned ?s1 cp of None \<Rightarrow> Some ?s1 | Some t \<Rightarrow> ab_lose_base e cp t ?s1) = Some s2"
      "ab_defend e p cp s2 = Some s'' \<or> s'' = ab_claim e p cp s2"
      unfolding bind_eq_Some_conv by (auto split: if_split_asm)
    have k: "ab_resources ?s1 = ab_resources s" "bg_ended ?s1 = bg_ended s" by simp_all
    have "ab_resources s2 = ab_resources s \<and> bg_ended s2 = bg_ended s"
      using s2(1) lose_keeps [of e cp _ ?s1 s2] k by (cases "ab_owned ?s1 cp") auto
    with s2(2) claim_keeps defend_keeps show ?thesis by metis
  qed (use that in \<open>auto simp: AssaultControlPoint_def\<close>)
  with assms show ?thesis
    by (auto simp: HookSlowLockOpen_def bind_eq_Some_conv split: if_splits option.splits)
qed

theorem ab_wins_again_witness:
  "\<exists>s s1 s2. bg_ended s \<and> ab_fire demo_env (None, None) (EV_CAPTURE Farm, CbCapture Farm Alliance, 60000, 1) s = Some s1 \<and>
    ab_fire demo_env (None, None) (EV_RESOURCES Alliance, CbResources Alliance, 12000, 0) s1 = Some s2 \<and>
    bg_timers s2 = [(EVENT_BATTLEGROUND_CLOSE, CbClose, 120000, 1)]"
proof -
  have ok: "ab_ok demo_game" "bg_group demo_game = 6" using ab_reach_ok [OF demo_game_facts(1)] by simp_all
  have one: "held (ab_base demo_game) Alliance = 1"
  proof -
    have "of_nat (held (ab_base demo_game) Alliance) = (1 :: u32)" using ab_okD(4) [OF ok(1), of Alliance] demo_game_facts(9) by simp
    then have "unat (of_nat (held (ab_base demo_game) Alliance) :: u32) = 1" by simp
    then show ?thesis using held_le [of "ab_base demo_game" Alliance] by (simp add: small_u32)
  qed
  from ab_ticks_end [OF ok(1) _ demo_game_facts(4), of 200 demo_env] ok(2) demo_game_facts(3)
  obtain s where s: "ab_ticks 200 demo_env Alliance demo_game = Some s" "bg_ended s" "ab_resources s Alliance = 2000"
    "ab_base s = ab_base demo_game" "bg_started s = bg_started demo_game" by auto
  have r: "ab_reach 6 s" by (rule ab_ticks_reach [OF s(1) demo_game_facts(1)])
  have "bg_started s" "unat (6 :: u32) < 8" "cp_of_slot 0 = Some Stable" "cp_of_slot 1 = Some Farm"
    using s(5) demo_game_facts(2) by (simp_all add: cp_of_slot_def)
  note st = this
  from open_reach [OF r st(2,1,3), of Horde] obtain t where t: "ab_reach 6 t" "bg_started t"
    "ab_base t = (ab_base s)(Stable := base_assault Horde (ab_base s Stable))"
    "HookSlowLockOpen demo_env (demo_player Horde) 0 s = Some (t, True)" by blast
  from open_reach [OF t(1) st(2) t(2) st(4), of Alliance] obtain u where u: "ab_reach 6 u"
    "ab_base u = (ab_base t)(Farm := base_assault Alliance (ab_base t Farm))"
    "HookSlowLockOpen demo_env (demo_player Alliance) 1 t = Some (u, True)" by blast
  have keep: "ab_resources u Alliance = 2000" "bg_ended u" using open_keeps [OF t(4)] open_keeps [OF u(3)] s(2,3) by simp_all
  have farm: "ab_base u Farm = Contested Alliance None" using u(2) t(3) s(4) demo_game_facts(8) by simp
  have "held (ab_base u) Alliance = 0"
    using one demo_game_facts(4,8) unfolding u(2) t(3) s(4) by (simp add: held_upd)
  from ab_wins_again [OF u(1) st(2) keep(2,1) farm this fresh_demo, of "(None, None)"] keep(2) show ?thesis by blast
qed

text \<open>
  C33. The honor table is too short: players of level 80 and more form level group 8, for which the table
  has no entry. Once a team of such players holds points and has gathered the resources that earn
  honor, the next firing of its resource timer reads behind the table.
\<close>

theorem ab_honor_overrun:
  assumes "bg_group s = GetLevelGrouping level" "80 \<le> level" "0 < ab_captured s t" "ab_captured s t \<le> 5"
    "ab_resources s t < 1970" "ab_last_honor s t = 0" "ab_to_gain s \<le> ab_resources s t" "env_players e t \<noteq> []"
  shows "EventUpdateResources e t s = None"
proof -
  have g: "HonorTable (bg_group s) = None"
    using assms(1,2) by (auto simp: GetLevelGrouping_def HonorTable_def not_less [symmetric] dest: order.strict_trans1 [rotated])
  then have n: "foldM ab_honor s1 (env_players e t) = None" if "bg_group s1 = bg_group s" for s1
    using assms(8) that by (cases "env_players e t") (simp_all add: ab_honor_def)
  let ?b = "PointBonusPerUpdate ! unat (ab_captured s t)"
  have u: "0 < unat (ab_captured s t)" "unat (ab_captured s t) \<le> 5"
    using assms(3,4) by (simp_all add: word_less_nat_alt word_le_nat_alt)
  then have b: "?b = (if unat (ab_captured s t) = 5 then 30 else 10)" by (simp add: bonus_value)
  have small: "unat (ab_resources s t) < 1970" using assms(5) by (simp add: word_less_nat_alt)
  then have sum: "unat (ab_resources s t + ?b) = unat (ab_resources s t) + unat ?b" unfolding b by (simp add: unat_plus_if')
  have ne: "ab_resources s t + ?b \<noteq> ab_resources s t" unfolding b by simp
  have le: "ab_resources s t + ?b \<le> 2000" "ab_resources s t \<le> ab_resources s t + ?b"
    using sum small unfolding b by (simp_all add: word_le_nat_alt split: if_splits)
  then have r: "\<not> RESOURCES_WINVAL < ab_resources s t + ?b" "ab_to_gain s \<le> ab_resources s t + ?b"
    using assms(7) by (auto simp: RESOURCES_WINVAL_def not_less)
  have "\<not> 5 < ab_captured s t" using assms(4) by simp
  with ne r assms(6) show ?thesis by (simp add: EventUpdateResources_def Let_def n)
qed

theorem ab_honor_overrun_witness:
  "(let s = (ab_new (GetLevelGrouping 80) [] 0 demo_env)\<lparr> ab_captured := (\<lambda>_. 2), ab_resources := (\<lambda>_. 400) \<rparr>
    in EventUpdateResources (demo_env\<lparr> env_players := (\<lambda>t. [demo_player t]) \<rparr>) Horde s) = None"
  unfolding Let_def by (rule ab_honor_overrun [where level = 80]) (simp_all add: ab_new_def)

end
