(* ===== verification/HS_Guild.thy ===== *)
theory HS_Guild
  imports HS_Prelude
begin

text \<open>
  Guilds: \<open>Guild.cpp\<close>, \<open>Guild.h\<close> and the opcodes of \<open>GuildHandler.cpp\<close>. A player info
  (\<open>PlayerInfo\<close>) is named by its guid, of which \<open>objmgr\<close> keeps one each; guilds, ranks and members
  are cells of heaps, so a use of a freed cell, of a null pointer or of a slot outside
  \<open>m_ranks[MAX_GUILD_RANKS]\<close> is \<^term>\<open>None\<close>. \<open>m_members\<close> is kept in the order of the guids (the
  code orders it by address; the order shows only in the order of packets).

  The statements on \<open>guilds\<close>, \<open>guild_ranks\<close> and \<open>guild_data\<close> run on tables with the keys of
  \<open>sql/1008_CharacterTemplate.sql\<close> and \<open>1269_guilds.sql\<close>; text columns are taken to be wide enough.
  The tables of the logs, of the bank tabs and of their items are not modelled. A player who is in
  the world gets the fields of \<open>SetGuildId\<close> and \<open>SetGuildRank\<close> by an event a millisecond later: these stores wait
  in \<open>pl_later\<close> until the step \<open>EvField\<close> makes the first of them.
\<close>

section \<open>Tables of the database\<close>

text \<open>A table is the list of its rows by primary key.\<close>

definition db_insert :: "'k \<Rightarrow> 'v \<Rightarrow> ('k \<times> 'v) list \<Rightarrow> ('k \<times> 'v) list" where
  "db_insert k v t = (if k \<in> fst ` set t then t else t @ [(k, v)])"

definition db_delete :: "('k \<Rightarrow> bool) \<Rightarrow> ('k \<times> 'v) list \<Rightarrow> ('k \<times> 'v) list" where
  "db_delete P t = filter (\<lambda>(k, v). \<not> P k) t"

definition db_update :: "('k \<Rightarrow> bool) \<Rightarrow> ('v \<Rightarrow> 'v) \<Rightarrow> ('k \<times> 'v) list \<Rightarrow> ('k \<times> 'v) list" where
  "db_update P f t = map (\<lambda>(k, v). (k, if P k then f v else v)) t"

text \<open>\<open>REPLACE\<close> removes every row that agrees with the new one on a unique key (\<open>C\<close>).\<close>

definition db_replace :: "('k \<Rightarrow> 'v \<Rightarrow> bool) \<Rightarrow> 'k \<Rightarrow> 'v \<Rightarrow> ('k \<times> 'v) list \<Rightarrow> ('k \<times> 'v) list" where
  "db_replace C k v t = filter (\<lambda>(k', v'). k' \<noteq> k \<and> \<not> C k' v') t @ [(k, v)]"

section \<open>State\<close>

type_synonym pguid = u32
type_synonym guildptr = nat
type_synonym rankptr = nat
type_synonym memptr = nat

record guild_rank =
  rk_id :: u32
  rk_rights :: u32
  rk_gold :: u32
  rk_tabs :: "(u32 \<times> u32) list"
  rk_name :: string

record guild_member =
  mb_player :: pguid
  mb_public :: "string option"
  mb_officer :: "string option"
  mb_rank :: rankptr
  mb_wreset :: u32
  mb_wcount :: u32
  mb_ireset :: "u32 list"
  mb_icount :: "u32 list"

record guild_log_event =
  le_id :: u32
  le_event :: u8
  le_time :: u32
  le_data :: "u32 list"

record guild_bank_event =
  be_id :: u32
  be_action :: u8
  be_player :: u32
  be_entry :: u32
  be_stack :: u8
  be_time :: u32

record guild_bank_tab =
  tb_id :: u8
  tb_name :: "string option"
  tb_icon :: "string option"
  tb_slots :: "u64 option list"
  tb_log :: "guild_bank_event list"

record guild =
  gd_id :: u32
  gd_leader :: pguid
  gd_name :: string
  gd_emblem :: "u32 list"
  gd_created :: u32
  gd_info :: "string option"
  gd_motd :: "string option"
  gd_tabcount :: u32
  gd_balance :: u32
  gd_tabs :: "guild_bank_tab list"
  gd_members :: "(pguid \<times> memptr) list"
  gd_ranks :: "rankptr option list"
  gd_log :: "guild_log_event list"
  gd_mlog :: "guild_bank_event list"
  gd_hilog :: u32
  gd_logging :: bool

text \<open>
  What the guild code uses of a player who is logged in, and of a player info. \<open>pl_world\<close> is \<open>IsInWorld\<close>, \<open>pl_later\<close> are the
  stores to fields that the events of \<open>SetGuildId\<close> and \<open>SetGuildRank\<close> will make.
\<close>

datatype guild_field = PLAYER_GUILDID | PLAYER_GUILDRANK

record guild_player =
  pl_coins :: u32
  pl_guild_id :: u32
  pl_guild_rank :: u32
  pl_inviter :: u32
  pl_team :: nat
  pl_gm :: bool
  pl_gmtag :: bool
  pl_world :: bool
  pl_later :: "(guild_field \<times> u32) list"

record guild_info =
  gi_name :: string
  gi_guild :: "guildptr option"
  gi_rank :: "rankptr option"
  gi_member :: "memptr option"
  gi_online :: "guild_player option"

record guild_row =
  gr_name :: string
  gr_leader :: u32
  gr_emblem :: "u32 list"
  gr_info :: string
  gr_motd :: string
  gr_created :: u32
  gr_tabs :: u32
  gr_balance :: u32

record member_row =
  mr_rank :: u32
  mr_public :: string
  mr_officer :: string
  mr_wreset :: u32
  mr_wcount :: u32
  mr_ireset :: "u32 list"
  mr_icount :: "u32 list"

text \<open>
  The world: the heaps with the next free address, the last guild id given out, the map
  \<open>mGuild\<close> of the object manager, the three tables, and the packets sent.
\<close>

record gd_world =
  gw_guilds :: "guildptr \<Rightarrow> guild option"
  gw_ranks :: "rankptr \<Rightarrow> guild_rank option"
  gw_members :: "memptr \<Rightarrow> guild_member option"
  gw_infos :: "pguid \<Rightarrow> guild_info option"
  gw_next :: nat
  gw_hi :: u32
  gw_registry :: "(u32 \<times> guildptr) list"
  db_guilds :: "(u32 \<times> guild_row) list"
  db_ranks :: "((u32 \<times> u32) \<times> guild_rank) list"
  db_data :: "((u32 \<times> pguid) \<times> member_row) list"
  gw_out :: "(pguid \<times> packet) list"

definition MAX_GUILD_RANKS :: nat where "MAX_GUILD_RANKS = 10"
definition MAX_GUILD_MEMBERS :: nat where "MAX_GUILD_MEMBERS = 500"
definition MAX_GUILD_BANK_SLOTS :: nat where "MAX_GUILD_BANK_SLOTS = 98"
definition MAX_GUILD_BANK_TABS :: nat where "MAX_GUILD_BANK_TABS = 6"
definition TIME_DAY :: int where "TIME_DAY = 86400"

definition GR_RIGHT_GCHATLISTEN :: u32 where "GR_RIGHT_GCHATLISTEN = 0x1"
definition GR_RIGHT_GCHATSPEAK :: u32 where "GR_RIGHT_GCHATSPEAK = 0x2"
definition GR_RIGHT_OFFCHATLISTEN :: u32 where "GR_RIGHT_OFFCHATLISTEN = 0x4"
definition GR_RIGHT_OFFCHATSPEAK :: u32 where "GR_RIGHT_OFFCHATSPEAK = 0x8"
definition GR_RIGHT_INVITE :: u32 where "GR_RIGHT_INVITE = 0x10"
definition GR_RIGHT_REMOVE :: u32 where "GR_RIGHT_REMOVE = 0x20"
definition GR_RIGHT_EMPTY :: u32 where "GR_RIGHT_EMPTY = 0x40"
definition GR_RIGHT_PROMOTE :: u32 where "GR_RIGHT_PROMOTE = 0x80"
definition GR_RIGHT_DEMOTE :: u32 where "GR_RIGHT_DEMOTE = 0x100"
definition GR_RIGHT_SETMOTD :: u32 where "GR_RIGHT_SETMOTD = 0x1000"
definition GR_RIGHT_EPNOTE :: u32 where "GR_RIGHT_EPNOTE = 0x2000"
definition GR_RIGHT_EOFFNOTE :: u32 where "GR_RIGHT_EOFFNOTE = 0x8000"
definition GR_RIGHT_EGUILDINFO :: u32 where "GR_RIGHT_EGUILDINFO = 0x10000"
definition GR_RIGHT_ALL :: u32 where "GR_RIGHT_ALL = 0x1FF1FF"
definition GR_RIGHT_DEFAULT :: u32 where "GR_RIGHT_DEFAULT = 0x43"
definition GR_RIGHT_GUILD_BANK_DEPOSIT_ITEMS :: u32 where "GR_RIGHT_GUILD_BANK_DEPOSIT_ITEMS = 2"

lemmas guild_consts = MAX_GUILD_RANKS_def MAX_GUILD_MEMBERS_def MAX_GUILD_BANK_SLOTS_def MAX_GUILD_BANK_TABS_def
  TIME_DAY_def GR_RIGHT_GCHATLISTEN_def GR_RIGHT_GCHATSPEAK_def GR_RIGHT_OFFCHATLISTEN_def GR_RIGHT_OFFCHATSPEAK_def
  GR_RIGHT_INVITE_def GR_RIGHT_REMOVE_def GR_RIGHT_EMPTY_def GR_RIGHT_PROMOTE_def GR_RIGHT_DEMOTE_def
  GR_RIGHT_SETMOTD_def GR_RIGHT_EPNOTE_def GR_RIGHT_EOFFNOTE_def GR_RIGHT_EGUILDINFO_def GR_RIGHT_ALL_def
  GR_RIGHT_DEFAULT_def GR_RIGHT_GUILD_BANK_DEPOSIT_ITEMS_def

definition put_guild :: "guildptr \<Rightarrow> guild \<Rightarrow> gd_world \<Rightarrow> gd_world" where
  "put_guild gp g w = w\<lparr> gw_guilds := (gw_guilds w)(gp \<mapsto> g) \<rparr>"

definition put_rank :: "rankptr \<Rightarrow> guild_rank \<Rightarrow> gd_world \<Rightarrow> gd_world" where
  "put_rank rp r w = w\<lparr> gw_ranks := (gw_ranks w)(rp \<mapsto> r) \<rparr>"

definition put_member :: "memptr \<Rightarrow> guild_member \<Rightarrow> gd_world \<Rightarrow> gd_world" where
  "put_member mp m w = w\<lparr> gw_members := (gw_members w)(mp \<mapsto> m) \<rparr>"

definition put_ginfo :: "pguid \<Rightarrow> guild_info \<Rightarrow> gd_world \<Rightarrow> gd_world" where
  "put_ginfo p i w = w\<lparr> gw_infos := (gw_infos w)(p \<mapsto> i) \<rparr>"

definition sql_guild :: "u32 \<Rightarrow> (guild_row \<Rightarrow> guild_row) \<Rightarrow> gd_world \<Rightarrow> gd_world" where
  "sql_guild k f w = w\<lparr> db_guilds := db_update (\<lambda>k'. k' = k) f (db_guilds w) \<rparr>"

definition sql_data :: "(u32 \<times> pguid \<Rightarrow> bool) \<Rightarrow> (member_row \<Rightarrow> member_row) \<Rightarrow> gd_world \<Rightarrow> gd_world" where
  "sql_data P f w = w\<lparr> db_data := db_update P f (db_data w) \<rparr>"

section \<open>Packets and logs\<close>

definition gd_send :: "pguid \<Rightarrow> packet \<Rightarrow> gd_world \<Rightarrow> gd_world" where
  "gd_send c p w = w\<lparr> gw_out := gw_out w @ [(c, p)] \<rparr>"

definition gd_sys :: "pguid \<Rightarrow> string \<Rightarrow> gd_world \<Rightarrow> gd_world" where
  "gd_sys c s = gd_send c (''SystemMessage'', [Str s])"

definition SendGuildCommandResult :: "pguid \<Rightarrow> u32 \<Rightarrow> string \<Rightarrow> u32 \<Rightarrow> gd_world \<Rightarrow> gd_world" where
  "SendGuildCommandResult c cmd msg ty = gd_send c (''SMSG_GUILD_COMMAND_RESULT'', [U32 cmd, Str msg, U32 ty])"

abbreviation GUILD_CREATE_S :: u32 where "GUILD_CREATE_S \<equiv> 0"
abbreviation GUILD_INVITE_S :: u32 where "GUILD_INVITE_S \<equiv> 1"
abbreviation GUILD_PROMOTE_S :: u32 where "GUILD_PROMOTE_S \<equiv> 3"
abbreviation GUILD_MEMBER_S :: u32 where "GUILD_MEMBER_S \<equiv> 13"
abbreviation GUILD_PERMISSIONS :: u32 where "GUILD_PERMISSIONS \<equiv> 8"
abbreviation GUILD_PLAYER_NOT_IN_GUILD :: u32 where "GUILD_PLAYER_NOT_IN_GUILD \<equiv> 9"

text \<open>\<open>Guild::SendPacket\<close>: to every member who is in the world; each player info is read.\<close>

definition gd_online :: "gd_world \<Rightarrow> pguid \<Rightarrow> bool" where
  "gd_online w p \<longleftrightarrow> (case gw_infos w p of None \<Rightarrow> False | Some i \<Rightarrow> gi_online i \<noteq> None)"

definition gd_send_members :: "(pguid \<times> memptr \<Rightarrow> bool) \<Rightarrow> guildptr \<Rightarrow> packet \<Rightarrow> gd_world \<Rightarrow> gd_world option" where
  "gd_send_members P gp pkt w = do {
     g \<leftarrow> gw_guilds w gp;
     if \<exists>e \<in> set (gd_members g). gw_infos w (fst e) = None then None
     else Some (w\<lparr> gw_out := gw_out w @
       map (\<lambda>e. (fst e, pkt)) (filter (\<lambda>e. P e \<and> gd_online w (fst e)) (gd_members g)) \<rparr>) }"

definition gd_name_of :: "gd_world \<Rightarrow> pguid \<Rightarrow> string" where
  "gd_name_of w p = (case gw_infos w p of None \<Rightarrow> [] | Some i \<Rightarrow> gi_name i)"

definition LogGuildEvent :: "guildptr \<Rightarrow> u8 \<Rightarrow> string list \<Rightarrow> gd_world \<Rightarrow> gd_world option" where
  "LogGuildEvent gp ev strs w = do {
     g \<leftarrow> gw_guilds w gp;
     if \<not> gd_logging g then Some w
     else gd_send_members (\<lambda>_. True) gp (''SMSG_GUILD_EVENT'', U8 ev # U8 (of_nat (length strs)) # map Str strs) w }"

text \<open>A log keeps its last 25 entries.\<close>

definition log_push :: "'a \<Rightarrow> 'a list \<Rightarrow> 'a list" where
  "log_push e l = (if 25 \<le> length l then tl l else l) @ [e]"

definition AddGuildLogEntry :: "int \<Rightarrow> guildptr \<Rightarrow> u8 \<Rightarrow> u32 list \<Rightarrow> gd_world \<Rightarrow> gd_world option" where
  "AddGuildLogEntry now gp ev ps w = do {
     g \<leftarrow> gw_guilds w gp;
     if \<not> gd_logging g then Some w
     else let n = gd_hilog g + 1;
              e = \<lparr> le_id = n, le_event = ev, le_time = word_of_int now, le_data = ps @ replicate (3 - length ps) 0 \<rparr>
          in Some (put_guild gp (g\<lparr> gd_hilog := n, gd_log := log_push e (gd_log g) \<rparr>) w) }"

definition LogGuildBankActionMoney :: "int \<Rightarrow> guildptr \<Rightarrow> u8 \<Rightarrow> u32 \<Rightarrow> u32 \<Rightarrow> gd_world \<Rightarrow> gd_world option" where
  "LogGuildBankActionMoney now gp act pid amt w = do {
     g \<leftarrow> gw_guilds w gp;
     let n = gd_hilog g + 1;
     let e = \<lparr> be_id = n, be_action = act, be_player = pid, be_entry = amt, be_stack = 0, be_time = word_of_int now \<rparr>;
     Some (put_guild gp (g\<lparr> gd_hilog := n, gd_mlog := log_push e (gd_mlog g) \<rparr>) w) }"

section \<open>Ranks\<close>

definition rank_slot :: "guild \<Rightarrow> nat \<Rightarrow> rankptr option option" where
  "rank_slot g i = (if i < length (gd_ranks g) then Some (gd_ranks g ! i) else None)"

text \<open>The first rank at the given slots: \<open>FindLowestRank\<close> and \<open>FindHighestRank\<close> leave out slot 0.\<close>

definition first_rank :: "guild \<Rightarrow> nat list \<Rightarrow> rankptr option" where
  "first_rank g is = (case List.map_filter (\<lambda>i. gd_ranks g ! i) is of [] \<Rightarrow> None | rp # _ \<Rightarrow> Some rp)"

definition FindLowestRank :: "guild \<Rightarrow> rankptr option" where
  "FindLowestRank g = first_rank g (rev [1..<length (gd_ranks g)])"

definition FindHighestRank :: "guild \<Rightarrow> rankptr option" where
  "FindHighestRank g = first_rank g [1..<length (gd_ranks g)]"

definition CanPerformCommand :: "guild_rank \<Rightarrow> u32 \<Rightarrow> bool" where
  "CanPerformCommand r t = has_flag (rk_rights r) t"

definition CanPerformBankCommand :: "guild_rank \<Rightarrow> u32 \<Rightarrow> nat \<Rightarrow> bool option" where
  "CanPerformBankCommand r t tab = (if tab < length (rk_tabs r) then Some (has_flag (fst (rk_tabs r ! tab)) t) else None)"

text \<open>\<open>GetPlayer()->m_playerInfo->guildRank\<close>, dereferenced.\<close>

definition rank_of :: "gd_world \<Rightarrow> pguid \<Rightarrow> guild_rank option" where
  "rank_of w p = do { i \<leftarrow> gw_infos w p; rp \<leftarrow> gi_rank i; gw_ranks w rp }"

definition new_rank :: "nat \<Rightarrow> string \<Rightarrow> u32 \<Rightarrow> bool \<Rightarrow> guild_rank" where
  "new_rank i name rights full = \<lparr> rk_id = of_nat i, rk_rights = rights, rk_gold = (if full then -1 else 0),
     rk_tabs = replicate MAX_GUILD_BANK_TABS (if full then (3, -1) else (0, 0)), rk_name = name \<rparr>"

definition CreateGuildRank :: "guildptr \<Rightarrow> string \<Rightarrow> u32 \<Rightarrow> bool \<Rightarrow> gd_world \<Rightarrow> (gd_world \<times> rankptr option) option" where
  "CreateGuildRank gp name rights full w = do {
     g \<leftarrow> gw_guilds w gp;
     (case find (\<lambda>i. gd_ranks g ! i = None) [0..<length (gd_ranks g)] of
        None \<Rightarrow> Some (w, None)
      | Some i \<Rightarrow> let rp = gw_next w; r = new_rank i name rights full;
            w1 = put_guild gp (g\<lparr> gd_ranks := (gd_ranks g)[i := Some rp] \<rparr>) (put_rank rp r w)
          in Some (w1\<lparr> gw_next := rp + 1, db_ranks := db_insert (gd_id g, rk_id r) r (db_ranks w1) \<rparr>, Some rp)) }"

text \<open>\<open>RemoveGuildRank\<close>: the lowest rank, if it is not one of the first five and nobody has it.\<close>

definition RemoveGuildRank :: "guildptr \<Rightarrow> pguid \<Rightarrow> gd_world \<Rightarrow> gd_world option" where
  "RemoveGuildRank gp c w = do {
     g \<leftarrow> gw_guilds w gp;
     (case FindLowestRank g of
        None \<Rightarrow> Some (gd_sys c ''Cannot find a rank to delete.'' w)
      | Some rp \<Rightarrow> do {
          r \<leftarrow> gw_ranks w rp;
          if rk_id r < 5 then Some (gd_sys c ''Cannot find a rank to delete.'' w)
          else if \<exists>e \<in> set (gd_members g). gw_members w (snd e) = None then None
          else if \<exists>e \<in> set (gd_members g). map_option mb_rank (gw_members w (snd e)) = Some rp
          then Some (gd_sys c ''There are still members using this rank. You cannot delete it yet!'' w)
          else do {
            _ \<leftarrow> rank_slot g (unat (rk_id r));
            let w1 = put_guild gp (g\<lparr> gd_ranks := (gd_ranks g)[unat (rk_id r) := None] \<rparr>) w;
            Some (w1\<lparr> gw_ranks := (gw_ranks w1)(rp := None),
                      db_ranks := db_delete (\<lambda>k. k = (gd_id g, rk_id r)) (db_ranks w1) \<rparr>) } }) }"

text \<open>The edit of a rank by \<open>HandleGuildRank\<close>, which keeps a name of less than two characters.\<close>

definition edit_rank :: "guildptr \<Rightarrow> u32 \<Rightarrow> u32 \<Rightarrow> string \<Rightarrow> u32 \<Rightarrow> (nat \<Rightarrow> u32 \<times> u32) \<Rightarrow> gd_world \<Rightarrow> gd_world option" where
  "edit_rank gp rid rights name gold tabs w = do {
     g \<leftarrow> gw_guilds w gp;
     if of_nat MAX_GUILD_RANKS \<le> rid then Some w
     else do {
       slot \<leftarrow> rank_slot g (unat rid);
       (case slot of None \<Rightarrow> Some w
        | Some rp \<Rightarrow> do {
            r \<leftarrow> gw_ranks w rp;
            let r' = r\<lparr> rk_rights := rights, rk_name := (if length name < 2 then rk_name r else name), rk_gold := gold,
                         rk_tabs := map tabs [0..<MAX_GUILD_BANK_TABS] \<rparr>;
            let w1 = put_rank rp r' w;
            Some (w1\<lparr> db_ranks := db_replace (\<lambda>_ _. False) (gd_id g, rk_id r) r' (db_ranks w1) \<rparr>) }) } }"

section \<open>Members\<close>

text \<open>\<open>SetUInt32Value\<close> of one of the two fields, or an event that will do it.\<close>

fun store_field :: "guild_field \<Rightarrow> u32 \<Rightarrow> guild_player \<Rightarrow> guild_player" where
  "store_field PLAYER_GUILDID n o' = o'\<lparr> pl_guild_id := n \<rparr>"
| "store_field PLAYER_GUILDRANK n o' = o'\<lparr> pl_guild_rank := n \<rparr>"

definition set_field :: "guild_field \<Rightarrow> u32 \<Rightarrow> guild_player \<Rightarrow> guild_player" where
  "set_field fd n o' = (if pl_world o' then o'\<lparr> pl_later := pl_later o' @ [(fd, n)] \<rparr> else store_field fd n o')"

definition set_guild_id :: "pguid \<Rightarrow> u32 \<Rightarrow> gd_world \<Rightarrow> gd_world" where
  "set_guild_id p n w = (case gw_infos w p of None \<Rightarrow> w
     | Some i \<Rightarrow> put_ginfo p (i\<lparr> gi_online := map_option (set_field PLAYER_GUILDID n) (gi_online i) \<rparr>) w)"

definition set_guild_rank :: "pguid \<Rightarrow> u32 \<Rightarrow> gd_world \<Rightarrow> gd_world" where
  "set_guild_rank p n w = (case gw_infos w p of None \<Rightarrow> w
     | Some i \<Rightarrow> put_ginfo p (i\<lparr> gi_online := map_option (set_field PLAYER_GUILDRANK n) (gi_online i) \<rparr>) w)"

text \<open>The member and the player info get the rank (\<open>pRank\<close> and \<open>guildRank\<close>).\<close>

definition assign_rank :: "pguid \<Rightarrow> memptr \<Rightarrow> rankptr \<Rightarrow> gd_world \<Rightarrow> gd_world option" where
  "assign_rank p mp rp w = do {
     m \<leftarrow> gw_members w mp;
     i \<leftarrow> gw_infos w p;
     Some (put_ginfo p (i\<lparr> gi_rank := Some rp \<rparr>) (put_member mp (m\<lparr> mb_rank := rp \<rparr>) w)) }"

text \<open>The end of \<open>PromoteGuildMember\<close> and \<open>DemoteGuildMember\<close>.\<close>

definition change_rank :: "int \<Rightarrow> guildptr \<Rightarrow> pguid \<Rightarrow> pguid \<Rightarrow> u8 \<Rightarrow> u8 \<Rightarrow> rankptr \<Rightarrow> gd_world \<Rightarrow> gd_world option" where
  "change_rank now gp p c ev le rp w = do {
     g \<leftarrow> gw_guilds w gp;
     (case map_of (gd_members g) p of None \<Rightarrow> Some w
      | Some mp \<Rightarrow> do {
          m \<leftarrow> gw_members w mp;
          w1 \<leftarrow> assign_rank (mb_player m) mp rp w;
          r \<leftarrow> gw_ranks w1 rp;
          w2 \<leftarrow> LogGuildEvent gp ev [gd_name_of w c, gd_name_of w p, rk_name r] w1;
          w3 \<leftarrow> AddGuildLogEntry now gp le [c, p] w2;
          let w4 = sql_data (\<lambda>k. k = (gd_id g, p)) (\<lambda>x. x\<lparr> mr_rank := rk_id r \<rparr>) w3;
          Some (set_guild_rank p (rk_id r) w4) }) }"

definition PromoteGuildMember :: "int \<Rightarrow> guildptr \<Rightarrow> pguid \<Rightarrow> pguid \<Rightarrow> gd_world \<Rightarrow> gd_world option" where
  "PromoteGuildMember now gp p c w = do {
     ic \<leftarrow> gw_infos w c; ip \<leftarrow> gw_infos w p;
     if gi_guild ic \<noteq> Some gp \<or> gi_guild ip \<noteq> Some gp \<or> c = p then Some w
     else do {
       rc \<leftarrow> rank_of w c;
       if \<not> CanPerformCommand rc GR_RIGHT_PROMOTE
       then Some (SendGuildCommandResult c GUILD_PROMOTE_S [] GUILD_PERMISSIONS w)
       else do {
         r \<leftarrow> rank_of w p;
         if rk_id r \<le> rk_id rc + 2 \<and> rk_id rc \<noteq> 0 \<or> rk_id r = 1
         then Some (gd_sys c ''You can't promote this character any further.'' w)
         else do {
           g \<leftarrow> gw_guilds w gp;
           let nh = sint (rk_id r - 1);
           if int (length (gd_ranks g)) \<le> nh then None
           else (case first_rank g (rev [1..<nat (nh + 1)]) of
               None \<Rightarrow> Some (gd_sys c ''Could not find a rank to promote this member to.'' w)
             | Some rp \<Rightarrow> change_rank now gp p c 0 3 rp w) } } } }"

definition DemoteGuildMember :: "int \<Rightarrow> guildptr \<Rightarrow> pguid \<Rightarrow> pguid \<Rightarrow> gd_world \<Rightarrow> gd_world option" where
  "DemoteGuildMember now gp p c w = do {
     ic \<leftarrow> gw_infos w c; ip \<leftarrow> gw_infos w p;
     if gi_guild ic \<noteq> Some gp \<or> gi_guild ip \<noteq> Some gp \<or> c = p then Some w
     else do {
       rc \<leftarrow> rank_of w c;
       g \<leftarrow> gw_guilds w gp;
       if \<not> CanPerformCommand rc GR_RIGHT_DEMOTE \<or> p = gd_leader g
       then Some (SendGuildCommandResult c GUILD_PROMOTE_S [] GUILD_PERMISSIONS w)
       else do {
         r \<leftarrow> rank_of w p;
         if rk_id r \<le> rk_id rc \<and> rk_id rc \<noteq> 0
         then Some (gd_sys c ''You can only demote lower ranks then yourself.'' w)
         else (case first_rank g [unat (rk_id r + 1)..<MAX_GUILD_RANKS] of
             None \<Rightarrow> Some (gd_sys c ''Could not find a rank to demote this member to.'' w)
           | Some rp \<Rightarrow> change_rank now gp p c 1 4 rp w) } } }"

definition new_member :: "pguid \<Rightarrow> rankptr \<Rightarrow> guild_member" where
  "new_member p rp = \<lparr> mb_player = p, mb_public = None, mb_officer = None, mb_rank = rp, mb_wreset = 0, mb_wcount = 0,
     mb_ireset = replicate MAX_GUILD_BANK_TABS 0, mb_icount = replicate MAX_GUILD_BANK_TABS 0 \<rparr>"

definition row_of_member :: "guild_rank \<Rightarrow> guild_member \<Rightarrow> member_row" where
  "row_of_member r m = \<lparr> mr_rank = rk_id r, mr_public = (case mb_public m of None \<Rightarrow> [] | Some s \<Rightarrow> s),
     mr_officer = (case mb_officer m of None \<Rightarrow> [] | Some s \<Rightarrow> s), mr_wreset = mb_wreset m, mr_wcount = mb_wcount m,
     mr_ireset = mb_ireset m, mr_icount = mb_icount m \<rparr>"

definition may_invite :: "guildptr \<Rightarrow> pguid option \<Rightarrow> gd_world \<Rightarrow> bool option" where
  "may_invite gp client w = (case client of None \<Rightarrow> Some True
     | Some c \<Rightarrow> do {
         ic \<leftarrow> gw_infos w c;
         if gi_guild ic \<noteq> Some gp then Some False
         else do { rc \<leftarrow> rank_of w c; Some (CanPerformCommand rc GR_RIGHT_INVITE) } })"

text \<open>The rank of a new member: slot 0 only for the first one.\<close>

definition join_rank :: "guild \<Rightarrow> int \<Rightarrow> rankptr option option" where
  "join_rank g forced = do {
     r \<leftarrow> (if (if gd_members g \<noteq> [] then forced \<le> 0 else forced < 0) then Some (FindLowestRank g) else rank_slot g (nat forced));
     Some (if r = None then FindLowestRank g else r) }"

definition AddGuildMember :: "int \<Rightarrow> guildptr \<Rightarrow> pguid \<Rightarrow> pguid option \<Rightarrow> int \<Rightarrow> gd_world \<Rightarrow> gd_world option" where
  "AddGuildMember now gp p client forced w = do {
     i \<leftarrow> gw_infos w p;
     ok \<leftarrow> (if gi_guild i \<noteq> None then Some False else may_invite gp client w);
     if \<not> ok then Some w
     else do {
       g \<leftarrow> gw_guilds w gp;
       slot \<leftarrow> join_rank g forced;
       (case slot of None \<Rightarrow> Some w
        | Some rp \<Rightarrow> do {
            r \<leftarrow> gw_ranks w rp;
            let mp = gw_next w;
            let m = new_member p rp;
            let w1 = put_guild gp (g\<lparr> gd_members := map_insert p mp (gd_members g) \<rparr>) (put_member mp m (w\<lparr> gw_next := mp + 1 \<rparr>));
            let w2 = put_ginfo p (i\<lparr> gi_guild := Some gp, gi_rank := Some rp, gi_member := Some mp \<rparr>) w1;
            let w3 = set_guild_rank p (rk_id r) (set_guild_id p (gd_id g) w2);
            let w4 = w3\<lparr> db_data := db_replace (\<lambda>k v. snd k = p \<and> mr_rank v = rk_id r) (gd_id g, p) (row_of_member r m) (db_data w3) \<rparr>;
            w5 \<leftarrow> LogGuildEvent gp 3 [gi_name i] w4;
            AddGuildLogEntry now gp 2 [p] w5 }) } }"

text \<open>\<open>RemoveGuildMember\<close>: \<^term>\<open>Inl w\<close> when it returns early, with a message or not.\<close>

definition may_remove :: "guildptr \<Rightarrow> pguid \<Rightarrow> pguid option \<Rightarrow> gd_world \<Rightarrow> (gd_world + unit) option" where
  "may_remove gp p client w = do {
     ip \<leftarrow> gw_infos w p;
     if gi_guild ip \<noteq> Some gp then Some (Inl w)
     else do {
       r \<leftarrow> rank_of w p;
       (case client of
          None \<Rightarrow> Some (if rk_id r = 0 then Inl w else Inr ())
        | Some c \<Rightarrow>
            if rk_id r = 0 then Some (Inl (gd_sys c ''You cannot remove the guild master.'' w))
            else do {
              ic \<leftarrow> gw_infos w c;
              if gi_guild ic \<noteq> Some gp then Some (Inl w)
              else do {
                rc \<leftarrow> rank_of w c;
                if \<not> CanPerformCommand rc GR_RIGHT_REMOVE \<and> c \<noteq> p
                then Some (Inl (SendGuildCommandResult c GUILD_CREATE_S [] GUILD_PERMISSIONS w))
                else if p \<noteq> c \<and> rk_id r \<le> rk_id rc \<and> rk_id rc \<noteq> 0
                then Some (Inl (gd_sys c ''You can only remove lower ranks then yourself.'' w))
                else Some (Inr ()) } }) } }"

definition erase_member :: "guildptr \<Rightarrow> pguid \<Rightarrow> gd_world \<Rightarrow> gd_world option" where
  "erase_member gp p w = do {
     g \<leftarrow> gw_guilds w gp;
     (case map_of (gd_members g) p of None \<Rightarrow> Some w
      | Some mp \<Rightarrow> do {
          _ \<leftarrow> gw_members w mp;
          Some (put_guild gp (g\<lparr> gd_members := map_erase p (gd_members g) \<rparr>) (w\<lparr> gw_members := (gw_members w)(mp := None) \<rparr>)) }) }"

definition clear_info :: "pguid \<Rightarrow> gd_world \<Rightarrow> gd_world option" where
  "clear_info p w = do {
     i \<leftarrow> gw_infos w p;
     Some (put_ginfo p (i\<lparr> gi_guild := None, gi_rank := None, gi_member := None \<rparr>) w) }"

definition log_removal :: "int \<Rightarrow> guildptr \<Rightarrow> pguid \<Rightarrow> pguid option \<Rightarrow> gd_world \<Rightarrow> gd_world option" where
  "log_removal now gp p client w =
     (case client of
        Some c \<Rightarrow> if c \<noteq> p
          then do {
            let w1 = (if gd_online w p then gd_sys p (''You have been removed from the guild by '' @ gd_name_of w c) w else w);
            w2 \<leftarrow> LogGuildEvent gp 5 [gd_name_of w p, gd_name_of w c] w1;
            AddGuildLogEntry now gp 5 [c, p] w2 }
          else do { w2 \<leftarrow> LogGuildEvent gp 4 [gd_name_of w p] w; AddGuildLogEntry now gp 6 [p] w2 }
      | None \<Rightarrow> do { w2 \<leftarrow> LogGuildEvent gp 4 [gd_name_of w p] w; AddGuildLogEntry now gp 6 [p] w2 })"

definition RemoveGuildMember :: "int \<Rightarrow> guildptr \<Rightarrow> pguid \<Rightarrow> pguid option \<Rightarrow> gd_world \<Rightarrow> gd_world option" where
  "RemoveGuildMember now gp p client w = do {
     verdict \<leftarrow> may_remove gp p client w;
     (case verdict of Inl w' \<Rightarrow> Some w'
      | Inr _ \<Rightarrow> do {
          w1 \<leftarrow> erase_member gp p (w\<lparr> db_data := db_delete (\<lambda>k. snd k = p) (db_data w) \<rparr>);
          w2 \<leftarrow> log_removal now gp p client w1;
          w3 \<leftarrow> clear_info p w2;
          Some (set_guild_id p 0 (set_guild_rank p 0 w3)) }) }"

text \<open>\<open>SetPublicNote\<close> and \<open>SetOfficerNote\<close>: an empty note is a null pointer.\<close>

definition note_of :: "string \<Rightarrow> string option" where
  "note_of s = (if s = [] then None else Some s)"

definition set_note :: "u32 \<Rightarrow> u32 \<Rightarrow> (guild_member \<Rightarrow> guild_member) \<Rightarrow> (member_row \<Rightarrow> member_row) \<Rightarrow>
    guildptr \<Rightarrow> pguid \<Rightarrow> pguid \<Rightarrow> gd_world \<Rightarrow> gd_world option" where
  "set_note right msg f fr gp p c w = do {
     ip \<leftarrow> gw_infos w p; ic \<leftarrow> gw_infos w c;
     if gi_guild ip \<noteq> Some gp \<or> gi_guild ic \<noteq> Some gp then Some w
     else do {
       rc \<leftarrow> rank_of w c;
       if \<not> CanPerformCommand rc right then Some (SendGuildCommandResult c GUILD_MEMBER_S [] GUILD_PERMISSIONS w)
       else do {
         g \<leftarrow> gw_guilds w gp;
         w1 \<leftarrow> (case map_of (gd_members g) p of None \<Rightarrow> Some w
            | Some mp \<Rightarrow> do { m \<leftarrow> gw_members w mp; Some (sql_data (\<lambda>k. snd k = p) fr (put_member mp (f m) w)) });
         Some (SendGuildCommandResult c msg (gd_name_of w p) 0 w1) } } }"

definition SetPublicNote :: "string \<Rightarrow> guildptr \<Rightarrow> pguid \<Rightarrow> pguid \<Rightarrow> gd_world \<Rightarrow> gd_world option" where
  "SetPublicNote s = set_note GR_RIGHT_EPNOTE 19 (\<lambda>m. m\<lparr> mb_public := note_of s \<rparr>) (\<lambda>x. x\<lparr> mr_public := s \<rparr>)"

definition SetOfficerNote :: "string \<Rightarrow> guildptr \<Rightarrow> pguid \<Rightarrow> pguid \<Rightarrow> gd_world \<Rightarrow> gd_world option" where
  "SetOfficerNote s = set_note GR_RIGHT_EOFFNOTE 20 (\<lambda>m. m\<lparr> mb_officer := note_of s \<rparr>) (\<lambda>x. x\<lparr> mr_officer := s \<rparr>)"

section \<open>The guild\<close>

definition guild_right :: "u32 \<Rightarrow> guildptr \<Rightarrow> pguid \<Rightarrow> gd_world \<Rightarrow> (gd_world + unit) option" where
  "guild_right right gp c w = do {
     ic \<leftarrow> gw_infos w c;
     if gi_guild ic \<noteq> Some gp then Some (Inl w)
     else do {
       rc \<leftarrow> rank_of w c;
       Some (if CanPerformCommand rc right then Inr ()
             else Inl (SendGuildCommandResult c GUILD_INVITE_S [] GUILD_PERMISSIONS w)) } }"

definition SetMOTD :: "string \<Rightarrow> guildptr \<Rightarrow> pguid \<Rightarrow> gd_world \<Rightarrow> gd_world option" where
  "SetMOTD s gp c w = do {
     verdict \<leftarrow> guild_right GR_RIGHT_SETMOTD gp c w;
     (case verdict of Inl w' \<Rightarrow> Some w'
      | Inr _ \<Rightarrow> do {
          g \<leftarrow> gw_guilds w gp;
          LogGuildEvent gp 2 [s] (sql_guild (gd_id g) (\<lambda>x. x\<lparr> gr_motd := s \<rparr>) (put_guild gp (g\<lparr> gd_motd := note_of s \<rparr>) w)) }) }"

definition SetGuildInformation :: "string \<Rightarrow> guildptr \<Rightarrow> pguid \<Rightarrow> gd_world \<Rightarrow> gd_world option" where
  "SetGuildInformation s gp c w = do {
     verdict \<leftarrow> guild_right GR_RIGHT_EGUILDINFO gp c w;
     (case verdict of Inl w' \<Rightarrow> Some w'
      | Inr _ \<Rightarrow> do {
          g \<leftarrow> gw_guilds w gp;
          Some (sql_guild (gd_id g) (\<lambda>x. x\<lparr> gr_info := s \<rparr>) (put_guild gp (g\<lparr> gd_info := note_of s \<rparr>) w)) }) }"

definition SetTabardInfo :: "u32 list \<Rightarrow> guildptr \<Rightarrow> gd_world \<Rightarrow> gd_world option" where
  "SetTabardInfo em gp w = do {
     g \<leftarrow> gw_guilds w gp;
     Some (sql_guild (gd_id g) (\<lambda>x. x\<lparr> gr_emblem := em \<rparr>) (put_guild gp (g\<lparr> gd_emblem := em \<rparr>) w)) }"

text \<open>
  \<open>Disband\<close> and the destructor: every member and every rank is freed. The row of the guild goes with
  those of its ranks and members.
\<close>

definition drop_member :: "gd_world \<Rightarrow> pguid \<times> memptr \<Rightarrow> gd_world option" where
  "drop_member w e = do {
     w1 \<leftarrow> map_option (\<lambda>w. set_guild_rank (fst e) 0 (set_guild_id (fst e) 0 w)) (clear_info (fst e) w);
     _ \<leftarrow> gw_members w1 (snd e);
     Some (w1\<lparr> gw_members := (gw_members w1)(snd e := None) \<rparr>) }"

definition free_rank :: "gd_world \<Rightarrow> rankptr option \<Rightarrow> gd_world option" where
  "free_rank w slot = (case slot of None \<Rightarrow> Some w
     | Some rp \<Rightarrow> do { _ \<leftarrow> gw_ranks w rp; Some (w\<lparr> gw_ranks := (gw_ranks w)(rp := None) \<rparr>) })"

definition Disband :: "guildptr \<Rightarrow> gd_world \<Rightarrow> gd_world option" where
  "Disband gp w = do {
     g \<leftarrow> gw_guilds w gp;
     w1 \<leftarrow> foldM drop_member w (gd_members g);
     w2 \<leftarrow> foldM free_rank w1 (gd_ranks g);
     Some (w2\<lparr> gw_registry := map_erase (gd_id g) (gw_registry w2),
       db_guilds := db_delete (\<lambda>k. k = gd_id g) (db_guilds w2),
       db_ranks := db_delete (\<lambda>k. fst k = gd_id g) (db_ranks w2),
       db_data := db_delete (\<lambda>k. fst k = gd_id g) (db_data w2),
       gw_guilds := (gw_guilds w2)(gp := None) \<rparr>) }"

text \<open>The unique key on \<open>leaderGuid\<close>: an update to the leader of another guild is refused.\<close>

definition sql_leader :: "u32 \<Rightarrow> pguid \<Rightarrow> gd_world \<Rightarrow> gd_world" where
  "sql_leader k p w = (if \<exists>x \<in> set (db_guilds w). fst x \<noteq> k \<and> gr_leader (snd x) = p then w
     else sql_guild k (\<lambda>x. x\<lparr> gr_leader := p \<rparr>) w)"

definition ChangeGuildMaster :: "guildptr \<Rightarrow> pguid \<Rightarrow> pguid \<Rightarrow> gd_world \<Rightarrow> gd_world option" where
  "ChangeGuildMaster gp p c w = do {
     g \<leftarrow> gw_guilds w gp;
     if c \<noteq> gd_leader g then Some (SendGuildCommandResult c GUILD_PROMOTE_S [] GUILD_PERMISSIONS w)
     else (case FindHighestRank g of None \<Rightarrow> Some w
       | Some rp \<Rightarrow> do {
           slot \<leftarrow> rank_slot g 0;
           top \<leftarrow> slot;
           (case (map_of (gd_members g) p, map_of (gd_members g) c) of
              (Some mp, Some mc) \<Rightarrow> do {
                w1 \<leftarrow> assign_rank p mp top w;
                w2 \<leftarrow> assign_rank c mc rp w1;
                r \<leftarrow> gw_ranks w2 rp;
                let w3 = sql_leader (gd_id g) p w2;
                let w4 = sql_data (\<lambda>k. k = (gd_id g, p)) (\<lambda>x. x\<lparr> mr_rank := 0 \<rparr>) w3;
                let w5 = sql_data (\<lambda>k. k = (gd_id g, c)) (\<lambda>x. x\<lparr> mr_rank := rk_id r \<rparr>) w4;
                Some (put_guild gp (g\<lparr> gd_leader := p \<rparr>) w5) }
            | _ \<Rightarrow> Some w) }) }"

section \<open>The bank\<close>

definition mod_coins :: "pguid \<Rightarrow> u32 \<Rightarrow> gd_world \<Rightarrow> gd_world option" where
  "mod_coins p m w = do {
     i \<leftarrow> gw_infos w p;
     o' \<leftarrow> gi_online i;
     Some (put_ginfo p (i\<lparr> gi_online := Some (o'\<lparr> pl_coins := ModUnsigned32Value (pl_coins o') m \<rparr>) \<rparr>) w) }"

text \<open>
  The daily limits. The comparison with the last reset is made on \<open>time_t\<close> in the two
  \<open>Calculate\<close> functions, on 32 bits in the two others.
\<close>

definition CalculateAvailableAmount :: "int \<Rightarrow> guild_rank \<Rightarrow> guild_member \<Rightarrow> u32" where
  "CalculateAvailableAmount now r m =
     (if rk_gold r = -1 then 0xFFFFFFFF else if rk_gold r = 0 then 0
      else if TIME_DAY \<le> now - uint (mb_wreset m) then rk_gold r else rk_gold r - mb_wcount m)"

definition OnMoneyWithdraw :: "int \<Rightarrow> u32 \<Rightarrow> memptr \<Rightarrow> gd_world \<Rightarrow> gd_world option" where
  "OnMoneyWithdraw now amt mp w = do {
     m \<leftarrow> gw_members w mp;
     r \<leftarrow> gw_ranks w (mb_rank m);
     if sint (rk_gold r) \<le> 0 then Some w
     else let t = (word_of_int now :: u32);
              m' = (if TIME_DAY \<le> uint (t - mb_wreset m) then m\<lparr> mb_wreset := t, mb_wcount := amt \<rparr>
                    else m\<lparr> mb_wcount := mb_wcount m + 1 \<rparr>)
          in Some (sql_data (\<lambda>k. snd k = mb_player m) (\<lambda>x. x\<lparr> mr_wreset := mb_wreset m', mr_wcount := mb_wcount m' \<rparr>) (put_member mp m' w)) }"

definition CalculateAllowedItemWithdraws :: "int \<Rightarrow> guild_rank \<Rightarrow> guild_member \<Rightarrow> nat \<Rightarrow> u32" where
  "CalculateAllowedItemWithdraws now r m tab =
     (let s = snd (rk_tabs r ! tab)
      in if s = -1 then 0xFFFFFFFF else if s = 0 then 0
         else if TIME_DAY \<le> now - uint (mb_ireset m ! tab) then s else s - mb_icount m ! tab)"

definition OnItemWithdraw :: "int \<Rightarrow> nat \<Rightarrow> memptr \<Rightarrow> gd_world \<Rightarrow> gd_world option" where
  "OnItemWithdraw now tab mp w = do {
     m \<leftarrow> gw_members w mp;
     r \<leftarrow> gw_ranks w (mb_rank m);
     if length (rk_tabs r) \<le> tab \<or> length (mb_ireset m) \<le> tab \<or> length (mb_icount m) \<le> tab then None
     else if sint (snd (rk_tabs r ! tab)) \<le> 0 then Some w
     else let t = (word_of_int now :: u32);
              m' = (if TIME_DAY \<le> uint (t - mb_ireset m ! tab)
                    then m\<lparr> mb_ireset := (mb_ireset m)[tab := t], mb_icount := (mb_icount m)[tab := 1] \<rparr>
                    else m\<lparr> mb_icount := (mb_icount m)[tab := mb_icount m ! tab + 1] \<rparr>)
          in Some (sql_data (\<lambda>k. snd k = mb_player m) (\<lambda>x. x\<lparr> mr_ireset := mb_ireset m', mr_icount := mb_icount m' \<rparr>) (put_member mp m' w)) }"

text \<open>\<open>snprintf\<close> with \<open>I64FMT\<close>: sixteen hexadecimal digits.\<close>

definition hex16 :: "u32 \<Rightarrow> string" where
  "hex16 b = map (\<lambda>i. ''0123456789ABCDEF'' ! unat (and (drop_bit (4 * i) b) 0xF)) (rev [0..<16])"

definition set_balance :: "guildptr \<Rightarrow> u32 \<Rightarrow> gd_world \<Rightarrow> gd_world option" where
  "set_balance gp b w = do {
     g \<leftarrow> gw_guilds w gp;
     Some (sql_guild (gd_id g) (\<lambda>x. x\<lparr> gr_balance := b \<rparr>) (put_guild gp (g\<lparr> gd_balance := b \<rparr>) w)) }"

definition DepositMoney :: "int \<Rightarrow> u32 \<Rightarrow> guildptr \<Rightarrow> pguid \<Rightarrow> gd_world \<Rightarrow> gd_world option" where
  "DepositMoney now amt gp c w = do {
     ic \<leftarrow> gw_infos w c; o' \<leftarrow> gi_online ic;
     if pl_coins o' < amt \<or> amt = 0 then Some w
     else do {
       g \<leftarrow> gw_guilds w gp;
       let b = gd_balance g + amt;
       w1 \<leftarrow> set_balance gp b w;
       w2 \<leftarrow> mod_coins c (- amt) w1;
       w3 \<leftarrow> LogGuildEvent gp 0x11 [hex16 b] w2;
       LogGuildBankActionMoney now gp 4 c amt w3 } }"

definition WithdrawMoney :: "int \<Rightarrow> u32 \<Rightarrow> guildptr \<Rightarrow> pguid \<Rightarrow> gd_world \<Rightarrow> gd_world option" where
  "WithdrawMoney now amt gp c w = do {
     ic \<leftarrow> gw_infos w c;
     g \<leftarrow> gw_guilds w gp;
     (case gi_member ic of None \<Rightarrow> Some w
      | Some mp \<Rightarrow>
          if amt = 0 then Some w
          else if gd_balance g < amt then Some (gd_sys c ''You cannot withdraw more money then the account holds.'' w)
          else do {
            rc \<leftarrow> rank_of w c;
            m \<leftarrow> gw_members w mp;
            r \<leftarrow> gw_ranks w (mb_rank m);
            if rk_id rc \<noteq> 0 \<and> 0 < sint (rk_gold r) \<and> CalculateAvailableAmount now r m < amt
            then Some (gd_sys c ''You have already withdrawn too much today.'' w)
            else if rk_id rc \<noteq> 0 \<and> rk_gold r = 0
            then Some (gd_sys c ''You don't have permission to withdraw money.'' w)
            else do {
              w1 \<leftarrow> OnMoneyWithdraw now amt mp w;
              w2 \<leftarrow> mod_coins c amt w1;
              let b = gd_balance g - amt;
              w3 \<leftarrow> set_balance gp b w2;
              w4 \<leftarrow> LogGuildEvent gp 0x11 [hex16 b] w3;
              LogGuildBankActionMoney now gp 5 c amt w4 } }) }"

definition BuyBankTab :: "guildptr \<Rightarrow> pguid option \<Rightarrow> gd_world \<Rightarrow> gd_world option" where
  "BuyBankTab gp client w = do {
     g \<leftarrow> gw_guilds w gp;
     if client \<noteq> None \<and> client \<noteq> Some (gd_leader g) \<or> of_nat MAX_GUILD_BANK_TABS \<le> gd_tabcount g then Some w
     else let tab = \<lparr> tb_id = ucast (gd_tabcount g), tb_name = None, tb_icon = None,
                      tb_slots = replicate MAX_GUILD_BANK_SLOTS None, tb_log = [] \<rparr>;
              n = gd_tabcount g + 1
          in Some (sql_guild (gd_id g) (\<lambda>x. x\<lparr> gr_tabs := n \<rparr>)
               (put_guild gp (g\<lparr> gd_tabs := gd_tabs g @ [tab], gd_tabcount := n \<rparr>) w)) }"

text \<open>\<open>GetBankTab\<close>: the outer option is an access outside \<open>m_bankTabs\<close>.\<close>

definition GetBankTab :: "guild \<Rightarrow> u32 \<Rightarrow> guild_bank_tab option option" where
  "GetBankTab g i = (if gd_tabcount g \<le> i then Some None
     else if unat i < length (gd_tabs g) then Some (Some (gd_tabs g ! unat i)) else None)"

definition put_tab :: "u32 \<Rightarrow> (guild_bank_tab \<Rightarrow> guild_bank_tab) \<Rightarrow> guild \<Rightarrow> guild" where
  "put_tab i f g = g\<lparr> gd_tabs := (gd_tabs g)[unat i := f (gd_tabs g ! unat i)] \<rparr>"

text \<open>\<open>HandleGuildBankModifyTab\<close>: a new icon is stored as a copy of the name.\<close>

definition modify_tab :: "string \<Rightarrow> string \<Rightarrow> guild_bank_tab \<Rightarrow> guild_bank_tab" where
  "modify_tab name icon tab = tab\<lparr>
     tb_name := (if name = [] then None else Some name),
     tb_icon := (if icon = [] then None else if tb_icon tab = Some icon then Some icon else Some name) \<rparr>"

text \<open>\<open>HandleGuildBankDepositItem\<close>, moving between two slots of the bank.\<close>

definition swap_slots :: "u8 \<Rightarrow> u8 \<Rightarrow> u8 \<Rightarrow> u8 \<Rightarrow> guild \<Rightarrow> guild" where
  "swap_slots db ds sb ss g =
     (let src = tb_slots (gd_tabs g ! unat sb) ! unat ss; dst = tb_slots (gd_tabs g ! unat db) ! unat ds
      in put_tab (ucast db) (\<lambda>t. t\<lparr> tb_slots := (tb_slots t)[unat ds := src] \<rparr>)
           (put_tab (ucast sb) (\<lambda>t. t\<lparr> tb_slots := (tb_slots t)[unat ss := dst] \<rparr>) g))"

definition MoveBankItem :: "u8 \<Rightarrow> u8 \<Rightarrow> u8 \<Rightarrow> u8 \<Rightarrow> guildptr \<Rightarrow> memptr \<Rightarrow> gd_world \<Rightarrow> gd_world option" where
  "MoveBankItem db ds sb ss gp mp w =
     (if of_nat MAX_GUILD_BANK_SLOTS \<le> ss \<or> of_nat MAX_GUILD_BANK_SLOTS \<le> ds \<or>
         of_nat MAX_GUILD_BANK_TABS \<le> sb \<or> of_nat MAX_GUILD_BANK_TABS \<le> db then Some w
      else do {
        m \<leftarrow> gw_members w mp;
        r \<leftarrow> gw_ranks w (mb_rank m);
        pd \<leftarrow> CanPerformBankCommand r GR_RIGHT_GUILD_BANK_DEPOSIT_ITEMS (unat db);
        ps \<leftarrow> CanPerformBankCommand r GR_RIGHT_GUILD_BANK_DEPOSIT_ITEMS (unat sb);
        if \<not> pd \<or> \<not> ps then Some w
        else do {
          g \<leftarrow> gw_guilds w gp;
          ts \<leftarrow> GetBankTab g (ucast sb);
          td \<leftarrow> GetBankTab g (ucast db);
          (case (ts, td) of
             (Some src, Some dst) \<Rightarrow>
               if length (tb_slots src) \<le> unat ss \<or> length (tb_slots dst) \<le> unat ds then None
               else if tb_slots src ! unat ss = None \<and> tb_slots dst ! unat ds = None then Some w
               else Some (put_guild gp (swap_slots db ds sb ss g) w)
           | _ \<Rightarrow> Some w) } })"

section \<open>Chat\<close>

definition hears :: "u32 \<Rightarrow> gd_world \<Rightarrow> pguid \<times> memptr \<Rightarrow> bool option" where
  "hears right w e = do { m \<leftarrow> gw_members w (snd e); r \<leftarrow> gw_ranks w (mb_rank m); Some (CanPerformCommand r right) }"

definition guild_chat :: "u32 \<Rightarrow> u32 \<Rightarrow> u8 \<Rightarrow> string \<Rightarrow> bool \<Rightarrow> guildptr \<Rightarrow> pguid \<Rightarrow> gd_world \<Rightarrow> gd_world option" where
  "guild_chat speak listen kind msg addon gp c w = do {
     ic \<leftarrow> gw_infos w c;
     if gi_guild ic \<noteq> Some gp then Some w
     else do {
       rc \<leftarrow> rank_of w c;
       o' \<leftarrow> gi_online ic;
       g \<leftarrow> gw_guilds w gp;
       if \<not> CanPerformCommand rc speak then Some (SendGuildCommandResult c GUILD_MEMBER_S [] GUILD_PERMISSIONS w)
       else if \<exists>e \<in> set (gd_members g). hears listen w e = None then None
       else gd_send_members (\<lambda>e. hears listen w e = Some True) gp
         (''SMSG_MESSAGECHAT'', [U8 kind, U32 (if addon then -1 else 0), U64 (ucast c), U32 0, U64 (ucast c),
            U32 (of_nat (length msg) + 1), Str msg, U8 (if pl_gmtag o' then 4 else 0)]) w } }"

definition GuildChat :: "string \<Rightarrow> bool \<Rightarrow> guildptr \<Rightarrow> pguid \<Rightarrow> gd_world \<Rightarrow> gd_world option" where
  "GuildChat = guild_chat GR_RIGHT_GCHATSPEAK GR_RIGHT_GCHATLISTEN 4"

definition OfficerChat :: "string \<Rightarrow> bool \<Rightarrow> guildptr \<Rightarrow> pguid \<Rightarrow> gd_world \<Rightarrow> gd_world option" where
  "OfficerChat = guild_chat GR_RIGHT_OFFCHATSPEAK GR_RIGHT_OFFCHATLISTEN 5"

section \<open>Creation\<close>

text \<open>A charter, as far as \<open>CreateFromCharter\<close> reads it: \<open>Signatures\<close> has nine slots.\<close>

record charter =
  ct_leader :: u32
  ct_name :: string
  ct_signatures :: "u32 list"
  ct_count :: nat

definition guild_blank :: "u32 \<Rightarrow> charter \<Rightarrow> int \<Rightarrow> guild" where
  "guild_blank n ct now = \<lparr> gd_id = n, gd_leader = ct_leader ct, gd_name = ct_name ct, gd_emblem = replicate 5 0,
     gd_created = word_of_int now, gd_info = None, gd_motd = None, gd_tabcount = 0, gd_balance = 0, gd_tabs = [],
     gd_members = [], gd_ranks = replicate MAX_GUILD_RANKS None, gd_log = [], gd_mlog = [], gd_hilog = 1, gd_logging = True \<rparr>"

definition row_of_guild :: "guild \<Rightarrow> guild_row" where
  "row_of_guild g = \<lparr> gr_name = gd_name g, gr_leader = gd_leader g, gr_emblem = gd_emblem g,
     gr_info = (case gd_info g of None \<Rightarrow> [] | Some s \<Rightarrow> s), gr_motd = (case gd_motd g of None \<Rightarrow> [] | Some s \<Rightarrow> s),
     gr_created = gd_created g, gr_tabs = gd_tabcount g, gr_balance = gd_balance g \<rparr>"

text \<open>\<open>CreateInDB\<close>: refused when the name or the leader is taken.\<close>

definition CreateInDB :: "guildptr \<Rightarrow> gd_world \<Rightarrow> gd_world option" where
  "CreateInDB gp w = do {
     g \<leftarrow> gw_guilds w gp;
     Some (if \<exists>x \<in> set (db_guilds w). stricmp_eq (gr_name (snd x)) (gd_name g) \<or> gr_leader (snd x) = gd_leader g then w
           else w\<lparr> db_guilds := db_insert (gd_id g) (row_of_guild g) (db_guilds w) \<rparr>) }"

definition CreateGuild :: "charter \<Rightarrow> int \<Rightarrow> gd_world \<Rightarrow> gd_world \<times> guildptr" where
  "CreateGuild ct now w = (let gp = gw_next w; n = gw_hi w + 1
     in (put_guild gp (guild_blank n ct now) (w\<lparr> gw_next := gp + 1, gw_hi := n \<rparr>), gp))"

definition default_ranks :: "(string \<times> u32 \<times> bool) list" where
  "default_ranks = [(''Guild Master'', GR_RIGHT_ALL, True), (''Officer'', GR_RIGHT_ALL, True),
     (''Veteran'', 3, False), (''Member'', 3, False), (''Initiate'', 3, False)]"

definition add_default_rank :: "guildptr \<Rightarrow> gd_world \<Rightarrow> string \<times> u32 \<times> bool \<Rightarrow> gd_world option" where
  "add_default_rank gp w x = map_option fst (CreateGuildRank gp (fst x) (fst (snd x)) (snd (snd x)) w)"

definition set_logging :: "guildptr \<Rightarrow> bool \<Rightarrow> gd_world \<Rightarrow> gd_world option" where
  "set_logging gp b w = do { g \<leftarrow> gw_guilds w gp; Some (put_guild gp (g\<lparr> gd_logging := b \<rparr>) w) }"

definition add_signer :: "int \<Rightarrow> guildptr \<Rightarrow> gd_world \<Rightarrow> u32 \<Rightarrow> gd_world option" where
  "add_signer now gp w p = (if gw_infos w p = None then Some w else AddGuildMember now gp p None 4 w)"

text \<open>
  \<open>HandleCharterTurnInCharter\<close> for a guild charter, with \<open>CreateFromCharter\<close>: the ids of the first
  and the last of the five ranks are 0 and 4.
\<close>

definition CreateFromCharter :: "int \<Rightarrow> charter \<Rightarrow> pguid \<Rightarrow> gd_world \<Rightarrow> gd_world option" where
  "CreateFromCharter now ct c w = do {
     let (w1, gp) = CreateGuild ct now w;
     w2 \<leftarrow> CreateInDB gp w1;
     w3 \<leftarrow> foldM (add_default_rank gp) w2 default_ranks;
     w4 \<leftarrow> set_logging gp False w3;
     w5 \<leftarrow> AddGuildMember now gp c None 0 w4;
     w6 \<leftarrow> (if length (ct_signatures ct) < ct_count ct then None
           else foldM (add_signer now gp) w5 (take (ct_count ct) (ct_signatures ct)));
     set_logging gp True w6 }"

section \<open>Opcodes\<close>

text \<open>
  What a client asks for. A name in a packet is given with the player it was resolved to, if any:
  \<open>GetPlayerInfoByName\<close> finds infos, \<open>GetPlayer\<close> players in the world.
\<close>

datatype gd_op =
    GdInvite string "pguid option"
  | GdAccept
  | GdDecline
  | GdInformation string
  | GdPromote "pguid option"
  | GdDemote "pguid option"
  | GdLeave
  | GdRemove "pguid option"
  | GdDisband
  | GdLeader "pguid option"
  | GdMotd string
  | GdRank u32 u32 string u32 "nat \<Rightarrow> u32 \<times> u32"
  | GdAddRank string
  | GdDelRank
  | GdPublicNote "pguid option" string
  | GdOfficerNote "pguid option" string
  | GdEmblem "u32 list"
  | GdBuyTab
  | GdModifyTab u8 string string
  | GdWithdraw u32
  | GdDeposit u32
  | GdMoveItem u8 u8 u8 u8
  | GdTurnIn charter
  | GdChat string bool
  | GdOfficerChat string bool

text \<open>The configuration: \<open>cross_faction_world\<close> and \<open>RequireAllSignatures\<close>.\<close>

record gd_conf =
  cf_cross :: bool
  cf_signatures :: bool

definition not_in_guild :: "pguid \<Rightarrow> gd_world \<Rightarrow> gd_world option" where
  "not_in_guild c w = Some (SendGuildCommandResult c GUILD_CREATE_S [] GUILD_PLAYER_NOT_IN_GUILD w)"

text \<open>\<open>_player->m_playerInfo->guild\<close>, or what the handler does without one.\<close>

definition own_guild :: "(gd_world \<Rightarrow> gd_world option) \<Rightarrow> pguid \<Rightarrow> gd_world \<Rightarrow> (guildptr \<Rightarrow> gd_world option) \<Rightarrow> gd_world option" where
  "own_guild none c w f = do { ic \<leftarrow> gw_infos w c; (case gi_guild ic of None \<Rightarrow> none w | Some gp \<Rightarrow> f gp) }"

text \<open>The guild master's opcodes: another member gets a reply.\<close>

definition as_leader :: "u32 \<Rightarrow> guildptr \<Rightarrow> pguid \<Rightarrow> gd_world \<Rightarrow> gd_world option \<Rightarrow> gd_world option" where
  "as_leader cmd gp c w f = do {
     g \<leftarrow> gw_guilds w gp;
     if gd_leader g \<noteq> c then Some (SendGuildCommandResult c cmd [] GUILD_PERMISSIONS w) else f }"

definition HandleInviteToGuild :: "gd_conf \<Rightarrow> pguid \<Rightarrow> string \<Rightarrow> pguid option \<Rightarrow> gd_world \<Rightarrow> gd_world option" where
  "HandleInviteToGuild cf c name dst w = do {
     ic \<leftarrow> gw_infos w c; oc \<leftarrow> gi_online ic;
     (case dst of None \<Rightarrow> Some (SendGuildCommandResult c GUILD_INVITE_S name 0xB w)
      | Some p \<Rightarrow> own_guild (not_in_guild c) c w (\<lambda>gp. do {
          ip \<leftarrow> gw_infos w p; op \<leftarrow> gi_online ip;
          if pl_guild_id op \<noteq> 0 then Some (SendGuildCommandResult c GUILD_INVITE_S (gi_name ip) 3 w)
          else if pl_inviter op \<noteq> 0 then Some (SendGuildCommandResult c GUILD_INVITE_S (gi_name ip) 5 w)
          else do {
            rc \<leftarrow> rank_of w c;
            g \<leftarrow> gw_guilds w gp;
            if \<not> CanPerformCommand rc GR_RIGHT_INVITE
            then Some (SendGuildCommandResult c GUILD_INVITE_S [] GUILD_PERMISSIONS w)
            else if pl_team op \<noteq> pl_team oc \<and> \<not> pl_gm oc \<and> \<not> cf_cross cf
            then Some (SendGuildCommandResult c GUILD_INVITE_S [] 0xC w)
            else if MAX_GUILD_MEMBERS \<le> length (gd_members g)
            then Some (SendGuildCommandResult c GUILD_INVITE_S [] 1 w)
            else let w1 = gd_send p (''SMSG_GUILD_INVITE'', [Str (gi_name ic), Str (gd_name g)])
                            (SendGuildCommandResult c GUILD_INVITE_S name 0 w)
              in Some (put_ginfo p (ip\<lparr> gi_online := Some (op\<lparr> pl_inviter := c \<rparr>) \<rparr>) w1) } })) }"

text \<open>The inviter is looked up by the guid that was stored, and may have changed guild since.\<close>

definition take_invitation :: "pguid \<Rightarrow> gd_world \<Rightarrow> (pguid option \<times> gd_world) option" where
  "take_invitation c w = do {
     ic \<leftarrow> gw_infos w c; oc \<leftarrow> gi_online ic;
     let inviter = pl_inviter oc;
     Some (if gd_online w inviter then Some inviter else None,
           put_ginfo c (ic\<lparr> gi_online := Some (oc\<lparr> pl_inviter := 0 \<rparr>) \<rparr>) w) }"

definition HandleGuildAccept :: "int \<Rightarrow> pguid \<Rightarrow> gd_world \<Rightarrow> gd_world option" where
  "HandleGuildAccept now c w = do {
     (inviter, w1) \<leftarrow> take_invitation c w;
     (case inviter of None \<Rightarrow> Some w1
      | Some i \<Rightarrow> own_guild Some i w1 (\<lambda>gp. do {
          g \<leftarrow> gw_guilds w1 gp;
          if MAX_GUILD_MEMBERS \<le> length (gd_members g) then Some w1 else AddGuildMember now gp c None (-1) w1 })) }"

definition HandleGuildDecline :: "pguid \<Rightarrow> gd_world \<Rightarrow> gd_world option" where
  "HandleGuildDecline c w = do {
     (inviter, w1) \<leftarrow> take_invitation c w;
     Some (case inviter of None \<Rightarrow> w1 | Some i \<Rightarrow> gd_send i (''SMSG_GUILD_DECLINE'', [Str (gd_name_of w1 c)]) w1) }"

definition on_player :: "pguid option \<Rightarrow> gd_world \<Rightarrow> (pguid \<Rightarrow> gd_world option) \<Rightarrow> gd_world option" where
  "on_player dst w f = (case dst of None \<Rightarrow> Some w | Some p \<Rightarrow> f p)"

definition HandleGuildLeader :: "guildptr \<Rightarrow> pguid \<Rightarrow> pguid \<Rightarrow> gd_world \<Rightarrow> gd_world option" where
  "HandleGuildLeader gp p c w = do {
     ip \<leftarrow> gw_infos w p;
     if gi_guild ip \<noteq> Some gp then not_in_guild c w else as_leader GUILD_PROMOTE_S gp c w (ChangeGuildMaster gp p c w) }"

text \<open>\<open>HandleSaveGuildEmblem\<close> asks for ten gold and does not take them.\<close>

definition HandleSaveGuildEmblem :: "u32 list \<Rightarrow> pguid \<Rightarrow> gd_world \<Rightarrow> gd_world option" where
  "HandleSaveGuildEmblem em c w = do {
     ic \<leftarrow> gw_infos w c; oc \<leftarrow> gi_online ic;
     let reply = (\<lambda>n. gd_send c (''MSG_SAVE_GUILD_EMBLEM'', [U32 n]) w);
     (case gi_guild ic of None \<Rightarrow> Some (reply 2)
      | Some gp \<Rightarrow> do {
          g \<leftarrow> gw_guilds w gp;
          if gd_leader g \<noteq> c then Some (reply 3)
          else if pl_coins oc < 100000 then Some (reply 4)
          else SetTabardInfo em gp (reply 0) }) }"

definition GuildBankPrices :: "u32 list" where
  "GuildBankPrices = [100, 250, 500, 1000, 2500, 5000]"

definition HandleGuildBankBuyTab :: "guildptr \<Rightarrow> pguid \<Rightarrow> gd_world \<Rightarrow> gd_world option" where
  "HandleGuildBankBuyTab gp c w = as_leader GUILD_MEMBER_S gp c w (do {
     ic \<leftarrow> gw_infos w c; oc \<leftarrow> gi_online ic;
     g \<leftarrow> gw_guilds w gp;
     if 6 \<le> gd_tabcount g then Some w
     else let cost = 10000 * GuildBankPrices ! unat (gd_tabcount g)
       in if pl_coins oc < cost then Some w
          else do {
            w1 \<leftarrow> mod_coins c (- cost) w;
            w2 \<leftarrow> BuyBankTab gp (Some c) w1;
            LogGuildEvent gp 0xF [[]] w2 } })"

definition HandleGuildBankModifyTab :: "u8 \<Rightarrow> string \<Rightarrow> string \<Rightarrow> guildptr \<Rightarrow> pguid \<Rightarrow> gd_world \<Rightarrow> gd_world option" where
  "HandleGuildBankModifyTab slot name icon gp c w = do {
     g \<leftarrow> gw_guilds w gp;
     tab \<leftarrow> GetBankTab g (ucast slot);
     if tab = None then Some w
     else as_leader GUILD_MEMBER_S gp c w (Some (put_guild gp (put_tab (ucast slot) (modify_tab name icon) g) w)) }"

definition HandleGuildAddRank :: "string \<Rightarrow> guildptr \<Rightarrow> gd_world \<Rightarrow> gd_world option" where
  "HandleGuildAddRank name gp w = (if length name < 2 then Some w
     else map_option fst (CreateGuildRank gp name GR_RIGHT_DEFAULT False w))"

definition HandleCharterTurnIn :: "gd_conf \<Rightarrow> int \<Rightarrow> charter \<Rightarrow> pguid \<Rightarrow> gd_world \<Rightarrow> gd_world option" where
  "HandleCharterTurnIn cf now ct c w =
     (if ct_leader ct \<noteq> c then Some w
      else if ct_count ct < 9 \<and> cf_signatures cf
      then Some (gd_send c (''Notification'', [Str ''You don't have the required amount of signatures to turn in this petition.'']) w)
      else CreateFromCharter now ct c w)"

fun gd_handle :: "gd_conf \<Rightarrow> int \<Rightarrow> pguid \<Rightarrow> gd_op \<Rightarrow> gd_world \<Rightarrow> gd_world option" where
  "gd_handle cf now c (GdInvite name dst) w = HandleInviteToGuild cf c name dst w"
| "gd_handle cf now c GdAccept w = HandleGuildAccept now c w"
| "gd_handle cf now c GdDecline w = HandleGuildDecline c w"
| "gd_handle cf now c (GdInformation s) w = own_guild (not_in_guild c) c w (\<lambda>gp. SetGuildInformation s gp c w)"
| "gd_handle cf now c (GdPromote dst) w = own_guild (not_in_guild c) c w (\<lambda>gp. on_player dst w (\<lambda>p. PromoteGuildMember now gp p c w))"
| "gd_handle cf now c (GdDemote dst) w = own_guild (not_in_guild c) c w (\<lambda>gp. on_player dst w (\<lambda>p. DemoteGuildMember now gp p c w))"
| "gd_handle cf now c GdLeave w = own_guild (not_in_guild c) c w (\<lambda>gp. RemoveGuildMember now gp c (Some c) w)"
| "gd_handle cf now c (GdRemove dst) w = own_guild (not_in_guild c) c w (\<lambda>gp. on_player dst w (\<lambda>p. RemoveGuildMember now gp p (Some c) w))"
| "gd_handle cf now c GdDisband w = own_guild (not_in_guild c) c w (\<lambda>gp. as_leader GUILD_INVITE_S gp c w (Disband gp w))"
| "gd_handle cf now c (GdLeader dst) w = own_guild (not_in_guild c) c w (\<lambda>gp. on_player dst w (\<lambda>p. HandleGuildLeader gp p c w))"
| "gd_handle cf now c (GdMotd s) w = own_guild (not_in_guild c) c w (\<lambda>gp. SetMOTD s gp c w)"
| "gd_handle cf now c (GdRank rid rights name gold tabs) w =
     own_guild (not_in_guild c) c w (\<lambda>gp. as_leader GUILD_INVITE_S gp c w (edit_rank gp rid rights name gold tabs w))"
| "gd_handle cf now c (GdAddRank name) w = own_guild (not_in_guild c) c w (\<lambda>gp. as_leader GUILD_CREATE_S gp c w (HandleGuildAddRank name gp w))"
| "gd_handle cf now c GdDelRank w = own_guild (not_in_guild c) c w (\<lambda>gp. as_leader GUILD_CREATE_S gp c w (RemoveGuildRank gp c w))"
| "gd_handle cf now c (GdPublicNote dst s) w = on_player dst w (\<lambda>p. own_guild Some p w (\<lambda>gp. SetPublicNote s gp p c w))"
| "gd_handle cf now c (GdOfficerNote dst s) w = on_player dst w (\<lambda>p. own_guild Some p w (\<lambda>gp. SetOfficerNote s gp p c w))"
| "gd_handle cf now c (GdEmblem em) w = HandleSaveGuildEmblem em c w"
| "gd_handle cf now c GdBuyTab w = own_guild Some c w (\<lambda>gp. HandleGuildBankBuyTab gp c w)"
| "gd_handle cf now c (GdModifyTab slot name icon) w = own_guild Some c w (\<lambda>gp. HandleGuildBankModifyTab slot name icon gp c w)"
| "gd_handle cf now c (GdWithdraw amt) w = own_guild Some c w (\<lambda>gp. WithdrawMoney now amt gp c w)"
| "gd_handle cf now c (GdDeposit amt) w = own_guild Some c w (\<lambda>gp. DepositMoney now amt gp c w)"
| "gd_handle cf now c (GdMoveItem db ds sb ss) w = own_guild Some c w (\<lambda>gp. do {
     ic \<leftarrow> gw_infos w c; (case gi_member ic of None \<Rightarrow> Some w | Some mp \<Rightarrow> MoveBankItem db ds sb ss gp mp w) })"
| "gd_handle cf now c (GdTurnIn ct) w = HandleCharterTurnIn cf now ct c w"
| "gd_handle cf now c (GdChat s addon) w = own_guild Some c w (\<lambda>gp. GuildChat s addon gp c w)"
| "gd_handle cf now c (GdOfficerChat s addon) w = own_guild Some c w (\<lambda>gp. OfficerChat s addon gp c w)"

section \<open>The program\<close>

text \<open>A character enters the world, leaves it, or is deleted by its account (\<open>DeleteCharacter\<close>, \<open>DeletePlayerInfo\<close>).\<close>

definition gd_login :: "pguid \<Rightarrow> u32 \<Rightarrow> nat \<Rightarrow> bool \<Rightarrow> bool \<Rightarrow> gd_world \<Rightarrow> gd_world option" where
  "gd_login p coins team gm tag w = do {
     i \<leftarrow> gw_infos w p;
     let o' = \<lparr> pl_coins = coins, pl_guild_id = 0, pl_guild_rank = 0, pl_inviter = 0, pl_team = team, pl_gm = gm, pl_gmtag = tag,
       pl_world = False, pl_later = [] \<rparr>;
     (case gi_guild i of None \<Rightarrow> Some (put_ginfo p (i\<lparr> gi_online := Some o' \<rparr>) w)
      | Some gp \<Rightarrow> do {
          g \<leftarrow> gw_guilds w gp;
          r \<leftarrow> rank_of w p;
          let w1 = put_ginfo p (i\<lparr> gi_online := Some (o'\<lparr> pl_guild_id := gd_id g, pl_guild_rank := rk_id r \<rparr>) \<rparr>) w;
          if gd_id g = 0 then Some w1
          else LogGuildEvent gp 0xC [gi_name i]
            (gd_send p (''SMSG_GUILD_EVENT'', [U8 2, U8 1, Str (case gd_motd g of None \<Rightarrow> [] | Some s \<Rightarrow> s)]) w1) }) }"

definition gd_logout :: "pguid \<Rightarrow> gd_world \<Rightarrow> gd_world option" where
  "gd_logout p w = do {
     i \<leftarrow> gw_infos w p; o' \<leftarrow> gi_online i;
     w1 \<leftarrow> (case gi_guild i of None \<Rightarrow> Some w
        | Some gp \<Rightarrow> if pl_guild_id o' = 0 then Some w else LogGuildEvent gp 0xD [gi_name i] w);
     Some (put_ginfo p (i\<lparr> gi_online := None \<rparr>) w1) }"

definition leads :: "gd_world \<Rightarrow> guildptr \<Rightarrow> pguid \<Rightarrow> bool option" where
  "leads w gp p = do { g \<leftarrow> gw_guilds w gp; Some (gd_leader g = p) }"

definition DeletePlayerInfo :: "int \<Rightarrow> pguid \<Rightarrow> gd_world \<Rightarrow> gd_world option" where
  "DeletePlayerInfo now p w = do {
     i \<leftarrow> gw_infos w p;
     w1 \<leftarrow> (case gi_guild i of None \<Rightarrow> Some w
        | Some gp \<Rightarrow> do { l \<leftarrow> leads w gp p; if l then Disband gp w else RemoveGuildMember now gp p None w });
     Some (w1\<lparr> gw_infos := (gw_infos w1)(p := None) \<rparr>) }"

text \<open>
  \<open>found\<close>: the account has a character of this guid in the database; \<open>captain\<close>: the player leads an arena team.
  The code tests the latter only after the player has left the guild. The charters are left out.
\<close>

definition DeleteCharacter :: "int \<Rightarrow> bool \<Rightarrow> bool \<Rightarrow> pguid \<Rightarrow> gd_world \<Rightarrow> gd_world option" where
  "DeleteCharacter now found captain p w = do {
     i \<leftarrow> gw_infos w p;
     if gi_online i \<noteq> None \<or> \<not> found then Some w
     else do {
       verdict \<leftarrow> (case gi_guild i of None \<Rightarrow> Some (Inr w)
         | Some gp \<Rightarrow> do {
             l \<leftarrow> leads w gp p;
             if l then Some (Inl w) else map_option Inr (RemoveGuildMember now gp p None w) });
       (case verdict of Inl w' \<Rightarrow> Some w'
        | Inr w1 \<Rightarrow> if captain then Some w1 else DeletePlayerInfo now p w1) } }"

text \<open>The player enters or leaves the world (\<open>IsInWorld\<close>), and the first waiting store to a field is made.\<close>

definition set_world :: "pguid \<Rightarrow> bool \<Rightarrow> gd_world \<Rightarrow> gd_world" where
  "set_world p b w = (case gw_infos w p of None \<Rightarrow> w
     | Some i \<Rightarrow> put_ginfo p (i\<lparr> gi_online := map_option (\<lambda>o'. o'\<lparr> pl_world := b \<rparr>) (gi_online i) \<rparr>) w)"

fun flush_field :: "guild_player \<Rightarrow> guild_player" where
  "flush_field o' = (case pl_later o' of [] \<Rightarrow> o' | (fd, n) # xs \<Rightarrow> store_field fd n (o'\<lparr> pl_later := xs \<rparr>))"

definition run_field :: "pguid \<Rightarrow> gd_world \<Rightarrow> gd_world" where
  "run_field p w = (case gw_infos w p of None \<Rightarrow> w
     | Some i \<Rightarrow> put_ginfo p (i\<lparr> gi_online := map_option flush_field (gi_online i) \<rparr>) w)"

definition set_coins :: "pguid \<Rightarrow> u32 \<Rightarrow> gd_world \<Rightarrow> gd_world" where
  "set_coins p n w = (case gw_infos w p of None \<Rightarrow> w
     | Some i \<Rightarrow> put_ginfo p (i\<lparr> gi_online := map_option (\<lambda>o'. o'\<lparr> pl_coins := n \<rparr>) (gi_online i) \<rparr>) w)"

definition new_info :: "string \<Rightarrow> guild_info" where
  "new_info name = \<lparr> gi_name = name, gi_guild = None, gi_rank = None, gi_member = None, gi_online = None \<rparr>"

definition gd_empty :: gd_world where
  "gd_empty = \<lparr> gw_guilds = (\<lambda>_. None), gw_ranks = (\<lambda>_. None), gw_members = (\<lambda>_. None), gw_infos = (\<lambda>_. None),
     gw_next = 0, gw_hi = 0, gw_registry = [], db_guilds = [], db_ranks = [], db_data = [], gw_out = [] \<rparr>"

text \<open>
  What happens to a world without guilds. Guild ids do not repeat as long as the counter does not
  come round, hence the condition on it; \<open>C\<close> restricts the events further.
\<close>

datatype gd_event =
    EvCreate pguid string
  | EvLogin pguid u32 nat bool bool
  | EvLogout pguid
  | EvDelete pguid bool bool
  | EvWorld pguid bool
  | EvField pguid
  | EvCoins pguid u32
  | EvPacket pguid gd_op

fun gd_do :: "gd_conf \<Rightarrow> int \<Rightarrow> gd_event \<Rightarrow> gd_world \<Rightarrow> gd_world option" where
  "gd_do cf now (EvCreate p name) w = (if gw_infos w p = None then Some (put_ginfo p (new_info name) w) else Some w)"
| "gd_do cf now (EvLogin p coins team gm tag) w =
     (if gw_infos w p = None \<or> gd_online w p then Some w else gd_login p coins team gm tag w)"
| "gd_do cf now (EvLogout p) w = (if gd_online w p then gd_logout p w else Some w)"
| "gd_do cf now (EvDelete p found captain) w = (if gw_infos w p = None then Some w else DeleteCharacter now found captain p w)"
| "gd_do cf now (EvWorld p b) w = Some (set_world p b w)"
| "gd_do cf now (EvField p) w = Some (run_field p w)"
| "gd_do cf now (EvCoins p n) w = Some (set_coins p n w)"
| "gd_do cf now (EvPacket c op) w = (if gd_online w c then gd_handle cf now c op w else Some w)"

text \<open>The player a packet names is one the object manager knows, online where it has to be.\<close>

definition named_player :: "(pguid \<Rightarrow> bool) \<Rightarrow> pguid option \<Rightarrow> bool" where
  "named_player P dst = (case dst of None \<Rightarrow> True | Some p \<Rightarrow> P p)"

lemma named_player_iff [simp]: "named_player P dst \<longleftrightarrow> (\<forall>p. dst = Some p \<longrightarrow> P p)"
  by (simp add: named_player_def split: option.split)

definition known :: "gd_world \<Rightarrow> pguid option \<Rightarrow> bool" where
  "known w = named_player (\<lambda>p. \<not> Option.is_none (gw_infos w p))"

lemma known_iff [simp]: "known w dst \<longleftrightarrow> (\<forall>p. dst = Some p \<longrightarrow> gw_infos w p \<noteq> None)"
  by (simp add: known_def Option.is_none_def)

fun op_named :: "gd_world \<Rightarrow> gd_op \<Rightarrow> bool" where
  "op_named w (GdInvite name dst) = named_player (gd_online w) dst"
| "op_named w (GdPromote dst) = known w dst"
| "op_named w (GdDemote dst) = known w dst"
| "op_named w (GdRemove dst) = known w dst"
| "op_named w (GdLeader dst) = known w dst"
| "op_named w (GdPublicNote dst s) = known w dst"
| "op_named w (GdOfficerNote dst s) = known w dst"
| "op_named w (GdTurnIn ct) = (ct_count ct \<le> length (ct_signatures ct))"
| "op_named w op = True"

fun event_named :: "gd_world \<Rightarrow> gd_event \<Rightarrow> bool" where
  "event_named w (EvPacket c op) = op_named w op"
| "event_named w ev = True"

inductive gd_reach :: "(gd_world \<Rightarrow> gd_event \<Rightarrow> bool) \<Rightarrow> gd_world \<Rightarrow> bool" for C where
  gd_start: "gd_reach C gd_empty"
| gd_next: "gd_reach C w \<Longrightarrow> gw_hi w \<noteq> -1 \<Longrightarrow> event_named w ev \<Longrightarrow> C w ev \<Longrightarrow> gd_do cf now ev w = Some w' \<Longrightarrow> gd_reach C w'"

end
