(* ===== verification/HS_GuildInv.thy ===== *)
theory HS_GuildInv
  imports HS_Guild
begin

text \<open>
  The invariant of the guilds and that every event keeps it: players and members point to each
  other, every member has one of the ranks of the guild, the ranks fill the slots from 0 on, only
  the guild master has rank 0, the bank has as many tabs as it counts. With it every operation is
  defined: no freed or null cell is used.

  Packets and logs do not matter for the invariant: \<open>strip\<close> forgets them, and each operation is
  shown to agree, up to \<open>strip\<close>, with the update of the state it stands for.
\<close>

section \<open>Packets and logs\<close>

definition strip_g :: "guild \<Rightarrow> guild" where
  "strip_g g = g\<lparr> gd_log := [], gd_mlog := [], gd_hilog := 0 \<rparr>"

definition strip :: "gd_world \<Rightarrow> gd_world" where
  "strip w = w\<lparr> gw_out := [], gw_guilds := (\<lambda>gp. map_option strip_g (gw_guilds w gp)) \<rparr>"

lemma strip_g_sel [simp]:
  "gd_id (strip_g g) = gd_id g" "gd_leader (strip_g g) = gd_leader g" "gd_name (strip_g g) = gd_name g"
  "gd_members (strip_g g) = gd_members g" "gd_ranks (strip_g g) = gd_ranks g" "gd_tabs (strip_g g) = gd_tabs g"
  "gd_tabcount (strip_g g) = gd_tabcount g" "gd_balance (strip_g g) = gd_balance g" "gd_motd (strip_g g) = gd_motd g"
  "gd_info (strip_g g) = gd_info g" "gd_emblem (strip_g g) = gd_emblem g" "gd_created (strip_g g) = gd_created g"
  "gd_logging (strip_g g) = gd_logging g"
  by (simp_all add: strip_g_def)

lemma strip_g_idem [simp]: "strip_g (strip_g g) = strip_g g"
  by (simp add: strip_g_def)

lemma strip_g_upd [simp]:
  "strip_g (g\<lparr> gd_leader := p \<rparr>) = strip_g g\<lparr> gd_leader := p \<rparr>"
  "strip_g (g\<lparr> gd_members := ms \<rparr>) = strip_g g\<lparr> gd_members := ms \<rparr>"
  "strip_g (g\<lparr> gd_ranks := rs \<rparr>) = strip_g g\<lparr> gd_ranks := rs \<rparr>"
  "strip_g (g\<lparr> gd_tabs := ts \<rparr>) = strip_g g\<lparr> gd_tabs := ts \<rparr>"
  "strip_g (g\<lparr> gd_tabcount := n \<rparr>) = strip_g g\<lparr> gd_tabcount := n \<rparr>"
  "strip_g (g\<lparr> gd_balance := b \<rparr>) = strip_g g\<lparr> gd_balance := b \<rparr>"
  "strip_g (g\<lparr> gd_motd := s \<rparr>) = strip_g g\<lparr> gd_motd := s \<rparr>"
  "strip_g (g\<lparr> gd_info := s \<rparr>) = strip_g g\<lparr> gd_info := s \<rparr>"
  "strip_g (g\<lparr> gd_emblem := es \<rparr>) = strip_g g\<lparr> gd_emblem := es \<rparr>"
  "strip_g (g\<lparr> gd_logging := b' \<rparr>) = strip_g g\<lparr> gd_logging := b' \<rparr>"
  "strip_g (g\<lparr> gd_hilog := h \<rparr>) = strip_g g"
  "strip_g (g\<lparr> gd_log := l \<rparr>) = strip_g g"
  "strip_g (g\<lparr> gd_mlog := m \<rparr>) = strip_g g"
  by (simp_all add: strip_g_def)

lemma strip_sel [simp]:
  "gw_guilds (strip w) gp = map_option strip_g (gw_guilds w gp)" "gw_ranks (strip w) = gw_ranks w"
  "gw_members (strip w) = gw_members w" "gw_infos (strip w) = gw_infos w" "gw_next (strip w) = gw_next w"
  "gw_hi (strip w) = gw_hi w" "gw_registry (strip w) = gw_registry w" "db_guilds (strip w) = db_guilds w"
  "db_ranks (strip w) = db_ranks w" "db_data (strip w) = db_data w"
  by (simp_all add: strip_def)

lemma strip_upd [simp]:
  "strip (put_guild gp g w) = put_guild gp (strip_g g) (strip w)"
  "strip (put_rank rp r w) = put_rank rp r (strip w)"
  "strip (put_member mp m w) = put_member mp m (strip w)"
  "strip (put_ginfo p i w) = put_ginfo p i (strip w)"
  "strip (sql_guild k f w) = sql_guild k f (strip w)"
  "strip (sql_data P fd w) = sql_data P fd (strip w)"
  "strip (sql_leader k p w) = sql_leader k p (strip w)"
  "strip (set_guild_id p n w) = set_guild_id p n (strip w)"
  "strip (set_guild_rank p n w) = set_guild_rank p n (strip w)"
  "strip (w\<lparr> gw_out := out \<rparr>) = strip w"
  "strip (w\<lparr> gw_next := nx \<rparr>) = strip w\<lparr> gw_next := nx \<rparr>"
  "strip (w\<lparr> gw_hi := hi \<rparr>) = strip w\<lparr> gw_hi := hi \<rparr>"
  "strip (w\<lparr> gw_ranks := rs \<rparr>) = strip w\<lparr> gw_ranks := rs \<rparr>"
  "strip (w\<lparr> gw_members := ms \<rparr>) = strip w\<lparr> gw_members := ms \<rparr>"
  "strip (w\<lparr> gw_infos := is \<rparr>) = strip w\<lparr> gw_infos := is \<rparr>"
  "strip (w\<lparr> db_ranks := dr \<rparr>) = strip w\<lparr> db_ranks := dr \<rparr>"
  "strip (w\<lparr> db_data := dd \<rparr>) = strip w\<lparr> db_data := dd \<rparr>"
  "strip (w\<lparr> db_guilds := dg \<rparr>) = strip w\<lparr> db_guilds := dg \<rparr>"
  "strip (w\<lparr> gw_registry := rg \<rparr>) = strip w\<lparr> gw_registry := rg \<rparr>"
  by (auto simp: strip_def put_guild_def put_rank_def put_member_def put_ginfo_def sql_guild_def sql_data_def sql_leader_def
      set_guild_id_def set_guild_rank_def fun_eq_iff split: option.split)

lemma strip_send [simp]:
  "strip (gd_send c pkt w) = strip w" "strip (gd_sys c s w) = strip w" "strip (SendGuildCommandResult c cmd msg ty w) = strip w"
  by (simp_all add: gd_send_def gd_sys_def SendGuildCommandResult_def)

text \<open>A packet to the members reads the infos of all of them.\<close>

definition sendable :: "gd_world \<Rightarrow> guildptr \<Rightarrow> bool" where
  "sendable w gp \<longleftrightarrow> (\<exists>g. gw_guilds w gp = Some g \<and> (\<forall>e \<in> set (gd_members g). gw_infos w (fst e) \<noteq> None))"

lemma sendable_strip [simp]: "sendable (strip w) gp = sendable w gp"
  by (auto simp: sendable_def)

lemma sendable_same: "strip w' = strip w \<Longrightarrow> sendable w' gp = sendable w gp"
  using sendable_strip [of w gp] sendable_strip [of w' gp] by simp

lemma log_event_ok: "sendable w gp \<Longrightarrow> \<exists>w'. LogGuildEvent gp ev strs w = Some w' \<and> strip w' = strip w"
  unfolding sendable_def LogGuildEvent_def gd_send_members_def by (fastforce simp: Let_def)

lemma same_guild [simp]: "gw_guilds w gp = Some g \<Longrightarrow> strip_g g' = strip_g g \<Longrightarrow> strip (put_guild gp g' w) = strip w"
  by (auto simp: strip_def put_guild_def fun_eq_iff)

lemma log_entry_ok: "gw_guilds w gp \<noteq> None \<Longrightarrow> \<exists>w'. AddGuildLogEntry now gp ev ps w = Some w' \<and> strip w' = strip w"
  by (auto simp: AddGuildLogEntry_def Let_def simp del: strip_upd(1))

lemma log_money_ok: "gw_guilds w gp \<noteq> None \<Longrightarrow> \<exists>w'. LogGuildBankActionMoney now gp act pid amt w = Some w' \<and> strip w' = strip w"
  by (auto simp: LogGuildBankActionMoney_def Let_def simp del: strip_upd(1))

lemma same_live: "strip w' = strip w \<Longrightarrow> gw_guilds w' gp = None \<longleftrightarrow> gw_guilds w gp = None"
  by (drule arg_cong [where f = "\<lambda>w. gw_guilds w gp"]) (auto simp: map_option_case split: option.splits)

lemma sendable_live: "sendable w gp \<Longrightarrow> gw_guilds w gp \<noteq> None"
  by (auto simp: sendable_def)

text \<open>The two logs in a row, as most operations write them.\<close>

lemma logs_ok:
  assumes "sendable w gp"
  shows "\<exists>w'. do { w1 \<leftarrow> LogGuildEvent gp ev strs w; AddGuildLogEntry now gp le ps w1 } = Some w' \<and> strip w' = strip w"
proof -
  obtain w1 where w1: "LogGuildEvent gp ev strs w = Some w1" "strip w1 = strip w"
    using log_event_ok [OF assms] by blast
  have "gw_guilds w1 gp \<noteq> None" using same_live [OF w1(2), of gp] sendable_live [OF assms] by simp
  then obtain w2 where "AddGuildLogEntry now gp le ps w1 = Some w2" "strip w2 = strip w1" using log_entry_ok by blast
  with w1 show ?thesis by simp
qed

lemma bank_logs_ok:
  assumes "sendable w gp"
  shows "\<exists>w'. do { w1 \<leftarrow> LogGuildEvent gp ev strs w; LogGuildBankActionMoney now gp act pid amt w1 } = Some w' \<and> strip w' = strip w"
proof -
  obtain w1 where w1: "LogGuildEvent gp ev strs w = Some w1" "strip w1 = strip w"
    using log_event_ok [OF assms] by blast
  have "gw_guilds w1 gp \<noteq> None" using same_live [OF w1(2), of gp] sendable_live [OF assms] by simp
  then obtain w2 where "LogGuildBankActionMoney now gp act pid amt w1 = Some w2" "strip w2 = strip w1" using log_money_ok by blast
  with w1 show ?thesis by simp
qed

section \<open>The invariant\<close>

definition slots_ok :: "(rankptr \<Rightarrow> guild_rank option) \<Rightarrow> rankptr option list \<Rightarrow> bool" where
  "slots_ok R ss \<longleftrightarrow> length ss = MAX_GUILD_RANKS \<and>
     (\<exists>n \<le> MAX_GUILD_RANKS. \<forall>i < MAX_GUILD_RANKS. if i < n
        then (\<exists>rp r. ss ! i = Some rp \<and> R rp = Some r \<and> rk_id r = of_nat i \<and> length (rk_tabs r) = MAX_GUILD_BANK_TABS)
        else ss ! i = None)"

definition ranks_ok :: "gd_world \<Rightarrow> guild \<Rightarrow> bool" where
  "ranks_ok w g \<longleftrightarrow> slots_ok (gw_ranks w) (gd_ranks g)"

definition tabs_ok :: "guild \<Rightarrow> bool" where
  "tabs_ok g \<longleftrightarrow> unat (gd_tabcount g) = length (gd_tabs g) \<and> length (gd_tabs g) \<le> MAX_GUILD_BANK_TABS \<and>
     (\<forall>t \<in> set (gd_tabs g). length (tb_slots t) = MAX_GUILD_BANK_SLOTS)"

definition member_ok :: "gd_world \<Rightarrow> guildptr \<Rightarrow> guild \<Rightarrow> pguid \<Rightarrow> memptr \<Rightarrow> bool" where
  "member_ok w gp g p mp \<longleftrightarrow> (\<exists>m r i. gw_members w mp = Some m \<and> mb_player m = p \<and>
     length (mb_ireset m) = MAX_GUILD_BANK_TABS \<and> length (mb_icount m) = MAX_GUILD_BANK_TABS \<and>
     Some (mb_rank m) \<in> set (gd_ranks g) \<and> gw_ranks w (mb_rank m) = Some r \<and> (rk_id r = 0 \<longrightarrow> p = gd_leader g) \<and>
     gw_infos w p = Some i \<and> gi_guild i = Some gp \<and> gi_member i = Some mp \<and> gi_rank i = Some (mb_rank m))"

definition guild_ok :: "gd_world \<Rightarrow> guildptr \<Rightarrow> guild \<Rightarrow> bool" where
  "guild_ok w gp g \<longleftrightarrow> map_ok (gd_members g) \<and> ranks_ok w g \<and> tabs_ok g \<and> gd_id g \<le> gw_hi w \<and>
     (\<forall>e \<in> set (gd_members g). member_ok w gp g (fst e) (snd e))"

definition info_ok :: "gd_world \<Rightarrow> pguid \<Rightarrow> guild_info \<Rightarrow> bool" where
  "info_ok w p i \<longleftrightarrow> (case gi_guild i of None \<Rightarrow> gi_rank i = None \<and> gi_member i = None
     | Some gp \<Rightarrow> \<exists>g. gw_guilds w gp = Some g \<and> p \<in> fst ` set (gd_members g))"

text \<open>Guilds share neither ids nor ranks.\<close>

definition apart :: "guild option \<Rightarrow> guild option \<Rightarrow> bool" where
  "apart a b \<longleftrightarrow> (\<forall>g g'. a = Some g \<longrightarrow> b = Some g' \<longrightarrow>
     gd_id g \<noteq> gd_id g' \<and> (\<forall>rp. Some rp \<in> set (gd_ranks g) \<longrightarrow> Some rp \<notin> set (gd_ranks g')))"

definition guilds_apart :: "gd_world \<Rightarrow> bool" where
  "guilds_apart w \<longleftrightarrow> (\<forall>gp gp'. gp \<noteq> gp' \<longrightarrow> apart (gw_guilds w gp) (gw_guilds w gp'))"

definition addresses_ok :: "gd_world \<Rightarrow> bool" where
  "addresses_ok w \<longleftrightarrow> (\<forall>x. gw_next w \<le> x \<longrightarrow> gw_guilds w x = None \<and> gw_ranks w x = None \<and> gw_members w x = None)"

definition gd_ok :: "gd_world \<Rightarrow> bool" where
  "gd_ok w \<longleftrightarrow> (\<forall>gp g. gw_guilds w gp = Some g \<longrightarrow> guild_ok w gp g) \<and> (\<forall>p i. gw_infos w p = Some i \<longrightarrow> info_ok w p i) \<and>
     guilds_apart w \<and> addresses_ok w"

lemma all_guilds_strip:
  "(\<forall>gp g. gw_guilds (strip w) gp = Some g \<longrightarrow> P gp g) \<longleftrightarrow> (\<forall>gp g. gw_guilds w gp = Some g \<longrightarrow> P gp (strip_g g))"
  by auto

lemma guild_ok_strip [simp]: "guild_ok (strip w) gp (strip_g g) = guild_ok w gp g"
  by (simp add: guild_ok_def ranks_ok_def tabs_ok_def member_ok_def)

lemma info_ok_strip [simp]: "info_ok (strip w) p i = info_ok w p i"
  unfolding info_ok_def by (cases "gi_guild i"; cases "gw_guilds w (the (gi_guild i))") auto

lemma apart_strip [simp]: "apart (map_option strip_g a) (map_option strip_g b) = apart a b"
  by (cases a; cases b) (simp_all add: apart_def)

lemma guilds_apart_strip [simp]: "guilds_apart (strip w) = guilds_apart w"
  by (simp add: guilds_apart_def)

lemma gd_ok_strip [simp]: "gd_ok (strip w) = gd_ok w"
  unfolding gd_ok_def all_guilds_strip by (simp add: addresses_ok_def)

lemma gd_ok_same: "strip w' = strip w \<Longrightarrow> gd_ok w \<Longrightarrow> gd_ok w'"
  using gd_ok_strip [of w] gd_ok_strip [of w'] by simp

lemma gd_okD:
  assumes "gd_ok w" "gw_guilds w gp = Some g"
  shows "map_ok (gd_members g)" "ranks_ok w g" "tabs_ok g" "gd_id g \<le> gw_hi w"
    "\<And>p mp. (p, mp) \<in> set (gd_members g) \<Longrightarrow> member_ok w gp g p mp"
proof -
  have "guild_ok w gp g" using assms by (simp add: gd_ok_def)
  then show "map_ok (gd_members g)" "ranks_ok w g" "tabs_ok g" "gd_id g \<le> gw_hi w"
    "\<And>p mp. (p, mp) \<in> set (gd_members g) \<Longrightarrow> member_ok w gp g p mp"
    by (simp_all add: guild_ok_def split_beta) force
qed

lemma gd_ok_sendable: "gd_ok w \<Longrightarrow> gw_guilds w gp \<noteq> None \<Longrightarrow> sendable w gp"
  unfolding sendable_def by (fastforce dest: gd_okD(5) simp: member_ok_def)

text \<open>What a player's pointers lead to.\<close>

lemma player_pointers:
  assumes "gd_ok w" "gw_infos w p = Some i" "gi_guild i = Some gp"
  obtains g mp m r where "gw_guilds w gp = Some g" "(p, mp) \<in> set (gd_members g)" "map_of (gd_members g) p = Some mp"
    "gi_member i = Some mp" "gw_members w mp = Some m" "mb_player m = p" "gi_rank i = Some (mb_rank m)"
    "Some (mb_rank m) \<in> set (gd_ranks g)" "gw_ranks w (mb_rank m) = Some r" "rank_of w p = Some r"
    "rk_id r = 0 \<longrightarrow> p = gd_leader g"
proof -
  from assms obtain g mp where g: "gw_guilds w gp = Some g" "(p, mp) \<in> set (gd_members g)"
    by (fastforce simp: gd_ok_def info_ok_def)
  then have "member_ok w gp g p mp" "map_ok (gd_members g)" using assms(1) gd_okD by auto
  then have "map_of (gd_members g) p = Some mp" using g(2) by (simp add: map_ok_def)
  with \<open>member_ok w gp g p mp\<close> g assms(2,3) that show thesis
    unfolding member_ok_def by (auto simp: rank_of_def)
qed

lemma rank_slots:
  assumes "ranks_ok w g" "i < length (gd_ranks g)" "gd_ranks g ! i = Some rp"
  obtains r where "gw_ranks w rp = Some r" "rk_id r = of_nat i" "length (rk_tabs r) = MAX_GUILD_BANK_TABS"
  using assms unfolding ranks_ok_def slots_ok_def by (metis option.inject option.simps(3))

lemma rank_in_slots:
  assumes "ranks_ok w g" "Some rp \<in> set (gd_ranks g)"
  obtains i r where "i < MAX_GUILD_RANKS" "gd_ranks g ! i = Some rp" "gw_ranks w rp = Some r" "rk_id r = of_nat i"
    "length (rk_tabs r) = MAX_GUILD_BANK_TABS" "unat (rk_id r) = i"
proof -
  from assms(2) obtain i where i: "i < length (gd_ranks g)" "gd_ranks g ! i = Some rp" by (metis in_set_conv_nth)
  moreover from assms(1) have "length (gd_ranks g) = 10" by (simp add: ranks_ok_def slots_ok_def MAX_GUILD_RANKS_def)
  moreover obtain r where r: "gw_ranks w rp = Some r" "rk_id r = of_nat i" "length (rk_tabs r) = MAX_GUILD_BANK_TABS"
    using rank_slots [OF assms(1) i] .
  ultimately have "unat (rk_id r) = i" by (simp add: unat_of_nat)
  with i r that \<open>length (gd_ranks g) = 10\<close> show thesis by (simp add: MAX_GUILD_RANKS_def)
qed

lemma first_rank_Some:
  assumes "first_rank g is = Some rp"
  obtains i where "i \<in> set is" "gd_ranks g ! i = Some rp"
proof -
  from assms have "Some rp \<in> (\<lambda>i. gd_ranks g ! i) ` set is"
    by (induction "is") (auto simp: first_rank_def List.map_filter_simps split: option.splits)
  then show thesis using that by auto
qed

lemma first_rank_in:
  assumes "ranks_ok w g" "first_rank g is = Some rp" "\<forall>i \<in> set is. 1 \<le> i \<and> i < MAX_GUILD_RANKS"
  obtains i r where "i \<in> set is" "gd_ranks g ! i = Some rp" "Some rp \<in> set (gd_ranks g)" "gw_ranks w rp = Some r"
    "rk_id r = of_nat i" "rk_id r \<noteq> 0" "unat (rk_id r) = i" "length (rk_tabs r) = MAX_GUILD_BANK_TABS"
proof -
  from first_rank_Some [OF assms(2)] obtain i where i: "i \<in> set is" "gd_ranks g ! i = Some rp" .
  with assms(1,3) have lt: "i < length (gd_ranks g)" "1 \<le> i" "i < 10" by (auto simp: ranks_ok_def slots_ok_def MAX_GUILD_RANKS_def)
  obtain r where r: "gw_ranks w rp = Some r" "rk_id r = of_nat i" "length (rk_tabs r) = MAX_GUILD_BANK_TABS"
    using rank_slots [OF assms(1) lt(1) i(2)] .
  have "unat (rk_id r) = i" using r lt by (simp add: unat_of_nat)
  moreover then have "rk_id r \<noteq> 0" using lt by auto
  ultimately show thesis using that i r lt by (metis nth_mem)
qed

section \<open>Changes that keep the invariant\<close>

definition g_shape :: "guild \<Rightarrow> u32 \<times> pguid \<times> (pguid \<times> memptr) list \<times> rankptr option list" where
  "g_shape g = (gd_id g, gd_leader g, gd_members g, gd_ranks g)"

definition r_shape :: "guild_rank \<Rightarrow> u32 \<times> nat" where
  "r_shape r = (rk_id r, length (rk_tabs r))"

definition m_shape :: "guild_member \<Rightarrow> pguid \<times> rankptr \<times> nat \<times> nat" where
  "m_shape m = (mb_player m, mb_rank m, length (mb_ireset m), length (mb_icount m))"

definition i_shape :: "guild_info \<Rightarrow> guildptr option \<times> rankptr option \<times> memptr option" where
  "i_shape i = (gi_guild i, gi_rank i, gi_member i)"

text \<open>Worlds that differ in the contents of their cells, not in their pointers.\<close>

definition alike :: "gd_world \<Rightarrow> gd_world \<Rightarrow> bool" where
  "alike w w' \<longleftrightarrow> (\<forall>gp. map_option g_shape (gw_guilds w' gp) = map_option g_shape (gw_guilds w gp)) \<and>
     (\<forall>rp. map_option r_shape (gw_ranks w' rp) = map_option r_shape (gw_ranks w rp)) \<and>
     (\<forall>mp. map_option m_shape (gw_members w' mp) = map_option m_shape (gw_members w mp)) \<and>
     (\<forall>p. map_option i_shape (gw_infos w' p) = map_option i_shape (gw_infos w p)) \<and>
     gw_next w' = gw_next w \<and> gw_hi w' = gw_hi w"

lemma alike_refl [simp, intro]: "alike w w"
  by (simp add: alike_def)

lemma alike_trans: "alike w w' \<Longrightarrow> alike w' w'' \<Longrightarrow> alike w w''"
  by (simp add: alike_def)

lemma alike_strip: "strip w' = strip w \<Longrightarrow> alike w w'"
proof -
  assume eq: "strip w' = strip w"
  have g: "map_option g_shape (gw_guilds (strip v) gp) = map_option g_shape (gw_guilds v gp)" for v gp
    by (cases "gw_guilds v gp") (simp_all add: g_shape_def)
  have "alike (strip w) w'" unfolding eq [symmetric] by (simp add: alike_def g [simplified])
  moreover have "alike w (strip w)" by (simp add: alike_def g [simplified])
  ultimately show ?thesis by (rule alike_trans [rotated])
qed

lemma alike_put_guild: "gw_guilds w gp = Some g \<Longrightarrow> g_shape g' = g_shape g \<Longrightarrow> alike w (put_guild gp g' w)"
  by (simp add: alike_def put_guild_def)

lemma alike_put_rank: "gw_ranks w rp = Some r \<Longrightarrow> r_shape r' = r_shape r \<Longrightarrow> alike w (put_rank rp r' w)"
  by (simp add: alike_def put_rank_def)

lemma alike_put_member: "gw_members w mp = Some m \<Longrightarrow> m_shape m' = m_shape m \<Longrightarrow> alike w (put_member mp m' w)"
  by (simp add: alike_def put_member_def)

lemma alike_put_info: "gw_infos w p = Some i \<Longrightarrow> i_shape i' = i_shape i \<Longrightarrow> alike w (put_ginfo p i' w)"
  by (simp add: alike_def put_ginfo_def)

lemma alike_sql [simp]:
  "alike w (sql_guild k f w')  \<longleftrightarrow> alike w w'" "alike w (sql_data P fd w') \<longleftrightarrow> alike w w'" "alike w (sql_leader k p w') \<longleftrightarrow> alike w w'"
  "alike w (w'\<lparr> db_ranks := dr \<rparr>) \<longleftrightarrow> alike w w'" "alike w (w'\<lparr> db_data := dd \<rparr>) \<longleftrightarrow> alike w w'"
  "alike w (w'\<lparr> gw_out := out \<rparr>) \<longleftrightarrow> alike w w'"
  by (simp_all add: alike_def sql_guild_def sql_data_def sql_leader_def)

lemma set_guild_sel [simp]:
  "gw_guilds (set_guild_id p n w) = gw_guilds w" "gw_ranks (set_guild_id p n w) = gw_ranks w"
  "gw_members (set_guild_id p n w) = gw_members w" "gw_next (set_guild_id p n w) = gw_next w" "gw_hi (set_guild_id p n w) = gw_hi w"
  "map_option i_shape (gw_infos (set_guild_id p n w) q) = map_option i_shape (gw_infos w q)"
  "gw_guilds (set_guild_rank p n w) = gw_guilds w" "gw_ranks (set_guild_rank p n w) = gw_ranks w"
  "gw_members (set_guild_rank p n w) = gw_members w" "gw_next (set_guild_rank p n w) = gw_next w" "gw_hi (set_guild_rank p n w) = gw_hi w"
  "map_option i_shape (gw_infos (set_guild_rank p n w) q) = map_option i_shape (gw_infos w q)"
  "gw_guilds (set_coins p n w) = gw_guilds w" "gw_ranks (set_coins p n w) = gw_ranks w"
  "gw_members (set_coins p n w) = gw_members w" "gw_next (set_coins p n w) = gw_next w" "gw_hi (set_coins p n w) = gw_hi w"
  "map_option i_shape (gw_infos (set_coins p n w) q) = map_option i_shape (gw_infos w q)"
  "gw_guilds (set_world p b w) = gw_guilds w" "gw_ranks (set_world p b w) = gw_ranks w"
  "gw_members (set_world p b w) = gw_members w" "gw_next (set_world p b w) = gw_next w" "gw_hi (set_world p b w) = gw_hi w"
  "map_option i_shape (gw_infos (set_world p b w) q) = map_option i_shape (gw_infos w q)"
  "gw_guilds (run_field p w) = gw_guilds w" "gw_ranks (run_field p w) = gw_ranks w"
  "gw_members (run_field p w) = gw_members w" "gw_next (run_field p w) = gw_next w" "gw_hi (run_field p w) = gw_hi w"
  "map_option i_shape (gw_infos (run_field p w) q) = map_option i_shape (gw_infos w q)"
  by (auto simp: set_guild_id_def set_guild_rank_def set_coins_def set_world_def run_field_def put_ginfo_def i_shape_def split: option.split)

lemma alike_set_guild [simp]:
  "alike w (set_guild_id p n w') \<longleftrightarrow> alike w w'" "alike w (set_guild_rank p n w') \<longleftrightarrow> alike w w'" "alike w (set_coins p n w') \<longleftrightarrow> alike w w'"
  "alike w (set_world p b w') \<longleftrightarrow> alike w w'" "alike w (run_field p w') \<longleftrightarrow> alike w w'"
  by (simp_all add: alike_def)

lemma alike_send [simp]:
  "alike w (gd_send c pkt w') \<longleftrightarrow> alike w w'" "alike w (gd_sys c s w') \<longleftrightarrow> alike w w'"
  "alike w (SendGuildCommandResult c cmd msg ty w') \<longleftrightarrow> alike w w'"
  by (simp_all add: gd_send_def gd_sys_def SendGuildCommandResult_def)

lemma alike_guild:
  assumes "alike w w'" "gw_guilds w' gp = Some g'"
  obtains g where "gw_guilds w gp = Some g" "g_shape g' = g_shape g"
proof -
  have "map_option g_shape (gw_guilds w gp) = map_option g_shape (gw_guilds w' gp)" using assms(1) by (simp add: alike_def)
  then show thesis using that assms(2) by auto
qed

lemma alike_ranks:
  assumes "alike w w'" "gw_ranks w rp = Some r"
  obtains r' where "gw_ranks w' rp = Some r'" "r_shape r' = r_shape r"
proof -
  from assms have "map_option r_shape (gw_ranks w' rp) = Some (r_shape r)" by (auto simp: alike_def)
  then show thesis using that by auto
qed

lemma alike_members:
  assumes "alike w w'" "gw_members w mp = Some m"
  obtains m' where "gw_members w' mp = Some m'" "m_shape m' = m_shape m"
proof -
  from assms have "map_option m_shape (gw_members w' mp) = Some (m_shape m)" by (auto simp: alike_def)
  then show thesis using that by auto
qed

lemma alike_infos:
  assumes "alike w w'" "gw_infos w p = Some i"
  obtains i' where "gw_infos w' p = Some i'" "i_shape i' = i_shape i"
proof -
  from assms have "map_option i_shape (gw_infos w' p) = Some (i_shape i)" by (auto simp: alike_def)
  then show thesis using that by auto
qed

lemma alike_sym: "alike w w' \<Longrightarrow> alike w' w"
  by (simp add: alike_def)

lemma alike_ranks_ok:
  assumes "alike w w'" "ranks_ok w g" "gd_ranks g' = gd_ranks g"
  shows "ranks_ok w' g'"
proof -
  have "\<exists>r'. gw_ranks w' rp = Some r' \<and> rk_id r' = rk_id r \<and> length (rk_tabs r') = length (rk_tabs r)"
    if "gw_ranks w rp = Some r" for rp r
    using alike_ranks [OF assms(1) that] by (auto simp: r_shape_def)
  then have "(\<exists>rp r. gd_ranks g ! i = Some rp \<and> gw_ranks w rp = Some r \<and> rk_id r = of_nat i \<and> length (rk_tabs r) = k) \<Longrightarrow>
      (\<exists>rp r. gd_ranks g ! i = Some rp \<and> gw_ranks w' rp = Some r \<and> rk_id r = of_nat i \<and> length (rk_tabs r) = k)" for i k
    by metis
  with assms(2,3) show ?thesis unfolding ranks_ok_def slots_ok_def by (auto split: if_splits) blast
qed

lemma alike_member_ok:
  assumes "alike w w'" "member_ok w gp g p mp" "g_shape g' = g_shape g"
  shows "member_ok w' gp g' p mp"
proof -
  from assms(2) obtain m r i where *: "gw_members w mp = Some m" "gw_ranks w (mb_rank m) = Some r" "gw_infos w p = Some i"
    and rest: "mb_player m = p" "length (mb_ireset m) = MAX_GUILD_BANK_TABS" "length (mb_icount m) = MAX_GUILD_BANK_TABS"
      "Some (mb_rank m) \<in> set (gd_ranks g)" "rk_id r = 0 \<longrightarrow> p = gd_leader g" "gi_guild i = Some gp" "gi_member i = Some mp"
      "gi_rank i = Some (mb_rank m)"
    by (auto simp: member_ok_def)
  obtain m' where "gw_members w' mp = Some m'" "m_shape m' = m_shape m" using alike_members [OF assms(1) *(1)] .
  moreover obtain r' where "gw_ranks w' (mb_rank m) = Some r'" "r_shape r' = r_shape r" using alike_ranks [OF assms(1) *(2)] .
  moreover obtain i' where "gw_infos w' p = Some i'" "i_shape i' = i_shape i" using alike_infos [OF assms(1) *(3)] .
  ultimately show ?thesis using rest assms(3) by (auto simp: member_ok_def m_shape_def r_shape_def i_shape_def g_shape_def)
qed

lemma gd_ok_alike:
  assumes "alike w w'" "gd_ok w" "\<And>gp g. gw_guilds w' gp = Some g \<Longrightarrow> tabs_ok g"
  shows "gd_ok w'"
  unfolding gd_ok_def
proof (intro conjI allI impI)
  fix gp g' assume g': "gw_guilds w' gp = Some g'"
  obtain g where g: "gw_guilds w gp = Some g" "g_shape g' = g_shape g" using alike_guild [OF assms(1) g'] .
  note ok = gd_okD [OF assms(2) g(1)]
  have "ranks_ok w' g'" by (rule alike_ranks_ok [OF assms(1) ok(2)]) (use g(2) in \<open>simp add: g_shape_def\<close>)
  moreover have "member_ok w' gp g' (fst e) (snd e)" if "e \<in> set (gd_members g')" for e
    by (rule alike_member_ok [OF assms(1) _ g(2)]) (use ok(5) [of "fst e" "snd e"] that g(2) in \<open>simp add: g_shape_def\<close>)
  ultimately show "guild_ok w' gp g'"
    using ok(1,4) g(2) assms(1) assms(3) [OF g'] by (simp add: guild_ok_def g_shape_def alike_def)
next
  fix p i' assume i': "gw_infos w' p = Some i'"
  obtain i where i: "gw_infos w p = Some i" "i_shape i = i_shape i'" using alike_infos [OF alike_sym [OF assms(1)] i'] .
  then have "info_ok w p i" using assms(2) by (simp add: gd_ok_def)
  moreover have "\<exists>g'. gw_guilds w' gp = Some g' \<and> gd_members g' = gd_members g" if "gw_guilds w gp = Some g" for gp g
    using alike_guild [OF alike_sym [OF assms(1)] that] by (metis Pair_inject g_shape_def)
  ultimately show "info_ok w' p i'" using i(2) by (fastforce simp: info_ok_def i_shape_def split: option.splits)
next
  have "apart (gw_guilds w' gp) (gw_guilds w' gp')" if "apart (gw_guilds w gp) (gw_guilds w gp')" for gp gp'
    unfolding apart_def
  proof (intro allI impI)
    fix g1 g2 assume "gw_guilds w' gp = Some g1" "gw_guilds w' gp' = Some g2"
    then obtain h1 h2 where "gw_guilds w gp = Some h1" "g_shape g1 = g_shape h1" "gw_guilds w gp' = Some h2" "g_shape g2 = g_shape h2"
      using alike_guild [OF assms(1)] by metis
    with that show "gd_id g1 \<noteq> gd_id g2 \<and> (\<forall>rp. Some rp \<in> set (gd_ranks g1) \<longrightarrow> Some rp \<notin> set (gd_ranks g2))"
      by (simp add: apart_def g_shape_def)
  qed
  then show "guilds_apart w'" using assms(2) by (simp add: gd_ok_def guilds_apart_def)
next
  show "addresses_ok w'"
    using assms(1,2) unfolding gd_ok_def addresses_ok_def alike_def by (metis option.map_disc_iff)
qed

text \<open>
  One guild changes, with cells of its own and of the free memory: it is enough that this guild is
  in order afterwards, and every player info that points to it or is new.
\<close>

lemma rank_owner:
  assumes "gd_ok w" "gw_guilds w gp = Some g" "gw_guilds w gp' = Some g'" "Some rp \<in> set (gd_ranks g)" "Some rp \<in> set (gd_ranks g')"
  shows "gp = gp'"
proof (rule ccontr)
  assume "gp \<noteq> gp'"
  with assms(1) have "apart (gw_guilds w gp) (gw_guilds w gp')" by (simp add: gd_ok_def guilds_apart_def)
  with assms show False by (auto simp: apart_def)
qed

lemma member_owner:
  assumes "gd_ok w" "gw_guilds w gp = Some g" "gw_guilds w gp' = Some g'" "(p, mp) \<in> set (gd_members g)" "(q, mq) \<in> set (gd_members g')"
    "mp = mq \<or> p = q"
  shows "gp = gp' \<and> p = q"
proof -
  have "member_ok w gp g p mp" using gd_okD(5) [OF assms(1,2,4)] .
  then obtain m i where m: "gw_members w mp = Some m" "mb_player m = p" "gw_infos w p = Some i" "gi_guild i = Some gp"
    by (auto simp: member_ok_def)
  have "member_ok w gp' g' q mq" using gd_okD(5) [OF assms(1,3,5)] .
  then obtain m' i' where m': "gw_members w mq = Some m'" "mb_player m' = q" "gw_infos w q = Some i'" "gi_guild i' = Some gp'"
    by (auto simp: member_ok_def)
  from assms(6) have "p = q" using m(1,2) m'(1,2) by auto
  with m(3,4) m'(3,4) show ?thesis by simp
qed

lemma live_below:
  assumes "gd_ok w"
  shows "gw_guilds w gp = Some g \<Longrightarrow> gp < gw_next w" "gw_ranks w rp = Some r \<Longrightarrow> rp < gw_next w" "gw_members w mp = Some m \<Longrightarrow> mp < gw_next w"
  using assms unfolding gd_ok_def addresses_ok_def by (metis linorder_le_less_linear option.distinct(1))+

text \<open>What a guild needs is untouched as long as the cells of other guilds change.\<close>

lemma other_guild_ok:
  assumes ok: "gd_ok w" and g: "gw_guilds w gp = Some g" and g1: "gw_guilds w gp1 = Some g1" "gp1 \<noteq> gp"
    and hi: "gw_hi w \<le> gw_hi w'"
    and rs: "\<And>rp. Some rp \<notin> set (gd_ranks g) \<Longrightarrow> rp < gw_next w \<Longrightarrow> gw_ranks w' rp = gw_ranks w rp"
    and ms: "\<And>mp. mp \<notin> snd ` set (gd_members g) \<Longrightarrow> mp < gw_next w \<Longrightarrow> gw_members w' mp = gw_members w mp"
    and infs: "\<And>q i. gw_infos w q = Some i \<Longrightarrow> gi_guild i \<noteq> Some gp \<Longrightarrow> gi_guild i \<noteq> None \<Longrightarrow> gw_infos w' q = Some i"
  shows "guild_ok w' gp1 g1"
proof -
  note d = gd_okD [OF ok g1(1)]
  have rank: "gw_ranks w' rp = gw_ranks w rp" if rp: "Some rp \<in> set (gd_ranks g1)" for rp
  proof (rule rs)
    show "Some rp \<notin> set (gd_ranks g)" using rank_owner [OF ok g g1(1) _ rp] g1(2) by auto
    obtain r where "gw_ranks w rp = Some r" using rank_in_slots [OF d(2) rp] .
    then show "rp < gw_next w" by (rule live_below(2) [OF ok])
  qed
  have rk: "ranks_ok w' g1"
  proof -
    have "gw_ranks w' rp = gw_ranks w rp" if "gd_ranks g1 ! i = Some rp" "i < MAX_GUILD_RANKS" for i rp
      using rank [of rp] that d(2) by (metis nth_mem ranks_ok_def slots_ok_def)
    with d(2) show ?thesis unfolding ranks_ok_def slots_ok_def by (auto split: if_splits) metis
  qed
  have "member_ok w' gp1 g1 (fst e) (snd e)" if e: "e \<in> set (gd_members g1)" for e
  proof -
    have old: "member_ok w gp1 g1 (fst e) (snd e)" using d(5) [of "fst e" "snd e"] e by simp
    then obtain m r i where m: "gw_members w (snd e) = Some m" "Some (mb_rank m) \<in> set (gd_ranks g1)" "gw_infos w (fst e) = Some i"
      "gi_guild i = Some gp1" by (auto simp: member_ok_def)
    have "snd e \<notin> snd ` set (gd_members g)"
      using member_owner [OF ok g1(1) g, of "fst e" "snd e"] e g1(2) by (metis (no_types, opaque_lifting) imageE prod.collapse)
    then have "gw_members w' (snd e) = Some m" using ms live_below(3) [OF ok m(1)] m(1) by simp
    moreover have "gw_infos w' (fst e) = Some i" by (rule infs [OF m(3)]) (use m(4) g1(2) in auto)
    ultimately show ?thesis using old m rank [OF m(2)] by (auto simp: member_ok_def)
  qed
  moreover have "gd_id g1 \<le> gw_hi w'" using d(4) hi by simp
  ultimately show ?thesis using d(1,3) rk by (simp add: guild_ok_def)
qed

lemma gd_ok_step:
  assumes ok: "gd_ok w" and g: "gw_guilds w gp = Some g"
    and gs: "gw_guilds w' = (gw_guilds w)(gp \<mapsto> g')" "gd_id g' = gd_id g" "gw_hi w' = gw_hi w"
    and g': "guild_ok w' gp g'"
    and rs: "\<And>rp. Some rp \<notin> set (gd_ranks g) \<Longrightarrow> rp < gw_next w \<Longrightarrow> gw_ranks w' rp = gw_ranks w rp"
      "\<And>rp. Some rp \<in> set (gd_ranks g') \<Longrightarrow> Some rp \<in> set (gd_ranks g) \<or> gw_next w \<le> rp"
    and ms: "\<And>mp. mp \<notin> snd ` set (gd_members g) \<Longrightarrow> mp < gw_next w \<Longrightarrow> gw_members w' mp = gw_members w mp"
    and infs: "\<And>q i. gw_infos w q = Some i \<Longrightarrow> gi_guild i \<noteq> Some gp \<Longrightarrow> gi_guild i \<noteq> None \<Longrightarrow> gw_infos w' q = Some i"
      "\<And>q i. gw_infos w' q = Some i \<Longrightarrow> gw_infos w q = Some i \<and> gi_guild i \<noteq> Some gp \<or> info_ok w' q i"
    and fresh: "addresses_ok w'"
  shows "gd_ok w'"
  unfolding gd_ok_def
proof (intro conjI allI impI)
  fix gp1 g1 assume g1: "gw_guilds w' gp1 = Some g1"
  show "guild_ok w' gp1 g1"
  proof (cases "gp1 = gp")
    case True
    then show ?thesis using g' g1 gs(1) by simp
  next
    case False
    then have "gw_guilds w gp1 = Some g1" using g1 gs(1) by simp
    then show ?thesis using False by (rule other_guild_ok [OF ok g]) (use gs(3) rs(1) ms infs(1) in auto)
  qed
next
  fix q i assume i: "gw_infos w' q = Some i"
  from infs(2) [OF i] show "info_ok w' q i"
  proof
    assume old: "gw_infos w q = Some i \<and> gi_guild i \<noteq> Some gp"
    then have "info_ok w q i" using ok by (simp add: gd_ok_def)
    with old show ?thesis using gs(1) by (auto simp: info_ok_def split: option.splits)
  qed
next
  have "apart (gw_guilds w' gp1) (gw_guilds w' gp2)" if "gp1 \<noteq> gp2" for gp1 gp2
  proof -
    have old: "apart (gw_guilds w a) (gw_guilds w b)" if "a \<noteq> b" for a b
      using ok that by (simp add: gd_ok_def guilds_apart_def)
    have new: "Some rp \<notin> set (gd_ranks g')" if h: "gw_guilds w b = Some h" "b \<noteq> gp" "Some rp \<in> set (gd_ranks h)" for b h rp
    proof
      assume "Some rp \<in> set (gd_ranks g')"
      then consider "Some rp \<in> set (gd_ranks g)" | "gw_next w \<le> rp" using rs(2) by blast
      then show False
      proof cases
        case 1
        then show False using rank_owner [OF ok g h(1) _ h(3)] h(2) by auto
      next
        case 2
        obtain r where "gw_ranks w rp = Some r" using rank_in_slots [OF gd_okD(2) [OF ok h(1)] h(3)] .
        then show False using live_below(2) [OF ok] 2 by fastforce
      qed
    qed
    have id: "gd_id h \<noteq> gd_id g" if "gw_guilds w b = Some h" "b \<noteq> gp" for b h
      using old [OF that(2)] g that(1) by (simp add: apart_def)
    show ?thesis
    proof (cases "gp1 = gp \<or> gp2 = gp")
      case False
      then show ?thesis using old [OF that] gs(1) by simp
    next
      case True
      then show ?thesis using that gs(1,2) new id unfolding apart_def by auto metis+
    qed
  qed
  then show "guilds_apart w'" by (simp add: guilds_apart_def)
next
  show "addresses_ok w'" by (rule fresh)
qed

text \<open>The members of a guild get new ranks, and the guild perhaps a new master.\<close>

lemma gd_ok_new_ranks:
  assumes ok: "gd_ok w" and g: "gw_guilds w gp = Some g"
    and same: "gw_guilds w' = (gw_guilds w)(gp \<mapsto> g\<lparr> gd_leader := l \<rparr>)" "gw_ranks w' = gw_ranks w"
      "gw_next w' = gw_next w" "gw_hi w' = gw_hi w"
    and ms: "\<And>q mq. (q, mq) \<in> set (gd_members g) \<Longrightarrow> \<exists>m i r. gw_members w' mq = Some m \<and> mb_player m = q \<and>
      length (mb_ireset m) = MAX_GUILD_BANK_TABS \<and> length (mb_icount m) = MAX_GUILD_BANK_TABS \<and>
      gw_infos w' q = Some i \<and> gi_guild i = Some gp \<and> gi_member i = Some mq \<and> gi_rank i = Some (mb_rank m) \<and>
      Some (mb_rank m) \<in> set (gd_ranks g) \<and> gw_ranks w (mb_rank m) = Some r \<and> (rk_id r = 0 \<longrightarrow> q = l)"
    and other: "\<And>mq. mq \<notin> snd ` set (gd_members g) \<Longrightarrow> gw_members w' mq = gw_members w mq"
      "\<And>q. q \<notin> fst ` set (gd_members g) \<Longrightarrow> gw_infos w' q = gw_infos w q"
  shows "gd_ok w'"
proof (rule gd_ok_step [OF ok g same(1)])
  note d = gd_okD [OF ok g]
  have "member_ok w' gp (g\<lparr> gd_leader := l \<rparr>) (fst e) (snd e)" if "e \<in> set (gd_members g)" for e
    using ms [of "fst e" "snd e"] that same(2) unfolding member_ok_def by (auto simp: prod.collapse)
  moreover have "ranks_ok w' (g\<lparr> gd_leader := l \<rparr>)" using d(2) same(2) by (simp add: ranks_ok_def)
  ultimately show "guild_ok w' gp (g\<lparr> gd_leader := l \<rparr>)" using d(1,3,4) same(4) by (simp add: guild_ok_def tabs_ok_def)
  fix q i
  show "gw_infos w' q = Some i" if "gw_infos w q = Some i" "gi_guild i \<noteq> Some gp" "gi_guild i \<noteq> None"
  proof -
    have "q \<notin> fst ` set (gd_members g)"
    proof
      assume "q \<in> fst ` set (gd_members g)"
      then obtain mq where "(q, mq) \<in> set (gd_members g)" by auto
      then have "member_ok w gp g q mq" by (rule d(5))
      with that show False by (auto simp: member_ok_def)
    qed
    with other(2) that(1) show ?thesis by simp
  qed
  show "gw_infos w q = Some i \<and> gi_guild i \<noteq> Some gp \<or> info_ok w' q i" if i: "gw_infos w' q = Some i"
  proof (cases "q \<in> fst ` set (gd_members g)")
    case True
    then obtain mq where "(q, mq) \<in> set (gd_members g)" by auto
    from ms [OF this] i have "gi_guild i = Some gp" by auto
    with True same(1) show ?thesis by (simp add: info_ok_def)
  next
    case False
    then have "gw_infos w q = Some i" using i other(2) by simp
    moreover from this have "info_ok w q i" using ok by (simp add: gd_ok_def)
    ultimately show ?thesis using False g by (auto simp: info_ok_def)
  qed
next
  show "addresses_ok w'" unfolding addresses_ok_def
  proof (intro allI impI conjI)
    fix x assume x: "gw_next w' \<le> x"
    then have old: "gw_guilds w x = None" "gw_ranks w x = None" "gw_members w x = None"
      using ok same(3) by (simp_all add: gd_ok_def addresses_ok_def)
    show "gw_guilds w' x = None" using old(1) g same(1) by auto
    show "gw_ranks w' x = None" using old(2) same(2) by simp
    have "x \<notin> snd ` set (gd_members g)"
    proof
      assume "x \<in> snd ` set (gd_members g)"
      then obtain q where "(q, x) \<in> set (gd_members g)" by auto
      then have "member_ok w gp g q x" using gd_okD(5) [OF ok g] by blast
      with old(3) show False by (auto simp: member_ok_def)
    qed
    then show "gw_members w' x = None" using old(3) other(1) by simp
  qed
qed (use same other in auto)

definition give_rank :: "pguid \<Rightarrow> memptr \<Rightarrow> rankptr \<Rightarrow> gd_world \<Rightarrow> gd_world" where
  "give_rank p mp rp w = w\<lparr> gw_members := (gw_members w)(mp := map_option (mb_rank_update (\<lambda>_. rp)) (gw_members w mp)),
     gw_infos := (gw_infos w)(p := map_option (gi_rank_update (\<lambda>_. Some rp)) (gw_infos w p)) \<rparr>"

lemma assign_rank_give:
  "gw_members w mp \<noteq> None \<Longrightarrow> gw_infos w p \<noteq> None \<Longrightarrow> assign_rank p mp rp w = Some (give_rank p mp rp w)"
  by (auto simp: assign_rank_def give_rank_def put_member_def put_ginfo_def)

lemma give_rank_sel [simp]:
  "gw_guilds (give_rank p mp rp w) = gw_guilds w" "gw_ranks (give_rank p mp rp w) = gw_ranks w"
  "gw_next (give_rank p mp rp w) = gw_next w" "gw_hi (give_rank p mp rp w) = gw_hi w" "gw_registry (give_rank p mp rp w) = gw_registry w"
  "db_guilds (give_rank p mp rp w) = db_guilds w" "db_ranks (give_rank p mp rp w) = db_ranks w" "db_data (give_rank p mp rp w) = db_data w"
  "gw_members (give_rank p mp rp w) = (gw_members w)(mp := map_option (mb_rank_update (\<lambda>_. rp)) (gw_members w mp))"
  "gw_infos (give_rank p mp rp w) = (gw_infos w)(p := map_option (gi_rank_update (\<lambda>_. Some rp)) (gw_infos w p))"
  by (simp_all add: give_rank_def)

lemma strip_give_rank [simp]: "strip (give_rank p mp rp w) = give_rank p mp rp (strip w)"
  by (simp add: give_rank_def)

lemma sendable_give [simp]: "sendable (give_rank p mp rp w) gp = sendable w gp"
proof -
  have "gw_infos (give_rank p mp rp w) q = None \<longleftrightarrow> gw_infos w q = None" for q by simp
  then show ?thesis unfolding sendable_def give_rank_sel(1) by presburger
qed

lemma gd_ok_give:
  assumes ok: "gd_ok w" and g: "gw_guilds w gp = Some g" "(p, mp) \<in> set (gd_members g)"
    and rp: "Some rp \<in> set (gd_ranks g)" "gw_ranks w rp = Some r" "rk_id r \<noteq> 0"
  shows "gd_ok (give_rank p mp rp w)"
proof (rule gd_ok_new_ranks [OF ok g(1), where l = "gd_leader g"])
  fix q mq assume q: "(q, mq) \<in> set (gd_members g)"
  have "mq = mp \<longleftrightarrow> q = p" using member_owner [OF ok g(1) g(1) q g(2)] q g(2) gd_okD(1) [OF ok g(1)]
    by (metis map_of_eq_Some_iff map_ok_def option.inject)
  then show "\<exists>m i r. gw_members (give_rank p mp rp w) mq = Some m \<and> mb_player m = q \<and>
      length (mb_ireset m) = MAX_GUILD_BANK_TABS \<and> length (mb_icount m) = MAX_GUILD_BANK_TABS \<and>
      gw_infos (give_rank p mp rp w) q = Some i \<and> gi_guild i = Some gp \<and> gi_member i = Some mq \<and> gi_rank i = Some (mb_rank m) \<and>
      Some (mb_rank m) \<in> set (gd_ranks g) \<and> gw_ranks w (mb_rank m) = Some r \<and> (rk_id r = 0 \<longrightarrow> q = gd_leader g)"
    using gd_okD(5) [OF ok g(1) q] rp by (cases "q = p") (auto simp: member_ok_def)
qed (use g in force)+

section \<open>Promotion and demotion\<close>

definition ranked :: "u32 \<Rightarrow> pguid \<Rightarrow> memptr \<Rightarrow> rankptr \<Rightarrow> u32 \<Rightarrow> gd_world \<Rightarrow> gd_world" where
  "ranked n p mp rp rid w = set_guild_rank p rid (sql_data (\<lambda>k. k = (n, p)) (\<lambda>x. x\<lparr> mr_rank := rid \<rparr>) (give_rank p mp rp w))"

lemma strip_ranked [simp]: "strip (ranked n p mp rp rid w) = ranked n p mp rp rid (strip w)"
  by (simp add: ranked_def)

lemma gd_ok_sql [simp]: "gd_ok (sql_data P fd w) = gd_ok w" "gd_ok (sql_guild k f w) = gd_ok w" "gd_ok (sql_leader k p w) = gd_ok w"
  "gd_ok (w\<lparr> db_ranks := dr \<rparr>) = gd_ok w" "gd_ok (w\<lparr> db_data := dd \<rparr>) = gd_ok w" "gd_ok (w\<lparr> db_guilds := dg \<rparr>) = gd_ok w"
  "gd_ok (w\<lparr> gw_out := out \<rparr>) = gd_ok w" "gd_ok (w\<lparr> gw_registry := rg \<rparr>) = gd_ok w"
  by (simp_all add: gd_ok_def guild_ok_def ranks_ok_def member_ok_def info_ok_def guilds_apart_def addresses_ok_def
      sql_data_def sql_guild_def sql_leader_def cong: option.case_cong)

lemma gd_ok_tabs: "gd_ok w \<Longrightarrow> gw_guilds w gp = Some g \<Longrightarrow> tabs_ok g"
  by (rule gd_okD(3))

lemma gd_ok_set_guild:
  assumes "gd_ok w"
  shows "gd_ok (set_guild_id p n w)" "gd_ok (set_guild_rank p n w)" "gd_ok (set_coins p n w)"
    "gd_ok (set_world p b w)" "gd_ok (run_field p w)"
  by (rule gd_ok_alike [OF _ assms]; use gd_ok_tabs [OF assms] in simp)+

lemma gd_ok_ranked:
  assumes "gd_ok w" "gw_guilds w gp = Some g" "(p, mp) \<in> set (gd_members g)"
    "Some rp \<in> set (gd_ranks g)" "gw_ranks w rp = Some r" "rk_id r \<noteq> 0"
  shows "gd_ok (ranked n p mp rp rid w)"
  unfolding ranked_def by (simp add: gd_ok_set_guild gd_ok_give [OF assms])

lemma change_rank_ok:
  assumes ok: "gd_ok w" and i: "gw_infos w p = Some i" "gi_guild i = Some gp" and g: "gw_guilds w gp = Some g"
    and rp: "gw_ranks w rp = Some r"
  obtains w' mp where "change_rank now gp p c ev le rp w = Some w'" "(p, mp) \<in> set (gd_members g)"
    "map_of (gd_members g) p = Some mp" "strip w' = strip (ranked (gd_id g) p mp rp (rk_id r) w)"
proof -
  obtain g0 mp m where g0: "gw_guilds w gp = Some g0" and mp: "(p, mp) \<in> set (gd_members g0)" "map_of (gd_members g0) p = Some mp"
    and m: "gw_members w mp = Some m" "mb_player m = p"
    by (rule player_pointers [OF ok i])
  have [simp]: "g0 = g" using g g0 by simp
  let ?w1 = "give_rank p mp rp w"
  have "sendable ?w1 gp" using gd_ok_sendable [OF ok] g by simp
  from logs_ok [OF this, of ev "[gd_name_of ?w1 c, gd_name_of ?w1 p, rk_name r]" now le "[c, p]"]
  obtain w3 where w3: "do { w1 \<leftarrow> LogGuildEvent gp ev [gd_name_of ?w1 c, gd_name_of ?w1 p, rk_name r] ?w1; AddGuildLogEntry now gp le [c, p] w1 } = Some w3"
    "strip w3 = strip ?w1" by blast
  have nm: "gd_name_of ?w1 q = gd_name_of w q" for q using i by (simp add: gd_name_of_def give_rank_def split: option.split)
  show thesis
  proof (rule that [OF _ mp [simplified]])
    show "change_rank now gp p c ev le rp w =
        Some (set_guild_rank p (rk_id r) (sql_data (\<lambda>k. k = (gd_id g, p)) (\<lambda>x. x\<lparr> mr_rank := rk_id r \<rparr>) w3))"
      using w3(1) g mp m i rp by (auto simp: change_rank_def assign_rank_give nm split: bind_splits)
    show "strip (set_guild_rank p (rk_id r) (sql_data (\<lambda>k. k = (gd_id g, p)) (\<lambda>x. x\<lparr> mr_rank := rk_id r \<rparr>) w3)) =
        strip (ranked (gd_id g) p mp rp (rk_id r) w)"
      using w3(2) by (simp add: ranked_def)
  qed
qed

text \<open>
  The rank of \<open>p\<close> was changed at the request of \<open>c\<close>, of the same guild: to a rank below that of
  \<open>c\<close>, unless \<open>c\<close> is the master.
\<close>

definition rank_moved :: "gd_world \<Rightarrow> guildptr \<Rightarrow> pguid \<Rightarrow> pguid \<Rightarrow> gd_world \<Rightarrow> bool" where
  "rank_moved w gp c p w' \<longleftrightarrow> (\<exists>g mp rp r rc r0. gw_guilds w gp = Some g \<and> (p, mp) \<in> set (gd_members g) \<and> c \<noteq> p \<and>
     (\<exists>ic. gw_infos w c = Some ic \<and> gi_guild ic = Some gp) \<and> rank_of w c = Some rc \<and> rank_of w p = Some r0 \<and> Some rp \<in> set (gd_ranks g) \<and> gw_ranks w rp = Some r \<and> rk_id r \<noteq> 0 \<and>
     (rk_id rc = 0 \<or> rk_id rc < rk_id r0 \<and> rk_id rc < rk_id r) \<and> strip w' = strip (ranked (gd_id g) p mp rp (rk_id r) w))"

lemma rank_moved_ok: "gd_ok w \<Longrightarrow> rank_moved w gp c p w' \<Longrightarrow> gd_ok w'"
  unfolding rank_moved_def by (metis gd_ok_same gd_ok_ranked)

lemma slots_filled_below:
  assumes "ranks_ok w g" "i < MAX_GUILD_RANKS" "gd_ranks g ! i \<noteq> None" "j \<le> i"
  shows "gd_ranks g ! j \<noteq> None"
  using assms unfolding ranks_ok_def slots_ok_def by (metis le_less_trans le_trans linorder_not_less option.distinct(1))

lemma first_rank_Cons: "gd_ranks g ! i = Some rp \<Longrightarrow> first_rank g (i # is) = Some rp"
  by (simp add: first_rank_def List.map_filter_simps)

lemma rank_of_in:
  assumes "gd_ok w" "gw_infos w p = Some i" "gi_guild i = Some gp" "gw_guilds w gp = Some g"
  obtains rp r j where "rank_of w p = Some r" "j < MAX_GUILD_RANKS" "gd_ranks g ! j = Some rp" "gw_ranks w rp = Some r"
    "rk_id r = of_nat j" "unat (rk_id r) = j" "gi_rank i = Some rp"
proof -
  obtain g0 mp m r where g0: "gw_guilds w gp = Some g0" and ptr: "(p, mp) \<in> set (gd_members g0)" "map_of (gd_members g0) p = Some mp"
    "gi_member i = Some mp" "gw_members w mp = Some m" "mb_player m = p" and rk': "gi_rank i = Some (mb_rank m)"
    "Some (mb_rank m) \<in> set (gd_ranks g0)" "gw_ranks w (mb_rank m) = Some r"
    "rank_of w p = Some r" and ld: "rk_id r = 0 \<longrightarrow> p = gd_leader g0"
    using player_pointers [OF assms(1-3)] .
  note rk = rk'(2-4,1)
  from g0 rk(1) have "Some (mb_rank m) \<in> set (gd_ranks g)" using assms(4) by simp
  from rank_in_slots [OF gd_okD(2) [OF assms(1,4)] this] rk that show thesis by (metis option.inject)
qed

lemma u32_small: "i < 10 \<Longrightarrow> unat (of_nat i :: u32) = i"
  by (simp add: unat_of_nat)

lemma s32_small: "i < 10 \<Longrightarrow> sint (of_nat i :: u32) = int i"
  by (simp add: signed_of_nat signed_take_bit_int_eq_self)

lemma promote_ok:
  assumes ok: "gd_ok w" and c: "gw_infos w c \<noteq> None" and p: "gw_infos w p \<noteq> None"
  shows "\<exists>w'. PromoteGuildMember now gp p c w = Some w' \<and> (strip w' = strip w \<or> rank_moved w gp c p w')"
proof -
  obtain ic ip where ic: "gw_infos w c = Some ic" and ip: "gw_infos w p = Some ip" using c p by auto
  show ?thesis
  proof (cases "gi_guild ic = Some gp \<and> gi_guild ip = Some gp \<and> c \<noteq> p")
    case False
    then show ?thesis using ic ip by (auto simp: PromoteGuildMember_def)
  next
    case True
    obtain g where g: "gw_guilds w gp = Some g" using player_pointers [OF ok ic] True by metis
    obtain rc jc where rc: "rank_of w c = Some rc" "jc < MAX_GUILD_RANKS" "rk_id rc = of_nat jc"
      using rank_of_in [OF ok ic _ g] True by metis
    obtain rp0 r0 j where r0: "rank_of w p = Some r0" "j < MAX_GUILD_RANKS" "gd_ranks g ! j = Some rp0" "rk_id r0 = of_nat j"
      using rank_of_in [OF ok ip _ g] True by metis
    note d = gd_okD [OF ok g]
    have len: "length (gd_ranks g) = 10" using d(2) by (simp add: ranks_ok_def slots_ok_def MAX_GUILD_RANKS_def)
    show ?thesis
    proof (cases "CanPerformCommand rc GR_RIGHT_PROMOTE \<and> \<not> (rk_id r0 \<le> rk_id rc + 2 \<and> rk_id rc \<noteq> 0 \<or> rk_id r0 = 1)")
      case False
      then show ?thesis using ic ip True rc r0 g by (auto simp: PromoteGuildMember_def)
    next
      case may: True
      show ?thesis
      proof (cases "j = 0")
        case True
        then have "sint (rk_id r0 - 1) = -1" using r0 by simp
        then show ?thesis using may \<open>gi_guild ic = Some gp \<and> gi_guild ip = Some gp \<and> c \<noteq> p\<close> ic ip rc r0 g
          by (auto simp: PromoteGuildMember_def first_rank_def List.map_filter_simps Let_def)
      next
        case False
        then have j: "2 \<le> j" "j < 10" using may r0 by (cases "j = 1"; simp add: MAX_GUILD_RANKS_def)+
        have nh: "rk_id r0 - 1 = of_nat (j - 1)" using j r0(4) by (simp add: of_nat_diff)
        then have si: "sint (rk_id r0 - 1) = int (j - 1)" using s32_small [of "j - 1"] j by simp
        obtain rp where rp: "gd_ranks g ! (j - 1) = Some rp" using slots_filled_below [OF d(2) r0(2), of "j - 1"] r0(3) by auto
        have "rev [1..<nat (int (j - 1) + 1)] = (j - 1) # rev [1..<j - 1]" using j by (cases j) (auto simp: upt_Suc nat_add_distrib)
        then have fr: "first_rank g (rev [1..<nat (int (j - 1) + 1)]) = Some rp" using first_rank_Cons [OF rp] by simp
        obtain r where r: "gw_ranks w rp = Some r" "rk_id r = of_nat (j - 1)"
          using rank_slots [OF d(2) _ rp] len j by (metis less_imp_diff_less)
        obtain w' mp where w': "change_rank now gp p c 0 3 rp w = Some w'" "(p, mp) \<in> set (gd_members g)"
          "strip w' = strip (ranked (gd_id g) p mp rp (rk_id r) w)"
          using change_rank_ok [OF ok ip _ g r(1)] True \<open>gi_guild ic = Some gp \<and> gi_guild ip = Some gp \<and> c \<noteq> p\<close> by metis
        have "PromoteGuildMember now gp p c w = Some w'"
          using \<open>gi_guild ic = Some gp \<and> gi_guild ip = Some gp \<and> c \<noteq> p\<close> ic ip rc r0 g may w'(1) si fr len j
          by (auto simp: PromoteGuildMember_def Let_def)
        moreover have "rank_moved w gp c p w'"
        proof -
          have ur: "unat (rk_id r) = j - 1" unfolding r(2) by (rule u32_small) (use j in simp)
          then have "rk_id r \<noteq> 0" using j by auto
          moreover have "rk_id rc = 0 \<or> rk_id rc < rk_id r0 \<and> rk_id rc < rk_id r"
          proof (cases "rk_id rc = 0")
            case False
            have "unat (rk_id rc + 2) = jc + 2" using rc(2,3) by (simp add: unat_word_ariths unat_of_nat MAX_GUILD_RANKS_def)
            moreover have "rk_id rc + 2 < rk_id r0" using may False by (simp add: not_le)
            ultimately have "jc + 2 < j" using r0(4) j by (simp add: word_less_nat_alt unat_of_nat)
            then show ?thesis using rc(2,3) r0(4) ur j by (simp add: word_less_nat_alt unat_of_nat MAX_GUILD_RANKS_def) linarith
          qed simp
          moreover have "Some rp \<in> set (gd_ranks g)" using rp len j by (metis less_imp_diff_less nth_mem)
          ultimately show ?thesis unfolding rank_moved_def using g w'(2,3) rc(1) r0(1) r(1) True ic \<open>gi_guild ic = Some gp \<and> gi_guild ip = Some gp \<and> c \<noteq> p\<close>
            by metis
        qed
        ultimately show ?thesis by blast
      qed
    qed
  qed
qed

end
