(* ===== verification/HS_GuildOps.thy ===== *)
theory HS_GuildOps
  imports HS_GuildInv
begin

text \<open>
  The operations of \<open>Guild.cpp\<close> one by one: each is defined in every world that satisfies the
  invariant, and its result is, up to packets and logs, the same world or an explicit update of it
  that keeps the invariant.
\<close>

section \<open>Demotion\<close>

lemma demote_ok:
  assumes ok: "gd_ok w" and c: "gw_infos w c \<noteq> None" and p: "gw_infos w p \<noteq> None"
  shows "\<exists>w'. DemoteGuildMember now gp p c w = Some w' \<and> (strip w' = strip w \<or> rank_moved w gp c p w')"
proof -
  obtain ic ip where ic: "gw_infos w c = Some ic" and ip: "gw_infos w p = Some ip" using c p by auto
  show ?thesis
  proof (cases "gi_guild ic = Some gp \<and> gi_guild ip = Some gp \<and> c \<noteq> p")
    case False
    then show ?thesis using ic ip by (auto simp: DemoteGuildMember_def)
  next
    case True
    obtain g where g: "gw_guilds w gp = Some g" using player_pointers [OF ok ic] True by metis
    obtain rc jc where rc: "rank_of w c = Some rc" "jc < MAX_GUILD_RANKS" "rk_id rc = of_nat jc"
      using rank_of_in [OF ok ic _ g] True by metis
    obtain rp0 r0 j where r0: "rank_of w p = Some r0" "j < MAX_GUILD_RANKS" "gd_ranks g ! j = Some rp0" "rk_id r0 = of_nat j"
      using rank_of_in [OF ok ip _ g] True by metis
    note d = gd_okD [OF ok g]
    have j: "j < 10" "jc < 10" using r0(2) rc(2) by (simp_all add: MAX_GUILD_RANKS_def)
    have nx: "unat (rk_id r0 + 1) = j + 1" using u32_small [of j] j r0(4) by (simp add: unat_word_ariths)
    show ?thesis
    proof (cases "CanPerformCommand rc GR_RIGHT_DEMOTE \<and> p \<noteq> gd_leader g \<and> \<not> (rk_id r0 \<le> rk_id rc \<and> rk_id rc \<noteq> 0) \<and>
        first_rank g [unat (rk_id r0 + 1)..<MAX_GUILD_RANKS] \<noteq> None")
      case False
      then show ?thesis using ic ip True rc(1) r0(1) g by (auto simp: DemoteGuildMember_def split: option.splits)
    next
      case may: True
      then obtain rp where rp: "first_rank g [j + 1..<MAX_GUILD_RANKS] = Some rp" unfolding nx by auto
      then obtain i r where r: "i \<in> set [j + 1..<MAX_GUILD_RANKS]" "Some rp \<in> set (gd_ranks g)" "gw_ranks w rp = Some r"
        "rk_id r \<noteq> 0" "unat (rk_id r) = i"
        by (rule first_rank_in [OF d(2)]) auto
      obtain w' mp where w': "change_rank now gp p c 1 4 rp w = Some w'" "(p, mp) \<in> set (gd_members g)"
        "strip w' = strip (ranked (gd_id g) p mp rp (rk_id r) w)"
        using change_rank_ok [OF ok ip _ g r(3)] True by metis
      have "DemoteGuildMember now gp p c w = Some w'"
        using True ic ip rc(1) r0(1) g may w'(1) rp by (auto simp: DemoteGuildMember_def nx)
      moreover have "rk_id rc = 0 \<or> rk_id rc < rk_id r0 \<and> rk_id rc < rk_id r"
        using may r(1,5) r0(4) rc(3) j by (auto simp: word_less_nat_alt word_le_nat_alt u32_small)
      then have "rank_moved w gp c p w'"
        unfolding rank_moved_def using g w'(2,3) rc(1) r0(1) r True ic by metis
      ultimately show ?thesis by blast
    qed
  qed
qed

section \<open>Joining\<close>

definition enrolled :: "guildptr \<Rightarrow> guild \<Rightarrow> pguid \<Rightarrow> guild_info \<Rightarrow> rankptr \<Rightarrow> guild_rank \<Rightarrow> gd_world \<Rightarrow> gd_world" where
  "enrolled gp g p i rp r w =
     (let mp = gw_next w; m = new_member p rp;
          w1 = put_guild gp (g\<lparr> gd_members := map_insert p mp (gd_members g) \<rparr>) (put_member mp m (w\<lparr> gw_next := mp + 1 \<rparr>));
          w2 = put_ginfo p (i\<lparr> gi_guild := Some gp, gi_rank := Some rp, gi_member := Some mp \<rparr>) w1;
          w3 = set_guild_rank p (rk_id r) (set_guild_id p (gd_id g) w2)
      in w3\<lparr> db_data := db_replace (\<lambda>k v. snd k = p \<and> mr_rank v = rk_id r) (gd_id g, p) (row_of_member r m) (db_data w3) \<rparr>)"

definition may_join :: "gd_world \<Rightarrow> guildptr \<Rightarrow> guild \<Rightarrow> pguid \<Rightarrow> guild_info \<Rightarrow> rankptr \<Rightarrow> guild_rank \<Rightarrow> bool" where
  "may_join w gp g p i rp r \<longleftrightarrow> gw_guilds w gp = Some g \<and> gw_infos w p = Some i \<and> gi_guild i = None \<and>
     Some rp \<in> set (gd_ranks g) \<and> gw_ranks w rp = Some r \<and> (rk_id r = 0 \<longrightarrow> p = gd_leader g)"

lemma joiner_new:
  assumes "gd_ok w" "may_join w gp g p i rp r"
  shows "p \<notin> fst ` set (gd_members g)"
proof
  assume "p \<in> fst ` set (gd_members g)"
  then obtain mp where "(p, mp) \<in> set (gd_members g)" by auto
  then have "member_ok w gp g p mp" using assms gd_okD(5) by (auto simp: may_join_def)
  then show False using assms by (auto simp: member_ok_def may_join_def)
qed

lemma enrolled_sel:
  "gw_guilds (enrolled gp g p i rp r w) = (gw_guilds w)(gp \<mapsto> g\<lparr> gd_members := map_insert p (gw_next w) (gd_members g) \<rparr>)"
  "gw_ranks (enrolled gp g p i rp r w) = gw_ranks w" "gw_hi (enrolled gp g p i rp r w) = gw_hi w"
  "gw_next (enrolled gp g p i rp r w) = gw_next w + 1"
  "gw_members (enrolled gp g p i rp r w) = (gw_members w)(gw_next w \<mapsto> new_member p rp)"
  "\<exists>o'. gw_infos (enrolled gp g p i rp r w) = (gw_infos w)(p \<mapsto> i\<lparr> gi_guild := Some gp, gi_rank := Some rp,
     gi_member := Some (gw_next w), gi_online := o' \<rparr>)"
proof -
  show "\<exists>o'. gw_infos (enrolled gp g p i rp r w) = (gw_infos w)(p \<mapsto> i\<lparr> gi_guild := Some gp, gi_rank := Some rp,
      gi_member := Some (gw_next w), gi_online := o' \<rparr>)"
    by (rule exI [of _ "map_option (\<lambda>o'. set_field PLAYER_GUILDRANK (rk_id r) (set_field PLAYER_GUILDID (gd_id g) o')) (gi_online i)"])
      (cases "gi_online i"; simp add: enrolled_def Let_def put_guild_def put_member_def put_ginfo_def set_guild_id_def set_guild_rank_def)
qed (simp_all add: enrolled_def Let_def put_guild_def put_member_def put_ginfo_def set_guild_id_def set_guild_rank_def)

lemma info_key:
  assumes "gd_ok w" "gw_infos w q = Some i" "gi_guild i = Some gp" "gw_guilds w gp = Some g"
  shows "q \<in> fst ` set (gd_members g)"
proof -
  have "info_ok w q i" using assms(1,2) by (simp add: gd_ok_def)
  with assms(3,4) show ?thesis by (simp add: info_ok_def)
qed

lemma gd_ok_enrolled:
  assumes ok: "gd_ok w" and j: "may_join w gp g p i rp r"
  shows "gd_ok (enrolled gp g p i rp r w)"
proof -
  note new = joiner_new [OF ok j]
  from j have g: "gw_guilds w gp = Some g" and i: "gw_infos w p = Some i" "gi_guild i = None"
    and rp: "Some rp \<in> set (gd_ranks g)" "gw_ranks w rp = Some r" "rk_id r = 0 \<longrightarrow> p = gd_leader g"
    by (auto simp: may_join_def)
  note d = gd_okD [OF ok g]
  let ?w = "enrolled gp g p i rp r w"
  let ?g = "g\<lparr> gd_members := map_insert p (gw_next w) (gd_members g) \<rparr>"
  obtain o' where infos: "gw_infos ?w = (gw_infos w)(p \<mapsto> i\<lparr> gi_guild := Some gp, gi_rank := Some rp, gi_member := Some (gw_next w), gi_online := o' \<rparr>)"
    using enrolled_sel(6) by metis
  note sel = enrolled_sel(1-5) [of gp g p i rp r w]
  have old: "member_ok ?w gp ?g q mq" if q: "(q, mq) \<in> set (gd_members g)" for q mq
  proof -
    have "q \<noteq> p" using q new by force
    moreover have "mq < gw_next w" using d(5) [OF q] live_below(3) [OF ok] by (auto simp: member_ok_def)
    ultimately show ?thesis using d(5) [OF q] by (auto simp: member_ok_def sel infos)
  qed
  have own: "member_ok ?w gp ?g p (gw_next w)"
    using rp by (simp add: member_ok_def sel infos new_member_def)
  show ?thesis
  proof (rule gd_ok_step [OF ok g sel(1)])
    have "ranks_ok ?w ?g" using d(2) by (simp add: ranks_ok_def sel)
    then show "guild_ok ?w gp ?g" using d(1,3,4) old own set_map_insert_new [OF new, of "gw_next w"]
      by (simp add: guild_ok_def tabs_ok_def sel split_beta)
    fix q i' show "gw_infos ?w q = Some i' \<Longrightarrow> gw_infos w q = Some i' \<and> gi_guild i' \<noteq> Some gp \<or> info_ok ?w q i'"
      using info_key [OF ok _ _ g] by (cases "q = p") (auto simp: infos sel info_ok_def)
  next
    show "addresses_ok ?w" using ok by (simp add: addresses_ok_def sel gd_ok_def) (use g live_below(1) [OF ok g] in auto)
  qed (use i in \<open>auto simp: sel infos\<close>)
qed

lemma join_rank_ok:
  assumes "ranks_ok w g" "forced < 10"
  obtains slot where "join_rank g forced = Some slot"
    "\<And>rp. slot = Some rp \<Longrightarrow> Some rp \<in> set (gd_ranks g) \<and> (\<exists>r. gw_ranks w rp = Some r \<and> (rk_id r = 0 \<longrightarrow> forced = 0 \<and> gd_members g = []))"
proof -
  have len: "length (gd_ranks g) = 10" using assms(1) by (simp add: ranks_ok_def slots_ok_def MAX_GUILD_RANKS_def)
  have low: "Some rp \<in> set (gd_ranks g) \<and> (\<exists>r. gw_ranks w rp = Some r \<and> rk_id r \<noteq> 0)" if low: "FindLowestRank g = Some rp" for rp
  proof -
    have "first_rank g (rev [1..<10]) = Some rp" using low by (simp add: FindLowestRank_def len)
    then obtain i r where "i \<in> set (rev [1..<10])" "gd_ranks g ! i = Some rp" "Some rp \<in> set (gd_ranks g)" "gw_ranks w rp = Some r"
      "rk_id r = of_nat i" "rk_id r \<noteq> 0"
      by (rule first_rank_in [OF assms(1)]) (auto simp: MAX_GUILD_RANKS_def)
    then show ?thesis by blast
  qed
  show thesis
  proof (cases "if gd_members g \<noteq> [] then forced \<le> 0 else forced < 0")
    case True
    then show ?thesis by (intro that [of "FindLowestRank g"]) (use low in \<open>auto simp: join_rank_def\<close>)
  next
    case False
    then have f: "0 \<le> forced" "nat forced < 10" "gd_members g \<noteq> [] \<longrightarrow> forced \<noteq> 0" using assms(2) by (auto split: if_splits)
    show ?thesis
    proof (cases "gd_ranks g ! nat forced")
      case None
      then show ?thesis using False f len by (intro that [of "FindLowestRank g"]) (use low in \<open>auto simp: join_rank_def rank_slot_def\<close>)
    next
      case (Some rp)
      obtain r where r: "gw_ranks w rp = Some r" "rk_id r = of_nat (nat forced)" using rank_slots [OF assms(1) _ Some] f len by auto
      have "rk_id r = 0 \<Longrightarrow> forced = 0" using u32_small [OF f(2)] r(2) f(1) by simp
      moreover have "Some rp \<in> set (gd_ranks g)" using nth_mem [of "nat forced" "gd_ranks g"] f len Some by simp
      ultimately show ?thesis using False f len Some r by (intro that [of "Some rp"]) (auto simp: join_rank_def rank_slot_def)
    qed
  qed
qed

lemma may_invite_ok:
  assumes ok: "gd_ok w" and client: "\<And>c. client = Some c \<Longrightarrow> gw_infos w c \<noteq> None"
  shows "\<exists>b. may_invite gp client w = Some b"
proof (cases client)
  case (Some c)
  then obtain ic where ic: "gw_infos w c = Some ic" using client by auto
  show ?thesis
  proof (cases "gi_guild ic = Some gp")
    case True
    obtain rc where "rank_of w c = Some rc" using player_pointers [OF ok ic True] by metis
    then show ?thesis using Some ic True by (simp add: may_invite_def)
  qed (use Some ic in \<open>auto simp: may_invite_def\<close>)
qed (auto simp: may_invite_def)

lemma add_member_ok:
  assumes ok: "gd_ok w" and i: "gw_infos w p = Some i" and g: "gw_guilds w gp = Some g" and forced: "forced < 10"
    and lead: "forced = 0 \<and> gd_members g = [] \<longrightarrow> p = gd_leader g"
    and client: "\<And>c. client = Some c \<Longrightarrow> gw_infos w c \<noteq> None"
  shows "\<exists>w'. AddGuildMember now gp p client forced w = Some w' \<and>
    (strip w' = strip w \<or> (\<exists>rp r. may_join w gp g p i rp r \<and> strip w' = strip (enrolled gp g p i rp r w)))"
proof -
  obtain b where b: "may_invite gp client w = Some b" using may_invite_ok [OF ok client] by blast
  obtain slot where slot: "join_rank g forced = Some slot" "\<And>rp. slot = Some rp \<Longrightarrow>
      Some rp \<in> set (gd_ranks g) \<and> (\<exists>r. gw_ranks w rp = Some r \<and> (rk_id r = 0 \<longrightarrow> forced = 0 \<and> gd_members g = []))"
    using join_rank_ok [OF gd_okD(2) [OF ok g] forced] by metis
  show ?thesis
  proof (cases "gi_guild i = None \<and> b \<and> slot \<noteq> None")
    case False
    then show ?thesis using i b g slot(1) by (auto simp: AddGuildMember_def)
  next
    case True
    then obtain rp where rp: "slot = Some rp" by blast
    obtain r where r: "Some rp \<in> set (gd_ranks g)" "gw_ranks w rp = Some r" "rk_id r = 0 \<longrightarrow> forced = 0 \<and> gd_members g = []"
      using slot(2) [OF rp] by blast
    with True i g lead have join: "may_join w gp g p i rp r" by (auto simp: may_join_def)
    let ?w = "enrolled gp g p i rp r w"
    have "sendable ?w gp" using gd_ok_sendable [OF gd_ok_enrolled [OF ok join]] by (simp add: enrolled_sel)
    from logs_ok [OF this, of 3 "[gi_name i]" now 2 "[p]"] obtain w' where
      w': "do { w1 \<leftarrow> LogGuildEvent gp 3 [gi_name i] ?w; AddGuildLogEntry now gp 2 [p] w1 } = Some w'" "strip w' = strip ?w" by blast
    have "AddGuildMember now gp p client forced w = Some w'"
      using True i b g slot(1) rp r(2) w'(1) by (simp add: AddGuildMember_def enrolled_def Let_def)
    with join w'(2) show ?thesis by blast
  qed
qed

section \<open>Leaving\<close>

definition dismissed :: "guildptr \<Rightarrow> guild \<Rightarrow> pguid \<Rightarrow> memptr \<Rightarrow> guild_info \<Rightarrow> gd_world \<Rightarrow> gd_world" where
  "dismissed gp g p mp i w = set_guild_id p 0 (set_guild_rank p 0 (put_ginfo p (i\<lparr> gi_guild := None, gi_rank := None, gi_member := None \<rparr>)
     (put_guild gp (g\<lparr> gd_members := map_erase p (gd_members g) \<rparr>)
       (w\<lparr> db_data := db_delete (\<lambda>k. snd k = p) (db_data w), gw_members := (gw_members w)(mp := None) \<rparr>))))"

lemma strip_dismissed [simp]: "strip (dismissed gp g p mp i w) = dismissed gp (strip_g g) p mp i (strip w)"
  by (simp add: dismissed_def)

lemma dismissed_sel:
  "gw_guilds (dismissed gp g p mp i w) = (gw_guilds w)(gp \<mapsto> g\<lparr> gd_members := map_erase p (gd_members g) \<rparr>)"
  "gw_ranks (dismissed gp g p mp i w) = gw_ranks w" "gw_hi (dismissed gp g p mp i w) = gw_hi w"
  "gw_next (dismissed gp g p mp i w) = gw_next w"
  "gw_members (dismissed gp g p mp i w) = (gw_members w)(mp := None)"
  "\<exists>o'. gw_infos (dismissed gp g p mp i w) = (gw_infos w)(p \<mapsto> i\<lparr> gi_guild := None, gi_rank := None, gi_member := None, gi_online := o' \<rparr>)"
proof -
  show "\<exists>o'. gw_infos (dismissed gp g p mp i w) = (gw_infos w)(p \<mapsto> i\<lparr> gi_guild := None, gi_rank := None, gi_member := None, gi_online := o' \<rparr>)"
    by (rule exI [of _ "map_option (\<lambda>o'. set_field PLAYER_GUILDID 0 (set_field PLAYER_GUILDRANK 0 o')) (gi_online i)"])
      (cases "gi_online i"; simp add: dismissed_def put_guild_def put_ginfo_def set_guild_id_def set_guild_rank_def)
qed (simp_all add: dismissed_def put_guild_def put_ginfo_def set_guild_id_def set_guild_rank_def)

lemma gd_ok_dismissed:
  assumes ok: "gd_ok w" and i: "gw_infos w p = Some i" "gi_guild i = Some gp"
    and g: "gw_guilds w gp = Some g" "(p, mp) \<in> set (gd_members g)"
  shows "gd_ok (dismissed gp g p mp i w)"
proof -
  note d = gd_okD [OF ok g(1)]
  let ?w = "dismissed gp g p mp i w"
  let ?g = "g\<lparr> gd_members := map_erase p (gd_members g) \<rparr>"
  obtain o' where infos: "gw_infos ?w = (gw_infos w)(p \<mapsto> i\<lparr> gi_guild := None, gi_rank := None, gi_member := None, gi_online := o' \<rparr>)"
    using dismissed_sel(6) by metis
  note sel = dismissed_sel(1-5) [of gp g p mp i w]
  have old: "member_ok ?w gp ?g q mq" if q: "(q, mq) \<in> set (gd_members ?g)" for q mq
  proof -
    have q': "(q, mq) \<in> set (gd_members g)" "q \<noteq> p" using q by (auto simp: map_erase_def)
    then have "mq \<noteq> mp" using member_owner [OF ok g(1) g(1) q'(1) g(2)] by auto
    then show ?thesis using d(5) [OF q'(1)] q'(2) by (auto simp: member_ok_def sel infos)
  qed
  show ?thesis
  proof (rule gd_ok_step [OF ok g(1) sel(1)])
    have "ranks_ok ?w ?g" using d(2) by (simp add: ranks_ok_def sel)
    then show "guild_ok ?w gp ?g" using d(1,3,4) old by (simp add: guild_ok_def tabs_ok_def sel split_beta)
    fix q i' show "gw_infos ?w q = Some i' \<Longrightarrow> gw_infos w q = Some i' \<and> gi_guild i' \<noteq> Some gp \<or> info_ok ?w q i'"
      using info_key [OF ok _ _ g(1)] by (cases "q = p") (auto simp: infos sel info_ok_def)
  next
    show "addresses_ok ?w" using ok by (simp add: addresses_ok_def sel gd_ok_def) (use g(1) live_below(1) [OF ok g(1)] in auto)
    fix mq assume "mq \<notin> snd ` set (gd_members g)"
    then show "gw_members ?w mq = gw_members w mq" using g(2) by (force simp: sel)
  qed (use i in \<open>auto simp: sel infos\<close>)
qed

text \<open>Who may be removed: not the master; and by another one only from a higher rank, or by the master.\<close>

definition may_dismiss :: "gd_world \<Rightarrow> guildptr \<Rightarrow> pguid \<Rightarrow> pguid option \<Rightarrow> bool" where
  "may_dismiss w gp p client \<longleftrightarrow> (\<exists>r. rank_of w p = Some r \<and> rk_id r \<noteq> 0 \<and>
     (\<forall>c rc. client = Some c \<longrightarrow> c \<noteq> p \<longrightarrow> rank_of w c = Some rc \<longrightarrow>
        CanPerformCommand rc GR_RIGHT_REMOVE \<and> (rk_id rc = 0 \<or> rk_id rc < rk_id r)))"

lemma may_remove_ok:
  assumes ok: "gd_ok w" and p: "gw_infos w p \<noteq> None" and client: "\<And>c. client = Some c \<Longrightarrow> gw_infos w c \<noteq> None"
  shows "\<exists>v. may_remove gp p client w = Some v \<and> (case v of Inl w' \<Rightarrow> strip w' = strip w
    | Inr _ \<Rightarrow> (\<exists>i. gw_infos w p = Some i \<and> gi_guild i = Some gp) \<and> may_dismiss w gp p client \<and>
        (\<forall>c. client = Some c \<longrightarrow> (\<exists>ic. gw_infos w c = Some ic \<and> gi_guild ic = Some gp)))"
proof -
  obtain ip where ip: "gw_infos w p = Some ip" using p by auto
  show ?thesis
  proof (cases "gi_guild ip = Some gp")
    case False
    then show ?thesis using ip by (simp add: may_remove_def)
  next
    case True
    obtain r where r: "rank_of w p = Some r" using player_pointers [OF ok ip True] by metis
    show ?thesis
    proof (cases client)
      case None
      then show ?thesis using ip True r by (auto simp: may_remove_def may_dismiss_def)
    next
      case (Some c)
      then obtain ic where ic: "gw_infos w c = Some ic" using client by auto
      show ?thesis
      proof (cases "gi_guild ic = Some gp")
        case False
        then show ?thesis using ip True r Some ic by (auto simp: may_remove_def)
      next
        case same: True
        obtain rc where "rank_of w c = Some rc" using player_pointers [OF ok ic same] by metis
        then show ?thesis using ip True r Some ic same by (auto simp: may_remove_def may_dismiss_def not_le)
      qed
    qed
  qed
qed

lemma log_removal_ok:
  assumes "sendable w gp"
  shows "\<exists>w'. log_removal now gp p client w = Some w' \<and> strip w' = strip w"
proof -
  have logs: "\<exists>w'. do { w2 \<leftarrow> LogGuildEvent gp ev strs v; AddGuildLogEntry now gp le ps w2 } = Some w' \<and> strip w' = strip w"
    if "strip v = strip w" for v ev strs le ps
    using logs_ok [of v gp ev strs now le ps] sendable_same [OF that] assms that by simp
  show ?thesis
  proof (cases client)
    case None
    then show ?thesis using logs [OF refl] by (simp add: log_removal_def)
  next
    case (Some c)
    then show ?thesis using logs [OF refl] logs [of "gd_sys p (''You have been removed from the guild by '' @ gd_name_of w c) w"]
      by (auto simp: log_removal_def Let_def)
  qed
qed

lemma removal_ok:
  assumes ok: "gd_ok w" and i: "gw_infos w p = Some i" "gi_guild i = Some gp" and may: "may_remove gp p client w = Some (Inr u)"
  shows "\<exists>w' g mp. RemoveGuildMember now gp p client w = Some w' \<and> gw_guilds w gp = Some g \<and> (p, mp) \<in> set (gd_members g) \<and>
    strip w' = strip (dismissed gp g p mp i w)"
proof -
  obtain g mp m where g: "gw_guilds w gp = Some g" "(p, mp) \<in> set (gd_members g)" "map_of (gd_members g) p = Some mp" "gw_members w mp = Some m"
    using player_pointers [OF ok i] by metis
  let ?w1 = "put_guild gp (g\<lparr> gd_members := map_erase p (gd_members g) \<rparr>)
      (w\<lparr> db_data := db_delete (\<lambda>k. snd k = p) (db_data w), gw_members := (gw_members w)(mp := None) \<rparr>)"
  have e: "erase_member gp p (w\<lparr> db_data := db_delete (\<lambda>k. snd k = p) (db_data w) \<rparr>) = Some ?w1"
    using g by (simp add: erase_member_def)
  have "sendable w gp" using gd_ok_sendable [OF ok] g by simp
  then have "sendable ?w1 gp" using g(1) by (auto simp: sendable_def put_guild_def map_erase_def)
  then obtain w2 where w2: "log_removal now gp p client ?w1 = Some w2" "strip w2 = strip ?w1" using log_removal_ok by blast
  have i2: "gw_infos w2 p = Some i" using arg_cong [OF w2(2), of "\<lambda>w. gw_infos w p"] i by (simp add: put_guild_def)
  have "RemoveGuildMember now gp p client w = map_option (\<lambda>w. set_guild_id p 0 (set_guild_rank p 0 w)) (clear_info p w2)"
    using may e w2(1) by (simp add: RemoveGuildMember_def map_conv_bind_option comp_def)
  also have "\<dots> = Some (set_guild_id p 0 (set_guild_rank p 0 (put_ginfo p (i\<lparr> gi_guild := None, gi_rank := None, gi_member := None \<rparr>) w2)))"
    using i2 by (simp add: clear_info_def)
  finally have res: "RemoveGuildMember now gp p client w = \<dots>" .
  have "strip (set_guild_id p 0 (set_guild_rank p 0 (put_ginfo p (i\<lparr> gi_guild := None, gi_rank := None, gi_member := None \<rparr>) w2))) =
      strip (dismissed gp g p mp i w)"
    using w2(2) by (simp add: dismissed_def)
  with res g show ?thesis by blast
qed

lemma remove_member_ok:
  assumes ok: "gd_ok w" and p: "gw_infos w p \<noteq> None" and client: "\<And>c. client = Some c \<Longrightarrow> gw_infos w c \<noteq> None"
  shows "\<exists>w'. RemoveGuildMember now gp p client w = Some w' \<and> (strip w' = strip w \<or>
    (\<exists>g mp i. gw_infos w p = Some i \<and> gi_guild i = Some gp \<and> gw_guilds w gp = Some g \<and> (p, mp) \<in> set (gd_members g) \<and>
       may_dismiss w gp p client \<and> (\<forall>c. client = Some c \<longrightarrow> (\<exists>ic. gw_infos w c = Some ic \<and> gi_guild ic = Some gp)) \<and>
       strip w' = strip (dismissed gp g p mp i w)))"
proof -
  obtain v where v: "may_remove gp p client w = Some v" "case v of Inl w' \<Rightarrow> strip w' = strip w
    | Inr _ \<Rightarrow> (\<exists>i. gw_infos w p = Some i \<and> gi_guild i = Some gp) \<and> may_dismiss w gp p client \<and>
        (\<forall>c. client = Some c \<longrightarrow> (\<exists>ic. gw_infos w c = Some ic \<and> gi_guild ic = Some gp))"
    using may_remove_ok [OF ok p client] by blast
  show ?thesis
  proof (cases v)
    case (Inl w')
    then show ?thesis using v by (simp add: RemoveGuildMember_def)
  next
    case (Inr u)
    then obtain i where i: "gw_infos w p = Some i" "gi_guild i = Some gp" using v(2) by auto
    from removal_ok [OF ok i v(1) [unfolded Inr], of now] obtain w' g mp where "RemoveGuildMember now gp p client w = Some w'"
      "gw_guilds w gp = Some g" "(p, mp) \<in> set (gd_members g)" "strip w' = strip (dismissed gp g p mp i w)" by blast
    moreover have "may_dismiss w gp p client" "\<forall>c. client = Some c \<longrightarrow> (\<exists>ic. gw_infos w c = Some ic \<and> gi_guild ic = Some gp)"
      using v(2) Inr by auto
    ultimately show ?thesis using i by blast
  qed
qed

text \<open>A player who is not the master leaves.\<close>

lemma quit_ok:
  assumes ok: "gd_ok w" and i: "gw_infos w p = Some i" "gi_guild i = Some gp" and g: "gw_guilds w gp = Some g" and not: "gd_leader g \<noteq> p"
  shows "\<exists>w' mp. RemoveGuildMember now gp p None w = Some w' \<and> (p, mp) \<in> set (gd_members g) \<and> strip w' = strip (dismissed gp g p mp i w)"
proof -
  obtain r where "rank_of w p = Some r" "rk_id r \<noteq> 0" using player_pointers [OF ok i] g not by (metis option.inject)
  then have "may_remove gp p None w = Some (Inr ())" using i by (simp add: may_remove_def)
  from removal_ok [OF ok i this, of now] g show ?thesis by (metis option.inject)
qed

section \<open>Contents of a guild\<close>

text \<open>Updates of notes, texts, counters and money keep all pointers.\<close>

lemma guild_right_ok:
  assumes ok: "gd_ok w" and c: "gw_infos w c \<noteq> None"
  shows "\<exists>v. guild_right right gp c w = Some v \<and> (case v of Inl w' \<Rightarrow> strip w' = strip w | Inr _ \<Rightarrow> gw_guilds w gp \<noteq> None)"
proof -
  obtain ic where ic: "gw_infos w c = Some ic" using c by auto
  show ?thesis
  proof (cases "gi_guild ic = Some gp")
    case True
    obtain g rc where "gw_guilds w gp = Some g" "rank_of w c = Some rc" using player_pointers [OF ok ic True] by metis
    then show ?thesis using ic True by (simp add: guild_right_def)
  qed (use ic in \<open>simp add: guild_right_def\<close>)
qed

lemma gd_ok_contents:
  assumes "gd_ok w" "gw_guilds w gp = Some g" "g_shape g' = g_shape g" "tabs_ok g'"
  shows "gd_ok (put_guild gp g' w)"
  by (rule gd_ok_alike [OF alike_put_guild [OF assms(2,3)] assms(1)])
    (use gd_ok_tabs [OF assms(1)] assms(4) in \<open>auto simp: put_guild_def split: if_splits\<close>)

lemma gd_ok_put_member:
  assumes "gd_ok w" "gw_members w mp = Some m" "m_shape m' = m_shape m"
  shows "gd_ok (put_member mp m' w)"
  by (rule gd_ok_alike [OF alike_put_member [OF assms(2,3)] assms(1)]) (use gd_ok_tabs [OF assms(1)] in \<open>simp add: put_member_def\<close>)

lemma gd_ok_put_info:
  assumes "gd_ok w" "gw_infos w p = Some i" "i_shape i' = i_shape i"
  shows "gd_ok (put_ginfo p i' w)"
  by (rule gd_ok_alike [OF alike_put_info [OF assms(2,3)] assms(1)]) (use gd_ok_tabs [OF assms(1)] in \<open>simp add: put_ginfo_def\<close>)

lemma gd_ok_put_rank:
  assumes "gd_ok w" "gw_ranks w rp = Some r" "r_shape r' = r_shape r"
  shows "gd_ok (put_rank rp r' w)"
  by (rule gd_ok_alike [OF alike_put_rank [OF assms(2,3)] assms(1)]) (use gd_ok_tabs [OF assms(1)] in \<open>simp add: put_rank_def\<close>)

definition noted :: "pguid \<Rightarrow> memptr \<Rightarrow> (guild_member \<Rightarrow> guild_member) \<Rightarrow> (member_row \<Rightarrow> member_row) \<Rightarrow> gd_world \<Rightarrow> gd_world" where
  "noted p mp f fr w = (case gw_members w mp of None \<Rightarrow> w | Some m \<Rightarrow> sql_data (\<lambda>k. snd k = p) fr (put_member mp (f m) w))"

definition textual :: "guildptr \<Rightarrow> (guild \<Rightarrow> guild) \<Rightarrow> (guild_row \<Rightarrow> guild_row) \<Rightarrow> gd_world \<Rightarrow> gd_world" where
  "textual gp f fr w = (case gw_guilds w gp of None \<Rightarrow> w | Some g \<Rightarrow> sql_guild (gd_id g) fr (put_guild gp (f g) w))"

definition paid :: "pguid \<Rightarrow> u32 \<Rightarrow> gd_world \<Rightarrow> gd_world" where
  "paid p m w = (case gw_infos w p of None \<Rightarrow> w
     | Some i \<Rightarrow> put_ginfo p (i\<lparr> gi_online := map_option (\<lambda>o'. o'\<lparr> pl_coins := ModUnsigned32Value (pl_coins o') m \<rparr>) (gi_online i) \<rparr>) w)"

lemma strip_cores [simp]:
  "strip (noted p mp fm fr w) = noted p mp fm fr (strip w)"
  "strip (paid p m w) = paid p m (strip w)"
  by (simp_all add: noted_def paid_def split: option.split)

lemma strip_textual:
  assumes "\<And>g. strip_g (f g) = f (strip_g g)"
  shows "strip (textual gp f fr w) = textual gp f fr (strip w)"
  using assms by (cases "gw_guilds w gp") (simp_all add: textual_def)

lemma gd_ok_noted:
  assumes "gd_ok w" "\<And>m. m_shape (f m) = m_shape m"
  shows "gd_ok (noted p mp f fr w)"
  unfolding noted_def using assms by (auto intro: gd_ok_put_member split: option.split)

lemma gd_ok_textual:
  assumes "gd_ok w" "\<And>g. g_shape (f g) = g_shape g" "\<And>g. gw_guilds w gp = Some g \<Longrightarrow> tabs_ok g \<Longrightarrow> tabs_ok (f g)"
  shows "gd_ok (textual gp f fr w)"
  unfolding textual_def using assms gd_ok_contents [OF assms(1)] gd_ok_tabs [OF assms(1)] by (auto split: option.split)

lemma gd_ok_paid: "gd_ok w \<Longrightarrow> gd_ok (paid p m w)"
  unfolding paid_def by (auto intro!: gd_ok_put_info simp: i_shape_def split: option.split)

lemma set_note_ok:
  assumes ok: "gd_ok w" and p: "gw_infos w p \<noteq> None" and c: "gw_infos w c \<noteq> None"
  shows "\<exists>w'. set_note right msg f fr gp p c w = Some w' \<and> (strip w' = strip w \<or>
    (\<exists>g mp. gw_guilds w gp = Some g \<and> (p, mp) \<in> set (gd_members g) \<and> strip w' = strip (noted p mp f fr w)))"
proof -
  obtain ip ic where ip: "gw_infos w p = Some ip" and ic: "gw_infos w c = Some ic" using p c by auto
  show ?thesis
  proof (cases "gi_guild ip = Some gp \<and> gi_guild ic = Some gp")
    case False
    then show ?thesis using ip ic by (auto simp: set_note_def)
  next
    case True
    obtain rc where rc: "rank_of w c = Some rc" using player_pointers [OF ok ic] True by metis
    obtain g mp m where g: "gw_guilds w gp = Some g" "(p, mp) \<in> set (gd_members g)" "map_of (gd_members g) p = Some mp" "gw_members w mp = Some m"
      using player_pointers [OF ok ip] True by metis
    show ?thesis
    proof (cases "CanPerformCommand rc right")
      case False
      then show ?thesis using ip ic True rc by (auto simp: set_note_def)
    next
      case may: True
      have "set_note right msg f fr gp p c w =
          Some (SendGuildCommandResult c msg (gd_name_of w p) 0 (sql_data (\<lambda>k. snd k = p) fr (put_member mp (f m) w)))"
        using ip ic True rc may g by (simp add: set_note_def)
      moreover have "noted p mp f fr w = sql_data (\<lambda>k. snd k = p) fr (put_member mp (f m) w)" using g by (simp add: noted_def)
      ultimately have "set_note right msg f fr gp p c w = Some (SendGuildCommandResult c msg (gd_name_of w p) 0 (noted p mp f fr w))"
        by simp
      with g(1,2) show ?thesis using strip_send(3) by blast
    qed
  qed
qed

lemma motd_ok:
  assumes ok: "gd_ok w" and c: "gw_infos w c \<noteq> None"
  shows "\<exists>w'. SetMOTD s gp c w = Some w' \<and> (strip w' = strip w \<or>
    strip w' = strip (textual gp (\<lambda>g. g\<lparr> gd_motd := note_of s \<rparr>) (\<lambda>x. x\<lparr> gr_motd := s \<rparr>) w))"
proof -
  obtain v where v: "guild_right GR_RIGHT_SETMOTD gp c w = Some v" "case v of Inl w' \<Rightarrow> strip w' = strip w | Inr _ \<Rightarrow> gw_guilds w gp \<noteq> None"
    using guild_right_ok [OF ok c] by blast
  show ?thesis
  proof (cases v)
    case (Inl w')
    then show ?thesis using v by (simp add: SetMOTD_def)
  next
    case (Inr u)
    then obtain g where g: "gw_guilds w gp = Some g" using v(2) by auto
    let ?w = "textual gp (\<lambda>g. g\<lparr> gd_motd := note_of s \<rparr>) (\<lambda>x. x\<lparr> gr_motd := s \<rparr>) w"
    have "gd_ok ?w" by (rule gd_ok_textual [OF ok]) (simp_all add: g_shape_def tabs_ok_def)
    then have "sendable ?w gp" by (rule gd_ok_sendable) (use g in \<open>simp add: textual_def sql_guild_def put_guild_def\<close>)
    then obtain w' where "LogGuildEvent gp 2 [s] ?w = Some w'" "strip w' = strip ?w" using log_event_ok by blast
    then show ?thesis using v(1) Inr g by (auto simp: SetMOTD_def textual_def)
  qed
qed

lemma information_ok:
  assumes ok: "gd_ok w" and c: "gw_infos w c \<noteq> None"
  shows "\<exists>w'. SetGuildInformation s gp c w = Some w' \<and> (strip w' = strip w \<or>
    strip w' = strip (textual gp (\<lambda>g. g\<lparr> gd_info := note_of s \<rparr>) (\<lambda>x. x\<lparr> gr_info := s \<rparr>) w))"
proof -
  obtain v where v: "guild_right GR_RIGHT_EGUILDINFO gp c w = Some v" "case v of Inl w' \<Rightarrow> strip w' = strip w | Inr _ \<Rightarrow> gw_guilds w gp \<noteq> None"
    using guild_right_ok [OF ok c] by blast
  then show ?thesis by (cases v) (auto simp: SetGuildInformation_def textual_def)
qed

lemma tabard_ok:
  "gw_guilds w gp \<noteq> None \<Longrightarrow> SetTabardInfo em gp w = Some (textual gp (\<lambda>g. g\<lparr> gd_emblem := em \<rparr>) (\<lambda>x. x\<lparr> gr_emblem := em \<rparr>) w)"
  by (auto simp: SetTabardInfo_def textual_def)

section \<open>Money and tabs\<close>

definition balanced :: "guildptr \<Rightarrow> u32 \<Rightarrow> gd_world \<Rightarrow> gd_world" where
  "balanced gp b = textual gp (\<lambda>g. g\<lparr> gd_balance := b \<rparr>) (\<lambda>x. x\<lparr> gr_balance := b \<rparr>)"

definition tick_count :: "int \<Rightarrow> u32 \<Rightarrow> guild_member \<Rightarrow> guild_member" where
  "tick_count now amt m = (let t = (word_of_int now :: u32)
     in if TIME_DAY \<le> uint (t - mb_wreset m) then m\<lparr> mb_wreset := t, mb_wcount := amt \<rparr> else m\<lparr> mb_wcount := mb_wcount m + 1 \<rparr>)"

definition counted :: "int \<Rightarrow> u32 \<Rightarrow> memptr \<Rightarrow> gd_world \<Rightarrow> gd_world" where
  "counted now amt mp w = (case gw_members w mp of None \<Rightarrow> w
     | Some m \<Rightarrow> (case gw_ranks w (mb_rank m) of None \<Rightarrow> w
       | Some r \<Rightarrow> if sint (rk_gold r) \<le> 0 then w
           else noted (mb_player m) mp (tick_count now amt)
             (\<lambda>x. x\<lparr> mr_wreset := mb_wreset (tick_count now amt m), mr_wcount := mb_wcount (tick_count now amt m) \<rparr>) w))"

lemma tick_count_shape [simp]: "m_shape (tick_count now amt m) = m_shape m"
  by (simp add: tick_count_def m_shape_def Let_def)

lemma strip_counted [simp]: "strip (counted now amt mp w) = counted now amt mp (strip w)"
  by (simp add: counted_def split: option.split)

lemma strip_balanced [simp]: "strip (balanced gp b w) = balanced gp b (strip w)"
  by (simp add: balanced_def strip_textual)

lemma gd_ok_counted: "gd_ok w \<Longrightarrow> gd_ok (counted now amt mp w)"
  unfolding counted_def by (auto intro!: gd_ok_noted split: option.split)

lemma gd_ok_balanced: "gd_ok w \<Longrightarrow> gd_ok (balanced gp b w)"
  unfolding balanced_def by (rule gd_ok_textual) (simp_all add: g_shape_def tabs_ok_def)

lemma balanced_sel [simp]:
  "gw_members (balanced gp b w) = gw_members w" "gw_ranks (balanced gp b w) = gw_ranks w" "gw_infos (balanced gp b w) = gw_infos w"
  "gw_guilds (balanced gp b w) gp = map_option (\<lambda>g. g\<lparr> gd_balance := b \<rparr>) (gw_guilds w gp)"
  by (simp_all add: balanced_def textual_def sql_guild_def put_guild_def split: option.split)

lemma counted_sel [simp]:
  "gw_guilds (counted now amt mp w) = gw_guilds w" "gw_ranks (counted now amt mp w) = gw_ranks w" "gw_infos (counted now amt mp w) = gw_infos w"
  by (simp_all add: counted_def noted_def sql_data_def put_member_def split: option.split)

lemma paid_sel [simp]:
  "gw_guilds (paid p m w) = gw_guilds w" "gw_ranks (paid p m w) = gw_ranks w" "gw_members (paid p m w) = gw_members w"
  by (simp_all add: paid_def put_ginfo_def split: option.split)

lemma mod_coins_paid: "gd_online w p \<Longrightarrow> mod_coins p m w = Some (paid p m w)"
  by (auto simp: gd_online_def mod_coins_def paid_def split: option.splits)

lemma set_balance_eq: "gw_guilds w gp \<noteq> None \<Longrightarrow> set_balance gp b w = Some (balanced gp b w)"
  by (auto simp: set_balance_def balanced_def textual_def)

lemma on_withdraw_counted:
  "gw_members w mp = Some m \<Longrightarrow> gw_ranks w (mb_rank m) = Some r \<Longrightarrow> OnMoneyWithdraw now amt mp w = Some (counted now amt mp w)"
  by (simp add: OnMoneyWithdraw_def counted_def noted_def tick_count_def Let_def)

lemma online_same: "gw_infos w' = gw_infos w \<Longrightarrow> gd_online w' p = gd_online w p"
  by (simp add: gd_online_def)

lemma deposit_ok:
  assumes ok: "gd_ok w" and c: "gw_infos w c = Some ic" "gi_online ic = Some oc" and g: "gw_guilds w gp = Some g"
  shows "\<exists>w'. DepositMoney now amt gp c w = Some w' \<and> (if pl_coins oc < amt \<or> amt = 0 then w' = w
    else strip w' = strip (paid c (- amt) (balanced gp (gd_balance g + amt) w)))"
proof (cases "pl_coins oc < amt \<or> amt = 0")
  case True
  then show ?thesis using c by (auto simp: DepositMoney_def)
next
  case False
  let ?w1 = "balanced gp (gd_balance g + amt) w"
  let ?w2 = "paid c (- amt) ?w1"
  have on: "gd_online ?w1 c" using c by (simp add: gd_online_def)
  have "sendable ?w2 gp" by (rule gd_ok_sendable) (use ok g in \<open>simp_all add: gd_ok_paid gd_ok_balanced\<close>)
  from bank_logs_ok [OF this, of "0x11" "[hex16 (gd_balance g + amt)]" now 4 c amt] obtain w' where
    "do { w3 \<leftarrow> LogGuildEvent gp 0x11 [hex16 (gd_balance g + amt)] ?w2; LogGuildBankActionMoney now gp 4 c amt w3 } = Some w'" "strip w' = strip ?w2"
    by blast
  then show ?thesis using False c g on by (simp add: DepositMoney_def set_balance_eq mod_coins_paid)
qed

definition may_withdraw :: "int \<Rightarrow> u32 \<Rightarrow> guild \<Rightarrow> guild_rank \<Rightarrow> guild_member \<Rightarrow> bool" where
  "may_withdraw now amt g r m \<longleftrightarrow> amt \<noteq> 0 \<and> amt \<le> gd_balance g \<and>
     (rk_id r = 0 \<or> rk_gold r \<noteq> 0 \<and> (0 < sint (rk_gold r) \<longrightarrow> amt \<le> CalculateAvailableAmount now r m))"

lemma withdraw_ok:
  assumes ok: "gd_ok w" and c: "gw_infos w c = Some ic" "gi_online ic = Some oc" "gi_guild ic = Some gp" and g: "gw_guilds w gp = Some g"
    and m: "(c, mp) \<in> set (gd_members g)" "gw_members w mp = Some m" "gw_ranks w (mb_rank m) = Some r"
  shows "\<exists>w'. WithdrawMoney now amt gp c w = Some w' \<and> (if may_withdraw now amt g r m
    then strip w' = strip (balanced gp (gd_balance g - amt) (paid c amt (counted now amt mp w))) else strip w' = strip w)"
proof -
  have "member_ok w gp g c mp" using gd_okD(5) [OF ok g m(1)] .
  with m c have p: "gi_member ic = Some mp" "gi_rank ic = Some (mb_rank m)" by (auto simp: member_ok_def)
  then have rk: "rank_of w c = Some r" using c m(3) by (simp add: rank_of_def)
  show ?thesis
  proof (cases "may_withdraw now amt g r m")
    case False
    then show ?thesis using c g p rk m
      by (auto simp: WithdrawMoney_def may_withdraw_def not_le not_less)
  next
    case True
    let ?w1 = "counted now amt mp w"
    let ?w2 = "paid c amt ?w1"
    let ?w3 = "balanced gp (gd_balance g - amt) ?w2"
    have on: "gd_online ?w1 c" using c by (simp add: gd_online_def)
    have "sendable ?w3 gp" by (rule gd_ok_sendable) (use ok g in \<open>simp_all add: gd_ok_paid gd_ok_balanced gd_ok_counted\<close>)
    from bank_logs_ok [OF this, of "0x11" "[hex16 (gd_balance g - amt)]" now 5 c amt] obtain w' where
      "do { w4 \<leftarrow> LogGuildEvent gp 0x11 [hex16 (gd_balance g - amt)] ?w3; LogGuildBankActionMoney now gp 5 c amt w4 } = Some w'" "strip w' = strip ?w3"
      by blast
    then show ?thesis using True c g p rk m on
      by (auto simp: WithdrawMoney_def may_withdraw_def on_withdraw_counted [OF m(2,3)] mod_coins_paid set_balance_eq not_less)
  qed
qed

definition tab_bought :: "guildptr \<Rightarrow> gd_world \<Rightarrow> gd_world" where
  "tab_bought gp w = (case gw_guilds w gp of None \<Rightarrow> w
     | Some g \<Rightarrow> textual gp (\<lambda>g. g\<lparr> gd_tabs := gd_tabs g @ [\<lparr> tb_id = ucast (gd_tabcount g), tb_name = None, tb_icon = None,
           tb_slots = replicate MAX_GUILD_BANK_SLOTS None, tb_log = [] \<rparr>], gd_tabcount := gd_tabcount g + 1 \<rparr>)
         (\<lambda>x. x\<lparr> gr_tabs := gd_tabcount g + 1 \<rparr>) w)"

lemma strip_tab_bought [simp]: "strip (tab_bought gp w) = tab_bought gp (strip w)"
  by (simp add: tab_bought_def strip_textual split: option.split)

lemma gd_ok_tab_bought:
  assumes "gd_ok w" "gw_guilds w gp = Some g" "gd_tabcount g < 6"
  shows "gd_ok (tab_bought gp w)"
proof -
  have "unat (gd_tabcount g + 1) = unat (gd_tabcount g) + 1" "unat (gd_tabcount g) < 6"
    using assms(3) by (simp_all add: unat_word_ariths word_less_nat_alt)
  then show ?thesis using assms unfolding tab_bought_def
    by (auto intro!: gd_ok_textual simp: g_shape_def tabs_ok_def MAX_GUILD_BANK_TABS_def)
qed

lemma tab_bought_live [simp]: "gw_guilds (tab_bought gp w) gp = None \<longleftrightarrow> gw_guilds w gp = None"
  by (simp add: tab_bought_def textual_def sql_guild_def put_guild_def split: option.split)

lemma buy_tab_ok:
  assumes ok: "gd_ok w" and c: "gw_infos w c = Some ic" "gi_online ic = Some oc" and g: "gw_guilds w gp = Some g"
  shows "\<exists>w'. HandleGuildBankBuyTab gp c w = Some w' \<and> (strip w' = strip w \<or>
    (gd_leader g = c \<and> gd_tabcount g < 6 \<and> (\<exists>cost. cost \<le> pl_coins oc \<and> strip w' = strip (tab_bought gp (paid c (- cost) w)))))"
proof (cases "gd_leader g = c \<and> gd_tabcount g < 6 \<and> 10000 * GuildBankPrices ! unat (gd_tabcount g) \<le> pl_coins oc")
  case False
  then show ?thesis using c g by (auto simp: HandleGuildBankBuyTab_def as_leader_def Let_def not_le not_less)
next
  case True
  let ?cost = "10000 * GuildBankPrices ! unat (gd_tabcount g)"
  let ?w1 = "paid c (- ?cost) w"
  let ?w2 = "tab_bought gp ?w1"
  have "gd_ok ?w2" by (rule gd_ok_tab_bought [OF gd_ok_paid [OF ok], where g = g]) (use g True in simp_all)
  then have "sendable ?w2 gp" by (rule gd_ok_sendable) (simp add: g)
  then obtain w' where w': "LogGuildEvent gp 0xF [[]] ?w2 = Some w'" "strip w' = strip ?w2" using log_event_ok by blast
  have "gd_online w c" using c by (simp add: gd_online_def)
  moreover have "BuyBankTab gp (Some c) ?w1 = Some ?w2"
    using g True by (auto simp: BuyBankTab_def tab_bought_def textual_def Let_def MAX_GUILD_BANK_TABS_def)
  ultimately have "HandleGuildBankBuyTab gp c w = Some w'"
    using c g True w'(1) by (auto simp: HandleGuildBankBuyTab_def as_leader_def mod_coins_paid Let_def)
  with True w'(2) show ?thesis by blast
qed

text \<open>Edits of the tabs in place: their number and their slots stay.\<close>

definition retabbed :: "guildptr \<Rightarrow> (guild \<Rightarrow> guild) \<Rightarrow> gd_world \<Rightarrow> gd_world" where
  "retabbed gp f w = (case gw_guilds w gp of None \<Rightarrow> w | Some g \<Rightarrow> put_guild gp (f g) w)"

definition keeps_tabs :: "(guild \<Rightarrow> guild) \<Rightarrow> bool" where
  "keeps_tabs f \<longleftrightarrow> (\<forall>g. \<exists>ts. f g = g\<lparr> gd_tabs := ts \<rparr> \<and> map (\<lambda>t. length (tb_slots t)) ts = map (\<lambda>t. length (tb_slots t)) (gd_tabs g)) \<and>
     (\<forall>g. strip_g (f g) = f (strip_g g))"

lemma tabs_ok_lengths:
  assumes "tabs_ok g" "map (\<lambda>t. length (tb_slots t)) ts = map (\<lambda>t. length (tb_slots t)) (gd_tabs g)"
  shows "tabs_ok (g\<lparr> gd_tabs := ts \<rparr>)"
proof -
  have "length ts = length (gd_tabs g)" using assms(2) map_eq_imp_length_eq by blast
  moreover have "(\<lambda>t. length (tb_slots t)) ` set ts = (\<lambda>t. length (tb_slots t)) ` set (gd_tabs g)"
    using assms(2) by (metis set_map)
  ultimately show ?thesis using assms(1) unfolding tabs_ok_def by (auto simp: image_iff)
qed

lemma keeps_tabsE:
  assumes "keeps_tabs f"
  obtains ts where "f g = g\<lparr> gd_tabs := ts \<rparr>" "map (\<lambda>t. length (tb_slots t)) ts = map (\<lambda>t. length (tb_slots t)) (gd_tabs g)"
  using assms unfolding keeps_tabs_def by blast

lemma gd_ok_retabbed:
  assumes "gd_ok w" "keeps_tabs f"
  shows "gd_ok (retabbed gp f w)"
proof (cases "gw_guilds w gp")
  case (Some g)
  obtain ts where "f g = g\<lparr> gd_tabs := ts \<rparr>" "map (\<lambda>t. length (tb_slots t)) ts = map (\<lambda>t. length (tb_slots t)) (gd_tabs g)"
    using keeps_tabsE [OF assms(2)] .
  then show ?thesis using gd_ok_contents [OF assms(1) Some, of "f g"] tabs_ok_lengths [OF gd_ok_tabs [OF assms(1) Some]] Some
    by (simp add: retabbed_def g_shape_def)
qed (use assms in \<open>simp add: retabbed_def\<close>)

lemma strip_retabbed: "keeps_tabs f \<Longrightarrow> strip (retabbed gp f w) = retabbed gp f (strip w)"
  by (auto simp: retabbed_def keeps_tabs_def split: option.split)

lemma keeps_put_tab:
  assumes "\<And>t. length (tb_slots (f t)) = length (tb_slots t)"
  shows "keeps_tabs (put_tab i f)"
proof -
  have "map (\<lambda>t. length (tb_slots t)) (ts[k := f (ts ! k)]) = map (\<lambda>t. length (tb_slots t)) ts" for ts k
    using assms by (cases "k < length ts") (simp_all add: map_update list_update_same_conv not_less list_update_beyond)
  then show ?thesis by (auto simp: keeps_tabs_def put_tab_def)
qed

lemma keeps_swap_slots: "keeps_tabs (swap_slots db ds sb ss)"
proof -
  have "\<exists>ts. swap_slots db ds sb ss g = g\<lparr> gd_tabs := ts \<rparr> \<and> map (\<lambda>t. length (tb_slots t)) ts = map (\<lambda>t. length (tb_slots t)) (gd_tabs g)" for g
  proof -
    define put where "put = (\<lambda>b k x. put_tab b (\<lambda>t. t\<lparr> tb_slots := (tb_slots t)[k := x] \<rparr>))"
    have keeps: "keeps_tabs (put b k x)" for b k x unfolding put_def by (rule keeps_put_tab) simp
    obtain x y where sw: "swap_slots db ds sb ss g = put (ucast db) (unat ds) x (put (ucast sb) (unat ss) y g)"
      by (simp add: swap_slots_def put_def Let_def)
    obtain ts where "put (ucast sb) (unat ss) y g = g\<lparr> gd_tabs := ts \<rparr>"
      "map (\<lambda>t. length (tb_slots t)) ts = map (\<lambda>t. length (tb_slots t)) (gd_tabs g)" using keeps_tabsE [OF keeps] .
    moreover obtain ts' where "put (ucast db) (unat ds) x (g\<lparr> gd_tabs := ts \<rparr>) = g\<lparr> gd_tabs := ts, gd_tabs := ts' \<rparr>"
      "map (\<lambda>t. length (tb_slots t)) ts' = map (\<lambda>t. length (tb_slots t)) (gd_tabs (g\<lparr> gd_tabs := ts \<rparr>))" using keeps_tabsE [OF keeps] .
    ultimately show ?thesis by (intro exI [of _ ts']) (simp add: sw)
  qed
  moreover have "strip_g (swap_slots db ds sb ss g) = swap_slots db ds sb ss (strip_g g)" for g
    by (simp add: swap_slots_def put_tab_def Let_def)
  ultimately show ?thesis by (simp add: keeps_tabs_def)
qed

lemma GetBankTab_ok:
  assumes "tabs_ok g"
  obtains t where "GetBankTab g n = Some t" "t \<noteq> None \<longrightarrow> unat n < length (gd_tabs g) \<and> t = Some (gd_tabs g ! unat n)"
  using that assms by (cases "gd_tabcount g \<le> n") (auto simp: GetBankTab_def tabs_ok_def word_le_nat_alt not_le)

lemma modify_tab_ok:
  assumes ok: "gd_ok w" and g: "gw_guilds w gp = Some g"
  shows "\<exists>w'. HandleGuildBankModifyTab slot name icon gp c w = Some w' \<and>
    (strip w' = strip w \<or> strip w' = strip (retabbed gp (put_tab (ucast slot) (modify_tab name icon)) w))"
proof -
  obtain t where "GetBankTab g (ucast slot) = Some t" using GetBankTab_ok [OF gd_ok_tabs [OF ok g]] by metis
  then show ?thesis using g by (cases "gd_leader g = c"; cases t) (auto simp: HandleGuildBankModifyTab_def as_leader_def retabbed_def)
qed

lemma move_item_ok:
  assumes ok: "gd_ok w" and g: "gw_guilds w gp = Some g" and m: "(c, mp) \<in> set (gd_members g)"
  shows "\<exists>w'. MoveBankItem db ds sb ss gp mp w = Some w' \<and> (strip w' = strip w \<or> strip w' = strip (retabbed gp (swap_slots db ds sb ss) w))"
proof (cases "of_nat MAX_GUILD_BANK_SLOTS \<le> ss \<or> of_nat MAX_GUILD_BANK_SLOTS \<le> ds \<or>
         of_nat MAX_GUILD_BANK_TABS \<le> sb \<or> of_nat MAX_GUILD_BANK_TABS \<le> db")
  case True
  then show ?thesis by (auto simp: MoveBankItem_def)
next
  case False
  have lt: "unat ss < 98" "unat ds < 98" "unat sb < 6" "unat db < 6"
    using False by (auto simp: word_le_nat_alt not_le MAX_GUILD_BANK_SLOTS_def MAX_GUILD_BANK_TABS_def)
  have "member_ok w gp g c mp" using gd_okD(5) [OF ok g m] .
  then obtain mb where mb: "gw_members w mp = Some mb" "Some (mb_rank mb) \<in> set (gd_ranks g)" by (auto simp: member_ok_def)
  obtain i r where r: "i < MAX_GUILD_RANKS" "gw_ranks w (mb_rank mb) = Some r" "length (rk_tabs r) = MAX_GUILD_BANK_TABS"
    using rank_in_slots [OF gd_okD(2) [OF ok g] mb(2)] by metis
  note tabs = gd_ok_tabs [OF ok g]
  obtain ts where ts: "GetBankTab g (ucast sb) = Some ts" "ts \<noteq> None \<longrightarrow> unat (ucast sb :: u32) < length (gd_tabs g) \<and> ts = Some (gd_tabs g ! unat (ucast sb :: u32))"
    using GetBankTab_ok [OF tabs] .
  obtain td where td: "GetBankTab g (ucast db) = Some td" "td \<noteq> None \<longrightarrow> unat (ucast db :: u32) < length (gd_tabs g) \<and> td = Some (gd_tabs g ! unat (ucast db :: u32))"
    using GetBankTab_ok [OF tabs] .
  have slots: "length (tb_slots t) = 98" if "t \<in> set (gd_tabs g)" for t using tabs that by (simp add: tabs_ok_def MAX_GUILD_BANK_SLOTS_def)
  have "length (tb_slots t) = 98" if "ts = Some t" for t using ts(2) that slots by auto
  moreover have "length (tb_slots t) = 98" if "td = Some t" for t using td(2) that slots by auto
  ultimately show ?thesis using False lt g mb(1) r ts(1) td(1)
    by (cases ts; cases td)
      (auto simp: MoveBankItem_def CanPerformBankCommand_def retabbed_def MAX_GUILD_BANK_TABS_def)
qed

section \<open>Chat\<close>

lemma chat_ok:
  assumes ok: "gd_ok w" and c: "gw_infos w c = Some ic" "gi_online ic = Some oc"
  shows "\<exists>w'. guild_chat speak listen kind msg addon gp c w = Some w' \<and> strip w' = strip w"
proof (cases "gi_guild ic = Some gp")
  case False
  then show ?thesis using c by (simp add: guild_chat_def)
next
  case True
  obtain g rc where g: "gw_guilds w gp = Some g" "rank_of w c = Some rc" using player_pointers [OF ok c(1) True] by metis
  have "hears listen w e \<noteq> None" if "e \<in> set (gd_members g)" for e
    using gd_okD(5) [OF ok g(1), of "fst e" "snd e"] that by (auto simp: hears_def member_ok_def)
  moreover have "gw_infos w (fst e) \<noteq> None" if "e \<in> set (gd_members g)" for e
    using gd_okD(5) [OF ok g(1), of "fst e" "snd e"] that by (auto simp: member_ok_def)
  ultimately show ?thesis using c True g by (cases "CanPerformCommand rc speak") (auto simp: guild_chat_def gd_send_members_def)
qed

section \<open>Editing the ranks\<close>

definition reranked :: "rankptr \<Rightarrow> guild_rank \<Rightarrow> u32 \<Rightarrow> gd_world \<Rightarrow> gd_world" where
  "reranked rp r n w = (let w1 = put_rank rp r w in w1\<lparr> db_ranks := db_replace (\<lambda>_ _. False) (n, rk_id r) r (db_ranks w1) \<rparr>)"

lemma strip_reranked [simp]: "strip (reranked rp r n w) = reranked rp r n (strip w)"
  by (simp add: reranked_def put_rank_def)

lemma gd_ok_reranked: "gd_ok w \<Longrightarrow> gw_ranks w rp = Some r \<Longrightarrow> r_shape r' = r_shape r \<Longrightarrow> gd_ok (reranked rp r' n w)"
  by (simp add: reranked_def Let_def gd_ok_put_rank)

lemma edit_rank_ok:
  assumes ok: "gd_ok w" and g: "gw_guilds w gp = Some g"
  shows "\<exists>w'. edit_rank gp rid rights name gold tabs w = Some w' \<and> (strip w' = strip w \<or>
    (\<exists>rp r r'. Some rp \<in> set (gd_ranks g) \<and> gw_ranks w rp = Some r \<and> r_shape r' = r_shape r \<and> strip w' = strip (reranked rp r' (gd_id g) w)))"
proof (cases "of_nat MAX_GUILD_RANKS \<le> rid")
  case True
  then show ?thesis using g by (simp add: edit_rank_def)
next
  case False
  have len: "length (gd_ranks g) = MAX_GUILD_RANKS" using gd_okD(2) [OF ok g] by (simp add: ranks_ok_def slots_ok_def)
  then have lt: "unat rid < length (gd_ranks g)" using False by (simp add: word_le_nat_alt MAX_GUILD_RANKS_def)
  show ?thesis
  proof (cases "gd_ranks g ! unat rid")
    case None
    then show ?thesis using g lt False by (simp add: edit_rank_def rank_slot_def)
  next
    case (Some rp)
    obtain r where r: "gw_ranks w rp = Some r" "length (rk_tabs r) = MAX_GUILD_BANK_TABS"
      using rank_slots [OF gd_okD(2) [OF ok g] lt Some] by metis
    let ?r = "r\<lparr> rk_rights := rights, rk_name := (if length name < 2 then rk_name r else name), rk_gold := gold, rk_tabs := map tabs [0..<MAX_GUILD_BANK_TABS] \<rparr>"
    have "edit_rank gp rid rights name gold tabs w = Some (reranked rp ?r (gd_id g) w)"
      using g lt False Some r(1) by (simp add: edit_rank_def rank_slot_def reranked_def Let_def put_rank_def)
    moreover have "r_shape ?r = r_shape r" using r(2) by (simp add: r_shape_def)
    moreover have "Some rp \<in> set (gd_ranks g)" using Some lt by (metis nth_mem)
    ultimately show ?thesis using r(1) by metis
  qed
qed

definition extended :: "guildptr \<Rightarrow> guild \<Rightarrow> nat \<Rightarrow> string \<Rightarrow> u32 \<Rightarrow> bool \<Rightarrow> gd_world \<Rightarrow> gd_world" where
  "extended gp g i name rights full w = (let rp = gw_next w; r = new_rank i name rights full;
      w1 = put_guild gp (g\<lparr> gd_ranks := (gd_ranks g)[i := Some rp] \<rparr>) (put_rank rp r w)
    in w1\<lparr> gw_next := rp + 1, db_ranks := db_insert (gd_id g, rk_id r) r (db_ranks w1) \<rparr>)"

lemma extended_sel:
  "gw_guilds (extended gp g i name rights full w) = (gw_guilds w)(gp \<mapsto> g\<lparr> gd_ranks := (gd_ranks g)[i := Some (gw_next w)] \<rparr>)"
  "gw_ranks (extended gp g i name rights full w) = (gw_ranks w)(gw_next w \<mapsto> new_rank i name rights full)"
  "gw_hi (extended gp g i name rights full w) = gw_hi w" "gw_next (extended gp g i name rights full w) = gw_next w + 1"
  "gw_members (extended gp g i name rights full w) = gw_members w" "gw_infos (extended gp g i name rights full w) = gw_infos w"
  by (simp_all add: extended_def Let_def put_guild_def put_rank_def)

text \<open>The first free slot follows the last rank.\<close>

definition free_slot :: "guild \<Rightarrow> nat \<Rightarrow> bool" where
  "free_slot g i \<longleftrightarrow> i < length (gd_ranks g) \<and> gd_ranks g ! i = None \<and> (\<forall>j < i. gd_ranks g ! j \<noteq> None)"

lemma slots_after:
  assumes ok: "slots_ok R ss" and free: "i < length ss" "ss ! i = None" "\<forall>j < i. ss ! j \<noteq> None"
    and fresh: "R rp = None" and r: "rk_id r = of_nat i" "length (rk_tabs r) = MAX_GUILD_BANK_TABS"
  shows "slots_ok (R(rp \<mapsto> r)) (ss[i := Some rp])"
proof -
  from ok obtain n where n: "length ss = MAX_GUILD_RANKS" "n \<le> MAX_GUILD_RANKS" "\<forall>i < MAX_GUILD_RANKS. if i < n
      then (\<exists>rp r. ss ! i = Some rp \<and> R rp = Some r \<and> rk_id r = of_nat i \<and> length (rk_tabs r) = MAX_GUILD_BANK_TABS)
      else ss ! i = None" by (auto simp: slots_ok_def)
  have "i = n"
  proof (rule linorder_cases [of i n])
    assume "i < n"
    then show ?thesis using n(1,3) free by (metis option.distinct(1))
  next
    assume "n < i"
    then show ?thesis using n(1,3) free by (metis less_irrefl less_trans)
  qed simp
  have "if j < Suc n then (\<exists>rp' r'. ss[i := Some rp] ! j = Some rp' \<and> (R(rp \<mapsto> r)) rp' = Some r' \<and> rk_id r' = of_nat j \<and> length (rk_tabs r') = MAX_GUILD_BANK_TABS)
      else ss[i := Some rp] ! j = None" if j: "j < MAX_GUILD_RANKS" for j
  proof (cases "j = n")
    case True
    then show ?thesis using \<open>i = n\<close> r n(1) free(1) by simp
  next
    case False
    have old: "if j < n then (\<exists>rp r. ss ! j = Some rp \<and> R rp = Some r \<and> rk_id r = of_nat j \<and> length (rk_tabs r) = MAX_GUILD_BANK_TABS)
        else ss ! j = None" using n(3) j by blast
    show ?thesis
    proof (cases "j < n")
      case True
      then obtain rp' r' where "ss ! j = Some rp'" "R rp' = Some r'" "rk_id r' = of_nat j" "length (rk_tabs r') = MAX_GUILD_BANK_TABS"
        using old by auto
      moreover then have "rp' \<noteq> rp" using fresh by auto
      ultimately show ?thesis using True \<open>i = n\<close> by simp
    qed (use old False \<open>i = n\<close> in simp)
  qed
  moreover have "Suc n \<le> MAX_GUILD_RANKS" using \<open>i = n\<close> free(1) n(1) by simp
  ultimately show ?thesis unfolding slots_ok_def using n(1) by (metis length_list_update)
qed

lemma gd_ok_extended:
  assumes ok: "gd_ok w" and g: "gw_guilds w gp = Some g" and i: "free_slot g i"
  shows "gd_ok (extended gp g i name rights full w)"
proof -
  note d = gd_okD [OF ok g]
  note sel = extended_sel [of gp g i name rights full w]
  let ?w = "extended gp g i name rights full w"
  let ?g = "g\<lparr> gd_ranks := (gd_ranks g)[i := Some (gw_next w)] \<rparr>"
  have fresh: "gw_ranks w (gw_next w) = None" using ok by (simp add: gd_ok_def addresses_ok_def)
  have i': "i < length (gd_ranks g)" "gd_ranks g ! i = None" "\<forall>j < i. gd_ranks g ! j \<noteq> None" using i by (simp_all add: free_slot_def)
  have ranks: "ranks_ok ?w ?g" unfolding ranks_ok_def sel
    by (simp, rule slots_after [OF d(2) [unfolded ranks_ok_def] i' fresh]) (simp_all add: new_rank_def)
  have keep: "Some rp \<in> set (gd_ranks ?g)" if "Some rp \<in> set (gd_ranks g)" for rp
  proof -
    from that obtain k where k: "k < length (gd_ranks g)" "gd_ranks g ! k = Some rp" by (metis in_set_conv_nth)
    moreover then have "k \<noteq> i" using i'(2) by auto
    ultimately show ?thesis by (auto simp: in_set_conv_nth intro!: exI [of _ k])
  qed
  have member: "member_ok ?w gp ?g q mq" if "(q, mq) \<in> set (gd_members g)" for q mq
  proof -
    from d(5) [OF that] obtain m r where m: "gw_members w mq = Some m" "Some (mb_rank m) \<in> set (gd_ranks g)" "gw_ranks w (mb_rank m) = Some r"
      by (auto simp: member_ok_def)
    then have "mb_rank m \<noteq> gw_next w" using fresh by auto
    with m keep [OF m(2)] d(5) [OF that] show ?thesis by (auto simp: member_ok_def sel)
  qed
  show ?thesis
  proof (rule gd_ok_step [OF ok g sel(1)])
    show "guild_ok ?w gp ?g" using d(1,3,4) ranks member by (simp add: guild_ok_def tabs_ok_def sel split_beta)
    show "\<And>rp. Some rp \<in> set (gd_ranks ?g) \<Longrightarrow> Some rp \<in> set (gd_ranks g) \<or> gw_next w \<le> rp"
      by (auto simp: set_update_distinct dest!: set_update_subset_insert [THEN subsetD])
    show "\<And>q i. gw_infos ?w q = Some i \<Longrightarrow> gw_infos w q = Some i \<and> gi_guild i \<noteq> Some gp \<or> info_ok ?w q i"
      using info_key [OF ok _ _ g] by (auto simp: sel info_ok_def)
    show "addresses_ok ?w" using ok by (simp add: addresses_ok_def sel gd_ok_def) (use g live_below(1) [OF ok g] in auto)
  qed (auto simp: sel)
qed

lemma create_rank_ok:
  assumes g: "gw_guilds w gp = Some g"
  shows "CreateGuildRank gp name rights full w = Some (w, None) \<and> (\<forall>i < length (gd_ranks g). gd_ranks g ! i \<noteq> None) \<or>
    (\<exists>i rp. free_slot g i \<and> CreateGuildRank gp name rights full w = Some (extended gp g i name rights full w, Some rp))"
proof (cases "find (\<lambda>i. gd_ranks g ! i = None) [0..<length (gd_ranks g)]")
  case None
  moreover from None have "\<forall>i < length (gd_ranks g). gd_ranks g ! i \<noteq> None" by (auto simp: find_None_iff)
  ultimately show ?thesis using g by (simp add: CreateGuildRank_def)
next
  case (Some i)
  then have "free_slot g i" by (auto simp: find_Some_iff free_slot_def)
  with Some g show ?thesis by (auto simp: CreateGuildRank_def extended_def Let_def)
qed

end
