(* ===== verification/HS_GuildRun.thy ===== *)
theory HS_GuildRun
  imports HS_GuildOps
begin

text \<open>
  The operations that end something (the last rank, a mastership, a guild), the creation of a guild,
  and the opcodes: every packet, login, logout and deletion is defined in a world that satisfies the
  invariant, and keeps it.
\<close>

section \<open>The last rank\<close>

definition shortened :: "guildptr \<Rightarrow> guild \<Rightarrow> nat \<Rightarrow> rankptr \<Rightarrow> gd_world \<Rightarrow> gd_world" where
  "shortened gp g i rp w = (let w1 = put_guild gp (g\<lparr> gd_ranks := (gd_ranks g)[i := None] \<rparr>) w
     in w1\<lparr> gw_ranks := (gw_ranks w)(rp := None), db_ranks := db_delete (\<lambda>k. k = (gd_id g, of_nat i)) (db_ranks w) \<rparr>)"

lemma strip_shortened [simp]: "strip (shortened gp g i rp w) = shortened gp (strip_g g) i rp (strip w)"
  by (simp add: shortened_def Let_def)

lemma shortened_sel:
  "gw_guilds (shortened gp g i rp w) = (gw_guilds w)(gp \<mapsto> g\<lparr> gd_ranks := (gd_ranks g)[i := None] \<rparr>)"
  "gw_ranks (shortened gp g i rp w) = (gw_ranks w)(rp := None)" "gw_hi (shortened gp g i rp w) = gw_hi w"
  "gw_next (shortened gp g i rp w) = gw_next w" "gw_members (shortened gp g i rp w) = gw_members w"
  "gw_infos (shortened gp g i rp w) = gw_infos w"
  by (simp_all add: shortened_def Let_def put_guild_def)

text \<open>The last rank of a guild, and nobody has it.\<close>

definition last_rank :: "gd_world \<Rightarrow> guild \<Rightarrow> nat \<Rightarrow> rankptr \<Rightarrow> bool" where
  "last_rank w g i rp \<longleftrightarrow> 5 \<le> i \<and> i < MAX_GUILD_RANKS \<and> gd_ranks g ! i = Some rp \<and> (\<forall>j < MAX_GUILD_RANKS. i < j \<longrightarrow> gd_ranks g ! j = None) \<and>
     (\<forall>e \<in> set (gd_members g). map_option mb_rank (gw_members w (snd e)) \<noteq> Some rp)"

lemma slots_before:
  assumes ok: "slots_ok R ss" and i: "i < MAX_GUILD_RANKS" "ss ! i = Some rp" "\<forall>j < MAX_GUILD_RANKS. i < j \<longrightarrow> ss ! j = None"
  shows "slots_ok (R(rp := None)) (ss[i := None])"
proof -
  from ok obtain n where n: "length ss = MAX_GUILD_RANKS" "n \<le> MAX_GUILD_RANKS" "\<forall>i < MAX_GUILD_RANKS. if i < n
      then (\<exists>rp r. ss ! i = Some rp \<and> R rp = Some r \<and> rk_id r = of_nat i \<and> length (rk_tabs r) = MAX_GUILD_BANK_TABS)
      else ss ! i = None" by (auto simp: slots_ok_def)
  have "i < n" using n(3) i(1,2) by (metis option.distinct(1))
  moreover have "\<not> Suc i < n" using n(2,3) i(3) by (metis lessI less_le_trans option.distinct(1))
  ultimately have ni: "n = Suc i" by simp
  have r0: "\<exists>r. R rp = Some r \<and> rk_id r = of_nat i" using n(3) i(1,2) \<open>i < n\<close> by fastforce
  have "if j < i then (\<exists>rp' r. ss[i := None] ! j = Some rp' \<and> (R(rp := None)) rp' = Some r \<and> rk_id r = of_nat j \<and> length (rk_tabs r) = MAX_GUILD_BANK_TABS)
      else ss[i := None] ! j = None" if j: "j < MAX_GUILD_RANKS" for j
  proof (cases "j < i")
    case True
    then obtain rp' r where r: "ss ! j = Some rp'" "R rp' = Some r" "rk_id r = of_nat j" "length (rk_tabs r) = MAX_GUILD_BANK_TABS"
      using n(3) j ni by fastforce
    have "rp' \<noteq> rp"
    proof
      assume "rp' = rp"
      then have "(of_nat j :: u32) = of_nat i" using r0 r by auto
      then show False using True i(1) u32_small [of i] u32_small [of j] by (simp add: MAX_GUILD_RANKS_def)
    qed
    then show ?thesis using True r by simp
  next
    case False
    then show ?thesis using n(1,3) j ni by (cases "j = i") auto
  qed
  then show ?thesis unfolding slots_ok_def using n(1) i(1) by (metis length_list_update less_imp_le)
qed

lemma gd_ok_shortened:
  assumes ok: "gd_ok w" and g: "gw_guilds w gp = Some g" and l: "last_rank w g i rp"
  shows "gd_ok (shortened gp g i rp w)"
proof -
  note d = gd_okD [OF ok g]
  note sel = shortened_sel [of gp g i rp w]
  let ?w = "shortened gp g i rp w"
  let ?g = "g\<lparr> gd_ranks := (gd_ranks g)[i := None] \<rparr>"
  have l': "i < MAX_GUILD_RANKS" "gd_ranks g ! i = Some rp" "\<forall>j < MAX_GUILD_RANKS. i < j \<longrightarrow> gd_ranks g ! j = None"
    using l by (simp_all add: last_rank_def)
  have len: "length (gd_ranks g) = MAX_GUILD_RANKS" using d(2) by (simp add: ranks_ok_def slots_ok_def)
  have ranks: "ranks_ok ?w ?g" unfolding ranks_ok_def sel by (simp, rule slots_before [OF d(2) [unfolded ranks_ok_def] l'])
  have member: "member_ok ?w gp ?g q mq" if q: "(q, mq) \<in> set (gd_members g)" for q mq
  proof -
    from d(5) [OF q] obtain m where m: "gw_members w mq = Some m" "Some (mb_rank m) \<in> set (gd_ranks g)" by (auto simp: member_ok_def)
    have ne: "mb_rank m \<noteq> rp" using l q m(1) by (force simp: last_rank_def)
    obtain k where k: "k < length (gd_ranks g)" "gd_ranks g ! k = Some (mb_rank m)" using m(2) by (metis in_set_conv_nth)
    then have "k \<noteq> i" using ne l'(2) by auto
    with k have "Some (mb_rank m) \<in> set (gd_ranks ?g)" by (auto simp: in_set_conv_nth intro!: exI [of _ k])
    then show ?thesis using d(5) [OF q] m(1) ne by (auto simp: member_ok_def sel)
  qed
  show ?thesis
  proof (rule gd_ok_step [OF ok g sel(1)])
    show "guild_ok ?w gp ?g" using d(1,3,4) ranks member by (simp add: guild_ok_def tabs_ok_def sel split_beta)
    show "\<And>x. Some x \<in> set (gd_ranks ?g) \<Longrightarrow> Some x \<in> set (gd_ranks g) \<or> gw_next w \<le> x"
      by (auto dest!: set_update_subset_insert [THEN subsetD])
    show "\<And>x. Some x \<notin> set (gd_ranks g) \<Longrightarrow> x < gw_next w \<Longrightarrow> gw_ranks ?w x = gw_ranks w x"
      using l'(1,2) len nth_mem [of i "gd_ranks g"] by (auto simp: sel)
    show "\<And>q i. gw_infos ?w q = Some i \<Longrightarrow> gw_infos w q = Some i \<and> gi_guild i \<noteq> Some gp \<or> info_ok ?w q i"
      using info_key [OF ok _ _ g] by (auto simp: sel info_ok_def)
    show "addresses_ok ?w" using ok by (simp add: addresses_ok_def sel gd_ok_def) (use g live_below(1) [OF ok g] in auto)
  qed (auto simp: sel)
qed

lemma first_rank_split:
  "first_rank g xs = Some rp \<Longrightarrow> \<exists>ys i zs. xs = ys @ i # zs \<and> gd_ranks g ! i = Some rp \<and> (\<forall>y \<in> set ys. gd_ranks g ! y = None)"
proof (induction xs)
  case (Cons x xs)
  show ?case
  proof (cases "gd_ranks g ! x")
    case None
    then have "first_rank g xs = Some rp" using Cons.prems by (simp add: first_rank_def List.map_filter_simps)
    then obtain ys i zs where "xs = ys @ i # zs \<and> gd_ranks g ! i = Some rp \<and> (\<forall>y \<in> set ys. gd_ranks g ! y = None)" using Cons.IH by blast
    then have "x # xs = (x # ys) @ i # zs \<and> gd_ranks g ! i = Some rp \<and> (\<forall>y \<in> set (x # ys). gd_ranks g ! y = None)" using None by simp
    then show ?thesis by blast
  next
    case (Some a)
    then have "a = rp" using Cons.prems by (simp add: first_rank_def List.map_filter_simps)
    then have "x # xs = [] @ x # xs \<and> gd_ranks g ! x = Some rp \<and> (\<forall>y \<in> set []. gd_ranks g ! y = None)" using Some by simp
    then show ?thesis by blast
  qed
qed (simp add: first_rank_def List.map_filter_simps)

lemma lowest_rank:
  assumes "ranks_ok w g" "FindLowestRank g = Some rp"
  obtains i r where "1 \<le> i" "i < MAX_GUILD_RANKS" "gd_ranks g ! i = Some rp" "\<forall>j < MAX_GUILD_RANKS. i < j \<longrightarrow> gd_ranks g ! j = None"
    "gw_ranks w rp = Some r" "rk_id r = of_nat i" "unat (rk_id r) = i"
proof -
  have len: "length (gd_ranks g) = 10" using assms(1) by (simp add: ranks_ok_def slots_ok_def MAX_GUILD_RANKS_def)
  then have "first_rank g (rev [1..<10]) = Some rp" using assms(2) by (simp add: FindLowestRank_def)
  then obtain ys i zs where s: "rev [1..<10] = ys @ i # zs" "gd_ranks g ! i = Some rp" "\<forall>y \<in> set ys. gd_ranks g ! y = None"
    using first_rank_split by blast
  have "i \<in> set (rev [1..<10])" unfolding s(1) by simp
  then have i: "1 \<le> i" "i < 10" by auto
  have "sorted_wrt (>) (rev [1..<(10::nat)])" by (simp add: sorted_wrt_rev)
  then have "\<forall>z \<in> set zs. z < i" unfolding s(1) by (simp add: sorted_wrt_append)
  moreover have "j \<in> set ys \<or> j = i \<or> j \<in> set zs" if "1 \<le> j" "j < 10" for j
  proof -
    have "j \<in> set (rev [1..<10])" using that by simp
    then show ?thesis unfolding s(1) by auto
  qed
  ultimately have "\<forall>j < MAX_GUILD_RANKS. i < j \<longrightarrow> gd_ranks g ! j = None"
    using s(3) i by (metis MAX_GUILD_RANKS_def le_trans less_imp_le less_irrefl less_trans)
  moreover obtain r where "gw_ranks w rp = Some r" "rk_id r = of_nat i" using rank_slots [OF assms(1) _ s(2)] len i by auto
  ultimately show thesis using that i s(2) u32_small [OF i(2)] by (simp add: MAX_GUILD_RANKS_def)
qed

lemma remove_rank_ok:
  assumes ok: "gd_ok w" and g: "gw_guilds w gp = Some g"
  shows "\<exists>w'. RemoveGuildRank gp c w = Some w' \<and> (strip w' = strip w \<or>
    (\<exists>i rp. last_rank w g i rp \<and> strip w' = strip (shortened gp g i rp w)))"
proof (cases "FindLowestRank g")
  case None
  then show ?thesis using g by (simp add: RemoveGuildRank_def)
next
  case (Some rp)
  note d = gd_okD [OF ok g]
  obtain i r where i: "1 \<le> i" "i < MAX_GUILD_RANKS" "gd_ranks g ! i = Some rp" "\<forall>j < MAX_GUILD_RANKS. i < j \<longrightarrow> gd_ranks g ! j = None"
    and r: "gw_ranks w rp = Some r" "rk_id r = of_nat i" "unat (rk_id r) = i" using lowest_rank [OF d(2) Some] .
  have len: "length (gd_ranks g) = MAX_GUILD_RANKS" using d(2) by (simp add: ranks_ok_def slots_ok_def)
  have live: "gw_members w (snd e) \<noteq> None" if "e \<in> set (gd_members g)" for e
    using d(5) [of "fst e" "snd e"] that by (auto simp: member_ok_def)
  show ?thesis
  proof (cases "rk_id r < 5 \<or> (\<exists>e \<in> set (gd_members g). map_option mb_rank (gw_members w (snd e)) = Some rp)")
    case True
    moreover have "(\<exists>e \<in> set (gd_members g). gw_members w (snd e) = None) \<longleftrightarrow> False" using live by blast
    ultimately show ?thesis using g Some r(1) by (simp only: RemoveGuildRank_def) (simp del: bex_simps map_option_eq_Some, blast)
  next
    case False
    then have "last_rank w g i rp" using i r(3) by (auto simp: last_rank_def word_less_nat_alt not_less)
    moreover have "RemoveGuildRank gp c w = Some (shortened gp g i rp w)"
    proof -
      have "(\<exists>e \<in> set (gd_members g). gw_members w (snd e) = None) \<longleftrightarrow> False" using live by blast
      then show ?thesis using False g Some r i(2) len
        by (simp add: RemoveGuildRank_def shortened_def Let_def rank_slot_def put_guild_def del: bex_simps)
    qed
    ultimately show ?thesis by blast
  qed
qed

section \<open>A new guild master\<close>

definition crowned :: "guildptr \<Rightarrow> guild \<Rightarrow> pguid \<Rightarrow> memptr \<Rightarrow> pguid \<Rightarrow> memptr \<Rightarrow> rankptr \<Rightarrow> rankptr \<Rightarrow> guild_rank \<Rightarrow> gd_world \<Rightarrow> gd_world" where
  "crowned gp g p mp c mc tp rp r w = put_guild gp (g\<lparr> gd_leader := p \<rparr>)
     (sql_data (\<lambda>k. k = (gd_id g, c)) (\<lambda>x. x\<lparr> mr_rank := rk_id r \<rparr>) (sql_data (\<lambda>k. k = (gd_id g, p)) (\<lambda>x. x\<lparr> mr_rank := 0 \<rparr>)
       (sql_leader (gd_id g) p (give_rank c mc rp (give_rank p mp tp w)))))"

definition may_crown :: "gd_world \<Rightarrow> guildptr \<Rightarrow> guild \<Rightarrow> pguid \<Rightarrow> memptr \<Rightarrow> pguid \<Rightarrow> memptr \<Rightarrow> rankptr \<Rightarrow> rankptr \<Rightarrow> guild_rank \<Rightarrow> bool" where
  "may_crown w gp g p mp c mc tp rp r \<longleftrightarrow> gw_guilds w gp = Some g \<and> gd_leader g = c \<and> (p, mp) \<in> set (gd_members g) \<and>
     (c, mc) \<in> set (gd_members g) \<and> gd_ranks g ! 0 = Some tp \<and> Some rp \<in> set (gd_ranks g) \<and> gw_ranks w rp = Some r \<and> rk_id r \<noteq> 0"

lemma sql_leader_sel [simp]:
  "gw_guilds (sql_leader k p w) = gw_guilds w" "gw_ranks (sql_leader k p w) = gw_ranks w" "gw_members (sql_leader k p w) = gw_members w"
  "gw_infos (sql_leader k p w) = gw_infos w" "gw_next (sql_leader k p w) = gw_next w" "gw_hi (sql_leader k p w) = gw_hi w"
  by (simp_all add: sql_leader_def sql_guild_def)

lemma sql_data_sel [simp]:
  "gw_guilds (sql_data P f w) = gw_guilds w" "gw_ranks (sql_data P f w) = gw_ranks w" "gw_members (sql_data P f w) = gw_members w"
  "gw_infos (sql_data P f w) = gw_infos w" "gw_next (sql_data P f w) = gw_next w" "gw_hi (sql_data P f w) = gw_hi w"
  by (simp_all add: sql_data_def)

lemma crowned_sel:
  "gw_guilds (crowned gp g p mp c mc tp rp r w) = (gw_guilds w)(gp \<mapsto> g\<lparr> gd_leader := p \<rparr>)"
  "gw_ranks (crowned gp g p mp c mc tp rp r w) = gw_ranks w" "gw_next (crowned gp g p mp c mc tp rp r w) = gw_next w"
  "gw_hi (crowned gp g p mp c mc tp rp r w) = gw_hi w"
  "gw_members (crowned gp g p mp c mc tp rp r w) = gw_members (give_rank c mc rp (give_rank p mp tp w))"
  "gw_infos (crowned gp g p mp c mc tp rp r w) = gw_infos (give_rank c mc rp (give_rank p mp tp w))"
  by (simp_all add: crowned_def put_guild_def del: give_rank_sel(9,10))

lemma top_rank:
  assumes "ranks_ok w g" "gd_ranks g ! 0 = Some tp"
  obtains r where "Some tp \<in> set (gd_ranks g)" "gw_ranks w tp = Some r" "rk_id r = 0"
proof -
  have len: "0 < length (gd_ranks g)" using assms(1) by (simp add: ranks_ok_def slots_ok_def MAX_GUILD_RANKS_def)
  obtain r where "gw_ranks w tp = Some r" "rk_id r = of_nat 0" using rank_slots [OF assms(1) len assms(2)] .
  then show thesis using that nth_mem [OF len] assms(2) by simp
qed

lemma gd_ok_crowned:
  assumes ok: "gd_ok w" and may: "may_crown w gp g p mp c mc tp rp r"
  shows "gd_ok (crowned gp g p mp c mc tp rp r w)"
proof (rule gd_ok_new_ranks [OF ok _ crowned_sel(1-4)])
  show g: "gw_guilds w gp = Some g" using may by (simp add: may_crown_def)
  from may have m: "gd_leader g = c" "(p, mp) \<in> set (gd_members g)" "(c, mc) \<in> set (gd_members g)" "gd_ranks g ! 0 = Some tp"
    "Some rp \<in> set (gd_ranks g)" "gw_ranks w rp = Some r" "rk_id r \<noteq> 0" by (simp_all add: may_crown_def)
  note d = gd_okD [OF ok g]
  obtain r0 where tp: "Some tp \<in> set (gd_ranks g)" "gw_ranks w tp = Some r0" "rk_id r0 = 0" using top_rank [OF d(2) m(4)] .
  let ?w = "crowned gp g p mp c mc tp rp r w"
  have same: "x = y \<longleftrightarrow> q = q'" if "(q, x) \<in> set (gd_members g)" "(q', y) \<in> set (gd_members g)" for q x q' y
    using member_owner [OF ok g g that] that d(1) by (metis map_of_eq_Some_iff map_ok_def option.inject)
  fix q mq assume q: "(q, mq) \<in> set (gd_members g)"
  have eq: "mq = mp \<longleftrightarrow> q = p" "mq = mc \<longleftrightarrow> q = c" "mc = mp \<longleftrightarrow> c = p" using same q m(2,3) by blast+
  show "\<exists>m i r. gw_members ?w mq = Some m \<and> mb_player m = q \<and>
      length (mb_ireset m) = MAX_GUILD_BANK_TABS \<and> length (mb_icount m) = MAX_GUILD_BANK_TABS \<and>
      gw_infos ?w q = Some i \<and> gi_guild i = Some gp \<and> gi_member i = Some mq \<and> gi_rank i = Some (mb_rank m) \<and>
      Some (mb_rank m) \<in> set (gd_ranks g) \<and> gw_ranks w (mb_rank m) = Some r \<and> (rk_id r = 0 \<longrightarrow> q = p)"
    using d(5) [OF q] m tp eq unfolding crowned_sel by (cases "q = c"; cases "q = p") (auto simp: member_ok_def)
qed (use may in \<open>force simp: may_crown_def crowned_sel\<close>)+

lemma crown_ok:
  assumes ok: "gd_ok w" and p: "gw_infos w p = Some ip" "gi_guild ip = Some gp" and c: "gw_infos w c = Some ic" "gi_guild ic = Some gp"
  shows "\<exists>w'. ChangeGuildMaster gp p c w = Some w' \<and> (strip w' = strip w \<and> (\<forall>g. gw_guilds w gp = Some g \<longrightarrow> gd_leader g \<noteq> c \<or> FindHighestRank g = None) \<or>
    (\<exists>g mp mc tp rp r. may_crown w gp g p mp c mc tp rp r \<and> w' = crowned gp g p mp c mc tp rp r w))"
proof -
  obtain g mp m where g: "gw_guilds w gp = Some g" "(p, mp) \<in> set (gd_members g)" "map_of (gd_members g) p = Some mp" "gw_members w mp = Some m"
    using player_pointers [OF ok p] by metis
  obtain mc m' where mc: "(c, mc) \<in> set (gd_members g)" "map_of (gd_members g) c = Some mc" "gw_members w mc = Some m'"
    using player_pointers [OF ok c] g(1) by (metis option.inject)
  show ?thesis
  proof (cases "gd_leader g = c \<and> FindHighestRank g \<noteq> None")
    case False
    then show ?thesis using g by (auto simp: ChangeGuildMaster_def)
  next
    case True
    then obtain rp where rp: "FindHighestRank g = Some rp" by auto
    note d = gd_okD [OF ok g(1)]
    have len: "length (gd_ranks g) = MAX_GUILD_RANKS" using d(2) by (simp add: ranks_ok_def slots_ok_def)
    then have "first_rank g [1..<MAX_GUILD_RANKS] = Some rp" using rp by (simp add: FindHighestRank_def)
    then obtain i r where i: "i < MAX_GUILD_RANKS" "gd_ranks g ! i = Some rp" "Some rp \<in> set (gd_ranks g)" "gw_ranks w rp = Some r" "rk_id r \<noteq> 0"
      by (rule first_rank_in [OF d(2)]) auto
    then obtain tp where tp: "gd_ranks g ! 0 = Some tp" using slots_filled_below [OF d(2), of i 0] by auto
    have may: "may_crown w gp g p mp c mc tp rp r" using g mc i tp True by (simp add: may_crown_def)
    have "assign_rank c mc rp (give_rank p mp tp w) = Some (give_rank c mc rp (give_rank p mp tp w))"
      by (rule assign_rank_give) (use mc(3) c in auto)
    moreover have "assign_rank p mp tp w = Some (give_rank p mp tp w)" by (rule assign_rank_give) (use g p in auto)
    ultimately have "ChangeGuildMaster gp p c w = Some (crowned gp g p mp c mc tp rp r w)"
      using g mc True rp tp i(4) len by (simp add: ChangeGuildMaster_def rank_slot_def MAX_GUILD_RANKS_def crowned_def Let_def)
    with may show ?thesis by blast
  qed
qed

section \<open>Disbanding\<close>

definition cleared :: "guild_info \<Rightarrow> guild_info" where
  "cleared i = i\<lparr> gi_guild := None, gi_rank := None, gi_member := None,
     gi_online := map_option (\<lambda>o'. set_field PLAYER_GUILDRANK 0 (set_field PLAYER_GUILDID 0 o')) (gi_online i) \<rparr>"

definition dropped :: "(pguid \<times> memptr) list \<Rightarrow> gd_world \<Rightarrow> gd_world" where
  "dropped ms w = w\<lparr> gw_members := (\<lambda>mp. if mp \<in> snd ` set ms then None else gw_members w mp),
     gw_infos := (\<lambda>p. if p \<in> fst ` set ms then map_option cleared (gw_infos w p) else gw_infos w p) \<rparr>"

lemma dropped_ranks: "gw_ranks (dropped ms w) = gw_ranks w"
  by (simp add: dropped_def)

lemma clear_info_eq: "gw_infos w p = Some i \<Longrightarrow>
    map_option (\<lambda>w. set_guild_rank p 0 (set_guild_id p 0 w)) (clear_info p w) = Some (put_ginfo p (cleared i) w)"
  by (cases "gi_online i") (simp_all add: clear_info_def set_guild_id_def set_guild_rank_def put_ginfo_def cleared_def)

lemma drop_members_ok:
  assumes "distinct (map fst ms)" "distinct (map snd ms)"
    "\<And>p mp. (p, mp) \<in> set ms \<Longrightarrow> gw_infos w p \<noteq> None \<and> gw_members w mp \<noteq> None"
  shows "foldM drop_member w ms = Some (dropped ms w)"
  using assms
proof (induction ms arbitrary: w)
  case (Cons e ms)
  obtain p mp where e: "e = (p, mp)" by (cases e)
  obtain i m where im: "gw_infos w p = Some i" "gw_members w mp = Some m" using Cons.prems(3) [of p mp] e by auto
  have new: "p \<notin> fst ` set ms" "mp \<notin> snd ` set ms" using Cons.prems(1,2) e by auto
  let ?w1 = "(put_ginfo p (cleared i) w)\<lparr> gw_members := (gw_members w)(mp := None) \<rparr>"
  have "drop_member w e = Some ?w1"
    using im e by (simp add: drop_member_def clear_info_eq) (simp add: put_ginfo_def)
  moreover have "foldM drop_member ?w1 ms = Some (dropped ms ?w1)"
  proof (rule Cons.IH)
    fix q mq assume q: "(q, mq) \<in> set ms"
    then have "q \<noteq> p" "mq \<noteq> mp" using new by force+
    then show "gw_infos ?w1 q \<noteq> None \<and> gw_members ?w1 mq \<noteq> None" using Cons.prems(3) [of q mq] q by (simp add: put_ginfo_def)
  qed (use Cons.prems in auto)
  moreover have "dropped ms ?w1 = dropped (e # ms) w"
    using new im by (auto simp: dropped_def put_ginfo_def e fun_eq_iff)
  ultimately show ?case by simp
qed (simp add: dropped_def)

lemma free_ranks_ok:
  assumes "distinct (filter (\<lambda>x. x \<noteq> None) ss)" "\<And>rp. Some rp \<in> set ss \<Longrightarrow> gw_ranks w rp \<noteq> None"
  shows "foldM free_rank w ss = Some (w\<lparr> gw_ranks := (\<lambda>rp. if Some rp \<in> set ss then None else gw_ranks w rp) \<rparr>)"
  using assms
proof (induction ss arbitrary: w)
  case (Cons x ss)
  show ?case
  proof (cases x)
    case None
    then show ?thesis using Cons by (simp add: free_rank_def)
  next
    case (Some rp)
    let ?w1 = "w\<lparr> gw_ranks := (gw_ranks w)(rp := None) \<rparr>"
    have "Some rp \<notin> set ss" using Cons.prems(1) Some by auto
    then have "foldM free_rank ?w1 ss = Some (?w1\<lparr> gw_ranks := (\<lambda>rp. if Some rp \<in> set ss then None else gw_ranks ?w1 rp) \<rparr>)"
      using Cons.prems Some by (intro Cons.IH) auto
    moreover have "free_rank w x = Some ?w1" using Cons.prems(2) [of rp] Some by (auto simp: free_rank_def)
    ultimately show ?thesis using Some by (auto simp: fun_eq_iff intro!: arg_cong [where f = "\<lambda>R. gw_ranks_update (\<lambda>_. R) w"])
  qed
qed simp

lemma rank_slots_distinct:
  assumes "ranks_ok w g"
  shows "distinct (filter (\<lambda>x. x \<noteq> None) (gd_ranks g))"
proof -
  have len: "length (gd_ranks g) = 10" using assms by (simp add: ranks_ok_def slots_ok_def MAX_GUILD_RANKS_def)
  have inj: "i = j" if ij: "i < length (gd_ranks g)" "j < length (gd_ranks g)" "gd_ranks g ! i = Some rp" "gd_ranks g ! j = Some rp" for i j rp
  proof -
    obtain r where "gw_ranks w rp = Some r" "rk_id r = of_nat i" using rank_slots [OF assms ij(1,3)] .
    moreover obtain r' where "gw_ranks w rp = Some r'" "rk_id r' = of_nat j" using rank_slots [OF assms ij(2,4)] .
    ultimately have "unat (of_nat i :: u32) = unat (of_nat j :: u32)" by simp
    with ij(1,2) len show ?thesis by (simp add: u32_small)
  qed
  have "distinct (filter (\<lambda>x. x \<noteq> None) xs)"
    if "\<And>i j rp. i < length xs \<Longrightarrow> j < length xs \<Longrightarrow> xs ! i = Some rp \<Longrightarrow> xs ! j = Some rp \<Longrightarrow> i = j" for xs :: "rankptr option list"
    using that
  proof (induction xs)
    case (Cons x xs)
    have "distinct (filter (\<lambda>x. x \<noteq> None) xs)"
      by (rule Cons.IH) (use Cons.prems [of "Suc i" "Suc j" for i j] in auto)
    moreover have "x \<notin> set xs" if "x \<noteq> None"
    proof
      assume "x \<in> set xs"
      then obtain j where "j < length xs" "xs ! j = x" by (metis in_set_conv_nth)
      with Cons.prems [of 0 "Suc j"] that show False by auto
    qed
    ultimately show ?case by simp
  qed simp
  with inj show ?thesis by blast
qed

definition disbanded :: "guildptr \<Rightarrow> guild \<Rightarrow> gd_world \<Rightarrow> gd_world" where
  "disbanded gp g w = (let w1 = dropped (gd_members g) w in
     w1\<lparr> gw_ranks := (\<lambda>rp. if Some rp \<in> set (gd_ranks g) then None else gw_ranks w rp),
       gw_registry := map_erase (gd_id g) (gw_registry w), db_guilds := db_delete (\<lambda>k. k = gd_id g) (db_guilds w),
       db_ranks := db_delete (\<lambda>k. fst k = gd_id g) (db_ranks w), db_data := db_delete (\<lambda>k. fst k = gd_id g) (db_data w),
       gw_guilds := (gw_guilds w)(gp := None) \<rparr>)"

lemma disbanded_sel:
  "gw_guilds (disbanded gp g w) = (gw_guilds w)(gp := None)"
  "gw_ranks (disbanded gp g w) = (\<lambda>rp. if Some rp \<in> set (gd_ranks g) then None else gw_ranks w rp)"
  "gw_members (disbanded gp g w) = (\<lambda>mp. if mp \<in> snd ` set (gd_members g) then None else gw_members w mp)"
  "gw_infos (disbanded gp g w) = (\<lambda>p. if p \<in> fst ` set (gd_members g) then map_option cleared (gw_infos w p) else gw_infos w p)"
  "gw_next (disbanded gp g w) = gw_next w" "gw_hi (disbanded gp g w) = gw_hi w"
  by (simp_all add: disbanded_def dropped_def Let_def)

lemma gd_disband_ok:
  assumes ok: "gd_ok w" and g: "gw_guilds w gp = Some g"
  shows "Disband gp w = Some (disbanded gp g w)"
proof -
  note d = gd_okD [OF ok g]
  have ex: "gw_infos w p \<noteq> None \<and> gw_members w mp \<noteq> None" if "(p, mp) \<in> set (gd_members g)" for p mp
    using d(5) [OF that] by (auto simp: member_ok_def)
  have "inj_on snd (set (gd_members g))" using member_owner [OF ok g g] by (auto simp: inj_on_def)
  moreover have fst: "distinct (map fst (gd_members g))" using d(1) by (simp add: map_ok_def)
  moreover then have "distinct (gd_members g)" by (simp add: distinct_map)
  ultimately have "distinct (map snd (gd_members g))" by (simp add: distinct_map)
  from drop_members_ok [OF fst this ex]
  have w1: "foldM drop_member w (gd_members g) = Some (dropped (gd_members g) w)" by simp
  have "gw_ranks (dropped (gd_members g) w) rp \<noteq> None" if rp: "Some rp \<in> set (gd_ranks g)" for rp
    by (rule rank_in_slots [OF d(2) rp]) (simp add: dropped_ranks)
  from free_ranks_ok [OF rank_slots_distinct [OF d(2)] this, unfolded dropped_ranks] show ?thesis using g w1
    by (simp add: Disband_def disbanded_def dropped_def Let_def)
qed

lemma gd_ok_disbanded:
  assumes ok: "gd_ok w" and g: "gw_guilds w gp = Some g"
  shows "gd_ok (disbanded gp g w)"
  unfolding gd_ok_def
proof (intro conjI allI impI)
  note sel = disbanded_sel [of gp g w]
  let ?w = "disbanded gp g w"
  have member: "\<exists>i. gw_infos w q = Some i \<and> gi_guild i = Some gp" if q: "q \<in> fst ` set (gd_members g)" for q
  proof -
    from q obtain mq where "(q, mq) \<in> set (gd_members g)" by auto
    from gd_okD(5) [OF ok g this] show ?thesis by (auto simp: member_ok_def)
  qed
  fix gp1 g1 assume g1: "gw_guilds ?w gp1 = Some g1"
  then have "gp1 \<noteq> gp" "gw_guilds w gp1 = Some g1" by (auto simp: sel split: if_splits)
  then show "guild_ok ?w gp1 g1" by (intro other_guild_ok [OF ok g]) (use member in \<open>force simp: sel\<close>)+
next
  note sel = disbanded_sel [of gp g w]
  let ?w = "disbanded gp g w"
  fix q i assume i: "gw_infos ?w q = Some i"
  show "info_ok ?w q i"
  proof (cases "q \<in> fst ` set (gd_members g)")
    case True
    then show ?thesis using i by (auto simp: sel info_ok_def cleared_def)
  next
    case False
    then have old: "gw_infos w q = Some i" using i by (simp add: sel)
    then have "info_ok w q i" using ok by (simp add: gd_ok_def)
    moreover have "gi_guild i \<noteq> Some gp" using info_key [OF ok old _ g] False by blast
    ultimately show ?thesis by (auto simp: info_ok_def sel split: option.splits)
  qed
next
  show "guilds_apart (disbanded gp g w)" using ok by (simp add: gd_ok_def guilds_apart_def disbanded_sel apart_def)
  show "addresses_ok (disbanded gp g w)" using ok by (auto simp: gd_ok_def addresses_ok_def disbanded_sel)
qed

end
