(* ===== verification/HS_GuildRules.thy ===== *)
theory HS_GuildRules
  imports HS_GuildRun
begin

text \<open>
  What the guild code promises, without pointers and packets: the roster says which guild a player is
  in with which rank, and who the master of a guild is; the rules say how one player may change it.
  Each operation is then defined and keeps to the rules.
\<close>

section \<open>The roster and its rules\<close>

record roster =
  ro_role :: "pguid \<Rightarrow> (guildptr \<times> u32) option"
  ro_master :: "guildptr \<Rightarrow> pguid option"

text \<open>
  What one event may change, at the request of \<open>c\<close>: a guild is founded, with members who were in no
  guild; \<open>c\<close> joins a guild or leaves it; another member is expelled or moves to another rank; there is
  a new master; a guild ends. Rank 0 is the master's; a lower number is a higher rank.
\<close>

definition with_members :: "guildptr \<Rightarrow> (pguid \<Rightarrow> u32 option) \<Rightarrow> (pguid \<Rightarrow> (guildptr \<times> u32) option) \<Rightarrow> pguid \<Rightarrow> (guildptr \<times> u32) option" where
  "with_members gp ms role p = (case ms p of None \<Rightarrow> role p | Some n \<Rightarrow> Some (gp, n))"

inductive guild_rule :: "pguid \<Rightarrow> roster \<Rightarrow> roster \<Rightarrow> bool" for c where
  rule_found: "ro_master s gp = None \<Longrightarrow> \<forall>p n. ms p = Some n \<longrightarrow> ro_role s p = None \<and> (n = 0 \<longrightarrow> p = c) \<Longrightarrow>
    guild_rule c s (s\<lparr> ro_role := with_members gp ms (ro_role s), ro_master := (ro_master s)(gp \<mapsto> c) \<rparr>)"
| rule_join: "ro_role s c = None \<Longrightarrow> ro_master s gp = Some m \<Longrightarrow> n = 0 \<longrightarrow> c = m \<Longrightarrow>
    guild_rule c s (s\<lparr> ro_role := (ro_role s)(c \<mapsto> (gp, n)) \<rparr>)"
| rule_leave: "ro_role s c = Some (gp, n) \<Longrightarrow> n \<noteq> 0 \<Longrightarrow> guild_rule c s (s\<lparr> ro_role := (ro_role s)(c := None) \<rparr>)"
| rule_expel: "ro_role s p = Some (gp, n) \<Longrightarrow> ro_role s c = Some (gp, k) \<Longrightarrow> n \<noteq> 0 \<Longrightarrow> k = 0 \<or> k < n \<Longrightarrow>
    guild_rule c s (s\<lparr> ro_role := (ro_role s)(p := None) \<rparr>)"
| rule_rank: "ro_role s p = Some (gp, n) \<Longrightarrow> ro_role s c = Some (gp, k) \<Longrightarrow> p \<noteq> c \<Longrightarrow> n' \<noteq> 0 \<Longrightarrow> k = 0 \<or> k < n \<and> k < n' \<Longrightarrow>
    guild_rule c s (s\<lparr> ro_role := (ro_role s)(p \<mapsto> (gp, n')) \<rparr>)"
| rule_crown: "ro_master s gp = Some c \<Longrightarrow> ro_role s p = Some (gp, n) \<Longrightarrow> ro_role s c = Some (gp, k) \<Longrightarrow> n' \<noteq> 0 \<Longrightarrow>
    guild_rule c s (s\<lparr> ro_role := (ro_role s)(p \<mapsto> (gp, 0), c \<mapsto> (gp, n')), ro_master := (ro_master s)(gp \<mapsto> p) \<rparr>)"
| rule_disband: "ro_master s gp = Some c \<Longrightarrow>
    guild_rule c s (s\<lparr> ro_role := (\<lambda>p. if map_option fst (ro_role s p) = Some gp then None else ro_role s p),
      ro_master := (ro_master s)(gp := None) \<rparr>)"

definition gd_role :: "gd_world \<Rightarrow> pguid \<Rightarrow> (guildptr \<times> u32) option" where
  "gd_role w p = do { i \<leftarrow> gw_infos w p; gp \<leftarrow> gi_guild i; r \<leftarrow> rank_of w p; Some (gp, rk_id r) }"

definition gd_roster :: "gd_world \<Rightarrow> roster" where
  "gd_roster w = \<lparr> ro_role = gd_role w, ro_master = (\<lambda>gp. map_option gd_leader (gw_guilds w gp)) \<rparr>"

section \<open>What the operations do to the roster\<close>

lemma roster_alike:
  assumes "alike w w'"
  shows "gd_roster w' = gd_roster w"
proof -
  have m: "map_option gd_leader (gw_guilds w' gp) = map_option gd_leader (gw_guilds w gp)" for gp
  proof -
    have "map_option g_shape (gw_guilds w' gp) = map_option g_shape (gw_guilds w gp)" using assms by (simp add: alike_def)
    then show ?thesis by (cases "gw_guilds w gp"; cases "gw_guilds w' gp") (auto simp: g_shape_def)
  qed
  have "gd_role w' p = gd_role w p" for p
  proof (cases "gw_infos w p")
    case None
    then have "gw_infos w' p = None" using assms unfolding alike_def by (metis option.map_disc_iff)
    with None show ?thesis by (simp add: gd_role_def)
  next
    case (Some i)
    obtain i' where i': "gw_infos w' p = Some i'" "i_shape i' = i_shape i" using alike_infos [OF assms Some] .
    show ?thesis
    proof (cases "gi_rank i")
      case None
      then show ?thesis using Some i' by (auto simp: gd_role_def rank_of_def i_shape_def)
    next
      case rp: (Some rp)
      show ?thesis
      proof (cases "gw_ranks w rp")
        case None
        then have "gw_ranks w' rp = None" using assms unfolding alike_def by (metis option.map_disc_iff)
        then show ?thesis using Some i' rp None by (auto simp: gd_role_def rank_of_def i_shape_def)
      next
        case r: (Some r)
        obtain r' where "gw_ranks w' rp = Some r'" "r_shape r' = r_shape r" using alike_ranks [OF assms r] .
        then show ?thesis using Some i' rp r by (auto simp: gd_role_def rank_of_def i_shape_def r_shape_def)
      qed
    qed
  qed
  then show ?thesis using m by (simp add: gd_roster_def fun_eq_iff)
qed

lemma roster_strip: "strip w' = strip w \<Longrightarrow> gd_roster w' = gd_roster w"
  by (rule roster_alike) (rule alike_strip)

lemma role_same:
  assumes "gw_infos w' p = gw_infos w p" "\<And>i rp. gw_infos w p = Some i \<Longrightarrow> gi_guild i \<noteq> None \<Longrightarrow> gi_rank i = Some rp \<Longrightarrow> gw_ranks w' rp = gw_ranks w rp"
  shows "gd_role w' p = gd_role w p"
proof (cases "gw_infos w p")
  case (Some i)
  then show ?thesis using assms by (cases "gi_guild i"; cases "gi_rank i") (auto simp: gd_role_def rank_of_def)
qed (use assms in \<open>simp add: gd_role_def\<close>)

lemma role_of:
  assumes "gd_ok w" "gw_infos w p = Some i" "gi_guild i = Some gp"
  obtains g mp rp r where "gw_guilds w gp = Some g" "(p, mp) \<in> set (gd_members g)" "gi_rank i = Some rp" "Some rp \<in> set (gd_ranks g)"
    "gw_ranks w rp = Some r" "rank_of w p = Some r" "gd_role w p = Some (gp, rk_id r)"
proof -
  obtain g mp m r where *: "gw_guilds w gp = Some g" "(p, mp) \<in> set (gd_members g)" "map_of (gd_members g) p = Some mp"
    "gi_member i = Some mp" "gw_members w mp = Some m" "mb_player m = p" "gi_rank i = Some (mb_rank m)"
    "Some (mb_rank m) \<in> set (gd_ranks g)" "gw_ranks w (mb_rank m) = Some r" "rank_of w p = Some r"
    "rk_id r = 0 \<longrightarrow> p = gd_leader g"
    using player_pointers [OF assms] .
  then show thesis using assms(2,3) by (intro that) (simp_all add: gd_role_def)
qed

lemma role_ex: "gd_ok w \<Longrightarrow> gw_infos w p = Some i \<Longrightarrow> gi_guild i = Some gp \<Longrightarrow> \<exists>n. gd_role w p = Some (gp, n)"
  by (erule (2) role_of) blast

lemma role_None: "gw_infos w p = Some i \<Longrightarrow> gi_guild i = None \<Longrightarrow> gd_role w p = None"
  by (simp add: gd_role_def)

lemma role_ranked: "gd_role (ranked n p mp rp rid w) q = gd_role (give_rank p mp rp w) q"
  using roster_alike [of "give_rank p mp rp w" "ranked n p mp rp rid w"]
  by (simp add: ranked_def gd_roster_def fun_eq_iff)

lemma role_give:
  assumes "gw_infos w p = Some i" "gi_guild i = Some gp" "gw_ranks w rp = Some r"
  shows "gd_role (give_rank p mp rp w) = (gd_role w)(p \<mapsto> (gp, rk_id r))"
proof
  fix q show "gd_role (give_rank p mp rp w) q = ((gd_role w)(p \<mapsto> (gp, rk_id r))) q"
    using assms by (cases "q = p") (auto simp: gd_role_def rank_of_def)
qed

lemma roster_rank:
  assumes ok: "gd_ok w" and moved: "rank_moved w gp c p w'"
  shows "guild_rule c (gd_roster w) (gd_roster w')"
proof -
  from moved obtain g mp rp r rc r0 ic where m: "gw_guilds w gp = Some g" "(p, mp) \<in> set (gd_members g)" "c \<noteq> p"
    "gw_infos w c = Some ic" "gi_guild ic = Some gp" "rank_of w c = Some rc" "rank_of w p = Some r0" "gw_ranks w rp = Some r" "rk_id r \<noteq> 0"
    "rk_id rc = 0 \<or> rk_id rc < rk_id r0 \<and> rk_id rc < rk_id r" "strip w' = strip (ranked (gd_id g) p mp rp (rk_id r) w)"
    unfolding rank_moved_def by blast
  have "member_ok w gp g p mp" using gd_okD(5) [OF ok m(1,2)] .
  then obtain ip where ip: "gw_infos w p = Some ip" "gi_guild ip = Some gp" by (auto simp: member_ok_def)
  have "gd_roster w' = gd_roster (ranked (gd_id g) p mp rp (rk_id r) w)" by (rule roster_strip [OF m(11)])
  also have "\<dots> = gd_roster w\<lparr> ro_role := (ro_role (gd_roster w))(p \<mapsto> (gp, rk_id r)) \<rparr>"
    using role_ranked [of "gd_id g" p mp rp "rk_id r" w] role_give [OF ip m(8)]
    by (simp add: gd_roster_def fun_eq_iff) (simp add: ranked_def)
  also have "guild_rule c (gd_roster w) \<dots>"
    by (rule rule_rank [where n = "rk_id r0" and k = "rk_id rc"]) (use m ip in \<open>auto simp: gd_roster_def gd_role_def\<close>)
  finally show ?thesis .
qed

lemma roster_enrolled:
  assumes join: "may_join w gp g p i rp r"
  shows "gd_roster (enrolled gp g p i rp r w) = gd_roster w\<lparr> ro_role := (ro_role (gd_roster w))(p \<mapsto> (gp, rk_id r)) \<rparr>"
proof -
  from join have j: "gw_guilds w gp = Some g" "gw_ranks w rp = Some r" by (auto simp: may_join_def)
  let ?w = "enrolled gp g p i rp r w"
  obtain o' where infos: "gw_infos ?w = (gw_infos w)(p \<mapsto> i\<lparr> gi_guild := Some gp, gi_rank := Some rp, gi_member := Some (gw_next w), gi_online := o' \<rparr>)"
    using enrolled_sel(6) by metis
  have "gd_role ?w q = ((gd_role w)(p \<mapsto> (gp, rk_id r))) q" for q
  proof (cases "q = p")
    case True
    then show ?thesis using j(2) infos by (simp add: gd_role_def rank_of_def enrolled_sel)
  next
    case False
    then show ?thesis using role_same [of ?w q w] infos by (simp add: enrolled_sel)
  qed
  moreover have "map_option gd_leader (gw_guilds ?w x) = map_option gd_leader (gw_guilds w x)" for x
    using j(1) by (simp add: enrolled_sel)
  ultimately show ?thesis by (simp add: gd_roster_def fun_eq_iff)
qed

lemma roster_dismissed:
  assumes "gw_guilds w gp = Some g"
  shows "gd_roster (dismissed gp g p mp i w) = gd_roster w\<lparr> ro_role := (ro_role (gd_roster w))(p := None) \<rparr>"
proof -
  let ?w = "dismissed gp g p mp i w"
  obtain o' where infos: "gw_infos ?w = (gw_infos w)(p \<mapsto> i\<lparr> gi_guild := None, gi_rank := None, gi_member := None, gi_online := o' \<rparr>)"
    using dismissed_sel(6) by metis
  have "gd_role ?w q = ((gd_role w)(p := None)) q" for q
  proof (cases "q = p")
    case True
    then show ?thesis using infos by (simp add: gd_role_def)
  next
    case False
    then show ?thesis using role_same [of ?w q w] infos by (simp add: dismissed_sel)
  qed
  moreover have "map_option gd_leader (gw_guilds ?w x) = map_option gd_leader (gw_guilds w x)" for x
    using assms by (simp add: dismissed_sel)
  ultimately show ?thesis by (simp add: gd_roster_def fun_eq_iff)
qed

text \<open>Ranks that come and go are nobody's.\<close>

lemma role_rank_live:
  assumes "gd_ok w" "gw_infos w p = Some i" "gi_guild i \<noteq> None" "gi_rank i = Some rp"
  obtains gp g r where "gw_guilds w gp = Some g" "gi_guild i = Some gp" "Some rp \<in> set (gd_ranks g)" "gw_ranks w rp = Some r"
    "p \<in> fst ` set (gd_members g)"
proof -
  obtain gp where gp: "gi_guild i = Some gp" using assms(3) by auto
  obtain g mp rp' r where "gw_guilds w gp = Some g" "(p, mp) \<in> set (gd_members g)" "gi_rank i = Some rp'" "Some rp' \<in> set (gd_ranks g)"
    "gw_ranks w rp' = Some r" using role_of [OF assms(1,2) gp] .
  with assms(4) gp that show thesis by force
qed

lemma roster_extended:
  assumes ok: "gd_ok w" and g: "gw_guilds w gp = Some g"
  shows "gd_roster (extended gp g i name rights full w) = gd_roster w"
proof -
  let ?w = "extended gp g i name rights full w"
  have "gd_role ?w p = gd_role w p" for p
  proof (rule role_same)
    fix j rp assume "gw_infos w p = Some j" "gi_guild j \<noteq> None" "gi_rank j = Some rp"
    then obtain r where "gw_ranks w rp = Some r" using role_rank_live [OF ok] by metis
    then show "gw_ranks ?w rp = gw_ranks w rp" using live_below(2) [OF ok] by (auto simp: extended_sel)
  qed (simp add: extended_sel)
  then show ?thesis using g by (simp add: gd_roster_def fun_eq_iff extended_sel)
qed

lemma roster_shortened:
  assumes ok: "gd_ok w" and g: "gw_guilds w gp = Some g" and last: "last_rank w g i rp"
  shows "gd_roster (shortened gp g i rp w) = gd_roster w"
proof -
  let ?w = "shortened gp g i rp w"
  have len: "length (gd_ranks g) = MAX_GUILD_RANKS" using gd_okD(2) [OF ok g] by (simp add: ranks_ok_def slots_ok_def)
  then have rp: "Some rp \<in> set (gd_ranks g)" using last unfolding last_rank_def by (metis nth_mem)
  have "gd_role ?w p = gd_role w p" for p
  proof (rule role_same)
    fix j rp' assume j: "gw_infos w p = Some j" "gi_guild j \<noteq> None" "gi_rank j = Some rp'"
    have "rp' \<noteq> rp"
    proof
      assume eq: "rp' = rp"
      obtain gp' where gp': "gi_guild j = Some gp'" using j(2) by auto
      obtain g' mp m r where g': "gw_guilds w gp' = Some g'" "(p, mp) \<in> set (gd_members g')" "map_of (gd_members g') p = Some mp"
        "gi_member j = Some mp" "gw_members w mp = Some m" "mb_player m = p" "gi_rank j = Some (mb_rank m)"
        "Some (mb_rank m) \<in> set (gd_ranks g')" "gw_ranks w (mb_rank m) = Some r" "rank_of w p = Some r"
        "rk_id r = 0 \<longrightarrow> p = gd_leader g'" using player_pointers [OF ok j(1) gp'] .
      have "mb_rank m = rp" using g'(7) j(3) eq by simp
      moreover then have "gp' = gp" using rank_owner [OF ok g'(1) g _ rp] g'(8) by simp
      ultimately show False using last g' g unfolding last_rank_def by force
    qed
    then show "gw_ranks ?w rp' = gw_ranks w rp'" by (simp add: shortened_sel)
  qed (simp add: shortened_sel)
  then show ?thesis using g by (simp add: gd_roster_def fun_eq_iff shortened_sel)
qed

lemma roster_crowned_eq:
  assumes ok: "gd_ok w" and may: "may_crown w gp g p mp c mc tp rp r"
  shows "gd_roster (crowned gp g p mp c mc tp rp r w) = gd_roster w\<lparr> ro_role := (ro_role (gd_roster w))(p \<mapsto> (gp, 0), c \<mapsto> (gp, rk_id r)),
    ro_master := (ro_master (gd_roster w))(gp \<mapsto> p) \<rparr>"
    (is "gd_roster ?w = _")
proof -
  from may have m: "gw_guilds w gp = Some g" "(p, mp) \<in> set (gd_members g)" "(c, mc) \<in> set (gd_members g)"
    "gd_ranks g ! 0 = Some tp" "gw_ranks w rp = Some r" by (simp_all add: may_crown_def)
  obtain r0 where r0: "gw_ranks w tp = Some r0" "rk_id r0 = 0" using top_rank [OF gd_okD(2) [OF ok m(1)] m(4)] .
  have info: "\<exists>i. gw_infos w q = Some i \<and> gi_guild i = Some gp" if "(q, mq) \<in> set (gd_members g)" for q mq
    using gd_okD(5) [OF ok m(1) that] by (auto simp: member_ok_def)
  obtain ip where ip: "gw_infos w p = Some ip" "gi_guild ip = Some gp" using info [OF m(2)] by blast
  obtain ic where ic: "gw_infos w c = Some ic" "gi_guild ic = Some gp" using info [OF m(3)] by blast
  let ?v = "give_rank c mc rp (give_rank p mp tp w)"
  obtain jc where jc: "gw_infos (give_rank p mp tp w) c = Some jc" "gi_guild jc = Some gp" using ip ic by (cases "c = p") auto
  have "gd_role ?w q = gd_role ?v q" for q by (rule role_same) (simp_all add: crowned_sel)
  moreover have "gd_role ?v = (gd_role w)(p \<mapsto> (gp, 0), c \<mapsto> (gp, rk_id r))"
    using role_give [OF jc, of rp r mc] role_give [OF ip r0(1), of mp] m(5) r0(2) by simp
  ultimately show ?thesis by (simp add: gd_roster_def fun_eq_iff crowned_sel)
qed

lemma roster_crowned:
  assumes ok: "gd_ok w" and may: "may_crown w gp g p mp c mc tp rp r"
  shows "guild_rule c (gd_roster w) (gd_roster (crowned gp g p mp c mc tp rp r w))"
proof -
  from may have m: "gw_guilds w gp = Some g" "gd_leader g = c" "(p, mp) \<in> set (gd_members g)" "(c, mc) \<in> set (gd_members g)"
    "rk_id r \<noteq> 0" by (simp_all add: may_crown_def)
  have role: "\<exists>n. gd_role w q = Some (gp, n)" if "(q, mq) \<in> set (gd_members g)" for q mq
    using gd_okD(5) [OF ok m(1) that] role_ex [OF ok] by (auto simp: member_ok_def)
  obtain np nc where np: "gd_role w p = Some (gp, np)" and nc: "gd_role w c = Some (gp, nc)"
    using role [OF m(3)] role [OF m(4)] by blast
  show ?thesis unfolding roster_crowned_eq [OF ok may]
    by (rule rule_crown [where n = np and k = nc]) (use m np nc in \<open>simp_all add: gd_roster_def\<close>)
qed

lemma roster_disbanded:
  assumes ok: "gd_ok w" and g: "gw_guilds w gp = Some g" "gd_leader g = c"
  shows "guild_rule c (gd_roster w) (gd_roster (disbanded gp g w))"
proof -
  let ?w = "disbanded gp g w"
  have "gd_role ?w p = (if map_option fst (gd_role w p) = Some gp then None else gd_role w p)" for p
  proof (cases "p \<in> fst ` set (gd_members g)")
    case True
    then obtain mp where mp: "(p, mp) \<in> set (gd_members g)" by auto
    from gd_okD(5) [OF ok g(1) mp] obtain i where i: "gw_infos w p = Some i" "gi_guild i = Some gp" by (auto simp: member_ok_def)
    obtain n where "gd_role w p = Some (gp, n)" using role_ex [OF ok i] by blast
    moreover have "gd_role ?w p = None" using True i by (simp add: gd_role_def disbanded_sel cleared_def)
    ultimately show ?thesis by simp
  next
    case False
    have "gd_role ?w p = gd_role w p"
    proof (rule role_same)
      fix j rp assume j: "gw_infos w p = Some j" "gi_guild j \<noteq> None" "gi_rank j = Some rp"
      obtain gp' g' r where "gw_guilds w gp' = Some g'" "gi_guild j = Some gp'" "Some rp \<in> set (gd_ranks g')" "p \<in> fst ` set (gd_members g')"
        using role_rank_live [OF ok j] .
      then have "Some rp \<notin> set (gd_ranks g)" using rank_owner [OF ok g(1), of gp' g' rp] g(1) False by auto
      then show "gw_ranks ?w rp = gw_ranks w rp" by (simp add: disbanded_sel)
    qed (use False in \<open>simp add: disbanded_sel\<close>)
    moreover have "map_option fst (gd_role w p) \<noteq> Some gp"
    proof
      assume "map_option fst (gd_role w p) = Some gp"
      then obtain i where "gw_infos w p = Some i" "gi_guild i = Some gp" by (auto simp: gd_role_def split: bind_splits)
      from info_key [OF ok this g(1)] False show False by simp
    qed
    ultimately show ?thesis by simp
  qed
  then have "gd_roster ?w = gd_roster w\<lparr> ro_role := (\<lambda>p. if map_option fst (ro_role (gd_roster w) p) = Some gp then None else ro_role (gd_roster w) p),
      ro_master := (ro_master (gd_roster w))(gp := None) \<rparr>"
    by (simp add: gd_roster_def fun_eq_iff disbanded_sel)
  also have "guild_rule c (gd_roster w) \<dots>" by (rule rule_disband) (use g in \<open>simp add: gd_roster_def\<close>)
  finally show ?thesis .
qed

section \<open>Lawful operations\<close>

definition quiet :: "gd_world \<Rightarrow> gd_world \<Rightarrow> bool" where
  "quiet w w' \<longleftrightarrow> gd_ok w' \<and> gd_roster w' = gd_roster w"

definition lawful :: "pguid \<Rightarrow> gd_world \<Rightarrow> gd_world \<Rightarrow> bool" where
  "lawful c w w' \<longleftrightarrow> gd_ok w' \<and> (gd_roster w' = gd_roster w \<or> guild_rule c (gd_roster w) (gd_roster w'))"

lemma quiet_refl: "gd_ok w \<Longrightarrow> quiet w w"
  by (simp add: quiet_def)

lemma quiet_same: "gd_ok w \<Longrightarrow> strip w' = strip w \<Longrightarrow> quiet w w'"
  using gd_ok_same [of w' w] roster_strip [of w' w] by (simp add: quiet_def)

lemma quiet_alike: "gd_ok w' \<Longrightarrow> alike w w' \<Longrightarrow> quiet w w'"
  by (simp add: quiet_def roster_alike)

lemma quiet_trans: "quiet w w1 \<Longrightarrow> quiet w1 w2 \<Longrightarrow> quiet w w2"
  by (simp add: quiet_def)

lemma quiet_lawful: "quiet w w' \<Longrightarrow> lawful c w w'"
  by (simp add: quiet_def lawful_def)

lemma quiet_then_lawful: "quiet w w1 \<Longrightarrow> lawful c w1 w2 \<Longrightarrow> lawful c w w2"
  by (simp add: quiet_def lawful_def)

lemma lawful_then_quiet: "lawful c w w1 \<Longrightarrow> quiet w1 w2 \<Longrightarrow> lawful c w w2"
  by (simp add: quiet_def lawful_def)

lemma lawful_same: "gd_ok w \<Longrightarrow> strip w' = strip w \<Longrightarrow> lawful c w w'"
  by (rule quiet_lawful [OF quiet_same])

lemma lawful_alike: "gd_ok w' \<Longrightarrow> alike w w' \<Longrightarrow> lawful c w w'"
  by (rule quiet_lawful [OF quiet_alike])

lemma lawful_step: "gd_ok w' \<Longrightarrow> guild_rule c (gd_roster w) (gd_roster w') \<Longrightarrow> lawful c w w'"
  by (simp add: lawful_def)

lemma lawful_strip: "lawful c w w1 \<Longrightarrow> strip w2 = strip w1 \<Longrightarrow> lawful c w w2"
  using lawful_then_quiet [of c w w1 w2] quiet_same [of w1 w2] by (simp add: lawful_def)

lemma lawful_refl: "gd_ok w \<Longrightarrow> lawful c w w"
  by (simp add: lawful_def)

end
