(* ===== verification/HS_GuildPlay.thy ===== *)
theory HS_GuildPlay
  imports HS_GuildRules
begin

text \<open>
  The opcodes and the other events: each is defined in every world that satisfies the invariant,
  and keeps to the rules of the roster. The properties of the guilds follow.
\<close>

section \<open>Operations that keep to the rules\<close>

definition obeys :: "pguid \<Rightarrow> gd_world \<Rightarrow> gd_world option \<Rightarrow> bool" where
  "obeys c w res \<longleftrightarrow> (\<exists>w'. res = Some w' \<and> lawful c w w')"

lemma obeys_Some [simp]: "obeys c w (Some w') \<longleftrightarrow> lawful c w w'"
  by (simp add: obeys_def)

lemma obeys_same: "gd_ok w \<Longrightarrow> \<exists>w'. res = Some w' \<and> strip w' = strip w \<Longrightarrow> obeys c w res"
  by (auto simp: obeys_def intro: lawful_same)

lemma lawful_send: "gd_ok w \<Longrightarrow> lawful c w (SendGuildCommandResult a cmd msg ty w)" "gd_ok w \<Longrightarrow> lawful c w (gd_send a pkt w)"
  by (rule lawful_same; simp)+

lemma lawful_core: "strip w' = strip v \<Longrightarrow> gd_ok v \<Longrightarrow> guild_rule c (gd_roster w) (gd_roster v) \<Longrightarrow> lawful c w w'"
  by (rule lawful_strip [OF lawful_step])

lemma lawful_content: "strip w' = strip v \<Longrightarrow> gd_ok v \<Longrightarrow> alike w v \<Longrightarrow> lawful c w w'"
  by (rule lawful_strip [OF lawful_alike])

lemma promote_obeys:
  assumes "gd_ok w" "gw_infos w c \<noteq> None" "gw_infos w p \<noteq> None"
  shows "obeys c w (PromoteGuildMember now gp p c w)"
  using promote_ok [OF assms, of now gp] lawful_same [OF assms(1)] rank_moved_ok [OF assms(1)] roster_rank [OF assms(1)] lawful_step
  unfolding obeys_def by blast

lemma demote_obeys:
  assumes "gd_ok w" "gw_infos w c \<noteq> None" "gw_infos w p \<noteq> None"
  shows "obeys c w (DemoteGuildMember now gp p c w)"
  using demote_ok [OF assms, of now gp] lawful_same [OF assms(1)] rank_moved_ok [OF assms(1)] roster_rank [OF assms(1)] lawful_step
  unfolding obeys_def by blast

lemma remove_obeys:
  assumes ok: "gd_ok w" and p: "gw_infos w p \<noteq> None" and c: "gw_infos w c \<noteq> None"
  shows "obeys c w (RemoveGuildMember now gp p (Some c) w)"
proof -
  obtain w' where w': "RemoveGuildMember now gp p (Some c) w = Some w'" "strip w' = strip w \<or>
    (\<exists>g mp i. gw_infos w p = Some i \<and> gi_guild i = Some gp \<and> gw_guilds w gp = Some g \<and> (p, mp) \<in> set (gd_members g) \<and>
       may_dismiss w gp p (Some c) \<and> (\<forall>c'. Some c = Some c' \<longrightarrow> (\<exists>ic. gw_infos w c' = Some ic \<and> gi_guild ic = Some gp)) \<and>
       strip w' = strip (dismissed gp g p mp i w))"
    using remove_member_ok [OF ok p, of "Some c" now gp] c by blast
  from w'(2) have "lawful c w w'"
  proof (elim disjE exE conjE)
    fix g mp i assume i: "gw_infos w p = Some i" "gi_guild i = Some gp" and g: "gw_guilds w gp = Some g" "(p, mp) \<in> set (gd_members g)"
      and may: "may_dismiss w gp p (Some c)" and ic: "\<forall>c'. Some c = Some c' \<longrightarrow> (\<exists>ic. gw_infos w c' = Some ic \<and> gi_guild ic = Some gp)"
      and eq: "strip w' = strip (dismissed gp g p mp i w)"
    obtain r where r: "rank_of w p = Some r" "gd_role w p = Some (gp, rk_id r)" using role_of [OF ok i] by blast
    obtain jc where jc: "gw_infos w c = Some jc" "gi_guild jc = Some gp" using ic by blast
    obtain rc where rc: "rank_of w c = Some rc" "gd_role w c = Some (gp, rk_id rc)" using role_of [OF ok jc] by blast
    have rid: "rk_id r \<noteq> 0" "c \<noteq> p \<longrightarrow> rk_id rc = 0 \<or> rk_id rc < rk_id r" using may r(1) rc(1) by (auto simp: may_dismiss_def)
    show ?thesis
    proof (rule lawful_core [OF eq gd_ok_dismissed [OF ok i g]], unfold roster_dismissed [OF g(1)], cases "p = c")
      case True
      then show "guild_rule c (gd_roster w) (gd_roster w\<lparr> ro_role := (ro_role (gd_roster w))(p := None) \<rparr>)"
        using rule_leave [of "gd_roster w" c gp "rk_id r"] r rid by (simp add: gd_roster_def)
    next
      case False
      then show "guild_rule c (gd_roster w) (gd_roster w\<lparr> ro_role := (ro_role (gd_roster w))(p := None) \<rparr>)"
        by (intro rule_expel [of _ p gp "rk_id r" c "rk_id rc"]) (use r rc rid in \<open>auto simp: gd_roster_def\<close>)
    qed
  qed (rule lawful_same [OF ok])
  with w'(1) show ?thesis by simp
qed

lemma crown_obeys:
  assumes ok: "gd_ok w" and p: "gw_infos w p = Some ip" "gi_guild ip = Some gp" and c: "gw_infos w c = Some ic" "gi_guild ic = Some gp"
  shows "obeys c w (ChangeGuildMaster gp p c w)"
proof -
  obtain w' where w': "ChangeGuildMaster gp p c w = Some w'" "strip w' = strip w \<or>
    (\<exists>g mp mc tp rp r. may_crown w gp g p mp c mc tp rp r \<and> w' = crowned gp g p mp c mc tp rp r w)"
    using crown_ok [OF ok p c] by blast
  from w'(2) have "lawful c w w'"
    using lawful_same [OF ok] lawful_step gd_ok_crowned [OF ok] roster_crowned [OF ok] by metis
  with w'(1) show ?thesis by simp
qed

lemma disband_obeys:
  assumes "gd_ok w" "gw_guilds w gp = Some g" "gd_leader g = c"
  shows "obeys c w (Disband gp w)"
  using gd_disband_ok [OF assms(1,2)] lawful_step [OF gd_ok_disbanded [OF assms(1,2)] roster_disbanded [OF assms]] by simp

lemma join_obeys:
  assumes ok: "gd_ok w" and i: "gw_infos w c = Some i" and g: "gw_guilds w gp = Some g"
  shows "obeys c w (AddGuildMember now gp c None (-1) w)"
proof -
  obtain w' where w': "AddGuildMember now gp c None (-1) w = Some w'"
    "strip w' = strip w \<or> (\<exists>rp r. may_join w gp g c i rp r \<and> strip w' = strip (enrolled gp g c i rp r w))"
    using add_member_ok [OF ok i g, of "-1" None now] by auto
  from w'(2) have "lawful c w w'"
  proof (elim disjE exE conjE)
    fix rp r assume may: "may_join w gp g c i rp r" and eq: "strip w' = strip (enrolled gp g c i rp r w)"
    show ?thesis
    proof (rule lawful_core [OF eq gd_ok_enrolled [OF ok may]], unfold roster_enrolled [OF may], rule rule_join)
      show "ro_role (gd_roster w) c = None" using may role_None by (simp add: may_join_def gd_roster_def)
      show "ro_master (gd_roster w) gp = Some (gd_leader g)" using g by (simp add: gd_roster_def)
      show "rk_id r = 0 \<longrightarrow> c = gd_leader g" using may by (simp add: may_join_def)
    qed
  qed (rule lawful_same [OF ok])
  with w'(1) show ?thesis by simp
qed

text \<open>Notes, texts, money, tabs and the rights of a rank are not on the roster.\<close>

lemma alike_textual: "(\<And>g. g_shape (f g) = g_shape g) \<Longrightarrow> alike w (textual gp f fr w)"
  by (auto simp: textual_def intro: alike_put_guild split: option.split)

lemma alike_noted: "(\<And>m. m_shape (f m) = m_shape m) \<Longrightarrow> alike w (noted p mp f fr w)"
  by (auto simp: noted_def intro: alike_put_member split: option.split)

lemma alike_paid: "alike w (paid p n w)"
  by (auto simp: paid_def i_shape_def intro!: alike_put_info split: option.split)

lemma alike_counted: "alike w (counted now amt mp w)"
  by (auto simp: counted_def intro!: alike_noted split: option.split)

lemma alike_balanced: "alike w (balanced gp b w)"
  by (simp add: balanced_def alike_textual g_shape_def)

lemma alike_tab_bought: "alike w (tab_bought gp w)"
  by (auto simp: tab_bought_def g_shape_def intro!: alike_textual split: option.split)

lemma alike_retabbed:
  assumes "keeps_tabs f"
  shows "alike w (retabbed gp f w)"
proof (cases "gw_guilds w gp")
  case (Some g)
  obtain ts where "f g = g\<lparr> gd_tabs := ts \<rparr>" using keeps_tabsE [OF assms] .
  then show ?thesis using alike_put_guild [OF Some, of "f g"] Some by (simp add: retabbed_def g_shape_def)
qed (simp add: retabbed_def)

lemma alike_reranked: "gw_ranks w rp = Some r \<Longrightarrow> r_shape r' = r_shape r \<Longrightarrow> alike w (reranked rp r' n w)"
  by (simp add: reranked_def Let_def alike_put_rank)

lemma content_obeys:
  assumes ok: "gd_ok w" and res: "\<exists>w'. res = Some w' \<and> (strip w' = strip w \<or> strip w' = strip v)" and v: "gd_ok v" "alike w v"
  shows "obeys c w res"
  using res lawful_same [OF ok] lawful_content [OF _ v] by (auto simp: obeys_def)

lemma note_obeys:
  assumes ok: "gd_ok w" and p: "gw_infos w p \<noteq> None" and c: "gw_infos w c \<noteq> None" and f: "\<And>m. m_shape (f m) = m_shape m"
  shows "obeys c w (set_note right msg f fr gp p c w)"
proof -
  obtain w' where w': "set_note right msg f fr gp p c w = Some w'" "strip w' = strip w \<or> (\<exists>mp. strip w' = strip (noted p mp f fr w))"
    using set_note_ok [OF ok p c, of right msg f fr gp] by blast
  then show ?thesis using lawful_same [OF ok] lawful_content [OF _ gd_ok_noted [OF ok f] alike_noted [OF f]] by (auto simp: obeys_def)
qed

lemma motd_obeys: "gd_ok w \<Longrightarrow> gw_infos w c \<noteq> None \<Longrightarrow> obeys c w (SetMOTD s gp c w)"
  by (rule content_obeys [OF _ motd_ok]) (auto intro!: gd_ok_textual alike_textual simp: g_shape_def tabs_ok_def)

lemma information_obeys: "gd_ok w \<Longrightarrow> gw_infos w c \<noteq> None \<Longrightarrow> obeys c w (SetGuildInformation s gp c w)"
  by (rule content_obeys [OF _ information_ok]) (auto intro!: gd_ok_textual alike_textual simp: g_shape_def tabs_ok_def)

lemma tabard_obeys: "gd_ok w \<Longrightarrow> gw_guilds w gp \<noteq> None \<Longrightarrow> obeys c w (SetTabardInfo em gp w)"
  by (auto simp: tabard_ok intro!: lawful_alike gd_ok_textual alike_textual simp: g_shape_def tabs_ok_def)

lemma deposit_obeys:
  assumes ok: "gd_ok w" and c: "gw_infos w c = Some ic" "gi_online ic = Some oc" and g: "gw_guilds w gp = Some g"
  shows "obeys c w (DepositMoney now amt gp c w)"
  by (rule content_obeys [OF ok, where v = "paid c (- amt) (balanced gp (gd_balance g + amt) w)"])
    (use deposit_ok [OF ok c g, of now amt] in \<open>auto split: if_splits\<close>,
     auto intro: gd_ok_paid gd_ok_balanced ok alike_trans [OF alike_balanced alike_paid])

lemma withdraw_obeys:
  assumes ok: "gd_ok w" and c: "gw_infos w c = Some ic" "gi_online ic = Some oc" "gi_guild ic = Some gp"
  shows "obeys c w (WithdrawMoney now amt gp c w)"
proof -
  obtain g mp m r where *: "gw_guilds w gp = Some g" "(c, mp) \<in> set (gd_members g)" "gw_members w mp = Some m" "gw_ranks w (mb_rank m) = Some r"
    using player_pointers [OF ok c(1,3)] by metis
  show ?thesis
    by (rule content_obeys [OF ok, where v = "balanced gp (gd_balance g - amt) (paid c amt (counted now amt mp w))"])
      (use withdraw_ok [OF ok c * , of now amt] in \<open>auto split: if_splits\<close>,
       auto intro!: gd_ok_paid gd_ok_balanced gd_ok_counted ok alike_trans [OF alike_trans [OF alike_counted alike_paid] alike_balanced])
qed

lemma buy_tab_obeys:
  assumes ok: "gd_ok w" and c: "gw_infos w c = Some ic" "gi_online ic = Some oc" and g: "gw_guilds w gp = Some g"
  shows "obeys c w (HandleGuildBankBuyTab gp c w)"
proof -
  obtain w' where w': "HandleGuildBankBuyTab gp c w = Some w'" "strip w' = strip w \<or>
    (gd_tabcount g < 6 \<and> (\<exists>cost. strip w' = strip (tab_bought gp (paid c (- cost) w))))"
    using buy_tab_ok [OF ok c g] by blast
  have "gd_tabcount g < 6 \<Longrightarrow> gd_ok (tab_bought gp (paid c n w))" for n
    by (rule gd_ok_tab_bought [OF gd_ok_paid [OF ok], where g = g]) (use g in simp_all)
  then show ?thesis using w' lawful_same [OF ok] lawful_content [OF _ _ alike_trans [OF alike_paid alike_tab_bought]]
    by (auto simp: obeys_def)
qed

lemma modify_tab_obeys:
  assumes "gd_ok w" "gw_guilds w gp = Some g"
  shows "obeys c w (HandleGuildBankModifyTab slot name icon gp c w)"
proof -
  have k: "keeps_tabs (put_tab (ucast slot) (modify_tab name icon))" by (rule keeps_put_tab) (simp add: modify_tab_def)
  show ?thesis by (rule content_obeys [OF assms(1) modify_tab_ok [OF assms] gd_ok_retabbed [OF assms(1) k] alike_retabbed [OF k]])
qed

lemma move_item_obeys:
  assumes "gd_ok w" "gw_guilds w gp = Some g" "(c, mp) \<in> set (gd_members g)"
  shows "obeys c w (MoveBankItem db ds sb ss gp mp w)"
  by (rule content_obeys [OF assms(1) move_item_ok [OF assms] gd_ok_retabbed [OF assms(1) keeps_swap_slots] alike_retabbed [OF keeps_swap_slots]])

lemma edit_rank_obeys:
  assumes ok: "gd_ok w" and g: "gw_guilds w gp = Some g"
  shows "obeys c w (edit_rank gp rid rights name gold tabs w)"
proof -
  obtain w' where w': "edit_rank gp rid rights name gold tabs w = Some w'" "strip w' = strip w \<or>
    (\<exists>rp r r'. gw_ranks w rp = Some r \<and> r_shape r' = r_shape r \<and> strip w' = strip (reranked rp r' (gd_id g) w))"
    using edit_rank_ok [OF ok g] by blast
  then show ?thesis using lawful_same [OF ok] lawful_content [OF _ gd_ok_reranked alike_reranked] ok by (auto simp: obeys_def)
qed

lemma create_rank_obeys:
  assumes ok: "gd_ok w" and g: "gw_guilds w gp = Some g"
  shows "obeys c w (map_option fst (CreateGuildRank gp name rights full w))"
  using create_rank_ok [OF g, of name rights full] ok
  by (auto simp: obeys_def lawful_def gd_ok_extended [OF ok g] roster_extended [OF ok g])

lemma remove_rank_obeys:
  assumes ok: "gd_ok w" and g: "gw_guilds w gp = Some g"
  shows "obeys c w (RemoveGuildRank gp a w)"
proof -
  obtain w' where w': "RemoveGuildRank gp a w = Some w'" "strip w' = strip w \<or> (\<exists>i rp. last_rank w g i rp \<and> strip w' = strip (shortened gp g i rp w))"
    using remove_rank_ok [OF ok g] by blast
  have "lawful c w (shortened gp g i rp w)" if "last_rank w g i rp" for i rp
    using gd_ok_shortened [OF ok g that] roster_shortened [OF ok g that] by (simp add: lawful_def)
  then have "lawful c w w'" using w'(2) lawful_same [OF ok] lawful_strip by blast
  with w'(1) show ?thesis by simp
qed

section \<open>A new guild\<close>

definition founded :: "charter \<Rightarrow> int \<Rightarrow> gd_world \<Rightarrow> gd_world" where
  "founded ct now w = fst (CreateGuild ct now w)"

lemma founded_sel:
  "gw_guilds (founded ct now w) = (gw_guilds w)(gw_next w \<mapsto> guild_blank (gw_hi w + 1) ct now)"
  "gw_ranks (founded ct now w) = gw_ranks w" "gw_members (founded ct now w) = gw_members w" "gw_infos (founded ct now w) = gw_infos w"
  "gw_next (founded ct now w) = gw_next w + 1" "gw_hi (founded ct now w) = gw_hi w + 1"
  by (simp_all add: founded_def CreateGuild_def Let_def put_guild_def)

lemma next_id: "n \<noteq> -1 \<Longrightarrow> n < n + 1" for n :: u32
proof -
  assume "n \<noteq> -1"
  then have "1 + n \<noteq> 0" by (simp add: add_eq_0_iff add.commute)
  then have "unat (1 + n) = Suc (unat n)" by (rule unatSuc)
  then show ?thesis by (simp add: word_less_nat_alt add.commute)
qed

lemma gd_ok_founded:
  assumes ok: "gd_ok w" and hi: "gw_hi w \<noteq> -1"
  shows "gd_ok (founded ct now w)"
  unfolding gd_ok_def
proof (intro conjI allI impI)
  let ?w = "founded ct now w"
  have up: "gw_hi w < gw_hi w + 1" by (rule next_id [OF hi])
  have fresh: "gw_guilds w (gw_next w) = None" using ok by (simp add: gd_ok_def addresses_ok_def)
  have old: "gd_id g \<le> gw_hi w" if "gw_guilds w gp = Some g" for gp g using gd_okD(4) [OF ok that] .
  fix gp g assume g: "gw_guilds ?w gp = Some g"
  show "guild_ok ?w gp g"
  proof (cases "gp = gw_next w")
    case True
    then have "g = guild_blank (gw_hi w + 1) ct now" using g by (simp add: founded_sel)
    moreover have "slots_ok R (replicate MAX_GUILD_RANKS None)" for R
      unfolding slots_ok_def by (auto intro!: exI [of _ 0])
    ultimately show ?thesis by (simp add: guild_ok_def ranks_ok_def tabs_ok_def guild_blank_def founded_sel)
  next
    case False
    then have w: "gw_guilds w gp = Some g" using g by (simp add: founded_sel)
    then have "guild_ok w gp g" using ok by (simp add: gd_ok_def)
    moreover have "gd_id g \<le> gw_hi w + 1" using old [OF w] up by simp
    ultimately show ?thesis by (simp add: guild_ok_def ranks_ok_def member_ok_def founded_sel)
  qed
next
  let ?w = "founded ct now w"
  fix p i assume "gw_infos ?w p = Some i"
  then have "info_ok w p i" using ok by (simp add: gd_ok_def founded_sel)
  moreover have "gw_guilds w (gw_next w) = None" using ok by (simp add: gd_ok_def addresses_ok_def)
  ultimately show "info_ok ?w p i" by (auto simp: info_ok_def founded_sel split: option.splits)
next
  have up: "gw_hi w < gw_hi w + 1" by (rule next_id [OF hi])
  have apart: "apart (gw_guilds w x) (Some (guild_blank (gw_hi w + 1) ct now))"
    "apart (Some (guild_blank (gw_hi w + 1) ct now)) (gw_guilds w x)" for x
  proof -
    have "gd_id g \<noteq> gw_hi w + 1" if "gw_guilds w x = Some g" for g using gd_okD(4) [OF ok that] up by auto
    then show "apart (gw_guilds w x) (Some (guild_blank (gw_hi w + 1) ct now))"
      "apart (Some (guild_blank (gw_hi w + 1) ct now)) (gw_guilds w x)"
      by (auto simp: apart_def guild_blank_def)
  qed
  then show "guilds_apart (founded ct now w)" using ok by (auto simp: gd_ok_def guilds_apart_def founded_sel)
  show "addresses_ok (founded ct now w)" using ok by (simp add: gd_ok_def addresses_ok_def founded_sel)
qed

text \<open>
  While the guild is set up it is there, led by the founder, and the roster has changed by the new
  guild and its members \<open>ms\<close>.
\<close>

definition led :: "pguid \<Rightarrow> guildptr \<Rightarrow> gd_world \<Rightarrow> gd_world \<Rightarrow> bool" where
  "led c gp w v \<longleftrightarrow> gd_ok v \<and> (\<exists>ms. (\<forall>p n. ms p = Some n \<longrightarrow> gd_role w p = None \<and> (n = 0 \<longrightarrow> p = c)) \<and>
     gd_roster v = gd_roster w\<lparr> ro_role := with_members gp ms (gd_role w), ro_master := (ro_master (gd_roster w))(gp \<mapsto> c) \<rparr>)"

lemma led_ok: "led c gp w v \<Longrightarrow> gd_ok v"
  by (simp add: led_def)

lemma led_quiet: "led c gp w v \<Longrightarrow> quiet v v' \<Longrightarrow> led c gp w v'"
  by (simp add: led_def quiet_def)

lemma led_guild:
  assumes "led c gp w v"
  obtains g where "gw_guilds v gp = Some g" "gd_leader g = c"
proof -
  have "ro_master (gd_roster v) gp = Some c" using assms by (auto simp: led_def)
  then show thesis using that by (auto simp: gd_roster_def)
qed

lemma led_lawful:
  assumes "led c gp w v" "gw_guilds w gp = None"
  shows "lawful c w v"
proof (rule lawful_step [OF led_ok [OF assms(1)]])
  from assms(1) obtain ms where ms: "\<forall>p n. ms p = Some n \<longrightarrow> gd_role w p = None \<and> (n = 0 \<longrightarrow> p = c)"
    "gd_roster v = gd_roster w\<lparr> ro_role := with_members gp ms (gd_role w), ro_master := (ro_master (gd_roster w))(gp \<mapsto> c) \<rparr>"
    by (auto simp: led_def)
  show "guild_rule c (gd_roster w) (gd_roster v)"
    unfolding ms(2) using rule_found [of "gd_roster w" gp ms c] ms(1) assms(2) by (simp add: gd_roster_def)
qed

lemma led_founded:
  assumes ok: "gd_ok w" and hi: "gw_hi w \<noteq> -1"
  shows "led (ct_leader ct) (gw_next w) w (founded ct now w)"
proof -
  have "gd_role (founded ct now w) p = gd_role w p" for p by (rule role_same) (simp_all add: founded_sel)
  then have "gd_roster (founded ct now w) = gd_roster w\<lparr> ro_role := with_members (gw_next w) (\<lambda>_. None) (gd_role w),
      ro_master := (ro_master (gd_roster w))(gw_next w \<mapsto> ct_leader ct) \<rparr>"
    by (simp add: gd_roster_def fun_eq_iff founded_sel guild_blank_def with_members_def)
  then show ?thesis unfolding led_def using gd_ok_founded [OF ok hi] by (intro conjI exI [of _ "\<lambda>_. None"]) simp_all
qed

lemma default_rank_led:
  assumes "led c gp w v \<and> gw_infos v = infs \<and> map_option gd_members (gw_guilds v gp) = Some []"
  shows "\<exists>v'. add_default_rank gp v x = Some v' \<and> led c gp w v' \<and> gw_infos v' = infs \<and> map_option gd_members (gw_guilds v' gp) = Some []"
proof -
  have v: "led c gp w v" using assms by simp
  obtain g where g': "gw_guilds v gp = Some g" "gd_leader g = c" using led_guild [OF v] .
  then have g: "gw_guilds v gp = Some g" "gd_members g = []" using assms by simp_all
  note ok = led_ok [OF v]
  obtain name rights full where x: "x = (name, rights, full)" by (cases x)
  have "quiet v (extended gp g i name rights full v)" if "free_slot g i" for i
    using gd_ok_extended [OF ok g(1) that] roster_extended [OF ok g(1)] by (simp add: quiet_def)
  then have "led c gp w (extended gp g i name rights full v)" if "free_slot g i" for i using led_quiet [OF v] that by blast
  then show ?thesis using create_rank_ok [OF g(1), of name rights full] g assms
    by (auto simp: add_default_rank_def x extended_sel)
qed

lemma logging_led:
  assumes v: "led c gp w v"
  shows "\<exists>v'. set_logging gp b v = Some v' \<and> led c gp w v' \<and> gw_infos v' = gw_infos v \<and>
    map_option gd_members (gw_guilds v' gp) = map_option gd_members (gw_guilds v gp)"
proof -
  obtain g where g: "gw_guilds v gp = Some g" "gd_leader g = c" using led_guild [OF v] .
  let ?v = "put_guild gp (g\<lparr> gd_logging := b \<rparr>) v"
  have "gd_ok ?v" by (rule gd_ok_contents [OF led_ok [OF v] g(1)])
    (use gd_ok_tabs [OF led_ok [OF v] g(1)] in \<open>simp_all add: g_shape_def tabs_ok_def\<close>)
  moreover have "alike v ?v" by (rule alike_put_guild [OF g(1)]) (simp add: g_shape_def)
  ultimately have "led c gp w ?v" by (rule led_quiet [OF v quiet_alike])
  then show ?thesis using g by (simp add: set_logging_def put_guild_def)
qed

lemma join_led:
  assumes v: "led c gp w v" and i: "gw_infos v p = Some i" and forced: "forced < 10" and lead: "forced = 0 \<longrightarrow> p = c"
  shows "\<exists>v'. AddGuildMember now gp p None forced v = Some v' \<and> led c gp w v'"
proof -
  obtain g where g: "gw_guilds v gp = Some g" "gd_leader g = c" using led_guild [OF v] .
  note ok = led_ok [OF v]
  obtain v' where v': "AddGuildMember now gp p None forced v = Some v'"
    "strip v' = strip v \<or> (\<exists>rp r. may_join v gp g p i rp r \<and> strip v' = strip (enrolled gp g p i rp r v))"
    using add_member_ok [OF ok i g(1) forced, of None now] lead g(2) by auto
  from v'(2) have "led c gp w v'"
  proof (elim disjE exE conjE)
    fix rp r assume may: "may_join v gp g p i rp r" and eq: "strip v' = strip (enrolled gp g p i rp r v)"
    from v obtain ms where ms: "\<forall>p n. ms p = Some n \<longrightarrow> gd_role w p = None \<and> (n = 0 \<longrightarrow> p = c)"
      "gd_roster v = gd_roster w\<lparr> ro_role := with_members gp ms (gd_role w), ro_master := (ro_master (gd_roster w))(gp \<mapsto> c) \<rparr>"
      by (auto simp: led_def)
    have "gd_role v p = None" using may role_None by (simp add: may_join_def)
    then have "with_members gp ms (gd_role w) p = None" using ms(2) by (simp add: gd_roster_def)
    then have new: "gd_role w p = None" by (simp add: with_members_def split: option.splits)
    have "rk_id r = 0 \<longrightarrow> p = c" using may g(2) by (simp add: may_join_def)
    moreover have "gd_roster v' = gd_roster w\<lparr> ro_role := with_members gp (ms(p \<mapsto> rk_id r)) (gd_role w),
        ro_master := (ro_master (gd_roster w))(gp \<mapsto> c) \<rparr>"
      unfolding roster_strip [OF eq] roster_enrolled [OF may] ms(2) by (auto simp: with_members_def fun_eq_iff)
    moreover have "gd_ok v'" by (rule gd_ok_same [OF eq gd_ok_enrolled [OF ok may]])
    ultimately show ?thesis unfolding led_def using ms(1) new by (intro conjI exI [of _ "ms(p \<mapsto> rk_id r)"]) auto
  qed (rule led_quiet [OF v quiet_same [OF ok]])
  with v'(1) show ?thesis by blast
qed

lemma turn_in_obeys:
  assumes ok: "gd_ok w" and hi: "gw_hi w \<noteq> -1" and c: "gw_infos w c \<noteq> None" "ct_leader ct = c" and n: "ct_count ct \<le> length (ct_signatures ct)"
  shows "obeys c w (CreateFromCharter now ct c w)"
proof -
  let ?gp = "gw_next w"
  let ?w1 = "founded ct now w"
  have w1: "led c ?gp w ?w1" "gw_infos ?w1 = gw_infos w" "map_option gd_members (gw_guilds ?w1 ?gp) = Some []"
    using led_founded [OF ok hi, of ct now] c(2) by (simp_all add: founded_sel guild_blank_def)
  have cg: "CreateGuild ct now w = (?w1, ?gp)" by (simp add: founded_def CreateGuild_def Let_def)
  have "\<exists>w2. CreateInDB ?gp ?w1 = Some w2 \<and> led c ?gp w w2 \<and> gw_infos w2 = gw_infos w \<and> map_option gd_members (gw_guilds w2 ?gp) = Some []"
  proof -
    have "alike ?w1 (?w1\<lparr> db_guilds := x \<rparr>)" for x by (simp add: alike_def)
    then have "led c ?gp w (?w1\<lparr> db_guilds := x \<rparr>)" for x using led_ok [OF w1(1)] by (intro led_quiet [OF w1(1)] quiet_alike) simp_all
    then show ?thesis using w1 by (auto simp: CreateInDB_def founded_sel)
  qed
  then obtain w2 where w2: "CreateInDB ?gp ?w1 = Some w2" "led c ?gp w w2 \<and> gw_infos w2 = gw_infos w \<and> map_option gd_members (gw_guilds w2 ?gp) = Some []"
    by blast
  obtain w3 where w3: "foldM (add_default_rank ?gp) w2 default_ranks = Some w3" "led c ?gp w w3" "gw_infos w3 = gw_infos w"
    using foldM_inv [where P = "\<lambda>v. led c ?gp w v \<and> gw_infos v = gw_infos w \<and> map_option gd_members (gw_guilds v ?gp) = Some []"
        and f = "add_default_rank ?gp" and xs = default_ranks, OF w2(2) default_rank_led] by blast
  obtain w4 where w4: "set_logging ?gp False w3 = Some w4" "led c ?gp w w4" "gw_infos w4 = gw_infos w"
    using logging_led [OF w3(2), of False] w3(3) by auto
  obtain ic where "gw_infos w4 c = Some ic" using c(1) w4(3) by auto
  from join_led [OF w4(2) this, of 0 now] obtain w5 where w5: "AddGuildMember now ?gp c None 0 w4 = Some w5" "led c ?gp w w5" by auto
  have "\<exists>v'. add_signer now ?gp v p = Some v' \<and> led c ?gp w v'" if "led c ?gp w v" for v p
    using that join_led [OF that, of p _ 4 now] by (cases "gw_infos v p") (auto simp: add_signer_def)
  from foldM_inv [where P = "led c ?gp w" and f = "add_signer now ?gp", OF w5(2) this] obtain w6 where
    w6: "foldM (add_signer now ?gp) w5 (take (ct_count ct) (ct_signatures ct)) = Some w6" "led c ?gp w w6" by blast
  obtain w7 where w7: "set_logging ?gp True w6 = Some w7" "led c ?gp w w7" using logging_led [OF w6(2), of True] by blast
  have "CreateFromCharter now ct c w = Some w7"
    using cg w2(1) w3(1) w4(1) w5(1) w6(1) w7(1) n by (simp add: CreateFromCharter_def)
  moreover have "gw_guilds w ?gp = None" using ok by (simp add: gd_ok_def addresses_ok_def)
  ultimately show ?thesis using led_lawful [OF w7(2)] by simp
qed

section \<open>Opcodes\<close>

lemma gd_onlineD: "gd_online w p \<Longrightarrow> \<exists>i o'. gw_infos w p = Some i \<and> gi_online i = Some o'"
  by (auto simp: gd_online_def split: option.splits)

lemma info_obeys:
  assumes "gd_ok w" "gw_infos w p = Some i" "i_shape i' = i_shape i" "strip w' = strip (put_ginfo p i' w)"
  shows "lawful c w w'"
  by (rule lawful_content [OF assms(4) gd_ok_put_info [OF assms(1-3)] alike_put_info [OF assms(2,3)]])

lemma none_obeys:
  assumes "gd_ok w"
  shows "obeys c w (Some w)" "obeys c w (not_in_guild c w)"
  using assms by (simp_all add: lawful_refl not_in_guild_def lawful_send)

lemma own_guild_obeys:
  assumes i: "gw_infos w p = Some i" and none: "obeys c w (none w)"
    and f: "\<And>gp. gi_guild i = Some gp \<Longrightarrow> obeys c w (f gp)"
  shows "obeys c w (own_guild none p w f)"
  using assms by (cases "gi_guild i") (auto simp: own_guild_def)

lemma on_player_obeys:
  assumes "gd_ok w" "\<And>p. dst = Some p \<Longrightarrow> obeys c w (f p)"
  shows "obeys c w (on_player dst w f)"
  using assms by (cases dst) (auto simp: on_player_def lawful_refl)

lemma as_leader_obeys:
  assumes "gd_ok w" "gw_guilds w gp = Some g" "gd_leader g = a \<Longrightarrow> obeys c w f"
  shows "obeys c w (as_leader cmd gp a w f)"
  using assms by (auto simp: as_leader_def lawful_send)

lemma live_guild:
  assumes "gd_ok w" "gw_infos w p = Some i" "gi_guild i = Some gp"
  obtains g mp where "gw_guilds w gp = Some g" "(p, mp) \<in> set (gd_members g)" "gi_member i = Some mp"
  using player_pointers [OF assms] .

lemma invite_obeys:
  assumes ok: "gd_ok w" and c: "gw_infos w c = Some ic" "gi_online ic = Some oc" and dst: "\<And>p. dst = Some p \<Longrightarrow> gd_online w p"
  shows "obeys c w (HandleInviteToGuild cf c name dst w)"
proof (cases dst)
  case None
  then show ?thesis using c ok by (simp add: HandleInviteToGuild_def lawful_send)
next
  case (Some p)
  obtain ip op where p: "gw_infos w p = Some ip" "gi_online ip = Some op" using gd_onlineD [OF dst [OF Some]] by blast
  have sent: "lawful c w (put_ginfo p (ip\<lparr> gi_online := Some (op\<lparr> pl_inviter := c \<rparr>) \<rparr>) (gd_send p pkt (SendGuildCommandResult c cmd msg ty w)))"
    for pkt cmd msg ty by (rule info_obeys [OF ok p(1)]) (simp_all add: i_shape_def)
  show ?thesis
  proof (cases "gi_guild ic")
    case None
    then show ?thesis using c Some ok by (simp add: HandleInviteToGuild_def own_guild_def none_obeys)
  next
    case gp: (Some gp)
    obtain g r where "gw_guilds w gp = Some g" "rank_of w c = Some r" using role_of [OF ok c(1) gp] by metis
    then show ?thesis using c Some gp p ok sent by (simp add: HandleInviteToGuild_def own_guild_def Let_def lawful_send)
  qed
qed

lemma invitation_ok:
  assumes ok: "gd_ok w" and c: "gw_infos w c = Some ic" "gi_online ic = Some oc"
  obtains inviter w1 where "take_invitation c w = Some (inviter, w1)" "quiet w w1" "gw_infos w1 c \<noteq> None"
    "\<And>q. inviter = Some q \<Longrightarrow> gw_infos w1 q \<noteq> None"
proof -
  let ?w1 = "put_ginfo c (ic\<lparr> gi_online := Some (oc\<lparr> pl_inviter := 0 \<rparr>) \<rparr>) w"
  have la: "quiet w ?w1" by (rule quiet_alike [OF gd_ok_put_info alike_put_info]) (use ok c(1) in \<open>simp_all add: i_shape_def\<close>)
  show thesis
  proof (rule that [OF _ la])
    show "take_invitation c w = Some (if gd_online w (pl_inviter oc) then Some (pl_inviter oc) else None, ?w1)"
      using c by (simp add: take_invitation_def)
    show "gw_infos ?w1 c \<noteq> None" by (simp add: put_ginfo_def)
    show "gw_infos ?w1 q \<noteq> None" if "(if gd_online w (pl_inviter oc) then Some (pl_inviter oc) else None) = Some q" for q
      using that gd_onlineD [of w q] by (auto simp: put_ginfo_def split: if_splits)
  qed
qed

lemma accept_obeys:
  assumes ok: "gd_ok w" and c: "gw_infos w c = Some ic" "gi_online ic = Some oc"
  shows "obeys c w (HandleGuildAccept now c w)"
proof -
  obtain inviter w1 where w1: "take_invitation c w = Some (inviter, w1)" "quiet w w1" "gw_infos w1 c \<noteq> None"
    "\<And>q. inviter = Some q \<Longrightarrow> gw_infos w1 q \<noteq> None" by (rule invitation_ok [OF ok c]) blast
  have ok1: "gd_ok w1" using w1(2) by (simp add: quiet_def)
  show ?thesis
  proof (cases inviter)
    case None
    then show ?thesis using w1 by (simp add: HandleGuildAccept_def quiet_lawful)
  next
    case (Some q)
    obtain iq where iq: "gw_infos w1 q = Some iq" using w1(4) [OF Some] by auto
    obtain jc where jc: "gw_infos w1 c = Some jc" using w1(3) by auto
    show ?thesis
    proof (cases "gi_guild iq")
      case None
      then show ?thesis using w1 Some iq by (simp add: HandleGuildAccept_def own_guild_def quiet_lawful)
    next
      case gp: (Some gp)
      obtain g where g: "gw_guilds w1 gp = Some g" using live_guild [OF ok1 iq gp] by metis
      have "obeys c w (AddGuildMember now gp c None (-1) w1)"
        using join_obeys [OF ok1 jc g, of now] quiet_then_lawful [OF w1(2)] by (auto simp: obeys_def)
      then show ?thesis using w1(1,2) Some iq gp g by (simp add: HandleGuildAccept_def own_guild_def quiet_lawful)
    qed
  qed
qed

lemma decline_obeys:
  assumes ok: "gd_ok w" and c: "gw_infos w c = Some ic" "gi_online ic = Some oc"
  shows "obeys c w (HandleGuildDecline c w)"
proof -
  obtain inviter w1 where w1: "take_invitation c w = Some (inviter, w1)" "quiet w w1" using invitation_ok [OF ok c] by metis
  then have "lawful c w (gd_send q pkt w1)" for q pkt by (intro lawful_strip [OF quiet_lawful [OF w1(2)]]) simp
  then show ?thesis using w1 by (cases inviter) (simp_all add: HandleGuildDecline_def quiet_lawful)
qed

lemma emblem_obeys:
  assumes ok: "gd_ok w" and c: "gw_infos w c = Some ic" "gi_online ic = Some oc"
  shows "obeys c w (HandleSaveGuildEmblem em c w)"
proof (cases "gi_guild ic")
  case None
  then show ?thesis using ok c by (simp add: HandleSaveGuildEmblem_def Let_def lawful_send)
next
  case (Some gp)
  obtain g where g: "gw_guilds w gp = Some g" using live_guild [OF ok c(1) Some] by metis
  have "obeys c w (SetTabardInfo em gp (gd_send c pkt w))" for pkt
  proof -
    have "gd_ok (gd_send c pkt w)" by (rule gd_ok_same [OF _ ok]) simp
    from tabard_obeys [OF this, of gp] g have "obeys c (gd_send c pkt w) (SetTabardInfo em gp (gd_send c pkt w))"
      by (simp add: gd_send_def)
    moreover have "quiet w (gd_send c pkt w)" by (rule quiet_same [OF ok]) simp
    ultimately show ?thesis by (auto simp: obeys_def intro: quiet_then_lawful)
  qed
  then show ?thesis using ok c Some g by (simp add: HandleSaveGuildEmblem_def Let_def lawful_send)
qed

lemma leader_obeys:
  assumes ok: "gd_ok w" and c: "gw_infos w c = Some ic" "gi_guild ic = Some gp" and p: "gw_infos w p \<noteq> None"
  shows "obeys c w (HandleGuildLeader gp p c w)"
proof -
  obtain ip where ip: "gw_infos w p = Some ip" using p by auto
  obtain g where g: "gw_guilds w gp = Some g" using live_guild [OF ok c] by metis
  show ?thesis
  proof (cases "gi_guild ip = Some gp")
    case True
    show ?thesis using as_leader_obeys [OF ok g, of c c] crown_obeys [OF ok ip True c] ip True by (simp add: HandleGuildLeader_def)
  qed (use ip none_obeys(2) [OF ok] in \<open>simp add: HandleGuildLeader_def\<close>)
qed

lemma handle_obeys:
  assumes ok: "gd_ok w" and hi: "gw_hi w \<noteq> -1" and on: "gd_online w c" and named: "op_named w op"
  shows "obeys c w (gd_handle cf now c op w)"
proof -
  obtain ic oc where c: "gw_infos w c = Some ic" "gi_online ic = Some oc" using gd_onlineD [OF on] by blast
  have c': "gw_infos w c \<noteq> None" using c by simp
  note none = none_obeys [OF ok]
  note own = own_guild_obeys [OF c(1)]
  have live: "\<exists>g mp. gw_guilds w gp = Some g \<and> (c, mp) \<in> set (gd_members g) \<and> gi_member ic = Some mp" if "gi_guild ic = Some gp" for gp
    using live_guild [OF ok c(1) that] by blast
  have lead: "obeys c w (as_leader cmd gp c w f)" if "gi_guild ic = Some gp" "\<And>g. gw_guilds w gp = Some g \<Longrightarrow> gd_leader g = c \<Longrightarrow> obeys c w f" for cmd gp f
    using live [OF that(1)] that(2) as_leader_obeys [OF ok] by metis
  have chat: "obeys c w (guild_chat a b k s add gp c w)" for a b k s add gp by (rule obeys_same [OF ok chat_ok [OF ok c]])
  show ?thesis
  proof (cases op)
    case (GdInvite name dst)
    then show ?thesis using invite_obeys [OF ok c, of dst] named by simp
  next
    case GdAccept
    then show ?thesis using accept_obeys [OF ok c] by simp
  next
    case GdDecline
    then show ?thesis using decline_obeys [OF ok c] by simp
  next
    case (GdInformation s)
    then show ?thesis by (simp add: own none lawful_refl [OF ok] information_obeys [OF ok c'])
  next
    case (GdPromote dst)
    then show ?thesis using named by (simp add: own none lawful_refl [OF ok] on_player_obeys [OF ok] promote_obeys [OF ok c'])
  next
    case (GdDemote dst)
    then show ?thesis using named by (simp add: own none lawful_refl [OF ok] on_player_obeys [OF ok] demote_obeys [OF ok c'])
  next
    case GdLeave
    then show ?thesis by (simp add: own none lawful_refl [OF ok] remove_obeys [OF ok c' c'])
  next
    case (GdRemove dst)
    then show ?thesis using named by (simp add: own none lawful_refl [OF ok] on_player_obeys [OF ok] remove_obeys [OF ok _ c'])
  next
    case GdDisband
    then show ?thesis by (simp add: own none lawful_refl [OF ok] lead disband_obeys [OF ok])
  next
    case (GdLeader dst)
    then show ?thesis using named by (simp add: own none lawful_refl [OF ok] on_player_obeys [OF ok] leader_obeys [OF ok c(1)])
  next
    case (GdMotd s)
    then show ?thesis by (simp add: own none lawful_refl [OF ok] motd_obeys [OF ok c'])
  next
    case (GdRank rid rights name gold tabs)
    then show ?thesis by (simp add: own none lawful_refl [OF ok] lead edit_rank_obeys [OF ok])
  next
    case (GdAddRank name)
    have "obeys c w (HandleGuildAddRank name gp w)" if "gw_guilds w gp = Some g" for gp g
      using none(1) create_rank_obeys [OF ok that] by (simp add: HandleGuildAddRank_def)
    then show ?thesis using GdAddRank by (simp add: own none lawful_refl [OF ok] lead)
  next
    case GdDelRank
    then show ?thesis by (simp add: own none lawful_refl [OF ok] lead remove_rank_obeys [OF ok])
  next
    case (GdPublicNote dst s)
    have "obeys c w (own_guild Some p w (\<lambda>gp. SetPublicNote s gp p c w))" if "dst = Some p" for p
    proof -
      from named that GdPublicNote obtain i where "gw_infos w p = Some i" by auto
      then show ?thesis unfolding SetPublicNote_def
        by (rule own_guild_obeys [where none = Some, OF _ none(1)]) (use note_obeys [OF ok _ c'] \<open>gw_infos w p = Some i\<close> in \<open>simp add: m_shape_def\<close>)
    qed
    then show ?thesis using GdPublicNote by (simp add: on_player_obeys [OF ok])
  next
    case (GdOfficerNote dst s)
    have "obeys c w (own_guild Some p w (\<lambda>gp. SetOfficerNote s gp p c w))" if "dst = Some p" for p
    proof -
      from named that GdOfficerNote obtain i where "gw_infos w p = Some i" by auto
      then show ?thesis unfolding SetOfficerNote_def
        by (rule own_guild_obeys [where none = Some, OF _ none(1)]) (use note_obeys [OF ok _ c'] \<open>gw_infos w p = Some i\<close> in \<open>simp add: m_shape_def\<close>)
    qed
    then show ?thesis using GdOfficerNote by (simp add: on_player_obeys [OF ok])
  next
    case (GdEmblem em)
    then show ?thesis using emblem_obeys [OF ok c] by simp
  next
    case GdBuyTab
    have "obeys c w (HandleGuildBankBuyTab gp c w)" if "gi_guild ic = Some gp" for gp using live [OF that] buy_tab_obeys [OF ok c] by blast
    then show ?thesis using GdBuyTab by (simp add: own none lawful_refl [OF ok])
  next
    case (GdModifyTab slot name icon)
    have "obeys c w (HandleGuildBankModifyTab slot name icon gp c w)" if "gi_guild ic = Some gp" for gp
      using live [OF that] modify_tab_obeys [OF ok] by blast
    then show ?thesis using GdModifyTab by (simp add: own none lawful_refl [OF ok])
  next
    case (GdWithdraw amt)
    then show ?thesis by (simp add: own none lawful_refl [OF ok] withdraw_obeys [OF ok c])
  next
    case (GdDeposit amt)
    have "obeys c w (DepositMoney now amt gp c w)" if "gi_guild ic = Some gp" for gp using live [OF that] deposit_obeys [OF ok c] by blast
    then show ?thesis using GdDeposit by (simp add: own none lawful_refl [OF ok])
  next
    case (GdMoveItem db ds sb ss)
    have "obeys c w (MoveBankItem db ds sb ss gp mp w)" if "gi_guild ic = Some gp" "gi_member ic = Some mp" for gp mp
      using live [OF that(1)] that(2) move_item_obeys [OF ok] by fastforce
    then show ?thesis using GdMoveItem c(1) none(1) by (auto intro!: own split: option.splits)
  next
    case (GdTurnIn ct)
    then show ?thesis using named turn_in_obeys [OF ok hi c', of ct now] none(1)
      by (simp add: HandleCharterTurnIn_def lawful_send [OF ok])
  next
    case (GdChat s addon)
    then show ?thesis using chat by (simp add: GuildChat_def own none lawful_refl [OF ok])
  next
    case (GdOfficerChat s addon)
    then show ?thesis using chat by (simp add: OfficerChat_def own none lawful_refl [OF ok])
  qed
qed

end
