(* ===== verification/HS_GuildGame.thy ===== *)
theory HS_GuildGame
  imports HS_GuildPlay
begin

text \<open>
  Runs of the guild code from an empty world: every event is defined, keeps the invariant and is at
  most one step of the rules of the roster. The properties of the guilds.
\<close>

section \<open>Players come and go\<close>

lemma gd_ok_loner:
  assumes ok: "gd_ok w" and old: "\<And>i. gw_infos w p = Some i \<Longrightarrow> gi_guild i = None"
    and new: "\<And>i. x = Some i \<Longrightarrow> gi_guild i = None \<and> gi_rank i = None \<and> gi_member i = None"
  shows "gd_ok (w\<lparr> gw_infos := (gw_infos w)(p := x) \<rparr>)" (is "gd_ok ?w")
  unfolding gd_ok_def
proof (intro conjI allI impI)
  fix gp g assume "gw_guilds ?w gp = Some g"
  then have g: "gw_guilds w gp = Some g" by simp
  have "member_ok ?w gp g q mq" if "(q, mq) \<in> set (gd_members g)" for q mq
    using gd_okD(5) [OF ok g that] old by (auto simp: member_ok_def)
  then show "guild_ok ?w gp g" using gd_okD [OF ok g] by (simp add: guild_ok_def ranks_ok_def split_beta)
next
  fix q i assume "gw_infos ?w q = Some i"
  moreover have "info_ok w q i" if "gw_infos w q = Some i" using ok that by (simp add: gd_ok_def)
  moreover have "info_ok ?w q i = info_ok w q i" by (simp add: info_ok_def cong: option.case_cong)
  ultimately show "info_ok ?w q i" using new by (cases "q = p") (auto simp: info_ok_def split: option.split)
qed (use ok in \<open>simp_all add: gd_ok_def guilds_apart_def addresses_ok_def\<close>)

lemma quiet_loner:
  assumes ok: "gd_ok w" and old: "\<And>i. gw_infos w p = Some i \<Longrightarrow> gi_guild i = None"
    and new: "\<And>i. x = Some i \<Longrightarrow> gi_guild i = None \<and> gi_rank i = None \<and> gi_member i = None"
  shows "quiet w (w\<lparr> gw_infos := (gw_infos w)(p := x) \<rparr>)"
proof -
  let ?w = "w\<lparr> gw_infos := (gw_infos w)(p := x) \<rparr>"
  have "gd_role ?w q = gd_role w q" for q
  proof (cases "q = p")
    case True
    have "gd_role w p = None" using old by (cases "gw_infos w p") (auto simp: gd_role_def)
    moreover have "gd_role ?w p = None" using new by (cases x) (auto simp: gd_role_def)
    ultimately show ?thesis using True by simp
  qed (rule role_same; simp)
  then show ?thesis using gd_ok_loner [OF assms] by (simp add: quiet_def gd_roster_def fun_eq_iff)
qed

lemma login_obeys:
  assumes ok: "gd_ok w" and i: "gw_infos w p = Some i"
  shows "obeys c w (gd_login p coins team gm tag w)"
proof -
  have put: "quiet w (put_ginfo p (i\<lparr> gi_online := x \<rparr>) w)" for x
    by (rule quiet_alike [OF gd_ok_put_info alike_put_info]) (use ok i in \<open>simp_all add: i_shape_def\<close>)
  show ?thesis
  proof (cases "gi_guild i")
    case None
    then show ?thesis using i quiet_lawful [OF put] by (simp add: gd_login_def)
  next
    case (Some gp)
    obtain g r where g: "gw_guilds w gp = Some g" "rank_of w p = Some r" using role_of [OF ok i Some] by metis
    define w1 where "w1 = put_ginfo p (i\<lparr> gi_online := Some \<lparr> pl_coins = coins, pl_guild_id = gd_id g, pl_guild_rank = rk_id r,
      pl_inviter = 0, pl_team = team, pl_gm = gm, pl_gmtag = tag, pl_world = False, pl_later = [] \<rparr> \<rparr>) w"
    have w1: "quiet w w1" unfolding w1_def by (rule put)
    have "sendable w1 gp" by (rule gd_ok_sendable) (use w1 g in \<open>simp_all add: quiet_def w1_def put_ginfo_def\<close>)
    then have "sendable (gd_send p pkt w1) gp" for pkt using sendable_same [of "gd_send p pkt w1" w1] by simp
    then have "\<exists>w'. LogGuildEvent gp 0xC [gi_name i] (gd_send p pkt w1) = Some w' \<and> strip w' = strip w1" for pkt
      using log_event_ok [of "gd_send p pkt w1" gp "0xC" "[gi_name i]"] by simp
    then have "obeys c w (LogGuildEvent gp 0xC [gi_name i] (gd_send p pkt w1))" for pkt
      using lawful_strip [OF quiet_lawful [OF w1]] unfolding obeys_def by metis
    then show ?thesis using i Some g quiet_lawful [OF w1] by (simp add: gd_login_def w1_def [symmetric])
  qed
qed

lemma logout_obeys:
  assumes ok: "gd_ok w" and i: "gw_infos w p = Some i" "gi_online i = Some o'"
  shows "obeys c w (gd_logout p w)"
proof -
  have "\<exists>w1. (case gi_guild i of None \<Rightarrow> Some w | Some gp \<Rightarrow> if pl_guild_id o' = 0 then Some w else LogGuildEvent gp 0xD [gi_name i] w) = Some w1
      \<and> strip w1 = strip w"
  proof (cases "gi_guild i")
    case (Some gp)
    obtain g mp where "gw_guilds w gp = Some g" using live_guild [OF ok i(1) Some] .
    then have "sendable w gp" using gd_ok_sendable [OF ok] by simp
    then show ?thesis using log_event_ok Some by simp
  qed simp
  then obtain w1 where w1: "(case gi_guild i of None \<Rightarrow> Some w | Some gp \<Rightarrow> if pl_guild_id o' = 0 then Some w else LogGuildEvent gp 0xD [gi_name i] w) = Some w1"
    "strip w1 = strip w" by blast
  have "gd_logout p w = Some (put_ginfo p (i\<lparr> gi_online := None \<rparr>) w1)" using i w1(1) by (simp add: gd_logout_def)
  moreover have "lawful c w (put_ginfo p (i\<lparr> gi_online := None \<rparr>) w1)"
    by (rule info_obeys [OF ok i(1)]) (use w1(2) in \<open>simp_all add: i_shape_def\<close>)
  ultimately show ?thesis by simp
qed

lemma delete_obeys:
  assumes ok: "gd_ok w" and i: "gw_infos w p = Some i"
  shows "obeys p w (DeleteCharacter now found captain p w)"
proof (cases "gi_online i = None \<and> found")
  case False
  then show ?thesis using i ok by (auto simp: DeleteCharacter_def lawful_refl)
next
  case True
  have gone: "DeletePlayerInfo now p v = Some (v\<lparr> gw_infos := (gw_infos v)(p := None) \<rparr>) \<and> quiet v (v\<lparr> gw_infos := (gw_infos v)(p := None) \<rparr>)"
    if "gd_ok v" "gw_infos v p = Some j" "gi_guild j = None" for v j
    using that quiet_loner [OF that(1), of p None] by (simp add: DeletePlayerInfo_def)
  show ?thesis
  proof (cases "gi_guild i")
    case None
    then show ?thesis using True i ok gone [OF ok i None] by (simp add: DeleteCharacter_def quiet_lawful lawful_refl)
  next
    case (Some gp)
    obtain g where g: "gw_guilds w gp = Some g" using live_guild [OF ok i Some] by metis
    show ?thesis
    proof (cases "gd_leader g = p")
      case leads: True
      then show ?thesis using True i Some g ok by (simp add: DeleteCharacter_def leads_def lawful_refl)
    next
      case False
      obtain w1 mp where w1: "RemoveGuildMember now gp p None w = Some w1" "(p, mp) \<in> set (gd_members g)"
        "strip w1 = strip (dismissed gp g p mp i w)" using quit_ok [OF ok i Some g False] by blast
      obtain r where r: "rank_of w p = Some r" "gd_role w p = Some (gp, rk_id r)" using role_of [OF ok i Some] by blast
      have rid: "rk_id r \<noteq> 0" using player_pointers [OF ok i Some] g False r(1) by (metis option.inject)
      have law: "lawful p w w1"
        by (rule lawful_core [OF w1(3) gd_ok_dismissed [OF ok i Some g w1(2)]], unfold roster_dismissed [OF g],
            rule rule_leave [where gp = gp and n = "rk_id r"]) (use r rid in \<open>simp_all add: gd_roster_def\<close>)
      obtain o' where "gw_infos (dismissed gp g p mp i w) p = Some (i\<lparr> gi_guild := None, gi_rank := None, gi_member := None, gi_online := o' \<rparr>)"
        using dismissed_sel(6) by (metis fun_upd_same)
      then have "\<exists>j. gw_infos w1 p = Some j \<and> gi_guild j = None" using arg_cong [OF w1(3), of "\<lambda>w. gw_infos w p"] by (simp del: strip_dismissed)
      then obtain j where j: "gw_infos w1 p = Some j" "gi_guild j = None" by blast
      have "gd_ok w1" using law by (simp add: lawful_def)
      from gone [OF this j] have "DeletePlayerInfo now p w1 = Some (w1\<lparr> gw_infos := (gw_infos w1)(p := None) \<rparr>)"
        "lawful p w (w1\<lparr> gw_infos := (gw_infos w1)(p := None) \<rparr>)" using lawful_then_quiet [OF law] by auto
      then show ?thesis using True i Some g False w1(1) law by (simp add: DeleteCharacter_def leads_def)
    qed
  qed
qed

section \<open>Runs\<close>

fun gd_actor :: "gd_event \<Rightarrow> pguid" where
  "gd_actor (EvCreate p name) = p"
| "gd_actor (EvLogin p coins team gm tag) = p"
| "gd_actor (EvLogout p) = p"
| "gd_actor (EvDelete p found captain) = p"
| "gd_actor (EvWorld p b) = p"
| "gd_actor (EvField p) = p"
| "gd_actor (EvCoins p n) = p"
| "gd_actor (EvPacket c op) = c"

lemma do_obeys:
  assumes ok: "gd_ok w" and hi: "gw_hi w \<noteq> -1" and named: "event_named w ev"
  shows "obeys (gd_actor ev) w (gd_do cf now ev w)"
proof (cases ev)
  case (EvCreate p name)
  have "quiet w (put_ginfo p (new_info name) w)" if "gw_infos w p = None"
    unfolding put_ginfo_def by (rule quiet_loner [OF ok]) (use that in \<open>auto simp: new_info_def\<close>)
  then show ?thesis using EvCreate ok by (simp add: lawful_refl quiet_lawful)
next
  case (EvLogin p coins team gm tag)
  then show ?thesis using login_obeys [OF ok] ok by (auto simp: lawful_refl)
next
  case (EvLogout p)
  have "obeys p w (gd_logout p w)" if "gd_online w p" using gd_onlineD [OF that] logout_obeys [OF ok] by blast
  then show ?thesis using EvLogout ok by (simp add: lawful_refl)
next
  case (EvDelete p found captain)
  then show ?thesis using delete_obeys [OF ok] ok by (auto simp: lawful_refl)
next
  case (EvWorld p b)
  then show ?thesis using gd_ok_set_guild(4) [OF ok] by (simp add: lawful_alike)
next
  case (EvField p)
  then show ?thesis using gd_ok_set_guild(5) [OF ok] by (simp add: lawful_alike)
next
  case (EvCoins p n)
  then show ?thesis using gd_ok_set_guild(3) [OF ok] by (simp add: lawful_alike)
next
  case (EvPacket c op)
  then show ?thesis using handle_obeys [OF ok hi] named ok by (simp add: lawful_refl)
qed

lemma gd_ok_empty: "gd_ok gd_empty"
  by (simp add: gd_ok_def gd_empty_def guilds_apart_def apart_def addresses_ok_def)

lemma gd_reach_ok: "gd_reach C w \<Longrightarrow> gd_ok w"
proof (induction rule: gd_reach.induct)
  case gd_start
  show ?case by (rule gd_ok_empty)
next
  case (gd_next w ev cf now w')
  then show ?case using do_obeys [of w ev cf now] by (simp add: lawful_def)
qed

text \<open>A run of events, as long as guild ids last and the packets name players that exist.\<close>

fun gd_run :: "gd_conf \<Rightarrow> int \<Rightarrow> gd_event list \<Rightarrow> gd_world \<Rightarrow> gd_world option" where
  "gd_run cf now [] w = Some w"
| "gd_run cf now (ev # evs) w = (if gw_hi w = -1 \<or> \<not> event_named w ev then None
     else do { w' \<leftarrow> gd_do cf now ev w; gd_run cf now evs w' })"

definition anything :: "gd_world \<Rightarrow> gd_event \<Rightarrow> bool" where
  "anything w ev = True"

lemma gd_run_reach: "gd_run cf now evs w = Some w' \<Longrightarrow> gd_reach anything w \<Longrightarrow> gd_reach anything w'"
proof (induction evs arbitrary: w)
  case (Cons ev evs)
  then show ?case by (auto simp: anything_def split: if_splits bind_splits intro: gd_next)
qed simp

text \<open>
  A small world: player 1 turns in a charter that player 2 signed; player 3 is invited and is
  promoted; the lowest rank gets a limit, of which player 2 takes some of the money in the bank.
\<close>

definition demo_conf :: gd_conf where
  "demo_conf = \<lparr> cf_cross = False, cf_signatures = False \<rparr>"

definition demo_events :: "gd_event list" where
  "demo_events = [EvCreate 1 ''Ann'', EvCreate 2 ''Bob'', EvCreate 3 ''Cid'', EvLogin 1 500000 0 False False,
     EvLogin 2 0x7FFFFFF0 0 False False, EvLogin 3 0 0 False False, EvWorld 1 True, EvWorld 3 True,
     EvPacket 1 (GdTurnIn \<lparr> ct_leader = 1, ct_name = ''Guild'', ct_signatures = [2, 0, 0, 0, 0, 0, 0, 0, 0], ct_count = 1 \<rparr>),
     EvPacket 1 (GdInvite ''Cid'' (Some 3)), EvPacket 3 GdAccept, EvField 3, EvPacket 1 (GdPromote (Some 3)),
     EvPacket 1 (GdRank 4 0x43 ''Novice'' 50 (\<lambda>_. (3, 10))), EvPacket 1 (GdDeposit 1000), EvPacket 2 (GdWithdraw 10)]"

definition demo_guilds :: gd_world where
  "demo_guilds = (case gd_run demo_conf 200000 demo_events gd_empty of None \<Rightarrow> gd_empty | Some w \<Rightarrow> w)"

section \<open>Money\<close>

definition coins_of :: "gd_world \<Rightarrow> pguid \<Rightarrow> u32 option" where
  "coins_of w c = do { i \<leftarrow> gw_infos w c; o' \<leftarrow> gi_online i; Some (pl_coins o') }"

definition balance_of :: "gd_world \<Rightarrow> guildptr \<Rightarrow> u32 option" where
  "balance_of w gp = map_option gd_balance (gw_guilds w gp)"

lemma money_strip [simp]: "coins_of (strip w) c = coins_of w c" "balance_of (strip w) gp = balance_of w gp"
  by (simp_all add: coins_of_def balance_of_def option.map_comp comp_def)

lemma money_same: "strip w' = strip v \<Longrightarrow> coins_of w' c = coins_of v c \<and> balance_of w' gp = balance_of v gp"
  using money_strip(1) [of w' c] money_strip(1) [of v c] money_strip(2) [of w' gp] money_strip(2) [of v gp] by simp

lemma money_balanced [simp]: "coins_of (balanced gp b w) c = coins_of w c" "balance_of (balanced gp b w) gp = map_option (\<lambda>_. b) (balance_of w gp)"
  by (simp_all add: coins_of_def balance_of_def option.map_comp comp_def)

lemma money_counted [simp]: "coins_of (counted now amt mp w) c = coins_of w c" "balance_of (counted now amt mp w) gp = balance_of w gp"
  by (simp_all add: coins_of_def balance_of_def)

lemma money_paid [simp]: "coins_of (paid c n w) c = map_option (\<lambda>x. ModUnsigned32Value x n) (coins_of w c)" "balance_of (paid c n w) gp = balance_of w gp"
proof -
  show "coins_of (paid c n w) c = map_option (\<lambda>x. ModUnsigned32Value x n) (coins_of w c)"
  proof (cases "gw_infos w c")
    case (Some i)
    then show ?thesis by (cases "gi_online i") (simp_all add: coins_of_def paid_def put_ginfo_def)
  qed (simp add: coins_of_def paid_def)
qed (simp add: balance_of_def)

lemma sint_low: "unat x < 2 ^ 31 \<Longrightarrow> \<not> sint x < 0" for x :: u32
proof -
  assume "unat x < 2 ^ 31"
  then have "\<not> bit (unat x) 31" by (simp add: bit_iff_odd)
  then show ?thesis by (simp add: bit_unsigned_iff bit_last_iff [of x, simplified, symmetric])
qed

lemma sint_high: "2 ^ 31 \<le> unat x \<Longrightarrow> sint x < 0" for x :: u32
proof -
  assume "2 ^ 31 \<le> unat x"
  moreover have "unat x < 2 ^ 32" using unsigned_less [of x] by simp
  ultimately have "unat x div 2 ^ 31 = 1" by (simp add: div_nat_eqI)
  then have "bit (unat x) 31" by (simp add: bit_iff_odd)
  then show ?thesis by (simp add: bit_unsigned_iff bit_last_iff [of x, simplified, symmetric])
qed

lemma coins_off:
  assumes "unat amt \<le> unat n" "unat n < 2 ^ 31"
  shows "unat (ModUnsigned32Value n (- amt)) = unat n - unat amt"
proof -
  have "unat (n - amt) = unat n - unat amt" using assms(1) by (simp add: unat_sub word_le_nat_alt)
  moreover then have "\<not> sint (n - amt) < 0" using assms(2) sint_low [of "n - amt"] by simp
  ultimately show ?thesis by (auto simp: ModUnsigned32Value_def)
qed

lemma coins_on:
  assumes "unat n + unat amt < 2 ^ 31"
  shows "unat (ModUnsigned32Value n amt) = unat n + unat amt"
proof -
  have "unat (n + amt) = unat n + unat amt" using assms by (simp add: unat_word_ariths)
  moreover then have "\<not> sint (n + amt) < 0" using assms sint_low [of "n + amt"] by simp
  ultimately show ?thesis by (auto simp: ModUnsigned32Value_def)
qed

lemma coins_lost:
  assumes "2 ^ 31 \<le> unat n + unat amt" "unat n + unat amt < 2 ^ 32" "amt \<noteq> 0"
  shows "ModUnsigned32Value n amt = 0"
proof -
  have "unat (n + amt) = unat n + unat amt" using assms by (simp add: unat_word_ariths)
  then have "sint (n + amt) < 0" using assms sint_high [of "n + amt"] by simp
  then show ?thesis using assms(3) by (simp add: ModUnsigned32Value_def)
qed

text \<open>What a deposit and a withdrawal do to the purse and to the bank.\<close>

lemma deposit_money:
  assumes ok: "gd_ok w" and on: "gd_online w c" and i: "gw_infos w c = Some i" "gi_guild i = Some gp"
    and n: "coins_of w c = Some n" and b: "balance_of w gp = Some b"
  shows "\<exists>w'. gd_handle cf now c (GdDeposit amt) w = Some w' \<and> (if n < amt \<or> amt = 0 then w' = w
    else coins_of w' c = Some (ModUnsigned32Value n (- amt)) \<and> balance_of w' gp = Some (b + amt))"
proof -
  obtain o' where o': "gi_online i = Some o'" using gd_onlineD [OF on] i(1) by auto
  obtain g where g: "gw_guilds w gp = Some g" using live_guild [OF ok i] by metis
  have nb: "pl_coins o' = n" "gd_balance g = b" using n b i(1) o' g by (simp_all add: coins_of_def balance_of_def)
  obtain w' where w': "DepositMoney now amt gp c w = Some w'" "if pl_coins o' < amt \<or> amt = 0 then w' = w
    else strip w' = strip (paid c (- amt) (balanced gp (gd_balance g + amt) w))" using deposit_ok [OF ok i(1) o' g] by blast
  have h: "gd_handle cf now c (GdDeposit amt) w = Some w'" using w'(1) i by (simp add: own_guild_def)
  show ?thesis
  proof (cases "n < amt \<or> amt = 0")
    case True
    then show ?thesis using h w'(2) nb by auto
  next
    case False
    then have "strip w' = strip (paid c (- amt) (balanced gp (b + amt) w))" using w'(2) nb by auto
    from money_same [OF this, of c gp] show ?thesis using h False n b by auto
  qed
qed

lemma withdraw_money:
  assumes ok: "gd_ok w" and on: "gd_online w c" and i: "gw_infos w c = Some i" "gi_guild i = Some gp"
    and n: "coins_of w c = Some n" and b: "balance_of w gp = Some b"
  obtains g mp m r w' where "gw_guilds w gp = Some g" "gi_member i = Some mp" "gw_members w mp = Some m" "gw_ranks w (mb_rank m) = Some r"
    "gd_role w c = Some (gp, rk_id r)" "gd_handle cf now c (GdWithdraw amt) w = Some w'" "mb_player m = c"
    "if may_withdraw now amt g r m
      then coins_of w' c = Some (ModUnsigned32Value n amt) \<and> balance_of w' gp = Some (b - amt) \<and>
        strip w' = strip (balanced gp (b - amt) (paid c amt (counted now amt mp w)))
      else strip w' = strip w"
proof -
  obtain o' where o': "gi_online i = Some o'" using gd_onlineD [OF on] i(1) by auto
  obtain g mp m r where g: "gw_guilds w gp = Some g" "(c, mp) \<in> set (gd_members g)" "map_of (gd_members g) c = Some mp"
    "gi_member i = Some mp" "gw_members w mp = Some m" "mb_player m = c" "gi_rank i = Some (mb_rank m)"
    "Some (mb_rank m) \<in> set (gd_ranks g)" "gw_ranks w (mb_rank m) = Some r" "rank_of w c = Some r" "rk_id r = 0 \<longrightarrow> c = gd_leader g"
    using player_pointers [OF ok i] .
  have nb: "pl_coins o' = n" "gd_balance g = b" using n b i(1) o' g(1) by (simp_all add: coins_of_def balance_of_def)
  obtain w' where w': "WithdrawMoney now amt gp c w = Some w'" "if may_withdraw now amt g r m
    then strip w' = strip (balanced gp (gd_balance g - amt) (paid c amt (counted now amt mp w))) else strip w' = strip w"
    using withdraw_ok [OF ok i(1) o' i(2) g(1,2,5,9)] by blast
  have h: "gd_handle cf now c (GdWithdraw amt) w = Some w'" using w'(1) i by (simp add: own_guild_def)
  have rl: "gd_role w c = Some (gp, rk_id r)" using i g(10) by (simp add: gd_role_def)
  show thesis
  proof (rule that [OF g(1,4,5,9) rl h g(6)], cases "may_withdraw now amt g r m")
    case True
    then have eq: "strip w' = strip (balanced gp (b - amt) (paid c amt (counted now amt mp w)))" using w'(2) nb by simp
    from money_same [OF eq, of c gp] n b True eq show "if may_withdraw now amt g r m
      then coins_of w' c = Some (ModUnsigned32Value n amt) \<and> balance_of w' gp = Some (b - amt) \<and>
        strip w' = strip (balanced gp (b - amt) (paid c amt (counted now amt mp w)))
      else strip w' = strip w" by simp
  qed (use w'(2) in simp)
qed

section \<open>A run, computed\<close>

lemma demo_run: "Option.is_none (gd_run demo_conf 200000 demo_events gd_empty) = False"
  by code_simp

definition demo_view :: "gd_world \<Rightarrow> (guildptr \<times> u32) option list \<times> u32 option list \<times> u32 option \<times> bool list \<times> bool \<times> (pguid \<times> nat \<times> bool) option \<times> (memptr \<times> u32 \<times> u32 \<times> u32 \<times> u32) option" where
  "demo_view w = (map (gd_role w) [1, 2, 3], map (coins_of w) [1, 2], balance_of w 0, map (gd_online w) [1, 2, 3], gw_hi w = -1,
     map_option (\<lambda>g. (gd_leader g, length (gd_members g), FindHighestRank g = None)) (gw_guilds w 0),
     do { i \<leftarrow> gw_infos w 2; mp \<leftarrow> gi_member i; m \<leftarrow> gw_members w mp; r \<leftarrow> gw_ranks w (mb_rank m);
       Some (mp, mb_wreset m, mb_wcount m, rk_id r, rk_gold r) })"

lemma demo_facts: "demo_view demo_guilds = ([Some (0, 0), Some (0, 4), Some (0, 3)], [Some 499000, Some 0x7FFFFFFA], Some 990,
    [True, True, True], False, Some (1, 3, False), Some (7, 200000, 10, 4, 50))"
  by code_simp

lemma gd_demo_reach: "gd_reach anything demo_guilds"
  using demo_run gd_run_reach [OF _ gd_start] by (auto simp: demo_guilds_def Option.is_none_def split: option.splits)

lemma demo_role: "gd_role demo_guilds 1 = Some (0, 0)" "gd_role demo_guilds 2 = Some (0, 4)" "gd_role demo_guilds 3 = Some (0, 3)"
  and demo_coins: "coins_of demo_guilds 1 = Some 499000" "coins_of demo_guilds 2 = Some 0x7FFFFFFA"
  and demo_balance: "balance_of demo_guilds 0 = Some 990"
  and demo_online: "gd_online demo_guilds 1" "gd_online demo_guilds 2" "gd_online demo_guilds 3"
  and demo_hi: "gw_hi demo_guilds \<noteq> -1"
  and demo_guild: "\<exists>g. gw_guilds demo_guilds 0 = Some g \<and> gd_leader g = 1 \<and> length (gd_members g) = 3 \<and> FindHighestRank g \<noteq> None"
  using demo_facts by (auto simp: demo_view_def)

lemma role_guild: "gd_role w p = Some (gp, n) \<Longrightarrow> \<exists>i. gw_infos w p = Some i \<and> gi_guild i = Some gp"
  by (auto simp: gd_role_def bind_eq_Some_conv)

section \<open>The rules are kept\<close>

text \<open>
  C4. Refinement: whatever packet, login, logout or deletion happens in a reachable world, the roster (who
  is in which guild with which rank, and who leads it) is unchanged or changed by one step of the
  rules: founding with members of no guild, joining and leaving of one's own accord, expulsion and
  change of rank from above, a mastership handed on by the master, and the end of a guild by its master.
\<close>

theorem gd_obeys_rules:
  assumes "gd_reach C w" "gw_hi w \<noteq> -1" "event_named w ev" "gd_do cf now ev w = Some w'"
  shows "gd_roster w' = gd_roster w \<or> guild_rule (gd_actor ev) (gd_roster w) (gd_roster w')"
  using do_obeys [OF gd_reach_ok [OF assms(1)] assms(2,3), of cf now] assms(4) by (simp add: lawful_def)

theorem gd_obeys_rules_witness:
  "\<exists>w'. gd_do demo_conf 200000 (EvPacket 1 (GdRemove (Some 2))) demo_guilds = Some w' \<and>
    (gd_roster w' = gd_roster demo_guilds \<or> guild_rule 1 (gd_roster demo_guilds) (gd_roster w'))"
proof -
  let ?ev = "EvPacket 1 (GdRemove (Some 2))"
  have named: "event_named demo_guilds ?ev" using role_guild [OF demo_role(2)] by auto
  obtain w' where "gd_do demo_conf 200000 ?ev demo_guilds = Some w'"
    using do_obeys [OF gd_reach_ok [OF gd_demo_reach] demo_hi named, of demo_conf 200000] by (auto simp: obeys_def)
  with gd_obeys_rules [OF gd_demo_reach demo_hi named this] show ?thesis by auto
qed

text \<open>
  C13. Consistency: in a reachable world the member table of a guild and the player infos agree in both
  directions; a member's rank is a live rank, found in the slot its id names, and only the guild master
  has rank 0; there are ten rank slots, the bank has as many tabs as it counts and at most six, and
  guild ids do not repeat.
\<close>

theorem gd_consistent:
  assumes "gd_reach C w" "gw_guilds w gp = Some g"
  shows "(\<forall>p. (\<exists>i. gw_infos w p = Some i \<and> gi_guild i = Some gp) \<longleftrightarrow> p \<in> fst ` set (gd_members g)) \<and>
    (\<forall>(p, mp) \<in> set (gd_members g). \<exists>m r i. gw_members w mp = Some m \<and> mb_player m = p \<and> gw_infos w p = Some i \<and>
       gi_member i = Some mp \<and> gi_rank i = Some (mb_rank m) \<and> gw_ranks w (mb_rank m) = Some r \<and>
       gd_ranks g ! unat (rk_id r) = Some (mb_rank m) \<and> (rk_id r = 0 \<longrightarrow> p = gd_leader g)) \<and>
    length (gd_ranks g) = MAX_GUILD_RANKS \<and> unat (gd_tabcount g) = length (gd_tabs g) \<and> length (gd_tabs g) \<le> MAX_GUILD_BANK_TABS \<and>
    (\<forall>gp' g'. gp' \<noteq> gp \<and> gw_guilds w gp' = Some g' \<longrightarrow> gd_id g' \<noteq> gd_id g)"
proof (intro conjI)
  note ok = gd_reach_ok [OF assms(1)]
  note d = gd_okD [OF ok assms(2)]
  have info: "\<exists>i. gw_infos w p = Some i \<and> gi_guild i = Some gp" if "p \<in> fst ` set (gd_members g)" for p
    using that d(5) by (fastforce simp: member_ok_def)
  then show "\<forall>p. (\<exists>i. gw_infos w p = Some i \<and> gi_guild i = Some gp) \<longleftrightarrow> p \<in> fst ` set (gd_members g)"
    using info_key [OF ok _ _ assms(2)] by blast
  show "\<forall>(p, mp) \<in> set (gd_members g). \<exists>m r i. gw_members w mp = Some m \<and> mb_player m = p \<and> gw_infos w p = Some i \<and>
       gi_member i = Some mp \<and> gi_rank i = Some (mb_rank m) \<and> gw_ranks w (mb_rank m) = Some r \<and>
       gd_ranks g ! unat (rk_id r) = Some (mb_rank m) \<and> (rk_id r = 0 \<longrightarrow> p = gd_leader g)"
  proof (clarify)
    fix p mp assume "(p, mp) \<in> set (gd_members g)"
    from d(5) [OF this] obtain m r i where m: "gw_members w mp = Some m" "mb_player m = p" "gw_infos w p = Some i"
      "gi_member i = Some mp" "gi_rank i = Some (mb_rank m)" "gw_ranks w (mb_rank m) = Some r" "rk_id r = 0 \<longrightarrow> p = gd_leader g"
      "Some (mb_rank m) \<in> set (gd_ranks g)" by (auto simp: member_ok_def)
    moreover have "gd_ranks g ! unat (rk_id r) = Some (mb_rank m)"
      by (rule rank_in_slots [OF d(2) m(8)]) (use m(6) in simp)
    ultimately show "\<exists>m r i. gw_members w mp = Some m \<and> mb_player m = p \<and> gw_infos w p = Some i \<and>
       gi_member i = Some mp \<and> gi_rank i = Some (mb_rank m) \<and> gw_ranks w (mb_rank m) = Some r \<and>
       gd_ranks g ! unat (rk_id r) = Some (mb_rank m) \<and> (rk_id r = 0 \<longrightarrow> p = gd_leader g)" by blast
  qed
  show "length (gd_ranks g) = MAX_GUILD_RANKS" using d(2) by (simp add: ranks_ok_def slots_ok_def)
  show "unat (gd_tabcount g) = length (gd_tabs g)" "length (gd_tabs g) \<le> MAX_GUILD_BANK_TABS" using d(3) by (simp_all add: tabs_ok_def)
  show "\<forall>gp' g'. gp' \<noteq> gp \<and> gw_guilds w gp' = Some g' \<longrightarrow> gd_id g' \<noteq> gd_id g"
    using ok assms(2) by (auto simp: gd_ok_def guilds_apart_def apart_def)
qed

theorem gd_consistent_witness:
  "\<exists>g. gw_guilds demo_guilds 0 = Some g \<and> length (gd_members g) = 3 \<and>
    (\<forall>p. (\<exists>i. gw_infos demo_guilds p = Some i \<and> gi_guild i = Some 0) \<longleftrightarrow> p \<in> fst ` set (gd_members g))"
proof -
  obtain g where "gw_guilds demo_guilds 0 = Some g" "length (gd_members g) = 3" using demo_guild by blast
  with gd_consistent [OF gd_demo_reach this(1)] show ?thesis by blast
qed

text \<open>
  C5. No dangling pointer: in a reachable world every event is defined; no freed or null guild, rank,
  member or player info is used, and no rank or tab slot out of range.
\<close>

theorem gd_no_dangling:
  assumes "gd_reach C w" "gw_hi w \<noteq> -1" "event_named w ev"
  shows "\<exists>w'. gd_do cf now ev w = Some w'"
  using do_obeys [OF gd_reach_ok [OF assms(1)] assms(2,3), of cf now] by (auto simp: obeys_def)

theorem gd_no_dangling_witness: "\<exists>w'. gd_do demo_conf 200000 (EvPacket 1 GdDisband) demo_guilds = Some w'"
  by (rule gd_no_dangling [OF gd_demo_reach demo_hi]) simp

lemma rule_authority:
  assumes "guild_rule c s s'" "p \<noteq> c" "ro_role s p = Some (gp, n)" "ro_role s' p \<noteq> Some (gp, n)"
  shows "ro_master s gp = Some c \<or> (\<exists>k. ro_role s c = Some (gp, k) \<and> (k = 0 \<or> k < n \<and> (\<forall>x. ro_role s' p = Some x \<longrightarrow> fst x = gp \<and> k < snd x)))"
  using assms by (cases rule: guild_rule.cases) (auto simp: with_members_def split: if_splits option.splits)

lemma rank_0_leads: "gd_ok w \<Longrightarrow> gd_role w p = Some (gp, 0) \<Longrightarrow> \<exists>g. gw_guilds w gp = Some g \<and> gd_leader g = p"
proof -
  assume ok: "gd_ok w" and rl: "gd_role w p = Some (gp, 0)"
  obtain i where i: "gw_infos w p = Some i" "gi_guild i = Some gp" using role_guild [OF rl] by blast
  obtain g mp m r where p: "gw_guilds w gp = Some g" "(p, mp) \<in> set (gd_members g)" "map_of (gd_members g) p = Some mp"
    "gi_member i = Some mp" "gw_members w mp = Some m" "mb_player m = p" "gi_rank i = Some (mb_rank m)"
    "Some (mb_rank m) \<in> set (gd_ranks g)" "gw_ranks w (mb_rank m) = Some r" "rank_of w p = Some r" "rk_id r = 0 \<longrightarrow> p = gd_leader g"
    using player_pointers [OF ok i] .
  have "rk_id r = 0" using rl i p(10) by (simp add: gd_role_def)
  then show ?thesis using p(1,11) by blast
qed

text \<open>
  C11. Authority: when a packet of one player changes the guild or the rank of another, the sender is
  the master of that guild, or one of its members with a higher rank, and the new rank, if the other is
  still in the guild, is below the sender's.
\<close>

theorem gd_authority:
  assumes "gd_reach C w" "gw_hi w \<noteq> -1" "op_named w op" "gd_do cf now (EvPacket c op) w = Some w'"
    and "p \<noteq> c" "gd_role w p = Some (gp, n)" "gd_role w' p \<noteq> Some (gp, n)"
  shows "(\<exists>g. gw_guilds w gp = Some g \<and> gd_leader g = c) \<or>
    (\<exists>k. gd_role w c = Some (gp, k) \<and> k < n \<and> (\<forall>x. gd_role w' p = Some x \<longrightarrow> fst x = gp \<and> k < snd x))"
proof -
  note ok = gd_reach_ok [OF assms(1)]
  have "lawful c w w'" using do_obeys [OF ok assms(2), of "EvPacket c op" cf now] assms(3,4) by simp
  then have "guild_rule c (gd_roster w) (gd_roster w')" using assms(6,7) by (auto simp: lawful_def gd_roster_def fun_eq_iff)
  from rule_authority [OF this assms(5), of gp n] assms(6,7)
  have "map_option gd_leader (gw_guilds w gp) = Some c \<or>
      (\<exists>k. gd_role w c = Some (gp, k) \<and> (k = 0 \<or> k < n \<and> (\<forall>x. gd_role w' p = Some x \<longrightarrow> fst x = gp \<and> k < snd x)))"
    by (simp add: gd_roster_def)
  then show ?thesis using rank_0_leads [OF ok] by auto
qed

lemma demo_expelled: "map_option (\<lambda>w. Option.is_none (gd_role w 2)) (gd_do demo_conf 200000 (EvPacket 1 (GdRemove (Some 2))) demo_guilds) = Some True"
  by code_simp

theorem gd_authority_witness:
  "\<exists>w'. gd_do demo_conf 200000 (EvPacket 1 (GdRemove (Some 2))) demo_guilds = Some w' \<and> gd_role w' 2 = None \<and>
    ((\<exists>g. gw_guilds demo_guilds 0 = Some g \<and> gd_leader g = 1) \<or>
     (\<exists>k. gd_role demo_guilds 1 = Some (0, k) \<and> k < 4 \<and> (\<forall>x. gd_role w' 2 = Some x \<longrightarrow> fst x = 0 \<and> k < snd x)))"
proof -
  have named: "op_named demo_guilds (GdRemove (Some 2))" using role_guild [OF demo_role(2)] by auto
  obtain w' where w': "gd_do demo_conf 200000 (EvPacket 1 (GdRemove (Some 2))) demo_guilds = Some w'" "gd_role w' 2 = None"
    using demo_expelled by (auto simp: Option.is_none_def simp del: gd_do.simps)
  then have "gd_role w' 2 \<noteq> Some (0, 4)" by simp
  from gd_authority [OF gd_demo_reach demo_hi named w'(1) _ demo_role(2) this] w' show ?thesis by (simp del: gd_do.simps)
qed

section \<open>Where the money goes\<close>

text \<open>
  C23. Money is conserved: as long as a member's coins and the bank's balance together stay below
  2147483648 copper, a deposit or a withdrawal, whether it is carried out or refused, keeps their sum.
\<close>

theorem gd_money_conserved:
  assumes "gd_reach C w" "gd_online w c" "gd_role w c = Some (gp, k)" "coins_of w c = Some n" "balance_of w gp = Some b"
    and "unat n + unat b < 2 ^ 31" "op = GdDeposit amt \<or> op = GdWithdraw amt"
  shows "\<exists>w' n' b'. gd_handle cf now c op w = Some w' \<and> coins_of w' c = Some n' \<and> balance_of w' gp = Some b' \<and>
    unat n' + unat b' = unat n + unat b"
proof -
  note ok = gd_reach_ok [OF assms(1)]
  obtain i where i: "gw_infos w c = Some i" "gi_guild i = Some gp" using role_guild [OF assms(3)] by blast
  from assms(7) show ?thesis
  proof
    assume op: "op = GdDeposit amt"
    obtain w' where w': "gd_handle cf now c op w = Some w'" "if n < amt \<or> amt = 0 then w' = w
        else coins_of w' c = Some (ModUnsigned32Value n (- amt)) \<and> balance_of w' gp = Some (b + amt)"
      using deposit_money [OF ok assms(2) i assms(4,5), of cf now amt] op by blast
    show ?thesis
    proof (cases "n < amt \<or> amt = 0")
      case False
      then have le: "unat amt \<le> unat n" by (simp add: not_less word_le_nat_alt)
      then have "unat (b + amt) = unat b + unat amt" using assms(6) by (simp add: unat_word_ariths)
      moreover have "unat (ModUnsigned32Value n (- amt)) = unat n - unat amt" by (rule coins_off [OF le]) (use assms(6) in simp)
      ultimately show ?thesis using w' False le by auto
    qed (use w' assms(4,5) in auto)
  next
    assume op: "op = GdWithdraw amt"
    obtain g mp m r w' where w': "gd_handle cf now c op w = Some w'" "gw_guilds w gp = Some g"
      "if may_withdraw now amt g r m
        then coins_of w' c = Some (ModUnsigned32Value n amt) \<and> balance_of w' gp = Some (b - amt) \<and>
          strip w' = strip (balanced gp (b - amt) (paid c amt (counted now amt mp w)))
        else strip w' = strip w"
      using withdraw_money [OF ok assms(2) i assms(4,5), of cf now amt] op by metis
    show ?thesis
    proof (cases "may_withdraw now amt g r m")
      case True
      then have le: "unat amt \<le> unat b" using w'(2) assms(5) by (simp add: may_withdraw_def balance_of_def word_le_nat_alt)
      then have "unat (b - amt) = unat b - unat amt" by (simp add: unat_sub word_le_nat_alt)
      moreover have "unat (ModUnsigned32Value n amt) = unat n + unat amt" by (rule coins_on) (use assms(6) le in simp)
      ultimately show ?thesis using w' True le by auto
    next
      case False
      then have "strip w' = strip w" using w'(3) by simp
      from money_same [OF this, of c gp] show ?thesis using w'(1) assms(4,5) by auto
    qed
  qed
qed

theorem gd_money_conserved_witness:
  "\<exists>w' n' b'. gd_handle demo_conf 200000 1 (GdDeposit 5000) demo_guilds = Some w' \<and> coins_of w' 1 = Some n' \<and>
    balance_of w' 0 = Some b' \<and> unat n' + unat b' = 499990"
  using gd_money_conserved [OF gd_demo_reach demo_online(1) demo_role(1) demo_coins(1) demo_balance, of "GdDeposit 5000" 5000 demo_conf 200000]
  by simp

text \<open>
  Money is destroyed: the purse is a signed field, so a withdrawal by the master that takes it to
  2147483648 copper or more leaves the purse empty, and the amount is gone from the bank all the same.
\<close>

theorem gd_money_destroyed:
  assumes "gd_reach C w" "gd_online w c" "gd_role w c = Some (gp, 0)" "coins_of w c = Some n" "balance_of w gp = Some b"
    and "amt \<noteq> 0" "amt \<le> b" "2 ^ 31 \<le> unat n + unat amt" "unat n + unat amt < 2 ^ 32"
  shows "\<exists>w'. gd_handle cf now c (GdWithdraw amt) w = Some w' \<and> coins_of w' c = Some 0 \<and> balance_of w' gp = Some (b - amt)"
proof -
  note ok = gd_reach_ok [OF assms(1)]
  obtain i where i: "gw_infos w c = Some i" "gi_guild i = Some gp" using role_guild [OF assms(3)] by blast
  obtain g mp m r w' where w': "gd_handle cf now c (GdWithdraw amt) w = Some w'" "gw_guilds w gp = Some g" "gd_role w c = Some (gp, rk_id r)"
    "if may_withdraw now amt g r m
      then coins_of w' c = Some (ModUnsigned32Value n amt) \<and> balance_of w' gp = Some (b - amt) \<and>
        strip w' = strip (balanced gp (b - amt) (paid c amt (counted now amt mp w)))
      else strip w' = strip w"
    using withdraw_money [OF ok assms(2) i assms(4,5), of cf now amt] by metis
  have "may_withdraw now amt g r m" using assms(3,5-7) w'(2,3) by (simp add: may_withdraw_def balance_of_def)
  then show ?thesis using w'(1,4) coins_lost [OF assms(8,9,6)] by simp
qed

lemma set_coins_money: "coins_of (set_coins p n w) p = map_option (\<lambda>_. n) (coins_of w p)" "balance_of (set_coins p n w) gp = balance_of w gp"
proof -
  show "coins_of (set_coins p n w) p = map_option (\<lambda>_. n) (coins_of w p)"
  proof (cases "gw_infos w p")
    case (Some i)
    then show ?thesis by (cases "gi_online i") (simp_all add: coins_of_def set_coins_def put_ginfo_def)
  qed (simp add: coins_of_def set_coins_def)
qed (simp add: balance_of_def)

lemma set_coins_role: "gd_role (set_coins p n w) q = gd_role w q"
  using roster_alike [of w "set_coins p n w"] by (simp add: gd_roster_def fun_eq_iff)

theorem gd_money_destroyed_witness:
  "\<exists>w'. gd_handle demo_conf 200000 1 (GdWithdraw 900) (set_coins 1 0x7FFFFFF0 demo_guilds) = Some w' \<and> coins_of w' 1 = Some 0 \<and>
    balance_of w' 0 = Some 90"
proof -
  let ?w = "set_coins 1 0x7FFFFFF0 demo_guilds"
  have reach: "gd_reach anything ?w"
    by (rule gd_next [OF gd_demo_reach demo_hi, where ev = "EvCoins 1 0x7FFFFFF0" and cf = demo_conf and now = 0]) (simp_all add: anything_def)
  have online: "gd_online ?w 1" using demo_online(1)
    by (auto simp: gd_online_def set_coins_def put_ginfo_def split: option.splits)
  have "gd_role ?w 1 = Some (0, 0)" "coins_of ?w 1 = Some 0x7FFFFFF0" "balance_of ?w 0 = Some 990"
    using demo_role(1) demo_coins(1) demo_balance by (simp_all add: set_coins_role set_coins_money)
  from gd_money_destroyed [OF reach online this, of 900 demo_conf 200000] show ?thesis by simp
qed

text \<open>
  C34. The daily limit is not one: a withdrawal within the day of the first one counts as one copper, not
  as the amount (\<open>OnMoneyWithdraw\<close> increments the counter), so that the amount that remains available
  goes down by 1 whatever was taken.
\<close>

theorem gd_limit_evaded:
  assumes "gd_reach C w" "gd_online w c" "gd_role w c = Some (gp, k)" "k \<noteq> 0" "balance_of w gp = Some b"
    and "gw_infos w c = Some i" "gi_member i = Some mp" "gw_members w mp = Some m" "gw_ranks w (mb_rank m) = Some r" "0 < sint (rk_gold r)"
    and "uint (mb_wreset m) \<le> now" "now < uint (mb_wreset m) + TIME_DAY" "now < 2 ^ 32"
    and "amt \<noteq> 0" "amt \<le> b" "amt \<le> CalculateAvailableAmount now r m"
  shows "\<exists>w' m'. gd_handle cf now c (GdWithdraw amt) w = Some w' \<and> balance_of w' gp = Some (b - amt) \<and> gw_members w' mp = Some m' \<and>
    CalculateAvailableAmount now r m' = CalculateAvailableAmount now r m - 1"
proof -
  note ok = gd_reach_ok [OF assms(1)]
  have gi: "gi_guild i = Some gp" using role_guild [OF assms(3)] assms(6) by auto
  obtain n where n: "coins_of w c = Some n" using gd_onlineD [OF assms(2)] assms(6) by (auto simp: coins_of_def)
  obtain g mp' m' r' w' where g: "gw_guilds w gp = Some g" "gi_member i = Some mp'" "gw_members w mp' = Some m'" "gw_ranks w (mb_rank m') = Some r'"
    "gd_role w c = Some (gp, rk_id r')" and w': "gd_handle cf now c (GdWithdraw amt) w = Some w'"
    "if may_withdraw now amt g r' m'
      then coins_of w' c = Some (ModUnsigned32Value n amt) \<and> balance_of w' gp = Some (b - amt) \<and>
        strip w' = strip (balanced gp (b - amt) (paid c amt (counted now amt mp' w)))
      else strip w' = strip w"
    using withdraw_money [OF ok assms(2,6) gi n assms(5), of cf now amt] by metis
  have eq: "mp' = mp" "m' = m" "r' = r" "gd_balance g = b" using g assms(5,7-9) by (auto simp: balance_of_def)
  have gold: "rk_gold r \<noteq> 0" "rk_gold r \<noteq> -1" using assms(10) by auto
  have "may_withdraw now amt g r m" using assms(3,4,14-16) g(5) eq gold by (simp add: may_withdraw_def)
  then have bal: "balance_of w' gp = Some (b - amt)" and s: "strip w' = strip (balanced gp (b - amt) (paid c amt (counted now amt mp w)))"
    using w'(2) eq by simp_all
  have "0 \<le> now" using assms(11) uint_ge_0 [of "mb_wreset m"] by linarith
  then have day: "\<not> TIME_DAY \<le> uint (word_of_int now - mb_wreset m)"
    using assms(11-13) by (simp add: uint_word_ariths unsigned_of_int take_bit_int_eq_self TIME_DAY_def)
  have "gw_members w' mp = gw_members (counted now amt mp w) mp" using arg_cong [OF s, of "\<lambda>w. gw_members w mp"] by (simp del: strip_counted strip_balanced strip_cores)
  also have "\<dots> = Some (tick_count now amt m)"
    using assms(8-10) by (simp add: counted_def noted_def put_member_def)
  finally have m': "gw_members w' mp = Some (tick_count now amt m)" .
  have "CalculateAvailableAmount now r (tick_count now amt m) = CalculateAvailableAmount now r m - 1"
    using day gold assms(12) by (simp add: CalculateAvailableAmount_def tick_count_def Let_def)
  with w'(1) bal m' show ?thesis by blast
qed

theorem gd_limit_evaded_witness:
  "\<exists>w' m' r. gd_handle demo_conf 200000 2 (GdWithdraw 40) demo_guilds = Some w' \<and> balance_of w' 0 = Some 950 \<and>
    gw_members w' 7 = Some m' \<and> rk_gold r = 50 \<and> CalculateAvailableAmount 200000 r m' = 39"
proof -
  obtain i m r where *: "gw_infos demo_guilds 2 = Some i" "gi_member i = Some 7" "gw_members demo_guilds 7 = Some m"
    "gw_ranks demo_guilds (mb_rank m) = Some r" "mb_wreset m = 200000" "mb_wcount m = 10" "rk_gold r = 50"
    using demo_facts by (auto simp: demo_view_def bind_eq_Some_conv)
  have "CalculateAvailableAmount 200000 r m = 40" using *(5-7) by (simp add: CalculateAvailableAmount_def TIME_DAY_def)
  with gd_limit_evaded [OF gd_demo_reach demo_online(2) demo_role(2) _ demo_balance *(1-4), of 200000 40 demo_conf] *(5-7)
  show ?thesis by (auto simp: TIME_DAY_def)
qed

section \<open>A guild without a master\<close>

text \<open>
  C36. A guild can lose its master: \<open>ChangeGuildMaster\<close> to oneself gives the master the first rank below,
  after which nobody has rank 0; the master may then leave like any member, and a guild remains that
  is led by a player outside it.
\<close>

theorem gd_leaderless:
  assumes "gd_reach C w" "gd_role w c = Some (gp, 0)" "gw_guilds w gp = Some g" "FindHighestRank g \<noteq> None"
  shows "\<exists>w1 w2. gd_handle cf now c (GdLeader (Some c)) w = Some w1 \<and> (\<forall>p. gd_role w1 p \<noteq> Some (gp, 0)) \<and>
    gd_handle cf now c GdLeave w1 = Some w2 \<and> gd_role w2 c = None \<and> map_option gd_leader (gw_guilds w2 gp) = Some c"
proof -
  note ok = gd_reach_ok [OF assms(1)]
  obtain i where i: "gw_infos w c = Some i" "gi_guild i = Some gp" using role_guild [OF assms(2)] by blast
  have lead: "gd_leader g = c" using rank_0_leads [OF ok assms(2)] assms(3) by simp
  obtain w1 mp mc tp rp r where w1: "ChangeGuildMaster gp c c w = Some w1" "may_crown w gp g c mp c mc tp rp r" "w1 = crowned gp g c mp c mc tp rp r w"
    using crown_ok [OF ok i i] lead assms(3,4) by (auto simp: may_crown_def)
  have ok1: "gd_ok w1" unfolding w1(3) by (rule gd_ok_crowned [OF ok w1(2)])
  have rid: "rk_id r \<noteq> 0" using w1(2) by (simp add: may_crown_def)
  have ro: "gd_roster w1 = gd_roster w\<lparr> ro_role := (ro_role (gd_roster w))(c \<mapsto> (gp, 0), c \<mapsto> (gp, rk_id r)),
      ro_master := (ro_master (gd_roster w))(gp \<mapsto> c) \<rparr>" unfolding w1(3) by (rule roster_crowned_eq [OF ok w1(2)])
  then have role: "gd_role w1 = (gd_role w)(c \<mapsto> (gp, rk_id r))" and master: "map_option gd_leader (gw_guilds w1 gp) = Some c"
    by (simp_all add: gd_roster_def fun_eq_iff)
  have none: "gd_role w1 p \<noteq> Some (gp, 0)" for p
    using rank_0_leads [OF ok, of p gp] assms(3) lead rid by (auto simp: role)
  have h1: "gd_handle cf now c (GdLeader (Some c)) w = Some w1"
    using w1(1) i lead assms(3) by (simp add: own_guild_def on_player_def HandleGuildLeader_def as_leader_def)
  have "gd_role w1 c = Some (gp, rk_id r)" by (simp add: role)
  then obtain i1 r1 where i1: "gw_infos w1 c = Some i1" "gi_guild i1 = Some gp" "rank_of w1 c = Some r1" "rk_id r1 = rk_id r"
    by (auto simp: gd_role_def bind_eq_Some_conv)
  have "may_remove gp c (Some c) w1 = Some (Inr ())" using i1 rid by (simp add: may_remove_def)
  then obtain w2 g1 mq where w2: "RemoveGuildMember now gp c (Some c) w1 = Some w2" "gw_guilds w1 gp = Some g1"
    "strip w2 = strip (dismissed gp g1 c mq i1 w1)" using removal_ok [OF ok1 i1(1,2)] by blast
  have ro2: "gd_roster w2 = gd_roster w1\<lparr> ro_role := (ro_role (gd_roster w1))(c := None) \<rparr>"
    using roster_strip [OF w2(3)] roster_dismissed [OF w2(2)] by simp
  then have "gd_role w2 c = None" "map_option gd_leader (gw_guilds w2 gp) = Some c"
    using master by (simp_all add: gd_roster_def fun_eq_iff)
  moreover have "gd_handle cf now c GdLeave w1 = Some w2" using w2(1) i1 by (simp add: own_guild_def)
  ultimately show ?thesis using h1 none by blast
qed

theorem gd_leaderless_witness:
  "\<exists>w1 w2. gd_handle demo_conf 200000 1 (GdLeader (Some 1)) demo_guilds = Some w1 \<and> (\<forall>p. gd_role w1 p \<noteq> Some (0, 0)) \<and>
    gd_handle demo_conf 200000 1 GdLeave w1 = Some w2 \<and> gd_role w2 1 = None \<and> map_option gd_leader (gw_guilds w2 0) = Some 1"
proof -
  obtain g where "gw_guilds demo_guilds 0 = Some g" "FindHighestRank g \<noteq> None" using demo_guild by blast
  from gd_leaderless [OF gd_demo_reach demo_role(1) this] show ?thesis by blast
qed

end
