(* ===== verification/HS_Items.thy ===== *)
theory HS_Items
  imports HS_Prelude
begin

text \<open>
  Items and inventories: \<open>Item.cpp\<close>, \<open>Container.cpp\<close> and \<open>ItemInterface.cpp\<close>. A player's inventory is
  the array \<open>m_pItems[MAX_INVENTORY_SLOT]\<close> of pointers to items; a bag is an item with an array
  \<open>m_Slot[72]\<close> of its own. Items are cells of a heap, so an access to a destroyed item, to a slot
  outside an array or through a null pointer is \<^term>\<open>None\<close>. A player is named by its low guid; its
  update fields that mirror the slots are part of its inventory, and what an operation does to the rest of
  the player (stat mods, packets) is a list of effects.

  Every item has a prototype (\<open>Create\<close> and \<open>LoadFromDB\<close> assert it). \<open>int8\<close> slot numbers are integers.
  Of the row of an item in \<open>playeritems\<close> the columns the operations read are kept; charges, durability,
  random properties and enchantments are left out.
\<close>

section \<open>State\<close>

record item_proto =
  pr_ItemId :: u32
  pr_InventoryType :: u32
  pr_Class :: u32
  pr_BagFamily :: u32
  pr_ContainerSlots :: u32
  pr_MaxCount :: u32
  pr_Unique :: u32
  pr_Bonding :: u32
  pr_Flags :: u32
  pr_SellPrice :: u32
  pr_Name1 :: string

record item =
  it_guid :: u64
  it_proto :: item_proto
  it_container :: bool
  it_owner :: "u32 option"
  it_owner_field :: u64
  it_contained :: u64
  it_stack :: u32
  it_flags :: u32
  it_wrapped :: u32
  it_text :: u32
  it_dirty :: bool
  it_world :: bool
  it_num_slots :: u32
  it_slots :: "nat option list"
  it_slot_fields :: "u64 list"

text \<open>\<open>SlotResult\<close>: the container slot, the slot, and whether there is one.\<close>

record slot_result =
  sr_ContainerSlot :: int
  sr_Slot :: int
  sr_Result :: bool

text \<open>\<open>ItemInterface\<close>, the slot fields of its owner, and whether the owner is in the world.\<close>

record inventory =
  iv_items :: "nat option list"
  iv_fields :: "u64 list"
  iv_result :: slot_result
  iv_world :: bool

record item_row =
  ir_owner :: u32
  ir_entry :: u32
  ir_wrapped :: u32
  ir_count :: u32
  ir_flags :: u32
  ir_text :: u32
  ir_containerslot :: int
  ir_slot :: int

text \<open>Effects on the rest of a player.\<close>

datatype item_fx =
    FxCreate u32 nat
  | FxDestroy u32 u64
  | FxMods u32 nat int bool
  | FxVisible u32 int "nat option"
  | FxDualWield u32 bool
  | FxOwn u32 u32 u32
  | FxDuplicated u32 string
  | FxCancelSpell u32

record item_world =
  iw_heap :: "nat \<Rightarrow> item option"
  iw_next :: nat
  iw_inv :: "u32 \<Rightarrow> inventory"
  iw_rows :: "u32 \<Rightarrow> item_row option"
  iw_out :: "item_fx list"

definition MAX_INVENTORY_SLOT :: nat where "MAX_INVENTORY_SLOT = 118"
definition EQUIPMENT_SLOT_OFFHAND :: int where "EQUIPMENT_SLOT_OFFHAND = 16"
definition EQUIPMENT_SLOT_END :: int where "EQUIPMENT_SLOT_END = 19"
definition INVENTORY_SLOT_BAG_START :: int where "INVENTORY_SLOT_BAG_START = 19"
definition INVENTORY_SLOT_BAG_END :: int where "INVENTORY_SLOT_BAG_END = 23"
definition INVENTORY_SLOT_ITEM_START :: int where "INVENTORY_SLOT_ITEM_START = 23"
definition INVENTORY_SLOT_ITEM_END :: int where "INVENTORY_SLOT_ITEM_END = 39"
definition BANK_SLOT_ITEM_START :: int where "BANK_SLOT_ITEM_START = 39"
definition BANK_SLOT_ITEM_END :: int where "BANK_SLOT_ITEM_END = 67"
definition BANK_SLOT_BAG_START :: int where "BANK_SLOT_BAG_START = 67"
definition BANK_SLOT_BAG_END :: int where "BANK_SLOT_BAG_END = 74"
definition INVENTORY_KEYRING_START :: int where "INVENTORY_KEYRING_START = 86"
definition INVENTORY_KEYRING_END :: int where "INVENTORY_KEYRING_END = 118"
definition INVENTORY_SLOT_NOT_SET :: int where "INVENTORY_SLOT_NOT_SET = -1"
definition ITEM_NO_SLOT_AVAILABLE :: int where "ITEM_NO_SLOT_AVAILABLE = -1"
definition ITEM_TYPE_KEYRING :: u32 where "ITEM_TYPE_KEYRING = 256"
definition ITEM_BIND_ON_PICKUP :: u32 where "ITEM_BIND_ON_PICKUP = 1"
definition ITEM_BIND_ON_EQUIP :: u32 where "ITEM_BIND_ON_EQUIP = 2"
definition ITEM_CLASS_WEAPON :: u32 where "ITEM_CLASS_WEAPON = 2"
definition ITEM_CLASS_QUIVER :: u32 where "ITEM_CLASS_QUIVER = 11"
definition ITEM_FLAG_SOULBOUND :: u32 where "ITEM_FLAG_SOULBOUND = 1"
definition ITEM_FLAG_CONJURED :: u32 where "ITEM_FLAG_CONJURED = 2"
definition ITEM_FLAG_QUEST :: u32 where "ITEM_FLAG_QUEST = 0x800"
definition INVTYPE_BAG :: u32 where "INVTYPE_BAG = 0x12"

lemmas item_consts = MAX_INVENTORY_SLOT_def EQUIPMENT_SLOT_OFFHAND_def EQUIPMENT_SLOT_END_def
  INVENTORY_SLOT_BAG_START_def INVENTORY_SLOT_BAG_END_def INVENTORY_SLOT_ITEM_START_def
  INVENTORY_SLOT_ITEM_END_def BANK_SLOT_ITEM_START_def BANK_SLOT_ITEM_END_def BANK_SLOT_BAG_START_def
  BANK_SLOT_BAG_END_def INVENTORY_KEYRING_START_def INVENTORY_KEYRING_END_def INVENTORY_SLOT_NOT_SET_def
  ITEM_NO_SLOT_AVAILABLE_def

text \<open>The loops \<open>for (i = a; i < b; i++)\<close> over slots.\<close>

definition slots :: "int \<Rightarrow> int \<Rightarrow> int list" where "slots a b = [a..b - 1]"

text \<open>
  A loop that returns from inside: \<open>None\<close> is undefined behaviour, \<open>Some None\<close> goes on. \<open>or_else\<close> is one
  such loop behind another.
\<close>

fun first_in :: "('i \<Rightarrow> 'r option option) \<Rightarrow> 'i list \<Rightarrow> 'r option option" where
  "first_in f [] = Some None"
| "first_in f (i # js) = (case f i of None \<Rightarrow> None | Some None \<Rightarrow> first_in f js | Some (Some r) \<Rightarrow> Some (Some r))"

definition or_else :: "'r option option \<Rightarrow> 'r option option \<Rightarrow> 'r option option" where
  "or_else f g = (case f of None \<Rightarrow> None | Some None \<Rightarrow> g | Some (Some r) \<Rightarrow> Some (Some r))"

text \<open>The same for a loop that changes the state: \<open>Inl\<close> is the returned value with the state.\<close>

fun for_return :: "('i \<Rightarrow> 's \<Rightarrow> ('r + 's) option) \<Rightarrow> 'i list \<Rightarrow> 's \<Rightarrow> ('r + 's) option" where
  "for_return f [] s = Some (Inr s)"
| "for_return f (i # js) s = (case f i s of None \<Rightarrow> None | Some (Inr s') \<Rightarrow> for_return f js s' | Some (Inl r) \<Rightarrow> Some (Inl r))"

definition mem_at :: "'a list \<Rightarrow> int \<Rightarrow> 'a option" where
  "mem_at xs i = (if 0 \<le> i \<and> nat i < length xs then Some (xs ! nat i) else None)"

definition mem_put :: "'a list \<Rightarrow> int \<Rightarrow> 'a \<Rightarrow> 'a list option" where
  "mem_put xs i x = (if 0 \<le> i \<and> nat i < length xs then Some (xs[nat i := x]) else None)"

definition upd_item :: "nat \<Rightarrow> (item \<Rightarrow> item) \<Rightarrow> item_world \<Rightarrow> item_world" where
  "upd_item a f w = w\<lparr> iw_heap := (iw_heap w)(a := map_option f (iw_heap w a)) \<rparr>"

definition upd_inv :: "u32 \<Rightarrow> (inventory \<Rightarrow> inventory) \<Rightarrow> item_world \<Rightarrow> item_world" where
  "upd_inv p f w = w\<lparr> iw_inv := (iw_inv w)(p := f (iw_inv w p)) \<rparr>"

definition item_emit :: "item_fx \<Rightarrow> item_world \<Rightarrow> item_world" where
  "item_emit e w = w\<lparr> iw_out := iw_out w @ [e] \<rparr>"

definition low_guid :: "u64 \<Rightarrow> u32" where "low_guid g = ucast g"

section \<open>Items\<close>

definition SoulBind :: "nat \<Rightarrow> item_world \<Rightarrow> item_world" where
  "SoulBind a = upd_item a (\<lambda>it. it\<lparr> it_flags := flag_set (it_flags it) ITEM_FLAG_SOULBOUND \<rparr>)"

definition IsSoulbound :: "item \<Rightarrow> bool" where
  "IsSoulbound it = has_flag (it_flags it) (or ITEM_FLAG_QUEST ITEM_FLAG_SOULBOUND)"

definition SetOwner :: "nat \<Rightarrow> u32 option \<Rightarrow> item_world \<Rightarrow> item_world" where
  "SetOwner a ow = upd_item a (\<lambda>it. it\<lparr> it_owner_field := (case ow of Some p \<Rightarrow> ucast p | None \<Rightarrow> 0), it_owner := ow \<rparr>)"

definition RemoveFromWorld :: "nat \<Rightarrow> item_world \<Rightarrow> item_world option" where
  "RemoveFromWorld a w = do {
     it \<leftarrow> iw_heap w a;
     let w = (case it_owner it of Some p \<Rightarrow> item_emit (FxDestroy p (it_guid it)) w | None \<Rightarrow> w);
     Some (if it_world it then upd_item a (\<lambda>it. it\<lparr> it_world := False \<rparr>) w else w) }"

text \<open>\<open>Container::GetItem\<close>, \<open>HasItems\<close> and \<open>FindFreeSlot\<close>; the last two count with an \<open>int8\<close>.\<close>

definition GetItem :: "item \<Rightarrow> int \<Rightarrow> nat option option" where
  "GetItem c s = (if 0 \<le> s \<and> s < uint (pr_ContainerSlots (it_proto c)) then mem_at (it_slots c) s else Some None)"

definition total_slots :: "item \<Rightarrow> int" where
  "total_slots c = sint (ucast (it_num_slots c) :: 8 word)"

definition HasItems :: "item \<Rightarrow> bool option" where
  "HasItems c = map_option (\<lambda>r. r \<noteq> None)
     (first_in (\<lambda>i. map_option (map_option (\<lambda>_. ())) (mem_at (it_slots c) i)) (slots 0 (total_slots c)))"

definition FindFreeSlot :: "item \<Rightarrow> int option" where
  "FindFreeSlot c = map_option (\<lambda>r. case r of Some s \<Rightarrow> s | None \<Rightarrow> ITEM_NO_SLOT_AVAILABLE)
     (first_in (\<lambda>i. map_option (\<lambda>x. if x = None then Some i else None) (mem_at (it_slots c) i)) (slots 0 (total_slots c)))"

definition bag_slots :: "item \<Rightarrow> int list" where
  "bag_slots c = slots 0 (uint (pr_ContainerSlots (it_proto c)))"

text \<open>\<open>Item::DeleteFromDB\<close>: the row of a bag with contents is kept.\<close>

definition DeleteFromDB :: "nat \<Rightarrow> item_world \<Rightarrow> item_world option" where
  "DeleteFromDB a w = do {
     it \<leftarrow> iw_heap w a;
     full \<leftarrow> (if 0 < pr_ContainerSlots (it_proto it) \<and> it_container it
       then first_in (\<lambda>i. map_option (map_option (\<lambda>_. ())) (GetItem it i)) (bag_slots it) else Some None);
     Some (if full \<noteq> None then w else w\<lparr> iw_rows := (iw_rows w)(low_guid (it_guid it) := None) \<rparr>) }"

text \<open>What every removal does when the item is to be destroyed.\<close>

definition unlist :: "bool \<Rightarrow> item \<Rightarrow> nat \<Rightarrow> item_world \<Rightarrow> item_world option" where
  "unlist destroy it a w = (if destroy then do {
     w \<leftarrow> (if it_world it then RemoveFromWorld a w else Some w);
     DeleteFromDB a w } else Some w)"

text \<open>
  \<open>Destructor\<close>: a bag destroys the items in it that its owner owns. The fuel is the depth of bags in bags.
\<close>

fun destroy_item :: "nat \<Rightarrow> nat \<Rightarrow> item_world \<Rightarrow> item_world option" where
  "destroy_item 0 a w = None"
| "destroy_item (Suc n) a w = do {
     it \<leftarrow> iw_heap w a;
     w \<leftarrow> (if it_container it then foldM (\<lambda>w i. do {
          it \<leftarrow> iw_heap w a;
          x \<leftarrow> mem_at (it_slots it) i;
          case x of None \<Rightarrow> Some w
          | Some b \<Rightarrow> do { ib \<leftarrow> iw_heap w b; if it_owner ib = it_owner it then destroy_item n b w else Some w } }) w (bag_slots it)
        else Some w);
     it \<leftarrow> iw_heap w a;
     w \<leftarrow> (if it_world it then RemoveFromWorld a w else Some w);
     Some (w\<lparr> iw_heap := (iw_heap w)(a := None) \<rparr>) }"

definition Destructor :: "nat \<Rightarrow> item_world \<Rightarrow> item_world option" where
  "Destructor = destroy_item 4"

text \<open>\<open>Item::SaveToDB\<close>.\<close>

definition ItemSaveToDB :: "nat \<Rightarrow> int \<Rightarrow> int \<Rightarrow> bool \<Rightarrow> item_world \<Rightarrow> item_world option" where
  "ItemSaveToDB a cslot slot firstsave w = do {
     it \<leftarrow> iw_heap w a;
     if \<not> it_dirty it \<and> \<not> firstsave then Some w
     else Some (upd_item a (\<lambda>it. it\<lparr> it_dirty := False \<rparr>) (w\<lparr> iw_rows := (iw_rows w)(low_guid (it_guid it) \<mapsto>
       \<lparr> ir_owner = low_guid (it_owner_field it), ir_entry = pr_ItemId (it_proto it), ir_wrapped = it_wrapped it,
         ir_count = it_stack it, ir_flags = it_flags it, ir_text = it_text it,
         ir_containerslot = cslot, ir_slot = slot \<rparr>) \<rparr>)) }"

text \<open>
  \<open>ObjectMgr::LoadItem\<close>. A charter reads the player info of the player it is loaded for, which is null here.
\<close>

definition charters :: "u32 set" where "charters = {5863, 23560, 23561, 23562}"

definition new_item :: "u64 \<Rightarrow> item_proto \<Rightarrow> bool \<Rightarrow> item" where
  "new_item g pr bag = \<lparr> it_guid = g, it_proto = pr, it_container = bag, it_owner = None, it_owner_field = 0,
     it_contained = 0, it_stack = 0, it_flags = 0, it_wrapped = 0, it_text = 0, it_dirty = True, it_world = False,
     it_num_slots = 0, it_slots = (if bag then replicate 72 None else []),
     it_slot_fields = (if bag then replicate 36 0 else []) \<rparr>"

definition LoadItem :: "(u32 \<Rightarrow> item_proto option) \<Rightarrow> u32 \<Rightarrow> item_world \<Rightarrow> (item_world \<times> nat option) option" where
  "LoadItem protos g w = (case iw_rows w g of
     None \<Rightarrow> Some (w, None)
   | Some r \<Rightarrow> (case protos (ir_entry r) of
       None \<Rightarrow> Some (w, None)
     | Some pr \<Rightarrow>
         (if pr_InventoryType pr = INVTYPE_BAG
          then let it = (new_item (or (ucast (0x50000000 :: u32) * 2 ^ 32) (ucast g)) pr True)\<lparr> it_stack := 1, it_flags := ir_flags r,
                      it_num_slots := pr_ContainerSlots pr \<rparr>
               in Some (w\<lparr> iw_heap := (iw_heap w)(iw_next w \<mapsto> it), iw_next := Suc (iw_next w) \<rparr>, Some (iw_next w))
          else if ir_entry r \<in> charters then None
          else let it = (new_item (or (ucast (0x40000000 :: u32) * 2 ^ 32) (ucast g)) pr False)\<lparr> it_wrapped := ir_wrapped r,
                      it_stack := min (ir_count r) (pr_MaxCount pr), it_flags := ir_flags r, it_text := ir_text r \<rparr>
               in Some (w\<lparr> iw_heap := (iw_heap w)(iw_next w \<mapsto> it), iw_next := Suc (iw_next w) \<rparr>, Some (iw_next w)))))"

text \<open>
  \<open>ObjectMgr::CreateItem\<close> with \<open>Item::Create\<close> and \<open>Container::Create\<close>; \<open>g\<close> is the low guid that \<open>GenerateLowGuid\<close>
  gives. The constructor of a bag leaves \<open>m_isDirty\<close> as it finds it; here it is set, as that of an item.
\<close>

definition CreateItem :: "(u32 \<Rightarrow> item_proto option) \<Rightarrow> u32 \<Rightarrow> u32 \<Rightarrow> u32 option \<Rightarrow> item_world \<Rightarrow> item_world \<times> nat option" where
  "CreateItem protos g e ow w = (case protos e of
     None \<Rightarrow> (w, None)
   | Some pr \<Rightarrow>
       let bag = (pr_InventoryType pr = INVTYPE_BAG);
           og = (case ow of Some p \<Rightarrow> ucast p | None \<Rightarrow> 0);
           it = (new_item (or (ucast (if bag then 0x50000000 else 0x40000000 :: u32) * 2 ^ 32) (ucast g)) pr bag)\<lparr>
             it_owner := ow, it_owner_field := og, it_contained := og, it_stack := 1,
             it_num_slots := (if bag then pr_ContainerSlots pr else 0) \<rparr>
       in (w\<lparr> iw_heap := (iw_heap w)(iw_next w \<mapsto> it), iw_next := Suc (iw_next w) \<rparr>, Some (iw_next w)))"

section \<open>Containers\<close>

text \<open>What \<open>AddItem\<close> and \<open>m_AddItem\<close> do when the owner is in the world and the item is not yet.\<close>

definition PushToWorld :: "u32 \<Rightarrow> nat \<Rightarrow> item_world \<Rightarrow> item_world option" where
  "PushToWorld p a w = do {
     it \<leftarrow> iw_heap w a;
     Some (if iv_world (iw_inv w p) \<and> \<not> it_world it
       then item_emit (FxCreate p a) (upd_item a (\<lambda>it. it\<lparr> it_world := True \<rparr>) w) else w) }"

definition Container_AddItem :: "nat \<Rightarrow> int \<Rightarrow> nat \<Rightarrow> item_world \<Rightarrow> (item_world \<times> bool) option" where
  "Container_AddItem c s a w = do {
     cn \<leftarrow> iw_heap w c;
     if s < 0 \<or> uint (pr_ContainerSlots (it_proto cn)) \<le> s then Some (w, False)
     else do {
       x \<leftarrow> mem_at (it_slots cn) s;
       if x \<noteq> None then Some (w, False)
       else (case it_owner cn of
         None \<Rightarrow> Some (w, False)
       | Some p \<Rightarrow> do {
           it \<leftarrow> iw_heap w a;
           sl \<leftarrow> mem_put (it_slots cn) s (Some a);
           let w = upd_item c (\<lambda>cn. cn\<lparr> it_slots := sl \<rparr>) w;
           let w = upd_item a (\<lambda>it. it\<lparr> it_dirty := True, it_contained := it_guid cn \<rparr>) w;
           let w = SetOwner a (Some p) w;
           let w = (if pr_Bonding (it_proto it) = ITEM_BIND_ON_PICKUP then SoulBind a w else w);
           fl \<leftarrow> mem_put (it_slot_fields cn) s (it_guid it);
           let w = upd_item c (\<lambda>cn. cn\<lparr> it_slot_fields := fl \<rparr>) w;
           w \<leftarrow> PushToWorld p a w;
           Some (w, True) }) } }"

text \<open>\<open>Container::AddItemToFreeSlot\<close>: the slot it took, if there was one. The owner is not tested here.\<close>

definition Container_AddItemToFreeSlot :: "nat \<Rightarrow> nat \<Rightarrow> item_world \<Rightarrow> (item_world \<times> int option) option" where
  "Container_AddItemToFreeSlot c a w = do {
     cn \<leftarrow> iw_heap w c;
     r \<leftarrow> first_in (\<lambda>i. map_option (\<lambda>x. if x = None then Some i else None) (mem_at (it_slots cn) i)) (bag_slots cn);
     case r of None \<Rightarrow> Some (w, None)
     | Some s \<Rightarrow> do {
         p \<leftarrow> it_owner cn;
         it \<leftarrow> iw_heap w a;
         sl \<leftarrow> mem_put (it_slots cn) s (Some a);
         let w = upd_item c (\<lambda>cn. cn\<lparr> it_slots := sl \<rparr>) w;
         let w = upd_item a (\<lambda>it. it\<lparr> it_dirty := True, it_contained := it_guid cn \<rparr>) w;
         let w = SetOwner a (Some p) w;
         fl \<leftarrow> mem_put (it_slot_fields cn) s (it_guid it);
         let w = upd_item c (\<lambda>cn. cn\<lparr> it_slot_fields := fl \<rparr>) w;
         w \<leftarrow> PushToWorld p a w;
         Some (w, Some s) } }"

definition Container_SafeRemove :: "nat \<Rightarrow> int \<Rightarrow> bool \<Rightarrow> item_world \<Rightarrow> (item_world \<times> nat option) option" where
  "Container_SafeRemove c s destroy w = do {
     cn \<leftarrow> iw_heap w c;
     if s < 0 \<or> uint (pr_ContainerSlots (it_proto cn)) \<le> s then Some (w, None)
     else do {
       x \<leftarrow> mem_at (it_slots cn) s;
       case x of None \<Rightarrow> Some (w, None)
       | Some a \<Rightarrow> (if a = c then Some (w, None) else do {
           sl \<leftarrow> mem_put (it_slots cn) s None;
           let w = upd_item c (\<lambda>cn. cn\<lparr> it_slots := sl \<rparr>) w;
           it \<leftarrow> iw_heap w a;
           if it_owner it = it_owner cn then do {
             fl \<leftarrow> mem_put (it_slot_fields cn) s 0;
             let w = upd_item c (\<lambda>cn. cn\<lparr> it_slot_fields := fl \<rparr>) w;
             let w = upd_item a (\<lambda>it. it\<lparr> it_contained := 0 \<rparr>) w;
             w \<leftarrow> unlist destroy it a w;
             Some (w, Some a) }
           else Some (w, None) }) } }"

definition Container_SafeFullRemove :: "nat \<Rightarrow> int \<Rightarrow> item_world \<Rightarrow> (item_world \<times> bool) option" where
  "Container_SafeFullRemove c s w = do {
     cn \<leftarrow> iw_heap w c;
     if s < 0 \<or> uint (pr_ContainerSlots (it_proto cn)) \<le> s then Some (w, False)
     else do {
       x \<leftarrow> mem_at (it_slots cn) s;
       case x of None \<Rightarrow> Some (w, False)
       | Some a \<Rightarrow> (if a = c then Some (w, False) else do {
           sl \<leftarrow> mem_put (it_slots cn) s None;
           fl \<leftarrow> mem_put (it_slot_fields cn) s 0;
           let w = upd_item c (\<lambda>cn. cn\<lparr> it_slots := sl, it_slot_fields := fl \<rparr>) w;
           it \<leftarrow> iw_heap w a;
           let w = upd_item a (\<lambda>it. it\<lparr> it_contained := 0 \<rparr>) w;
           w \<leftarrow> unlist True it a w;
           w \<leftarrow> Destructor a w;
           Some (w, True) }) } }"

section \<open>Searching an inventory\<close>

text \<open>\<open>m_pItems[i]\<close>, and the two forms of \<open>GetInventoryItem\<close>, which admit the slot behind the last one.\<close>

definition m_pItems :: "item_world \<Rightarrow> u32 \<Rightarrow> int \<Rightarrow> nat option option" where
  "m_pItems w p i = mem_at (iv_items (iw_inv w p)) i"

definition GetInventoryItem :: "item_world \<Rightarrow> u32 \<Rightarrow> int \<Rightarrow> nat option option" where
  "GetInventoryItem w p s = (if s < 0 \<or> s > int MAX_INVENTORY_SLOT then Some None else m_pItems w p s)"

definition IsBagSlot :: "int \<Rightarrow> bool" where
  "IsBagSlot s \<longleftrightarrow> INVENTORY_SLOT_BAG_START \<le> s \<and> s < INVENTORY_SLOT_BAG_END \<or> BANK_SLOT_BAG_START \<le> s \<and> s < BANK_SLOT_BAG_END"

definition GetInventoryItem2 :: "item_world \<Rightarrow> u32 \<Rightarrow> int \<Rightarrow> int \<Rightarrow> nat option option" where
  "GetInventoryItem2 w p c s = (if c \<le> INVENTORY_SLOT_NOT_SET then GetInventoryItem w p s
     else if IsBagSlot c then do {
       x \<leftarrow> m_pItems w p c;
       case x of None \<Rightarrow> Some None
       | Some b \<Rightarrow> do { cn \<leftarrow> iw_heap w b; if it_container cn then GetItem cn s else None } }
     else Some None)"

text \<open>
  The body of the loops: what \<open>f\<close> makes of the item in slot \<open>i\<close>, and of the items in the bag in slot \<open>i\<close>.
\<close>

definition in_slot :: "item_world \<Rightarrow> u32 \<Rightarrow> (nat \<Rightarrow> item \<Rightarrow> 'r option) \<Rightarrow> int \<Rightarrow> 'r option option" where
  "in_slot w p f i = do {
     x \<leftarrow> m_pItems w p i;
     case x of None \<Rightarrow> Some None | Some a \<Rightarrow> do { it \<leftarrow> iw_heap w a; Some (f a it) } }"

definition in_bag :: "item_world \<Rightarrow> u32 \<Rightarrow> (item \<Rightarrow> int \<Rightarrow> nat option \<Rightarrow> 'r option option) \<Rightarrow> int \<Rightarrow> 'r option option" where
  "in_bag w p f i = do {
     x \<leftarrow> m_pItems w p i;
     case x of None \<Rightarrow> Some None
     | Some b \<Rightarrow> do {
         cn \<leftarrow> iw_heap w b;
         if it_container cn then first_in (\<lambda>j. do { y \<leftarrow> GetItem cn j; f cn j y }) (bag_slots cn) else Some None } }"

definition bag_item :: "item_world \<Rightarrow> (int \<Rightarrow> nat \<Rightarrow> item \<Rightarrow> 'r option) \<Rightarrow> item \<Rightarrow> int \<Rightarrow> nat option \<Rightarrow> 'r option option" where
  "bag_item w f cn j y = (case y of None \<Rightarrow> Some None | Some a \<Rightarrow> do { it \<leftarrow> iw_heap w a; Some (f j a it) })"

definition inventory_bags :: "int list" where "inventory_bags = slots INVENTORY_SLOT_BAG_START INVENTORY_SLOT_BAG_END"
definition bank_bags :: "int list" where "bank_bags = slots BANK_SLOT_BAG_START BANK_SLOT_BAG_END"
definition backpack :: "int list" where "backpack = slots INVENTORY_SLOT_ITEM_START INVENTORY_SLOT_ITEM_END"
definition bank :: "int list" where "bank = slots BANK_SLOT_ITEM_START BANK_SLOT_ITEM_END"
definition keyring :: "int list" where "keyring = slots INVENTORY_KEYRING_START INVENTORY_KEYRING_END"

definition sr :: "int \<Rightarrow> int \<Rightarrow> slot_result" where
  "sr c s = \<lparr> sr_ContainerSlot = c, sr_Slot = s, sr_Result = True \<rparr>"

definition no_slot :: slot_result where
  "no_slot = \<lparr> sr_ContainerSlot = ITEM_NO_SLOT_AVAILABLE, sr_Slot = ITEM_NO_SLOT_AVAILABLE, sr_Result = False \<rparr>"

definition set_result :: "u32 \<Rightarrow> slot_result \<Rightarrow> item_world \<Rightarrow> item_world" where
  "set_result p r = upd_inv p (\<lambda>v. v\<lparr> iv_result := r \<rparr>)"

text \<open>\<open>GetItemByGUID\<close> records in \<open>result\<close> where it found the item (\<open>Result\<close> is left alone).\<close>

definition find_guid :: "item_world \<Rightarrow> u32 \<Rightarrow> u64 \<Rightarrow> (int \<times> int \<times> nat) option option" where
  "find_guid w p g =
     (let here = (\<lambda>i. in_slot w p (\<lambda>a it. if it_guid it = g then Some (INVENTORY_SLOT_NOT_SET, i, a) else None) i) in
      or_else (first_in here (slots 0 EQUIPMENT_SLOT_END))
     (or_else (first_in (\<lambda>i. or_else
          (in_slot w p (\<lambda>a it. if it_container it \<and> it_guid it = g then Some (INVENTORY_SLOT_NOT_SET, i, a) else None) i)
          (in_bag w p (bag_item w (\<lambda>j a it. if it_guid it = g then Some (i, j, a) else None)) i)) inventory_bags)
     (or_else (first_in here backpack)
        (first_in here keyring))))"

definition GetItemByGUID :: "u32 \<Rightarrow> u64 \<Rightarrow> item_world \<Rightarrow> (item_world \<times> nat option) option" where
  "GetItemByGUID p g w = do {
     r \<leftarrow> find_guid w p g;
     case r of None \<Rightarrow> Some (w, None)
     | Some (c, s, a) \<Rightarrow> Some (upd_inv p (\<lambda>v. v\<lparr> iv_result := (iv_result v)\<lparr> sr_ContainerSlot := c, sr_Slot := s \<rparr> \<rparr>) w, Some a) }"

definition GetInventorySlotByGuid :: "item_world \<Rightarrow> u32 \<Rightarrow> u64 \<Rightarrow> int option" where
  "GetInventorySlotByGuid w p g =
     (let here = (\<lambda>i. in_slot w p (\<lambda>a it. if it_guid it = g then Some i else None) i) in
      map_option (\<lambda>r. case r of Some i \<Rightarrow> i | None \<Rightarrow> ITEM_NO_SLOT_AVAILABLE)
       (or_else (first_in here (slots 0 INVENTORY_SLOT_ITEM_END)) (first_in here keyring)))"

definition GetBagSlotByGuid :: "item_world \<Rightarrow> u32 \<Rightarrow> u64 \<Rightarrow> int option" where
  "GetBagSlotByGuid w p g =
     (let here = (\<lambda>i. in_slot w p (\<lambda>a it. if it_guid it = g then Some i else None) i) in
      map_option (\<lambda>r. case r of Some i \<Rightarrow> i | None \<Rightarrow> ITEM_NO_SLOT_AVAILABLE)
       (or_else (first_in here (slots 0 INVENTORY_SLOT_ITEM_END))
       (or_else (first_in here keyring)
         (first_in (\<lambda>i. in_bag w p (bag_item w (\<lambda>j a it. if it_guid it = g then Some i else None)) i) inventory_bags))))"

definition GetInventorySlotById :: "item_world \<Rightarrow> u32 \<Rightarrow> u32 \<Rightarrow> int option" where
  "GetInventorySlotById w p e =
     (let here = (\<lambda>i. in_slot w p (\<lambda>a it. if pr_ItemId (it_proto it) = e then Some i else None) i) in
      map_option (\<lambda>r. case r of Some i \<Rightarrow> i | None \<Rightarrow> ITEM_NO_SLOT_AVAILABLE)
       (or_else (first_in here (slots 0 INVENTORY_SLOT_ITEM_END)) (first_in here keyring)))"

text \<open>Free slots.\<close>

definition empty_slot :: "item_world \<Rightarrow> u32 \<Rightarrow> int \<Rightarrow> slot_result option option" where
  "empty_slot w p i = map_option (\<lambda>x. if x = None then Some (sr ITEM_NO_SLOT_AVAILABLE i) else None) (m_pItems w p i)"

definition bag_with_room :: "item_world \<Rightarrow> u32 \<Rightarrow> u32 \<Rightarrow> int \<Rightarrow> slot_result option option" where
  "bag_with_room w p family i = do {
     x \<leftarrow> m_pItems w p i;
     case x of None \<Rightarrow> Some None
     | Some b \<Rightarrow> do {
         cn \<leftarrow> iw_heap w b;
         if it_container cn \<and> pr_BagFamily (it_proto cn) = family
         then do { s \<leftarrow> FindFreeSlot cn; Some (if s \<noteq> ITEM_NO_SLOT_AVAILABLE then Some (sr i s) else None) }
         else Some None } }"

definition free_inventory_slot :: "item_world \<Rightarrow> u32 \<Rightarrow> item_proto \<Rightarrow> slot_result option option" where
  "free_inventory_slot w p pr =
     or_else (if pr_BagFamily pr = 0 then Some None
       else if has_flag (pr_BagFamily pr) ITEM_TYPE_KEYRING then first_in (empty_slot w p) keyring
       else first_in (bag_with_room w p (pr_BagFamily pr)) inventory_bags)
     (or_else (first_in (empty_slot w p) backpack)
       (first_in (bag_with_room w p 0) inventory_bags))"

definition FindFreeInventorySlot :: "u32 \<Rightarrow> item_proto \<Rightarrow> item_world \<Rightarrow> (item_world \<times> slot_result) option" where
  "FindFreeInventorySlot p pr w = do {
     r \<leftarrow> free_inventory_slot w p pr;
     let r = (case r of Some r \<Rightarrow> r | None \<Rightarrow> no_slot);
     Some (set_result p r w, r) }"

definition free_bank_slot :: "item_world \<Rightarrow> u32 \<Rightarrow> item_proto \<Rightarrow> slot_result option option" where
  "free_bank_slot w p pr =
     or_else (if pr_BagFamily pr = 0 then Some None else first_in (bag_with_room w p (pr_BagFamily pr)) bank_bags)
     (or_else (first_in (empty_slot w p) bank)
       (first_in (bag_with_room w p 0) bank_bags))"

definition FindFreeBankSlot :: "u32 \<Rightarrow> item_proto \<Rightarrow> item_world \<Rightarrow> (item_world \<times> slot_result) option" where
  "FindFreeBankSlot p pr w = do {
     r \<leftarrow> free_bank_slot w p pr;
     let r = (case r of Some r \<Rightarrow> r | None \<Rightarrow> no_slot);
     Some (set_result p r w, r) }"

definition FindFreeBackPackSlot :: "item_world \<Rightarrow> u32 \<Rightarrow> int option" where
  "FindFreeBackPackSlot w p = map_option (\<lambda>r. case r of Some r \<Rightarrow> sr_Slot r | None \<Rightarrow> ITEM_NO_SLOT_AVAILABLE)
     (first_in (empty_slot w p) backpack)"

definition FindFreeKeyringSlot :: "item_world \<Rightarrow> u32 \<Rightarrow> int option" where
  "FindFreeKeyringSlot w p = map_option (\<lambda>r. case r of Some r \<Rightarrow> sr_Slot r | None \<Rightarrow> ITEM_NO_SLOT_AVAILABLE)
     (first_in (empty_slot w p) keyring)"

definition FindSpecialBag :: "item_world \<Rightarrow> u32 \<Rightarrow> item \<Rightarrow> int option" where
  "FindSpecialBag w p it = map_option (\<lambda>r. case r of Some i \<Rightarrow> i | None \<Rightarrow> ITEM_NO_SLOT_AVAILABLE)
     (first_in (\<lambda>i. in_slot w p (\<lambda>a b. if pr_BagFamily (it_proto b) = pr_BagFamily (it_proto it) then Some i else None) i) inventory_bags)"

definition FindAmmoBag :: "u32 \<Rightarrow> item_world \<Rightarrow> (item_world \<times> slot_result) option" where
  "FindAmmoBag p w = do {
     r \<leftarrow> first_in (\<lambda>i. in_slot w p (\<lambda>a b. if pr_Class (it_proto b) = ITEM_CLASS_QUIVER then Some (sr ITEM_NO_SLOT_AVAILABLE i) else None) i) inventory_bags;
     let r = (case r of Some r \<Rightarrow> r | None \<Rightarrow> no_slot);
     Some (set_result p r w, r) }"

end
