(* ===== verification/HS_Inventory.thy ===== *)
theory HS_Inventory
  imports HS_Items
begin

text \<open>
  The operations of \<open>ItemInterface\<close> that put an item into an inventory or a bank and take one out. A pointer argument that the callers have tested is
  the address itself.
\<close>

section \<open>Adding\<close>

datatype add_result = ADD_ITEM_RESULT_ERROR | ADD_ITEM_RESULT_OK | ADD_ITEM_RESULT_DUPLICATED

text \<open>The double check: the item is in a slot or in a bag of this inventory already.\<close>

definition already_there :: "item_world \<Rightarrow> u32 \<Rightarrow> nat \<Rightarrow> bool option" where
  "already_there w p a = map_option (\<lambda>r. r \<noteq> None)
     (first_in (\<lambda>i. or_else
        (in_slot w p (\<lambda>b it. if b = a then Some () else None) i)
        (in_bag w p (\<lambda>cn j y. Some (if y = Some a then Some () else None)) i)) (slots 0 (int MAX_INVENTORY_SLOT)))"

definition put_field :: "u32 \<Rightarrow> int \<Rightarrow> u64 \<Rightarrow> item_world \<Rightarrow> item_world option" where
  "put_field p s g w = do {
     fl \<leftarrow> mem_put (iv_fields (iw_inv w p)) s g;
     Some (upd_inv p (\<lambda>v. v\<lparr> iv_fields := fl \<rparr>) w) }"

definition put_slot :: "u32 \<Rightarrow> int \<Rightarrow> nat option \<Rightarrow> item_world \<Rightarrow> item_world option" where
  "put_slot p s x w = do {
     sl \<leftarrow> mem_put (iv_items (iw_inv w p)) s x;
     Some (upd_inv p (\<lambda>v. v\<lparr> iv_items := sl \<rparr>) w) }"

text \<open>The item goes into a free slot of \<open>m_pItems\<close>.\<close>

definition place_in_slot :: "u32 \<Rightarrow> nat \<Rightarrow> int \<Rightarrow> item_world \<Rightarrow> item_world option" where
  "place_in_slot p a s w = do {
     it \<leftarrow> iw_heap w a;
     let w = SetOwner a (Some p) w;
     let w = upd_item a (\<lambda>it. it\<lparr> it_contained := ucast p \<rparr>) w;
     w \<leftarrow> put_slot p s (Some a) w;
     let w = (if pr_Bonding (it_proto it) = ITEM_BIND_ON_PICKUP then SoulBind a w else w);
     w \<leftarrow> PushToWorld p a w;
     put_field p s (it_guid it) w }"

text \<open>Where the item goes: the slot asked for, or the first free one when that is taken.\<close>

definition settle_slot :: "u32 \<Rightarrow> item_proto \<Rightarrow> int \<Rightarrow> int \<Rightarrow> item_world \<Rightarrow> (item_world \<times> (int \<times> int) option) option" where
  "settle_slot p pr c s w = do {
     x \<leftarrow> GetInventoryItem w p s;
     if x = None then Some (w, Some (c, s))
     else do {
       (w, r) \<leftarrow> FindFreeInventorySlot p pr w;
       let w = item_emit (FxDuplicated p (pr_Name1 pr)) w;
       Some (w, if sr_Result r then Some (sr_ContainerSlot r, sr_Slot r) else None) } }"

text \<open>The stats, the visible item and the achievements of the player.\<close>

definition item_added :: "u32 \<Rightarrow> nat \<Rightarrow> int \<Rightarrow> int \<Rightarrow> item_world \<Rightarrow> item_world option" where
  "item_added p a c s w = do {
     it \<leftarrow> iw_heap w a;
     let w = (if s < EQUIPMENT_SLOT_END \<and> c = INVENTORY_SLOT_NOT_SET then item_emit (FxVisible p s (Some a)) w else w);
     let w = (if iv_world (iw_inv w p) \<and> s < INVENTORY_SLOT_BAG_END \<and> c = INVENTORY_SLOT_NOT_SET
       then item_emit (FxMods p a s True) w else w);
     let w = (if c = INVENTORY_SLOT_NOT_SET \<and> s = EQUIPMENT_SLOT_OFFHAND \<and> pr_Class (it_proto it) = ITEM_CLASS_WEAPON
       then item_emit (FxDualWield p True) w else w);
     Some (item_emit (FxOwn p (pr_ItemId (it_proto it)) (if it_stack it \<noteq> 0 then it_stack it else 1)) w) }"

text \<open>The double check, and the item put into the place settled on.\<close>

definition add_settled :: "u32 \<Rightarrow> nat \<Rightarrow> item_proto \<Rightarrow> int \<Rightarrow> int \<Rightarrow> item_world \<Rightarrow> (item_world \<times> add_result) option" where
  "add_settled p a pr c s w = do {
     let w = upd_item a (\<lambda>it. it\<lparr> it_dirty := True \<rparr>) w;
     dup \<leftarrow> already_there w p a;
     if dup then Some (w, ADD_ITEM_RESULT_DUPLICATED)
     else if c = INVENTORY_SLOT_NOT_SET then do {
       (w, cs) \<leftarrow> settle_slot p pr c s w;
       case cs of None \<Rightarrow> Some (w, ADD_ITEM_RESULT_ERROR)
       | Some (c, s) \<Rightarrow> do {
           x \<leftarrow> GetInventoryItem w p s;
           if x = None then do {
             w \<leftarrow> place_in_slot p a s w;
             w \<leftarrow> item_added p a c s w;
             Some (w, ADD_ITEM_RESULT_OK) }
           else Some (w, ADD_ITEM_RESULT_ERROR) } }
     else do {
       x \<leftarrow> GetInventoryItem w p c;
       case x of None \<Rightarrow> Some (w, ADD_ITEM_RESULT_ERROR)
       | Some b \<Rightarrow> do {
           cn \<leftarrow> iw_heap w b;
           if it_container cn \<and> s < uint (pr_ContainerSlots (it_proto cn)) then do {
             (w, ok) \<leftarrow> Container_AddItem b s a w;
             if ok then do { w \<leftarrow> item_added p a c s w; Some (w, ADD_ITEM_RESULT_OK) }
             else Some (w, ADD_ITEM_RESULT_ERROR) }
           else Some (w, ADD_ITEM_RESULT_ERROR) } } }"

definition m_AddItem :: "u32 \<Rightarrow> nat \<Rightarrow> int \<Rightarrow> int \<Rightarrow> item_world \<Rightarrow> (item_world \<times> add_result) option" where
  "m_AddItem p a c s w =
    (if int MAX_INVENTORY_SLOT \<le> s \<or> int MAX_INVENTORY_SLOT \<le> c then Some (w, ADD_ITEM_RESULT_ERROR)
     else do {
       it \<leftarrow> iw_heap w a;
       (w, cs) \<leftarrow> (if s < 0 then do {
           (w, r) \<leftarrow> FindFreeInventorySlot p (it_proto it) w;
           Some (w, if sr_Result r then Some (sr_ContainerSlot r, sr_Slot r) else None) }
         else Some (w, Some (c, s)));
       case cs of None \<Rightarrow> Some (w, ADD_ITEM_RESULT_ERROR)
       | Some (c, s) \<Rightarrow> add_settled p a (it_proto it) c s w })"

definition SafeAddItem :: "u32 \<Rightarrow> nat \<Rightarrow> int \<Rightarrow> int \<Rightarrow> item_world \<Rightarrow> (item_world \<times> add_result) option" where
  "SafeAddItem p a c s w = m_AddItem p a c s w"

text \<open>\<open>AddItemToFreeSlot\<close>: every free slot is tried until one takes the item; any non-zero answer counts.\<close>

definition took :: "(item_world \<times> add_result) option \<Rightarrow> u32 \<Rightarrow> int \<Rightarrow> int \<Rightarrow> (item_world + item_world) option" where
  "took r p c s = do {
     (w, k) \<leftarrow> r;
     Some (if k \<noteq> ADD_ITEM_RESULT_ERROR then Inl (set_result p (sr c s) w) else Inr w) }"

text \<open>The bodies of the search loops: an empty slot, the bags of a family, the slots of a bag without family.\<close>

definition on_empty_slot :: "u32 \<Rightarrow> (int \<Rightarrow> item_world \<Rightarrow> ('r + item_world) option) \<Rightarrow> int \<Rightarrow> item_world \<Rightarrow> ('r + item_world) option" where
  "on_empty_slot p act i w = do {
     x \<leftarrow> m_pItems w p i;
     if x = None then act i w else Some (Inr w) }"

definition into_family_bag :: "u32 \<Rightarrow> nat \<Rightarrow> u32 \<Rightarrow> (int \<Rightarrow> int \<Rightarrow> item_world \<Rightarrow> 'r) \<Rightarrow> int \<Rightarrow> item_world \<Rightarrow> ('r + item_world) option" where
  "into_family_bag p a family fin i w = do {
     x \<leftarrow> m_pItems w p i;
     case x of None \<Rightarrow> Some (Inr w)
     | Some b \<Rightarrow> do {
         cn \<leftarrow> iw_heap w b;
         if pr_BagFamily (it_proto cn) = family \<and> it_container cn then do {
           (w, r) \<leftarrow> Container_AddItemToFreeSlot b a w;
           Some (case r of Some s \<Rightarrow> Inl (fin i s w) | None \<Rightarrow> Inr w) }
         else Some (Inr w) } }"

definition on_plain_bag :: "u32 \<Rightarrow> (int \<Rightarrow> int \<Rightarrow> item_world \<Rightarrow> ('r + item_world) option) \<Rightarrow> int \<Rightarrow> item_world \<Rightarrow> ('r + item_world) option" where
  "on_plain_bag p act i w = do {
     x \<leftarrow> m_pItems w p i;
     case x of None \<Rightarrow> Some (Inr w)
     | Some b \<Rightarrow> do {
         cn \<leftarrow> iw_heap w b;
         if pr_BagFamily (it_proto cn) = 0 \<and> it_container cn then
           for_return (\<lambda>j w. do {
             cn \<leftarrow> iw_heap w b;
             y \<leftarrow> GetItem cn j;
             if y = None then act i j w else Some (Inr w) }) (bag_slots cn) w
         else Some (Inr w) } }"

definition seq_loop :: "('r + 's) option \<Rightarrow> ('s \<Rightarrow> ('r + 's) option) \<Rightarrow> ('r + 's) option" where
  "seq_loop f g = (case f of None \<Rightarrow> None | Some (Inl r) \<Rightarrow> Some (Inl r) | Some (Inr s) \<Rightarrow> g s)"

definition AddItemToFreeSlot :: "u32 \<Rightarrow> nat option \<Rightarrow> item_world \<Rightarrow> (item_world \<times> add_result) option" where
  "AddItemToFreeSlot p x w = (case x of
     None \<Rightarrow> Some (w, ADD_ITEM_RESULT_ERROR)
   | Some a \<Rightarrow> do {
       it \<leftarrow> iw_heap w a;
       let family = pr_BagFamily (it_proto it);
       let slot = on_empty_slot p (\<lambda>i w. took (SafeAddItem p a INVENTORY_SLOT_NOT_SET i w) p INVENTORY_SLOT_NOT_SET i);
       r \<leftarrow> seq_loop
         (if family = 0 then Some (Inr w)
          else if has_flag family ITEM_TYPE_KEYRING then for_return slot keyring w
          else for_return (into_family_bag p a family (\<lambda>i s. set_result p (sr i s))) inventory_bags w)
         (\<lambda>w. seq_loop (for_return slot backpack w)
           (for_return (on_plain_bag p (\<lambda>i j w. took (SafeAddItem p a i j w) p i j)) inventory_bags));
       Some (case r of Inl w \<Rightarrow> (w, ADD_ITEM_RESULT_OK) | Inr w \<Rightarrow> (w, ADD_ITEM_RESULT_ERROR)) })"

text \<open>\<open>AddItemToFreeBankSlot\<close>: special bags first, then the bank, then the plain bags; the first free slot decides.\<close>

definition AddItemToFreeBankSlot :: "u32 \<Rightarrow> nat \<Rightarrow> item_world \<Rightarrow> (item_world \<times> add_result) option" where
  "AddItemToFreeBankSlot p a w = do {
     it \<leftarrow> iw_heap w a;
     r \<leftarrow> seq_loop
       (for_return (into_family_bag p a (pr_BagFamily (it_proto it)) (\<lambda>i s w. (w, ADD_ITEM_RESULT_OK))) bank_bags w)
       (\<lambda>w. seq_loop
         (for_return (on_empty_slot p (\<lambda>i w. map_option Inl (SafeAddItem p a INVENTORY_SLOT_NOT_SET i w))) bank w)
         (for_return (on_plain_bag p (\<lambda>i j w. map_option Inl (SafeAddItem p a i j w))) bank_bags));
     Some (case r of Inl x \<Rightarrow> x | Inr w \<Rightarrow> (w, ADD_ITEM_RESULT_ERROR)) }"

section \<open>Taking out\<close>

text \<open>What the player loses with the item in slot \<open>s\<close>.\<close>

definition item_taken :: "u32 \<Rightarrow> nat \<Rightarrow> int \<Rightarrow> item_world \<Rightarrow> item_world option" where
  "item_taken p a s w = do {
     let w = upd_item a (\<lambda>it. it\<lparr> it_dirty := True \<rparr>) w;
     w \<leftarrow> put_field p s 0 w;
     let w = (if s < EQUIPMENT_SLOT_END then item_emit (FxVisible p s None) (item_emit (FxMods p a s False) w)
       else if s < INVENTORY_SLOT_BAG_END then item_emit (FxMods p a s False) w else w);
     Some (if s = EQUIPMENT_SLOT_OFFHAND then item_emit (FxDualWield p False) w else w) }"

text \<open>A bag with contents stays where it is.\<close>

definition full_bag :: "item \<Rightarrow> bool option" where
  "full_bag it = (if 0 < pr_ContainerSlots (it_proto it) \<and> it_container it then HasItems it else Some False)"

definition SafeRemoveAndRetreiveItemFromSlot :: "u32 \<Rightarrow> int \<Rightarrow> int \<Rightarrow> bool \<Rightarrow> item_world \<Rightarrow> (item_world \<times> nat option) option" where
  "SafeRemoveAndRetreiveItemFromSlot p c s destroy w =
    (if int MAX_INVENTORY_SLOT \<le> s \<or> int MAX_INVENTORY_SLOT \<le> c then None
     else if c = INVENTORY_SLOT_NOT_SET then do {
       x \<leftarrow> GetInventoryItem2 w p c s;
       case x of None \<Rightarrow> Some (w, None)
       | Some a \<Rightarrow> do {
           it \<leftarrow> iw_heap w a;
           full \<leftarrow> full_bag it;
           if full then do { w \<leftarrow> DeleteFromDB a w; Some (w, None) }
           else do {
             w \<leftarrow> put_slot p s None w;
             if it_owner it = Some p then do {
               w \<leftarrow> item_taken p a s w;
               w \<leftarrow> unlist destroy it a w;
               Some (w, Some a) }
             else Some (w, None) } } }
     else do {
       x \<leftarrow> GetInventoryItem w p c;
       case x of None \<Rightarrow> Some (w, None)
       | Some b \<Rightarrow> do {
           cn \<leftarrow> iw_heap w b;
           if it_container cn then Container_SafeRemove b s destroy w else Some (w, None) } })"

text \<open>The places where the \<open>ByGuid\<close> operations look, in their order: a slot, or a slot of a bag with the bag.\<close>

definition place_by_guid :: "item_world \<Rightarrow> u32 \<Rightarrow> u64 \<Rightarrow> (int \<times> nat option) option option" where
  "place_by_guid w p g =
     (let here = (\<lambda>i. in_slot w p (\<lambda>a it. if it_guid it = g then Some (i, None) else None) i);
          bag = (\<lambda>i. or_else (here i) (do {
            b \<leftarrow> m_pItems w p i;
            in_bag w p (bag_item w (\<lambda>j a it. if it_guid it = g then Some (j, b) else None)) i })) in
      or_else (first_in here (slots 0 EQUIPMENT_SLOT_END))
     (or_else (first_in here backpack)
     (or_else (first_in here keyring)
     (or_else (first_in bag inventory_bags)
     (or_else (first_in here bank)
        (first_in bag bank_bags))))))"

definition SafeRemoveAndRetreiveItemByGuid :: "u32 \<Rightarrow> u64 \<Rightarrow> bool \<Rightarrow> item_world \<Rightarrow> (item_world \<times> nat option) option" where
  "SafeRemoveAndRetreiveItemByGuid p g destroy w = do {
     r \<leftarrow> place_by_guid w p g;
     case r of None \<Rightarrow> Some (w, None)
     | Some (s, None) \<Rightarrow> SafeRemoveAndRetreiveItemFromSlot p INVENTORY_SLOT_NOT_SET s destroy w
     | Some (s, Some b) \<Rightarrow> Container_SafeRemove b s destroy w }"

definition SafeFullRemoveItemFromSlot :: "u32 \<Rightarrow> int \<Rightarrow> int \<Rightarrow> item_world \<Rightarrow> (item_world \<times> bool) option" where
  "SafeFullRemoveItemFromSlot p c s w =
    (if int MAX_INVENTORY_SLOT \<le> s \<or> int MAX_INVENTORY_SLOT \<le> c then None
     else if c = INVENTORY_SLOT_NOT_SET then do {
       x \<leftarrow> GetInventoryItem w p s;
       case x of None \<Rightarrow> Some (w, False)
       | Some a \<Rightarrow> do {
           it \<leftarrow> iw_heap w a;
           full \<leftarrow> full_bag it;
           if full then do { w \<leftarrow> DeleteFromDB a w; Some (w, False) }
           else do {
             w \<leftarrow> put_slot p s None w;
             w \<leftarrow> (if it_owner it = Some p then do {
               w \<leftarrow> item_taken p a s w;
               w \<leftarrow> unlist True it a w;
               Destructor a w } else Some w);
             Some (w, True) } } }
     else do {
       x \<leftarrow> GetInventoryItem w p c;
       case x of None \<Rightarrow> Some (w, True)
       | Some b \<Rightarrow> do {
           cn \<leftarrow> iw_heap w b;
           w \<leftarrow> (if it_container cn then map_option fst (Container_SafeFullRemove b s w) else Some w);
           Some (w, True) } })"

definition SafeFullRemoveItemByGuid :: "u32 \<Rightarrow> u64 \<Rightarrow> item_world \<Rightarrow> (item_world \<times> bool) option" where
  "SafeFullRemoveItemByGuid p g w = do {
     r \<leftarrow> place_by_guid w p g;
     case r of None \<Rightarrow> Some (w, False)
     | Some (s, None) \<Rightarrow> SafeFullRemoveItemFromSlot p INVENTORY_SLOT_NOT_SET s w
     | Some (s, Some b) \<Rightarrow> Container_SafeFullRemove b s w }"

end
