(* ===== verification/HS_Stacks.thy ===== *)
theory HS_Stacks
  imports HS_Inventory
begin

text \<open>
  Counting, removing and moving stacks: \<open>GetItemCount\<close>, \<open>RemoveItemAmt\<close>, \<open>FindItemLessMax\<close>,
  \<open>CalculateFreeSlots\<close>, \<open>RemoveAllConjured\<close>, \<open>CanReceiveItem\<close>, \<open>SwapItemSlots\<close> of \<open>ItemInterface.cpp\<close> and
  \<open>SwapItems\<close> of \<open>Container.cpp\<close>. The entry of an item is that of its prototype.
\<close>

section \<open>Counting\<close>

definition count_of :: "item \<Rightarrow> u32" where
  "count_of it = (if it_stack it \<noteq> 0 then it_stack it else 1)"

text \<open>The sums of the loops: over slots, and over the items in bags with the bag at hand.\<close>

definition sum_slots :: "item_world \<Rightarrow> u32 \<Rightarrow> (item \<Rightarrow> u32) \<Rightarrow> u32 \<Rightarrow> int list \<Rightarrow> u32 option" where
  "sum_slots w p f = foldM (\<lambda>n i. do {
     x \<leftarrow> m_pItems w p i;
     case x of None \<Rightarrow> Some n | Some a \<Rightarrow> do { it \<leftarrow> iw_heap w a; Some (n + f it) } })"

definition sum_bags :: "item_world \<Rightarrow> u32 \<Rightarrow> (item \<Rightarrow> item \<Rightarrow> u32) \<Rightarrow> u32 \<Rightarrow> int list \<Rightarrow> u32 option" where
  "sum_bags w p f = foldM (\<lambda>n i. do {
     x \<leftarrow> m_pItems w p i;
     case x of None \<Rightarrow> Some n
     | Some b \<Rightarrow> do {
         cn \<leftarrow> iw_heap w b;
         if it_container cn then foldM (\<lambda>n j. do {
             y \<leftarrow> GetItem cn j;
             case y of None \<Rightarrow> Some n | Some a \<Rightarrow> do { it \<leftarrow> iw_heap w a; Some (n + f cn it) } }) n (bag_slots cn)
         else Some n } })"

definition GetItemCount :: "item_world \<Rightarrow> u32 \<Rightarrow> u32 \<Rightarrow> bool \<Rightarrow> u32 option" where
  "GetItemCount w p e IncBank =
     (let own = (\<lambda>it. if pr_ItemId (it_proto it) = e \<and> it_wrapped it = 0 then count_of it else 0);
          inner = (\<lambda>cn it. if pr_ItemId (it_proto it) = e \<and> it_wrapped cn = 0 then count_of it else 0) in do {
       n \<leftarrow> sum_slots w p own 0 (slots 0 INVENTORY_SLOT_ITEM_END);
       n \<leftarrow> sum_bags w p inner n inventory_bags;
       n \<leftarrow> sum_slots w p own n keyring;
       if IncBank then do {
         n \<leftarrow> sum_slots w p own n (slots BANK_SLOT_ITEM_START BANK_SLOT_BAG_END);
         sum_bags w p inner n bank_bags }
       else Some n })"

definition INV_ERR_CANT_CARRY_MORE_OF_THIS :: u8 where "INV_ERR_CANT_CARRY_MORE_OF_THIS = 17"

definition CanReceiveItem :: "item_world \<Rightarrow> u32 \<Rightarrow> item_proto \<Rightarrow> u32 \<Rightarrow> u8 option" where
  "CanReceiveItem w p pr amount = (if pr_Unique pr \<noteq> 0 then do {
       n \<leftarrow> GetItemCount w p (pr_ItemId pr) True;
       Some (if n = pr_Unique pr \<or> pr_Unique pr < n + amount then INV_ERR_CANT_CARRY_MORE_OF_THIS else 0) }
     else Some 0)"

text \<open>A stack that takes \<open>cnt\<close> more.\<close>

definition less_max :: "u32 \<Rightarrow> u32 \<Rightarrow> nat \<Rightarrow> item \<Rightarrow> nat option" where
  "less_max e cnt a it = (if pr_ItemId (it_proto it) = e \<and> it_wrapped it = 0 \<and> it_stack it + cnt \<le> pr_MaxCount (it_proto it)
     then Some a else None)"

definition FindItemLessMax :: "item_world \<Rightarrow> u32 \<Rightarrow> u32 \<Rightarrow> u32 \<Rightarrow> bool \<Rightarrow> nat option option" where
  "FindItemLessMax w p e cnt IncBank =
     (let bags = (\<lambda>i. in_bag w p (bag_item w (\<lambda>j. less_max e cnt)) i) in
      or_else (first_in (in_slot w p (less_max e cnt)) backpack)
     (or_else (first_in bags inventory_bags)
     (or_else (if IncBank then first_in (in_slot w p (less_max e cnt)) bank else Some None)
        (if IncBank then first_in bags bank_bags else Some None))))"

definition CalculateFreeSlots :: "item_world \<Rightarrow> u32 \<Rightarrow> item_proto \<Rightarrow> u32 option" where
  "CalculateFreeSlots w p pr =
     (let empty = foldM (\<lambda>n i. map_option (\<lambda>x. if x = None then n + 1 else n) (m_pItems w p i)) in do {
       n \<leftarrow> (if pr_BagFamily pr = 0 then Some 0
         else if has_flag (pr_BagFamily pr) ITEM_TYPE_KEYRING then empty (0 :: u32) keyring
         else foldM (\<lambda>n i. map_option (\<lambda>r. if r \<noteq> None then n + 1 else n) (bag_with_room w p (pr_BagFamily pr) i)) 0 inventory_bags);
       n \<leftarrow> empty n backpack;
       foldM (\<lambda>n i. do {
         x \<leftarrow> m_pItems w p i;
         case x of None \<Rightarrow> Some n
         | Some b \<Rightarrow> do {
             cn \<leftarrow> iw_heap w b;
             if it_container cn \<and> pr_BagFamily (it_proto cn) = 0
             then foldM (\<lambda>n j. map_option (\<lambda>y. if y = None then n + 1 else n) (GetItem cn j)) n (bag_slots cn)
             else Some n } }) n inventory_bags })"

section \<open>Removing\<close>

text \<open>The three cases of a stack: larger than the amount, equal, smaller (the loop goes on).\<close>

definition take_stack :: "u32 \<Rightarrow> int \<Rightarrow> int \<Rightarrow> nat \<Rightarrow> item_world \<times> u32 \<Rightarrow> (item_world \<times> u32 + item_world \<times> u32) option" where
  "take_stack p c s a st = (case st of (w, amt) \<Rightarrow> do {
     it \<leftarrow> iw_heap w a;
     if amt < it_stack it then
       Some (Inl (upd_item a (\<lambda>it. it\<lparr> it_stack := it_stack it - amt, it_dirty := True \<rparr>) w, amt))
     else if it_stack it = amt then do {
       (w, ok) \<leftarrow> SafeFullRemoveItemFromSlot p c s w;
       Some (Inl (w, if ok then amt else 0)) }
     else do {
       (w, ok) \<leftarrow> SafeFullRemoveItemFromSlot p c s w;
       Some (Inr (w, amt - it_stack it)) } })"

definition take_here :: "u32 \<Rightarrow> u32 \<Rightarrow> bool \<Rightarrow> int \<Rightarrow> item_world \<times> u32 \<Rightarrow> (item_world \<times> u32 + item_world \<times> u32) option" where
  "take_here p e test_bag i st = (case st of (w, amt) \<Rightarrow> do {
     x \<leftarrow> m_pItems w p i;
     case x of None \<Rightarrow> Some (Inr (w, amt))
     | Some a \<Rightarrow> do {
         it \<leftarrow> iw_heap w a;
         if pr_ItemId (it_proto it) = e \<and> it_wrapped it = 0 then do {
           full \<leftarrow> (if test_bag then full_bag it else Some False);
           if full then do { w \<leftarrow> DeleteFromDB a w; Some (Inr (w, amt)) }
           else take_stack p INVENTORY_SLOT_NOT_SET i a (w, amt) }
         else Some (Inr (w, amt)) } })"

definition take_in_bag :: "u32 \<Rightarrow> u32 \<Rightarrow> int \<Rightarrow> item_world \<times> u32 \<Rightarrow> (item_world \<times> u32 + item_world \<times> u32) option" where
  "take_in_bag p e i st = (case st of (w, amt) \<Rightarrow> do {
     x \<leftarrow> m_pItems w p i;
     case x of None \<Rightarrow> Some (Inr (w, amt))
     | Some b \<Rightarrow> do {
         cn \<leftarrow> iw_heap w b;
         if it_container cn then for_return (\<lambda>j (w, amt). do {
             cn \<leftarrow> iw_heap w b;
             y \<leftarrow> GetItem cn j;
             case y of None \<Rightarrow> Some (Inr (w, amt))
             | Some a \<Rightarrow> do {
                 it \<leftarrow> iw_heap w a;
                 if pr_ItemId (it_proto it) = e \<and> it_wrapped cn = 0 then take_stack p i j a (w, amt)
                 else Some (Inr (w, amt)) } }) (bag_slots cn) (w, amt)
         else Some (Inr (w, amt)) } })"

text \<open>\<open>RemoveItemAmt\<close>: the value it returns is what was left to remove at the last stack.\<close>

definition RemoveItemAmt :: "u32 \<Rightarrow> u32 \<Rightarrow> u32 \<Rightarrow> item_world \<Rightarrow> (item_world \<times> u32) option" where
  "RemoveItemAmt p e amt w = do {
     n \<leftarrow> GetItemCount w p e False;
     if n < amt then Some (w, 0)
     else do {
       r \<leftarrow> seq_loop (for_return (take_here p e True) (slots 0 INVENTORY_SLOT_ITEM_END) (w, amt))
         (\<lambda>st. seq_loop (for_return (take_in_bag p e) inventory_bags st) (for_return (take_here p e False) keyring));
       Some (case r of Inl x \<Rightarrow> x | Inr (w, amt) \<Rightarrow> (w, 0)) } }"

definition conjured :: "item_proto \<Rightarrow> bool" where "conjured pr = has_flag (pr_Flags pr) 2"

definition RemoveAllConjured :: "u32 \<Rightarrow> item_world \<Rightarrow> item_world option" where
  "RemoveAllConjured p w = foldM (\<lambda>w i. do {
     x \<leftarrow> m_pItems w p i;
     case x of None \<Rightarrow> Some w
     | Some b \<Rightarrow> do {
         cn \<leftarrow> iw_heap w b;
         if IsBagSlot i \<and> it_container cn then foldM (\<lambda>w j. do {
             cn \<leftarrow> iw_heap w b;
             y \<leftarrow> GetItem cn j;
             case y of None \<Rightarrow> Some w
             | Some a \<Rightarrow> do {
                 it \<leftarrow> iw_heap w a;
                 if conjured (it_proto it) then map_option fst (Container_SafeFullRemove b j w) else Some w } }) w (bag_slots cn)
         else if conjured (it_proto cn) then map_option fst (SafeFullRemoveItemFromSlot p INVENTORY_SLOT_NOT_SET i w)
         else Some w } }) w (slots INVENTORY_SLOT_BAG_START INVENTORY_SLOT_ITEM_END)"

section \<open>Swapping\<close>

text \<open>Two stacks of one entry are put together; a full target is swapped instead.\<close>

definition merge_stacks :: "(item_world \<Rightarrow> item_world option) \<Rightarrow> nat \<Rightarrow> nat \<Rightarrow> item_world \<Rightarrow> (item_world + item_world) option" where
  "merge_stacks remove_src a b w = do {
     src \<leftarrow> iw_heap w a;
     dst \<leftarrow> iw_heap w b;
     if it_stack src + it_stack dst \<le> pr_MaxCount (it_proto dst) then do {
       let w = upd_item b (\<lambda>it. it\<lparr> it_stack := ModUnsigned32Value (it_stack it) (it_stack src) \<rparr>) w;
       w \<leftarrow> remove_src w;
       Some (Inl w) }
     else if it_stack dst = pr_MaxCount (it_proto dst) then Some (Inr w)
     else let delta = pr_MaxCount (it_proto dst) - it_stack dst;
              w = upd_item b (\<lambda>it. it\<lparr> it_stack := pr_MaxCount (it_proto dst) \<rparr>) w in
       Some (Inl (upd_item a (\<lambda>it. it\<lparr> it_stack := ModUnsigned32Value (it_stack it) (- delta) \<rparr>) w)) }"

definition set_dirty :: "nat option \<Rightarrow> item_world \<Rightarrow> item_world" where
  "set_dirty x w = (case x of Some a \<Rightarrow> upd_item a (\<lambda>it. it\<lparr> it_dirty := True \<rparr>) w | None \<Rightarrow> w)"

text \<open>What is in slot \<open>s\<close> now: its field, its stats, its looks.\<close>

definition mods_of_slot :: "u32 \<Rightarrow> int \<Rightarrow> bool \<Rightarrow> item_world \<Rightarrow> item_world option" where
  "mods_of_slot p s apply_mods w = (if s < INVENTORY_SLOT_BAG_END then do {
       x \<leftarrow> m_pItems w p s;
       Some (case x of Some a \<Rightarrow> item_emit (FxMods p a s apply_mods) w | None \<Rightarrow> w) }
     else Some w)"

definition field_of_slot :: "u32 \<Rightarrow> int \<Rightarrow> item_world \<Rightarrow> item_world option" where
  "field_of_slot p s w = do {
     x \<leftarrow> m_pItems w p s;
     case x of None \<Rightarrow> put_field p s 0 w
     | Some a \<Rightarrow> do { it \<leftarrow> iw_heap w a; put_field p s (it_guid it) w } }"

definition look_of_slot :: "u32 \<Rightarrow> int \<Rightarrow> bool \<Rightarrow> item_world \<Rightarrow> item_world option" where
  "look_of_slot p s cancel_spell w = (if s < INVENTORY_SLOT_BAG_END then do {
       x \<leftarrow> m_pItems w p s;
       let w = (if s < EQUIPMENT_SLOT_END then item_emit (FxVisible p s x) w else w);
       case x of None \<Rightarrow> Some w
       | Some a \<Rightarrow> do {
           it \<leftarrow> iw_heap w a;
           let w = (if pr_Bonding (it_proto it) = ITEM_BIND_ON_EQUIP then SoulBind a w else w);
           Some (if cancel_spell then item_emit (FxCancelSpell p) w else w) } }
     else Some w)"

text \<open>The contents of a bag moved to an empty slot are taken out of it and put into it again.\<close>

definition refill_bag :: "u32 \<Rightarrow> int \<Rightarrow> int \<Rightarrow> nat \<Rightarrow> item_world \<Rightarrow> item_world option" where
  "refill_bag p src dst a w = do {
     it \<leftarrow> iw_heap w a;
     if it_container it then foldM (\<lambda>w j. do {
         x \<leftarrow> m_pItems w p src;
         b \<leftarrow> x;
         cn \<leftarrow> iw_heap w b;
         y \<leftarrow> GetItem cn j;
         (w, r) \<leftarrow> SafeRemoveAndRetreiveItemFromSlot p src j False w;
         case y of None \<Rightarrow> Some w | Some c \<Rightarrow> map_option fst (SafeAddItem p c dst j w) }) w (bag_slots it)
     else Some w }"

definition swap_bags :: "u32 \<Rightarrow> int \<Rightarrow> int \<Rightarrow> nat \<Rightarrow> nat \<Rightarrow> item_world \<Rightarrow> item_world option" where
  "swap_bags p src dst a b w = do {
     ia \<leftarrow> iw_heap w a;
     ib \<leftarrow> iw_heap w b;
     if it_container ia \<and> it_container ib then foldM (\<lambda>w j. do {
         x \<leftarrow> m_pItems w p src; xb \<leftarrow> x; cx \<leftarrow> iw_heap w xb; s \<leftarrow> GetItem cx j;
         y \<leftarrow> m_pItems w p dst; yb \<leftarrow> y; cy \<leftarrow> iw_heap w yb; d \<leftarrow> GetItem cy j;
         w \<leftarrow> (if s \<noteq> None then map_option fst (SafeRemoveAndRetreiveItemFromSlot p src j False w) else Some w);
         w \<leftarrow> (if d \<noteq> None then map_option fst (SafeRemoveAndRetreiveItemFromSlot p dst j False w) else Some w);
         w \<leftarrow> (case s of Some c \<Rightarrow> map_option fst (Container_AddItem b j c w) | None \<Rightarrow> Some w);
         (case d of Some c \<Rightarrow> map_option fst (Container_AddItem a j c w) | None \<Rightarrow> Some w) })
       w (slots 0 (max (uint (pr_ContainerSlots (it_proto ia))) (uint (pr_ContainerSlots (it_proto ib)))))
     else Some w }"

definition gm_robes :: "u32 set" where "gm_robes = {12064, 2586, 11508}"

text \<open>
  \<open>robes\<close>: the player is a game master who must wear the robes; \<open>casting\<close>: it has a current spell.
\<close>

definition swap_places :: "u32 \<Rightarrow> bool \<Rightarrow> int \<Rightarrow> int \<Rightarrow> nat option \<Rightarrow> nat option \<Rightarrow> item_world \<Rightarrow> item_world option" where
  "swap_places p casting srcslot dstslot SrcItem DstItem w = do {
     w \<leftarrow> mods_of_slot p srcslot False w;
     w \<leftarrow> mods_of_slot p dstslot False w;
     w \<leftarrow> put_slot p dstslot SrcItem w;
     a \<leftarrow> SrcItem;
     w \<leftarrow> (if DstItem = None then refill_bag p srcslot dstslot a w else Some w);
     w \<leftarrow> put_slot p srcslot DstItem w;
     w \<leftarrow> (case DstItem of Some b \<Rightarrow> swap_bags p srcslot dstslot a b w | None \<Rightarrow> Some w);
     let w = set_dirty SrcItem (set_dirty DstItem w);
     w \<leftarrow> field_of_slot p dstslot w;
     w \<leftarrow> field_of_slot p srcslot w;
     w \<leftarrow> look_of_slot p srcslot casting w;
     w \<leftarrow> look_of_slot p dstslot False w;
     w \<leftarrow> (if dstslot = EQUIPMENT_SLOT_OFFHAND \<or> srcslot = EQUIPMENT_SLOT_OFFHAND then do {
       x \<leftarrow> m_pItems w p EQUIPMENT_SLOT_OFFHAND;
       case x of None \<Rightarrow> Some (item_emit (FxDualWield p False) w)
       | Some c \<Rightarrow> do { it \<leftarrow> iw_heap w c; Some (item_emit (FxDualWield p (pr_Class (it_proto it) = ITEM_CLASS_WEAPON)) w) } }
       else Some w);
     w \<leftarrow> mods_of_slot p srcslot True w;
     mods_of_slot p dstslot True w }"

definition stackable :: "item \<Rightarrow> item \<Rightarrow> bool" where
  "stackable src dst \<longleftrightarrow> pr_ItemId (it_proto src) = pr_ItemId (it_proto dst) \<and> 1 < pr_MaxCount (it_proto src) \<and>
     it_wrapped src = 0 \<and> it_wrapped dst = 0"

definition SwapItemSlots :: "u32 \<Rightarrow> bool \<Rightarrow> bool \<Rightarrow> int \<Rightarrow> int \<Rightarrow> item_world \<Rightarrow> item_world option" where
  "SwapItemSlots p robes casting srcslot dstslot w =
    (if int MAX_INVENTORY_SLOT \<le> srcslot \<or> srcslot < 0 \<or> int MAX_INVENTORY_SLOT \<le> dstslot \<or> dstslot < 0 then Some w
     else do {
       SrcItem \<leftarrow> GetInventoryItem w p srcslot;
       DstItem \<leftarrow> GetInventoryItem w p dstslot;
       refuse \<leftarrow> (if robes \<and> dstslot < INVENTORY_SLOT_BAG_END
         then do { a \<leftarrow> SrcItem; it \<leftarrow> iw_heap w a; Some (pr_ItemId (it_proto it) \<notin> gm_robes) } else Some False);
       if refuse then map_option fst (AddItemToFreeSlot p SrcItem w)
       else do {
         r \<leftarrow> (case (SrcItem, DstItem) of
             (Some a, Some b) \<Rightarrow> do {
               src \<leftarrow> iw_heap w a;
               dst \<leftarrow> iw_heap w b;
               if stackable src dst then do {
                 r \<leftarrow> merge_stacks (\<lambda>w. map_option fst (SafeFullRemoveItemFromSlot p INVENTORY_SLOT_NOT_SET srcslot w)) a b w;
                 Some (case r of Inl w \<Rightarrow> Inl (if it_stack src + it_stack dst \<le> pr_MaxCount (it_proto dst)
                   then set_dirty DstItem w else set_dirty DstItem (set_dirty SrcItem w)) | Inr w \<Rightarrow> Inr w) }
               else Some (Inr w) }
           | _ \<Rightarrow> Some (Inr w));
         case r of Inl w \<Rightarrow> Some w
         | Inr w \<Rightarrow> swap_places p casting srcslot dstslot SrcItem DstItem w } })"

text \<open>\<open>Container::SwapItems\<close>: the same inside a bag. The slot numbers are compared with an \<open>int8\<close>.\<close>

definition bag_field :: "nat \<Rightarrow> int \<Rightarrow> item_world \<Rightarrow> item_world option" where
  "bag_field c s w = do {
     cn \<leftarrow> iw_heap w c;
     x \<leftarrow> mem_at (it_slots cn) s;
     g \<leftarrow> (case x of Some a \<Rightarrow> map_option it_guid (iw_heap w a) | None \<Rightarrow> Some 0);
     fl \<leftarrow> mem_put (it_slot_fields cn) s g;
     Some (set_dirty x (upd_item c (\<lambda>cn. cn\<lparr> it_slot_fields := fl \<rparr>) w)) }"

definition Container_SwapItems :: "nat \<Rightarrow> int \<Rightarrow> int \<Rightarrow> item_world \<Rightarrow> item_world option" where
  "Container_SwapItems c src dst w = do {
     cn \<leftarrow> iw_heap w c;
     let n = sint (ucast (pr_ContainerSlots (it_proto cn)) :: 8 word);
     if src < 0 \<or> n \<le> src \<or> dst < 0 \<or> n \<le> dst then Some w
     else do {
       x \<leftarrow> mem_at (it_slots cn) src;
       y \<leftarrow> mem_at (it_slots cn) dst;
       r \<leftarrow> (case (x, y) of
           (Some a, Some b) \<Rightarrow> do {
             ia \<leftarrow> iw_heap w a;
             ib \<leftarrow> iw_heap w b;
             if pr_ItemId (it_proto ia) = pr_ItemId (it_proto ib) \<and> it_wrapped ia = 0 \<and> it_wrapped ib = 0 \<and>
                1 < pr_MaxCount (it_proto ib)
             then merge_stacks (\<lambda>w. map_option fst (Container_SafeFullRemove c src w)) a b (set_dirty (Some a) (set_dirty (Some b) w))
             else Some (Inr w) }
         | _ \<Rightarrow> Some (Inr w));
       case r of Inl w \<Rightarrow> Some w
       | Inr w \<Rightarrow> do {
           cn \<leftarrow> iw_heap w c;
           sl \<leftarrow> mem_put (it_slots cn) src y;
           sl \<leftarrow> mem_put sl dst x;
           let w = upd_item c (\<lambda>cn. cn\<lparr> it_slots := sl \<rparr>) w;
           w \<leftarrow> bag_field c dst w;
           bag_field c src w } } }"

end
