(* ===== verification/HS_ItemsInv.thy ===== *)
theory HS_ItemsInv
  imports HS_Stacks
begin

text \<open>
  What an inventory is, seen from outside: a partial map from places to items (\<open>content\<close>), where a place is a
  slot of the array, or a slot of a bag in it, and the items themselves (\<open>core\<close>) up to the fields that only
  matter to the client and the database. The invariant \<open>inv_ok\<close> says that no item is in two places, that
  everything in the inventory is alive and owned by its player, and that the fields the client sees agree with
  the slots. Each operation is defined in such a state, keeps the invariant, and changes the map in one place.
\<close>

section \<open>Loops\<close>

lemma set_slots [simp]: "i \<in> set (slots a b) \<longleftrightarrow> a \<le> i \<and> i < b"
  by (auto simp: slots_def)

lemma first_in_None: "first_in f xs = Some None \<longleftrightarrow> (\<forall>i \<in> set xs. f i = Some None)"
  by (induction xs) (auto split: option.splits)

lemma first_in_defined:
  "(\<And>i. i \<in> set xs \<Longrightarrow> f i \<noteq> None) \<Longrightarrow> \<exists>r. first_in f xs = Some r"
  by (induction xs) (auto split: option.splits)

lemma first_in_SomeD: "first_in f xs = Some (Some r) \<Longrightarrow> \<exists>i \<in> set xs. f i = Some (Some r)"
  by (induction xs) (auto split: option.splits)

lemma first_in_hit:
  assumes "\<And>i. i \<in> set xs \<Longrightarrow> f i \<noteq> None" "i \<in> set xs" "f i \<noteq> Some None"
  shows "\<exists>r. first_in f xs = Some (Some r)"
  using assms by (induction xs) (force split: option.splits)+

lemma or_else_None: "or_else f g = Some None \<longleftrightarrow> f = Some None \<and> g = Some None"
  by (auto simp: or_else_def split: option.splits)

lemma or_else_Some: "or_else f g = Some (Some r) \<longleftrightarrow> f = Some (Some r) \<or> f = Some None \<and> g = Some (Some r)"
  by (auto simp: or_else_def split: option.splits)

lemma or_else_defined: "f \<noteq> None \<Longrightarrow> g \<noteq> None \<Longrightarrow> \<exists>r. or_else f g = Some r"
  by (auto simp: or_else_def split: option.splits)

lemma mem_at_None [simp]: "mem_at xs i = None \<longleftrightarrow> \<not> (0 \<le> i \<and> i < int (length xs))"
  by (auto simp: mem_at_def)

lemma mem_at_Some [simp]: "0 \<le> i \<Longrightarrow> i < int (length xs) \<Longrightarrow> mem_at xs i = Some (xs ! nat i)"
  by (simp add: mem_at_def)

lemma mem_put_Some [simp]: "0 \<le> i \<Longrightarrow> i < int (length xs) \<Longrightarrow> mem_put xs i x = Some (xs[nat i := x])"
  by (simp add: mem_put_def)

section \<open>Places\<close>

text \<open>\<open>(-1, s)\<close> is slot \<open>s\<close> of the array, \<open>(c, s)\<close> is slot \<open>s\<close> of the bag in slot \<open>c\<close>.\<close>

definition slot_content :: "item_world \<Rightarrow> u32 \<Rightarrow> int \<Rightarrow> nat option" where
  "slot_content w p s = (if 0 \<le> s \<and> s < 118 then iv_items (iw_inv w p) ! nat s else None)"

definition bag_content :: "item \<Rightarrow> int \<Rightarrow> nat option" where
  "bag_content cn s = (if it_container cn \<and> 0 \<le> s \<and> s < uint (pr_ContainerSlots (it_proto cn)) then it_slots cn ! nat s else None)"

definition content :: "item_world \<Rightarrow> u32 \<Rightarrow> int \<times> int \<Rightarrow> nat option" where
  "content w p x = (if fst x = -1 then slot_content w p (snd x)
     else (case slot_content w p (fst x) of None \<Rightarrow> None
       | Some b \<Rightarrow> (case iw_heap w b of None \<Rightarrow> None | Some cn \<Rightarrow> bag_content cn (snd x))))"

text \<open>An item without the fields that follow it around.\<close>

definition it_core :: "item \<Rightarrow> item" where
  "it_core it = it\<lparr> it_dirty := False, it_flags := 0, it_contained := 0, it_world := False, it_owner_field := 0,
     it_slots := [], it_slot_fields := [] \<rparr>"

definition core :: "item_world \<Rightarrow> nat \<Rightarrow> item option" where
  "core w a = map_option it_core (iw_heap w a)"

definition bag_shape :: "item \<Rightarrow> bool" where
  "bag_shape it \<longleftrightarrow> (it_container it \<longrightarrow> length (it_slots it) = 72 \<and> length (it_slot_fields it) = 36 \<and>
     uint (pr_ContainerSlots (it_proto it)) \<le> 36 \<and> it_num_slots it = pr_ContainerSlots (it_proto it) \<and>
     (\<forall>i < 36. it_slots it ! i = None \<longrightarrow> it_slot_fields it ! i = 0))"

definition bag_empty :: "item \<Rightarrow> bool" where
  "bag_empty it \<longleftrightarrow> (\<forall>s. bag_content it s = None)"

definition guid_at :: "item_world \<Rightarrow> nat option \<Rightarrow> u64" where
  "guid_at w x = (case x of None \<Rightarrow> 0 | Some a \<Rightarrow> (case iw_heap w a of None \<Rightarrow> 0 | Some it \<Rightarrow> it_guid it))"

text \<open>Slots 74 to 85 are numbers of the vendor's buyback, whose fields they share.\<close>

definition own_slot :: "int \<Rightarrow> bool" where "own_slot s \<longleftrightarrow> 0 \<le> s \<and> s < 74 \<or> 86 \<le> s \<and> s < 118"

definition heap_shape :: "item_world \<Rightarrow> bool" where
  "heap_shape w \<longleftrightarrow> (\<forall>a it. iw_heap w a = Some it \<longrightarrow> bag_shape it) \<and> (\<forall>a \<ge> iw_next w. iw_heap w a = None)"

definition inv_lengths :: "item_world \<Rightarrow> u32 \<Rightarrow> bool" where
  "inv_lengths w p \<longleftrightarrow> length (iv_items (iw_inv w p)) = 118 \<and> length (iv_fields (iw_inv w p)) = 118"

definition owned :: "item_world \<Rightarrow> u32 \<Rightarrow> bool" where
  "owned w p \<longleftrightarrow> (\<forall>x a. content w p x = Some a \<longrightarrow> (\<exists>it. iw_heap w a = Some it \<and> it_owner it = Some p))"

definition once :: "item_world \<Rightarrow> u32 \<Rightarrow> bool" where
  "once w p \<longleftrightarrow> (\<forall>x y a. content w p x = Some a \<longrightarrow> content w p y = Some a \<longrightarrow> x = y)"

definition flat :: "item_world \<Rightarrow> u32 \<Rightarrow> bool" where
  "flat w p \<longleftrightarrow> (\<forall>x a it. fst x \<noteq> -1 \<longrightarrow> content w p x = Some a \<longrightarrow> iw_heap w a = Some it \<longrightarrow> bag_empty it)"

definition mirrored :: "item_world \<Rightarrow> u32 \<Rightarrow> bool" where
  "mirrored w p \<longleftrightarrow> (\<forall>s. own_slot s \<longrightarrow> iv_fields (iw_inv w p) ! nat s = guid_at w (slot_content w p s)) \<and>
     (\<forall>c b cn j. slot_content w p c = Some b \<longrightarrow> iw_heap w b = Some cn \<longrightarrow> it_container cn \<longrightarrow>
        0 \<le> j \<longrightarrow> j < uint (pr_ContainerSlots (it_proto cn)) \<longrightarrow> it_slot_fields cn ! nat j = guid_at w (bag_content cn j))"

definition inv_ok :: "item_world \<Rightarrow> u32 \<Rightarrow> bool" where
  "inv_ok w p \<longleftrightarrow> heap_shape w \<and> inv_lengths w p \<and> owned w p \<and> once w p \<and> flat w p \<and> mirrored w p"

lemmas inv_ok_defs = inv_ok_def heap_shape_def inv_lengths_def owned_def once_def flat_def mirrored_def

definition unplaced :: "item_world \<Rightarrow> u32 \<Rightarrow> nat \<Rightarrow> bool" where
  "unplaced w p a \<longleftrightarrow> (\<forall>x. content w p x \<noteq> Some a)"

text \<open>An item that may be put into the inventory: alive, not in it, and not a bag with contents.\<close>

definition loose :: "item_world \<Rightarrow> u32 \<Rightarrow> nat \<Rightarrow> bool" where
  "loose w p a \<longleftrightarrow> unplaced w p a \<and> (\<exists>it. iw_heap w a = Some it \<and> bag_empty it)"

lemma content_slot [simp]: "content w p (-1, s) = slot_content w p s"
  by (simp add: content_def)

lemma content_bag:
  "slot_content w p c = Some b \<Longrightarrow> iw_heap w b = Some cn \<Longrightarrow> content w p (c, s) = bag_content cn s"
  by (auto simp: content_def slot_content_def split: if_splits)

lemma slot_content_range: "slot_content w p s = Some a \<Longrightarrow> 0 \<le> s \<and> s < 118"
  by (simp add: slot_content_def split: if_splits)

lemma content_bagD:
  assumes "content w p (c, s) = Some a" "c \<noteq> -1"
  obtains b cn where "slot_content w p c = Some b" "iw_heap w b = Some cn" "bag_content cn s = Some a" "it_container cn"
    "0 \<le> s" "s < uint (pr_ContainerSlots (it_proto cn))"
  using assms by (auto simp: content_def bag_content_def split: option.splits if_splits)

lemma m_pItems_content:
  "inv_ok w p \<Longrightarrow> m_pItems w p s = (if 0 \<le> s \<and> s < 118 then Some (slot_content w p s) else None)"
  by (auto simp: m_pItems_def mem_at_def slot_content_def inv_ok_def inv_lengths_def)

lemma GetInventoryItem_content:
  "inv_ok w p \<Longrightarrow> s < 118 \<Longrightarrow> GetInventoryItem w p s = Some (slot_content w p s)"
  by (auto simp: GetInventoryItem_def MAX_INVENTORY_SLOT_def m_pItems_content slot_content_def)

lemma bag_live: "inv_ok w p \<Longrightarrow> iw_heap w b = Some cn \<Longrightarrow> bag_shape cn"
  by (auto simp: inv_ok_def heap_shape_def)

lemma placed_live: "inv_ok w p \<Longrightarrow> content w p x = Some a \<Longrightarrow> \<exists>it. iw_heap w a = Some it \<and> it_owner it = Some p"
  unfolding inv_ok_def owned_def by blast

lemma slot_live: "inv_ok w p \<Longrightarrow> slot_content w p s = Some a \<Longrightarrow> \<exists>it. iw_heap w a = Some it \<and> it_owner it = Some p"
  using placed_live [of w p "(-1, s)"] by simp

lemma placed_once: "inv_ok w p \<Longrightarrow> content w p x = Some a \<Longrightarrow> content w p y = Some a \<Longrightarrow> x = y"
  unfolding inv_ok_def once_def by blast

lemma GetItem_content: "it_container cn \<Longrightarrow> bag_shape cn \<Longrightarrow> GetItem cn s = Some (bag_content cn s)"
  by (auto simp: GetItem_def bag_content_def bag_shape_def)

lemma bag_slots_set [simp]: "s \<in> set (bag_slots cn) \<longleftrightarrow> 0 \<le> s \<and> s < uint (pr_ContainerSlots (it_proto cn))"
  by (simp add: bag_slots_def)

lemma mem_at_bag:
  "it_container cn \<Longrightarrow> bag_shape cn \<Longrightarrow> 0 \<le> s \<Longrightarrow> s < uint (pr_ContainerSlots (it_proto cn)) \<Longrightarrow>
    mem_at (it_slots cn) s = Some (bag_content cn s)"
  by (auto simp: bag_content_def bag_shape_def)

lemma total_slots_bag:
  assumes "it_container cn" "bag_shape cn"
  shows "total_slots cn = uint (pr_ContainerSlots (it_proto cn))"
proof -
  have eq: "it_num_slots cn = pr_ContainerSlots (it_proto cn)" and small: "uint (pr_ContainerSlots (it_proto cn)) \<le> 36"
    using assms by (auto simp: bag_shape_def)
  have nn: "0 \<le> uint (pr_ContainerSlots (it_proto cn))" by simp
  have "uint (ucast (pr_ContainerSlots (it_proto cn)) :: 8 word) = uint (pr_ContainerSlots (it_proto cn))"
    using small nn by (simp add: unsigned_ucast_eq take_bit_int_eq_self)
  with small nn show ?thesis
    using signed_take_bit_int_eq_self [of 7 "uint (pr_ContainerSlots (it_proto cn))"]
    by (simp add: total_slots_def eq sint_uint order_trans [OF _ nn])
qed

lemma HasItems_content:
  assumes "it_container cn" "bag_shape cn"
  shows "HasItems cn = Some (\<not> bag_empty cn)"
proof -
  have at: "mem_at (it_slots cn) i = Some (bag_content cn i)" if "i \<in> set (slots 0 (total_slots cn))" for i
    using that mem_at_bag [OF assms, of i] by (simp add: total_slots_bag [OF assms])
  let ?f = "\<lambda>i. map_option (map_option (\<lambda>_. ())) (mem_at (it_slots cn) i)"
  from first_in_defined [of "slots 0 (total_slots cn)" ?f] at
  obtain r where r: "first_in ?f (slots 0 (total_slots cn)) = Some r" by auto
  have "r = None \<longleftrightarrow> (\<forall>i \<in> set (slots 0 (total_slots cn)). bag_content cn i = None)"
    using first_in_None [of ?f "slots 0 (total_slots cn)"] at by (auto simp: r)
  also have "\<dots> \<longleftrightarrow> bag_empty cn"
    by (auto simp: bag_empty_def bag_content_def total_slots_bag [OF assms])
  finally show ?thesis by (cases r) (simp_all add: HasItems_def r)
qed

lemma full_bag_content: "bag_shape it \<Longrightarrow> full_bag it = Some (\<not> bag_empty it)"
  by (auto simp: full_bag_def HasItems_content bag_empty_def bag_content_def word_less_def)

section \<open>Changes that do not show\<close>

text \<open>\<open>face\<close> forgets dirty flags, soulbinding, rows, effects and search results.\<close>

definition norm_item :: "item \<Rightarrow> item" where
  "norm_item it = it\<lparr> it_dirty := False, it_flags := 0, it_contained := 0, it_world := False, it_owner_field := 0 \<rparr>"

definition face :: "item_world \<Rightarrow> (nat \<Rightarrow> item option) \<times> nat \<times> (u32 \<Rightarrow> nat option list \<times> u64 list)" where
  "face w = (\<lambda>a. map_option norm_item (iw_heap w a), iw_next w, \<lambda>q. (iv_items (iw_inv w q), iv_fields (iw_inv w q)))"

lemma norm_item_sel [simp]:
  "it_guid (norm_item it) = it_guid it" "it_proto (norm_item it) = it_proto it" "it_container (norm_item it) = it_container it"
  "it_owner (norm_item it) = it_owner it" "it_stack (norm_item it) = it_stack it" "it_num_slots (norm_item it) = it_num_slots it"
  "it_slots (norm_item it) = it_slots it" "it_slot_fields (norm_item it) = it_slot_fields it" "it_core (norm_item it) = it_core it"
  "it_wrapped (norm_item it) = it_wrapped it"
  by (simp_all add: norm_item_def it_core_def)

lemma norm_item_facts [simp]:
  "bag_content (norm_item it) = bag_content it" "bag_shape (norm_item it) = bag_shape it" "bag_empty (norm_item it) = bag_empty it"
  by (auto simp: bag_content_def bag_shape_def bag_empty_def fun_eq_iff)

lemma it_core_sel [simp]:
  "it_guid (it_core it) = it_guid it" "it_proto (it_core it) = it_proto it" "it_container (it_core it) = it_container it"
  "it_owner (it_core it) = it_owner it" "it_stack (it_core it) = it_stack it" "it_wrapped (it_core it) = it_wrapped it"
  by (simp_all add: it_core_def)

text \<open>The world as its face: what the definitions above read.\<close>

definition norm_world :: "item_world \<Rightarrow> item_world" where
  "norm_world w = w\<lparr> iw_heap := (\<lambda>a. map_option norm_item (iw_heap w a)) \<rparr>"

lemma slot_content_norm [simp]: "slot_content (norm_world w) p s = slot_content w p s"
  by (simp add: slot_content_def norm_world_def)

lemma heap_norm: "iw_heap (norm_world w) a = map_option norm_item (iw_heap w a)"
  by (simp add: norm_world_def)

lemma inv_norm [simp]: "iw_inv (norm_world w) = iw_inv w" "iw_next (norm_world w) = iw_next w"
  by (simp_all add: norm_world_def)

lemma content_norm [simp]: "content (norm_world w) p = content w p"
  by (auto simp: content_def fun_eq_iff heap_norm split: option.splits)

lemma core_norm [simp]: "core (norm_world w) = core w"
  by (auto simp: core_def norm_world_def fun_eq_iff option.map_comp comp_def)

lemma guid_at_norm [simp]: "guid_at (norm_world w) x = guid_at w x"
  by (auto simp: guid_at_def norm_world_def split: option.splits)

lemma inv_ok_norm [simp]: "inv_ok (norm_world w) p = inv_ok w p"
proof -
  have "heap_shape (norm_world w) = heap_shape w" by (force simp: heap_shape_def heap_norm)
  moreover have "inv_lengths (norm_world w) p = inv_lengths w p" by (simp add: inv_lengths_def)
  moreover have "owned (norm_world w) p = owned w p" by (force simp: owned_def heap_norm)
  moreover have "once (norm_world w) p = once w p" by (simp add: once_def)
  moreover have "flat (norm_world w) p = flat w p" by (force simp: flat_def heap_norm)
  moreover have "mirrored (norm_world w) p = mirrored w p"
    unfolding mirrored_def heap_norm inv_norm slot_content_norm guid_at_norm
    by (intro arg_cong2 [where f = "(\<and>)"] refl) (fastforce simp: option.map_sel)
  ultimately show ?thesis by (simp add: inv_ok_def)
qed

lemma face_norm:
  assumes "face w = face w'"
  shows "content w = content w'" "core w = core w'" "inv_ok w p = inv_ok w' p" "iw_next w = iw_next w'"
    "slot_content w = slot_content w'" "guid_at w = guid_at w'" "iw_heap (norm_world w) = iw_heap (norm_world w')"
proof -
  have heap: "iw_heap (norm_world w) = iw_heap (norm_world w')" and "next": "iw_next w = iw_next w'"
    and items: "\<And>q. iv_items (iw_inv w q) = iv_items (iw_inv w' q)" "\<And>q. iv_fields (iw_inv w q) = iv_fields (iw_inv w' q)"
    using assms by (auto simp: face_def norm_world_def fun_eq_iff)
  have sc: "slot_content (norm_world w) = slot_content (norm_world w')"
    by (intro ext) (simp only: slot_content_def inv_norm items)
  have c: "content (norm_world w) = content (norm_world w')"
    by (intro ext) (simp only: content_def heap sc)
  have g: "guid_at (norm_world w) = guid_at (norm_world w')"
    by (intro ext) (simp only: guid_at_def heap)
  have n: "iw_next (norm_world w) = iw_next (norm_world w')" using "next" by (simp add: norm_world_def)
  have i: "iv_items (iw_inv (norm_world w) q) = iv_items (iw_inv (norm_world w') q)"
    "iv_fields (iw_inv (norm_world w) q) = iv_fields (iw_inv (norm_world w') q)" for q
    by (simp_all add: norm_world_def items)
  have "inv_ok (norm_world w) p = inv_ok (norm_world w') p"
    by (simp only: inv_ok_defs heap c sc g n i)
  then show "inv_ok w p = inv_ok w' p" by simp
  show "content w = content w'" by (rule ext) (metis c content_norm)
  show "slot_content w = slot_content w'" by (intro ext) (metis sc slot_content_norm)
  show "guid_at w = guid_at w'" by (rule ext) (metis g guid_at_norm)
  have "core (norm_world w) = core (norm_world w')" by (intro ext) (simp only: core_def heap)
  then show "core w = core w'" by simp
qed (use assms in \<open>simp_all add: face_def norm_world_def\<close>)

lemma face_live: "face w = face w' \<Longrightarrow> iw_heap w a = Some it \<Longrightarrow> \<exists>it'. iw_heap w' a = Some it' \<and> norm_item it' = norm_item it"
  by (auto simp: face_def fun_eq_iff dest!: spec [of _ a]) (metis map_option_eq_Some)

text \<open>The elementary changes that leave the face as it is.\<close>

lemma face_upd [simp]: "(\<And>it. norm_item (f it) = norm_item it) \<Longrightarrow> face (upd_item a f w) = face w"
  by (auto simp: face_def upd_item_def fun_eq_iff option.map_comp comp_def)

lemma face_emit [simp]: "face (item_emit e w) = face w"
  by (simp add: face_def item_emit_def)

lemma face_result [simp]: "face (set_result p r w) = face w"
  by (auto simp: face_def set_result_def upd_inv_def fun_eq_iff)

lemma face_last [simp]: "face (upd_inv p (\<lambda>v. v\<lparr> iv_result := f v \<rparr>) w) = face w"
  by (auto simp: face_def upd_inv_def fun_eq_iff)

lemma face_rows [simp]: "face (w\<lparr> iw_rows := r \<rparr>) = face w"
  by (simp add: face_def)

lemma face_SoulBind [simp]: "face (SoulBind a w) = face w"
  by (simp add: SoulBind_def norm_item_def)

lemma face_dirty [simp]: "face (set_dirty x w) = face w"
  by (cases x) (simp_all add: set_dirty_def norm_item_def)

lemma RemoveFromWorld_face: "iw_heap w a = Some it \<Longrightarrow> \<exists>w'. RemoveFromWorld a w = Some w' \<and> face w' = face w"
  by (auto simp: RemoveFromWorld_def norm_item_def Let_def split: option.split)

lemma PushToWorld_face: "iw_heap w a = Some it \<Longrightarrow> \<exists>w'. PushToWorld p a w = Some w' \<and> face w' = face w"
  by (auto simp: PushToWorld_def norm_item_def)

lemma DeleteFromDB_face:
  assumes "iw_heap w a = Some it" "bag_shape it"
  shows "\<exists>w'. DeleteFromDB a w = Some w' \<and> face w' = face w \<and> iw_heap w' = iw_heap w"
proof -
  have "\<exists>r. first_in (\<lambda>i. map_option (map_option (\<lambda>_. ())) (GetItem it i)) (bag_slots it) = Some r" if "it_container it"
    by (rule first_in_defined) (simp add: GetItem_content [OF that assms(2)])
  then show ?thesis by (cases "it_container it") (auto simp: DeleteFromDB_def assms(1))
qed

section \<open>One place changes\<close>

definition valid_place :: "item_world \<Rightarrow> u32 \<Rightarrow> int \<times> int \<Rightarrow> bool" where
  "valid_place w p x \<longleftrightarrow> (if fst x = -1 then 0 \<le> snd x \<and> snd x < 118
     else (\<exists>b cn. slot_content w p (fst x) = Some b \<and> iw_heap w b = Some cn \<and> it_container cn \<and>
       0 \<le> snd x \<and> snd x < uint (pr_ContainerSlots (it_proto cn))))"

definition w_put :: "u32 \<Rightarrow> nat \<Rightarrow> int \<Rightarrow> int \<Rightarrow> item_world \<Rightarrow> item_world" where
  "w_put p a c s w = (let g = it_guid (the (iw_heap w a)); w' = upd_item a (\<lambda>it. it\<lparr> it_owner := Some p \<rparr>) w in
     if c = -1 then upd_inv p (\<lambda>v. v\<lparr> iv_items := (iv_items v)[nat s := Some a], iv_fields := (iv_fields v)[nat s := g] \<rparr>) w'
     else upd_item (the (slot_content w p c))
       (\<lambda>cn. cn\<lparr> it_slots := (it_slots cn)[nat s := Some a], it_slot_fields := (it_slot_fields cn)[nat s := g] \<rparr>) w')"

definition w_take :: "u32 \<Rightarrow> int \<Rightarrow> int \<Rightarrow> item_world \<Rightarrow> item_world" where
  "w_take p c s w =
     (if c = -1 then upd_inv p (\<lambda>v. v\<lparr> iv_items := (iv_items v)[nat s := None], iv_fields := (iv_fields v)[nat s := 0] \<rparr>) w
      else upd_item (the (slot_content w p c))
        (\<lambda>cn. cn\<lparr> it_slots := (it_slots cn)[nat s := None], it_slot_fields := (it_slot_fields cn)[nat s := 0] \<rparr>) w)"

definition w_drop :: "nat \<Rightarrow> item_world \<Rightarrow> item_world" where
  "w_drop a w = w\<lparr> iw_heap := (iw_heap w)(a := None) \<rparr>"

lemma upd_item_sel [simp]:
  "iw_heap (upd_item a f w) = (iw_heap w)(a := map_option f (iw_heap w a))" "iw_inv (upd_item a f w) = iw_inv w"
  "iw_next (upd_item a f w) = iw_next w" "iw_rows (upd_item a f w) = iw_rows w"
  by (simp_all add: upd_item_def)

lemma upd_inv_sel [simp]:
  "iw_heap (upd_inv p f w) = iw_heap w" "iw_inv (upd_inv p f w) = (iw_inv w)(p := f (iw_inv w p))"
  "iw_next (upd_inv p f w) = iw_next w" "iw_rows (upd_inv p f w) = iw_rows w"
  by (simp_all add: upd_inv_def)

lemma slot_content_upd_item [simp]: "slot_content (upd_item a f w) p s = slot_content w p s"
  by (simp add: slot_content_def)

lemma slot_content_put_slot:
  "inv_lengths w p \<Longrightarrow> 0 \<le> s \<Longrightarrow> s < 118 \<Longrightarrow>
    slot_content (upd_inv p (\<lambda>v. v\<lparr> iv_items := (iv_items v)[nat s := x], iv_fields := fl v \<rparr>) w) p = (slot_content w p)(s := x)"
  by (auto simp: slot_content_def fun_eq_iff inv_lengths_def nth_list_update)

lemma placed_neq:
  "unplaced w p a \<Longrightarrow> slot_content w p c \<noteq> Some a"
  unfolding unplaced_def by (metis content_slot)

lemma bag_content_put:
  assumes "bag_shape cn" "it_container cn" "0 \<le> s" "s < uint (pr_ContainerSlots (it_proto cn))"
  shows "bag_content (cn\<lparr> it_slots := (it_slots cn)[nat s := x], it_slot_fields := fl \<rparr>) = (bag_content cn)(s := x)"
  using assms by (auto simp: bag_content_def fun_eq_iff bag_shape_def nth_list_update)

lemma bag_content_owner [simp]: "bag_content (it\<lparr> it_owner := ow \<rparr>) = bag_content it"
  by (auto simp: bag_content_def fun_eq_iff)

lemma bag_empty_owner [simp]: "bag_empty (it\<lparr> it_owner := ow \<rparr>) = bag_empty it"
  by (simp add: bag_empty_def)

lemma bag_shape_owner [simp]: "bag_shape (it\<lparr> it_owner := ow \<rparr>) = bag_shape it"
  by (simp add: bag_shape_def)

lemma bag_shape_put:
  assumes "bag_shape cn" "x = None \<longrightarrow> g = 0"
  shows "bag_shape (cn\<lparr> it_slots := (it_slots cn)[i := x], it_slot_fields := (it_slot_fields cn)[i := g] \<rparr>)"
proof -
  have "(it_slot_fields cn)[i := g] ! k = 0" if "it_container cn" "k < 36" "(it_slots cn)[i := x] ! k = None" for k
    using assms that by (cases "k = i") (auto simp: bag_shape_def)
  with assms(1) show ?thesis by (simp add: bag_shape_def)
qed

lemma bag_empty_fields:
  "bag_empty cn \<Longrightarrow> bag_shape cn \<Longrightarrow> it_container cn \<Longrightarrow> 0 \<le> j \<Longrightarrow> j < uint (pr_ContainerSlots (it_proto cn)) \<Longrightarrow>
    it_slot_fields cn ! nat j = 0 \<and> bag_content cn j = None"
  by (auto simp: bag_empty_def bag_shape_def bag_content_def dest!: spec [of _ j])

lemma it_core_owner [simp]: "it_core (it\<lparr> it_owner := ow \<rparr>) = (it_core it)\<lparr> it_owner := ow \<rparr>"
  by (simp add: it_core_def)

lemma it_core_slots [simp]: "it_core (it\<lparr> it_slots := sl, it_slot_fields := fl \<rparr>) = it_core it"
  by (simp add: it_core_def)

text \<open>Putting a loose item into an empty place.\<close>

lemma w_put_content_slot:
  assumes ok: "inv_ok w p" and loose: "loose w p a" and s: "0 \<le> s" "s < 118" and empty: "slot_content w p s = None"
  shows "content (w_put p a (-1) s w) p = (content w p)((-1, s) \<mapsto> a)"
proof -
  from loose obtain it where it: "iw_heap w a = Some it" "bag_empty it" and un: "unplaced w p a" by (auto simp: loose_def)
  have len: "inv_lengths w p" using ok by (simp add: inv_ok_def)
  have sc: "slot_content (w_put p a (-1) s w) p = (slot_content w p)(s \<mapsto> a)"
    using slot_content_put_slot [of "upd_item a (\<lambda>it. it\<lparr> it_owner := Some p \<rparr>) w" p s _ "Some a"] len s
    by (simp add: w_put_def it Let_def inv_lengths_def fun_eq_iff)
  have heap: "iw_heap (w_put p a (-1) s w) = (iw_heap w)(a \<mapsto> it\<lparr> it_owner := Some p \<rparr>)"
    by (simp add: w_put_def it Let_def)
  have "content (w_put p a (-1) s w) p (d, j) = ((content w p)((-1, s) \<mapsto> a)) (d, j)" for d j
    by (cases "slot_content w p d")
      (use it(2) s empty placed_neq [OF un] in \<open>auto simp: content_def sc heap bag_empty_def\<close>)
  then show ?thesis by (metis ext surj_pair)
qed

lemma w_put_content_bag:
  assumes ok: "inv_ok w p" and loose: "loose w p a" and c: "c \<noteq> -1" and b: "slot_content w p c = Some b"
    "iw_heap w b = Some cn" "it_container cn" "0 \<le> s" "s < uint (pr_ContainerSlots (it_proto cn))"
  shows "content (w_put p a c s w) p = (content w p)((c, s) \<mapsto> a)"
proof -
  from loose obtain it where it: "iw_heap w a = Some it" "bag_empty it" and un: "unplaced w p a" by (auto simp: loose_def)
  have ab: "a \<noteq> b" using placed_neq [OF un, of c] b(1) by auto
  have shape: "bag_shape cn" by (rule bag_live [OF ok b(2)])
  have sc: "slot_content (w_put p a c s w) p = slot_content w p"
    by (simp add: w_put_def c Let_def fun_eq_iff)
  have heap: "iw_heap (w_put p a c s w) = (iw_heap w)(a \<mapsto> it\<lparr> it_owner := Some p \<rparr>,
      b \<mapsto> cn\<lparr> it_slots := (it_slots cn)[nat s := Some a], it_slot_fields := (it_slot_fields cn)[nat s := it_guid it] \<rparr>)"
    using ab by (simp add: w_put_def c it Let_def b)
  have uniq: "d = c" if "slot_content w p d = Some b" for d
    using placed_once [OF ok, of "(-1, d)" b "(-1, c)"] that b(1) by simp
  have "content (w_put p a c s w) p (d, j) = ((content w p)((c, s) \<mapsto> a)) (d, j)" for d j
    using ab c b uniq [of d] placed_neq [OF un]
    by (cases "slot_content w p d") (auto simp: content_def sc heap bag_content_put [OF shape b(3,4,5)])
  then show ?thesis by (metis ext surj_pair)
qed

lemma w_put_content:
  assumes "inv_ok w p" "loose w p a" "valid_place w p (c, s)" "content w p (c, s) = None"
  shows "content (w_put p a c s w) p = (content w p)((c, s) \<mapsto> a)"
  using assms w_put_content_slot [OF assms(1,2)] w_put_content_bag [OF assms(1,2)]
  by (auto simp: valid_place_def split: if_splits)

lemma w_put_next [simp]: "iw_next (w_put p a c s w) = iw_next w" "iw_next (w_take p c s w) = iw_next w" "iw_next (w_drop a w) = iw_next w"
  by (simp_all add: w_put_def w_take_def w_drop_def Let_def)

lemma w_put_core: "iw_heap w a = Some it \<Longrightarrow> core (w_put p a c s w) = (core w)(a \<mapsto> (it_core it)\<lparr> it_owner := Some p \<rparr>)"
  by (auto simp: core_def w_put_def fun_eq_iff Let_def option.map_comp comp_def)

lemma inv_okD:
  assumes "inv_ok w p"
  shows "heap_shape w" "inv_lengths w p" "owned w p" "once w p" "flat w p" "mirrored w p"
  using assms by (simp_all add: inv_ok_def)

lemma guid_at_None [simp]: "guid_at w None = 0"
  by (simp add: guid_at_def)

lemma mirrored_slot: "mirrored w p \<Longrightarrow> own_slot s \<Longrightarrow> iv_fields (iw_inv w p) ! nat s = guid_at w (slot_content w p s)"
  by (simp add: mirrored_def)

lemma mirrored_bag:
  "mirrored w p \<Longrightarrow> slot_content w p c = Some b \<Longrightarrow> iw_heap w b = Some cn \<Longrightarrow> it_container cn \<Longrightarrow>
    0 \<le> j \<Longrightarrow> j < uint (pr_ContainerSlots (it_proto cn)) \<Longrightarrow> it_slot_fields cn ! nat j = guid_at w (bag_content cn j)"
  unfolding mirrored_def by blast

lemma own_slot_range: "own_slot s \<Longrightarrow> 0 \<le> s \<and> s < 118"
  by (auto simp: own_slot_def)

lemma w_put_slot_ok:
  assumes ok: "inv_ok w p" and loose: "loose w p a" and s: "0 \<le> s" "s < 118" and empty: "slot_content w p s = None"
  shows "inv_ok (w_put p a (-1) s w) p"
proof -
  let ?w = "w_put p a (-1) s w"
  note D = inv_okD [OF ok]
  from loose obtain it where it: "iw_heap w a = Some it" "bag_empty it" and un: "unplaced w p a" by (auto simp: loose_def)
  have c: "content ?w p = (content w p)((-1, s) \<mapsto> a)" by (rule w_put_content_slot [OF ok loose s empty])
  have sc: "slot_content ?w p t = ((slot_content w p)(s \<mapsto> a)) t" for t
    using fun_cong [OF c, of "(-1, t)"] by auto
  have heap: "iw_heap ?w = (iw_heap w)(a \<mapsto> it\<lparr> it_owner := Some p \<rparr>)"
    by (simp add: w_put_def it Let_def)
  have "heap_shape ?w"
    using D(1) it(1) by (auto simp: heap_shape_def heap)
  moreover have "inv_lengths ?w p" using D(2) by (simp add: inv_lengths_def w_put_def Let_def)
  moreover have "owned ?w p" using D(3) by (auto simp: owned_def c heap)
  moreover have "once ?w p" using D(4) un by (auto simp: once_def c unplaced_def)
  moreover have "flat ?w p" using D(5) it(2) un by (auto simp: flat_def c heap unplaced_def)
  moreover have "mirrored ?w p"
  proof -
    have g: "guid_at ?w x = guid_at w x" for x
      using it(1) by (cases x) (auto simp: guid_at_def heap)
    have ga: "guid_at w (Some a) = it_guid it" by (simp add: guid_at_def it)
    have f: "iv_fields (iw_inv ?w p) = (iv_fields (iw_inv w p))[nat s := it_guid it]"
      by (simp add: w_put_def it Let_def)
    have 1: "iv_fields (iw_inv ?w p) ! nat t = guid_at ?w (slot_content ?w p t)" if "own_slot t" for t
      using own_slot_range [OF that] s D(2) mirrored_slot [OF D(6) that]
      by (auto simp: f sc g ga inv_lengths_def nth_list_update)
    have 2: "it_slot_fields cn ! nat j = guid_at ?w (bag_content cn j)"
      if "slot_content ?w p d = Some b" "iw_heap ?w b = Some cn" "it_container cn" "0 \<le> j" "j < uint (pr_ContainerSlots (it_proto cn))" for d b cn j
    proof (cases "b = a")
      case True
      with that(2) heap have cn: "cn = it\<lparr> it_owner := Some p \<rparr>" by simp
      with bag_empty_fields [of it j] it that bag_live [OF ok it(1)] show ?thesis by (simp add: guid_at_def)
    next
      case False
      with that(1,2) heap have "slot_content w p d = Some b" "iw_heap w b = Some cn" by (auto simp: sc split: if_splits)
      with mirrored_bag [OF D(6) this that(3-5)] show ?thesis by (simp add: g)
    qed
    from 1 2 show ?thesis unfolding mirrored_def by blast
  qed
  ultimately show ?thesis by (simp add: inv_ok_def)
qed

lemma w_put_bag_ok:
  assumes ok: "inv_ok w p" and loose: "loose w p a" and c: "c \<noteq> -1" and b: "slot_content w p c = Some b"
    "iw_heap w b = Some cn" "it_container cn" "0 \<le> s" "s < uint (pr_ContainerSlots (it_proto cn))" and empty: "bag_content cn s = None"
  shows "inv_ok (w_put p a c s w) p"
proof -
  let ?w = "w_put p a c s w"
  note D = inv_okD [OF ok]
  from loose obtain it where it: "iw_heap w a = Some it" "bag_empty it" and un: "unplaced w p a" by (auto simp: loose_def)
  have ab: "a \<noteq> b" using placed_neq [OF un, of c] b(1) by auto
  have shape: "bag_shape cn" by (rule bag_live [OF ok b(2)])
  have C: "content ?w p = (content w p)((c, s) \<mapsto> a)" by (rule w_put_content_bag [OF ok loose c b])
  have sc: "slot_content ?w p t = slot_content w p t" for t
    by (simp add: w_put_def c Let_def)
  define cn' where "cn' = cn\<lparr> it_slots := (it_slots cn)[nat s := Some a], it_slot_fields := (it_slot_fields cn)[nat s := it_guid it] \<rparr>"
  have heap: "iw_heap ?w = (iw_heap w)(a \<mapsto> it\<lparr> it_owner := Some p \<rparr>, b \<mapsto> cn')"
    using ab by (simp add: w_put_def c it Let_def b cn'_def)
  have bc: "bag_content cn' = (bag_content cn)(s \<mapsto> a)" unfolding cn'_def by (rule bag_content_put [OF shape b(3,4,5)])
  have other: "y \<noteq> b" if "content w p x = Some y" "fst x \<noteq> -1" for x y
    using placed_once [OF ok, of x b "(-1, c)"] that b(1) by auto
  have "heap_shape ?w"
    using D(1) it(1) b(2) ab bag_shape_put [OF shape, of "Some a"] by (auto simp: heap_shape_def heap cn'_def)
  moreover have "inv_lengths ?w p" using D(2) by (simp add: inv_lengths_def w_put_def Let_def)
  moreover have "owned ?w p"
    using D(3) slot_live [OF ok b(1)] b(2) ab by (fastforce simp: owned_def C heap cn'_def)
  moreover have "once ?w p" using D(4) un by (auto simp: once_def C unplaced_def)
  moreover have "flat ?w p"
    unfolding flat_def
  proof (intro allI impI)
    fix x y iy assume x: "fst x \<noteq> -1" "content ?w p x = Some y" "iw_heap ?w y = Some iy"
    show "bag_empty iy"
    proof (cases "x = (c, s)")
      case True
      with x C heap ab it(2) show ?thesis by auto
    next
      case False
      with x(2) C have old: "content w p x = Some y" by simp
      moreover have "y \<noteq> a" using un old by (metis unplaced_def)
      ultimately have "iw_heap w y = Some iy" using other [OF old x(1)] x(3) heap by simp
      with D(5) x(1) old show ?thesis unfolding flat_def by blast
    qed
  qed
  moreover have "mirrored ?w p"
  proof -
    have g: "guid_at ?w x = guid_at w x" for x
      using it(1) b(2) by (cases x) (auto simp: guid_at_def heap cn'_def)
    have ga: "guid_at w (Some a) = it_guid it" by (simp add: guid_at_def it)
    have f': "it_slot_fields cn' = (it_slot_fields cn)[nat s := it_guid it]" by (simp add: cn'_def)
    have f: "iv_fields (iw_inv ?w p) = iv_fields (iw_inv w p)" by (simp add: w_put_def c Let_def)
    have 1: "iv_fields (iw_inv ?w p) ! nat t = guid_at ?w (slot_content ?w p t)" if "own_slot t" for t
      using mirrored_slot [OF D(6) that] by (simp add: sc g f)
    have 2: "it_slot_fields en ! nat j = guid_at ?w (bag_content en j)"
      if "slot_content ?w p d = Some e" "iw_heap ?w e = Some en" "it_container en" "0 \<le> j" "j < uint (pr_ContainerSlots (it_proto en))" for d e en j
    proof (cases "e = b")
      case True
      with that(2) heap have en: "en = cn'" by simp
      have "it_slot_fields cn ! nat j = guid_at w (bag_content cn j)"
        by (rule mirrored_bag [OF D(6) b(1,2,3) that(4)]) (use that(5) en cn'_def in simp)
      moreover have "nat j < length (it_slot_fields cn)" using that(4,5) shape b(3) en by (auto simp: bag_shape_def cn'_def)
      ultimately show ?thesis using that(4) b(4)
        by (auto simp: en bc g f' ga nth_list_update)
    next
      case False
      moreover have "e \<noteq> a" using placed_neq [OF un, of d] that(1) by (auto simp: sc)
      ultimately have "iw_heap w e = Some en" using that(2) heap by simp
      with mirrored_bag [OF D(6), of d e] that show ?thesis by (simp add: g sc)
    qed
    from 1 2 show ?thesis unfolding mirrored_def by blast
  qed
  ultimately show ?thesis by (simp add: inv_ok_def)
qed

lemma w_put_ok:
  assumes "inv_ok w p" "loose w p a" "valid_place w p (c, s)" "content w p (c, s) = None"
  shows "inv_ok (w_put p a c s w) p"
proof (cases "c = -1")
  case True
  with assms show ?thesis using w_put_slot_ok [OF assms(1,2), of s] by (simp add: valid_place_def)
next
  case False
  with assms(3) obtain b cn where b: "slot_content w p c = Some b" "iw_heap w b = Some cn" "it_container cn"
    "0 \<le> s" "s < uint (pr_ContainerSlots (it_proto cn))" by (auto simp: valid_place_def)
  with assms(4) content_bag [OF b(1,2), of s] show ?thesis by (intro w_put_bag_ok [OF assms(1,2) False b]) simp
qed

text \<open>Taking an item out of its place; a bag must be empty for that.\<close>

lemma w_take_slot:
  assumes ok: "inv_ok w p" and a: "slot_content w p s = Some a" "iw_heap w a = Some it" "bag_empty it"
  shows "content (w_take p (-1) s w) p = (content w p)((-1, s) := None)" "inv_ok (w_take p (-1) s w) p"
proof -
  let ?w = "w_take p (-1) s w"
  note D = inv_okD [OF ok]
  have s: "0 \<le> s" "s < 118" using slot_content_range [OF a(1)] by auto
  have sc: "slot_content ?w p = (slot_content w p)(s := None)"
    using slot_content_put_slot [OF D(2) s, of "\<lambda>v. (iv_fields v)[nat s := 0]" None] by (simp add: w_take_def)
  have heap: "iw_heap ?w = iw_heap w" by (simp add: w_take_def)
  have fields: "iv_fields (iw_inv ?w p) = (iv_fields (iw_inv w p))[nat s := 0]" by (simp add: w_take_def)
  have "content ?w p (d, j) = ((content w p)((-1, s) := None)) (d, j)" for d j
    by (cases "slot_content w p d") (use a in \<open>auto simp: content_def sc heap bag_empty_def\<close>)
  then show C: "content ?w p = (content w p)((-1, s) := None)" by (metis ext surj_pair)
  have g: "guid_at ?w x = guid_at w x" for x unfolding guid_at_def heap ..
  have "heap_shape ?w" using D(1) by (simp add: heap_shape_def heap)
  moreover have "inv_lengths ?w p" using D(2) by (simp add: inv_lengths_def w_take_def)
  moreover have "owned ?w p" using D(3) by (simp add: owned_def C heap)
  moreover have "once ?w p" using D(4) by (simp add: once_def C)
  moreover have "flat ?w p" using D(5) by (simp add: flat_def C heap)
  moreover have "iv_fields (iw_inv ?w p) ! nat t = guid_at ?w (slot_content ?w p t)" if "own_slot t" for t
    using own_slot_range [OF that] s D(2) mirrored_slot [OF D(6) that]
    by (auto simp: fields g sc inv_lengths_def nth_list_update)
  moreover have "it_slot_fields en ! nat j = guid_at ?w (bag_content en j)"
    if "slot_content ?w p d = Some e" "iw_heap ?w e = Some en" "it_container en" "0 \<le> j" "j < uint (pr_ContainerSlots (it_proto en))" for d e en j
    using mirrored_bag [OF D(6) _ _ that(3-5)] that(1,2) by (auto simp: sc g heap split: if_splits)
  ultimately show "inv_ok ?w p" unfolding inv_ok_def mirrored_def by blast
qed

lemma w_take_bag:
  assumes ok: "inv_ok w p" and c: "c \<noteq> -1" and b: "slot_content w p c = Some b"
    "iw_heap w b = Some cn" "it_container cn" "0 \<le> s" "s < uint (pr_ContainerSlots (it_proto cn))"
  shows "content (w_take p c s w) p = (content w p)((c, s) := None)" "inv_ok (w_take p c s w) p"
proof -
  let ?w = "w_take p c s w"
  note D = inv_okD [OF ok]
  have shape: "bag_shape cn" by (rule bag_live [OF ok b(2)])
  define cn' where "cn' = cn\<lparr> it_slots := (it_slots cn)[nat s := None], it_slot_fields := (it_slot_fields cn)[nat s := 0] \<rparr>"
  have sc: "slot_content ?w p t = slot_content w p t" for t by (simp add: w_take_def c)
  have heap: "iw_heap ?w = (iw_heap w)(b \<mapsto> cn')" by (simp add: w_take_def c b cn'_def)
  have f': "it_slot_fields cn' = (it_slot_fields cn)[nat s := 0]" by (simp add: cn'_def)
  have bc: "bag_content cn' = (bag_content cn)(s := None)" unfolding cn'_def by (rule bag_content_put [OF shape b(3,4,5)])
  have uniq: "d = c" if "slot_content w p d = Some b" for d
    using placed_once [OF ok, of "(-1, d)" b "(-1, c)"] that b(1) by simp
  have "content ?w p (d, j) = ((content w p)((c, s) := None)) (d, j)" for d j
    using c b uniq [of d] by (cases "slot_content w p d") (auto simp: content_def sc heap bc)
  then show C: "content ?w p = (content w p)((c, s) := None)" by (metis ext surj_pair)
  have other: "y \<noteq> b" if "content w p x = Some y" "fst x \<noteq> -1" for x y
    using placed_once [OF ok, of x b "(-1, c)"] that b(1) by auto
  have fields: "iv_fields (iw_inv ?w p) = iv_fields (iw_inv w p)" by (simp add: w_take_def c)
  have g: "guid_at ?w x = guid_at w x" for x
    using b(2) by (cases x) (auto simp: guid_at_def heap cn'_def)
  have "heap_shape ?w"
    using D(1) b(2) bag_shape_put [OF shape, of None 0] by (auto simp: heap_shape_def heap cn'_def)
  moreover have "inv_lengths ?w p" using D(2) by (simp add: inv_lengths_def w_take_def c)
  moreover have "owned ?w p"
    using D(3) slot_live [OF ok b(1)] b(2) by (fastforce simp: owned_def C heap cn'_def)
  moreover have "once ?w p" using D(4) by (simp add: once_def C)
  moreover have "flat ?w p"
    unfolding flat_def
  proof (intro allI impI)
    fix x y iy assume x: "fst x \<noteq> -1" "content ?w p x = Some y" "iw_heap ?w y = Some iy"
    then have old: "content w p x = Some y" by (simp add: C split: if_splits)
    with other [OF old x(1)] x(3) heap have "iw_heap w y = Some iy" by simp
    with D(5) x(1) old show "bag_empty iy" unfolding flat_def by blast
  qed
  moreover have "iv_fields (iw_inv ?w p) ! nat t = guid_at ?w (slot_content ?w p t)" if "own_slot t" for t
    using mirrored_slot [OF D(6) that] fields by (simp add: sc g)
  moreover have "it_slot_fields en ! nat j = guid_at ?w (bag_content en j)"
    if "slot_content ?w p d = Some e" "iw_heap ?w e = Some en" "it_container en" "0 \<le> j" "j < uint (pr_ContainerSlots (it_proto en))" for d e en j
  proof (cases "e = b")
    case True
    with that(2) heap have en: "en = cn'" by simp
    have "it_slot_fields cn ! nat j = guid_at w (bag_content cn j)"
      by (rule mirrored_bag [OF D(6) b(1,2,3) that(4)]) (use that(5) en cn'_def in simp)
    moreover have "nat j < length (it_slot_fields cn)" using that(4,5) shape b(3) en by (auto simp: bag_shape_def cn'_def)
    ultimately show ?thesis using that(4) b(4)
      by (auto simp: en bc g f' nth_list_update)
  next
    case False
    then have "iw_heap w e = Some en" using that(2) heap by simp
    with mirrored_bag [OF D(6), of d e] that show ?thesis by (simp add: g sc)
  qed
  ultimately show "inv_ok ?w p" unfolding inv_ok_def mirrored_def by blast
qed

lemma w_take_core: "core (w_take p c s w) = core w"
  by (auto simp: core_def w_take_def fun_eq_iff option.map_comp comp_def)

text \<open>Destroying an item that is in no place.\<close>

lemma w_drop:
  assumes ok: "inv_ok w p" and un: "unplaced w p a"
  shows "content (w_drop a w) p = content w p" "inv_ok (w_drop a w) p" "core (w_drop a w) = (core w)(a := None)"
proof -
  let ?w = "w_drop a w"
  note D = inv_okD [OF ok]
  have sc: "slot_content ?w p t = slot_content w p t" for t by (simp add: slot_content_def w_drop_def)
  have heap: "iw_heap ?w = (iw_heap w)(a := None)" by (simp add: w_drop_def)
  have "content ?w p (d, j) = content w p (d, j)" for d j
    using placed_neq [OF un, of d] by (cases "slot_content w p d") (auto simp: content_def sc heap)
  then show C: "content ?w p = content w p" by (metis ext surj_pair)
  have live: "x \<noteq> Some a" if "x = content w p y" for x y using un that by (metis unplaced_def)
  have g: "guid_at ?w (content w p y) = guid_at w (content w p y)" for y
    using live [OF refl, of y] by (cases "content w p y") (auto simp: guid_at_def heap)
  have "heap_shape ?w" using D(1) by (auto simp: heap_shape_def heap)
  moreover have "inv_lengths ?w p" using D(2) by (simp add: inv_lengths_def w_drop_def)
  moreover have "owned ?w p" unfolding owned_def C using D(3) un by (auto simp: owned_def heap unplaced_def)
  moreover have "once ?w p" using D(4) by (simp add: once_def C)
  moreover have "flat ?w p" using D(5) unfolding flat_def C by (simp add: heap)
  moreover have "iv_fields (iw_inv ?w p) ! nat t = guid_at ?w (slot_content ?w p t)" if "own_slot t" for t
    using mirrored_slot [OF D(6) that] g [of "(-1, t)"] by (simp add: sc) (simp add: w_drop_def)
  moreover have "it_slot_fields en ! nat j = guid_at ?w (bag_content en j)"
    if "slot_content ?w p d = Some e" "iw_heap ?w e = Some en" "it_container en" "0 \<le> j" "j < uint (pr_ContainerSlots (it_proto en))" for d e en j
  proof -
    have e: "slot_content w p d = Some e" "iw_heap w e = Some en" using that(1,2) by (auto simp: sc heap split: if_splits)
    show ?thesis
    proof (cases "d = -1")
      case True
      with slot_content_range [OF e(1)] show ?thesis by simp
    next
      case False
      with content_bag [OF e, of j] g [of "(d, j)"] mirrored_bag [OF D(6) e that(3-5)] show ?thesis by simp
    qed
  qed
  ultimately show "inv_ok ?w p" unfolding inv_ok_def mirrored_def by blast
  show "core (w_drop a w) = (core w)(a := None)" by (auto simp: core_def heap)
qed

end
