(* ===== verification/HS_ItemOps.thy ===== *)
theory HS_ItemOps
  imports HS_ItemsInv
begin

text \<open>
  Every operation of the inventory, as the change it makes to the map from places to items: \<open>put_at\<close> (an item
  arrives), \<open>taken_from\<close> (one leaves), \<open>same_inv\<close> (nothing moves). All are defined where the invariant holds.
\<close>

section \<open>The changes\<close>

definition same_inv :: "u32 \<Rightarrow> item_world \<Rightarrow> item_world \<Rightarrow> bool" where
  "same_inv p w w' \<longleftrightarrow> inv_ok w' p \<and> content w' p = content w p \<and> core w' = core w \<and> iw_next w' = iw_next w"

definition put_at :: "u32 \<Rightarrow> nat \<Rightarrow> int \<times> int \<Rightarrow> item_world \<Rightarrow> item_world \<Rightarrow> bool" where
  "put_at p a x w w' \<longleftrightarrow> inv_ok w' p \<and> content w' p = (content w p)(x \<mapsto> a) \<and>
     core w' = (core w)(a := map_option (\<lambda>it. it\<lparr> it_owner := Some p \<rparr>) (core w a)) \<and> iw_next w' = iw_next w"

definition taken_from :: "u32 \<Rightarrow> nat \<Rightarrow> int \<times> int \<Rightarrow> item_world \<Rightarrow> item_world \<Rightarrow> bool" where
  "taken_from p a x w w' \<longleftrightarrow> inv_ok w' p \<and> content w' p = (content w p)(x := None) \<and> core w' = core w \<and>
     iw_next w' = iw_next w \<and> loose w' p a"

definition destroyed_at :: "u32 \<Rightarrow> nat \<Rightarrow> int \<times> int \<Rightarrow> item_world \<Rightarrow> item_world \<Rightarrow> bool" where
  "destroyed_at p a x w w' \<longleftrightarrow> inv_ok w' p \<and> content w' p = (content w p)(x := None) \<and> core w' = (core w)(a := None) \<and>
     iw_next w' = iw_next w"

lemma same_inv_face: "inv_ok w p \<Longrightarrow> face w' = face w \<Longrightarrow> same_inv p w w'"
  using face_norm [of w' w] by (simp add: same_inv_def)

lemma same_inv_refl: "inv_ok w p \<Longrightarrow> same_inv p w w"
  by (simp add: same_inv_def)

lemma put_at_face:
  assumes "inv_ok w p" "loose w p a" "valid_place w p (c, s)" "content w p (c, s) = None" "face w' = face (w_put p a c s w)"
  shows "put_at p a (c, s) w w'"
proof -
  from assms(2) obtain it where it: "iw_heap w a = Some it" by (auto simp: loose_def)
  show ?thesis
    using face_norm [OF assms(5)] w_put_content [OF assms(1-4)] w_put_ok [OF assms(1-4)] w_put_core [OF it, of p c s]
    by (simp add: put_at_def) (simp add: core_def it)
qed

lemma loose_face: "face w' = face w \<Longrightarrow> loose w p a \<Longrightarrow> loose w' p a"
  using face_norm(1) [of w' w] face_live [of w w' a]
  by (auto simp: loose_def unplaced_def) (metis norm_item_facts(3))

lemma loose_norm: "loose (norm_world w) p a = loose w p a"
  by (auto simp: loose_def unplaced_def heap_norm)

lemma taken_loose:
  assumes "inv_ok w p" "content w p x = Some a" "iw_heap w a = Some it" "bag_empty it"
    "content w' p = (content w p)(x := None)" "iw_heap w' a = Some it"
  shows "loose w' p a"
proof -
  have "content w' p y \<noteq> Some a" for y
    using placed_once [OF assms(1,2), of y] assms(5) by (cases "y = x") auto
  with assms(4,6) show ?thesis by (auto simp: loose_def unplaced_def)
qed

lemma taken_face:
  assumes ok: "inv_ok w p" and place: "valid_place w p (c, s)" and a: "content w p (c, s) = Some a" "iw_heap w a = Some it" "bag_empty it"
    and face: "face w' = face (w_take p c s w)"
  shows "taken_from p a (c, s) w w'"
proof (cases "c = -1")
  case True
  with a(1) have sc: "slot_content w p s = Some a" by simp
  have heap: "iw_heap (w_take p c s w) a = Some it" by (simp add: w_take_def True a)
  note T = w_take_slot [OF ok sc a(2,3), folded True]
  have l: "loose (w_take p c s w) p a" by (rule taken_loose [OF ok a T(1) heap])
  from face_norm [OF face] T w_take_core [of p c s w] loose_face [OF face l] show ?thesis by (simp add: taken_from_def)
next
  case False
  with place obtain b cn where b: "slot_content w p c = Some b" "iw_heap w b = Some cn" "it_container cn"
    "0 \<le> s" "s < uint (pr_ContainerSlots (it_proto cn))" by (auto simp: valid_place_def)
  note T = w_take_bag [OF ok False b]
  have "a \<noteq> b" using placed_once [OF ok a(1), of "(-1, c)"] b(1) False by auto
  then have heap: "iw_heap (w_take p c s w) a = Some it" by (simp add: w_take_def False a b)
  have l: "loose (w_take p c s w) p a" by (rule taken_loose [OF ok a T(1) heap])
  from face_norm [OF face] T w_take_core [of p c s w] loose_face [OF face l] show ?thesis by (simp add: taken_from_def)
qed

lemma bag_in_bag_empty: "inv_ok w p \<Longrightarrow> content w p (c, s) = Some a \<Longrightarrow> c \<noteq> -1 \<Longrightarrow> iw_heap w a = Some it \<Longrightarrow> bag_empty it"
  unfolding inv_ok_def flat_def by (metis fst_conv)

lemma bag_owner: "inv_ok w p \<Longrightarrow> slot_content w p c = Some b \<Longrightarrow> iw_heap w b = Some cn \<Longrightarrow> it_owner cn = Some p"
  using slot_live by fastforce

lemma placed_owner: "inv_ok w p \<Longrightarrow> content w p x = Some b \<Longrightarrow> iw_heap w b = Some cn \<Longrightarrow> it_owner cn = Some p"
  using placed_live by fastforce

section \<open>Bags\<close>

lemma valid_bag_place:
  "slot_content w p c = Some b \<Longrightarrow> iw_heap w b = Some cn \<Longrightarrow> it_container cn \<Longrightarrow> 0 \<le> s \<Longrightarrow>
    s < uint (pr_ContainerSlots (it_proto cn)) \<Longrightarrow> c \<noteq> -1 \<Longrightarrow> valid_place w p (c, s)"
  by (simp add: valid_place_def)

lemma face_eqI:
  "(\<And>a. map_option norm_item (iw_heap w a) = map_option norm_item (iw_heap w' a)) \<Longrightarrow> iw_next w = iw_next w' \<Longrightarrow>
    (\<And>q. iv_items (iw_inv w q) = iv_items (iw_inv w' q)) \<Longrightarrow> (\<And>q. iv_fields (iw_inv w q) = iv_fields (iw_inv w' q)) \<Longrightarrow> face w = face w'"
  by (simp add: face_def fun_eq_iff)

text \<open>The stores that both ways of putting an item into a bag make, with or without binding it.\<close>

definition bag_stores :: "bool \<Rightarrow> nat \<Rightarrow> int \<Rightarrow> nat \<Rightarrow> u32 \<Rightarrow> item \<Rightarrow> item \<Rightarrow> item_world \<Rightarrow> item_world" where
  "bag_stores sb b s a p cn it w =
     (let w = upd_item b (\<lambda>c. c\<lparr> it_slots := (it_slots cn)[nat s := Some a] \<rparr>) w;
          w = SetOwner a (Some p) (upd_item a (\<lambda>it. it\<lparr> it_dirty := True, it_contained := it_guid cn \<rparr>) w);
          w = (if sb then SoulBind a w else w)
      in upd_item b (\<lambda>c. c\<lparr> it_slot_fields := (it_slot_fields cn)[nat s := it_guid it] \<rparr>) w)"

lemma bag_stores_ok:
  assumes ok: "inv_ok w p" and loose: "loose w p a" and c: "c \<noteq> -1" and b: "slot_content w p c = Some b"
    "iw_heap w b = Some cn" "it_container cn" "0 \<le> s" "s < uint (pr_ContainerSlots (it_proto cn))" and empty: "bag_content cn s = None"
    and it: "iw_heap w a = Some it"
  shows "\<exists>w'. PushToWorld p a (bag_stores sb b s a p cn it w) = Some w' \<and> put_at p a (c, s) w w'"
proof -
  have un: "unplaced w p a" using loose by (simp add: loose_def)
  have ab: "a \<noteq> b" using placed_neq [OF un, of c] b(1) by auto
  let ?w = "bag_stores sb b s a p cn it w"
  have w': "iw_heap ?w b = Some (cn\<lparr> it_slots := (it_slots cn)[nat s := Some a], it_slot_fields := (it_slot_fields cn)[nat s := it_guid it] \<rparr>)"
    "\<exists>it'. iw_heap ?w a = Some it' \<and> norm_item it' = norm_item (it\<lparr> it_owner := Some p \<rparr>)"
    "\<And>d. d \<noteq> a \<Longrightarrow> d \<noteq> b \<Longrightarrow> iw_heap ?w d = iw_heap w d" "iw_next ?w = iw_next w" "iw_inv ?w = iw_inv w"
    using ab b it by (auto simp: bag_stores_def Let_def SetOwner_def SoulBind_def norm_item_def)
  have put: "face ?w = face (w_put p a c s w)"
    by (rule face_eqI) (use w' ab b it c in \<open>auto simp: w_put_def Let_def norm_item_def\<close>)
  from w'(2) obtain w5 where w5: "PushToWorld p a ?w = Some w5" "face w5 = face ?w" using PushToWorld_face by blast
  moreover have "put_at p a (c, s) w w5"
    by (rule put_at_face [OF ok loose valid_bag_place [OF b(1-5) c]])
      (use w5(2) put content_bag [OF b(1,2)] empty in simp_all)
  ultimately show ?thesis by blast
qed

lemma Container_AddItem_ok:
  assumes ok: "inv_ok w p" and loose: "loose w p a" and c: "c \<noteq> -1" and b: "slot_content w p c = Some b"
    "iw_heap w b = Some cn" "it_container cn" "0 \<le> s" "s < uint (pr_ContainerSlots (it_proto cn))" and empty: "bag_content cn s = None"
  shows "\<exists>w'. Container_AddItem b s a w = Some (w', True) \<and> put_at p a (c, s) w w'"
proof -
  from loose obtain it where it: "iw_heap w a = Some it" by (auto simp: loose_def)
  have shape: "bag_shape cn" by (rule bag_live [OF ok b(2)])
  then have "length (it_slots cn) = 72" "length (it_slot_fields cn) = 36" "s < 36" using b(3,5) by (auto simp: bag_shape_def)
  then have "Container_AddItem b s a w = map_option (\<lambda>w. (w, True))
      (PushToWorld p a (bag_stores (pr_Bonding (it_proto it) = ITEM_BIND_ON_PICKUP) b s a p cn it w))"
    using b it empty mem_at_bag [OF b(3) shape b(4,5)] bag_owner [OF ok b(1,2)]
    by (simp add: Container_AddItem_def bag_stores_def Let_def map_conv_bind_option comp_def cong: if_cong)
  with bag_stores_ok [OF ok loose c b empty it] show ?thesis by fastforce
qed

lemma Container_AddItem_taken:
  assumes "inv_ok w p" "iw_heap w b = Some cn" "it_container cn" "0 \<le> s" "s < uint (pr_ContainerSlots (it_proto cn))" "bag_content cn s \<noteq> None"
  shows "Container_AddItem b s a w = Some (w, False)"
  using assms mem_at_bag [OF assms(3) bag_live [OF assms(1,2)] assms(4,5)] by (simp add: Container_AddItem_def)

lemma Container_AddItemToFreeSlot_run:
  assumes ok: "inv_ok w p" and it: "iw_heap w a = Some it" and c: "c \<noteq> -1" and b: "slot_content w p c = Some b"
    "iw_heap w b = Some cn" "it_container cn"
    and store: "\<And>s. 0 \<le> s \<Longrightarrow> s < uint (pr_ContainerSlots (it_proto cn)) \<Longrightarrow> bag_content cn s = None \<Longrightarrow>
      \<exists>w'. PushToWorld p a (bag_stores False b s a p cn it w) = Some w' \<and> Q s w'"
  shows "\<exists>w' r. Container_AddItemToFreeSlot b a w = Some (w', r) \<and>
    (case r of None \<Rightarrow> w' = w \<and> (\<forall>s. 0 \<le> s \<and> s < uint (pr_ContainerSlots (it_proto cn)) \<longrightarrow> content w p (c, s) \<noteq> None)
     | Some s \<Rightarrow> valid_place w p (c, s) \<and> content w p (c, s) = None \<and> Q s w')"
proof -
  have shape: "bag_shape cn" by (rule bag_live [OF ok b(2)])
  let ?f = "\<lambda>i. map_option (\<lambda>x. if x = None then Some i else None) (mem_at (it_slots cn) i)"
  have at: "?f i = Some (if bag_content cn i = None then Some i else None)" if "i \<in> set (bag_slots cn)" for i
    using that mem_at_bag [OF b(3) shape] by simp
  from first_in_defined [of "bag_slots cn" ?f] at obtain r where r: "first_in ?f (bag_slots cn) = Some r" by auto
  show ?thesis
  proof (cases r)
    case None
    with r have "\<forall>i \<in> set (bag_slots cn). bag_content cn i \<noteq> None" using at by (fastforce simp: first_in_None split: if_splits)
    with r None b(2) show ?thesis by (simp add: Container_AddItemToFreeSlot_def content_bag [OF b(1,2)])
  next
    case (Some s)
    with r obtain i where "i \<in> set (bag_slots cn)" "?f i = Some (Some s)" by (blast dest: first_in_SomeD)
    with at [of i] have s: "0 \<le> s" "s < uint (pr_ContainerSlots (it_proto cn))" "bag_content cn s = None"
      by (auto split: if_splits)
    have len: "length (it_slots cn) = 72" "length (it_slot_fields cn) = 36" "s < 36" using shape b(3) s(2) by (auto simp: bag_shape_def)
    from store [OF s] obtain w'
      where w': "PushToWorld p a (bag_stores False b s a p cn it w) = Some w'" "Q s w'" by blast
    have "Container_AddItemToFreeSlot b a w = Some (w', Some s)"
      using b it s len r Some bag_owner [OF ok b(1,2)] w'(1)
      by (simp add: Container_AddItemToFreeSlot_def bag_stores_def Let_def)
    with w'(2) s content_bag [OF b(1,2)] valid_bag_place [OF b s(1,2) c] show ?thesis by auto
  qed
qed

lemma Container_AddItemToFreeSlot_ok:
  assumes ok: "inv_ok w p" and loose: "loose w p a" and c: "c \<noteq> -1" and b: "slot_content w p c = Some b"
    "iw_heap w b = Some cn" "it_container cn"
  shows "\<exists>w' r. Container_AddItemToFreeSlot b a w = Some (w', r) \<and>
    (case r of None \<Rightarrow> w' = w \<and> (\<forall>s. 0 \<le> s \<and> s < uint (pr_ContainerSlots (it_proto cn)) \<longrightarrow> content w p (c, s) \<noteq> None)
     | Some s \<Rightarrow> valid_place w p (c, s) \<and> content w p (c, s) = None \<and> put_at p a (c, s) w w')"
proof -
  from loose obtain it where "iw_heap w a = Some it" by (auto simp: loose_def)
  from Container_AddItemToFreeSlot_run [OF ok this c b bag_stores_ok [OF ok loose c b _ _ _ this]] show ?thesis .
qed

text \<open>Taking an item out of a bag.\<close>

lemma DeleteFromDB_ok: "inv_ok w p \<Longrightarrow> iw_heap w a = Some it \<Longrightarrow> \<exists>w'. DeleteFromDB a w = Some w' \<and> face w' = face w \<and> iw_heap w' = iw_heap w"
  using DeleteFromDB_face bag_live by blast

lemma unlist_ok:
  assumes "face w = f" "iw_heap w a = Some it" "bag_shape it"
  shows "\<exists>w'. unlist destroy it0 a w = Some w' \<and> face w' = f"
proof -
  obtain w1 it1 where w1: "(if it_world it0 then RemoveFromWorld a w else Some w) = Some w1" "face w1 = face w"
      "iw_heap w1 a = Some it1" "bag_shape it1"
  proof (cases "it_world it0")
    case True
    from RemoveFromWorld_face [OF assms(2)] obtain w1 where w1: "RemoveFromWorld a w = Some w1" "face w1 = face w" by blast
    from face_live [OF w1(2) [symmetric] assms(2)] obtain it1 where "iw_heap w1 a = Some it1" "norm_item it1 = norm_item it" by blast
    moreover from this(2) assms(3) have "bag_shape it1" by (metis norm_item_facts(2))
    ultimately show ?thesis using that w1 True by simp
  qed (use that assms in simp)
  with DeleteFromDB_face [OF w1(3,4)] assms(1) show ?thesis by (auto simp: unlist_def)
qed

lemma Container_SafeRemove_ok:
  assumes ok: "inv_ok w p" and c: "c \<noteq> -1" and b: "slot_content w p c = Some b" "iw_heap w b = Some cn" "it_container cn"
    "0 \<le> s" "s < uint (pr_ContainerSlots (it_proto cn))" and a: "bag_content cn s = Some a"
  shows "\<exists>w'. Container_SafeRemove b s destroy w = Some (w', Some a) \<and> taken_from p a (c, s) w w'"
proof -
  have at: "content w p (c, s) = Some a" using content_bag [OF b(1,2)] a by simp
  from placed_live [OF ok at] obtain it where it: "iw_heap w a = Some it" "it_owner it = Some p" by blast
  have ab: "a \<noteq> b" using placed_once [OF ok at, of "(-1, c)"] b(1) c by auto
  have shape: "bag_shape cn" by (rule bag_live [OF ok b(2)])
  have len: "length (it_slots cn) = 72" "length (it_slot_fields cn) = 36" "s < 36" using shape b(3,5) by (auto simp: bag_shape_def)
  define w1 where "w1 = upd_item a (\<lambda>it. it\<lparr> it_contained := 0 \<rparr>) (upd_item b (\<lambda>c. c\<lparr> it_slot_fields := (it_slot_fields cn)[nat s := 0] \<rparr>)
    (upd_item b (\<lambda>c. c\<lparr> it_slots := (it_slots cn)[nat s := None] \<rparr>) w))"
  have take: "face w1 = face (w_take p c s w)"
    by (rule face_eqI) (use ab b it c in \<open>auto simp: w1_def w_take_def norm_item_def\<close>)
  have live: "iw_heap w1 a = Some (it\<lparr> it_contained := 0 \<rparr>)" using it ab by (simp add: w1_def)
  have "bag_shape (it\<lparr> it_contained := 0 \<rparr>)" using bag_live [OF ok it(1)] by (simp add: bag_shape_def)
  from unlist_ok [OF take live this, of destroy it] obtain w' where
    w': "unlist destroy it a w1 = Some w'" "face w' = face (w_take p c s w)" by blast
  have "Container_SafeRemove b s destroy w = Some (w', Some a)"
    using b it len ab a mem_at_bag [OF b(3) shape b(4,5)] bag_owner [OF ok b(1,2)] w'(1)
    by (simp add: Container_SafeRemove_def Let_def w1_def)
  moreover have "taken_from p a (c, s) w w'"
    by (rule taken_face [OF ok valid_bag_place [OF b c] at it(1) bag_in_bag_empty [OF ok at c it(1)] w'(2)])
  ultimately show ?thesis by blast
qed

lemma Container_SafeRemove_none:
  assumes "inv_ok w p" "iw_heap w b = Some cn" "it_container cn" "bag_content cn s = None"
  shows "Container_SafeRemove b s destroy w = Some (w, None)"
proof (cases "0 \<le> s \<and> s < uint (pr_ContainerSlots (it_proto cn))")
  case True
  with assms mem_at_bag [OF assms(3) bag_live [OF assms(1,2)]] show ?thesis by (simp add: Container_SafeRemove_def)
qed (use assms in \<open>auto simp: Container_SafeRemove_def\<close>)

text \<open>Destroying an item that is not in the inventory.\<close>

lemma foldM_same: "(\<And>i. i \<in> set xs \<Longrightarrow> f w i = Some w) \<Longrightarrow> foldM f w xs = Some w"
  by (induction xs) auto

lemma Destructor_face:
  assumes "iw_heap w a = Some it" "bag_shape it" "bag_empty it"
  shows "\<exists>w'. Destructor a w = Some w' \<and> face w' = face (w_drop a w)"
proof -
  obtain w1 where w1: "(if it_world it then RemoveFromWorld a w else Some w) = Some w1" "face w1 = face w"
    using RemoveFromWorld_face [OF assms(1)] by (cases "it_world it") auto
  have loop: "foldM (\<lambda>w i. iw_heap w a \<bind> (\<lambda>it. mem_at (it_slots it) i \<bind> case_option (Some w) (g w it))) w (bag_slots it) = Some w"
    if "it_container it" for g
    by (rule foldM_same) (use assms mem_at_bag [OF that assms(2)] in \<open>simp add: bag_empty_def\<close>)
  have "destroy_item (Suc n) a w = Some (w1\<lparr> iw_heap := (iw_heap w1)(a := None) \<rparr>)" for n
    using assms(1) w1(1) by (cases "it_container it") (simp_all add: loop)
  then have "Destructor a w = Some (w1\<lparr> iw_heap := (iw_heap w1)(a := None) \<rparr>)"
    unfolding Destructor_def by (metis numeral_eq_Suc)
  moreover have "face (w1\<lparr> iw_heap := (iw_heap w1)(a := None) \<rparr>) = face (w_drop a w)"
    using w1(2) by (auto simp: face_def w_drop_def fun_eq_iff)
  ultimately show ?thesis by blast
qed

lemma drop_face:
  assumes "face w = face w'" shows "face (w_drop a w) = face (w_drop a w')"
  using assms by (auto simp: face_def w_drop_def fun_eq_iff)

lemma taken_destroyed:
  assumes "taken_from p a x w w1" "face w2 = face (w_drop a w1)"
  shows "destroyed_at p a x w w2"
proof -
  have ok: "inv_ok w1 p" and un: "unplaced w1 p a" using assms(1) by (auto simp: taken_from_def loose_def)
  from assms(1) w_drop [OF ok un] face_norm [OF assms(2)] show ?thesis by (simp add: taken_from_def destroyed_at_def)
qed

lemma taken_live: "taken_from p a x w w1 \<Longrightarrow> \<exists>it. iw_heap w1 a = Some it \<and> bag_shape it \<and> bag_empty it"
  unfolding taken_from_def loose_def using bag_live by blast

lemma taken_faceI: "taken_from p a x w w1 \<Longrightarrow> face w2 = face w1 \<Longrightarrow> taken_from p a x w w2"
  using face_norm [of w2 w1] loose_face [of w2 w1 p a] by (simp add: taken_from_def)

lemma Container_SafeFullRemove_ok:
  assumes ok: "inv_ok w p" and c: "c \<noteq> -1" and b: "slot_content w p c = Some b" "iw_heap w b = Some cn" "it_container cn"
    "0 \<le> s" "s < uint (pr_ContainerSlots (it_proto cn))" and a: "bag_content cn s = Some a"
  shows "\<exists>w'. Container_SafeFullRemove b s w = Some (w', True) \<and> destroyed_at p a (c, s) w w'"
proof -
  have at: "content w p (c, s) = Some a" using content_bag [OF b(1,2)] a by simp
  from placed_live [OF ok at] obtain it where it: "iw_heap w a = Some it" by blast
  have ab: "a \<noteq> b" using placed_once [OF ok at, of "(-1, c)"] b(1) c by auto
  have shape: "bag_shape cn" by (rule bag_live [OF ok b(2)])
  have len: "length (it_slots cn) = 72" "length (it_slot_fields cn) = 36" "s < 36" using shape b(3,5) by (auto simp: bag_shape_def)
  define w1 where "w1 = upd_item a (\<lambda>it. it\<lparr> it_contained := 0 \<rparr>)
    (upd_item b (\<lambda>c. c\<lparr> it_slots := (it_slots cn)[nat s := None], it_slot_fields := (it_slot_fields cn)[nat s := 0] \<rparr>) w)"
  have take: "face w1 = face (w_take p c s w)"
    by (rule face_eqI) (use ab b it c in \<open>auto simp: w1_def w_take_def norm_item_def\<close>)
  have live: "iw_heap w1 a = Some (it\<lparr> it_contained := 0 \<rparr>)" using it ab by (simp add: w1_def)
  have "bag_shape (it\<lparr> it_contained := 0 \<rparr>)" using bag_live [OF ok it] by (simp add: bag_shape_def)
  from unlist_ok [OF take live this, of True it] obtain w2 where
    w2: "unlist True it a w1 = Some w2" "face w2 = face (w_take p c s w)" by blast
  have T: "taken_from p a (c, s) w w2"
    by (rule taken_face [OF ok valid_bag_place [OF b c] at it bag_in_bag_empty [OF ok at c it] w2(2)])
  from taken_live [OF T] Destructor_face obtain w3 where w3: "Destructor a w2 = Some w3" "face w3 = face (w_drop a w2)" by blast
  have "Container_SafeFullRemove b s w = Some (w3, True)"
    using b it len ab a mem_at_bag [OF b(3) shape b(4,5)] w2(1) w3(1)
    by (simp add: Container_SafeFullRemove_def Let_def w1_def)
  with taken_destroyed [OF T w3(2)] show ?thesis by blast
qed

lemma Container_SafeFullRemove_none:
  assumes "inv_ok w p" "iw_heap w b = Some cn" "it_container cn" "bag_content cn s = None"
  shows "Container_SafeFullRemove b s w = Some (w, False)"
proof (cases "0 \<le> s \<and> s < uint (pr_ContainerSlots (it_proto cn))")
  case True
  with assms mem_at_bag [OF assms(3) bag_live [OF assms(1,2)]] show ?thesis by (simp add: Container_SafeFullRemove_def)
qed (use assms in \<open>auto simp: Container_SafeFullRemove_def\<close>)

section \<open>Finding places\<close>

lemma in_slot_content:
  assumes "inv_ok w p" "0 \<le> i" "i < 118"
  shows "in_slot w p f i = Some (case slot_content w p i of None \<Rightarrow> None | Some a \<Rightarrow> f a (the (iw_heap w a)))"
  using assms slot_live [OF assms(1)] by (fastforce simp: in_slot_def m_pItems_content split: option.split)

lemma in_bag_content:
  assumes ok: "inv_ok w p" and i: "0 \<le> i" "i < 118"
  shows "in_bag w p f i = (case slot_content w p i of None \<Rightarrow> Some None | Some b \<Rightarrow>
    (let cn = the (iw_heap w b) in if it_container cn then first_in (\<lambda>j. f cn j (bag_content cn j)) (bag_slots cn) else Some None))"
proof (cases "slot_content w p i")
  case (Some b)
  from slot_live [OF ok Some] obtain cn where cn: "iw_heap w b = Some cn" by blast
  have "first_in (\<lambda>j. GetItem cn j \<bind> f cn j) xs = first_in (\<lambda>j. f cn j (bag_content cn j)) xs" if "it_container cn" for xs
    using GetItem_content [OF that bag_live [OF ok cn]] by simp
  with Some cn i show ?thesis by (simp add: in_bag_def m_pItems_content [OF ok])
qed (use assms in \<open>simp add: in_bag_def m_pItems_content\<close>)

lemma already_there_content:
  assumes "inv_ok w p"
  shows "already_there w p a = Some (\<not> unplaced w p a)"
proof -
  let ?f = "\<lambda>i. or_else (in_slot w p (\<lambda>b it. if b = a then Some () else None) i)
    (in_bag w p (\<lambda>cn j y. Some (if y = Some a then Some () else None)) i)"
  have f: "?f i \<noteq> None" "?f i = Some None \<longleftrightarrow> slot_content w p i \<noteq> Some a \<and> (\<forall>j. content w p (i, j) \<noteq> Some a)"
    if i: "0 \<le> i" "i < 118" for i
  proof -
    let ?g = "\<lambda>cn j. Some (if bag_content cn j = Some a then Some () else None)"
    have d: "\<exists>r. first_in (?g cn) (bag_slots cn) = Some r" for cn by (rule first_in_defined) simp
    have n: "first_in (?g cn) (bag_slots cn) = Some None \<longleftrightarrow> (\<forall>j. bag_content cn j \<noteq> Some a)" for cn
      by (auto simp: first_in_None bag_content_def)
    show "?f i \<noteq> None"
      using d i by (auto simp: in_slot_content [OF assms] in_bag_content [OF assms] or_else_def Let_def split: option.splits)
    show "?f i = Some None \<longleftrightarrow> slot_content w p i \<noteq> Some a \<and> (\<forall>j. content w p (i, j) \<noteq> Some a)"
    proof (cases "slot_content w p i")
      case (Some b)
      from slot_live [OF assms Some] obtain cn where "iw_heap w b = Some cn" by blast
      moreover have "bag_content cn j = None" if "\<not> it_container cn" for j using that by (simp add: bag_content_def)
      ultimately show ?thesis using Some i n [of cn]
        by (cases "it_container cn")
          (auto simp: or_else_None in_slot_content [OF assms] in_bag_content [OF assms] content_bag Let_def)
    qed (use i in \<open>auto simp: or_else_None in_slot_content [OF assms] in_bag_content [OF assms] content_def\<close>)
  qed
  have "\<exists>r. first_in ?f (slots 0 (int MAX_INVENTORY_SLOT)) = Some r"
    by (rule first_in_defined) (use f(1) in \<open>simp add: MAX_INVENTORY_SLOT_def\<close>)
  then obtain r where r: "first_in ?f (slots 0 (int MAX_INVENTORY_SLOT)) = Some r" by blast
  have "r = None \<longleftrightarrow> (\<forall>i. 0 \<le> i \<and> i < 118 \<longrightarrow> slot_content w p i \<noteq> Some a \<and> (\<forall>j. content w p (i, j) \<noteq> Some a))"
    using r f(2) first_in_None [of ?f "slots 0 (int MAX_INVENTORY_SLOT)"] by (auto simp: MAX_INVENTORY_SLOT_def)
  also have "\<dots> \<longleftrightarrow> unplaced w p a"
  proof
    assume all: "\<forall>i. 0 \<le> i \<and> i < 118 \<longrightarrow> slot_content w p i \<noteq> Some a \<and> (\<forall>j. content w p (i, j) \<noteq> Some a)"
    have "content w p (c, s) \<noteq> Some a" for c s
    proof
      assume at: "content w p (c, s) = Some a"
      show False
      proof (cases "c = -1")
        case True
        with at have "slot_content w p s = Some a" by simp
        with all slot_content_range [OF this] show False by blast
      next
        case False
        from at False obtain b where "slot_content w p c = Some b" by (rule content_bagD)
        with all slot_content_range [OF this] at show False by blast
      qed
    qed
    then show "unplaced w p a" by (simp add: unplaced_def)
  qed (auto simp: unplaced_def placed_neq dest: placed_neq [unfolded unplaced_def])
  finally show ?thesis using r by (cases r) (auto simp: already_there_def)
qed

section \<open>Adding\<close>

lemma put_at_from: "face w1 = face w \<Longrightarrow> put_at p a x w1 w' = put_at p a x w w'"
  using face_norm [of w1 w] by (simp add: put_at_def)

lemma put_at_to: "face w' = face w1 \<Longrightarrow> put_at p a x w w1 \<Longrightarrow> put_at p a x w w'"
  using face_norm [of w' w1] by (simp add: put_at_def)

lemma same_inv_from: "face w1 = face w \<Longrightarrow> same_inv p w1 w' = same_inv p w w'"
  using face_norm [of w1 w] by (simp add: same_inv_def)

lemma inv_ok_face: "face w1 = face w \<Longrightarrow> inv_ok w1 p = inv_ok w p"
  by (rule face_norm)

lemma put_slot_ok: "inv_ok w p \<Longrightarrow> 0 \<le> s \<Longrightarrow> s < 118 \<Longrightarrow>
    put_slot p s x w = Some (upd_inv p (\<lambda>v. v\<lparr> iv_items := (iv_items (iw_inv w p))[nat s := x] \<rparr>) w)"
  using inv_okD(2) by (fastforce simp: put_slot_def inv_lengths_def)

lemma place_in_slot_ok:
  assumes ok: "inv_ok w p" and loose: "loose w p a" and s: "0 \<le> s" "s < 118" and empty: "slot_content w p s = None"
  shows "\<exists>w'. place_in_slot p a s w = Some w' \<and> put_at p a (-1, s) w w'"
proof -
  from loose obtain it where it: "iw_heap w a = Some it" by (auto simp: loose_def)
  have len: "length (iv_items (iw_inv w p)) = 118" "length (iv_fields (iw_inv w p)) = 118"
    using inv_okD(2) [OF ok] by (simp_all add: inv_lengths_def)
  define w1 where "w1 = upd_inv p (\<lambda>v. v\<lparr> iv_items := (iv_items (iw_inv w p))[nat s := Some a] \<rparr>)
    (upd_item a (\<lambda>it. it\<lparr> it_contained := ucast p \<rparr>) (SetOwner a (Some p) w))"
  define w2 where "w2 = (if pr_Bonding (it_proto it) = ITEM_BIND_ON_PICKUP then SoulBind a w1 else w1)"
  have "\<exists>it2. iw_heap w2 a = Some it2" using it by (auto simp: w2_def w1_def SetOwner_def SoulBind_def)
  then obtain w3 where w3: "PushToWorld p a w2 = Some w3" "face w3 = face w2" using PushToWorld_face by blast
  have f2: "face w2 = face w1" by (simp add: w2_def)
  have f31: "face w3 = face w1" using w3(2) f2 by simp
  have len3: "length (iv_fields (iw_inv w3 p)) = 118" "iv_fields (iw_inv w3 p) = iv_fields (iw_inv w p)"
    using f31 len by (auto simp: face_def w1_def SetOwner_def fun_eq_iff dest!: spec [of _ p])
  define w4 where "w4 = upd_inv p (\<lambda>v. v\<lparr> iv_fields := (iv_fields (iw_inv w p))[nat s := it_guid it] \<rparr>) w3"
  have 1: "put_slot p s (Some a) (upd_item a (\<lambda>it. it\<lparr> it_contained := ucast p \<rparr>) (SetOwner a (Some p) w)) = Some w1"
    using len s by (simp add: put_slot_def w1_def SetOwner_def)
  have 2: "put_field p s (it_guid it) w3 = Some w4"
    using len3 s len by (simp add: put_field_def w4_def)
  have "place_in_slot p a s w = Some w4"
    by (simp add: place_in_slot_def it Let_def 1 w2_def [symmetric] w3(1) 2 split del: if_split)
  moreover have "face w4 = face (w_put p a (-1) s w)"
  proof (rule face_eqI)
    fix b show "map_option norm_item (iw_heap w4 b) = map_option norm_item (iw_heap (w_put p a (-1) s w) b)"
      using f31 it by (auto simp: face_def w4_def w1_def w_put_def Let_def SetOwner_def norm_item_def fun_eq_iff dest: spec [of _ b])
  qed (use f31 in \<open>auto simp: face_def w4_def w1_def w_put_def Let_def SetOwner_def it fun_eq_iff\<close>)
  ultimately show ?thesis
    using put_at_face [OF ok loose, of "-1" s] s empty by (auto simp: valid_place_def)
qed

lemma item_added_ok:
  assumes "iw_heap w a = Some it"
  shows "\<exists>w'. item_added p a c s w = Some w' \<and> face w' = face w"
  using assms by (simp add: item_added_def Let_def)

text \<open>Free places.\<close>

definition free_place :: "item_world \<Rightarrow> u32 \<Rightarrow> int \<times> int \<Rightarrow> bool" where
  "free_place w p x \<longleftrightarrow> valid_place w p x \<and> content w p x = None"

lemma empty_slot_content:
  "inv_ok w p \<Longrightarrow> 0 \<le> i \<Longrightarrow> i < 118 \<Longrightarrow> empty_slot w p i = Some (if slot_content w p i = None then Some (sr (-1) i) else None)"
  by (simp add: empty_slot_def m_pItems_content ITEM_NO_SLOT_AVAILABLE_def)

lemma FindFreeSlot_content:
  assumes "it_container cn" "bag_shape cn"
  shows "\<exists>s. FindFreeSlot cn = Some s \<and>
    (if s = -1 then \<forall>j. 0 \<le> j \<and> j < uint (pr_ContainerSlots (it_proto cn)) \<longrightarrow> bag_content cn j \<noteq> None
     else 0 \<le> s \<and> s < uint (pr_ContainerSlots (it_proto cn)) \<and> bag_content cn s = None)"
proof -
  let ?f = "\<lambda>i. map_option (\<lambda>x. if x = None then Some i else None) (mem_at (it_slots cn) i)"
  have at: "?f i = Some (if bag_content cn i = None then Some i else None)" if "i \<in> set (slots 0 (total_slots cn))" for i
    using that mem_at_bag [OF assms] by (simp add: total_slots_bag [OF assms])
  from first_in_defined [of "slots 0 (total_slots cn)" ?f] at obtain r where r: "first_in ?f (slots 0 (total_slots cn)) = Some r" by auto
  show ?thesis
  proof (cases r)
    case None
    with r have "\<forall>i \<in> set (slots 0 (total_slots cn)). bag_content cn i \<noteq> None"
      using at by (fastforce simp: first_in_None split: if_splits)
    with r None show ?thesis by (simp add: FindFreeSlot_def ITEM_NO_SLOT_AVAILABLE_def total_slots_bag [OF assms])
  next
    case (Some s)
    with r obtain i where "i \<in> set (slots 0 (total_slots cn))" "?f i = Some (Some s)" by (blast dest: first_in_SomeD)
    with at [of i] r Some show ?thesis by (auto simp: FindFreeSlot_def total_slots_bag [OF assms] split: if_splits)
  qed
qed

definition plain_bag :: "item_world \<Rightarrow> u32 \<Rightarrow> u32 \<Rightarrow> int \<Rightarrow> bool" where
  "plain_bag w p family i \<longleftrightarrow> (\<exists>b cn. slot_content w p i = Some b \<and> iw_heap w b = Some cn \<and> it_container cn \<and> pr_BagFamily (it_proto cn) = family)"

lemma bag_with_room_content:
  assumes ok: "inv_ok w p" and i: "0 \<le> i" "i < 118"
  shows "\<exists>r. bag_with_room w p family i = Some r \<and>
    (case r of None \<Rightarrow> (plain_bag w p family i \<longrightarrow> (\<forall>j. \<not> free_place w p (i, j)))
     | Some q \<Rightarrow> plain_bag w p family i \<and> (\<exists>s. q = sr i s \<and> s \<noteq> -1 \<and> free_place w p (i, s)))"
proof (cases "slot_content w p i")
  case (Some b)
  from slot_live [OF ok Some] obtain cn where cn: "iw_heap w b = Some cn" by blast
  have i1: "i \<noteq> -1" using i by simp
  show ?thesis
  proof (cases "it_container cn \<and> pr_BagFamily (it_proto cn) = family")
    case True
    with FindFreeSlot_content [OF _ bag_live [OF ok cn]] obtain s where s: "FindFreeSlot cn = Some s"
      "if s = -1 then \<forall>j. 0 \<le> j \<and> j < uint (pr_ContainerSlots (it_proto cn)) \<longrightarrow> bag_content cn j \<noteq> None
       else 0 \<le> s \<and> s < uint (pr_ContainerSlots (it_proto cn)) \<and> bag_content cn s = None" by blast
    with True Some cn i i1 show ?thesis
      by (auto simp: bag_with_room_def m_pItems_content [OF ok] ITEM_NO_SLOT_AVAILABLE_def plain_bag_def free_place_def
        valid_place_def content_bag split: if_splits)
  qed (use Some cn i in \<open>auto simp: bag_with_room_def m_pItems_content [OF ok] plain_bag_def\<close>)
qed (use i in \<open>simp add: bag_with_room_def m_pItems_content [OF ok] plain_bag_def\<close>)

lemma bag_ranges [simp]:
  "i \<in> set inventory_bags \<longleftrightarrow> 19 \<le> i \<and> i < 23" "i \<in> set bank_bags \<longleftrightarrow> 67 \<le> i \<and> i < 74" "i \<in> set backpack \<longleftrightarrow> 23 \<le> i \<and> i < 39"
  "i \<in> set bank \<longleftrightarrow> 39 \<le> i \<and> i < 67" "i \<in> set keyring \<longleftrightarrow> 86 \<le> i \<and> i < 118"
  by (simp_all add: inventory_bags_def bank_bags_def backpack_def bank_def keyring_def item_consts)

lemma first_empty_slot:
  assumes ok: "inv_ok w p" and "\<And>i. i \<in> set xs \<Longrightarrow> 0 \<le> i \<and> i < 118"
  shows "\<exists>r. first_in (empty_slot w p) xs = Some r \<and>
    (case r of None \<Rightarrow> \<forall>i \<in> set xs. slot_content w p i \<noteq> None | Some q \<Rightarrow> \<exists>s \<in> set xs. q = sr (-1) s \<and> free_place w p (-1, s))"
  using assms(2)
proof (induction xs)
  case (Cons i xs)
  then have i: "0 \<le> i" "i < 118" by auto
  from Cons obtain r where "first_in (empty_slot w p) xs = Some r"
    "case r of None \<Rightarrow> \<forall>i \<in> set xs. slot_content w p i \<noteq> None | Some q \<Rightarrow> \<exists>s \<in> set xs. q = sr (-1) s \<and> free_place w p (-1, s)"
    by fastforce
  then show ?case
    using i by (cases "slot_content w p i") (auto simp: empty_slot_content [OF ok] free_place_def valid_place_def split: option.splits)
qed simp

lemma first_bag_with_room:
  assumes ok: "inv_ok w p" and "\<And>i. i \<in> set xs \<Longrightarrow> 0 \<le> i \<and> i < 118"
  shows "\<exists>r. first_in (bag_with_room w p family) xs = Some r \<and>
    (case r of None \<Rightarrow> \<forall>i \<in> set xs. plain_bag w p family i \<longrightarrow> (\<forall>j. \<not> free_place w p (i, j))
     | Some q \<Rightarrow> \<exists>i \<in> set xs. plain_bag w p family i \<and> (\<exists>s. q = sr i s \<and> free_place w p (i, s)))"
  using assms(2)
proof (induction xs)
  case (Cons i xs)
  then have i: "0 \<le> i" "i < 118" by auto
  from Cons obtain r where r: "first_in (bag_with_room w p family) xs = Some r"
    "case r of None \<Rightarrow> \<forall>i \<in> set xs. plain_bag w p family i \<longrightarrow> (\<forall>j. \<not> free_place w p (i, j))
     | Some q \<Rightarrow> \<exists>i \<in> set xs. plain_bag w p family i \<and> (\<exists>s. q = sr i s \<and> free_place w p (i, s))" by fastforce
  from bag_with_room_content [OF ok i] obtain k where k: "bag_with_room w p family i = Some k"
    "case k of None \<Rightarrow> (plain_bag w p family i \<longrightarrow> (\<forall>j. \<not> free_place w p (i, j)))
     | Some q \<Rightarrow> plain_bag w p family i \<and> (\<exists>s. q = sr i s \<and> s \<noteq> -1 \<and> free_place w p (i, s))" by blast
  then show ?case
  proof (cases k)
    case None
    with k r show ?thesis by (auto split: option.splits)
  next
    case (Some q)
    with k show ?thesis by auto
  qed
qed simp

text \<open>What \<open>FindFreeInventorySlot\<close> answers: a free place for the item, or that the backpack and the plain bags are full.\<close>

definition fits :: "item_world \<Rightarrow> u32 \<Rightarrow> item_proto \<Rightarrow> int \<times> int \<Rightarrow> bool" where
  "fits w p pr x \<longleftrightarrow> free_place w p x \<and>
     (if fst x = -1 then snd x \<in> set backpack \<or> has_flag (pr_BagFamily pr) ITEM_TYPE_KEYRING \<and> snd x \<in> set keyring
      else fst x \<in> set inventory_bags \<and> (plain_bag w p 0 (fst x) \<or>
        pr_BagFamily pr \<noteq> 0 \<and> \<not> has_flag (pr_BagFamily pr) ITEM_TYPE_KEYRING \<and> plain_bag w p (pr_BagFamily pr) (fst x)))"

lemma fits_slot: "free_place w p (-1, s) \<Longrightarrow> s \<in> set backpack \<or> has_flag (pr_BagFamily pr) ITEM_TYPE_KEYRING \<and> s \<in> set keyring \<Longrightarrow> fits w p pr (-1, s)"
  by (simp add: fits_def)

lemma fits_bag: "free_place w p (c, s) \<Longrightarrow> c \<in> set inventory_bags \<Longrightarrow> plain_bag w p 0 c \<or>
    pr_BagFamily pr \<noteq> 0 \<and> \<not> has_flag (pr_BagFamily pr) ITEM_TYPE_KEYRING \<and> plain_bag w p (pr_BagFamily pr) c \<Longrightarrow> fits w p pr (c, s)"
  by (auto simp: fits_def)

lemma free_inventory_slot_ok:
  assumes ok: "inv_ok w p"
  shows "\<exists>r. free_inventory_slot w p pr = Some r \<and>
    (case r of None \<Rightarrow> \<forall>x. \<not> fits w p pr x | Some q \<Rightarrow> \<exists>c s. q = sr c s \<and> fits w p pr (c, s))"
proof -
  let ?P = "\<lambda>q. \<exists>c s. q = sr c s \<and> fits w p pr (c, s)"
  define special where "special = (if pr_BagFamily pr = 0 then Some None
       else if has_flag (pr_BagFamily pr) ITEM_TYPE_KEYRING then first_in (empty_slot w p) keyring
       else first_in (bag_with_room w p (pr_BagFamily pr)) inventory_bags)"
  from first_empty_slot [OF ok, of keyring] obtain k where k: "first_in (empty_slot w p) keyring = Some k"
    "case k of None \<Rightarrow> \<forall>i \<in> set keyring. slot_content w p i \<noteq> None | Some q \<Rightarrow> \<exists>s \<in> set keyring. q = sr (-1) s \<and> free_place w p (-1, s)" by auto
  from first_empty_slot [OF ok, of backpack] obtain h where h: "first_in (empty_slot w p) backpack = Some h"
    "case h of None \<Rightarrow> \<forall>i \<in> set backpack. slot_content w p i \<noteq> None | Some q \<Rightarrow> \<exists>s \<in> set backpack. q = sr (-1) s \<and> free_place w p (-1, s)" by auto
  have bags: "\<exists>r. first_in (bag_with_room w p f) inventory_bags = Some r \<and>
    (case r of None \<Rightarrow> \<forall>i \<in> set inventory_bags. plain_bag w p f i \<longrightarrow> (\<forall>j. \<not> free_place w p (i, j))
     | Some q \<Rightarrow> \<exists>i \<in> set inventory_bags. plain_bag w p f i \<and> (\<exists>s. q = sr i s \<and> free_place w p (i, s)))" for f
    by (rule first_bag_with_room [OF ok]) auto
  from bags [of 0] obtain b where b: "first_in (bag_with_room w p 0) inventory_bags = Some b"
    "case b of None \<Rightarrow> \<forall>i \<in> set inventory_bags. plain_bag w p 0 i \<longrightarrow> (\<forall>j. \<not> free_place w p (i, j))
     | Some q \<Rightarrow> \<exists>i \<in> set inventory_bags. plain_bag w p 0 i \<and> (\<exists>s. q = sr i s \<and> free_place w p (i, s))" by blast
  from bags [of "pr_BagFamily pr"] obtain f where f: "first_in (bag_with_room w p (pr_BagFamily pr)) inventory_bags = Some f"
    "case f of None \<Rightarrow> \<forall>i \<in> set inventory_bags. plain_bag w p (pr_BagFamily pr) i \<longrightarrow> (\<forall>j. \<not> free_place w p (i, j))
     | Some q \<Rightarrow> \<exists>i \<in> set inventory_bags. plain_bag w p (pr_BagFamily pr) i \<and> (\<exists>s. q = sr i s \<and> free_place w p (i, s))" by blast
  have "\<exists>e. special = Some e" by (simp add: special_def k(1) f(1))
  then obtain e where e: "special = Some e" by blast
  have e_some: "?P q" if q: "e = Some q" for q
  proof (cases "has_flag (pr_BagFamily pr) ITEM_TYPE_KEYRING")
    case True
    with e q k have "\<exists>s \<in> set keyring. q = sr (-1) s \<and> free_place w p (-1, s)" by (auto simp: special_def split: if_splits)
    with True show ?thesis using fits_slot by blast
  next
    case False
    with e q f have "pr_BagFamily pr \<noteq> 0" "\<exists>i \<in> set inventory_bags. plain_bag w p (pr_BagFamily pr) i \<and> (\<exists>s. q = sr i s \<and> free_place w p (i, s))"
      by (auto simp: special_def split: if_splits)
    with False show ?thesis using fits_bag by blast
  qed
  have h_some: "?P q" if "h = Some q" for q
  proof -
    from h that have "\<exists>s \<in> set backpack. q = sr (-1) s \<and> free_place w p (-1, s)" by simp
    then show ?thesis using fits_slot by blast
  qed
  have b_some: "?P q" if "b = Some q" for q
  proof -
    from b that have "\<exists>i \<in> set inventory_bags. plain_bag w p 0 i \<and> (\<exists>s. q = sr i s \<and> free_place w p (i, s))" by simp
    then show ?thesis using fits_bag by blast
  qed
  have none: "\<not> fits w p pr (c, s)" if n: "e = None" "h = None" "b = None" for c s
  proof
    assume fit: "fits w p pr (c, s)"
    have free: "free_place w p (c, s)" using fit by (simp add: fits_def)
    show False
    proof (cases "c = -1")
      case True
      with free have "slot_content w p s = None" by (simp add: free_place_def)
      moreover have "s \<in> set backpack \<or> has_flag (pr_BagFamily pr) ITEM_TYPE_KEYRING \<and> s \<in> set keyring"
        using fit True by (simp add: fits_def del: bag_ranges)
      moreover have "\<forall>i \<in> set keyring. slot_content w p i \<noteq> None" if flag: "has_flag (pr_BagFamily pr) ITEM_TYPE_KEYRING"
      proof -
        from flag have "pr_BagFamily pr \<noteq> 0" by auto
        with flag e n(1) k show ?thesis by (simp add: special_def)
      qed
      moreover have "\<forall>i \<in> set backpack. slot_content w p i \<noteq> None" using h(2) n(2) by (simp del: bag_ranges)
      ultimately show False by blast
    next
      case False
      then have "c \<in> set inventory_bags" "plain_bag w p 0 c \<or> pr_BagFamily pr \<noteq> 0 \<and>
          \<not> has_flag (pr_BagFamily pr) ITEM_TYPE_KEYRING \<and> plain_bag w p (pr_BagFamily pr) c"
        using fit by (simp_all add: fits_def del: bag_ranges)
      with b n e f free show False by (auto simp: special_def simp del: bag_ranges)
    qed
  qed
  have "free_inventory_slot w p pr = or_else (Some e) (or_else (Some h) (Some b))"
    by (simp add: free_inventory_slot_def special_def [symmetric] e h(1) b(1))
  with e_some h_some b_some none show ?thesis
    by (cases e; cases h; cases b) (auto simp: or_else_def)
qed

lemma FindFree_ok:
  assumes ok: "inv_ok w p"
  shows "\<exists>w' q. FindFreeInventorySlot p pr w = Some (w', q) \<and> face w' = face w \<and>
    (if sr_Result q then \<exists>c s. q = sr c s \<and> fits w p pr (c, s) else q = no_slot \<and> (\<forall>x. \<not> fits w p pr x))"
proof -
  from free_inventory_slot_ok [OF ok, of pr] obtain r where r: "free_inventory_slot w p pr = Some r"
    "case r of None \<Rightarrow> \<forall>x. \<not> fits w p pr x | Some q \<Rightarrow> \<exists>c s. q = sr c s \<and> fits w p pr (c, s)" by blast
  then show ?thesis
    by (cases r) (auto simp: FindFreeInventorySlot_def Let_def no_slot_def sr_def)
qed

lemma sr_sel [simp]: "sr_ContainerSlot (sr c s) = c" "sr_Slot (sr c s) = s" "sr_Result (sr c s)"
  by (simp_all add: sr_def)

lemma fits_bounds:
  assumes ok: "inv_ok w p" and fits: "fits w p pr (c, s)"
  shows "free_place w p (c, s)" "0 \<le> s" "s < 118" "c < 118"
proof -
  show free: "free_place w p (c, s)" using fits by (simp add: fits_def)
  have "0 \<le> s \<and> s < 118 \<and> c < 118"
  proof (cases "c = -1")
    case True
    with fits show ?thesis by (auto simp: fits_def)
  next
    case False
    with free obtain b cn where "slot_content w p c = Some b" "iw_heap w b = Some cn" "it_container cn"
      "0 \<le> s" "s < uint (pr_ContainerSlots (it_proto cn))" by (auto simp: free_place_def valid_place_def)
    moreover from this bag_live [OF ok, of b cn] have "uint (pr_ContainerSlots (it_proto cn)) \<le> 36" by (simp add: bag_shape_def)
    moreover from False fits have "c \<in> set inventory_bags" unfolding fits_def by simp
    ultimately show ?thesis by simp
  qed
  then show "0 \<le> s" "s < 118" "c < 118" by auto
qed

text \<open>An answer of \<open>m_AddItem\<close>: it went to a free place, or nothing moved.\<close>

definition added :: "u32 \<Rightarrow> nat \<Rightarrow> item_world \<Rightarrow> item_world \<Rightarrow> add_result \<Rightarrow> bool" where
  "added p a w w' r \<longleftrightarrow> (if r = ADD_ITEM_RESULT_OK then \<exists>x. free_place w p x \<and> put_at p a x w w'
     else r = ADD_ITEM_RESULT_ERROR \<and> same_inv p w w')"

lemma free_place_face: "face w1 = face w \<Longrightarrow> free_place w1 p x = free_place w p x"
proof -
  assume f: "face w1 = face w"
  have "valid_place (norm_world w) p x = valid_place w p x" for w by (auto simp: valid_place_def heap_norm)
  moreover have "valid_place (norm_world w1) p x = valid_place (norm_world w) p x"
    using face_norm [OF f] by (simp add: valid_place_def)
  ultimately show ?thesis using face_norm [OF f] by (simp add: free_place_def)
qed

lemma added_from:
  assumes f: "face w1 = face w" shows "added p a w1 w' r = added p a w w' r"
  by (simp add: added_def put_at_from [OF f] same_inv_from [OF f] free_place_face [OF f])

lemma put_at_live: "put_at p a x w w' \<Longrightarrow> loose w p a \<Longrightarrow> \<exists>it. iw_heap w' a = Some it"
proof -
  assume "put_at p a x w w'" "loose w p a"
  then have "core w' a \<noteq> None" by (auto simp: put_at_def loose_def core_def)
  then show ?thesis by (auto simp: core_def)
qed

text \<open>The end of \<open>m_AddItem\<close>, for the place it has settled on.\<close>

lemma add_to_slot:
  assumes ok: "inv_ok w p" and loose: "loose w p a" and s: "0 \<le> s" "s < 118"
  shows "\<exists>w' r. GetInventoryItem w p s \<bind> (\<lambda>x. if x = None then place_in_slot p a s w \<bind> (\<lambda>w. item_added p a c s w \<bind> (\<lambda>w. Some (w, ADD_ITEM_RESULT_OK)))
      else Some (w, ADD_ITEM_RESULT_ERROR)) = Some (w', r) \<and> added p a w w' r \<and>
    (slot_content w p s = None \<longrightarrow> r = ADD_ITEM_RESULT_OK \<and> put_at p a (-1, s) w w')"
proof (cases "slot_content w p s")
  case None
  from place_in_slot_ok [OF ok loose s None] obtain w1 where w1: "place_in_slot p a s w = Some w1" "put_at p a (-1, s) w w1" by blast
  from put_at_live [OF w1(2) loose] item_added_ok obtain w2 where w2: "item_added p a c s w1 = Some w2" "face w2 = face w1" by blast
  have "put_at p a (-1, s) w w2" by (rule put_at_to [OF w2(2) w1(2)])
  then show ?thesis using w1 w2 None s
    by (auto simp: GetInventoryItem_content [OF ok] added_def free_place_def valid_place_def)
qed (use s in \<open>simp add: GetInventoryItem_content [OF ok] added_def same_inv_refl [OF ok]\<close>)

lemma add_to_bag:
  assumes ok: "inv_ok w p" and loose: "loose w p a" and c: "c \<noteq> -1" "c < 118" and s: "0 \<le> s"
  shows "\<exists>w' r. GetInventoryItem w p c \<bind> (\<lambda>x. case x of None \<Rightarrow> Some (w, ADD_ITEM_RESULT_ERROR)
      | Some b \<Rightarrow> iw_heap w b \<bind> (\<lambda>cn. if it_container cn \<and> s < uint (pr_ContainerSlots (it_proto cn)) then
           Container_AddItem b s a w \<bind> (\<lambda>(w, ok). if ok then item_added p a c s w \<bind> (\<lambda>w. Some (w, ADD_ITEM_RESULT_OK)) else Some (w, ADD_ITEM_RESULT_ERROR))
         else Some (w, ADD_ITEM_RESULT_ERROR))) = Some (w', r) \<and> added p a w w' r \<and>
    (free_place w p (c, s) \<longrightarrow> r = ADD_ITEM_RESULT_OK \<and> put_at p a (c, s) w w')"
proof (cases "\<exists>b cn. slot_content w p c = Some b \<and> iw_heap w b = Some cn \<and> it_container cn \<and> s < uint (pr_ContainerSlots (it_proto cn))")
  case True
  then obtain b cn where b: "slot_content w p c = Some b" "iw_heap w b = Some cn" "it_container cn" "s < uint (pr_ContainerSlots (it_proto cn))" by blast
  show ?thesis
  proof (cases "bag_content cn s")
    case None
    from Container_AddItem_ok [OF ok loose c(1) b(1,2,3) s b(4) None] obtain w1
      where w1: "Container_AddItem b s a w = Some (w1, True)" "put_at p a (c, s) w w1" by blast
    from put_at_live [OF w1(2) loose] item_added_ok obtain w2 where w2: "item_added p a c s w1 = Some w2" "face w2 = face w1" by blast
    have "put_at p a (c, s) w w2" by (rule put_at_to [OF w2(2) w1(2)])
    moreover have "free_place w p (c, s)" using None b s c content_bag [OF b(1,2), of s] by (simp add: free_place_def valid_place_def)
    ultimately show ?thesis using w1 w2 b c by (auto simp: GetInventoryItem_content [OF ok] added_def)
  next
    case (Some d)
    with Container_AddItem_taken [OF ok b(2,3) s b(4), of a] b c content_bag [OF b(1,2), of s] show ?thesis
      by (simp add: GetInventoryItem_content [OF ok] added_def same_inv_refl [OF ok] free_place_def)
  qed
next
  case False
  then show ?thesis
    using slot_live [OF ok] c
    by (cases "slot_content w p c")
      (fastforce simp: GetInventoryItem_content [OF ok] added_def same_inv_refl [OF ok] free_place_def valid_place_def)+
qed

end
