(* ===== verification/HS_ItemAdd.thy ===== *)
theory HS_ItemAdd
  imports HS_ItemOps
begin

text \<open>
  Adding an item: \<open>m_AddItem\<close>, \<open>AddItemToFreeSlot\<close> and \<open>AddItemToFreeBankSlot\<close> put an item that is in no place
  into a free one, or move nothing and say so.
\<close>

section \<open>\<open>m_AddItem\<close>\<close>

lemma settle_slot_ok:
  assumes ok: "inv_ok w p" and s: "0 \<le> s" "s < 118"
  shows "\<exists>w' r. settle_slot p pr c s w = Some (w', r) \<and> face w' = face w \<and>
    (slot_content w p s = None \<longrightarrow> w' = w \<and> r = Some (c, s)) \<and> (\<forall>c' s'. r = Some (c', s') \<longrightarrow> 0 \<le> s' \<and> s' < 118)"
proof (cases "slot_content w p s")
  case None
  then show ?thesis using s by (simp add: settle_slot_def GetInventoryItem_content [OF ok])
next
  case (Some b)
  from FindFree_ok [OF ok, of pr] obtain w1 q where q: "FindFreeInventorySlot p pr w = Some (w1, q)" "face w1 = face w"
    "if sr_Result q then \<exists>c s. q = sr c s \<and> fits w p pr (c, s) else q = no_slot \<and> (\<forall>x. \<not> fits w p pr x)" by blast
  then show ?thesis
    using s Some fits_bounds [OF ok] by (auto simp: settle_slot_def GetInventoryItem_content [OF ok] split: if_splits)
qed

lemma add_settled_ok:
  assumes ok: "inv_ok w p" and loose: "loose w p a" and s: "0 \<le> s" "s < 118" and c: "c < 118"
  shows "\<exists>w' r. add_settled p a pr c s w = Some (w', r) \<and> added p a w w' r \<and>
    (free_place w p (c, s) \<longrightarrow> r = ADD_ITEM_RESULT_OK \<and> put_at p a (c, s) w w')"
proof -
  define w1 where "w1 = upd_item a (\<lambda>it. it\<lparr> it_dirty := True \<rparr>) w"
  have f1: "face w1 = face w" by (simp add: w1_def norm_item_def)
  have ok1: "inv_ok w1 p" and loose1: "loose w1 p a" using ok inv_ok_face [OF f1] loose_face [OF f1 loose] by simp_all
  have fresh: "already_there w1 p a = Some False"
    using already_there_content [OF ok1] loose1 by (simp add: loose_def)
  show ?thesis
  proof (cases "c = -1")
    case True
    from settle_slot_ok [OF ok1 s, of pr c] obtain w2 r where r: "settle_slot p pr c s w1 = Some (w2, r)" "face w2 = face w1"
      "slot_content w1 p s = None \<longrightarrow> w2 = w1 \<and> r = Some (c, s)" "\<forall>c' s'. r = Some (c', s') \<longrightarrow> 0 \<le> s' \<and> s' < 118" by metis
    have f2: "face w2 = face w" using r(2) f1 by simp
    have ok2: "inv_ok w2 p" and loose2: "loose w2 p a" using ok inv_ok_face [OF f2] loose_face [OF f2 loose] by simp_all
    show ?thesis
    proof (cases r)
      case None
      then have "slot_content w p s \<noteq> None" using r(3) face_norm(5) [OF f1] by auto
      then show ?thesis
        using None r(1) True fresh f2 same_inv_face [OF ok f2]
        by (auto simp: add_settled_def w1_def [symmetric] Let_def INVENTORY_SLOT_NOT_SET_def added_def free_place_def)
    next
      case (Some cs)
      then obtain c' s' where cs: "r = Some (c', s')" by (cases cs) auto
      from r(4) cs have s': "0 \<le> s'" "s' < 118" by auto
      from add_to_slot [OF ok2 loose2 s', of c'] obtain w3 k where k:
        "GetInventoryItem w2 p s' \<bind> (\<lambda>x. if x = None then place_in_slot p a s' w2 \<bind> (\<lambda>w. item_added p a c' s' w \<bind> (\<lambda>w. Some (w, ADD_ITEM_RESULT_OK)))
          else Some (w2, ADD_ITEM_RESULT_ERROR)) = Some (w3, k)" "added p a w2 w3 k"
        "slot_content w2 p s' = None \<longrightarrow> k = ADD_ITEM_RESULT_OK \<and> put_at p a (-1, s') w2 w3" by metis
      have "add_settled p a pr c s w = Some (w3, k)"
        using r(1) k(1) cs True fresh by (simp add: add_settled_def w1_def [symmetric] Let_def INVENTORY_SLOT_NOT_SET_def)
      moreover have "k = ADD_ITEM_RESULT_OK \<and> put_at p a (c, s) w w3" if "free_place w p (c, s)"
      proof -
        from that True have "slot_content w p s = None" by (simp add: free_place_def)
        then have "w2 = w1" "s' = s" "slot_content w2 p s = None" using r(3) cs face_norm(5) [OF f1] by auto
        with k(3) show ?thesis using put_at_from [OF f2] True by simp
      qed
      ultimately show ?thesis using k(2) added_from [OF f2] by blast
    qed
  next
    case False
    from add_to_bag [OF ok1 loose1 False c s(1)] show ?thesis
      using fresh False
      by (simp add: add_settled_def w1_def [symmetric] Let_def INVENTORY_SLOT_NOT_SET_def added_from [OF f1] put_at_from [OF f1]
        free_place_face [OF f1])
  qed
qed

lemma loose_live: "loose w p a \<Longrightarrow> \<exists>it. iw_heap w a = Some it"
  by (auto simp: loose_def)

lemma free_place_bounds:
  assumes "inv_ok w p" "free_place w p (c, s)"
  shows "0 \<le> s" "s < 118" "c < 118"
proof -
  have "0 \<le> s \<and> s < 118 \<and> c < 118"
  proof (cases "c = -1")
    case False
    with assms obtain b cn where b: "slot_content w p c = Some b" "iw_heap w b = Some cn" "it_container cn"
      "0 \<le> s" "s < uint (pr_ContainerSlots (it_proto cn))" by (auto simp: free_place_def valid_place_def)
    with bag_live [OF assms(1) b(2)] slot_content_range [OF b(1)] show ?thesis by (simp add: bag_shape_def)
  qed (use assms in \<open>auto simp: free_place_def valid_place_def\<close>)
  then show "0 \<le> s" "s < 118" "c < 118" by auto
qed

text \<open>A slot asked for is taken if it is free; no slot asked for, the item goes to a place that fits, if there is one.\<close>

lemma m_AddItem_ok:
  assumes ok: "inv_ok w p" and loose: "loose w p a"
  shows "\<exists>w' r. m_AddItem p a c s w = Some (w', r) \<and> added p a w w' r \<and>
    (free_place w p (c, s) \<longrightarrow> r = ADD_ITEM_RESULT_OK \<and> put_at p a (c, s) w w') \<and>
    (s < 0 \<and> c < 118 \<longrightarrow> (if r = ADD_ITEM_RESULT_OK then \<exists>x. fits w p (it_proto (the (iw_heap w a))) x \<and> put_at p a x w w'
       else \<forall>x. \<not> fits w p (it_proto (the (iw_heap w a))) x))"
proof -
  from loose_live [OF loose] obtain it where it: "iw_heap w a = Some it" by blast
  consider (out) "118 \<le> s \<or> 118 \<le> c" | (free) "s < 0" "c < 118" | (at) "0 \<le> s" "s < 118" "c < 118" by linarith
  then show ?thesis
  proof cases
    case out
    with free_place_bounds [OF ok, of c s] show ?thesis
      by (auto simp: m_AddItem_def MAX_INVENTORY_SLOT_def added_def same_inv_refl [OF ok])
  next
    case free
    have no: "\<not> free_place w p (c, s)" using free_place_bounds [OF ok, of c s] free by auto
    from FindFree_ok [OF ok, of "it_proto it"] obtain w1 q where q: "FindFreeInventorySlot p (it_proto it) w = Some (w1, q)"
      "face w1 = face w" "if sr_Result q then \<exists>c s. q = sr c s \<and> fits w p (it_proto it) (c, s)
        else q = no_slot \<and> (\<forall>x. \<not> fits w p (it_proto it) x)" by blast
    show ?thesis
    proof (cases "sr_Result q")
      case True
      with q(3) obtain d t where t: "q = sr d t" "fits w p (it_proto it) (d, t)" by auto
      note bounds = fits_bounds [OF ok t(2)]
      have ok1: "inv_ok w1 p" and loose1: "loose w1 p a" using ok inv_ok_face [OF q(2)] loose_face [OF q(2) loose] by simp_all
      from add_settled_ok [OF ok1 loose1 bounds(2,3,4), of "it_proto it"] bounds(1) obtain w2 where
        "add_settled p a (it_proto it) d t w1 = Some (w2, ADD_ITEM_RESULT_OK)" "put_at p a (d, t) w w2" "added p a w w2 ADD_ITEM_RESULT_OK"
        by (auto simp: added_from [OF q(2)] put_at_from [OF q(2)] free_place_face [OF q(2)])
      with t q(1) no free it show ?thesis by (auto simp: m_AddItem_def MAX_INVENTORY_SLOT_def)
    next
      case False
      with q no free it same_inv_face [OF ok q(2)] show ?thesis
        by (auto simp: m_AddItem_def MAX_INVENTORY_SLOT_def added_def)
    qed
  next
    case at
    from add_settled_ok [OF ok loose at, of "it_proto it"] show ?thesis using at it
      by (auto simp: m_AddItem_def MAX_INVENTORY_SLOT_def)
  qed
qed

section \<open>The search for a free place\<close>

lemma for_return_search:
  assumes "\<And>i. i \<in> set xs \<Longrightarrow> f i w = Some (Inr w) \<and> Q i \<or> (\<exists>r. f i w = Some (Inl r) \<and> P r)"
  shows "(\<exists>r. for_return f xs w = Some (Inl r) \<and> P r) \<or> for_return f xs w = Some (Inr w) \<and> (\<forall>i \<in> set xs. Q i)"
  using assms
proof (induction xs)
  case (Cons i xs)
  from Cons.prems [of i] consider "f i w = Some (Inr w)" "Q i" | r where "f i w = Some (Inl r)" "P r" by auto
  then show ?case
  proof cases
    case 1
    have "(\<exists>r. for_return f xs w = Some (Inl r) \<and> P r) \<or> for_return f xs w = Some (Inr w) \<and> (\<forall>i \<in> set xs. Q i)"
      by (rule Cons.IH) (rule Cons.prems, simp)
    with 1 show ?thesis by auto
  qed auto
qed simp

definition placed_in :: "u32 \<Rightarrow> nat \<Rightarrow> (int \<times> int \<Rightarrow> bool) \<Rightarrow> item_world \<Rightarrow> item_world \<Rightarrow> bool" where
  "placed_in p a S w w' \<longleftrightarrow> (\<exists>x. S x \<and> free_place w p x \<and> put_at p a x w w')"

lemma placed_inI: "S x \<Longrightarrow> free_place w p x \<Longrightarrow> put_at p a x w w1 \<Longrightarrow> face w' = face w1 \<Longrightarrow> placed_in p a S w w'"
  using put_at_to unfolding placed_in_def by blast

text \<open>What the search meets in one slot, and in one bag.\<close>

lemma add_at_free:
  assumes "inv_ok w p" "loose w p a" "free_place w p (c, s)"
  shows "\<exists>w'. SafeAddItem p a c s w = Some (w', ADD_ITEM_RESULT_OK) \<and> put_at p a (c, s) w w'"
  using m_AddItem_ok [OF assms(1,2), of c s] assms(3) unfolding SafeAddItem_def by blast

lemma free_slot: "0 \<le> i \<Longrightarrow> i < 118 \<Longrightarrow> free_place w p (-1, i) \<longleftrightarrow> slot_content w p i = None"
  by (simp add: free_place_def valid_place_def)

lemma free_in_bag:
  "i \<noteq> -1 \<Longrightarrow> slot_content w p i = Some b \<Longrightarrow> iw_heap w b = Some cn \<Longrightarrow> it_container cn \<Longrightarrow>
    free_place w p (i, j) \<longleftrightarrow> 0 \<le> j \<and> j < uint (pr_ContainerSlots (it_proto cn)) \<and> bag_content cn j = None"
  by (simp add: free_place_def valid_place_def content_bag)

lemma on_empty_slot_ok:
  assumes ok: "inv_ok w p" and i: "0 \<le> i" "i < 118" and act: "free_place w p (-1, i) \<Longrightarrow> \<exists>r. act i w = Some (Inl r) \<and> P r"
  shows "on_empty_slot p act i w = Some (Inr w) \<and> \<not> free_place w p (-1, i) \<or> (\<exists>r. on_empty_slot p act i w = Some (Inl r) \<and> P r)"
  using free_slot [OF i, of w p] act i by (cases "slot_content w p i") (auto simp: on_empty_slot_def m_pItems_content [OF ok])

lemma bag_full_or_not:
  assumes "inv_ok w p" "0 \<le> i" "i < 118" "\<not> plain_bag w p family i"
    "slot_content w p i = Some b" "iw_heap w b = Some cn"
  shows "\<not> (pr_BagFamily (it_proto cn) = family \<and> it_container cn)"
  using assms by (auto simp: plain_bag_def)

lemma into_family_bag_run:
  assumes ok: "inv_ok w p" and i: "0 \<le> i" "i < 118"
    and store: "\<And>b cn. slot_content w p i = Some b \<Longrightarrow> iw_heap w b = Some cn \<Longrightarrow> it_container cn \<Longrightarrow>
      \<exists>w' r. Container_AddItemToFreeSlot b a w = Some (w', r) \<and>
        (case r of None \<Rightarrow> w' = w \<and> (\<forall>s. 0 \<le> s \<and> s < uint (pr_ContainerSlots (it_proto cn)) \<longrightarrow> content w p (i, s) \<noteq> None)
         | Some s \<Rightarrow> valid_place w p (i, s) \<and> content w p (i, s) = None \<and> Q s w')"
    and P: "\<And>s w'. plain_bag w p family i \<Longrightarrow> free_place w p (i, s) \<Longrightarrow> Q s w' \<Longrightarrow> P (fin i s w')"
  shows "into_family_bag p a family fin i w = Some (Inr w) \<and> (plain_bag w p family i \<longrightarrow> (\<forall>j. \<not> free_place w p (i, j))) \<or>
    (\<exists>r. into_family_bag p a family fin i w = Some (Inl r) \<and> P r)"
proof (cases "plain_bag w p family i")
  case True
  then obtain b cn where b: "slot_content w p i = Some b" "iw_heap w b = Some cn" "it_container cn" "pr_BagFamily (it_proto cn) = family"
    by (auto simp: plain_bag_def)
  have c: "i \<noteq> -1" using i by simp
  from store [OF b(1,2,3)] obtain w1 r where r: "Container_AddItemToFreeSlot b a w = Some (w1, r)"
    "case r of None \<Rightarrow> w1 = w \<and> (\<forall>s. 0 \<le> s \<and> s < uint (pr_ContainerSlots (it_proto cn)) \<longrightarrow> content w p (i, s) \<noteq> None)
     | Some s \<Rightarrow> valid_place w p (i, s) \<and> content w p (i, s) = None \<and> Q s w1" by blast
  show ?thesis
  proof (cases r)
    case None
    with r b i c show ?thesis
      by (auto simp: into_family_bag_def m_pItems_content [OF ok] free_in_bag content_bag)
  next
    case (Some s)
    with r(2) have s: "free_place w p (i, s)" "Q s w1" by (simp_all add: free_place_def)
    with P [OF True s] Some r(1) b i show ?thesis
      by (simp add: into_family_bag_def m_pItems_content [OF ok])
  qed
next
  case False
  with bag_full_or_not [OF ok i False] slot_live [OF ok] i show ?thesis
    by (cases "slot_content w p i") (fastforce simp: into_family_bag_def m_pItems_content [OF ok])+
qed

lemma into_family_bag_ok:
  assumes ok: "inv_ok w p" and loose: "loose w p a" and i: "0 \<le> i" "i < 118"
    and P: "\<And>s w'. plain_bag w p family i \<Longrightarrow> free_place w p (i, s) \<Longrightarrow> put_at p a (i, s) w w' \<Longrightarrow> P (fin i s w')"
  shows "into_family_bag p a family fin i w = Some (Inr w) \<and> (plain_bag w p family i \<longrightarrow> (\<forall>j. \<not> free_place w p (i, j))) \<or>
    (\<exists>r. into_family_bag p a family fin i w = Some (Inl r) \<and> P r)"
proof (rule into_family_bag_run [where Q = "\<lambda>s. put_at p a (i, s) w", OF ok i])
  fix b cn assume "slot_content w p i = Some b" "iw_heap w b = Some cn" "it_container cn"
  then show "\<exists>w' r. Container_AddItemToFreeSlot b a w = Some (w', r) \<and>
    (case r of None \<Rightarrow> w' = w \<and> (\<forall>s. 0 \<le> s \<and> s < uint (pr_ContainerSlots (it_proto cn)) \<longrightarrow> content w p (i, s) \<noteq> None)
     | Some s \<Rightarrow> valid_place w p (i, s) \<and> content w p (i, s) = None \<and> put_at p a (i, s) w w')"
    using i by (intro Container_AddItemToFreeSlot_ok [OF ok loose]) simp_all
qed (rule P)

lemma on_plain_bag_ok:
  assumes ok: "inv_ok w p" and i: "0 \<le> i" "i < 118"
    and act: "\<And>j. plain_bag w p 0 i \<Longrightarrow> free_place w p (i, j) \<Longrightarrow> \<exists>r. act i j w = Some (Inl r) \<and> P r"
  shows "on_plain_bag p act i w = Some (Inr w) \<and> (plain_bag w p 0 i \<longrightarrow> (\<forall>j. \<not> free_place w p (i, j))) \<or>
    (\<exists>r. on_plain_bag p act i w = Some (Inl r) \<and> P r)"
proof (cases "plain_bag w p 0 i")
  case True
  then obtain b cn where b: "slot_content w p i = Some b" "iw_heap w b = Some cn" "it_container cn" "pr_BagFamily (it_proto cn) = 0"
    by (auto simp: plain_bag_def)
  have c: "i \<noteq> -1" using i by simp
  note G = GetItem_content [OF b(3) bag_live [OF ok b(2)]]
  let ?f = "\<lambda>j w. do { cn \<leftarrow> iw_heap w b; y \<leftarrow> GetItem cn j; if y = None then act i j w else Some (Inr w) }"
  have step: "?f j w = Some (Inr w) \<and> \<not> free_place w p (i, j) \<or> (\<exists>r. ?f j w = Some (Inl r) \<and> P r)"
    if j: "j \<in> set (bag_slots cn)" for j
  proof (cases "bag_content cn j")
    case None
    with j have "free_place w p (i, j)" using free_in_bag [OF c b(1-3)] by simp
    with act [OF True] None b(2) show ?thesis by (simp add: G)
  qed (use b(2) j in \<open>simp add: G free_in_bag [OF c b(1-3)]\<close>)
  from for_return_search [of "bag_slots cn" ?f, OF step]
  have "(\<exists>r. for_return ?f (bag_slots cn) w = Some (Inl r) \<and> P r) \<or>
    for_return ?f (bag_slots cn) w = Some (Inr w) \<and> (\<forall>j \<in> set (bag_slots cn). \<not> free_place w p (i, j))" by blast
  moreover have "on_plain_bag p act i w = for_return ?f (bag_slots cn) w"
    using b i by (simp add: on_plain_bag_def m_pItems_content [OF ok])
  moreover have "\<not> free_place w p (i, j)" if "\<forall>j \<in> set (bag_slots cn). \<not> free_place w p (i, j)" for j
    using that free_in_bag [OF c b(1-3), of j] by auto
  ultimately show ?thesis by auto
next
  case False
  with bag_full_or_not [OF ok i False] slot_live [OF ok] i show ?thesis
    by (cases "slot_content w p i") (fastforce simp: on_plain_bag_def m_pItems_content [OF ok])+
qed

text \<open>Over a list of slots, and one search behind another.\<close>

lemma search_slots:
  assumes "inv_ok w p" "\<And>i. i \<in> set xs \<Longrightarrow> 0 \<le> i \<and> i < 118"
    "\<And>i. i \<in> set xs \<Longrightarrow> free_place w p (-1, i) \<Longrightarrow> \<exists>r. act i w = Some (Inl r) \<and> P r"
  shows "(\<exists>r. for_return (on_empty_slot p act) xs w = Some (Inl r) \<and> P r) \<or>
    for_return (on_empty_slot p act) xs w = Some (Inr w) \<and> (\<forall>i \<in> set xs. \<not> free_place w p (-1, i))"
  using assms by (intro for_return_search on_empty_slot_ok) blast+

lemma search_family:
  assumes "inv_ok w p" "loose w p a" "\<And>i. i \<in> set xs \<Longrightarrow> 0 \<le> i \<and> i < 118"
    "\<And>i s w'. i \<in> set xs \<Longrightarrow> plain_bag w p family i \<Longrightarrow> free_place w p (i, s) \<Longrightarrow> put_at p a (i, s) w w' \<Longrightarrow> P (fin i s w')"
  shows "(\<exists>r. for_return (into_family_bag p a family fin) xs w = Some (Inl r) \<and> P r) \<or>
    for_return (into_family_bag p a family fin) xs w = Some (Inr w) \<and> (\<forall>i \<in> set xs. plain_bag w p family i \<longrightarrow> (\<forall>j. \<not> free_place w p (i, j)))"
  using assms by (intro for_return_search into_family_bag_ok) blast+

lemma search_plain:
  assumes "inv_ok w p" "\<And>i. i \<in> set xs \<Longrightarrow> 0 \<le> i \<and> i < 118"
    "\<And>i j. i \<in> set xs \<Longrightarrow> plain_bag w p 0 i \<Longrightarrow> free_place w p (i, j) \<Longrightarrow> \<exists>r. act i j w = Some (Inl r) \<and> P r"
  shows "(\<exists>r. for_return (on_plain_bag p act) xs w = Some (Inl r) \<and> P r) \<or>
    for_return (on_plain_bag p act) xs w = Some (Inr w) \<and> (\<forall>i \<in> set xs. plain_bag w p 0 i \<longrightarrow> (\<forall>j. \<not> free_place w p (i, j)))"
  using assms by (intro for_return_search on_plain_bag_ok) blast+

lemma seq_search:
  assumes "(\<exists>r. f = Some (Inl r) \<and> P r) \<or> f = Some (Inr w) \<and> A" "(\<exists>r. g w = Some (Inl r) \<and> P r) \<or> g w = Some (Inr w) \<and> B"
  shows "(\<exists>r. seq_loop f g = Some (Inl r) \<and> P r) \<or> seq_loop f g = Some (Inr w) \<and> A \<and> B"
  using assms by (auto simp: seq_loop_def)

lemma search_answer:
  assumes "g = map_option (\<lambda>r. case r of Inl w \<Rightarrow> (w, ADD_ITEM_RESULT_OK) | Inr w \<Rightarrow> (w, ADD_ITEM_RESULT_ERROR)) f"
    "(\<exists>r. f = Some (Inl r) \<and> (\<exists>x. F x \<and> put_at p a x w r)) \<or> f = Some (Inr w) \<and> A" "A \<Longrightarrow> \<forall>x. \<not> F x"
  shows "\<exists>w' r. g = Some (w', r) \<and> (if r = ADD_ITEM_RESULT_OK then \<exists>x. F x \<and> put_at p a x w w'
    else r = ADD_ITEM_RESULT_ERROR \<and> w' = w \<and> (\<forall>x. \<not> F x))"
  using assms by (elim disjE exE conjE) (auto simp del: split_paired_Ex split_paired_All)

text \<open>What fits in the bank: its slots, its plain bags, and its bags of the item's family.\<close>

definition fits_bank :: "item_world \<Rightarrow> u32 \<Rightarrow> item_proto \<Rightarrow> int \<times> int \<Rightarrow> bool" where
  "fits_bank w p pr x \<longleftrightarrow> free_place w p x \<and>
     (if fst x = -1 then snd x \<in> set bank
      else fst x \<in> set bank_bags \<and> (plain_bag w p 0 (fst x) \<or> plain_bag w p (pr_BagFamily pr) (fst x)))"

lemma took_ok:
  assumes "inv_ok w p" "loose w p a" "free_place w p (c, s)" "fits w p pr (c, s)"
  shows "\<exists>r. took (SafeAddItem p a c s w) p d t = Some (Inl r) \<and> (\<exists>x. fits w p pr x \<and> put_at p a x w r)"
proof -
  from add_at_free [OF assms(1-3)] obtain w' where "SafeAddItem p a c s w = Some (w', ADD_ITEM_RESULT_OK)" "put_at p a (c, s) w w'" by blast
  moreover from this(2) have "put_at p a (c, s) w (set_result p (sr d t) w')" by (rule put_at_to [rotated]) simp
  ultimately show ?thesis using assms(4) by (auto simp: took_def)
qed

lemma slot_ranges:
  "i \<in> set keyring \<Longrightarrow> 0 \<le> i \<and> i < 118" "i \<in> set backpack \<Longrightarrow> 0 \<le> i \<and> i < 118" "i \<in> set inventory_bags \<Longrightarrow> 0 \<le> i \<and> i < 118"
  "i \<in> set bank \<Longrightarrow> 0 \<le> i \<and> i < 118" "i \<in> set bank_bags \<Longrightarrow> 0 \<le> i \<and> i < 118"
  by simp_all

lemma AddItemToFreeSlot_ok:
  assumes ok: "inv_ok w p" and loose: "loose w p a" and it: "iw_heap w a = Some it"
  shows "\<exists>w' r. AddItemToFreeSlot p (Some a) w = Some (w', r) \<and>
    (if r = ADD_ITEM_RESULT_OK then \<exists>x. fits w p (it_proto it) x \<and> put_at p a x w w'
     else r = ADD_ITEM_RESULT_ERROR \<and> w' = w \<and> (\<forall>x. \<not> fits w p (it_proto it) x))"
proof -
  define pr where "pr = it_proto it"
  let ?P = "\<lambda>w'. \<exists>x. fits w p pr x \<and> put_at p a x w w'"
  let ?slot = "on_empty_slot p (\<lambda>i w. took (SafeAddItem p a INVENTORY_SLOT_NOT_SET i w) p INVENTORY_SLOT_NOT_SET i)"
  let ?bag = "on_plain_bag p (\<lambda>i j w. took (SafeAddItem p a i j w) p i j)"
  let ?family = "into_family_bag p a (pr_BagFamily pr) (\<lambda>i s. set_result p (sr i s))"
  let ?first = "if pr_BagFamily pr = 0 then Some (Inr w) else if has_flag (pr_BagFamily pr) ITEM_TYPE_KEYRING then for_return ?slot keyring w
    else for_return ?family inventory_bags w"
  let ?A = "(has_flag (pr_BagFamily pr) ITEM_TYPE_KEYRING \<longrightarrow> (\<forall>i \<in> set keyring. \<not> free_place w p (-1, i))) \<and>
    (pr_BagFamily pr \<noteq> 0 \<and> \<not> has_flag (pr_BagFamily pr) ITEM_TYPE_KEYRING \<longrightarrow>
      (\<forall>i \<in> set inventory_bags. plain_bag w p (pr_BagFamily pr) i \<longrightarrow> (\<forall>j. \<not> free_place w p (i, j))))"
  have slot_took: "\<exists>r. took (SafeAddItem p a INVENTORY_SLOT_NOT_SET i w) p INVENTORY_SLOT_NOT_SET i = Some (Inl r) \<and> ?P r"
    if "free_place w p (-1, i)" "i \<in> set backpack \<or> has_flag (pr_BagFamily pr) ITEM_TYPE_KEYRING \<and> i \<in> set keyring" for i
    using took_ok [OF ok loose that(1)] fits_slot [OF that] unfolding INVENTORY_SLOT_NOT_SET_def by blast
  have bag_took: "\<exists>r. took (SafeAddItem p a i j w) p i j = Some (Inl r) \<and> ?P r"
    if "free_place w p (i, j)" "i \<in> set inventory_bags" "plain_bag w p 0 i" for i j
    using took_ok [OF ok loose that(1)] fits_bag [OF that(1,2)] that(3) by blast
  have keys: "(\<exists>r. for_return ?slot keyring w = Some (Inl r) \<and> ?P r) \<or>
    for_return ?slot keyring w = Some (Inr w) \<and> (\<forall>i \<in> set keyring. \<not> free_place w p (-1, i))"
    if "has_flag (pr_BagFamily pr) ITEM_TYPE_KEYRING"
    using slot_took that by (intro search_slots [OF ok slot_ranges(1)]) blast+
  have family: "(\<exists>r. for_return ?family inventory_bags w = Some (Inl r) \<and> ?P r) \<or>
    for_return ?family inventory_bags w = Some (Inr w) \<and>
      (\<forall>i \<in> set inventory_bags. plain_bag w p (pr_BagFamily pr) i \<longrightarrow> (\<forall>j. \<not> free_place w p (i, j)))"
    if "pr_BagFamily pr \<noteq> 0" "\<not> has_flag (pr_BagFamily pr) ITEM_TYPE_KEYRING"
  proof (rule search_family [OF ok loose slot_ranges(3)], assumption)
    fix i s w' assume "i \<in> set inventory_bags" "plain_bag w p (pr_BagFamily pr) i" and free: "free_place w p (i, s)" and put: "put_at p a (i, s) w w'"
    with that have "fits w p pr (i, s)" by (intro fits_bag) simp_all
    moreover have "put_at p a (i, s) w (set_result p (sr i s) w')" by (rule put_at_to [OF _ put]) simp
    ultimately show "?P (set_result p (sr i s) w')" by blast
  qed
  have first: "(\<exists>r. ?first = Some (Inl r) \<and> ?P r) \<or> ?first = Some (Inr w) \<and> ?A"
  proof (cases "pr_BagFamily pr = 0")
    case False
    then show ?thesis using keys family by (cases "has_flag (pr_BagFamily pr) ITEM_TYPE_KEYRING") (simp_all del: bag_ranges)
  qed simp
  have pack: "(\<exists>r. for_return ?slot backpack w = Some (Inl r) \<and> ?P r) \<or>
    for_return ?slot backpack w = Some (Inr w) \<and> (\<forall>i \<in> set backpack. \<not> free_place w p (-1, i))"
    using slot_took by (intro search_slots [OF ok slot_ranges(2)]) blast+
  have bags: "(\<exists>r. for_return ?bag inventory_bags w = Some (Inl r) \<and> ?P r) \<or>
    for_return ?bag inventory_bags w = Some (Inr w) \<and> (\<forall>i \<in> set inventory_bags. plain_bag w p 0 i \<longrightarrow> (\<forall>j. \<not> free_place w p (i, j)))"
    using bag_took by (intro search_plain [OF ok slot_ranges(3)]) blast+
  have none: "\<not> fits w p pr x" if "?A" "\<forall>i \<in> set backpack. \<not> free_place w p (-1, i)"
    "\<forall>i \<in> set inventory_bags. plain_bag w p 0 i \<longrightarrow> (\<forall>j. \<not> free_place w p (i, j))" for x
  proof (cases x)
    case (Pair c s)
    with that show ?thesis by (cases "c = -1") (auto simp: fits_def simp del: bag_ranges)
  qed
  let ?B = "(\<forall>i \<in> set backpack. \<not> free_place w p (-1, i)) \<and> (\<forall>i \<in> set inventory_bags. plain_bag w p 0 i \<longrightarrow> (\<forall>j. \<not> free_place w p (i, j)))"
  let ?rest = "\<lambda>w. seq_loop (for_return ?slot backpack w) (for_return ?bag inventory_bags)"
  have "(\<exists>r. ?rest w = Some (Inl r) \<and> ?P r) \<or> ?rest w = Some (Inr w) \<and> ?B"
    using pack bags by (rule seq_search)
  with first have "(\<exists>r. seq_loop ?first ?rest = Some (Inl r) \<and> ?P r) \<or> seq_loop ?first ?rest = Some (Inr w) \<and> ?A \<and> ?B"
    by (rule seq_search)
  moreover have "AddItemToFreeSlot p (Some a) w = map_option (\<lambda>r. case r of Inl w \<Rightarrow> (w, ADD_ITEM_RESULT_OK) | Inr w \<Rightarrow> (w, ADD_ITEM_RESULT_ERROR))
      (seq_loop ?first ?rest)"
    unfolding pr_def by (simp add: AddItemToFreeSlot_def it Let_def map_conv_bind_option comp_def split del: if_split)
  ultimately show ?thesis
    using none unfolding pr_def by (intro search_answer) blast+
qed

lemma AddItemToFreeBankSlot_ok:
  assumes ok: "inv_ok w p" and loose: "loose w p a" and it: "iw_heap w a = Some it"
  shows "\<exists>w' r. AddItemToFreeBankSlot p a w = Some (w', r) \<and>
    (if r = ADD_ITEM_RESULT_OK then \<exists>x. fits_bank w p (it_proto it) x \<and> put_at p a x w w'
     else r = ADD_ITEM_RESULT_ERROR \<and> w' = w \<and> (\<forall>x. \<not> fits_bank w p (it_proto it) x))"
proof -
  define pr where "pr = it_proto it"
  let ?F = "fits_bank w p pr"
  let ?P = "\<lambda>(w', r). r = ADD_ITEM_RESULT_OK \<and> (\<exists>x. ?F x \<and> put_at p a x w w')"
  let ?slot = "on_empty_slot p (\<lambda>i w. map_option Inl (SafeAddItem p a INVENTORY_SLOT_NOT_SET i w))"
  let ?bag = "on_plain_bag p (\<lambda>i j w. map_option Inl (SafeAddItem p a i j w))"
  let ?family = "into_family_bag p a (pr_BagFamily pr) (\<lambda>i s w. (w, ADD_ITEM_RESULT_OK))"
  let ?A = "\<forall>i \<in> set bank_bags. plain_bag w p (pr_BagFamily pr) i \<longrightarrow> (\<forall>j. \<not> free_place w p (i, j))"
  let ?B = "\<forall>i \<in> set bank. \<not> free_place w p (-1, i)"
  let ?C = "\<forall>i \<in> set bank_bags. plain_bag w p 0 i \<longrightarrow> (\<forall>j. \<not> free_place w p (i, j))"
  have add: "\<exists>r. map_option Inl (SafeAddItem p a c s w) = Some (Inl r) \<and> ?P r" if "free_place w p (c, s)" "?F (c, s)" for c s
    using add_at_free [OF ok loose that(1)] that(2) by (elim exE conjE) (auto simp del: split_paired_Ex)
  have "(\<exists>r. for_return ?family bank_bags w = Some (Inl r) \<and> ?P r) \<or> for_return ?family bank_bags w = Some (Inr w) \<and> ?A"
  proof (rule search_family [OF ok loose slot_ranges(5)], assumption)
    fix i s w' assume i: "i \<in> set bank_bags" and bag: "plain_bag w p (pr_BagFamily pr) i" and free: "free_place w p (i, s)" and put: "put_at p a (i, s) w w'"
    from i have "i \<noteq> -1" by auto
    with i bag free have "?F (i, s)" unfolding fits_bank_def fst_conv snd_conv by simp
    with put show "?P (w', ADD_ITEM_RESULT_OK)" by (auto simp del: split_paired_Ex)
  qed
  moreover have "(\<exists>r. for_return ?slot bank w = Some (Inl r) \<and> ?P r) \<or> for_return ?slot bank w = Some (Inr w) \<and> ?B"
    by (intro search_slots [OF ok slot_ranges(4)] add) (simp_all add: fits_bank_def INVENTORY_SLOT_NOT_SET_def del: bag_ranges)
  moreover have "(\<exists>r. for_return ?bag bank_bags w = Some (Inl r) \<and> ?P r) \<or> for_return ?bag bank_bags w = Some (Inr w) \<and> ?C"
    by (intro search_plain [OF ok slot_ranges(5)] add) (auto simp: fits_bank_def simp del: bag_ranges dest: slot_ranges(5))
  ultimately have "(\<exists>r. seq_loop (for_return ?family bank_bags w) (\<lambda>w. seq_loop (for_return ?slot bank w) (for_return ?bag bank_bags)) = Some (Inl r) \<and> ?P r) \<or>
     seq_loop (for_return ?family bank_bags w) (\<lambda>w. seq_loop (for_return ?slot bank w) (for_return ?bag bank_bags)) = Some (Inr w) \<and> ?A \<and> ?B \<and> ?C"
    by (intro seq_search)
  moreover have "\<not> ?F x" if "?A" "?B" "?C" for x
    using that by (cases x; cases "fst x = -1") (auto simp: fits_bank_def simp del: bag_ranges)
  ultimately show ?thesis
    unfolding AddItemToFreeBankSlot_def it pr_def by (elim disjE exE conjE) (auto simp del: split_paired_Ex split_paired_All)
qed

end
