(* ===== verification/HS_ItemTake.thy ===== *)
theory HS_ItemTake
  imports HS_ItemAdd
begin

text \<open>
  Taking an item out, with and without destroying it: \<open>SafeRemoveAndRetreiveItemFromSlot\<close>,
  \<open>SafeFullRemoveItemFromSlot\<close> and the two operations by guid empty one place, or move nothing when there is no
  item or when it is a bag with contents.
\<close>

section \<open>By place\<close>

lemma put_field_face:
  "inv_lengths w p \<Longrightarrow> 0 \<le> s \<Longrightarrow> s < 118 \<Longrightarrow>
    put_field p s g w = Some (upd_inv p (\<lambda>v. v\<lparr> iv_fields := (iv_fields (iw_inv w p))[nat s := g] \<rparr>) w)"
  by (simp add: put_field_def inv_lengths_def)

lemma slot_emptied:
  assumes ok: "inv_ok w p" and s: "0 \<le> s" "s < 118"
  shows "\<exists>w1 w2. put_slot p s None w = Some w1 \<and> item_taken p a s w1 = Some w2 \<and> face w2 = face (w_take p (-1) s w) \<and>
    map_option norm_item (iw_heap w2 a) = map_option norm_item (iw_heap w a)"
proof -
  define w1 where "w1 = upd_inv p (\<lambda>v. v\<lparr> iv_items := (iv_items (iw_inv w p))[nat s := None] \<rparr>) w"
  define w2 where "w2 = upd_item a (\<lambda>it. it\<lparr> it_dirty := True \<rparr>) w1"
  define w3 where "w3 = upd_inv p (\<lambda>v. v\<lparr> iv_fields := (iv_fields (iw_inv w p))[nat s := 0] \<rparr>) w2"
  have len: "inv_lengths w2 p" using inv_okD(2) [OF ok] by (simp add: inv_lengths_def w2_def w1_def)
  have "put_field p s 0 w2 = Some w3"
    using put_field_face [OF len s, of 0] by (simp add: w3_def w2_def w1_def)
  then have "\<exists>w4. item_taken p a s w1 = Some w4 \<and> face w4 = face w3"
    by (simp add: item_taken_def w2_def [symmetric] Let_def)
  moreover have "face w3 = face (w_take p (-1) s w)"
  proof (rule face_eqI)
    fix b show "map_option norm_item (iw_heap w3 b) = map_option norm_item (iw_heap (w_take p (-1) s w) b)"
      by (cases "iw_heap w a") (auto simp: w3_def w2_def w1_def w_take_def norm_item_def)
  qed (auto simp: w3_def w2_def w1_def w_take_def)
  moreover have "map_option norm_item (iw_heap w4 a) = map_option norm_item (iw_heap w a)" if "face w4 = face w3" for w4
  proof -
    have "map_option norm_item (iw_heap w3 a) = map_option norm_item (iw_heap w a)"
      by (cases "iw_heap w a") (auto simp: w3_def w2_def w1_def norm_item_def)
    with that show ?thesis by (simp add: face_def fun_eq_iff)
  qed
  ultimately show ?thesis
    using put_slot_ok [OF ok s, of None] unfolding w1_def by metis
qed

lemma live_norm:
  "map_option norm_item (iw_heap w2 a) = map_option norm_item (iw_heap w a) \<Longrightarrow> iw_heap w a = Some it \<Longrightarrow> bag_shape it \<Longrightarrow>
    \<exists>it2. iw_heap w2 a = Some it2 \<and> bag_shape it2"
  by (cases "iw_heap w2 a") (auto dest!: arg_cong [of _ _ bag_shape])

text \<open>What is in a place, and whether it may leave.\<close>

definition stuck :: "item_world \<Rightarrow> u32 \<Rightarrow> int \<times> int \<Rightarrow> bool" where
  "stuck w p x \<longleftrightarrow> (case content w p x of None \<Rightarrow> True
     | Some a \<Rightarrow> fst x = -1 \<and> (\<exists>it. iw_heap w a = Some it \<and> \<not> bag_empty it))"

lemma content_negative: "c < -1 \<Longrightarrow> content w p (c, s) = None"
  by (simp add: content_def slot_content_def)

lemma place_in_bag:
  assumes "content w p (c, s) = Some a" "slot_content w p c = Some b" "iw_heap w b = Some cn" "c \<noteq> -1"
  shows "it_container cn" "0 \<le> s" "s < uint (pr_ContainerSlots (it_proto cn))" "bag_content cn s = Some a"
  using assms by (auto simp: content_bag bag_content_def split: if_splits)

lemma SafeRemove_slot:
  assumes ok: "inv_ok w p" and s: "s < 118"
  shows "\<exists>w' r. SafeRemoveAndRetreiveItemFromSlot p (-1) s destroy w = Some (w', r) \<and>
    (if stuck w p (-1, s) then r = None \<and> same_inv p w w'
     else \<exists>a. content w p (-1, s) = Some a \<and> r = Some a \<and> taken_from p a (-1, s) w w')"
proof (cases "slot_content w p s")
  case None
  then show ?thesis
    using s by (simp add: SafeRemoveAndRetreiveItemFromSlot_def MAX_INVENTORY_SLOT_def INVENTORY_SLOT_NOT_SET_def GetInventoryItem2_def
      GetInventoryItem_content [OF ok] stuck_def same_inv_refl [OF ok])
next
  case (Some a)
  from slot_live [OF ok Some] obtain it where it: "iw_heap w a = Some it" "it_owner it = Some p" by blast
  have shape: "bag_shape it" by (rule bag_live [OF ok it(1)])
  show ?thesis
  proof (cases "bag_empty it")
    case False
    from DeleteFromDB_ok [OF ok it(1)] obtain w' where w': "DeleteFromDB a w = Some w'" "face w' = face w" by blast
    then show ?thesis
      using s it Some False same_inv_face [OF ok w'(2)]
      by (simp add: SafeRemoveAndRetreiveItemFromSlot_def MAX_INVENTORY_SLOT_def INVENTORY_SLOT_NOT_SET_def GetInventoryItem2_def
        GetInventoryItem_content [OF ok] stuck_def full_bag_content [OF shape])
  next
    case True
    from slot_content_range [OF Some] have s0: "0 \<le> s" by simp
    from slot_emptied [OF ok s0 s, of a] obtain w1 w2 where w: "put_slot p s None w = Some w1" "item_taken p a s w1 = Some w2"
      "face w2 = face (w_take p (-1) s w)" "map_option norm_item (iw_heap w2 a) = map_option norm_item (iw_heap w a)" by blast
    from live_norm [OF w(4) it(1) shape] obtain it2 where it2: "iw_heap w2 a = Some it2" "bag_shape it2" by blast
    from unlist_ok [OF w(3) it2, of destroy it] obtain w3 where w3: "unlist destroy it a w2 = Some w3" "face w3 = face (w_take p (-1) s w)" by blast
    have "taken_from p a (-1, s) w w3"
      by (rule taken_face [OF ok _ _ it(1) True w3(2)]) (use s s0 Some in \<open>simp_all add: valid_place_def\<close>)
    with w w3 it Some True s show ?thesis
      by (simp add: SafeRemoveAndRetreiveItemFromSlot_def MAX_INVENTORY_SLOT_def INVENTORY_SLOT_NOT_SET_def GetInventoryItem2_def
        GetInventoryItem_content [OF ok] stuck_def full_bag_content [OF shape])
  qed
qed

lemma SafeRemove_ok:
  assumes ok: "inv_ok w p" and s: "s < 118" and c: "c < 118"
  shows "\<exists>w' r. SafeRemoveAndRetreiveItemFromSlot p c s destroy w = Some (w', r) \<and>
    (if stuck w p (c, s) then r = None \<and> same_inv p w w'
     else \<exists>a. content w p (c, s) = Some a \<and> r = Some a \<and> taken_from p a (c, s) w w')"
proof (cases "c = -1")
  case False
  note defs = SafeRemoveAndRetreiveItemFromSlot_def MAX_INVENTORY_SLOT_def INVENTORY_SLOT_NOT_SET_def GetInventoryItem_content [OF ok]
  show ?thesis
  proof (cases "slot_content w p c")
    case None
    with False s c show ?thesis by (simp add: defs stuck_def content_def same_inv_refl [OF ok])
  next
    case (Some b)
    from slot_live [OF ok Some] obtain cn where cn: "iw_heap w b = Some cn" by blast
    show ?thesis
    proof (cases "bag_content cn s")
      case None
      with False s c Some cn Container_SafeRemove_none [OF ok cn _ None] show ?thesis
        by (cases "it_container cn") (simp_all add: defs stuck_def content_bag [OF Some cn] same_inv_refl [OF ok])
    next
      case A: (Some a)
      then have at: "content w p (c, s) = Some a" by (simp add: content_bag [OF Some cn])
      note B = place_in_bag [OF at Some cn False]
      from Container_SafeRemove_ok [OF ok False Some cn B] obtain w' where
        "Container_SafeRemove b s destroy w = Some (w', Some a)" "taken_from p a (c, s) w w'" by blast
      with at False s c Some cn B(1) show ?thesis by (simp add: defs stuck_def)
    qed
  qed
qed (use SafeRemove_slot [OF ok s, of destroy] in blast)

text \<open>The answer of \<open>SafeFullRemoveItemFromSlot\<close> for a bag is always that it was removed.\<close>

lemma SafeFullRemove_slot:
  assumes ok: "inv_ok w p" and s: "s < 118"
  shows "\<exists>w' r. SafeFullRemoveItemFromSlot p (-1) s w = Some (w', r) \<and>
    (if stuck w p (-1, s) then \<not> r \<and> same_inv p w w'
     else r \<and> (\<exists>a. content w p (-1, s) = Some a \<and> destroyed_at p a (-1, s) w w'))"
proof (cases "slot_content w p s")
  case None
  then show ?thesis
    using s by (auto simp: SafeFullRemoveItemFromSlot_def MAX_INVENTORY_SLOT_def INVENTORY_SLOT_NOT_SET_def
      GetInventoryItem_content [OF ok] stuck_def same_inv_refl [OF ok])
next
  case (Some a)
  note defs = SafeFullRemoveItemFromSlot_def MAX_INVENTORY_SLOT_def INVENTORY_SLOT_NOT_SET_def GetInventoryItem_content [OF ok]
  from slot_live [OF ok Some] obtain it where it: "iw_heap w a = Some it" "it_owner it = Some p" by blast
  have shape: "bag_shape it" by (rule bag_live [OF ok it(1)])
  show ?thesis
  proof (cases "bag_empty it")
    case False
    from DeleteFromDB_ok [OF ok it(1)] obtain w' where w': "DeleteFromDB a w = Some w'" "face w' = face w" by blast
    then show ?thesis
      using s it Some False same_inv_face [OF ok w'(2)] by (auto simp: defs stuck_def full_bag_content [OF shape])
  next
    case True
    from slot_content_range [OF Some] have s0: "0 \<le> s" by simp
    from slot_emptied [OF ok s0 s, of a] obtain w1 w2 where w: "put_slot p s None w = Some w1" "item_taken p a s w1 = Some w2"
      "face w2 = face (w_take p (-1) s w)" "map_option norm_item (iw_heap w2 a) = map_option norm_item (iw_heap w a)" by blast
    from live_norm [OF w(4) it(1) shape] obtain it2 where it2: "iw_heap w2 a = Some it2" "bag_shape it2" by blast
    from unlist_ok [OF w(3) it2, of True it] obtain w3 where w3: "unlist True it a w2 = Some w3" "face w3 = face (w_take p (-1) s w)" by blast
    have T: "taken_from p a (-1, s) w w3"
      by (rule taken_face [OF ok _ _ it(1) True w3(2)]) (use s s0 Some in \<open>simp_all add: valid_place_def\<close>)
    from taken_live [OF T] Destructor_face obtain w4 where w4: "Destructor a w3 = Some w4" "face w4 = face (w_drop a w3)" by blast
    with taken_destroyed [OF T w4(2)] w w3 it Some True s show ?thesis
      by (auto simp: defs stuck_def full_bag_content [OF shape])
  qed
qed

lemma SafeFullRemove_ok:
  assumes ok: "inv_ok w p" and s: "s < 118" and c: "c < 118"
  shows "\<exists>w' r. SafeFullRemoveItemFromSlot p c s w = Some (w', r) \<and>
    (if stuck w p (c, s) then (r \<longleftrightarrow> c \<noteq> -1) \<and> same_inv p w w'
     else r \<and> (\<exists>a. content w p (c, s) = Some a \<and> destroyed_at p a (c, s) w w'))"
proof (cases "c = -1")
  case False
  note defs = SafeFullRemoveItemFromSlot_def MAX_INVENTORY_SLOT_def INVENTORY_SLOT_NOT_SET_def GetInventoryItem_content [OF ok]
  show ?thesis
  proof (cases "slot_content w p c")
    case None
    with False s c show ?thesis by (auto simp: defs stuck_def content_def same_inv_refl [OF ok])
  next
    case (Some b)
    from slot_live [OF ok Some] obtain cn where cn: "iw_heap w b = Some cn" by blast
    show ?thesis
    proof (cases "bag_content cn s")
      case None
      with False s c Some cn Container_SafeFullRemove_none [OF ok cn _ None] show ?thesis
        by (cases "it_container cn") (auto simp: defs stuck_def content_bag [OF Some cn] same_inv_refl [OF ok])
    next
      case A: (Some a)
      then have at: "content w p (c, s) = Some a" by (simp add: content_bag [OF Some cn])
      note B = place_in_bag [OF at Some cn False]
      from Container_SafeFullRemove_ok [OF ok False Some cn B] obtain w' where
        "Container_SafeFullRemove b s w = Some (w', True)" "destroyed_at p a (c, s) w w'" by blast
      with at False s c Some cn B(1) show ?thesis by (auto simp: defs stuck_def)
    qed
  qed
qed (use SafeFullRemove_slot [OF ok s] in metis)

section \<open>By guid\<close>

lemma first_in_search:
  assumes "\<And>i. i \<in> set xs \<Longrightarrow> \<exists>r. f i = Some r \<and> (case r of None \<Rightarrow> Q i | Some q \<Rightarrow> P q)"
  shows "\<exists>r. first_in f xs = Some r \<and> (case r of None \<Rightarrow> \<forall>i \<in> set xs. Q i | Some q \<Rightarrow> P q)"
  using assms
proof (induction xs)
  case (Cons i xs)
  from Cons.prems [of i] obtain r where r: "f i = Some r" "case r of None \<Rightarrow> Q i | Some q \<Rightarrow> P q" by auto
  from Cons obtain k where "first_in f xs = Some k" "case k of None \<Rightarrow> \<forall>i \<in> set xs. Q i | Some q \<Rightarrow> P q" by force
  with r show ?case by (cases r; cases k) auto
qed simp

lemma or_else_search:
  assumes "\<exists>r. f = Some r \<and> (case r of None \<Rightarrow> A | Some q \<Rightarrow> P q)" "\<exists>r. g = Some r \<and> (case r of None \<Rightarrow> B | Some q \<Rightarrow> P q)"
  shows "\<exists>r. or_else f g = Some r \<and> (case r of None \<Rightarrow> A \<and> B | Some q \<Rightarrow> P q)"
  using assms by (auto simp: or_else_def split: option.splits)

lemma answer_weaken:
  assumes "f = Some r" "case r of None \<Rightarrow> A | Some q \<Rightarrow> P q" "\<And>x. A \<Longrightarrow> S x \<Longrightarrow> \<not> H x"
  shows "\<exists>r. f = Some r \<and> (case r of None \<Rightarrow> \<forall>x. S x \<longrightarrow> \<not> H x | Some q \<Rightarrow> P q)"
  using assms by (cases r) (auto simp del: split_paired_All)

definition has_guid :: "item_world \<Rightarrow> u32 \<Rightarrow> u64 \<Rightarrow> int \<times> int \<Rightarrow> bool" where
  "has_guid w p g x \<longleftrightarrow> (\<exists>a it. content w p x = Some a \<and> iw_heap w a = Some it \<and> it_guid it = g)"

text \<open>The places an item can be found in by its guid.\<close>

definition searched :: "int \<times> int \<Rightarrow> bool" where
  "searched x \<longleftrightarrow> (if fst x = -1 then own_slot (snd x) else fst x \<in> set inventory_bags \<or> fst x \<in> set bank_bags)"

definition found_place :: "item_world \<Rightarrow> u32 \<Rightarrow> u64 \<Rightarrow> int \<times> nat option \<Rightarrow> bool" where
  "found_place w p g q \<longleftrightarrow> (case q of
     (s, None) \<Rightarrow> searched (-1, s) \<and> has_guid w p g (-1, s)
   | (j, Some b) \<Rightarrow> (\<exists>c. searched (c, j) \<and> c \<noteq> -1 \<and> slot_content w p c = Some b \<and> has_guid w p g (c, j)))"

lemma here_search:
  assumes ok: "inv_ok w p" and i: "own_slot i"
  shows "\<exists>r. in_slot w p (\<lambda>a it. if it_guid it = g then Some (i, None) else None) i = Some r \<and>
    (case r of None \<Rightarrow> \<not> has_guid w p g (-1, i) | Some q \<Rightarrow> found_place w p g q)"
  using own_slot_range [OF i] i slot_live [OF ok, of i]
  by (cases "slot_content w p i") (auto simp: in_slot_content [OF ok] has_guid_def found_place_def searched_def)

lemma bag_search:
  assumes ok: "inv_ok w p" and i: "i \<in> set inventory_bags \<or> i \<in> set bank_bags"
  shows "\<exists>r. (do { b \<leftarrow> m_pItems w p i;
       in_bag w p (bag_item w (\<lambda>j a it. if it_guid it = g then Some (j, b) else None)) i }) = Some r \<and>
    (case r of None \<Rightarrow> \<forall>j. \<not> has_guid w p g (i, j) | Some q \<Rightarrow> found_place w p g q)"
proof -
  have r: "0 \<le> i" "i < 118" "i \<noteq> -1" using i by auto
  show ?thesis
  proof (cases "slot_content w p i")
    case None
    then show ?thesis using r by (simp add: m_pItems_content [OF ok] in_bag_content [OF ok] has_guid_def content_def)
  next
    case (Some b)
    from slot_live [OF ok Some] obtain cn where cn: "iw_heap w b = Some cn" by blast
    note C = content_bag [OF Some cn]
    let ?f = "\<lambda>j. bag_item w (\<lambda>j a it. if it_guid it = g then Some (j, Some b) else None) cn j (bag_content cn j)"
    have step: "\<exists>r. ?f j = Some r \<and> (case r of None \<Rightarrow> \<not> has_guid w p g (i, j) | Some q \<Rightarrow> found_place w p g q)" for j
    proof (cases "bag_content cn j")
      case (Some a)
      then have "content w p (i, j) = Some a" by (simp add: C)
      moreover from placed_live [OF ok this] obtain it where "iw_heap w a = Some it" by blast
      moreover have "found_place w p g (j, Some b)" if "has_guid w p g (i, j)"
        using that \<open>slot_content w p i = Some b\<close> i r(3) unfolding found_place_def searched_def by auto
      ultimately show ?thesis using Some by (auto simp: bag_item_def has_guid_def)
    qed (simp add: bag_item_def has_guid_def C)
    have "\<exists>r. first_in ?f (bag_slots cn) = Some r \<and>
      (case r of None \<Rightarrow> \<forall>j \<in> set (bag_slots cn). \<not> has_guid w p g (i, j) | Some q \<Rightarrow> found_place w p g q)"
      by (rule first_in_search) (rule step)
    moreover have "\<not> has_guid w p g (i, j)" if "\<not> it_container cn \<or> (\<forall>j \<in> set (bag_slots cn). \<not> has_guid w p g (i, j))" for j
    proof (cases "it_container cn \<and> j \<in> set (bag_slots cn)")
      case False
      then have "bag_content cn j = None" by (auto simp: bag_content_def)
      then show ?thesis by (simp add: has_guid_def C)
    qed (use that in blast)
    ultimately show ?thesis
      using Some cn r by (cases "it_container cn") (auto simp: m_pItems_content [OF ok] in_bag_content [OF ok] Let_def split: option.splits)
  qed
qed

lemma place_by_guid_ok:
  assumes ok: "inv_ok w p"
  shows "\<exists>r. place_by_guid w p g = Some r \<and>
    (case r of None \<Rightarrow> \<forall>x. searched x \<longrightarrow> \<not> has_guid w p g x | Some q \<Rightarrow> found_place w p g q)"
proof -
  let ?here = "\<lambda>i. in_slot w p (\<lambda>a it. if it_guid it = g then Some (i, None) else None) i"
  let ?bag = "\<lambda>i. or_else (?here i) (do { b \<leftarrow> m_pItems w p i;
       in_bag w p (bag_item w (\<lambda>j a it. if it_guid it = g then Some (j, b) else None)) i })"
  have here: "\<exists>r. first_in ?here xs = Some r \<and> (case r of None \<Rightarrow> \<forall>i \<in> set xs. \<not> has_guid w p g (-1, i) | Some q \<Rightarrow> found_place w p g q)"
    if "\<And>i. i \<in> set xs \<Longrightarrow> own_slot i" for xs
    by (rule first_in_search) (rule here_search [OF ok that])
  have bag: "\<exists>r. first_in ?bag xs = Some r \<and>
      (case r of None \<Rightarrow> \<forall>i \<in> set xs. \<not> has_guid w p g (-1, i) \<and> (\<forall>j. \<not> has_guid w p g (i, j)) | Some q \<Rightarrow> found_place w p g q)"
    if xs: "\<And>i. i \<in> set xs \<Longrightarrow> i \<in> set inventory_bags \<or> i \<in> set bank_bags" for xs
  proof (rule first_in_search)
    fix i assume "i \<in> set xs"
    then have i: "i \<in> set inventory_bags \<or> i \<in> set bank_bags" by (rule xs)
    then have "own_slot i" by (auto simp: own_slot_def)
    from or_else_search [OF here_search [OF ok this] bag_search [OF ok i]]
    show "\<exists>r. ?bag i = Some r \<and> (case r of None \<Rightarrow> \<not> has_guid w p g (-1, i) \<and> (\<forall>j. \<not> has_guid w p g (i, j)) | Some q \<Rightarrow> found_place w p g q)" .
  qed
  let ?Q = "\<lambda>xs. \<forall>i \<in> set xs. \<not> has_guid w p g (-1, i)"
  let ?R = "\<lambda>xs. \<forall>i \<in> set xs. \<not> has_guid w p g (-1, i) \<and> (\<forall>j. \<not> has_guid w p g (i, j))"
  have own: "\<And>i. i \<in> set (slots 0 EQUIPMENT_SLOT_END) \<Longrightarrow> own_slot i" "\<And>i. i \<in> set backpack \<Longrightarrow> own_slot i"
    "\<And>i. i \<in> set keyring \<Longrightarrow> own_slot i" "\<And>i. i \<in> set bank \<Longrightarrow> own_slot i"
    by (auto simp: own_slot_def EQUIPMENT_SLOT_END_def)
  have "\<exists>r. place_by_guid w p g = Some r \<and> (case r of None \<Rightarrow> ?Q (slots 0 EQUIPMENT_SLOT_END) \<and> ?Q backpack \<and> ?Q keyring \<and>
      ?R inventory_bags \<and> ?Q bank \<and> ?R bank_bags | Some q \<Rightarrow> found_place w p g q)"
    unfolding place_by_guid_def Let_def
    by (intro or_else_search here own bag) (simp_all del: bag_ranges)
  moreover have "\<not> has_guid w p g x" if Q: "?Q (slots 0 EQUIPMENT_SLOT_END) \<and> ?Q backpack \<and> ?Q keyring \<and> ?R inventory_bags \<and> ?Q bank \<and> ?R bank_bags"
    and x: "searched x" for x
  proof (cases "fst x = -1")
    case True
    with x have "own_slot (snd x)" by (simp add: searched_def)
    then have "snd x \<in> set (slots 0 EQUIPMENT_SLOT_END) \<or> snd x \<in> set inventory_bags \<or> snd x \<in> set backpack \<or> snd x \<in> set bank \<or>
      snd x \<in> set bank_bags \<or> snd x \<in> set keyring" by (auto simp: own_slot_def EQUIPMENT_SLOT_END_def)
    with Q True show ?thesis by (cases x) (simp del: bag_ranges set_slots, blast)
  next
    case False
    with x Q show ?thesis by (cases x) (simp add: searched_def del: bag_ranges set_slots, blast)
  qed
  ultimately have "\<exists>r. place_by_guid w p g = Some r \<and> (case r of None \<Rightarrow> \<forall>x. searched x \<longrightarrow> \<not> has_guid w p g x | Some q \<Rightarrow> found_place w p g q)"
    by (elim exE conjE) (rule answer_weaken)
  then show ?thesis .
qed

text \<open>No item with the guid, or a bag with contents: nothing moves. Else the item leaves its place.\<close>

definition not_removable :: "item_world \<Rightarrow> u32 \<Rightarrow> u64 \<Rightarrow> bool" where
  "not_removable w p g \<longleftrightarrow> (\<forall>x. searched x \<longrightarrow> \<not> has_guid w p g x) \<or> (\<exists>s. has_guid w p g (-1, s) \<and> stuck w p (-1, s))"

lemma in_bag_live:
  assumes "inv_ok w p" "slot_content w p c = Some b" "content w p (c, j) = Some a" "c \<noteq> -1"
  shows "\<exists>cn. iw_heap w b = Some cn \<and> it_container cn \<and> 0 \<le> j \<and> j < uint (pr_ContainerSlots (it_proto cn)) \<and> bag_content cn j = Some a"
proof -
  from slot_live [OF assms(1,2)] obtain cn where "iw_heap w b = Some cn" by blast
  with place_in_bag [OF assms(3,2) this assms(4)] show ?thesis by blast
qed

lemma SafeRemoveByGuid_ok:
  assumes ok: "inv_ok w p"
  shows "\<exists>w' r. SafeRemoveAndRetreiveItemByGuid p g destroy w = Some (w', r) \<and>
    (case r of None \<Rightarrow> same_inv p w w' \<and> not_removable w p g
     | Some a \<Rightarrow> \<exists>x. searched x \<and> has_guid w p g x \<and> content w p x = Some a \<and> taken_from p a x w w')"
proof -
  from place_by_guid_ok [OF ok] obtain r where r: "place_by_guid w p g = Some r"
    "case r of None \<Rightarrow> \<forall>x. searched x \<longrightarrow> \<not> has_guid w p g x | Some q \<Rightarrow> found_place w p g q" by blast
  show ?thesis
  proof (cases r)
    case None
    with r show ?thesis by (simp add: SafeRemoveAndRetreiveItemByGuid_def not_removable_def same_inv_refl [OF ok])
  next
    case (Some q)
    obtain s x where q: "q = (s, x)" by (cases q)
    show ?thesis
    proof (cases x)
      case None
      with r(2) Some q have s: "searched (-1, s)" "has_guid w p g (-1, s)" by (simp_all add: found_place_def)
      then have "s < 118" using own_slot_range [of s] by (simp add: searched_def)
      from SafeRemove_ok [OF ok this, of "-1" destroy] obtain w' k where
        "SafeRemoveAndRetreiveItemFromSlot p (-1) s destroy w = Some (w', k)"
        "if stuck w p (-1, s) then k = None \<and> same_inv p w w'
         else \<exists>a. content w p (-1, s) = Some a \<and> k = Some a \<and> taken_from p a (-1, s) w w'" by auto
      moreover from this(1) have "SafeRemoveAndRetreiveItemByGuid p g destroy w = Some (w', k)"
        using r(1) Some q None by (simp add: SafeRemoveAndRetreiveItemByGuid_def INVENTORY_SLOT_NOT_SET_def)
      ultimately show ?thesis
        using s unfolding not_removable_def by (cases "stuck w p (-1, s)") (simp_all del: content_slot split_paired_Ex, blast, auto simp del: content_slot split_paired_Ex)
    next
      case B: (Some b)
      with r(2) Some q obtain c where c: "searched (c, s)" "c \<noteq> -1" "slot_content w p c = Some b" "has_guid w p g (c, s)"
        by (auto simp: found_place_def)
      from c(4) obtain a where a: "content w p (c, s) = Some a" by (auto simp: has_guid_def)
      from in_bag_live [OF ok c(3) a c(2)] obtain cn where cn: "iw_heap w b = Some cn" "it_container cn" "0 \<le> s"
        "s < uint (pr_ContainerSlots (it_proto cn))" "bag_content cn s = Some a" by blast
      from Container_SafeRemove_ok [OF ok c(2,3) cn, of destroy] r(1) Some q B c a show ?thesis
        by (auto simp: SafeRemoveAndRetreiveItemByGuid_def simp del: split_paired_Ex)
    qed
  qed
qed

lemma SafeFullRemoveByGuid_ok:
  assumes ok: "inv_ok w p"
  shows "\<exists>w' r. SafeFullRemoveItemByGuid p g w = Some (w', r) \<and>
    (if r then \<exists>x a. searched x \<and> has_guid w p g x \<and> content w p x = Some a \<and> destroyed_at p a x w w'
     else same_inv p w w' \<and> not_removable w p g)"
proof -
  from place_by_guid_ok [OF ok] obtain r where r: "place_by_guid w p g = Some r"
    "case r of None \<Rightarrow> \<forall>x. searched x \<longrightarrow> \<not> has_guid w p g x | Some q \<Rightarrow> found_place w p g q" by blast
  show ?thesis
  proof (cases r)
    case None
    with r show ?thesis by (auto simp: SafeFullRemoveItemByGuid_def not_removable_def same_inv_refl [OF ok])
  next
    case (Some q)
    obtain s x where q: "q = (s, x)" by (cases q)
    show ?thesis
    proof (cases x)
      case None
      with r(2) Some q have s: "searched (-1, s)" "has_guid w p g (-1, s)" by (simp_all add: found_place_def)
      then have "s < 118" using own_slot_range [of s] by (simp add: searched_def)
      from SafeFullRemove_slot [OF ok this] obtain w' k where k:
        "SafeFullRemoveItemFromSlot p (-1) s w = Some (w', k)"
        "if stuck w p (-1, s) then \<not> k \<and> same_inv p w w'
         else k \<and> (\<exists>a. content w p (-1, s) = Some a \<and> destroyed_at p a (-1, s) w w')" by blast
      have "SafeFullRemoveItemByGuid p g w = Some (w', k)"
        using k(1) r(1) Some q None by (simp add: SafeFullRemoveItemByGuid_def INVENTORY_SLOT_NOT_SET_def)
      moreover have "if k then \<exists>x a. searched x \<and> has_guid w p g x \<and> content w p x = Some a \<and> destroyed_at p a x w w'
          else same_inv p w w' \<and> not_removable w p g"
        using k(2) s unfolding not_removable_def by (cases "stuck w p (-1, s)") (simp_all del: content_slot split_paired_Ex, blast+)
      ultimately show ?thesis by blast
    next
      case B: (Some b)
      with r(2) Some q obtain c where c: "searched (c, s)" "c \<noteq> -1" "slot_content w p c = Some b" "has_guid w p g (c, s)"
        by (auto simp: found_place_def)
      from c(4) obtain a where a: "content w p (c, s) = Some a" by (auto simp: has_guid_def)
      from in_bag_live [OF ok c(3) a c(2)] obtain cn where cn: "iw_heap w b = Some cn" "it_container cn" "0 \<le> s"
        "s < uint (pr_ContainerSlots (it_proto cn))" "bag_content cn s = Some a" by blast
      from Container_SafeFullRemove_ok [OF ok c(2,3) cn] obtain w' where w': "Container_SafeFullRemove b s w = Some (w', True)"
        "destroyed_at p a (c, s) w w'" by blast
      have "SafeFullRemoveItemByGuid p g w = Some (w', True)" using w'(1) r(1) Some q B by (simp add: SafeFullRemoveItemByGuid_def)
      with w'(2) c a show ?thesis by (metis (full_types))
    qed
  qed
qed

end
