(* ===== verification/HS_ItemCount.thy ===== *)
theory HS_ItemCount
  imports HS_ItemTake
begin

text \<open>
  How many items of an entry an inventory holds: \<open>GetItemCount\<close> is the sum of the amounts in the carried
  places, and \<open>RemoveItemAmt\<close> lowers that sum by exactly the amount asked for and touches nothing else.
\<close>

section \<open>A change of a stack\<close>

definition w_stack :: "nat \<Rightarrow> u32 \<Rightarrow> item_world \<Rightarrow> item_world" where
  "w_stack a n = upd_item a (\<lambda>it. it\<lparr> it_stack := n \<rparr>)"

lemma stack_item [simp]:
  "bag_content (it\<lparr> it_stack := n \<rparr>) = bag_content it" "bag_shape (it\<lparr> it_stack := n \<rparr>) = bag_shape it"
  "bag_empty (it\<lparr> it_stack := n \<rparr>) = bag_empty it" "it_core (it\<lparr> it_stack := n \<rparr>) = (it_core it)\<lparr> it_stack := n \<rparr>"
  by (simp_all add: bag_content_def bag_shape_def bag_empty_def it_core_def fun_eq_iff)

lemma w_stack:
  assumes ok: "inv_ok w p"
  shows "content (w_stack a n w) p = content w p" "inv_ok (w_stack a n w) p"
    "core (w_stack a n w) = (core w)(a := map_option (\<lambda>it. it\<lparr> it_stack := n \<rparr>) (core w a))" "iw_next (w_stack a n w) = iw_next w"
proof -
  let ?w = "w_stack a n w"
  note D = inv_okD [OF ok]
  have heap: "iw_heap ?w d = (if d = a then map_option (\<lambda>it. it\<lparr> it_stack := n \<rparr>) (iw_heap w a) else iw_heap w d)" for d
    by (simp add: w_stack_def)
  have live: "iw_heap ?w d = Some it \<Longrightarrow> \<exists>it0. iw_heap w d = Some it0 \<and> bag_content it = bag_content it0 \<and> bag_shape it = bag_shape it0 \<and>
    bag_empty it = bag_empty it0 \<and> it_owner it = it_owner it0 \<and> it_container it = it_container it0 \<and> it_proto it = it_proto it0 \<and>
    it_slot_fields it = it_slot_fields it0" for d it
    by (cases "d = a") (auto simp: heap)
  have inv: "iw_inv ?w = iw_inv w" "iw_next ?w = iw_next w" by (simp_all add: w_stack_def)
  then show "iw_next ?w = iw_next w" by blast
  have sc: "slot_content ?w p s = slot_content w p s" for s by (simp add: slot_content_def inv)
  have "content ?w p (c, s) = content w p (c, s)" for c s
    by (cases "slot_content w p c") (auto simp: content_def sc heap split: option.split)
  then show C: "content ?w p = content w p" by (metis ext surj_pair)
  have g: "guid_at ?w x = guid_at w x" for x by (cases x) (auto simp: guid_at_def heap split: option.split)
  have "heap_shape ?w" using D(1) live unfolding heap_shape_def inv by (metis heap option.map_disc_iff)
  moreover have "inv_lengths ?w p" using D(2) by (simp add: inv_lengths_def inv)
  moreover have "\<exists>it. iw_heap ?w d = Some it \<and> it_owner it = Some p" if "content w p x = Some d" for x d
  proof -
    from placed_live [OF ok that] obtain it where "iw_heap w d = Some it" "it_owner it = Some p" by blast
    then show ?thesis by (cases "d = a") (simp_all add: heap)
  qed
  then have "owned ?w p" unfolding owned_def C by blast
  moreover have "once ?w p" using D(4) by (simp add: once_def C)
  moreover have "flat ?w p" using D(5) live unfolding flat_def C by metis
  moreover have "it_slot_fields en ! nat j = guid_at ?w (bag_content en j)"
    if "slot_content ?w p d = Some e" "iw_heap ?w e = Some en" "it_container en" "0 \<le> j" "j < uint (pr_ContainerSlots (it_proto en))" for d e en j
  proof -
    from live [OF that(2)] obtain e0 where e0: "iw_heap w e = Some e0" "bag_content en = bag_content e0" "it_container en = it_container e0"
      "it_proto en = it_proto e0" "it_slot_fields en = it_slot_fields e0" by blast
    with mirrored_bag [OF D(6), of d e e0 j] that show ?thesis by (simp add: sc g)
  qed
  moreover have "iv_fields (iw_inv ?w p) ! nat t = guid_at ?w (slot_content ?w p t)" if "own_slot t" for t
    using mirrored_slot [OF D(6) that] by (simp add: inv sc g)
  ultimately show "inv_ok ?w p" unfolding inv_ok_def mirrored_def by blast
  show "core ?w = (core w)(a := map_option (\<lambda>it. it\<lparr> it_stack := n \<rparr>) (core w a))"
    by (auto simp: core_def heap fun_eq_iff option.map_comp comp_def)
qed

lemma stack_face: "face (upd_item a (\<lambda>it. it\<lparr> it_stack := n, it_dirty := True \<rparr>) w) = face (w_stack a n w)"
  by (rule face_eqI) (auto simp: w_stack_def norm_item_def option.map_comp comp_def)

section \<open>The sum\<close>

definition counted :: "u32 \<Rightarrow> item \<Rightarrow> item \<Rightarrow> u32" where
  "counted e tested it = (if pr_ItemId (it_proto it) = e \<and> it_wrapped tested = 0 then count_of it else 0)"

lemma counted_core [simp]: "counted e (it_core cn) (it_core it) = counted e cn it"
  by (simp add: counted_def count_of_def)

text \<open>In a slot the wrapping of the item is tested, in a bag that of the bag.\<close>

definition amount_at :: "item_world \<Rightarrow> u32 \<Rightarrow> u32 \<Rightarrow> int \<times> int \<Rightarrow> u32" where
  "amount_at w p e x = (case content w p x of None \<Rightarrow> 0
     | Some a \<Rightarrow> counted e (the (core w (if fst x = -1 then a else the (slot_content w p (fst x))))) (the (core w a)))"

definition slot_places :: "int list \<Rightarrow> (int \<times> int) list" where "slot_places xs = map (Pair (-1)) xs"
definition bag_places :: "int list \<Rightarrow> (int \<times> int) list" where "bag_places xs = concat (map (\<lambda>c. map (Pair c) (slots 0 36)) xs)"

definition carried :: "(int \<times> int) list" where
  "carried = slot_places (slots 0 39) @ bag_places inventory_bags @ slot_places keyring"

definition banked :: "(int \<times> int) list" where
  "banked = slot_places (slots 39 74) @ bag_places bank_bags"

lemma amount_slot:
  assumes "inv_ok w p" "slot_content w p i = Some a" "iw_heap w a = Some it"
  shows "amount_at w p e (-1, i) = counted e it it"
  using assms by (simp add: amount_at_def core_def)

lemma amount_bag:
  assumes "slot_content w p c = Some b" "iw_heap w b = Some cn" "c \<noteq> -1" "bag_content cn j = Some a" "iw_heap w a = Some it"
  shows "amount_at w p e (c, j) = counted e cn it"
  using assms by (simp add: amount_at_def content_bag core_def)

lemma amount_none: "content w p x = None \<Longrightarrow> amount_at w p e x = 0"
  by (simp add: amount_at_def)

lemma sum_slots_content:
  assumes ok: "inv_ok w p" and "\<And>i. i \<in> set xs \<Longrightarrow> 0 \<le> i \<and> i < 118"
  shows "sum_slots w p (\<lambda>it. if pr_ItemId (it_proto it) = e \<and> it_wrapped it = 0 then count_of it else 0) n xs =
    Some (n + sum_list (map (amount_at w p e) (slot_places xs)))"
  using assms(2)
proof (induction xs arbitrary: n)
  case (Cons i xs)
  then have i: "0 \<le> i" "i < 118" by auto
  show ?case
  proof (cases "slot_content w p i")
    case None
    with Cons i show ?thesis by (simp add: sum_slots_def slot_places_def m_pItems_content [OF ok] amount_none)
  next
    case (Some a)
    from slot_live [OF ok Some] obtain it where it: "iw_heap w a = Some it" by blast
    from Some it Cons i amount_slot [OF ok Some it, of e] show ?thesis
      by (simp add: sum_slots_def slot_places_def m_pItems_content [OF ok] counted_def add.assoc split del: if_split)
  qed
qed (simp add: sum_slots_def slot_places_def)

lemma slots_split: "0 \<le> k \<Longrightarrow> k \<le> n \<Longrightarrow> slots 0 n = slots 0 k @ slots k n"
  unfolding slots_def using upto_split1 [of 0 k "n - 1"] by (cases "k = n") auto

lemma sum_bag_content:
  assumes ok: "inv_ok w p" and b: "slot_content w p c = Some b" "iw_heap w b = Some cn" "it_container cn" and c: "c \<noteq> -1"
  shows "foldM (\<lambda>n j. do { y \<leftarrow> GetItem cn j; case y of None \<Rightarrow> Some n
      | Some a \<Rightarrow> do { it \<leftarrow> iw_heap w a; Some (n + (if pr_ItemId (it_proto it) = e \<and> it_wrapped cn = 0 then count_of it else 0)) } }) n xs =
    Some (n + sum_list (map (amount_at w p e) (map (Pair c) xs)))"
proof (induction xs arbitrary: n)
  case (Cons j xs)
  note G = GetItem_content [OF b(3) bag_live [OF ok b(2)]]
  show ?case
  proof (cases "bag_content cn j")
    case None
    with Cons content_bag [OF b(1,2), of j] show ?thesis by (simp add: G amount_none)
  next
    case (Some a)
    with content_bag [OF b(1,2), of j] placed_live [OF ok, of "(c, j)" a] obtain it where it: "iw_heap w a = Some it" by auto
    from Some it Cons amount_bag [OF b(1,2) c Some it, of e] show ?thesis
      by (simp add: G counted_def add.assoc split del: if_split)
  qed
qed simp

lemma sum_list_none: "(\<And>x. x \<in> set xs \<Longrightarrow> f x = 0) \<Longrightarrow> sum_list (map f xs) = (0 :: 'a :: monoid_add)"
  by (induction xs) auto

lemma sum_bags_content:
  assumes ok: "inv_ok w p" and "\<And>i. i \<in> set xs \<Longrightarrow> 0 \<le> i \<and> i < 118"
  shows "sum_bags w p (\<lambda>cn it. if pr_ItemId (it_proto it) = e \<and> it_wrapped cn = 0 then count_of it else 0) n xs =
    Some (n + sum_list (map (amount_at w p e) (bag_places xs)))"
  using assms(2)
proof (induction xs arbitrary: n)
  case (Cons i xs)
  from Cons.prems [of i] have i: "0 \<le> i" "i < 118" "i \<noteq> -1" by simp_all
  have none: "sum_list (map (amount_at w p e) (map (Pair i) ys)) = 0" if "\<And>j. j \<in> set ys \<Longrightarrow> content w p (i, j) = None" for ys
    by (rule sum_list_none) (use that amount_none in auto)
  show ?case
  proof (cases "slot_content w p i")
    case None
    then have "sum_list (map (amount_at w p e) (map (Pair i) (slots 0 36))) = 0" using i by (intro none) (simp add: content_def)
    with Cons i None show ?thesis by (simp add: sum_bags_def bag_places_def m_pItems_content [OF ok])
  next
    case (Some b)
    from slot_live [OF ok Some] obtain cn where cn: "iw_heap w b = Some cn" by blast
    show ?thesis
    proof (cases "it_container cn")
      case False
      then have "sum_list (map (amount_at w p e) (map (Pair i) (slots 0 36))) = 0"
        by (intro none) (simp add: content_bag [OF Some cn] bag_content_def)
      with Cons i Some cn False show ?thesis by (simp add: sum_bags_def bag_places_def m_pItems_content [OF ok])
    next
      case True
      let ?k = "uint (pr_ContainerSlots (it_proto cn))"
      have k: "0 \<le> ?k" "?k \<le> 36" using bag_live [OF ok cn] True by (simp_all add: bag_shape_def)
      have "sum_list (map (amount_at w p e) (map (Pair i) (slots ?k 36))) = 0"
        by (intro none) (simp add: content_bag [OF Some cn] bag_content_def)
      then have "sum_list (map (amount_at w p e) (map (Pair i) (slots 0 36))) = sum_list (map (amount_at w p e) (map (Pair i) (bag_slots cn)))"
        by (simp add: slots_split [OF k] bag_slots_def)
      with Cons i Some cn True sum_bag_content [OF ok Some cn True i(3), of e n "bag_slots cn"] show ?thesis
        by (simp add: sum_bags_def bag_places_def m_pItems_content [OF ok] add.assoc)
    qed
  qed
qed (simp add: sum_bags_def bag_places_def)

lemma slots_append: "a \<le> b \<Longrightarrow> b \<le> c \<Longrightarrow> slots a c = slots a b @ slots b c"
  unfolding slots_def using upto_split1 [of a b "c - 1"] by (cases "b = c") auto

lemma GetItemCount_ok:
  assumes ok: "inv_ok w p"
  shows "GetItemCount w p e False = Some (sum_list (map (amount_at w p e) carried))"
    "GetItemCount w p e True = Some (sum_list (map (amount_at w p e) (carried @ banked)))"
proof -
  have s: "\<And>i. i \<in> set (slots 0 39) \<Longrightarrow> 0 \<le> i \<and> i < 118" "\<And>i. i \<in> set (slots 39 74) \<Longrightarrow> 0 \<le> i \<and> i < 118" by simp_all
  note slot_sum = sum_slots_content [OF ok, where e = e] and bag_sum = sum_bags_content [OF ok, where e = e]
  note S = slot_sum [where xs = "slots 0 39", OF s(1), simplified] slot_sum [where xs = "slots 39 74", OF s(2), simplified] slot_sum [where xs = keyring, OF slot_ranges(1), simplified]
    bag_sum [where xs = inventory_bags, OF slot_ranges(3), simplified] bag_sum [where xs = bank_bags, OF slot_ranges(5), simplified]
  show "GetItemCount w p e False = Some (sum_list (map (amount_at w p e) carried))"
    unfolding GetItemCount_def Let_def INVENTORY_SLOT_ITEM_END_def by (simp add: S carried_def add.assoc)
  show "GetItemCount w p e True = Some (sum_list (map (amount_at w p e) (carried @ banked)))"
    unfolding GetItemCount_def Let_def INVENTORY_SLOT_ITEM_END_def BANK_SLOT_ITEM_START_def BANK_SLOT_BAG_END_def
    by (simp add: S carried_def banked_def add.assoc)
qed

end
