(* ===== verification/HS_ItemRemove.thy ===== *)
theory HS_ItemRemove
  imports HS_ItemCount
begin

text \<open>
  \<open>RemoveItemAmt\<close>: each stack it meets is lowered, destroyed, or destroyed with the loop going on; in the end the
  amounts in the carried places are lower by the amount asked for.
\<close>

section \<open>What one stack gives\<close>

text \<open>The entry is that of items that are no bags and whose stacks are not empty.\<close>

definition simple_entry :: "u32 \<Rightarrow> u32 \<Rightarrow> item_world \<Rightarrow> bool" where
  "simple_entry e p w \<longleftrightarrow> (\<forall>x a it. content w p x = Some a \<longrightarrow> core w a = Some it \<longrightarrow> pr_ItemId (it_proto it) = e \<longrightarrow>
     \<not> it_container it \<and> it_stack it \<noteq> 0)"

definition spared :: "u32 \<Rightarrow> u32 \<Rightarrow> item_world \<Rightarrow> item_world \<Rightarrow> bool" where
  "spared e p w w' \<longleftrightarrow> (\<forall>x a it. content w p x = Some a \<longrightarrow> core w a = Some it \<longrightarrow> pr_ItemId (it_proto it) \<noteq> e \<longrightarrow>
       content w' p x = Some a \<and> core w' a = Some it) \<and>
     (\<forall>x a. content w' p x = Some a \<longrightarrow> content w p x = Some a)"

definition countable :: "u32 \<Rightarrow> u32 \<Rightarrow> item_world \<Rightarrow> bool" where
  "countable e p w \<longleftrightarrow> inv_ok w p \<and> simple_entry e p w"

lemma spared_refl [simp]: "spared e p w w"
  by (simp add: spared_def)

lemma spared_trans: "spared e p w w1 \<Longrightarrow> spared e p w1 w2 \<Longrightarrow> spared e p w w2"
  unfolding spared_def by meson

lemma placed_core: "inv_ok w p \<Longrightarrow> content w p x = Some a \<Longrightarrow> \<exists>it. iw_heap w a = Some it \<and> core w a = Some (it_core it)"
  using placed_live [of w p x a] by (auto simp: core_def)

lemma simple_entryD:
  assumes "countable e p w" "content w p x = Some a" "iw_heap w a = Some it" "pr_ItemId (it_proto it) = e"
  shows "\<not> it_container it" "it_stack it \<noteq> 0"
proof -
  have "core w a = Some (it_core it)" using assms(3) by (simp add: core_def)
  with assms have "\<not> it_container (it_core it) \<and> it_stack (it_core it) \<noteq> 0"
    unfolding countable_def simple_entry_def by (metis it_core_sel(2))
  then show "\<not> it_container it" "it_stack it \<noteq> 0" by simp_all
qed

text \<open>An amount only depends on the item and on the bag it is in.\<close>

lemma amount_cong:
  assumes "inv_ok w p" "content w p y = Some d" "content w' p y = Some d" "core w' d = core w d"
    "\<And>b. fst y \<noteq> -1 \<Longrightarrow> slot_content w p (fst y) = Some b \<Longrightarrow> slot_content w' p (fst y) = Some b \<and>
      map_option it_wrapped (core w' b) = map_option it_wrapped (core w b)"
  shows "amount_at w' p e y = amount_at w p e y"
proof (cases "fst y = -1")
  case False
  with assms(2) obtain b cn where b: "slot_content w p (fst y) = Some b" "iw_heap w b = Some cn"
    by (auto simp: content_def split: option.splits)
  then have cb: "core w b = Some (it_core cn)" by (simp add: core_def)
  with assms(5) [OF False b(1)] obtain k where "core w' b = Some k" "slot_content w' p (fst y) = Some b" "it_wrapped k = it_wrapped cn"
    by auto
  with assms(2-4) False b cb show ?thesis by (simp add: amount_at_def counted_def)
qed (use assms(2-4) in \<open>simp add: amount_at_def\<close>)

lemma bag_of_place:
  assumes "inv_ok w p" "content w p y = Some d" "fst y \<noteq> -1" "slot_content w p (fst y) = Some b"
  shows "\<exists>cn. iw_heap w b = Some cn \<and> it_container cn"
  using in_bag_live [of w p "fst y" b "snd y" d] assms by auto

lemma gone:
  assumes c: "countable e p w" and a: "content w p x = Some a" "iw_heap w a = Some it" "pr_ItemId (it_proto it) = e"
    and d: "destroyed_at p a x w w'"
  shows "countable e p w'" "spared e p w w'" "amount_at w' p e y = (if y = x then 0 else amount_at w p e y)"
proof -
  have ok: "inv_ok w p" using c by (simp add: countable_def)
  have D: "inv_ok w' p" "content w' p = (content w p)(x := None)" "core w' = (core w)(a := None)"
    using d by (simp_all add: destroyed_at_def)
  have ca: "core w a = Some (it_core it)" using a(2) by (simp add: core_def)
  have nc: "\<not> it_container it" by (rule simple_entryD [OF c a])
  have other: "k \<noteq> a" if "content w p z = Some k" "z \<noteq> x" for z k using placed_once [OF ok a(1), of z] that by auto
  have placed: "content w p z = Some k \<and> core w' k = core w k \<and> z \<noteq> x" if "content w' p z = Some k" for z k
    using that other [of z k] unfolding D by (auto split: if_splits)
  have "simple_entry e p w'"
    using c placed unfolding countable_def simple_entry_def by metis
  with D(1) show "countable e p w'" by (simp add: countable_def)
  have "content w' p z = Some k \<and> core w' k = Some ik"
    if "content w p z = Some k" "core w k = Some ik" "pr_ItemId (it_proto ik) \<noteq> e" for z k ik
  proof -
    have "z \<noteq> x" using that a ca by auto
    with that other [of z k] show ?thesis by (simp add: D)
  qed
  with placed show "spared e p w w'" unfolding spared_def by blast
  show "amount_at w' p e y = (if y = x then 0 else amount_at w p e y)"
  proof (cases "y = x \<or> content w p y = None")
    case True
    then show ?thesis by (auto simp: amount_at_def D)
  next
    case False
    then obtain k where k: "content w p y = Some k" "y \<noteq> x" by blast
    have "amount_at w' p e y = amount_at w p e y"
    proof (rule amount_cong [OF ok k(1)])
      show "content w' p y = Some k" "core w' k = core w k" using k other [OF k] by (simp_all add: D)
      fix b assume b: "fst y \<noteq> -1" "slot_content w p (fst y) = Some b"
      from bag_of_place [OF ok k(1) b] nc a(2) have "b \<noteq> a" by auto
      moreover have "(-1, fst y) \<noteq> x" using b(2) a(1) \<open>b \<noteq> a\<close> by auto
      ultimately have "content w' p (-1, fst y) = Some b" "core w' b = core w b" using b(2) by (simp_all add: D)
      then show "slot_content w' p (fst y) = Some b \<and> map_option it_wrapped (core w' b) = map_option it_wrapped (core w b)" by simp
    qed
    with k show ?thesis by simp
  qed
qed

lemma reduced:
  assumes c: "countable e p w" and a: "content w p x = Some a" "iw_heap w a = Some it" "pr_ItemId (it_proto it) = e"
    and f: "face w' = face (w_stack a n w)" and n: "n \<noteq> 0"
  shows "countable e p w'" "spared e p w w'"
    "amount_at w' p e y = (if y = x then (if amount_at w p e x = 0 then 0 else n) else amount_at w p e y)"
proof -
  have ok: "inv_ok w p" using c by (simp add: countable_def)
  have ca: "core w a = Some (it_core it)" using a(2) by (simp add: core_def)
  have D: "inv_ok w' p" "content w' p = content w p" "core w' = (core w)(a \<mapsto> (it_core it)\<lparr> it_stack := n \<rparr>)" "slot_content w' p = slot_content w p"
  proof -
    show "inv_ok w' p" "content w' p = content w p" "core w' = (core w)(a \<mapsto> (it_core it)\<lparr> it_stack := n \<rparr>)"
      using face_norm(1,2) [OF f] inv_ok_face [OF f, of p] w_stack [OF ok, of a n] ca by simp_all
    show "slot_content w' p = slot_content w p" using face_norm(5) [OF f] by (simp add: fun_eq_iff w_stack_def)
  qed
  have "\<not> it_container ik \<and> it_stack ik \<noteq> 0" if "content w p z = Some k" "core w' k = Some ik" "pr_ItemId (it_proto ik) = e" for z k ik
  proof (cases "k = a")
    case True
    with that D(3) n simple_entryD [OF c a] show ?thesis by auto
  next
    case False
    with that D(3) c show ?thesis unfolding countable_def simple_entry_def by (metis fun_upd_other)
  qed
  then have "simple_entry e p w'" unfolding simple_entry_def D(2) by blast
  with D(1) show "countable e p w'" by (simp add: countable_def)
  have "core w' k = Some ik" if "core w k = Some ik" "pr_ItemId (it_proto ik) \<noteq> e" for k ik
    using that a ca by (auto simp: D)
  then show "spared e p w w'" unfolding spared_def D(2) by blast
  show "amount_at w' p e y = (if y = x then (if amount_at w p e x = 0 then 0 else n) else amount_at w p e y)"
  proof (cases "content w p y")
    case None
    with a(1) show ?thesis by (auto simp: amount_at_def D)
  next
    case (Some k)
    show ?thesis
    proof (cases "y = x")
      case True
      show ?thesis
      proof (cases "fst x = -1")
        case False
        from a(1) False obtain b cn where b: "slot_content w p (fst x) = Some b" "iw_heap w b = Some cn"
          by (auto simp: content_def split: option.splits)
        from bag_of_place [OF ok a(1) False b(1)] simple_entryD(1) [OF c a] a(2) have "b \<noteq> a" by auto
        then have "core w' b = Some (it_core cn)" "core w b = Some (it_core cn)" using b(2) by (simp_all add: D core_def)
        then show ?thesis
          using a ca b True False n simple_entryD(2) [OF c a] by (simp add: amount_at_def D counted_def count_of_def)
      qed (use a ca True n simple_entryD(2) [OF c a] in \<open>simp add: amount_at_def D counted_def count_of_def\<close>)
    next
      case False
      then have ka: "k \<noteq> a" using placed_once [OF ok a(1), of y] Some by auto
      have "amount_at w' p e y = amount_at w p e y"
        by (rule amount_cong [OF ok Some]) (use Some ka ca in \<open>simp_all add: D\<close>)
      with False show ?thesis by simp
    qed
  qed
qed

section \<open>Loops that take\<close>

definition in_list :: "item_world \<Rightarrow> u32 \<Rightarrow> u32 \<Rightarrow> (int \<times> int) list \<Rightarrow> nat" where
  "in_list w p e ys = sum_list (map (\<lambda>x. unat (amount_at w p e x)) ys)"

text \<open>
  A loop over the places \<open>ys\<close> that is to take \<open>amt\<close>: it has emptied them of the entry and goes on with what is
  left, or it has taken everything and returns.
\<close>

definition taken_amount :: "u32 \<Rightarrow> u32 \<Rightarrow> (int \<times> int) list \<Rightarrow> item_world \<times> u32 \<Rightarrow> item_world \<times> u32 + item_world \<times> u32 \<Rightarrow> bool" where
  "taken_amount e p ys st r \<longleftrightarrow> (case st of (w, amt) \<Rightarrow> (case r of
     Inr (w', rest) \<Rightarrow> countable e p w' \<and> spared e p w w' \<and> rest \<noteq> 0 \<and> unat amt = unat rest + in_list w p e ys \<and>
       (\<forall>y. amount_at w' p e y = (if y \<in> set ys then 0 else amount_at w p e y))
   | Inl (w', ret) \<Rightarrow> countable e p w' \<and> spared e p w w' \<and> ret \<noteq> 0 \<and> ret \<le> amt \<and>
       unat amt + in_list w' p e ys = in_list w p e ys \<and>
       (\<forall>y. y \<notin> set ys \<longrightarrow> amount_at w' p e y = amount_at w p e y)))"

lemma in_list_append [simp]: "in_list w p e (ys @ zs) = in_list w p e ys + in_list w p e zs"
  by (simp add: in_list_def)

lemma in_list_Nil [simp]: "in_list w p e [] = 0" "in_list w p e [y] = unat (amount_at w p e y)"
  by (simp_all add: in_list_def)

lemma in_list_cong: "(\<And>y. y \<in> set ys \<Longrightarrow> amount_at w' p e y = amount_at w p e y) \<Longrightarrow> in_list w' p e ys = in_list w p e ys"
  unfolding in_list_def by (induction ys) auto

lemma in_list_zero: "(\<And>y. y \<in> set ys \<Longrightarrow> amount_at w p e y = 0) \<Longrightarrow> in_list w p e ys = 0"
  unfolding in_list_def by (induction ys) auto

lemma taken_append:
  assumes 1: "taken_amount e p ys st (Inr st1)" and 2: "taken_amount e p zs st1 r" and d: "set ys \<inter> set zs = {}"
  shows "taken_amount e p (ys @ zs) st r"
proof -
  obtain w amt where st: "st = (w, amt)" by (cases st)
  obtain w1 amt1 where st1: "st1 = (w1, amt1)" by (cases st1)
  have A: "countable e p w1" "spared e p w w1" "amt1 \<noteq> 0" "unat amt = unat amt1 + in_list w p e ys"
    "\<And>y. amount_at w1 p e y = (if y \<in> set ys then 0 else amount_at w p e y)"
    using 1 unfolding taken_amount_def st st1 by (simp_all del: split_paired_All)
  have zs: "in_list w1 p e zs = in_list w p e zs" by (rule in_list_cong) (use A(5) d in auto)
  show ?thesis
  proof (cases r)
    case (Inr st2)
    obtain w2 rest where st2: "st2 = (w2, rest)" by (cases st2)
    have B: "countable e p w2" "spared e p w1 w2" "rest \<noteq> 0" "unat amt1 = unat rest + in_list w1 p e zs"
      "\<And>y. amount_at w2 p e y = (if y \<in> set zs then 0 else amount_at w1 p e y)"
      using 2 unfolding taken_amount_def Inr st1 st2 by (simp_all del: split_paired_All)
    show ?thesis
      unfolding taken_amount_def st Inr st2 using A B zs spared_trans [OF A(2) B(2)] by simp
  next
    case (Inl st2)
    obtain w2 ret where st2: "st2 = (w2, ret)" by (cases st2)
    have B: "countable e p w2" "spared e p w1 w2" "ret \<noteq> 0" "ret \<le> amt1" "unat amt1 + in_list w2 p e zs = in_list w1 p e zs"
      "\<And>y. y \<notin> set zs \<Longrightarrow> amount_at w2 p e y = amount_at w1 p e y"
      using 2 unfolding taken_amount_def Inl st1 st2 by (simp_all del: split_paired_All)
    have "in_list w2 p e ys = 0"
    proof (rule in_list_zero)
      fix y assume "y \<in> set ys"
      with d have "y \<notin> set zs" by blast
      with B(6) [of y] A(5) [of y] \<open>y \<in> set ys\<close> show "amount_at w2 p e y = 0" by simp
    qed
    moreover have "ret \<le> amt" using B(4) A(4) by (simp add: word_le_nat_alt)
    ultimately show ?thesis
      unfolding taken_amount_def st Inl st2 using A B zs spared_trans [OF A(2) B(2)] by simp
  qed
qed

lemma taken_stop:
  assumes "taken_amount e p ys st (Inl r)" "set ys \<inter> set zs = {}"
  shows "taken_amount e p (ys @ zs) st (Inl r)"
proof -
  obtain w amt where st: "st = (w, amt)" by (cases st)
  obtain w' ret where r: "r = (w', ret)" by (cases r)
  have "in_list w' p e zs = in_list w p e zs"
    by (rule in_list_cong) (use assms in \<open>auto simp: taken_amount_def st r\<close>)
  with assms(1) show ?thesis by (simp add: taken_amount_def st r)
qed

lemma taken_none:
  assumes "countable e p w" "amt \<noteq> 0" "\<And>y. y \<in> set ys \<Longrightarrow> amount_at w p e y = 0"
  shows "taken_amount e p ys (w, amt) (Inr (w, amt))"
  using assms in_list_zero [of ys w p e] by (simp add: taken_amount_def)

lemma take_loop:
  assumes step: "\<And>i st. i \<in> set xs \<Longrightarrow> P st \<Longrightarrow> \<exists>r. f i st = Some r \<and> taken_amount e p (pl i) st r"
    and inv: "\<And>st st' ys. P st \<Longrightarrow> taken_amount e p ys st (Inr st') \<Longrightarrow> P st'"
    and P: "P st" and d: "distinct (concat (map pl xs))" and start: "\<And>st. P st \<Longrightarrow> countable e p (fst st) \<and> snd st \<noteq> 0"
  shows "\<exists>r. for_return f xs st = Some r \<and> taken_amount e p (concat (map pl xs)) st r"
  using step P d
proof (induction xs arbitrary: st)
  case Nil
  then show ?case using taken_none [of e p "fst st" "snd st" "[]"] start [of st] by simp
next
  case (Cons i xs)
  from Cons.prems(1) [of i st] Cons.prems(2) obtain r where r: "f i st = Some r" "taken_amount e p (pl i) st r" by auto
  have disj: "set (pl i) \<inter> set (concat (map pl xs)) = {}" using Cons.prems(3) by simp
  show ?case
  proof (cases r)
    case (Inl k)
    with r(2) have "taken_amount e p (pl i @ concat (map pl xs)) st (Inl k)" using taken_stop disj by blast
    with r(1) Inl show ?thesis by simp
  next
    case (Inr st1)
    have "P st1" by (rule inv [OF Cons.prems(2) r(2) [unfolded Inr]])
    from Cons.IH [OF Cons.prems(1) this] Cons.prems(3) obtain k where k: "for_return f xs st1 = Some k"
      "taken_amount e p (concat (map pl xs)) st1 k" by auto
    with taken_append [OF r(2) [unfolded Inr] k(2) disj] r(1) Inr show ?thesis by simp
  qed
qed

section \<open>\<open>RemoveItemAmt\<close>\<close>

lemma no_container_empty: "\<not> it_container it \<Longrightarrow> bag_empty it"
  by (simp add: bag_empty_def bag_content_def)

lemma take_stack_ok:
  assumes c: "countable e p w" and amt: "amt \<noteq> 0" and a: "content w p (c, s) = Some a" "iw_heap w a = Some it" "pr_ItemId (it_proto it) = e"
    and k: "amount_at w p e (c, s) = it_stack it" and b: "c < 118" "s < 118"
  shows "\<exists>r. take_stack p c s a (w, amt) = Some r \<and> taken_amount e p [(c, s)] (w, amt) r"
proof -
  note S = simple_entryD [OF c a]
  have ok: "inv_ok w p" using c by (simp add: countable_def)
  have "\<not> stuck w p (c, s)" using a no_container_empty [OF S(1)] by (simp add: stuck_def del: content_slot)
  with SafeFullRemove_ok [OF ok b(2,1)] a(1) obtain w1 where w1: "SafeFullRemoveItemFromSlot p c s w = Some (w1, True)"
    "destroyed_at p a (c, s) w w1" by fastforce
  note G = gone [OF c a w1(2)]
  consider (more) "amt < it_stack it" | (all) "it_stack it = amt" | (less) "it_stack it < amt" by fastforce
  then show ?thesis
  proof cases
    case more
    let ?n = "it_stack it - amt"
    have n: "unat amt + unat ?n = unat (it_stack it)" using more by (simp add: unat_sub word_less_nat_alt less_imp_le)
    then have "?n \<noteq> 0" using more by (metis add.right_neutral unat_0 word_less_nat_alt nat_neq_iff)
    define w2 where "w2 = upd_item a (\<lambda>it. it\<lparr> it_stack := it_stack it - amt, it_dirty := True \<rparr>) w"
    have "w2 = upd_item a (\<lambda>i. i\<lparr> it_stack := ?n, it_dirty := True \<rparr>) w"
      by (simp add: w2_def upd_item_def a(2))
    then have f: "face w2 = face (w_stack a ?n w)" by (simp add: stack_face)
    note R = reduced [OF c a f \<open>?n \<noteq> 0\<close>]
    have "taken_amount e p [(c, s)] (w, amt) (Inl (w2, amt))"
      unfolding taken_amount_def using R(1,2) amt k S(2) n by (simp add: R(3) del: split_paired_All) 
    with more a(2) show ?thesis by (simp add: take_stack_def w2_def)
  next
    case all
    have "taken_amount e p [(c, s)] (w, amt) (Inl (w1, amt))"
      unfolding taken_amount_def using G(1,2) amt k all by (simp add: G(3))
    with all a(2) w1(1) show ?thesis by (simp add: take_stack_def)
  next
    case less
    have n: "unat amt = unat (amt - it_stack it) + unat (it_stack it)" using less by (simp add: unat_sub word_less_nat_alt less_imp_le)
    then have "amt - it_stack it \<noteq> 0" using less by (metis add.left_neutral unat_0 word_less_nat_alt nat_neq_iff)
    then have "taken_amount e p [(c, s)] (w, amt) (Inr (w1, amt - it_stack it))"
      unfolding taken_amount_def using G(1,2) k n by (simp add: G(3))
    with less a(2) w1(1) show ?thesis by (auto simp: take_stack_def)
  qed
qed

lemma counted_stack: "pr_ItemId (it_proto it) = e \<Longrightarrow> it_wrapped cn = 0 \<Longrightarrow> it_stack it \<noteq> 0 \<Longrightarrow> counted e cn it = it_stack it"
  by (simp add: counted_def count_of_def)

lemma take_here_ok:
  assumes c: "countable e p w" and amt: "amt \<noteq> 0" and i: "0 \<le> i" "i < 118"
  shows "\<exists>r. take_here p e tb i (w, amt) = Some r \<and> taken_amount e p [(-1, i)] (w, amt) r"
proof -
  have ok: "inv_ok w p" using c by (simp add: countable_def)
  have none: "taken_amount e p [(-1, i)] (w, amt) (Inr (w, amt))" if "amount_at w p e (-1, i) = 0"
    using taken_none [OF c amt, of "[(-1, i)]"] that by simp
  show ?thesis
  proof (cases "slot_content w p i")
    case None
    with none i show ?thesis by (simp add: take_here_def m_pItems_content [OF ok] amount_none)
  next
    case (Some a)
    from slot_live [OF ok Some] obtain it where it: "iw_heap w a = Some it" by blast
    note A = amount_slot [OF ok Some it, of e]
    show ?thesis
    proof (cases "pr_ItemId (it_proto it) = e \<and> it_wrapped it = 0")
      case True
      have at: "content w p (-1, i) = Some a" using Some by simp
      note S = simple_entryD [OF c at it conjunct1 [OF True]]
      have full: "full_bag it = Some False" using full_bag_content [OF bag_live [OF ok it]] no_container_empty [OF S(1)] by simp
      from take_stack_ok [OF c amt at it] True A counted_stack [of it e it] S(2) i
      obtain r where "take_stack p (-1) i a (w, amt) = Some r" "taken_amount e p [(-1, i)] (w, amt) r" by auto
      with Some it True i full show ?thesis by (simp add: take_here_def m_pItems_content [OF ok] INVENTORY_SLOT_NOT_SET_def)
    next
      case False
      with A none have "taken_amount e p [(-1, i)] (w, amt) (Inr (w, amt))" by (auto simp: counted_def)
      with Some it False i show ?thesis by (auto simp: take_here_def m_pItems_content [OF ok])
    qed
  qed
qed

text \<open>A bag is not of the entry, so it stays while its contents are taken.\<close>

definition bag_stays :: "u32 \<Rightarrow> u32 \<Rightarrow> int \<Rightarrow> nat \<Rightarrow> item \<Rightarrow> item_world \<times> u32 \<Rightarrow> bool" where
  "bag_stays e p c b cn st \<longleftrightarrow> (case st of (w, amt) \<Rightarrow> countable e p w \<and> amt \<noteq> 0 \<and> slot_content w p c = Some b \<and>
     core w b = Some (it_core cn))"

lemma bag_stays_inv:
  assumes "bag_stays e p c b cn st" "taken_amount e p ys st (Inr st')" "it_container cn"
  shows "bag_stays e p c b cn st'"
proof -
  obtain w amt where st: "st = (w, amt)" by (cases st)
  obtain w1 rest where st1: "st' = (w1, rest)" by (cases st')
  have A: "countable e p w" "slot_content w p c = Some b" "core w b = Some (it_core cn)" using assms(1) by (simp_all add: bag_stays_def st)
  have B: "countable e p w1" "spared e p w w1" "rest \<noteq> 0" using assms(2) by (simp_all add: taken_amount_def st st1)
  have at: "content w p (-1, c) = Some b" using A(2) by simp
  have "pr_ItemId (it_proto (it_core cn)) \<noteq> e"
    using A(1) assms(3) at A(3) unfolding countable_def simple_entry_def by (metis it_core_sel(3))
  with B(2) at A(3) have "content w1 p (-1, c) = Some b" "core w1 b = Some (it_core cn)" unfolding spared_def by blast+
  with B show ?thesis by (simp add: bag_stays_def st1)
qed

lemma map_pairs: "concat (map (\<lambda>j. [(c, j)]) xs) = map (Pair c) xs"
  by (induction xs) auto

lemma take_in_bag_ok:
  assumes c: "countable e p w" and amt: "amt \<noteq> 0" and i: "0 \<le> i" "i < 118"
  shows "\<exists>r. take_in_bag p e i (w, amt) = Some r \<and> taken_amount e p (map (Pair i) (slots 0 36)) (w, amt) r"
proof -
  have ok: "inv_ok w p" using c by (simp add: countable_def)
  have i1: "i \<noteq> -1" using i by simp
  have none: "taken_amount e p (map (Pair i) ys) (w, amt) (Inr (w, amt))" if "\<And>j. j \<in> set ys \<Longrightarrow> content w p (i, j) = None" for ys
    by (rule taken_none [OF c amt]) (use that amount_none in auto)
  show ?thesis
  proof (cases "slot_content w p i")
    case None
    with none i i1 show ?thesis by (simp add: take_in_bag_def m_pItems_content [OF ok] content_def)
  next
    case (Some b)
    from slot_live [OF ok Some] obtain cn where cn: "iw_heap w b = Some cn" by blast
    show ?thesis
    proof (cases "it_container cn")
      case False
      with none [of "slots 0 36"] Some cn i show ?thesis
        by (simp add: take_in_bag_def m_pItems_content [OF ok] content_bag [OF Some cn] bag_content_def)
    next
      case True
      let ?k = "uint (pr_ContainerSlots (it_proto cn))"
      have k: "0 \<le> ?k" "?k \<le> 36" using bag_live [OF ok cn] True by (simp_all add: bag_shape_def)
      let ?f = "\<lambda>j (w, amt). do { cn \<leftarrow> iw_heap w b; y \<leftarrow> GetItem cn j;
        case y of None \<Rightarrow> Some (Inr (w, amt))
        | Some a \<Rightarrow> do { it \<leftarrow> iw_heap w a;
            if pr_ItemId (it_proto it) = e \<and> it_wrapped cn = 0 then take_stack p i j a (w, amt) else Some (Inr (w, amt)) } }"
      have "\<exists>r. for_return ?f (bag_slots cn) (w, amt) = Some r \<and>
        taken_amount e p (concat (map (\<lambda>j. [(i, j)]) (bag_slots cn))) (w, amt) r"
      proof (rule take_loop [where P = "bag_stays e p i b cn"])
        show "bag_stays e p i b cn (w, amt)" using c amt Some cn by (simp add: bag_stays_def core_def)
        show "\<And>st st' ys. bag_stays e p i b cn st \<Longrightarrow> taken_amount e p ys st (Inr st') \<Longrightarrow> bag_stays e p i b cn st'"
          using bag_stays_inv True by blast
        show "distinct (concat (map (\<lambda>j. [(i, j)]) (bag_slots cn)))"
          by (simp add: map_pairs distinct_map inj_on_def bag_slots_def slots_def)
        show "\<And>st. bag_stays e p i b cn st \<Longrightarrow> countable e p (fst st) \<and> snd st \<noteq> 0" by (auto simp: bag_stays_def)
        fix j st assume j: "j \<in> set (bag_slots cn)" and P: "bag_stays e p i b cn st"
        obtain v m where st: "st = (v, m)" by (cases st)
        from P have V: "countable e p v" "m \<noteq> 0" "slot_content v p i = Some b" "core v b = Some (it_core cn)" by (simp_all add: bag_stays_def st)
        have okv: "inv_ok v p" using V(1) by (simp add: countable_def)
        from V(4) obtain vn where vn: "iw_heap v b = Some vn" "it_core vn = it_core cn" by (auto simp: core_def)
        from vn(2) have vc: "it_container vn" "it_wrapped vn = it_wrapped cn" using True by (metis it_core_sel(3), metis it_core_sel(6))
        note G = GetItem_content [OF vc(1) bag_live [OF okv vn(1)]]
        have idle: "amount_at v p e (i, j) = 0 \<Longrightarrow> taken_amount e p [(i, j)] st (Inr (v, m))"
          unfolding st by (rule taken_none [OF V(1,2)]) simp
        show "\<exists>r. ?f j st = Some r \<and> taken_amount e p [(i, j)] st r"
        proof (cases "bag_content vn j")
          case None
          then have "amount_at v p e (i, j) = 0" by (simp add: amount_none content_bag [OF V(3) vn(1)])
          then have "taken_amount e p [(i, j)] st (Inr (v, m))" by (rule idle)
          moreover have "?f j st = Some (Inr (v, m))" using None vn(1) by (simp add: st G)
          ultimately show ?thesis by blast
        next
          case A: (Some a)
          then have at: "content v p (i, j) = Some a" by (simp add: content_bag [OF V(3) vn(1)])
          from placed_live [OF okv at] obtain it where it: "iw_heap v a = Some it" by blast
          note amount = amount_bag [OF V(3) vn(1) i1 A it, of e]
          show ?thesis
          proof (cases "pr_ItemId (it_proto it) = e \<and> it_wrapped vn = 0")
            case True
            have "j < 118" using j k by simp
            with take_stack_ok [OF V(1,2) at it] True amount counted_stack [of it e vn] simple_entryD(2) [OF V(1) at it] i
            obtain r where "take_stack p i j a (v, m) = Some r" "taken_amount e p [(i, j)] (v, m) r" by auto
            with A it True st vn(1) show ?thesis by (simp add: G)
          next
            case False
            with amount have "amount_at v p e (i, j) = 0" by (auto simp: counted_def)
            then have "taken_amount e p [(i, j)] (v, m) (Inr (v, m))" using idle st by simp
            with A it False st vn(1) show ?thesis by (auto simp: G)
          qed
        qed
      qed
      then obtain r where r: "for_return ?f (bag_slots cn) (w, amt) = Some r" "taken_amount e p (map (Pair i) (slots 0 ?k)) (w, amt) r"
        by (auto simp: map_pairs bag_slots_def)
      have split: "map (Pair i) (slots 0 36) = map (Pair i) (slots 0 ?k) @ map (Pair i) (slots ?k 36)" by (simp add: slots_split [OF k])
      have disj: "set (map (Pair i) (slots 0 ?k)) \<inter> set (map (Pair i) (slots ?k 36)) = {}" by auto
      have "taken_amount e p (map (Pair i) (slots 0 36)) (w, amt) r"
      proof (cases r)
        case (Inl q)
        with r(2) taken_stop [OF _ disj] show ?thesis unfolding split by blast
      next
        case (Inr q)
        obtain w1 rest where q: "q = (w1, rest)" by (cases q)
        have A: "countable e p w1" "rest \<noteq> 0" "\<And>y. amount_at w1 p e y = (if y \<in> set (map (Pair i) (slots 0 ?k)) then 0 else amount_at w p e y)"
          using r(2) unfolding taken_amount_def Inr q by (simp_all del: split_paired_All)
        have "taken_amount e p (map (Pair i) (slots ?k 36)) (w1, rest) (Inr (w1, rest))"
        proof (rule taken_none [OF A(1,2)])
          fix y assume "y \<in> set (map (Pair i) (slots ?k 36))"
          then have "content w p y = None" by (auto simp: content_bag [OF Some cn] bag_content_def)
          then show "amount_at w1 p e y = 0" by (simp add: A(3) amount_none)
        qed
        with taken_append [OF r(2) [unfolded Inr q] _ disj] show ?thesis unfolding split Inr q by blast
      qed
      with r(1) Some cn True i show ?thesis by (simp add: take_in_bag_def m_pItems_content [OF ok])
    qed
  qed
qed

lemma distinct_carried: "distinct carried"
  by (simp add: carried_def slot_places_def bag_places_def distinct_map inj_on_def slots_def inventory_bags_def keyring_def item_consts)
    (auto simp: upto.simps)

lemma concat_singles: "concat (map (\<lambda>i. [f i]) xs) = map f xs"
  by (induction xs) auto

lemma unat_sum_list: "(sum_list (map f xs) :: 32 word) = word_of_nat (sum_list (map (\<lambda>x. unat (f x)) xs))"
  by (induction xs) simp_all

text \<open>The loops of \<open>RemoveItemAmt\<close>, and one behind another.\<close>

definition ready :: "u32 \<Rightarrow> u32 \<Rightarrow> item_world \<times> u32 \<Rightarrow> bool" where
  "ready e p st \<longleftrightarrow> countable e p (fst st) \<and> snd st \<noteq> 0"

lemma ready_inv: "taken_amount e p ys st (Inr st') \<Longrightarrow> ready e p st'"
  by (cases st; cases st') (simp add: taken_amount_def ready_def)

lemma take_here_loop:
  assumes "ready e p st" "\<And>i. i \<in> set xs \<Longrightarrow> 0 \<le> i \<and> i < 118" "distinct xs"
  shows "\<exists>r. for_return (take_here p e tb) xs st = Some r \<and> taken_amount e p (slot_places xs) st r"
proof -
  have "\<exists>r. for_return (take_here p e tb) xs st = Some r \<and> taken_amount e p (concat (map (\<lambda>i. [(-1, i)]) xs)) st r"
  proof (rule take_loop [where P = "ready e p"])
    fix i st assume i: "i \<in> set xs" and r: "ready e p st"
    obtain w amt where st: "st = (w, amt)" by (cases st)
    from r assms(2) [OF i] show "\<exists>r. take_here p e tb i st = Some r \<and> taken_amount e p [(-1, i)] st r"
      unfolding st ready_def by (intro take_here_ok) simp_all
  next
    show "distinct (concat (map (\<lambda>i. [(-1, i)]) xs))" using assms(3) by (simp add: concat_singles distinct_map inj_on_def)
  qed (use assms(1) ready_inv in \<open>blast, blast, simp add: ready_def\<close>)
  then show ?thesis by (simp add: concat_singles slot_places_def)
qed

lemma take_bag_loop:
  assumes "ready e p st"
  shows "\<exists>r. for_return (take_in_bag p e) inventory_bags st = Some r \<and> taken_amount e p (bag_places inventory_bags) st r"
  unfolding bag_places_def
proof (rule take_loop [where P = "ready e p"])
  fix i st assume i: "i \<in> set inventory_bags" and r: "ready e p st"
  obtain w amt where st: "st = (w, amt)" by (cases st)
  from r slot_ranges(3) [OF i] show "\<exists>r. take_in_bag p e i st = Some r \<and> taken_amount e p (map (Pair i) (slots 0 36)) st r"
    unfolding st ready_def by (intro take_in_bag_ok) simp_all
next
  show "distinct (concat (map (\<lambda>c. map (Pair c) (slots 0 36)) inventory_bags))"
    using distinct_carried by (simp add: carried_def bag_places_def)
qed (use assms ready_inv in \<open>blast, blast, simp add: ready_def\<close>)

lemma take_seq:
  assumes "\<exists>r. f = Some r \<and> taken_amount e p ys st r" "\<And>st'. ready e p st' \<Longrightarrow> \<exists>r. g st' = Some r \<and> taken_amount e p zs st' r"
    "distinct (ys @ zs)"
  shows "\<exists>r. seq_loop f g = Some r \<and> taken_amount e p (ys @ zs) st r"
proof -
  from assms(3) have d: "set ys \<inter> set zs = {}" by simp
  from assms(1) obtain r where r: "f = Some r" "taken_amount e p ys st r" by blast
  show ?thesis
  proof (cases r)
    case (Inl k)
    with r taken_stop [OF _ d] show ?thesis by (auto simp: seq_loop_def)
  next
    case (Inr st1)
    with r have "ready e p st1" using ready_inv by blast
    with assms(2) obtain k where k: "g st1 = Some k" "taken_amount e p zs st1 k" by blast
    with taken_append [OF r(2) [unfolded Inr] k(2) d] r(1) Inr show ?thesis by (auto simp: seq_loop_def)
  qed
qed

lemma RemoveItemAmt_ok:
  assumes ok: "inv_ok w p" and simple: "simple_entry e p w" and n: "GetItemCount w p e False = Some n" and amt: "0 < amt"
  shows "\<exists>w' r. RemoveItemAmt p e amt w = Some (w', r) \<and>
    (if n < amt then w' = w \<and> r = 0
     else 0 < r \<and> r \<le> amt \<and> inv_ok w' p \<and> GetItemCount w' p e False = Some (n - amt) \<and> spared e p w w')"
proof (cases "n < amt")
  case True
  then show ?thesis by (simp add: RemoveItemAmt_def n)
next
  case False
  have c: "countable e p w" using ok simple by (simp add: countable_def)
  have nz: "amt \<noteq> 0" using amt by auto
  have dist: "distinct (slot_places (slots 0 39) @ bag_places inventory_bags @ slot_places keyring)"
    "distinct (bag_places inventory_bags @ slot_places keyring)" using distinct_carried by (simp_all add: carried_def)
  have dk: "distinct keyring" "distinct (slots 0 39)" by (simp_all add: keyring_def slots_def)
  have "\<exists>r. seq_loop (for_return (take_here p e True) (slots 0 39) (w, amt))
      (\<lambda>st. seq_loop (for_return (take_in_bag p e) inventory_bags st) (for_return (take_here p e False) keyring)) = Some r \<and>
    taken_amount e p carried (w, amt) r"
    unfolding carried_def
  proof (rule take_seq [OF take_here_loop _ dist(1)])
    show "ready e p (w, amt)" using c nz by (simp add: ready_def)
    fix st' assume "ready e p st'"
    then show "\<exists>r. seq_loop (for_return (take_in_bag p e) inventory_bags st') (for_return (take_here p e False) keyring) = Some r \<and>
        taken_amount e p (bag_places inventory_bags @ slot_places keyring) st' r"
      by (rule take_seq [OF take_bag_loop _ dist(2)]) (use take_here_loop slot_ranges(1) dk(1) in blast)
  qed (use dk(2) in simp_all)
  then obtain r where r: "seq_loop (for_return (take_here p e True) (slots 0 39) (w, amt))
      (\<lambda>st. seq_loop (for_return (take_in_bag p e) inventory_bags st) (for_return (take_here p e False) keyring)) = Some r"
    "taken_amount e p carried (w, amt) r" by blast
  have count: "GetItemCount v p e False = Some (word_of_nat (in_list v p e carried))" if "inv_ok v p" for v
    using GetItemCount_ok(1) [OF that] unat_sum_list unfolding in_list_def by metis
  have nn: "n = word_of_nat (in_list w p e carried)" using n count [OF ok] by simp
  have large: "unat amt \<le> in_list w p e carried"
  proof -
    have "unat n \<le> in_list w p e carried" by (simp add: nn unat_of_nat)
    with False show ?thesis by (simp add: not_less word_le_nat_alt)
  qed
  show ?thesis
  proof (cases r)
    case (Inr q)
    obtain v rest where q: "q = (v, rest)" by (cases q)
    have "rest \<noteq> 0" "unat amt = unat rest + in_list w p e carried"
      using r(2) by (simp_all add: taken_amount_def Inr q)
    with large have False by (simp add: unat_eq_zero)
    then show ?thesis ..
  next
    case (Inl q)
    obtain v ret where q: "q = (v, ret)" by (cases q)
    have V: "countable e p v" "spared e p w v" "ret \<noteq> 0" "ret \<le> amt" "unat amt + in_list v p e carried = in_list w p e carried"
      using r(2) by (simp_all add: taken_amount_def Inl q)
    have "(word_of_nat (unat amt + in_list v p e carried) :: u32) = n" using V(5) nn by simp
    then have "word_of_nat (in_list v p e carried) = n - amt" by (simp add: algebra_simps)
    with count [of v] V(1) have "GetItemCount v p e False = Some (n - amt)" "inv_ok v p" by (simp_all add: countable_def)
    moreover have "RemoveItemAmt p e amt w = Some (v, ret)"
      using False n r(1) Inl q by (simp add: RemoveItemAmt_def INVENTORY_SLOT_ITEM_END_def)
    ultimately show ?thesis using False V by (auto simp: word_gt_0)
  qed
qed

end
