(* ===== verification/HS_ItemSwap.thy ===== *)
theory HS_ItemSwap
  imports HS_ItemRemove
begin

text \<open>
  \<open>SwapItemSlots\<close> for items that are no bags: two stacks of one entry are put together without losing or making
  any, everything else changes places.
\<close>

section \<open>Two slots change their contents\<close>

definition other_place :: "int \<Rightarrow> int \<Rightarrow> int \<times> int \<Rightarrow> int \<times> int" where
  "other_place s d x = (if x = (-1, s) then (-1, d) else if x = (-1, d) then (-1, s) else x)"

lemma other_place_inj: "other_place s d x = other_place s d y \<longleftrightarrow> x = y"
  by (auto simp: other_place_def)

definition w_swap :: "u32 \<Rightarrow> int \<Rightarrow> int \<Rightarrow> item_world \<Rightarrow> item_world" where
  "w_swap p s d w = upd_inv p (\<lambda>v. v\<lparr>
     iv_items := (iv_items v)[nat d := slot_content w p s, nat s := slot_content w p d],
     iv_fields := (iv_fields v)[nat d := guid_at w (slot_content w p s), nat s := guid_at w (slot_content w p d)] \<rparr>) w"

definition no_bag :: "item_world \<Rightarrow> nat option \<Rightarrow> bool" where
  "no_bag w x \<longleftrightarrow> (\<forall>a it. x = Some a \<longrightarrow> iw_heap w a = Some it \<longrightarrow> \<not> it_container it)"

lemma w_swap:
  assumes ok: "inv_ok w p" and r: "0 \<le> s" "s < 118" "0 \<le> d" "d < 118" and ne: "s \<noteq> d"
    and nb: "no_bag w (slot_content w p s)" "no_bag w (slot_content w p d)"
  shows "content (w_swap p s d w) p = content w p \<circ> other_place s d" "inv_ok (w_swap p s d w) p"
    "core (w_swap p s d w) = core w" "iw_next (w_swap p s d w) = iw_next w"
proof -
  let ?w = "w_swap p s d w"
  note D = inv_okD [OF ok]
  have heap: "iw_heap ?w = iw_heap w" by (simp add: w_swap_def)
  have len: "length (iv_items (iw_inv w p)) = 118" "length (iv_fields (iw_inv w p)) = 118" using D(2) by (simp_all add: inv_lengths_def)
  have sc: "slot_content ?w p t = (if t = s then slot_content w p d else if t = d then slot_content w p s else slot_content w p t)" for t
    using r ne len by (auto simp: slot_content_def w_swap_def nth_list_update nat_eq_iff eq_nat_nat_iff)
  have fields: "iv_fields (iw_inv ?w p) = (iv_fields (iw_inv w p))[nat d := guid_at w (slot_content w p s), nat s := guid_at w (slot_content w p d)]"
    by (simp add: w_swap_def)
  have bagless: "content w p (t, j) = None \<and> content ?w p (t, j) = None" if "t = s \<or> t = d" for t j
  proof -
    have "no_bag w (slot_content w p t) \<and> no_bag w (slot_content ?w p t)" using that nb by (auto simp: sc)
    moreover have "t \<noteq> -1" using that r by auto
    ultimately show ?thesis by (auto simp: content_def no_bag_def heap bag_content_def split: option.splits)
  qed
  have "content ?w p (c, j) = content w p (other_place s d (c, j))" for c j
  proof (cases "c = -1")
    case False
    then have "other_place s d (c, j) = (c, j)" by (simp add: other_place_def)
    moreover have "content ?w p (c, j) = content w p (c, j)"
      using bagless [of c j] False by (cases "c = s \<or> c = d") (auto simp: content_def sc heap split: option.split)
    ultimately show ?thesis by simp
  qed (auto simp: other_place_def sc)
  then show C: "content ?w p = content w p \<circ> other_place s d" by (auto simp: fun_eq_iff)
  have g: "guid_at ?w x = guid_at w x" for x unfolding guid_at_def heap ..
  have "heap_shape ?w" using D(1) by (simp add: heap_shape_def heap w_swap_def)
  moreover have "inv_lengths ?w p" using D(2) by (simp add: inv_lengths_def w_swap_def)
  moreover have "owned ?w p" using D(3) unfolding owned_def C heap comp_def by blast
  moreover have "once ?w p" using D(4) other_place_inj unfolding once_def C comp_def by metis
  moreover have "flat ?w p"
  proof -
    have "other_place s d x = x" if "fst x \<noteq> -1" for x using that by (auto simp: other_place_def)
    with D(5) show ?thesis unfolding flat_def C heap comp_def by metis
  qed
  moreover have "iv_fields (iw_inv ?w p) ! nat t = guid_at ?w (slot_content ?w p t)" if "own_slot t" for t
    using own_slot_range [OF that] r ne len mirrored_slot [OF D(6) that]
    by (auto simp: fields g sc nth_list_update)
  moreover have "it_slot_fields en ! nat j = guid_at ?w (bag_content en j)"
    if "slot_content ?w p t = Some e" "iw_heap ?w e = Some en" "it_container en" "0 \<le> j" "j < uint (pr_ContainerSlots (it_proto en))" for t e en j
  proof -
    have "slot_content w p t = Some e \<and> t \<noteq> s \<and> t \<noteq> d"
      using that(1-3) nb by (auto simp: sc no_bag_def heap split: if_splits)
    with mirrored_bag [OF D(6), of t e en j] that(2-5) show ?thesis by (simp add: g heap)
  qed
  ultimately show "inv_ok ?w p" unfolding inv_ok_def mirrored_def by blast
  show "core ?w = core w" by (simp add: core_def heap fun_eq_iff)
  show "iw_next ?w = iw_next w" by (simp add: w_swap_def)
qed

section \<open>The steps of the swap\<close>

definition slots_live :: "item_world \<Rightarrow> u32 \<Rightarrow> bool" where
  "slots_live w p \<longleftrightarrow> inv_lengths w p \<and> (\<forall>i a. m_pItems w p i = Some (Some a) \<longrightarrow> iw_heap w a \<noteq> None)"

lemma m_pItems_face: "face w1 = face w \<Longrightarrow> m_pItems w1 p i = m_pItems w p i"
  by (simp add: m_pItems_def face_def fun_eq_iff)

lemma heap_face: "face w1 = face w \<Longrightarrow> map_option norm_item (iw_heap w1 a) = map_option norm_item (iw_heap w a)"
  by (simp add: face_def fun_eq_iff)

lemma slots_live_face:
  assumes f: "face w1 = face w" and l: "slots_live w p" shows "slots_live w1 p"
proof -
  have "inv_lengths w1 p" using f l by (simp add: slots_live_def inv_lengths_def face_def fun_eq_iff)
  moreover have "iw_heap w1 a \<noteq> None" if "m_pItems w1 p i = Some (Some a)" for i a
  proof -
    from that m_pItems_face [OF f] have "m_pItems w p i = Some (Some a)" by simp
    with l have "iw_heap w a \<noteq> None" unfolding slots_live_def by blast
    with heap_face [OF f, of a] show ?thesis by auto
  qed
  ultimately show ?thesis by (simp add: slots_live_def)
qed

lemma live_slot:
  assumes "slots_live w p" "0 \<le> i" "i < 118"
  shows "\<exists>x. m_pItems w p i = Some x \<and> (x = None \<or> (\<exists>a it. x = Some a \<and> iw_heap w a = Some it))"
proof -
  have "m_pItems w p i = Some (iv_items (iw_inv w p) ! nat i)"
    using assms by (simp add: m_pItems_def slots_live_def inv_lengths_def)
  with assms(1) show ?thesis by (cases "iv_items (iw_inv w p) ! nat i") (fastforce simp: slots_live_def)+
qed

lemma mods_of_slot_ok:
  assumes "slots_live w p" "0 \<le> s" "s < 118"
  shows "\<exists>w'. mods_of_slot p s b w = Some w' \<and> face w' = face w"
  using live_slot [OF assms] by (auto simp: mods_of_slot_def)

lemma look_of_slot_ok:
  assumes "slots_live w p" "0 \<le> s" "s < 118"
  shows "\<exists>w'. look_of_slot p s b w = Some w' \<and> face w' = face w"
proof -
  from live_slot [OF assms] obtain x where x: "m_pItems w p s = Some x" "x = None \<or> (\<exists>a it. x = Some a \<and> iw_heap w a = Some it)" by blast
  then show ?thesis by (auto simp: look_of_slot_def item_emit_def [of "FxVisible p s x"] Let_def face_def fun_eq_iff SoulBind_def item_emit_def norm_item_def)
qed

text \<open>A world that is \<open>w\<close> but for the slots and the fields of one player, and what does not show.\<close>

definition like :: "item_world \<Rightarrow> u32 \<Rightarrow> nat option list \<Rightarrow> u64 list \<Rightarrow> item_world \<Rightarrow> bool" where
  "like w p sl fl v \<longleftrightarrow> face v = face (upd_inv p (\<lambda>v. v\<lparr> iv_items := sl, iv_fields := fl \<rparr>) w)"

lemma like_refl: "like w p (iv_items (iw_inv w p)) (iv_fields (iw_inv w p)) w"
  by (auto simp: like_def face_def fun_eq_iff)

lemma like_face: "like w p sl fl v \<Longrightarrow> face v' = face v \<Longrightarrow> like w p sl fl v'"
  by (simp add: like_def)

lemma likeD:
  assumes "like w p sl fl v"
  shows "iv_items (iw_inv v p) = sl" "iv_fields (iw_inv v p) = fl" "map_option norm_item (iw_heap v a) = map_option norm_item (iw_heap w a)"
  using assms by (auto simp: like_def face_def fun_eq_iff dest: spec [of _ p])

lemma like_item: "like w p sl fl v \<Longrightarrow> iw_heap w a = Some it \<Longrightarrow> \<exists>it'. iw_heap v a = Some it' \<and> norm_item it' = norm_item it"
  using likeD(3) [of w p sl fl v a] by auto

lemma like_upd:
  assumes "like w p sl fl v"
  shows "like w p sl' fl (upd_inv p (\<lambda>x. x\<lparr> iv_items := sl' \<rparr>) v)" "like w p sl fl' (upd_inv p (\<lambda>x. x\<lparr> iv_fields := fl' \<rparr>) v)"
proof -
  have f: "map_option norm_item (iw_heap v a) = map_option norm_item (iw_heap w a)" "iw_next v = iw_next w"
    "iv_items (iw_inv v q) = (if q = p then sl else iv_items (iw_inv w q))" "iv_fields (iw_inv v q) = (if q = p then fl else iv_fields (iw_inv w q))" for a q
    using assms by (auto simp: like_def face_def fun_eq_iff dest: spec [of _ q])
  show "like w p sl' fl (upd_inv p (\<lambda>x. x\<lparr> iv_items := sl' \<rparr>) v)" "like w p sl fl' (upd_inv p (\<lambda>x. x\<lparr> iv_fields := fl' \<rparr>) v)"
    unfolding like_def by (rule face_eqI; simp add: f)+
qed

lemma like_put_slot:
  assumes "like w p sl fl v" "length sl = 118" "0 \<le> s" "s < 118"
  shows "\<exists>v'. put_slot p s x v = Some v' \<and> like w p (sl[nat s := x]) fl v'"
  using assms like_upd(1) [OF assms(1), of "sl[nat s := x]"] by (simp add: put_slot_def likeD)

lemma like_live:
  assumes l: "like w p sl fl v" "length sl = 118" "length fl = 118" and live: "\<And>a. Some a \<in> set sl \<Longrightarrow> iw_heap w a \<noteq> None"
  shows "slots_live v p"
proof -
  have "iw_heap v a \<noteq> None" if "m_pItems v p i = Some (Some a)" for i a
  proof -
    from that l(2) have "Some a \<in> set sl"
      by (auto simp: m_pItems_def mem_at_def likeD [OF l(1)] split: if_splits) (metis nth_mem)
    from live [OF this] likeD(3) [OF l(1), of a] show ?thesis by auto
  qed
  with l show ?thesis by (simp add: slots_live_def inv_lengths_def likeD [OF l(1)])
qed

lemma like_slot: "like w p sl fl v \<Longrightarrow> length sl = 118 \<Longrightarrow> 0 \<le> s \<Longrightarrow> s < 118 \<Longrightarrow> m_pItems v p s = Some (sl ! nat s)"
  by (simp add: m_pItems_def likeD)

lemma like_guid: "like w p sl fl v \<Longrightarrow> guid_at v x = guid_at w x"
  using likeD(3) [of w p sl fl v "the x"] by (cases x) (auto simp: guid_at_def split: option.splits dest!: arg_cong [of _ _ it_guid])

lemma like_field:
  assumes l: "like w p sl fl v" "slots_live v p" "length sl = 118" "length fl = 118" and s: "0 \<le> s" "s < 118"
  shows "\<exists>v'. field_of_slot p s v = Some v' \<and> like w p sl (fl[nat s := guid_at w (sl ! nat s)]) v'"
proof -
  have len: "inv_lengths v p" using l by (simp add: slots_live_def)
  have "field_of_slot p s v = Some (upd_inv p (\<lambda>x. x\<lparr> iv_fields := fl[nat s := guid_at w (sl ! nat s)] \<rparr>) v)"
    using live_slot [OF l(2) s] like_slot [OF l(1,3) s] like_guid [OF l(1), of "sl ! nat s"]
    by (auto simp: field_of_slot_def put_field_face [OF len s] likeD(2) [OF l(1)] guid_at_def)
  with like_upd(2) [OF l(1)] show ?thesis by blast
qed

lemma offhand_ok:
  assumes "slots_live w p"
  shows "\<exists>w'. m_pItems w p EQUIPMENT_SLOT_OFFHAND \<bind> (\<lambda>x. case x of None \<Rightarrow> Some (item_emit (FxDualWield p False) w)
     | Some c \<Rightarrow> iw_heap w c \<bind> (\<lambda>it. Some (item_emit (FxDualWield p (pr_Class (it_proto it) = ITEM_CLASS_WEAPON)) w))) = Some w' \<and> face w' = face w"
  using live_slot [OF assms, of EQUIPMENT_SLOT_OFFHAND] by (auto simp: EQUIPMENT_SLOT_OFFHAND_def)

lemma swap_places_ok:
  assumes ok: "inv_ok w p" and r: "0 \<le> s" "s < 118" "0 \<le> d" "d < 118" and ne: "s \<noteq> d"
    and a: "slot_content w p s = Some a" and nb: "no_bag w (Some a)" "no_bag w (slot_content w p d)"
  shows "\<exists>w'. swap_places p casting s d (Some a) (slot_content w p d) w = Some w' \<and> face w' = face (w_swap p s d w)"
proof -
  note D = inv_okD [OF ok]
  define sl where "sl = iv_items (iw_inv w p)"
  define fl where "fl = iv_fields (iw_inv w p)"
  define x where "x = slot_content w p d"
  have len: "length sl = 118" "length fl = 118" using D(2) by (simp_all add: inv_lengths_def sl_def fl_def)
  have at: "sl ! nat s = Some a" "sl ! nat d = x" using a r by (simp_all add: slot_content_def sl_def x_def)
  have live: "iw_heap w k \<noteq> None" if k: "Some k \<in> set sl" for k
  proof -
    from k len obtain i where "i < 118" "sl ! i = Some k" by (metis in_set_conv_nth)
    then have "slot_content w p (int i) = Some k" by (simp add: slot_content_def sl_def)
    from slot_live [OF ok this] show ?thesis by auto
  qed
  have live2: "iw_heap w k \<noteq> None" if "Some k \<in> set (sl[nat d := Some a, nat s := x])" for k
  proof -
    have "Some a \<in> set sl" "x = None \<or> x \<in> set sl" using at len r by (metis nat_less_iff nth_mem of_nat_numeral)+
    moreover have "set (sl[nat d := Some a, nat s := x]) \<subseteq> insert x (insert (Some a) (set sl))"
      by (meson set_update_subset_insert subset_trans insert_mono)
    ultimately show ?thesis using that live by (cases x) auto
  qed
  from slot_live [OF ok a] obtain ia where ia: "iw_heap w a = Some ia" by blast
  have L0: "like w p sl fl w" unfolding sl_def fl_def by (rule like_refl)
  have V0: "slots_live w p" by (rule like_live [OF L0 len live])
  from mods_of_slot_ok [OF V0 r(1,2)] obtain w1 where w1: "mods_of_slot p s False w = Some w1" "face w1 = face w" by blast
  note V1 = slots_live_face [OF w1(2) V0] and L1 = like_face [OF L0 w1(2)]
  from mods_of_slot_ok [OF V1 r(3,4)] obtain w2 where w2: "mods_of_slot p d False w1 = Some w2" "face w2 = face w1" by blast
  note L2 = like_face [OF L1 w2(2)]
  from like_put_slot [OF L2 len(1) r(3,4)] obtain w3 where w3: "put_slot p d (Some a) w2 = Some w3" "like w p (sl[nat d := Some a]) fl w3" by blast
  from like_item [OF w3(2) ia] obtain ia3 where ia3: "iw_heap w3 a = Some ia3" "norm_item ia3 = norm_item ia" by blast
  have nc: "\<not> it_container ia3" using nb(1) ia ia3(2) by (metis no_bag_def norm_item_sel(3))
  have refill: "(if x = None then refill_bag p s d a w3 else Some w3) = Some w3" using ia3(1) nc by (simp add: refill_bag_def)
  from like_put_slot [OF w3(2) _ r(1,2), of x] len obtain w4 where w4: "put_slot p s x w3 = Some w4"
    "like w p (sl[nat d := Some a, nat s := x]) fl w4" by auto
  have bags: "(case x of Some b \<Rightarrow> swap_bags p s d a b w4 | None \<Rightarrow> Some w4) = Some w4"
  proof (cases x)
    case (Some b)
    from like_item [OF w4(2) ia] obtain ia4 where ia4: "iw_heap w4 a = Some ia4" "norm_item ia4 = norm_item ia" by blast
    from slot_live [OF ok, of d b] Some obtain ib where "iw_heap w b = Some ib" by (auto simp: x_def)
    from like_item [OF w4(2) this] obtain ib4 where "iw_heap w4 b = Some ib4" by blast
    moreover have "\<not> it_container ia4" using nb(1) ia ia4(2) by (metis no_bag_def norm_item_sel(3))
    ultimately show ?thesis using Some ia4(1) by (simp add: swap_bags_def)
  qed simp
  define w5 where "w5 = set_dirty (Some a) (set_dirty x w4)"
  have L5: "like w p (sl[nat d := Some a, nat s := x]) fl w5" by (rule like_face [OF w4(2)]) (simp add: w5_def)
  have lens: "length (sl[nat d := Some a, nat s := x]) = 118" using len by simp
  note V5 = like_live [OF L5 lens len(2) live2]
  from like_field [OF L5 V5 lens len(2) r(3,4)] obtain w6 where w6: "field_of_slot p d w5 = Some w6"
    "like w p (sl[nat d := Some a, nat s := x]) (fl[nat d := guid_at w (sl[nat d := Some a, nat s := x] ! nat d)]) w6" by blast
  have len6: "length (fl[nat d := guid_at w (sl[nat d := Some a, nat s := x] ! nat d)]) = 118" using len by simp
  note V6 = like_live [OF w6(2) lens len6 live2]
  from like_field [OF w6(2) V6 lens len6 r(1,2)] obtain w7 where w7: "field_of_slot p s w6 = Some w7"
    "like w p (sl[nat d := Some a, nat s := x]) (fl[nat d := guid_at w (sl[nat d := Some a, nat s := x] ! nat d),
       nat s := guid_at w (sl[nat d := Some a, nat s := x] ! nat s)]) w7" by blast
  have V7: "slots_live w7 p" by (rule like_live [OF w7(2) lens _ live2]) (use len in simp_all)
  from look_of_slot_ok [OF V7 r(1,2)] obtain w8 where w8: "look_of_slot p s casting w7 = Some w8" "face w8 = face w7" by blast
  note V8 = slots_live_face [OF w8(2) V7]
  from look_of_slot_ok [OF V8 r(3,4)] obtain w9 where w9: "look_of_slot p d False w8 = Some w9" "face w9 = face w8" by blast
  note V9 = slots_live_face [OF w9(2) V8]
  from offhand_ok [OF V9] obtain w10 where w10: "(if d = EQUIPMENT_SLOT_OFFHAND \<or> s = EQUIPMENT_SLOT_OFFHAND then
      m_pItems w9 p EQUIPMENT_SLOT_OFFHAND \<bind> (\<lambda>x. case x of None \<Rightarrow> Some (item_emit (FxDualWield p False) w9)
       | Some c \<Rightarrow> iw_heap w9 c \<bind> (\<lambda>it. Some (item_emit (FxDualWield p (pr_Class (it_proto it) = ITEM_CLASS_WEAPON)) w9)))
      else Some w9) = Some w10" "face w10 = face w9" by (cases "d = EQUIPMENT_SLOT_OFFHAND \<or> s = EQUIPMENT_SLOT_OFFHAND") auto
  note V10 = slots_live_face [OF w10(2) V9]
  from mods_of_slot_ok [OF V10 r(1,2)] obtain w11 where w11: "mods_of_slot p s True w10 = Some w11" "face w11 = face w10" by blast
  note V11 = slots_live_face [OF w11(2) V10]
  from mods_of_slot_ok [OF V11 r(3,4)] obtain w12 where w12: "mods_of_slot p d True w11 = Some w12" "face w12 = face w11" by blast
  have "swap_places p casting s d (Some a) x w = Some w12"
    using w1(1) w2(1) w3(1) refill w4(1) bags w6(1) w7(1) w8(1) w9(1) w10(1) w11(1) w12(1)
    by (simp add: swap_places_def Let_def w5_def split del: if_split)
  moreover have "face w12 = face (w_swap p s d w)"
  proof -
    have "sl[nat d := Some a, nat s := x] ! nat d = Some a" "sl[nat d := Some a, nat s := x] ! nat s = x" using len r ne by (simp_all add: eq_nat_nat_iff)
    moreover have "face w12 = face w7" using w8(2) w9(2) w10(2) w11(2) w12(2) by simp
    ultimately show ?thesis using w7(2) a
      by (simp add: like_def w_swap_def sl_def fl_def x_def) (auto simp: face_def fun_eq_iff)
  qed
  ultimately show ?thesis unfolding x_def by blast
qed

section \<open>Amounts\<close>

definition all_places :: "(int \<times> int) list" where "all_places = carried @ banked"

lemma slot_places_set: "(c, j) \<in> set (slot_places xs) \<longleftrightarrow> c = -1 \<and> j \<in> set xs"
  by (auto simp: slot_places_def)

lemma bag_places_set: "(c, j) \<in> set (bag_places xs) \<longleftrightarrow> c \<in> set xs \<and> 0 \<le> j \<and> j < 36"
  by (auto simp: bag_places_def image_iff)

lemma all_places_set: "(c, j) \<in> set all_places \<longleftrightarrow> c = -1 \<and> own_slot j \<or> (c \<in> set inventory_bags \<or> c \<in> set bank_bags) \<and> 0 \<le> j \<and> j < 36"
  by (auto simp: all_places_def carried_def banked_def slot_places_set bag_places_set own_slot_def)

lemma distinct_places: "distinct xs \<Longrightarrow> distinct (slot_places xs)" "distinct xs \<Longrightarrow> distinct (bag_places xs)"
proof -
  show "distinct xs \<Longrightarrow> distinct (slot_places xs)" by (simp add: slot_places_def distinct_map inj_on_def)
  show "distinct xs \<Longrightarrow> distinct (bag_places xs)"
    by (induction xs) (auto simp: bag_places_def distinct_map inj_on_def slots_def)
qed

lemma distinct_all: "distinct all_places"
proof -
  have "set carried \<inter> set banked = {}"
    by (auto simp: carried_def banked_def slot_places_set bag_places_set)
  moreover have "set (slot_places (slots 39 74)) \<inter> set (bag_places bank_bags) = {}" by (auto simp: slot_places_set bag_places_set)
  moreover have "distinct (slots 39 74)" "distinct bank_bags" by (simp_all add: slots_def bank_bags_def)
  ultimately show ?thesis using distinct_carried by (simp add: all_places_def banked_def distinct_places)
qed

lemma count_all: "inv_ok w p \<Longrightarrow> GetItemCount w p e True = Some (sum (amount_at w p e) (set all_places))"
  using GetItemCount_ok(2) [of w p e] by (simp add: all_places_def [symmetric] sum_list_distinct_conv_sum_set [OF distinct_all])

lemma sum_two:
  fixes f :: "'a \<Rightarrow> 'b :: comm_monoid_add"
  assumes "finite F" "x \<in> F" "y \<in> F" "x \<noteq> y" "\<And>z. z \<noteq> x \<Longrightarrow> z \<noteq> y \<Longrightarrow> g z = f z" "g x + g y = f x + f y"
  shows "sum g F = sum f F"
proof -
  have F: "F = insert x (insert y (F - {x, y}))" using assms(2,3) by auto
  have "sum g (F - {x, y}) = sum f (F - {x, y})" by (rule sum.cong) (use assms(5) in auto)
  moreover have "sum h F = h x + h y + sum h (F - {x, y})" for h :: "'a \<Rightarrow> 'b"
    using assms(1,4) by (subst F) (simp add: add.assoc)
  ultimately show ?thesis using assms(6) by simp
qed

lemma count_two:
  assumes "inv_ok w p" "inv_ok w' p" "own_slot s" "own_slot d" "s \<noteq> d"
    "\<And>z. z \<noteq> (-1, s) \<Longrightarrow> z \<noteq> (-1, d) \<Longrightarrow> amount_at w' p e z = amount_at w p e z"
    "amount_at w' p e (-1, s) + amount_at w' p e (-1, d) = amount_at w p e (-1, s) + amount_at w p e (-1, d)"
  shows "GetItemCount w' p e True = GetItemCount w p e True"
proof -
  have "sum (amount_at w' p e) (set all_places) = sum (amount_at w p e) (set all_places)"
    by (rule sum_two [where x = "(-1, s)" and y = "(-1, d)"]) (use assms all_places_set in simp_all)
  with count_all [OF assms(1)] count_all [OF assms(2)] show ?thesis by simp
qed

text \<open>Nothing changes but in two slots that hold no bags: the other amounts stay.\<close>

lemma amount_elsewhere:
  assumes ok: "inv_ok w p" and z: "z \<noteq> (-1, s)" "z \<noteq> (-1, d)"
    and nb: "no_bag w (slot_content w p s)" "no_bag w (slot_content w p d)"
    and c: "\<And>y. y \<noteq> (-1, s) \<Longrightarrow> y \<noteq> (-1, d) \<Longrightarrow> content w' p y = content w p y"
    and k: "\<And>b. slot_content w p s \<noteq> Some b \<Longrightarrow> slot_content w p d \<noteq> Some b \<Longrightarrow> core w' b = core w b"
  shows "amount_at w' p e z = amount_at w p e z"
proof (cases "content w p z")
  case None
  with c [OF z] show ?thesis by (simp add: amount_at_def)
next
  case (Some k0)
  have out: "slot_content w p s \<noteq> Some k0" "slot_content w p d \<noteq> Some k0"
    using placed_once [OF ok Some, of "(-1, s)"] placed_once [OF ok Some, of "(-1, d)"] z by auto
  show ?thesis
  proof (rule amount_cong [OF ok Some])
    show "content w' p z = Some k0" using c [OF z] Some by simp
    show "core w' k0 = core w k0" by (rule k [OF out])
    fix b assume b: "fst z \<noteq> -1" "slot_content w p (fst z) = Some b"
    from bag_of_place [OF ok Some b] obtain cn where cn: "iw_heap w b = Some cn" "it_container cn" by blast
    with nb have nsd: "slot_content w p s \<noteq> Some b" "slot_content w p d \<noteq> Some b" by (auto simp: no_bag_def)
    with b(2) have "(-1, fst z) \<noteq> (-1, s)" "(-1, fst z) \<noteq> (-1, d)" by auto
    from c [OF this] b(2) have "slot_content w' p (fst z) = Some b" by simp
    with k [OF nsd] show "slot_content w' p (fst z) = Some b \<and> map_option it_wrapped (core w' b) = map_option it_wrapped (core w b)" by simp
  qed
qed

definition amount_of :: "u32 \<Rightarrow> item option \<Rightarrow> u32" where
  "amount_of e x = (case x of None \<Rightarrow> 0 | Some it \<Rightarrow> counted e it it)"

lemma amount_slot_core: "amount_at w p e (-1, s) = (case slot_content w p s of None \<Rightarrow> 0 | Some a \<Rightarrow> counted e (the (core w a)) (the (core w a)))"
  by (simp add: amount_at_def split: option.split)

section \<open>\<open>SwapItemSlots\<close>\<close>

text \<open>What a swap of two slots may do: change their places, or put the first stack on the second.\<close>

definition swapped :: "u32 \<Rightarrow> int \<Rightarrow> int \<Rightarrow> item_world \<Rightarrow> item_world \<Rightarrow> bool" where
  "swapped p s d w w' \<longleftrightarrow> inv_ok w' p \<and> content w' p = content w p \<circ> other_place s d \<and> core w' = core w"

definition merged :: "u32 \<Rightarrow> int \<Rightarrow> nat \<Rightarrow> nat \<Rightarrow> u32 \<Rightarrow> item_world \<Rightarrow> item_world \<Rightarrow> bool" where
  "merged p s a b n w w' \<longleftrightarrow> inv_ok w' p \<and> content w' p = (content w p)((-1, s) := None) \<and>
     core w' = (core w)(b := map_option (\<lambda>it. it\<lparr> it_stack := n \<rparr>) (core w b), a := None)"

definition filled :: "u32 \<Rightarrow> nat \<Rightarrow> u32 \<Rightarrow> nat \<Rightarrow> u32 \<Rightarrow> item_world \<Rightarrow> item_world \<Rightarrow> bool" where
  "filled p a k b n w w' \<longleftrightarrow> inv_ok w' p \<and> content w' p = content w p \<and>
     core w' = (core w)(b := map_option (\<lambda>it. it\<lparr> it_stack := n \<rparr>) (core w b), a := map_option (\<lambda>it. it\<lparr> it_stack := k \<rparr>) (core w a))"

text \<open>The three outcomes for two stacks, and the only one for all other pairs.\<close>

definition swap_outcome :: "u32 \<Rightarrow> int \<Rightarrow> int \<Rightarrow> nat \<Rightarrow> item \<Rightarrow> (nat \<times> item) option \<Rightarrow> item_world \<Rightarrow> item_world \<Rightarrow> bool" where
  "swap_outcome p s d a ia y w w' \<longleftrightarrow> (case y of
     None \<Rightarrow> swapped p s d w w'
   | Some (b, ib) \<Rightarrow>
       (let total = it_stack ia + it_stack ib; most = pr_MaxCount (it_proto ib) in
        if \<not> stackable ia ib then swapped p s d w w'
        else if total \<le> most then merged p s a b total w w'
        else if it_stack ib = most then swapped p s d w w'
        else filled p a (total - most) b most w w'))"

text \<open>Stacks of one prototype that are not empty, and whose sum does not reach the sign bit.\<close>

definition small_stacks :: "item \<Rightarrow> item \<Rightarrow> bool" where
  "small_stacks ia ib \<longleftrightarrow> unat (it_stack ia) + unat (it_stack ib) < 2 ^ 31 \<and> it_stack ia \<noteq> 0 \<and> it_stack ib \<noteq> 0 \<and>
     it_proto ib = it_proto ia"

lemma sint_small:
  fixes v :: u32
  assumes "unat v < 2 ^ 31" shows "\<not> sint v < 0"
proof -
  have "int (unat v) < int (2 ^ 31)" using assms by (simp only: of_nat_less_iff)
  then have "uint v < 2 ^ 31" by (simp only: uint_nat of_nat_power of_nat_numeral)
  moreover have "- (2 ^ 31) \<le> uint v" using uint_ge_0 [of v] by (rule order_trans [rotated]) simp
  ultimately have "sint v = uint v" using signed_take_bit_int_eq_self [of 31 "uint v"] by (simp add: sint_uint)
  then show ?thesis by simp
qed

lemma unat_small_add:
  assumes "unat (x :: u32) + unat y < 2 ^ 31" shows "unat (x + y) = unat x + unat y"
proof -
  have "unat x + unat y < 2 ^ LENGTH(32)" using assms by simp
  then show ?thesis by (simp only: unat_add_lem)
qed

lemma ModUnsigned_add:
  assumes "unat (x :: u32) + unat y < 2 ^ 31"
  shows "ModUnsigned32Value x y = x + y"
proof -
  have "unat (x + y) < 2 ^ 31" using assms unat_small_add [OF assms] by simp
  then show ?thesis using sint_small [of "x + y"] by (simp add: ModUnsigned32Value_def)
qed

lemma ModUnsigned_delta:
  assumes "unat (x :: u32) + unat y < 2 ^ 31" "\<not> x + y \<le> m" "y \<noteq> m"
  shows "ModUnsigned32Value x (- (m - y)) = x + y - m"
proof -
  note s = unat_small_add [OF assms(1)]
  have "m < x + y" using assms(2) by simp
  then have "unat (x + y - m) = unat (x + y) - unat m" by (simp add: unat_sub less_imp_le)
  then have "unat (x + y - m) < 2 ^ 31" using s assms(1) by linarith
  with sint_small [of "x + y - m"] assms(3) show ?thesis by (simp add: ModUnsigned32Value_def algebra_simps)
qed

lemma swapped_face:
  assumes "inv_ok w p" "0 \<le> s" "s < 118" "0 \<le> d" "d < 118" "s \<noteq> d"
    "no_bag w (slot_content w p s)" "no_bag w (slot_content w p d)" "face w' = face (w_swap p s d w)"
  shows "swapped p s d w w'"
  using face_norm(1,2) [OF assms(9)] inv_ok_face [OF assms(9), of p] w_swap [OF assms(1-8)] by (simp add: swapped_def)

text \<open>The second item of a pair of slots, as the operation reads it.\<close>

definition item_in :: "item_world \<Rightarrow> u32 \<Rightarrow> int \<Rightarrow> (nat \<times> item) option" where
  "item_in w p d = (case slot_content w p d of None \<Rightarrow> None | Some b \<Rightarrow> map_option (Pair b) (iw_heap w b))"

lemma item_in_cases:
  assumes "inv_ok w p"
  obtains "slot_content w p d = None" "item_in w p d = None"
    | b ib where "slot_content w p d = Some b" "iw_heap w b = Some ib" "it_owner ib = Some p" "item_in w p d = Some (b, ib)"
  using slot_live [OF assms, of d] by (cases "slot_content w p d") (auto simp: item_in_def)

lemma stacks_merge:
  assumes ok: "inv_ok w p" and s: "s < 118" and a: "slot_content w p s = Some a" "iw_heap w a = Some ia" "\<not> it_container ia"
    and b: "iw_heap w b = Some ib" and ab: "a \<noteq> b"
  shows "\<exists>w'. SafeFullRemoveItemFromSlot p (-1) s (w_stack b n w) = Some (w', True) \<and> merged p s a b n w w'"
proof -
  note W = w_stack [OF ok, of b n]
  have a1: "content (w_stack b n w) p (-1, s) = Some a" "iw_heap (w_stack b n w) a = Some ia"
    using a ab W(1) by (simp, simp add: w_stack_def)
  have "\<not> stuck (w_stack b n w) p (-1, s)"
    using a1 no_container_empty [OF a(3)] by (simp add: stuck_def del: content_slot)
  with SafeFullRemove_slot [OF W(2) s] a1(1) obtain w' where
    "SafeFullRemoveItemFromSlot p (-1) s (w_stack b n w) = Some (w', True)" "destroyed_at p a (-1, s) (w_stack b n w) w'" by fastforce
  then show ?thesis using W by (auto simp: merged_def destroyed_at_def)
qed

lemma merged_face: "merged p s a b n w w1 \<Longrightarrow> face w2 = face w1 \<Longrightarrow> merged p s a b n w w2"
  using face_norm(1,2) [of w2 w1] inv_ok_face [of w2 w1 p] by (simp add: merged_def)

lemma filled_face:
  assumes ok: "inv_ok w p" and f: "face w' = face (w_stack a k (w_stack b n w))" and ab: "a \<noteq> b"
  shows "filled p a k b n w w'"
  using face_norm(1,2) [OF f] inv_ok_face [OF f, of p] w_stack [OF ok, of b n] w_stack [OF w_stack(2) [OF ok, of b n], of a k] ab
  by (auto simp: filled_def)

lemma SwapItemSlots_ok:
  assumes ok: "inv_ok w p" and r: "0 \<le> s" "s < 118" "0 \<le> d" "d < 118" and ne: "s \<noteq> d"
    and a: "slot_content w p s = Some a" "iw_heap w a = Some ia"
    and nb: "no_bag w (Some a)" "no_bag w (slot_content w p d)"
    and small: "\<And>b ib. item_in w p d = Some (b, ib) \<Longrightarrow> stackable ia ib \<Longrightarrow> small_stacks ia ib"
  shows "\<exists>w'. SwapItemSlots p False casting s d w = Some w' \<and> swap_outcome p s d a ia (item_in w p d) w w'"
proof -
  note defs = SwapItemSlots_def MAX_INVENTORY_SLOT_def GetInventoryItem_content [OF ok]
  have nbs: "no_bag w (slot_content w p s)" using nb(1) a(1) by simp
  from swap_places_ok [OF ok r ne a(1) nb, of casting] obtain w' where w':
    "swap_places p casting s d (Some a) (slot_content w p d) w = Some w'" "face w' = face (w_swap p s d w)" by blast
  have sw: "swapped p s d w w'" by (rule swapped_face [OF ok r ne nbs nb(2) w'(2)])
  have nc: "\<not> it_container ia" using nb(1) a(2) by (simp add: no_bag_def)
  show ?thesis
  proof (rule item_in_cases [OF ok, of d])
    assume n: "slot_content w p d = None" "item_in w p d = None"
    with w'(1) a r sw show ?thesis by (simp add: defs swap_outcome_def)
  next
    fix b ib assume b: "slot_content w p d = Some b" "iw_heap w b = Some ib" "it_owner ib = Some p" "item_in w p d = Some (b, ib)"
    have ab: "a \<noteq> b" using placed_once [OF ok, of "(-1, s)" a "(-1, d)"] a(1) b(1) ne by auto
    define total where "total = it_stack ia + it_stack ib"
    define most where "most = pr_MaxCount (it_proto ib)"
    consider (no) "\<not> stackable ia ib" | (merge) "stackable ia ib" "total \<le> most" | (full) "stackable ia ib" "\<not> total \<le> most" "it_stack ib = most"
      | (fill) "stackable ia ib" "\<not> total \<le> most" "it_stack ib \<noteq> most" by blast
    then show ?thesis
    proof cases
      case no
      with w'(1) a b r sw show ?thesis by (simp add: defs swap_outcome_def)
    next
      case merge
      from small [OF b(4) merge(1)] have sm: "small_stacks ia ib" .
      then have "ModUnsigned32Value (it_stack ib) (it_stack ia) = total"
        using ModUnsigned_add [of "it_stack ib" "it_stack ia"] by (simp add: small_stacks_def total_def add.commute)
      then have up: "upd_item b (\<lambda>it. it\<lparr> it_stack := ModUnsigned32Value (it_stack it) (it_stack ia) \<rparr>) w = w_stack b total w"
        using b(2) by (simp add: w_stack_def upd_item_def)
      from stacks_merge [OF ok r(2) a nc b(2) ab, of total] obtain w2 where w2:
        "SafeFullRemoveItemFromSlot p (-1) s (w_stack b total w) = Some (w2, True)" "merged p s a b total w w2" by blast
      have m: "merged p s a b total w (set_dirty (Some b) w2)" by (rule merged_face [OF w2(2)]) simp
      have "SwapItemSlots p False casting s d w = Some (set_dirty (Some b) w2)"
        using a b r merge up w2(1) by (simp add: defs merge_stacks_def total_def most_def INVENTORY_SLOT_NOT_SET_def)
      with m merge b show ?thesis by (simp add: swap_outcome_def total_def most_def)
    next
      case full
      have "SwapItemSlots p False casting s d w = Some w'"
        using a b r full w'(1) by (simp add: defs merge_stacks_def total_def most_def)
      with sw full b show ?thesis by (simp add: swap_outcome_def total_def most_def)
    next
      case fill
      from small [OF b(4) fill(1)] have sm: "small_stacks ia ib" .
      have "ModUnsigned32Value (it_stack ia) (- (most - it_stack ib)) = total - most"
        unfolding total_def by (rule ModUnsigned_delta) (use sm fill in \<open>simp_all add: small_stacks_def total_def\<close>)
      then have up: "upd_item a (\<lambda>it. it\<lparr> it_stack := ModUnsigned32Value (it_stack it) (- (most - it_stack ib)) \<rparr>)
          (upd_item b (\<lambda>it. it\<lparr> it_stack := most \<rparr>) w) = w_stack a (total - most) (w_stack b most w)"
        using a(2) ab by (simp add: w_stack_def upd_item_def fun_upd_def)
      let ?w = "set_dirty (Some b) (set_dirty (Some a) (w_stack a (total - most) (w_stack b most w)))"
      have "filled p a (total - most) b most w ?w" by (rule filled_face [OF ok _ ab]) simp
      moreover have "SwapItemSlots p False casting s d w = Some ?w"
        using a b r fill up by (simp add: defs merge_stacks_def total_def most_def Let_def)
      ultimately show ?thesis using fill b by (simp add: swap_outcome_def total_def most_def)
    qed
  qed
qed

text \<open>Whatever the outcome, no item is made or lost.\<close>

lemma outcome_ok: "swap_outcome p s d a ia y w w' \<Longrightarrow> inv_ok w' p"
  by (auto simp: swap_outcome_def swapped_def merged_def filled_def Let_def split: option.splits prod.splits if_splits)

lemma wrapped_counted:
  assumes "stackable ia ib" "it_stack ia \<noteq> 0" "it_stack ib \<noteq> 0"
  shows "counted e ia ia = (if pr_ItemId (it_proto ib) = e then it_stack ia else 0)"
    "counted e ib ib = (if pr_ItemId (it_proto ib) = e then it_stack ib else 0)"
  using assms by (auto simp: stackable_def counted_def count_of_def)

lemma counted_stacked: "it_wrapped ia = 0 \<Longrightarrow> n \<noteq> 0 \<Longrightarrow>
    counted e (ia\<lparr> it_stack := n \<rparr>) (ia\<lparr> it_stack := n \<rparr>) = (if pr_ItemId (it_proto ia) = e then n else 0)"
  by (simp add: counted_def count_of_def)

lemma swap_count:
  assumes ok: "inv_ok w p" and o: "own_slot s" "own_slot d" and ne: "s \<noteq> d"
    and a: "slot_content w p s = Some a" "iw_heap w a = Some ia"
    and nb: "no_bag w (Some a)" "no_bag w (slot_content w p d)"
    and small: "\<And>b ib. item_in w p d = Some (b, ib) \<Longrightarrow> stackable ia ib \<Longrightarrow> small_stacks ia ib"
    and out: "swap_outcome p s d a ia (item_in w p d) w w'"
  shows "GetItemCount w' p e True = GetItemCount w p e True"
proof -
  note ok' = outcome_ok [OF out]
  have nbs: "no_bag w (slot_content w p s)" using nb(1) a(1) by simp
  note rest = amount_elsewhere [OF ok _ _ nbs nb(2)]
  have ca: "core w a = Some (it_core ia)" using a(2) by (simp add: core_def)
  have A: "amount_at w p e (-1, s) = counted e ia ia" using a ca by (simp add: amount_slot_core)
  have swap: "GetItemCount w' p e True = GetItemCount w p e True" if S: "swapped p s d w w'"
  proof (rule count_two [OF ok ok' o ne])
    have C: "content w' p = content w p \<circ> other_place s d" "core w' = core w" using S by (simp_all add: swapped_def)
    have sc: "slot_content w' p s = slot_content w p d" "slot_content w' p d = slot_content w p s"
      using fun_cong [OF C(1), of "(-1, s)"] fun_cong [OF C(1), of "(-1, d)"] by (simp_all add: other_place_def)
    show "amount_at w' p e z = amount_at w p e z" if z: "z \<noteq> (-1, s)" "z \<noteq> (-1, d)" for z
      by (rule rest [OF z]) (simp_all add: C other_place_def)
    show "amount_at w' p e (-1, s) + amount_at w' p e (-1, d) = amount_at w p e (-1, s) + amount_at w p e (-1, d)"
      by (simp add: amount_slot_core sc C(2) add.commute split: option.split)
  qed
  show ?thesis
  proof (rule item_in_cases [OF ok, of d])
    assume "slot_content w p d = None" "item_in w p d = None"
    with out swap show ?thesis by (simp add: swap_outcome_def)
  next
    fix b ib assume b: "slot_content w p d = Some b" "iw_heap w b = Some ib" "it_owner ib = Some p" "item_in w p d = Some (b, ib)"
    have ab: "a \<noteq> b" using placed_once [OF ok, of "(-1, s)" a "(-1, d)"] a(1) b(1) ne by auto
    have cb: "core w b = Some (it_core ib)" using b(2) by (simp add: core_def)
    have B: "amount_at w p e (-1, d) = counted e ib ib" using b(1) cb by (simp add: amount_slot_core)
    show ?thesis
    proof (cases "swapped p s d w w'")
      case False
      then have st: "stackable ia ib" using out b(4) by (auto simp: swap_outcome_def Let_def split: if_splits)
      from small [OF b(4) st] have sm: "unat (it_stack ia) + unat (it_stack ib) < 2 ^ 31" "it_stack ia \<noteq> 0" "it_stack ib \<noteq> 0"
        "it_proto ib = it_proto ia" by (simp_all add: small_stacks_def)
      note W = wrapped_counted [OF st sm(2,3), of e]
      have ent: "pr_ItemId (it_proto ia) = pr_ItemId (it_proto ib)" "it_wrapped ia = 0" "it_wrapped ib = 0" using st by (simp_all add: stackable_def)
      define total where "total = it_stack ia + it_stack ib"
      define most where "most = pr_MaxCount (it_proto ib)"
      have tn: "total \<noteq> 0" using unat_small_add [OF sm(1)] sm(2) unfolding total_def by (metis add_is_0 unat_0 unat_eq_zero)
      have mn: "most \<noteq> 0" using st sm(4) by (auto simp: most_def stackable_def)
      show ?thesis
      proof (cases "total \<le> most")
        case True
        with out False st b(4) have M: "merged p s a b total w w'" by (auto simp: swap_outcome_def total_def most_def Let_def split: if_splits)
        then have C: "content w' p = (content w p)((-1, s) := None)" "core w' = (core w)(b \<mapsto> (it_core ib)\<lparr> it_stack := total \<rparr>, a := None)"
          using cb by (simp_all add: merged_def)
        have sc: "slot_content w' p s = None" "slot_content w' p d = Some b"
          using fun_cong [OF C(1), of "(-1, s)"] fun_cong [OF C(1), of "(-1, d)"] b(1) ne by simp_all
        show ?thesis
        proof (rule count_two [OF ok ok' o ne])
          show "amount_at w' p e z = amount_at w p e z" if z: "z \<noteq> (-1, s)" "z \<noteq> (-1, d)" for z
            by (rule rest [OF z]) (use a b in \<open>auto simp: C\<close>)
          have "amount_at w' p e (-1, d) = (if pr_ItemId (it_proto ib) = e then total else 0)"
            using ab counted_stacked [of "it_core ib" total e] ent tn by (simp add: amount_slot_core sc C)
          then show "amount_at w' p e (-1, s) + amount_at w' p e (-1, d) = amount_at w p e (-1, s) + amount_at w p e (-1, d)"
            by (simp add: A B W amount_slot_core [of w' p e s] sc total_def)
        qed
      next
        case big: False
        with out False st b(4) have M: "filled p a (total - most) b most w w'"
          by (auto simp: swap_outcome_def total_def most_def Let_def split: if_splits)
        then have C: "content w' p = content w p"
          "core w' = (core w)(b \<mapsto> (it_core ib)\<lparr> it_stack := most \<rparr>, a \<mapsto> (it_core ia)\<lparr> it_stack := total - most \<rparr>)"
          using ca cb by (simp_all add: filled_def)
        have sc: "slot_content w' p s = Some a" "slot_content w' p d = Some b"
          using fun_cong [OF C(1), of "(-1, s)"] fun_cong [OF C(1), of "(-1, d)"] a(1) b(1) by simp_all
        have rn: "total - most \<noteq> 0" using big by auto
        show ?thesis
        proof (rule count_two [OF ok ok' o ne])
          show "amount_at w' p e z = amount_at w p e z" if z: "z \<noteq> (-1, s)" "z \<noteq> (-1, d)" for z
            by (rule rest [OF z]) (use a b in \<open>auto simp: C\<close>)
          have "amount_at w' p e (-1, d) = (if pr_ItemId (it_proto ib) = e then most else 0)"
            using ab counted_stacked [of "it_core ib" most e] ent mn by (simp add: amount_slot_core sc C)
          moreover have "amount_at w' p e (-1, s) = (if pr_ItemId (it_proto ib) = e then total - most else 0)"
            using counted_stacked [of "it_core ia" "total - most" e] ent rn by (simp add: amount_slot_core sc C)
          ultimately show "amount_at w' p e (-1, s) + amount_at w' p e (-1, d) = amount_at w p e (-1, s) + amount_at w p e (-1, d)"
            by (simp add: A B W total_def)
        qed
      qed
    qed (rule swap)
  qed
qed

end
