(* ===== verification/HS_ItemRobes.thy ===== *)
theory HS_ItemRobes
  imports HS_ItemSwap
begin

text \<open>
  The branch of \<open>SwapItemSlots\<close> for game masters who must wear their robes: an item that may not go to the slot is handed
  to \<open>AddItemToFreeSlot\<close> although it is in a slot already. \<open>m_AddItem\<close> notices that and moves nothing, but a bag for the
  family of the item takes it without a look: then the item is in two places.
\<close>

section \<open>An item that is in a slot is added again\<close>

lemma add_placed:
  assumes ok: "inv_ok w p" and a: "content w p x = Some a" "iw_heap w a = Some it" and r: "0 \<le> s" "s < 118" "c < 118"
  shows "\<exists>w'. SafeAddItem p a c s w = Some (w', ADD_ITEM_RESULT_DUPLICATED) \<and> face w' = face w"
proof -
  define w1 where "w1 = upd_item a (\<lambda>it. it\<lparr> it_dirty := True \<rparr>) w"
  have f1: "face w1 = face w" by (simp add: w1_def norm_item_def)
  have "\<not> unplaced w1 p a" using a(1) unfolding unplaced_def face_norm(1) [OF f1] by blast
  with already_there_content [of w1 p a] ok inv_ok_face [OF f1] have "already_there w1 p a = Some True" by simp
  then have "add_settled p a (it_proto it) c s w = Some (w1, ADD_ITEM_RESULT_DUPLICATED)"
    by (simp add: add_settled_def w1_def [symmetric] Let_def)
  with a(2) r f1 show ?thesis by (simp add: SafeAddItem_def m_AddItem_def MAX_INVENTORY_SLOT_def)
qed

lemma took_placed:
  assumes "inv_ok w p" "content w p x = Some a" "iw_heap w a = Some it" "free_place w p (c, s)"
  shows "\<exists>r. took (SafeAddItem p a c s w) p d t = Some (Inl r) \<and> face r = face w"
  using add_placed [OF assms(1-3) free_place_bounds [OF assms(1,4)]] by (auto simp: took_def)

text \<open>The stores into a bag do not look where the item was.\<close>

lemma bag_stores_again:
  assumes ok: "inv_ok w p" and a: "slot_content w p s = Some a" "iw_heap w a = Some it" "\<not> it_container it"
    and c: "c \<noteq> -1" and b: "slot_content w p c = Some b" "iw_heap w b = Some cn" "it_container cn" "0 \<le> j" "j < uint (pr_ContainerSlots (it_proto cn))"
  shows "\<exists>w'. PushToWorld p a (bag_stores False b j a p cn it w) = Some w' \<and> content w' p = (content w p)((c, j) \<mapsto> a)"
proof -
  have ab: "a \<noteq> b" using a b by auto
  let ?w = "bag_stores False b j a p cn it w"
  define cn' where "cn' = cn\<lparr> it_slots := (it_slots cn)[nat j := Some a], it_slot_fields := (it_slot_fields cn)[nat j := it_guid it] \<rparr>"
  have w': "iw_heap ?w b = Some cn'" "\<exists>it'. iw_heap ?w a = Some it' \<and> it_container it' = it_container it"
    "\<And>d. d \<noteq> a \<Longrightarrow> d \<noteq> b \<Longrightarrow> iw_heap ?w d = iw_heap w d" "iw_inv ?w = iw_inv w"
    using ab a b by (auto simp: bag_stores_def Let_def SetOwner_def cn'_def)
  have sc: "slot_content ?w p t = slot_content w p t" for t by (simp add: slot_content_def w'(4))
  have bc: "bag_content cn' = (bag_content cn)(j \<mapsto> a)" unfolding cn'_def by (rule bag_content_put [OF bag_live [OF ok b(2)] b(3-5)])
  have uniq: "t = c" if "slot_content w p t = Some b" for t
    using placed_once [OF ok, of "(-1, t)" b "(-1, c)"] that b(1) by simp
  have "content ?w p (t, k) = ((content w p)((c, j) \<mapsto> a)) (t, k)" for t k
  proof (cases "slot_content w p t")
    case (Some e)
    show ?thesis
    proof (cases "e = b")
      case True
      with Some uniq [of t] c show ?thesis by (auto simp: content_def sc w'(1) bc b(2))
    next
      case eb: False
      with Some b(1) have tc: "t \<noteq> c" by auto
      show ?thesis
      proof (cases "e = a")
        case True
        from w'(2) obtain it' where "iw_heap ?w a = Some it'" "\<not> it_container it'" using a(3) by blast
        with Some True tc a(2,3) show ?thesis by (simp add: content_def sc bag_content_def)
      qed (use Some eb tc w'(3) in \<open>simp add: content_def sc\<close>)
    qed
  qed (use c b in \<open>auto simp: content_def sc\<close>)
  then have C: "content ?w p = (content w p)((c, j) \<mapsto> a)" by (metis ext surj_pair)
  from w'(2) PushToWorld_face obtain w5 where w5: "PushToWorld p a ?w = Some w5" "face w5 = face ?w" by blast
  with C face_norm(1) [OF w5(2)] show ?thesis by simp
qed

section \<open>\<open>AddItemToFreeSlot\<close> of an item in a slot\<close>

text \<open>A bag for the family of the item has a free slot.\<close>

definition family_room :: "item_world \<Rightarrow> u32 \<Rightarrow> item_proto \<Rightarrow> bool" where
  "family_room w p pr \<longleftrightarrow> pr_BagFamily pr \<noteq> 0 \<and> \<not> has_flag (pr_BagFamily pr) ITEM_TYPE_KEYRING \<and>
     (\<exists>c \<in> set inventory_bags. \<exists>j. plain_bag w p (pr_BagFamily pr) c \<and> free_place w p (c, j))"

definition in_two_places :: "u32 \<Rightarrow> nat \<Rightarrow> item_world \<Rightarrow> item_world \<Rightarrow> bool" where
  "in_two_places p a w w' \<longleftrightarrow> (\<exists>c \<in> set inventory_bags. \<exists>j. free_place w p (c, j) \<and> content w' p = (content w p)((c, j) \<mapsto> a))"

lemma family_again:
  assumes ok: "inv_ok w p" and a: "slot_content w p s = Some a" "iw_heap w a = Some it" "\<not> it_container it"
    and P: "\<And>i j w'. i \<in> set inventory_bags \<Longrightarrow> plain_bag w p family i \<Longrightarrow> free_place w p (i, j) \<Longrightarrow>
      content w' p = (content w p)((i, j) \<mapsto> a) \<Longrightarrow> P (fin i j w')"
  shows "(\<exists>r. for_return (into_family_bag p a family fin) inventory_bags w = Some (Inl r) \<and> P r) \<or>
    for_return (into_family_bag p a family fin) inventory_bags w = Some (Inr w) \<and>
      (\<forall>i \<in> set inventory_bags. plain_bag w p family i \<longrightarrow> (\<forall>j. \<not> free_place w p (i, j)))"
proof (rule for_return_search)
  fix i assume i: "i \<in> set inventory_bags"
  let ?Q = "\<lambda>j w'. content w' p = (content w p)((i, j) \<mapsto> a)"
  show "into_family_bag p a family fin i w = Some (Inr w) \<and> (plain_bag w p family i \<longrightarrow> (\<forall>j. \<not> free_place w p (i, j))) \<or>
    (\<exists>r. into_family_bag p a family fin i w = Some (Inl r) \<and> P r)"
  proof (rule into_family_bag_run [where Q = ?Q, OF ok])
    show "0 \<le> i" "i < 118" using i by simp_all
    have c: "i \<noteq> -1" using i by simp
    fix b cn assume b: "slot_content w p i = Some b" "iw_heap w b = Some cn" "it_container cn"
    show "\<exists>w' r. Container_AddItemToFreeSlot b a w = Some (w', r) \<and>
      (case r of None \<Rightarrow> w' = w \<and> (\<forall>s. 0 \<le> s \<and> s < uint (pr_ContainerSlots (it_proto cn)) \<longrightarrow> content w p (i, s) \<noteq> None)
       | Some s \<Rightarrow> valid_place w p (i, s) \<and> content w p (i, s) = None \<and> ?Q s w')"
      by (rule Container_AddItemToFreeSlot_run [OF ok a(2) c b bag_stores_again [OF ok a c b]])
  qed (use P i in blast)
qed

lemma AddItemToFreeSlot_again:
  assumes ok: "inv_ok w p" and a: "slot_content w p s = Some a" "iw_heap w a = Some it" "\<not> it_container it"
  shows "\<exists>w' r. AddItemToFreeSlot p (Some a) w = Some (w', r) \<and>
    (if family_room w p (it_proto it) then in_two_places p a w w' else face w' = face w)"
proof -
  define pr where "pr = it_proto it"
  let ?P = "\<lambda>w'. face w' = face w"
  let ?slot = "on_empty_slot p (\<lambda>i w. took (SafeAddItem p a INVENTORY_SLOT_NOT_SET i w) p INVENTORY_SLOT_NOT_SET i)"
  let ?bag = "on_plain_bag p (\<lambda>i j w. took (SafeAddItem p a i j w) p i j)"
  let ?family = "into_family_bag p a (pr_BagFamily pr) (\<lambda>i s. set_result p (sr i s))"
  let ?first = "if pr_BagFamily pr = 0 then Some (Inr w) else if has_flag (pr_BagFamily pr) ITEM_TYPE_KEYRING then for_return ?slot keyring w
    else for_return ?family inventory_bags w"
  let ?rest = "\<lambda>w. seq_loop (for_return ?slot backpack w) (for_return ?bag inventory_bags)"
  have run: "AddItemToFreeSlot p (Some a) w = map_option (\<lambda>r. case r of Inl w \<Rightarrow> (w, ADD_ITEM_RESULT_OK) | Inr w \<Rightarrow> (w, ADD_ITEM_RESULT_ERROR))
      (seq_loop ?first ?rest)"
    unfolding pr_def by (simp add: AddItemToFreeSlot_def a(2) Let_def map_conv_bind_option comp_def split del: if_split)
  have at: "content w p (-1, s) = Some a" using a(1) by simp
  note took = took_placed [OF ok at a(2)]
  show ?thesis
  proof (cases "family_room w p pr")
    case True
    have "(\<exists>r. for_return ?family inventory_bags w = Some (Inl r) \<and> in_two_places p a w r) \<or>
      for_return ?family inventory_bags w = Some (Inr w) \<and>
        (\<forall>i \<in> set inventory_bags. plain_bag w p (pr_BagFamily pr) i \<longrightarrow> (\<forall>j. \<not> free_place w p (i, j)))"
    proof (rule family_again [OF ok a])
      fix i j w' assume "i \<in> set inventory_bags" "free_place w p (i, j)" "content w' p = (content w p)((i, j) \<mapsto> a)"
      then show "in_two_places p a w (set_result p (sr i j) w')"
        using face_norm(1) [OF face_result] unfolding in_two_places_def by (metis)
    qed
    with True obtain r where "for_return ?family inventory_bags w = Some (Inl r)" "in_two_places p a w r" by (auto simp: family_room_def)
    with True run show ?thesis by (auto simp: family_room_def seq_loop_def pr_def)
  next
    case False
    have slot: "(\<exists>r. for_return ?slot xs w = Some (Inl r) \<and> ?P r) \<or> for_return ?slot xs w = Some (Inr w) \<and> (\<forall>i \<in> set xs. \<not> free_place w p (-1, i))"
      if "\<And>i. i \<in> set xs \<Longrightarrow> 0 \<le> i \<and> i < 118" for xs
      using took unfolding INVENTORY_SLOT_NOT_SET_def by (intro search_slots [OF ok that])
    have family: "(\<exists>r. for_return ?family inventory_bags w = Some (Inl r) \<and> ?P r) \<or> for_return ?family inventory_bags w = Some (Inr w) \<and>
        (\<forall>i \<in> set inventory_bags. plain_bag w p (pr_BagFamily pr) i \<longrightarrow> (\<forall>j. \<not> free_place w p (i, j)))"
      if "pr_BagFamily pr \<noteq> 0" "\<not> has_flag (pr_BagFamily pr) ITEM_TYPE_KEYRING"
    proof (rule family_again [OF ok a])
      fix i j w' assume "i \<in> set inventory_bags" "plain_bag w p (pr_BagFamily pr) i" "free_place w p (i, j)"
      with that False show "face (set_result p (sr i j) w') = face w" unfolding family_room_def by blast
    qed
    have first: "(\<exists>r. ?first = Some (Inl r) \<and> ?P r) \<or> ?first = Some (Inr w) \<and> True"
    proof (cases "pr_BagFamily pr = 0")
      case F: False
      show ?thesis
      proof (cases "has_flag (pr_BagFamily pr) ITEM_TYPE_KEYRING")
        case True
        with F slot [OF slot_ranges(1)] show ?thesis by (simp del: bag_ranges) blast
      next
        case False
        with F family [OF F False] show ?thesis by (simp del: bag_ranges) blast
      qed
    qed simp
    have bags: "(\<exists>r. for_return ?bag inventory_bags w = Some (Inl r) \<and> ?P r) \<or>
      for_return ?bag inventory_bags w = Some (Inr w) \<and> (\<forall>i \<in> set inventory_bags. plain_bag w p 0 i \<longrightarrow> (\<forall>j. \<not> free_place w p (i, j)))"
      using took by (intro search_plain [OF ok slot_ranges(3)])
    have pack: "(\<exists>r. for_return ?slot backpack w = Some (Inl r) \<and> ?P r) \<or>
      for_return ?slot backpack w = Some (Inr w) \<and> (\<forall>i \<in> set backpack. \<not> free_place w p (-1, i))"
      by (rule slot [OF slot_ranges(2)])
    have rest: "(\<exists>r. ?rest w = Some (Inl r) \<and> ?P r) \<or> ?rest w = Some (Inr w) \<and>
        (\<forall>i \<in> set backpack. \<not> free_place w p (-1, i)) \<and> (\<forall>i \<in> set inventory_bags. plain_bag w p 0 i \<longrightarrow> (\<forall>j. \<not> free_place w p (i, j)))"
      using pack bags by (rule seq_search)
    from first rest have "\<exists>r. seq_loop ?first ?rest = Some r \<and> (case r of Inl w' \<Rightarrow> ?P w' | Inr w' \<Rightarrow> ?P w')"
      by (elim disjE exE conjE) (simp_all add: seq_loop_def split del: if_split)
    then obtain r where r: "seq_loop ?first ?rest = Some r" "case r of Inl w' \<Rightarrow> ?P w' | Inr w' \<Rightarrow> ?P w'" by blast
    show ?thesis using False r(2) unfolding run r(1) by (cases r) (simp_all add: pr_def)
  qed
qed

section \<open>The swap of a game master\<close>

text \<open>The swap is refused: the slot is one of the equipment or the bags, and the item is not of the robes.\<close>

definition barred :: "bool \<Rightarrow> int \<Rightarrow> item \<Rightarrow> bool" where
  "barred robes d ia \<longleftrightarrow> robes \<and> d < INVENTORY_SLOT_BAG_END \<and> pr_ItemId (it_proto ia) \<notin> gm_robes"

lemma swap_admitted:
  assumes ok: "inv_ok w p" and r: "0 \<le> s" "s < 118" and a: "slot_content w p s = Some a" "iw_heap w a = Some ia"
    and "\<not> barred robes d ia"
  shows "SwapItemSlots p robes casting s d w = SwapItemSlots p False casting s d w"
  using assms by (auto simp: SwapItemSlots_def GetInventoryItem_content [OF ok] barred_def)

lemma swap_barred:
  assumes ok: "inv_ok w p" and r: "0 \<le> s" "s < 118" "0 \<le> d" "d < 118" and a: "slot_content w p s = Some a" "iw_heap w a = Some ia"
    and nc: "\<not> it_container ia" and b: "barred robes d ia"
  shows "\<exists>w'. SwapItemSlots p robes casting s d w = Some w' \<and>
    (if family_room w p (it_proto ia) then in_two_places p a w w' else same_inv p w w')"
proof -
  from AddItemToFreeSlot_again [OF ok a nc] obtain w' r where w': "AddItemToFreeSlot p (Some a) w = Some (w', r)"
    "if family_room w p (it_proto ia) then in_two_places p a w w' else face w' = face w" by blast
  then have "SwapItemSlots p robes casting s d w = Some w'"
    using r a b by (simp add: SwapItemSlots_def GetInventoryItem_content [OF ok] barred_def MAX_INVENTORY_SLOT_def)
  with w'(2) same_inv_face [OF ok] show ?thesis by (metis)
qed

lemma same_count:
  assumes ok: "inv_ok w p" and same: "same_inv p w w'"
  shows "GetItemCount w' p e bk = GetItemCount w p e bk"
proof -
  have C: "content w' p = content w p" "core w' = core w" using same by (simp_all add: same_inv_def)
  have "slot_content w' p t = slot_content w p t" for t using fun_cong [OF C(1), of "(-1, t)"] by simp
  then have "amount_at w' p e = amount_at w p e" by (simp only: amount_at_def fun_eq_iff C simp_thms)
  with same show ?thesis by (cases bk) (simp_all add: GetItemCount_ok [OF ok] GetItemCount_ok [of w' p] same_inv_def)
qed

end
