(* ===== verification/HS_ItemGame.thy ===== *)
theory HS_ItemGame
  imports HS_ItemRobes
begin

text \<open>
  The inventory as a whole: the interface its callers rely on, the runs of operations of one player, and the
  properties.
\<close>

section \<open>The interface of a keeper of things\<close>

text \<open>
  What the callers of an inventory rely on, whatever it is made of: a free place takes what is storable, and
  what may be fetched comes back and can be stored again.
\<close>

locale keeper =
  fixes good :: "'w \<Rightarrow> bool" and holds :: "'w \<Rightarrow> 'x \<Rightarrow> 'a option" and free :: "'w \<Rightarrow> 'x \<Rightarrow> bool"
    and storable :: "'w \<Rightarrow> 'a \<Rightarrow> bool" and removable :: "'w \<Rightarrow> 'x \<Rightarrow> bool"
    and store :: "'a \<Rightarrow> 'x \<Rightarrow> 'w \<Rightarrow> 'w option" and fetch :: "'x \<Rightarrow> 'w \<Rightarrow> ('w \<times> 'a) option"
  assumes free_empty: "free w x \<Longrightarrow> holds w x = None"
    and store: "good w \<Longrightarrow> storable w a \<Longrightarrow> free w x \<Longrightarrow>
      \<exists>w'. store a x w = Some w' \<and> good w' \<and> holds w' = (holds w)(x \<mapsto> a) \<and> removable w' x"
    and fetch: "good w \<Longrightarrow> holds w x = Some a \<Longrightarrow> removable w x \<Longrightarrow>
      \<exists>w'. fetch x w = Some (w', a) \<and> good w' \<and> holds w' = (holds w)(x := None) \<and> storable w' a \<and> free w' x"
begin

lemma store_then_fetch:
  assumes "good w" "storable w a" "free w x"
  shows "\<exists>w1 w2. store a x w = Some w1 \<and> fetch x w1 = Some (w2, a) \<and> good w2 \<and> holds w2 = holds w"
proof -
  from store [OF assms] obtain w1 where w1: "store a x w = Some w1" "good w1" "holds w1 = (holds w)(x \<mapsto> a)" "removable w1 x" by blast
  moreover from fetch [OF w1(2) _ w1(4)] w1(3) obtain w2 where
    "fetch x w1 = Some (w2, a)" "good w2" "holds w2 = (holds w1)(x := None)" by auto
  moreover have "((holds w)(x \<mapsto> a))(x := None) = holds w" using free_empty [OF assms(3)] by (simp add: fun_upd_idem)
  ultimately show ?thesis by auto
qed

lemma fetch_then_store:
  assumes "good w" "holds w x = Some a" "removable w x"
  shows "\<exists>w1 w2. fetch x w = Some (w1, a) \<and> store a x w1 = Some w2 \<and> good w2 \<and> holds w2 = holds w"
proof -
  from fetch [OF assms] obtain w1 where w1: "fetch x w = Some (w1, a)" "good w1" "holds w1 = (holds w)(x := None)" "storable w1 a" "free w1 x" by blast
  moreover from store [OF w1(2,4,5)] obtain w2 where "store a x w1 = Some w2" "good w2" "holds w2 = (holds w1)(x \<mapsto> a)" by blast
  ultimately show ?thesis using assms(2) by (auto simp: fun_upd_idem)
qed

end

section \<open>The inventory keeps items\<close>

definition store_at :: "u32 \<Rightarrow> nat \<Rightarrow> int \<times> int \<Rightarrow> item_world \<Rightarrow> item_world option" where
  "store_at p a x w = (case SafeAddItem p a (fst x) (snd x) w of Some (w', ADD_ITEM_RESULT_OK) \<Rightarrow> Some w' | _ \<Rightarrow> None)"

definition fetch_from :: "u32 \<Rightarrow> int \<times> int \<Rightarrow> item_world \<Rightarrow> (item_world \<times> nat) option" where
  "fetch_from p x w = (case SafeRemoveAndRetreiveItemFromSlot p (fst x) (snd x) False w of Some (w', Some a) \<Rightarrow> Some (w', a) | _ \<Rightarrow> None)"

lemma valid_place_core:
  "valid_place w p (c, s) \<longleftrightarrow> (if c = -1 then 0 \<le> s \<and> s < 118
     else \<exists>b k. content w p (-1, c) = Some b \<and> core w b = Some k \<and> it_container k \<and> 0 \<le> s \<and> s < uint (pr_ContainerSlots (it_proto k)))"
  by (auto simp: valid_place_def core_def)

lemma not_stuck_after:
  assumes "inv_ok w' p" "put_at p a x w w'" "free_place w p x"
  shows "\<not> stuck w' p x"
proof -
  obtain c s where x: "x = (c, s)" by (cases x)
  have C: "content w' p = (content w p)(x \<mapsto> a)" using assms(2) by (simp add: put_at_def)
  then have at: "content w' p x = Some a" by simp
  show ?thesis
  proof (cases "c = -1")
    case True
    with at x have sc: "slot_content w' p s = Some a" by simp
    from slot_content_range [OF this] have s: "s \<noteq> -1" by simp
    from slot_live [OF assms(1) sc] obtain it where it: "iw_heap w' a = Some it" by blast
    have "bag_content it j = None" for j
    proof -
      have "slot_content w p s = None" using assms(3) x True by (simp add: free_place_def)
      then have "content w p (s, j) = None" using s by (simp add: content_def)
      then have "content w' p (s, j) = None" using x True s by (simp add: C)
      then show ?thesis using content_bag [OF sc it, of j] by simp
    qed
    then show ?thesis using at it x by (auto simp: stuck_def bag_empty_def)
  qed (use at x in \<open>simp add: stuck_def\<close>)
qed

lemma place_in_range:
  assumes "inv_ok w p" "content w p (c, s) = Some a"
  shows "c < 118" "s < 118" "valid_place w p (c, s)"
proof -
  have "c < 118 \<and> s < 118 \<and> valid_place w p (c, s)"
  proof (cases "c = -1")
    case True
    with assms(2) slot_content_range [of w p s a] show ?thesis by (simp add: valid_place_def)
  next
    case False
    from assms(2) False obtain b cn where b: "slot_content w p c = Some b" "iw_heap w b = Some cn" "it_container cn" "0 \<le> s"
      "s < uint (pr_ContainerSlots (it_proto cn))" by (rule content_bagD)
    with bag_live [OF assms(1) b(2)] slot_content_range [OF b(1)] False show ?thesis
      by (simp add: bag_shape_def valid_place_def)
  qed
  then show "c < 118" "s < 118" "valid_place w p (c, s)" by auto
qed

interpretation bag: keeper "\<lambda>w. inv_ok w p" "\<lambda>w. content w p" "\<lambda>w. free_place w p" "\<lambda>w. loose w p" "\<lambda>w x. \<not> stuck w p x"
  "store_at p" "fetch_from p" for p
proof
  show "content w p x = None" if "free_place w p x" for w x using that by (simp add: free_place_def)
next
  fix w a and x :: "int \<times> int"
  assume ok: "inv_ok w p" and loose: "loose w p a" and free: "free_place w p x"
  obtain c s where x: "x = (c, s)" by (cases x)
  from add_at_free [OF ok loose free [unfolded x]] obtain w' where
    w': "SafeAddItem p a c s w = Some (w', ADD_ITEM_RESULT_OK)" "put_at p a (c, s) w w'" by blast
  have ok': "inv_ok w' p" "content w' p = (content w p)(x \<mapsto> a)" using w'(2) x by (simp_all add: put_at_def)
  moreover have "\<not> stuck w' p x" using not_stuck_after [OF ok'(1) w'(2)] free x by simp
  moreover have "store_at p a x w = Some w'" using w'(1) x by (simp add: store_at_def)
  ultimately show "\<exists>w'. store_at p a x w = Some w' \<and> inv_ok w' p \<and> content w' p = (content w p)(x \<mapsto> a) \<and> \<not> stuck w' p x" by blast
next
  fix w a and x :: "int \<times> int"
  assume ok: "inv_ok w p" and at: "content w p x = Some a" and free: "\<not> stuck w p x"
  obtain c s where x: "x = (c, s)" by (cases x)
  note r = place_in_range [OF ok at [unfolded x]]
  from SafeRemove_ok [OF ok r(2,1), of False] free at x obtain w' where
    w': "SafeRemoveAndRetreiveItemFromSlot p c s False w = Some (w', Some a)" "taken_from p a x w w'" by auto
  have T: "inv_ok w' p" "content w' p = (content w p)(x := None)" "core w' = core w" "loose w' p a" using w'(2) by (simp_all add: taken_from_def)
  have "valid_place w' p (c, s)"
    using r(3) x unfolding valid_place_core by (auto simp: T(2,3))
  then have "free_place w' p x" by (simp add: free_place_def T(2) x)
  moreover have "fetch_from p x w = Some (w', a)" using w'(1) x by (simp add: fetch_from_def)
  ultimately show "\<exists>w'. fetch_from p x w = Some (w', a) \<and> inv_ok w' p \<and> content w' p = (content w p)(x := None) \<and> loose w' p a \<and> free_place w' p x"
    using T by blast
qed

section \<open>New items\<close>

definition w_new :: "item \<Rightarrow> item_world \<Rightarrow> item_world" where
  "w_new it w = w\<lparr> iw_heap := (iw_heap w)(iw_next w \<mapsto> it), iw_next := Suc (iw_next w) \<rparr>"

lemma w_new:
  assumes ok: "inv_ok w p" and it: "bag_shape it" "bag_empty it"
  shows "content (w_new it w) p = content w p" "inv_ok (w_new it w) p" "loose (w_new it w) p (iw_next w)"
proof -
  let ?w = "w_new it w"
  note D = inv_okD [OF ok]
  have fresh: "iw_heap w (iw_next w) = None" using D(1) by (simp add: heap_shape_def)
  have heap: "iw_heap ?w = (iw_heap w)(iw_next w \<mapsto> it)" by (simp add: w_new_def)
  have inv: "iw_inv ?w = iw_inv w" by (simp add: w_new_def)
  have old: "b \<noteq> iw_next w" if "content w p x = Some b" for x b
    using placed_live [OF ok that] fresh by auto
  have sc: "slot_content ?w p t = slot_content w p t" for t by (simp add: slot_content_def inv)
  have "content ?w p (c, j) = content w p (c, j)" for c j
    using old [of "(-1, c)"] by (cases "slot_content w p c") (auto simp: content_def sc heap)
  then show C: "content ?w p = content w p" by (metis ext surj_pair)
  have g: "guid_at ?w (content w p x) = guid_at w (content w p x)" for x
    using old [of x] by (cases "content w p x") (simp_all add: guid_at_def heap)
  have "heap_shape ?w"
    using D(1) it(1) by (auto simp: heap_shape_def w_new_def)
  moreover have "inv_lengths ?w p" using D(2) by (simp add: inv_lengths_def inv)
  moreover have "owned ?w p" using D(3) old unfolding owned_def C heap by (metis fun_upd_other)
  moreover have "once ?w p" using D(4) by (simp add: once_def C)
  moreover have "flat ?w p" using D(5) old unfolding flat_def C heap by (metis fun_upd_other)
  moreover have "iv_fields (iw_inv ?w p) ! nat t = guid_at ?w (slot_content ?w p t)" if "own_slot t" for t
    using mirrored_slot [OF D(6) that] g [of "(-1, t)"] by (simp add: sc inv)
  moreover have "it_slot_fields en ! nat j = guid_at ?w (bag_content en j)"
    if "slot_content ?w p t = Some e" "iw_heap ?w e = Some en" "it_container en" "0 \<le> j" "j < uint (pr_ContainerSlots (it_proto en))" for t e en j
  proof -
    have e: "slot_content w p t = Some e" using that(1) by (simp add: sc)
    with old [of "(-1, t)"] that(2) have en: "iw_heap w e = Some en" by (simp add: heap)
    have "t \<noteq> -1" using slot_content_range [OF e] by simp
    with content_bag [OF e en, of j] g [of "(t, j)"] mirrored_bag [OF D(6) e en that(3-5)] show ?thesis by simp
  qed
  ultimately show "inv_ok ?w p" unfolding inv_ok_def mirrored_def by blast
  show "loose ?w p (iw_next w)" using old it(2) by (auto simp: loose_def unplaced_def C heap)
qed

text \<open>The prototypes of bags have at most as many slots as a bag has fields.\<close>

definition bags_fit :: "(u32 \<Rightarrow> item_proto option) \<Rightarrow> bool" where
  "bags_fit protos \<longleftrightarrow> (\<forall>e pr. protos e = Some pr \<longrightarrow> pr_InventoryType pr = INVTYPE_BAG \<longrightarrow> uint (pr_ContainerSlots pr) \<le> 36)"

text \<open>An item that can be loaded: no charter.\<close>

definition loadable :: "(u32 \<Rightarrow> item_proto option) \<Rightarrow> u32 \<Rightarrow> item_world \<Rightarrow> bool" where
  "loadable protos g w \<longleftrightarrow> (\<forall>r. iw_rows w g = Some r \<longrightarrow> ir_entry r \<notin> charters)"

lemma replicate_slots: "it_slots it = replicate 72 None \<Longrightarrow> uint (pr_ContainerSlots (it_proto it)) \<le> 36 \<Longrightarrow> bag_content it j = None"
  by (auto simp: bag_content_def)

lemma LoadItem_ok:
  assumes ok: "inv_ok w p" and fit: "bags_fit protos" and l: "loadable protos g w"
  shows "\<exists>w' r. LoadItem protos g w = Some (w', r) \<and>
    (case r of None \<Rightarrow> w' = w | Some a \<Rightarrow> inv_ok w' p \<and> content w' p = content w p \<and> loose w' p a \<and> iw_heap w a = None)"
proof (cases "\<exists>r pr. iw_rows w g = Some r \<and> protos (ir_entry r) = Some pr")
  case False
  then show ?thesis by (auto simp: LoadItem_def split: option.splits)
next
  case True
  then obtain r pr where r: "iw_rows w g = Some r" "protos (ir_entry r) = Some pr" by blast
  have fresh: "iw_heap w (iw_next w) = None" using inv_okD(1) [OF ok] by (simp add: heap_shape_def)
  have new: "\<exists>it. LoadItem protos g w = Some (w_new it w, Some (iw_next w)) \<and> bag_shape it \<and> bag_empty it"
  proof (cases "pr_InventoryType pr = INVTYPE_BAG")
    case True
    define it where "it = (new_item (or (ucast (0x50000000 :: u32) * 2 ^ 32) (ucast g)) pr True)\<lparr> it_stack := 1, it_flags := ir_flags r,
      it_num_slots := pr_ContainerSlots pr \<rparr>"
    have "uint (pr_ContainerSlots pr) \<le> 36" using fit r(2) True unfolding bags_fit_def by blast
    then have "bag_shape it" "bag_empty it" by (auto simp: it_def new_item_def bag_shape_def bag_empty_def bag_content_def)
    moreover have "LoadItem protos g w = Some (w_new it w, Some (iw_next w))"
      using True r by (simp add: LoadItem_def w_new_def it_def Let_def)
    ultimately show ?thesis by blast
  next
    case False
    define it where "it = (new_item (or (ucast (0x40000000 :: u32) * 2 ^ 32) (ucast g)) pr False)\<lparr> it_wrapped := ir_wrapped r,
      it_stack := min (ir_count r) (pr_MaxCount pr), it_flags := ir_flags r, it_text := ir_text r \<rparr>"
    have "bag_shape it" "bag_empty it" by (auto simp: it_def new_item_def bag_shape_def bag_empty_def bag_content_def)
    moreover have "LoadItem protos g w = Some (w_new it w, Some (iw_next w))"
      using False r l by (simp add: LoadItem_def w_new_def it_def Let_def loadable_def)
    ultimately show ?thesis by blast
  qed
  with w_new [OF ok] fresh show ?thesis by fastforce
qed

lemma CreateItem_ok:
  assumes ok: "inv_ok w p" and fit: "bags_fit protos" and new: "CreateItem protos g e ow w = (w', r)"
  shows "case r of None \<Rightarrow> w' = w | Some a \<Rightarrow> inv_ok w' p \<and> content w' p = content w p \<and> loose w' p a \<and> iw_heap w a = None"
proof (cases "protos e")
  case (Some pr)
  have fresh: "iw_heap w (iw_next w) = None" using inv_okD(1) [OF ok] by (simp add: heap_shape_def)
  have small: "pr_InventoryType pr = INVTYPE_BAG \<Longrightarrow> uint (pr_ContainerSlots pr) \<le> 36" using fit Some unfolding bags_fit_def by blast
  define bag where "bag \<longleftrightarrow> pr_InventoryType pr = INVTYPE_BAG"
  define og :: u64 where "og = (case ow of Some p \<Rightarrow> ucast p | None \<Rightarrow> 0)"
  define it where "it = (new_item (or (ucast (if bag then 0x50000000 else 0x40000000 :: u32) * 2 ^ 32) (ucast g)) pr bag)\<lparr>
    it_owner := ow, it_owner_field := og, it_contained := og, it_stack := 1, it_num_slots := (if bag then pr_ContainerSlots pr else 0) \<rparr>"
  have it1: "w' = w_new it w" "r = Some (iw_next w)"
    using new Some by (simp_all add: CreateItem_def w_new_def it_def bag_def og_def Let_def)
  have it2: "bag_shape it" "bag_empty it"
    using small by (auto simp: it_def bag_def new_item_def bag_shape_def bag_empty_def bag_content_def)
  from w_new [OF ok it2] it1 fresh show ?thesis by simp
qed (use new in \<open>simp add: CreateItem_def\<close>)

section \<open>Runs\<close>

text \<open>What happens to the inventory of one player, with the answer left out.\<close>

datatype item_op =
    OpCreate u32 u32 "u32 option"
  | OpLoad u32
  | OpAdd nat int int
  | OpStore nat
  | OpBank nat
  | OpTake int int bool
  | OpTakeGuid u64 bool
  | OpDiscard int int
  | OpDiscardGuid u64
  | OpSpend u32 u32
  | OpSwap int int bool bool

fun run_item_op :: "(u32 \<Rightarrow> item_proto option) \<Rightarrow> u32 \<Rightarrow> item_op \<Rightarrow> item_world \<Rightarrow> item_world option" where
  "run_item_op protos p (OpCreate g e ow) w = Some (fst (CreateItem protos g e ow w))"
| "run_item_op protos p (OpLoad g) w = map_option fst (LoadItem protos g w)"
| "run_item_op protos p (OpAdd a c s) w = map_option fst (SafeAddItem p a c s w)"
| "run_item_op protos p (OpStore a) w = map_option fst (AddItemToFreeSlot p (Some a) w)"
| "run_item_op protos p (OpBank a) w = map_option fst (AddItemToFreeBankSlot p a w)"
| "run_item_op protos p (OpTake c s destroy) w = map_option fst (SafeRemoveAndRetreiveItemFromSlot p c s destroy w)"
| "run_item_op protos p (OpTakeGuid g destroy) w = map_option fst (SafeRemoveAndRetreiveItemByGuid p g destroy w)"
| "run_item_op protos p (OpDiscard c s) w = map_option fst (SafeFullRemoveItemFromSlot p c s w)"
| "run_item_op protos p (OpDiscardGuid g) w = map_option fst (SafeFullRemoveItemByGuid p g w)"
| "run_item_op protos p (OpSpend e amt) w = map_option fst (RemoveItemAmt p e amt w)"
| "run_item_op protos p (OpSwap s d robes casting) w = SwapItemSlots p robes casting s d w"

text \<open>
  The calls these runs are made of: any item is created, any but a charter is loaded, only an item that is nowhere is
  added (a bag only empty), slot numbers are in range, an amount is taken of an entry whose items are no bags and have
  non-empty stacks, and two different slots are swapped that hold no bags, the first one not empty, stacks that are put
  together being small. A game master's swap is any but the one that puts an item into a second place
  (\<open>barred\<close> with \<open>family_room\<close>, see \<open>it_swap\<close>).
\<close>

fun item_call_ok :: "(u32 \<Rightarrow> item_proto option) \<Rightarrow> u32 \<Rightarrow> item_op \<Rightarrow> item_world \<Rightarrow> bool" where
  "item_call_ok protos p (OpCreate g e ow) w = True"
| "item_call_ok protos p (OpLoad g) w = loadable protos g w"
| "item_call_ok protos p (OpAdd a c s) w = loose w p a"
| "item_call_ok protos p (OpStore a) w = loose w p a"
| "item_call_ok protos p (OpBank a) w = loose w p a"
| "item_call_ok protos p (OpTake c s destroy) w = (c < 118 \<and> s < 118)"
| "item_call_ok protos p (OpTakeGuid g destroy) w = True"
| "item_call_ok protos p (OpDiscard c s) w = (c < 118 \<and> s < 118)"
| "item_call_ok protos p (OpDiscardGuid g) w = True"
| "item_call_ok protos p (OpSpend e amt) w = (simple_entry e p w \<and> 0 < amt)"
| "item_call_ok protos p (OpSwap s d robes casting) w = (0 \<le> s \<and> s < 118 \<and> 0 \<le> d \<and> d < 118 \<and> s \<noteq> d \<and>
     no_bag w (slot_content w p s) \<and> no_bag w (slot_content w p d) \<and>
     (case item_in w p s of None \<Rightarrow> False | Some (a, ia) \<Rightarrow>
        \<not> (barred robes d ia \<and> family_room w p (it_proto ia)) \<and>
        (case item_in w p d of None \<Rightarrow> True | Some (b, ib) \<Rightarrow> stackable ia ib \<longrightarrow> small_stacks ia ib)))"

definition no_items :: "u32 \<Rightarrow> item_world \<Rightarrow> bool" where
  "no_items p w \<longleftrightarrow> iv_items (iw_inv w p) = replicate 118 None \<and> iv_fields (iw_inv w p) = replicate 118 0 \<and> iw_heap w = Map.empty"

inductive item_reach :: "(u32 \<Rightarrow> item_proto option) \<Rightarrow> u32 \<Rightarrow> item_world \<Rightarrow> bool" for protos p where
  start: "no_items p w \<Longrightarrow> item_reach protos p w"
| run: "item_reach protos p w \<Longrightarrow> item_call_ok protos p op w \<Longrightarrow> run_item_op protos p op w = Some w' \<Longrightarrow> item_reach protos p w'"

lemma no_items_ok:
  assumes "no_items p w" shows "inv_ok w p"
proof -
  have sc: "slot_content w p s = None" for s using assms by (auto simp: no_items_def slot_content_def nat_less_iff)
  then have "content w p x = None" for x by (simp add: content_def)
  with assms sc show ?thesis
    by (auto simp: inv_ok_defs no_items_def own_slot_def nat_less_iff)
qed

lemma added_ok: "added p a w w' r \<Longrightarrow> inv_ok w' p"
  by (auto simp: added_def put_at_def same_inv_def split: if_splits)

lemma item_op_ok:
  assumes fit: "bags_fit protos" and ok: "inv_ok w p" and call: "item_call_ok protos p op w"
  shows "\<exists>w'. run_item_op protos p op w = Some w' \<and> inv_ok w' p"
proof (cases op)
  case (OpCreate g e ow)
  obtain w' r where "CreateItem protos g e ow w = (w', r)" by force
  with CreateItem_ok [OF ok fit this] OpCreate ok show ?thesis by (auto split: option.splits)
next
  case (OpLoad g)
  with LoadItem_ok [OF ok fit, of g] call ok show ?thesis by (auto split: option.splits)
next
  case (OpAdd a c s)
  with m_AddItem_ok [OF ok, of a c s] call show ?thesis by (auto simp: SafeAddItem_def dest: added_ok)
next
  case (OpStore a)
  then have l: "loose w p a" using call by simp
  from loose_live [OF l] obtain it where "iw_heap w a = Some it" by blast
  from AddItemToFreeSlot_ok [OF ok l this] OpStore ok show ?thesis by (auto simp: put_at_def split: if_splits)
next
  case (OpBank a)
  then have l: "loose w p a" using call by simp
  from loose_live [OF l] obtain it where "iw_heap w a = Some it" by blast
  from AddItemToFreeBankSlot_ok [OF ok l this] OpBank ok show ?thesis by (auto simp: put_at_def split: if_splits)
next
  case (OpTake c s destroy)
  with SafeRemove_ok [OF ok, of s c destroy] call show ?thesis by (auto simp: same_inv_def taken_from_def split: if_splits)
next
  case (OpTakeGuid g destroy)
  with SafeRemoveByGuid_ok [OF ok, of g destroy] show ?thesis by (auto simp: same_inv_def taken_from_def split: option.splits)
next
  case (OpDiscard c s)
  with SafeFullRemove_ok [OF ok, of s c] call show ?thesis by (auto simp: same_inv_def destroyed_at_def split: if_splits)
next
  case (OpDiscardGuid g)
  with SafeFullRemoveByGuid_ok [OF ok, of g] show ?thesis by (auto simp: same_inv_def destroyed_at_def split: if_splits)
next
  case (OpSpend e amt)
  with RemoveItemAmt_ok [OF ok _ GetItemCount_ok(1) [OF ok], of e amt] call ok show ?thesis by (auto split: if_splits)
next
  case (OpSwap s d robes casting)
  with call obtain a ia where a: "item_in w p s = Some (a, ia)" by (auto split: option.splits)
  then have sa: "slot_content w p s = Some a" "iw_heap w a = Some ia" by (auto simp: item_in_def split: option.splits)
  have small: "small_stacks ia ib" if "item_in w p d = Some (b, ib)" "stackable ia ib" for b ib
    using call OpSwap a that by simp
  have nc: "\<not> it_container ia" using call OpSwap sa by (simp add: no_bag_def)
  show ?thesis
  proof (cases "barred robes d ia")
    case True
    from swap_barred [OF ok _ _ _ _ sa nc True, of casting] True call OpSwap a show ?thesis by (auto simp: same_inv_def)
  next
    case False
    from SwapItemSlots_ok [OF ok _ _ _ _ _ sa _ _ small, where casting = casting] swap_admitted [OF ok _ _ sa False, of casting]
      call OpSwap sa outcome_ok show ?thesis by fastforce
  qed
qed

lemma item_reach_ok: "item_reach protos p w \<Longrightarrow> bags_fit protos \<Longrightarrow> inv_ok w p"
proof (induction rule: item_reach.induct)
  case (run w op w')
  with item_op_ok [of protos w p op] show ?case by auto
qed (rule no_items_ok)

section \<open>The search does not see what does not show\<close>

lemma FindFreeSlot_norm:
  assumes "norm_item c1 = norm_item c" shows "FindFreeSlot c1 = FindFreeSlot c"
proof -
  have "it_slots c1 = it_slots c" using arg_cong [OF assms, of it_slots] by simp
  moreover have "it_num_slots c1 = it_num_slots c" using arg_cong [OF assms, of it_num_slots] by simp
  ultimately show ?thesis by (simp add: FindFreeSlot_def total_slots_def)
qed

lemma bag_with_room_face:
  assumes f: "face w1 = face w"
  shows "bag_with_room w1 p family i = bag_with_room w p family i"
proof (cases "m_pItems w p i")
  case (Some x)
  show ?thesis
  proof (cases x)
    case B: (Some b)
    from heap_face [OF f, of b] have "iw_heap w b = None \<and> iw_heap w1 b = None \<or>
      (\<exists>c c1. iw_heap w b = Some c \<and> iw_heap w1 b = Some c1 \<and> norm_item c1 = norm_item c)"
      by (cases "iw_heap w b"; cases "iw_heap w1 b") auto
    then show ?thesis
    proof (elim disjE exE conjE)
      fix c c1 assume c: "iw_heap w b = Some c" "iw_heap w1 b = Some c1" "norm_item c1 = norm_item c"
      then have "it_container c1 = it_container c" "it_proto c1 = it_proto c" by (metis norm_item_sel(3), metis norm_item_sel(2))
      with c Some B FindFreeSlot_norm [OF c(3)] show ?thesis by (simp add: bag_with_room_def m_pItems_face [OF f])
    qed (use Some B in \<open>simp add: bag_with_room_def m_pItems_face [OF f]\<close>)
  qed (use Some in \<open>simp add: bag_with_room_def m_pItems_face [OF f]\<close>)
qed (simp add: bag_with_room_def m_pItems_face [OF f])

lemma free_inventory_slot_face:
  assumes "face w1 = face w" shows "free_inventory_slot w1 p pr = free_inventory_slot w p pr"
proof -
  have "empty_slot w1 p = empty_slot w p" by (simp add: empty_slot_def fun_eq_iff m_pItems_face [OF assms])
  moreover have "bag_with_room w1 p f = bag_with_room w p f" for f by (rule ext) (rule bag_with_room_face [OF assms])
  ultimately show ?thesis by (simp add: free_inventory_slot_def)
qed

lemma FindFree_face:
  assumes "face w1 = face w" "FindFreeInventorySlot p pr w = Some (v, q)"
  shows "\<exists>v1. FindFreeInventorySlot p pr w1 = Some (v1, q) \<and> face v1 = face w"
  using assms free_inventory_slot_face [OF assms(1), of p pr] by (auto simp: FindFreeInventorySlot_def Let_def split: bind_splits)

section \<open>Properties\<close>

text \<open>
  C3. The inventory is consistent, over all runs from an empty one in which the prototypes of bags have at most 36
  slots and: items are created or loaded (charters are only created); an item that is added is in no place yet, a bag
  moreover empty; slot numbers are below 118; amounts are taken of entries whose items in the inventory are no bags and
  have non-empty stacks; two different slots are swapped, the first one occupied, neither holding a bag, and two stacks
  that may be put together have the same prototype, are not empty and number less than 2^31 together; and a game master
  who must wear robes makes no refused swap while a bag for the family of the item has room (it would put the item into
  a second place). After any such run no item is in two places, every item in it is alive and owned by the
  player, a bag in a bag is empty, the update fields show what is in the slots, and the next such call is
  defined: it reads no freed item and no slot out of bounds.
\<close>

theorem it_consistent:
  assumes "bags_fit protos" "item_reach protos p w"
  shows "once w p \<and> owned w p \<and> flat w p \<and> mirrored w p \<and>
    (\<forall>op. item_call_ok protos p op w \<longrightarrow> run_item_op protos p op w \<noteq> None)"
proof -
  have ok: "inv_ok w p" by (rule item_reach_ok [OF assms(2,1)])
  have "run_item_op protos p op w \<noteq> None" if "item_call_ok protos p op w" for op
    using item_op_ok [OF assms(1) ok that] by auto
  with ok show ?thesis by (auto simp: inv_ok_def)
qed

text \<open>
  C9. An item that is nowhere is stored if there is room for it, and only then: AddItemToFreeSlot puts it into
  one free place of the backpack, the keyring or a bag that takes it, exactly when FindFreeInventorySlot
  finds a place; every other item stays where it is. Without room nothing changes.
\<close>

theorem it_stored:
  assumes ok: "inv_ok w p" and loose: "loose w p a" and it: "iw_heap w a = Some it"
  shows "\<exists>w' r. AddItemToFreeSlot p (Some a) w = Some (w', r) \<and>
    (r = ADD_ITEM_RESULT_OK \<longleftrightarrow> (\<exists>v q. FindFreeInventorySlot p (it_proto it) w = Some (v, q) \<and> sr_Result q)) \<and>
    (if r = ADD_ITEM_RESULT_OK
     then \<exists>x. fits w p (it_proto it) x \<and> inv_ok w' p \<and> content w' p = (content w p)(x \<mapsto> a)
     else w' = w)"
proof -
  from AddItemToFreeSlot_ok [OF ok loose it] obtain w' r where r: "AddItemToFreeSlot p (Some a) w = Some (w', r)"
    "if r = ADD_ITEM_RESULT_OK then \<exists>x. fits w p (it_proto it) x \<and> put_at p a x w w'
     else r = ADD_ITEM_RESULT_ERROR \<and> w' = w \<and> (\<forall>x. \<not> fits w p (it_proto it) x)" by blast
  from FindFree_ok [OF ok, of "it_proto it"] obtain v q where q: "FindFreeInventorySlot p (it_proto it) w = Some (v, q)"
    "if sr_Result q then \<exists>c s. q = sr c s \<and> fits w p (it_proto it) (c, s) else q = no_slot \<and> (\<forall>x. \<not> fits w p (it_proto it) x)" by blast
  have "r = ADD_ITEM_RESULT_OK \<longleftrightarrow> (\<exists>x. fits w p (it_proto it) x)" using r(2) by (cases "r = ADD_ITEM_RESULT_OK") auto
  moreover have "sr_Result q \<longleftrightarrow> (\<exists>x. fits w p (it_proto it) x)" using q(2) by (cases "sr_Result q") auto
  ultimately have "r = ADD_ITEM_RESULT_OK \<longleftrightarrow> sr_Result q" by blast
  moreover have "if r = ADD_ITEM_RESULT_OK then \<exists>x. fits w p (it_proto it) x \<and> inv_ok w' p \<and> content w' p = (content w p)(x \<mapsto> a) else w' = w"
    using r(2) unfolding put_at_def by (cases "r = ADD_ITEM_RESULT_OK") (simp_all, blast)
  ultimately show ?thesis using r(1) q(1) by auto
qed

text \<open>
  C14. What is put into a free place can be taken out of it again: SafeAddItem takes the item, and
  SafeRemoveAndRetreiveItemFromSlot gives the same item back and leaves every place as it was.
\<close>

theorem it_round_trip:
  assumes "inv_ok w p" "loose w p a" "free_place w p (c, s)"
  shows "\<exists>w1 w2. SafeAddItem p a c s w = Some (w1, ADD_ITEM_RESULT_OK) \<and>
    SafeRemoveAndRetreiveItemFromSlot p c s False w1 = Some (w2, Some a) \<and> inv_ok w2 p \<and> content w2 p = content w p"
  using bag.store_then_fetch [OF assms]
  by (auto simp: store_at_def fetch_from_def split: option.splits prod.splits add_result.splits)

text \<open>
  C8. Spending: when the carried places hold at least amt items of an entry whose items are no bags and have
  non-empty stacks, RemoveItemAmt lowers the amount GetItemCount tells by exactly amt, keeps the invariant, leaves
  every item of another entry in its place and returns a number that is not zero; with less than amt it changes
  nothing and returns zero.
\<close>

theorem it_spend:
  assumes "inv_ok w p" "simple_entry e p w" "GetItemCount w p e False = Some n" "0 < amt"
  shows "\<exists>w' r. RemoveItemAmt p e amt w = Some (w', r) \<and>
    (if n < amt then w' = w \<and> r = 0
     else 0 < r \<and> r \<le> amt \<and> inv_ok w' p \<and> GetItemCount w' p e False = Some (n - amt) \<and> spared e p w w')"
  by (rule RemoveItemAmt_ok [OF assms])

text \<open>
  C12. Swapping two different slots of the player's own (0 to 73, 86 to 117), the first one occupied, neither holding a
  bag, where two stacks that may be put together have the same prototype, are not empty and number less than
  2^31 together: SwapItemSlots either puts the first stack on the second one, fills the second one up from the first,
  or exchanges the two items, as the entries, the sizes and the maximum say, and the number of items of any entry in
  the inventory and the bank stays the same. For a game master who must wear the robes a swap into the equipment or the
  bag slots is refused unless the item is of the robes: then nothing moves and the numbers stay the same too - but when
  a bag for the family of the item has room, the item is put there although it stays in its slot, so it is
  in two places.
\<close>

theorem it_swap:
  assumes ok: "inv_ok w p" and o: "own_slot s" "own_slot d" and ne: "s \<noteq> d"
    and a: "slot_content w p s = Some a" "iw_heap w a = Some ia"
    and nb: "no_bag w (Some a)" "no_bag w (slot_content w p d)"
    and small: "\<And>b ib. item_in w p d = Some (b, ib) \<Longrightarrow> stackable ia ib \<Longrightarrow> small_stacks ia ib"
  shows "\<exists>w'. SwapItemSlots p robes casting s d w = Some w' \<and>
    (if barred robes d ia \<and> family_room w p (it_proto ia) then in_two_places p a w w'
     else inv_ok w' p \<and> (\<forall>e. GetItemCount w' p e True = GetItemCount w p e True) \<and>
       (if barred robes d ia then content w' p = content w p \<and> core w' = core w else swap_outcome p s d a ia (item_in w p d) w w'))"
proof -
  have r: "0 \<le> s" "s < 118" "0 \<le> d" "d < 118" using own_slot_range [OF o(1)] own_slot_range [OF o(2)] by simp_all
  have nc: "\<not> it_container ia" using nb(1) a(2) by (simp add: no_bag_def)
  show ?thesis
  proof (cases "barred robes d ia")
    case True
    from swap_barred [OF ok r a nc True, of casting] same_count [OF ok] True show ?thesis by (auto simp: same_inv_def)
  next
    case False
    from SwapItemSlots_ok [OF ok r ne a nb, where casting = casting] small obtain w' where
      w': "SwapItemSlots p False casting s d w = Some w'" "swap_outcome p s d a ia (item_in w p d) w w'" by blast
    with outcome_ok swap_count [OF ok o ne a nb _ w'(2)] small False swap_admitted [OF ok r(1,2) a False, of casting]
    show ?thesis by auto
  qed
qed

text \<open>
  C35. An item can land in the wrong place: when m_AddItem is asked for a slot that is taken, it looks for a free
  place, but if that place is in a bag it uses the number of the bag's slot as a slot of the inventory itself.
  So the item ends in the equipment, unchecked, when that slot is empty, and is refused although there is room when
  it is not.
\<close>

theorem it_misplaced:
  assumes ok: "inv_ok w p" and loose: "loose w p a" and it: "iw_heap w a = Some it"
    and s: "0 \<le> s" "s < 118" "slot_content w p s \<noteq> None"
    and room: "FindFreeInventorySlot p (it_proto it) w = Some (v, sr c t)" "c \<noteq> -1"
  shows "\<exists>w' r. SafeAddItem p a (-1) s w = Some (w', r) \<and> free_place w p (c, t) \<and>
    (if slot_content w p t = None then r = ADD_ITEM_RESULT_OK \<and> content w' p = (content w p)((-1, t) \<mapsto> a)
     else r = ADD_ITEM_RESULT_ERROR \<and> content w' p = content w p)"
proof -
  from FindFree_ok [OF ok, of "it_proto it"] room(1) have fit: "fits w p (it_proto it) (c, t)" by (auto simp: sr_def)
  note b = fits_bounds [OF ok fit]
  define w1 where "w1 = upd_item a (\<lambda>it. it\<lparr> it_dirty := True \<rparr>) w"
  have f1: "face w1 = face w" by (simp add: w1_def norm_item_def)
  have ok1: "inv_ok w1 p" and loose1: "loose w1 p a" using ok inv_ok_face [OF f1] loose_face [OF f1 loose] by simp_all
  have sc1: "slot_content w1 p s \<noteq> None" using s(3) face_norm(5) [OF f1] by simp
  from FindFree_face [OF f1 room(1)] obtain w2 where w2: "FindFreeInventorySlot p (it_proto it) w1 = Some (w2, sr c t)" "face w2 = face w" by blast
  define w3 where "w3 = item_emit (FxDuplicated p (pr_Name1 (it_proto it))) w2"
  have f3: "face w3 = face w" by (simp add: w3_def w2(2))
  have ok3: "inv_ok w3 p" and loose3: "loose w3 p a" using ok inv_ok_face [OF f3] loose_face [OF f3 loose] by simp_all
  from sc1 obtain y where y: "slot_content w1 p s = Some y" by blast
  have settle: "settle_slot p (it_proto it) (-1) s w1 = Some (w3, Some (c, t))"
    using s w2(1) y by (simp add: settle_slot_def GetInventoryItem_content [OF ok1] w3_def Let_def)
  from add_to_slot [OF ok3 loose3 b(2,3), of c] obtain w4 k where k:
    "GetInventoryItem w3 p t \<bind> (\<lambda>x. if x = None then place_in_slot p a t w3 \<bind> (\<lambda>w. item_added p a c t w \<bind> (\<lambda>w. Some (w, ADD_ITEM_RESULT_OK)))
      else Some (w3, ADD_ITEM_RESULT_ERROR)) = Some (w4, k)" "added p a w3 w4 k"
    "slot_content w3 p t = None \<longrightarrow> k = ADD_ITEM_RESULT_OK \<and> put_at p a (-1, t) w3 w4" by metis
  have fresh: "already_there w1 p a = Some False" using already_there_content [OF ok1] loose1 by (simp add: loose_def)
  have "add_settled p a (it_proto it) (-1) s w = Some (w4, k)"
    using k(1) fresh settle by (simp add: add_settled_def w1_def [symmetric] Let_def INVENTORY_SLOT_NOT_SET_def)
  then have run: "SafeAddItem p a (-1) s w = Some (w4, k)" using s it by (simp add: SafeAddItem_def m_AddItem_def MAX_INVENTORY_SLOT_def)
  have sc3: "slot_content w3 p t = slot_content w p t" "content w3 p = content w p" using face_norm(1,5) [OF f3] by simp_all
  show ?thesis
  proof (cases "slot_content w p t")
    case None
    with k(3) sc3 run b(1) show ?thesis by (simp add: put_at_def)
  next
    case (Some x)
    from k(1) Some b sc3(1) have "k = ADD_ITEM_RESULT_ERROR" "w4 = w3" by (simp_all add: GetInventoryItem_content [OF ok3])
    with Some run b(1) sc3(2) show ?thesis by simp
  qed
qed

section \<open>Witnesses\<close>

text \<open>A quiver, two stacks of arrows and a potion, and a player who has none of them yet.\<close>

definition demo_proto :: "u32 \<Rightarrow> u32 \<Rightarrow> u32 \<Rightarrow> u32 \<Rightarrow> u32 \<Rightarrow> item_proto" where
  "demo_proto e t f n m = \<lparr> pr_ItemId = e, pr_InventoryType = t, pr_Class = 0, pr_BagFamily = f, pr_ContainerSlots = n, pr_MaxCount = m,
     pr_Unique = 0, pr_Bonding = 0, pr_Flags = 0, pr_SellPrice = 1, pr_Name1 = ''item'' \<rparr>"

definition demo_quiver :: item where
  "demo_quiver = (new_item 100 (demo_proto 10 INVTYPE_BAG 1 4 1) True)\<lparr> it_stack := 1, it_num_slots := 4 \<rparr>"
definition demo_arrows :: item where "demo_arrows = (new_item 101 (demo_proto 20 0 1 0 200) False)\<lparr> it_stack := 30 \<rparr>"
definition demo_arrows2 :: item where "demo_arrows2 = (new_item 102 (demo_proto 20 0 1 0 200) False)\<lparr> it_stack := 50 \<rparr>"

definition item_demo :: item_world where
  "item_demo = \<lparr> iw_heap = [0 \<mapsto> demo_quiver, 1 \<mapsto> demo_arrows, 2 \<mapsto> demo_arrows2], iw_next = 3,
     iw_inv = (\<lambda>q. \<lparr> iv_items = replicate 118 None, iv_fields = replicate 118 0, iv_result = no_slot, iv_world = False \<rparr>),
     iw_rows = Map.empty, iw_out = [] \<rparr>"

definition item_demo1 :: item_world where "item_demo1 = w_put 1 0 (-1) 19 item_demo"
definition item_demo2 :: item_world where "item_demo2 = w_put 1 2 (-1) 23 item_demo1"
definition item_demo3 :: item_world where "item_demo3 = w_put 1 1 (-1) 24 item_demo2"

lemmas demo_items = demo_quiver_def demo_arrows_def demo_arrows2_def new_item_def demo_proto_def

lemma demo_shape: "bag_shape demo_quiver" "bag_shape demo_arrows" "bag_shape demo_arrows2"
    "bag_empty demo_quiver" "bag_empty demo_arrows" "bag_empty demo_arrows2"
  by (auto simp: demo_items bag_shape_def bag_empty_def bag_content_def)

lemma demo_content: "content item_demo 1 = Map.empty"
proof -
  have "slot_content item_demo 1 s = None" for s by (auto simp: item_demo_def slot_content_def nat_less_iff)
  then show ?thesis by (auto simp: content_def fun_eq_iff)
qed

lemma demo_ok: "inv_ok item_demo 1"
proof -
  have sc: "slot_content item_demo 1 s = None" for s using demo_content by (metis content_slot)
  have "heap_shape item_demo" using demo_shape by (auto simp: heap_shape_def item_demo_def split: if_splits)
  then show ?thesis by (auto simp: inv_ok_defs demo_content sc own_slot_def) (auto simp: item_demo_def nat_less_iff inv_ok_defs)
qed

lemma demo_loose: "a < 3 \<Longrightarrow> loose item_demo 1 a"
proof -
  assume "a < 3"
  then have "a = 0 \<or> a = 1 \<or> a = 2" by arith
  then have "\<exists>it. iw_heap item_demo a = Some it \<and> bag_empty it" using demo_shape by (auto simp: item_demo_def)
  then show ?thesis by (simp add: loose_def unplaced_def demo_content)
qed

lemma put_demo:
  assumes "inv_ok w p" "loose w p a" "0 \<le> s" "s < 118" "content w p (-1, s) = None"
  shows "inv_ok (w_put p a (-1) s w) p" "content (w_put p a (-1) s w) p = (content w p)((-1, s) \<mapsto> a)"
    "b \<noteq> a \<Longrightarrow> loose w p b \<Longrightarrow> loose (w_put p a (-1) s w) p b"
    "iw_heap (w_put p a (-1) s w) = (iw_heap w)(a := map_option (\<lambda>it. it\<lparr> it_owner := Some p \<rparr>) (iw_heap w a))"
proof -
  have v: "valid_place w p (-1, s)" using assms(3,4) by (simp add: valid_place_def)
  show "inv_ok (w_put p a (-1) s w) p" by (rule w_put_ok [OF assms(1,2) v assms(5)])
  show c: "content (w_put p a (-1) s w) p = (content w p)((-1, s) \<mapsto> a)" by (rule w_put_content [OF assms(1,2) v assms(5)])
  show h: "iw_heap (w_put p a (-1) s w) = (iw_heap w)(a := map_option (\<lambda>it. it\<lparr> it_owner := Some p \<rparr>) (iw_heap w a))"
    by (simp add: w_put_def Let_def)
  show "loose (w_put p a (-1) s w) p b" if "b \<noteq> a" "loose w p b" using that by (auto simp: loose_def unplaced_def c h)
qed

lemma demo_heap: "iw_heap item_demo = [0 \<mapsto> demo_quiver, 1 \<mapsto> demo_arrows, 2 \<mapsto> demo_arrows2]"
  by (simp add: item_demo_def)

lemma demo1: "inv_ok item_demo1 1" "content item_demo1 1 = [(-1, 19) \<mapsto> 0]" "loose item_demo1 1 1" "loose item_demo1 1 2"
    "iw_heap item_demo1 = [0 \<mapsto> demo_quiver\<lparr> it_owner := Some 1 \<rparr>, 1 \<mapsto> demo_arrows, 2 \<mapsto> demo_arrows2]"
proof -
  have l: "loose item_demo 1 0" "loose item_demo 1 1" "loose item_demo 1 2" by (rule demo_loose; simp)+
  have e: "content item_demo 1 (-1, 19) = None" by (simp add: demo_content del: content_slot)
  note P = put_demo [OF demo_ok l(1) _ _ e, folded item_demo1_def, simplified]
  show "inv_ok item_demo1 1" by (rule P(1))
  show "content item_demo1 1 = [(-1, 19) \<mapsto> 0]" by (simp only: P(2) demo_content)
  show "loose item_demo1 1 1" "loose item_demo1 1 2" using P(3) l by simp_all
  show "iw_heap item_demo1 = [0 \<mapsto> demo_quiver\<lparr> it_owner := Some 1 \<rparr>, 1 \<mapsto> demo_arrows, 2 \<mapsto> demo_arrows2]"
    unfolding P(4) demo_heap by (auto simp: fun_eq_iff)
qed

lemma demo2: "inv_ok item_demo2 1" "content item_demo2 1 = [(-1, 19) \<mapsto> 0, (-1, 23) \<mapsto> 2]" "loose item_demo2 1 1"
    "iw_heap item_demo2 = [0 \<mapsto> demo_quiver\<lparr> it_owner := Some 1 \<rparr>, 1 \<mapsto> demo_arrows, 2 \<mapsto> demo_arrows2\<lparr> it_owner := Some 1 \<rparr>]"
proof -
  have e: "content item_demo1 1 (-1, 23) = None" by (simp add: demo1(2) del: content_slot)
  note P = put_demo [OF demo1(1,4) _ _ e, folded item_demo2_def, simplified]
  show "inv_ok item_demo2 1" by (rule P(1))
  show "content item_demo2 1 = [(-1, 19) \<mapsto> 0, (-1, 23) \<mapsto> 2]" by (simp only: P(2) demo1(2))
  show "loose item_demo2 1 1" using P(3) demo1(3) by simp
  show "iw_heap item_demo2 = [0 \<mapsto> demo_quiver\<lparr> it_owner := Some 1 \<rparr>, 1 \<mapsto> demo_arrows, 2 \<mapsto> demo_arrows2\<lparr> it_owner := Some 1 \<rparr>]"
    unfolding P(4) demo1(5) by (auto simp: fun_eq_iff)
qed

lemma demo3: "inv_ok item_demo3 1" "content item_demo3 1 = [(-1, 19) \<mapsto> 0, (-1, 23) \<mapsto> 2, (-1, 24) \<mapsto> 1]"
    "iw_heap item_demo3 = [0 \<mapsto> demo_quiver\<lparr> it_owner := Some 1 \<rparr>, 1 \<mapsto> demo_arrows\<lparr> it_owner := Some 1 \<rparr>,
       2 \<mapsto> demo_arrows2\<lparr> it_owner := Some 1 \<rparr>]"
proof -
  have e: "content item_demo2 1 (-1, 24) = None" by (simp add: demo2(2) del: content_slot)
  note P = put_demo [OF demo2(1,3) _ _ e, folded item_demo3_def, simplified]
  show "inv_ok item_demo3 1" by (rule P(1))
  show "content item_demo3 1 = [(-1, 19) \<mapsto> 0, (-1, 23) \<mapsto> 2, (-1, 24) \<mapsto> 1]" by (simp add: P(2) demo2(2) del: fun_upd_apply)
  show "iw_heap item_demo3 = [0 \<mapsto> demo_quiver\<lparr> it_owner := Some 1 \<rparr>, 1 \<mapsto> demo_arrows\<lparr> it_owner := Some 1 \<rparr>,
       2 \<mapsto> demo_arrows2\<lparr> it_owner := Some 1 \<rparr>]"
    unfolding P(4) demo2(4) by (auto simp: fun_eq_iff)
qed

lemma demo_slots: "slot_content item_demo2 1 s = [19 \<mapsto> 0, 23 \<mapsto> 2] s" "slot_content item_demo3 1 s = [19 \<mapsto> 0, 23 \<mapsto> 2, 24 \<mapsto> 1] s"
  using fun_cong [OF demo2(2), of "(-1, s)"] fun_cong [OF demo3(2), of "(-1, s)"] by auto

text \<open>The stack of arrows is stored, and put into slot 30 and taken out again.\<close>

lemma it_stored_witness:
  "\<exists>w' r. AddItemToFreeSlot 1 (Some 1) item_demo2 = Some (w', r) \<and>
    (r = ADD_ITEM_RESULT_OK \<longleftrightarrow> (\<exists>v q. FindFreeInventorySlot 1 (it_proto demo_arrows) item_demo2 = Some (v, q) \<and> sr_Result q)) \<and>
    (if r = ADD_ITEM_RESULT_OK
     then \<exists>x. fits item_demo2 1 (it_proto demo_arrows) x \<and> inv_ok w' 1 \<and> content w' 1 = (content item_demo2 1)(x \<mapsto> 1)
     else w' = item_demo2)"
  by (rule it_stored [OF demo2(1,3)]) (simp add: demo2(4))

lemma it_round_trip_witness:
  "\<exists>w1 w2. SafeAddItem 1 1 (-1) 30 item_demo2 = Some (w1, ADD_ITEM_RESULT_OK) \<and>
    SafeRemoveAndRetreiveItemFromSlot 1 (-1) 30 False w1 = Some (w2, Some 1) \<and> inv_ok w2 1 \<and> content w2 1 = content item_demo2 1"
  by (rule it_round_trip [OF demo2(1,3)]) (simp add: free_place_def valid_place_def demo_slots)

text \<open>Of 80 arrows 60 are spent, over two stacks.\<close>

lemma demo_core3: "core item_demo3 = [0 \<mapsto> it_core (demo_quiver\<lparr> it_owner := Some 1 \<rparr>), 1 \<mapsto> it_core (demo_arrows\<lparr> it_owner := Some 1 \<rparr>),
    2 \<mapsto> it_core (demo_arrows2\<lparr> it_owner := Some 1 \<rparr>)]"
  by (auto simp: core_def demo3(3) fun_eq_iff)

lemma demo_simple: "simple_entry 20 1 item_demo3"
  unfolding simple_entry_def demo3(2) demo_core3 by (auto simp: demo_items split: if_splits)

lemma demo_count: "GetItemCount item_demo3 1 20 False = Some 80"
proof -
  have "amount_at item_demo3 1 20 x = (if x = (-1, 23) then 50 else if x = (-1, 24) then 30 else 0)" for x
    by (cases x) (auto simp: amount_at_def demo3(2) demo_core3 counted_def count_of_def demo_items simp del: content_slot)
  then have "amount_at item_demo3 1 20 = (\<lambda>x. if x = (-1, 23) then 50 else if x = (-1, 24) then 30 else 0)" by (rule ext)
  then have "sum_list (map (amount_at item_demo3 1 20) carried) = sum_list (map (\<lambda>x. if x = (-1, 23) then 50 else if x = (-1, 24) then 30 else 0) carried)"
    by simp
  also have "\<dots> = 80" by (simp add: carried_def slot_places_def bag_places_def slots_def upto.simps inventory_bags_def keyring_def item_consts)
  finally show ?thesis by (simp add: GetItemCount_ok(1) [OF demo3(1)])
qed

lemma it_spend_witness:
  "\<exists>w' r. RemoveItemAmt 1 20 60 item_demo3 = Some (w', r) \<and> 0 < r \<and> r \<le> 60 \<and> inv_ok w' 1 \<and>
    GetItemCount w' 1 20 False = Some 20 \<and> spared 20 1 item_demo3 w'"
  using it_spend [OF demo3(1) demo_simple demo_count, of 60] by simp

text \<open>
  The 30 arrows of slot 24 go on the 50 of slot 23. A game master in robes who moves them to his head puts
  them into the quiver too.
\<close>

lemma demo_item_in: "item_in item_demo3 1 23 = Some (2, demo_arrows2\<lparr> it_owner := Some 1 \<rparr>)" "item_in item_demo3 1 0 = None"
  by (simp_all add: item_in_def demo_slots demo3(3))

lemma demo_family_room: "family_room item_demo3 1 (it_proto (demo_arrows\<lparr> it_owner := Some 1 \<rparr>))"
proof -
  have "plain_bag item_demo3 1 1 19" "free_place item_demo3 1 (19, 0)"
    by (simp_all add: plain_bag_def free_place_def valid_place_def demo_slots demo3 del: content_slot) (simp_all add: demo_items)
  moreover have "pr_BagFamily (it_proto (demo_arrows\<lparr> it_owner := Some 1 \<rparr>)) = 1" by (simp add: demo_items)
  moreover have "(19 :: int) \<in> set inventory_bags" by simp
  ultimately show ?thesis unfolding family_room_def by (auto simp: has_flag_def ITEM_TYPE_KEYRING_def)
qed

lemma it_swap_witness:
  "(\<exists>w'. SwapItemSlots 1 False False 24 23 item_demo3 = Some w' \<and> inv_ok w' 1 \<and>
    merged 1 24 1 2 80 item_demo3 w' \<and> (\<forall>e. GetItemCount w' 1 e True = GetItemCount item_demo3 1 e True)) \<and>
   (\<exists>w' x. SwapItemSlots 1 True False 24 0 item_demo3 = Some w' \<and> x \<noteq> (-1, 24) \<and>
    content w' 1 (-1, 24) = Some 1 \<and> content w' 1 x = Some 1)"
proof -
  let ?ia = "demo_arrows\<lparr> it_owner := Some 1 \<rparr>" and ?ib = "demo_arrows2\<lparr> it_owner := Some 1 \<rparr>"
  have st: "stackable ?ia ?ib" "small_stacks ?ia ?ib" by (simp_all add: stackable_def small_stacks_def demo_items)
  have bar: "\<not> barred False 23 ?ia" "barred True 0 ?ia"
    by (simp_all add: barred_def INVENTORY_SLOT_BAG_END_def demo_items gm_robes_def)
  have swap: "\<exists>w'. SwapItemSlots 1 robes False 24 d item_demo3 = Some w' \<and>
    (if barred robes d ?ia \<and> family_room item_demo3 1 (it_proto ?ia) then in_two_places 1 1 item_demo3 w'
     else inv_ok w' 1 \<and> (\<forall>e. GetItemCount w' 1 e True = GetItemCount item_demo3 1 e True) \<and>
       (if barred robes d ?ia then content w' 1 = content item_demo3 1 \<and> core w' = core item_demo3
        else swap_outcome 1 24 d 1 ?ia (item_in item_demo3 1 d) item_demo3 w'))" if d: "d = 23 \<or> d = 0" for robes d
  proof (rule it_swap [OF demo3(1)])
    show "own_slot 24" "own_slot d" "24 \<noteq> d" using d by (auto simp: own_slot_def)
    show "slot_content item_demo3 1 24 = Some 1" by (simp add: demo_slots)
    show "iw_heap item_demo3 1 = Some ?ia" by (simp add: demo3(3))
    show "no_bag item_demo3 (Some 1)" "no_bag item_demo3 (slot_content item_demo3 1 d)"
      using d by (auto simp: no_bag_def demo_slots demo3(3) demo_items)
    show "small_stacks ?ia ib" if "item_in item_demo3 1 d = Some (b, ib)" "stackable ?ia ib" for b ib
      using that st(2) d by (auto simp: demo_item_in)
  qed
  have "swap_outcome 1 24 23 1 ?ia (item_in item_demo3 1 23) item_demo3 w' = merged 1 24 1 2 80 item_demo3 w'" for w'
    using st(1) by (simp add: swap_outcome_def demo_item_in Let_def) (simp add: demo_items)
  with swap [of 23 False] bar have "\<exists>w'. SwapItemSlots 1 False False 24 23 item_demo3 = Some w' \<and> inv_ok w' 1 \<and>
    merged 1 24 1 2 80 item_demo3 w' \<and> (\<forall>e. GetItemCount w' 1 e True = GetItemCount item_demo3 1 e True)" by auto
  moreover from swap [of 0 True] bar demo_family_room obtain w' where
    w': "SwapItemSlots 1 True False 24 0 item_demo3 = Some w'" "in_two_places 1 1 item_demo3 w'" by auto
  from w'(2) obtain c j where "c \<in> set inventory_bags" and two: "content w' 1 = (content item_demo3 1)((c, j) \<mapsto> 1)"
    unfolding in_two_places_def by blast
  then have "c \<noteq> -1" by simp
  with two demo3(2) have "(c, j) \<noteq> (-1, 24)" "content w' 1 (-1, 24) = Some 1" "content w' 1 (c, j) = Some 1" by (simp_all del: content_slot)
  with w'(1) have "\<exists>w' x. SwapItemSlots 1 True False 24 0 item_demo3 = Some w' \<and> x \<noteq> (-1, 24) \<and>
    content w' 1 (-1, 24) = Some 1 \<and> content w' 1 x = Some 1" by blast
  ultimately show ?thesis by blast
qed

text \<open>Asked for the taken slot 23, the arrows are worn on the head instead of put into the quiver.\<close>

lemma demo_family: "bag_with_room item_demo2 1 1 19 = Some (Some (sr 19 0))"
proof -
  let ?q = "demo_quiver\<lparr> it_owner := Some 1 \<rparr>"
  have "FindFreeSlot ?q = Some 0"
    by (simp add: FindFreeSlot_def total_slots_def demo_items slots_def upto.simps)
  then show ?thesis
    using m_pItems_content [OF demo2(1), of 19]
    by (simp add: bag_with_room_def demo_slots demo2(4)) (simp add: demo_items ITEM_NO_SLOT_AVAILABLE_def)
qed

lemma demo_room: "\<exists>v. FindFreeInventorySlot 1 (it_proto demo_arrows) item_demo2 = Some (v, sr 19 0)"
proof -
  have bags: "inventory_bags = 19 # [20, 21, 22]" by (simp add: inventory_bags_def item_consts slots_def upto.simps)
  have "first_in (bag_with_room item_demo2 1 1) inventory_bags = Some (Some (sr 19 0))" unfolding bags by (simp add: demo_family)
  moreover have "pr_BagFamily (it_proto demo_arrows) = 1" by (simp add: demo_items)
  ultimately have "free_inventory_slot item_demo2 1 (it_proto demo_arrows) = Some (Some (sr 19 0))"
    by (simp add: free_inventory_slot_def or_else_def has_flag_def ITEM_TYPE_KEYRING_def)
  then show ?thesis by (simp add: FindFreeInventorySlot_def Let_def)
qed

lemma it_misplaced_witness:
  "\<exists>w'. SafeAddItem 1 1 (-1) 23 item_demo2 = Some (w', ADD_ITEM_RESULT_OK) \<and> free_place item_demo2 1 (19, 0) \<and>
    content w' 1 = (content item_demo2 1)((-1, 0) \<mapsto> 1)"
proof -
  from demo_room obtain v where v: "FindFreeInventorySlot 1 (it_proto demo_arrows) item_demo2 = Some (v, sr 19 0)" by blast
  have "iw_heap item_demo2 1 = Some demo_arrows" by (simp add: demo2(4))
  from it_misplaced [OF demo2(1,3) this _ _ _ v, of 23] show ?thesis by (auto simp: demo_slots)
qed

text \<open>A player without items loads a stack of arrows from the database.\<close>

definition demo_protos :: "u32 \<Rightarrow> item_proto option" where "demo_protos = [20 \<mapsto> demo_proto 20 0 1 0 200]"

definition item_demo0 :: item_world where
  "item_demo0 = item_demo\<lparr> iw_heap := Map.empty, iw_rows := [7 \<mapsto>
     \<lparr> ir_owner = 1, ir_entry = 20, ir_wrapped = 0, ir_count = 30, ir_flags = 0, ir_text = 0, ir_containerslot = -1, ir_slot = 23 \<rparr>] \<rparr>"

lemma it_consistent_witness:
  "\<exists>w. run_item_op demo_protos 1 (OpLoad 7) item_demo0 = Some w \<and> iw_heap w 3 \<noteq> None \<and> once w 1 \<and> owned w 1 \<and> flat w 1 \<and> mirrored w 1 \<and>
    run_item_op demo_protos 1 (OpStore 3) w \<noteq> None"
proof -
  have fit: "bags_fit demo_protos" by (auto simp: bags_fit_def demo_protos_def demo_proto_def INVTYPE_BAG_def split: if_splits)
  have start: "no_items 1 item_demo0" by (simp add: no_items_def item_demo0_def item_demo_def)
  have call: "item_call_ok demo_protos 1 (OpLoad 7) item_demo0"
    by (simp add: loadable_def item_demo0_def charters_def)
  obtain it where it: "run_item_op demo_protos 1 (OpLoad 7) item_demo0 = Some (w_new it item_demo0)" "\<not> it_container it"
    by (simp add: LoadItem_def item_demo0_def demo_protos_def demo_proto_def INVTYPE_BAG_def charters_def w_new_def item_demo_def new_item_def)
  let ?w = "w_new it item_demo0"
  have reach: "item_reach demo_protos 1 ?w" by (rule item_reach.run [OF item_reach.start [OF start] call it(1)])
  have "bag_shape it" "bag_empty it" using it(2) by (simp_all add: bag_shape_def bag_empty_def bag_content_def)
  from w_new(3) [OF no_items_ok [OF start] this] have "item_call_ok demo_protos 1 (OpStore 3) ?w"
    by (simp add: item_demo0_def item_demo_def)
  moreover have "iw_heap ?w 3 \<noteq> None" by (simp add: w_new_def item_demo0_def item_demo_def)
  ultimately show ?thesis using it_consistent [OF fit reach] it(1) by blast
qed

end
