(* ===== verification/Spec2Isabelle.thy ===== *)
theory Spec2Isabelle
  imports HS_Prelude HS_RingBuffer HS_Queues HS_Guid HS_UpdateMask HS_Crypt HS_Channel HS_ChannelMgr HS_Group
    HS_Events HS_Timers HS_WorldStates HS_Battleground HS_ArathiBasin HS_ArathiRules HS_ArathiGame HS_Guild HS_GuildInv HS_GuildOps HS_GuildRun
    HS_GuildRules HS_GuildPlay HS_GuildGame HS_Items HS_Inventory HS_Stacks HS_ItemsInv HS_ItemOps HS_ItemAdd HS_ItemTake
    HS_ItemCount HS_ItemRemove HS_ItemSwap HS_ItemRobes HS_ItemGame
begin

text \<open>
  \<^bold>\<open>Verification development of the HearthStone-Emu game server.\<close>

  The server (\<open>src/src\<close>) is a logon server, a realm front end and a world server. The world server
  (\<open>hearthstone-world\<close>) is by far the largest part: one process that keeps the objects of the game
  (players, creatures, items) on maps, each map updated by a thread of its own, and answers the packets
  of the clients in sessions. This development models the parts of it that have a state and rules of
  their own and do not rest on floating-point geometry: the byte and element queues of the sockets, the
  header cipher and the packed object ids at the bottom; the timed events every object lives by; the
  world states and the battleground engine with one complete battleground on top of them; the three social
  organisations - chat channels, groups and guilds - with the packet handlers that drive them; and the
  inventory of a player with its bags and stacks.

  \<^bold>\<open>Conventions.\<close> C++ integers that the code computes with are words of their width (\<open>u8\<close>, \<open>u32\<close>, \<open>u64\<close> of \<open>HS_Prelude\<close>),
  so sums and differences wrap as they do in the server. There are three exceptions, named in their theories: the
  sizes and positions of the queues and buffers and the lengths of the cipher are natural numbers (the model is for
  those below 2^32), slot numbers (\<open>int8\<close>) and times (\<open>time_t\<close>) are integers, and array indices that are in
  range by a test are natural numbers. An operation is a function from the state to the
  state after it; what it does to other parts of the server (packets, spells, database statements) is
  a list of effects in the order of the calls. Undefined behaviour - an access outside an array, a freed
  or null pointer, a failed \<open>ASSERT\<close> - is \<^term>\<open>None\<close>, so an operation is shown safe by showing that it
  returns \<open>Some\<close>. Objects the code shares through pointers are cells of a heap. Where the code holds one
  lock over a whole call, the call is one step; a channel packet is one step too, although the code looks the
  channel up under one lock and works on it under another; the histories of a component are inductive predicates
  (\<open>chan_reach\<close>, \<open>cm_reach\<close>, \<open>g_reach\<close>, \<open>ev_reach\<close>, \<open>ab_reach\<close>, \<open>gd_reach\<close>, \<open>item_reach\<close>) whose rules are
  those calls, in any order and with any arguments but those a rule excludes. Three histories exclude calls that the code
  itself lets pass and that break the invariants: \<open>g_reach\<close> (a member added again, a player of another group added to
  a full one, a raid converted again, a malformed row loaded), \<open>item_reach\<close> (a charter loaded, a swap that doubles an
  item) and \<open>gd_reach\<close> (a packet that names no player); the properties say so, and \<open>g_expand_again_loses_members\<close>,
  \<open>g_join\<close> and \<open>it_swap\<close> show what such calls do. Random numbers, the clock, the client's databases (DBC), HMAC-SHA1 and what
  a callback does are arguments.

  \<^bold>\<open>Shared code.\<close> \<open>HS_Prelude\<close>: words, raw memory blocks with checked reads and writes, \<open>std::map\<close> and
  \<open>std::set\<close> as lists ordered by key, loops that may fail, packets, C strings.

  \<^bold>\<open>Network and data structures\<close> (\<open>hearthstone-shared\<close>).
  \<^item> \<open>HS_RingBuffer\<close>: \<open>Network/CircularBuffer.cpp\<close> (\<open>circ_buf\<close>: the block, region A, region B) and
    \<open>Network-New/StraightBuffer.h\<close>. The locale \<open>byte_fifo\<close> is what the sockets rely on; both buffers
    interpret it, and \<open>cb_run_stream\<close> shows that any run delivers exactly the bytes that were put in.
  \<^item> \<open>HS_Queues\<close>: \<open>FastQueue.h\<close> (nodes on a heap), \<open>PreallocatedQueue.h\<close> (a byte array that grows),
    \<open>CircularQueue.h\<close>. The first two interpret the locale \<open>fifo_queue\<close>.
  \<^item> \<open>HS_Guid\<close>: \<open>WoWGuid.h\<close>, the packed object ids, with both ways to unpack them (round trips).
  \<^item> \<open>HS_UpdateMask\<close>: \<open>UpdateMask.h\<close>, the changed fields of an object, on the bytes of its array; the
    locale \<open>index_set\<close> is the set of indices it stands for.
  \<^item> \<open>HS_Crypt\<close>: \<open>RC4Engine.h\<close> and \<open>Auth/WowCrypt.cpp\<close>. Any cipher that xors a key stream interprets
    \<open>stream_cipher\<close>; RC4 does.

  \<^bold>\<open>Events and battlegrounds\<close> (\<open>hearthstone-world\<close>).
  \<^item> \<open>HS_Events\<close>: \<open>EventableObject.cpp\<close>, \<open>EventMgr.h\<close>. Objects and holders share reference-counted
    events; the update pass of a holder runs callbacks that may change everything while it walks its
    list. \<open>upd_loop\<close>, the loop of the pass, has fuel, since a callback that keeps scheduling keeps it going for ever, and
    tells whether it came to its end; \<open>ev_pass_ends\<close> shows that one turn more than the list and the pool have
    entries is enough when callbacks schedule nothing. \<open>ev_reach\<close> are the states the calls lead to. Shown: no freed event is touched, passes end, events run when they are
    due and not after they were cancelled.
  \<^item> \<open>HS_Timers\<close>: what an object sees of that, a sorted list of its timers. The locale \<open>timer_service\<close>
    states it; the event system and the list itself interpret it.
  \<^item> \<open>HS_WorldStates\<close>: \<open>WorldStateManager.cpp\<close>, the numbers the clients of a map display, and the packets that tell them.
  \<^item> \<open>HS_Battleground\<close>: the part of \<open>CBattleground\<close> (\<open>BattlegroundMgr.cpp\<close>) that every battleground runs:
    countdown, spirit guides, queues of the dead, score updates, closing. It keeps its timers in the list of
    \<open>HS_Timers\<close> and its numbers in \<open>HS_WorldStates\<close>. The players present, their positions and the tables
    it reads are the record \<open>bg_env\<close>.
  \<^item> \<open>HS_ArathiBasin\<close>: \<open>ArathiBasin.cpp\<close>, every operation and hook, over the battleground.
    \<open>HS_ArathiRules\<close> states the game as an abstract one over five control points, and that each
    operation keeps the invariant (\<open>ab_ok\<close>: counters, displays and timers agree) and makes moves of that
    game only. \<open>HS_ArathiGame\<close> has the properties. A game ends within 200 firings of one team's resource
    timer because each gives at least 10 of the 2000 resources. Level groups are below 8 where the honor
    tables are read; \<open>ab_honor_overrun\<close> shows what happens at 8.

  \<^bold>\<open>Channels, groups and guilds\<close> (\<open>hearthstone-world\<close>).
  \<^item> \<open>HS_Channel\<close>: \<open>Channel.cpp\<close>, one channel: its members with their flags, bans, owner. The locale
    \<open>guarded_op\<close> is the refusal that all moderator operations share; six of them interpret it.
    \<open>HS_ChannelMgr\<close>: the channel manager, all of \<open>ChannelHandler.cpp\<close>, and the sets \<open>m_channels\<close> of the
    players, with channels on a heap.
  \<^item> \<open>HS_Group\<close>: \<open>Group.cpp\<close>, groups, their subgroups and the player infos that point to them, and the
    row that \<open>SaveToDB\<close> writes and \<open>LoadFromDB\<close> reads; also what a battleground and the arena queue do to a group (its
    flag, its queue mark, its deletion).
  \<^item> \<open>HS_Guild\<close>: \<open>Guild.cpp\<close>, \<open>Guild.h\<close> and \<open>GuildHandler.cpp\<close>: guilds, ranks and members on heaps, the tables
    \<open>guilds\<close>, \<open>guild_ranks\<close>, \<open>guild_data\<close>, the opcodes (\<open>gd_handle\<close>), login, logout and deletion of a character.
    \<open>HS_GuildInv\<close> has the invariant, \<open>HS_GuildOps\<close> and \<open>HS_GuildRun\<close> that each operation is defined and keeps
    it. \<open>HS_GuildRules\<close> states the abstract contract - the roster, and the relation \<open>guild_rule\<close> of what a player
    may do to it - and \<open>HS_GuildPlay\<close> that every operation obeys it. \<open>HS_GuildGame\<close> composes them over runs and has
    the properties. In these theories a condition on a packet or event (\<open>C\<close> of \<open>gd_reach\<close>) is a parameter of
    the runs; a guid counter that has not run through all 32-bit numbers (\<open>gw_hi\<close>, and \<open>idHigh\<close> of the channel manager)
    is the one bound assumed.

  \<^bold>\<open>Items and inventories\<close> (\<open>hearthstone-world\<close>).
  \<^item> \<open>HS_Items\<close>: \<open>Item.cpp\<close>, \<open>Container.cpp\<close> and the searches of \<open>ItemInterface.cpp\<close>: items and bags on a heap,
    the slots of a player, the rows of \<open>playeritems\<close>, \<open>ObjectMgr::CreateItem\<close> and \<open>LoadItem\<close>. \<open>HS_Inventory\<close> has the operations that
    add an item and take one out, \<open>HS_Stacks\<close> those on amounts (\<open>GetItemCount\<close>, \<open>RemoveItemAmt\<close>) and
    \<open>SwapItemSlots\<close>. The fuel of \<open>destroy_item\<close> is the depth of bags in bags; with the invariant, under which
    bags in bags are empty, 2 is enough, and it is 4.
  \<^item> \<open>HS_ItemsInv\<close> has the abstraction (\<open>content\<close>: a partial map from places to items) and the invariant \<open>inv_ok\<close>.
    \<open>HS_ItemOps\<close>, \<open>HS_ItemAdd\<close>, \<open>HS_ItemTake\<close>, \<open>HS_ItemRemove\<close> and \<open>HS_ItemSwap\<close> show of each operation that it is
    defined, keeps the invariant and changes that map in one place; \<open>HS_ItemRobes\<close> what a swap that is refused to a game master
    does instead; \<open>HS_ItemCount\<close> turns the loops of the counts
    into sums over places. \<open>HS_ItemGame\<close> states what callers rely on as the locale \<open>keeper\<close>, which the inventory
    interprets, composes the operations over runs (\<open>item_reach\<close>) and has the properties. The amounts are 32-bit
    sums, so \<open>it_spend\<close> and \<open>it_swap\<close> speak of the counts the code computes, wrap-around included.

  \<^bold>\<open>What the theorems show.\<close> Memory safety over all histories (\<open>ev_memory_safe\<close>, \<open>cm_no_dangling\<close>,
  \<open>gd_no_dangling\<close>, part of \<open>g_world_consistent\<close> and \<open>it_consistent\<close>); invariants that tie the states of several objects
  together; refinement of abstract rules (\<open>ab_plays_rules\<close>, \<open>gd_obeys_rules\<close>, \<open>ev_timers_refine\<close>,
  \<open>ws_players_told\<close>); authority (\<open>ch_authority\<close>, \<open>gd_authority\<close>); conservation of money (\<open>gd_money_conserved\<close>) and
  of items (\<open>it_swap\<close>, \<open>it_spend\<close>); and, where the
  code does not do what it means to, the concrete behaviour with a reachable example
  (\<open>ab_wins_again\<close>, \<open>ab_honor_overrun\<close>, \<open>bg_queue_nearest_choice\<close>, \<open>gd_money_destroyed\<close>, \<open>gd_limit_evaded\<close>,
  \<open>gd_leaderless\<close>, \<open>g_load_shifted\<close>, \<open>it_misplaced\<close>).

  \<^bold>\<open>Not modelled.\<close> Of the modelled components: the moves of items between guild bank and bags, the packets
  that only list guild members, bank and logs, loading of guilds and the tables of their logs and tabs; of the inventory, the rules of what
  may be equipped, prices and buyback, enchantments, durability, saving and loading it as a whole, and the opcodes of
  \<open>ItemHandler.cpp\<close>; swaps of bags are modelled, but \<open>it_swap\<close> is about slots without bags; the unit-field packets of
  groups and everything under \<open>VOICE_CHAT\<close>; teleports into and out of battlegrounds, their queue manager and the
  score board. Of the rest: units, spells, movement, artificial intelligence, maps and collision compute with
  floating-point positions and the client's tables throughout; quests, loot, achievements and the scripts are rules
  content over database tables; the socket engines, the database layer, threads, logging and start-up are
  operating-system and library glue; the logon and realm servers are sockets around OpenSSL and the database.
  Vendored code (\<open>dep\<close>, the collision library, the MD5 code) is left aside.
\<close>

end
